(* ===== verification/Prelude.thy ===== *)
theory Prelude
  imports Complex_Main "HOL-Library.AList" "HOL-Library.Multiset" "HOL-Library.Sublist"
begin

text \<open>
  What the components share: insertion-ordered maps and sets (the JavaScript \<open>Map\<close> and
  \<open>Set\<close>), the stable \<open>Array.prototype.sort\<close> with the interface of the
  comparators it is called with, a left fold with early exit on errors, and generic list facts.
\<close>

named_theorems jmap_simps "lookups in insertion-ordered maps after an operation"
named_theorems jset_simps "membership in insertion-ordered sets after an operation"

section \<open>Insertion-ordered maps\<close>

text \<open>
  A JavaScript \<open>Map\<close> iterates in insertion order: \<open>set\<close> on a present key keeps the
  key's place, on an absent key it appends; \<open>delete\<close> removes the key. Association lists
  with \<open>AList.update\<close> and \<open>AList.delete\<close> do exactly that.
\<close>

type_synonym ('k, 'v) jmap = "('k \<times> 'v) list"

abbreviation jmap_get :: "('k, 'v) jmap \<Rightarrow> 'k \<Rightarrow> 'v option" where
  "jmap_get m k \<equiv> map_of m k"

abbreviation jmap_has :: "('k, 'v) jmap \<Rightarrow> 'k \<Rightarrow> bool" where
  "jmap_has m k \<equiv> map_of m k \<noteq> None"

abbreviation jmap_set :: "'k \<Rightarrow> 'v \<Rightarrow> ('k, 'v) jmap \<Rightarrow> ('k, 'v) jmap" where
  "jmap_set k v m \<equiv> AList.update k v m"

abbreviation jmap_del :: "'k \<Rightarrow> ('k, 'v) jmap \<Rightarrow> ('k, 'v) jmap" where
  "jmap_del k m \<equiv> AList.delete k m"

abbreviation jmap_keys :: "('k, 'v) jmap \<Rightarrow> 'k list" where
  "jmap_keys m \<equiv> map fst m"

abbreviation jmap_values :: "('k, 'v) jmap \<Rightarrow> 'v list" where
  "jmap_values m \<equiv> map snd m"

abbreviation jmap_ok :: "('k, 'v) jmap \<Rightarrow> bool" where
  "jmap_ok m \<equiv> distinct (map fst m)"

lemma jmap_get_set [jmap_simps]:
  "jmap_get (jmap_set k v m) j = (if j = k then Some v else jmap_get m j)"
  by (simp add: update_conv)

lemma jmap_get_del [jmap_simps]:
  "jmap_get (jmap_del k m) j = (if j = k then None else jmap_get m j)"
  by (simp add: delete_conv)

lemma jmap_ok_set [simp, intro]: "jmap_ok m \<Longrightarrow> jmap_ok (jmap_set k v m)"
  by (rule distinct_update)

lemma jmap_ok_del [simp, intro]: "jmap_ok m \<Longrightarrow> jmap_ok (jmap_del k m)"
  by (simp add: distinct_delete)

lemma jmap_keys_set [jmap_simps]: "set (jmap_keys (jmap_set k v m)) = insert k (set (jmap_keys m))"
  by (induction m) auto

lemma jmap_keys_del [jmap_simps]: "set (jmap_keys (jmap_del k m)) = set (jmap_keys m) - {k}"
  by (induction m) auto

lemma jmap_has_keys: "jmap_has m k \<longleftrightarrow> k \<in> set (jmap_keys m)"
  by (simp add: map_of_eq_None_iff)

lemma length_jmap_set:
  "length (jmap_set k v m) = (if jmap_has m k then length m else Suc (length m))"
  by (induction m) auto

lemma jmap_set_absent: "\<not> jmap_has m k \<Longrightarrow> jmap_set k v m = m @ [(k, v)]"
  by (induction m) (auto split: if_splits)

lemma jmap_get_in_set: "jmap_ok m \<Longrightarrow> jmap_get m k = Some v \<longleftrightarrow> (k, v) \<in> set m"
  by (rule map_of_eq_Some_iff)

lemma length_jmap_del:
  "jmap_ok m \<Longrightarrow> length (jmap_del k m) = (if jmap_has m k then length m - 1 else length m)"
proof (induction m)
  case Nil
  then show ?case by simp
next
  case (Cons p m)
  then have notin: "fst p = k \<Longrightarrow> k \<notin> fst ` set m" by auto
  show ?case
  proof (cases "fst p = k")
    case True
    with notin have "jmap_del k m = m" by (simp add: delete_idem)
    with True show ?thesis by simp
  next
    case False
    have "jmap_has m k \<Longrightarrow> 0 < length m" by auto
    with False Cons show ?thesis by (auto simp: Suc_diff_le)
  qed
qed

lemma jmap_set_set: "jmap_ok m \<Longrightarrow>
  set (jmap_set k v m) = insert (k, v) {p \<in> set m. fst p \<noteq> k}"
proof (induction m)
  case (Cons p m)
  then show ?case by (cases p) (auto simp: rev_image_eqI)
qed simp

section \<open>Insertion-ordered sets\<close>

type_synonym 'a jset = "'a list"

definition jset_add :: "'a \<Rightarrow> 'a jset \<Rightarrow> 'a jset" where
  "jset_add x s = (if x \<in> set s then s else s @ [x])"

definition jset_del :: "'a \<Rightarrow> 'a jset \<Rightarrow> 'a jset" where
  "jset_del x s = filter (\<lambda>y. y \<noteq> x) s"

lemma set_jset_add [jset_simps]: "set (jset_add x s) = insert x (set s)"
  by (auto simp: jset_add_def)

lemma set_jset_del [jset_simps]: "set (jset_del x s) = set s - {x}"
  by (auto simp: jset_del_def)

lemma distinct_jset_add [simp, intro]: "distinct s \<Longrightarrow> distinct (jset_add x s)"
  by (simp add: jset_add_def)

lemma distinct_jset_del [simp, intro]: "distinct s \<Longrightarrow> distinct (jset_del x s)"
  by (simp add: jset_del_def)

text \<open>\<open>[...new Set(xs)]\<close>.\<close>

definition js_unique :: "'a list \<Rightarrow> 'a list" where
  "js_unique xs = foldl (\<lambda>s x. jset_add x s) [] xs"

lemma set_js_unique [simp]: "set (js_unique xs) = set xs"
proof -
  have "set (foldl (\<lambda>s x. jset_add x s) s xs) = set s \<union> set xs" for s
    by (induction xs arbitrary: s) (auto simp: jset_simps)
  from this [of "[]"] show ?thesis by (simp add: js_unique_def)
qed

lemma distinct_js_unique [simp]: "distinct (js_unique xs)"
proof -
  have "distinct s \<Longrightarrow> distinct (foldl (\<lambda>s x. jset_add x s) s xs)" for s
    by (induction xs arbitrary: s) auto
  then show ?thesis by (simp add: js_unique_def)
qed

lemma jset_del_absent: "x \<notin> set s \<Longrightarrow> jset_del x s = s"
  unfolding jset_del_def by (rule filter_True) auto

section \<open>Array.prototype.sort\<close>

text \<open>
  ECMAScript requires \<open>sort\<close> to be stable; for a comparator that is a total preorder the
  result is determined by that: it is the stable sorted permutation. The model is a stable
  insertion sort. A comparator returns an integer whose sign is what counts.
\<close>

fun js_insert :: "('a \<Rightarrow> 'a \<Rightarrow> int) \<Rightarrow> 'a \<Rightarrow> 'a list \<Rightarrow> 'a list" where
  "js_insert cmp x [] = [x]"
| "js_insert cmp x (y # ys) = (if cmp x y \<le> 0 then x # y # ys else y # js_insert cmp x ys)"

definition js_sort :: "('a \<Rightarrow> 'a \<Rightarrow> int) \<Rightarrow> 'a list \<Rightarrow> 'a list" where
  "js_sort cmp xs = foldr (js_insert cmp) xs []"

lemma js_sort_Nil [simp]: "js_sort cmp [] = []"
  by (simp add: js_sort_def)

lemma js_sort_Cons [simp]: "js_sort cmp (x # xs) = js_insert cmp x (js_sort cmp xs)"
  by (simp add: js_sort_def)

lemma mset_js_insert [simp]: "mset (js_insert cmp x ys) = add_mset x (mset ys)"
  by (induction ys) auto

lemma mset_js_sort [simp]: "mset (js_sort cmp xs) = mset xs"
  by (induction xs) auto

lemma set_js_insert [simp]: "set (js_insert cmp x ys) = insert x (set ys)"
  by (induction ys) auto

lemma set_js_sort [simp]: "set (js_sort cmp xs) = set xs"
  by (induction xs) auto

lemma length_js_sort [simp]: "length (js_sort cmp xs) = length xs"
  using mset_js_sort by (metis size_mset)

lemma distinct_js_sort [simp]: "distinct (js_sort cmp xs) = distinct xs"
  by (metis mset_js_sort mset_eq_imp_distinct_iff)

text \<open>
  The interface between the sort and its clients: on the elements satisfying \<open>ok\<close> the
  comparator is a total preorder whose sign is antisymmetric.
\<close>

locale js_comparator =
  fixes cmp :: "'a \<Rightarrow> 'a \<Rightarrow> int" and ok :: "'a \<Rightarrow> bool"
  assumes cmp_flip: "ok x \<Longrightarrow> ok y \<Longrightarrow> cmp x y \<le> 0 \<longleftrightarrow> \<not> cmp y x < 0"
    and cmp_trans: "ok x \<Longrightarrow> ok y \<Longrightarrow> ok z \<Longrightarrow> cmp x y \<le> 0 \<Longrightarrow> cmp y z \<le> 0 \<Longrightarrow> cmp x z \<le> 0"
begin

lemma cmp_total: "ok x \<Longrightarrow> ok y \<Longrightarrow> cmp x y \<le> 0 \<or> cmp y x \<le> 0"
  using cmp_flip [of x y] by linarith

lemma insert_sorted:
  assumes "ok x" and "\<forall>y \<in> set ys. ok y" and "sorted_wrt (\<lambda>a b. cmp a b \<le> 0) ys"
  shows "sorted_wrt (\<lambda>a b. cmp a b \<le> 0) (js_insert cmp x ys)"
  using assms
proof (induction ys)
  case Nil
  then show ?case by simp
next
  case (Cons y ys)
  show ?case
  proof (cases "cmp x y \<le> 0")
    case True
    with Cons.prems show ?thesis by (auto intro: cmp_trans)
  next
    case False
    with Cons.prems have "cmp y x \<le> 0" using cmp_total [of x y] by auto
    with False Cons show ?thesis by auto
  qed
qed

lemma sort_sorted:
  "\<forall>x \<in> set xs. ok x \<Longrightarrow> sorted_wrt (\<lambda>a b. cmp a b \<le> 0) (js_sort cmp xs)"
  by (induction xs) (auto intro: insert_sorted)

text \<open>Stability: elements the comparator ties keep their order.\<close>

lemma insert_filter_tied:
  assumes "ok x" and "\<forall>y \<in> set ys. ok y" and "ok a"
    and "sorted_wrt (\<lambda>a b. cmp a b \<le> 0) ys"
  shows "filter (\<lambda>y. cmp a y \<le> 0 \<and> cmp y a \<le> 0) (js_insert cmp x ys) =
         filter (\<lambda>y. cmp a y \<le> 0 \<and> cmp y a \<le> 0) (x # ys)"
  using assms
proof (induction ys)
  case Nil
  then show ?case by simp
next
  case (Cons y ys)
  show ?case
  proof (cases "cmp x y \<le> 0")
    case True
    then show ?thesis by simp
  next
    case False
    then have not_both: "\<not> ((cmp a x \<le> 0 \<and> cmp x a \<le> 0) \<and> (cmp a y \<le> 0 \<and> cmp y a \<le> 0))"
      using Cons.prems cmp_trans [of x a y] by auto
    have IH: "filter (\<lambda>y. cmp a y \<le> 0 \<and> cmp y a \<le> 0) (js_insert cmp x ys) =
         filter (\<lambda>y. cmp a y \<le> 0 \<and> cmp y a \<le> 0) (x # ys)"
      using Cons by auto
    show ?thesis
      using not_both by (auto simp: False IH)
  qed
qed

lemma sort_stable:
  assumes "\<forall>x \<in> set xs. ok x" and "ok a"
  shows "filter (\<lambda>y. cmp a y \<le> 0 \<and> cmp y a \<le> 0) (js_sort cmp xs) =
         filter (\<lambda>y. cmp a y \<le> 0 \<and> cmp y a \<le> 0) xs"
  using assms
proof (induction xs)
  case Nil
  then show ?case by simp
next
  case (Cons x xs)
  then have "filter (\<lambda>y. cmp a y \<le> 0 \<and> cmp y a \<le> 0) (js_insert cmp x (js_sort cmp xs)) =
         filter (\<lambda>y. cmp a y \<le> 0 \<and> cmp y a \<le> 0) (x # js_sort cmp xs)"
    by (intro insert_filter_tied) (auto intro: sort_sorted)
  with Cons show ?case by auto
qed

lemma sort_id: "sorted_wrt (\<lambda>a b. cmp a b \<le> 0) xs \<Longrightarrow> js_sort cmp xs = xs"
proof (induction xs)
  case (Cons x xs)
  then show ?case by (cases xs) auto
qed simp

end

section \<open>Errors as values\<close>

text \<open>
  A fallible function returns a sum, \<open>Inl\<close> for the thrown error. \<open>bind_sum\<close> is
  sequencing: the first error ends the computation.
\<close>

definition bind_sum :: "'e + 'a \<Rightarrow> ('a \<Rightarrow> 'e + 'b) \<Rightarrow> 'e + 'b" where
  "bind_sum r f = (case r of Inl e \<Rightarrow> Inl e | Inr a \<Rightarrow> f a)"

lemma bind_sum_simps [simp]:
  "bind_sum (Inl e) f = Inl e"
  "bind_sum (Inr a) f = f a"
  by (simp_all add: bind_sum_def)

lemma bind_sum_Inr: "bind_sum r f = Inr b \<longleftrightarrow> (\<exists>a. r = Inr a \<and> f a = Inr b)"
  by (cases r) auto

lemma bind_sum_cong [fundef_cong]:
  "r = r' \<Longrightarrow> (\<And>a. r' = Inr a \<Longrightarrow> f a = f' a) \<Longrightarrow> bind_sum r f = bind_sum r' f'"
  by (cases r') auto

fun map_sum_list :: "('a \<Rightarrow> 'e + 'b) \<Rightarrow> 'a list \<Rightarrow> 'e + 'b list" where
  "map_sum_list f [] = Inr []"
| "map_sum_list f (x # xs) =
     bind_sum (f x) (\<lambda>y. bind_sum (map_sum_list f xs) (\<lambda>ys. Inr (y # ys)))"

lemma map_sum_list_Inr_map:
  "(\<And>x. x \<in> set xs \<Longrightarrow> f x = Inr (g x)) \<Longrightarrow> map_sum_list f xs = Inr (map g xs)"
  by (induction xs) auto

lemma map_sum_list_cong [fundef_cong]:
  "xs = ys \<Longrightarrow> (\<And>x. x \<in> set ys \<Longrightarrow> f x = g x) \<Longrightarrow> map_sum_list f xs = map_sum_list g ys"
  by (induction xs arbitrary: ys) auto

section \<open>Lists\<close>

lemma filter_eq_map_filter: "filter P (map f xs) = map f (filter (P \<circ> f) xs)"
  by (simp add: filter_map)

text \<open>The elements that are present, as \<open>filter\<close> on null and undefined leaves them.\<close>

fun some_of :: "'a option list \<Rightarrow> 'a list" where
  "some_of [] = []"
| "some_of (None # xs) = some_of xs"
| "some_of (Some x # xs) = x # some_of xs"

lemma some_of_map: "(\<And>x. x \<in> set xs \<Longrightarrow> f x = Some (g x)) \<Longrightarrow> some_of (map f xs) = map g xs"
  by (induction xs) auto

lemma set_some_of: "set (some_of xs) = {x. Some x \<in> set xs}"
  by (induction xs rule: some_of.induct) auto

lemma foldl_invariant:
  assumes "P s" and "\<And>s x. x \<in> set xs \<Longrightarrow> P s \<Longrightarrow> P (f s x)"
  shows "P (foldl f s xs)"
  using assms by (induction xs arbitrary: s) auto

lemma distinct_take_filter: "distinct xs \<Longrightarrow> distinct (take n (filter P xs))"
  by simp

lemma sorted_wrt_last_elem:
  assumes "sorted_wrt R xs" and "x \<in> set xs"
  shows "x = last xs \<or> R x (last xs)"
  using assms by (cases xs rule: rev_cases) (auto simp: sorted_wrt_append)

lemma append_sep_inj: "c \<notin> set xs \<Longrightarrow> c \<notin> set ys \<Longrightarrow> xs @ c # ps = ys @ c # qs \<Longrightarrow> xs = ys \<and> ps = qs"
proof (induction xs arbitrary: ys)
  case Nil
  then show ?case by (cases ys) auto
next
  case (Cons x xs)
  then show ?case by (cases ys) auto
qed

end
