(* ===== verification/JsValue.thy ===== *)
theory JsValue
  imports Prelude "HOL-Library.Word" "HOL-Library.List_Lexorder" "HOL-Library.Char_ord"
begin

text \<open>
  The values the TypeScript code computes with: numbers, strings, and the dynamic values of
  type \<open>unknown\<close>.

  Numbers. A \<open>number\<close> is a rational or one of NaN and the infinities, with the arithmetic
  and the comparisons of IEEE 754 on the special values. Rounding, overflow to infinity and
  the sign of zero are not modelled (a zero divisor counts as positive zero).

  Strings. A \<open>char\<close> stands for the UTF-16 code unit with the same number, so a model
  string is a JavaScript string whose code units are at most U+00FF. \<open>toLowerCase\<close>, the
  character classes of Unicode and UTF-8 are written out for this range and agree with
  ECMAScript on it; the range is closed under \<open>toLowerCase\<close>.
\<close>

section \<open>Numbers\<close>

datatype jsnum = NaN | PInf | NInf | Fin rat

instantiation jsnum :: "{ord, zero, one, plus, uminus, minus, times, inverse}"
begin

definition zero_jsnum :: jsnum where "0 = Fin 0"
definition one_jsnum :: jsnum where "1 = Fin 1"

fun less_jsnum :: "jsnum \<Rightarrow> jsnum \<Rightarrow> bool" where
  "less_jsnum NaN y \<longleftrightarrow> False"
| "less_jsnum x NaN \<longleftrightarrow> False"
| "less_jsnum PInf y \<longleftrightarrow> False"
| "less_jsnum x NInf \<longleftrightarrow> False"
| "less_jsnum NInf y \<longleftrightarrow> True"
| "less_jsnum x PInf \<longleftrightarrow> True"
| "less_jsnum (Fin a) (Fin b) \<longleftrightarrow> a < b"

definition less_eq_jsnum :: "jsnum \<Rightarrow> jsnum \<Rightarrow> bool" where
  "x \<le> y \<longleftrightarrow> (x :: jsnum) < y \<or> (x = y \<and> x \<noteq> NaN)"

fun plus_jsnum :: "jsnum \<Rightarrow> jsnum \<Rightarrow> jsnum" where
  "plus_jsnum NaN y = NaN"
| "plus_jsnum x NaN = NaN"
| "plus_jsnum PInf y = (if y = NInf then NaN else PInf)"
| "plus_jsnum NInf y = (if y = PInf then NaN else NInf)"
| "plus_jsnum (Fin a) PInf = PInf"
| "plus_jsnum (Fin a) NInf = NInf"
| "plus_jsnum (Fin a) (Fin b) = Fin (a + b)"

fun uminus_jsnum :: "jsnum \<Rightarrow> jsnum" where
  "uminus_jsnum NaN = NaN"
| "uminus_jsnum PInf = NInf"
| "uminus_jsnum NInf = PInf"
| "uminus_jsnum (Fin a) = Fin (- a)"

definition minus_jsnum :: "jsnum \<Rightarrow> jsnum \<Rightarrow> jsnum" where
  "x - y = x + (- y :: jsnum)"

definition inf_of_sign :: "rat \<Rightarrow> jsnum" where
  "inf_of_sign s = (if s = 0 then NaN else if 0 < s then PInf else NInf)"

definition num_sign :: "jsnum \<Rightarrow> rat" where
  "num_sign x = (case x of NaN \<Rightarrow> 0 | PInf \<Rightarrow> 1 | NInf \<Rightarrow> - 1 | Fin a \<Rightarrow> sgn a)"

definition times_jsnum :: "jsnum \<Rightarrow> jsnum \<Rightarrow> jsnum" where
  "x * y = (case (x, y) of
     (NaN, _) \<Rightarrow> NaN
   | (_, NaN) \<Rightarrow> NaN
   | (Fin a, Fin b) \<Rightarrow> Fin (a * b)
   | _ \<Rightarrow> inf_of_sign (num_sign x * num_sign y))"

definition divide_jsnum :: "jsnum \<Rightarrow> jsnum \<Rightarrow> jsnum" where
  "divide x y = (case (x, y) of
     (NaN, _) \<Rightarrow> NaN
   | (_, NaN) \<Rightarrow> NaN
   | (Fin a, Fin b) \<Rightarrow> (if b = 0 then inf_of_sign a else Fin (a / b))
   | (Fin a, _) \<Rightarrow> Fin 0
   | (_, Fin b) \<Rightarrow> (if b < 0 then inf_of_sign (- num_sign x) else inf_of_sign (num_sign x))
   | _ \<Rightarrow> NaN)"

definition inverse_jsnum :: "jsnum \<Rightarrow> jsnum" where
  "inverse x = divide 1 (x :: jsnum)"

instance ..

end

definition is_fin :: "jsnum \<Rightarrow> bool" where
  "is_fin x = (case x of Fin _ \<Rightarrow> True | _ \<Rightarrow> False)"

lemma is_fin_simps [simp]: "is_fin (Fin a)" "\<not> is_fin NaN" "\<not> is_fin PInf" "\<not> is_fin NInf"
  by (simp_all add: is_fin_def)

lemma is_fin_iff: "is_fin x \<longleftrightarrow> (\<exists>a. x = Fin a)"
  by (cases x) auto

lemma jsnum_fin_simps [simp]:
  "Fin a < Fin b \<longleftrightarrow> a < b"
  "Fin a \<le> Fin b \<longleftrightarrow> a \<le> b"
  "Fin a + Fin b = Fin (a + b)"
  "Fin a - Fin b = Fin (a - b)"
  "- Fin a = Fin (- a)"
  "Fin a * Fin b = Fin (a * b)"
  "b \<noteq> 0 \<Longrightarrow> Fin a / Fin b = Fin (a / b)"
  by (auto simp: less_eq_jsnum_def minus_jsnum_def times_jsnum_def divide_jsnum_def)

lemma jsnum_nan_simps [simp]:
  "\<not> NaN < x" "\<not> x < NaN" "\<not> NaN \<le> x" "\<not> x \<le> NaN"
  "NaN + x = NaN" "x + NaN = NaN" "NaN - x = NaN" "x - NaN = NaN" "NaN * x = NaN" "x * NaN = NaN"
  by (cases x; simp add: less_eq_jsnum_def minus_jsnum_def times_jsnum_def)+

text \<open>\<open>Math.max\<close> and \<open>Math.min\<close> of two arguments: NaN if either is.\<close>

definition js_max :: "jsnum \<Rightarrow> jsnum \<Rightarrow> jsnum" where
  "js_max x y = (if x = NaN \<or> y = NaN then NaN else if x < y then y else x)"

definition js_min :: "jsnum \<Rightarrow> jsnum \<Rightarrow> jsnum" where
  "js_min x y = (if x = NaN \<or> y = NaN then NaN else if y < x then y else x)"

definition js_floor :: "jsnum \<Rightarrow> jsnum" where
  "js_floor x = (case x of Fin a \<Rightarrow> Fin (of_int \<lfloor>a\<rfloor>) | _ \<Rightarrow> x)"

definition js_is_integer :: "jsnum \<Rightarrow> bool" where
  "js_is_integer x = (case x of Fin a \<Rightarrow> a = of_int \<lfloor>a\<rfloor> | _ \<Rightarrow> False)"

lemma js_max_fin [simp]: "js_max (Fin a) (Fin b) = Fin (max a b)"
  by (simp add: js_max_def max_def)

lemma js_min_fin [simp]: "js_min (Fin a) (Fin b) = Fin (min a b)"
  by (simp add: js_min_def min_def)

lemma js_floor_fin [simp]: "js_floor (Fin a) = Fin (of_int \<lfloor>a\<rfloor>)"
  by (simp add: js_floor_def)

text \<open>The sign \<open>sort\<close> reads off a numeric comparator result (NaN counts as zero).\<close>

definition num_cmp :: "jsnum \<Rightarrow> int" where
  "num_cmp d = (if d < Fin 0 then - 1 else if Fin 0 < d then 1 else 0)"

lemma num_cmp_fin [simp]: "num_cmp (Fin a) = (if a < 0 then - 1 else if 0 < a then 1 else 0)"
  by (simp add: num_cmp_def)

section \<open>Strings\<close>

definition lower_char :: "char \<Rightarrow> char" where
  "lower_char c =
     (let n = of_char c :: nat
      in if (65 \<le> n \<and> n \<le> 90) \<or> (192 \<le> n \<and> n \<le> 222 \<and> n \<noteq> 215) then char_of (n + 32) else c)"

definition js_lower :: "string \<Rightarrow> string" where
  "js_lower s = map lower_char s"

lemma length_js_lower [simp]: "length (js_lower s) = length s"
  by (simp add: js_lower_def)

lemma js_lower_Nil [simp]: "js_lower s = [] \<longleftrightarrow> s = []"
  by (simp add: js_lower_def)

lemma js_lower_append: "js_lower (s @ t) = js_lower s @ js_lower t"
  by (simp add: js_lower_def)

lemma lower_char_nat:
  "of_char (lower_char c) =
     (if (65 \<le> (of_char c :: nat) \<and> (of_char c :: nat) \<le> 90) \<or>
         (192 \<le> (of_char c :: nat) \<and> (of_char c :: nat) \<le> 222 \<and> (of_char c :: nat) \<noteq> 215)
      then of_char c + 32 else (of_char c :: nat))"
  by (auto simp: lower_char_def Let_def)

lemma lower_char_idem [simp]: "lower_char (lower_char c) = lower_char c"
proof -
  have "(of_char (lower_char (lower_char c)) :: nat) = of_char (lower_char c)"
    by (subst lower_char_nat) (auto simp: lower_char_nat)
  then show ?thesis by simp
qed

lemma js_lower_idem [simp]: "js_lower (js_lower s) = js_lower s"
  by (simp add: js_lower_def)

text \<open>The class \<open>[\p{L}\p{N}]\<close> (letters and numbers of Unicode) up to U+00FF.\<close>

definition is_word_char :: "char \<Rightarrow> bool" where
  "is_word_char c =
     (let n = of_char c :: nat
      in (48 \<le> n \<and> n \<le> 57) \<or> (65 \<le> n \<and> n \<le> 90) \<or> (97 \<le> n \<and> n \<le> 122) \<or>
         n \<in> {170, 178, 179, 181, 185, 186, 188, 189, 190} \<or>
         (192 \<le> n \<and> n \<le> 255 \<and> n \<noteq> 215 \<and> n \<noteq> 247))"

lemma is_word_char_lower [simp]: "is_word_char (lower_char c) = is_word_char c"
  unfolding is_word_char_def lower_char_nat Let_def
  using of_char_of [of "of_char c :: nat"] by auto

text \<open>\<open>String(n)\<close> of an integer of magnitude below \<open>10\<^sup>2\<^sup>1\<close>: its decimal digits.\<close>

fun digits_of :: "nat \<Rightarrow> string" where
  "digits_of n = (if n < 10 then [char_of (48 + n)] else digits_of (n div 10) @ [char_of (48 + n mod 10)])"

declare digits_of.simps [simp del]

definition int_to_string :: "int \<Rightarrow> string" where
  "int_to_string i = (if i < 0 then CHR ''-'' # digits_of (nat (- i)) else digits_of (nat i))"

fun digits_value :: "nat \<Rightarrow> string \<Rightarrow> nat" where
  "digits_value acc [] = acc"
| "digits_value acc (c # cs) = digits_value (10 * acc + (of_char c - 48)) cs"

lemma digits_value_snoc: "digits_value acc (s @ [c]) = 10 * digits_value acc s + (of_char c - 48)"
  by (induction s arbitrary: acc) auto

lemma digits_value_digits_of: "digits_value 0 (digits_of n) = n"
proof (induction n rule: digits_of.induct)
  case (1 n)
  show ?case
  proof (cases "n < 10")
    case True
    then show ?thesis by (simp add: digits_of.simps [of n] of_char_of)
  next
    case False
    with 1 have "digits_value 0 (digits_of (n div 10)) = n div 10" by simp
    moreover have "(of_char (char_of (48 + n mod 10) :: char) :: nat) = 48 + n mod 10"
      by simp
    ultimately show ?thesis
      using False by (simp add: digits_of.simps [of n] digits_value_snoc)
  qed
qed

lemma digits_of_range: "c \<in> set (digits_of n) \<Longrightarrow> 48 \<le> (of_char c :: nat) \<and> (of_char c :: nat) \<le> 57"
proof (induction n rule: digits_of.induct)
  case (1 n)
  have "(of_char (char_of (48 + n mod 10) :: char) :: nat) = 48 + n mod 10" by simp
  moreover have "n < 10 \<Longrightarrow> (of_char (char_of (48 + n) :: char) :: nat) = 48 + n" by simp
  moreover have "n mod 10 \<le> 9" by simp
  ultimately show ?case
    using 1 by (auto simp: digits_of.simps [of n] split: if_splits)
qed

lemma digits_of_no_sep: "CHR '':'' \<notin> set (digits_of n)" "CHR ''-'' \<notin> set (digits_of n)"
  using digits_of_range [of _ n] by fastforce+

lemma digits_of_inj: "digits_of m = digits_of n \<Longrightarrow> m = n"
  using digits_value_digits_of by metis

lemma int_to_string_inj: "int_to_string i = int_to_string j \<Longrightarrow> i = j"
proof -
  have *: "digits_of a \<noteq> CHR ''-'' # s" for a s
    using digits_of_no_sep(2) [of a] by auto
  assume "int_to_string i = int_to_string j"
  then show ?thesis
    using * by (auto simp: int_to_string_def dest!: digits_of_inj split: if_splits) metis+
qed

lemma int_to_string_no_colon: "CHR '':'' \<notin> set (int_to_string i)"
  using digits_of_no_sep by (auto simp: int_to_string_def)

text \<open>\<open>s.includes(t)\<close>, \<open>s.endsWith(t)\<close> and \<open>s.split(sep)\<close> for a non-empty separator.\<close>

fun str_includes :: "string \<Rightarrow> string \<Rightarrow> bool" where
  "str_includes [] t = (t = [])"
| "str_includes (c # s) t = (take (length t) (c # s) = t \<or> str_includes s t)"

definition starts_with :: "string \<Rightarrow> string \<Rightarrow> bool" where
  "starts_with s t = (take (length t) s = t)"

definition ends_with :: "string \<Rightarrow> string \<Rightarrow> bool" where
  "ends_with s t = (length t \<le> length s \<and> drop (length s - length t) s = t)"

lemma starts_with_prefix: "starts_with s t \<longleftrightarrow> prefix t s"
  by (metis append_eq_conv_conj append_take_drop_id prefix_def starts_with_def)

lemma ends_with_suffix: "ends_with s t \<longleftrightarrow> suffix t s"
  unfolding ends_with_def suffix_def
  by (auto intro: exI [of _ "take (length s - length t) s"]) (metis append_take_drop_id)

lemma str_includes_sublist: "str_includes s t \<longleftrightarrow> sublist t s"
proof (induction s)
  case (Cons c s)
  then show ?case
    using starts_with_prefix [of "c # s" t] by (simp add: starts_with_def sublist_Cons_right)
qed simp

function split_go :: "string \<Rightarrow> string \<Rightarrow> string \<Rightarrow> string list" where
  "split_go sep acc s =
     (case s of
        [] \<Rightarrow> [rev acc]
      | c # cs \<Rightarrow>
          if sep \<noteq> [] \<and> starts_with s sep then rev acc # split_go sep [] (drop (length sep) s)
          else split_go sep (c # acc) cs)"
  by pat_completeness auto
termination
  by (relation "measure (\<lambda>(sep, acc, s). length s)") auto

declare split_go.simps [simp del]

definition js_split :: "string \<Rightarrow> string \<Rightarrow> string list" where
  "js_split sep s = split_go sep [] s"

fun js_join :: "string \<Rightarrow> string list \<Rightarrow> string" where
  "js_join sep [] = []"
| "js_join sep [s] = s"
| "js_join sep (s # t # ts) = s @ sep @ js_join sep (t # ts)"

lemma split_go_nonempty: "split_go sep acc s \<noteq> []"
  by (induction sep acc s rule: split_go.induct) (subst split_go.simps, auto split: list.splits)

lemma split_go_join: "sep \<noteq> [] \<Longrightarrow> js_join sep (split_go sep acc s) = rev acc @ s"
proof (induction sep acc s rule: split_go.induct)
  case (1 sep acc s)
  show ?case
  proof (cases s)
    case Nil
    then show ?thesis by (simp add: split_go.simps)
  next
    case (Cons c cs)
    show ?thesis
    proof (cases "starts_with s sep")
      case True
      have step: "split_go sep acc s = rev acc # split_go sep [] (drop (length sep) s)"
        using True Cons 1(3) by (subst split_go.simps) simp
      have IH: "js_join sep (split_go sep [] (drop (length sep) s)) = drop (length sep) s"
        using 1(1) [OF Cons] True Cons 1(3) by simp
      obtain t ts where ts: "split_go sep [] (drop (length sep) s) = t # ts"
        using split_go_nonempty by (cases "split_go sep [] (drop (length sep) s)") blast+
      from True have "sep @ drop (length sep) s = s"
        by (metis append_take_drop_id starts_with_def)
      with step IH ts show ?thesis by (metis js_join.simps(3))
    next
      case False
      then have "split_go sep acc s = split_go sep (c # acc) cs"
        using Cons by (subst split_go.simps) simp
      with 1(2) [OF Cons] False Cons 1(3) show ?thesis by simp
    qed
  qed
qed

lemma js_split_join: "sep \<noteq> [] \<Longrightarrow> js_join sep (js_split sep s) = s"
  by (simp add: js_split_def split_go_join)

lemma js_split_nonempty [simp]: "js_split sep s \<noteq> []"
  by (simp add: js_split_def split_go_nonempty)

section \<open>UTF-8\<close>

type_synonym byte = "8 word"

definition utf8_char :: "char \<Rightarrow> byte list" where
  "utf8_char c =
     (let n = of_char c :: nat
      in if n < 128 then [of_nat n] else [of_nat (192 + n div 64), of_nat (128 + n mod 64)])"

definition utf8_encode :: "string \<Rightarrow> byte list" where
  "utf8_encode s = concat (map utf8_char s)"

text \<open>
  \<open>None\<close> stands for a byte sequence whose decoding holds a character above U+00FF (the
  replacement character U+FFFD of an ill-formed sequence included): it is outside the model.
\<close>

fun utf8_decode :: "byte list \<Rightarrow> string option" where
  "utf8_decode [] = Some []"
| "utf8_decode (b # bs) =
     (if unat b < 128 then map_option ((#) (char_of (unat b))) (utf8_decode bs)
      else case bs of
        [] \<Rightarrow> None
      | b' # bs' \<Rightarrow>
          if (unat b = 194 \<or> unat b = 195) \<and> 128 \<le> unat b' \<and> unat b' < 192
          then map_option ((#) (char_of ((unat b - 192) * 64 + (unat b' - 128)))) (utf8_decode bs')
          else None)"

lemma unat_of_nat_byte: "n < 256 \<Longrightarrow> unat (of_nat n :: byte) = n"
  by (simp add: unat_of_nat)

lemma utf8_decode_char:
  "utf8_decode (utf8_char c @ bs) = map_option ((#) c) (utf8_decode bs)"
proof (cases "(of_char c :: nat) < 128")
  case True
  then show ?thesis by (simp add: utf8_char_def Let_def unat_of_nat_byte)
next
  case False
  let ?n = "of_char c :: nat"
  have lt: "?n < 256" by simp
  then have hi: "?n div 64 = 2 \<or> ?n div 64 = 3" using False by linarith
  have lo: "?n mod 64 < 64" by simp
  have u1: "unat (of_nat (192 + ?n div 64) :: byte) = 192 + ?n div 64"
    by (rule unat_of_nat_byte) (use hi in linarith)
  have u2: "unat (of_nat (128 + ?n mod 64) :: byte) = 128 + ?n mod 64"
    by (rule unat_of_nat_byte) (use lo in linarith)
  have recombine: "?n div 64 * 64 + ?n mod 64 = ?n" by simp
  have enc: "utf8_char c = [of_nat (192 + ?n div 64), of_nat (128 + ?n mod 64)]"
    using False by (simp add: utf8_char_def Let_def del: of_nat_add)
  show ?thesis
    unfolding enc append.simps utf8_decode.simps list.case u1 u2
    using hi lo recombine by auto
qed

lemma utf8_roundtrip: "utf8_decode (utf8_encode s) = Some s"
  by (induction s) (simp_all add: utf8_encode_def utf8_decode_char)

section \<open>Dynamic values\<close>

text \<open>
  Values of type \<open>unknown\<close>: JSON-like data and \<open>undefined\<close>. An object is the list of its
  own enumerable properties in the order of \<open>Object.entries\<close>. Objects are compared by
  identity in JavaScript; two values of the model never share an object, so strict equality is
  false on arrays and objects.
\<close>

datatype jsval = JUndef | JNull | JBool bool | JNum jsnum | JStr string
  | JArr "jsval list" | JObj "(string \<times> jsval) list"

type_synonym jsrec = "(string, jsval) jmap"

definition js_get :: "jsrec \<Rightarrow> string \<Rightarrow> jsval" where
  "js_get r k = (case map_of r k of None \<Rightarrow> JUndef | Some v \<Rightarrow> v)"

definition js_nullish :: "jsval \<Rightarrow> bool" where
  "js_nullish v = (v = JUndef \<or> v = JNull)"

lemma js_nullish_simps [simp]:
  "js_nullish JUndef" "js_nullish JNull" "\<not> js_nullish (JBool b)" "\<not> js_nullish (JNum n)"
  "\<not> js_nullish (JStr s)" "\<not> js_nullish (JArr vs)" "\<not> js_nullish (JObj r)"
  by (simp_all add: js_nullish_def)

text \<open>The object spread \<open>{ ...base, ...over }\<close>.\<close>

definition spread :: "jsrec \<Rightarrow> jsrec \<Rightarrow> jsrec" where
  "spread base over = foldl (\<lambda>m (k, v). jmap_set k v m) base over"

lemma spread_append: "distinct (map fst (base @ r)) \<Longrightarrow> spread base r = base @ r"
proof (induction r arbitrary: base)
  case (Cons p r)
  obtain k v where p: "p = (k, v)" by (cases p)
  with Cons.prems have "jmap_set k v base = base @ [(k, v)]"
    by (intro jmap_set_absent) (auto simp: map_of_eq_None_iff)
  with Cons p show ?case by (simp add: spread_def)
qed (simp add: spread_def)

lemma js_get_set [jmap_simps]: "js_get (jmap_set k v r) j = (if j = k then v else js_get r j)"
  by (simp add: js_get_def jmap_simps)

lemma js_get_del [jmap_simps]: "js_get (jmap_del k r) j = (if j = k then JUndef else js_get r j)"
  by (simp add: js_get_def jmap_simps)

lemma js_get_spread: "k \<notin> set (jmap_keys over) \<Longrightarrow> js_get (spread base over) k = js_get base k"
proof (induction over arbitrary: base)
  case (Cons p over)
  then show ?case by (cases p) (simp add: spread_def jmap_simps)
qed (simp add: spread_def)

text \<open>The strict equality \<open>===\<close> and the \<open>SameValueZero\<close> of \<open>Array.prototype.includes\<close>.\<close>

fun js_seq :: "jsval \<Rightarrow> jsval \<Rightarrow> bool" where
  "js_seq JUndef JUndef = True"
| "js_seq JNull JNull = True"
| "js_seq (JBool a) (JBool b) = (a = b)"
| "js_seq (JNum a) (JNum b) = (a = b \<and> a \<noteq> NaN)"
| "js_seq (JStr a) (JStr b) = (a = b)"
| "js_seq _ _ = False"

definition js_same_value_zero :: "jsval \<Rightarrow> jsval \<Rightarrow> bool" where
  "js_same_value_zero a b = (js_seq a b \<or> (a = JNum NaN \<and> b = JNum NaN))"

definition js_array_includes :: "jsval list \<Rightarrow> jsval \<Rightarrow> bool" where
  "js_array_includes vs v = list_ex (js_same_value_zero v) vs"

lemma js_seq_eq: "js_seq a b \<Longrightarrow> a = b"
  by (induction a b rule: js_seq.induct) auto

lemma js_seq_sym: "js_seq a b = js_seq b a"
  by (induction a b rule: js_seq.induct) auto

text \<open>Scalar values are those strict equality decides structurally (NaN and objects are not).\<close>

definition js_scalar :: "jsval \<Rightarrow> bool" where
  "js_scalar v = (case v of JArr _ \<Rightarrow> False | JObj _ \<Rightarrow> False | JNum n \<Rightarrow> n \<noteq> NaN | _ \<Rightarrow> True)"

lemma js_seq_scalar: "js_scalar a \<Longrightarrow> js_seq a b \<longleftrightarrow> a = b"
  by (cases a; cases b) (auto simp: js_scalar_def)

text \<open>Document identifiers: strings, or numbers, which the model takes to be integers.\<close>

datatype docid = DStr string | DNum int

definition docid_string :: "docid \<Rightarrow> string" where
  "docid_string d = (case d of DStr s \<Rightarrow> s | DNum i \<Rightarrow> int_to_string i)"

text \<open>The \<open>Record<string, unknown>\<close> of token and posting metadata, and its prefix flag.\<close>

definition meta_is_prefix :: "jsrec option \<Rightarrow> bool" where
  "meta_is_prefix m = (case m of None \<Rightarrow> False | Some r \<Rightarrow> js_get r ''isPrefix'' = JBool True)"

lemma meta_is_prefix_None [simp]: "\<not> meta_is_prefix None"
  by (simp add: meta_is_prefix_def)

text \<open>Comparison of strings by code units, as the operators \<open><\<close> and \<open>></\<close> do.\<close>

definition str_cmp :: "string \<Rightarrow> string \<Rightarrow> int" where
  "str_cmp a b = (if a < b then - 1 else if b < a then 1 else 0)"

lemma str_cmp_le: "str_cmp a b \<le> 0 \<longleftrightarrow> a \<le> b"
  by (auto simp: str_cmp_def)

lemma str_cmp_less: "str_cmp a b < 0 \<longleftrightarrow> a < b"
  by (auto simp: str_cmp_def)

lemma str_cmp_self [simp]: "str_cmp a a = 0"
  by (simp add: str_cmp_def)

end
