(* ===== verification/Json.thy ===== *)
theory Json
  imports JsValue
begin

text \<open>
  \<open>JSON.stringify\<close> (without a replacer or indentation) and \<open>JSON.parse\<close> of ECMAScript, as
  the code uses them. \<open>Number.prototype.toString\<close> on a number that is not an integer below
  \<open>10\<^sup>2\<^sup>1\<close> prints the shortest decimal that rounds back; with rounding outside the model it is
  the argument \<open>dtoa\<close>. The parser returns \<open>None\<close> where \<open>JSON.parse\<close> throws, and on
  escapes above U+00FF, which are outside the model's strings.
\<close>

section \<open>Printing\<close>

definition num_to_string :: "(rat \<Rightarrow> string) \<Rightarrow> jsnum \<Rightarrow> string" where
  "num_to_string dtoa x =
     (case x of NaN \<Rightarrow> ''NaN'' | PInf \<Rightarrow> ''Infinity'' | NInf \<Rightarrow> ''-Infinity''
      | Fin a \<Rightarrow> if a = of_int \<lfloor>a\<rfloor> \<and> \<bar>a\<bar> < 10 ^ 21 then int_to_string \<lfloor>a\<rfloor> else dtoa a)"

definition hex_digit :: "nat \<Rightarrow> char" where
  "hex_digit n = (if n < 10 then char_of (48 + n) else char_of (87 + n))"

definition json_escape :: "char \<Rightarrow> string" where
  "json_escape c =
     (let n = of_char c :: nat
      in if n = 34 then [CHR 0x5C, CHR 0x22]
         else if n = 92 then [CHR 0x5C, CHR 0x5C]
         else if n = 8 then [CHR 0x5C, CHR ''b'']
         else if n = 9 then [CHR 0x5C, CHR ''t'']
         else if n = 10 then [CHR 0x5C, CHR ''n'']
         else if n = 12 then [CHR 0x5C, CHR ''f'']
         else if n = 13 then [CHR 0x5C, CHR ''r'']
         else if n < 32 then [CHR 0x5C, CHR ''u'', CHR ''0'', CHR ''0'', hex_digit (n div 16), hex_digit (n mod 16)]
         else [c])"

definition json_quote :: "string \<Rightarrow> string" where
  "json_quote s = CHR 0x22 # concat (map json_escape s) @ [CHR 0x22]"

fun json_val :: "(rat \<Rightarrow> string) \<Rightarrow> jsval \<Rightarrow> string"
  and json_elems :: "(rat \<Rightarrow> string) \<Rightarrow> bool \<Rightarrow> jsval list \<Rightarrow> string"
  and json_fields :: "(rat \<Rightarrow> string) \<Rightarrow> bool \<Rightarrow> (string \<times> jsval) list \<Rightarrow> string" where
  "json_val dtoa JUndef = ''null''"
| "json_val dtoa JNull = ''null''"
| "json_val dtoa (JBool b) = (if b then ''true'' else ''false'')"
| "json_val dtoa (JNum x) = (if is_fin x then num_to_string dtoa x else ''null'')"
| "json_val dtoa (JStr s) = json_quote s"
| "json_val dtoa (JArr vs) = CHR ''['' # json_elems dtoa True vs"
| "json_val dtoa (JObj kvs) = CHR ''{'' # json_fields dtoa True kvs"
| "json_elems dtoa first [] = '']''"
| "json_elems dtoa first (v # vs) =
     (if first then [] else '','') @ json_val dtoa v @ json_elems dtoa False vs"
| "json_fields dtoa first [] = ''}''"
| "json_fields dtoa first ((k, v) # kvs) =
     (if v = JUndef then json_fields dtoa first kvs
      else (if first then [] else '','') @ json_quote k @ '':'' @ json_val dtoa v @
           json_fields dtoa False kvs)"

definition json_stringify :: "(rat \<Rightarrow> string) \<Rightarrow> jsval \<Rightarrow> string option" where
  "json_stringify dtoa v = (if v = JUndef then None else Some (json_val dtoa v))"

section \<open>Parsing\<close>

definition is_digit :: "char \<Rightarrow> bool" where
  "is_digit c = (48 \<le> (of_char c :: nat) \<and> (of_char c :: nat) \<le> 57)"

definition is_json_ws :: "char \<Rightarrow> bool" where
  "is_json_ws c = ((of_char c :: nat) \<in> {9, 10, 13, 32})"

definition skip_ws :: "string \<Rightarrow> string" where
  "skip_ws s = dropWhile is_json_ws s"

definition hex_value :: "char \<Rightarrow> nat option" where
  "hex_value c =
     (let n = of_char c :: nat
      in if 48 \<le> n \<and> n \<le> 57 then Some (n - 48)
         else if 97 \<le> n \<and> n \<le> 102 then Some (n - 87)
         else if 65 \<le> n \<and> n \<le> 70 then Some (n - 55) else None)"

definition unescape :: "char \<Rightarrow> char option" where
  "unescape c =
     (if c = CHR 0x22 \<or> c = CHR 0x5C \<or> c = CHR ''/'' then Some c
      else if c = CHR ''b'' then Some (char_of (8 :: nat))
      else if c = CHR ''t'' then Some (char_of (9 :: nat))
      else if c = CHR ''n'' then Some (char_of (10 :: nat))
      else if c = CHR ''f'' then Some (char_of (12 :: nat))
      else if c = CHR ''r'' then Some (char_of (13 :: nat))
      else None)"

text \<open>The characters of a string literal up to the closing quote.\<close>

fun parse_chars :: "string \<Rightarrow> (string \<times> string) option" where
  "parse_chars [] = None"
| "parse_chars (c # cs) =
     (if c = CHR 0x22 then Some ([], cs)
      else if (of_char c :: nat) < 32 then None
      else if c = CHR 0x5C then
        (case cs of
           [] \<Rightarrow> None
         | e # cs' \<Rightarrow>
             if e = CHR ''u'' then
               (case cs' of
                  a # b # h # l # cs'' \<Rightarrow>
                    (case (hex_value a, hex_value b, hex_value h, hex_value l) of
                       (Some 0, Some 0, Some x, Some y) \<Rightarrow>
                         map_option (\<lambda>(s, r). (char_of (16 * x + y) # s, r)) (parse_chars cs'')
                     | _ \<Rightarrow> None)
                | _ \<Rightarrow> None)
             else
               (case unescape e of
                  None \<Rightarrow> None
                | Some d \<Rightarrow> map_option (\<lambda>(s, r). (d # s, r)) (parse_chars cs')))
      else map_option (\<lambda>(s, r). (c # s, r)) (parse_chars cs))"

text \<open>
  Number literals: sign, integer part without leading zeros, fraction and exponent; the value
  is exact.
\<close>

definition parse_int_part :: "string \<Rightarrow> (nat \<times> string) option" where
  "parse_int_part s =
     (case s of
        [] \<Rightarrow> None
      | c # cs \<Rightarrow>
          if \<not> is_digit c then None
          else if c = CHR ''0'' then Some (0, cs)
          else Some (digits_value 0 (takeWhile is_digit s), dropWhile is_digit s))"

definition parse_frac_part :: "string \<Rightarrow> (rat \<times> string) option" where
  "parse_frac_part s =
     (case s of
        c # cs \<Rightarrow>
          if c = CHR ''.'' then
            (let ds = takeWhile is_digit cs
             in if ds = [] then None
                else Some (of_nat (digits_value 0 ds) / 10 ^ length ds, dropWhile is_digit cs))
          else Some (0, s)
      | [] \<Rightarrow> Some (0, s))"

definition parse_exp_part :: "string \<Rightarrow> (rat \<times> string) option" where
  "parse_exp_part s =
     (case s of
        c # cs \<Rightarrow>
          if c = CHR ''e'' \<or> c = CHR ''E'' then
            (let neg = (case cs of d # _ \<Rightarrow> d = CHR ''-'' | [] \<Rightarrow> False);
                 rest = (case cs of d # ds \<Rightarrow> if d = CHR ''-'' \<or> d = CHR ''+'' then ds else cs | [] \<Rightarrow> []);
                 ds = takeWhile is_digit rest
             in if ds = [] then None
                else Some (if neg then 1 / 10 ^ digits_value 0 ds else 10 ^ digits_value 0 ds,
                           dropWhile is_digit rest))
          else Some (1, s)
      | [] \<Rightarrow> Some (1, s))"

definition parse_number :: "string \<Rightarrow> (rat \<times> string) option" where
  "parse_number s0 =
     (let neg = (case s0 of c # _ \<Rightarrow> c = CHR ''-'' | [] \<Rightarrow> False);
          s = (if neg then tl s0 else s0)
      in case parse_int_part s of
           None \<Rightarrow> None
         | Some (i, s1) \<Rightarrow>
             (case parse_frac_part s1 of
                None \<Rightarrow> None
              | Some (f, s2) \<Rightarrow>
                  (case parse_exp_part s2 of
                     None \<Rightarrow> None
                   | Some (e, s3) \<Rightarrow> Some ((if neg then - 1 else 1) * (of_nat i + f) * e, s3))))"

fun parse_value :: "nat \<Rightarrow> string \<Rightarrow> (jsval \<times> string) option"
  and parse_elems :: "nat \<Rightarrow> string \<Rightarrow> (jsval list \<times> string) option"
  and parse_fields :: "nat \<Rightarrow> jsrec \<Rightarrow> string \<Rightarrow> (jsrec \<times> string) option" where
  "parse_value 0 s = None"
| "parse_value (Suc n) s =
     (case skip_ws s of
        [] \<Rightarrow> None
      | c # cs \<Rightarrow>
          if c = CHR 0x22 then map_option (\<lambda>(t, r). (JStr t, r)) (parse_chars cs)
          else if c = CHR ''['' then
            (if starts_with (skip_ws cs) '']'' then Some (JArr [], tl (skip_ws cs))
             else map_option (\<lambda>(vs, r). (JArr vs, r)) (parse_elems n cs))
          else if c = CHR ''{'' then
            (if starts_with (skip_ws cs) ''}'' then Some (JObj [], tl (skip_ws cs))
             else map_option (\<lambda>(kvs, r). (JObj kvs, r)) (parse_fields n [] cs))
          else if starts_with (c # cs) ''null'' then Some (JNull, drop 4 (c # cs))
          else if starts_with (c # cs) ''true'' then Some (JBool True, drop 4 (c # cs))
          else if starts_with (c # cs) ''false'' then Some (JBool False, drop 5 (c # cs))
          else map_option (\<lambda>(x, r). (JNum (Fin x), r)) (parse_number (c # cs)))"
| "parse_elems 0 s = None"
| "parse_elems (Suc n) s =
     (case parse_value n s of
        None \<Rightarrow> None
      | Some (v, r) \<Rightarrow>
          (case skip_ws r of
             [] \<Rightarrow> None
           | c # cs \<Rightarrow>
               if c = CHR '']'' then Some ([v], cs)
               else if c = CHR '','' then map_option (\<lambda>(vs, r'). (v # vs, r')) (parse_elems n cs)
               else None))"
| "parse_fields 0 acc s = None"
| "parse_fields (Suc n) acc s =
     (case skip_ws s of
        [] \<Rightarrow> None
      | q # qs \<Rightarrow>
          if q \<noteq> CHR 0x22 then None
          else case parse_chars qs of
            None \<Rightarrow> None
          | Some (k, r) \<Rightarrow>
              (case skip_ws r of
                 [] \<Rightarrow> None
               | c # cs \<Rightarrow>
                   if c \<noteq> CHR '':'' then None
                   else case parse_value n cs of
                     None \<Rightarrow> None
                   | Some (v, r') \<Rightarrow>
                       (case skip_ws r' of
                          [] \<Rightarrow> None
                        | d # ds \<Rightarrow>
                            if d = CHR ''}'' then Some (jmap_set k v acc, ds)
                            else if d = CHR '','' then parse_fields n (jmap_set k v acc) ds
                            else None)))"

text \<open>Every call of the parser consumes a character or ends, so \<open>2 * length + 2\<close> steps suffice.\<close>

definition json_parse :: "string \<Rightarrow> jsval option" where
  "json_parse s =
     (case parse_value (2 * length s + 2) s of
        None \<Rightarrow> None
      | Some (v, r) \<Rightarrow> if skip_ws r = [] then Some v else None)"

section \<open>Fuel\<close>

lemma length_skip_ws: "length (skip_ws s) \<le> length s"
  by (simp add: skip_ws_def length_dropWhile_le)

lemma skip_ws_Cons_length: "skip_ws s = c # cs \<Longrightarrow> length cs < length s"
  using length_skip_ws [of s] by simp

lemma parse_chars_step:
  "parse_chars (c # cs) = Some (t, r) \<Longrightarrow>
     r = cs \<or> (\<exists>t' s'. parse_chars s' = Some (t', r) \<and> length s' < length (c # cs))"
  by (auto simp del: not_less split: if_splits list.splits option.splits nat.splits) force+

lemma parse_chars_length: "parse_chars s = Some (t, r) \<Longrightarrow> length r < length s"
proof (induction "length s" arbitrary: s t r rule: less_induct)
  case less
  show ?case
  proof (cases s)
    case Nil
    with less.prems show ?thesis by simp
  next
    case (Cons c cs)
    with less.prems parse_chars_step [of c cs t r] less.hyps show ?thesis by fastforce
  qed
qed

lemma parse_int_part_length: "parse_int_part s = Some (i, r) \<Longrightarrow> length r < length s"
  using length_dropWhile_le [of is_digit "tl s"]
  by (auto simp: parse_int_part_def less_Suc_eq_le split: list.splits if_splits)

lemma parse_frac_part_length: "parse_frac_part s = Some (i, r) \<Longrightarrow> length r \<le> length s"
  using length_dropWhile_le [of is_digit "tl s"]
  by (auto simp: parse_frac_part_def Let_def split: list.splits if_splits)

lemma parse_exp_part_length:
  assumes "parse_exp_part s = Some (i, r)"
  shows "length r \<le> length s"
proof (cases s)
  case Nil
  with assms show ?thesis by (simp add: parse_exp_part_def)
next
  case (Cons c cs)
  have "length (dropWhile is_digit (case cs of d # ds \<Rightarrow> if d = CHR ''-'' \<or> d = CHR ''+'' then ds else cs | [] \<Rightarrow> []))
      \<le> length cs"
    by (rule order_trans [OF length_dropWhile_le]) (simp split: list.split)
  with Cons assms show ?thesis by (auto simp: parse_exp_part_def Let_def split: if_splits)
qed

lemma parse_number_length:
  assumes "parse_number s = Some (x, r)"
  shows "length r < length s"
proof -
  let ?neg = "case s of c # _ \<Rightarrow> c = CHR ''-'' | [] \<Rightarrow> False"
  let ?s = "if ?neg then tl s else s"
  from assms obtain i s1 f s2 e where
    "parse_int_part ?s = Some (i, s1)" "parse_frac_part s1 = Some (f, s2)" "parse_exp_part s2 = Some (e, r)"
    by (auto simp: parse_number_def Let_def split: option.splits)
  then have "length r < length ?s"
    using parse_int_part_length parse_frac_part_length parse_exp_part_length by (meson le_less_trans le_trans)
  also have "\<dots> \<le> length s" by simp
  finally show ?thesis .
qed

lemma parse_lengths:
  "parse_value n s = Some (v, r) \<Longrightarrow> length r < length s"
  "parse_elems n s = Some (vs, r) \<Longrightarrow> length r < length s"
  "parse_fields n acc s = Some (kvs, r) \<Longrightarrow> length r < length s"
proof (induction n s and n s and n acc s arbitrary: v r and vs r and kvs r
    rule: parse_value_parse_elems_parse_fields.induct)
  case (2 n s)
  show ?case
  proof (cases "skip_ws s")
    case Nil
    with 2 show ?thesis by simp
  next
    case (Cons c cs)
    have l: "length cs < length s" by (rule skip_ws_Cons_length [OF Cons])
    have m: "length (tl (skip_ws cs)) \<le> length cs" using length_skip_ws [of cs] by simp
    have d: "length (drop k (c # cs)) < length s" if "0 < k" for k
      using that l by (cases k) auto
    have num: "length r' < length s" if "parse_number (c # cs) = Some (x, r')" for x r'
      using parse_number_length [OF that] l by simp
    show ?thesis
      using 2(1) [OF Cons] 2(2) [OF Cons] 2(3) Cons l m d [of 4] d [of 5] parse_chars_length [of cs] num
      by (fastforce split: if_splits)
  qed
next
  case (4 n s)
  then show ?case
    by (fastforce split: option.splits list.splits if_splits dest: skip_ws_Cons_length)
next
  case (6 n acc s)
  then show ?case
    by (fastforce split: option.splits list.splits if_splits dest: skip_ws_Cons_length parse_chars_length)
qed auto

lemma parse_fuel:
  "2 * length s < n \<Longrightarrow> 2 * length s < m \<Longrightarrow> parse_value n s = parse_value m s"
  "2 * length s + 1 < n \<Longrightarrow> 2 * length s + 1 < m \<Longrightarrow> parse_elems n s = parse_elems m s"
  "2 * length s < n \<Longrightarrow> 2 * length s < m \<Longrightarrow> parse_fields n acc s = parse_fields m acc s"
proof (induction n s and n s and n acc s arbitrary: m and m and m
    rule: parse_value_parse_elems_parse_fields.induct)
  case (2 n s)
  from 2(4) obtain m' where m: "m = Suc m'" by (cases m) simp_all
  show ?case
  proof (cases "skip_ws s")
    case Nil
    then show ?thesis by (simp add: m)
  next
    case (Cons c cs)
    have l: "length cs < length s" by (rule skip_ws_Cons_length [OF Cons])
    have e: "parse_elems n cs = parse_elems m' cs"
      if "c \<noteq> CHR 0x22" "c = CHR ''[''" "\<not> starts_with (skip_ws cs) '']''"
      using 2(1) [OF Cons that, of m'] 2(3,4) l m by simp
    have f: "parse_fields n [] cs = parse_fields m' [] cs"
      if "c \<noteq> CHR 0x22" "c \<noteq> CHR ''[''" "c = CHR ''{''" "\<not> starts_with (skip_ws cs) ''}''"
      using 2(2) [OF Cons that, of m'] 2(3,4) l m by simp
    show ?thesis
      unfolding m parse_value.simps Cons list.case
      by (intro if_cong refl arg_cong [where f = "map_option _"] e f) assumption+
  qed
next
  case (4 n s)
  from 4(4) obtain m' where m: "m = Suc m'" by (cases m) simp_all
  have v: "parse_value n s = parse_value m' s" using 4(1) [of m'] 4(3,4) m by simp
  show ?case
  proof (cases "parse_value m' s")
    case None
    then show ?thesis by (simp add: m v)
  next
    case (Some p)
    obtain v' r where p: "p = (v', r)" by (cases p)
    have Some': "parse_value n s = Some (v', r)" using Some p v by simp
    have r: "length r < length s" using Some p parse_lengths(1) by blast
    show ?thesis
    proof (cases "skip_ws r")
      case Nil
      then show ?thesis unfolding m parse_elems.simps v Some p by simp
    next
      case c: (Cons c cs)
      have lc: "length cs < length r" by (rule skip_ws_Cons_length [OF c])
      have e: "parse_elems n cs = parse_elems m' cs" if "c \<noteq> CHR '']''" "c = CHR '',''"
        by (rule 4(2) [OF Some' refl c that]) (use 4(3,4) m r lc in simp_all)
      show ?thesis
        unfolding m parse_elems.simps v Some p option.case prod.case c list.case
        by (intro if_cong refl arg_cong [where f = "map_option _"] e) assumption+
    qed
  qed
next
  case (6 n acc s)
  from 6(4) obtain m' where m: "m = Suc m'" by (cases m) simp_all
  show ?case
  proof (cases "skip_ws s")
    case Nil
    then show ?thesis by (simp add: m)
  next
    case (Cons q qs)
    have l: "length qs < length s" by (rule skip_ws_Cons_length [OF Cons])
    show ?thesis
    proof (cases "parse_chars qs")
      case None
      then show ?thesis by (simp add: m Cons)
    next
      case (Some p)
      obtain k r where p: "p = (k, r)" by (cases p)
      have r: "length r < length qs" using Some p parse_chars_length by blast
      show ?thesis
      proof (cases "skip_ws r")
        case Nil
        then show ?thesis by (simp add: m Cons Some p)
      next
        case c: (Cons c cs)
        have lc: "length cs < length r" by (rule skip_ws_Cons_length [OF c])
        have v: "parse_value n cs = parse_value m' cs" if "\<not> q \<noteq> CHR 0x22" and "\<not> c \<noteq> CHR '':''"
          by (rule 6(1) [OF Cons that(1) Some p [symmetric] c that(2)]) (use 6(3,4) m l r lc in simp_all)
        have f: "parse_fields n (jmap_set k v acc) ds = parse_fields m' (jmap_set k v acc) ds"
          if "\<not> q \<noteq> CHR 0x22" and "\<not> c \<noteq> CHR '':''" and "parse_value m' cs = Some (v, r')"
            and "skip_ws r' = d # ds" and "d \<noteq> CHR ''}''" and "d = CHR '',''" for v r' d ds
          by (rule 6(2) [OF Cons that(1) Some p [symmetric] c that(2) _ refl that(4,5,6)])
            (use that(3) v [OF that(1,2)] 6(3,4) m l r lc parse_lengths(1) [OF that(3)]
              skip_ws_Cons_length [OF that(4)] in simp_all)
        show ?thesis
          unfolding m parse_fields.simps Cons list.case Some option.case p prod.case c
          by (rule if_cong [OF refl refl], rule if_cong [OF refl refl], subst v, assumption+)
            (auto intro!: f split: option.split list.split)
      qed
    qed
  qed
qed auto

text \<open>The fuel of \<open>json_parse\<close> is enough: more of it gives the same result.\<close>

lemma json_parse_fuel:
  "2 * length s < n \<Longrightarrow> json_parse s =
     (case parse_value n s of None \<Rightarrow> None | Some (v, r) \<Rightarrow> if skip_ws r = [] then Some v else None)"
  unfolding json_parse_def using parse_fuel(1) [of s n "2 * length s + 2"] by simp

section \<open>Printing, then parsing\<close>

lemma hex_value_digit: "n < 16 \<Longrightarrow> hex_value (hex_digit n) = Some n"
  by (auto simp: hex_value_def hex_digit_def Let_def)

lemma parse_chars_escape:
  "parse_chars (json_escape c @ t) = map_option (\<lambda>(s, r). (c # s, r)) (parse_chars t)"
proof -
  let ?n = "of_char c :: nat"
  have q: "char_of (34 :: nat) = CHR 0x22" using char_of_char [of "CHR 0x22", where ?'a = nat] by simp
  have b: "char_of (92 :: nat) = CHR 0x5C" using char_of_char [of "CHR 0x5C", where ?'a = nat] by simp
  have esc: "parse_chars (json_escape (char_of k) @ t) =
      map_option (\<lambda>(s, r). (char_of k # s, r)) (parse_chars t)"
    if "k \<in> {34, 92, 8, 9, 10, 12, 13}" for k :: nat
    using that q b by (auto simp: json_escape_def Let_def unescape_def)
  consider (named) "?n \<in> {34, 92, 8, 9, 10, 12, 13}"
    | (ctl) "?n < 32" "?n \<notin> {8, 9, 10, 12, 13}" | (plain) "32 \<le> ?n" "?n \<noteq> 34" "?n \<noteq> 92" by force
  then show ?thesis
  proof cases
    case ctl
    have zero: "hex_value (CHR ''0'') = Some 0" by (simp add: hex_value_def)
    have "?n div 16 < 16" "?n mod 16 < 16" using ctl by auto
    moreover have "char_of (16 * (?n div 16) + ?n mod 16) = c" by (simp del: mult_div_mod_eq)
    ultimately show ?thesis
      using ctl zero by (simp add: json_escape_def Let_def hex_value_digit)
  next
    case plain
    then have "c \<noteq> CHR 0x22" "c \<noteq> CHR 0x5C" by auto
    with plain show ?thesis by (simp add: json_escape_def Let_def)
  next
    case named
    then show ?thesis using esc [of ?n] by simp
  qed
qed

lemma parse_chars_quote: "parse_chars (concat (map json_escape s) @ CHR 0x22 # r) = Some (s, r)"
  by (induction s) (simp_all add: parse_chars_escape)

definition number_stop :: "string \<Rightarrow> bool" where
  "number_stop r = (case r of [] \<Rightarrow> True
     | c # _ \<Rightarrow> \<not> is_digit c \<and> c \<noteq> CHR ''.'' \<and> c \<noteq> CHR ''e'' \<and> c \<noteq> CHR ''E'')"

lemma digits_of_is_digit: "list_all is_digit (digits_of n)"
  using digits_of_range [of _ n] by (auto simp: list_all_iff is_digit_def)

lemma digits_of_nonempty: "digits_of n \<noteq> []"
  by (subst digits_of.simps) simp

lemma digits_of_leading: "0 < n \<Longrightarrow> hd (digits_of n) \<noteq> CHR ''0''"
proof (induction n rule: digits_of.induct)
  case (1 n)
  show ?case
  proof (cases "n < 10")
    case True
    have "(of_char (char_of (48 + n) :: char) :: nat) = 48 + n" using True by simp
    moreover have "(of_char (CHR ''0'') :: nat) = 48" by simp
    ultimately have "char_of (48 + n) \<noteq> CHR ''0''" using 1(2) by force
    with True show ?thesis by (simp add: digits_of.simps [of n])
  next
    case False
    then have "0 < n div 10" by simp
    with 1 False show ?thesis by (simp add: digits_of.simps [of n] digits_of_nonempty)
  qed
qed

lemma takeWhile_digits:
  assumes "number_stop r"
  shows "takeWhile is_digit (digits_of n @ r) = digits_of n" "dropWhile is_digit (digits_of n @ r) = r"
  using assms digits_of_is_digit [of n]
  by (auto simp: number_stop_def list_all_iff takeWhile_append dropWhile_append split: list.splits)

lemma parse_int_digits:
  assumes "number_stop r"
  shows "parse_int_part (digits_of n @ r) = Some (n, r)"
proof (cases "n = 0")
  case True
  have "digits_of 0 = ''0''" using char_of_char [of "CHR ''0''", where ?'a = nat] by (subst digits_of.simps) simp
  then show ?thesis by (simp add: True parse_int_part_def is_digit_def)
next
  case False
  then obtain c cs where d: "digits_of n = c # cs" and c: "c \<noteq> CHR ''0''"
    using digits_of_leading [of n] digits_of_nonempty [of n] by (cases "digits_of n") auto
  have "is_digit c" using digits_of_is_digit [of n] d by simp
  then show ?thesis
    using takeWhile_digits [OF assms, of n] digits_value_digits_of [of n] c
    by (simp add: parse_int_part_def d)
qed

lemma digit_not_minus: "is_digit c \<Longrightarrow> c \<noteq> CHR ''-''"
  by (auto simp: is_digit_def)

lemma parse_number_int:
  assumes "number_stop r"
  shows "parse_number (int_to_string i @ r) = Some (of_int i, r)"
proof -
  have tail: "parse_frac_part r = Some (0, r)" "parse_exp_part r = Some (1, r)"
    using assms by (auto simp: number_stop_def parse_frac_part_def parse_exp_part_def split: list.splits)
  show ?thesis
  proof (cases "i < 0")
    case True
    then show ?thesis
      by (simp add: parse_number_def int_to_string_def parse_int_digits [OF assms] tail)
  next
    case False
    obtain c cs where d: "digits_of (nat i) = c # cs"
      using digits_of_nonempty [of "nat i"] by (cases "digits_of (nat i)") auto
    have "c \<noteq> CHR ''-''" using digits_of_is_digit [of "nat i"] d digit_not_minus by simp
    with False show ?thesis
      using parse_int_digits [OF assms, of "nat i"]
      by (simp add: parse_number_def int_to_string_def d tail)
  qed
qed

text \<open>The values that survive the trip: no \<open>undefined\<close>, integral numbers, distinct keys.\<close>

fun json_ok :: "jsval \<Rightarrow> bool" where
  "json_ok JUndef = False"
| "json_ok JNull = True"
| "json_ok (JBool b) = True"
| "json_ok (JNum x) = (case x of Fin a \<Rightarrow> a = of_int \<lfloor>a\<rfloor> \<and> \<bar>a\<bar> < 10 ^ 21 | _ \<Rightarrow> False)"
| "json_ok (JStr s) = True"
| "json_ok (JArr vs) = list_all json_ok vs"
| "json_ok (JObj kvs) = (distinct (map fst kvs) \<and> list_all (\<lambda>(k, v). json_ok v) kvs)"

lemma json_elems_False: "vs \<noteq> [] \<Longrightarrow> json_elems dtoa False vs = CHR '','' # json_elems dtoa True vs"
  by (cases vs) auto

lemma json_fields_False:
  "kvs \<noteq> [] \<Longrightarrow> list_all (\<lambda>(k, v). json_ok v) kvs \<Longrightarrow>
   json_fields dtoa False kvs = CHR '','' # json_fields dtoa True kvs"
  by (cases kvs) auto

lemma int_to_string_head:
  "\<exists>c cs. int_to_string i = c # cs \<and> (is_digit c \<or> c = CHR ''-'')"
proof -
  obtain c cs where d: "digits_of (nat i) = c # cs"
    using digits_of_nonempty [of "nat i"] by (cases "digits_of (nat i)") auto
  then have "is_digit c" using digits_of_is_digit [of "nat i"] by simp
  with d show ?thesis by (simp add: int_to_string_def)
qed

lemma num_head:
  assumes "is_digit c \<or> c = CHR ''-''"
  shows "\<not> is_json_ws c" "c \<noteq> CHR 0x22" "c \<noteq> CHR ''[''" "c \<noteq> CHR ''{''" "c \<noteq> CHR '']''"
    "c \<noteq> CHR ''n''" "c \<noteq> CHR ''t''" "c \<noteq> CHR ''f''"
  using assms by (auto simp: is_digit_def is_json_ws_def)

lemma json_num_print:
  "json_ok (JNum x) \<Longrightarrow> \<exists>i. x = Fin (of_int i) \<and> json_val dtoa (JNum x) = int_to_string i"
  by (cases x) (auto simp: num_to_string_def)

lemma json_val_head:
  assumes "json_ok v"
  shows "\<exists>c cs. json_val dtoa v = c # cs \<and> \<not> is_json_ws c \<and> c \<noteq> CHR '']''"
proof (cases v)
  case (JNum x)
  then show ?thesis
    using assms json_num_print [of x dtoa] int_to_string_head num_head by metis
qed (use assms in \<open>auto simp: json_quote_def is_json_ws_def\<close>)

definition json_rt :: "(rat \<Rightarrow> string) \<Rightarrow> jsval \<Rightarrow> bool" where
  "json_rt dtoa v \<longleftrightarrow> (\<forall>n r. number_stop r \<longrightarrow> 2 * length (json_val dtoa v @ r) < n \<longrightarrow>
     parse_value n (json_val dtoa v @ r) = Some (v, r))"

lemma skip_ws_stop [simp]: "\<not> is_json_ws c \<Longrightarrow> skip_ws (c # cs) = c # cs"
  by (simp add: skip_ws_def)

lemma not_ws [simp]: "\<not> is_json_ws CHR '',''" "\<not> is_json_ws CHR '']''" "\<not> is_json_ws CHR ''}''"
  "\<not> is_json_ws CHR '':''" "\<not> is_json_ws CHR 0x22" "\<not> is_json_ws CHR ''[''" "\<not> is_json_ws CHR ''{''"
  "\<not> is_json_ws CHR ''n''" "\<not> is_json_ws CHR ''t''" "\<not> is_json_ws CHR ''f''"
  by (simp_all add: is_json_ws_def)

lemma number_stop_Cons: "c \<in> {CHR '','', CHR '']'', CHR ''}''} \<Longrightarrow> number_stop (c # cs)"
  by (auto simp: number_stop_def is_digit_def)

lemma elems_rt:
  assumes "\<And>v. v \<in> set vs \<Longrightarrow> json_rt dtoa v" and "vs \<noteq> []"
    and "2 * length (json_elems dtoa True vs @ r) + 1 < n"
  shows "parse_elems n (json_elems dtoa True vs @ r) = Some (vs, r)"
  using assms
proof (induction vs arbitrary: n)
  case Nil
  then show ?case by simp
next
  case (Cons v vs)
  from Cons.prems(3) obtain n' where n: "n = Suc n'" by (cases n) auto
  let ?rest = "json_elems dtoa False vs @ r"
  have stop: "number_stop ?rest" by (cases vs) (auto intro: number_stop_Cons)
  have v: "parse_value n' (json_val dtoa v @ ?rest) = Some (v, ?rest)"
    using Cons.prems(1) [of v] Cons.prems(3) stop by (simp add: json_rt_def n)
  show ?case
  proof (cases "vs = []")
    case True
    with v show ?thesis by (simp add: n)
  next
    case False
    have "parse_elems n' (json_elems dtoa True vs @ r) = Some (vs, r)"
      using Cons.IH [of n'] Cons.prems False n by (simp add: json_elems_False)
    with v False show ?thesis by (simp add: n json_elems_False)
  qed
qed

lemma fields_rt:
  assumes "\<And>k v. (k, v) \<in> set kvs \<Longrightarrow> json_rt dtoa v" and "kvs \<noteq> []"
    and "list_all (\<lambda>(k, v). json_ok v) kvs" and "distinct (map fst (acc @ kvs))"
    and "2 * length (json_fields dtoa True kvs @ r) < n"
  shows "parse_fields n acc (json_fields dtoa True kvs @ r) = Some (acc @ kvs, r)"
  using assms
proof (induction kvs arbitrary: n acc)
  case Nil
  then show ?case by simp
next
  case (Cons p kvs)
  obtain k v where p: "p = (k, v)" by (cases p)
  from Cons.prems(5) obtain n' where n: "n = Suc n'" by (cases n) auto
  have defined: "v \<noteq> JUndef" using Cons.prems(3) p by auto
  let ?rest = "json_fields dtoa False kvs @ r"
  have stop: "number_stop ?rest"
    using Cons.prems(3) by (cases "kvs = []") (auto simp: json_fields_False intro: number_stop_Cons)
  have shape: "json_fields dtoa True (p # kvs) @ r = CHR 0x22 # concat (map json_escape k) @ CHR 0x22 #
      CHR '':'' # json_val dtoa v @ ?rest"
    using defined by (simp add: p json_quote_def)
  have v: "parse_value n' (json_val dtoa v @ ?rest) = Some (v, ?rest)"
    using Cons.prems(1) [of k v] Cons.prems(5) stop unfolding shape by (simp add: json_rt_def n p)
  have set: "jmap_set k v acc = acc @ [(k, v)]"
    using Cons.prems(4) p by (intro jmap_set_absent) (auto simp: map_of_eq_None_iff)
  show ?case
  proof (cases "kvs = []")
    case True
    with v set show ?thesis unfolding shape n by (simp add: parse_chars_quote p)
  next
    case False
    have len: "2 * length (json_fields dtoa True kvs @ r) < n'"
      using Cons.prems(3,5) False unfolding shape n by (simp add: json_fields_False)
    have "parse_fields n' (acc @ [(k, v)]) (json_fields dtoa True kvs @ r) = Some ((acc @ [(k, v)]) @ kvs, r)"
      using Cons.prems(1-4) False len p by (intro Cons.IH) auto
    with v set False Cons.prems(3) show ?thesis
      unfolding shape n by (simp add: parse_chars_quote p json_fields_False)
  qed
qed

text \<open>It is enough to look at the parser's first step.\<close>

lemma json_rtI:
  "(\<And>n r. number_stop r \<Longrightarrow> 2 * length (json_val dtoa v @ r) < Suc n \<Longrightarrow>
      parse_value (Suc n) (json_val dtoa v @ r) = Some (v, r)) \<Longrightarrow> json_rt dtoa v"
  unfolding json_rt_def by (metis less_nat_zero_code not0_implies_Suc)

lemma json_rt_null: "json_rt dtoa JNull" and json_rt_bool: "json_rt dtoa (JBool b)"
  by (rule json_rtI, simp add: starts_with_def)+

lemma json_rt_str: "json_rt dtoa (JStr s)"
  by (rule json_rtI) (simp add: json_quote_def parse_chars_quote)

lemma json_rt_num:
  assumes "json_ok (JNum x)"
  shows "json_rt dtoa (JNum x)"
proof (rule json_rtI)
  fix n r
  assume stop: "number_stop r"
  obtain i where i: "x = Fin (of_int i)" "json_val dtoa (JNum x) = int_to_string i"
    using json_num_print [OF assms] by blast
  obtain c cs where c: "int_to_string i = c # cs" "is_digit c \<or> c = CHR ''-''"
    using int_to_string_head by blast
  show "parse_value (Suc n) (json_val dtoa (JNum x) @ r) = Some (JNum x, r)"
    using parse_number_int [OF stop, of i] num_head [OF c(2)] i(1)
    unfolding i(2) by (simp add: c(1) starts_with_def)
qed

lemma json_rt_arr:
  assumes "\<And>v. v \<in> set vs \<Longrightarrow> json_rt dtoa v" and "list_all json_ok vs"
  shows "json_rt dtoa (JArr vs)"
proof (rule json_rtI)
  fix n r
  assume fuel: "2 * length (json_val dtoa (JArr vs) @ r) < Suc n"
  show "parse_value (Suc n) (json_val dtoa (JArr vs) @ r) = Some (JArr vs, r)"
  proof (cases vs)
    case Nil
    then show ?thesis by (simp add: starts_with_def)
  next
    case (Cons v vs')
    then obtain c cs where c: "json_val dtoa v = c # cs" "\<not> is_json_ws c" "c \<noteq> CHR '']''"
      using json_val_head [of v dtoa] assms(2) by auto
    have "parse_elems n (json_elems dtoa True vs @ r) = Some (vs, r)"
      using assms(1) fuel Cons by (intro elems_rt) auto
    with Cons c show ?thesis by (simp add: starts_with_def)
  qed
qed

lemma json_rt_obj:
  assumes "\<And>k v. (k, v) \<in> set kvs \<Longrightarrow> json_rt dtoa v" and "json_ok (JObj kvs)"
  shows "json_rt dtoa (JObj kvs)"
proof (rule json_rtI)
  fix n r
  assume fuel: "2 * length (json_val dtoa (JObj kvs) @ r) < Suc n"
  show "parse_value (Suc n) (json_val dtoa (JObj kvs) @ r) = Some (JObj kvs, r)"
  proof (cases "kvs = []")
    case True
    then show ?thesis by (simp add: starts_with_def)
  next
    case False
    then obtain k v kvs' where kv: "kvs = (k, v) # kvs'" by (cases kvs) auto
    with assms(2) have "v \<noteq> JUndef" by auto
    then obtain cs where c: "json_fields dtoa True kvs = CHR 0x22 # cs" by (simp add: kv json_quote_def)
    have "parse_fields n [] (json_fields dtoa True kvs @ r) = Some ([] @ kvs, r)"
      using assms fuel False by (intro fields_rt) auto
    with c show ?thesis by (simp add: starts_with_def)
  qed
qed

lemma json_val_rt: "json_ok v \<Longrightarrow> json_rt dtoa v"
proof (induction v)
  case (JArr vs)
  show ?case by (rule json_rt_arr) (use JArr in \<open>auto simp: list_all_iff\<close>)
next
  case (JObj kvs)
  show ?case by (rule json_rt_obj) (use JObj in \<open>auto simp: list_all_iff\<close>)
qed (simp_all add: json_rt_null json_rt_bool json_rt_str json_rt_num del: json_ok.simps(4))

lemma json_roundtrip_lib: "json_ok v \<Longrightarrow> json_parse (json_val dtoa v) = Some v"
proof -
  assume ok: "json_ok v"
  have "parse_value (2 * length (json_val dtoa v) + 2) (json_val dtoa v @ []) = Some (v, [])"
    by (rule json_val_rt [OF ok, unfolded json_rt_def, rule_format]) (simp_all add: number_stop_def)
  then show ?thesis unfolding json_parse_def append_Nil2 by (simp add: skip_ws_def del: parse_value.simps)
qed

end
