(* ===== verification/JsConvert.thy ===== *)
theory JsConvert
  imports Json
begin

text \<open>
  The conversions \<open>String(v)\<close> and \<open>Number(v)\<close> of ECMAScript on dynamic values. An array
  converts through \<open>join(",")\<close>, an object (whose \<open>toString\<close> is the inherited one) to
  \<open>[object Object]\<close>.
\<close>

fun js_string :: "(rat \<Rightarrow> string) \<Rightarrow> jsval \<Rightarrow> string"
  and js_join_elems :: "(rat \<Rightarrow> string) \<Rightarrow> bool \<Rightarrow> jsval list \<Rightarrow> string" where
  "js_string dtoa JUndef = ''undefined''"
| "js_string dtoa JNull = ''null''"
| "js_string dtoa (JBool b) = (if b then ''true'' else ''false'')"
| "js_string dtoa (JNum x) = num_to_string dtoa x"
| "js_string dtoa (JStr s) = s"
| "js_string dtoa (JArr vs) = js_join_elems dtoa True vs"
| "js_string dtoa (JObj r) = ''[object Object]''"
| "js_join_elems dtoa first [] = []"
| "js_join_elems dtoa first (v # vs) =
     (if first then [] else '','') @ (if js_nullish v then [] else js_string dtoa v) @ js_join_elems dtoa False vs"

definition is_js_ws :: "char \<Rightarrow> bool" where
  "is_js_ws c = ((of_char c :: nat) \<in> {9, 10, 11, 12, 13, 32, 160})"

definition js_trim :: "string \<Rightarrow> string" where
  "js_trim s = rev (dropWhile is_js_ws (rev (dropWhile is_js_ws s)))"

definition decimal_value :: "string \<Rightarrow> jsnum" where
  "decimal_value s =
     (let ds = takeWhile is_digit s;
          r = dropWhile is_digit s;
          dot = starts_with r ''.'';
          fs = (if dot then takeWhile is_digit (tl r) else []);
          r2 = (if dot then dropWhile is_digit (tl r) else r)
      in if s = ''Infinity'' then PInf
         else if ds = [] \<and> fs = [] then NaN
         else case parse_exp_part r2 of
                Some (e, []) \<Rightarrow> Fin ((of_nat (digits_value 0 ds) + of_nat (digits_value 0 fs) / 10 ^ length fs) * e)
              | _ \<Rightarrow> NaN)"

fun radix_value :: "nat \<Rightarrow> nat \<Rightarrow> string \<Rightarrow> nat option" where
  "radix_value radix acc [] = Some acc"
| "radix_value radix acc (c # cs) =
     (case hex_value c of
        None \<Rightarrow> None
      | Some d \<Rightarrow> if d < radix then radix_value radix (radix * acc + d) cs else None)"

definition string_to_number :: "string \<Rightarrow> jsnum" where
  "string_to_number s =
     (let t = js_trim s;
          radix = (if starts_with t ''0x'' \<or> starts_with t ''0X'' then 16
                   else if starts_with t ''0o'' \<or> starts_with t ''0O'' then 8
                   else if starts_with t ''0b'' \<or> starts_with t ''0B'' then 2 else 0)
      in if t = [] then Fin 0
         else if radix \<noteq> 0 then
           (if drop 2 t = [] then NaN
            else case radix_value radix 0 (drop 2 t) of None \<Rightarrow> NaN | Some n \<Rightarrow> Fin (of_nat n))
         else if starts_with t ''-'' then - decimal_value (tl t)
         else if starts_with t ''+'' then decimal_value (tl t)
         else decimal_value t)"

text \<open>\<open>parseInt(s, 10)\<close>.\<close>

definition js_parse_int :: "string \<Rightarrow> jsnum" where
  "js_parse_int s =
     (let t = dropWhile is_js_ws s;
          neg = starts_with t ''-'';
          u = (if neg \<or> starts_with t ''+'' then tl t else t);
          ds = takeWhile is_digit u
      in if ds = [] then NaN else Fin ((if neg then - 1 else 1) * of_nat (digits_value 0 ds)))"

definition js_number :: "(rat \<Rightarrow> string) \<Rightarrow> jsval \<Rightarrow> jsnum" where
  "js_number dtoa v =
     (case v of
        JUndef \<Rightarrow> NaN
      | JNull \<Rightarrow> Fin 0
      | JBool b \<Rightarrow> Fin (if b then 1 else 0)
      | JNum x \<Rightarrow> x
      | JStr s \<Rightarrow> string_to_number s
      | JArr vs \<Rightarrow> string_to_number (js_string dtoa (JArr vs))
      | JObj r \<Rightarrow> NaN)"

lemma num_to_string_int: "\<bar>i\<bar> < 10 ^ 21 \<Longrightarrow> num_to_string dtoa (Fin (of_int i)) = int_to_string i"
proof -
  assume "\<bar>i\<bar> < 10 ^ 21"
  then have "\<bar>of_int i :: rat\<bar> < 10 ^ 21" by (metis of_int_abs of_int_less_iff of_int_numeral of_int_power)
  then show ?thesis by (simp add: num_to_string_def)
qed

text \<open>Undefined properties do not show in the text.\<close>

lemma json_fields_undef:
  "json_fields dtoa first kvs = json_fields dtoa first (filter (\<lambda>(k, v). v \<noteq> JUndef) kvs)"
  by (induction kvs arbitrary: first) auto

lemma json_val_undef: "json_val dtoa (JObj kvs) = json_val dtoa (JObj (filter (\<lambda>(k, v). v \<noteq> JUndef) kvs))"
  using json_fields_undef [of dtoa True kvs] by simp

end
