(* ===== verification/LruCache.thy ===== *)
theory LruCache
  imports JsValue
begin

text \<open>
  \<open>LruCache\<close> of \<open>searchfn/core/src/cache/lru-cache.ts\<close>: a hash map from keys to the nodes
  of a doubly linked list in order of use. The nodes live in an explicit heap and are linked by
  addresses, as the code mutates \<open>prev\<close> and \<open>next\<close> in place. The list model
  (\<open>spec_get\<close>, \<open>spec_set\<close>, \<open>spec_delete\<close>) is the specification the pointer code
  is shown to implement; the locale \<open>cache\<close> is the contract its clients rely on.
\<close>

section \<open>State\<close>

record 'v cache_entry =
  ce_key :: string
  ce_value :: 'v
  ce_createdAt :: int
  ce_lastAccessedAt :: int
  ce_accessCount :: nat

record cache_statistics =
  st_size :: nat
  st_hits :: nat
  st_misses :: nat
  st_evictions :: nat

record 'v lru_node =
  nd_entry :: "'v cache_entry"
  nd_prev :: "nat option"
  nd_next :: "nat option"

record 'v lru =
  lru_max :: int
  lru_map :: "(string, nat) jmap"
  lru_head :: "nat option"
  lru_tail :: "nat option"
  lru_stats :: cache_statistics
  lru_heap :: "nat \<rightharpoonup> 'v lru_node"
  lru_fresh :: nat

definition zero_stats :: cache_statistics where
  "zero_stats = \<lparr>st_size = 0, st_hits = 0, st_misses = 0, st_evictions = 0\<rparr>"

definition lru_new :: "int \<Rightarrow> string + 'v lru" where
  "lru_new maxEntries =
     (if maxEntries \<le> 0 then Inl ''maxEntries must be greater than zero''
      else Inr \<lparr>lru_max = maxEntries, lru_map = [], lru_head = None, lru_tail = None,
                lru_stats = zero_stats, lru_heap = Map.empty, lru_fresh = 0\<rparr>)"

section \<open>Pointer operations\<close>

definition upd_node :: "nat \<Rightarrow> ('v lru_node \<Rightarrow> 'v lru_node) \<Rightarrow> 'v lru \<Rightarrow> 'v lru" where
  "upd_node a f s = s\<lparr>lru_heap := (lru_heap s)(a := map_option f (lru_heap s a))\<rparr>"

definition node_prev :: "'v lru \<Rightarrow> nat \<Rightarrow> nat option" where
  "node_prev s a = (case lru_heap s a of None \<Rightarrow> None | Some n \<Rightarrow> nd_prev n)"

definition node_next :: "'v lru \<Rightarrow> nat \<Rightarrow> nat option" where
  "node_next s a = (case lru_heap s a of None \<Rightarrow> None | Some n \<Rightarrow> nd_next n)"

definition add_to_front :: "nat \<Rightarrow> 'v lru \<Rightarrow> 'v lru" where
  "add_to_front a s =
     (case lru_head s of
        None \<Rightarrow> s\<lparr>lru_head := Some a, lru_tail := Some a\<rparr>
      | Some h \<Rightarrow>
          (let s1 = upd_node a (\<lambda>n. n\<lparr>nd_next := Some h\<rparr>) s;
               s2 = upd_node h (\<lambda>n. n\<lparr>nd_prev := Some a\<rparr>) s1
           in s2\<lparr>lru_head := Some a\<rparr>))"

definition remove_node :: "nat \<Rightarrow> 'v lru \<Rightarrow> 'v lru" where
  "remove_node a s =
     (let s1 = (case node_prev s a of None \<Rightarrow> s
                | Some p \<Rightarrow> upd_node p (\<lambda>n. n\<lparr>nd_next := node_next s a\<rparr>) s);
          s2 = (case node_next s1 a of None \<Rightarrow> s1
                | Some q \<Rightarrow> upd_node q (\<lambda>n. n\<lparr>nd_prev := node_prev s1 a\<rparr>) s1);
          s3 = (if lru_head s2 = Some a then s2\<lparr>lru_head := node_next s2 a\<rparr> else s2);
          s4 = (if lru_tail s3 = Some a then s3\<lparr>lru_tail := node_prev s3 a\<rparr> else s3)
      in upd_node a (\<lambda>n. n\<lparr>nd_prev := None, nd_next := None\<rparr>) s4)"

definition move_to_front :: "nat \<Rightarrow> 'v lru \<Rightarrow> 'v lru" where
  "move_to_front a s =
     (if lru_head s = Some a then s else add_to_front a (remove_node a s))"

definition evict_lru :: "'v lru \<Rightarrow> 'v lru" where
  "evict_lru s =
     (case lru_tail s of
        None \<Rightarrow> s
      | Some a \<Rightarrow>
          (let s1 = remove_node a s;
               m = (case lru_heap s1 a of None \<Rightarrow> lru_map s1
                    | Some n \<Rightarrow> jmap_del (ce_key (nd_entry n)) (lru_map s1))
           in s1\<lparr>lru_map := m,
                 lru_stats := (lru_stats s1)\<lparr>st_evictions := st_evictions (lru_stats s1) + 1,
                                           st_size := length m\<rparr>\<rparr>))"

section \<open>Public operations\<close>

definition lru_get :: "int \<Rightarrow> string \<Rightarrow> 'v lru \<Rightarrow> 'v option \<times> 'v lru" where
  "lru_get now key s =
     (case jmap_get (lru_map s) key of
        None \<Rightarrow> (None, s\<lparr>lru_stats := (lru_stats s)\<lparr>st_misses := st_misses (lru_stats s) + 1\<rparr>\<rparr>)
      | Some a \<Rightarrow>
          (let s1 = s\<lparr>lru_stats := (lru_stats s)\<lparr>st_hits := st_hits (lru_stats s) + 1\<rparr>\<rparr>;
               s2 = upd_node a (\<lambda>n. n\<lparr>nd_entry := (nd_entry n)\<lparr>ce_lastAccessedAt := now,
                      ce_accessCount := ce_accessCount (nd_entry n) + 1\<rparr>\<rparr>) s1;
               s3 = move_to_front a s2
           in (map_option (\<lambda>n. ce_value (nd_entry n)) (lru_heap s3 a), s3)))"

definition lru_set :: "int \<Rightarrow> string \<Rightarrow> 'v \<Rightarrow> 'v lru \<Rightarrow> 'v lru" where
  "lru_set now key v s =
     (case jmap_get (lru_map s) key of
        Some a \<Rightarrow>
          move_to_front a
            (upd_node a (\<lambda>n. n\<lparr>nd_entry := (nd_entry n)\<lparr>ce_value := v, ce_lastAccessedAt := now,
                      ce_accessCount := ce_accessCount (nd_entry n) + 1\<rparr>\<rparr>) s)
      | None \<Rightarrow>
          (let a = lru_fresh s;
               node = \<lparr>nd_entry = \<lparr>ce_key = key, ce_value = v, ce_createdAt = now,
                        ce_lastAccessedAt = now, ce_accessCount = 1\<rparr>, nd_prev = None, nd_next = None\<rparr>;
               s1 = s\<lparr>lru_heap := (lru_heap s)(a \<mapsto> node), lru_fresh := Suc a\<rparr>;
               s2 = s1\<lparr>lru_map := jmap_set key a (lru_map s1)\<rparr>;
               s3 = add_to_front a s2;
               s4 = s3\<lparr>lru_stats := (lru_stats s3)\<lparr>st_size := length (lru_map s3)\<rparr>\<rparr>
           in if lru_max s4 < int (length (lru_map s4)) then evict_lru s4 else s4))"

definition lru_has :: "string \<Rightarrow> 'v lru \<Rightarrow> bool" where
  "lru_has key s = (jmap_get (lru_map s) key \<noteq> None)"

definition lru_delete :: "string \<Rightarrow> 'v lru \<Rightarrow> bool \<times> 'v lru" where
  "lru_delete key s =
     (case jmap_get (lru_map s) key of
        None \<Rightarrow> (False, s)
      | Some a \<Rightarrow>
          (let s1 = remove_node a s; m = jmap_del key (lru_map s1)
           in (True, s1\<lparr>lru_map := m, lru_stats := (lru_stats s1)\<lparr>st_size := length m\<rparr>\<rparr>)))"

definition lru_clear :: "'v lru \<Rightarrow> 'v lru" where
  "lru_clear s = s\<lparr>lru_map := [], lru_head := None, lru_tail := None, lru_stats := zero_stats\<rparr>"

definition lru_statistics :: "'v lru \<Rightarrow> cache_statistics" where
  "lru_statistics s = (lru_stats s)\<lparr>st_size := length (lru_map s)\<rparr>"

section \<open>List specification\<close>

definition spec_find :: "string \<Rightarrow> 'v cache_entry list \<Rightarrow> 'v cache_entry option" where
  "spec_find key es = find (\<lambda>e. ce_key e = key) es"

definition spec_without :: "string \<Rightarrow> 'v cache_entry list \<Rightarrow> 'v cache_entry list" where
  "spec_without key es = filter (\<lambda>e. ce_key e \<noteq> key) es"

definition spec_get :: "int \<Rightarrow> string \<Rightarrow> 'v cache_entry list \<Rightarrow> 'v option \<times> 'v cache_entry list" where
  "spec_get now key es =
     (case spec_find key es of
        None \<Rightarrow> (None, es)
      | Some e \<Rightarrow> (Some (ce_value e),
          e\<lparr>ce_lastAccessedAt := now, ce_accessCount := ce_accessCount e + 1\<rparr> # spec_without key es))"

definition spec_set :: "int \<Rightarrow> int \<Rightarrow> string \<Rightarrow> 'v \<Rightarrow> 'v cache_entry list \<Rightarrow> 'v cache_entry list" where
  "spec_set maxEntries now key v es =
     (case spec_find key es of
        Some e \<Rightarrow> e\<lparr>ce_value := v, ce_lastAccessedAt := now, ce_accessCount := ce_accessCount e + 1\<rparr>
                  # spec_without key es
      | None \<Rightarrow> take (nat maxEntries)
          (\<lparr>ce_key = key, ce_value = v, ce_createdAt = now, ce_lastAccessedAt = now,
            ce_accessCount = 1\<rparr> # es))"

text \<open>
  The abstraction follows the \<open>next\<close> pointers from the head, as many steps as the map has
  keys.
\<close>

fun walk :: "(nat \<rightharpoonup> 'v lru_node) \<Rightarrow> nat option \<Rightarrow> nat \<Rightarrow> 'v cache_entry list" where
  "walk h p 0 = []"
| "walk h None (Suc k) = []"
| "walk h (Some a) (Suc k) =
     (case h a of None \<Rightarrow> [] | Some n \<Rightarrow> nd_entry n # walk h (nd_next n) k)"

definition lru_entries :: "'v lru \<Rightarrow> 'v cache_entry list" where
  "lru_entries s = walk (lru_heap s) (lru_head s) (length (lru_map s))"

definition lru_lookup :: "'v lru \<Rightarrow> string \<Rightarrow> 'v option" where
  "lru_lookup s key = map_option ce_value (spec_find key (lru_entries s))"

section \<open>Doubly linked lists in the heap\<close>

definition opt_hd :: "'a list \<Rightarrow> 'a option" where
  "opt_hd xs = (case xs of [] \<Rightarrow> None | x # _ \<Rightarrow> Some x)"

definition opt_last :: "'a list \<Rightarrow> 'a option" where
  "opt_last xs = (if xs = [] then None else Some (last xs))"

lemma opt_hd_simps [simp]: "opt_hd [] = None" "opt_hd (x # xs) = Some x"
  by (simp_all add: opt_hd_def)

lemma opt_last_simps [simp]: "opt_last [] = None" "opt_last (xs @ [x]) = Some x"
  "opt_last [x] = Some x" "opt_last (x # y # ys) = opt_last (y # ys)"
  by (simp_all add: opt_last_def)

lemma opt_hd_append: "opt_hd (xs @ ys) = (if xs = [] then opt_hd ys else opt_hd xs)"
  by (cases xs) auto

lemma opt_last_append: "opt_last (xs @ ys) = (if ys = [] then opt_last xs else opt_last ys)"
  by (simp add: opt_last_def)

lemma opt_hd_in: "opt_hd xs = Some x \<Longrightarrow> x \<in> set xs"
  by (cases xs) auto

lemma opt_last_in: "opt_last xs = Some x \<Longrightarrow> x \<in> set xs"
  by (auto simp: opt_last_def split: if_splits)

text \<open>
  \<open>dll h p xs q\<close>: the addresses \<open>xs\<close> are linked both ways, the first node's \<open>prev\<close>
  is \<open>p\<close> and the last node's \<open>next\<close> is \<open>q\<close>.
\<close>

fun dll :: "(nat \<rightharpoonup> 'v lru_node) \<Rightarrow> nat option \<Rightarrow> nat list \<Rightarrow> nat option \<Rightarrow> bool" where
  "dll h p [] q \<longleftrightarrow> True"
| "dll h p (a # as) q \<longleftrightarrow>
     (\<exists>e. h a = Some \<lparr>nd_entry = e, nd_prev = p, nd_next = (case as of [] \<Rightarrow> q | b # _ \<Rightarrow> Some b)\<rparr>)
     \<and> dll h (Some a) as q"

lemma dll_frame: "a \<notin> set xs \<Longrightarrow> dll (h(a := n)) p xs q = dll h p xs q"
  by (induction xs arbitrary: p) auto

lemma dll_append:
  "dll h p (xs @ ys) q \<longleftrightarrow>
     dll h p xs (if ys = [] then q else opt_hd ys) \<and>
     dll h (if xs = [] then p else opt_last xs) ys q"
proof (induction xs arbitrary: p)
  case (Cons x xs)
  then show ?case by (cases xs; cases ys) (auto simp: opt_last_def)
qed simp

lemma dll_dom: "dll h p xs q \<Longrightarrow> a \<in> set xs \<Longrightarrow> \<exists>n. h a = Some n"
  by (induction xs arbitrary: p) auto

text \<open>Updating an entry in place keeps all links.\<close>

lemma dll_upd_entry:
  "dll h p xs q \<Longrightarrow> dll (h(a := map_option (\<lambda>n. n\<lparr>nd_entry := f (nd_entry n)\<rparr>) (h a))) p xs q"
  by (induction xs arbitrary: p) auto

lemma walk_dll:
  "dll h p xs None \<Longrightarrow> walk h (opt_hd xs) (length xs) = map (\<lambda>a. nd_entry (the (h a))) xs"
proof (induction xs arbitrary: p)
  case (Cons x xs)
  have "(case xs of [] \<Rightarrow> None | b # _ \<Rightarrow> Some b) = opt_hd xs"
    by (cases xs) auto
  with Cons show ?case by auto
qed simp

section \<open>Link operations\<close>

definition ent :: "'v lru \<Rightarrow> nat \<Rightarrow> 'v cache_entry" where
  "ent s a = nd_entry (the (lru_heap s a))"

definition linked :: "'v lru \<Rightarrow> nat list \<Rightarrow> bool" where
  "linked s xs \<longleftrightarrow> distinct xs \<and> dll (lru_heap s) None xs None \<and>
     lru_head s = opt_hd xs \<and> lru_tail s = opt_last xs"

text \<open>What the link operations leave alone.\<close>

definition same_data :: "'v lru \<Rightarrow> 'v lru \<Rightarrow> bool" where
  "same_data s t \<longleftrightarrow> lru_max t = lru_max s \<and> lru_map t = lru_map s \<and> lru_stats t = lru_stats s \<and>
     lru_fresh t = lru_fresh s \<and> ent t = ent s \<and> dom (lru_heap t) = dom (lru_heap s)"

lemma ent_upd_node: "(\<And>n. nd_entry (f n) = nd_entry n) \<Longrightarrow> ent (upd_node a f s) = ent s"
  by (auto simp: upd_node_def ent_def fun_eq_iff map_option_case split: option.splits)

lemma dom_upd_node: "dom (lru_heap (upd_node a f s)) = dom (lru_heap s)"
  by (auto simp: upd_node_def split: if_splits)

lemma same_data_upd_node [simp]:
  "(\<And>n. nd_entry (f n) = nd_entry n) \<Longrightarrow> same_data s (upd_node a f t) = same_data s t"
  by (simp add: same_data_def ent_upd_node dom_upd_node) (simp add: upd_node_def)

lemma same_data_refl [simp]: "same_data s s"
  by (simp add: same_data_def)

lemma same_data_trans: "same_data s t \<Longrightarrow> same_data t u \<Longrightarrow> same_data s u"
  by (simp add: same_data_def)

lemma same_data_head [simp]: "same_data s (t\<lparr>lru_head := h\<rparr>) = same_data s t"
  by (simp add: same_data_def ent_def fun_eq_iff)

lemma same_data_tail [simp]: "same_data s (t\<lparr>lru_tail := h\<rparr>) = same_data s t"
  by (simp add: same_data_def ent_def fun_eq_iff)

lemma remove_node_same_data: "same_data s (remove_node a s)"
  unfolding remove_node_def Let_def
  by (auto split: option.split)

lemma add_to_front_same_data: "same_data s (add_to_front a s)"
  unfolding add_to_front_def Let_def
  by (auto split: option.split)

lemma remove_node_linked:
  assumes "linked s (ys @ a # zs)"
  shows "linked (remove_node a s) (ys @ zs) \<and>
         lru_heap (remove_node a s) a = Some \<lparr>nd_entry = ent s a, nd_prev = None, nd_next = None\<rparr>"
proof -
  note unfold = linked_def remove_node_def upd_node_def node_prev_def node_next_def ent_def Let_def
    dll_frame dll_append opt_hd_append opt_last_append
  have hd: "opt_hd ys \<noteq> Some a" and last: "opt_last zs \<noteq> Some a"
    using assms by (auto simp: linked_def dest: opt_hd_in opt_last_in)
  show ?thesis
  proof (cases ys rule: rev_cases)
    case Nil
    with assms last show ?thesis by (cases zs) (auto simp: unfold)
  next
    case (snoc ys' p)
    show ?thesis
    proof (cases "ys' = []")
      case True
      with snoc assms last hd show ?thesis by (cases zs) (auto simp: unfold)
    next
      case False
      with snoc assms last hd show ?thesis by (cases zs) (auto simp: unfold)
    qed
  qed
qed

lemma add_to_front_linked:
  assumes "linked s xs" and "a \<notin> set xs"
    and "lru_heap s a = Some \<lparr>nd_entry = e, nd_prev = None, nd_next = None\<rparr>"
  shows "linked (add_to_front a s) (a # xs)"
proof (cases xs)
  case Nil
  with assms show ?thesis by (auto simp: linked_def add_to_front_def)
next
  case (Cons x xs')
  with assms show ?thesis
    by (auto simp: linked_def add_to_front_def upd_node_def dll_frame opt_last_append)
qed

lemma move_to_front_linked:
  assumes "linked s (ys @ a # zs)"
  shows "linked (move_to_front a s) (a # ys @ zs)"
proof (cases "lru_head s = Some a")
  case True
  with assms have "ys = []" by (cases ys) (auto simp: linked_def)
  with True assms show ?thesis by (simp add: move_to_front_def)
next
  case False
  have "a \<notin> set (ys @ zs)" using assms by (auto simp: linked_def)
  with False remove_node_linked [OF assms] show ?thesis
    by (auto simp: move_to_front_def intro: add_to_front_linked)
qed

lemma move_to_front_same_data: "same_data s (move_to_front a s)"
  by (auto simp: move_to_front_def intro: remove_node_same_data add_to_front_same_data same_data_trans)

section \<open>Invariant\<close>

text \<open>
  \<open>lru_core s xs\<close>: the linked addresses \<open>xs\<close>, most recent first, are exactly those the
  map points to, each under the key of its entry.
\<close>

definition lru_core :: "'v lru \<Rightarrow> nat list \<Rightarrow> bool" where
  "lru_core s xs \<longleftrightarrow> linked s xs \<and> jmap_ok (lru_map s) \<and>
     (\<forall>k a. jmap_get (lru_map s) k = Some a \<longleftrightarrow> a \<in> set xs \<and> ce_key (ent s a) = k) \<and>
     (\<forall>a \<in> set xs. a < lru_fresh s)"

definition lru_inv :: "'v lru \<Rightarrow> nat list \<Rightarrow> bool" where
  "lru_inv s xs \<longleftrightarrow> lru_core s xs \<and> 0 < lru_max s \<and> int (length xs) \<le> lru_max s \<and>
     st_size (lru_stats s) = length (lru_map s)"

definition lru_ok :: "'v lru \<Rightarrow> bool" where
  "lru_ok s \<longleftrightarrow> (\<exists>xs. lru_inv s xs)"

lemma lru_core_has: "lru_core s xs \<Longrightarrow> jmap_get (lru_map s) k = Some a \<longleftrightarrow> a \<in> set xs \<and> ce_key (ent s a) = k"
  by (simp add: lru_core_def)

lemma lru_core_distinct_keys:
  assumes "lru_core s xs"
  shows "distinct (map (ce_key \<circ> ent s) xs)"
proof -
  have "inj_on (ce_key \<circ> ent s) (set xs)"
    using lru_core_has [OF assms] by (intro inj_onI) (metis comp_apply option.inject)
  with assms show ?thesis by (simp add: lru_core_def linked_def distinct_map)
qed

lemma lru_core_length:
  assumes "lru_core s xs"
  shows "length (lru_map s) = length xs"
proof -
  have "set (jmap_keys (lru_map s)) = set (map (ce_key \<circ> ent s) xs)"
    using lru_core_has [OF assms] by (force simp: dom_map_of_conv_image_fst [symmetric])
  moreover have "jmap_ok (lru_map s)" using assms by (simp add: lru_core_def)
  ultimately have "length (jmap_keys (lru_map s)) = length (map (ce_key \<circ> ent s) xs)"
    using lru_core_distinct_keys [OF assms] by (metis distinct_card)
  then show ?thesis by simp
qed

lemma lru_core_entries: "lru_core s xs \<Longrightarrow> lru_entries s = map (ent s) xs"
  using walk_dll [of "lru_heap s" None xs]
  by (simp add: lru_entries_def lru_core_length ent_def) (simp add: lru_core_def linked_def ent_def)

lemma find_unique:
  "distinct (map f xs) \<Longrightarrow> a \<in> set xs \<Longrightarrow> find (\<lambda>x. f x = f a) xs = Some a"
  by (induction xs) auto

lemma spec_find_entries:
  assumes "lru_core s xs"
  shows "spec_find k (lru_entries s) = map_option (ent s) (jmap_get (lru_map s) k)"
proof (cases "jmap_get (lru_map s) k")
  case None
  with assms have "\<forall>a \<in> set xs. ce_key (ent s a) \<noteq> k"
    by (metis lru_core_has option.distinct(1))
  with None assms show ?thesis
    by (auto simp: spec_find_def lru_core_entries find_None_iff)
next
  case (Some a)
  with assms have a: "a \<in> set xs" "ce_key (ent s a) = k" by (simp_all add: lru_core_has)
  have "find (\<lambda>e. ce_key e = k) (map (ent s) xs) = map_option (ent s) (find (\<lambda>x. (ce_key \<circ> ent s) x = k) xs)"
    by (induction xs) auto
  also have "\<dots> = Some (ent s a)"
    using find_unique [OF lru_core_distinct_keys [OF assms] a(1)] a(2) by simp
  finally show ?thesis using Some assms by (simp add: spec_find_def lru_core_entries)
qed

text \<open>Splitting the order of use at a present key.\<close>

lemma lru_core_split:
  assumes "lru_core s xs" and "jmap_get (lru_map s) k = Some a"
  obtains ys zs where "xs = ys @ a # zs" and "a \<notin> set (ys @ zs)" and "ce_key (ent s a) = k"
    and "spec_without k (lru_entries s) = map (ent s) (ys @ zs)"
proof -
  from assms have a: "a \<in> set xs" "ce_key (ent s a) = k" by (simp_all add: lru_core_has)
  then obtain ys zs where xs: "xs = ys @ a # zs" by (meson split_list)
  have d: "distinct (map (ce_key \<circ> ent s) (ys @ a # zs))"
    using lru_core_distinct_keys [OF assms(1)] xs by simp
  have ne: "ce_key (ent s b) \<noteq> k" if "b \<in> set (ys @ zs)" for b
    using d that a(2) by (auto simp: image_iff)
  have keep: "filter (\<lambda>e. ce_key e \<noteq> k) (map (ent s) ws) = map (ent s) ws"
    if "set ws \<subseteq> set (ys @ zs)" for ws
    by (rule filter_True) (use ne that in auto)
  have "spec_without k (lru_entries s) = map (ent s) (ys @ zs)"
    using keep [of ys] keep [of zs] a(2)
    by (simp add: spec_without_def lru_core_entries [OF assms(1)] xs)
  moreover have "a \<notin> set (ys @ zs)" using assms(1) xs by (auto simp: lru_core_def linked_def)
  ultimately show ?thesis using that xs a(2) by blast
qed

text \<open>Moving to the front after rewriting the entry in place.\<close>

lemma linked_upd_entry:
  "linked s xs \<Longrightarrow> linked (upd_node a (\<lambda>n. n\<lparr>nd_entry := f (nd_entry n)\<rparr>) s) xs"
  by (simp add: linked_def upd_node_def dll_upd_entry)

lemma ent_upd_entry:
  "lru_heap s a \<noteq> None \<Longrightarrow>
   ent (upd_node a (\<lambda>n. n\<lparr>nd_entry := f (nd_entry n)\<rparr>) s) = (ent s)(a := f (ent s a))"
  by (auto simp: ent_def upd_node_def fun_eq_iff)

lemma linked_heap: "linked s xs \<Longrightarrow> a \<in> set xs \<Longrightarrow> lru_heap s a \<noteq> None"
  using dll_dom [of "lru_heap s" None xs None a] by (auto simp: linked_def)

lemma touch_inv:
  assumes inv: "lru_inv s xs" and get: "jmap_get (lru_map s) k = Some a"
    and key: "\<And>e. ce_key (f e) = ce_key e"
    and t: "t = move_to_front a (upd_node a (\<lambda>n. n\<lparr>nd_entry := f (nd_entry n)\<rparr>) s)"
  shows "lru_ok t \<and> lru_entries t = f (ent s a) # spec_without k (lru_entries s) \<and>
         ent t a = f (ent s a) \<and> lru_heap t a \<noteq> None \<and> lru_max t = lru_max s"
proof -
  let ?u = "upd_node a (\<lambda>n. n\<lparr>nd_entry := f (nd_entry n)\<rparr>) s"
  from inv have core: "lru_core s xs" by (simp add: lru_inv_def)
  from lru_core_split [OF core get] obtain ys zs where
    xs: "xs = ys @ a # zs" and a: "a \<notin> set (ys @ zs)" and k: "ce_key (ent s a) = k"
    and rest: "spec_without k (lru_entries s) = map (ent s) (ys @ zs)" .
  from core have lk: "linked s (ys @ a # zs)" by (simp add: lru_core_def xs)
  from linked_heap [OF lk, of a] have heap: "lru_heap s a \<noteq> None" by simp
  have lt: "linked t (a # ys @ zs)"
    unfolding t by (intro move_to_front_linked linked_upd_entry lk)
  have same: "same_data ?u t" unfolding t by (rule move_to_front_same_data)
  then have ent: "ent t = (ent s)(a := f (ent s a))"
    by (simp add: same_data_def ent_upd_entry [OF heap])
  have flds: "lru_map t = lru_map s" "lru_max t = lru_max s" "lru_fresh t = lru_fresh s"
      "lru_stats t = lru_stats s"
    using same by (simp_all add: same_data_def upd_node_def)
  have inv_t: "lru_inv t (a # ys @ zs)"
    using inv lt a by (auto simp: lru_inv_def lru_core_def flds ent key xs)
  then have "lru_core t (a # ys @ zs)" by (simp add: lru_inv_def)
  then have "lru_entries t = f (ent s a) # map (ent s) (ys @ zs)"
    using a by (auto simp: lru_core_entries ent)
  moreover have "lru_heap t a \<noteq> None" using linked_heap [OF lt, of a] by simp
  ultimately show ?thesis
    using inv_t rest ent flds by (auto simp: lru_ok_def)
qed


lemma lru_inv_stats:
  "lru_inv s xs \<Longrightarrow> st_size st = st_size (lru_stats s) \<Longrightarrow> lru_inv (s\<lparr>lru_stats := st\<rparr>) xs"
  by (simp add: lru_inv_def lru_core_def linked_def ent_def)

lemma lru_entries_stats [simp]: "lru_entries (s\<lparr>lru_stats := st\<rparr>) = lru_entries s"
  by (simp add: lru_entries_def)

lemma ent_other [simp]:
  "ent (s\<lparr>lru_stats := st\<rparr>) = ent s" "ent (s\<lparr>lru_map := m\<rparr>) = ent s"
  by (simp_all add: ent_def fun_eq_iff)

lemma lru_core_stats [simp]: "lru_core (s\<lparr>lru_stats := st\<rparr>) xs = lru_core s xs"
  by (simp add: lru_core_def linked_def)

section \<open>The pointer code implements the list specification\<close>

lemma lru_new_ok: "lru_new m = Inr s \<Longrightarrow> lru_ok s \<and> lru_entries s = [] \<and> lru_max s = m"
  by (auto simp: lru_new_def lru_ok_def lru_inv_def lru_core_def linked_def lru_entries_def
      zero_stats_def split: if_splits)

lemma lru_get_refines:
  assumes "lru_ok s"
  shows "lru_ok (snd (lru_get now k s)) \<and>
    (fst (lru_get now k s), lru_entries (snd (lru_get now k s))) = spec_get now k (lru_entries s) \<and>
    lru_max (snd (lru_get now k s)) = lru_max s"
proof -
  from assms obtain xs where inv: "lru_inv s xs" by (auto simp: lru_ok_def)
  then have core: "lru_core s xs" by (simp add: lru_inv_def)
  show ?thesis
  proof (cases "jmap_get (lru_map s) k")
    case None
    with inv show ?thesis
      using lru_inv_stats [OF inv, of "(lru_stats s)\<lparr>st_misses := st_misses (lru_stats s) + 1\<rparr>"]
      by (simp add: lru_get_def spec_get_def spec_find_entries [OF core] lru_ok_def) blast
  next
    case (Some a)
    let ?s1 = "s\<lparr>lru_stats := (lru_stats s)\<lparr>st_hits := st_hits (lru_stats s) + 1\<rparr>\<rparr>"
    let ?f = "\<lambda>e. e\<lparr>ce_lastAccessedAt := now, ce_accessCount := ce_accessCount e + 1\<rparr>"
    let ?t = "move_to_front a (upd_node a (\<lambda>n. n\<lparr>nd_entry := ?f (nd_entry n)\<rparr>) ?s1)"
    have inv1: "lru_inv ?s1 xs" by (rule lru_inv_stats [OF inv]) simp
    have T: "lru_ok ?t \<and> lru_entries ?t = ?f (ent ?s1 a) # spec_without k (lru_entries ?s1) \<and>
         ent ?t a = ?f (ent ?s1 a) \<and> lru_heap ?t a \<noteq> None \<and> lru_max ?t = lru_max ?s1"
      by (rule touch_inv [OF inv1]) (use Some in simp_all)
    then obtain n where "lru_heap ?t a = Some n" and "nd_entry n = ?f (ent ?s1 a)"
      by (auto simp: ent_def)
    with T Some show ?thesis
      by (auto simp: lru_get_def spec_get_def spec_find_entries [OF core])
  qed
qed

text \<open>Unlinking a node and dropping its key, as eviction and deletion do.\<close>

lemma drop_core:
  assumes core: "lru_core s (ys @ a # zs)"
  shows "lru_core ((remove_node a s)\<lparr>lru_map := jmap_del (ce_key (ent s a)) (lru_map s)\<rparr>) (ys @ zs)"
    and "ent (remove_node a s) = ent s" and "same_data s (remove_node a s)"
    and "lru_heap (remove_node a s) a = Some \<lparr>nd_entry = ent s a, nd_prev = None, nd_next = None\<rparr>"
proof -
  have lk: "linked s (ys @ a # zs)" using core by (simp add: lru_core_def)
  show heap: "lru_heap (remove_node a s) a = Some \<lparr>nd_entry = ent s a, nd_prev = None, nd_next = None\<rparr>"
    using remove_node_linked [OF lk] by simp
  show same: "same_data s (remove_node a s)" by (rule remove_node_same_data)
  then show ent: "ent (remove_node a s) = ent s" by (simp add: same_data_def)
  have d: "distinct (map (ce_key \<circ> ent s) (ys @ a # zs))"
    by (rule lru_core_distinct_keys [OF core])
  have ne: "ce_key (ent s b) \<noteq> ce_key (ent s a)" if "b \<in> set (ys @ zs)" for b
    using d that by (auto simp: image_iff)
  show "lru_core ((remove_node a s)\<lparr>lru_map := jmap_del (ce_key (ent s a)) (lru_map s)\<rparr>) (ys @ zs)"
    using remove_node_linked [OF lk] core same ne
    by (auto simp: lru_core_def linked_def same_data_def jmap_get_del)
qed

lemma evict_inv:
  assumes core: "lru_core s xs" and ne: "xs \<noteq> []"
  shows "lru_core (evict_lru s) (butlast xs) \<and>
         lru_entries (evict_lru s) = butlast (lru_entries s) \<and>
         lru_max (evict_lru s) = lru_max s \<and>
         st_size (lru_stats (evict_lru s)) = length (lru_map (evict_lru s))"
proof -
  obtain ys a where xs: "xs = ys @ [a]" using ne by (cases xs rule: rev_cases) auto
  have core': "lru_core s (ys @ a # [])" using core xs by simp
  note D = drop_core [OF core']
  let ?t = "remove_node a s"
  let ?m = "jmap_del (ce_key (ent s a)) (lru_map s)"
  have flds: "lru_map ?t = lru_map s" "lru_max ?t = lru_max s"
    using D(3) by (simp_all add: same_data_def)
  have u: "evict_lru s = ?t\<lparr>lru_map := ?m, lru_stats := (lru_stats ?t)\<lparr>
             st_evictions := st_evictions (lru_stats ?t) + 1, st_size := length ?m\<rparr>\<rparr>"
    using core' D(4) by (simp add: evict_lru_def lru_core_def linked_def flds Let_def)
  have uc: "lru_core (evict_lru s) ys"
    unfolding u using D(1) by (simp add: lru_core_def linked_def)
  have "ent (evict_lru s) = ent s" unfolding u by (simp add: D(2))
  with uc show ?thesis
    using core by (simp add: lru_core_entries xs) (simp add: u flds)
qed


text \<open>Linking a fresh node under a new key.\<close>

lemma insert_core:
  assumes core: "lru_core s xs" and absent: "jmap_get (lru_map s) k = None"
    and key: "ce_key e = k"
    and t: "t = add_to_front (lru_fresh s)
       (s\<lparr>lru_heap := (lru_heap s)(lru_fresh s \<mapsto> \<lparr>nd_entry = e, nd_prev = None, nd_next = None\<rparr>),
          lru_fresh := Suc (lru_fresh s), lru_map := jmap_set k (lru_fresh s) (lru_map s)\<rparr>)"
  shows "lru_core t (lru_fresh s # xs) \<and> lru_entries t = e # lru_entries s \<and> lru_max t = lru_max s"
proof -
  let ?a = "lru_fresh s"
  let ?u = "s\<lparr>lru_heap := (lru_heap s)(?a \<mapsto> \<lparr>nd_entry = e, nd_prev = None, nd_next = None\<rparr>),
          lru_fresh := Suc ?a, lru_map := jmap_set k ?a (lru_map s)\<rparr>"
  have a: "?a \<notin> set xs" using core by (auto simp: lru_core_def)
  then have "linked ?u xs" using core by (simp add: lru_core_def linked_def dll_frame)
  then have lt: "linked t (?a # xs)" unfolding t using a by (rule add_to_front_linked) simp
  have same: "same_data ?u t" unfolding t by (rule add_to_front_same_data)
  have ent: "ent t = (ent s)(?a := e)"
    using same by (simp add: same_data_def) (simp add: ent_def fun_eq_iff)
  have flds: "lru_map t = jmap_set k ?a (lru_map s)" "lru_fresh t = Suc ?a" "lru_max t = lru_max s"
    using same by (simp_all add: same_data_def)
  have ne: "ce_key (ent s b) \<noteq> k" if "b \<in> set xs" for b
    using lru_core_has [OF core, of k b] that absent by simp
  have ct: "lru_core t (?a # xs)"
    using core lt a ne key by (auto simp: lru_core_def ent flds jmap_get_set less_Suc_eq)
  moreover have "map (ent t) xs = map (ent s) xs" using a by (auto simp: ent)
  ultimately show ?thesis using core by (simp add: lru_core_entries ent flds)
qed

lemma lru_set_refines:
  assumes "lru_ok s"
  shows "lru_ok (lru_set now k v s) \<and>
    lru_entries (lru_set now k v s) = spec_set (lru_max s) now k v (lru_entries s) \<and>
    lru_max (lru_set now k v s) = lru_max s"
proof -
  from assms obtain xs where inv: "lru_inv s xs" by (auto simp: lru_ok_def)
  then have core: "lru_core s xs" by (simp add: lru_inv_def)
  show ?thesis
  proof (cases "jmap_get (lru_map s) k")
    case (Some a)
    let ?f = "\<lambda>e. e\<lparr>ce_value := v, ce_lastAccessedAt := now, ce_accessCount := ce_accessCount e + 1\<rparr>"
    let ?t = "move_to_front a (upd_node a (\<lambda>n. n\<lparr>nd_entry := ?f (nd_entry n)\<rparr>) s)"
    have "lru_ok ?t \<and> lru_entries ?t = ?f (ent s a) # spec_without k (lru_entries s) \<and>
         ent ?t a = ?f (ent s a) \<and> lru_heap ?t a \<noteq> None \<and> lru_max ?t = lru_max s"
      by (rule touch_inv [OF inv Some]) simp_all
    with Some show ?thesis
      by (simp add: lru_set_def spec_set_def spec_find_entries [OF core])
  next
    case None
    let ?e = "\<lparr>ce_key = k, ce_value = v, ce_createdAt = now, ce_lastAccessedAt = now, ce_accessCount = 1\<rparr>"
    define t where "t = add_to_front (lru_fresh s)
       (s\<lparr>lru_heap := (lru_heap s)(lru_fresh s \<mapsto> \<lparr>nd_entry = ?e, nd_prev = None, nd_next = None\<rparr>),
          lru_fresh := Suc (lru_fresh s), lru_map := jmap_set k (lru_fresh s) (lru_map s)\<rparr>)"
    have T: "lru_core t (lru_fresh s # xs) \<and> lru_entries t = ?e # lru_entries s \<and> lru_max t = lru_max s"
      by (rule insert_core [OF core None _ t_def]) simp
    define u where "u = t\<lparr>lru_stats := (lru_stats t)\<lparr>st_size := length (lru_map t)\<rparr>\<rparr>"
    have U: "lru_core u (lru_fresh s # xs)" "lru_entries u = ?e # lru_entries s" "lru_max u = lru_max s"
      "st_size (lru_stats u) = length (lru_map u)"
      using T by (simp_all add: u_def)
    have len: "length (lru_map u) = Suc (length xs)" using lru_core_length [OF U(1)] by simp
    have lenE: "length (lru_entries s) = length xs" using lru_core_entries [OF core] by simp
    have set_eq: "lru_set now k v s =
        (if lru_max u < int (length (lru_map u)) then evict_lru u else u)"
      by (simp add: lru_set_def None u_def t_def Let_def)
    have bounds: "0 < lru_max s" "int (length xs) \<le> lru_max s" using inv by (simp_all add: lru_inv_def)
    show ?thesis
    proof (cases "lru_max u < int (length (lru_map u))")
      case True
      with len U(3) bounds have full: "lru_max s = int (length xs)" by simp
      have E: "lru_core (evict_lru u) (butlast (lru_fresh s # xs)) \<and>
         lru_entries (evict_lru u) = butlast (lru_entries u) \<and>
         lru_max (evict_lru u) = lru_max u \<and>
         st_size (lru_stats (evict_lru u)) = length (lru_map (evict_lru u))"
        by (rule evict_inv [OF U(1)]) simp
      then have "lru_inv (evict_lru u) (butlast (lru_fresh s # xs))"
        using full bounds U(3) by (simp add: lru_inv_def)
      moreover have "butlast (?e # lru_entries s) = take (nat (lru_max s)) (?e # lru_entries s)"
        using full lenE by (simp add: butlast_conv_take)
      ultimately show ?thesis
        using E True U(2,3) None
        by (simp add: set_eq spec_set_def spec_find_entries [OF core] lru_ok_def) blast
    next
      case False
      then have "lru_inv u (lru_fresh s # xs)"
        using U bounds len by (simp add: lru_inv_def)
      moreover have "take (nat (lru_max s)) (?e # lru_entries s) = ?e # lru_entries s"
        using False len lenE U(3) by (intro take_all) simp
      ultimately show ?thesis
        using False U(2,3) None
        by (simp add: set_eq spec_set_def spec_find_entries [OF core] lru_ok_def) blast
    qed
  qed
qed

lemma lru_delete_refines:
  assumes "lru_ok s"
  shows "lru_ok (snd (lru_delete k s)) \<and>
    lru_entries (snd (lru_delete k s)) = spec_without k (lru_entries s) \<and>
    fst (lru_delete k s) = (spec_find k (lru_entries s) \<noteq> None)"
proof -
  from assms obtain xs where inv: "lru_inv s xs" by (auto simp: lru_ok_def)
  then have core: "lru_core s xs" by (simp add: lru_inv_def)
  show ?thesis
  proof (cases "jmap_get (lru_map s) k")
    case None
    then have "\<forall>e \<in> set (lru_entries s). ce_key e \<noteq> k"
      using spec_find_entries [OF core, of k] by (simp add: spec_find_def find_None_iff)
    then have "spec_without k (lru_entries s) = lru_entries s"
      by (simp add: spec_without_def)
    with None assms show ?thesis
      by (simp add: lru_delete_def spec_find_entries [OF core])
  next
    case (Some a)
    from lru_core_split [OF core Some] obtain ys zs where xs: "xs = ys @ a # zs"
      and k: "ce_key (ent s a) = k"
      and rest: "spec_without k (lru_entries s) = map (ent s) (ys @ zs)" .
    have core': "lru_core s (ys @ a # zs)" using core xs by simp
    note D = drop_core [OF core']
    let ?t = "snd (lru_delete k s)"
    have t: "?t = (remove_node a s)\<lparr>lru_map := jmap_del k (lru_map s),
        lru_stats := (lru_stats s)\<lparr>st_size := length (jmap_del k (lru_map s))\<rparr>\<rparr>"
      using D(3) by (simp add: lru_delete_def Some Let_def same_data_def)
    have c: "lru_core ?t (ys @ zs)"
      unfolding t using D(1) by (simp add: k)
    have "lru_inv ?t (ys @ zs)"
      using c inv D(3) by (simp add: lru_inv_def xs t same_data_def)
    moreover have "ent ?t = ent s" unfolding t by (simp add: D(2))
    ultimately show ?thesis
      using c rest Some by (auto simp: lru_core_entries lru_ok_def spec_find_entries [OF core] lru_delete_def Let_def)
  qed
qed

lemma lru_clear_ok: "lru_ok s \<Longrightarrow> lru_ok (lru_clear s) \<and> lru_entries (lru_clear s) = []"
  by (auto simp: lru_ok_def lru_clear_def lru_inv_def lru_core_def linked_def lru_entries_def zero_stats_def
      intro!: exI [of _ "[]"])

lemma lru_has_lookup: "lru_ok s \<Longrightarrow> lru_has k s = (lru_lookup s k \<noteq> None)"
  by (auto simp: lru_ok_def lru_has_def lru_lookup_def lru_inv_def spec_find_entries)

lemma lru_bound: "lru_ok s \<Longrightarrow> int (length (lru_entries s)) \<le> lru_max s"
  by (auto simp: lru_ok_def lru_inv_def lru_core_entries)

lemma lru_size_exact: "lru_ok s \<Longrightarrow> st_size (lru_statistics s) = length (lru_entries s)"
  by (auto simp: lru_ok_def lru_inv_def lru_core_entries lru_statistics_def lru_core_length)

lemma lru_distinct: "lru_ok s \<Longrightarrow> distinct (map ce_key (lru_entries s))"
  using lru_core_distinct_keys by (auto simp: lru_ok_def lru_inv_def lru_core_entries)


section \<open>The contract of a cache\<close>

text \<open>
  What the query engine relies on: a hit returns the stored value and does not change what is
  stored; after \<open>set\<close> the key holds the new value and any other key holds what it held
  before or nothing (it may have been evicted).
\<close>

locale cache =
  fixes cget :: "string \<Rightarrow> 'c \<Rightarrow> 'v option \<times> 'c" and cset :: "string \<Rightarrow> 'v \<Rightarrow> 'c \<Rightarrow> 'c"
    and cok :: "'c \<Rightarrow> bool" and content :: "'c \<Rightarrow> string \<Rightarrow> 'v option"
  assumes get_value: "cok c \<Longrightarrow> fst (cget k c) = content c k"
    and get_content: "cok c \<Longrightarrow> content (snd (cget k c)) = content c"
    and get_ok: "cok c \<Longrightarrow> cok (snd (cget k c))"
    and set_value: "cok c \<Longrightarrow> content (cset k v c) k = Some v"
    and set_other: "cok c \<Longrightarrow> j \<noteq> k \<Longrightarrow> content (cset k v c) j \<in> {None, content c j}"
    and set_ok: "cok c \<Longrightarrow> cok (cset k v c)"
begin

text \<open>Coherence with a source of truth \<open>src\<close>: whatever is cached is what \<open>src\<close> would give.\<close>

definition coherent :: "(string \<Rightarrow> 'v option) \<Rightarrow> 'c \<Rightarrow> bool" where
  "coherent src c \<longleftrightarrow> cok c \<and> (\<forall>k v. content c k = Some v \<longrightarrow> src k = Some v)"

lemma coherent_get: "coherent src c \<Longrightarrow> coherent src (snd (cget k c))"
  by (simp add: coherent_def get_content get_ok)

lemma coherent_get_value: "coherent src c \<Longrightarrow> fst (cget k c) = Some v \<Longrightarrow> src k = Some v"
  by (simp add: coherent_def get_value)

lemma coherent_set:
  assumes "coherent src c" and "src k = Some v"
  shows "coherent src (cset k v c)"
proof -
  have "src j = Some w" if "content (cset k v c) j = Some w" for j w
  proof (cases "j = k")
    case True
    with that assms show ?thesis using set_value [of c k v] by (simp add: coherent_def)
  next
    case False
    with assms(1) set_other [of c j k v] have "content (cset k v c) j \<in> {None, content c j}"
      by (simp add: coherent_def)
    with that have "content c j = Some w" by auto
    with assms(1) show ?thesis by (simp add: coherent_def)
  qed
  with assms show ?thesis by (simp add: coherent_def set_ok)
qed

lemma coherent_read_through:
  assumes "coherent src c"
  shows "coherent src (case fst (cget k c) of Some v \<Rightarrow> snd (cget k c)
      | None \<Rightarrow> (case src k of None \<Rightarrow> snd (cget k c) | Some v \<Rightarrow> cset k v (snd (cget k c))))"
  using assms by (auto intro: coherent_get coherent_set split: option.split)

end

lemma spec_find_move:
  assumes "spec_find k es = Some e" and "ce_key e' = k"
  shows "spec_find j (e' # spec_without k es) = (if j = k then Some e' else spec_find j es)"
proof -
  have "find (\<lambda>e. ce_key e = j) (filter (\<lambda>e. ce_key e \<noteq> k) es) = find (\<lambda>e. ce_key e = j) es" if "j \<noteq> k"
    using that by (induction es) auto
  with assms show ?thesis by (auto simp: spec_find_def spec_without_def)
qed

lemma spec_find_key: "spec_find k es = Some e \<Longrightarrow> ce_key e = k"
  by (auto simp: spec_find_def find_Some_iff)

lemma find_take: "find P (take n xs) \<in> {None, find P xs}"
  by (induction xs arbitrary: n) (auto simp: take_Cons split: nat.split)

lemma lru_lookup_get:
  assumes "lru_ok s"
  shows "fst (lru_get now k s) = lru_lookup s k" and "lru_lookup (snd (lru_get now k s)) = lru_lookup s"
proof -
  note R = lru_get_refines [OF assms, of now k]
  show "fst (lru_get now k s) = lru_lookup s k"
    using R by (auto simp: spec_get_def lru_lookup_def split: option.splits)
  show "lru_lookup (snd (lru_get now k s)) = lru_lookup s"
  proof (cases "spec_find k (lru_entries s)")
    case None
    with R show ?thesis by (auto simp: spec_get_def lru_lookup_def fun_eq_iff)
  next
    case (Some e)
    with R show ?thesis
      by (auto simp: spec_get_def lru_lookup_def fun_eq_iff spec_find_move [OF Some] spec_find_key [OF Some])
  qed
qed

lemma lru_lookup_set:
  assumes "lru_ok s"
  shows "lru_lookup (lru_set now k v s) k = Some v"
    and "j \<noteq> k \<Longrightarrow> lru_lookup (lru_set now k v s) j \<in> {None, lru_lookup s j}"
proof -
  note R = lru_set_refines [OF assms, of now k v]
  from assms have m: "0 < lru_max s" by (auto simp: lru_ok_def lru_inv_def)
  let ?e = "\<lparr>ce_key = k, ce_value = v, ce_createdAt = now, ce_lastAccessedAt = now, ce_accessCount = 1\<rparr>"
  show "lru_lookup (lru_set now k v s) k = Some v"
  proof (cases "spec_find k (lru_entries s)")
    case None
    with R m show ?thesis
      by (cases "nat (lru_max s)") (auto simp: spec_set_def lru_lookup_def spec_find_def)
  next
    case (Some e)
    with R show ?thesis
      by (auto simp: spec_set_def lru_lookup_def spec_find_move [OF Some] spec_find_key [OF Some])
  qed
  show "lru_lookup (lru_set now k v s) j \<in> {None, lru_lookup s j}" if "j \<noteq> k"
  proof (cases "spec_find k (lru_entries s)")
    case None
    with R that find_take [of "\<lambda>e. ce_key e = j" "nat (lru_max s)" "?e # lru_entries s"] show ?thesis
      by (auto simp: spec_set_def lru_lookup_def spec_find_def)
  next
    case (Some e)
    with R that show ?thesis
      by (auto simp: spec_set_def lru_lookup_def spec_find_move [OF Some] spec_find_key [OF Some])
  qed
qed

interpretation lru: cache "lru_get now" "lru_set now" lru_ok lru_lookup for now
proof unfold_locales
  fix s :: "'a lru" and k j v
  assume ok: "lru_ok s"
  show "fst (lru_get now k s) = lru_lookup s k" by (rule lru_lookup_get(1) [OF ok])
  show "lru_lookup (snd (lru_get now k s)) = lru_lookup s" by (rule lru_lookup_get(2) [OF ok])
  show "lru_ok (snd (lru_get now k s))" using lru_get_refines [OF ok] by blast
  show "lru_lookup (lru_set now k v s) k = Some v" by (rule lru_lookup_set(1) [OF ok])
  show "j \<noteq> k \<Longrightarrow> lru_lookup (lru_set now k v s) j \<in> {None, lru_lookup s j}"
    by (rule lru_lookup_set(2) [OF ok])
  show "lru_ok (lru_set now k v s)" using lru_set_refines [OF ok] by blast
qed

section \<open>Runs of operations\<close>

datatype 'v lru_op = OpGet string | OpSet string 'v | OpHas string | OpDelete string | OpClear

fun lru_step :: "'v lru_op \<times> int \<Rightarrow> 'v lru \<Rightarrow> 'v lru" where
  "lru_step (OpGet k, now) s = snd (lru_get now k s)"
| "lru_step (OpSet k v, now) s = lru_set now k v s"
| "lru_step (OpHas k, now) s = s"
| "lru_step (OpDelete k, now) s = snd (lru_delete k s)"
| "lru_step (OpClear, now) s = lru_clear s"

fun spec_step :: "int \<Rightarrow> 'v lru_op \<times> int \<Rightarrow> 'v cache_entry list \<Rightarrow> 'v cache_entry list" where
  "spec_step m (OpGet k, now) es = snd (spec_get now k es)"
| "spec_step m (OpSet k v, now) es = spec_set m now k v es"
| "spec_step m (OpHas k, now) es = es"
| "spec_step m (OpDelete k, now) es = spec_without k es"
| "spec_step m (OpClear, now) es = []"

definition lru_run :: "('v lru_op \<times> int) list \<Rightarrow> 'v lru \<Rightarrow> 'v lru" where
  "lru_run ops s = fold lru_step ops s"

lemma lru_step_refines:
  assumes "lru_ok s"
  shows "lru_ok (lru_step p s) \<and> lru_entries (lru_step p s) = spec_step (lru_max s) p (lru_entries s) \<and>
         lru_max (lru_step p s) = lru_max s"
proof (cases p)
  case (Pair op now)
  show ?thesis
  proof (cases op)
    case (OpGet k)
    with Pair lru_get_refines [OF assms, of now k] show ?thesis by (metis lru_step.simps(1) spec_step.simps(1) snd_conv)
  next
    case (OpSet k v)
    with Pair lru_set_refines [OF assms, of now k v] show ?thesis by simp
  next
    case (OpDelete k)
    have "lru_max (snd (lru_delete k s)) = lru_max s"
      using remove_node_same_data [of s] by (auto simp: lru_delete_def Let_def same_data_def split: option.split)
    with OpDelete Pair lru_delete_refines [OF assms, of k] show ?thesis by simp
  next
    case OpClear
    have "lru_max (lru_clear s) = lru_max s" by (simp add: lru_clear_def)
    with OpClear Pair lru_clear_ok [OF assms] show ?thesis by simp
  qed (use Pair assms in simp)
qed

lemma lru_run_ok:
  "lru_ok s \<Longrightarrow> lru_ok (lru_run ops s) \<and>
     lru_entries (lru_run ops s) = fold (spec_step (lru_max s)) ops (lru_entries s) \<and>
     lru_max (lru_run ops s) = lru_max s"
proof (induction ops arbitrary: s)
  case (Cons p ops)
  with lru_step_refines [OF Cons.prems, of p] show ?case by (simp add: lru_run_def)
qed (simp add: lru_run_def)

text \<open>What the operations return, of the cache and of the list.\<close>

datatype 'v cache_answer = Found "'v option" | Flag bool | Nothing

fun lru_answer :: "'v lru_op \<times> int \<Rightarrow> 'v lru \<Rightarrow> 'v cache_answer" where
  "lru_answer (OpGet k, now) s = Found (fst (lru_get now k s))"
| "lru_answer (OpHas k, now) s = Flag (lru_has k s)"
| "lru_answer (OpDelete k, now) s = Flag (fst (lru_delete k s))"
| "lru_answer (OpSet k v, now) s = Nothing"
| "lru_answer (OpClear, now) s = Nothing"

fun spec_answer :: "'v lru_op \<times> int \<Rightarrow> 'v cache_entry list \<Rightarrow> 'v cache_answer" where
  "spec_answer (OpGet k, now) es = Found (map_option ce_value (spec_find k es))"
| "spec_answer (OpHas k, now) es = Flag (spec_find k es \<noteq> None)"
| "spec_answer (OpDelete k, now) es = Flag (spec_find k es \<noteq> None)"
| "spec_answer (OpSet k v, now) es = Nothing"
| "spec_answer (OpClear, now) es = Nothing"

fun lru_answers :: "('v lru_op \<times> int) list \<Rightarrow> 'v lru \<Rightarrow> 'v cache_answer list" where
  "lru_answers [] s = []"
| "lru_answers (p # ops) s = lru_answer p s # lru_answers ops (lru_step p s)"

fun spec_answers :: "int \<Rightarrow> ('v lru_op \<times> int) list \<Rightarrow> 'v cache_entry list \<Rightarrow> 'v cache_answer list" where
  "spec_answers m [] es = []"
| "spec_answers m (p # ops) es = spec_answer p es # spec_answers m ops (spec_step m p es)"

lemma lru_answer_refines:
  assumes "lru_ok s"
  shows "lru_answer p s = spec_answer p (lru_entries s)"
proof -
  obtain op now where p: "p = (op, now)" by (cases p)
  show ?thesis
  proof (cases op)
    case (OpGet k)
    have "fst (lru_get now k s) = fst (spec_get now k (lru_entries s))"
      using lru_get_refines [OF assms, of now k] by (metis fst_conv)
    then show ?thesis by (simp add: p OpGet spec_get_def split: option.split)
  next
    case (OpHas k)
    then show ?thesis using lru_has_lookup [OF assms] by (simp add: p lru_lookup_def)
  qed (use p lru_delete_refines [OF assms] in simp_all)
qed

lemma lru_answers_refine: "lru_ok s \<Longrightarrow> lru_answers ops s = spec_answers (lru_max s) ops (lru_entries s)"
proof (induction ops arbitrary: s)
  case (Cons p ops)
  then show ?case using lru_step_refines [OF Cons.prems, of p] lru_answer_refines [OF Cons.prems, of p] by simp
qed simp

text \<open>With a clock that never runs backwards the entries are in order of their last access.\<close>

definition by_recency :: "int \<Rightarrow> 'v cache_entry list \<Rightarrow> bool" where
  "by_recency now es \<longleftrightarrow> sorted_wrt (\<lambda>a b. ce_lastAccessedAt b \<le> ce_lastAccessedAt a) es \<and>
     (\<forall>e \<in> set es. ce_lastAccessedAt e \<le> now)"

lemma by_recency_mono: "by_recency now es \<Longrightarrow> now \<le> now' \<Longrightarrow> by_recency now' es"
  by (force simp: by_recency_def)

lemma by_recency_without: "by_recency now es \<Longrightarrow> by_recency now (spec_without k es)"
  by (simp add: by_recency_def spec_without_def sorted_wrt_filter)

lemma by_recency_Cons: "by_recency now es \<Longrightarrow> ce_lastAccessedAt e = now \<Longrightarrow> by_recency now (e # es)"
  by (simp add: by_recency_def)

lemma by_recency_take: "by_recency now es \<Longrightarrow> by_recency now (take n es)"
  by (auto simp: by_recency_def sorted_wrt_take dest: in_set_takeD)

lemma spec_step_recency:
  assumes "by_recency now es"
  shows "by_recency now (spec_step m (op, now) es)"
proof (cases op)
  case (OpGet k)
  with assms show ?thesis
    by (auto simp: spec_get_def intro: by_recency_Cons by_recency_without split: option.split)
next
  case (OpSet k v)
  with assms show ?thesis
    by (auto simp: spec_set_def intro!: by_recency_take by_recency_Cons by_recency_without split: option.split)
next
  case (OpDelete k)
  with assms show ?thesis by (simp add: by_recency_without)
next
  case OpClear
  then show ?thesis by (simp add: by_recency_def)
qed (use assms in simp)

lemma spec_run_recency:
  "sorted (t0 # map snd ops) \<Longrightarrow> by_recency t0 es \<Longrightarrow>
     by_recency (last (t0 # map snd ops)) (fold (spec_step m) ops es)"
proof (induction ops arbitrary: t0 es)
  case (Cons p ops)
  obtain op now where p: "p = (op, now)" by (cases p)
  have "by_recency now (spec_step m p es)"
    using Cons.prems p by (auto intro: spec_step_recency by_recency_mono)
  moreover have "sorted (now # map snd ops)" using Cons.prems p by simp
  ultimately show ?case using Cons.IH p by simp
qed simp

section \<open>Properties\<close>

text \<open>
  C8: from a cache the constructor made, any sequence of \<open>get\<close>, \<open>set\<close>, \<open>has\<close>,
  \<open>delete\<close> and \<open>clear\<close> returns what the list specification returns on the same operations, call by
  call, and leaves the pointer structure and the map consistent, with the entries of the
  specification along the \<open>next\<close> pointers.
\<close>

theorem lru_refines_list:
  assumes "lru_new m = Inr s"
  shows "lru_answers ops s = spec_answers m ops [] \<and>
    lru_ok (lru_run ops s) \<and> lru_entries (lru_run ops s) = fold (spec_step m) ops []"
  using lru_new_ok [OF assms] lru_run_ok [of s ops] lru_answers_refine [of s ops] by simp

theorem lru_refines_list_witness:
  "\<exists>s. lru_new 2 = Inr s \<and>
     lru_answers [(OpSet ''a'' (1::int), 1), (OpSet ''b'' 2, 2), (OpGet ''a'', 3), (OpSet ''c'' 3, 4), (OpHas ''b'', 5), (OpDelete ''a'', 6)] s =
       [Nothing, Nothing, Found (Some 1), Nothing, Flag False, Flag True] \<and>
     map ce_key (lru_entries (lru_run [(OpSet ''a'' (1::int), 1), (OpSet ''b'' 2, 2), (OpGet ''a'', 3),
        (OpSet ''c'' 3, 4)] s)) = [''c'', ''a'']"
proof -
  obtain s :: "int lru" where s: "lru_new 2 = Inr s" by (simp add: lru_new_def)
  show ?thesis
    using lru_refines_list [OF s, of "[(OpSet ''a'' 1, 1), (OpSet ''b'' 2, 2), (OpGet ''a'', 3), (OpSet ''c'' 3, 4)]"]
      lru_refines_list [OF s, of "[(OpSet ''a'' 1, 1), (OpSet ''b'' 2, 2), (OpGet ''a'', 3), (OpSet ''c'' 3, 4), (OpHas ''b'', 5), (OpDelete ''a'', 6)]"] s
    by (simp add: spec_set_def spec_get_def spec_find_def spec_without_def)
qed

text \<open>
  The cache never holds more than \<open>maxEntries\<close> entries, each key at most once, and the
  reported size is the number of entries.
\<close>

theorem lru_capacity:
  assumes "lru_new m = Inr s"
  shows "int (length (lru_entries (lru_run ops s))) \<le> m \<and>
    distinct (map ce_key (lru_entries (lru_run ops s))) \<and>
    st_size (lru_statistics (lru_run ops s)) = length (lru_entries (lru_run ops s))"
  using lru_new_ok [OF assms] lru_run_ok [of s ops] lru_bound [of "lru_run ops s"]
    lru_distinct [of "lru_run ops s"] lru_size_exact [of "lru_run ops s"] by simp

theorem lru_capacity_witness:
  "\<exists>s. lru_new 1 = Inr s \<and> int (length (lru_entries (lru_run [(OpSet ''a'' (1::int), 1), (OpSet ''b'' 2, 2)] s))) \<le> 1"
proof -
  obtain s :: "int lru" where s: "lru_new 1 = Inr s" by (simp add: lru_new_def)
  show ?thesis using lru_capacity [OF s, of "[(OpSet ''a'' 1, 1), (OpSet ''b'' 2, 2)]"] s by blast
qed

text \<open>
  With a clock that does not run backwards the list is in order of last access, so a
  \<open>set\<close> of a new key in a full cache drops exactly the entry that was accessed longest ago
  and keeps all others.
\<close>

theorem lru_evicts_oldest:
  assumes "lru_new m = Inr s" and "sorted (t0 # map snd ops)" and "last (t0 # map snd ops) \<le> now"
    and "t = lru_run ops s" and "lru_lookup t k = None" and "int (length (lru_entries t)) = m"
  shows "map ce_key (lru_entries (lru_set now k v t)) = k # map ce_key (butlast (lru_entries t)) \<and>
    (\<forall>e \<in> set (lru_entries t). ce_lastAccessedAt (last (lru_entries t)) \<le> ce_lastAccessedAt e)"
proof -
  note run = lru_run_ok [of s ops] lru_new_ok [OF assms(1)]
  have t: "lru_ok t" "lru_max t = m" "lru_entries t = fold (spec_step m) ops []"
    using run assms(4) by simp_all
  have absent: "spec_find k (lru_entries t) = None" using assms(5) by (simp add: lru_lookup_def)
  have m: "0 < m" using assms(1) by (auto simp: lru_new_def split: if_splits)
  then have "nat m = Suc (length (lru_entries t) - 1)" using assms(6) by simp
  then have "map ce_key (lru_entries (lru_set now k v t)) = k # map ce_key (butlast (lru_entries t))"
    using lru_set_refines [OF t(1), of now k v] t(2) absent assms(6)
    by (simp add: spec_set_def butlast_conv_take)
  moreover have "by_recency (last (t0 # map snd ops)) (lru_entries t)"
    unfolding t(3) by (rule spec_run_recency [OF assms(2)]) (simp add: by_recency_def)
  then have "\<forall>e \<in> set (lru_entries t). ce_lastAccessedAt (last (lru_entries t)) \<le> ce_lastAccessedAt e"
    using sorted_wrt_last_elem by (force simp: by_recency_def)
  ultimately show ?thesis by blast
qed

theorem lru_evicts_oldest_witness:
  "\<exists>s. lru_new 2 = Inr s \<and> map ce_key (lru_entries (lru_set 4 ''c'' (3::int)
     (lru_run [(OpSet ''a'' 1, 1), (OpSet ''b'' 2, 2), (OpGet ''a'', 3)] s))) = [''c'', ''a'']"
proof -
  obtain s :: "int lru" where s: "lru_new 2 = Inr s" by (simp add: lru_new_def)
  let ?ops = "[(OpSet ''a'' (1::int), 1), (OpSet ''b'' 2, 2), (OpGet ''a'', 3::int)]"
  have e: "lru_entries (lru_run ?ops s) = fold (spec_step 2) ?ops []"
    using lru_run_ok [of s ?ops] lru_new_ok [OF s] by simp
  show ?thesis
    using lru_evicts_oldest [OF s, of 0 ?ops 4 "lru_run ?ops s" "''c''" 3] s
    by (simp add: lru_lookup_def e spec_set_def spec_get_def spec_find_def spec_without_def)
qed

end
