(* ===== verification/Levenshtein.thy ===== *)
theory Levenshtein
  imports JsValue
begin

text \<open>
  \<open>searchfn/core/src/utils/levenshtein.ts\<close>: the two-row Wagner-Fischer computation of the
  edit distance and the expansion of a term over a vocabulary. The specification is the least
  number of single-character insertions, deletions and substitutions.
\<close>

section \<open>The code\<close>

text \<open>
  One row: \<open>currRow[0] = i\<close>, then \<open>currRow[j]\<close> for \<open>j = 1 .. b.length\<close>, each written in
  place from \<open>prevRow\<close> and the part of \<open>currRow\<close> already written.
\<close>

definition lev_cell :: "string \<Rightarrow> string \<Rightarrow> nat \<Rightarrow> nat list \<Rightarrow> nat \<Rightarrow> nat list \<Rightarrow> nat list" where
  "lev_cell a b i prevRow j currRow =
     currRow[j := (if a ! (i - 1) = b ! (j - 1) then prevRow ! (j - 1)
                   else min (min (prevRow ! (j - 1) + 1) (currRow ! (j - 1) + 1)) (prevRow ! j + 1))]"

definition lev_row :: "string \<Rightarrow> string \<Rightarrow> nat \<Rightarrow> nat list \<Rightarrow> nat list \<Rightarrow> nat list" where
  "lev_row a b i prevRow currRow =
     fold (lev_cell a b i prevRow) [1..<Suc (length b)] (currRow[0 := i])"

definition lev_rows :: "string \<Rightarrow> string \<Rightarrow> nat \<Rightarrow> nat list \<times> nat list" where
  "lev_rows a b n =
     fold (\<lambda>i (prevRow, currRow). (lev_row a b i prevRow currRow, prevRow)) [1..<Suc n]
       ([0..<Suc (length b)], replicate (Suc (length b)) 0)"

definition levenshtein_distance :: "string \<Rightarrow> string \<Rightarrow> nat" where
  "levenshtein_distance a0 b0 =
     (if a0 = b0 then 0
      else if length a0 = 0 then length b0
      else if length b0 = 0 then length a0
      else let (a, b) = (if length a0 < length b0 then (b0, a0) else (a0, b0))
           in fst (lev_rows a b (length a)) ! length b)"

definition capped_distance :: "jsnum \<Rightarrow> jsnum" where
  "capped_distance maxDistance =
     (let normalizedDistance =
        (if is_fin maxDistance then maxDistance else if Fin 0 < maxDistance then Fin 3 else Fin 0)
      in js_min (js_max (Fin 0) normalizedDistance) (Fin 3))"

fun fuzzy_expand :: "string \<Rightarrow> jsnum \<Rightarrow> string jset \<Rightarrow> string list" where
  "fuzzy_expand term maxDistance [] = []"
| "fuzzy_expand term maxDistance (vocabTerm # vocabulary) =
     (let termLower = js_lower term;
          vocabTermLower = js_lower vocabTerm;
          lengthDiff = \<bar>int (length vocabTermLower) - int (length termLower)\<bar>;
          candidates = fuzzy_expand term maxDistance vocabulary
      in if capped_distance maxDistance < Fin (of_int lengthDiff) then candidates
         else if Fin (of_nat (levenshtein_distance termLower vocabTermLower)) \<le> capped_distance maxDistance
         then vocabTerm # candidates
         else candidates)"

section \<open>Specification: edit scripts\<close>

inductive edit1 :: "'a list \<Rightarrow> 'a list \<Rightarrow> bool" where
  insertion: "edit1 (u @ v) (u @ c # v)"
| deletion: "edit1 (u @ c # v) (u @ v)"
| substitution: "edit1 (u @ c # v) (u @ d # v)"

definition edit_distance :: "'a list \<Rightarrow> 'a list \<Rightarrow> nat" where
  "edit_distance a b = (LEAST n. (edit1 ^^ n) a b)"

text \<open>Alignments: the edits ordered from left to right.\<close>

inductive align :: "nat \<Rightarrow> 'a list \<Rightarrow> 'a list \<Rightarrow> bool" where
  al_nil: "align 0 [] []"
| al_keep: "align n xs ys \<Longrightarrow> align n (c # xs) (c # ys)"
| al_del: "align n xs ys \<Longrightarrow> align (Suc n) (c # xs) ys"
| al_ins: "align n xs ys \<Longrightarrow> align (Suc n) xs (c # ys)"
| al_sub: "align n xs ys \<Longrightarrow> align (Suc n) (c # xs) (d # ys)"

inductive_cases align_ConsE: "align n (c # xs) ys"
inductive_cases align_Cons2E: "align n xs (c # ys)"
inductive_cases align_NilE: "align n [] ys"

fun lev :: "'a list \<Rightarrow> 'a list \<Rightarrow> nat" where
  "lev [] ys = length ys"
| "lev xs [] = length xs"
| "lev (x # xs) (y # ys) =
     (if x = y then lev xs ys else Suc (min (lev xs ys) (min (lev xs (y # ys)) (lev (x # xs) ys))))"

lemma lev_Nil2 [simp]: "lev xs [] = length xs"
  by (cases xs) auto

lemma lev_sym: "lev xs ys = lev ys xs"
  by (induction xs ys rule: lev.induct) auto

lemma align_refl: "align 0 xs xs"
  by (induction xs) (auto intro: align.intros)

lemma align_from_nil: "align (length ys) [] ys"
  by (induction ys) (auto intro: align.intros)

lemma align_to_nil: "align (length xs) xs []"
  by (induction xs) (auto intro: align.intros)

lemma align_lev: "align (lev xs ys) xs ys"
proof (induction xs ys rule: lev.induct)
  case (1 ys)
  then show ?case by (simp add: align_from_nil)
next
  case (2 v va)
  then show ?case using align_to_nil [of "v # va"] by simp
next
  case (3 x xs y ys)
  then show ?case
    by (cases "x = y") (auto simp: min_def intro: align.intros)
qed

lemma lev_lipschitz:
  fixes xs ys :: "'a list"
  shows "lev (x # xs) ys \<le> Suc (lev xs ys) \<and> lev xs ys \<le> Suc (lev (x # xs) ys)"
proof (induction "length xs + length ys" arbitrary: x xs ys rule: less_induct)
  case less
  have sym: "lev xs' (y # ys') \<le> Suc (lev xs' ys') \<and> lev xs' ys' \<le> Suc (lev xs' (y # ys'))"
    if "length xs' + length ys' < length xs + length ys" for y :: 'a and xs' ys' :: "'a list"
    using less [of ys' xs' y] that by (simp add: lev_sym [of xs'] add.commute)
  show ?case
  proof (cases ys)
    case Nil
    then show ?thesis by simp
  next
    case (Cons y ys')
    have a: "lev xs ys' \<le> Suc (lev xs (y # ys'))" using sym [of xs ys' y] Cons by simp
    have b: "lev xs (y # ys') \<le> Suc (lev xs ys')" using sym [of xs ys' y] Cons by simp
    have c: "lev (x # xs) ys' \<le> Suc (lev xs ys')" "lev xs ys' \<le> Suc (lev (x # xs) ys')"
      using less [of xs ys' x] Cons by simp_all
    show ?thesis using a b c Cons by auto
  qed
qed

lemma lev_le_align: "align n xs ys \<Longrightarrow> lev xs ys \<le> n"
proof (induction rule: align.induct)
  case (al_del n xs ys c)
  then show ?case using lev_lipschitz [of c xs ys] by linarith
next
  case (al_ins n xs ys c)
  then show ?case using lev_lipschitz [of c ys xs] by (simp add: lev_sym [of xs])
qed auto

lemma align_snoc:
  "align n xs ys \<Longrightarrow> align n (xs @ [c]) (ys @ [c])"
  "align n xs ys \<Longrightarrow> align (Suc n) (xs @ [c]) ys"
  "align n xs ys \<Longrightarrow> align (Suc n) xs (ys @ [c])"
  "align n xs ys \<Longrightarrow> align (Suc n) (xs @ [c]) (ys @ [d])"
  by (induction rule: align.induct; (auto intro: align.intros)[1])+

lemma align_rev: "align n xs ys \<Longrightarrow> align n (rev xs) (rev ys)"
  by (induction rule: align.induct) (auto intro: align.intros align_snoc)

lemma lev_rev: "lev (rev xs) (rev ys) = lev xs ys"
proof (rule antisym)
  show "lev (rev xs) (rev ys) \<le> lev xs ys" by (rule lev_le_align [OF align_rev [OF align_lev]])
  have "align (lev (rev xs) (rev ys)) (rev (rev xs)) (rev (rev ys))" by (rule align_rev [OF align_lev])
  then show "lev xs ys \<le> lev (rev xs) (rev ys)" using lev_le_align by fastforce
qed

text \<open>Appending one character on each side: the recurrence the rows are filled with.\<close>

lemma lev_snoc:
  "lev (xs @ [x]) (ys @ [y]) =
     (if x = y then lev xs ys
      else Suc (min (lev xs ys) (min (lev xs (ys @ [y])) (lev (xs @ [x]) ys))))"
proof -
  have "lev (xs @ [x]) (ys @ [y]) = lev (x # rev xs) (y # rev ys)"
    using lev_rev [of "xs @ [x]" "ys @ [y]"] by simp
  moreover have "lev (rev xs) (y # rev ys) = lev xs (ys @ [y])"
    using lev_rev [of xs "ys @ [y]"] by simp
  moreover have "lev (x # rev xs) (rev ys) = lev (xs @ [x]) ys"
    using lev_rev [of "xs @ [x]" ys] by simp
  ultimately show ?thesis by (simp add: lev_rev)
qed

text \<open>Edit scripts and alignments give the same distance.\<close>

lemma edit1_Cons: "edit1 xs ys \<Longrightarrow> edit1 (c # xs) (c # ys)"
  by (induction rule: edit1.induct) (metis append_Cons edit1.intros)+

lemma edits_Cons: "(edit1 ^^ n) xs ys \<Longrightarrow> (edit1 ^^ n) (c # xs) (c # ys)"
  by (induction n arbitrary: ys) (auto intro: edit1_Cons)

lemma align_edits: "align n xs ys \<Longrightarrow> (edit1 ^^ n) xs ys"
proof (induction rule: align.induct)
  case (al_del n xs ys c)
  have "edit1 (c # xs) xs" using edit1.deletion [of "[]" c xs] by simp
  then show ?case using al_del.IH by (blast intro: relpowp_Suc_I2)
next
  case (al_ins n xs ys c)
  have "edit1 ys (c # ys)" using edit1.insertion [of "[]" ys c] by simp
  then show ?case using al_ins.IH by auto
next
  case (al_sub n xs ys c d)
  have "edit1 (c # ys) (d # ys)" using edit1.substitution [of "[]" c ys d] by simp
  then show ?case using edits_Cons [OF al_sub.IH, of c] by auto
qed (auto intro: edits_Cons)

lemma align_split:
  "align n xs (u @ v) \<Longrightarrow> \<exists>m k xs1 xs2. n = m + k \<and> xs = xs1 @ xs2 \<and> align m xs1 u \<and> align k xs2 v"
proof (induction n xs "u @ v" arbitrary: u v rule: align.induct)
  case al_nil
  then show ?case by (auto intro: align.al_nil)
next
  case (al_keep n xs ys c)
  show ?case
  proof (cases u)
    case Nil
    then show ?thesis using al_keep by (intro exI [of _ 0] exI [of _ n] exI [of _ "[]"] exI [of _ "c # xs"])
       (auto intro: align.intros)
  next
    case (Cons d u')
    then have "ys = u' @ v" and "d = c" using al_keep.hyps(3) by auto
    with al_keep.hyps(2) obtain m k xs1 xs2 where
      "n = m + k" "xs = xs1 @ xs2" "align m xs1 u'" "align k xs2 v" by blast
    with Cons \<open>d = c\<close> show ?thesis
      by (intro exI [of _ m] exI [of _ k] exI [of _ "c # xs1"] exI [of _ xs2]) (auto intro: align.intros)
  qed
next
  case (al_del n xs c)
  then obtain m k xs1 xs2 where
    "n = m + k" "xs = xs1 @ xs2" "align m xs1 u" "align k xs2 v" by blast
  then show ?case
    by (intro exI [of _ "Suc m"] exI [of _ k] exI [of _ "c # xs1"] exI [of _ xs2]) (auto intro: align.intros)
next
  case (al_ins n xs ys c)
  show ?case
  proof (cases u)
    case Nil
    then show ?thesis using al_ins by (intro exI [of _ 0] exI [of _ "Suc n"] exI [of _ "[]"] exI [of _ xs])
       (auto intro: align.intros)
  next
    case (Cons d u')
    then have "ys = u' @ v" and "d = c" using al_ins.hyps(3) by auto
    with al_ins.hyps(2) obtain m k xs1 xs2 where
      "n = m + k" "xs = xs1 @ xs2" "align m xs1 u'" "align k xs2 v" by blast
    with Cons \<open>d = c\<close> show ?thesis
      by (intro exI [of _ "Suc m"] exI [of _ k] exI [of _ xs1] exI [of _ xs2]) (auto intro: align.intros)
  qed
next
  case (al_sub n xs ys c d)
  show ?case
  proof (cases u)
    case Nil
    then show ?thesis using al_sub by (intro exI [of _ 0] exI [of _ "Suc n"] exI [of _ "[]"] exI [of _ "c # xs"])
       (auto intro: align.intros)
  next
    case (Cons e u')
    then have "ys = u' @ v" and "e = d" using al_sub.hyps(3) by auto
    with al_sub.hyps(2) obtain m k xs1 xs2 where
      "n = m + k" "xs = xs1 @ xs2" "align m xs1 u'" "align k xs2 v" by blast
    with Cons \<open>e = d\<close> show ?thesis
      by (intro exI [of _ "Suc m"] exI [of _ k] exI [of _ "c # xs1"] exI [of _ xs2]) (auto intro: align.intros)
  qed
qed

lemma align_append: "align m xs1 ys1 \<Longrightarrow> align k xs2 ys2 \<Longrightarrow> align (m + k) (xs1 @ xs2) (ys1 @ ys2)"
  by (induction rule: align.induct) (auto intro: align.intros)

lemma align_change_hd: "align k xs (c # v) \<Longrightarrow> \<exists>k' \<le> Suc k. align k' xs (d # v)"
proof (induction k xs "c # v" rule: align.induct)
  case (al_keep n xs)
  then show ?case by (auto intro: align.al_sub)
next
  case (al_del n xs e)
  then obtain k' where "k' \<le> Suc n" "align k' xs (d # v)" by blast
  then show ?case by (intro exI [of _ "Suc k'"]) (auto intro: align.al_del)
next
  case (al_ins n xs)
  then show ?case by (intro exI [of _ "Suc n"]) (auto intro: align.al_ins)
next
  case (al_sub n xs e)
  then show ?case by (intro exI [of _ "Suc n"]) (auto intro: align.al_sub)
qed

lemma align_drop_hd: "align k xs (c # v) \<Longrightarrow> \<exists>k' \<le> Suc k. align k' xs v"
  using lev_lipschitz [of c v xs] lev_le_align [of k xs "c # v"] align_lev [of xs v]
  by (intro exI [of _ "lev xs v"]) (simp add: lev_sym [of xs])

lemma align_edit1:
  assumes "edit1 ys zs" and "align n xs ys"
  shows "\<exists>m \<le> Suc n. align m xs zs"
  using assms
proof (cases rule: edit1.cases)
  case (insertion u v c)
  with assms(2) obtain m k xs1 xs2 where s: "n = m + k" "xs = xs1 @ xs2" "align m xs1 u" "align k xs2 v"
    using align_split by blast
  have "align (m + Suc k) xs (u @ c # v)"
    unfolding s(2) by (intro align_append s align.al_ins)
  with s insertion show ?thesis by auto
next
  case (deletion u c v)
  with assms(2) obtain m k xs1 xs2 where s: "n = m + k" "xs = xs1 @ xs2" "align m xs1 u" "align k xs2 (c # v)"
    using align_split by blast
  from align_drop_hd [OF s(4)] obtain k' where "k' \<le> Suc k" "align k' xs2 v" by blast
  with s deletion show ?thesis by (intro exI [of _ "m + k'"]) (auto intro: align_append)
next
  case (substitution u c v d)
  with assms(2) obtain m k xs1 xs2 where s: "n = m + k" "xs = xs1 @ xs2" "align m xs1 u" "align k xs2 (c # v)"
    using align_split by blast
  from align_change_hd [OF s(4)] obtain k' where "k' \<le> Suc k" "align k' xs2 (d # v)" by blast
  with s substitution show ?thesis by (intro exI [of _ "m + k'"]) (auto intro: align_append)
qed

lemma lev_le_edits: "(edit1 ^^ n) xs ys \<Longrightarrow> lev xs ys \<le> n"
proof -
  assume "(edit1 ^^ n) xs ys"
  then have "\<exists>m \<le> n. align m xs ys"
  proof (induction n arbitrary: ys)
    case 0
    then show ?case using align_refl by auto
  next
    case (Suc n)
    then obtain zs where "edit1 zs ys" "(edit1 ^^ n) xs zs" by auto
    moreover from this(2) Suc.IH obtain m where "m \<le> n" "align m xs zs" by blast
    ultimately have "\<exists>zs m. edit1 zs ys \<and> m \<le> n \<and> align m xs zs" by blast
    then obtain zs m where "edit1 zs ys" "m \<le> n" "align m xs zs" by blast
    with align_edit1 [of zs ys m xs] show ?case by (meson Suc_le_mono le_trans)
  qed
  then show ?thesis using lev_le_align by fastforce
qed

theorem lev_edit_distance: "lev xs ys = edit_distance xs ys"
  unfolding edit_distance_def
  by (rule Least_equality [symmetric]) (auto intro: align_edits [OF align_lev] lev_le_edits)

section \<open>The rows hold the distances of the prefixes\<close>

definition row_of :: "string \<Rightarrow> string \<Rightarrow> nat \<Rightarrow> nat list" where
  "row_of a b i = map (\<lambda>j. lev (take i a) (take j b)) [0..<Suc (length b)]"

lemma row_of_nth: "j \<le> length b \<Longrightarrow> row_of a b i ! j = lev (take i a) (take j b)"
  by (simp add: row_of_def del: upt_Suc)

lemma lev_row_prefix:
  assumes i: "0 < i" "i \<le> length a" and k: "k \<le> length b" and c: "length cur = Suc (length b)"
    and "out = fold (lev_cell a b i (row_of a b (i - 1))) [1..<Suc k] (cur[0 := i])"
  shows "length out = Suc (length b) \<and> (\<forall>j \<le> k. out ! j = lev (take i a) (take j b))"
  using k assms(5)
proof (induction k arbitrary: out)
  case 0
  then show ?case using c i by simp
next
  case (Suc k)
  let ?p = "fold (lev_cell a b i (row_of a b (i - 1))) [1..<Suc k] (cur[0 := i])"
  have IH: "length ?p = Suc (length b)" "\<And>j. j \<le> k \<Longrightarrow> ?p ! j = lev (take i a) (take j b)"
    using Suc by simp_all
  have out: "out = lev_cell a b i (row_of a b (i - 1)) (Suc k) ?p"
    using Suc.prems(2) by simp
  obtain i' where i': "i = Suc i'" using i by (cases i) auto
  have ta: "take i a = take i' a @ [a ! i']" using i i' by (simp add: take_Suc_conv_app_nth)
  have tb: "take (Suc k) b = take k b @ [b ! k]" using Suc.prems by (simp add: take_Suc_conv_app_nth)
  have "out ! Suc k = lev (take i a) (take (Suc k) b)"
    using IH(1) IH(2) [of k] Suc.prems(1)
    by (simp add: out lev_cell_def i' row_of_nth ta [unfolded i'] tb lev_snoc min.assoc min.commute min.left_commute)
  moreover have "out ! j = ?p ! j" if "j \<le> k" for j
    using that by (simp add: out lev_cell_def)
  ultimately show ?case using IH by (auto simp: out lev_cell_def le_Suc_eq)
qed

lemma lev_row_correct:
  assumes "0 < i" "i \<le> length a" and "length cur = Suc (length b)"
  shows "lev_row a b i (row_of a b (i - 1)) cur = row_of a b i"
  using lev_row_prefix [OF assms(1,2) le_refl assms(3) refl]
  by (intro nth_equalityI) (simp_all add: lev_row_def row_of_def del: upt_Suc)

lemma lev_rows_correct:
  "n \<le> length a \<Longrightarrow> fst (lev_rows a b n) = row_of a b n \<and> length (snd (lev_rows a b n)) = Suc (length b)"
proof (induction n)
  case 0
  have "map (\<lambda>j. min (length b) j) [0..<Suc (length b)] = [0..<Suc (length b)]"
    by (rule map_idI) auto
  then show ?case by (simp add: lev_rows_def row_of_def min.commute del: upt_Suc)
next
  case (Suc n)
  then have "fst (lev_rows a b n) = row_of a b n" "length (snd (lev_rows a b n)) = Suc (length b)" by simp_all
  moreover have "lev_rows a b (Suc n) =
      (lev_row a b (Suc n) (fst (lev_rows a b n)) (snd (lev_rows a b n)), fst (lev_rows a b n))"
    by (simp add: lev_rows_def case_prod_beta)
  ultimately show ?case
    using lev_row_correct [of "Suc n" a "snd (lev_rows a b n)" b] Suc.prems
    by (simp add: row_of_def del: upt_Suc)
qed

lemma levenshtein_lev: "levenshtein_distance a b = lev a b"
proof -
  have rows: "fst (lev_rows x y (length x)) ! length y = lev x y" for x y
    using lev_rows_correct [of "length x" x y] by (simp add: row_of_nth)
  have "lev a a = 0" using lev_le_align [OF align_refl [of a]] by simp
  then show ?thesis
    by (auto simp: levenshtein_distance_def rows lev_sym [of b a])
qed

lemma edit_distance_self: "edit_distance xs xs = 0"
  using lev_le_align [OF align_refl [of xs]] by (simp add: lev_edit_distance)

lemma edit_distance_zero: "edit_distance xs ys = 0 \<Longrightarrow> xs = ys"
  using align_edits [OF align_lev [of xs ys]] by (simp add: lev_edit_distance)

lemma edit_distance_triangle: "edit_distance xs zs \<le> edit_distance xs ys + edit_distance ys zs"
proof -
  have "(edit1 ^^ (lev xs ys + lev ys zs)) xs zs"
    using align_edits [OF align_lev [of xs ys]] align_edits [OF align_lev [of ys zs]]
    by (auto simp: relpowp_add)
  then show ?thesis using lev_le_edits by (fastforce simp: lev_edit_distance)
qed

lemma align_length: "align n xs ys \<Longrightarrow> \<bar>int (length xs) - int (length ys)\<bar> \<le> int n"
  by (induction rule: align.induct) auto

lemma lev_length: "\<bar>int (length xs) - int (length ys)\<bar> \<le> int (lev xs ys)"
  by (rule align_length [OF align_lev])

section \<open>Fuzzy expansion\<close>

lemma capped_distance_fin: "\<exists>r. capped_distance d = Fin r \<and> 0 \<le> r \<and> r \<le> 3"
  by (cases d) (auto simp: capped_distance_def)

lemma fuzzy_expand_filter:
  "fuzzy_expand t d vocabulary =
     filter (\<lambda>w. Fin (of_nat (levenshtein_distance (js_lower t) (js_lower w))) \<le> capped_distance d) vocabulary"
proof (induction vocabulary)
  case Nil
  then show ?case by simp
next
  case (Cons w vocabulary)
  obtain r where r: "capped_distance d = Fin r" using capped_distance_fin by blast
  have "\<bar>int (length w) - int (length t)\<bar> \<le> int (lev (js_lower t) (js_lower w))"
    using lev_length [of "js_lower t" "js_lower w"] by simp
  then have "rat_of_int \<bar>int (length w) - int (length t)\<bar> \<le> rat_of_nat (lev (js_lower t) (js_lower w))"
    by (metis of_int_le_iff of_int_of_nat_eq)
  with Cons show ?case by (simp add: r levenshtein_lev Let_def)
qed

section \<open>Properties\<close>

text \<open>
  C11: the two-row computation returns the least number of single-character insertions,
  deletions and substitutions that turn one string into the other.
\<close>

theorem levenshtein_is_edit_distance: "levenshtein_distance a b = edit_distance a b"
  by (simp add: levenshtein_lev lev_edit_distance)

text \<open>
  The distance is a metric: zero exactly on equal strings, symmetric, and it satisfies the
  triangle inequality.
\<close>

theorem levenshtein_metric:
  "(levenshtein_distance a b = 0 \<longleftrightarrow> a = b) \<and>
   levenshtein_distance a b = levenshtein_distance b a \<and>
   levenshtein_distance a c \<le> levenshtein_distance a b + levenshtein_distance b c"
  using edit_distance_self [of a] edit_distance_zero [of a b] edit_distance_triangle [of a c b]
  by (auto simp: levenshtein_lev lev_edit_distance lev_sym [of a b, unfolded lev_edit_distance])

text \<open>
  The expansion keeps exactly the vocabulary terms within the capped distance of the term,
  case ignored, in vocabulary order; the length filter in front of the distance computation
  loses none of them.
\<close>

theorem fuzzy_expand_exact:
  "fuzzy_expand t d vocabulary =
     filter (\<lambda>w. Fin (of_nat (edit_distance (js_lower t) (js_lower w))) \<le> capped_distance d) vocabulary \<and>
   (\<exists>r. capped_distance d = Fin r \<and> 0 \<le> r \<and> r \<le> 3)"
  using capped_distance_fin by (auto simp: fuzzy_expand_filter levenshtein_lev lev_edit_distance)

end
