(* ===== verification/ChunkSerializer.thy ===== *)
theory ChunkSerializer
  imports Json
begin

unbundle bit_operations_syntax

text \<open>
  The posting chunk serializer, \<open>searchfn/core/src/storage/chunk-serializer.ts\<close>: unsigned
  LEB128 integers on 32-bit words, the delta encoding of sorted identifiers with its JSON
  fallback, and the binary posting format with per-posting metadata. A buffer is a list of
  bytes and a decoder keeps an offset into it, as the code does. The bytes of \<open>TextEncoder\<close> and
  the text of \<open>JSON.stringify\<close> are those of the theories \<open>JsValue\<close> and \<open>Json\<close>.
\<close>

section \<open>Data\<close>

datatype encoding = DeltaVarint | JsonEnc | PostingBinV1

datatype serializer_error =
    VarintEncodeOverflow jsnum
  | VarintDecodeOverflow
  | VarintUnexpectedEnd
  | UnsortedValues
  | PostingsNotArray
  | InvalidPayload
  | InvalidHeader
  | InvalidPayloadLength
  | InvalidDocIdLength
  | InvalidMetadataLength
  | InvalidMetadataPayload
  | MetadataNotObject
  | TrailingBytes
  | UndecodableText
  | JsonSyntaxError

record term_posting =
  tp_doc :: docid
  tp_frequency :: jsnum
  tp_metadata :: "jsrec option"

record encode_result =
  er_buffer :: "byte list"
  er_encoding :: encoding

section \<open>Variable-length integers\<close>

text \<open>\<open>ToUint32\<close>, which \<open>value >>> 0\<close> and \<open>DataView.setUint32\<close> apply to a number.\<close>

definition to_uint32 :: "jsnum \<Rightarrow> 32 word" where
  "to_uint32 x = (case x of Fin a \<Rightarrow> word_of_int (if a < 0 then \<lceil>a\<rceil> else \<lfloor>a\<rfloor>) | _ \<Rightarrow> 0)"

function varint_bytes :: "32 word \<Rightarrow> byte list" where
  "varint_bytes v =
     (if 0x80 \<le> v then ucast ((v AND 0x7F) OR 0x80) # varint_bytes (drop_bit 7 v) else [ucast v])"
  by auto

lemma drop_bit_7_less:
  fixes v :: "32 word"
  assumes "0x80 \<le> v"
  shows "unat (drop_bit 7 v) < unat v"
proof -
  have "unat (drop_bit 7 v) = unat v div 128" by (simp add: drop_bit_eq_div unat_div)
  moreover have "128 \<le> unat v" using assms by (simp add: word_le_nat_alt)
  ultimately show ?thesis by (simp add: div_less_dividend)
qed

termination varint_bytes
  by (relation "measure unat") (auto intro: drop_bit_7_less)

declare varint_bytes.simps [simp del]

definition encode_varint :: "jsnum \<Rightarrow> serializer_error + byte list" where
  "encode_varint x =
     (if Fin 4294967295 < x \<or> x < Fin 0 then Inl (VarintEncodeOverflow x)
      else Inr (varint_bytes (to_uint32 x)))"

function decode_varint_loop :: "byte list \<Rightarrow> 32 word \<Rightarrow> nat \<Rightarrow> nat \<Rightarrow> serializer_error + (32 word \<times> nat)" where
  "decode_varint_loop buf result shift pos =
     (if pos < length buf then
        let b = buf ! pos; payload = b AND 0x7F
        in if shift = 28 \<and> 0x0F < payload then Inl VarintDecodeOverflow
           else let result' = result OR push_bit shift (ucast payload)
                in if b AND 0x80 = 0 then Inr (result', pos + 1)
                   else if 35 \<le> shift + 7 then Inl VarintDecodeOverflow
                   else decode_varint_loop buf result' (shift + 7) (pos + 1)
      else Inl VarintUnexpectedEnd)"
  by auto
termination
  by (relation "measure (\<lambda>(buf, _, _, pos). length buf - pos)") auto

declare decode_varint_loop.simps [simp del]

definition decode_varint :: "byte list \<Rightarrow> nat \<Rightarrow> serializer_error + (32 word \<times> nat)" where
  "decode_varint buf offset = decode_varint_loop buf 0 0 offset"

section \<open>Lists of identifiers\<close>

definition can_delta_encode :: "jsval list \<Rightarrow> bool" where
  "can_delta_encode vs =
     list_all (\<lambda>v. case v of JNum x \<Rightarrow> js_is_integer x \<and> Fin 0 \<le> x | _ \<Rightarrow> False) vs"

definition num_of :: "jsval \<Rightarrow> jsnum" where
  "num_of v = (case v of JNum x \<Rightarrow> x | _ \<Rightarrow> NaN)"

fun delta_encode :: "bool \<Rightarrow> jsnum \<Rightarrow> jsnum list \<Rightarrow> serializer_error + byte list" where
  "delta_encode first previous [] = Inr []"
| "delta_encode first previous (current # rest) =
     (let delta = (if first then current else current - previous)
      in if delta < Fin 0 then Inl UnsortedValues
         else bind_sum (encode_varint delta)
                (\<lambda>out. bind_sum (delta_encode False current rest) (\<lambda>outs. Inr (out @ outs))))"

definition json_result :: "(rat \<Rightarrow> string) \<Rightarrow> jsval list \<Rightarrow> encode_result" where
  "json_result dtoa vs = \<lparr>er_buffer = utf8_encode (json_val dtoa (JArr vs)), er_encoding = JsonEnc\<rparr>"

definition encode_postings :: "(rat \<Rightarrow> string) \<Rightarrow> jsval list \<Rightarrow> encode_result" where
  "encode_postings dtoa vs =
     (if vs = [] then \<lparr>er_buffer = [], er_encoding = DeltaVarint\<rparr>
      else if \<not> can_delta_encode vs then json_result dtoa vs
      else case delta_encode True (Fin 0) (js_sort (\<lambda>a b. num_cmp (a - b)) (map num_of vs)) of
             Inr out \<Rightarrow> \<lparr>er_buffer = out, er_encoding = DeltaVarint\<rparr>
           | Inl _ \<Rightarrow> json_result dtoa vs)"

section \<open>Postings with metadata\<close>

definition POSTING_BIN_V1_MAGIC :: "byte list" where
  "POSTING_BIN_V1_MAGIC = [0x53, 0x46, 0x50, 0x31]"

definition FLAG_IS_PREFIX :: byte where "FLAG_IS_PREFIX = 1"
definition FLAG_HAS_EXTRA_METADATA :: byte where "FLAG_HAS_EXTRA_METADATA = 2"

definition set_uint32_le :: "32 word \<Rightarrow> byte list" where
  "set_uint32_le w = [ucast w, ucast (drop_bit 8 w), ucast (drop_bit 16 w), ucast (drop_bit 24 w)]"

definition get_uint32_le :: "byte list \<Rightarrow> nat \<Rightarrow> 32 word" where
  "get_uint32_le buf off =
     ucast (buf ! off) OR push_bit 8 (ucast (buf ! (off + 1))) OR
     push_bit 16 (ucast (buf ! (off + 2))) OR push_bit 24 (ucast (buf ! (off + 3)))"

definition normalise_term_frequency :: "jsnum \<Rightarrow> jsnum" where
  "normalise_term_frequency tf =
     (if \<not> is_fin tf \<or> tf \<le> Fin 0 then Fin 1
      else js_max (Fin 1) (js_min (js_floor tf) (Fin 4294967295)))"

definition split_metadata :: "jsrec \<Rightarrow> byte \<times> jsrec" where
  "split_metadata entries =
     foldl (\<lambda>(flags, extra) (key, value).
        if key = ''isPrefix'' \<and> value = JBool True then (flags OR FLAG_IS_PREFIX, extra)
        else (flags, jmap_set key value extra)) (0, []) entries"

definition encode_posting_metadata :: "(rat \<Rightarrow> string) \<Rightarrow> jsrec option \<Rightarrow> byte \<times> byte list option" where
  "encode_posting_metadata dtoa metadata =
     (case metadata of
        None \<Rightarrow> (0, None)
      | Some entries \<Rightarrow>
          (let (flags, extra) = split_metadata entries
           in if 0 < length extra \<or> flags = 0
              then (flags OR FLAG_HAS_EXTRA_METADATA, Some (utf8_encode (json_val dtoa (JObj extra))))
              else (flags, None)))"

definition encode_record :: "(rat \<Rightarrow> string) \<Rightarrow> term_posting \<Rightarrow> byte list" where
  "encode_record dtoa p =
     (let docIdBytes = utf8_encode (docid_string (tp_doc p));
          (flags, metadataBytes) = encode_posting_metadata dtoa (tp_metadata p)
      in set_uint32_le (of_nat (length docIdBytes)) @ docIdBytes @
         set_uint32_le (to_uint32 (normalise_term_frequency (tp_frequency p))) @ [flags] @
         (case metadataBytes of None \<Rightarrow> []
          | Some bs \<Rightarrow> set_uint32_le (of_nat (length bs)) @ bs))"

definition encode_term_postings :: "(rat \<Rightarrow> string) \<Rightarrow> term_posting list \<Rightarrow> encode_result" where
  "encode_term_postings dtoa ps =
     \<lparr>er_buffer = POSTING_BIN_V1_MAGIC @ set_uint32_le (of_nat (length ps)) @
        concat (map (encode_record dtoa) ps),
      er_encoding = PostingBinV1\<rparr>"

text \<open>
  \<open>JSON_DECODER.decode(buffer.subarray(offset, end))\<close>. The decoder of the code puts U+FFFD for malformed
  bytes; like every character above U+00FF that is outside the model, and an error here.
\<close>

definition decode_text :: "byte list \<Rightarrow> nat \<Rightarrow> nat \<Rightarrow> serializer_error + string" where
  "decode_text buf offset stop =
     (case utf8_decode (take (stop - offset) (drop offset buf)) of
        None \<Rightarrow> Inl UndecodableText | Some s \<Rightarrow> Inr s)"

definition parse_json :: "string \<Rightarrow> serializer_error + jsval" where
  "parse_json s = (case json_parse s of None \<Rightarrow> Inl JsonSyntaxError | Some v \<Rightarrow> Inr v)"

definition decode_metadata :: "byte list \<Rightarrow> byte \<Rightarrow> nat \<Rightarrow> serializer_error + (jsrec option \<times> nat)" where
  "decode_metadata buf flags offset =
     (let metadata = (if flags AND FLAG_IS_PREFIX \<noteq> 0 then Some [(''isPrefix'', JBool True)] else None)
      in if flags AND FLAG_HAS_EXTRA_METADATA \<noteq> 0 then
           if length buf < offset + 4 then Inl InvalidMetadataLength
           else
             let metadataLength = unat (get_uint32_le buf offset);
                 metadataEnd = offset + 4 + metadataLength
             in if length buf < metadataEnd then Inl InvalidMetadataPayload
                else bind_sum (decode_text buf (offset + 4) metadataEnd) (\<lambda>raw.
                     bind_sum (parse_json raw) (\<lambda>parsed.
                       case parsed of
                         JObj r \<Rightarrow> Inr (Some (spread (case metadata of None \<Rightarrow> [] | Some m \<Rightarrow> m) r), metadataEnd)
                       | _ \<Rightarrow> Inl MetadataNotObject))
         else Inr (metadata, offset))"

definition decode_record :: "byte list \<Rightarrow> nat \<Rightarrow> serializer_error + (term_posting \<times> nat)" where
  "decode_record buf offset =
     (if length buf < offset + 4 then Inl InvalidPayloadLength
      else
        let docIdLength = unat (get_uint32_le buf offset);
            docIdEnd = offset + 4 + docIdLength
        in if length buf < docIdEnd then Inl InvalidDocIdLength
           else bind_sum (decode_text buf (offset + 4) docIdEnd) (\<lambda>docId.
             if length buf < docIdEnd + 5 then Inl InvalidPayloadLength
             else
               let termFrequency = get_uint32_le buf docIdEnd;
                   flags = buf ! (docIdEnd + 4)
               in bind_sum (decode_metadata buf flags (docIdEnd + 5)) (\<lambda>(metadata, offset').
                    Inr (\<lparr>tp_doc = DStr docId,
                          tp_frequency = js_max (Fin 1) (Fin (of_nat (unat termFrequency))),
                          tp_metadata = metadata\<rparr>, offset'))))"

fun decode_records :: "byte list \<Rightarrow> nat \<Rightarrow> nat \<Rightarrow> serializer_error + (term_posting list \<times> nat)" where
  "decode_records buf 0 offset = Inr ([], offset)"
| "decode_records buf (Suc n) offset =
     bind_sum (decode_record buf offset) (\<lambda>(p, offset').
     bind_sum (decode_records buf n offset') (\<lambda>(ps, offset'').
       Inr (p # ps, offset'')))"

definition decode_term_postings :: "byte list \<Rightarrow> serializer_error + term_posting list" where
  "decode_term_postings buf =
     (if buf = [] then Inr []
      else if length buf < length POSTING_BIN_V1_MAGIC + 4 then Inl InvalidPayload
      else if take (length POSTING_BIN_V1_MAGIC) buf \<noteq> POSTING_BIN_V1_MAGIC then Inl InvalidHeader
      else
        let offset = length POSTING_BIN_V1_MAGIC;
            count = unat (get_uint32_le buf offset)
        in bind_sum (decode_records buf count (offset + 4)) (\<lambda>(ps, offset').
             if offset' \<noteq> length buf then Inl TrailingBytes else Inr ps))"

section \<open>Decoding by encoding\<close>

definition posting_value :: "term_posting \<Rightarrow> jsval" where
  "posting_value p = JObj
     [(''docId'', case tp_doc p of DStr s \<Rightarrow> JStr s | DNum i \<Rightarrow> JNum (Fin (of_int i))),
      (''termFrequency'', JNum (tp_frequency p)),
      (''metadata'', case tp_metadata p of None \<Rightarrow> JUndef | Some r \<Rightarrow> JObj r)]"

lemma decode_varint_loop_pos:
  "decode_varint_loop buf r s pos = Inr (v, pos') \<Longrightarrow> pos < pos' \<and> pos' \<le> length buf"
proof (induction buf r s pos rule: decode_varint_loop.induct)
  case (1 buf result shift pos)
  show ?case
    using 1 by (subst (asm) decode_varint_loop.simps) (force simp: Let_def split: if_splits)
qed

lemma decode_varint_pos [termination_simp]:
  "decode_varint buf pos = Inr (v, pos') \<Longrightarrow> pos < pos' \<and> pos' \<le> length buf"
  unfolding decode_varint_def by (rule decode_varint_loop_pos)

text \<open>The list of the decoded values; \<open>first\<close> is the code's \<open>postings.length === 0\<close>.\<close>

function decode_deltas :: "byte list \<Rightarrow> bool \<Rightarrow> nat \<Rightarrow> nat \<Rightarrow> serializer_error + nat list" where
  "decode_deltas buf first previous offset =
     (if offset < length buf then
        bind_sum (decode_varint buf offset) (\<lambda>(delta, nextOffset).
          let value = (if first then unat delta else previous + unat delta)
          in bind_sum (decode_deltas buf False value nextOffset) (\<lambda>values. Inr (value # values)))
      else Inr [])"
  by auto
termination
  by (relation "measure (\<lambda>(buf, _, _, off). length buf - off)") (auto dest: decode_varint_pos)

declare decode_deltas.simps [simp del]

definition decode_postings :: "byte list \<Rightarrow> encoding \<Rightarrow> serializer_error + jsval list" where
  "decode_postings buf enc =
     (case enc of
        JsonEnc \<Rightarrow>
          if buf = [] then Inr []
          else bind_sum (decode_text buf 0 (length buf)) (\<lambda>json.
               bind_sum (parse_json json) (\<lambda>parsed.
                 case parsed of JArr vs \<Rightarrow> Inr vs | _ \<Rightarrow> Inl PostingsNotArray))
      | PostingBinV1 \<Rightarrow>
          bind_sum (decode_term_postings buf) (\<lambda>ps. Inr (map posting_value ps))
      | DeltaVarint \<Rightarrow>
          bind_sum (decode_deltas buf True 0 0) (\<lambda>ns. Inr (map (\<lambda>n. JNum (Fin (of_nat n))) ns)))"

section \<open>Variable-length integers: round trip\<close>

lemma varint_head_payload:
  fixes v :: "32 word"
  shows "ucast ((ucast ((v AND 0x7F) OR 0x80) :: byte) AND 0x7F) = v AND 0x7F"
proof -
  have m: "(0x7F :: 32 word) = mask 7" "(0x7F :: byte) = mask 7" by (simp_all add: mask_eq_exp_minus_1)
  have p: "\<not> bit (0x80 :: int) n" if "n < 7" for n
    using that bit_exp_iff [of 7 n, where ?'a = int] by simp
  show ?thesis unfolding m
    by (rule bit_word_eqI) (auto simp: bit_simps p)
qed

lemma varint_head_flag:
  fixes v :: "32 word"
  shows "(ucast ((v AND 0x7F) OR 0x80) :: byte) AND 0x80 \<noteq> 0"
proof -
  have b: "bit (0x80 :: 32 word) 7" "bit (0x80 :: byte) 7"
    using bit_exp_iff [of 7 7, where ?'a = "32 word"] bit_exp_iff [of 7 7, where ?'a = "8 word"] by simp_all
  then have "bit ((ucast ((v AND 0x7F) OR 0x80) :: byte) AND 0x80) 7"
    by (simp add: bit_simps)
  then show ?thesis by force
qed

lemma varint_last:
  fixes v :: "32 word"
  assumes "v < 0x80"
  shows "ucast ((ucast v :: byte) AND 0x7F) = v" "(ucast v :: byte) AND 0x80 = 0"
    "(ucast v :: byte) AND 0x7F = ucast v" "unat (ucast v :: byte) = unat v"
proof -
  have u: "unat v < 128" using assms by (simp add: word_less_nat_alt)
  then have "take_bit 7 v = v"
    by (intro word_unat_eq_iff [THEN iffD2]) (simp add: take_bit_eq_mod unat_mod)
  then have high: "bit v n \<Longrightarrow> n < 7" for n
    using bit_take_bit_iff [of 7 v n] by simp
  have m: "(0x7F :: byte) = mask 7" by (simp add: mask_eq_exp_minus_1)
  have p: "bit (0x80 :: int) n \<longleftrightarrow> n = 7" for n
    using bit_exp_iff [of 7 n, where ?'a = int] by simp
  show "ucast ((ucast v :: byte) AND 0x7F) = v" unfolding m
    by (rule bit_word_eqI) (auto simp: bit_simps dest: high)
  show "(ucast v :: byte) AND 0x80 = 0"
    by (rule bit_word_eqI) (auto simp: bit_simps p dest: high)
  show "(ucast v :: byte) AND 0x7F = ucast v" unfolding m
    by (rule bit_word_eqI) (auto simp: bit_simps dest: high)
  show "unat (ucast v :: byte) = unat v"
    using u by (simp add: unsigned_ucast_eq take_bit_nat_eq_self)
qed

text \<open>
  Decoding what was encoded, at any place of a buffer, with any bits already collected: the
  seven-bit groups land where they came from. The bound says that the value fits the bits
  that are left, which keeps the overflow checks quiet.
\<close>

lemma varint_groups:
  fixes v :: "32 word"
  shows "(r OR push_bit s (v AND 0x7F)) OR push_bit (s + 7) (drop_bit 7 v) = r OR push_bit s v"
proof -
  have m: "(0x7F :: 32 word) = mask 7" by (simp add: mask_eq_exp_minus_1)
  have shift: "7 + (n - (s + 7)) = n - s" if "7 \<le> n - s" for n
    using that by simp
  show ?thesis unfolding m
    by (rule bit_word_eqI) (auto simp: bit_simps shift, (metis not_less shift)+)
qed

lemma decode_varint_loop_encoded:
  assumes "s \<in> {0, 7, 14, 21, 28}" and "unat v < 2 ^ (32 - s)"
  shows "decode_varint_loop (pre @ varint_bytes v @ post) r s (length pre) =
     Inr (r OR push_bit s v, length pre + length (varint_bytes v))"
  using assms
proof (induction v arbitrary: pre r s rule: varint_bytes.induct)
  case (1 v)
  show ?case
  proof (cases "0x80 \<le> v")
    case True
    then have big: "128 \<le> unat v" by (simp add: word_le_nat_alt)
    with 1(3) have s: "s \<in> {0, 7, 14, 21}" using 1(2) by auto
    have dr: "unat (drop_bit 7 v) = unat v div 128" by (simp add: drop_bit_eq_div unat_div)
    have fits: "unat (drop_bit 7 v) < 2 ^ (32 - (s + 7))"
      using 1(3) s unfolding dr by (auto simp: div_less_iff_less_mult)
    let ?b = "ucast ((v AND 0x7F) OR 0x80) :: byte"
    have bytes: "varint_bytes v = ?b # varint_bytes (drop_bit 7 v)"
      using True by (subst varint_bytes.simps) simp
    have IH: "decode_varint_loop ((pre @ [?b]) @ varint_bytes (drop_bit 7 v) @ post)
        (r OR push_bit s (v AND 0x7F)) (s + 7) (length (pre @ [?b])) =
      Inr ((r OR push_bit s (v AND 0x7F)) OR push_bit (s + 7) (drop_bit 7 v),
           length (pre @ [?b]) + length (varint_bytes (drop_bit 7 v)))"
      by (rule 1(1) [OF True _ fits]) (use s in auto)
    have "decode_varint_loop (pre @ varint_bytes v @ post) r s (length pre) =
      decode_varint_loop ((pre @ [?b]) @ varint_bytes (drop_bit 7 v) @ post)
        (r OR push_bit s (v AND 0x7F)) (s + 7) (length (pre @ [?b]))"
      using s varint_head_flag [of v] varint_head_payload [of v] unfolding bytes
      by (subst decode_varint_loop.simps) (auto simp: Let_def nth_append)
    with IH show ?thesis unfolding varint_groups by (simp add: bytes)
  next
    case False
    then have less: "v < 0x80" by simp
    have bytes: "varint_bytes v = [ucast v]" using False by (subst varint_bytes.simps) simp
    have "\<not> 0x0F < (ucast v :: byte)" if "s = 28"
      using 1(3) that varint_last(4) [OF less] by (simp add: word_less_nat_alt)
    with varint_last [OF less] show ?thesis unfolding bytes
      by (subst decode_varint_loop.simps) (simp add: Let_def nth_append)
  qed
qed

lemma decode_varint_encoded:
  "decode_varint (pre @ varint_bytes v @ post) (length pre) = Inr (v, length pre + length (varint_bytes v))"
  using decode_varint_loop_encoded [where s = 0 and v = v and r = 0 and pre = pre and post = post]
    unsigned_less [where ?'a = nat, of v] by (simp add: decode_varint_def)

lemma length_varint_bytes: "unat v < 128 ^ Suc k \<Longrightarrow> length (varint_bytes v) \<le> Suc k"
proof (induction k arbitrary: v)
  case 0
  then have "\<not> 0x80 \<le> v" by (simp add: word_le_nat_alt)
  then show ?case by (subst varint_bytes.simps) simp
next
  case (Suc k)
  have "unat (drop_bit 7 v) = unat v div 128" by (simp add: drop_bit_eq_div unat_div)
  also have "\<dots> < 128 ^ Suc k" using Suc.prems by (simp add: div_less_iff_less_mult mult.commute)
  finally have "length (varint_bytes (drop_bit 7 v)) \<le> Suc k" by (rule Suc.IH)
  then show ?case by (subst varint_bytes.simps) simp
qed

lemma varint_bytes_length: "1 \<le> length (varint_bytes v)" "length (varint_bytes v) \<le> 5"
proof -
  show "1 \<le> length (varint_bytes v)" by (subst varint_bytes.simps) simp
  have "unat v < 128 ^ Suc 4" using unsigned_less [where ?'a = nat, of v] by simp
  from length_varint_bytes [OF this] show "length (varint_bytes v) \<le> 5" by simp
qed

lemma to_uint32_nat: "n < 2 ^ 32 \<Longrightarrow> unat (to_uint32 (Fin (of_nat n))) = n"
  by (simp add: to_uint32_def unat_of_nat)

section \<open>Lists of identifiers: round trip\<close>

interpretation numeric: js_comparator "\<lambda>a b. num_cmp (a - b)" is_fin
  by unfold_locales (auto simp: is_fin_iff split: if_splits)

text \<open>A non-negative integer of the model's numbers.\<close>

lemma encode_varint_nat:
  assumes "encode_varint (Fin (of_nat n)) = Inr bs"
  shows "n < 2 ^ 32" "bs = varint_bytes (to_uint32 (Fin (of_nat n)))"
proof -
  have "\<not> (4294967295 :: rat) < of_nat n" using assms by (auto simp: encode_varint_def split: if_splits)
  then have "(of_nat n :: rat) \<le> of_nat 4294967295" by simp
  then have "n \<le> 4294967295" unfolding of_nat_le_iff .
  then show "n < 2 ^ 32" by simp
  show "bs = varint_bytes (to_uint32 (Fin (of_nat n)))"
    using assms by (auto simp: encode_varint_def split: if_splits)
qed

lemma encode_varint_ok:
  "n < 2 ^ 32 \<Longrightarrow> encode_varint (Fin (of_nat n)) = Inr (varint_bytes (to_uint32 (Fin (of_nat n))))"
proof -
  assume "n < 2 ^ 32"
  then have "n \<le> 4294967295" by simp
  then have "(of_nat n :: rat) \<le> of_nat 4294967295" by (simp only: of_nat_le_iff)
  then show ?thesis by (simp add: encode_varint_def)
qed

definition num_nat :: "nat \<Rightarrow> jsnum" where
  "num_nat n = Fin (of_nat n)"

lemma delta_decode:
  "delta_encode first (num_nat p) (map num_nat ns) = Inr bs \<Longrightarrow>
   decode_deltas (pre @ bs) first p (length pre) = Inr ns"
proof (induction ns arbitrary: first p pre bs)
  case Nil
  then show ?case by (subst decode_deltas.simps) simp
next
  case (Cons n ns)
  define d where "d = (if first then n else n - p)"
  have delta: "(if first then num_nat n else num_nat n - num_nat p) = Fin (of_nat d)"
    and le: "\<not> first \<Longrightarrow> p \<le> n"
    using Cons.prems by (auto simp: d_def num_nat_def Let_def of_nat_diff split: if_splits)
  obtain out outs where o: "encode_varint (Fin (of_nat d)) = Inr out"
      "delta_encode False (num_nat n) (map num_nat ns) = Inr outs" "bs = out @ outs"
    using Cons.prems unfolding list.map delta_encode.simps Let_def delta
    by (auto simp: bind_sum_Inr split: if_splits)
  define w where "w = to_uint32 (Fin (of_nat d))"
  have out: "out = varint_bytes w" and w: "unat w = d"
    using encode_varint_nat [OF o(1)] to_uint32_nat by (auto simp: w_def)
  have IH: "decode_deltas ((pre @ out) @ outs) False n (length (pre @ out)) = Inr ns"
    by (rule Cons.IH [OF o(2)])
  have dec: "decode_varint (pre @ out @ outs) (length pre) = Inr (w, length pre + length out)"
    unfolding out by (rule decode_varint_encoded)
  have "out \<noteq> []" using varint_bytes_length(1) [of w] unfolding out by auto
  moreover have "(if first then unat w else p + unat w) = n" using w le by (auto simp: d_def)
  ultimately show ?case
    using IH unfolding o(3) by (subst decode_deltas.simps) (simp add: dec Let_def)
qed

lemma delta_encode_ok:
  assumes "sorted (p # ns)" and "\<forall>n \<in> set ns. n < 2 ^ 32"
  shows "\<exists>bs. delta_encode first (num_nat p) (map num_nat ns) = Inr bs \<and> length bs \<le> 5 * length ns"
  using assms
proof (induction ns arbitrary: first p)
  case Nil
  then show ?case by simp
next
  case (Cons n ns)
  let ?d = "if first then n else n - p"
  have delta: "(if first then num_nat n else num_nat n - num_nat p) = Fin (of_nat ?d)"
    using Cons.prems by (simp add: num_nat_def of_nat_diff)
  have "?d < 2 ^ 32" using Cons.prems by auto
  note e = encode_varint_ok [OF this]
  obtain bs where "delta_encode False (num_nat n) (map num_nat ns) = Inr bs" "length bs \<le> 5 * length ns"
    using Cons.IH [of n False] Cons.prems by auto
  then show ?case
    using varint_bytes_length(2) [of "to_uint32 (Fin (of_nat ?d))"]
    unfolding list.map delta_encode.simps Let_def delta e by simp
qed

lemma can_delta_nats:
  assumes "can_delta_encode vs"
  shows "\<exists>ns. vs = map (\<lambda>n. JNum (num_nat n)) ns"
  using assms
proof (induction vs)
  case (Cons v vs)
  then obtain ns where ns: "vs = map (\<lambda>n. JNum (num_nat n)) ns" by (auto simp: can_delta_encode_def)
  from Cons.prems obtain a where a: "v = JNum (Fin a)" "a = of_int \<lfloor>a\<rfloor>" "0 \<le> a"
    by (auto simp: can_delta_encode_def js_is_integer_def less_eq_jsnum_def split: jsval.splits jsnum.splits)
  then have "a = of_nat (nat \<lfloor>a\<rfloor>)" by simp
  with a(1) ns have "v # vs = map (\<lambda>n. JNum (num_nat n)) (nat \<lfloor>a\<rfloor> # ns)" by (simp add: num_nat_def)
  then show ?case by (rule exI)
qed simp

text \<open>Sorting the numbers is sorting the naturals.\<close>

lemma js_sort_nats: "js_sort (\<lambda>a b. num_cmp (a - b)) (map num_nat ns) = map num_nat (sort ns)"
proof -
  have ins: "js_insert (\<lambda>a b. num_cmp (a - b)) (num_nat n) (map num_nat ms) = map num_nat (insort n ms)" for n ms
    by (induction ms) (auto simp: num_nat_def)
  show ?thesis by (induction ns) (simp_all add: ins)
qed

definition plain_id :: "jsval \<Rightarrow> bool" where
  "plain_id v = (case v of JStr _ \<Rightarrow> True | JNum _ \<Rightarrow> json_ok v | _ \<Rightarrow> False)"

lemma plain_id_json_ok: "plain_id v \<Longrightarrow> json_ok v"
  by (cases v) (simp_all add: plain_id_def)

lemma decode_json_result:
  assumes "list_all plain_id vs"
  shows "decode_postings (er_buffer (json_result dtoa vs)) JsonEnc = Inr vs"
proof -
  have ok: "json_ok (JArr vs)" using assms by (auto simp: list_all_iff intro: plain_id_json_ok)
  have ne: "utf8_encode (json_val dtoa (JArr vs)) \<noteq> []" by (simp add: utf8_encode_def utf8_char_def Let_def)
  show ?thesis
    using ne json_roundtrip_lib [OF ok, of dtoa]
    by (simp add: decode_postings_def json_result_def decode_text_def utf8_roundtrip parse_json_def
        del: json_val.simps json_ok.simps)
qed

lemma encode_postings_cases:
  assumes "list_all plain_id vs"
  obtains (json) "encode_postings dtoa vs = json_result dtoa vs"
    | (delta) ns bs where "vs = map (\<lambda>n. JNum (num_nat n)) ns"
        "encode_postings dtoa vs = \<lparr>er_buffer = bs, er_encoding = DeltaVarint\<rparr>"
        "decode_deltas bs True 0 0 = Inr (sort ns)"
proof (cases "can_delta_encode vs \<and> vs \<noteq> []")
  case True
  then obtain ns where ns: "vs = map (\<lambda>n. JNum (num_nat n)) ns" using can_delta_nats by blast
  have nums: "map num_of vs = map num_nat ns" by (simp add: ns num_of_def)
  show thesis
  proof (cases "delta_encode True (num_nat 0) (map num_nat (sort ns))")
    case (Inl e)
    with True nums have "encode_postings dtoa vs = json_result dtoa vs"
      by (simp add: encode_postings_def js_sort_nats num_nat_def)
    then show thesis by (rule json)
  next
    case (Inr bs)
    with True nums have "encode_postings dtoa vs = \<lparr>er_buffer = bs, er_encoding = DeltaVarint\<rparr>"
      by (simp add: encode_postings_def js_sort_nats num_nat_def)
    moreover have "decode_deltas bs True 0 0 = Inr (sort ns)"
      using delta_decode [OF Inr, of "[]"] by simp
    ultimately show thesis using ns delta by blast
  qed
next
  case False
  show thesis
  proof (cases "vs = []")
    case True
    then show thesis
      by (intro delta [of "[]" "[]"]) (simp_all add: encode_postings_def decode_deltas.simps)
  next
    case nonempty: False
    with False json show thesis by (simp add: encode_postings_def)
  qed
qed

section \<open>Postings with metadata: round trip\<close>

lemma get_set_uint32_le: "get_uint32_le (pre @ set_uint32_le w @ post) (length pre) = w"
proof -
  have high: "\<not> n - 16 < 8 \<Longrightarrow> 24 + (n - 24) = n" for n :: nat by simp
  have "ucast (ucast w :: byte) OR push_bit 8 (ucast (ucast (drop_bit 8 w) :: byte)) OR
      push_bit 16 (ucast (ucast (drop_bit 16 w) :: byte)) OR
      push_bit 24 (ucast (ucast (drop_bit 24 w) :: byte)) = w"
    by (rule bit_word_eqI) (auto simp: bit_simps not_less, rule ccontr, simp add: high)
  then show ?thesis by (simp add: get_uint32_le_def set_uint32_le_def nth_append)
qed

lemma length_set_uint32_le [simp]: "length (set_uint32_le w) = 4"
  by (simp add: set_uint32_le_def)

lemma decode_text_encoded:
  "length pre = off \<Longrightarrow> stop = off + length (utf8_encode s) \<Longrightarrow>
   decode_text (pre @ utf8_encode s @ post) off stop = Inr s"
  by (simp add: decode_text_def utf8_roundtrip)

text \<open>What a posting reads back as: its id as a string, its frequency and metadata in normal form.\<close>

definition normal_metadata :: "jsrec \<Rightarrow> jsrec" where
  "normal_metadata r =
     (if meta_is_prefix (Some r)
      then (''isPrefix'', JBool True) # filter (\<lambda>(k, v). k \<noteq> ''isPrefix'') r else r)"

definition normal_posting :: "term_posting \<Rightarrow> term_posting" where
  "normal_posting p = p\<lparr>tp_doc := DStr (docid_string (tp_doc p)),
     tp_frequency := normalise_term_frequency (tp_frequency p),
     tp_metadata := map_option normal_metadata (tp_metadata p)\<rparr>"

text \<open>A posting the format can hold: JSON metadata, and lengths that fit 32 bits.\<close>

definition storable :: "(rat \<Rightarrow> string) \<Rightarrow> term_posting \<Rightarrow> bool" where
  "storable dtoa p =
     (length (utf8_encode (docid_string (tp_doc p))) < 2 ^ 32 \<and>
      (case tp_metadata p of None \<Rightarrow> True | Some r \<Rightarrow> json_ok (JObj r)) \<and>
      (case snd (encode_posting_metadata dtoa (tp_metadata p)) of
         None \<Rightarrow> True | Some bs \<Rightarrow> length bs < 2 ^ 32))"

lemma normalise_term_frequency_nat:
  "\<exists>n. normalise_term_frequency tf = Fin (of_nat n) \<and> 0 < n \<and> n < 2 ^ 32"
proof (cases tf)
  case (Fin a)
  show ?thesis
  proof (cases "a \<le> 0")
    case False
    let ?m = "max 1 (min \<lfloor>a\<rfloor> 4294967295)"
    have "normalise_term_frequency tf = Fin (of_int ?m)"
      using False Fin by (simp add: normalise_term_frequency_def of_int_max of_int_min)
    also have "\<dots> = Fin (of_nat (nat ?m))" by (simp add: of_nat_nat)
    finally show ?thesis by (intro exI [of _ "nat ?m"]) auto
  qed (intro exI [of _ 1], use Fin in \<open>simp add: normalise_term_frequency_def\<close>)
qed (intro exI [of _ 1], simp add: normalise_term_frequency_def)+

lemma normalise_term_frequency_stored:
  "js_max (Fin 1) (Fin (of_nat (unat (to_uint32 (normalise_term_frequency tf))))) = normalise_term_frequency tf"
proof -
  obtain n where n: "normalise_term_frequency tf = Fin (of_nat n)" "0 < n" "n < 2 ^ 32"
    using normalise_term_frequency_nat by blast
  then have "(1 :: rat) \<le> of_nat n" by simp
  then show ?thesis unfolding n(1) to_uint32_nat [OF n(3)] by simp
qed

lemma split_metadata_distinct:
  assumes "distinct (map fst r)"
  shows "split_metadata r = (if meta_is_prefix (Some r) then FLAG_IS_PREFIX else 0,
     filter (\<lambda>(k, v). \<not> (k = ''isPrefix'' \<and> v = JBool True)) r)"
  using assms
proof (induction r rule: rev_induct)
  case Nil
  then show ?case by (simp add: split_metadata_def meta_is_prefix_def js_get_def)
next
  case (snoc p r)
  obtain k v where p: "p = (k, v)" by (cases p)
  from snoc.prems p have k: "map_of r k = None" by (auto simp: map_of_eq_None_iff)
  have step: "split_metadata (r @ [p]) = (let (flags, extra) = split_metadata r
      in if k = ''isPrefix'' \<and> v = JBool True then (flags OR FLAG_IS_PREFIX, extra)
         else (flags, jmap_set k v extra))"
    by (simp add: split_metadata_def p case_prod_unfold Let_def)
  have absent: "jmap_set k v (filter Q r) = filter Q r @ [(k, v)]" for Q
    using k by (intro jmap_set_absent) (auto simp: map_of_eq_None_iff)
  have flag: "meta_is_prefix (Some (r @ [p])) \<longleftrightarrow> meta_is_prefix (Some r) \<or> (k = ''isPrefix'' \<and> v = JBool True)"
    using k by (auto simp: meta_is_prefix_def js_get_def p map_add_def split: option.splits)
  have excl: "k = ''isPrefix'' \<Longrightarrow> \<not> meta_is_prefix (Some r)"
    using k by (auto simp: meta_is_prefix_def js_get_def)
  show ?case
    using snoc excl unfolding step flag by (auto simp: p absent)
qed

definition metadata_block :: "byte list option \<Rightarrow> byte list" where
  "metadata_block mb = (case mb of None \<Rightarrow> [] | Some bs \<Rightarrow> set_uint32_le (of_nat (length bs)) @ bs)"

lemma flag_simps:
  "FLAG_IS_PREFIX AND FLAG_IS_PREFIX \<noteq> 0" "FLAG_IS_PREFIX AND FLAG_HAS_EXTRA_METADATA = 0"
  "FLAG_HAS_EXTRA_METADATA AND FLAG_HAS_EXTRA_METADATA \<noteq> 0" "FLAG_HAS_EXTRA_METADATA AND FLAG_IS_PREFIX = 0"
  "(FLAG_IS_PREFIX OR FLAG_HAS_EXTRA_METADATA) AND FLAG_IS_PREFIX \<noteq> 0"
  "(FLAG_IS_PREFIX OR FLAG_HAS_EXTRA_METADATA) AND FLAG_HAS_EXTRA_METADATA \<noteq> 0"
  "FLAG_IS_PREFIX \<noteq> 0" "FLAG_HAS_EXTRA_METADATA \<noteq> 0"
  by (simp_all add: FLAG_IS_PREFIX_def FLAG_HAS_EXTRA_METADATA_def)

lemma unat_length32: "n < 2 ^ 32 \<Longrightarrow> unat (of_nat n :: 32 word) = n"
  by (simp add: unat_of_nat)

lemma decode_metadata_block:
  assumes len: "length bs < 2 ^ 32" and bs: "bs = utf8_encode (json_val dtoa (JObj extra))"
    and ok: "json_ok (JObj extra)" and flag: "flags AND FLAG_HAS_EXTRA_METADATA \<noteq> 0"
  shows "decode_metadata (pre @ metadata_block (Some bs) @ post) flags (length pre) =
    Inr (Some (spread (if flags AND FLAG_IS_PREFIX \<noteq> 0 then [(''isPrefix'', JBool True)] else []) extra),
         length pre + length (metadata_block (Some bs)))"
proof -
  let ?buf = "pre @ metadata_block (Some bs) @ post"
  have n: "unat (get_uint32_le ?buf (length pre)) = length bs"
    unfolding metadata_block_def option.case append_assoc get_set_uint32_le by (rule unat_length32 [OF len])
  have chars: "decode_text ?buf (length pre + 4) (length pre + 4 + length bs) = Inr (json_val dtoa (JObj extra))"
    using decode_text_encoded [of "pre @ set_uint32_le (of_nat (length bs))" "length pre + 4"
        "length pre + 4 + length bs" "json_val dtoa (JObj extra)" post]
    by (simp add: metadata_block_def bs del: json_val.simps)
  have parse: "parse_json (json_val dtoa (JObj extra)) = Inr (JObj extra)"
    unfolding parse_json_def json_roundtrip_lib [OF ok] by simp
  have room: "\<not> length ?buf < length pre + 4" "\<not> length ?buf < length pre + 4 + length bs"
    by (simp_all add: metadata_block_def)
  show ?thesis
    unfolding decode_metadata_def Let_def n if_not_P [OF room(1)] if_not_P [OF room(2)] if_P [OF flag] chars
    by (simp add: parse metadata_block_def del: json_val.simps)
qed

lemma decode_encoded_metadata:
  assumes ok: "\<And>r. m = Some r \<Longrightarrow> json_ok (JObj r)"
    and enc: "encode_posting_metadata dtoa m = (flags, mb)"
    and len: "\<And>bs. mb = Some bs \<Longrightarrow> length bs < 2 ^ 32"
  shows "decode_metadata (pre @ metadata_block mb @ post) flags (length pre) =
    Inr (map_option normal_metadata m, length pre + length (metadata_block mb))"
proof (cases m)
  case None
  with enc show ?thesis by (simp add: encode_posting_metadata_def decode_metadata_def metadata_block_def)
next
  case (Some r)
  with ok have r: "distinct (map fst r)" "list_all (\<lambda>(k, v). json_ok v) r" by auto
  define extra where "extra = filter (\<lambda>(k, v). \<not> (k = ''isPrefix'' \<and> v = JBool True)) r"
  define fl where "fl = (if meta_is_prefix m then FLAG_IS_PREFIX else 0)"
  have split: "split_metadata r = (fl, extra)"
    unfolding split_metadata_distinct [OF r(1)] by (simp add: fl_def extra_def Some)
  have enc': "encode_posting_metadata dtoa m = (if extra \<noteq> [] \<or> fl = 0
      then (fl OR FLAG_HAS_EXTRA_METADATA, Some (utf8_encode (json_val dtoa (JObj extra)))) else (fl, None))"
    unfolding encode_posting_metadata_def Some option.case split by (simp del: json_val.simps)
  have keys: "distinct (map fst extra)" using r(1) by (simp add: extra_def distinct_map_filter)
  have extra_ok: "json_ok (JObj extra)" using keys r(2) by (auto simp: extra_def list_all_iff)
  have normal: "spread (if fl AND FLAG_IS_PREFIX \<noteq> 0 then [(''isPrefix'', JBool True)] else []) extra = normal_metadata r"
  proof (cases "meta_is_prefix m")
    case True
    then have "(''isPrefix'', JBool True) \<in> set r"
      using Some by (auto simp: meta_is_prefix_def js_get_def dest: map_of_SomeD split: option.splits)
    then have "extra = filter (\<lambda>(k, v). k \<noteq> ''isPrefix'') r"
      unfolding extra_def using r(1) by (intro filter_cong) (auto dest: eq_key_imp_eq_value)
    moreover from this have "spread [(''isPrefix'', JBool True)] extra = (''isPrefix'', JBool True) # extra"
      using keys by (subst spread_append) auto
    ultimately show ?thesis using True Some by (simp add: fl_def flag_simps normal_metadata_def)
  next
    case False
    then have "(''isPrefix'', JBool True) \<notin> set r"
      using Some r(1) by (auto simp: meta_is_prefix_def js_get_def)
    then have "extra = r" unfolding extra_def by (auto simp: filter_id_conv)
    moreover have "spread [] extra = extra" using keys by (simp add: spread_append)
    ultimately show ?thesis using False Some by (simp add: fl_def normal_metadata_def)
  qed
  have pick: "(fl OR FLAG_HAS_EXTRA_METADATA) AND FLAG_IS_PREFIX \<noteq> 0 \<longleftrightarrow> fl AND FLAG_IS_PREFIX \<noteq> 0"
    "(fl OR FLAG_HAS_EXTRA_METADATA) AND FLAG_HAS_EXTRA_METADATA \<noteq> 0"
    by (auto simp: fl_def flag_simps)
  show ?thesis
  proof (cases "extra \<noteq> [] \<or> fl = 0")
    case True
    with enc enc' have fm: "flags = fl OR FLAG_HAS_EXTRA_METADATA"
        "mb = Some (utf8_encode (json_val dtoa (JObj extra)))" by (auto simp del: json_val.simps)
    show ?thesis unfolding fm(2)
      by (subst decode_metadata_block [OF len [OF fm(2)] refl extra_ok])
        (simp_all add: fm(1) pick normal Some flag_simps del: json_val.simps)
  next
    case False
    with enc enc' have fm: "flags = fl" "mb = None" by auto
    from False have "fl = FLAG_IS_PREFIX" "extra = []" by (auto simp: fl_def split: if_splits)
    with normal show ?thesis
      by (simp add: fm Some decode_metadata_def flag_simps metadata_block_def spread_def)
  qed
qed

lemma decode_encoded_record:
  assumes "storable dtoa p"
  shows "decode_record (pre @ encode_record dtoa p @ post) (length pre) =
    Inr (normal_posting p, length pre + length (encode_record dtoa p))"
proof -
  define idb where "idb = utf8_encode (docid_string (tp_doc p))"
  obtain flags mb where enc: "encode_posting_metadata dtoa (tp_metadata p) = (flags, mb)" by force
  define tf where "tf = set_uint32_le (to_uint32 (normalise_term_frequency (tp_frequency p)))"
  define block where "block = metadata_block mb"
  let ?idlen = "set_uint32_le (of_nat (length idb))"
  have rec: "encode_record dtoa p = ?idlen @ idb @ tf @ [flags] @ block"
    by (simp add: encode_record_def Let_def enc idb_def tf_def block_def metadata_block_def)
  let ?buf = "pre @ encode_record dtoa p @ post"
  let ?idend = "length pre + 4 + length idb"
  have len: "length idb < 2 ^ 32" using assms by (simp add: storable_def idb_def)
  have n: "unat (get_uint32_le ?buf (length pre)) = length idb"
    unfolding rec append_assoc get_set_uint32_le by (rule unat_length32 [OF len])
  have chars: "decode_text ?buf (length pre + 4) ?idend = Inr (docid_string (tp_doc p))"
    using decode_text_encoded [of "pre @ ?idlen" "length pre + 4" ?idend "docid_string (tp_doc p)"]
    unfolding rec by (simp add: idb_def)
  have tfreq: "get_uint32_le ?buf ?idend = to_uint32 (normalise_term_frequency (tp_frequency p))"
    using get_set_uint32_le [of "pre @ ?idlen @ idb"] unfolding rec by (simp add: tf_def add.assoc)
  have flag: "?buf ! (?idend + 4) = flags"
    using nth_append_length [of "pre @ ?idlen @ idb @ tf" flags "block @ post"]
    unfolding rec by (simp add: tf_def add.assoc)
  have meta: "decode_metadata ?buf flags (?idend + 5) =
      Inr (map_option normal_metadata (tp_metadata p), ?idend + 5 + length block)"
    using decode_encoded_metadata [OF _ enc, of "pre @ ?idlen @ idb @ tf @ [flags]" post] assms
    unfolding rec by (auto simp: tf_def block_def storable_def enc algebra_simps split: option.splits)
  have room: "\<not> length ?buf < length pre + 4" "\<not> length ?buf < ?idend" "\<not> length ?buf < ?idend + 5"
    by (simp_all add: rec tf_def)
  show ?thesis
    unfolding decode_record_def Let_def n if_not_P [OF room(1)] if_not_P [OF room(2)] chars bind_sum_simps
      if_not_P [OF room(3)] flag meta tfreq normalise_term_frequency_stored
    by (simp add: normal_posting_def rec tf_def)
qed

lemma decode_encoded_records:
  "list_all (storable dtoa) ps \<Longrightarrow>
   decode_records (pre @ concat (map (encode_record dtoa) ps) @ post) (length ps) (length pre) =
     Inr (map normal_posting ps, length pre + length (concat (map (encode_record dtoa) ps)))"
proof (induction ps arbitrary: pre)
  case (Cons p ps)
  have "decode_records ((pre @ encode_record dtoa p) @ concat (map (encode_record dtoa) ps) @ post) (length ps)
      (length (pre @ encode_record dtoa p)) = Inr (map normal_posting ps,
        length (pre @ encode_record dtoa p) + length (concat (map (encode_record dtoa) ps)))"
    using Cons.IH [of "pre @ encode_record dtoa p"] Cons.prems by simp
  with Cons.prems show ?case by (simp add: decode_encoded_record)
qed simp

text \<open>A record that decodes still decodes, to the same place, when bytes follow the buffer.\<close>

lemma get_uint32_le_append: "off + 4 \<le> length buf \<Longrightarrow> get_uint32_le (buf @ ext) off = get_uint32_le buf off"
  by (simp add: get_uint32_le_def nth_append)

lemma decode_text_append:
  "stop \<le> length buf \<Longrightarrow> decode_text (buf @ ext) off stop = decode_text buf off stop"
  by (simp add: decode_text_def)

lemma decode_metadata_append:
  assumes "decode_metadata buf flags off = Inr (m, off')" and "off \<le> length buf"
  shows "off' \<le> length buf \<and> decode_metadata (buf @ ext) flags off = Inr (m, off')"
proof (cases "flags AND FLAG_HAS_EXTRA_METADATA \<noteq> 0")
  case False
  with assms show ?thesis by (simp add: decode_metadata_def Let_def split: if_splits)
next
  case True
  let ?stop = "off + 4 + unat (get_uint32_le buf off)"
  from assms True have room: "off + 4 \<le> length buf" "?stop \<le> length buf"
    by (auto simp: decode_metadata_def Let_def split: if_splits)
  have same: "get_uint32_le (buf @ ext) off = get_uint32_le buf off"
    "decode_text (buf @ ext) (off + 4) ?stop = decode_text buf (off + 4) ?stop"
    using room by (simp_all add: get_uint32_le_append decode_text_append)
  define base where "base = (case (if flags AND FLAG_IS_PREFIX \<noteq> 0 then Some [(''isPrefix'', JBool True)] else None)
    of None \<Rightarrow> [] | Some m \<Rightarrow> m)"
  obtain parsed where "(case parsed of JObj r \<Rightarrow> Inr (Some (spread base r), ?stop) | _ \<Rightarrow> Inl MetadataNotObject) = Inr (m, off')"
    using assms(1) True room unfolding decode_metadata_def Let_def base_def [symmetric]
    by (auto simp: bind_sum_Inr split: if_split_asm)
  then have "off' = ?stop" by (cases parsed) auto
  with assms True room same show ?thesis by (simp add: decode_metadata_def Let_def)
qed

lemma decode_record_append:
  assumes "decode_record buf off = Inr (p, off')"
  shows "off' \<le> length buf \<and> decode_record (buf @ ext) off = Inr (p, off')"
proof -
  let ?stop = "off + 4 + unat (get_uint32_le buf off)"
  from assms have room: "off + 4 \<le> length buf" "?stop \<le> length buf" "?stop + 5 \<le> length buf"
    by (auto simp: decode_record_def Let_def bind_sum_Inr split: if_splits)
  have same: "get_uint32_le (buf @ ext) off = get_uint32_le buf off"
    "decode_text (buf @ ext) (off + 4) ?stop = decode_text buf (off + 4) ?stop"
    "get_uint32_le (buf @ ext) ?stop = get_uint32_le buf ?stop" "(buf @ ext) ! (?stop + 4) = buf ! (?stop + 4)"
    using room by (simp_all add: get_uint32_le_append decode_text_append nth_append)
  from assms room obtain m where m: "decode_metadata buf (buf ! (?stop + 4)) (?stop + 5) = Inr (m, off')"
    by (auto simp: decode_record_def Let_def bind_sum_Inr)
  note frame = decode_metadata_append [OF m room(3), of ext]
  have room': "\<not> length (buf @ ext) < off + 4" "\<not> length (buf @ ext) < ?stop" "\<not> length (buf @ ext) < ?stop + 5"
    "\<not> length buf < off + 4" "\<not> length buf < ?stop" "\<not> length buf < ?stop + 5"
    using room by auto
  from assms frame m show ?thesis
    unfolding decode_record_def Let_def same if_not_P [OF room'(1)] if_not_P [OF room'(2)] if_not_P [OF room'(3)]
      if_not_P [OF room'(4)] if_not_P [OF room'(5)] if_not_P [OF room'(6)] by auto
qed

lemma decode_records_append:
  "decode_records buf n off = Inr (ps, off') \<Longrightarrow> off \<le> length buf \<Longrightarrow>
   off' \<le> length buf \<and> decode_records (buf @ ext) n off = Inr (ps, off')"
proof (induction n arbitrary: off ps)
  case (Suc n)
  then obtain p o1 qs where s: "decode_record buf off = Inr (p, o1)" "decode_records buf n o1 = Inr (qs, off')"
      "ps = p # qs" by (auto simp: bind_sum_Inr)
  note frame = decode_record_append [OF s(1), of ext]
  with Suc.IH [OF s(2)] s(3) show ?case by simp
qed simp

lemma decode_encoded_term_postings:
  assumes "list_all (storable dtoa) ps" and "length ps < 2 ^ 32"
  shows "decode_term_postings (er_buffer (encode_term_postings dtoa ps)) = Inr (map normal_posting ps)"
    and "decode_records (er_buffer (encode_term_postings dtoa ps)) (length ps) 8 =
      Inr (map normal_posting ps, length (er_buffer (encode_term_postings dtoa ps)))"
proof -
  let ?hd = "POSTING_BIN_V1_MAGIC @ set_uint32_le (of_nat (length ps))"
  let ?recs = "concat (map (encode_record dtoa) ps)"
  have buf: "er_buffer (encode_term_postings dtoa ps) = ?hd @ ?recs"
    by (simp add: encode_term_postings_def)
  have m: "length POSTING_BIN_V1_MAGIC = 4" by (simp add: POSTING_BIN_V1_MAGIC_def)
  have n: "unat (get_uint32_le (?hd @ ?recs) 4) = length ps"
    using get_set_uint32_le [of POSTING_BIN_V1_MAGIC "of_nat (length ps)" ?recs] unat_length32 [OF assms(2)]
    by (simp add: m)
  have all: "decode_records (?hd @ ?recs) (length ps) (4 + 4) =
      Inr (map normal_posting ps, length (?hd @ ?recs))"
    using decode_encoded_records [OF assms(1), of ?hd "[]"] by (simp add: m)
  then show "decode_records (er_buffer (encode_term_postings dtoa ps)) (length ps) 8 =
      Inr (map normal_posting ps, length (er_buffer (encode_term_postings dtoa ps)))"
    unfolding buf by simp
  have shape: "?hd @ ?recs \<noteq> []" "\<not> length (?hd @ ?recs) < 4 + 4" "take 4 (?hd @ ?recs) = POSTING_BIN_V1_MAGIC"
    using m by auto
  show "decode_term_postings (er_buffer (encode_term_postings dtoa ps)) = Inr (map normal_posting ps)"
    unfolding buf decode_term_postings_def m Let_def n if_not_P [OF shape(1)] if_not_P [OF shape(2)] shape(3) all
    by (simp only: simp_thms if_False bind_sum_simps prod.case)
qed

text \<open>Whatever decodes uses the whole buffer.\<close>

lemma decode_term_postings_inv:
  assumes "decode_term_postings buf = Inr ps" and "buf \<noteq> []"
  shows "8 \<le> length buf \<and> decode_records buf (unat (get_uint32_le buf 4)) 8 = Inr (ps, length buf)"
proof -
  have m: "length POSTING_BIN_V1_MAGIC = 4" by (simp add: POSTING_BIN_V1_MAGIC_def)
  show ?thesis
    using assms unfolding decode_term_postings_def m Let_def
    by (auto simp: bind_sum_Inr split: if_splits)
qed

section \<open>Properties\<close>

text \<open>
  Every unsigned 32-bit integer survives \<open>encodeVarint\<close> and \<open>decodeVarint\<close> at any offset
  of any buffer, in at most five bytes, and the encoder rejects what does not fit.
\<close>

theorem varint_roundtrip:
  "decode_varint (pre @ varint_bytes v @ post) (length pre) = Inr (v, length pre + length (varint_bytes v)) \<and>
   length (varint_bytes v) \<in> {1..5} \<and>
   encode_varint (num_nat n) =
     (if n \<le> 4294967295 then Inr (varint_bytes (to_uint32 (num_nat n)))
      else Inl (VarintEncodeOverflow (num_nat n)))"
proof -
  have "Fin 4294967295 < num_nat n \<longleftrightarrow> \<not> n \<le> 4294967295"
    using of_nat_less_iff [where ?'a = rat, of 4294967295 n] by (auto simp: num_nat_def)
  then have "encode_varint (num_nat n) = (if n \<le> 4294967295 then Inr (varint_bytes (to_uint32 (num_nat n)))
      else Inl (VarintEncodeOverflow (num_nat n)))"
    by (simp add: encode_varint_def) (simp add: num_nat_def)
  then show ?thesis
    using varint_bytes_length [of v] by (simp add: decode_varint_encoded)
qed

text \<open>
  C16: \<open>decodePostings\<close> inverts \<open>encodePostings\<close>. For string and integer identifiers
  nothing is lost or invented whatever encoding was chosen; the JSON fallback keeps the order,
  the delta encoding returns the identifiers in ascending order.
\<close>

theorem encode_postings_roundtrip:
  assumes "list_all plain_id vs"
  shows "\<exists>ps. decode_postings (er_buffer (encode_postings dtoa vs)) (er_encoding (encode_postings dtoa vs)) = Inr ps \<and>
    mset ps = mset vs \<and>
    (if er_encoding (encode_postings dtoa vs) = DeltaVarint
     then sorted_wrt (\<lambda>a b. num_of a \<le> num_of b) ps else ps = vs)"
  using assms
proof (cases rule: encode_postings_cases [where dtoa = dtoa])
  case json
  have "er_encoding (json_result dtoa vs) = JsonEnc" by (simp add: json_result_def)
  with decode_json_result [OF assms] show ?thesis by (simp add: json)
next
  case (delta ns bs)
  let ?ps = "map (\<lambda>n. JNum (num_nat n)) (sort ns)"
  have "sorted_wrt (\<lambda>a b. num_of a \<le> num_of b) ?ps"
    using sorted_sort [of ns] unfolding sorted_wrt_map
    by (rule sorted_wrt_mono_rel [rotated]) (simp add: num_of_def num_nat_def)
  moreover have "mset ?ps = mset vs" by (simp add: delta(1))
  moreover have "decode_postings bs DeltaVarint = Inr ?ps"
    by (simp add: decode_postings_def delta(3) num_nat_def)
  ultimately show ?thesis using delta(2) by simp
qed

theorem encode_postings_roundtrip_witness:
  "\<exists>ps. decode_postings (er_buffer (encode_postings (\<lambda>_. []) [JNum (Fin 300), JNum (Fin 7)]))
      (er_encoding (encode_postings (\<lambda>_. []) [JNum (Fin 300), JNum (Fin 7)])) = Inr ps \<and>
    mset ps = mset [JNum (Fin 300), JNum (Fin 7)]"
  using encode_postings_roundtrip [of "[JNum (Fin 300), JNum (Fin 7)]" "\<lambda>_. []"]
  by (auto simp: plain_id_def)

text \<open>
  Identifiers that are integers of 32 bits are always stored in the delta encoding, in at
  most five bytes each.
\<close>

theorem encode_postings_compact:
  assumes "\<forall>n \<in> set ns. n < 2 ^ 32"
  shows "er_encoding (encode_postings dtoa (map (\<lambda>n. JNum (num_nat n)) ns)) = DeltaVarint \<and>
    length (er_buffer (encode_postings dtoa (map (\<lambda>n. JNum (num_nat n)) ns))) \<le> 5 * length ns"
proof -
  obtain bs where bs: "delta_encode True (num_nat 0) (map num_nat (sort ns)) = Inr bs" "length bs \<le> 5 * length ns"
    using delta_encode_ok [of 0 "sort ns" True] assms by auto
  have nums: "map num_of (map (\<lambda>n. JNum (num_nat n)) ns) = map num_nat ns" by (simp add: num_of_def comp_def)
  have can: "can_delta_encode (map (\<lambda>n. JNum (num_nat n)) ns)"
    by (auto simp: can_delta_encode_def list_all_iff js_is_integer_def num_nat_def)
  show ?thesis
    using bs can unfolding encode_postings_def nums js_sort_nats by (simp add: num_nat_def [of 0])
qed

theorem encode_postings_compact_witness:
  "er_encoding (encode_postings (\<lambda>_. []) (map (\<lambda>n. JNum (num_nat n)) [4294967295, 5])) = DeltaVarint"
  using encode_postings_compact [of "[4294967295, 5]" "\<lambda>_. []"] by simp

text \<open>
  C30: the binary posting format: postings whose metadata is JSON come back with the same
  metadata (the prefix flag first), the clamped frequency and the identifier as a string.
\<close>

theorem term_postings_roundtrip:
  assumes "list_all (storable dtoa) ps" and "length ps < 2 ^ 32"
  shows "decode_term_postings (er_buffer (encode_term_postings dtoa ps)) = Inr (map normal_posting ps)"
  by (rule decode_encoded_term_postings(1) [OF assms])

theorem term_postings_roundtrip_witness:
  "decode_term_postings (er_buffer (encode_term_postings (\<lambda>_. [])
      [\<lparr>tp_doc = DNum 12, tp_frequency = Fin (5/2), tp_metadata = Some [(''w'', JNum (Fin 3)), (''isPrefix'', JBool True)]\<rparr>])) =
    Inr [\<lparr>tp_doc = DStr ''12'', tp_frequency = Fin 2,
          tp_metadata = Some [(''isPrefix'', JBool True), (''w'', JNum (Fin 3))]\<rparr>]"
proof -
  let ?r = "[(''w'', JNum (Fin 3)), (''isPrefix'', JBool True)]"
  let ?p = "\<lparr>tp_doc = DNum 12, tp_frequency = Fin (5/2), tp_metadata = Some ?r\<rparr>"
  have id: "docid_string (DNum 12) = ''12''" by (code_simp)
  have "floor (5/2 :: rat) = 2" by (simp add: floor_eq_iff)
  then have n: "normal_posting ?p = \<lparr>tp_doc = DStr ''12'', tp_frequency = Fin 2,
          tp_metadata = Some [(''isPrefix'', JBool True), (''w'', JNum (Fin 3))]\<rparr>"
    unfolding normal_posting_def normalise_term_frequency_def
    by (simp add: id normal_metadata_def meta_is_prefix_def js_get_def)
  have "split_metadata ?r = (1, [(''w'', JNum (Fin 3))])"
    by (simp add: split_metadata_def FLAG_IS_PREFIX_def)
  moreover have "int_to_string 3 = ''3''" by code_simp
  ultimately have "storable (\<lambda>_. []) ?p"
    by (simp add: storable_def id encode_posting_metadata_def utf8_encode_def utf8_char_def Let_def
        num_to_string_def json_quote_def json_escape_def)
  then have "list_all (storable (\<lambda>_. [])) [?p]" by simp
  from term_postings_roundtrip [OF this] show ?thesis by (simp add: n)
qed

text \<open>
  No corruption by truncation or padding goes unnoticed: any non-empty proper prefix of
  an encoded chunk, and any extension of it, is rejected by the decoder.
\<close>

theorem term_postings_truncation:
  assumes "list_all (storable dtoa) ps" and "length ps < 2 ^ 32"
    and "buf \<noteq> []" and "strict_prefix buf (er_buffer (encode_term_postings dtoa ps)) \<or>
      strict_prefix (er_buffer (encode_term_postings dtoa ps)) buf"
  shows "\<exists>e. decode_term_postings buf = Inl e"
proof (rule ccontr)
  let ?full = "er_buffer (encode_term_postings dtoa ps)"
  assume "\<nexists>e. decode_term_postings buf = Inl e"
  then obtain qs where "decode_term_postings buf = Inr qs" by (cases "decode_term_postings buf") auto
  note d = decode_term_postings_inv [OF this assms(3)]
  note full = decode_encoded_term_postings [OF assms(1,2)]
  have ne: "?full \<noteq> []" by (simp add: encode_term_postings_def POSTING_BIN_V1_MAGIC_def)
  note f = decode_term_postings_inv [OF full(1) ne]
  from assms(4) consider ext where "?full = buf @ ext" "ext \<noteq> []" | ext where "buf = ?full @ ext" "ext \<noteq> []"
    by (auto simp: strict_prefix_def prefix_def)
  then show False
  proof cases
    case 1
    have "get_uint32_le ?full 4 = get_uint32_le buf 4"
      unfolding 1(1) by (rule get_uint32_le_append) (use d in simp)
    moreover have "decode_records (buf @ ext) (unat (get_uint32_le buf 4)) 8 = Inr (qs, length buf)"
      using decode_records_append d by blast
    ultimately show False using f 1 by simp
  next
    case 2
    have "get_uint32_le buf 4 = get_uint32_le ?full 4"
      unfolding 2(1) by (rule get_uint32_le_append) (use f in simp)
    moreover have "decode_records (?full @ ext) (unat (get_uint32_le ?full 4)) 8 =
        Inr (map normal_posting ps, length ?full)"
      using decode_records_append f by blast
    ultimately show False using d 2 by simp
  qed
qed

theorem term_postings_truncation_witness:
  "\<exists>e. decode_term_postings (er_buffer (encode_term_postings (\<lambda>_. []) []) @ [0]) = Inl e"
proof -
  have "strict_prefix (er_buffer (encode_term_postings (\<lambda>_. []) []))
      (er_buffer (encode_term_postings (\<lambda>_. []) []) @ [0])"
    by (simp add: strict_prefix_def)
  with term_postings_truncation [of "\<lambda>_. []" "[]" "er_buffer (encode_term_postings (\<lambda>_. []) []) @ [0]"]
  show ?thesis by simp
qed

end
