(* ===== verification/StopWords.thy ===== *)
theory StopWords
  imports JsValue
begin

text \<open>
  The stop word lists of \<open>searchfn/core/src/pipeline/stop-words.ts\<close>. A \<open>Set\<close> built from
  an array drops later duplicates (the Spanish list has two). Letters above U+007F are written
  by their code.
\<close>

definition js_set_of :: "'a list \<Rightarrow> 'a jset" where
  "js_set_of xs = foldl (\<lambda>s x. jset_add x s) [] xs"

lemma set_js_set_of [jset_simps]: "set (js_set_of xs) = set xs"
proof -
  have "set (foldl (\<lambda>s x. jset_add x s) s xs) = set s \<union> set xs" for s
    by (induction xs arbitrary: s) (auto simp: jset_simps)
  then show ?thesis by (simp add: js_set_of_def)
qed

lemma distinct_js_set_of [simp]: "distinct (js_set_of xs)"
  unfolding js_set_of_def by (rule foldl_invariant) auto

definition STOP_WORDS_EN :: "string jset" where
  "STOP_WORDS_EN = js_set_of [
    ''a'', ''an'', ''and'', ''are'', ''as'', ''at'', ''be'', ''but'', ''by'', ''for'', ''if'',
    ''in'', ''into'', ''is'', ''it'', ''no'', ''not'', ''of'', ''on'', ''or'', ''such'',
    ''that'', ''the'', ''their'', ''then'', ''there'', ''these'', ''they'', ''this'', ''to'',
    ''was'', ''will'', ''with'']"

definition STOP_WORDS_ES :: "string jset" where
  "STOP_WORDS_ES = js_set_of [
    ''el'', ''la'', ''de'', ''que'', ''y'', ''a'', ''en'', ''un'', ''ser'', ''se'', ''no'',
    ''haber'', ''por'', ''con'', ''su'', ''para'', ''como'', ''estar'', ''tener'', ''le'',
    ''lo'', ''todo'', ''pero'', ''m'' @ [CHR 0xE1] @ ''s'', ''hacer'', ''o'', ''poder'',
    ''decir'', ''este'', ''ir'', ''otro'', ''ese'', ''la'', ''si'', ''me'', ''ya'', ''ver'',
    ''porque'', ''dar'', ''cuando'', [CHR 0xE9] @ ''l'', ''muy'', ''sin'', ''vez'', ''mucho'',
    ''saber'', ''qu'' @ [CHR 0xE9], ''sobre'', ''mi'', ''alguno'', ''mismo'', ''yo'',
    ''tambi'' @ [CHR 0xE9] @ ''n'', ''hasta'', ''a'' @ [CHR 0xF1] @ ''o'', ''dos'', ''querer'',
    ''entre'', ''as'' @ [CHR 0xED], ''primero'', ''desde'', ''grande'', ''eso'', ''ni'',
    ''nos'', ''llegar'', ''pasar'', ''tiempo'', ''ella'', ''s'' @ [CHR 0xED],
    ''d'' @ [CHR 0xED] @ ''a'', ''uno'', ''bien'', ''poco'', ''deber'', ''entonces'',
    ''poner'', ''cosa'', ''tanto'', ''hombre'', ''parecer'', ''nuestro'', ''tan'', ''donde'',
    ''ahora'', ''parte'', ''despu'' @ [CHR 0xE9] @ ''s'', ''vida'', ''quedar'', ''siempre'',
    ''creer'', ''hablar'', ''llevar'', ''dejar'', ''nada'', ''cada'', ''seguir'', ''menos'',
    ''nuevo'', ''encontrar'', ''algo'', ''solo'', ''decir'', ''salir'', ''volver'', ''tomar'',
    ''conocer'', ''vivir'', ''sentir'', ''tratar'', ''mirar'', ''contar'', ''empezar'',
    ''esperar'', ''buscar'', ''existir'', ''entrar'', ''trabajar'', ''escribir'', ''perder'',
    ''producir'', ''ocurrir'', ''entender'', ''pedir'', ''recibir'', ''recordar'',
    ''terminar'', ''permitir'', ''aparecer'', ''conseguir'', ''comenzar'', ''servir'',
    ''sacar'', ''necesitar'', ''mantener'', ''resultar'', ''leer'', ''caer'', ''cambiar'',
    ''presentar'', ''crear'', ''abrir'', ''considerar'', ''o'' @ [CHR 0xED] @ ''r'',
    ''acabar'', ''mil'', ''durante'']"

definition STOP_WORDS_FR :: "string jset" where
  "STOP_WORDS_FR = js_set_of [
    ''au'', ''aux'', ''avec'', ''ce'', ''ces'', ''dans'', ''de'', ''des'', ''du'', ''elle'',
    ''en'', ''et'', ''eux'', ''il'', ''je'', ''la'', ''le'', ''leur'', ''lui'', ''ma'',
    ''mais'', ''me'', ''m'' @ [CHR 0xEA] @ ''me'', ''mes'', ''moi'', ''mon'', ''ne'', ''nos'',
    ''notre'', ''nous'', ''on'', ''ou'', ''par'', ''pas'', ''pour'', ''qu'', ''que'', ''qui'',
    ''sa'', ''se'', ''ses'', ''son'', ''sur'', ''ta'', ''te'', ''tes'', ''toi'', ''ton'',
    ''tu'', ''un'', ''une'', ''vos'', ''votre'', ''vous'', ''c'', ''d'', ''j'', ''l'',
    [CHR 0xE0], ''m'', ''n'', ''s'', ''t'', ''y'', [CHR 0xE9] @ ''t'' @ [CHR 0xE9],
    [CHR 0xE9] @ ''t'' @ [CHR 0xE9] @ ''e'', [CHR 0xE9] @ ''t'' @ [CHR 0xE9] @ ''es'',
    [CHR 0xE9] @ ''t'' @ [CHR 0xE9] @ ''s'', [CHR 0xE9] @ ''tant'', ''suis'', ''es'', ''est'',
    ''sommes'', [CHR 0xEA] @ ''tes'', ''sont'', ''serai'', ''seras'', ''sera'', ''serons'',
    ''serez'', ''seront'', ''serais'', ''serait'', ''serions'', ''seriez'', ''seraient'',
    [CHR 0xE9] @ ''tais'', [CHR 0xE9] @ ''tait'', [CHR 0xE9] @ ''tions'',
    [CHR 0xE9] @ ''tiez'', [CHR 0xE9] @ ''taient'', ''fus'', ''fut'',
    ''f'' @ [CHR 0xFB] @ ''mes'', ''f'' @ [CHR 0xFB] @ ''tes'', ''furent'', ''sois'', ''soit'',
    ''soyons'', ''soyez'', ''soient'', ''fusse'', ''fusses'', ''f'' @ [CHR 0xFB] @ ''t'',
    ''fussions'', ''fussiez'', ''fussent'', ''ayant'', ''eu'', ''eue'', ''eues'', ''eus'',
    ''ai'', ''as'', ''avons'', ''avez'', ''ont'', ''aurai'', ''auras'', ''aura'', ''aurons'',
    ''aurez'', ''auront'', ''aurais'', ''aurait'', ''aurions'', ''auriez'', ''auraient'',
    ''avais'', ''avait'', ''avions'', ''aviez'', ''avaient'', ''eut'',
    ''e'' @ [CHR 0xFB] @ ''mes'', ''e'' @ [CHR 0xFB] @ ''tes'', ''eurent'', ''aie'', ''aies'',
    ''ait'', ''ayons'', ''ayez'', ''aient'', ''eusse'', ''eusses'', ''e'' @ [CHR 0xFB] @ ''t'',
    ''eussions'', ''eussiez'', ''eussent'']"

end
