(* ===== verification/Pipeline.thy ===== *)
theory Pipeline
  imports StopWords
begin

text \<open>
  The text pipeline of \<open>searchfn/core/src/pipeline\<close>: the stages (\<open>stages.ts\<close>,
  \<open>stages/edge-ngram-stage.ts\<close>), the stemmers, the engine that runs the stages in order
  (\<open>index.ts\<close>) and the portability check (\<open>compatibility.ts\<close>). Stages and stemmers
  the caller supplies are functions stored in the options.
\<close>

section \<open>Data\<close>

record token =
  tk_value :: string
  tk_position :: nat
  tk_field :: string
  tk_document :: "docid option"
  tk_metadata :: "jsrec option"

record pipeline_context =
  pc_field :: string
  pc_document :: "docid option"

datatype pipeline_error = NotSingleSeed | CustomStageError string

record pipeline_stage =
  ps_name :: string
  ps_execute :: "token list \<Rightarrow> pipeline_context \<Rightarrow> pipeline_error + token list"

type_synonym stemmer = "string \<Rightarrow> string"

record edge_field_config =
  ef_enabled :: bool
  ef_min :: "jsnum option"
  ef_max :: "jsnum option"

record pipeline_options =
  po_stemming :: "bool option"
  po_stop_words :: "string list option"
  po_custom :: "pipeline_stage list option"
  po_language :: "string option"
  po_stemmer :: "stemmer option"
  po_edge :: "bool option"
  po_edge_min :: "jsnum option"
  po_edge_max :: "jsnum option"
  po_edge_fields :: "(string, edge_field_config) jmap option"

definition default_options :: pipeline_options where
  "default_options = \<lparr>po_stemming = None, po_stop_words = None, po_custom = None, po_language = None,
     po_stemmer = None, po_edge = None, po_edge_min = None, po_edge_max = None, po_edge_fields = None\<rparr>"

section \<open>Stages\<close>

text \<open>\<open>seed.value.matchAll(/[\p{L}\p{N}]+/gu)\<close>: each match with its index.\<close>

function word_matches :: "nat \<Rightarrow> string \<Rightarrow> (nat \<times> string) list" where
  "word_matches i [] = []"
| "word_matches i (c # cs) =
     (if is_word_char c
      then (i, takeWhile is_word_char (c # cs)) #
           word_matches (i + length (takeWhile is_word_char (c # cs))) (dropWhile is_word_char (c # cs))
      else word_matches (Suc i) cs)"
  by pat_completeness auto
termination
  by (relation "measure (\<lambda>(i, s). length s)") (auto simp: less_Suc_eq_le length_dropWhile_le)

definition normalize_stage :: pipeline_stage where
  "normalize_stage = \<lparr>ps_name = ''normalize'',
     ps_execute = (\<lambda>tokens context. Inr (map (\<lambda>t. t\<lparr>tk_value := js_lower (tk_value t)\<rparr>) tokens))\<rparr>"

definition tokenize_stage :: pipeline_stage where
  "tokenize_stage = \<lparr>ps_name = ''tokenize'',
     ps_execute = (\<lambda>tokens context.
       case tokens of
         [seed] \<Rightarrow> Inr (map (\<lambda>(i, w). \<lparr>tk_value = w, tk_position = i, tk_field = pc_field context,
                                    tk_document = pc_document context, tk_metadata = None\<rparr>)
                         (word_matches 0 (tk_value seed)))
       | _ \<Rightarrow> Inl NotSingleSeed)\<rparr>"

definition create_stop_word_stage :: "string jset \<Rightarrow> pipeline_stage" where
  "create_stop_word_stage stop_words = \<lparr>ps_name = ''stopWords'',
     ps_execute = (\<lambda>tokens context.
       if length stop_words = 0 then Inr tokens
       else Inr (filter (\<lambda>t. tk_value t \<notin> set stop_words) tokens))\<rparr>"

definition create_stem_stage :: "stemmer \<Rightarrow> pipeline_stage" where
  "create_stem_stage stem = \<lparr>ps_name = ''stem'',
     ps_execute = (\<lambda>tokens context. Inr (map (\<lambda>t. t\<lparr>tk_value := stem (tk_value t)\<rparr>) tokens))\<rparr>"

subsection \<open>Stemmers\<close>

definition doubling_consonant :: "char \<Rightarrow> bool" where
  "doubling_consonant c = (c \<in> set ''bdfgmnprst'')"

definition drop_doubled :: "string \<Rightarrow> string" where
  "drop_doubled s =
     (if length s \<le> 4 \<and> 3 \<le> length s \<and> s ! (length s - 1) = s ! (length s - 2) \<and>
         doubling_consonant (s ! (length s - 1))
      then butlast s else s)"

definition english_stem :: stemmer where
  "english_stem s =
     (if 4 < length s \<and> ends_with s ''ing'' then drop_doubled (take (length s - 3) s)
      else if 3 < length s \<and> ends_with s ''ed'' then drop_doubled (take (length s - 2) s)
      else if 2 < length s \<and> ends_with s ''s'' then take (length s - 1) s
      else s)"

definition noop_stem :: stemmer where
  "noop_stem s = s"

subsection \<open>Edge n-grams\<close>

text \<open>\<open>normalizeGramRange\<close>: whole lengths, at least one, the upper bound not below the lower.\<close>

definition gram_length :: "jsnum \<Rightarrow> nat \<Rightarrow> nat" where
  "gram_length x otherwise = (case x of Fin a \<Rightarrow> nat (max 1 \<lfloor>a\<rfloor>) | _ \<Rightarrow> otherwise)"

definition normalize_gram_range :: "jsnum \<Rightarrow> jsnum \<Rightarrow> nat \<times> nat" where
  "normalize_gram_range minGram maxGram =
     (let normalizedMin = gram_length minGram 1;
          normalizedMaxBase = gram_length maxGram normalizedMin
      in (normalizedMin, max normalizedMin normalizedMaxBase))"

definition gram_metadata :: "jsrec option \<Rightarrow> bool \<Rightarrow> string \<Rightarrow> jsrec" where
  "gram_metadata m isPrefix original =
     jmap_set ''originalTerm'' (JStr original)
       (jmap_set ''isPrefix'' (JBool isPrefix) (case m of None \<Rightarrow> [] | Some r \<Rightarrow> r))"

definition grams_of :: "nat \<Rightarrow> nat \<Rightarrow> token \<Rightarrow> token list" where
  "grams_of lo hi t =
     (let term = tk_value t
      in if length term < lo then [t]
         else map (\<lambda>i. t\<lparr>tk_value := take i term,
                         tk_metadata := Some (gram_metadata (tk_metadata t) (i < length term) term)\<rparr>)
                [lo..<Suc (min (length term) hi)])"

definition generate_ngrams :: "token list \<Rightarrow> jsnum \<Rightarrow> jsnum \<Rightarrow> token list" where
  "generate_ngrams tokens minGram maxGram =
     (let (lo, hi) = normalize_gram_range minGram maxGram in concat (map (grams_of lo hi) tokens))"

definition create_edge_ngram_stage ::
    "jsnum \<Rightarrow> jsnum \<Rightarrow> (string, edge_field_config) jmap option \<Rightarrow> pipeline_stage" where
  "create_edge_ngram_stage minGram maxGram fieldConfig = \<lparr>ps_name = ''edgeNGram'',
     ps_execute = (\<lambda>tokens context.
       case fieldConfig of
         Some configs \<Rightarrow>
           (case jmap_get configs (pc_field context) of
              None \<Rightarrow> Inr tokens
            | Some config \<Rightarrow>
                if \<not> ef_enabled config then Inr tokens
                else Inr (generate_ngrams tokens (case ef_min config of None \<Rightarrow> minGram | Some n \<Rightarrow> n)
                                                 (case ef_max config of None \<Rightarrow> maxGram | Some n \<Rightarrow> n)))
       | None \<Rightarrow> Inr (generate_ngrams tokens minGram maxGram))\<rparr>"

section \<open>The engine\<close>

definition get_stop_words_for_language :: "string option \<Rightarrow> string jset" where
  "get_stop_words_for_language language =
     (let l = map_option js_lower language
      in if l \<in> {Some ''es'', Some ''spanish''} then STOP_WORDS_ES
         else if l \<in> {Some ''fr'', Some ''french''} then STOP_WORDS_FR
         else STOP_WORDS_EN)"

definition get_stemmer_for_language :: "string option \<Rightarrow> stemmer" where
  "get_stemmer_for_language language =
     (let l = map_option js_lower language
      in if l \<in> {Some ''en'', Some ''english''} then english_stem
         else if l \<in> {Some ''es'', Some ''spanish'', Some ''fr'', Some ''french''} then noop_stem
         else english_stem)"

definition build_default_stages :: "pipeline_options \<Rightarrow> pipeline_stage list" where
  "build_default_stages options =
     [tokenize_stage, normalize_stage,
      create_stop_word_stage (case po_stop_words options of
        Some ws \<Rightarrow> js_set_of ws | None \<Rightarrow> get_stop_words_for_language (po_language options))] @
     (if po_stemming options = Some True \<or> po_stemmer options \<noteq> None
      then [create_stem_stage (case po_stemmer options of
              Some s \<Rightarrow> s | None \<Rightarrow> get_stemmer_for_language (po_language options))]
      else []) @
     (if po_edge options = Some True \<or> po_edge_fields options \<noteq> None
      then let minLength = (case po_edge_min options of Some n \<Rightarrow> n | None \<Rightarrow> Fin 2);
               maxLength = js_max (case po_edge_max options of Some n \<Rightarrow> n | None \<Rightarrow> Fin 15) minLength
           in [create_edge_ngram_stage minLength maxLength (po_edge_fields options)]
      else [])"

definition pipeline_stages :: "pipeline_options \<Rightarrow> pipeline_stage list" where
  "pipeline_stages options =
     build_default_stages options @ (case po_custom options of Some ss \<Rightarrow> ss | None \<Rightarrow> [])"

fun run_stages :: "pipeline_stage list \<Rightarrow> token list \<Rightarrow> pipeline_context \<Rightarrow> pipeline_error + token list" where
  "run_stages [] tokens context = Inr tokens"
| "run_stages (s # ss) tokens context =
     bind_sum (ps_execute s tokens context)
       (\<lambda>tokens'. if tokens' = [] then Inr [] else run_stages ss tokens' context)"

definition pipeline_run ::
    "pipeline_options \<Rightarrow> string \<Rightarrow> string \<Rightarrow> docid option \<Rightarrow> pipeline_error + token list" where
  "pipeline_run options field content documentId =
     run_stages (pipeline_stages options)
       [\<lparr>tk_value = content, tk_position = 0, tk_field = field, tk_document = documentId, tk_metadata = None\<rparr>]
       \<lparr>pc_field = field, pc_document = documentId\<rparr>"

section \<open>Portability\<close>

datatype compatibility_issue = CustomStagesIssue | StemmerIssue

definition analyze_pipeline_compatibility :: "pipeline_options option \<Rightarrow> bool \<times> compatibility_issue list" where
  "analyze_pipeline_compatibility options =
     (let issues =
        (case options of None \<Rightarrow> []
         | Some opts \<Rightarrow>
             (case po_custom opts of Some (s # ss) \<Rightarrow> [CustomStagesIssue] | _ \<Rightarrow> []) @
             (case po_stemmer opts of Some _ \<Rightarrow> [StemmerIssue] | None \<Rightarrow> []))
      in (length issues = 0, issues))"

section \<open>Words of a text\<close>

definition is_run :: "string \<Rightarrow> nat \<Rightarrow> string \<Rightarrow> bool" where
  "is_run s p w \<longleftrightarrow> (\<exists>a b. s = a @ w @ b \<and> length a = p \<and> w \<noteq> [] \<and> list_all is_word_char w \<and>
     (a = [] \<or> \<not> is_word_char (last a)) \<and> (b = [] \<or> \<not> is_word_char (hd b)))"

lemma is_runI:
  "s = a @ w @ b \<Longrightarrow> length a = p \<Longrightarrow> w \<noteq> [] \<Longrightarrow> list_all is_word_char w \<Longrightarrow>
   a = [] \<or> \<not> is_word_char (last a) \<Longrightarrow> b = [] \<or> \<not> is_word_char (hd b) \<Longrightarrow> is_run s p w"
  unfolding is_run_def by blast

lemma is_run_Nil [simp]: "\<not> is_run [] p w"
  by (simp add: is_run_def)

lemma is_run_nonword:
  assumes "\<not> is_word_char c"
  shows "is_run (c # cs) p w \<longleftrightarrow> (\<exists>q. p = Suc q \<and> is_run cs q w)"
proof
  assume "is_run (c # cs) p w"
  then obtain a b where ab: "c # cs = a @ w @ b" "length a = p" "w \<noteq> []" "list_all is_word_char w"
      "a = [] \<or> \<not> is_word_char (last a)" "b = [] \<or> \<not> is_word_char (hd b)"
    unfolding is_run_def by blast
  have "a \<noteq> []"
  proof
    assume "a = []"
    with ab have "c = hd w" "is_word_char (hd w)" by (cases w; auto)+
    with assms show False by simp
  qed
  then obtain a' where "a = c # a'" using ab(1) by (cases a) auto
  with ab have "is_run cs (length a') w"
    by (intro is_runI [of cs a' w b]) (auto split: if_splits)
  with ab \<open>a = c # a'\<close> show "\<exists>q. p = Suc q \<and> is_run cs q w" by auto
next
  assume "\<exists>q. p = Suc q \<and> is_run cs q w"
  then obtain q a b where ab: "p = Suc q" "cs = a @ w @ b" "length a = q" "w \<noteq> []" "list_all is_word_char w"
      "a = [] \<or> \<not> is_word_char (last a)" "b = [] \<or> \<not> is_word_char (hd b)"
    unfolding is_run_def by blast
  then show "is_run (c # cs) p w"
    unfolding is_run_def using assms by (intro exI [of _ "c # a"] exI [of _ b]) auto
qed

lemma word_prefix_unique:
  assumes "u @ x = v @ y" and "list_all is_word_char u" and "list_all is_word_char v"
    and "x = [] \<or> \<not> is_word_char (hd x)" and "y = [] \<or> \<not> is_word_char (hd y)"
  shows "u = v"
proof -
  have "takeWhile is_word_char (u @ x) = u" using assms(2,4)
    by (cases x) (simp_all add: takeWhile_append list_all_iff)
  moreover have "takeWhile is_word_char (v @ y) = v" using assms(3,5)
    by (cases y) (simp_all add: takeWhile_append list_all_iff)
  ultimately show ?thesis using assms(1) by simp
qed

lemma is_run_word:
  assumes u: "u \<noteq> []" "list_all is_word_char u" and x: "x = [] \<or> \<not> is_word_char (hd x)"
  shows "is_run (u @ x) p w \<longleftrightarrow> (p = 0 \<and> w = u) \<or> (\<exists>q. p = length u + q \<and> is_run x q w)"
proof
  assume "is_run (u @ x) p w"
  then obtain a b where ab: "u @ x = a @ w @ b" "length a = p" "w \<noteq> []" "list_all is_word_char w"
      "a = [] \<or> \<not> is_word_char (last a)" "b = [] \<or> \<not> is_word_char (hd b)"
    unfolding is_run_def by blast
  show "(p = 0 \<and> w = u) \<or> (\<exists>q. p = length u + q \<and> is_run x q w)"
  proof (cases "a = []")
    case True
    then show ?thesis using word_prefix_unique [of u x w b] ab u x by auto
  next
    case False
    have "\<not> length a \<le> length u"
    proof
      assume "length a \<le> length u"
      then have "prefix a u" using ab(1) by (metis prefixI prefix_length_prefix)
      then have "last a \<in> set u" using False by (metis last_in_set set_mono_prefix subsetD)
      with u(2) ab(5) False show False by (auto simp: list_all_iff)
    qed
    then obtain a' where a': "a = u @ a'" "a' \<noteq> []"
      using ab(1) by (auto simp: append_eq_append_conv2)
    with ab have "is_run x (length a') w"
      unfolding is_run_def by (intro exI [of _ a'] exI [of _ b]) auto
    with a' ab(2) show ?thesis by auto
  qed
next
  assume "(p = 0 \<and> w = u) \<or> (\<exists>q. p = length u + q \<and> is_run x q w)"
  then show "is_run (u @ x) p w"
  proof
    assume "p = 0 \<and> w = u"
    with u x show ?thesis unfolding is_run_def by (intro exI [of _ "[]"] exI [of _ x]) auto
  next
    assume "\<exists>q. p = length u + q \<and> is_run x q w"
    then obtain q a b where ab: "p = length u + q" "x = a @ w @ b" "length a = q" "w \<noteq> []" "list_all is_word_char w"
        "a = [] \<or> \<not> is_word_char (last a)" "b = [] \<or> \<not> is_word_char (hd b)"
      unfolding is_run_def by blast
    have "a \<noteq> []"
    proof
      assume "a = []"
      with ab x have "\<not> is_word_char (hd w)" by auto
      with ab(4,5) show False by (cases w) auto
    qed
    with ab show ?thesis unfolding is_run_def by (intro exI [of _ "u @ a"] exI [of _ b]) auto
  qed
qed

lemma word_matches_runs: "(i, w) \<in> set (word_matches k s) \<longleftrightarrow> (\<exists>p. i = k + p \<and> is_run s p w)"
proof (induction k s rule: word_matches.induct)
  case (1 k)
  then show ?case by simp
next
  case (2 k c cs)
  show ?case
  proof (cases "is_word_char c")
    case True
    let ?u = "takeWhile is_word_char (c # cs)"
    let ?x = "dropWhile is_word_char (c # cs)"
    have u: "?u \<noteq> []" "list_all is_word_char ?u" using True by (auto simp: list_all_iff dest: set_takeWhileD)
    have x: "?x = [] \<or> \<not> is_word_char (hd ?x)" using hd_dropWhile by blast
    have "is_run (c # cs) p w \<longleftrightarrow> (p = 0 \<and> w = ?u) \<or> (\<exists>q. p = length ?u + q \<and> is_run ?x q w)" for p
      using is_run_word [OF u x, of p w] unfolding takeWhile_dropWhile_id .
    then show ?thesis using 2(1) [OF True] True by (auto simp: add.assoc)
  next
    case False
    then show ?thesis using 2(2) is_run_nonword [OF False, of cs _ w] by auto
  qed
qed

definition before :: "nat \<times> string \<Rightarrow> nat \<times> string \<Rightarrow> bool" where
  "before a b = (fst a + length (snd a) < fst b)"

lemma before_eq: "before = (\<lambda>a b. fst a + length (snd a) < fst b)"
  by (intro ext) (simp add: before_def)

lemma word_matches_sorted: "sorted_wrt before (word_matches k s)"
proof (induction k s rule: word_matches.induct)
  case (2 k c cs)
  show ?case
  proof (cases "is_word_char c")
    case False
    with 2(2) [OF False] show ?thesis by simp
  next
    case True
    define u where "u = takeWhile is_word_char (c # cs)"
    define x where "x = dropWhile is_word_char (c # cs)"
    have "before (k, u) jw" if m: "jw \<in> set (word_matches (k + length u) x)" for jw
    proof -
      obtain j w where jw: "jw = (j, w)" by (cases jw)
      obtain p where p: "j = k + length u + p" "is_run x p w" using m jw word_matches_runs by blast
      have "p \<noteq> 0"
      proof
        assume "p = 0"
        with p(2) have "x \<noteq> []" "is_word_char (hd x)" by (auto simp: is_run_def hd_append list_all_iff)
        then show False unfolding x_def using hd_dropWhile by blast
      qed
      with p(1) jw show ?thesis by (simp add: before_def)
    qed
    moreover have "word_matches k (c # cs) = (k, u) # word_matches (k + length u) x"
      unfolding u_def x_def word_matches.simps(2) if_P [OF True] by (rule refl)
    moreover have "sorted_wrt before (word_matches (k + length u) x)"
      using 2(1) [OF True] unfolding u_def x_def .
    ultimately show ?thesis by simp
  qed
qed simp

section \<open>Runs of the pipeline\<close>

lemma stage_execs [simp]:
  "ps_execute normalize_stage ts ctx = Inr (map (\<lambda>t. t\<lparr>tk_value := js_lower (tk_value t)\<rparr>) ts)"
  "ps_execute (create_stem_stage stem) ts ctx = Inr (map (\<lambda>t. t\<lparr>tk_value := stem (tk_value t)\<rparr>) ts)"
  "ps_execute (create_stop_word_stage ws) ts ctx = Inr (filter (\<lambda>t. tk_value t \<notin> set ws) ts)"
  by (auto simp: normalize_stage_def create_stem_stage_def create_stop_word_stage_def)

text \<open>A stage that maps token lists without failing, and to the empty list the empty list.\<close>

definition total_stage :: "(token list \<Rightarrow> token list) \<Rightarrow> pipeline_context \<Rightarrow> pipeline_stage \<Rightarrow> bool" where
  "total_stage f ctx s = ((\<forall>ts. ps_execute s ts ctx = Inr (f ts)) \<and> f [] = [])"

lemma run_stages_total:
  "list_all2 (\<lambda>f s. total_stage f ctx s) fs ss \<Longrightarrow> run_stages ss ts ctx = Inr (foldl (\<lambda>ts f. f ts) ts fs)"
proof (induction fs ss arbitrary: ts rule: list_all2_induct)
  case (Cons f fs s ss)
  have nil: "foldl (\<lambda>ts f. f ts) [] fs = []"
    using Cons.hyps(2) by (induction fs ss rule: list_all2_induct) (auto simp: total_stage_def)
  show ?case using Cons nil by (auto simp: total_stage_def)
qed simp

definition seed_token :: "string \<Rightarrow> string \<Rightarrow> docid option \<Rightarrow> token" where
  "seed_token field content d = \<lparr>tk_value = content, tk_position = 0, tk_field = field, tk_document = d, tk_metadata = None\<rparr>"

definition word_token :: "string \<Rightarrow> docid option \<Rightarrow> nat \<times> string \<Rightarrow> token" where
  "word_token field d m = \<lparr>tk_value = snd m, tk_position = fst m, tk_field = field, tk_document = d, tk_metadata = None\<rparr>"

definition the_stop_words :: "pipeline_options \<Rightarrow> string jset" where
  "the_stop_words options = (case po_stop_words options of
     Some ws \<Rightarrow> js_set_of ws | None \<Rightarrow> get_stop_words_for_language (po_language options))"

definition the_stemmer :: "pipeline_options \<Rightarrow> stemmer" where
  "the_stemmer options = (if po_stemming options = Some True \<or> po_stemmer options \<noteq> None
     then (case po_stemmer options of Some s \<Rightarrow> s | None \<Rightarrow> get_stemmer_for_language (po_language options))
     else id)"

definition the_grams :: "pipeline_options \<Rightarrow> string \<Rightarrow> token list \<Rightarrow> token list" where
  "the_grams options field ts =
     (if po_edge options = Some True \<or> po_edge_fields options \<noteq> None then
        (let lo = (case po_edge_min options of Some n \<Rightarrow> n | None \<Rightarrow> Fin 2);
             hi = js_max (case po_edge_max options of Some n \<Rightarrow> n | None \<Rightarrow> Fin 15) lo
         in case po_edge_fields options of
              None \<Rightarrow> generate_ngrams ts lo hi
            | Some configs \<Rightarrow>
                (case jmap_get configs field of
                   None \<Rightarrow> ts
                 | Some c \<Rightarrow> if \<not> ef_enabled c then ts
                     else generate_ngrams ts (case ef_min c of None \<Rightarrow> lo | Some n \<Rightarrow> n)
                                             (case ef_max c of None \<Rightarrow> hi | Some n \<Rightarrow> n)))
      else ts)"

lemma generate_ngrams_Nil [simp]: "generate_ngrams [] lo hi = []"
  by (simp add: generate_ngrams_def case_prod_unfold)

lemma the_grams_Nil [simp]: "the_grams options field [] = []"
  by (auto simp: the_grams_def Let_def split: option.splits)

text \<open>
  What a pipeline without custom stages computes: the words of the text, in lower case,
  without the stop words, stemmed, and expanded to their edge n-grams.
\<close>

definition analyzed :: "pipeline_options \<Rightarrow> string \<Rightarrow> string \<Rightarrow> docid option \<Rightarrow> token list" where
  "analyzed options field content d =
     the_grams options field
       (map (\<lambda>t. t\<lparr>tk_value := the_stemmer options (tk_value t)\<rparr>)
         (filter (\<lambda>t. tk_value t \<notin> set (the_stop_words options))
           (map (\<lambda>m. word_token field d (fst m, js_lower (snd m))) (word_matches 0 content))))"

lemma default_stages_run:
  "run_stages (build_default_stages options) [seed_token field content d] \<lparr>pc_field = field, pc_document = d\<rparr> =
   Inr (analyzed options field content d)"
proof -
  let ?ctx = "\<lparr>pc_field = field, pc_document = d\<rparr>"
  let ?words = "map (word_token field d) (word_matches 0 content)"
  define rest where "rest = tl (build_default_stages options)"
  define stem :: "(token list \<Rightarrow> token list) list" where "stem = (if po_stemming options = Some True \<or> po_stemmer options \<noteq> None
    then [map (\<lambda>t. t\<lparr>tk_value := the_stemmer options (tk_value t)\<rparr>)] else [])"
  define gram :: "(token list \<Rightarrow> token list) list" where "gram = (if po_edge options = Some True \<or> po_edge_fields options \<noteq> None
    then [the_grams options field] else [])"
  define fs where "fs = [map (\<lambda>t. t\<lparr>tk_value := js_lower (tk_value t)\<rparr>),
      filter (\<lambda>t. tk_value t \<notin> set (the_stop_words options))] @ stem @ gram"
  have stages: "build_default_stages options = tokenize_stage # rest"
    by (simp add: rest_def build_default_stages_def)
  have tok: "ps_execute tokenize_stage [seed_token field content d] ?ctx = Inr ?words"
    by (simp add: tokenize_stage_def seed_token_def word_token_def case_prod_unfold)
  have "list_all2 (\<lambda>f s. total_stage f ?ctx s) fs rest"
    by (auto simp: fs_def rest_def build_default_stages_def stem_def gram_def total_stage_def the_stop_words_def
        the_stemmer_def the_grams_def create_edge_ngram_stage_def Let_def split: option.splits)
  note total = run_stages_total [OF this, of ?words]
  have nil: "foldl (\<lambda>ts f. f ts) [] fs = []" by (auto simp: fs_def stem_def gram_def)
  have lower: "map (\<lambda>t. t\<lparr>tk_value := js_lower (tk_value t)\<rparr>) ?words =
      map (\<lambda>m. word_token field d (fst m, js_lower (snd m))) (word_matches 0 content)"
    by (simp add: word_token_def)
  have id: "map (\<lambda>t. t\<lparr>tk_value := tk_value t\<rparr>) ts = ts" for ts :: "token list"
    by (induction ts) auto
  have stems: "foldl (\<lambda>ts f. f ts) ts stem = map (\<lambda>t. t\<lparr>tk_value := the_stemmer options (tk_value t)\<rparr>) ts" for ts
    by (auto simp: stem_def the_stemmer_def id)
  have grams: "foldl (\<lambda>ts f. f ts) ts gram = the_grams options field ts" for ts
    by (auto simp: gram_def the_grams_def)
  have "foldl (\<lambda>ts f. f ts) ?words fs = analyzed options field content d"
    unfolding analyzed_def fs_def foldl_append foldl_Cons foldl_Nil lower stems grams ..
  with total tok nil show ?thesis unfolding stages run_stages.simps by auto
qed

lemma pipeline_run_analyzed:
  "po_custom options \<in> {None, Some []} \<Longrightarrow> pipeline_run options field content d = Inr (analyzed options field content d)"
  using default_stages_run [of options field content d]
  by (auto simp: pipeline_run_def pipeline_stages_def seed_token_def)

section \<open>The interface to the indexer\<close>

text \<open>
  What the indexer relies on when it is given a pipeline: it never throws, its tokens belong
  to the field and document it was run for, and the document is only copied into the tokens.
\<close>

locale token_pipeline =
  fixes run :: "string \<Rightarrow> string \<Rightarrow> docid option \<Rightarrow> pipeline_error + token list"
  assumes run_total: "\<exists>ts. run f x d = Inr ts"
    and run_owner: "run f x d = Inr ts \<Longrightarrow> t \<in> set ts \<Longrightarrow> tk_field t = f \<and> tk_document t = d"
    and run_document: "run f x d = Inr ts \<Longrightarrow> run f x d' = Inr (map (\<lambda>t. t\<lparr>tk_document := d'\<rparr>) ts)"

lemma generate_ngrams_owner:
  "t \<in> set (generate_ngrams ts lo hi) \<Longrightarrow> \<exists>t' \<in> set ts. tk_field t = tk_field t' \<and> tk_document t = tk_document t'"
  by (auto simp: generate_ngrams_def grams_of_def Let_def case_prod_unfold split: if_splits)

lemma the_grams_owner:
  "t \<in> set (the_grams options field ts) \<Longrightarrow> \<exists>t' \<in> set ts. tk_field t = tk_field t' \<and> tk_document t = tk_document t'"
  by (auto simp: the_grams_def Let_def split: if_splits option.splits dest: generate_ngrams_owner)

lemma analyzed_owner:
  "t \<in> set (analyzed options field content d) \<Longrightarrow> tk_field t = field \<and> tk_document t = d"
  unfolding analyzed_def by (drule the_grams_owner) (auto simp: word_token_def)

lemma generate_ngrams_document:
  "generate_ngrams (map (\<lambda>t. t\<lparr>tk_document := d\<rparr>) ts) lo hi = map (\<lambda>t. t\<lparr>tk_document := d\<rparr>) (generate_ngrams ts lo hi)"
  by (induction ts) (auto simp: generate_ngrams_def grams_of_def Let_def case_prod_unfold)

lemma the_grams_document:
  "the_grams options field (map (\<lambda>t. t\<lparr>tk_document := d\<rparr>) ts) = map (\<lambda>t. t\<lparr>tk_document := d\<rparr>) (the_grams options field ts)"
  by (simp add: the_grams_def Let_def generate_ngrams_document split: option.split)

lemma analyzed_document:
  "analyzed options field content d' = map (\<lambda>t. t\<lparr>tk_document := d'\<rparr>) (analyzed options field content d)"
  by (simp add: analyzed_def word_token_def filter_map comp_def flip: the_grams_document)

definition builtin_stages :: "pipeline_options \<Rightarrow> pipeline_options" where
  "builtin_stages options = options\<lparr>po_custom := None\<rparr>"

lemma builtin_run: "pipeline_run (builtin_stages options) field content d = Inr (analyzed (builtin_stages options) field content d)"
  by (rule pipeline_run_analyzed) (simp add: builtin_stages_def)

interpretation builtin: token_pipeline "pipeline_run (builtin_stages options)" for options
proof unfold_locales
  fix f x d d' ts t
  show "\<exists>ts. pipeline_run (builtin_stages options) f x d = Inr ts" by (simp add: builtin_run)
  assume run: "pipeline_run (builtin_stages options) f x d = Inr ts"
  then show "pipeline_run (builtin_stages options) f x d' = Inr (map (\<lambda>t. t\<lparr>tk_document := d'\<rparr>) ts)"
    by (simp add: builtin_run analyzed_document [of _ f x d' d])
  assume "t \<in> set ts"
  with run show "tk_field t = f \<and> tk_document t = d" by (auto simp: builtin_run dest: analyzed_owner)
qed

section \<open>Properties\<close>

text \<open>
  The tokenizer returns exactly the maximal runs of letters and digits of the text, each
  at the position where it starts, from left to right and never overlapping.
\<close>

theorem tokenize_maximal_runs:
  "\<exists>ts. ps_execute tokenize_stage [seed] ctx = Inr ts \<and>
     (\<lambda>t. (tk_position t, tk_value t)) ` set ts = {(p, w). is_run (tk_value seed) p w} \<and>
     sorted_wrt (\<lambda>a b. tk_position a + length (tk_value a) < tk_position b) ts"
proof -
  let ?mk = "\<lambda>(i, w). \<lparr>tk_value = w, tk_position = i, tk_field = pc_field ctx,
                      tk_document = pc_document ctx, tk_metadata = None\<rparr>"
  let ?ts = "map ?mk (word_matches 0 (tk_value seed))"
  have "(\<lambda>t. (tk_position t, tk_value t)) ` set ?ts = set (word_matches 0 (tk_value seed))"
    by (force simp: image_image)
  also have "\<dots> = {(p, w). is_run (tk_value seed) p w}"
    using word_matches_runs [of _ _ 0 "tk_value seed"] by auto
  finally show ?thesis
    using word_matches_sorted [of 0 "tk_value seed"]
    by (intro exI [of _ ?ts]) (simp add: tokenize_stage_def sorted_wrt_map before_eq case_prod_unfold)
qed

text \<open>
  Options the portability check accepts make a pipeline that never throws; it returns the
  words of the text in lower case, without stop words, stemmed and expanded to edge n-grams.
\<close>

theorem portable_pipeline_total:
  assumes "analyze_pipeline_compatibility (Some options) = (True, [])"
  shows "pipeline_run options field content d = Inr (analyzed options field content d)"
  using assms
  by (intro pipeline_run_analyzed)
    (auto simp: analyze_pipeline_compatibility_def Let_def split: option.splits list.splits)

theorem portable_pipeline_total_witness:
  "pipeline_run default_options ''t'' ''Cat the 7'' None =
   Inr [word_token ''t'' None (0, ''cat''), word_token ''t'' None (8, ''7'')]"
proof -
  have "analyze_pipeline_compatibility (Some default_options) = (True, [])" by code_simp
  note run = portable_pipeline_total [OF this, of "''t''" "''Cat the 7''" None]
  have "analyzed default_options ''t'' ''Cat the 7'' None =
    [word_token ''t'' None (0, ''cat''), word_token ''t'' None (8, ''7'')]" by code_simp
  with run show ?thesis by simp
qed

lemma word_matches_all:
  assumes "list_all is_word_char w" and "w \<noteq> []"
  shows "word_matches 0 w = [(0, w)]"
proof -
  obtain c cs where w: "w = c # cs" using assms(2) by (cases w) auto
  with assms(1) show ?thesis
    by (simp add: list_all_iff takeWhile_eq_all_conv [THEN iffD2] dropWhile_eq_Nil_conv [THEN iffD2])
qed

text \<open>
  Without stemming and n-grams analysis is stable: analysing an indexed term as a query
  gives back that one term, so every term of the index can be found by its own text.
\<close>

theorem analysis_stable:
  assumes "po_custom options = None" and "po_stemming options = None" and "po_stemmer options = None"
    and "po_edge options = None" and "po_edge_fields options = None"
    and "pipeline_run options field content d = Inr ts" and "t \<in> set ts"
  shows "pipeline_run options field' (tk_value t) d' = Inr [word_token field' d' (0, tk_value t)]"
proof -
  have an: "analyzed options f x e = filter (\<lambda>t. tk_value t \<notin> set (the_stop_words options))
      (map (\<lambda>m. word_token f e (fst m, js_lower (snd m))) (word_matches 0 x))" for f x e
  proof -
    have "map (\<lambda>t. t\<lparr>tk_value := tk_value t\<rparr>) ts = ts" for ts :: "token list"
      by (induction ts) auto
    then show ?thesis using assms(2-5) by (simp add: analyzed_def the_stemmer_def the_grams_def)
  qed
  have run: "pipeline_run options f x e = Inr (analyzed options f x e)" for f x e
    using assms(1) by (simp add: pipeline_run_analyzed)
  obtain p w where pw: "(p, w) \<in> set (word_matches 0 content)" "tk_value t = js_lower w"
      "js_lower w \<notin> set (the_stop_words options)"
    using assms(6,7) by (auto simp: run an word_token_def)
  then have "is_run content p w" using word_matches_runs [of p w 0 content] by auto
  then have "list_all is_word_char (js_lower w)" "js_lower w \<noteq> []"
    by (auto simp: is_run_def js_lower_def list_all_iff)
  then show ?thesis using pw by (simp add: run an word_matches_all word_token_def)
qed

theorem analysis_stable_witness:
  "pipeline_run default_options ''b'' ''cat'' None = Inr [word_token ''b'' None (0, ''cat'')]"
proof -
  have "pipeline_run default_options ''t'' ''Cat'' None = Inr [word_token ''t'' None (0, ''cat'')]"
    by (subst pipeline_run_analyzed) (simp add: default_options_def, code_simp)
  then show ?thesis
    using analysis_stable [of default_options "''t''" "''Cat''" None "[word_token ''t'' None (0, ''cat'')]"
        "word_token ''t'' None (0, ''cat'')" "''b''" None]
    by (simp add: default_options_def word_token_def)
qed

lemma gram_metadata_flag: "meta_is_prefix (Some (gram_metadata m b w)) = b"
  by (simp add: meta_is_prefix_def js_get_def gram_metadata_def jmap_simps)

lemma normalize_gram_range_bounds:
  "normalize_gram_range a b = (lo, hi) \<Longrightarrow> 1 \<le> lo \<and> lo \<le> hi"
proof -
  assume r: "normalize_gram_range a b = (lo, hi)"
  have "1 \<le> gram_length a 1" by (cases a) (simp_all add: gram_length_def le_nat_iff)
  with r show "1 \<le> lo \<and> lo \<le> hi" by (auto simp: normalize_gram_range_def Let_def)
qed

text \<open>
  The edge n-gram stage turns a term into exactly its prefixes of the allowed lengths,
  each once, and flags exactly the proper prefixes; a term below the minimum is kept as it is,
  and the term itself stays unflagged in the index only if it is not longer than the maximum.
\<close>

theorem edge_ngrams_exact:
  assumes "normalize_gram_range minGram maxGram = (lo, hi)"
  shows "1 \<le> lo \<and> lo \<le> hi \<and> distinct (map tk_value (generate_ngrams [t] minGram maxGram)) \<and>
    (if length (tk_value t) < lo then generate_ngrams [t] minGram maxGram = [t]
     else (\<lambda>u. (tk_value u, meta_is_prefix (tk_metadata u))) ` set (generate_ngrams [t] minGram maxGram) =
          {(v, proper) | v proper. prefix v (tk_value t) \<and> lo \<le> length v \<and> length v \<le> hi \<and>
             (proper \<longleftrightarrow> v \<noteq> tk_value t)})"
proof -
  define w where "w = tk_value t"
  have gen: "generate_ngrams [t] minGram maxGram = grams_of lo hi t"
    using assms by (simp add: generate_ngrams_def)
  show ?thesis
  proof (cases "length w < lo")
    case True
    with normalize_gram_range_bounds [OF assms] show ?thesis
      by (simp add: gen grams_of_def w_def)
  next
    case False
    let ?is = "[lo..<Suc (min (length w) hi)]"
    have grams: "map tk_value (grams_of lo hi t) = map (\<lambda>i. take i w) ?is"
      "(\<lambda>u. (tk_value u, meta_is_prefix (tk_metadata u))) ` set (grams_of lo hi t) =
        (\<lambda>i. (take i w, i < length w)) ` set ?is"
      using False by (simp_all add: grams_of_def Let_def w_def image_image gram_metadata_flag comp_def del: upt_Suc)
    have "inj_on (\<lambda>i. take i w) (set ?is)"
      by (rule inj_on_inverseI [of _ length]) auto
    then have "distinct (map tk_value (grams_of lo hi t))"
      unfolding grams by (simp add: distinct_map del: upt_Suc)
    moreover have "(\<lambda>i. (take i w, i < length w)) ` set ?is =
        {(v, proper) | v proper. prefix v w \<and> lo \<le> length v \<and> length v \<le> hi \<and> (proper \<longleftrightarrow> v \<noteq> w)}" (is "?L = ?R")
    proof (intro equalityI subsetI)
      fix vp assume "vp \<in> ?L"
      then obtain i where i: "vp = (take i w, i < length w)" "lo \<le> i" "i \<le> length w" "i \<le> hi" by auto
      moreover have "take i w = w \<longleftrightarrow> \<not> i < length w" using i(3) by (metis length_take min.absorb2 not_less take_all)
      ultimately show "vp \<in> ?R" by (auto simp: take_is_prefix)
    next
      fix vp assume "vp \<in> ?R"
      then obtain v where v: "vp = (v, v \<noteq> w)" "prefix v w" "lo \<le> length v" "length v \<le> hi" by auto
      then have "v = take (length v) w" "length v \<le> length w" by (auto simp: prefix_def)
      moreover have "v \<noteq> w \<longleftrightarrow> length v < length w" using v(2) by (auto simp: prefix_def)
      ultimately show "vp \<in> ?L" using v by (intro image_eqI [of _ _ "length v"]) auto
    qed
    ultimately show ?thesis
      using False normalize_gram_range_bounds [OF assms] by (simp add: gen grams w_def del: upt_Suc)
  qed
qed

theorem edge_ngrams_exact_witness:
  "(\<lambda>u. (tk_value u, meta_is_prefix (tk_metadata u))) `
     set (generate_ngrams [word_token ''t'' None (0, ''cat'')] (Fin 2) (Fin 15)) =
   {(v, proper) | v proper. prefix v ''cat'' \<and> 2 \<le> length v \<and> length v \<le> 15 \<and> (proper \<longleftrightarrow> v \<noteq> ''cat'')}"
  using edge_ngrams_exact [of "Fin 2" "Fin 15" 2 15 "word_token ''t'' None (0, ''cat'')"]
  by (simp add: normalize_gram_range_def gram_length_def word_token_def)

lemma drop_doubled_prefix: "prefix (drop_doubled s) s \<and> length s \<le> Suc (length (drop_doubled s)) \<and>
    (2 \<le> length s \<longrightarrow> 2 \<le> length (drop_doubled s))"
  by (auto simp: drop_doubled_def prefixeq_butlast)

lemma english_stem_cut:
  "prefix (english_stem s) s \<and> length s \<le> length (english_stem s) + 4 \<and>
   min 2 (length s) \<le> length (english_stem s)"
proof -
  have drop: "prefix (drop_doubled (take (length s - k) s)) s \<and> length s \<le> length (drop_doubled (take (length s - k) s)) + 4 \<and>
      min 2 (length s) \<le> length (drop_doubled (take (length s - k) s))" if "k \<le> 3" "2 \<le> length s - k" for k
  proof -
    note d = drop_doubled_prefix [of "take (length s - k) s"]
    have "prefix (drop_doubled (take (length s - k) s)) s"
      using d take_is_prefix [of "length s - k" s] by (meson prefix_order.trans)
    moreover have "length (take (length s - k) s) = length s - k" by simp
    ultimately show ?thesis using d that by auto
  qed
  show ?thesis
  proof (cases "4 < length s \<and> ends_with s ''ing''")
    case True
    then have "english_stem s = drop_doubled (take (length s - 3) s)" by (simp add: english_stem_def)
    moreover have "2 \<le> length s - 3" using True by linarith
    ultimately show ?thesis using drop [of 3] by simp
  next
    case ing: False
    show ?thesis
    proof (cases "3 < length s \<and> ends_with s ''ed''")
      case True
      have "english_stem s = drop_doubled (take (length s - 2) s)"
        unfolding english_stem_def if_not_P [OF ing] if_P [OF True] ..
      moreover have "2 \<le> length s - 2" using True by linarith
      ultimately show ?thesis using drop [of 2] by simp
    next
      case False
      have "english_stem s = (if 2 < length s \<and> ends_with s ''s'' then take (length s - 1) s else s)"
        unfolding english_stem_def if_not_P [OF ing] if_not_P [OF False] ..
      then show ?thesis by (auto simp: take_is_prefix)
    qed
  qed
qed

lemma english_stem_prefix: "prefix (english_stem s) s"
  using english_stem_cut by blast

text \<open>
  The English stemmer only cuts a suffix of at most four characters, and never the whole
  token: a token of two or more characters keeps at least two.
\<close>

theorem english_stem_cuts_suffix:
  "prefix (english_stem s) s \<and> length s \<le> length (english_stem s) + 4 \<and>
   min 2 (length s) \<le> length (english_stem s)"
  by (rule english_stem_cut)

end
