(* ===== verification/Indexing.thy ===== *)
theory Indexing
  imports Pipeline
begin

text \<open>
  Indexing: the corpus statistics (\<open>searchfn/core/src/query/document-stats.ts\<close>), the
  per-document accumulator (\<open>indexing/document-accumulator.ts\<close>) and the indexer
  (\<open>indexing/indexer.ts\<close>), which runs over the pipeline it is given.
\<close>

section \<open>Corpus statistics\<close>

record document_stats =
  ds_lengths :: "(docid, jsnum) jmap"
  ds_total :: jsnum
  ds_count :: nat

definition stats_new :: document_stats where
  "stats_new = \<lparr>ds_lengths = [], ds_total = Fin 0, ds_count = 0\<rparr>"

definition add_document :: "docid \<Rightarrow> jsnum \<Rightarrow> document_stats \<Rightarrow> document_stats" where
  "add_document d n s =
     (let s1 = (case jmap_get (ds_lengths s) d of
                  Some existing \<Rightarrow> s\<lparr>ds_total := ds_total s - existing\<rparr>
                | None \<Rightarrow> s\<lparr>ds_count := ds_count s + 1\<rparr>)
      in s1\<lparr>ds_lengths := jmap_set d n (ds_lengths s1), ds_total := ds_total s1 + n\<rparr>)"

definition remove_document :: "docid \<Rightarrow> document_stats \<Rightarrow> document_stats" where
  "remove_document d s =
     (case jmap_get (ds_lengths s) d of
        None \<Rightarrow> s
      | Some existing \<Rightarrow> s\<lparr>ds_lengths := jmap_del d (ds_lengths s), ds_total := ds_total s - existing,
                           ds_count := ds_count s - 1\<rparr>)"

definition get_length :: "document_stats \<Rightarrow> docid \<Rightarrow> jsnum option" where
  "get_length s d = jmap_get (ds_lengths s) d"

definition get_average_length :: "document_stats \<Rightarrow> jsnum" where
  "get_average_length s =
     (if ds_count s = 0 then Fin 1 else ds_total s / Fin (of_nat (ds_count s)))"

definition stats_snapshot :: "document_stats \<Rightarrow> (docid \<times> jsnum) list" where
  "stats_snapshot s = ds_lengths s"

definition stats_load :: "(docid \<times> jsnum) list \<Rightarrow> document_stats \<Rightarrow> document_stats" where
  "stats_load entries s =
     foldl (\<lambda>s (d, n). add_document d n s) (s\<lparr>ds_lengths := [], ds_total := Fin 0, ds_count := 0\<rparr>) entries"

section \<open>The accumulator\<close>

record field_statistics =
  fs_frequencies :: "(string, nat) jmap"
  fs_metadata :: "(string, jsrec) jmap"
  fs_length :: nat

type_synonym accumulator = "(string, field_statistics) jmap"

definition empty_field :: field_statistics where
  "empty_field = \<lparr>fs_frequencies = [], fs_metadata = [], fs_length = 0\<rparr>"

definition ensure_field :: "string \<Rightarrow> accumulator \<Rightarrow> field_statistics \<times> accumulator" where
  "ensure_field field acc =
     (case jmap_get acc field of
        Some entry \<Rightarrow> (entry, acc)
      | None \<Rightarrow> (empty_field, jmap_set field empty_field acc))"

definition add_token :: "accumulator \<Rightarrow> token \<Rightarrow> accumulator" where
  "add_token acc t =
     (if tk_value t = [] then acc
      else
        let (entry, acc1) = ensure_field (tk_field t) acc;
            current = (case jmap_get (fs_frequencies entry) (tk_value t) of None \<Rightarrow> 0 | Some n \<Rightarrow> n);
            existing = jmap_get (fs_metadata entry) (tk_value t);
            incomingIsPrefix = meta_is_prefix (tk_metadata t);
            existingIsPrefix = meta_is_prefix existing;
            metadata = (case tk_metadata t of
                None \<Rightarrow> fs_metadata entry
              | Some m \<Rightarrow> if existing = None \<or> (existingIsPrefix \<and> \<not> incomingIsPrefix)
                          then jmap_set (tk_value t) m (fs_metadata entry) else fs_metadata entry)
        in jmap_set (tk_field t)
             \<lparr>fs_frequencies = jmap_set (tk_value t) (current + 1) (fs_frequencies entry),
              fs_metadata = metadata,
              fs_length = fs_length entry + 1\<rparr> acc1)"

section \<open>The indexer\<close>

record indexing_record =
  ir_doc :: docid
  ir_fields :: "(string, string) jmap"

record ingested_document =
  id_doc :: docid
  id_frequencies :: "(string, (string, nat) jmap) jmap"
  id_metadata :: "(string, (string, jsrec) jmap) jmap"
  id_lengths :: "(string, nat) jmap"
  id_total :: nat

type_synonym pipeline = "string \<Rightarrow> string \<Rightarrow> docid option \<Rightarrow> pipeline_error + token list"

definition convert_accumulator :: "docid \<Rightarrow> accumulator \<Rightarrow> ingested_document" where
  "convert_accumulator d acc =
     \<lparr>id_doc = d,
      id_frequencies = map (\<lambda>(field, st). (field,
        map (\<lambda>(term, freq). (term, if 0 < freq then freq else 1)) (fs_frequencies st))) acc,
      id_metadata = map (\<lambda>(field, st). (field, fs_metadata st)) acc,
      id_lengths = map (\<lambda>(field, st). (field, fs_length st)) acc,
      id_total = sum_list (map (\<lambda>(field, st). fs_length st) acc)\<rparr>"

fun ingest_fields :: "pipeline \<Rightarrow> docid \<Rightarrow> accumulator \<Rightarrow> (string \<times> string) list \<Rightarrow> pipeline_error + accumulator" where
  "ingest_fields run d acc [] = Inr acc"
| "ingest_fields run d acc ((field, content) # rest) =
     (if content = [] then ingest_fields run d acc rest
      else bind_sum (run field content (Some d))
             (\<lambda>tokens. ingest_fields run d (foldl add_token acc tokens) rest))"

definition ingest :: "pipeline \<Rightarrow> indexing_record \<Rightarrow> pipeline_error + ingested_document" where
  "ingest run r =
     bind_sum (ingest_fields run (ir_doc r) [] (ir_fields r)) (\<lambda>acc. Inr (convert_accumulator (ir_doc r) acc))"

type_synonym token_cache = "(string, (string, token list) jmap) jmap"

definition cached_tokens :: "token_cache \<Rightarrow> string \<Rightarrow> string \<Rightarrow> token list option" where
  "cached_tokens cache field content =
     (case jmap_get cache field of None \<Rightarrow> None | Some m \<Rightarrow> jmap_get m content)"

fun collect_fields :: "pipeline \<Rightarrow> docid \<Rightarrow> token_cache \<Rightarrow> (string \<times> string) list \<Rightarrow> pipeline_error + token_cache" where
  "collect_fields run d cache [] = Inr cache"
| "collect_fields run d cache ((field, content) # rest) =
     (if content = [] then collect_fields run d cache rest
      else
        let fieldCache = (case jmap_get cache field of None \<Rightarrow> [] | Some m \<Rightarrow> m)
        in if jmap_has fieldCache content
           then collect_fields run d (jmap_set field fieldCache cache) rest
           else bind_sum (run field content (Some d)) (\<lambda>tokens.
                  collect_fields run d (jmap_set field (jmap_set content tokens fieldCache) cache) rest))"

fun collect_tokens :: "pipeline \<Rightarrow> token_cache \<Rightarrow> indexing_record list \<Rightarrow> pipeline_error + token_cache" where
  "collect_tokens run cache [] = Inr cache"
| "collect_tokens run cache (r # rs) =
     bind_sum (collect_fields run (ir_doc r) cache (ir_fields r)) (\<lambda>cache'. collect_tokens run cache' rs)"

definition build_document :: "token_cache \<Rightarrow> indexing_record \<Rightarrow> ingested_document" where
  "build_document cache r =
     convert_accumulator (ir_doc r)
       (foldl (\<lambda>acc (field, content).
          if content = [] then acc
          else foldl add_token acc
                 (map (\<lambda>t. t\<lparr>tk_document := Some (ir_doc r)\<rparr>)
                   (case cached_tokens cache field content of None \<Rightarrow> [] | Some ts \<Rightarrow> ts)))
          [] (ir_fields r))"

definition ingest_batch :: "pipeline \<Rightarrow> indexing_record list \<Rightarrow> pipeline_error + ingested_document list" where
  "ingest_batch run rs =
     bind_sum (collect_tokens run [] rs) (\<lambda>cache. Inr (map (build_document cache) rs))"

section \<open>Statistics are sums\<close>

definition num_rat :: "jsnum \<Rightarrow> rat" where
  "num_rat x = (case x of Fin a \<Rightarrow> a | _ \<Rightarrow> 0)"

definition total_length :: "(docid, jsnum) jmap \<Rightarrow> rat" where
  "total_length m = sum_list (map (\<lambda>(d, n). num_rat n) m)"

definition stats_ok :: "document_stats \<Rightarrow> bool" where
  "stats_ok s = (jmap_ok (ds_lengths s) \<and> (\<forall>(d, n) \<in> set (ds_lengths s). is_fin n) \<and>
     ds_total s = Fin (total_length (ds_lengths s)) \<and> ds_count s = length (ds_lengths s))"

lemma total_length_set:
  "total_length (jmap_set d n m) =
     total_length m - (case jmap_get m d of None \<Rightarrow> 0 | Some x \<Rightarrow> num_rat x) + num_rat n"
  by (induction m) (auto simp: total_length_def)

lemma total_length_del:
  "jmap_ok m \<Longrightarrow> total_length (jmap_del d m) =
     total_length m - (case jmap_get m d of None \<Rightarrow> 0 | Some x \<Rightarrow> num_rat x)"
proof (induction m)
  case (Cons p m)
  obtain k x where p: "p = (k, x)" by (cases p)
  have "k \<notin> fst ` set m" using Cons.prems p by auto
  then have "jmap_del k m = m" "map_of m k = None" by (simp_all add: delete_idem map_of_eq_None_iff)
  with Cons p show ?case by (auto simp: total_length_def)
qed (simp add: total_length_def)

lemma stats_ok_new [simp]: "stats_ok stats_new"
  by (simp add: stats_ok_def stats_new_def total_length_def)

lemma stats_ok_fin: "stats_ok s \<Longrightarrow> jmap_get (ds_lengths s) d = Some x \<Longrightarrow> x = Fin (num_rat x)"
  by (auto simp: stats_ok_def num_rat_def is_fin_iff dest!: map_of_SomeD)

lemma stats_ok_add:
  assumes "stats_ok s" and "is_fin n"
  shows "stats_ok (add_document d n s)"
proof -
  have n: "n = Fin (num_rat n)" using assms(2) by (auto simp: is_fin_iff num_rat_def)
  have fin: "\<forall>(d', n') \<in> set (jmap_set d n (ds_lengths s)). is_fin n'"
    using assms by (auto simp: stats_ok_def jmap_set_set)
  show ?thesis
  proof (cases "jmap_get (ds_lengths s) d")
    case None
    with assms(1) fin n show ?thesis
      by (auto simp: stats_ok_def add_document_def total_length_set length_jmap_set Let_def)
        (metis jsnum_fin_simps(3))
  next
    case (Some x)
    have x: "x = Fin (num_rat x)" by (rule stats_ok_fin [OF assms(1) Some])
    have "ds_total s - x + n = Fin (total_length (ds_lengths s) - num_rat x + num_rat n)"
      using assms(1) by (subst n, subst x) (simp add: stats_ok_def)
    with assms(1) fin Some show ?thesis
      by (simp add: stats_ok_def add_document_def total_length_set length_jmap_set Let_def)
  qed
qed

lemma stats_ok_remove:
  assumes "stats_ok s"
  shows "stats_ok (remove_document d s)"
proof (cases "jmap_get (ds_lengths s) d")
  case (Some x)
  have x: "x = Fin (num_rat x)" by (rule stats_ok_fin [OF assms Some])
  have "ds_total s - x = Fin (total_length (ds_lengths s) - num_rat x)"
    using assms by (subst x) (simp add: stats_ok_def)
  moreover have "\<forall>(d', n') \<in> set (jmap_del d (ds_lengths s)). is_fin n'"
    using assms by (auto simp: stats_ok_def AList.delete_eq)
  ultimately show ?thesis
    using assms Some by (simp add: stats_ok_def remove_document_def total_length_del length_jmap_del)
qed (use assms in \<open>simp add: remove_document_def\<close>)

datatype stats_op = AddDocument docid jsnum | RemoveDocument docid | LoadEntries "(docid \<times> jsnum) list"

fun stats_step :: "stats_op \<Rightarrow> document_stats \<Rightarrow> document_stats" where
  "stats_step (AddDocument d n) s = add_document d n s"
| "stats_step (RemoveDocument d) s = remove_document d s"
| "stats_step (LoadEntries es) s = stats_load es s"

fun op_finite :: "stats_op \<Rightarrow> bool" where
  "op_finite (AddDocument d n) = is_fin n"
| "op_finite (RemoveDocument d) = True"
| "op_finite (LoadEntries es) = list_all (\<lambda>(d, n). is_fin n) es"

text \<open>The abstract state: a finite map from documents to lengths.\<close>

fun spec_step :: "stats_op \<Rightarrow> (docid \<Rightarrow> jsnum option) \<Rightarrow> (docid \<Rightarrow> jsnum option)" where
  "spec_step (AddDocument d n) m = m(d \<mapsto> n)"
| "spec_step (RemoveDocument d) m = m(d := None)"
| "spec_step (LoadEntries es) m = foldl (\<lambda>m (d, n). m(d \<mapsto> n)) Map.empty es"

definition stats_map :: "document_stats \<Rightarrow> docid \<Rightarrow> jsnum option" where
  "stats_map s = jmap_get (ds_lengths s)"

lemma stats_map_simps [simp]:
  "stats_map stats_new = Map.empty"
  "stats_map (add_document d n s) = (stats_map s)(d \<mapsto> n)"
  "stats_map (remove_document d s) = (stats_map s)(d := None)"
  by (auto simp: stats_map_def stats_new_def add_document_def remove_document_def Let_def fun_eq_iff jmap_simps
      split: option.splits)

lemma stats_load_ok:
  assumes "list_all (\<lambda>(d, n). is_fin n) es"
  shows "stats_ok (stats_load es s) \<and>
    stats_map (stats_load es s) = foldl (\<lambda>m (d, n). m(d \<mapsto> n)) Map.empty es"
proof -
  have go: "list_all (\<lambda>(d, n). is_fin n) es \<Longrightarrow> stats_ok s \<Longrightarrow>
    stats_ok (foldl (\<lambda>s (d, n). add_document d n s) s es) \<and>
    stats_map (foldl (\<lambda>s (d, n). add_document d n s) s es) = foldl (\<lambda>m (d, n). m(d \<mapsto> n)) (stats_map s) es" for s
    by (induction es arbitrary: s) (auto simp: stats_ok_add)
  let ?s = "s\<lparr>ds_lengths := [], ds_total := Fin 0, ds_count := 0\<rparr>"
  have "stats_ok ?s" "stats_map ?s = Map.empty" by (simp_all add: stats_ok_def total_length_def stats_map_def)
  with go [OF assms, of ?s] show ?thesis by (simp add: stats_load_def)
qed

lemma stats_step_ok:
  "stats_ok s \<Longrightarrow> op_finite p \<Longrightarrow> stats_ok (stats_step p s) \<and> stats_map (stats_step p s) = spec_step p (stats_map s)"
  by (cases p) (auto simp: stats_ok_add stats_ok_remove stats_load_ok)

definition stats_run :: "stats_op list \<Rightarrow> document_stats" where
  "stats_run ops = foldl (\<lambda>s p. stats_step p s) stats_new ops"

definition spec_run :: "stats_op list \<Rightarrow> docid \<Rightarrow> jsnum option" where
  "spec_run ops = foldl (\<lambda>m p. spec_step p m) Map.empty ops"

lemma stats_run_ok:
  "list_all op_finite ops \<Longrightarrow> stats_ok (stats_run ops) \<and> stats_map (stats_run ops) = spec_run ops"
proof (induction ops rule: rev_induct)
  case Nil
  then show ?case by (simp add: stats_run_def spec_run_def)
next
  case (snoc p ops)
  then show ?case using stats_step_ok [of "stats_run ops" p] by (simp add: stats_run_def spec_run_def)
qed

definition mean_length :: "(docid \<Rightarrow> jsnum option) \<Rightarrow> rat" where
  "mean_length m = (if dom m = {} then 1 else (\<Sum>d \<in> dom m. num_rat (the (m d))) / of_nat (card (dom m)))"

lemma stats_average:
  assumes "stats_ok s"
  shows "get_average_length s = Fin (mean_length (stats_map s))"
proof -
  from assms have ok: "jmap_ok (ds_lengths s)" and tot: "ds_total s = Fin (total_length (ds_lengths s))"
    and count: "ds_count s = length (ds_lengths s)" by (auto simp: stats_ok_def)
  have dom: "dom (stats_map s) = set (jmap_keys (ds_lengths s))"
    by (simp add: stats_map_def dom_map_of_conv_image_fst)
  have card: "card (dom (stats_map s)) = length (ds_lengths s)"
    unfolding dom distinct_card [OF ok] by simp
  have "(\<Sum>d \<in> dom (stats_map s). num_rat (the (stats_map s d))) =
      sum_list (map (\<lambda>d. num_rat (the (stats_map s d))) (jmap_keys (ds_lengths s)))"
    unfolding dom by (rule sum.distinct_set_conv_list [OF ok])
  also have "\<dots> = total_length (ds_lengths s)"
    unfolding total_length_def map_map comp_def
    by (intro arg_cong [of _ _ sum_list] map_cong) (use ok in \<open>auto simp: stats_map_def\<close>)
  finally show ?thesis
    using card dom by (auto simp: get_average_length_def mean_length_def count tot)
qed

section \<open>Batches\<close>

text \<open>
  The accumulator never looks at a token's document, and a cache filled by the first phase
  holds, for every non-empty field of the batch, the tokens of some run of the pipeline.
\<close>

lemma add_token_document [simp]: "add_token acc (t\<lparr>tk_document := d\<rparr>) = add_token acc t"
proof -
  have same: "tk_value (t\<lparr>tk_document := d\<rparr>) = tk_value t" "tk_field (t\<lparr>tk_document := d\<rparr>) = tk_field t"
    "tk_metadata (t\<lparr>tk_document := d\<rparr>) = tk_metadata t" by simp_all
  show ?thesis unfolding add_token_def same ..
qed

lemma add_tokens_document [simp]:
  "foldl add_token acc (map (\<lambda>t. t\<lparr>tk_document := d\<rparr>) ts) = foldl add_token acc ts"
  by (induction ts arbitrary: acc) auto

context token_pipeline
begin

definition tokens :: "string \<Rightarrow> string \<Rightarrow> docid \<Rightarrow> token list" where
  "tokens f x d = (case run f x (Some d) of Inr ts \<Rightarrow> ts | Inl _ \<Rightarrow> [])"

lemma run_tokens: "run f x (Some d) = Inr (tokens f x d)"
  using run_total [of f x "Some d"] by (auto simp: tokens_def)

lemma tokens_document: "tokens f x d' = map (\<lambda>t. t\<lparr>tk_document := Some d'\<rparr>) (tokens f x d)"
  using run_document [OF run_tokens [of f x d], of "Some d'"] run_tokens [of f x d'] by simp

lemma tokens_field: "t \<in> set (tokens f x d) \<Longrightarrow> tk_field t = f"
  using run_owner [OF run_tokens] by blast

definition add_field :: "docid \<Rightarrow> accumulator \<Rightarrow> string \<times> string \<Rightarrow> accumulator" where
  "add_field d acc fx = (if snd fx = [] then acc else foldl add_token acc (tokens (fst fx) (snd fx) d))"

lemma ingest_fields_fold: "ingest_fields run d acc fxs = Inr (foldl (add_field d) acc fxs)"
  by (induction fxs arbitrary: acc) (auto simp: run_tokens add_field_def)

lemma ingest_fold:
  "ingest run r = Inr (convert_accumulator (ir_doc r) (foldl (add_field (ir_doc r)) [] (ir_fields r)))"
  by (simp add: ingest_def ingest_fields_fold)

definition cache_sound :: "token_cache \<Rightarrow> bool" where
  "cache_sound cache = (\<forall>f x ts. cached_tokens cache f x = Some ts \<longrightarrow> (\<exists>d. ts = tokens f x d))"

definition cache_has :: "token_cache \<Rightarrow> string \<times> string \<Rightarrow> bool" where
  "cache_has cache fx = (snd fx = [] \<or> cached_tokens cache (fst fx) (snd fx) \<noteq> None)"

lemma cached_tokens_set:
  "cached_tokens (jmap_set f m cache) g x = (if g = f then jmap_get m x else cached_tokens cache g x)"
  by (simp add: cached_tokens_def jmap_simps)

lemma cached_tokens_get:
  "jmap_get (case jmap_get cache f of None \<Rightarrow> [] | Some m \<Rightarrow> m) x = cached_tokens cache f x"
  by (simp add: cached_tokens_def split: option.split)

lemma cache_sound_set:
  "cache_sound cache \<Longrightarrow>
   cache_sound (jmap_set f (jmap_set x (tokens f x d) (case jmap_get cache f of None \<Rightarrow> [] | Some m \<Rightarrow> m)) cache)"
  unfolding cache_sound_def cached_tokens_set jmap_get_set cached_tokens_get by (metis option.inject)

lemma cache_sound_touch:
  "cache_sound cache \<Longrightarrow> cache_sound (jmap_set f (case jmap_get cache f of None \<Rightarrow> [] | Some m \<Rightarrow> m) cache)"
  unfolding cache_sound_def cached_tokens_set cached_tokens_get by metis

lemma collect_fields_cache:
  "cache_sound cache \<Longrightarrow> \<exists>cache'. collect_fields run d cache fxs = Inr cache' \<and> cache_sound cache' \<and>
     (\<forall>fx. cache_has cache fx \<longrightarrow> cache_has cache' fx) \<and> (\<forall>fx \<in> set fxs. cache_has cache' fx)"
proof (induction fxs arbitrary: cache)
  case (Cons fx rest)
  obtain f x where fx: "fx = (f, x)" by (cases fx)
  let ?m = "case jmap_get cache f of None \<Rightarrow> [] | Some m \<Rightarrow> m"
  consider (empty) "x = []" | (hit) "x \<noteq> []" "jmap_has ?m x" | (miss) "x \<noteq> []" "\<not> jmap_has ?m x" by blast
  then show ?case
  proof cases
    case empty
    with Cons.IH [OF Cons.prems] show ?thesis by (auto simp: fx cache_has_def)
  next
    case hit
    let ?c = "jmap_set f ?m cache"
    have mono: "cache_has cache g \<Longrightarrow> cache_has ?c g" for g
      unfolding cache_has_def cached_tokens_set cached_tokens_get by auto
    have "cache_has cache fx" using hit by (simp add: fx cache_has_def cached_tokens_get)
    then have has: "cache_has ?c fx" by (rule mono)
    from Cons.IH [OF cache_sound_touch [OF Cons.prems, of f]] obtain c' where
      "collect_fields run d ?c rest = Inr c'" "cache_sound c'" "\<forall>g. cache_has ?c g \<longrightarrow> cache_has c' g"
      "\<forall>g \<in> set rest. cache_has c' g" by blast
    with hit has mono show ?thesis by (auto simp: fx Let_def)
  next
    case miss
    let ?c = "jmap_set f (jmap_set x (tokens f x d) ?m) cache"
    have mono: "cache_has cache g \<Longrightarrow> cache_has ?c g" for g
      unfolding cache_has_def cached_tokens_set jmap_get_set cached_tokens_get by auto
    have has: "cache_has ?c fx" by (simp add: fx cache_has_def cached_tokens_set jmap_get_set)
    from Cons.IH [OF cache_sound_set [OF Cons.prems, of f x d]] obtain c' where
      "collect_fields run d ?c rest = Inr c'" "cache_sound c'" "\<forall>g. cache_has ?c g \<longrightarrow> cache_has c' g"
      "\<forall>g \<in> set rest. cache_has c' g" by blast
    with miss has mono show ?thesis by (auto simp: fx Let_def run_tokens)
  qed
qed simp

lemma collect_tokens_cache:
  "cache_sound cache \<Longrightarrow> \<exists>cache'. collect_tokens run cache rs = Inr cache' \<and> cache_sound cache' \<and>
     (\<forall>fx. cache_has cache fx \<longrightarrow> cache_has cache' fx) \<and>
     (\<forall>r \<in> set rs. \<forall>fx \<in> set (ir_fields r). cache_has cache' fx)"
proof (induction rs arbitrary: cache)
  case (Cons r rs)
  obtain c1 where c1: "collect_fields run (ir_doc r) cache (ir_fields r) = Inr c1" "cache_sound c1"
      "\<forall>fx. cache_has cache fx \<longrightarrow> cache_has c1 fx" "\<forall>fx \<in> set (ir_fields r). cache_has c1 fx"
    using collect_fields_cache [OF Cons.prems] by blast
  obtain c2 where "collect_tokens run c1 rs = Inr c2" "cache_sound c2" "\<forall>fx. cache_has c1 fx \<longrightarrow> cache_has c2 fx"
      "\<forall>r \<in> set rs. \<forall>fx \<in> set (ir_fields r). cache_has c2 fx"
    using Cons.IH [OF c1(2)] by blast
  with c1 show ?case by auto
qed simp

lemma build_document_fold:
  assumes "cache_sound cache" and "\<forall>fx \<in> set (ir_fields r). cache_has cache fx"
  shows "build_document cache r =
    convert_accumulator (ir_doc r) (foldl (add_field (ir_doc r)) [] (ir_fields r))"
proof -
  have "foldl (\<lambda>acc (field, content). if content = [] then acc
      else foldl add_token acc (map (\<lambda>t. t\<lparr>tk_document := Some (ir_doc r)\<rparr>)
             (case cached_tokens cache field content of None \<Rightarrow> [] | Some ts \<Rightarrow> ts))) acc fxs =
    foldl (add_field (ir_doc r)) acc fxs" if "set fxs \<subseteq> set (ir_fields r)" for acc fxs
    using that
  proof (induction fxs arbitrary: acc)
    case (Cons fx fxs)
    obtain f x where fx: "fx = (f, x)" by (cases fx)
    have "cache_has cache fx" using Cons.prems assms(2) by auto
    then have "x = [] \<or> (\<exists>d. cached_tokens cache f x = Some (tokens f x d))"
      using assms(1) by (auto simp: cache_has_def cache_sound_def fx)
    then have "(if x = [] then acc else foldl add_token acc (map (\<lambda>t. t\<lparr>tk_document := Some (ir_doc r)\<rparr>)
             (case cached_tokens cache f x of None \<Rightarrow> [] | Some ts \<Rightarrow> ts))) = add_field (ir_doc r) acc fx"
    proof
      assume "\<exists>d. cached_tokens cache f x = Some (tokens f x d)"
      then obtain d where "cached_tokens cache f x = Some (tokens f x d)" ..
      then show ?thesis using tokens_document [of f x "ir_doc r" d] by (simp add: add_field_def fx)
    qed (simp add: add_field_def fx)
    with Cons show ?case by (simp add: fx)
  qed simp
  then show ?thesis by (simp add: build_document_def)
qed

lemma batch_is_map: "ingest_batch run rs = map_sum_list (ingest run) rs"
proof -
  have "cache_sound []" by (simp add: cache_sound_def cached_tokens_def)
  then obtain c where c: "collect_tokens run [] rs = Inr c" "cache_sound c"
      "\<forall>r \<in> set rs. \<forall>fx \<in> set (ir_fields r). cache_has c fx"
    using collect_tokens_cache [of "[]" rs] by blast
  have "map_sum_list (ingest run) rs = Inr (map (build_document c) rs)"
    by (rule map_sum_list_Inr_map) (use c in \<open>simp add: ingest_fold build_document_fold\<close>)
  with c(1) show ?thesis by (simp add: ingest_batch_def)
qed

end

section \<open>What is counted\<close>

definition field_entry :: "accumulator \<Rightarrow> string \<Rightarrow> field_statistics" where
  "field_entry acc f = (case jmap_get acc f of None \<Rightarrow> empty_field | Some st \<Rightarrow> st)"

definition bump :: "field_statistics \<Rightarrow> token \<Rightarrow> field_statistics" where
  "bump st t =
     \<lparr>fs_frequencies = jmap_set (tk_value t)
        ((case jmap_get (fs_frequencies st) (tk_value t) of None \<Rightarrow> 0 | Some n \<Rightarrow> n) + 1) (fs_frequencies st),
      fs_metadata = (case tk_metadata t of None \<Rightarrow> fs_metadata st
        | Some m \<Rightarrow> if jmap_get (fs_metadata st) (tk_value t) = None \<or>
              (meta_is_prefix (jmap_get (fs_metadata st) (tk_value t)) \<and> \<not> meta_is_prefix (tk_metadata t))
            then jmap_set (tk_value t) m (fs_metadata st) else fs_metadata st),
      fs_length = fs_length st + 1\<rparr>"

lemma add_token_eq:
  assumes "tk_value t \<noteq> []"
  shows "jmap_get (add_token acc t) f =
    (if f = tk_field t then Some (bump (field_entry acc f) t) else jmap_get acc f)"
  using assms by (cases "jmap_get acc (tk_field t)")
    (simp_all add: add_token_def ensure_field_def field_entry_def bump_def Let_def jmap_simps)

lemma add_token_entry:
  "field_entry (add_token acc t) f =
     (if tk_field t = f \<and> tk_value t \<noteq> [] then bump (field_entry acc f) t else field_entry acc f)"
  by (cases "tk_value t = []") (auto simp: field_entry_def add_token_eq, simp add: add_token_def)

definition of_field :: "string \<Rightarrow> token list \<Rightarrow> token list" where
  "of_field f ts = filter (\<lambda>t. tk_field t = f \<and> tk_value t \<noteq> []) ts"

lemma add_tokens_entry:
  "field_entry (foldl add_token acc ts) f = foldl bump (field_entry acc f) (of_field f ts)"
  by (induction ts arbitrary: acc) (auto simp: of_field_def add_token_entry)

lemma add_tokens_has:
  "jmap_has (foldl add_token [] ts) f \<longleftrightarrow> of_field f ts \<noteq> []"
proof -
  have "jmap_has (foldl add_token acc ts) f \<longleftrightarrow> jmap_has acc f \<or> of_field f ts \<noteq> []" for acc
  proof (induction ts arbitrary: acc)
    case (Cons t ts)
    have "jmap_has (add_token acc t) f \<longleftrightarrow> jmap_has acc f \<or> (tk_field t = f \<and> tk_value t \<noteq> [])"
      by (cases "tk_value t = []") (auto simp: add_token_eq, simp_all add: add_token_def)
    with Cons show ?case by (auto simp: of_field_def)
  qed (simp add: of_field_def)
  then show ?thesis by simp
qed

lemma bumps_frequency:
  "jmap_get (fs_frequencies (foldl bump empty_field ts)) v =
     (let n = length (filter (\<lambda>t. tk_value t = v) ts) in if n = 0 then None else Some n)"
proof (induction ts rule: rev_induct)
  case Nil
  then show ?case by (simp add: empty_field_def)
next
  case (snoc t ts)
  have "jmap_get (fs_frequencies (bump st t)) v = (if tk_value t = v
      then Some (Suc (case jmap_get (fs_frequencies st) v of None \<Rightarrow> 0 | Some n \<Rightarrow> n))
      else jmap_get (fs_frequencies st) v)" for st
    by (simp add: bump_def jmap_simps)
  with snoc show ?case by (simp add: Let_def)
qed

lemma bumps_length: "fs_length (foldl bump empty_field ts) = length ts"
  by (induction ts rule: rev_induct) (auto simp: empty_field_def bump_def)

definition described :: "string \<Rightarrow> token list \<Rightarrow> token list" where
  "described v ts = filter (\<lambda>t. tk_value t = v \<and> tk_metadata t \<noteq> None) ts"

lemma bumps_metadata:
  "(jmap_get (fs_metadata (foldl bump empty_field ts)) v = None \<longleftrightarrow> described v ts = []) \<and>
   (meta_is_prefix (jmap_get (fs_metadata (foldl bump empty_field ts)) v) \<longleftrightarrow>
     described v ts \<noteq> [] \<and> (\<forall>t \<in> set (described v ts). meta_is_prefix (tk_metadata t)))"
proof (induction ts rule: rev_induct)
  case Nil
  then show ?case by (simp add: empty_field_def described_def)
next
  case (snoc t ts)
  define X where "X = jmap_get (fs_metadata (foldl bump empty_field ts)) v"
  have "jmap_get (fs_metadata (bump st t)) v = (if tk_value t = v \<and> tk_metadata t \<noteq> None \<and>
      (jmap_get (fs_metadata st) v = None \<or>
       meta_is_prefix (jmap_get (fs_metadata st) v) \<and> \<not> meta_is_prefix (tk_metadata t))
      then tk_metadata t else jmap_get (fs_metadata st) v)" for st
    by (auto simp: bump_def jmap_simps split: option.splits)
  note bump = this [of "foldl bump empty_field ts", folded X_def]
  have step: "jmap_get (fs_metadata (foldl bump empty_field (ts @ [t]))) v = (if tk_value t = v \<and> tk_metadata t \<noteq> None \<and>
      (X = None \<or> meta_is_prefix X \<and> \<not> meta_is_prefix (tk_metadata t)) then tk_metadata t else X)"
    unfolding foldl_append foldl_Cons foldl_Nil by (rule bump)
  show ?case
    using snoc unfolding step X_def [symmetric] by (cases X) (auto simp: described_def)
qed

lemma sum_jmap_set:
  fixes g :: "'v \<Rightarrow> nat"
  shows "sum_list (map (\<lambda>(k, v). g v) (jmap_set k v m)) + (case jmap_get m k of None \<Rightarrow> 0 | Some x \<Rightarrow> g x) =
    sum_list (map (\<lambda>(k, v). g v) m) + g v"
  by (induction m) auto

lemma add_token_total:
  "sum_list (map (\<lambda>(f, st). fs_length st) (add_token acc t)) =
     sum_list (map (\<lambda>(f, st). fs_length st) acc) + (if tk_value t = [] then 0 else 1)"
proof (cases "tk_value t = []")
  case False
  let ?st = "bump (field_entry acc (tk_field t)) t"
  have "add_token acc t = jmap_set (tk_field t) ?st
      (case jmap_get acc (tk_field t) of None \<Rightarrow> jmap_set (tk_field t) empty_field acc | Some _ \<Rightarrow> acc)"
    using False by (auto simp: add_token_def ensure_field_def field_entry_def bump_def Let_def split: option.split)
  moreover have "jmap_set (tk_field t) ?st (jmap_set (tk_field t) empty_field acc) = jmap_set (tk_field t) ?st acc"
    by (induction acc) auto
  ultimately have "add_token acc t = jmap_set (tk_field t) ?st acc" by (auto split: option.splits)
  then show ?thesis
    using False sum_jmap_set [of fs_length "tk_field t" ?st acc]
    by (auto simp: field_entry_def bump_def empty_field_def split: option.splits)
qed (simp add: add_token_def)

lemma add_tokens_total:
  "sum_list (map (\<lambda>(f, st). fs_length st) (foldl add_token [] ts)) = length (filter (\<lambda>t. tk_value t \<noteq> []) ts)"
  by (induction ts rule: rev_induct) (auto simp: add_token_total)

text \<open>The tokens of a record, in the order the accumulator sees them.\<close>

definition record_tokens :: "pipeline_options \<Rightarrow> indexing_record \<Rightarrow> token list" where
  "record_tokens options r = concat (map (\<lambda>(f, x).
     if x = [] then [] else analyzed (builtin_stages options) f x (Some (ir_doc r))) (ir_fields r))"

lemma ingest_builtin:
  "ingest (pipeline_run (builtin_stages options)) r =
     Inr (convert_accumulator (ir_doc r) (foldl add_token [] (record_tokens options r)))"
proof -
  have tk: "builtin.tokens options f x d = analyzed (builtin_stages options) f x (Some d)" for f x d
    using builtin.run_tokens [of options f x d] by (simp add: builtin_run)
  have "foldl (builtin.add_field options d) acc fxs =
      foldl add_token acc (concat (map (\<lambda>(f, x). if x = [] then []
        else analyzed (builtin_stages options) f x (Some d)) fxs))" for d acc fxs
    by (induction fxs arbitrary: acc) (auto simp: builtin.add_field_def tk)
  then show ?thesis by (simp add: builtin.ingest_fold record_tokens_def)
qed

lemma map_of_map_pairs: "map_of (map (\<lambda>(k, v). (k, g v)) m) k = map_option g (map_of m k)"
  by (induction m) auto

text \<open>The field statistics of a list of tokens, and what the conversion makes of them.\<close>

lemma acc_entry:
  "jmap_get (foldl add_token [] ts) f = (if of_field f ts = [] then None else Some (foldl bump empty_field (of_field f ts)))"
  using add_tokens_has [of ts f] add_tokens_entry [of "[]" ts f]
  by (auto simp: field_entry_def split: option.splits)

lemma converted_frequency:
  "(case jmap_get (id_frequencies (convert_accumulator d (foldl add_token [] ts))) f of None \<Rightarrow> None | Some m \<Rightarrow> jmap_get m v) =
     (let n = length (filter (\<lambda>t. tk_value t = v) (of_field f ts)) in if n = 0 then None else Some n)"
  by (auto simp: convert_accumulator_def map_of_map_pairs acc_entry bumps_frequency Let_def)

lemma converted_length:
  "jmap_get (id_lengths (convert_accumulator d (foldl add_token [] ts))) f =
     (let n = length (of_field f ts) in if n = 0 then None else Some n)"
  by (simp add: convert_accumulator_def map_of_map_pairs acc_entry bumps_length Let_def)

lemma converted_total:
  "id_total (convert_accumulator d (foldl add_token [] ts)) = length (filter (\<lambda>t. tk_value t \<noteq> []) ts)"
  by (simp add: convert_accumulator_def add_tokens_total)

lemma converted_flag:
  "meta_is_prefix (case jmap_get (id_metadata (convert_accumulator d (foldl add_token [] ts))) f of
       None \<Rightarrow> None | Some m \<Rightarrow> jmap_get m v) \<longleftrightarrow>
     described v (of_field f ts) \<noteq> [] \<and> list_all (\<lambda>t. meta_is_prefix (tk_metadata t)) (described v (of_field f ts))"
  by (auto simp: convert_accumulator_def map_of_map_pairs acc_entry bumps_metadata described_def list_all_iff)

section \<open>Properties\<close>

text \<open>
  The running statistics are exact: after any sequence of additions, replacements,
  removals and loads with finite lengths, they hold the map those operations describe and
  \<open>getAverageLength\<close> is its mean (one for the empty corpus).
\<close>

theorem stats_refine_map:
  assumes "list_all op_finite ops"
  shows "get_length (stats_run ops) = spec_run ops \<and>
    get_average_length (stats_run ops) = Fin (mean_length (spec_run ops))"
  using stats_run_ok [OF assms] stats_average [of "stats_run ops"]
  by (auto simp: get_length_def stats_map_def fun_eq_iff)

theorem stats_refine_map_witness:
  "get_average_length (stats_run [AddDocument (DNum 1) (Fin 4), AddDocument (DNum 2) (Fin 9),
     AddDocument (DNum 1) (Fin 3), RemoveDocument (DNum 2)]) = Fin 3"
proof -
  let ?ops = "[AddDocument (DNum 1) (Fin 4), AddDocument (DNum 2) (Fin 9),
     AddDocument (DNum 1) (Fin 3), RemoveDocument (DNum 2)]"
  have "spec_run ?ops = [DNum 1 \<mapsto> Fin 3]" by (auto simp: spec_run_def)
  then show ?thesis
    using stats_refine_map [of ?ops] by (simp add: mean_length_def num_rat_def)
qed

text \<open>
  C24: \<open>ingestBatch\<close> with its token cache returns what \<open>ingest\<close> returns on each record,
  in order, for every pipeline of built-in stages.
\<close>

theorem ingest_batch_is_map:
  "ingest_batch (pipeline_run (builtin_stages options)) rs = map_sum_list (ingest (pipeline_run (builtin_stages options))) rs"
  by (rule builtin.batch_is_map)

text \<open>
  An ingested document counts exactly its tokens: the frequency of a term in a field is
  the number of its non-empty tokens there, absent terms have no entry, the field length and
  the total length are the numbers of tokens.
\<close>

theorem ingest_counts:
  "\<exists>doc. ingest (pipeline_run (builtin_stages options)) r = Inr doc \<and>
     id_doc doc = ir_doc r \<and>
     id_total doc = length (filter (\<lambda>t. tk_value t \<noteq> []) (record_tokens options r)) \<and>
     (\<forall>f. jmap_get (id_lengths doc) f =
        (let n = length (of_field f (record_tokens options r)) in if n = 0 then None else Some n)) \<and>
     (\<forall>f v. (case jmap_get (id_frequencies doc) f of None \<Rightarrow> None | Some m \<Rightarrow> jmap_get m v) =
        (let n = length (filter (\<lambda>t. tk_value t = v) (of_field f (record_tokens options r)))
         in if n = 0 then None else Some n))"
  by (intro exI [of _ "convert_accumulator (ir_doc r) (foldl add_token [] (record_tokens options r))"])
    (simp only: ingest_builtin converted_frequency converted_length converted_total, simp add: convert_accumulator_def)

text \<open>
  An exact occurrence of a term wins over edge n-grams: the metadata kept for a term is
  flagged as a prefix only if every described occurrence in the field is a proper prefix.
\<close>

theorem exact_occurrence_wins:
  "\<exists>doc. ingest (pipeline_run (builtin_stages options)) r = Inr doc \<and>
     (\<forall>f v. meta_is_prefix (case jmap_get (id_metadata doc) f of None \<Rightarrow> None | Some m \<Rightarrow> jmap_get m v) \<longleftrightarrow>
        described v (of_field f (record_tokens options r)) \<noteq> [] \<and>
        list_all (\<lambda>t. meta_is_prefix (tk_metadata t)) (described v (of_field f (record_tokens options r))))"
  by (intro exI [of _ "convert_accumulator (ir_doc r) (foldl add_token [] (record_tokens options r))"])
    (simp only: ingest_builtin converted_flag simp_thms)

end
