(* ===== verification/Scoring.thy ===== *)
theory Scoring
  imports ChunkSerializer
begin

text \<open>
  BM25 scoring and ranking, \<open>searchfn/core/src/query/scoring.ts\<close>. The arithmetic is that of
  the model's numbers; \<open>Math.log\<close>, which leaves the rationals, is the argument \<open>mlog\<close>.
\<close>

section \<open>Data\<close>

record retrieved_chunk =
  rc_term :: string
  rc_field :: string
  rc_frequency :: jsnum
  rc_postings :: "term_posting list"
  rc_idf :: "jsnum option"

record scored_document =
  sd_doc :: docid
  sd_score :: jsnum

record scoring_options =
  so_k1 :: "jsnum option"
  so_b :: "jsnum option"
  so_d :: "jsnum option"

definition DEFAULT_K1 :: jsnum where "DEFAULT_K1 = Fin (6 / 5)"
definition DEFAULT_B :: jsnum where "DEFAULT_B = Fin (3 / 4)"
definition DEFAULT_D :: jsnum where "DEFAULT_D = Fin (1 / 2)"
definition PREFIX_MATCH_PENALTY :: jsnum where "PREFIX_MATCH_PENALTY = Fin (7 / 10)"

section \<open>Operations\<close>

text \<open>The strict inequality \<open>!==\<close> of numbers and \<open>xs.slice(0, n)\<close>.\<close>

definition num_neq :: "jsnum \<Rightarrow> jsnum \<Rightarrow> bool" where
  "num_neq x y = (\<not> (x = y \<and> x \<noteq> NaN))"

definition js_slice_to :: "jsnum \<Rightarrow> 'a list \<Rightarrow> 'a list" where
  "js_slice_to n xs =
     (case n of
        NaN \<Rightarrow> []
      | PInf \<Rightarrow> xs
      | NInf \<Rightarrow> []
      | Fin a \<Rightarrow>
          (let k = (if a < 0 then \<lceil>a\<rceil> else \<lfloor>a\<rfloor>)
           in if k < 0 then take (length xs - nat (- k)) xs else take (nat k) xs))"

lemma js_slice_set: "set (js_slice_to l xs) \<subseteq> set xs" "distinct (map f xs) \<Longrightarrow> distinct (map f (js_slice_to l xs))"
  by (auto simp: js_slice_to_def Let_def take_map [symmetric] dest: in_set_takeD split: jsnum.splits)

definition compute_default_idf :: "(jsnum \<Rightarrow> jsnum) \<Rightarrow> jsnum \<Rightarrow> jsnum" where
  "compute_default_idf mlog docFrequency =
     (if docFrequency \<le> Fin 0 then Fin 0 else mlog (Fin 1 + Fin 1 / docFrequency))"

definition chunk_idf :: "(jsnum \<Rightarrow> jsnum) \<Rightarrow> retrieved_chunk \<Rightarrow> jsnum" where
  "chunk_idf mlog c = (case rc_idf c of Some x \<Rightarrow> x | None \<Rightarrow> compute_default_idf mlog (rc_frequency c))"

definition contribution ::
    "jsnum \<Rightarrow> jsnum \<Rightarrow> jsnum \<Rightarrow> jsnum \<Rightarrow> (docid, jsnum) jmap \<Rightarrow> jsnum \<Rightarrow> term_posting \<Rightarrow> jsnum" where
  "contribution k1 b d idf documentLengths averageDocLength p =
     (let docLength = (case jmap_get documentLengths (tp_doc p) of Some n \<Rightarrow> n | None \<Rightarrow> averageDocLength);
          tf = tp_frequency p;
          norm = Fin 1 - b + (b * docLength) / js_max averageDocLength (Fin 1);
          scoreContribution = idf * (d + ((k1 + Fin 1) * tf) / (k1 * norm + tf))
      in if meta_is_prefix (tp_metadata p) then scoreContribution * PREFIX_MATCH_PENALTY
         else scoreContribution)"

definition add_score :: "(docid, jsnum) jmap \<Rightarrow> docid \<Rightarrow> jsnum \<Rightarrow> (docid, jsnum) jmap" where
  "add_score scores d x =
     jmap_set d ((case jmap_get scores d of Some s \<Rightarrow> s | None \<Rightarrow> Fin 0) + x) scores"

definition compare_scored :: "scored_document \<Rightarrow> scored_document \<Rightarrow> int" where
  "compare_scored a b =
     (if num_neq (sd_score b) (sd_score a) then num_cmp (sd_score b - sd_score a)
      else str_cmp (docid_string (sd_doc a)) (docid_string (sd_doc b)))"

definition score_query_results ::
    "(jsnum \<Rightarrow> jsnum) \<Rightarrow> retrieved_chunk list \<Rightarrow> (docid, jsnum) jmap \<Rightarrow> jsnum \<Rightarrow> scoring_options option
     \<Rightarrow> jsnum option \<Rightarrow> scored_document list" where
  "score_query_results mlog chunks documentLengths averageDocLength options limit =
     (let k1 = (case options of Some opts \<Rightarrow> (case so_k1 opts of Some x \<Rightarrow> x | None \<Rightarrow> DEFAULT_K1) | None \<Rightarrow> DEFAULT_K1);
          b = (case options of Some opts \<Rightarrow> (case so_b opts of Some x \<Rightarrow> x | None \<Rightarrow> DEFAULT_B) | None \<Rightarrow> DEFAULT_B);
          d = (case options of Some opts \<Rightarrow> (case so_d opts of Some x \<Rightarrow> x | None \<Rightarrow> DEFAULT_D) | None \<Rightarrow> DEFAULT_D);
          scores = foldl (\<lambda>scores c. foldl (\<lambda>scores p.
                       add_score scores (tp_doc p)
                         (contribution k1 b d (chunk_idf mlog c) documentLengths averageDocLength p))
                     scores (rc_postings c)) [] chunks;
          scored = js_sort compare_scored (map (\<lambda>(doc, s). \<lparr>sd_doc = doc, sd_score = s\<rparr>) scores)
      in case limit of
           Some n \<Rightarrow> js_slice_to (js_max (Fin 0) n) scored
         | None \<Rightarrow> scored)"

definition score_postings ::
    "(jsnum \<Rightarrow> jsnum) \<Rightarrow> retrieved_chunk list \<Rightarrow> (docid, jsnum) jmap \<Rightarrow> jsnum \<Rightarrow> scoring_options option
     \<Rightarrow> scored_document list" where
  "score_postings mlog chunks documentLengths averageDocLength options =
     score_query_results mlog chunks documentLengths averageDocLength options None"

section \<open>Scores are sums\<close>

definition engine_options :: "scoring_options option" where
  "engine_options = Some \<lparr>so_k1 = Some (Fin (6 / 5)), so_b = Some (Fin (3 / 4)), so_d = Some (Fin (1 / 2))\<rparr>"

text \<open>All contributions with their documents, in the order they are added.\<close>

definition contributions ::
    "(jsnum \<Rightarrow> jsnum) \<Rightarrow> retrieved_chunk list \<Rightarrow> (docid, jsnum) jmap \<Rightarrow> jsnum \<Rightarrow> (docid \<times> jsnum) list" where
  "contributions mlog chunks lengths avg =
     concat (map (\<lambda>c. map (\<lambda>p. (tp_doc p, contribution (Fin (6 / 5)) (Fin (3 / 4)) (Fin (1 / 2))
       (chunk_idf mlog c) lengths avg p)) (rc_postings c)) chunks)"

definition doc_score :: "(docid \<times> jsnum) list \<Rightarrow> docid \<Rightarrow> jsnum" where
  "doc_score cs d = foldl (+) (Fin 0) (map snd (filter (\<lambda>c. fst c = d) cs))"

lemma js_slice_to_nat: "js_slice_to (Fin (of_nat n)) xs = take n xs"
  by (simp add: js_slice_to_def)

definition sum_scores :: "(docid \<times> jsnum) list \<Rightarrow> (docid, jsnum) jmap" where
  "sum_scores cs = foldl (\<lambda>m (d, x). add_score m d x) [] cs"

lemma sum_scores_snoc: "sum_scores (cs @ [(d, x)]) = add_score (sum_scores cs) d x"
  by (simp add: sum_scores_def)

lemma sum_scores_get:
  "jmap_get (sum_scores cs) d = (if d \<in> fst ` set cs then Some (doc_score cs d) else None)"
proof (induction cs rule: rev_induct)
  case Nil
  then show ?case by (simp add: sum_scores_def)
next
  case (snoc c cs)
  obtain e x where c: "c = (e, x)" by (cases c)
  have none: "filter (\<lambda>c. fst c = d) cs = []" if "d \<notin> fst ` set cs" for d
    using that by (auto simp: filter_empty_conv)
  show ?case
    using snoc none [of e] by (auto simp: c sum_scores_snoc add_score_def jmap_simps doc_score_def)
qed

lemma sum_scores_ok: "jmap_ok (sum_scores cs)"
  by (induction cs rule: rev_induct) (auto simp: sum_scores_def add_score_def)

lemma fold_contributions:
  "foldl (\<lambda>scores c. foldl (\<lambda>scores p. add_score scores (tp_doc p)
       (contribution (Fin (6 / 5)) (Fin (3 / 4)) (Fin (1 / 2)) (chunk_idf mlog c) lengths avg p))
     scores (rc_postings c)) [] chunks = sum_scores (contributions mlog chunks lengths avg)"
proof -
  have inner: "foldl (\<lambda>scores p. add_score scores (tp_doc p) (g p)) m ps =
      foldl (\<lambda>m (d, x). add_score m d x) m (map (\<lambda>p. (tp_doc p, g p)) ps)" for g m and ps :: "term_posting list"
    by (induction ps arbitrary: m) auto
  have "foldl (\<lambda>scores c. foldl (\<lambda>scores p. add_score scores (tp_doc p) (h c p)) scores (rc_postings c)) m cs =
      foldl (\<lambda>m (d, x). add_score m d x) m (concat (map (\<lambda>c. map (\<lambda>p. (tp_doc p, h c p)) (rc_postings c)) cs))"
    for h m and cs :: "retrieved_chunk list"
    by (induction cs arbitrary: m) (auto simp: inner)
  then show ?thesis by (simp add: sum_scores_def contributions_def)
qed

lemma score_postings_eq:
  "score_postings mlog chunks lengths avg options =
     js_sort compare_scored (map (\<lambda>(doc, s). \<lparr>sd_doc = doc, sd_score = s\<rparr>) (sum_scores (contributions mlog chunks lengths avg)))"
  if "options \<in> {None, engine_options}"
  using that fold_contributions [of mlog lengths avg chunks]
  by (auto simp: score_postings_def score_query_results_def engine_options_def DEFAULT_K1_def DEFAULT_B_def
      DEFAULT_D_def Let_def)

lemma score_query_limit:
  "score_query_results mlog chunks lengths avg options (Some (Fin (of_nat n))) =
     take n (score_postings mlog chunks lengths avg options)"
  by (simp add: score_postings_def score_query_results_def js_slice_to_nat)

section \<open>The ranking\<close>

interpretation ranking: js_comparator compare_scored "\<lambda>s. is_fin (sd_score s)"
proof unfold_locales
  fix x y z :: scored_document
  assume x: "is_fin (sd_score x)" and y: "is_fin (sd_score y)"
  then obtain a b where ab: "sd_score x = Fin a" "sd_score y = Fin b" by (auto simp: is_fin_iff)
  show "compare_scored x y \<le> 0 \<longleftrightarrow> \<not> compare_scored y x < 0"
    by (auto simp: compare_scored_def ab num_neq_def str_cmp_def)
  assume z: "is_fin (sd_score z)" and le: "compare_scored x y \<le> 0" "compare_scored y z \<le> 0"
  then obtain c where c: "sd_score z = Fin c" by (auto simp: is_fin_iff)
  show "compare_scored x z \<le> 0"
    using le by (auto simp: compare_scored_def ab c num_neq_def str_cmp_le split: if_splits)
qed

definition ranked_before :: "scored_document \<Rightarrow> scored_document \<Rightarrow> bool" where
  "ranked_before a b \<longleftrightarrow> sd_score b < sd_score a \<or>
     (sd_score a = sd_score b \<and> docid_string (sd_doc a) \<le> docid_string (sd_doc b))"

lemma compare_ranked:
  "is_fin (sd_score a) \<Longrightarrow> is_fin (sd_score b) \<Longrightarrow> compare_scored a b \<le> 0 \<longleftrightarrow> ranked_before a b"
  by (auto simp: compare_scored_def ranked_before_def is_fin_iff num_neq_def str_cmp_le)

section \<open>Bounds\<close>

lemma contribution_finite:
  assumes "idf = Fin i" and "tp_frequency p = Fin t" and "avg = Fin a"
    and "(case jmap_get lengths (tp_doc p) of Some n \<Rightarrow> n | None \<Rightarrow> avg) = Fin l" and "0 < t" and "0 \<le> l"
  shows "contribution (Fin (6 / 5)) (Fin (3 / 4)) (Fin (1 / 2)) idf lengths avg p =
    Fin (i * (1 / 2 + (11 / 5 * t) / (6 / 5 * (1 / 4 + (3 / 4 * l) / max a 1) + t)) *
         (if meta_is_prefix (tp_metadata p) then 7 / 10 else 1))"
proof -
  define q where "q = (3 / 4 * l) / max a 1"
  have "0 \<le> q" using assms(6) by (simp add: q_def)
  then have "0 < 6 / 5 * (1 / 4 + q)" by (intro mult_pos_pos add_pos_nonneg) simp_all
  then have "0 < 6 / 5 * (1 / 4 + q) + t" using assms(5) by (rule add_pos_pos)
  then have pos: "6 / 5 * (1 / 4 + q) + t \<noteq> 0" by simp
  have m: "max a 1 \<noteq> (0 :: rat)" by auto
  show ?thesis
    unfolding contribution_def Let_def assms(2,4) unfolding assms(1,3) q_def [symmetric]
    using pos m by (simp add: PREFIX_MATCH_PENALTY_def q_def)
qed

definition bm25 :: "rat \<Rightarrow> rat \<Rightarrow> rat \<Rightarrow> rat" where
  "bm25 t l a = 1 / 2 + (11 / 5 * t) / (6 / 5 * (1 / 4 + (3 / 4 * l) / max a 1) + t)"

lemma bm25_bounds:
  assumes "0 < t" and "0 \<le> l"
  shows "1 / 2 < bm25 t l a" and "bm25 t l a < 27 / 10"
proof -
  define q where "q = (3 / 4 * l) / max a 1"
  have "0 \<le> q" using assms(2) by (simp add: q_def)
  then have n: "0 < 6 / 5 * (1 / 4 + q)" by (intro mult_pos_pos add_pos_nonneg) simp_all
  then have pos2: "t < 6 / 5 * (1 / 4 + q) + t" by simp
  have pos: "0 < 6 / 5 * (1 / 4 + q) + t" using n assms(1) by (rule add_pos_pos)
  have "0 < (11 / 5 * t) / (6 / 5 * (1 / 4 + q) + t)" by (rule divide_pos_pos [OF _ pos]) (use assms(1) in simp)
  then show "1 / 2 < bm25 t l a" unfolding bm25_def q_def by (simp only: less_add_same_cancel1)
  have "(11 / 5 * t) / (6 / 5 * (1 / 4 + q) + t) < 11 / 5"
    unfolding pos_divide_less_eq [OF pos] using pos2 by simp
  then show "bm25 t l a < 27 / 10" by (simp add: bm25_def q_def)
qed

lemma bm25_mono:
  assumes "0 < t" and "t \<le> t'" and "0 \<le> l'" and "l' \<le> l"
  shows "bm25 t l a \<le> bm25 t' l' a"
proof -
  define n where "n = 6 / 5 * (1 / 4 + (3 / 4 * l) / max a 1)"
  define n' where "n' = 6 / 5 * (1 / 4 + (3 / 4 * l') / max a 1)"
  have "(3 / 4 * l') / max a 1 \<le> (3 / 4 * l) / max a 1" using assms(4) by (intro divide_right_mono) auto
  then have le: "n' \<le> n" by (simp add: n_def n'_def)
  have "0 \<le> (3 / 4 * l') / max a 1" using assms(3) by simp
  then have pos: "0 < n'" by (simp add: n'_def)
  have "t * n' \<le> t' * n" using assms(1,2) le pos by (intro mult_mono) auto
  then have "t * (n' + t') \<le> t' * (n + t)" by (simp add: algebra_simps)
  then have "t / (n + t) \<le> t' / (n' + t')"
    using assms(1,2) le pos by (simp add: divide_le_eq pos_le_divide_eq mult.commute)
  then have "11 / 5 * (t / (n + t)) \<le> 11 / 5 * (t' / (n' + t'))" by (rule mult_left_mono) simp
  then show ?thesis unfolding bm25_def n_def [symmetric] n'_def [symmetric] by simp
qed

section \<open>Properties\<close>

lemma foldl_plus_fin:
  "(\<forall>x \<in> set xs. is_fin x) \<Longrightarrow> is_fin (foldl (+) (Fin a) xs)"
  by (induction xs arbitrary: a) (auto simp: is_fin_iff)

lemma scores_are_sums_lib:
  "distinct (map sd_doc (score_postings mlog chunks lengths avg engine_options)) \<and>
   set (score_postings mlog chunks lengths avg engine_options) =
     {\<lparr>sd_doc = d, sd_score = doc_score (contributions mlog chunks lengths avg) d\<rparr> | d.
        \<exists>c \<in> set chunks. \<exists>p \<in> set (rc_postings c). tp_doc p = d}"
proof -
  let ?cs = "contributions mlog chunks lengths avg"
  let ?mk = "\<lambda>(doc, s). \<lparr>sd_doc = doc, sd_score = s\<rparr>"
  have ok: "jmap_ok (sum_scores ?cs)" by (rule sum_scores_ok)
  have docs: "fst ` set ?cs = {d. \<exists>c \<in> set chunks. \<exists>p \<in> set (rc_postings c). tp_doc p = d}"
    by (force simp: contributions_def)
  have "set (sum_scores ?cs) = {(d, x). jmap_get (sum_scores ?cs) d = Some x}"
    using jmap_get_in_set [OF ok] by auto
  also have "\<dots> = {(d, doc_score ?cs d) | d. d \<in> fst ` set ?cs}"
    by (force simp: sum_scores_get split: if_splits)
  finally have "set (sum_scores ?cs) = (\<lambda>d. (d, doc_score ?cs d)) ` (fst ` set ?cs)" by (simp add: Setcompr_eq_image)
  then have "?mk ` set (sum_scores ?cs) = {\<lparr>sd_doc = d, sd_score = doc_score ?cs d\<rparr> | d. d \<in> fst ` set ?cs}"
    by (simp only: image_image prod.case Setcompr_eq_image)
  then have set: "set (score_postings mlog chunks lengths avg engine_options) =
      {\<lparr>sd_doc = d, sd_score = doc_score ?cs d\<rparr> | d. d \<in> fst ` set ?cs}"
    by (simp add: score_postings_eq)
  have "mset (map sd_doc (js_sort compare_scored (map ?mk (sum_scores ?cs)))) =
      mset (map sd_doc (map ?mk (sum_scores ?cs)))"
    unfolding mset_map [of sd_doc] mset_js_sort ..
  also have "\<dots> = mset (jmap_keys (sum_scores ?cs))" by (simp add: comp_def case_prod_unfold)
  finally have "mset (map sd_doc (js_sort compare_scored (map ?mk (sum_scores ?cs)))) = mset (jmap_keys (sum_scores ?cs))" .
  then have "distinct (map sd_doc (js_sort compare_scored (map ?mk (sum_scores ?cs))))"
    using ok mset_eq_imp_distinct_iff by blast
  then have "distinct (map sd_doc (score_postings mlog chunks lengths avg engine_options))"
    by (simp add: score_postings_eq)
  with set docs show ?thesis by simp
qed

text \<open>
  The unlimited result lists every document of the postings exactly once, with the sum of
  its contributions over all chunks.
\<close>

theorem scores_are_sums:
  "distinct (map sd_doc (score_postings mlog chunks lengths avg engine_options)) \<and>
   set (score_postings mlog chunks lengths avg engine_options) =
     {\<lparr>sd_doc = d, sd_score = doc_score (contributions mlog chunks lengths avg) d\<rparr> | d.
        \<exists>c \<in> set chunks. \<exists>p \<in> set (rc_postings c). tp_doc p = d}"
  by (rule scores_are_sums_lib)

text \<open>
  With finite contributions the results are ranked: scores never increase, and equal
  scores are in the order of the identifiers as strings; a limit keeps a prefix of that ranking.
\<close>

theorem results_ranked:
  assumes "\<forall>c \<in> set (contributions mlog chunks lengths avg). is_fin (snd c)"
  shows "sorted_wrt ranked_before (score_postings mlog chunks lengths avg engine_options) \<and>
    score_query_results mlog chunks lengths avg engine_options (Some (Fin (of_nat n))) =
      take n (score_postings mlog chunks lengths avg engine_options)"
proof -
  let ?res = "score_postings mlog chunks lengths avg engine_options"
  let ?mk = "\<lambda>(doc, s). \<lparr>sd_doc = doc, sd_score = s\<rparr>"
  let ?list = "map ?mk (sum_scores (contributions mlog chunks lengths avg))"
  have fin: "\<forall>r \<in> set ?res. is_fin (sd_score r)"
  proof
    fix r assume "r \<in> set ?res"
    then obtain d where "r = \<lparr>sd_doc = d, sd_score = doc_score (contributions mlog chunks lengths avg) d\<rparr>"
      using scores_are_sums_lib [of mlog chunks lengths avg] by auto
    then show "is_fin (sd_score r)" using assms by (auto simp: doc_score_def intro!: foldl_plus_fin)
  qed
  have "sorted_wrt (\<lambda>a b. compare_scored a b \<le> 0) ?res"
    unfolding score_postings_eq [of engine_options, simplified]
    by (rule ranking.sort_sorted) (use fin in \<open>simp add: score_postings_eq\<close>)
  then have "sorted_wrt ranked_before ?res"
    by (rule sorted_wrt_mono_rel [rotated]) (use fin compare_ranked in blast)
  then show ?thesis by (simp add: score_query_limit)
qed

theorem results_ranked_witness:
  "sorted_wrt ranked_before (score_postings (\<lambda>_. Fin 1)
     [\<lparr>rc_term = ''a'', rc_field = ''t'', rc_frequency = Fin 2,
       rc_postings = [\<lparr>tp_doc = DNum 2, tp_frequency = Fin 1, tp_metadata = None\<rparr>,
                      \<lparr>tp_doc = DNum 1, tp_frequency = Fin 1, tp_metadata = None\<rparr>], rc_idf = None\<rparr>]
     [(DNum 1, Fin 1), (DNum 2, Fin 1)] (Fin 1) engine_options)"
  by (rule conjunct1 [OF results_ranked])
    (simp add: contributions_def contribution_def chunk_idf_def compute_default_idf_def)

text \<open>
  The contribution of a posting with a positive idf and frequency is positive and bounded
  by the saturation of BM25; it grows with the frequency, falls with the document's length, and
  a prefix match counts seven tenths.
\<close>

theorem bm25_contribution:
  assumes "0 < i" and "0 < t" and "t \<le> t'" and "0 \<le> l'" and "l' \<le> l"
  shows "\<exists>x x'. contribution (Fin (6 / 5)) (Fin (3 / 4)) (Fin (1 / 2)) (Fin i) [(d, Fin l)] (Fin a)
        \<lparr>tp_doc = d, tp_frequency = Fin t, tp_metadata = m\<rparr> = Fin x \<and>
      contribution (Fin (6 / 5)) (Fin (3 / 4)) (Fin (1 / 2)) (Fin i) [(d, Fin l')] (Fin a)
        \<lparr>tp_doc = d, tp_frequency = Fin t', tp_metadata = m\<rparr> = Fin x' \<and>
      0 < x \<and> x \<le> x' \<and> x' < i * (27 / 10) * (if meta_is_prefix m then 7 / 10 else 1)"
proof -
  have l: "0 \<le> l" "0 < t'" using assms by auto
  have c: "contribution (Fin (6 / 5)) (Fin (3 / 4)) (Fin (1 / 2)) (Fin i) [(d, Fin n)] (Fin a)
      \<lparr>tp_doc = d, tp_frequency = Fin f, tp_metadata = m\<rparr> =
      Fin (i * bm25 f n a * (if meta_is_prefix m then 7 / 10 else 1))" if "0 < f" "0 \<le> n" for f n
    using that by (subst contribution_finite [where i = i and t = f and a = a and l = n]) (simp_all add: bm25_def)
  have "0 < i * bm25 t l a" using assms(1) bm25_bounds(1) [OF assms(2) l(1), of a] by (intro mult_pos_pos) auto
  moreover have "i * bm25 t l a \<le> i * bm25 t' l' a"
    using assms(1) bm25_mono [OF assms(2-5), of a] by (intro mult_left_mono) auto
  moreover have "i * bm25 t' l' a < i * (27 / 10)"
    using assms(1) bm25_bounds(2) [OF l(2) assms(4), of a] by (intro mult_strict_left_mono)
  note order = calculation this
  define w :: rat where "w = (if meta_is_prefix m then 7 / 10 else 1)"
  have w: "0 < w" by (simp add: w_def)
  have "0 < i * bm25 t l a * w" using order(1) w by (rule mult_pos_pos)
  moreover have "i * bm25 t l a * w \<le> i * bm25 t' l' a * w" using order(2) w by (intro mult_right_mono) auto
  moreover have "i * bm25 t' l' a * w < i * (27 / 10) * w" using order(3) w by (rule mult_strict_right_mono)
  ultimately have "0 < i * bm25 t l a * w" "i * bm25 t l a * w \<le> i * bm25 t' l' a * w"
      "i * bm25 t' l' a * w < i * (27 / 10) * w" by blast+
  then show ?thesis
    unfolding c [OF assms(2) l(1)] c [OF l(2) assms(4)] w_def by blast
qed

theorem bm25_contribution_witness:
  "\<exists>x x'. contribution (Fin (6 / 5)) (Fin (3 / 4)) (Fin (1 / 2)) (Fin 1) [(DNum 1, Fin 4)] (Fin 3)
        \<lparr>tp_doc = DNum 1, tp_frequency = Fin 1, tp_metadata = None\<rparr> = Fin x \<and>
      contribution (Fin (6 / 5)) (Fin (3 / 4)) (Fin (1 / 2)) (Fin 1) [(DNum 1, Fin 2)] (Fin 3)
        \<lparr>tp_doc = DNum 1, tp_frequency = Fin 2, tp_metadata = None\<rparr> = Fin x' \<and> 0 < x \<and> x \<le> x'"
  using bm25_contribution [of 1 1 2 2 4 "DNum 1" 3 None] by auto

end
