(* ===== verification/QueryEngine.thy ===== *)
theory QueryEngine
  imports Scoring LruCache Indexing JsConvert
begin

text \<open>
  The query engine (\<open>searchfn/core/src/query/query-engine.ts\<close>), which loads the chunks of the
  query's terms through a cache, and the TypeScript core engine around it
  (\<open>searchfn/core/src/engine/ts-search-core-engine.ts\<close>). The storage is an argument: a lookup
  of chunks and a decoder. The clock the cache reads is an argument too.
\<close>

section \<open>Data\<close>

record query_token =
  qt_field :: string
  qt_term :: string
  qt_boost :: jsnum

record stored_chunk =
  sc_payload :: "byte list"
  sc_encoding :: "encoding option"
  sc_frequency :: jsnum
  sc_idf :: "jsnum option"

record query_storage =
  qs_get_chunk :: "string \<Rightarrow> string \<Rightarrow> nat \<Rightarrow> stored_chunk option"
  qs_decode :: "stored_chunk \<Rightarrow> serializer_error + jsval list"

type_synonym scorer =
  "retrieved_chunk list \<Rightarrow> (docid, jsnum) jmap \<Rightarrow> jsnum \<Rightarrow> scoring_options option \<Rightarrow> jsnum option \<Rightarrow> scored_document list"

record query_deps =
  qd_storage :: query_storage
  qd_length :: "docid \<Rightarrow> jsnum option"
  qd_average :: jsnum
  qd_decode :: "(stored_chunk \<Rightarrow> term_posting list) option"
  qd_score :: "scorer option"

record query_result =
  qr_documents :: "scored_document list"
  qr_postings :: "retrieved_chunk list"

section \<open>Postings of any shape\<close>

definition posting_metadata :: "jsval \<Rightarrow> jsrec option" where
  "posting_metadata v = (case v of JObj r \<Rightarrow> Some r | _ \<Rightarrow> None)"

definition parse_posting_record :: "(rat \<Rightarrow> string) \<Rightarrow> jsrec \<Rightarrow> term_posting option" where
  "parse_posting_record dtoa r =
     (let docIdValue = js_get r ''docId'';
          tfRaw = js_get r ''termFrequency'';
          tfValue = js_number dtoa (if js_nullish tfRaw then JNum (Fin 1) else tfRaw);
          termFrequency = (if is_fin tfValue \<and> Fin 0 < tfValue then tfValue else Fin 1)
      in case docIdValue of
           JStr s \<Rightarrow> Some \<lparr>tp_doc = DStr s, tp_frequency = termFrequency,
                          tp_metadata = posting_metadata (js_get r ''metadata'')\<rparr>
         | JNum x \<Rightarrow> Some \<lparr>tp_doc = DStr (num_to_string dtoa x), tp_frequency = termFrequency,
                          tp_metadata = posting_metadata (js_get r ''metadata'')\<rparr>
         | _ \<Rightarrow> None)"

definition parse_posting :: "(rat \<Rightarrow> string) \<Rightarrow> jsval \<Rightarrow> term_posting option" where
  "parse_posting dtoa raw =
     (case raw of
        JStr s \<Rightarrow>
          (case json_parse s of
             Some (JObj r) \<Rightarrow>
               if jmap_has r ''docId'' then parse_posting_record dtoa r
               else Some \<lparr>tp_doc = DStr s, tp_frequency = Fin 1, tp_metadata = None\<rparr>
           | _ \<Rightarrow> Some \<lparr>tp_doc = DStr s, tp_frequency = Fin 1, tp_metadata = None\<rparr>)
      | JNum x \<Rightarrow> Some \<lparr>tp_doc = DStr (num_to_string dtoa x), tp_frequency = Fin 1, tp_metadata = None\<rparr>
      | JObj r \<Rightarrow> parse_posting_record dtoa r
      | _ \<Rightarrow> None)"

definition decode_chunk :: "(rat \<Rightarrow> string) \<Rightarrow> query_deps \<Rightarrow> stored_chunk \<Rightarrow> serializer_error + term_posting list" where
  "decode_chunk dtoa deps chunk =
     (case qd_decode deps of
        Some f \<Rightarrow> Inr (f chunk)
      | None \<Rightarrow> bind_sum (qs_decode (qd_storage deps) chunk) (\<lambda>vs. Inr (some_of (map (parse_posting dtoa) vs))))"

section \<open>Loading chunks\<close>

text \<open>\<open>loadAllTermChunks\<close> asks for chunk 0, 1, ... until one is missing; \<open>None\<close> if none ever is.\<close>

partial_function (option) load_chunks ::
    "query_storage \<Rightarrow> string \<Rightarrow> string \<Rightarrow> nat \<Rightarrow> stored_chunk list option" where
  "load_chunks st field trm i =
     (case qs_get_chunk st field trm i of
        None \<Rightarrow> Some []
      | Some c \<Rightarrow> Option.bind (load_chunks st field trm (i + 1)) (\<lambda>cs. Some (c # cs)))"

definition load_all_term_chunks :: "query_storage \<Rightarrow> string \<Rightarrow> string \<Rightarrow> stored_chunk list option" where
  "load_all_term_chunks st field trm = load_chunks st field trm 0"

definition build_cache_key :: "query_token \<Rightarrow> string" where
  "build_cache_key t = qt_field t @ '':'' @ qt_term t"

text \<open>
  A miss: the term's chunks, decoded and joined. The outer option is divergence, the sum an
  exception of the decoder, the inner option \<open>None\<close> a term without chunks.
\<close>

definition retrieve_term ::
    "(rat \<Rightarrow> string) \<Rightarrow> query_deps \<Rightarrow> string \<Rightarrow> string \<Rightarrow> (serializer_error + retrieved_chunk option) option" where
  "retrieve_term dtoa deps field trm =
     (case load_all_term_chunks (qd_storage deps) field trm of
        None \<Rightarrow> None
      | Some [] \<Rightarrow> Some (Inr None)
      | Some (c # cs) \<Rightarrow>
          Some (bind_sum (map_sum_list (decode_chunk dtoa deps) (c # cs)) (\<lambda>decoded.
            Inr (Some \<lparr>rc_term = trm, rc_field = field, rc_frequency = sc_frequency c,
                      rc_postings = concat decoded, rc_idf = sc_idf c\<rparr>))))"

definition apply_boost :: "jsnum \<Rightarrow> retrieved_chunk \<Rightarrow> retrieved_chunk" where
  "apply_boost boost c =
     (if boost \<noteq> Fin 0 \<and> boost \<noteq> NaN \<and> boost \<noteq> Fin 1
      then c\<lparr>rc_postings := map (\<lambda>p. p\<lparr>tp_frequency := tp_frequency p * boost\<rparr>) (rc_postings c)\<rparr>
      else c)"

section \<open>Execution\<close>

text \<open>
  The loop over the tokens with the term cache; \<open>clock n\<close> is the time of the cache's \<open>n\<close>-th
  operation.
\<close>

fun collect_postings ::
    "(rat \<Rightarrow> string) \<Rightarrow> query_deps \<Rightarrow> (nat \<Rightarrow> int) \<Rightarrow> nat \<Rightarrow> retrieved_chunk lru \<Rightarrow> query_token list
     \<Rightarrow> ((serializer_error + retrieved_chunk list) \<times> retrieved_chunk lru) option" where
  "collect_postings dtoa deps clock n tc [] = Some (Inr [], tc)"
| "collect_postings dtoa deps clock n tc (t # ts) =
     (let key = build_cache_key t;
          (cached, tc1) = lru_get (clock n) key tc
      in case cached of
           Some c \<Rightarrow>
             map_option (\<lambda>(r, tc2). (bind_sum r (\<lambda>cs. Inr (apply_boost (qt_boost t) c # cs)), tc2))
               (collect_postings dtoa deps clock (n + 1) tc1 ts)
         | None \<Rightarrow>
             (case retrieve_term dtoa deps (qt_field t) (qt_term t) of
                None \<Rightarrow> None
              | Some (Inl e) \<Rightarrow> Some (Inl e, tc1)
              | Some (Inr None) \<Rightarrow> collect_postings dtoa deps clock (n + 1) tc1 ts
              | Some (Inr (Some c)) \<Rightarrow>
                  map_option (\<lambda>(r, tc2). (bind_sum r (\<lambda>cs. Inr (apply_boost (qt_boost t) c # cs)), tc2))
                    (collect_postings dtoa deps clock (n + 2) (lru_set (clock (n + 1)) key c tc1) ts)))"

definition doc_lengths :: "query_deps \<Rightarrow> jsnum \<Rightarrow> retrieved_chunk list \<Rightarrow> (docid, jsnum) jmap" where
  "doc_lengths deps average chunks =
     foldl (\<lambda>m p. if jmap_has m (tp_doc p) then m
                  else jmap_set (tp_doc p) (case qd_length deps (tp_doc p) of Some l \<Rightarrow> l | None \<Rightarrow> average) m)
       [] (concat (map rc_postings chunks))"

definition rank_postings ::
    "(jsnum \<Rightarrow> jsnum) \<Rightarrow> query_deps \<Rightarrow> jsnum option \<Rightarrow> retrieved_chunk list \<Rightarrow> query_result" where
  "rank_postings mlog deps limitOption chunks =
     (let average = (if Fin 0 < qd_average deps then qd_average deps else Fin 1);
          lengths = doc_lengths deps average chunks;
          limit = (case limitOption of Some l \<Rightarrow> l | None \<Rightarrow> Fin 10);
          scored = (case qd_score deps of
             Some f \<Rightarrow> f chunks lengths average engine_options (Some limit)
           | None \<Rightarrow> score_query_results mlog chunks lengths average engine_options (Some limit))
      in \<lparr>qr_documents = js_slice_to limit scored, qr_postings = chunks\<rparr>)"

definition execute_query ::
    "(rat \<Rightarrow> string) \<Rightarrow> (jsnum \<Rightarrow> jsnum) \<Rightarrow> query_deps \<Rightarrow> (nat \<Rightarrow> int) \<Rightarrow> retrieved_chunk lru
     \<Rightarrow> query_token list \<Rightarrow> jsnum option \<Rightarrow> ((serializer_error + query_result) \<times> retrieved_chunk lru) option" where
  "execute_query dtoa mlog deps clock tc tokens limit =
     map_option (\<lambda>(r, tc2). (bind_sum r (\<lambda>chunks. Inr (rank_postings mlog deps limit chunks)), tc2))
       (collect_postings dtoa deps clock 0 tc tokens)"

section \<open>The core engine\<close>

record core_engine_options =
  eo_storage :: query_storage
  eo_length :: "docid \<Rightarrow> jsnum option"
  eo_average :: jsnum
  eo_pipeline :: pipeline_options

definition engine_ingest :: "core_engine_options \<Rightarrow> indexing_record \<Rightarrow> pipeline_error + ingested_document" where
  "engine_ingest opts r = ingest (pipeline_run (eo_pipeline opts)) r"

definition engine_ingest_batch ::
    "core_engine_options \<Rightarrow> indexing_record list \<Rightarrow> pipeline_error + ingested_document list" where
  "engine_ingest_batch opts rs = ingest_batch (pipeline_run (eo_pipeline opts)) rs"

definition engine_encode_postings :: "(rat \<Rightarrow> string) \<Rightarrow> term_posting list \<Rightarrow> stored_chunk" where
  "engine_encode_postings dtoa ps =
     (let serialized = map (\<lambda>p. JStr (json_val dtoa (posting_value p))) ps;
          r = encode_postings dtoa serialized
      in \<lparr>sc_payload = er_buffer r, sc_encoding = Some (er_encoding r),
          sc_frequency = Fin (of_nat (length ps)), sc_idf = None\<rparr>)"

definition engine_parse_record :: "(rat \<Rightarrow> string) \<Rightarrow> jsrec \<Rightarrow> term_posting option" where
  "engine_parse_record dtoa r =
     (let tf = js_number dtoa (if js_nullish (js_get r ''termFrequency'') then JNum (Fin 1)
                               else js_get r ''termFrequency'')
      in case js_get r ''docId'' of
           JStr s \<Rightarrow> Some \<lparr>tp_doc = DStr (js_string dtoa (JStr s)),
                          tp_frequency = (if is_fin tf \<and> Fin 0 < tf then tf else Fin 1),
                          tp_metadata = posting_metadata (js_get r ''metadata'')\<rparr>
         | JNum x \<Rightarrow> Some \<lparr>tp_doc = DStr (js_string dtoa (JNum x)),
                          tp_frequency = (if is_fin tf \<and> Fin 0 < tf then tf else Fin 1),
                          tp_metadata = posting_metadata (js_get r ''metadata'')\<rparr>
         | _ \<Rightarrow> None)"

definition engine_parse_posting :: "(rat \<Rightarrow> string) \<Rightarrow> jsval \<Rightarrow> term_posting option" where
  "engine_parse_posting dtoa raw =
     (case raw of
        JStr s \<Rightarrow>
          (case json_parse s of
             Some (JObj r) \<Rightarrow>
               (if jmap_has r ''docId'' then engine_parse_record dtoa r
                else Some \<lparr>tp_doc = DStr s, tp_frequency = Fin 1, tp_metadata = None\<rparr>)
           | _ \<Rightarrow> Some \<lparr>tp_doc = DStr s, tp_frequency = Fin 1, tp_metadata = None\<rparr>)
      | JNum x \<Rightarrow> Some \<lparr>tp_doc = DStr (js_string dtoa (JNum x)), tp_frequency = Fin 1, tp_metadata = None\<rparr>
      | JObj r \<Rightarrow> engine_parse_record dtoa r
      | _ \<Rightarrow> None)"

definition engine_decode_postings ::
    "(rat \<Rightarrow> string) \<Rightarrow> query_storage \<Rightarrow> stored_chunk \<Rightarrow> serializer_error + term_posting list" where
  "engine_decode_postings dtoa st chunk =
     bind_sum (qs_decode st chunk) (\<lambda>vs. Inr (some_of (map (engine_parse_posting dtoa) vs)))"

definition engine_deps :: "core_engine_options \<Rightarrow> query_deps" where
  "engine_deps opts = \<lparr>qd_storage = eo_storage opts, qd_length = eo_length opts, qd_average = eo_average opts,
     qd_decode = None, qd_score = None\<rparr>"

definition engine_execute_query ::
    "(rat \<Rightarrow> string) \<Rightarrow> (jsnum \<Rightarrow> jsnum) \<Rightarrow> core_engine_options \<Rightarrow> (nat \<Rightarrow> int) \<Rightarrow> retrieved_chunk lru
     \<Rightarrow> query_token list \<Rightarrow> jsnum option \<Rightarrow> ((serializer_error + query_result) \<times> retrieved_chunk lru) option" where
  "engine_execute_query dtoa mlog opts clock tc tokens limit =
     execute_query dtoa mlog (engine_deps opts) clock tc tokens limit"

section \<open>Loading terminates\<close>

lemma load_chunks_end:
  assumes "qs_get_chunk st f t (i + n) = None" and "\<And>j. j < n \<Longrightarrow> qs_get_chunk st f t (i + j) \<noteq> None"
  shows "load_chunks st f t i = Some (map (\<lambda>j. the (qs_get_chunk st f t j)) [i..<i + n])"
  using assms
proof (induction n arbitrary: i)
  case 0
  then show ?case by (simp add: load_chunks.simps)
next
  case (Suc n)
  obtain c where c: "qs_get_chunk st f t i = Some c" using Suc.prems(2) [of 0] by auto
  have "load_chunks st f t (i + 1) = Some (map (\<lambda>j. the (qs_get_chunk st f t j)) [i + 1..<i + 1 + n])"
  proof (rule Suc.IH)
    show "qs_get_chunk st f t (i + 1 + n) = None" using Suc.prems(1) by simp
    show "qs_get_chunk st f t (i + 1 + j) \<noteq> None" if "j < n" for j using Suc.prems(2) [of "Suc j"] that by simp
  qed
  moreover have "[i..<i + Suc n] = i # [i + 1..<i + 1 + n]" by (simp add: upt_conv_Cons del: upt_Suc)
  ultimately show ?case using c by (subst load_chunks.simps) (simp del: upt_Suc)
qed

lemma load_chunks_some:
  "load_chunks st f t i = Some cs \<Longrightarrow> qs_get_chunk st f t (i + length cs) = None"
proof (induction cs arbitrary: i)
  case Nil
  then show ?case by (subst (asm) load_chunks.simps) (auto split: option.splits bind_splits)
next
  case (Cons c cs)
  then have "load_chunks st f t (i + 1) = Some cs"
    by (subst (asm) load_chunks.simps) (auto split: option.splits bind_splits)
  from Cons.IH [OF this] show ?case by simp
qed

lemma load_all_iff:
  "load_all_term_chunks st f t = (if \<exists>i. qs_get_chunk st f t i = None
     then Some (map (\<lambda>j. the (qs_get_chunk st f t j)) [0..<LEAST i. qs_get_chunk st f t i = None]) else None)"
proof (cases "\<exists>i. qs_get_chunk st f t i = None")
  case True
  let ?n = "LEAST i. qs_get_chunk st f t i = None"
  have "load_chunks st f t 0 = Some (map (\<lambda>j. the (qs_get_chunk st f t j)) [0..<0 + ?n])"
  proof (rule load_chunks_end)
    show "qs_get_chunk st f t (0 + ?n) = None" using LeastI_ex [OF True] by simp
    show "qs_get_chunk st f t (0 + j) \<noteq> None" if "j < ?n" for j using not_less_Least [OF that] by simp
  qed
  then show ?thesis unfolding if_P [OF True] load_all_term_chunks_def by simp
next
  case False
  then have "load_chunks st f t 0 = None"
    using load_chunks_some [of st f t 0] by (metis option.exhaust)
  then show ?thesis unfolding if_not_P [OF False] load_all_term_chunks_def .
qed

section \<open>The cache does not show\<close>

text \<open>The loop without a cache.\<close>

fun collect_uncached ::
    "(rat \<Rightarrow> string) \<Rightarrow> query_deps \<Rightarrow> query_token list \<Rightarrow> (serializer_error + retrieved_chunk list) option" where
  "collect_uncached dtoa deps [] = Some (Inr [])"
| "collect_uncached dtoa deps (t # ts) =
     (case retrieve_term dtoa deps (qt_field t) (qt_term t) of
        None \<Rightarrow> None
      | Some (Inl e) \<Rightarrow> Some (Inl e)
      | Some (Inr None) \<Rightarrow> collect_uncached dtoa deps ts
      | Some (Inr (Some c)) \<Rightarrow>
          map_option (\<lambda>r. bind_sum r (\<lambda>cs. Inr (apply_boost (qt_boost t) c # cs))) (collect_uncached dtoa deps ts))"

text \<open>The source the cached values come from: the key's part after the last colon is the term.\<close>

definition key_term :: "string \<Rightarrow> string" where
  "key_term k = rev (takeWhile (\<lambda>c. c \<noteq> CHR '':'') (rev k))"

definition key_field :: "string \<Rightarrow> string" where
  "key_field k = take (length k - Suc (length (key_term k))) k"

definition term_source :: "(rat \<Rightarrow> string) \<Rightarrow> query_deps \<Rightarrow> string \<Rightarrow> retrieved_chunk option" where
  "term_source dtoa deps k =
     (case retrieve_term dtoa deps (key_field k) (key_term k) of Some (Inr (Some c)) \<Rightarrow> Some c | _ \<Rightarrow> None)"

definition plain_term :: "query_token \<Rightarrow> bool" where
  "plain_term t = (CHR '':'' \<notin> set (qt_term t))"

lemma key_parts:
  assumes "plain_term t"
  shows "key_term (build_cache_key t) = qt_term t" "key_field (build_cache_key t) = qt_field t"
proof -
  have "takeWhile (\<lambda>c. c \<noteq> CHR '':'') (rev (qt_term t) @ CHR '':'' # rev (qt_field t)) = rev (qt_term t)"
    using assms by (auto simp: plain_term_def takeWhile_append)
  then show "key_term (build_cache_key t) = qt_term t" by (simp add: key_term_def build_cache_key_def)
  then show "key_field (build_cache_key t) = qt_field t" by (simp add: key_field_def) (simp add: build_cache_key_def)
qed

lemma collect_cached:
  "lru.coherent (term_source dtoa deps) tc \<Longrightarrow> list_all plain_term ts \<Longrightarrow>
   (case collect_postings dtoa deps clock n tc ts of
      None \<Rightarrow> collect_uncached dtoa deps ts = None
    | Some (r, tc') \<Rightarrow> collect_uncached dtoa deps ts = Some r \<and> lru.coherent (term_source dtoa deps) tc')"
proof (induction ts arbitrary: n tc)
  case (Cons t ts)
  let ?k = "build_cache_key t"
  let ?src = "term_source dtoa deps"
  have key: "key_term ?k = qt_term t" "key_field ?k = qt_field t" using Cons.prems(2) key_parts by auto
  obtain cached tc1 where get: "lru_get (clock n) ?k tc = (cached, tc1)" by force
  have tc1: "lru.coherent ?src tc1" using lru.coherent_get [OF Cons.prems(1), of "clock n" ?k] get by simp
  show ?case
  proof (cases cached)
    case (Some c)
    have "?src ?k = Some c" using lru.coherent_get_value [OF Cons.prems(1), of "clock n" ?k c] get Some by simp
    then have "retrieve_term dtoa deps (qt_field t) (qt_term t) = Some (Inr (Some c))"
      by (auto simp: term_source_def key split: option.splits sum.splits)
    with Cons.IH [OF tc1, of "n + 1"] Cons.prems(2) get Some show ?thesis
      by (auto simp: Let_def split: option.splits)
  next
    case None
    consider (div) "retrieve_term dtoa deps (qt_field t) (qt_term t) = None"
      | (err) e where "retrieve_term dtoa deps (qt_field t) (qt_term t) = Some (Inl e)"
      | (absent) "retrieve_term dtoa deps (qt_field t) (qt_term t) = Some (Inr None)"
      | (found) c where "retrieve_term dtoa deps (qt_field t) (qt_term t) = Some (Inr (Some c))"
      by (metis not_Some_eq sum.exhaust_sel)
    then show ?thesis
    proof cases
      case absent
      with Cons.IH [OF tc1, of "n + 1"] Cons.prems(2) get None show ?thesis
        by (auto simp: Let_def split: option.splits)
    next
      case found
      then have "?src ?k = Some c" by (simp add: term_source_def key)
      with tc1 have "lru.coherent ?src (lru_set (clock (n + 1)) ?k c tc1)" by (rule lru.coherent_set)
      from Cons.IH [OF this, of "n + 2"] found Cons.prems(2) get None show ?thesis
        by (auto simp: Let_def split: option.splits)
    qed (use tc1 get None in \<open>simp_all add: Let_def\<close>)
  qed
qed simp

section \<open>Encoding for the storage\<close>

definition chunk_decoder :: "stored_chunk \<Rightarrow> serializer_error + jsval list" where
  "chunk_decoder chunk =
     decode_postings (sc_payload chunk) (case sc_encoding chunk of Some e \<Rightarrow> e | None \<Rightarrow> DeltaVarint)"

text \<open>Postings JSON can carry: integral frequencies and numeric ids, JSON metadata.\<close>

definition json_posting :: "term_posting \<Rightarrow> bool" where
  "json_posting p =
     ((\<exists>i. tp_frequency p = Fin (of_int i) \<and> 0 < i \<and> i < 10 ^ 21) \<and>
      (case tp_doc p of DStr s \<Rightarrow> True | DNum i \<Rightarrow> \<bar>i\<bar> < 10 ^ 21) \<and>
      (case tp_metadata p of None \<Rightarrow> True | Some r \<Rightarrow> json_ok (JObj r)))"

definition with_string_id :: "term_posting \<Rightarrow> term_posting" where
  "with_string_id p = p\<lparr>tp_doc := DStr (docid_string (tp_doc p))\<rparr>"

lemma parse_engine_record: "engine_parse_record dtoa r = parse_posting_record dtoa r"
  by (simp add: engine_parse_record_def parse_posting_record_def Let_def cong: jsval.case_cong)

lemma json_int_ok: "\<bar>i\<bar> < 10 ^ 21 \<Longrightarrow> json_ok (JNum (Fin (of_int i)))"
proof -
  assume "\<bar>i\<bar> < 10 ^ 21"
  then have "\<bar>of_int i :: rat\<bar> < 10 ^ 21" by (metis of_int_abs of_int_less_iff of_int_numeral of_int_power)
  then show ?thesis by simp
qed

lemma parse_posting_json:
  assumes "json_posting p"
  shows "engine_parse_posting dtoa (JStr (json_val dtoa (posting_value p))) = Some (with_string_id p)"
proof -
  obtain i where tf: "tp_frequency p = Fin (of_int i)" "0 < i" "i < 10 ^ 21"
    using assms by (auto simp: json_posting_def)
  define doc where "doc = (case tp_doc p of DStr s \<Rightarrow> JStr s | DNum i \<Rightarrow> JNum (Fin (of_int i)))"
  define meta where "meta = (case tp_metadata p of None \<Rightarrow> [] | Some r \<Rightarrow> [(''metadata'', JObj r)])"
  define kvs where "kvs = [(''docId'', doc), (''termFrequency'', JNum (tp_frequency p))] @ meta"
  have shape: "json_val dtoa (posting_value p) = json_val dtoa (JObj kvs)"
    unfolding posting_value_def
    by (subst json_val_undef, subst (2) json_val_undef)
      (auto simp: kvs_def doc_def meta_def split: docid.split option.split)
  have doc_ok: "json_ok doc"
    using assms json_int_ok unfolding doc_def json_posting_def by (auto split: docid.splits simp del: json_ok.simps(4))
  have "json_ok (JNum (tp_frequency p))" unfolding tf(1) using tf(2,3) by (intro json_int_ok) simp
  with doc_ok have ok: "json_ok (JObj kvs)"
    using assms by (auto simp: kvs_def meta_def json_posting_def split: option.splits simp del: json_ok.simps(4))
  have parsed: "json_parse (json_val dtoa (posting_value p)) = Some (JObj kvs)"
    unfolding shape by (rule json_roundtrip_lib [OF ok])
  have fields: "js_get kvs ''docId'' = doc" "js_get kvs ''termFrequency'' = JNum (tp_frequency p)"
    "posting_metadata (js_get kvs ''metadata'') = tp_metadata p" "jmap_has kvs ''docId''"
    by (auto simp: kvs_def meta_def js_get_def posting_metadata_def split: option.split)
  have pos: "Fin 0 < tp_frequency p" "is_fin (tp_frequency p)" using tf by auto
  have "engine_parse_record dtoa kvs = Some (with_string_id p)"
  proof (cases "tp_doc p")
    case (DStr s)
    with fields pos show ?thesis
      by (simp add: engine_parse_record_def doc_def js_number_def with_string_id_def docid_string_def)
  next
    case (DNum n)
    then have "num_to_string dtoa (Fin (of_int n)) = int_to_string n"
      using assms by (intro num_to_string_int) (auto simp: json_posting_def)
    with DNum fields pos show ?thesis
      by (simp add: engine_parse_record_def doc_def js_number_def with_string_id_def docid_string_def)
  qed
  with parsed fields(4) show ?thesis by (simp add: engine_parse_posting_def)
qed

lemma decode_encoded_engine:
  assumes "list_all json_posting ps"
  shows "bind_sum (chunk_decoder (engine_encode_postings dtoa ps)) (\<lambda>vs. Inr (some_of (map (engine_parse_posting dtoa) vs))) =
    Inr (map with_string_id ps)"
proof -
  let ?vs = "map (\<lambda>p. JStr (json_val dtoa (posting_value p))) ps"
  have "decode_postings (er_buffer (encode_postings dtoa ?vs)) (er_encoding (encode_postings dtoa ?vs)) = Inr ?vs"
  proof (cases "ps = []")
    case True
    then show ?thesis by (simp add: encode_postings_def decode_postings_def decode_deltas.simps)
  next
    case False
    then have "\<not> can_delta_encode ?vs" by (cases ps) (simp_all add: can_delta_encode_def)
    with False have "encode_postings dtoa ?vs = json_result dtoa ?vs" by (simp add: encode_postings_def)
    moreover have "list_all plain_id ?vs" by (simp add: list_all_iff plain_id_def)
    moreover have "er_encoding (json_result dtoa ?vs) = JsonEnc" by (simp add: json_result_def)
    ultimately show ?thesis using decode_json_result [of ?vs dtoa] by simp
  qed
  moreover have "some_of (map (engine_parse_posting dtoa) ?vs) = map with_string_id ps"
    unfolding map_map comp_def using assms by (intro some_of_map parse_posting_json) (simp add: list_all_iff)
  ultimately show ?thesis by (simp add: chunk_decoder_def engine_encode_postings_def Let_def)
qed

section \<open>Limits\<close>

lemma js_slice_twice: "js_slice_to l (js_slice_to (js_max (Fin 0) l) xs) = js_slice_to (js_max (Fin 0) l) xs"
  by (cases l) (auto simp: js_slice_to_def js_max_def Let_def max_def)

lemma score_query_slice:
  "score_query_results mlog chunks lengths average options (Some l) =
     js_slice_to (js_max (Fin 0) l) (score_postings mlog chunks lengths average options)"
  unfolding score_query_results_def score_postings_def Let_def option.case ..

lemma scored_has_posting:
  assumes "s \<in> set (score_postings mlog chunks lengths avg engine_options)"
  shows "\<exists>c \<in> set chunks. \<exists>p \<in> set (rc_postings c). tp_doc p = sd_doc s"
proof -
  note sums = conjunct2 [OF scores_are_sums_lib [of mlog chunks lengths avg]]
  obtain d where d: "s = \<lparr>sd_doc = d, sd_score = doc_score (contributions mlog chunks lengths avg) d\<rparr>"
      "\<exists>c \<in> set chunks. \<exists>p \<in> set (rc_postings c). tp_doc p = d"
    using assms unfolding sums by blast
  have "sd_doc s = d" unfolding d(1) by (rule scored_document.select_convs)
  with d(2) show ?thesis by simp
qed

section \<open>A storage with one chunk\<close>

text \<open>The storage of the examples: the term \<open>c\<close> of the field \<open>a:b\<close> has one chunk, holding \<open>doc\<close>.\<close>

definition one_chunk :: stored_chunk where
  "one_chunk = \<lparr>sc_payload = [], sc_encoding = None, sc_frequency = Fin 1, sc_idf = None\<rparr>"

definition colon_deps :: query_deps where
  "colon_deps = \<lparr>qd_storage = \<lparr>qs_get_chunk = (\<lambda>f t i. if f = ''a:b'' \<and> t = ''c'' \<and> i = 0 then Some one_chunk else None),
       qs_decode = (\<lambda>_. Inr [JStr ''doc''])\<rparr>,
     qd_length = (\<lambda>_. None), qd_average = Fin 1, qd_decode = None, qd_score = None\<rparr>"

lemma colon_retrieve:
  "\<exists>c. retrieve_term (\<lambda>_. []) colon_deps ''a:b'' ''c'' = Some (Inr (Some c)) \<and>
     rc_postings c = [\<lparr>tp_doc = DStr ''doc'', tp_frequency = Fin 1, tp_metadata = None\<rparr>]"
proof -
  have "load_all_term_chunks (qd_storage colon_deps) ''a:b'' ''c'' = Some [one_chunk]"
    by (simp add: load_all_term_chunks_def colon_deps_def load_chunks.simps)
  moreover have "json_parse ''doc'' = None" by code_simp
  ultimately show ?thesis
    by (simp add: retrieve_term_def decode_chunk_def colon_deps_def parse_posting_def)
qed

lemma collect_miss:
  assumes "lru_ok tc" and "lru_lookup tc (build_cache_key t) = None"
    and "retrieve_term dtoa deps (qt_field t) (qt_term t) = Some (Inr (Some c))"
  shows "\<exists>tc'. collect_postings dtoa deps clock 0 tc [t] = Some (Inr [apply_boost (qt_boost t) c], tc')"
proof -
  obtain r tc1 where get: "lru_get (clock 0) (build_cache_key t) tc = (r, tc1)" by force
  then have "r = None" using lru.get_value [OF assms(1), of "clock 0" "build_cache_key t"] assms(2) by auto
  with get assms(3) show ?thesis by (simp add: Let_def)
qed

section \<open>Properties\<close>

text \<open>
  Loading a term's chunks ends exactly if some chunk number is absent from the storage,
  and returns all chunks before the first absent one.
\<close>

theorem chunk_loading_ends:
  "load_all_term_chunks st f t = (if \<exists>i. qs_get_chunk st f t i = None
     then Some (map (\<lambda>j. the (qs_get_chunk st f t j)) [0..<LEAST i. qs_get_chunk st f t i = None]) else None)"
  by (rule load_all_iff)

text \<open>The engine without a cache: every token's chunks are loaded and decoded anew.\<close>

definition execute_uncached ::
    "(rat \<Rightarrow> string) \<Rightarrow> (jsnum \<Rightarrow> jsnum) \<Rightarrow> query_deps \<Rightarrow> query_token list \<Rightarrow> jsnum option \<Rightarrow> (serializer_error + query_result) option" where
  "execute_uncached dtoa mlog deps tokens limit =
     map_option (\<lambda>r. bind_sum r (\<lambda>chunks. Inr (rank_postings mlog deps limit chunks))) (collect_uncached dtoa deps tokens)"

text \<open>
  C20: the term cache does not show in the results: from any cache that is consistent with the
  storage, however small, and whatever the clock says, a query of terms without a colon gives the
  documents and postings, or the error, that loading every term anew gives, ends exactly if that
  ends, and leaves the cache consistent. With colons in terms two tokens may share a key
  (\<open>colliding_keys_share_postings\<close>).
\<close>

theorem term_cache_transparent:
  assumes "lru_ok a" and "\<forall>k v. lru_lookup a k = Some v \<longrightarrow> term_source dtoa deps k = Some v"
    and "list_all plain_term tokens"
  shows "map_option fst (execute_query dtoa mlog deps clock a tokens limit) = execute_uncached dtoa mlog deps tokens limit \<and>
    (\<forall>r a'. execute_query dtoa mlog deps clock a tokens limit = Some (r, a') \<longrightarrow>
      lru_ok a' \<and> (\<forall>k v. lru_lookup a' k = Some v \<longrightarrow> term_source dtoa deps k = Some v))"
proof -
  have a: "lru.coherent (term_source dtoa deps) a" using assms(1,2) by (simp add: lru.coherent_def)
  have fst: "map_option fst (collect_postings dtoa deps clock 0 a tokens) = collect_uncached dtoa deps tokens"
    using collect_cached [OF a assms(3), of clock 0] by (auto split: option.splits)
  have "map_option fst (execute_query dtoa mlog deps clock a tokens limit) = execute_uncached dtoa mlog deps tokens limit"
    unfolding execute_uncached_def fst [symmetric] execute_query_def option.map_comp by (simp add: comp_def case_prod_unfold)
  moreover have "lru.coherent (term_source dtoa deps) a'"
    if "execute_query dtoa mlog deps clock a tokens limit = Some (r, a')" for r a'
    using collect_cached [OF a assms(3), of clock 0] that
    by (auto simp: execute_query_def split: option.splits)
  ultimately show ?thesis by (auto simp: lru.coherent_def)
qed

theorem term_cache_transparent_witness:
  "\<exists>a. lru_new 1 = Inr a \<and>
    map_option fst (execute_query (\<lambda>_. []) (\<lambda>_. Fin 1) colon_deps (\<lambda>n. int n) a
      [\<lparr>qt_field = ''a:b'', qt_term = ''c'', qt_boost = Fin 1\<rparr>, \<lparr>qt_field = ''a:b'', qt_term = ''c'', qt_boost = Fin 2\<rparr>] None) =
    execute_uncached (\<lambda>_. []) (\<lambda>_. Fin 1) colon_deps
      [\<lparr>qt_field = ''a:b'', qt_term = ''c'', qt_boost = Fin 1\<rparr>, \<lparr>qt_field = ''a:b'', qt_term = ''c'', qt_boost = Fin 2\<rparr>] None"
proof -
  obtain a :: "retrieved_chunk lru" where new: "lru_new 1 = Inr a" by (simp add: lru_new_def)
  have "lru_ok a" "lru_entries a = []" using lru_new_ok [OF new] by auto
  then have empty: "\<forall>k v. lru_lookup a k = Some v \<longrightarrow> term_source (\<lambda>_. []) colon_deps k = Some v"
    by (simp add: lru_lookup_def spec_find_def)
  show ?thesis
    by (intro exI conjI, rule new, rule conjunct1 [OF term_cache_transparent [OF \<open>lru_ok a\<close> empty]]) (simp add: plain_term_def)
qed

text \<open>
  The cache key does not separate field and term: if a term with the same key was loaded
  before, the second token is answered with the first one's postings, whatever the storage
  holds for it.
\<close>

theorem colliding_keys_share_postings:
  assumes "lru_ok tc" and "lru_lookup tc (build_cache_key t) = None"
    and "retrieve_term dtoa deps (qt_field t) (qt_term t) = Some (Inr (Some c))"
    and "build_cache_key u = build_cache_key t"
  shows "map_option fst (collect_postings dtoa deps clock 0 tc [t, u]) =
    Some (Inr [apply_boost (qt_boost t) c, apply_boost (qt_boost u) c])"
proof -
  let ?k = "build_cache_key t"
  obtain r tc1 where get: "lru_get (clock 0) ?k tc = (r, tc1)" by force
  have r: "r = None" "lru_ok tc1"
    using lru.get_value [OF assms(1), of "clock 0" ?k] lru.get_ok [OF assms(1), of "clock 0" ?k] get assms(2) by auto
  let ?tc2 = "lru_set (clock 1) ?k c tc1"
  have ok2: "lru_ok ?tc2" and v2: "lru_lookup ?tc2 ?k = Some c"
    using lru.set_ok [OF r(2)] lru.set_value [OF r(2)] by auto
  obtain r3 tc3 where get3: "lru_get (clock 2) ?k ?tc2 = (r3, tc3)" by force
  have "r3 = Some c" using lru.get_value [OF ok2, of "clock 2" ?k] get3 v2 by simp
  with get get3 r assms(3,4) show ?thesis by (simp add: Let_def numeral_2_eq_2)
qed

theorem colliding_keys_share_postings_witness:
  "\<exists>tc c. lru_new 5 = Inr tc \<and> load_all_term_chunks (qd_storage colon_deps) ''a'' ''b:c'' = Some [] \<and>
    map_option fst (collect_postings (\<lambda>_. []) colon_deps (\<lambda>_. 0) 0 tc
      [\<lparr>qt_field = ''a:b'', qt_term = ''c'', qt_boost = Fin 1\<rparr>, \<lparr>qt_field = ''a'', qt_term = ''b:c'', qt_boost = Fin 1\<rparr>]) =
    Some (Inr [c, c]) \<and> rc_postings c \<noteq> []"
proof -
  obtain tc :: "retrieved_chunk lru" where new: "lru_new 5 = Inr tc" by (simp add: lru_new_def)
  have ok: "lru_ok tc" "lru_entries tc = []" using lru_new_ok [OF new] by auto
  let ?t = "\<lparr>qt_field = ''a:b'', qt_term = ''c'', qt_boost = Fin 1\<rparr>"
  let ?u = "\<lparr>qt_field = ''a'', qt_term = ''b:c'', qt_boost = Fin 1\<rparr>"
  have none: "load_all_term_chunks (qd_storage colon_deps) ''a'' ''b:c'' = Some []"
    by (simp add: load_all_term_chunks_def load_chunks.simps colon_deps_def)
  obtain c where c: "retrieve_term (\<lambda>_. []) colon_deps ''a:b'' ''c'' = Some (Inr (Some c))" "rc_postings c \<noteq> []"
    using colon_retrieve by auto
  have "map_option fst (collect_postings (\<lambda>_. []) colon_deps (\<lambda>_. 0) 0 tc [?t, ?u]) =
      Some (Inr [apply_boost (qt_boost ?t) c, apply_boost (qt_boost ?u) c])"
    by (rule colliding_keys_share_postings)
      (use ok c in \<open>simp_all add: lru_lookup_def spec_find_def build_cache_key_def\<close>)
  with new none c(2) show ?thesis by (auto simp: apply_boost_def)
qed

text \<open>
  The two copies of \<open>parsePosting\<close> agree, and postings the core engine encodes for the
  storage are decoded to the same frequencies and metadata, with the identifier as a string.
\<close>

theorem engine_postings_roundtrip:
  assumes "list_all json_posting ps" and "qs_decode st = chunk_decoder"
  shows "engine_parse_posting dtoa = parse_posting dtoa \<and>
    engine_decode_postings dtoa st (engine_encode_postings dtoa ps) = Inr (map with_string_id ps)"
proof -
  have "engine_parse_posting dtoa = parse_posting dtoa"
    by (intro ext) (simp add: engine_parse_posting_def parse_posting_def parse_engine_record
        split: jsval.split option.split)
  with decode_encoded_engine [OF assms(1), of dtoa] show ?thesis
    by (simp add: engine_decode_postings_def assms(2))
qed

theorem engine_postings_roundtrip_witness:
  "engine_decode_postings (\<lambda>_. []) \<lparr>qs_get_chunk = (\<lambda>_ _ _. None), qs_decode = chunk_decoder\<rparr>
     (engine_encode_postings (\<lambda>_. []) [\<lparr>tp_doc = DStr ''d1'', tp_frequency = Fin 3, tp_metadata = None\<rparr>]) =
   Inr [\<lparr>tp_doc = DStr ''d1'', tp_frequency = Fin 3, tp_metadata = None\<rparr>]"
proof -
  have "json_posting \<lparr>tp_doc = DStr ''d1'', tp_frequency = Fin 3, tp_metadata = None\<rparr>"
    by (auto simp: json_posting_def intro!: exI [of _ 3])
  then show ?thesis
    using engine_postings_roundtrip [of "[\<lparr>tp_doc = DStr ''d1'', tp_frequency = Fin 3, tp_metadata = None\<rparr>]"
        "\<lparr>qs_get_chunk = (\<lambda>_ _ _. None), qs_decode = chunk_decoder\<rparr>" "\<lambda>_. []"]
    by (simp add: with_string_id_def docid_string_def)
qed

text \<open>
  With the built-in scorer a query returns at most \<open>limit\<close> documents (ten by default),
  none twice, each of them with a posting among the collected ones.
\<close>

theorem query_results_sound:
  assumes "execute_query dtoa mlog deps clock tc tokens limit = Some (Inr res, tc')" and "qd_score deps = None"
  shows "distinct (map sd_doc (qr_documents res)) \<and>
    (\<forall>s \<in> set (qr_documents res). \<exists>c \<in> set (qr_postings res). \<exists>p \<in> set (rc_postings c). tp_doc p = sd_doc s) \<and>
    (limit = None \<longrightarrow> length (qr_documents res) \<le> 10) \<and>
    (\<forall>n. limit = Some (Fin (of_nat n)) \<longrightarrow> length (qr_documents res) \<le> n)"
proof -
  obtain chunks where res: "res = rank_postings mlog deps limit chunks"
    using assms(1) by (auto simp: execute_query_def bind_sum_Inr split: option.splits)
  define average where "average = (if Fin 0 < qd_average deps then qd_average deps else Fin 1)"
  define lengths where "lengths = doc_lengths deps average chunks"
  define l where "l = (case limit of Some l \<Rightarrow> l | None \<Rightarrow> Fin 10)"
  let ?all = "score_postings mlog chunks lengths average engine_options"
  have docs: "qr_documents res = js_slice_to (js_max (Fin 0) l) ?all" and posts: "qr_postings res = chunks"
    unfolding res rank_postings_def Let_def average_def [symmetric] lengths_def [symmetric] l_def [symmetric]
      assms(2) option.case score_query_slice
    by (simp_all only: query_result.simps js_slice_twice)
  note sums = scores_are_sums_lib [of mlog chunks lengths average]
  have "distinct (map sd_doc (qr_documents res))" unfolding docs by (rule js_slice_set(2)) (use sums in blast)
  moreover have "\<exists>c \<in> set chunks. \<exists>p \<in> set (rc_postings c). tp_doc p = sd_doc s" if "s \<in> set (qr_documents res)" for s
  proof -
    have "s \<in> set ?all" by (rule subsetD [OF js_slice_set(1) that [unfolded docs]])
    then show ?thesis by (rule scored_has_posting)
  qed
  moreover have "length (qr_documents res) \<le> n" if "l = Fin (of_nat n)" for n
    unfolding docs that by (simp add: js_slice_to_nat)
  moreover have "l = Fin (of_nat 10)" if "limit = None" using that by (simp add: l_def)
  moreover have "l = Fin (of_nat n)" if "limit = Some (Fin (of_nat n))" for n using that by (simp add: l_def)
  ultimately show ?thesis unfolding posts by blast
qed

theorem query_results_sound_witness:
  "\<exists>tc tc' res. lru_new 5 = Inr tc \<and>
    execute_query (\<lambda>_. []) (\<lambda>_. Fin 1) colon_deps (\<lambda>_. 0) tc
      [\<lparr>qt_field = ''a:b'', qt_term = ''c'', qt_boost = Fin 2\<rparr>] (Some (Fin 1)) = Some (Inr res, tc') \<and>
    qr_postings res \<noteq> [] \<and> length (qr_documents res) \<le> 1"
proof -
  let ?t = "\<lparr>qt_field = ''a:b'', qt_term = ''c'', qt_boost = Fin 2\<rparr>"
  obtain tc :: "retrieved_chunk lru" where new: "lru_new 5 = Inr tc" by (simp add: lru_new_def)
  have ok: "lru_ok tc" "lru_lookup tc (build_cache_key ?t) = None"
    using lru_new_ok [OF new] by (auto simp: lru_lookup_def spec_find_def)
  obtain c where c: "retrieve_term (\<lambda>_. []) colon_deps (qt_field ?t) (qt_term ?t) = Some (Inr (Some c))"
    using colon_retrieve by auto
  obtain tc' where "collect_postings (\<lambda>_. []) colon_deps (\<lambda>_. 0) 0 tc [?t] = Some (Inr [apply_boost (Fin 2) c], tc')"
    using collect_miss [OF ok c] by auto
  then have run: "execute_query (\<lambda>_. []) (\<lambda>_. Fin 1) colon_deps (\<lambda>_. 0) tc [?t] (Some (Fin 1)) =
      Some (Inr (rank_postings (\<lambda>_. Fin 1) colon_deps (Some (Fin 1)) [apply_boost (Fin 2) c]), tc')"
    by (simp add: execute_query_def)
  have "qr_postings (rank_postings (\<lambda>_. Fin 1) colon_deps (Some (Fin 1)) [apply_boost (Fin 2) c]) \<noteq> []"
    by (simp add: rank_postings_def Let_def)
  moreover have "length (qr_documents (rank_postings (\<lambda>_. Fin 1) colon_deps (Some (Fin 1)) [apply_boost (Fin 2) c])) \<le> 1"
    using query_results_sound [OF run] by (auto simp: colon_deps_def dest: spec [of _ 1])
  ultimately show ?thesis using new run by blast
qed

end
