(* ===== verification/MemoryEngine.thy ===== *)
theory MemoryEngine
  imports Scoring Indexing Levenshtein JsConvert
begin

text \<open>
  One resource of the in-memory adapter, \<open>searchfn/adapter-memory/src/index.ts\<close>: the postings
  by field and term, the statistics, the vocabulary with its reference counts, the cache of
  fuzzy expansions, and the search over them. The pipeline options of the adapter are an
  argument of every operation that runs the pipeline.
\<close>

section \<open>Data\<close>

record posting_info =
  pi_doc :: docid
  pi_frequency :: jsnum
  pi_metadata :: "jsrec option"

type_synonym posting_table = "(string, (string, posting_info) jmap) jmap"

text \<open>
  The key of the fuzzy cache is the template \<open>term:distance\<close>. Distances print without a colon
  and injectively, so the pair carries the same information.
\<close>

record resource_engine =
  re_stats :: document_stats
  re_postings :: posting_table
  re_doc_ids :: "(string, docid) jmap"
  re_doc_metadata :: "(string, jsrec) jmap"
  re_fields :: "string jset"
  re_vocabulary :: "string jset"
  re_refs :: "(string, nat) jmap"
  re_fuzzy :: "(string \<times> jsnum, string list) jmap"

definition create_engine :: resource_engine where
  "create_engine = \<lparr>re_stats = stats_new, re_postings = [], re_doc_ids = [], re_doc_metadata = [],
     re_fields = [], re_vocabulary = [], re_refs = [], re_fuzzy = []\<rparr>"

section \<open>Vocabulary\<close>

definition increment_vocabulary_ref :: "string \<Rightarrow> resource_engine \<Rightarrow> resource_engine" where
  "increment_vocabulary_ref trm e =
     (let nxt = (case jmap_get (re_refs e) trm of None \<Rightarrow> 0 | Some n \<Rightarrow> n) + 1;
          e1 = e\<lparr>re_refs := jmap_set trm nxt (re_refs e)\<rparr>
      in if nxt = 1 then e1\<lparr>re_vocabulary := jset_add trm (re_vocabulary e1), re_fuzzy := []\<rparr> else e1)"

definition decrement_vocabulary_ref :: "string \<Rightarrow> resource_engine \<Rightarrow> resource_engine" where
  "decrement_vocabulary_ref trm e =
     (if trm = [] then e
      else case jmap_get (re_refs e) trm of
        None \<Rightarrow> e
      | Some current \<Rightarrow>
          if current \<le> 1 then
            let e1 = e\<lparr>re_refs := jmap_del trm (re_refs e)\<rparr>
            in if trm \<in> set (re_vocabulary e1)
               then e1\<lparr>re_vocabulary := jset_del trm (re_vocabulary e1), re_fuzzy := []\<rparr> else e1
          else e\<lparr>re_refs := jmap_set trm (current - 1) (re_refs e)\<rparr>)"

section \<open>Indexing\<close>

definition posting_key :: "string \<Rightarrow> string \<Rightarrow> string" where
  "posting_key field trm = field @ ''::'' @ trm"

definition to_key :: "docid \<Rightarrow> string" where
  "to_key d = (case d of DStr s \<Rightarrow> ''s'' | DNum _ \<Rightarrow> ''n'') @ '':'' @ docid_string d"

definition upsert_posting ::
    "string \<Rightarrow> string \<Rightarrow> docid \<Rightarrow> jsnum \<Rightarrow> jsrec option \<Rightarrow> resource_engine \<Rightarrow> resource_engine" where
  "upsert_posting field trm d frequency metadata e =
     (let key = posting_key field trm;
          entry = (case jmap_get (re_postings e) key of None \<Rightarrow> [] | Some m \<Rightarrow> m);
          entry' = jmap_set (to_key d) \<lparr>pi_doc = d, pi_frequency = frequency, pi_metadata = metadata\<rparr> entry
      in e\<lparr>re_postings := jmap_set key entry' (re_postings e)\<rparr>)"

definition add_term ::
    "docid \<Rightarrow> string \<Rightarrow> (string, jsrec) jmap \<Rightarrow> resource_engine \<Rightarrow> string \<times> nat \<Rightarrow> resource_engine" where
  "add_term d field metadata e tf =
     (let termMetadata = jmap_get metadata (fst tf);
          e1 = upsert_posting field (fst tf) d (Fin (of_nat (snd tf))) termMetadata e
      in if meta_is_prefix termMetadata then e1 else increment_vocabulary_ref (fst tf) e1)"

definition add_field_terms ::
    "docid \<Rightarrow> (string, (string, jsrec) jmap) jmap \<Rightarrow> resource_engine \<Rightarrow> string \<times> (string, nat) jmap \<Rightarrow> resource_engine" where
  "add_field_terms d fieldMetadata e ff =
     (let e1 = e\<lparr>re_fields := jset_add (fst ff) (re_fields e)\<rparr>;
          metadata = (case jmap_get fieldMetadata (fst ff) of None \<Rightarrow> [] | Some m \<Rightarrow> m)
      in foldl (add_term d (fst ff) metadata) e1 (snd ff))"

definition add_doc_to_engine ::
    "pipeline_options \<Rightarrow> docid \<Rightarrow> (string, string) jmap \<Rightarrow> jsrec option \<Rightarrow> resource_engine
     \<Rightarrow> pipeline_error + resource_engine" where
  "add_doc_to_engine opts d doc_fields metadata e =
     bind_sum (ingest (pipeline_run opts) \<lparr>ir_doc = d, ir_fields = doc_fields\<rparr>) (\<lambda>doc.
       Inr (if id_total doc = 0 then e
            else
              let docKey = to_key d;
                  e1 = e\<lparr>re_stats := add_document (DStr docKey) (Fin (of_nat (id_total doc))) (re_stats e),
                         re_doc_ids := jmap_set docKey d (re_doc_ids e)\<rparr>;
                  e2 = (case metadata of None \<Rightarrow> e1
                        | Some m \<Rightarrow> e1\<lparr>re_doc_metadata := jmap_set docKey m (re_doc_metadata e1)\<rparr>)
              in foldl (add_field_terms d (id_metadata doc)) e2 (id_frequencies doc)))"

definition key_second_part :: "string \<Rightarrow> string" where
  "key_second_part key = (case js_split ''::'' key of _ # p # _ \<Rightarrow> p | _ \<Rightarrow> [])"

definition remove_posting ::
    "string \<Rightarrow> resource_engine \<Rightarrow> string \<times> (string, posting_info) jmap \<Rightarrow> resource_engine" where
  "remove_posting docKey e entry =
     (let posting = jmap_get (snd entry) docKey;
          docMap = jmap_del docKey (snd entry);
          e1 = e\<lparr>re_postings := jmap_set (fst entry) docMap (re_postings e)\<rparr>;
          e2 = (if \<not> meta_is_prefix (case posting of None \<Rightarrow> None | Some p \<Rightarrow> pi_metadata p)
                then decrement_vocabulary_ref (case posting of None \<Rightarrow> [] | Some _ \<Rightarrow> key_second_part (fst entry)) e1
                else e1)
      in if docMap = [] then e2\<lparr>re_postings := jmap_del (fst entry) (re_postings e2)\<rparr> else e2)"

definition remove_doc_from_engine :: "docid \<Rightarrow> resource_engine \<Rightarrow> resource_engine" where
  "remove_doc_from_engine d e =
     (let docKey = to_key d;
          e1 = foldl (remove_posting docKey) e (re_postings e)
      in e1\<lparr>re_stats := remove_document (DStr docKey) (re_stats e1),
            re_doc_ids := jmap_del docKey (re_doc_ids e1),
            re_doc_metadata := jmap_del docKey (re_doc_metadata e1)\<rparr>)"

section \<open>Searching\<close>

datatype fuzzy_option = FuzzyFlag bool | FuzzyDistance jsnum

record search_params =
  sp_query :: string
  sp_fields :: "string list option"
  sp_limit :: "jsnum option"
  sp_fuzzy :: "fuzzy_option option"
  sp_prefix :: "bool option"
  sp_boosts :: "(string, jsnum) jmap option"
  sp_namespaces :: "string list option"
  sp_regions :: "string list option"

record query_term =
  qy_field :: string
  qy_term :: string
  qy_boost :: jsnum

definition get_fuzzy_distance :: "fuzzy_option option \<Rightarrow> jsnum option" where
  "get_fuzzy_distance fuzzy =
     (case fuzzy of
        Some (FuzzyFlag True) \<Rightarrow> Some (Fin 2)
      | Some (FuzzyDistance n) \<Rightarrow> if Fin 0 < n then Some (js_min n (Fin 3)) else None
      | _ \<Rightarrow> None)"

definition get_cached_fuzzy_expansion :: "string \<Rightarrow> jsnum \<Rightarrow> resource_engine \<Rightarrow> string list \<times> resource_engine" where
  "get_cached_fuzzy_expansion trm distance e =
     (case jmap_get (re_fuzzy e) (trm, distance) of
        Some expansion \<Rightarrow> (expansion, e)
      | None \<Rightarrow>
          (let expansion = fuzzy_expand trm distance (re_vocabulary e);
               c1 = jmap_set (trm, distance) expansion (re_fuzzy e);
               c2 = (if 1000 < length c1 then (case c1 of [] \<Rightarrow> c1 | (k, _) # _ \<Rightarrow> jmap_del k c1) else c1)
           in (expansion, e\<lparr>re_fuzzy := c2\<rparr>)))"

type_synonym token_map = "(string, query_term) jmap"

definition add_query_term :: "string \<Rightarrow> string \<Rightarrow> jsnum \<Rightarrow> token_map \<Rightarrow> string \<Rightarrow> token_map" where
  "add_query_term field value otherBoost m trm =
     (let key = posting_key field trm
      in if jmap_has m key then m
         else jmap_set key \<lparr>qy_field = field, qy_term = trm, qy_boost = (if trm = value then Fin 1 else otherBoost)\<rparr> m)"

definition add_token_terms ::
    "jsnum option \<Rightarrow> bool \<Rightarrow> string \<Rightarrow> token_map \<times> resource_engine \<Rightarrow> token \<Rightarrow> token_map \<times> resource_engine" where
  "add_token_terms fuzzyDistance prefixMode field me t =
     (let (m, e) = me
      in if prefixMode then
           (foldl (add_query_term field (tk_value t) (Fin (9 / 10))) m
              (filter (\<lambda>w. starts_with w (tk_value t)) (re_vocabulary e)), e)
         else
           (let (terms, e') = (case fuzzyDistance of
                  Some d \<Rightarrow> get_cached_fuzzy_expansion (tk_value t) d e
                | None \<Rightarrow> ([tk_value t], e))
            in (foldl (add_query_term field (tk_value t) (Fin (4 / 5))) m terms, e')))"

fun build_query_tokens ::
    "pipeline_options \<Rightarrow> string \<Rightarrow> jsnum option \<Rightarrow> bool \<Rightarrow> string list \<Rightarrow> token_map \<times> resource_engine
     \<Rightarrow> (pipeline_error + query_term list) \<times> resource_engine" where
  "build_query_tokens opts query fuzzyDistance prefixMode [] me = (Inr (jmap_values (fst me)), snd me)"
| "build_query_tokens opts query fuzzyDistance prefixMode (field # fields') me =
     (case pipeline_run opts field query None of
        Inl err \<Rightarrow> (Inl err, snd me)
      | Inr rawTokens \<Rightarrow>
          build_query_tokens opts query fuzzyDistance prefixMode fields'
            (foldl (add_token_terms fuzzyDistance prefixMode field) me
              (filter (\<lambda>t. \<not> meta_is_prefix (tk_metadata t)) rawTokens)))"

definition query_chunk :: "search_params \<Rightarrow> resource_engine \<Rightarrow> query_term \<Rightarrow> retrieved_chunk option" where
  "query_chunk params e q =
     (case jmap_get (re_postings e) (posting_key (qy_field q) (qy_term q)) of
        None \<Rightarrow> None
      | Some docMap \<Rightarrow>
          (let fieldBoost = (case sp_boosts params of None \<Rightarrow> Fin 1
                 | Some b \<Rightarrow> (case jmap_get b (qy_field q) of None \<Rightarrow> Fin 1 | Some x \<Rightarrow> x))
           in Some \<lparr>rc_term = qy_term q, rc_field = qy_field q, rc_frequency = Fin (of_nat (length docMap)),
                    rc_postings = map (\<lambda>(k, info). \<lparr>tp_doc = DStr k,
                        tp_frequency = pi_frequency info * qy_boost q * fieldBoost,
                        tp_metadata = pi_metadata info\<rparr>) docMap,
                    rc_idf = None\<rparr>))"

definition matches_metadata_filters :: "(rat \<Rightarrow> string) \<Rightarrow> search_params \<Rightarrow> resource_engine \<Rightarrow> string \<Rightarrow> bool" where
  "matches_metadata_filters dtoa params e docKey =
     (let metadata = jmap_get (re_doc_metadata e) docKey;
          passes = (\<lambda>filter_list field. case filter_list of
             None \<Rightarrow> True
           | Some [] \<Rightarrow> True
           | Some allowed \<Rightarrow> (case metadata of None \<Rightarrow> False
               | Some r \<Rightarrow> js_string dtoa (js_get r field) \<in> set allowed))
      in passes (sp_namespaces params) ''__ns'' \<and> passes (sp_regions params) ''__region'')"

definition score_lengths :: "resource_engine \<Rightarrow> jsnum \<Rightarrow> retrieved_chunk list \<Rightarrow> (docid, jsnum) jmap" where
  "score_lengths e average chunks =
     foldl (\<lambda>m p. if jmap_has m (tp_doc p) then m
                  else jmap_set (tp_doc p) (case get_length (re_stats e) (tp_doc p) of Some l \<Rightarrow> l | None \<Rightarrow> average) m)
       [] (concat (map rc_postings chunks))"

definition rank_chunks ::
    "(rat \<Rightarrow> string) \<Rightarrow> (jsnum \<Rightarrow> jsnum) \<Rightarrow> search_params \<Rightarrow> resource_engine \<Rightarrow> retrieved_chunk list
     \<Rightarrow> (docid \<times> jsnum) list" where
  "rank_chunks dtoa mlog params e chunks =
     (let average = js_max (get_average_length (re_stats e)) (Fin 1);
          scored = score_postings mlog chunks (score_lengths e average chunks) average engine_options;
          limit = js_max (Fin 1) (case sp_limit params of Some l \<Rightarrow> l | None \<Rightarrow> Fin 10)
      in map (\<lambda>s. (case jmap_get (re_doc_ids e) (docid_string (sd_doc s)) of Some d \<Rightarrow> d | None \<Rightarrow> sd_doc s,
                   sd_score s))
           (js_slice_to limit
             (filter (\<lambda>s. matches_metadata_filters dtoa params e (docid_string (sd_doc s))) scored)))"

definition execute_detailed_search ::
    "(rat \<Rightarrow> string) \<Rightarrow> (jsnum \<Rightarrow> jsnum) \<Rightarrow> pipeline_options \<Rightarrow> search_params \<Rightarrow> resource_engine
     \<Rightarrow> (pipeline_error + (docid \<times> jsnum) list) \<times> resource_engine" where
  "execute_detailed_search dtoa mlog opts params e =
     (let searched = (case sp_fields params of Some fs \<Rightarrow> fs | None \<Rightarrow> re_fields e)
      in if searched = [] then (Inr [], e)
         else
           (let (r, e') = build_query_tokens opts (sp_query params) (get_fuzzy_distance (sp_fuzzy params))
                            (sp_prefix params = Some True) searched ([], e)
            in (bind_sum r (\<lambda>tokens.
                  if tokens = [] then Inr []
                  else
                    let chunks = some_of (map (query_chunk params e') tokens)
                    in if chunks = [] then Inr [] else Inr (rank_chunks dtoa mlog params e' chunks)), e')))"

end
