(* ===== verification/MemoryInvariant.thy ===== *)
theory MemoryInvariant
  imports MemoryEngine
begin

text \<open>
  What the state of a resource means: the documents it holds, as a map from document keys to
  the ingested documents, and the invariant that ties the tables of the engine to that map.
  Every operation keeps the invariant; the lemmas of the search read the tables through it.
\<close>

section \<open>Removing a document from the table\<close>

definition clean_table :: "string \<Rightarrow> posting_table \<Rightarrow> posting_table" where
  "clean_table dk P = filter (\<lambda>(k, m). m \<noteq> []) (map (\<lambda>(k, m). (k, jmap_del dk m)) P)"

definition counted :: "posting_info \<Rightarrow> bool" where
  "counted p = (\<not> meta_is_prefix (pi_metadata p))"

definition map_count :: "(string, posting_info) jmap \<Rightarrow> nat" where
  "map_count m = length (filter (\<lambda>(dk, p). counted p) m)"

text \<open>The number of unflagged postings of a term, over all fields.\<close>

definition ref_count :: "posting_table \<Rightarrow> string \<Rightarrow> nat" where
  "ref_count P t = sum_list (map (\<lambda>(k, m). if key_second_part k = t then map_count m else 0) P)"

definition table_ok :: "posting_table \<Rightarrow> bool" where
  "table_ok P = (jmap_ok P \<and> (\<forall>(k, m) \<in> set P. jmap_ok m \<and> m \<noteq> [] \<and> key_second_part k \<noteq> []))"

definition refs_match :: "(string, nat) jmap \<Rightarrow> string list \<Rightarrow> (string \<Rightarrow> nat) \<Rightarrow> bool" where
  "refs_match refs vocabulary cnt = (jmap_ok refs \<and> distinct vocabulary \<and>
     (\<forall>t. jmap_get refs t = (if t = [] \<or> cnt t = 0 then None else Some (cnt t))) \<and>
     set vocabulary = {t. jmap_has refs t})"

definition refs_ok :: "resource_engine \<Rightarrow> bool" where
  "refs_ok e = refs_match (re_refs e) (re_vocabulary e) (ref_count (re_postings e))"

definition fuzzy_ok :: "resource_engine \<Rightarrow> bool" where
  "fuzzy_ok e = (\<forall>t d x. jmap_get (re_fuzzy e) (t, d) = Some x \<longrightarrow> x = fuzzy_expand t d (re_vocabulary e))"

lemma ref_count_append: "ref_count (A @ B) t = ref_count A t + ref_count B t"
  by (simp add: ref_count_def)

lemma ref_count_Cons:
  "ref_count ((k, m) # P) t = (if key_second_part k = t then map_count m else 0) + ref_count P t"
  by (simp add: ref_count_def)

lemma ref_count_Nil [simp]: "ref_count [] t = 0"
  by (simp add: ref_count_def)

lemma jmap_set_middle: "k \<notin> fst ` set A \<Longrightarrow> jmap_set k v (A @ (k, w) # B) = A @ (k, v) # B"
  by (induction A) auto

lemma jmap_del_middle: "k \<notin> fst ` set A \<Longrightarrow> k \<notin> fst ` set B \<Longrightarrow> jmap_del k (A @ (k, w) # B) = A @ B"
proof (induction A)
  case Nil
  then show ?case by (simp add: delete_idem)
qed auto

lemma map_count_del:
  assumes "jmap_ok m"
  shows "map_count m = map_count (jmap_del dk m) +
    (case jmap_get m dk of None \<Rightarrow> 0 | Some p \<Rightarrow> if counted p then 1 else 0)"
  using assms
proof (induction m)
  case (Cons e m)
  obtain k p where e: "e = (k, p)" by (cases e)
  show ?case
  proof (cases "k = dk")
    case True
    with Cons.prems e have "dk \<notin> fst ` set m" by auto
    then have "jmap_del dk m = m" by (simp add: delete_idem)
    with True e show ?thesis by (simp add: map_count_def)
  next
    case False
    with Cons e show ?thesis by (simp add: map_count_def)
  qed
qed (simp add: map_count_def)

text \<open>A decrement that matches one posting fewer of the term.\<close>

lemma decrement_refs:
  assumes refs: "jmap_ok (re_refs e)" "distinct (re_vocabulary e)" "set (re_vocabulary e) = {t. jmap_has (re_refs e) t}"
    and cnt: "jmap_get (re_refs e) trm = Some n" "trm \<noteq> []" "0 < n" and fz: "fuzzy_ok e"
  defines "e' \<equiv> decrement_vocabulary_ref trm e"
  shows "jmap_ok (re_refs e') \<and> distinct (re_vocabulary e') \<and> set (re_vocabulary e') = {t. jmap_has (re_refs e') t} \<and>
    (\<forall>t. jmap_get (re_refs e') t = (if t = trm then (if n = 1 then None else Some (n - 1)) else jmap_get (re_refs e) t)) \<and>
    re_postings e' = re_postings e \<and> fuzzy_ok e'"
proof (cases "n \<le> 1")
  case True
  then have n: "n = 1" using cnt(3) by simp
  have "trm \<in> set (re_vocabulary e)" using refs(3) cnt(1) by auto
  then have "e' = e\<lparr>re_refs := jmap_del trm (re_refs e), re_vocabulary := jset_del trm (re_vocabulary e), re_fuzzy := []\<rparr>"
    using cnt n by (simp add: e'_def decrement_vocabulary_ref_def Let_def)
  then show ?thesis using refs n by (auto simp: jmap_simps jset_simps fuzzy_ok_def)
next
  case False
  then have "e' = e\<lparr>re_refs := jmap_set trm (n - 1) (re_refs e)\<rparr>"
    using cnt by (simp add: e'_def decrement_vocabulary_ref_def)
  then show ?thesis using refs cnt False fz by (auto simp: jmap_simps fuzzy_ok_def)
qed

lemma increment_refs:
  fixes trm :: string
  assumes refs: "jmap_ok (re_refs e)" "distinct (re_vocabulary e)" "set (re_vocabulary e) = {t. jmap_has (re_refs e) t}"
    and pos: "\<And>t. jmap_get (re_refs e) t \<noteq> Some 0" and fz: "fuzzy_ok e"
  defines "e' \<equiv> increment_vocabulary_ref trm e"
  shows "jmap_ok (re_refs e') \<and> distinct (re_vocabulary e') \<and> set (re_vocabulary e') = {t. jmap_has (re_refs e') t} \<and>
    (\<forall>t. jmap_get (re_refs e') t = (if t = trm then Some (Suc (case jmap_get (re_refs e) trm of None \<Rightarrow> 0 | Some n \<Rightarrow> n))
       else jmap_get (re_refs e) t)) \<and>
    re_postings e' = re_postings e \<and> fuzzy_ok e'"
proof (cases "jmap_get (re_refs e) trm")
  case None
  then have "e' = e\<lparr>re_refs := jmap_set trm 1 (re_refs e), re_vocabulary := jset_add trm (re_vocabulary e), re_fuzzy := []\<rparr>"
    by (simp add: e'_def increment_vocabulary_ref_def Let_def)
  then show ?thesis using refs None by (auto simp: jmap_simps jset_simps fuzzy_ok_def)
next
  case (Some n)
  then have "n \<noteq> 0" using pos [of trm] by auto
  with Some have "e' = e\<lparr>re_refs := jmap_set trm (Suc n) (re_refs e)\<rparr>"
    by (simp add: e'_def increment_vocabulary_ref_def Let_def)
  then show ?thesis using refs Some fz by (auto simp: jmap_simps fuzzy_ok_def)
qed

definition engine_core :: "resource_engine \<Rightarrow> bool" where
  "engine_core e = (table_ok (re_postings e) \<and> refs_ok e \<and> fuzzy_ok e)"

lemma table_ok_append: "table_ok (A @ B) \<longleftrightarrow> table_ok A \<and> table_ok B \<and> fst ` set A \<inter> fst ` set B = {}"
  by (auto simp: table_ok_def)

lemma remove_posting_step:
  fixes dk :: string
  assumes core: "engine_core e" and tab: "re_postings e = A @ (k, m) # B"
  defines "e' \<equiv> remove_posting dk e (k, m)"
  shows "engine_core e' \<and> re_postings e' = A @ clean_table dk [(k, m)] @ B \<and>
    re_stats e' = re_stats e \<and> re_doc_ids e' = re_doc_ids e \<and> re_doc_metadata e' = re_doc_metadata e \<and>
    re_fields e' = re_fields e"
proof -
  have ok: "k \<notin> fst ` set A" "k \<notin> fst ` set B" "jmap_ok m" "m \<noteq> []" "key_second_part k \<noteq> []"
    and tA: "table_ok A" and tB: "table_ok B" and dis: "fst ` set A \<inter> fst ` set B = {}"
    using core tab by (auto simp: engine_core_def table_ok_def)
  let ?t = "key_second_part k"
  let ?m = "jmap_del dk m"
  define e1 where "e1 = e\<lparr>re_postings := jmap_set k ?m (re_postings e)\<rparr>"
  define hit where "hit = (case jmap_get m dk of None \<Rightarrow> False | Some p \<Rightarrow> counted p)"
  define e2 where "e2 = (if hit then decrement_vocabulary_ref ?t e1 else e1)"
  define e3 where "e3 = (if ?m = [] then e2\<lparr>re_postings := jmap_del k (re_postings e2)\<rparr> else e2)"
  have "decrement_vocabulary_ref [] x = x" for x by (simp add: decrement_vocabulary_ref_def)
  then have e': "e' = e3"
    by (auto simp: e'_def remove_posting_def Let_def e1_def e2_def e3_def hit_def counted_def split: option.splits)
  have tab1: "re_postings e1 = A @ (k, ?m) # B"
    using ok(1) by (simp add: e1_def tab jmap_set_middle)
  have count: "ref_count (re_postings e) t = ref_count (A @ (k, ?m) # B) t + (if t = ?t \<and> hit then 1 else 0)" for t
    using map_count_del [OF ok(3), of dk]
    by (auto simp: tab ref_count_append ref_count_Cons hit_def split: option.splits)
  have same: "re_stats e3 = re_stats e" "re_doc_ids e3 = re_doc_ids e" "re_doc_metadata e3 = re_doc_metadata e"
    "re_fields e3 = re_fields e"
    by (auto simp: e3_def e2_def e1_def decrement_vocabulary_ref_def Let_def split: option.splits)
  have refs: "jmap_ok (re_refs e)" "distinct (re_vocabulary e)" "set (re_vocabulary e) = {t. jmap_has (re_refs e) t}"
    "\<And>t. jmap_get (re_refs e) t = (if t = [] \<or> ref_count (re_postings e) t = 0 then None else Some (ref_count (re_postings e) t))"
    and fz: "fuzzy_ok e" using core unfolding engine_core_def refs_ok_def refs_match_def by blast+
  have refs1: "jmap_ok (re_refs e1)" "distinct (re_vocabulary e1)" "set (re_vocabulary e1) = {t. jmap_has (re_refs e1) t}"
    "\<And>t. jmap_get (re_refs e1) t = jmap_get (re_refs e) t" "fuzzy_ok e1"
    using refs fz by (auto simp: e1_def fuzzy_ok_def)
  have e2: "refs_match (re_refs e2) (re_vocabulary e2) (ref_count (A @ (k, ?m) # B)) \<and>
      re_postings e2 = A @ (k, ?m) # B \<and> fuzzy_ok e2"
  proof (cases hit)
    case True
    define n where "n = ref_count (re_postings e) ?t"
    have n: "jmap_get (re_refs e1) ?t = Some n" "0 < n"
      using refs1(4) [of ?t] refs(4) [of ?t] ok(5) count [of ?t] True by (auto simp: n_def)
    have eq: "e2 = decrement_vocabulary_ref ?t e1" using True by (simp add: e2_def)
    have "jmap_get (re_refs e2) t = (if t = [] \<or> ref_count (A @ (k, ?m) # B) t = 0 then None
         else Some (ref_count (A @ (k, ?m) # B) t))" for t
      using decrement_refs [OF refs1(1-3) n(1) ok(5) n(2) refs1(5)] refs1(4) [of t] refs(4) [of t] count [of t] True ok(5)
      unfolding eq n_def by auto
    with decrement_refs [OF refs1(1-3) n(1) ok(5) n(2) refs1(5)] show ?thesis
      unfolding eq tab1 refs_match_def by blast
  next
    case False
    then have "e2 = e1" by (simp add: e2_def)
    moreover have "jmap_get (re_refs e1) t = (if t = [] \<or> ref_count (A @ (k, ?m) # B) t = 0 then None
         else Some (ref_count (A @ (k, ?m) # B) t))" for t
      using False refs1(4) [of t] refs(4) [of t] count [of t] by simp
    ultimately show ?thesis unfolding refs_match_def using refs1 tab1 by metis
  qed
  have post: "re_postings e3 = A @ clean_table dk [(k, m)] @ B"
    using e2 ok(1,2) by (auto simp: e3_def clean_table_def jmap_del_middle)
  have "ref_count (re_postings e3) t = ref_count (A @ (k, ?m) # B) t" for t
    unfolding post by (auto simp: ref_count_append ref_count_Cons clean_table_def map_count_def)
  then have "ref_count (re_postings e3) = ref_count (A @ (k, ?m) # B)" by (rule ext)
  moreover have "re_refs e3 = re_refs e2" "re_vocabulary e3 = re_vocabulary e2" by (simp_all add: e3_def)
  ultimately have "refs_ok e3" unfolding refs_ok_def using e2 by (simp only:)
  moreover have "fuzzy_ok e3" using e2 by (auto simp: e3_def fuzzy_ok_def)
  moreover have "clean_table dk [(k, m)] = (if ?m = [] then [] else [(k, ?m)])" by (simp add: clean_table_def)
  then have "table_ok (A @ clean_table dk [(k, m)] @ B)"
    using tA tB dis ok by (auto simp: table_ok_append, auto simp: table_ok_def)
  ultimately show ?thesis using post same unfolding e' engine_core_def by simp
qed

lemma remove_postings:
  "engine_core e \<Longrightarrow> re_postings e = A @ B \<Longrightarrow>
   engine_core (foldl (remove_posting dk) e B) \<and> re_postings (foldl (remove_posting dk) e B) = A @ clean_table dk B \<and>
    re_stats (foldl (remove_posting dk) e B) = re_stats e \<and> re_doc_ids (foldl (remove_posting dk) e B) = re_doc_ids e \<and>
    re_doc_metadata (foldl (remove_posting dk) e B) = re_doc_metadata e \<and> re_fields (foldl (remove_posting dk) e B) = re_fields e"
proof (induction B arbitrary: e A)
  case Nil
  then show ?case by (simp add: clean_table_def)
next
  case (Cons km B)
  obtain k m where km: "km = (k, m)" by (cases km)
  note step = remove_posting_step [of e A k m B dk, OF Cons.prems(1) Cons.prems(2) [unfolded km]]
  have "re_postings (remove_posting dk e (k, m)) = (A @ clean_table dk [(k, m)]) @ B" using step by simp
  from Cons.IH [OF _ this] step show ?case by (auto simp: km clean_table_def)
qed

section \<open>Postings by key and document\<close>

definition post_at :: "posting_table \<Rightarrow> string \<Rightarrow> string \<Rightarrow> posting_info option" where
  "post_at P key dk = (case jmap_get P key of None \<Rightarrow> None | Some m \<Rightarrow> jmap_get m dk)"

lemma clean_table_get:
  "jmap_ok P \<Longrightarrow> jmap_get (clean_table dk P) key =
     (case jmap_get P key of None \<Rightarrow> None | Some m \<Rightarrow> if jmap_del dk m = [] then None else Some (jmap_del dk m))"
proof (induction P)
  case (Cons km P)
  obtain k m where km: "km = (k, m)" by (cases km)
  have step: "clean_table dk (km # P) = (if jmap_del dk m = [] then [] else [(k, jmap_del dk m)]) @ clean_table dk P"
    by (simp add: clean_table_def km)
  have "k = key \<Longrightarrow> jmap_get P key = None" using Cons.prems km by (auto simp: map_of_eq_None_iff)
  with Cons show ?case unfolding step by (auto simp: km)
qed (simp add: clean_table_def)

lemma clean_table_post:
  "jmap_ok P \<Longrightarrow> post_at (clean_table dk P) key dk' = (if dk' = dk then None else post_at P key dk')"
  by (auto simp: post_at_def clean_table_get jmap_simps split: option.split)
    (metis jmap_get_del map_of.simps(1) option.distinct(1))+

lemma remove_doc_core:
  assumes "engine_core e"
  shows "engine_core (remove_doc_from_engine d e) \<and>
    post_at (re_postings (remove_doc_from_engine d e)) key dk =
      (if dk = to_key d then None else post_at (re_postings e) key dk) \<and>
    re_stats (remove_doc_from_engine d e) = remove_document (DStr (to_key d)) (re_stats e) \<and>
    re_doc_ids (remove_doc_from_engine d e) = jmap_del (to_key d) (re_doc_ids e) \<and>
    re_doc_metadata (remove_doc_from_engine d e) = jmap_del (to_key d) (re_doc_metadata e) \<and>
    re_fields (remove_doc_from_engine d e) = re_fields e"
proof -
  have "jmap_ok (re_postings e)" using assms by (simp add: engine_core_def table_ok_def)
  note clean = clean_table_post [OF this, of "to_key d" key dk]
  define e1 where "e1 = foldl (remove_posting (to_key d)) e (re_postings e)"
  define e2 where "e2 = e1\<lparr>re_stats := remove_document (DStr (to_key d)) (re_stats e1),
      re_doc_ids := jmap_del (to_key d) (re_doc_ids e1), re_doc_metadata := jmap_del (to_key d) (re_doc_metadata e1)\<rparr>"
  have e2: "remove_doc_from_engine d e = e2" by (simp add: remove_doc_from_engine_def Let_def e2_def e1_def)
  have R: "engine_core e1" "re_postings e1 = clean_table (to_key d) (re_postings e)" "re_stats e1 = re_stats e"
    "re_doc_ids e1 = re_doc_ids e" "re_doc_metadata e1 = re_doc_metadata e" "re_fields e1 = re_fields e"
    using remove_postings [OF assms, of "[]" "re_postings e" "to_key d"] by (simp_all add: e1_def)
  have "engine_core e2" using R(1) by (simp add: engine_core_def refs_ok_def fuzzy_ok_def e2_def)
  moreover have "re_postings e2 = clean_table (to_key d) (re_postings e)" by (simp add: e2_def R(2))
  moreover have "re_stats e2 = remove_document (DStr (to_key d)) (re_stats e)" "re_doc_ids e2 = jmap_del (to_key d) (re_doc_ids e)"
    "re_doc_metadata e2 = jmap_del (to_key d) (re_doc_metadata e)" "re_fields e2 = re_fields e"
    by (simp_all add: e2_def R)
  ultimately show ?thesis unfolding e2 using clean by simp
qed

section \<open>Adding postings\<close>

lemma ref_count_set:
  "ref_count (jmap_set key m P) t + (case jmap_get P key of None \<Rightarrow> 0 | Some m' \<Rightarrow> if key_second_part key = t then map_count m' else 0) =
   ref_count P t + (if key_second_part key = t then map_count m else 0)"
  by (induction P) (auto simp: ref_count_Cons)

lemma map_count_set:
  "jmap_get m dk = None \<Longrightarrow> map_count (jmap_set dk p m) = map_count m + (if counted p then 1 else 0)"
  by (simp add: jmap_set_absent map_count_def)

definition entry_key :: "string \<times> string \<Rightarrow> string" where
  "entry_key ft = posting_key (fst ft) (snd ft)"

lemma upsert_table:
  fixes p :: posting_info
  assumes ok: "table_ok P" and second: "key_second_part key \<noteq> []" and absent: "post_at P key dk = None"
  defines "P' \<equiv> jmap_set key (jmap_set dk p (case jmap_get P key of None \<Rightarrow> [] | Some m \<Rightarrow> m)) P"
  shows "table_ok P' \<and> (\<forall>key' dk'. post_at P' key' dk' = (if key' = key \<and> dk' = dk then Some p else post_at P key' dk')) \<and>
    (\<forall>t. ref_count P' t = ref_count P t + (if t = key_second_part key \<and> counted p then 1 else 0))"
proof -
  define m where "m = (case jmap_get P key of None \<Rightarrow> [] | Some m \<Rightarrow> m)"
  have P': "P' = jmap_set key (jmap_set dk p m) P" by (simp add: P'_def m_def)
  have m: "jmap_ok m" "jmap_get m dk = None"
  proof -
    show "jmap_ok m" using ok by (auto simp: m_def table_ok_def dest!: map_of_SomeD split: option.splits)
    show "jmap_get m dk = None" using absent by (simp add: m_def post_at_def split: option.splits)
  qed
  have ne: "jmap_set dk p m \<noteq> []" by (cases m) auto
  have "table_ok P'"
    using ok m ne second unfolding P' table_ok_def by (auto simp: jmap_set_set)
  moreover have "post_at P' key' dk' = (if key' = key \<and> dk' = dk then Some p else post_at P key' dk')" for key' dk'
    by (auto simp: P' post_at_def jmap_simps m_def split: option.split)
  moreover have "ref_count P' t = ref_count P t + (if t = key_second_part key \<and> counted p then 1 else 0)" for t
  proof -
    have "(case jmap_get P key of None \<Rightarrow> 0 | Some m' \<Rightarrow> if key_second_part key = t then map_count m' else 0) =
        (if key_second_part key = t then map_count m else 0)"
      by (simp add: m_def map_count_def split: option.split)
    then show ?thesis
      using ref_count_set [of key "jmap_set dk p m" P t] map_count_set [OF m(2), of p]
      by (cases "key_second_part key = t") (auto simp: P')
  qed
  ultimately show ?thesis by blast
qed

lemma add_term_core:
  fixes d :: docid and metadata :: "(string, jsrec) jmap" and n :: nat
  assumes core: "engine_core e" and second: "key_second_part (posting_key f t) = t" "t \<noteq> []"
    and absent: "post_at (re_postings e) (posting_key f t) (to_key d) = None"
  defines "p \<equiv> \<lparr>pi_doc = d, pi_frequency = Fin (of_nat n), pi_metadata = jmap_get metadata t\<rparr>"
    and "e' \<equiv> add_term d f metadata e (t, n)"
  shows "engine_core e' \<and>
    (\<forall>key dk. post_at (re_postings e') key dk =
      (if key = posting_key f t \<and> dk = to_key d then Some p else post_at (re_postings e) key dk)) \<and>
    re_stats e' = re_stats e \<and> re_doc_ids e' = re_doc_ids e \<and> re_doc_metadata e' = re_doc_metadata e \<and>
    re_fields e' = re_fields e"
proof -
  let ?key = "posting_key f t"
  define P' where "P' = jmap_set ?key (jmap_set (to_key d) p (case jmap_get (re_postings e) ?key of None \<Rightarrow> [] | Some m \<Rightarrow> m)) (re_postings e)"
  define e1 where "e1 = e\<lparr>re_postings := P'\<rparr>"
  have tab: "table_ok (re_postings e)" and refs: "refs_match (re_refs e) (re_vocabulary e) (ref_count (re_postings e))"
    and fz: "fuzzy_ok e" using core by (auto simp: engine_core_def refs_ok_def)
  have sec: "key_second_part ?key \<noteq> []" using second by simp
  note up = upsert_table [OF tab sec absent, of p, folded P'_def, unfolded second(1)]
  have flag: "meta_is_prefix (jmap_get metadata t) \<longleftrightarrow> \<not> counted p" by (simp add: counted_def p_def)
  have e': "e' = (if counted p then increment_vocabulary_ref t e1 else e1)"
    by (simp add: e'_def add_term_def upsert_posting_def Let_def flag e1_def P'_def p_def)
  have same: "re_stats e' = re_stats e" "re_doc_ids e' = re_doc_ids e" "re_doc_metadata e' = re_doc_metadata e"
    "re_fields e' = re_fields e"
    by (auto simp: e' e1_def increment_vocabulary_ref_def Let_def)
  have e1: "jmap_ok (re_refs e1)" "distinct (re_vocabulary e1)" "set (re_vocabulary e1) = {t. jmap_has (re_refs e1) t}"
    "\<And>t. jmap_get (re_refs e1) t = (if t = [] \<or> ref_count (re_postings e) t = 0 then None else Some (ref_count (re_postings e) t))"
    using refs unfolding refs_match_def e1_def by auto
  have fz1: "fuzzy_ok e1" using fz by (simp add: fuzzy_ok_def e1_def)
  have nz: "jmap_get (re_refs e1) t \<noteq> Some 0" for t unfolding e1(4) by simp
  have "refs_match (re_refs e') (re_vocabulary e') (ref_count P') \<and> re_postings e' = P' \<and> fuzzy_ok e'"
  proof (cases "counted p")
    case True
    note inc = increment_refs [OF e1(1-3) nz fz1, of t]
    have eq: "e' = increment_vocabulary_ref t e1" using True e' by simp
    have "jmap_get (re_refs e') u = (if u = [] \<or> ref_count P' u = 0 then None else Some (ref_count P' u))" for u
      using inc up True second(2) e1(4) unfolding eq by auto
    then show ?thesis using inc unfolding eq refs_match_def by (simp add: e1_def)
  next
    case False
    then have "ref_count P' = ref_count (re_postings e)" using up by (intro ext) simp
    then show ?thesis using False refs fz1 by (simp add: e' e1_def)
  qed
  then show ?thesis using up same by (simp add: engine_core_def refs_ok_def)
qed

section \<open>Adding a document\<close>

definition field_entries ::
    "docid \<Rightarrow> (string, (string, jsrec) jmap) jmap \<Rightarrow> string \<times> (string, nat) jmap \<Rightarrow> (string \<times> posting_info) list" where
  "field_entries d md ff = map (\<lambda>(t, n). (posting_key (fst ff) t,
     \<lparr>pi_doc = d, pi_frequency = Fin (of_nat n),
      pi_metadata = jmap_get (case jmap_get md (fst ff) of None \<Rightarrow> [] | Some m \<Rightarrow> m) t\<rparr>)) (snd ff)"

definition doc_entries :: "docid \<Rightarrow> ingested_document \<Rightarrow> (string \<times> posting_info) list" where
  "doc_entries d doc = concat (map (field_entries d (id_metadata doc)) (id_frequencies doc))"

definition pairs_ok :: "string \<times> (string, nat) jmap \<Rightarrow> bool" where
  "pairs_ok ff = (\<forall>(t, n) \<in> set (snd ff). key_second_part (posting_key (fst ff) t) = t \<and> t \<noteq> [])"

definition doc_ok :: "ingested_document \<Rightarrow> bool" where
  "doc_ok doc = (distinct (map fst (doc_entries (id_doc doc) doc)) \<and> (\<forall>ff \<in> set (id_frequencies doc). pairs_ok ff))"

definition same_tables :: "resource_engine \<Rightarrow> resource_engine \<Rightarrow> bool" where
  "same_tables e e' = (re_stats e' = re_stats e \<and> re_doc_ids e' = re_doc_ids e \<and> re_doc_metadata e' = re_doc_metadata e)"

definition overlay :: "(string \<times> posting_info) list \<Rightarrow> string \<Rightarrow> posting_table \<Rightarrow> posting_table \<Rightarrow> bool" where
  "overlay es dk P P' = (\<forall>key dk'. post_at P' key dk' =
     (if dk' = dk then (case map_of es key of None \<Rightarrow> post_at P key dk' | Some p \<Rightarrow> Some p) else post_at P key dk'))"

lemma overlay_trans:
  "overlay es dk P P' \<Longrightarrow> overlay fs dk P' P'' \<Longrightarrow> distinct (map fst (es @ fs)) \<Longrightarrow> overlay (es @ fs) dk P P''"
proof -
  assume es: "overlay es dk P P'" and fs: "overlay fs dk P' P''" and dis: "distinct (map fst (es @ fs))"
  have "post_at P'' key dk' = (if dk' = dk then (case map_of (es @ fs) key of None \<Rightarrow> post_at P key dk' | Some p \<Rightarrow> Some p)
      else post_at P key dk')" for key dk'
  proof -
    have "map_of es key = None \<or> map_of fs key = None" using dis by (auto simp: map_of_eq_None_iff)
    then show ?thesis
      using es fs unfolding overlay_def by (cases "map_of es key"; cases "map_of fs key") (auto simp: map_add_def)
  qed
  then show ?thesis by (simp add: overlay_def)
qed

lemma add_terms_core:
  assumes "engine_core e" and "pairs_ok (f, tfs)" and "distinct (map fst (field_entries d md (f, tfs)))"
    and "\<And>key. key \<in> fst ` set (field_entries d md (f, tfs)) \<Longrightarrow> post_at (re_postings e) key (to_key d) = None"
  defines "mf \<equiv> case jmap_get md f of None \<Rightarrow> [] | Some m \<Rightarrow> m"
  shows "engine_core (foldl (add_term d f mf) e tfs) \<and> same_tables e (foldl (add_term d f mf) e tfs) \<and>
    re_fields (foldl (add_term d f mf) e tfs) = re_fields e \<and>
    overlay (field_entries d md (f, tfs)) (to_key d) (re_postings e) (re_postings (foldl (add_term d f mf) e tfs))"
  using assms(1-4)
proof (induction tfs arbitrary: e)
  case Nil
  then show ?case by (simp add: same_tables_def overlay_def field_entries_def)
next
  case (Cons tn tfs)
  obtain t n where tn: "tn = (t, n)" by (cases tn)
  let ?p = "\<lparr>pi_doc = d, pi_frequency = Fin (of_nat n), pi_metadata = jmap_get mf t\<rparr>"
  let ?e1 = "add_term d f mf e (t, n)"
  have entries: "field_entries d md (f, tn # tfs) = (posting_key f t, ?p) # field_entries d md (f, tfs)"
    by (simp add: field_entries_def tn mf_def)
  have tt: "key_second_part (posting_key f t) = t" "t \<noteq> []" using Cons.prems(2) by (auto simp: pairs_ok_def tn)
  have "post_at (re_postings e) (posting_key f t) (to_key d) = None" by (rule Cons.prems(4)) (simp add: entries)
  note step = add_term_core [OF Cons.prems(1) tt this, where n = n and metadata = mf]
  have o1: "overlay [(posting_key f t, ?p)] (to_key d) (re_postings e) (re_postings ?e1)"
    using step by (simp add: overlay_def)
  have IH: "engine_core (foldl (add_term d f mf) ?e1 tfs) \<and> same_tables ?e1 (foldl (add_term d f mf) ?e1 tfs) \<and>
    re_fields (foldl (add_term d f mf) ?e1 tfs) = re_fields ?e1 \<and>
    overlay (field_entries d md (f, tfs)) (to_key d) (re_postings ?e1) (re_postings (foldl (add_term d f mf) ?e1 tfs))"
  proof (rule Cons.IH)
    show "engine_core ?e1" using step by blast
    show "pairs_ok (f, tfs)" using Cons.prems(2) by (auto simp: pairs_ok_def)
    show "distinct (map fst (field_entries d md (f, tfs)))" using Cons.prems(3) by (simp add: entries)
    fix key assume key: "key \<in> fst ` set (field_entries d md (f, tfs))"
    then have "key \<noteq> posting_key f t" using Cons.prems(3) unfolding entries by (simp, blast)
    moreover have "post_at (re_postings e) key (to_key d) = None" by (rule Cons.prems(4)) (use key in \<open>simp add: entries\<close>)
    ultimately show "post_at (re_postings ?e1) key (to_key d) = None" using step by simp
  qed
  have "overlay ([(posting_key f t, ?p)] @ field_entries d md (f, tfs)) (to_key d) (re_postings e)
      (re_postings (foldl (add_term d f mf) ?e1 tfs))"
    using IH Cons.prems(3) by (intro overlay_trans [OF o1]) (simp_all add: entries)
  with IH step show ?case by (simp add: tn entries same_tables_def) (simp add: field_entries_def mf_def)
qed

lemma engine_core_fields [simp]: "engine_core (e\<lparr>re_fields := fs\<rparr>) = engine_core e"
  by (simp add: engine_core_def refs_ok_def fuzzy_ok_def)

lemma add_fields_core:
  assumes "engine_core e" and "\<forall>ff \<in> set ffs. pairs_ok ff"
    and "distinct (map fst (concat (map (field_entries d md) ffs)))"
    and "\<And>key. key \<in> fst ` set (concat (map (field_entries d md) ffs)) \<Longrightarrow> post_at (re_postings e) key (to_key d) = None"
  shows "engine_core (foldl (add_field_terms d md) e ffs) \<and> same_tables e (foldl (add_field_terms d md) e ffs) \<and>
    set (re_fields (foldl (add_field_terms d md) e ffs)) = set (re_fields e) \<union> fst ` set ffs \<and>
    overlay (concat (map (field_entries d md) ffs)) (to_key d) (re_postings e) (re_postings (foldl (add_field_terms d md) e ffs))"
  using assms
proof (induction ffs arbitrary: e)
  case Nil
  then show ?case by (simp add: same_tables_def overlay_def)
next
  case (Cons ff ffs)
  obtain f tfs where ff: "ff = (f, tfs)" by (cases ff)
  let ?es = "field_entries d md (f, tfs)"
  let ?rest = "concat (map (field_entries d md) ffs)"
  define e0 where "e0 = e\<lparr>re_fields := jset_add f (re_fields e)\<rparr>"
  define e1 where "e1 = add_field_terms d md e ff"
  have e1: "e1 = foldl (add_term d f (case jmap_get md f of None \<Rightarrow> [] | Some m \<Rightarrow> m)) e0 tfs"
    by (simp add: e1_def e0_def add_field_terms_def ff Let_def)
  have c0: "engine_core e0" "re_postings e0 = re_postings e" "same_tables e e0" "set (re_fields e0) = insert f (set (re_fields e))"
    using Cons.prems(1) by (simp_all add: e0_def same_tables_def jset_simps)
  have dis: "distinct (map fst ?es)" "distinct (map fst ?rest)" "fst ` set ?es \<inter> fst ` set ?rest = {}"
    using Cons.prems(3) by (auto simp: ff)
  have step: "engine_core e1 \<and> same_tables e0 e1 \<and> re_fields e1 = re_fields e0 \<and>
      overlay ?es (to_key d) (re_postings e0) (re_postings e1)"
    unfolding e1
  proof (rule add_terms_core [OF c0(1)])
    show "pairs_ok (f, tfs)" "distinct (map fst ?es)" using Cons.prems(2) dis ff by auto
    fix key assume "key \<in> fst ` set ?es"
    then have "key \<in> fst ` set (concat (map (field_entries d md) (ff # ffs)))" by (auto simp: ff)
    then show "post_at (re_postings e0) key (to_key d) = None" unfolding c0(2) by (rule Cons.prems(4))
  qed
  have IH: "engine_core (foldl (add_field_terms d md) e1 ffs) \<and> same_tables e1 (foldl (add_field_terms d md) e1 ffs) \<and>
    set (re_fields (foldl (add_field_terms d md) e1 ffs)) = set (re_fields e1) \<union> fst ` set ffs \<and>
    overlay ?rest (to_key d) (re_postings e1) (re_postings (foldl (add_field_terms d md) e1 ffs))"
  proof (rule Cons.IH)
    show "engine_core e1" "\<forall>ff \<in> set ffs. pairs_ok ff" "distinct (map fst ?rest)"
      using step Cons.prems dis by auto
    fix key assume key: "key \<in> fst ` set ?rest"
    then have "map_of ?es key = None" using dis(3) by (auto simp: map_of_eq_None_iff)
    moreover have "post_at (re_postings e) key (to_key d) = None" by (rule Cons.prems(4)) (use key in auto)
    ultimately show "post_at (re_postings e1) key (to_key d) = None" using step c0(2) by (simp add: overlay_def)
  qed
  have "overlay (?es @ ?rest) (to_key d) (re_postings e) (re_postings (foldl (add_field_terms d md) e1 ffs))"
    using step IH c0(2) Cons.prems(3) by (intro overlay_trans [of _ _ _ "re_postings e1"]) (auto simp: ff)
  with IH step c0 show ?case by (simp add: ff e1_def [unfolded ff, symmetric] same_tables_def)
qed

section \<open>The documents a resource holds\<close>

record corpus_doc =
  cd_id :: docid
  cd_doc :: ingested_document
  cd_metadata :: "jsrec option"

type_synonym corpus = "string \<Rightarrow> corpus_doc option"

definition corpus_posting :: "corpus \<Rightarrow> string \<Rightarrow> string \<Rightarrow> posting_info option" where
  "corpus_posting C key dk = (case C dk of None \<Rightarrow> None | Some c \<Rightarrow> map_of (doc_entries (cd_id c) (cd_doc c)) key)"

definition corpus_lengths :: "corpus \<Rightarrow> docid \<Rightarrow> jsnum option" where
  "corpus_lengths C d = (case d of DNum _ \<Rightarrow> None
     | DStr dk \<Rightarrow> map_option (\<lambda>c. Fin (of_nat (id_total (cd_doc c)))) (C dk))"

definition represents :: "corpus \<Rightarrow> resource_engine \<Rightarrow> bool" where
  "represents C e = (engine_core e \<and>
     (\<forall>key dk. post_at (re_postings e) key dk = corpus_posting C key dk) \<and>
     jmap_ok (re_doc_ids e) \<and> (\<forall>dk. jmap_get (re_doc_ids e) dk = map_option cd_id (C dk)) \<and>
     (\<forall>dk. jmap_get (re_doc_metadata e) dk = (case C dk of None \<Rightarrow> None | Some c \<Rightarrow> cd_metadata c)) \<and>
     stats_ok (re_stats e) \<and> stats_map (re_stats e) = corpus_lengths C \<and>
     (\<forall>dk c. C dk = Some c \<longrightarrow> to_key (cd_id c) = dk \<and> fst ` set (id_frequencies (cd_doc c)) \<subseteq> set (re_fields e)))"

lemma represents_empty: "represents Map.empty create_engine"
  by (auto simp: represents_def create_engine_def engine_core_def table_ok_def refs_ok_def refs_match_def
      fuzzy_ok_def post_at_def corpus_posting_def corpus_lengths_def fun_eq_iff split: docid.split)

lemma represents_remove:
  assumes "represents C e"
  shows "represents (C(to_key d := None)) (remove_doc_from_engine d e)"
proof -
  have core: "engine_core e" using assms by (simp add: represents_def)
  note R = remove_doc_core [OF core, of d]
  have "corpus_lengths (C(to_key d := None)) = (corpus_lengths C)(DStr (to_key d) := None)"
    by (auto simp: corpus_lengths_def fun_eq_iff split: docid.split)
  then show ?thesis
    using assms R by (auto simp: represents_def corpus_posting_def jmap_simps stats_ok_remove)
qed

lemma represents_add:
  assumes rep: "represents C e" and new: "C (to_key d) = None" and doc: "doc_ok doc" "id_doc doc = d"
    and ing: "ingest (pipeline_run opts) \<lparr>ir_doc = d, ir_fields = fxs\<rparr> = Inr doc" and e': "add_doc_to_engine opts d fxs m e = Inr e'"
  shows "represents (if id_total doc = 0 then C else C(to_key d \<mapsto> \<lparr>cd_id = d, cd_doc = doc, cd_metadata = m\<rparr>)) e'"
proof (cases "id_total doc = 0")
  case True
  with rep ing e' show ?thesis by (simp add: add_doc_to_engine_def)
next
  case False
  let ?k = "to_key d"
  define e1 where "e1 = e\<lparr>re_stats := add_document (DStr ?k) (Fin (of_nat (id_total doc))) (re_stats e),
      re_doc_ids := jmap_set ?k d (re_doc_ids e)\<rparr>"
  define e2 where "e2 = (case m of None \<Rightarrow> e1 | Some r \<Rightarrow> e1\<lparr>re_doc_metadata := jmap_set ?k r (re_doc_metadata e1)\<rparr>)"
  define C' where "C' = C(?k \<mapsto> \<lparr>cd_id = d, cd_doc = doc, cd_metadata = m\<rparr>)"
  have e': "e' = foldl (add_field_terms d (id_metadata doc)) e2 (id_frequencies doc)"
    using e' ing False by (cases m) (simp_all add: add_doc_to_engine_def Let_def e1_def e2_def)
  have core: "engine_core e" and posts: "\<And>key dk. post_at (re_postings e) key dk = corpus_posting C key dk"
    and ids: "jmap_ok (re_doc_ids e)" "\<And>dk. jmap_get (re_doc_ids e) dk = map_option cd_id (C dk)"
    and meta: "\<And>dk. jmap_get (re_doc_metadata e) dk = (case C dk of None \<Rightarrow> None | Some c \<Rightarrow> cd_metadata c)"
    and stats: "stats_ok (re_stats e)" "stats_map (re_stats e) = corpus_lengths C"
    and docs: "\<And>dk c. C dk = Some c \<Longrightarrow> to_key (cd_id c) = dk \<and> fst ` set (id_frequencies (cd_doc c)) \<subseteq> set (re_fields e)"
    using rep unfolding represents_def by blast+
  have c2: "engine_core e2" "re_postings e2 = re_postings e" "re_fields e2 = re_fields e"
    using core by (auto simp: e2_def e1_def engine_core_def refs_ok_def fuzzy_ok_def split: option.split)
  have entries: "doc_entries d doc = concat (map (field_entries d (id_metadata doc)) (id_frequencies doc))"
    by (simp add: doc_entries_def)
  have none: "post_at (re_postings e2) key ?k = None" for key
    using posts [of key ?k] new by (simp add: c2 corpus_posting_def)
  have R: "engine_core e' \<and> same_tables e2 e' \<and> set (re_fields e') = set (re_fields e2) \<union> fst ` set (id_frequencies doc) \<and>
      overlay (doc_entries d doc) ?k (re_postings e2) (re_postings e')"
    unfolding e' entries
    by (rule add_fields_core [OF c2(1)]) (use doc none in \<open>auto simp: doc_ok_def entries [symmetric]\<close>)
  have "post_at (re_postings e') key dk = corpus_posting C' key dk" for key dk
    using R posts [of key dk] none [of key]
    by (auto simp: overlay_def c2 corpus_posting_def C'_def split: option.splits)
  moreover have "re_doc_ids e2 = jmap_set ?k d (re_doc_ids e)" by (simp add: e2_def e1_def split: option.split)
  then have ids': "re_doc_ids e' = jmap_set ?k d (re_doc_ids e)" using R by (simp add: same_tables_def)
  moreover have "jmap_ok (re_doc_ids e')" unfolding ids' using ids(1) by simp
  moreover have "jmap_get (re_doc_ids e') dk = map_option cd_id (C' dk)" for dk
    unfolding ids' jmap_get_set ids(2) by (simp add: C'_def)
  moreover have "jmap_get (re_doc_metadata e') dk = (case C' dk of None \<Rightarrow> None | Some c \<Rightarrow> cd_metadata c)" for dk
    using R meta [of dk] new by (auto simp: same_tables_def e2_def e1_def C'_def jmap_simps split: option.splits)
  moreover have "re_stats e' = add_document (DStr ?k) (Fin (of_nat (id_total doc))) (re_stats e)"
    using R by (auto simp: same_tables_def e2_def e1_def split: option.splits)
  moreover have "corpus_lengths C' = (corpus_lengths C)(DStr ?k \<mapsto> Fin (of_nat (id_total doc)))"
    by (auto simp: corpus_lengths_def C'_def fun_eq_iff split: docid.split)
  moreover have "to_key (cd_id c) = dk \<and> fst ` set (id_frequencies (cd_doc c)) \<subseteq> set (re_fields e')" if "C' dk = Some c" for dk c
    using that docs [of dk c] R c2(3) by (auto simp: C'_def split: if_splits)
  ultimately have "represents C' e'"
    using R stats unfolding represents_def by (simp add: stats_ok_add)
  with False show ?thesis by (simp add: C'_def)
qed

section \<open>Ingested documents have well-formed keys\<close>

text \<open>Names without a colon: the key \<open>field::term\<close> then determines both parts.\<close>

definition plain :: "string \<Rightarrow> bool" where
  "plain s = (CHR '':'' \<notin> set s)"

lemma starts_with_colons: "plain u \<Longrightarrow> u \<noteq> [] \<Longrightarrow> \<not> starts_with (u @ s) ''::''"
  by (cases u) (auto simp: plain_def starts_with_def)

lemma split_go_plain:
  assumes "plain u"
  shows "split_go ''::'' acc (u @ ''::'' @ w) = (rev acc @ u) # split_go ''::'' [] w"
  using assms
proof (induction u arbitrary: acc)
  case Nil
  then show ?case by (subst split_go.simps) (simp add: starts_with_def)
next
  case (Cons c u)
  have "\<not> starts_with ((c # u) @ ''::'' @ w) ''::''" using starts_with_colons [OF Cons.prems, of "''::'' @ w"] by simp
  moreover have "plain u" using Cons.prems by (simp add: plain_def)
  ultimately show ?case using Cons.IH [of "c # acc"] by (subst split_go.simps) simp
qed

lemma split_go_last: "plain u \<Longrightarrow> split_go sep acc u = [rev acc @ u]" if "sep = ''::''"
  using that
proof (induction u arbitrary: acc)
  case Nil
  then show ?case by (simp add: split_go.simps)
next
  case (Cons c u)
  have "\<not> starts_with (c # u) ''::''" using starts_with_colons [of "c # u" "[]"] Cons.prems by simp
  with Cons show ?case by (subst split_go.simps) (simp add: plain_def)
qed

lemma key_second_part_plain: "plain f \<Longrightarrow> plain t \<Longrightarrow> key_second_part (posting_key f t) = t"
  by (simp add: key_second_part_def js_split_def posting_key_def split_go_plain [where u = f, simplified]
      split_go_last)

lemma posting_key_inj:
  assumes "plain f" and "plain g" and "posting_key f t = posting_key g u"
  shows "f = g \<and> t = u"
proof -
  have tw: "takeWhile (\<lambda>c. c \<noteq> CHR '':'') (posting_key f t) = f" if "plain f" for f t
    using that by (auto simp: plain_def posting_key_def takeWhile_append)
  have "f = g" using tw [OF assms(1), of t] tw [OF assms(2), of u] assms(3) by simp
  with assms(3) show ?thesis by (simp add: posting_key_def)
qed

definition acc_plain :: "accumulator \<Rightarrow> bool" where
  "acc_plain acc = (jmap_ok acc \<and> (\<forall>(f, st) \<in> set acc. plain f \<and> jmap_ok (fs_frequencies st) \<and>
     (\<forall>t \<in> fst ` set (fs_frequencies st). plain t \<and> t \<noteq> [])))"

lemma acc_plain_set:
  "acc_plain acc \<Longrightarrow> plain f \<Longrightarrow> jmap_ok (fs_frequencies st) \<Longrightarrow>
   (\<forall>t \<in> fst ` set (fs_frequencies st). plain t \<and> t \<noteq> []) \<Longrightarrow> acc_plain (jmap_set f st acc)"
  unfolding acc_plain_def by (auto simp: jmap_set_set)

lemma acc_plain_token:
  assumes "acc_plain acc" and "plain (tk_field t)" and "plain (tk_value t)"
  shows "acc_plain (add_token acc t)"
proof (cases "tk_value t = []")
  case False
  obtain entry acc1 where en: "ensure_field (tk_field t) acc = (entry, acc1)" by force
  have "jmap_ok (fs_frequencies entry) \<and> (\<forall>t \<in> fst ` set (fs_frequencies entry). plain t \<and> t \<noteq> [])"
  proof (cases "jmap_get acc (tk_field t)")
    case None
    with en show ?thesis by (auto simp: ensure_field_def empty_field_def)
  next
    case (Some st)
    then have "(tk_field t, entry) \<in> set acc" using en by (simp add: ensure_field_def map_of_SomeD)
    with assms(1) show ?thesis by (auto simp: acc_plain_def)
  qed
  moreover have "acc_plain acc1"
    using en assms by (auto simp: ensure_field_def empty_field_def split: option.splits intro!: acc_plain_set)
  ultimately show ?thesis
    using False assms(2,3) unfolding add_token_def en Let_def
    by (auto intro!: acc_plain_set simp: jmap_simps jmap_set_set)
qed (use assms in \<open>simp add: add_token_def\<close>)

definition wordy :: "string \<Rightarrow> bool" where
  "wordy s = list_all is_word_char s"

lemma wordy_plain: "wordy s \<Longrightarrow> plain s"
  by (auto simp: wordy_def plain_def list_all_iff is_word_char_def)

lemma wordy_prefix: "prefix s t \<Longrightarrow> wordy t \<Longrightarrow> wordy s"
  by (auto simp: wordy_def prefix_def)

lemma the_stemmer_prefix: "po_stemmer options = None \<Longrightarrow> prefix (the_stemmer options s) s"
  using english_stem_prefix [of s]
  by (auto simp: the_stemmer_def get_stemmer_for_language_def noop_stem_def Let_def)

lemma generate_ngrams_prefix:
  "t \<in> set (generate_ngrams ts lo hi) \<Longrightarrow> \<exists>t' \<in> set ts. prefix (tk_value t) (tk_value t')"
  by (auto simp: generate_ngrams_def grams_of_def Let_def case_prod_unfold take_is_prefix split: if_splits)
    (meson take_is_prefix)+

lemma the_grams_prefix:
  "t \<in> set (the_grams options field ts) \<Longrightarrow> \<exists>t' \<in> set ts. prefix (tk_value t) (tk_value t')"
  by (auto simp: the_grams_def Let_def split: if_splits option.splits dest: generate_ngrams_prefix)

lemma analyzed_wordy:
  assumes "po_stemmer options = None" and "t \<in> set (analyzed options field content d)"
  shows "wordy (tk_value t)"
proof -
  obtain u where u: "prefix (tk_value t) (tk_value u)"
      "u \<in> set (map (\<lambda>t. t\<lparr>tk_value := the_stemmer options (tk_value t)\<rparr>)
         (filter (\<lambda>t. tk_value t \<notin> set (the_stop_words options))
           (map (\<lambda>m. word_token field d (fst m, js_lower (snd m))) (word_matches 0 content))))"
    using the_grams_prefix assms(2) unfolding analyzed_def by blast
  then obtain i w where w: "(i, w) \<in> set (word_matches 0 content)" "tk_value u = the_stemmer options (js_lower w)"
    by (auto simp: word_token_def)
  have "is_run content i w" using w(1) word_matches_runs [of i w 0 content] by auto
  then have "wordy (js_lower w)" by (auto simp: is_run_def wordy_def js_lower_def list_all_iff)
  then have "wordy (tk_value u)" unfolding w(2) by (rule wordy_prefix [OF the_stemmer_prefix [OF assms(1)]])
  then show ?thesis by (rule wordy_prefix [OF u(1)])
qed

lemma distinct_concat_keys:
  assumes "distinct (map fst ffs)" and "\<And>f tfs. (f, tfs) \<in> set ffs \<Longrightarrow> plain f \<and> distinct (map fst tfs)"
  shows "distinct (map fst (concat (map (field_entries d md) ffs)))"
  using assms
proof (induction ffs)
  case (Cons ff ffs)
  obtain f tfs where ff: "ff = (f, tfs)" by (cases ff)
  have tfs: "distinct (map fst tfs)" using Cons.prems(2) [of f tfs] by (simp add: ff)
  have keys: "map fst (field_entries d md ff) = map (posting_key f) (map fst tfs)"
    by (auto simp: field_entries_def ff)
  have "inj_on (posting_key f) A" for A by (auto simp: inj_on_def posting_key_def)
  then have "distinct (map fst (field_entries d md ff))" unfolding keys distinct_map [of "posting_key f"] using tfs by blast
  moreover have "fst ` set (field_entries d md ff) \<inter> fst ` set (concat (map (field_entries d md) ffs)) = {}"
  proof (rule ccontr)
    assume "fst ` set (field_entries d md ff) \<inter> fst ` set (concat (map (field_entries d md) ffs)) \<noteq> {}"
    then obtain g us t u where g: "(g, us) \<in> set ffs" "posting_key f t = posting_key g u"
      by (auto simp: field_entries_def ff)
    have "plain f" "plain g" using Cons.prems(2) [of f tfs] Cons.prems(2) [of g us] g(1) by (auto simp: ff)
    then have "f = g" using posting_key_inj g(2) by blast
    with Cons.prems(1) g(1) show False by (force simp: ff)
  qed
  moreover have "distinct (map fst (concat (map (field_entries d md) ffs)))"
  proof (rule Cons.IH)
    show "distinct (map fst ffs)" using Cons.prems(1) by simp
    show "plain f \<and> distinct (map fst tfs)" if "(f, tfs) \<in> set ffs" for f tfs
      using Cons.prems(2) [of f tfs] that by simp
  qed
  ultimately show ?case by simp
qed simp

definition plain_options :: "pipeline_options \<Rightarrow> bool" where
  "plain_options opts = (po_custom opts = None \<and> po_stemmer opts = None)"

definition plain_fields :: "(string, string) jmap \<Rightarrow> bool" where
  "plain_fields fxs = (\<forall>f \<in> fst ` set fxs. plain f)"

lemma plain_builtin: "plain_options opts \<Longrightarrow> builtin_stages opts = opts"
  by (simp add: plain_options_def builtin_stages_def)

lemma record_tokens_field:
  "t \<in> set (record_tokens opts r) \<Longrightarrow> tk_field t \<in> fst ` set (ir_fields r)"
  by (force simp: record_tokens_def dest: analyzed_owner split: if_splits)

lemma frequencies_member:
  assumes acc: "acc_plain acc"
    and ff: "(f, tfs) \<in> set (map (\<lambda>(f, st). (f, map (\<lambda>(t, n). (t, if 0 < n then n else 1)) (fs_frequencies st))) acc)"
  shows "plain f \<and> distinct (map fst tfs) \<and> (\<forall>t \<in> fst ` set tfs. plain t \<and> t \<noteq> [])"
proof -
  obtain st where st: "(f, st) \<in> set acc" "tfs = map (\<lambda>(t, n). (t, if 0 < n then n else 1)) (fs_frequencies st)"
    using ff by auto
  have keys: "map fst tfs = map fst (fs_frequencies st)" by (simp add: st(2) comp_def case_prod_unfold)
  then have "fst ` set tfs = fst ` set (fs_frequencies st)" by (metis set_map)
  moreover have "plain f \<and> jmap_ok (fs_frequencies st) \<and> (\<forall>t \<in> fst ` set (fs_frequencies st). plain t \<and> t \<noteq> [])"
    using acc st(1) unfolding acc_plain_def by blast
  ultimately show ?thesis unfolding keys by blast
qed

definition doc_plain :: "ingested_document \<Rightarrow> bool" where
  "doc_plain doc = (distinct (map fst (id_frequencies doc)) \<and> (\<forall>(f, tfs) \<in> set (id_frequencies doc).
     plain f \<and> distinct (map fst tfs) \<and> (\<forall>t \<in> fst ` set tfs. plain t \<and> t \<noteq> [])))"

lemma ingest_doc_ok:
  assumes "plain_options opts" and "plain_fields (ir_fields r)" and "ingest (pipeline_run opts) r = Inr doc"
  shows "doc_ok doc \<and> id_doc doc = ir_doc r \<and> doc_plain doc"
proof -
  let ?ts = "record_tokens opts r"
  let ?acc = "foldl add_token [] ?ts"
  have doc: "doc = convert_accumulator (ir_doc r) ?acc"
    using assms(3) ingest_builtin [of opts r] by (simp add: plain_builtin [OF assms(1)])
  have token: "plain (tk_field t) \<and> plain (tk_value t)" if t: "t \<in> set ?ts" for t
  proof
    show "plain (tk_field t)" using assms(2) record_tokens_field [OF t] by (auto simp: plain_fields_def)
    obtain f x where "t \<in> set (analyzed (builtin_stages opts) f x (Some (ir_doc r)))"
      using t by (auto simp: record_tokens_def split: if_splits)
    then show "plain (tk_value t)"
      using assms(1) by (intro wordy_plain analyzed_wordy) (auto simp: plain_options_def builtin_stages_def)
  qed
  have acc: "acc_plain ?acc"
  proof (rule foldl_invariant)
    show "acc_plain []" by (simp add: acc_plain_def)
  qed (use token acc_plain_token in blast)
  have freqs: "id_frequencies doc = map (\<lambda>(f, st). (f, map (\<lambda>(t, n). (t, if 0 < n then n else 1)) (fs_frequencies st))) ?acc"
    by (simp add: doc convert_accumulator_def)
  have member: "plain f \<and> distinct (map fst tfs) \<and> (\<forall>t \<in> fst ` set tfs. plain t \<and> t \<noteq> [])"
    if ff: "(f, tfs) \<in> set (id_frequencies doc)" for f tfs
    by (rule frequencies_member [OF acc ff [unfolded freqs]])
  have "map fst (id_frequencies doc) = map fst ?acc" unfolding freqs by (simp add: comp_def case_prod_unfold)
  then have "distinct (map fst (id_frequencies doc))" using acc by (simp add: acc_plain_def)
  then have "distinct (map fst (doc_entries (id_doc doc) doc))"
    unfolding doc_entries_def by (rule distinct_concat_keys) (use member in blast)
  moreover have "pairs_ok ff" if "ff \<in> set (id_frequencies doc)" for ff
  proof -
    obtain f tfs where ff: "ff = (f, tfs)" by (cases ff)
    show ?thesis using member [of f tfs] that by (force simp: ff pairs_ok_def key_second_part_plain)
  qed
  moreover have "id_doc doc = ir_doc r" by (simp add: doc convert_accumulator_def)
  moreover have "doc_plain doc"
    unfolding doc_plain_def using member \<open>distinct (map fst (id_frequencies doc))\<close> by blast
  ultimately show ?thesis by (simp add: doc_ok_def)
qed

end
