(* ===== verification/MemorySearch.thy ===== *)
theory MemorySearch
  imports MemoryInvariant
begin

text \<open>
  What a search returns: the terms a query stands for, the documents that hold one of them, and
  the proof that \<open>executeDetailedSearch\<close> returns a page of exactly those.
\<close>

section \<open>The terms of a query\<close>

definition query_values :: "pipeline_options \<Rightarrow> string \<Rightarrow> string \<Rightarrow> string set" where
  "query_values opts query field =
     {tk_value t | t. t \<in> set (analyzed opts field query None) \<and> \<not> meta_is_prefix (tk_metadata t)}"

text \<open>The indexed terms a query word stands for, by mode: prefix, fuzzy with a distance, exact.\<close>

definition expands_to :: "jsnum option \<Rightarrow> bool \<Rightarrow> string set \<Rightarrow> string \<Rightarrow> string set" where
  "expands_to fuzzyDistance prefixMode vocabulary v =
     (if prefixMode then {w \<in> vocabulary. prefix v w}
      else case fuzzyDistance of
        Some d \<Rightarrow> {w \<in> vocabulary. Fin (of_nat (edit_distance (js_lower v) (js_lower w))) \<le> capped_distance d}
      | None \<Rightarrow> {v})"

definition candidates :: "jsnum option \<Rightarrow> bool \<Rightarrow> string jset \<Rightarrow> string \<Rightarrow> string list" where
  "candidates fuzzyDistance prefixMode vocabulary v =
     (if prefixMode then filter (\<lambda>w. starts_with w v) vocabulary
      else case fuzzyDistance of Some d \<Rightarrow> fuzzy_expand v d vocabulary | None \<Rightarrow> [v])"

lemma set_candidates: "set (candidates fz pm vocabulary v) = expands_to fz pm (set vocabulary) v"
  by (auto simp: candidates_def expands_to_def starts_with_prefix fuzzy_expand_filter levenshtein_lev
      lev_edit_distance split: option.split)

section \<open>Building the query\<close>

definition query_keys_ok :: "token_map \<Rightarrow> bool" where
  "query_keys_ok m = (jmap_ok m \<and> (\<forall>(k, q) \<in> set m. posting_key (qy_field q) (qy_term q) = k \<and>
     qy_boost q \<in> {Fin 1, Fin (9 / 10), Fin (4 / 5)}))"

lemma add_query_term_keys:
  assumes "query_keys_ok m" and "b \<in> {Fin (9 / 10), Fin (4 / 5)}"
  shows "query_keys_ok (add_query_term f v b m w) \<and>
    fst ` set (add_query_term f v b m w) = insert (posting_key f w) (fst ` set m)"
proof (cases "jmap_has m (posting_key f w)")
  case True
  then have "posting_key f w \<in> fst ` set m" by (auto simp: map_of_eq_None_iff)
  with True assms(1) show ?thesis by (auto simp: add_query_term_def Let_def insert_absorb)
next
  case False
  with assms show ?thesis
    by (auto simp: add_query_term_def Let_def query_keys_ok_def jmap_set_absent map_of_eq_None_iff)
qed

lemma add_query_terms_keys:
  "query_keys_ok m \<Longrightarrow> b \<in> {Fin (9 / 10), Fin (4 / 5)} \<Longrightarrow>
   query_keys_ok (foldl (add_query_term f v b) m ws) \<and>
   fst ` set (foldl (add_query_term f v b) m ws) = posting_key f ` set ws \<union> fst ` set m"
proof (induction ws arbitrary: m)
  case (Cons w ws)
  from Cons.IH [OF conjunct1 [OF add_query_term_keys [OF Cons.prems]] Cons.prems(2)]
    add_query_term_keys [OF Cons.prems, of f v w]
  show ?case by simp
qed simp

lemma cached_expansion:
  assumes "fuzzy_ok e"
  shows "\<exists>c. get_cached_fuzzy_expansion v d e = (fuzzy_expand v d (re_vocabulary e), e\<lparr>re_fuzzy := c\<rparr>) \<and>
    fuzzy_ok (e\<lparr>re_fuzzy := c\<rparr>)"
proof (cases "jmap_get (re_fuzzy e) (v, d)")
  case (Some x)
  then have "x = fuzzy_expand v d (re_vocabulary e)" using assms by (simp add: fuzzy_ok_def)
  with Some assms show ?thesis by (intro exI [of _ "re_fuzzy e"]) (simp add: get_cached_fuzzy_expansion_def)
next
  case None
  define x where "x = fuzzy_expand v d (re_vocabulary e)"
  define c1 where "c1 = jmap_set (v, d) x (re_fuzzy e)"
  define c2 where "c2 = (if 1000 < length c1 then (case c1 of [] \<Rightarrow> c1 | (k, _) # _ \<Rightarrow> jmap_del k c1) else c1)"
  have sub: "y = fuzzy_expand t d' (re_vocabulary e)" if "jmap_get c1 (t, d') = Some y" for t d' y
    using that assms by (auto simp: c1_def jmap_simps x_def fuzzy_ok_def split: if_splits)
  have "c2 = c1 \<or> (\<exists>k. c2 = jmap_del k c1)" by (auto simp: c2_def split: list.split)
  then have "jmap_get c2 k = Some y \<Longrightarrow> jmap_get c1 k = Some y" for k y
    by (auto simp: jmap_simps split: if_splits)
  then have "fuzzy_ok (e\<lparr>re_fuzzy := c2\<rparr>)" using sub by (simp add: fuzzy_ok_def)
  moreover have "get_cached_fuzzy_expansion v d e = (x, e\<lparr>re_fuzzy := c2\<rparr>)"
    unfolding get_cached_fuzzy_expansion_def None Let_def option.case c2_def c1_def x_def ..
  ultimately show ?thesis unfolding x_def by blast
qed

text \<open>A search changes nothing of the engine but the cache of expansions, which stays correct.\<close>

definition same_index :: "resource_engine \<Rightarrow> resource_engine \<Rightarrow> bool" where
  "same_index e e' = (\<exists>c. e' = e\<lparr>re_fuzzy := c\<rparr> \<and> fuzzy_ok e')"

lemma same_indexD:
  "same_index e e' \<Longrightarrow> re_vocabulary e' = re_vocabulary e \<and> re_postings e' = re_postings e \<and> fuzzy_ok e' \<and>
   re_stats e' = re_stats e \<and> re_doc_ids e' = re_doc_ids e \<and> re_doc_metadata e' = re_doc_metadata e \<and> re_fields e' = re_fields e"
  by (auto simp: same_index_def)

lemma same_index_trans: "same_index e e' \<Longrightarrow> same_index e' e'' \<Longrightarrow> same_index e e''"
  by (auto simp: same_index_def)

lemma same_index_refl: "fuzzy_ok e \<Longrightarrow> same_index e e"
  by (auto simp: same_index_def intro: exI [of _ "re_fuzzy e"])

lemma same_index_represents: "represents C e \<Longrightarrow> same_index e e' \<Longrightarrow> represents C e'"
  unfolding same_index_def by (elim exE conjE) (simp add: represents_def engine_core_def refs_ok_def)

lemma add_token_terms_keys:
  assumes "query_keys_ok m" and "fuzzy_ok e"
  shows "\<exists>m' e'. add_token_terms fz pm f (m, e) t = (m', e') \<and> query_keys_ok m' \<and> same_index e e' \<and>
    fst ` set m' = posting_key f ` set (candidates fz pm (re_vocabulary e) (tk_value t)) \<union> fst ` set m"
proof (cases pm)
  case True
  then show ?thesis
    using add_query_terms_keys [OF assms(1), of "Fin (9 / 10)" f "tk_value t" "filter (\<lambda>w. starts_with w (tk_value t)) (re_vocabulary e)"]
      same_index_refl [OF assms(2)]
    by (simp add: add_token_terms_def candidates_def)
next
  case False
  show ?thesis
  proof (cases fz)
    case None
    with False show ?thesis
      using add_query_terms_keys [OF assms(1), of "Fin (4 / 5)" f "tk_value t" "[tk_value t]"] same_index_refl [OF assms(2)]
      by (simp add: add_token_terms_def candidates_def)
  next
    case (Some d)
    obtain c where c: "get_cached_fuzzy_expansion (tk_value t) d e = (fuzzy_expand (tk_value t) d (re_vocabulary e), e\<lparr>re_fuzzy := c\<rparr>)"
      "fuzzy_ok (e\<lparr>re_fuzzy := c\<rparr>)" using cached_expansion [OF assms(2)] by blast
    then have "same_index e (e\<lparr>re_fuzzy := c\<rparr>)" by (auto simp: same_index_def)
    with False Some c(1) show ?thesis
      using add_query_terms_keys [OF assms(1), of "Fin (4 / 5)" f "tk_value t" "fuzzy_expand (tk_value t) d (re_vocabulary e)"]
      by (simp add: add_token_terms_def candidates_def)
  qed
qed

lemma add_tokens_terms_keys:
  "query_keys_ok m \<Longrightarrow> fuzzy_ok e \<Longrightarrow>
   \<exists>m' e'. foldl (add_token_terms fz pm f) (m, e) ts = (m', e') \<and> query_keys_ok m' \<and> same_index e e' \<and>
    fst ` set m' = (\<Union>t \<in> set ts. posting_key f ` set (candidates fz pm (re_vocabulary e) (tk_value t))) \<union> fst ` set m"
proof (induction ts arbitrary: m e)
  case Nil
  then show ?case using same_index_refl by simp
next
  case (Cons t ts)
  obtain m1 e1 where s1: "add_token_terms fz pm f (m, e) t = (m1, e1)" "query_keys_ok m1" "same_index e e1"
      "fst ` set m1 = posting_key f ` set (candidates fz pm (re_vocabulary e) (tk_value t)) \<union> fst ` set m"
    using add_token_terms_keys [OF Cons.prems, of fz pm f t] by (elim exE conjE) (rule that)
  note e1 = same_indexD [OF s1(3)]
  then have fz1: "fuzzy_ok e1" by blast
  obtain m2 e2 where s2: "foldl (add_token_terms fz pm f) (m1, e1) ts = (m2, e2)" "query_keys_ok m2" "same_index e1 e2"
      "fst ` set m2 = (\<Union>t \<in> set ts. posting_key f ` set (candidates fz pm (re_vocabulary e1) (tk_value t))) \<union> fst ` set m1"
    using Cons.IH [OF s1(2) fz1] by (elim exE conjE) (rule that)
  have "fst ` set m2 = (\<Union>t \<in> set (t # ts). posting_key f ` set (candidates fz pm (re_vocabulary e) (tk_value t))) \<union> fst ` set m"
    using s2(4) s1(4) e1 by (simp add: Un_ac)
  moreover have "foldl (add_token_terms fz pm f) (m, e) (t # ts) = (m2, e2)" by (simp add: s1(1) s2(1))
  ultimately show ?case using s2(2) same_index_trans [OF s1(3) s2(3)] by blast
qed

lemma build_tokens:
  assumes opts: "plain_options opts"
  shows "query_keys_ok m \<Longrightarrow> fuzzy_ok e \<Longrightarrow>
   \<exists>m' e'. build_query_tokens opts query fz pm fs (m, e) = (Inr (jmap_values m'), e') \<and> query_keys_ok m' \<and> same_index e e' \<and>
    fst ` set m' = {posting_key f w | f v w. f \<in> set fs \<and> v \<in> query_values opts query f \<and>
        w \<in> expands_to fz pm (set (re_vocabulary e)) v} \<union> fst ` set m"
proof (induction fs arbitrary: m e)
  case Nil
  then show ?case using same_index_refl by (intro exI [of _ m] exI [of _ e]) simp
next
  case (Cons f fs)
  let ?ts = "filter (\<lambda>t. \<not> meta_is_prefix (tk_metadata t)) (analyzed opts f query None)"
  have run: "pipeline_run opts f query None = Inr (analyzed opts f query None)"
    using builtin_run [of opts f query None] by (simp add: plain_builtin [OF opts])
  obtain m1 e1 where s1: "foldl (add_token_terms fz pm f) (m, e) ?ts = (m1, e1)" "query_keys_ok m1" "same_index e e1"
      "fst ` set m1 = (\<Union>t \<in> set ?ts. posting_key f ` set (candidates fz pm (re_vocabulary e) (tk_value t))) \<union> fst ` set m"
    using add_tokens_terms_keys [OF Cons.prems, of fz pm f ?ts] by (elim exE conjE) (rule that)
  note e1 = same_indexD [OF s1(3)]
  obtain m2 e2 where s2: "build_query_tokens opts query fz pm fs (m1, e1) = (Inr (jmap_values m2), e2)" "query_keys_ok m2"
      "same_index e1 e2"
      "fst ` set m2 = {posting_key f w | f v w. f \<in> set fs \<and> v \<in> query_values opts query f \<and>
        w \<in> expands_to fz pm (set (re_vocabulary e1)) v} \<union> fst ` set m1"
    using Cons.IH [OF s1(2)] e1 by blast
  have here: "(\<Union>t \<in> set ?ts. posting_key f ` set (candidates fz pm (re_vocabulary e) (tk_value t))) =
      {posting_key f w | v w. v \<in> query_values opts query f \<and> w \<in> expands_to fz pm (set (re_vocabulary e)) v}"
    by (auto simp: query_values_def set_candidates)
  have "fst ` set m2 = {posting_key f' w | f' v w. f' \<in> set (f # fs) \<and> v \<in> query_values opts query f' \<and>
        w \<in> expands_to fz pm (set (re_vocabulary e)) v} \<union> fst ` set m"
    unfolding s2(4) s1(4) here using e1 by auto
  moreover have "build_query_tokens opts query fz pm (f # fs) (m, e) = (Inr (jmap_values m2), e2)"
    by (simp add: run s1(1) s2(1))
  ultimately show ?case using s2(2) same_index_trans [OF s1(3) s2(3)] by blast
qed

section \<open>What a corpus holds\<close>

definition corpus_plain :: "corpus \<Rightarrow> bool" where
  "corpus_plain C = (\<forall>dk c. C dk = Some c \<longrightarrow> doc_plain (cd_doc c))"

definition doc_has :: "ingested_document \<Rightarrow> string \<Rightarrow> string \<Rightarrow> bool" where
  "doc_has doc f w = (case jmap_get (id_frequencies doc) f of None \<Rightarrow> False | Some m \<Rightarrow> jmap_has m w)"

definition doc_prefix :: "ingested_document \<Rightarrow> string \<Rightarrow> string \<Rightarrow> bool" where
  "doc_prefix doc f w = meta_is_prefix (jmap_get (case jmap_get (id_metadata doc) f of None \<Rightarrow> [] | Some m \<Rightarrow> m) w)"

definition corpus_vocabulary :: "corpus \<Rightarrow> string set" where
  "corpus_vocabulary C = {w. \<exists>dk c f. C dk = Some c \<and> doc_has (cd_doc c) f w \<and> \<not> doc_prefix (cd_doc c) f w}"

lemma posting_key_last:
  assumes "plain t" and "plain u" and "posting_key f t = posting_key g u"
  shows "f = g \<and> t = u"
proof -
  have tw: "takeWhile (\<lambda>c. c \<noteq> CHR '':'') (rev (posting_key f t)) = rev t" if "plain t" for f t
    using that by (auto simp: plain_def posting_key_def takeWhile_append)
  have "rev t = rev u" using tw [OF assms(1), of f] tw [OF assms(2), of g] assms(3) by simp
  with assms(3) show ?thesis by (simp add: posting_key_def)
qed

lemma doc_has_pairs:
  "doc_plain doc \<Longrightarrow> doc_has doc f w \<longleftrightarrow> (\<exists>tfs n. (f, tfs) \<in> set (id_frequencies doc) \<and> (w, n) \<in> set tfs)"
proof -
  assume plain: "doc_plain doc"
  then have ok: "jmap_ok (id_frequencies doc)" by (simp add: doc_plain_def)
  have "jmap_has m w \<longleftrightarrow> (\<exists>n. (w, n) \<in> set m)" for m :: "(string, nat) jmap"
    by (force simp: map_of_eq_None_iff)
  moreover have "tfs = tfs'" if "(f, tfs) \<in> set (id_frequencies doc)" "(f, tfs') \<in> set (id_frequencies doc)" for tfs tfs'
    using that jmap_get_in_set [OF ok, of f] by (metis option.inject)
  ultimately show ?thesis unfolding doc_has_def
    using jmap_get_in_set [OF ok, of f] by (auto split: option.split)
qed

lemma doc_plain_terms: "doc_plain doc \<Longrightarrow> doc_has doc f w \<Longrightarrow> plain f \<and> plain w \<and> w \<noteq> []"
  by (auto simp: doc_has_pairs) (force simp: doc_plain_def)+

lemma doc_entries_distinct: "doc_plain doc \<Longrightarrow> distinct (map fst (doc_entries d doc))"
  unfolding doc_entries_def by (rule distinct_concat_keys) (auto simp: doc_plain_def)

lemma doc_entries_set:
  "doc_plain doc \<Longrightarrow> (k, p) \<in> set (doc_entries d doc) \<Longrightarrow>
   \<exists>f w. doc_has doc f w \<and> k = posting_key f w \<and> pi_metadata p = jmap_get (case jmap_get (id_metadata doc) f of None \<Rightarrow> [] | Some m \<Rightarrow> m) w"
  by (auto simp: doc_entries_def field_entries_def doc_has_pairs) fastforce

lemma doc_entries_has:
  "doc_plain doc \<Longrightarrow> doc_has doc f w \<Longrightarrow>
   \<exists>p. (posting_key f w, p) \<in> set (doc_entries d doc) \<and>
     pi_metadata p = jmap_get (case jmap_get (id_metadata doc) f of None \<Rightarrow> [] | Some m \<Rightarrow> m) w"
  by (force simp: doc_entries_def field_entries_def doc_has_pairs)

lemma corpus_posting_has:
  assumes "corpus_plain C" and "plain w"
  shows "corpus_posting C (posting_key f w) dk \<noteq> None \<longleftrightarrow> (\<exists>c. C dk = Some c \<and> doc_has (cd_doc c) f w)"
proof (cases "C dk")
  case None
  then show ?thesis by (simp add: corpus_posting_def)
next
  case (Some c)
  have plain: "doc_plain (cd_doc c)" using assms(1) Some by (auto simp: corpus_plain_def)
  have "map_of (doc_entries (cd_id c) (cd_doc c)) (posting_key f w) \<noteq> None \<longleftrightarrow> doc_has (cd_doc c) f w"
  proof
    assume "map_of (doc_entries (cd_id c) (cd_doc c)) (posting_key f w) \<noteq> None"
    then obtain p where "(posting_key f w, p) \<in> set (doc_entries (cd_id c) (cd_doc c))" by (auto dest: map_of_SomeD)
    then obtain g u where gu: "doc_has (cd_doc c) g u" "posting_key f w = posting_key g u"
      using doc_entries_set [OF plain] by blast
    then have "f = g \<and> w = u" using posting_key_last [OF assms(2)] doc_plain_terms [OF plain] by blast
    with gu show "doc_has (cd_doc c) f w" by simp
  next
    assume "doc_has (cd_doc c) f w"
    then show "map_of (doc_entries (cd_id c) (cd_doc c)) (posting_key f w) \<noteq> None"
      using doc_entries_has [OF plain, of f w "cd_id c"] unfolding map_of_eq_None_iff by force
  qed
  with Some show ?thesis by (simp add: corpus_posting_def)
qed

lemma ref_count_positive:
  assumes "table_ok P"
  shows "ref_count P t \<noteq> 0 \<longleftrightarrow> (\<exists>k dk p. post_at P k dk = Some p \<and> counted p \<and> key_second_part k = t)"
proof -
  have ok: "jmap_ok P" "\<And>k m. (k, m) \<in> set P \<Longrightarrow> jmap_ok m" using assms by (auto simp: table_ok_def)
  have post: "post_at P k dk = Some p \<longleftrightarrow> (\<exists>m. (k, m) \<in> set P \<and> (dk, p) \<in> set m)" for k dk p
  proof (cases "jmap_get P k")
    case None
    then have "(k, m) \<notin> set P" for m by (force simp: map_of_eq_None_iff)
    then show ?thesis using None by (simp add: post_at_def)
  next
    case (Some m)
    then have m: "(k, m) \<in> set P" by (rule map_of_SomeD)
    have "m' = m" if "(k, m') \<in> set P" for m' using that Some jmap_get_in_set [OF ok(1), of k m'] by simp
    then have "(\<exists>m'. (k, m') \<in> set P \<and> (dk, p) \<in> set m') \<longleftrightarrow> (dk, p) \<in> set m" using m by blast
    then show ?thesis using Some jmap_get_in_set [OF ok(2) [OF m], of dk p] by (simp add: post_at_def)
  qed
  have "ref_count P t \<noteq> 0 \<longleftrightarrow> (\<exists>k m. (k, m) \<in> set P \<and> key_second_part k = t \<and> map_count m \<noteq> 0)"
  proof -
    have "ref_count P t \<noteq> 0 \<longleftrightarrow> (\<exists>x \<in> set P. (case x of (k, m) \<Rightarrow> if key_second_part k = t then map_count m else 0) \<noteq> 0)"
      unfolding ref_count_def sum_list_eq_0_iff by (simp add: image_iff)
    also have "\<dots> \<longleftrightarrow> (\<exists>k m. (k, m) \<in> set P \<and> (if key_second_part k = t then map_count m else 0) \<noteq> 0)"
      by (simp only: Bex_def split_paired_Ex prod.case)
    also have "\<dots> \<longleftrightarrow> (\<exists>k m. (k, m) \<in> set P \<and> key_second_part k = t \<and> map_count m \<noteq> 0)"
      by (intro ex_cong1) auto
    finally show ?thesis .
  qed
  also have "\<dots> \<longleftrightarrow> (\<exists>k m dk p. (k, m) \<in> set P \<and> key_second_part k = t \<and> (dk, p) \<in> set m \<and> counted p)"
    by (auto simp: map_count_def filter_empty_conv)
  also have "\<dots> \<longleftrightarrow> (\<exists>k dk p. post_at P k dk = Some p \<and> counted p \<and> key_second_part k = t)"
    unfolding post by blast
  finally show ?thesis .
qed

lemma vocabulary_exact:
  assumes "represents C e" and "corpus_plain C"
  shows "set (re_vocabulary e) = corpus_vocabulary C"
proof -
  have tab: "table_ok (re_postings e)" and refs: "refs_match (re_refs e) (re_vocabulary e) (ref_count (re_postings e))"
    and posts: "\<And>key dk. post_at (re_postings e) key dk = corpus_posting C key dk"
    using assms(1) by (auto simp: represents_def engine_core_def refs_ok_def)
  have doc: "doc_plain (cd_doc c)" if "C dk = Some c" for dk c using that assms(2) by (auto simp: corpus_plain_def)
  have "w \<in> set (re_vocabulary e) \<longleftrightarrow> w \<noteq> [] \<and> ref_count (re_postings e) w \<noteq> 0" for w
  proof -
    have "w \<in> set (re_vocabulary e) \<longleftrightarrow> jmap_has (re_refs e) w" using refs unfolding refs_match_def by blast
    then show ?thesis using refs unfolding refs_match_def by simp
  qed
  also have "w \<noteq> [] \<and> ref_count (re_postings e) w \<noteq> 0 \<longleftrightarrow> w \<in> corpus_vocabulary C" for w
    unfolding ref_count_positive [OF tab] posts
  proof
    assume "w \<noteq> [] \<and> (\<exists>k dk p. corpus_posting C k dk = Some p \<and> counted p \<and> key_second_part k = w)"
    then obtain k dk p where k: "corpus_posting C k dk = Some p" "counted p" "key_second_part k = w" by blast
    then obtain c where c: "C dk = Some c" "(k, p) \<in> set (doc_entries (cd_id c) (cd_doc c))"
      by (auto simp: corpus_posting_def dest: map_of_SomeD split: option.splits)
    obtain f u where fu: "doc_has (cd_doc c) f u" "k = posting_key f u"
      "pi_metadata p = jmap_get (case jmap_get (id_metadata (cd_doc c)) f of None \<Rightarrow> [] | Some m \<Rightarrow> m) u"
      using doc_entries_set [OF doc [OF c(1)] c(2)] by blast
    have "u = w" using k(3) fu(2) doc_plain_terms [OF doc [OF c(1)] fu(1)] key_second_part_plain by simp
    with c(1) fu k(2) show "w \<in> corpus_vocabulary C"
      by (auto simp: corpus_vocabulary_def doc_prefix_def counted_def)
  next
    assume "w \<in> corpus_vocabulary C"
    then obtain dk c f where c: "C dk = Some c" "doc_has (cd_doc c) f w" "\<not> doc_prefix (cd_doc c) f w"
      by (auto simp: corpus_vocabulary_def)
    note pl = doc_plain_terms [OF doc [OF c(1)] c(2)]
    obtain p where p: "(posting_key f w, p) \<in> set (doc_entries (cd_id c) (cd_doc c))"
      "pi_metadata p = jmap_get (case jmap_get (id_metadata (cd_doc c)) f of None \<Rightarrow> [] | Some m \<Rightarrow> m) w"
      using doc_entries_has [OF doc [OF c(1)] c(2)] by blast
    have "corpus_posting C (posting_key f w) dk = Some p"
      using p(1) jmap_get_in_set [OF doc_entries_distinct [OF doc [OF c(1)]]] by (simp add: corpus_posting_def c(1))
    with p(2) c(3) pl show "w \<noteq> [] \<and> (\<exists>k dk p. corpus_posting C k dk = Some p \<and> counted p \<and> key_second_part k = w)"
      using key_second_part_plain by (fastforce simp: counted_def doc_prefix_def)
  qed
  finally show ?thesis by blast
qed

section \<open>The page of results\<close>

definition page_size :: "jsnum option \<Rightarrow> nat \<Rightarrow> nat" where
  "page_size limit n = (case limit of
     None \<Rightarrow> min 10 n
   | Some (Fin x) \<Rightarrow> min (max 1 (nat \<lfloor>x\<rfloor>)) n
   | Some PInf \<Rightarrow> n
   | Some NInf \<Rightarrow> min 1 n
   | Some NaN \<Rightarrow> 0)"

lemma slice_page:
  "length (js_slice_to (js_max (Fin 1) (case limit of Some l \<Rightarrow> l | None \<Rightarrow> Fin 10)) xs) = page_size limit (length xs)"
proof (cases limit)
  case (Some l)
  then show ?thesis
  proof (cases l)
    case (Fin x)
    define n where "n = nat \<lfloor>max 1 x\<rfloor>"
    have "\<lfloor>max 1 x\<rfloor> = max 1 \<lfloor>x\<rfloor>" by (simp add: max_def)
    then have "n = max 1 (nat \<lfloor>x\<rfloor>)" unfolding n_def by linarith
    moreover have "length (js_slice_to (Fin (max 1 x)) xs) = min n (length xs)"
      by (simp add: js_slice_to_def Let_def n_def min.commute)
    ultimately show ?thesis using Some Fin by (simp add: page_size_def)
  qed (auto simp: js_slice_to_def page_size_def js_max_def Let_def)
qed (simp add: js_slice_to_def page_size_def)

definition doc_passes :: "(rat \<Rightarrow> string) \<Rightarrow> search_params \<Rightarrow> jsrec option \<Rightarrow> bool" where
  "doc_passes dtoa params metadata =
     (\<forall>(allowed, field) \<in> {(sp_namespaces params, ''__ns''), (sp_regions params, ''__region'')}.
        allowed \<in> {None, Some []} \<or>
        (\<exists>xs r. allowed = Some xs \<and> metadata = Some r \<and> js_string dtoa (js_get r field) \<in> set xs))"

definition searched :: "search_params \<Rightarrow> string \<Rightarrow> bool" where
  "searched params f = (case sp_fields params of Some fs \<Rightarrow> f \<in> set fs | None \<Rightarrow> True)"

definition doc_matches :: "pipeline_options \<Rightarrow> search_params \<Rightarrow> string set \<Rightarrow> ingested_document \<Rightarrow> bool" where
  "doc_matches opts params vocabulary doc = (\<exists>f v w. searched params f \<and> v \<in> query_values opts (sp_query params) f \<and>
     w \<in> expands_to (get_fuzzy_distance (sp_fuzzy params)) (sp_prefix params = Some True) vocabulary v \<and> doc_has doc f w)"

text \<open>The keys of the documents a search is about.\<close>

definition found_keys :: "(rat \<Rightarrow> string) \<Rightarrow> pipeline_options \<Rightarrow> search_params \<Rightarrow> corpus \<Rightarrow> string set" where
  "found_keys dtoa opts params C = {dk. \<exists>c. C dk = Some c \<and> doc_passes dtoa params (cd_metadata c) \<and>
     doc_matches opts params (corpus_vocabulary C) (cd_doc c)}"

lemma matches_metadata:
  assumes "represents C e" and "C dk = Some c"
  shows "matches_metadata_filters dtoa params e dk \<longleftrightarrow> doc_passes dtoa params (cd_metadata c)"
proof -
  have "jmap_get (re_doc_metadata e) dk = cd_metadata c" using assms by (simp add: represents_def)
  then show ?thesis
    by (auto simp: matches_metadata_filters_def doc_passes_def Let_def split: option.splits list.splits)
qed

lemma query_chunk_postings:
  "{d. \<exists>c \<in> set (some_of (map (query_chunk params e) qs)). \<exists>p \<in> set (rc_postings c). tp_doc p = d} =
   {DStr dk | dk. \<exists>q \<in> set qs. post_at (re_postings e) (posting_key (qy_field q) (qy_term q)) dk \<noteq> None}"
  (is "?L = ?R")
proof -
  have mem: "(\<exists>p \<in> set (rc_postings c). tp_doc p = d) \<longleftrightarrow> (\<exists>dk. d = DStr dk \<and> post_at (re_postings e) (posting_key (qy_field q) (qy_term q)) dk \<noteq> None)"
    if some: "query_chunk params e q = Some c" for q c d
  proof -
    obtain m where m: "jmap_get (re_postings e) (posting_key (qy_field q) (qy_term q)) = Some m"
      using some by (auto simp: query_chunk_def split: option.splits)
    have "tp_doc ` set (rc_postings c) = DStr ` fst ` set m"
      using some m by (force simp: query_chunk_def Let_def image_iff split_beta)
    moreover have "(\<exists>p \<in> set (rc_postings c). tp_doc p = d) \<longleftrightarrow> d \<in> tp_doc ` set (rc_postings c)" by blast
    ultimately show ?thesis unfolding post_at_def m by (auto simp: map_of_eq_None_iff)
  qed
  have none: "post_at (re_postings e) (posting_key (qy_field q) (qy_term q)) dk = None" if "query_chunk params e q = None" for q dk
    using that by (auto simp: query_chunk_def post_at_def Let_def split: option.splits)
  have set: "c \<in> set (some_of (map (query_chunk params e) qs)) \<longleftrightarrow> (\<exists>q \<in> set qs. query_chunk params e q = Some c)" for c
    by (force simp: set_some_of image_iff)
  show ?thesis
  proof (intro set_eqI iffI)
    fix d assume "d \<in> ?L"
    then show "d \<in> ?R" using set mem by blast
  next
    fix d assume "d \<in> ?R"
    then obtain dk q where dq: "d = DStr dk" "q \<in> set qs" "post_at (re_postings e) (posting_key (qy_field q) (qy_term q)) dk \<noteq> None"
      by blast
    then obtain c where "query_chunk params e q = Some c" using none [of q dk] by (cases "query_chunk params e q") auto
    with dq set mem show "d \<in> ?L" by blast
  qed
qed

lemma rank_chunks_page:
  fixes params :: search_params and dtoa :: "rat \<Rightarrow> string" and mlog :: "jsnum \<Rightarrow> jsnum"
  assumes rep: "represents C e"
    and docs: "{d. \<exists>c \<in> set chunks. \<exists>p \<in> set (rc_postings c). tp_doc p = d} = DStr ` K" and K: "K \<subseteq> dom C"
  defines "rs \<equiv> rank_chunks dtoa mlog params e chunks"
    and "F \<equiv> {dk \<in> K. doc_passes dtoa params (cd_metadata (the (C dk)))}"
  shows "finite F \<and> distinct (map fst rs) \<and> fst ` set rs \<subseteq> (\<lambda>dk. cd_id (the (C dk))) ` F \<and>
    length rs = page_size (sp_limit params) (card F)"
proof -
  let ?avg = "js_max (get_average_length (re_stats e)) (Fin 1)"
  let ?scored = "score_postings mlog chunks (score_lengths e ?avg chunks) ?avg engine_options"
  let ?lim = "js_max (Fin 1) (case sp_limit params of Some l \<Rightarrow> l | None \<Rightarrow> Fin 10)"
  define kept where "kept = filter (\<lambda>s. matches_metadata_filters dtoa params e (docid_string (sd_doc s))) ?scored"
  define name where "name s = (case jmap_get (re_doc_ids e) (docid_string (sd_doc s)) of Some d \<Rightarrow> d | None \<Rightarrow> sd_doc s)" for s :: scored_document
  note sums = scores_are_sums_lib [of mlog chunks "score_lengths e ?avg chunks" ?avg]
  have ids: "\<And>dk. jmap_get (re_doc_ids e) dk = map_option cd_id (C dk)"
    and key: "\<And>dk c. C dk = Some c \<Longrightarrow> to_key (cd_id c) = dk" using rep by (auto simp: represents_def)
  have "sd_doc ` set ?scored = DStr ` K" unfolding docs [symmetric] conjunct2 [OF sums] by force
  have kdocs: "sd_doc ` set kept = DStr ` F"
  proof -
    have pass: "matches_metadata_filters dtoa params e dk \<longleftrightarrow> doc_passes dtoa params (cd_metadata (the (C dk)))" if "dk \<in> K" for dk
      using matches_metadata [OF rep, of dk "the (C dk)"] that K by auto
    have "sd_doc ` set kept = {d \<in> sd_doc ` set ?scored. matches_metadata_filters dtoa params e (docid_string d)}"
      by (auto simp: kept_def)
    also have "\<dots> = {d \<in> DStr ` K. matches_metadata_filters dtoa params e (docid_string d)}"
      by (simp only: \<open>sd_doc ` set ?scored = DStr ` K\<close>)
    also have "\<dots> = DStr ` F" using pass by (auto simp: F_def docid_string_def)
    finally show ?thesis .
  qed
  have dist: "distinct (map sd_doc kept)" using sums by (simp add: kept_def distinct_map_filter)
  have "finite (DStr ` F)" unfolding kdocs [symmetric] by simp
  then have fin: "finite F" by (rule finite_imageD) (simp add: inj_on_def)
  have "length kept = card (sd_doc ` set kept)" using dist distinct_card [of "map sd_doc kept"] by simp
  also have "\<dots> = card F" unfolding kdocs by (rule card_image) (simp add: inj_on_def)
  finally have len: "length kept = card F" .
  have rs: "rs = map (\<lambda>s. (name s, sd_score s)) (js_slice_to ?lim kept)"
    unfolding rs_def rank_chunks_def Let_def kept_def name_def by simp
  have inj: "inj_on name (set kept)"
  proof (rule inj_onI)
    fix a b assume ab: "a \<in> set kept" "b \<in> set kept" "name a = name b"
    obtain i j where ij: "sd_doc a = DStr i" "i \<in> F" "sd_doc b = DStr j" "j \<in> F" using ab(1,2) kdocs by blast
    have "C i \<noteq> None" "C j \<noteq> None" using ij K by (auto simp: F_def)
    then have "to_key (name a) = i" "to_key (name b) = j"
      using ij(1,3) key by (auto simp: name_def docid_string_def ids)
    then have "sd_doc a = sd_doc b" using ab(3) ij by simp
    then show "a = b" using dist ab(1,2) by (auto simp: distinct_map inj_on_def)
  qed
  have "distinct kept" using dist by (simp add: distinct_map)
  then have "distinct (map name kept)" using inj by (simp add: distinct_map)
  then have d: "distinct (map fst rs)" unfolding rs by (simp add: comp_def js_slice_set(2))
  have "fst ` set rs \<subseteq> name ` set kept" unfolding rs using js_slice_set(1) by fastforce
  also have "\<dots> \<subseteq> (\<lambda>dk. cd_id (the (C dk))) ` F"
  proof
    fix d assume "d \<in> name ` set kept"
    then obtain s where s: "s \<in> set kept" "d = name s" by blast
    then obtain i where i: "sd_doc s = DStr i" "i \<in> F" using kdocs by blast
    then obtain c where "C i = Some c" using K by (auto simp: F_def)
    with s(2) i show "d \<in> (\<lambda>dk. cd_id (the (C dk))) ` F" by (auto simp: name_def docid_string_def ids intro!: rev_image_eqI)
  qed
  finally show ?thesis using fin d len by (simp add: rs slice_page)
qed

lemma page_size_0 [simp]: "page_size l 0 = 0"
  by (auto simp: page_size_def split: option.split jsnum.split)

lemma query_values_plain: "plain_options opts \<Longrightarrow> v \<in> query_values opts query f \<Longrightarrow> plain v"
  by (auto simp: query_values_def plain_options_def intro!: wordy_plain analyzed_wordy)

lemma expands_plain:
  assumes "corpus_plain C" and "plain v" and "w \<in> expands_to fz pm (corpus_vocabulary C) v"
  shows "plain w"
  using assms doc_plain_terms
  by (auto simp: expands_to_def corpus_vocabulary_def corpus_plain_def split: if_splits option.splits) blast+

lemma search_page:
  fixes params :: search_params and dtoa :: "rat \<Rightarrow> string"
  assumes rep: "represents C e" and plain: "corpus_plain C" and opts: "plain_options opts"
  defines "F \<equiv> found_keys dtoa opts params C"
  shows "\<exists>rs e'. execute_detailed_search dtoa mlog opts params e = (Inr rs, e') \<and> represents C e' \<and>
    finite F \<and> distinct (map fst rs) \<and> fst ` set rs \<subseteq> (\<lambda>dk. cd_id (the (C dk))) ` F \<and>
    length rs = page_size (sp_limit params) (card F)"
proof -
  define fs where "fs = (case sp_fields params of Some fs \<Rightarrow> fs | None \<Rightarrow> re_fields e)"
  define fz where "fz = get_fuzzy_distance (sp_fuzzy params)"
  define pm where "pm = (sp_prefix params = Some True)"
  define matching where "matching = {dk. \<exists>c. C dk = Some c \<and> doc_matches opts params (corpus_vocabulary C) (cd_doc c)}"
  have owned: "f \<in> set (re_fields e)" if "C dk = Some c" "doc_has (cd_doc c) f w" for dk c f w
  proof -
    have "f \<in> fst ` set (id_frequencies (cd_doc c))" using that(2) by (force simp: doc_has_def dest!: map_of_SomeD split: option.splits)
    then show ?thesis using rep that(1) unfolding represents_def by blast
  qed
  have match: "doc_matches opts params (corpus_vocabulary C) (cd_doc c) \<longleftrightarrow> (\<exists>f v w. f \<in> set fs \<and> v \<in> query_values opts (sp_query params) f \<and>
      w \<in> expands_to fz pm (corpus_vocabulary C) v \<and> doc_has (cd_doc c) f w)" if "C dk = Some c" for dk c
    using owned [OF that] unfolding doc_matches_def fs_def fz_def pm_def searched_def by (cases "sp_fields params") auto
  have F: "F = {dk \<in> matching. doc_passes dtoa params (cd_metadata (the (C dk)))}"
    by (auto simp: F_def found_keys_def matching_def)
  have fz_ok: "fuzzy_ok e" using rep by (simp add: represents_def engine_core_def)
  obtain m e' where build: "build_query_tokens opts (sp_query params) fz pm fs ([], e) = (Inr (jmap_values m), e')"
      "query_keys_ok m" "same_index e e'"
      and keys: "fst ` set m = {posting_key f w | f v w. f \<in> set fs \<and> v \<in> query_values opts (sp_query params) f \<and>
        w \<in> expands_to fz pm (corpus_vocabulary C) v}"
    using build_tokens [OF opts, of "[]" e "sp_query params" fz pm fs] fz_ok
    by (auto simp: query_keys_ok_def vocabulary_exact [OF rep plain])
  note rep' = same_index_represents [OF rep build(3)]
  have posts: "post_at (re_postings e') key dk = corpus_posting C key dk" for key dk using rep' by (simp add: represents_def)
  have "(\<lambda>q. posting_key (qy_field q) (qy_term q)) ` set (jmap_values m) = fst ` set m"
    using build(2) by (force simp: query_keys_ok_def)
  then have at: "(\<exists>q \<in> set (jmap_values m). P (posting_key (qy_field q) (qy_term q))) \<longleftrightarrow> (\<exists>k \<in> fst ` set m. P k)" for P
    by (metis (no_types, lifting) imageE image_eqI)
  have hit: "(\<exists>q \<in> set (jmap_values m). post_at (re_postings e') (posting_key (qy_field q) (qy_term q)) dk \<noteq> None) \<longleftrightarrow> dk \<in> matching" for dk
  proof -
    have w: "plain w" if "v \<in> query_values opts (sp_query params) f" "w \<in> expands_to fz pm (corpus_vocabulary C) v" for f v w
      using expands_plain [OF plain query_values_plain [OF opts that(1)] that(2)] .
    have "(\<exists>q \<in> set (jmap_values m). post_at (re_postings e') (posting_key (qy_field q) (qy_term q)) dk \<noteq> None) \<longleftrightarrow>
        (\<exists>f v w. f \<in> set fs \<and> v \<in> query_values opts (sp_query params) f \<and> w \<in> expands_to fz pm (corpus_vocabulary C) v \<and>
          corpus_posting C (posting_key f w) dk \<noteq> None)"
      unfolding posts at [of "\<lambda>k. corpus_posting C k dk \<noteq> None"] keys by blast
    also have "\<dots> \<longleftrightarrow> (\<exists>f v w. f \<in> set fs \<and> v \<in> query_values opts (sp_query params) f \<and> w \<in> expands_to fz pm (corpus_vocabulary C) v \<and>
          (\<exists>c. C dk = Some c \<and> doc_has (cd_doc c) f w))"
      using corpus_posting_has [OF plain w] by blast
    also have "\<dots> \<longleftrightarrow> dk \<in> matching" unfolding matching_def using match by blast
    finally show ?thesis .
  qed
  define chunks where "chunks = some_of (map (query_chunk params e') (jmap_values m))"
  have docs: "{d. \<exists>c \<in> set chunks. \<exists>p \<in> set (rc_postings c). tp_doc p = d} = DStr ` matching"
    unfolding chunks_def query_chunk_postings hit by blast
  have sub: "matching \<subseteq> dom C" by (auto simp: matching_def)
  have empty: "matching = {}" if "chunks = []" using docs that by simp
  show ?thesis
  proof (cases "fs = []")
    case True
    then have "matching = {}" using match by (auto simp: matching_def)
    then have "F = {}" by (simp add: F)
    with True rep show ?thesis by (simp add: execute_detailed_search_def fs_def [symmetric])
  next
    case False
    define rs where "rs = (if chunks = [] then [] else rank_chunks dtoa mlog params e' chunks)"
    have "chunks = []" if "m = []" using that by (simp add: chunks_def)
    then have "execute_detailed_search dtoa mlog opts params e = (Inr rs, e')"
      using False build(1) unfolding execute_detailed_search_def fs_def [symmetric] fz_def [symmetric] pm_def [symmetric]
      by (auto simp: Let_def chunks_def rs_def)
    moreover have "finite F \<and> distinct (map fst rs) \<and> fst ` set rs \<subseteq> (\<lambda>dk. cd_id (the (C dk))) ` F \<and>
        length rs = page_size (sp_limit params) (card F)"
      using rank_chunks_page [OF rep' docs sub, where params = params and dtoa = dtoa and mlog = mlog] empty
      by (cases "chunks = []") (simp_all add: F rs_def)
    ultimately show ?thesis using rep' by blast
  qed
qed

end
