(* ===== verification/MemoryAdapter.thy ===== *)
theory MemoryAdapter
  imports MemorySearch
begin

text \<open>
  The in-memory search adapter, \<open>MemoryAdapter\<close> of \<open>searchfn/adapter-memory/src/index.ts\<close>,
  with the data of the contract it implements, \<open>searchfn/adapter-contracts/src/index.ts\<close>: a map
  of resources, each with its engine, behind a disposed flag. A promise that resolves is
  \<open>Inr\<close>, one that rejects is \<open>Inl\<close>. The methods run without yielding, so an abort signal is one
  boolean per call.
\<close>

section \<open>Data\<close>

record search_document =
  dc_id :: docid
  dc_fields :: "(string, string) jmap"
  dc_metadata :: "jsrec option"

record index_params =
  ip_resource :: string
  ip_documents :: "search_document list"
  ip_aborted :: bool

record search_request =
  sr_resource :: string
  sr_params :: search_params
  sr_aborted :: bool

record remove_params =
  rp_resource :: string
  rp_ids :: "docid list"
  rp_aborted :: bool

record search_all_params =
  al_query :: string
  al_resources :: "string list option"
  al_fields :: "string list option"
  al_limit :: "jsnum option"
  al_per_resource :: "jsnum option"
  al_fuzzy :: "fuzzy_option option"
  al_prefix :: "bool option"
  al_boosts :: "(string, jsnum) jmap option"
  al_namespaces :: "string list option"
  al_regions :: "string list option"
  al_aborted :: bool

record search_all_result =
  ar_resource :: string
  ar_id :: docid
  ar_score :: jsnum

record search_defaults =
  df_fuzzy :: "fuzzy_option option"
  df_prefix :: "bool option"
  df_boosts :: "(string, jsnum) jmap option"

record adapter_config =
  ac_pipeline :: "pipeline_options option"
  ac_defaults :: "search_defaults option"

datatype adapter_error = Disposed | Aborted string | PipelineFailure pipeline_error

record memory_adapter =
  ma_config :: adapter_config
  ma_resources :: "(string, resource_engine) jmap"
  ma_disposed :: bool

section \<open>Construction and guards\<close>

definition memory_adapter_new :: "adapter_config option \<Rightarrow> memory_adapter" where
  "memory_adapter_new config =
     \<lparr>ma_config = (case config of Some c \<Rightarrow> c | None \<Rightarrow> \<lparr>ac_pipeline = None, ac_defaults = None\<rparr>),
      ma_resources = [], ma_disposed = False\<rparr>"

definition engine_pipeline :: "adapter_config \<Rightarrow> pipeline_options" where
  "engine_pipeline config = (case ac_pipeline config of Some p \<Rightarrow> p | None \<Rightarrow> default_options)"

definition assert_not_disposed :: "memory_adapter \<Rightarrow> adapter_error + unit" where
  "assert_not_disposed s = (if ma_disposed s then Inl Disposed else Inr ())"

definition assert_not_aborted :: "bool \<Rightarrow> string \<Rightarrow> adapter_error + unit" where
  "assert_not_aborted aborted operation = (if aborted then Inl (Aborted (operation @ '' aborted'')) else Inr ())"

definition get_or_create_resource :: "string \<Rightarrow> memory_adapter \<Rightarrow> resource_engine \<times> memory_adapter" where
  "get_or_create_resource resource s =
     (case jmap_get (ma_resources s) resource of
        Some e \<Rightarrow> (e, s)
      | None \<Rightarrow> (create_engine, s\<lparr>ma_resources := jmap_set resource create_engine (ma_resources s)\<rparr>))"

section \<open>Indexing\<close>

definition MAX_INDEX_BATCH_SIZE :: nat where "MAX_INDEX_BATCH_SIZE = 10000"

definition index_document ::
    "pipeline_options \<Rightarrow> search_document \<Rightarrow> resource_engine \<Rightarrow> (adapter_error + unit) \<times> resource_engine" where
  "index_document opts d e =
     (let e1 = remove_doc_from_engine (dc_id d) e
      in case add_doc_to_engine opts (dc_id d) (dc_fields d) (dc_metadata d) e1 of
           Inl err \<Rightarrow> (Inl (PipelineFailure err), e1)
         | Inr e2 \<Rightarrow> (Inr (), e2))"

fun index_chunk ::
    "pipeline_options \<Rightarrow> bool \<Rightarrow> search_document list \<Rightarrow> resource_engine \<Rightarrow> (adapter_error + unit) \<times> resource_engine" where
  "index_chunk opts aborted [] e = (Inr (), e)"
| "index_chunk opts aborted (d # ds) e =
     (case assert_not_aborted aborted ''Index operation'' of
        Inl err \<Rightarrow> (Inl err, e)
      | Inr _ \<Rightarrow>
          (case index_document opts d e of
             (Inl err, e') \<Rightarrow> (Inl err, e')
           | (Inr _, e') \<Rightarrow> index_chunk opts aborted ds e'))"

function index_batches ::
    "nat \<Rightarrow> pipeline_options \<Rightarrow> bool \<Rightarrow> search_document list \<Rightarrow> nat \<Rightarrow> resource_engine
     \<Rightarrow> (adapter_error + unit) \<times> resource_engine" where
  "index_batches batch opts aborted documents offset e =
     (if batch = 0 \<or> length documents \<le> offset then (Inr (), e)
      else case assert_not_aborted aborted ''Index operation'' of
        Inl err \<Rightarrow> (Inl err, e)
      | Inr _ \<Rightarrow>
          (case index_chunk opts aborted (take batch (drop offset documents)) e of
             (Inl err, e') \<Rightarrow> (Inl err, e')
           | (Inr _, e') \<Rightarrow> index_batches batch opts aborted documents (offset + batch) e'))"
  by pat_completeness auto
termination by (relation "measure (\<lambda>(batch, opts, aborted, documents, offset, e). length documents - offset)") auto

declare index_batches.simps [simp del]

definition adapter_index :: "index_params \<Rightarrow> memory_adapter \<Rightarrow> (adapter_error + unit) \<times> memory_adapter" where
  "adapter_index p s =
     (case assert_not_disposed s of
        Inl err \<Rightarrow> (Inl err, s)
      | Inr _ \<Rightarrow>
          (case assert_not_aborted (ip_aborted p) ''Index operation'' of
             Inl err \<Rightarrow> (Inl err, s)
           | Inr _ \<Rightarrow>
               (let (e, s1) = get_or_create_resource (ip_resource p) s;
                    (r, e') = index_batches MAX_INDEX_BATCH_SIZE (engine_pipeline (ma_config s)) (ip_aborted p)
                                (ip_documents p) 0 e
                in (r, s1\<lparr>ma_resources := jmap_set (ip_resource p) e' (ma_resources s1)\<rparr>))))"

section \<open>Searching\<close>

definition or_default :: "'a option \<Rightarrow> 'a option \<Rightarrow> 'a option" where
  "or_default x y = (case x of Some v \<Rightarrow> Some v | None \<Rightarrow> y)"

definition default_of :: "(search_defaults \<Rightarrow> 'a option) \<Rightarrow> adapter_config \<Rightarrow> 'a option" where
  "default_of f config = (case ac_defaults config of Some d \<Rightarrow> f d | None \<Rightarrow> None)"

definition resolve_params :: "adapter_config \<Rightarrow> search_params \<Rightarrow> search_params" where
  "resolve_params config p =
     p\<lparr>sp_prefix := or_default (sp_prefix p) (default_of df_prefix config),
       sp_fuzzy := or_default (sp_fuzzy p) (default_of df_fuzzy config),
       sp_boosts := or_default (sp_boosts p) (default_of df_boosts config)\<rparr>"

definition search_resource ::
    "(rat \<Rightarrow> string) \<Rightarrow> (jsnum \<Rightarrow> jsnum) \<Rightarrow> string \<Rightarrow> search_params \<Rightarrow> resource_engine \<Rightarrow> memory_adapter
     \<Rightarrow> (adapter_error + (docid \<times> jsnum) list) \<times> memory_adapter" where
  "search_resource dtoa mlog resource params e s =
     (let (r, e') = execute_detailed_search dtoa mlog (engine_pipeline (ma_config s)) params e;
          s' = s\<lparr>ma_resources := jmap_set resource e' (ma_resources s)\<rparr>
      in case r of Inl err \<Rightarrow> (Inl (PipelineFailure err), s') | Inr xs \<Rightarrow> (Inr xs, s'))"

definition adapter_search ::
    "(rat \<Rightarrow> string) \<Rightarrow> (jsnum \<Rightarrow> jsnum) \<Rightarrow> search_request \<Rightarrow> memory_adapter
     \<Rightarrow> (adapter_error + docid list) \<times> memory_adapter" where
  "adapter_search dtoa mlog q s =
     (case assert_not_disposed s of
        Inl err \<Rightarrow> (Inl err, s)
      | Inr _ \<Rightarrow>
          (case assert_not_aborted (sr_aborted q) ''Search operation'' of
             Inl err \<Rightarrow> (Inl err, s)
           | Inr _ \<Rightarrow>
               (case jmap_get (ma_resources s) (sr_resource q) of
                  None \<Rightarrow> (Inr [], s)
                | Some e \<Rightarrow>
                    (let (r, s') = search_resource dtoa mlog (sr_resource q) (resolve_params (ma_config s) (sr_params q)) e s
                     in (bind_sum r (\<lambda>xs. Inr (map fst xs)), s')))))"

section \<open>Removing\<close>

fun remove_ids :: "bool \<Rightarrow> docid list \<Rightarrow> resource_engine \<Rightarrow> (adapter_error + unit) \<times> resource_engine" where
  "remove_ids aborted [] e = (Inr (), e)"
| "remove_ids aborted (d # ds) e =
     (case assert_not_aborted aborted ''Remove operation'' of
        Inl err \<Rightarrow> (Inl err, e)
      | Inr _ \<Rightarrow> remove_ids aborted ds (remove_doc_from_engine d e))"

definition adapter_remove :: "remove_params \<Rightarrow> memory_adapter \<Rightarrow> (adapter_error + unit) \<times> memory_adapter" where
  "adapter_remove p s =
     (case assert_not_disposed s of
        Inl err \<Rightarrow> (Inl err, s)
      | Inr _ \<Rightarrow>
          (case assert_not_aborted (rp_aborted p) ''Remove operation'' of
             Inl err \<Rightarrow> (Inl err, s)
           | Inr _ \<Rightarrow>
               (case jmap_get (ma_resources s) (rp_resource p) of
                  None \<Rightarrow> (Inr (), s)
                | Some e \<Rightarrow>
                    (let (r, e') = remove_ids (rp_aborted p) (rp_ids p) e
                     in (r, s\<lparr>ma_resources := jmap_set (rp_resource p) e' (ma_resources s)\<rparr>)))))"

definition adapter_clear :: "string \<Rightarrow> bool \<Rightarrow> memory_adapter \<Rightarrow> (adapter_error + unit) \<times> memory_adapter" where
  "adapter_clear resource aborted s =
     (case assert_not_disposed s of
        Inl err \<Rightarrow> (Inl err, s)
      | Inr _ \<Rightarrow>
          (case assert_not_aborted aborted ''Clear operation'' of
             Inl err \<Rightarrow> (Inl err, s)
           | Inr _ \<Rightarrow> (Inr (), s\<lparr>ma_resources := jmap_del resource (ma_resources s)\<rparr>)))"

section \<open>Searching all resources\<close>

definition resource_params :: "adapter_config \<Rightarrow> search_all_params \<Rightarrow> search_params" where
  "resource_params config p =
     resolve_params config
       \<lparr>sp_query = al_query p, sp_fields = al_fields p,
        sp_limit = Some (case al_per_resource p of Some n \<Rightarrow> n
                         | None \<Rightarrow> (case al_limit p of Some n \<Rightarrow> n | None \<Rightarrow> Fin 10)),
        sp_fuzzy = al_fuzzy p, sp_prefix = al_prefix p, sp_boosts = al_boosts p,
        sp_namespaces = al_namespaces p, sp_regions = al_regions p\<rparr>"

fun search_resources ::
    "(rat \<Rightarrow> string) \<Rightarrow> (jsnum \<Rightarrow> jsnum) \<Rightarrow> search_all_params \<Rightarrow> string list \<Rightarrow> search_all_result list \<Rightarrow> memory_adapter
     \<Rightarrow> (adapter_error + search_all_result list) \<times> memory_adapter" where
  "search_resources dtoa mlog p [] found s = (Inr found, s)"
| "search_resources dtoa mlog p (name # names) found s =
     (case assert_not_aborted (al_aborted p) ''SearchAll operation'' of
        Inl err \<Rightarrow> (Inl err, s)
      | Inr _ \<Rightarrow>
          (case jmap_get (ma_resources s) name of
             None \<Rightarrow> search_resources dtoa mlog p names found s
           | Some e \<Rightarrow>
               (case search_resource dtoa mlog name (resource_params (ma_config s) p) e s of
                  (Inl err, s') \<Rightarrow> (Inl err, s')
                | (Inr xs, s') \<Rightarrow>
                    search_resources dtoa mlog p names
                      (found @ map (\<lambda>(d, score). \<lparr>ar_resource = name, ar_id = d, ar_score = score\<rparr>) xs) s')))"

definition compare_all :: "search_all_result \<Rightarrow> search_all_result \<Rightarrow> int" where
  "compare_all a b =
     (if num_neq (ar_score b) (ar_score a) then num_cmp (ar_score b - ar_score a)
      else if ar_resource a \<noteq> ar_resource b then (if ar_resource a < ar_resource b then - 1 else 1)
      else str_cmp (docid_string (ar_id a)) (docid_string (ar_id b)))"

definition adapter_search_all ::
    "(rat \<Rightarrow> string) \<Rightarrow> (jsnum \<Rightarrow> jsnum) \<Rightarrow> search_all_params \<Rightarrow> memory_adapter
     \<Rightarrow> (adapter_error + search_all_result list) \<times> memory_adapter" where
  "adapter_search_all dtoa mlog p s =
     (case assert_not_disposed s of
        Inl err \<Rightarrow> (Inl err, s)
      | Inr _ \<Rightarrow>
          (case assert_not_aborted (al_aborted p) ''SearchAll operation'' of
             Inl err \<Rightarrow> (Inl err, s)
           | Inr _ \<Rightarrow>
               (let names = (case al_resources p of Some ns \<Rightarrow> ns | None \<Rightarrow> jmap_keys (ma_resources s));
                    limit = (case al_limit p of Some n \<Rightarrow> n | None \<Rightarrow> Fin 10);
                    (r, s') = search_resources dtoa mlog p names [] s
                in (bind_sum r (\<lambda>found. Inr (js_slice_to limit (js_sort compare_all found))), s'))))"

section \<open>Lifecycle\<close>

definition adapter_initialize :: "string list \<Rightarrow> memory_adapter \<Rightarrow> (adapter_error + unit) \<times> memory_adapter" where
  "adapter_initialize names s =
     (Inr (), foldl (\<lambda>s name. snd (get_or_create_resource name s)) (s\<lparr>ma_disposed := False\<rparr>) names)"

definition adapter_dispose :: "memory_adapter \<Rightarrow> (adapter_error + unit) \<times> memory_adapter" where
  "adapter_dispose s = (Inr (), s\<lparr>ma_resources := [], ma_disposed := True\<rparr>)"

section \<open>The contract of a document store\<close>

text \<open>
  What the adapter relies on in a resource: putting a document replaces what its key held,
  dropping a key forgets it. The content of a resource is a library, a map from document keys
  to documents.
\<close>

type_synonym library = "string \<Rightarrow> search_document option"

definition library_put :: "library \<Rightarrow> search_document \<Rightarrow> library" where
  "library_put L d = L(to_key (dc_id d) \<mapsto> d)"

definition library_drop :: "library \<Rightarrow> docid \<Rightarrow> library" where
  "library_drop L i = L(to_key i := None)"

locale document_store =
  fixes holds :: "library \<Rightarrow> 'e \<Rightarrow> bool"
    and put :: "search_document \<Rightarrow> 'e \<Rightarrow> 'r \<times> 'e"
    and discard :: "docid \<Rightarrow> 'e \<Rightarrow> 'e"
    and done_result :: 'r
    and admissible :: "search_document \<Rightarrow> bool"
  assumes put_done: "admissible d \<Longrightarrow> holds L e \<Longrightarrow> fst (put d e) = done_result"
    and put_holds: "admissible d \<Longrightarrow> holds L e \<Longrightarrow> holds (library_put L d) (snd (put d e))"
    and discard_holds: "holds L e \<Longrightarrow> holds (library_drop L i) (discard i e)"

context document_store
begin

lemma puts_hold:
  "list_all admissible ds \<Longrightarrow> holds L e \<Longrightarrow> holds (foldl library_put L ds) (foldl (\<lambda>e d. snd (put d e)) e ds)"
  by (induction ds arbitrary: L e) (auto simp: put_holds)

lemma discards_hold:
  "holds L e \<Longrightarrow> holds (foldl library_drop L is) (foldl (\<lambda>e i. discard i e) e is)"
  by (induction "is" arbitrary: L e) (auto simp: discard_holds)

lemma upsert_holds:
  assumes "admissible d" and "admissible d'" and "dc_id d = dc_id d'" and "holds L e"
  shows "holds (library_put L d') (snd (put d' (snd (put d e))))"
  using put_holds [OF assms(2) put_holds [OF assms(1,4)]] assms(3) by (simp add: library_put_def)

lemma discard_undoes_put:
  assumes "admissible d" and "holds L e" and "L (to_key (dc_id d)) = None"
  shows "holds L (discard (dc_id d) (snd (put d e)))"
proof -
  have "library_drop (library_put L d) (dc_id d) = L" using assms(3) by (auto simp: library_drop_def library_put_def)
  then show ?thesis using discard_holds [OF put_holds [OF assms(1,2)], of "dc_id d"] by simp
qed

end

section \<open>A resource is a document store\<close>

definition record_of :: "search_document \<Rightarrow> indexing_record" where
  "record_of d = \<lparr>ir_doc = dc_id d, ir_fields = dc_fields d\<rparr>"

definition ingested :: "pipeline_options \<Rightarrow> search_document \<Rightarrow> ingested_document" where
  "ingested opts d = convert_accumulator (dc_id d) (foldl add_token [] (record_tokens opts (record_of d)))"

definition corpus_of :: "pipeline_options \<Rightarrow> library \<Rightarrow> corpus" where
  "corpus_of opts L dk = (case L dk of
     None \<Rightarrow> None
   | Some d \<Rightarrow> if id_total (ingested opts d) = 0 then None
       else Some \<lparr>cd_id = dc_id d, cd_doc = ingested opts d, cd_metadata = dc_metadata d\<rparr>)"

definition plain_document :: "search_document \<Rightarrow> bool" where
  "plain_document d = plain_fields (dc_fields d)"

definition library_ok :: "library \<Rightarrow> bool" where
  "library_ok L = (\<forall>dk d. L dk = Some d \<longrightarrow> plain_document d \<and> to_key (dc_id d) = dk)"

definition library_holds :: "pipeline_options \<Rightarrow> library \<Rightarrow> resource_engine \<Rightarrow> bool" where
  "library_holds opts L e = (library_ok L \<and> represents (corpus_of opts L) e)"

definition portable :: "pipeline_options \<Rightarrow> pipeline_options" where
  "portable opts = opts\<lparr>po_custom := None, po_stemmer := None\<rparr>"

lemma portable_plain [simp]: "plain_options (portable opts)"
  by (simp add: plain_options_def portable_def)

lemma portable_id: "plain_options opts \<Longrightarrow> portable opts = opts"
  by (simp add: plain_options_def portable_def)

lemma ingest_ingested: "plain_options opts \<Longrightarrow> ingest (pipeline_run opts) (record_of d) = Inr (ingested opts d)"
  using ingest_builtin [of opts "record_of d"] by (simp add: plain_builtin ingested_def record_of_def)

lemma ingested_ok:
  assumes "plain_options opts" and "plain_document d"
  shows "doc_ok (ingested opts d) \<and> id_doc (ingested opts d) = dc_id d \<and> doc_plain (ingested opts d)"
  using ingest_doc_ok [OF assms(1) _ ingest_ingested [OF assms(1)], of d] assms(2)
  by (simp add: plain_document_def record_of_def)

lemma corpus_of_plain: "plain_options opts \<Longrightarrow> library_ok L \<Longrightarrow> corpus_plain (corpus_of opts L)"
  by (auto simp: corpus_plain_def corpus_of_def library_ok_def ingested_ok split: option.splits if_splits)

lemma corpus_of_drop: "corpus_of opts (library_drop L i) = (corpus_of opts L)(to_key i := None)"
  by (auto simp: corpus_of_def library_drop_def fun_eq_iff)

lemma corpus_of_put:
  "corpus_of opts (library_put L d) =
     (if id_total (ingested opts d) = 0 then (corpus_of opts L)(to_key (dc_id d) := None)
      else (corpus_of opts L)(to_key (dc_id d) \<mapsto> \<lparr>cd_id = dc_id d, cd_doc = ingested opts d, cd_metadata = dc_metadata d\<rparr>))"
  by (auto simp: corpus_of_def library_put_def fun_eq_iff)

lemma library_ok_put: "library_ok L \<Longrightarrow> plain_document d \<Longrightarrow> library_ok (library_put L d)"
  by (auto simp: library_ok_def library_put_def)

lemma library_ok_drop: "library_ok L \<Longrightarrow> library_ok (library_drop L i)"
  by (auto simp: library_ok_def library_drop_def)

lemma index_document_holds:
  assumes opts: "plain_options opts" and d: "plain_document d" and holds: "library_holds opts L e"
  shows "fst (index_document opts d e) = Inr () \<and> library_holds opts (library_put L d) (snd (index_document opts d e))"
proof -
  let ?k = "to_key (dc_id d)"
  let ?C = "(corpus_of opts L)(?k := None)"
  let ?e1 = "remove_doc_from_engine (dc_id d) e"
  have ok: "library_ok L" and rep: "represents (corpus_of opts L) e" using holds by (auto simp: library_holds_def)
  note rep1 = represents_remove [OF rep, of "dc_id d"]
  note ing = ingest_ingested [OF opts, of d, unfolded record_of_def]
  obtain e2 where e2: "add_doc_to_engine opts (dc_id d) (dc_fields d) (dc_metadata d) ?e1 = Inr e2"
    using ing by (simp add: add_doc_to_engine_def)
  have "represents (if id_total (ingested opts d) = 0 then ?C
      else ?C(?k \<mapsto> \<lparr>cd_id = dc_id d, cd_doc = ingested opts d, cd_metadata = dc_metadata d\<rparr>)) e2"
    by (rule represents_add [OF rep1 _ _ _ ing e2]) (use ingested_ok [OF opts d] in simp_all)
  then have "represents (corpus_of opts (library_put L d)) e2" by (simp add: corpus_of_put split: if_splits)
  then show ?thesis
    using library_ok_put [OF ok d] by (simp add: index_document_def Let_def e2 library_holds_def)
qed

interpretation memory: document_store "library_holds (portable opts)" "index_document (portable opts)"
    remove_doc_from_engine "Inr ()" plain_document for opts
proof
  fix d L e
  assume "plain_document d" "library_holds (portable opts) L e"
  from index_document_holds [OF portable_plain this]
  show "fst (index_document (portable opts) d e) = Inr ()"
    and "library_holds (portable opts) (library_put L d) (snd (index_document (portable opts) d e))" by blast+
next
  fix L e i
  assume "library_holds (portable opts) L e"
  then show "library_holds (portable opts) (library_drop L i) (remove_doc_from_engine i e)"
    using represents_remove [of "corpus_of (portable opts) L" e i]
    by (simp add: library_holds_def library_ok_drop corpus_of_drop)
qed

end
