(* ===== verification/AdapterRefinement.thy ===== *)
theory AdapterRefinement
  imports MemoryAdapter
begin

text \<open>
  The adapter against its abstract specification: a disposed flag and, per resource, a library
  of documents. The simulation \<open>adapter_holds\<close> relates the two, every operation keeps it, and
  every answer is one the library allows.
\<close>

section \<open>The loops over documents\<close>

lemma index_chunk_append:
  "index_chunk opts aborted (ds @ ds') e =
     (case index_chunk opts aborted ds e of (Inl err, e') \<Rightarrow> (Inl err, e') | (Inr _, e') \<Rightarrow> index_chunk opts aborted ds' e')"
  by (induction opts aborted ds e rule: index_chunk.induct)
    (auto split: sum.splits prod.splits)

lemma index_batches_chunk_lib:
  "0 < batch \<Longrightarrow> index_batches batch opts aborted documents offset e = index_chunk opts aborted (drop offset documents) e"
proof (induction batch opts aborted documents offset e rule: index_batches.induct)
  case (1 batch opts aborted documents offset e)
  show ?case
  proof (cases "length documents \<le> offset \<or> aborted")
    case True
    then show ?thesis
      using 1(2) by (cases "drop offset documents") (auto simp: index_batches.simps [of batch] assert_not_aborted_def)
  next
    case False
    have "drop offset documents = take batch (drop offset documents) @ drop (offset + batch) documents"
      by (metis append_take_drop_id drop_drop add.commute)
    then have "index_chunk opts aborted (drop offset documents) e =
        (case index_chunk opts aborted (take batch (drop offset documents)) e of
           (Inl err, e') \<Rightarrow> (Inl err, e') | (Inr _, e') \<Rightarrow> index_chunk opts aborted (drop (offset + batch) documents) e')"
      by (metis index_chunk_append)
    with False 1 show ?thesis
      by (subst index_batches.simps) (auto simp: assert_not_aborted_def split: sum.splits prod.splits)
  qed
qed

text \<open>For evaluation: the number of the batches does not matter, so the loop over all documents will do.\<close>

lemma all_batches: "index_batches MAX_INDEX_BATCH_SIZE opts aborted documents 0 e = index_chunk opts aborted documents e"
  by (simp add: index_batches_chunk_lib MAX_INDEX_BATCH_SIZE_def)

lemma adapter_index_code [code]:
  "adapter_index p s =
     (case assert_not_disposed s of
        Inl err \<Rightarrow> (Inl err, s)
      | Inr _ \<Rightarrow>
          (case assert_not_aborted (ip_aborted p) ''Index operation'' of
             Inl err \<Rightarrow> (Inl err, s)
           | Inr _ \<Rightarrow>
               (let (e, s1) = get_or_create_resource (ip_resource p) s;
                    (r, e') = index_chunk (engine_pipeline (ma_config s)) (ip_aborted p) (ip_documents p) e
                in (r, s1\<lparr>ma_resources := jmap_set (ip_resource p) e' (ma_resources s1)\<rparr>))))"
  unfolding adapter_index_def all_batches ..

lemma index_chunk_puts:
  assumes "plain_options opts" and "list_all plain_document ds" and "library_holds opts L e"
  shows "index_chunk opts False ds e = (Inr (), foldl (\<lambda>e d. snd (index_document opts d e)) e ds)"
  using assms(2,3)
proof (induction ds arbitrary: L e)
  case (Cons d ds)
  have d: "plain_document d" using Cons.prems(1) by simp
  note step = index_document_holds [OF assms(1) d Cons.prems(2)]
  then obtain e' where e': "index_document opts d e = (Inr (), e')" by (metis prod.collapse)
  with step Cons show ?case by (simp add: assert_not_aborted_def)
qed simp

lemma remove_ids_discards: "remove_ids False ids e = (Inr (), foldl (\<lambda>e i. remove_doc_from_engine i e) e ids)"
  by (induction ids arbitrary: e) (simp_all add: assert_not_aborted_def)

section \<open>The abstract adapter\<close>

datatype adapter_op =
    Index index_params
  | Search search_request
  | Remove remove_params
  | Clear string bool
  | SearchAll search_all_params
  | Initialize "string list"
  | Dispose

datatype adapter_answer = Done | Ids "docid list" | Results "search_all_result list" | Rejected adapter_error

record libraries =
  lb_disposed :: bool
  lb_resources :: "string \<Rightarrow> library option"

fun op_guard :: "adapter_op \<Rightarrow> (bool \<times> string) option" where
  "op_guard (Index p) = Some (ip_aborted p, ''Index operation aborted'')"
| "op_guard (Search q) = Some (sr_aborted q, ''Search operation aborted'')"
| "op_guard (Remove p) = Some (rp_aborted p, ''Remove operation aborted'')"
| "op_guard (Clear r aborted) = Some (aborted, ''Clear operation aborted'')"
| "op_guard (SearchAll p) = Some (al_aborted p, ''SearchAll operation aborted'')"
| "op_guard (Initialize names) = None"
| "op_guard Dispose = None"

definition blocked :: "adapter_op \<Rightarrow> bool \<Rightarrow> adapter_error option" where
  "blocked op disposed = (case op_guard op of
     None \<Rightarrow> None
   | Some (aborted, message) \<Rightarrow> if disposed then Some Disposed else if aborted then Some (Aborted message) else None)"

definition answer_of :: "('a \<Rightarrow> adapter_answer) \<Rightarrow> adapter_error + 'a \<Rightarrow> adapter_answer" where
  "answer_of f r = (case r of Inl err \<Rightarrow> Rejected err | Inr x \<Rightarrow> f x)"

fun adapter_step ::
    "(rat \<Rightarrow> string) \<Rightarrow> (jsnum \<Rightarrow> jsnum) \<Rightarrow> adapter_op \<Rightarrow> memory_adapter \<Rightarrow> adapter_answer \<times> memory_adapter" where
  "adapter_step dtoa mlog (Index p) s = apfst (answer_of (\<lambda>_. Done)) (adapter_index p s)"
| "adapter_step dtoa mlog (Search q) s = apfst (answer_of Ids) (adapter_search dtoa mlog q s)"
| "adapter_step dtoa mlog (Remove p) s = apfst (answer_of (\<lambda>_. Done)) (adapter_remove p s)"
| "adapter_step dtoa mlog (Clear r aborted) s = apfst (answer_of (\<lambda>_. Done)) (adapter_clear r aborted s)"
| "adapter_step dtoa mlog (SearchAll p) s = apfst (answer_of Results) (adapter_search_all dtoa mlog p s)"
| "adapter_step dtoa mlog (Initialize names) s = apfst (answer_of (\<lambda>_. Done)) (adapter_initialize names s)"
| "adapter_step dtoa mlog Dispose s = apfst (answer_of (\<lambda>_. Done)) (adapter_dispose s)"

definition library_at :: "libraries \<Rightarrow> string \<Rightarrow> library" where
  "library_at A r = (case lb_resources A r of None \<Rightarrow> Map.empty | Some L \<Rightarrow> L)"

definition create_library :: "(string \<Rightarrow> library option) \<Rightarrow> string \<Rightarrow> (string \<Rightarrow> library option)" where
  "create_library R r = (case R r of None \<Rightarrow> R(r \<mapsto> Map.empty) | Some _ \<Rightarrow> R)"

fun library_effect :: "adapter_op \<Rightarrow> libraries \<Rightarrow> libraries" where
  "library_effect (Index p) A =
     A\<lparr>lb_resources := (lb_resources A)(ip_resource p \<mapsto> foldl library_put (library_at A (ip_resource p)) (ip_documents p))\<rparr>"
| "library_effect (Remove p) A =
     (case lb_resources A (rp_resource p) of
        None \<Rightarrow> A
      | Some L \<Rightarrow> A\<lparr>lb_resources := (lb_resources A)(rp_resource p \<mapsto> foldl library_drop L (rp_ids p))\<rparr>)"
| "library_effect (Clear r aborted) A = A\<lparr>lb_resources := (lb_resources A)(r := None)\<rparr>"
| "library_effect (Initialize names) A = \<lparr>lb_disposed = False, lb_resources = foldl create_library (lb_resources A) names\<rparr>"
| "library_effect Dispose A = \<lparr>lb_disposed = True, lb_resources = Map.empty\<rparr>"
| "library_effect (Search q) A = A"
| "library_effect (SearchAll p) A = A"

definition library_step :: "adapter_op \<Rightarrow> libraries \<Rightarrow> libraries" where
  "library_step op A = (if blocked op (lb_disposed A) = None then library_effect op A else A)"

section \<open>The answers a library allows\<close>

text \<open>The identifiers of the documents a search is about.\<close>

definition found_ids ::
    "(rat \<Rightarrow> string) \<Rightarrow> pipeline_options \<Rightarrow> search_params \<Rightarrow> library \<Rightarrow> docid set" where
  "found_ids dtoa opts params L = (\<lambda>dk. dc_id (the (L dk))) ` found_keys dtoa opts params (corpus_of opts L)"

definition page_of :: "(rat \<Rightarrow> string) \<Rightarrow> pipeline_options \<Rightarrow> search_params \<Rightarrow> library \<Rightarrow> docid list \<Rightarrow> bool" where
  "page_of dtoa opts params L ids =
     (finite (found_ids dtoa opts params L) \<and> distinct ids \<and> set ids \<subseteq> found_ids dtoa opts params L \<and>
      length ids = page_size (sp_limit params) (card (found_ids dtoa opts params L)))"

definition slice_length :: "jsnum \<Rightarrow> nat \<Rightarrow> nat" where
  "slice_length limit n = length (js_slice_to limit (replicate n ()))"

lemma slice_length: "length (js_slice_to limit xs) = slice_length limit (length xs)"
  by (auto simp: slice_length_def js_slice_to_def Let_def split: jsnum.split)

definition hits_in :: "libraries \<Rightarrow> (rat \<Rightarrow> string) \<Rightarrow> pipeline_options \<Rightarrow> search_params \<Rightarrow> string \<Rightarrow> nat" where
  "hits_in A dtoa opts params r = (case lb_resources A r of
     None \<Rightarrow> 0 | Some L \<Rightarrow> page_size (sp_limit params) (card (found_ids dtoa opts params L)))"

definition merged_of ::
    "libraries \<Rightarrow> (rat \<Rightarrow> string) \<Rightarrow> adapter_config \<Rightarrow> search_all_params \<Rightarrow> search_all_result list \<Rightarrow> bool" where
  "merged_of A dtoa config p rs = (\<exists>names.
     (case al_resources p of Some ns \<Rightarrow> names = ns | None \<Rightarrow> distinct names \<and> set names = dom (lb_resources A)) \<and>
     (\<forall>r \<in> set rs. ar_resource r \<in> set names \<and> (\<exists>L. lb_resources A (ar_resource r) = Some L \<and>
        ar_id r \<in> found_ids dtoa (engine_pipeline config) (resource_params config p) L)) \<and>
     length rs = slice_length (case al_limit p of Some n \<Rightarrow> n | None \<Rightarrow> Fin 10)
       (sum_list (map (hits_in A dtoa (engine_pipeline config) (resource_params config p)) names)))"

definition allowed_answer ::
    "(rat \<Rightarrow> string) \<Rightarrow> adapter_config \<Rightarrow> adapter_op \<Rightarrow> libraries \<Rightarrow> adapter_answer \<Rightarrow> bool" where
  "allowed_answer dtoa config op A answer =
     (case blocked op (lb_disposed A) of
        Some err \<Rightarrow> answer = Rejected err
      | None \<Rightarrow> (case op of
          Search q \<Rightarrow> (case lb_resources A (sr_resource q) of
              None \<Rightarrow> answer = Ids []
            | Some L \<Rightarrow> \<exists>ids. answer = Ids ids \<and>
                page_of dtoa (engine_pipeline config) (resolve_params config (sr_params q)) L ids)
        | SearchAll p \<Rightarrow> \<exists>rs. answer = Results rs \<and> merged_of A dtoa config p rs
        | _ \<Rightarrow> answer = Done))"

section \<open>The simulation\<close>

definition adapter_holds :: "memory_adapter \<Rightarrow> libraries \<Rightarrow> bool" where
  "adapter_holds s A = (ma_disposed s = lb_disposed A \<and> jmap_ok (ma_resources s) \<and>
     (\<forall>r. rel_option (\<lambda>e L. library_holds (engine_pipeline (ma_config s)) L e)
        (jmap_get (ma_resources s) r) (lb_resources A r)))"

fun op_plain :: "adapter_op \<Rightarrow> bool" where
  "op_plain (Index p) = list_all plain_document (ip_documents p)"
| "op_plain (Search q) = True"
| "op_plain (Remove p) = True"
| "op_plain (Clear r aborted) = True"
| "op_plain (SearchAll p) = True"
| "op_plain (Initialize names) = True"
| "op_plain Dispose = True"

lemma create_library_set: "(create_library R r)(r \<mapsto> L) = R(r \<mapsto> L)"
  by (auto simp: create_library_def split: option.split)

lemma library_holds_empty: "library_holds opts Map.empty create_engine"
proof -
  have "corpus_of opts Map.empty = Map.empty" by (auto simp: corpus_of_def)
  then show ?thesis using represents_empty by (simp add: library_holds_def library_ok_def)
qed

lemma holds_None: "adapter_holds s A \<Longrightarrow> jmap_get (ma_resources s) r = None \<longleftrightarrow> lb_resources A r = None"
  by (auto simp: adapter_holds_def dest: spec [of _ r] elim: option.rel_cases)

lemma holds_Some:
  "adapter_holds s A \<Longrightarrow> jmap_get (ma_resources s) r = Some e \<Longrightarrow>
   \<exists>L. lb_resources A r = Some L \<and> library_holds (engine_pipeline (ma_config s)) L e"
  by (auto simp: adapter_holds_def dest!: spec [of _ r] elim: option.rel_cases)

lemma holds_set:
  assumes "adapter_holds s A" and "library_holds (engine_pipeline (ma_config s)) L e"
  shows "adapter_holds (s\<lparr>ma_resources := jmap_set r e (ma_resources s)\<rparr>) (A\<lparr>lb_resources := (lb_resources A)(r \<mapsto> L)\<rparr>)"
  using assms by (auto simp: adapter_holds_def jmap_simps)

lemma holds_same:
  assumes "adapter_holds s A" and "lb_resources A r = Some L" and "library_holds (engine_pipeline (ma_config s)) L e"
  shows "adapter_holds (s\<lparr>ma_resources := jmap_set r e (ma_resources s)\<rparr>) A"
proof -
  have "A\<lparr>lb_resources := (lb_resources A)(r \<mapsto> L)\<rparr> = A" using assms(2) by (simp add: fun_upd_idem)
  then show ?thesis using holds_set [OF assms(1,3), of r] by simp
qed

lemma get_or_create_holds:
  assumes "adapter_holds s A"
  shows "\<exists>e s'. get_or_create_resource r s = (e, s') \<and> ma_config s' = ma_config s \<and>
    jmap_get (ma_resources s') r = Some e \<and> library_holds (engine_pipeline (ma_config s)) (library_at A r) e \<and>
    adapter_holds s' (A\<lparr>lb_resources := create_library (lb_resources A) r\<rparr>)"
proof (cases "jmap_get (ma_resources s) r")
  case None
  then have "lb_resources A r = None" using holds_None [OF assms] by simp
  with None show ?thesis
    using holds_set [OF assms library_holds_empty, of r] library_holds_empty
    by (simp add: get_or_create_resource_def library_at_def create_library_def jmap_simps)
next
  case (Some e)
  then obtain L where "lb_resources A r = Some L" "library_holds (engine_pipeline (ma_config s)) L e"
    using holds_Some [OF assms] by blast
  with Some assms show ?thesis by (simp add: get_or_create_resource_def library_at_def create_library_def)
qed

section \<open>Every operation keeps the simulation\<close>

lemma index_holds:
  assumes opts: "plain_options (engine_pipeline (ma_config s))" and holds: "adapter_holds s A"
    and plain: "list_all plain_document (ip_documents p)" and free: "\<not> lb_disposed A" "\<not> ip_aborted p"
  shows "\<exists>s'. adapter_index p s = (Inr (), s') \<and> ma_config s' = ma_config s \<and> adapter_holds s' (library_effect (Index p) A)"
proof -
  let ?r = "ip_resource p" and ?opts = "engine_pipeline (ma_config s)"
  obtain e s1 where get: "get_or_create_resource ?r s = (e, s1)" and config: "ma_config s1 = ma_config s"
    and lib: "library_holds ?opts (library_at A ?r) e"
    and holds1: "adapter_holds s1 (A\<lparr>lb_resources := create_library (lb_resources A) ?r\<rparr>)"
    using get_or_create_holds [OF holds] by blast
  let ?e' = "foldl (\<lambda>e d. snd (index_document ?opts d e)) e (ip_documents p)"
  have "index_batches MAX_INDEX_BATCH_SIZE ?opts False (ip_documents p) 0 e = (Inr (), ?e')"
    using index_batches_chunk_lib [of MAX_INDEX_BATCH_SIZE] index_chunk_puts [OF opts plain lib]
    by (simp add: MAX_INDEX_BATCH_SIZE_def)
  moreover have "ma_disposed s = False" using holds free by (simp add: adapter_holds_def)
  ultimately have run: "adapter_index p s = (Inr (), s1\<lparr>ma_resources := jmap_set ?r ?e' (ma_resources s1)\<rparr>)"
    using get free by (simp add: adapter_index_def assert_not_disposed_def assert_not_aborted_def)
  have "library_holds ?opts (foldl library_put (library_at A ?r) (ip_documents p)) ?e'"
    using memory.puts_hold [OF plain, of ?opts] lib by (simp add: portable_id [OF opts])
  from holds_set [OF holds1, of _ _ ?r, unfolded config, OF this]
  have "adapter_holds (s1\<lparr>ma_resources := jmap_set ?r ?e' (ma_resources s1)\<rparr>) (library_effect (Index p) A)"
    by (simp add: create_library_set)
  with run config show ?thesis by simp
qed

lemma remove_holds:
  assumes opts: "plain_options (engine_pipeline (ma_config s))" and holds: "adapter_holds s A"
    and free: "\<not> lb_disposed A" "\<not> rp_aborted p"
  shows "\<exists>s'. adapter_remove p s = (Inr (), s') \<and> ma_config s' = ma_config s \<and> adapter_holds s' (library_effect (Remove p) A)"
proof (cases "jmap_get (ma_resources s) (rp_resource p)")
  case None
  moreover from this have "lb_resources A (rp_resource p) = None" using holds_None [OF holds] by simp
  ultimately show ?thesis
    using holds free
    by (simp add: adapter_remove_def assert_not_disposed_def assert_not_aborted_def adapter_holds_def)
next
  case (Some e)
  then obtain L where L: "lb_resources A (rp_resource p) = Some L" "library_holds (engine_pipeline (ma_config s)) L e"
    using holds_Some [OF holds] by blast
  let ?e' = "foldl (\<lambda>e i. remove_doc_from_engine i e) e (rp_ids p)"
  have "library_holds (engine_pipeline (ma_config s)) (foldl library_drop L (rp_ids p)) ?e'"
    using memory.discards_hold [of "engine_pipeline (ma_config s)" L e] L(2) by (simp add: portable_id [OF opts])
  then have "adapter_holds (s\<lparr>ma_resources := jmap_set (rp_resource p) ?e' (ma_resources s)\<rparr>) (library_effect (Remove p) A)"
    using holds_set [OF holds] L(1) by simp
  moreover have "ma_disposed s = False" using holds free by (simp add: adapter_holds_def)
  then have "adapter_remove p s = (Inr (), s\<lparr>ma_resources := jmap_set (rp_resource p) ?e' (ma_resources s)\<rparr>)"
    using Some free
    by (simp add: adapter_remove_def assert_not_disposed_def assert_not_aborted_def [of False] remove_ids_discards)
  ultimately show ?thesis by simp
qed

lemma found_ids_inj:
  assumes "library_ok L"
  shows "inj_on (\<lambda>dk. dc_id (the (L dk))) (found_keys dtoa opts params (corpus_of opts L))"
    and "(\<lambda>dk. cd_id (the (corpus_of opts L dk))) ` found_keys dtoa opts params (corpus_of opts L) = found_ids dtoa opts params L"
proof -
  have dom: "\<exists>d. L dk = Some d \<and> cd_id (the (corpus_of opts L dk)) = dc_id d"
    if "dk \<in> found_keys dtoa opts params (corpus_of opts L)" for dk
    using that by (auto simp: found_keys_def corpus_of_def split: option.splits if_splits)
  show "inj_on (\<lambda>dk. dc_id (the (L dk))) (found_keys dtoa opts params (corpus_of opts L))"
    using dom assms by (intro inj_onI) (metis library_ok_def option.sel)
  show "(\<lambda>dk. cd_id (the (corpus_of opts L dk))) ` found_keys dtoa opts params (corpus_of opts L) = found_ids dtoa opts params L"
    unfolding found_ids_def using dom by (intro image_cong) force+
qed

lemma search_resource_holds:
  assumes opts: "plain_options (engine_pipeline (ma_config s))" and holds: "adapter_holds s A"
    and r: "jmap_get (ma_resources s) r = Some e" and L: "lb_resources A r = Some L"
  shows "\<exists>xs s'. search_resource dtoa mlog r params e s = (Inr xs, s') \<and> ma_config s' = ma_config s \<and>
    adapter_holds s' A \<and> page_of dtoa (engine_pipeline (ma_config s)) params L (map fst xs)"
proof -
  let ?opts = "engine_pipeline (ma_config s)"
  have lib: "library_holds ?opts L e" using holds_Some [OF holds r] L by auto
  then have ok: "library_ok L" and rep: "represents (corpus_of ?opts L) e" by (auto simp: library_holds_def)
  let ?F = "found_keys dtoa ?opts params (corpus_of ?opts L)"
  obtain xs e' where run: "execute_detailed_search dtoa mlog ?opts params e = (Inr xs, e')"
      and rep': "represents (corpus_of ?opts L) e'" and page: "finite ?F" "distinct (map fst xs)"
        "fst ` set xs \<subseteq> found_ids dtoa ?opts params L" "length xs = page_size (sp_limit params) (card ?F)"
    using search_page [OF rep corpus_of_plain [OF opts ok] opts, of dtoa mlog params] unfolding found_ids_inj(2) [OF ok] by blast
  have "card (found_ids dtoa ?opts params L) = card ?F"
    unfolding found_ids_def by (rule card_image [OF found_ids_inj(1) [OF ok]])
  then have "page_of dtoa ?opts params L (map fst xs)" using page by (simp add: page_of_def found_ids_def)
  moreover have "library_holds ?opts L e'" using ok rep' by (simp add: library_holds_def)
  then have "adapter_holds (s\<lparr>ma_resources := jmap_set r e' (ma_resources s)\<rparr>) A" by (rule holds_same [OF holds L])
  ultimately show ?thesis using run by (simp add: search_resource_def)
qed

lemma search_holds:
  assumes opts: "plain_options (engine_pipeline (ma_config s))" and holds: "adapter_holds s A"
    and free: "\<not> lb_disposed A" "\<not> sr_aborted q"
  shows "\<exists>ids s'. adapter_search dtoa mlog q s = (Inr ids, s') \<and> ma_config s' = ma_config s \<and> adapter_holds s' A \<and>
    allowed_answer dtoa (ma_config s) (Search q) A (Ids ids)"
proof (cases "jmap_get (ma_resources s) (sr_resource q)")
  case None
  moreover from this have "lb_resources A (sr_resource q) = None" using holds_None [OF holds] by simp
  ultimately show ?thesis
    using holds free
    by (simp add: adapter_search_def assert_not_disposed_def assert_not_aborted_def adapter_holds_def allowed_answer_def blocked_def)
next
  case (Some e)
  then obtain L where L: "lb_resources A (sr_resource q) = Some L" using holds_Some [OF holds] by blast
  obtain xs s' where run: "search_resource dtoa mlog (sr_resource q) (resolve_params (ma_config s) (sr_params q)) e s = (Inr xs, s')"
      "ma_config s' = ma_config s" "adapter_holds s' A"
      "page_of dtoa (engine_pipeline (ma_config s)) (resolve_params (ma_config s) (sr_params q)) L (map fst xs)"
    using search_resource_holds [OF opts holds Some L] by blast
  moreover have "ma_disposed s = False" using holds free by (simp add: adapter_holds_def)
  ultimately show ?thesis
    using Some L free
    by (simp add: adapter_search_def assert_not_disposed_def assert_not_aborted_def allowed_answer_def blocked_def)
qed

lemma search_resources_holds:
  assumes opts: "plain_options (engine_pipeline config)" and free: "\<not> al_aborted p"
  shows "adapter_holds s A \<Longrightarrow> ma_config s = config \<Longrightarrow>
    \<exists>found' s'. search_resources dtoa mlog p names found s = (Inr found', s') \<and> ma_config s' = config \<and> adapter_holds s' A \<and>
      length found' = length found + sum_list (map (hits_in A dtoa (engine_pipeline config) (resource_params config p)) names) \<and>
      (\<forall>r \<in> set found'. r \<in> set found \<or> (ar_resource r \<in> set names \<and> (\<exists>L. lb_resources A (ar_resource r) = Some L \<and>
        ar_id r \<in> found_ids dtoa (engine_pipeline config) (resource_params config p) L)))"
proof (induction names arbitrary: found s)
  case (Cons name names)
  show ?case
  proof (cases "jmap_get (ma_resources s) name")
    case None
    then have "lb_resources A name = None" using holds_None [OF Cons.prems(1)] by simp
    with None Cons.IH [OF Cons.prems, of found] free show ?thesis
      by (fastforce simp: assert_not_aborted_def hits_in_def)
  next
    case (Some e)
    then obtain L where L: "lb_resources A name = Some L" using holds_Some [OF Cons.prems(1)] by blast
    obtain xs s1 where run: "search_resource dtoa mlog name (resource_params config p) e s = (Inr xs, s1)"
        "ma_config s1 = config" "adapter_holds s1 A" "page_of dtoa (engine_pipeline config) (resource_params config p) L (map fst xs)"
      using search_resource_holds [OF _ Cons.prems(1) Some L] opts Cons.prems(2) by metis
    let ?here = "map (\<lambda>(d, score). \<lparr>ar_resource = name, ar_id = d, ar_score = score\<rparr>) xs"
    have here: "r \<in> set ?here \<Longrightarrow> ar_resource r = name \<and> ar_id r \<in> found_ids dtoa (engine_pipeline config) (resource_params config p) L" for r
      using run(4) by (force simp: page_of_def)
    have len: "length xs = hits_in A dtoa (engine_pipeline config) (resource_params config p) name"
      using run(4) L by (simp add: page_of_def hits_in_def)
    have step: "search_resources dtoa mlog p (name # names) found s = search_resources dtoa mlog p names (found @ ?here) s1"
      using Some free run(1) Cons.prems(2) by (simp add: assert_not_aborted_def)
    obtain found' s' where rest: "search_resources dtoa mlog p names (found @ ?here) s1 = (Inr found', s')" "ma_config s' = config"
        "adapter_holds s' A"
        "length found' = length (found @ ?here) + sum_list (map (hits_in A dtoa (engine_pipeline config) (resource_params config p)) names)"
        "\<And>r. r \<in> set found' \<Longrightarrow> r \<in> set (found @ ?here) \<or> (ar_resource r \<in> set names \<and> (\<exists>L. lb_resources A (ar_resource r) = Some L \<and>
          ar_id r \<in> found_ids dtoa (engine_pipeline config) (resource_params config p) L))"
      using Cons.IH [OF run(3,2), of "found @ ?here"] by blast
    have "r \<in> set found \<or> (ar_resource r \<in> set (name # names) \<and> (\<exists>L. lb_resources A (ar_resource r) = Some L \<and>
        ar_id r \<in> found_ids dtoa (engine_pipeline config) (resource_params config p) L))" if "r \<in> set found'" for r
    proof (cases "r \<in> set ?here")
      case True
      then show ?thesis using here [OF True] L by simp
    next
      case False
      then show ?thesis using rest(5) [OF that] by auto
    qed
    moreover have "length found' = length found + sum_list (map (hits_in A dtoa (engine_pipeline config) (resource_params config p)) (name # names))"
      using rest(4) len by simp
    ultimately show ?thesis unfolding step using rest(1-3) by blast
  qed
qed (use free in simp)

lemma search_all_holds:
  assumes opts: "plain_options (engine_pipeline (ma_config s))" and holds: "adapter_holds s A"
    and free: "\<not> lb_disposed A" "\<not> al_aborted p"
  shows "\<exists>rs s'. adapter_search_all dtoa mlog p s = (Inr rs, s') \<and> ma_config s' = ma_config s \<and> adapter_holds s' A \<and>
    merged_of A dtoa (ma_config s) p rs"
proof -
  define names where "names = (case al_resources p of Some ns \<Rightarrow> ns | None \<Rightarrow> jmap_keys (ma_resources s))"
  define limit where "limit = (case al_limit p of Some n \<Rightarrow> n | None \<Rightarrow> Fin 10)"
  obtain found s' where run: "search_resources dtoa mlog p names [] s = (Inr found, s')" "ma_config s' = ma_config s" "adapter_holds s' A"
      "length found = sum_list (map (hits_in A dtoa (engine_pipeline (ma_config s)) (resource_params (ma_config s) p)) names)"
      "\<And>r. r \<in> set found \<Longrightarrow> ar_resource r \<in> set names \<and> (\<exists>L. lb_resources A (ar_resource r) = Some L \<and>
        ar_id r \<in> found_ids dtoa (engine_pipeline (ma_config s)) (resource_params (ma_config s) p) L)"
    using search_resources_holds [OF opts free(2) holds refl, where found = "[]" and names = names and dtoa = dtoa and mlog = mlog]
    by auto
  let ?rs = "js_slice_to limit (js_sort compare_all found)"
  have "set (jmap_keys (ma_resources s)) = dom (lb_resources A)"
  proof -
    have "r \<in> set (jmap_keys (ma_resources s)) \<longleftrightarrow> lb_resources A r \<noteq> None" for r
      using holds_None [OF holds, of r] map_of_eq_None_iff [of "ma_resources s" r] by auto
    then show ?thesis by (auto simp: dom_def)
  qed
  then have names: "case al_resources p of Some ns \<Rightarrow> names = ns | None \<Rightarrow> distinct names \<and> set names = dom (lb_resources A)"
    using holds by (simp add: names_def adapter_holds_def split: option.split)
  have "r \<in> set ?rs \<Longrightarrow> r \<in> set found" for r using js_slice_set(1) [of limit "js_sort compare_all found"] by auto
  moreover have "length ?rs = slice_length limit (length found)" by (simp add: slice_length)
  ultimately have "merged_of A dtoa (ma_config s) p ?rs"
    unfolding merged_of_def limit_def [symmetric] using names run(4,5) by (intro exI [of _ names]) auto
  moreover have "ma_disposed s = False" using holds free by (simp add: adapter_holds_def)
  then have "adapter_search_all dtoa mlog p s = (Inr ?rs, s')"
    using run(1) free by (simp add: adapter_search_all_def assert_not_disposed_def assert_not_aborted_def names_def [symmetric] limit_def)
  ultimately show ?thesis using run(2,3) by blast
qed

lemma initialize_holds:
  "adapter_holds s A \<Longrightarrow> ma_config (snd (adapter_initialize names s)) = ma_config s \<and>
    adapter_holds (snd (adapter_initialize names s)) (library_effect (Initialize names) A)"
proof -
  have loop: "adapter_holds s A \<Longrightarrow>
      ma_config (foldl (\<lambda>s name. snd (get_or_create_resource name s)) s names) = ma_config s \<and>
      adapter_holds (foldl (\<lambda>s name. snd (get_or_create_resource name s)) s names) (A\<lparr>lb_resources := foldl create_library (lb_resources A) names\<rparr>)"
    for s A
  proof (induction names arbitrary: s A)
    case (Cons name names)
    obtain e s1 where s1: "get_or_create_resource name s = (e, s1)" "ma_config s1 = ma_config s"
        "adapter_holds s1 (A\<lparr>lb_resources := create_library (lb_resources A) name\<rparr>)"
      using get_or_create_holds [OF Cons.prems] by blast
    show ?case using Cons.IH [OF s1(3)] s1(1,2) by simp
  qed simp
  assume "adapter_holds s A"
  then have "adapter_holds (s\<lparr>ma_disposed := False\<rparr>) (A\<lparr>lb_disposed := False\<rparr>)" by (simp add: adapter_holds_def)
  from loop [OF this] show ?thesis by (cases A) (simp add: adapter_initialize_def)
qed

lemma blocked_step:
  assumes "adapter_holds s A" and "blocked op (lb_disposed A) = Some err"
  shows "adapter_step dtoa mlog op s = (Rejected err, s)"
proof -
  have "ma_disposed s = lb_disposed A" using assms(1) by (simp add: adapter_holds_def)
  with assms(2) show ?thesis
    by (cases op) (auto simp: blocked_def adapter_index_def adapter_search_def adapter_remove_def adapter_clear_def
        adapter_search_all_def assert_not_disposed_def assert_not_aborted_def answer_of_def split: if_splits)
qed

lemma adapter_step_holds:
  assumes opts: "plain_options (engine_pipeline (ma_config s))" and holds: "adapter_holds s A" and plain: "op_plain op"
  shows "\<exists>answer s'. adapter_step dtoa mlog op s = (answer, s') \<and> ma_config s' = ma_config s \<and>
    adapter_holds s' (library_step op A) \<and> allowed_answer dtoa (ma_config s) op A answer"
proof (cases "blocked op (lb_disposed A)")
  case (Some err)
  then show ?thesis using blocked_step [OF holds Some] holds by (simp add: library_step_def allowed_answer_def)
next
  case None
  have dis: "ma_disposed s = lb_disposed A" using holds by (simp add: adapter_holds_def)
  show ?thesis
  proof (cases op)
    case (Index p)
    with None have "\<not> lb_disposed A" "\<not> ip_aborted p" by (auto simp: blocked_def split: if_splits)
    moreover have "list_all plain_document (ip_documents p)" using plain Index by simp
    ultimately obtain s' where "adapter_index p s = (Inr (), s')" "ma_config s' = ma_config s"
        "adapter_holds s' (library_effect (Index p) A)"
      using index_holds [OF opts holds] by blast
    with None Index show ?thesis
      by (simp add: library_step_def allowed_answer_def answer_of_def del: library_effect.simps)
  next
    case (Search q)
    with None have "\<not> lb_disposed A" "\<not> sr_aborted q" by (auto simp: blocked_def split: if_splits)
    with search_holds [OF opts holds, of q dtoa mlog] None Search show ?thesis
      by (auto simp: library_step_def answer_of_def)
  next
    case (Remove p)
    with None have "\<not> lb_disposed A" "\<not> rp_aborted p" by (auto simp: blocked_def split: if_splits)
    with remove_holds [OF opts holds, of p] None Remove show ?thesis
      by (auto simp: library_step_def allowed_answer_def answer_of_def simp del: library_effect.simps)
  next
    case (Clear r aborted)
    with None have "\<not> lb_disposed A" "\<not> aborted" by (auto simp: blocked_def split: if_splits)
    with holds None Clear show ?thesis
      by (auto simp: library_step_def allowed_answer_def answer_of_def adapter_clear_def assert_not_disposed_def
          assert_not_aborted_def dis adapter_holds_def jmap_simps)
  next
    case (SearchAll p)
    with None have "\<not> lb_disposed A" "\<not> al_aborted p" by (auto simp: blocked_def split: if_splits)
    with search_all_holds [OF opts holds, of p dtoa mlog] None SearchAll show ?thesis
      by (auto simp: library_step_def allowed_answer_def answer_of_def)
  next
    case (Initialize names)
    with initialize_holds [OF holds, of names] None show ?thesis
      by (auto simp: library_step_def allowed_answer_def answer_of_def adapter_initialize_def simp del: library_effect.simps)
  next
    case Dispose
    with None holds show ?thesis
      by (auto simp: library_step_def allowed_answer_def answer_of_def adapter_dispose_def adapter_holds_def)
  qed
qed

end
