(* ===== verification/AdapterProperties.thy ===== *)
theory AdapterProperties
  imports AdapterRefinement
begin

text \<open>
  What the refinement gives to a user of the adapter: searches return the documents whose text
  has the words of the query, removal and clearing take effect, a disposed or aborted call is
  rejected without effect, batches do not matter. Two theorems on concrete runs record where
  the code departs from what it means to do.
\<close>

section \<open>Matching in terms of the text\<close>

definition doc_tokens :: "pipeline_options \<Rightarrow> search_document \<Rightarrow> string \<Rightarrow> token list" where
  "doc_tokens opts d f = of_field f (record_tokens opts (record_of d))"

definition has_word :: "pipeline_options \<Rightarrow> search_document \<Rightarrow> string \<Rightarrow> string \<Rightarrow> bool" where
  "has_word opts d f w = (\<exists>t \<in> set (doc_tokens opts d f). tk_value t = w)"

text \<open>The words a document adds to the vocabulary: not only seen as a proper edge n-gram.\<close>

definition adds_word :: "pipeline_options \<Rightarrow> search_document \<Rightarrow> string \<Rightarrow> bool" where
  "adds_word opts d w = (\<exists>f. has_word opts d f w \<and>
     \<not> (described w (doc_tokens opts d f) \<noteq> [] \<and>
        list_all (\<lambda>t. meta_is_prefix (tk_metadata t)) (described w (doc_tokens opts d f))))"

definition library_words :: "pipeline_options \<Rightarrow> library \<Rightarrow> string set" where
  "library_words opts L = {w. \<exists>dk d. L dk = Some d \<and> adds_word opts d w}"

definition text_matches :: "pipeline_options \<Rightarrow> search_params \<Rightarrow> library \<Rightarrow> search_document \<Rightarrow> bool" where
  "text_matches opts params L d = (\<exists>f v w. searched params f \<and> v \<in> query_values opts (sp_query params) f \<and>
     w \<in> expands_to (get_fuzzy_distance (sp_fuzzy params)) (sp_prefix params = Some True) (library_words opts L) v \<and>
     has_word opts d f w)"

definition matching_ids ::
    "(rat \<Rightarrow> string) \<Rightarrow> pipeline_options \<Rightarrow> search_params \<Rightarrow> library \<Rightarrow> docid set" where
  "matching_ids dtoa opts params L =
     {dc_id d | dk d. L dk = Some d \<and> doc_passes dtoa params (dc_metadata d) \<and> text_matches opts params L d}"

lemma ingested_has: "doc_has (ingested opts d) f w \<longleftrightarrow> has_word opts d f w"
proof -
  have "doc_has (ingested opts d) f w \<longleftrightarrow>
      (case jmap_get (id_frequencies (ingested opts d)) f of None \<Rightarrow> None | Some m \<Rightarrow> jmap_get m w) \<noteq> None"
    by (simp add: doc_has_def split: option.split)
  then show ?thesis unfolding ingested_def converted_frequency
    by (auto simp: Let_def has_word_def doc_tokens_def filter_empty_conv)
qed

lemma ingested_flag:
  "doc_prefix (ingested opts d) f w \<longleftrightarrow> described w (doc_tokens opts d f) \<noteq> [] \<and>
     list_all (\<lambda>t. meta_is_prefix (tk_metadata t)) (described w (doc_tokens opts d f))"
proof -
  have "doc_prefix (ingested opts d) f w \<longleftrightarrow>
      meta_is_prefix (case jmap_get (id_metadata (ingested opts d)) f of None \<Rightarrow> None | Some m \<Rightarrow> jmap_get m w)"
    by (cases "jmap_get (id_metadata (ingested opts d)) f") (simp_all add: doc_prefix_def)
  then show ?thesis unfolding ingested_def converted_flag doc_tokens_def .
qed

lemma corpus_of_has:
  "(\<exists>c. corpus_of opts L dk = Some c \<and> doc_has (cd_doc c) f w \<and> P c) \<longleftrightarrow>
   (\<exists>d. L dk = Some d \<and> has_word opts d f w \<and>
      P \<lparr>cd_id = dc_id d, cd_doc = ingested opts d, cd_metadata = dc_metadata d\<rparr>)"
proof (cases "L dk")
  case (Some d)
  have "\<not> has_word opts d f w" if "id_total (ingested opts d) = 0"
    using that unfolding ingested_def converted_total
    by (auto simp: has_word_def doc_tokens_def of_field_def filter_empty_conv)
  with Some show ?thesis by (auto simp: corpus_of_def ingested_has)
qed (simp add: corpus_of_def)

lemma corpus_words: "corpus_vocabulary (corpus_of opts L) = library_words opts L"
proof -
  have "w \<in> corpus_vocabulary (corpus_of opts L) \<longleftrightarrow>
      (\<exists>dk f c. corpus_of opts L dk = Some c \<and> doc_has (cd_doc c) f w \<and> \<not> doc_prefix (cd_doc c) f w)" for w
    by (auto simp: corpus_vocabulary_def)
  then have "w \<in> corpus_vocabulary (corpus_of opts L) \<longleftrightarrow> (\<exists>dk f d. L dk = Some d \<and> has_word opts d f w \<and>
      \<not> (described w (doc_tokens opts d f) \<noteq> [] \<and>
         list_all (\<lambda>t. meta_is_prefix (tk_metadata t)) (described w (doc_tokens opts d f))))" for w
    unfolding corpus_of_has by (simp only: corpus_doc.select_convs ingested_flag)
  then show ?thesis unfolding library_words_def adds_word_def by blast
qed

lemma found_matching: "found_ids dtoa opts params L = matching_ids dtoa opts params L"
proof -
  have key: "dk \<in> found_keys dtoa opts params (corpus_of opts L) \<longleftrightarrow>
      (\<exists>d. L dk = Some d \<and> doc_passes dtoa params (dc_metadata d) \<and> text_matches opts params L d)" for dk
  proof -
    have "dk \<in> found_keys dtoa opts params (corpus_of opts L) \<longleftrightarrow>
        (\<exists>f v w. searched params f \<and> v \<in> query_values opts (sp_query params) f \<and>
          w \<in> expands_to (get_fuzzy_distance (sp_fuzzy params)) (sp_prefix params = Some True) (library_words opts L) v \<and>
          (\<exists>c. corpus_of opts L dk = Some c \<and> doc_has (cd_doc c) f w \<and> doc_passes dtoa params (cd_metadata c)))"
      unfolding found_keys_def doc_matches_def corpus_words by blast
    also have "\<dots> \<longleftrightarrow> (\<exists>d. L dk = Some d \<and> doc_passes dtoa params (dc_metadata d) \<and> text_matches opts params L d)"
      unfolding corpus_of_has text_matches_def by auto
    finally show ?thesis .
  qed
  show ?thesis
  proof (intro set_eqI iffI)
    fix i assume "i \<in> found_ids dtoa opts params L"
    then obtain dk where "dk \<in> found_keys dtoa opts params (corpus_of opts L)" "i = dc_id (the (L dk))"
      by (auto simp: found_ids_def)
    moreover from this obtain d where "L dk = Some d" "doc_passes dtoa params (dc_metadata d)" "text_matches opts params L d"
      using key by blast
    ultimately show "i \<in> matching_ids dtoa opts params L" unfolding matching_ids_def by force
  next
    fix i assume "i \<in> matching_ids dtoa opts params L"
    then obtain dk d where d: "i = dc_id d" "L dk = Some d" "dk \<in> found_keys dtoa opts params (corpus_of opts L)"
      unfolding matching_ids_def using key by blast
    then show "i \<in> found_ids dtoa opts params L" by (force simp: found_ids_def)
  qed
qed

section \<open>Runs\<close>

definition adapter_run ::
    "(rat \<Rightarrow> string) \<Rightarrow> (jsnum \<Rightarrow> jsnum) \<Rightarrow> adapter_config option \<Rightarrow> adapter_op list \<Rightarrow> memory_adapter" where
  "adapter_run dtoa mlog config ops = foldl (\<lambda>s op. snd (adapter_step dtoa mlog op s)) (memory_adapter_new config) ops"

definition library_run :: "adapter_op list \<Rightarrow> libraries" where
  "library_run ops = foldl (\<lambda>A op. library_step op A) \<lparr>lb_disposed = False, lb_resources = Map.empty\<rparr> ops"

definition config_of :: "adapter_config option \<Rightarrow> adapter_config" where
  "config_of config = ma_config (memory_adapter_new config)"

lemma adapter_run_holds:
  assumes "plain_options (engine_pipeline (config_of config))"
  shows "list_all op_plain ops \<Longrightarrow> ma_config (adapter_run dtoa mlog config ops) = config_of config \<and>
    adapter_holds (adapter_run dtoa mlog config ops) (library_run ops)"
proof (induction ops rule: rev_induct)
  case Nil
  then show ?case by (simp add: adapter_run_def library_run_def adapter_holds_def config_of_def memory_adapter_new_def)
next
  case (snoc op ops)
  then have IH: "ma_config (adapter_run dtoa mlog config ops) = config_of config"
    "adapter_holds (adapter_run dtoa mlog config ops) (library_run ops)" "op_plain op" by simp_all
  from adapter_step_holds [OF _ IH(2,3), of dtoa mlog] IH(1) assms show ?case
    by (auto simp: adapter_run_def library_run_def)
qed

lemma adapter_answers:
  assumes "plain_options (engine_pipeline (config_of config))" and "list_all op_plain (ops @ [op])"
  shows "allowed_answer dtoa (config_of config) op (library_run ops)
    (fst (adapter_step dtoa mlog op (adapter_run dtoa mlog config ops)))"
  using adapter_run_holds [OF assms(1), of ops dtoa mlog] assms
    adapter_step_holds [of "adapter_run dtoa mlog config ops" "library_run ops" op dtoa mlog]
  by auto

text \<open>What a search answers after a run, when it is not blocked and the resource exists.\<close>

lemma search_answers:
  fixes dtoa :: "rat \<Rightarrow> string"
  assumes "plain_options (engine_pipeline (config_of config))" and "list_all op_plain ops"
    and "\<not> lb_disposed (library_run ops)" and "\<not> sr_aborted q"
    and "lb_resources (library_run ops) (sr_resource q) = Some L"
  defines "params \<equiv> resolve_params (config_of config) (sr_params q)"
  defines "M \<equiv> matching_ids dtoa (engine_pipeline (config_of config)) params L"
  shows "\<exists>ids. fst (adapter_step dtoa mlog (Search q) (adapter_run dtoa mlog config ops)) = Ids ids \<and>
    finite M \<and> distinct ids \<and> set ids \<subseteq> M \<and> length ids = page_size (sp_limit params) (card M)"
proof -
  have "list_all op_plain (ops @ [Search q])" using assms(2) by simp
  from adapter_answers [OF assms(1) this, of dtoa mlog] assms(3-5)
  obtain ids where "fst (adapter_step dtoa mlog (Search q) (adapter_run dtoa mlog config ops)) = Ids ids"
      "page_of dtoa (engine_pipeline (config_of config)) params L ids"
    by (auto simp: allowed_answer_def blocked_def params_def)
  then show ?thesis by (auto simp: page_of_def M_def found_matching)
qed

lemma page_all: "length ids = page_size (Some PInf) (card M) \<Longrightarrow> finite M \<Longrightarrow> distinct ids \<Longrightarrow> set ids \<subseteq> M \<Longrightarrow> set ids = M"
  by (simp add: page_size_def card_subset_eq distinct_card)

section \<open>Properties\<close>

text \<open>
  C1: the adapter implements its specification: after any run of operations on documents
  whose field names have no colon, with a pipeline of built-in stages, the tables of every
  resource hold exactly the library the operations describe, and the next operation answers
  what the specification allows.
\<close>

theorem adapter_refines_library:
  assumes "plain_options (engine_pipeline (config_of config))" and "list_all op_plain (ops @ [op])"
  shows "adapter_holds (adapter_run dtoa mlog config ops) (library_run ops) \<and>
    allowed_answer dtoa (config_of config) op (library_run ops)
      (fst (adapter_step dtoa mlog op (adapter_run dtoa mlog config ops)))"
  using adapter_run_holds [OF assms(1), of ops dtoa mlog] adapter_answers [OF assms, of dtoa mlog] assms(2) by simp

definition alpha_beta :: search_document where
  "alpha_beta = \<lparr>dc_id = DStr ''d1'', dc_fields = [(''title'', ''alpha beta'')], dc_metadata = None\<rparr>"

definition index_in :: "string \<Rightarrow> search_document list \<Rightarrow> adapter_op" where
  "index_in r ds = Index \<lparr>ip_resource = r, ip_documents = ds, ip_aborted = False\<rparr>"

definition remove_in :: "string \<Rightarrow> docid list \<Rightarrow> adapter_op" where
  "remove_in r ids = Remove \<lparr>rp_resource = r, rp_ids = ids, rp_aborted = False\<rparr>"

definition query_for :: "string \<Rightarrow> search_params" where
  "query_for query = \<lparr>sp_query = query, sp_fields = None, sp_limit = Some PInf, sp_fuzzy = None, sp_prefix = None,
     sp_boosts = None, sp_namespaces = None, sp_regions = None\<rparr>"

definition search_in :: "string \<Rightarrow> search_params \<Rightarrow> adapter_op" where
  "search_in r params = Search \<lparr>sr_resource = r, sr_params = params, sr_aborted = False\<rparr>"

lemma plain_default: "plain_options (engine_pipeline (config_of None))"
  by (simp add: config_of_def memory_adapter_new_def engine_pipeline_def plain_options_def default_options_def)

lemma plain_alpha_beta: "op_plain (index_in r [alpha_beta])"
  by (simp add: index_in_def alpha_beta_def plain_document_def plain_fields_def plain_def)

theorem adapter_refines_library_witness:
  "allowed_answer (\<lambda>_. []) (config_of None) (search_in ''items'' (query_for ''beta'')) (library_run [index_in ''items'' [alpha_beta]])
     (fst (adapter_step (\<lambda>_. []) (\<lambda>_. Fin 1) (search_in ''items'' (query_for ''beta''))
       (adapter_run (\<lambda>_. []) (\<lambda>_. Fin 1) None [index_in ''items'' [alpha_beta]])))"
  by (rule conjunct2 [OF adapter_refines_library [OF plain_default]])
    (simp add: plain_alpha_beta search_in_def)

text \<open>
  C16: a search returns documents that match in the text: the identifiers are distinct, each
  belongs to a document of the resource with an indexed word the query stands for in a searched
  field and with the requested namespace and region, and as many are returned as the limit
  allows.
\<close>

theorem search_returns_matches:
  fixes dtoa :: "rat \<Rightarrow> string"
  assumes "plain_options (engine_pipeline (config_of config))" and "list_all op_plain ops"
    and "\<not> lb_disposed (library_run ops)" and "\<not> sr_aborted q"
    and "lb_resources (library_run ops) (sr_resource q) = Some L"
  defines "params \<equiv> resolve_params (config_of config) (sr_params q)"
  defines "M \<equiv> matching_ids dtoa (engine_pipeline (config_of config)) params L"
  shows "\<exists>ids. fst (adapter_step dtoa mlog (Search q) (adapter_run dtoa mlog config ops)) = Ids ids \<and>
    distinct ids \<and> set ids \<subseteq> M \<and> length ids = page_size (sp_limit params) (card M)"
  using search_answers [OF assms(1-5), of dtoa mlog] unfolding M_def params_def by blast

lemma library_run_alpha:
  "library_run [index_in ''items'' [alpha_beta]] =
     \<lparr>lb_disposed = False, lb_resources = [''items'' \<mapsto> [''s:d1'' \<mapsto> alpha_beta]]\<rparr>"
  by (simp add: library_run_def library_step_def blocked_def index_in_def library_at_def library_put_def alpha_beta_def
      to_key_def docid_string_def)

theorem search_returns_matches_witness:
  "\<exists>ids. fst (adapter_step (\<lambda>_. []) (\<lambda>_. Fin 1) (search_in ''items'' (query_for ''beta''))
      (adapter_run (\<lambda>_. []) (\<lambda>_. Fin 1) None [index_in ''items'' [alpha_beta]])) = Ids ids \<and>
    distinct ids \<and> set ids \<subseteq> {DStr ''d1''}"
proof -
  let ?q = "\<lparr>sr_resource = ''items'', sr_params = query_for ''beta'', sr_aborted = False\<rparr>"
  have "matching_ids dtoa opts params [''s:d1'' \<mapsto> alpha_beta] \<subseteq> {DStr ''d1''}" for dtoa opts params
    by (auto simp: matching_ids_def alpha_beta_def split: if_splits)
  with search_returns_matches [OF plain_default, of "[index_in ''items'' [alpha_beta]]" ?q "[''s:d1'' \<mapsto> alpha_beta]" "\<lambda>_. []" "\<lambda>_. Fin 1"]
  show ?thesis unfolding search_in_def library_run_alpha by (fastforce simp: plain_alpha_beta)
qed

lemma library_run_snoc: "library_run (ops @ [op]) = library_step op (library_run ops)"
  by (simp add: library_run_def)

lemma search_all_matches:
  fixes dtoa :: "rat \<Rightarrow> string"
  assumes "plain_options (engine_pipeline (config_of config))" and "list_all op_plain ops"
    and "\<not> lb_disposed (library_run ops)" and "lb_resources (library_run ops) r = Some L" and "sp_limit p = Some PInf"
  shows "\<exists>ids. fst (adapter_step dtoa mlog (search_in r p) (adapter_run dtoa mlog config ops)) = Ids ids \<and>
    set ids = matching_ids dtoa (engine_pipeline (config_of config)) (resolve_params (config_of config) p) L"
proof -
  have "sp_limit (resolve_params (config_of config) p) = Some PInf" using assms(5) by (simp add: resolve_params_def)
  with search_answers [OF assms(1-3), of "\<lparr>sr_resource = r, sr_params = p, sr_aborted = False\<rparr>" L dtoa mlog] assms(4)
  show ?thesis unfolding search_in_def by (auto dest: page_all)
qed

text \<open>
  C31: indexing takes effect at once and so do removing and clearing: with an unlimited exact
  search for one of its words a document is found after it was indexed into a resource, not
  found any more once it was removed, and nothing is found in a cleared resource.
\<close>

theorem index_remove_clear_effective:
  fixes dtoa :: "rat \<Rightarrow> string" and mlog :: "jsnum \<Rightarrow> jsnum" and r :: string
  assumes opts: "plain_options (engine_pipeline (config_of config))" and ops: "list_all op_plain ops"
    and free: "\<not> lb_disposed (library_run ops)" and d: "plain_document d"
    and p: "sp_limit p = Some PInf" "sp_fuzzy (resolve_params (config_of config) p) = None"
      "sp_prefix (resolve_params (config_of config) p) \<noteq> Some True" "doc_passes dtoa p (dc_metadata d)"
    and word: "searched p f" "v \<in> query_values (engine_pipeline (config_of config)) (sp_query p) f"
      "has_word (engine_pipeline (config_of config)) d f v"
  defines "answer \<equiv> \<lambda>ops. fst (adapter_step dtoa mlog (search_in r p) (adapter_run dtoa mlog config ops))"
  shows "(\<exists>ids. answer (ops @ [index_in r [d]]) = Ids ids \<and> dc_id d \<in> set ids) \<and>
    (\<exists>ids. answer (ops @ [index_in r [d], remove_in r [dc_id d]]) = Ids ids \<and> dc_id d \<notin> set ids) \<and>
    answer (ops @ [index_in r [d], Clear r False]) = Ids []"
proof -
  let ?opts = "engine_pipeline (config_of config)" and ?p = "resolve_params (config_of config) p"
  let ?A = "library_run ops" and ?i = "index_in r [d]"
  define L where "L = library_put (library_at ?A r) d"
  have A1: "library_run (ops @ [?i]) = ?A\<lparr>lb_resources := (lb_resources ?A)(r \<mapsto> L)\<rparr>"
    using free by (simp add: library_run_snoc library_step_def blocked_def index_in_def L_def)
  have plain1: "list_all op_plain (ops @ [?i])" using ops d by (simp add: index_in_def)
  have run2: "ops @ [?i, op] = (ops @ [?i]) @ [op]" for op by simp
  have A2: "library_run (ops @ [?i, remove_in r [dc_id d]]) =
      ?A\<lparr>lb_resources := (lb_resources ?A)(r \<mapsto> library_drop L (dc_id d))\<rparr>"
    unfolding run2 library_run_snoc A1 [unfolded library_run_snoc] using free
    by (simp add: library_step_def blocked_def remove_in_def)
  have A3: "library_run (ops @ [?i, Clear r False]) = ?A\<lparr>lb_resources := (lb_resources ?A)(r := None)\<rparr>"
    unfolding run2 library_run_snoc A1 [unfolded library_run_snoc] using free
    by (simp add: library_step_def blocked_def)
  have "doc_passes dtoa ?p (dc_metadata d)" "searched ?p f" "sp_query ?p = sp_query p"
    using p(4) word(1) by (simp_all add: resolve_params_def doc_passes_def searched_def)
  moreover have "text_matches ?opts ?p L d"
    unfolding text_matches_def using calculation word(2,3) p(2,3)
    by (intro exI [of _ f] exI [of _ v]) (simp add: expands_to_def get_fuzzy_distance_def)
  ultimately have "dc_id d \<in> matching_ids dtoa ?opts ?p L"
    unfolding matching_ids_def by (auto simp: L_def library_put_def)
  then have found: "\<exists>ids. answer (ops @ [?i]) = Ids ids \<and> dc_id d \<in> set ids"
    using search_all_matches [OF opts plain1 _ _ p(1), of r L dtoa mlog] free unfolding answer_def A1 by auto
  have ok: "library_ok (library_drop L (dc_id d))"
    using adapter_run_holds [OF opts, of "ops @ [?i, remove_in r [dc_id d]]" dtoa mlog] plain1
    unfolding adapter_holds_def A2 by (auto simp: remove_in_def library_holds_def elim: option.rel_cases dest!: spec [of _ r])
  have "dc_id d \<notin> matching_ids dtoa ?opts ?p (library_drop L (dc_id d))"
  proof
    assume "dc_id d \<in> matching_ids dtoa ?opts ?p (library_drop L (dc_id d))"
    then obtain dk d' where d': "library_drop L (dc_id d) dk = Some d'" "dc_id d' = dc_id d" by (auto simp: matching_ids_def)
    then have "to_key (dc_id d) = dk" using ok unfolding library_ok_def by metis
    with d'(1) show False by (simp add: library_drop_def)
  qed
  then have gone: "\<exists>ids. answer (ops @ [?i, remove_in r [dc_id d]]) = Ids ids \<and> dc_id d \<notin> set ids"
    using search_all_matches [OF opts _ _ _ p(1), of "ops @ [?i, remove_in r [dc_id d]]" r "library_drop L (dc_id d)" dtoa mlog] plain1 free
    unfolding answer_def A2 by (auto simp: remove_in_def)
  have "list_all op_plain (ops @ [?i, Clear r False, search_in r p])" using plain1 by (simp add: search_in_def)
  then have "answer (ops @ [?i, Clear r False]) = Ids []"
    using adapter_answers [OF opts, of "ops @ [?i, Clear r False]" "search_in r p" dtoa mlog] free
    unfolding answer_def A3 by (simp add: allowed_answer_def search_in_def blocked_def)
  with found gone show ?thesis by blast
qed

theorem index_remove_clear_effective_witness:
  "(\<exists>ids. fst (adapter_step (\<lambda>_. []) (\<lambda>_. Fin 1) (search_in ''items'' (query_for ''Beta''))
      (adapter_run (\<lambda>_. []) (\<lambda>_. Fin 1) None [index_in ''items'' [alpha_beta]])) = Ids ids \<and> DStr ''d1'' \<in> set ids)"
proof -
  let ?opts = "engine_pipeline (config_of None)"
  have opts: "?opts = default_options" by (simp add: config_of_def memory_adapter_new_def engine_pipeline_def)
  have "map tk_value (analyzed default_options ''title'' ''Beta'' None) = [''beta'']"
    "map tk_metadata (analyzed default_options ''title'' ''Beta'' None) = [None]" by code_simp+
  then have "''beta'' \<in> query_values ?opts ''Beta'' ''title''"
    unfolding opts query_values_def by (cases "analyzed default_options ''title'' ''Beta'' None") auto
  moreover have "list_ex (\<lambda>t. tk_value t = ''beta'') (doc_tokens default_options alpha_beta ''title'')" by code_simp
  then have "has_word ?opts alpha_beta ''title'' ''beta''" by (simp add: opts has_word_def list_ex_iff)
  moreover have "plain_document alpha_beta" using plain_alpha_beta [of r] by (simp add: index_in_def)
  ultimately show ?thesis
    using index_remove_clear_effective [OF plain_default, of "[]" alpha_beta "query_for ''Beta''" "\<lambda>_. []" "''title''" "''beta''" "\<lambda>_. Fin 1" "''items''"]
    by (simp add: query_for_def library_run_def searched_def doc_passes_def resolve_params_def config_of_def
        memory_adapter_new_def or_default_def default_of_def alpha_beta_def)
qed

text \<open>
  Splitting the documents into batches of any size changes nothing: the batched loop of
  \<open>index\<close> is the plain loop over all documents, for custom pipelines that throw as well.
\<close>

theorem index_batches_irrelevant:
  "index_batches (Suc n) opts aborted documents 0 e = index_chunk opts aborted documents e"
  by (simp add: index_batches_chunk_lib)

lemma initialize_empty:
  "ma_resources s = [] \<Longrightarrow> jmap_get (ma_resources (snd (adapter_initialize names s))) r =
     (if r \<in> set names then Some create_engine else None)"
proof -
  assume empty: "ma_resources s = []"
  have "jmap_get (ma_resources (foldl (\<lambda>s name. snd (get_or_create_resource name s)) s names)) r =
      (case jmap_get (ma_resources s) r of None \<Rightarrow> if r \<in> set names then Some create_engine else None | Some e \<Rightarrow> Some e)" for s
    by (induction names arbitrary: s) (auto simp: get_or_create_resource_def jmap_simps split: option.split)
  from this [of "s\<lparr>ma_disposed := False\<rparr>"] empty show ?thesis by (simp add: adapter_initialize_def)
qed

text \<open>
  A call on a disposed adapter or with an aborted signal is rejected with the error the
  contract names and changes nothing; \<open>dispose\<close> forgets every resource and \<open>initialize\<close>
  afterwards starts with empty ones.
\<close>

theorem disposed_or_aborted_rejected:
  "(case op_guard op of None \<Rightarrow> True | Some (aborted, message) \<Rightarrow>
      (ma_disposed s \<or> aborted) = (\<exists>err. adapter_step dtoa mlog op s = (Rejected err, s) \<and>
         err = (if ma_disposed s then Disposed else Aborted message) \<and> (ma_disposed s \<or> aborted))) \<and>
   ma_disposed (snd (adapter_step dtoa mlog Dispose s)) \<and>
   \<not> ma_disposed (snd (adapter_step dtoa mlog (Initialize names) s)) \<and>
   jmap_get (ma_resources (snd (adapter_step dtoa mlog (Initialize names) (snd (adapter_step dtoa mlog Dispose s))))) r =
     (if r \<in> set names then Some create_engine else None)"
proof -
  have keep: "ma_disposed (foldl (\<lambda>s name. snd (get_or_create_resource name s)) s names) = ma_disposed s" for s
    by (induction names arbitrary: s) (auto simp: get_or_create_resource_def split: option.split)
  have "adapter_step dtoa mlog op s = (Rejected (if ma_disposed s then Disposed else Aborted message), s)"
    if "op_guard op = Some (aborted, message)" "ma_disposed s \<or> aborted" for aborted message
    using that by (cases op) (auto simp: adapter_index_def adapter_search_def adapter_remove_def adapter_clear_def
        adapter_search_all_def assert_not_disposed_def assert_not_aborted_def answer_of_def split: if_splits)
  then show ?thesis
    using initialize_empty [of "s\<lparr>ma_resources := [], ma_disposed := True\<rparr>" names r] keep [of "s\<lparr>ma_disposed := False\<rparr>"]
    by (auto simp: adapter_dispose_def adapter_initialize_def answer_of_def split: option.split)
qed

section \<open>Departures\<close>

text \<open>Runs on one resource, with the engine kept as a constant while its tables are evaluated.\<close>

definition one_resource :: "pipeline_options \<Rightarrow> string \<Rightarrow> resource_engine \<Rightarrow> memory_adapter" where
  "one_resource opts r e = \<lparr>ma_config = \<lparr>ac_pipeline = Some opts, ac_defaults = None\<rparr>, ma_resources = [(r, e)], ma_disposed = False\<rparr>"

lemma run_index:
  "adapter_run dtoa mlog (Some \<lparr>ac_pipeline = Some opts, ac_defaults = None\<rparr>) [index_in r ds] =
     one_resource opts r (snd (index_chunk opts False ds create_engine))"
  by (simp add: adapter_run_def one_resource_def index_in_def adapter_index_code assert_not_disposed_def assert_not_aborted_def
      memory_adapter_new_def get_or_create_resource_def engine_pipeline_def case_prod_unfold Let_def)

lemma run_index_remove:
  "adapter_run dtoa mlog (Some \<lparr>ac_pipeline = Some opts, ac_defaults = None\<rparr>) [index_in r ds, remove_in r [i]] =
     one_resource opts r (remove_doc_from_engine i (snd (index_chunk opts False ds create_engine)))"
proof -
  have "adapter_run dtoa mlog c [op, op'] = snd (adapter_step dtoa mlog op' (adapter_run dtoa mlog c [op]))" for c op op'
    by (simp add: adapter_run_def)
  then show ?thesis
    by (simp add: run_index one_resource_def remove_in_def adapter_remove_def assert_not_disposed_def assert_not_aborted_def)
qed

lemma search_one:
  "fst (adapter_step dtoa mlog (search_in r p) (one_resource opts r e)) =
     answer_of (\<lambda>xs. Ids (map fst xs)) (case fst (execute_detailed_search dtoa mlog opts p e) of
       Inl err \<Rightarrow> Inl (PipelineFailure err) | Inr xs \<Rightarrow> Inr xs)"
proof -
  have "resolve_params \<lparr>ac_pipeline = Some opts, ac_defaults = None\<rparr> p = p"
    by (simp add: resolve_params_def default_of_def or_default_def option.case_eq_if)
  then show ?thesis
    by (simp add: one_resource_def search_in_def adapter_search_def assert_not_disposed_def assert_not_aborted_def
        search_resource_def engine_pipeline_def answer_of_def case_prod_unfold Let_def split: sum.split)
qed

definition colon_documents :: "search_document list" where
  "colon_documents =
     [\<lparr>dc_id = DStr ''1'', dc_fields = [(''title'', ''beta'')], dc_metadata = None\<rparr>,
      \<lparr>dc_id = DStr ''2'', dc_fields = [(''a::beta'', ''word'')], dc_metadata = None\<rparr>]"
text \<open>The tables after indexing both documents, and after removing the second.\<close>

definition colon_engine :: resource_engine where
  "colon_engine = \<lparr>re_stats = \<lparr>ds_lengths = [(DStr ''s:1'', Fin 1), (DStr ''s:2'', Fin 1)], ds_total = Fin 2, ds_count = 2\<rparr>,
     re_postings = [(''title::beta'', [(''s:1'', \<lparr>pi_doc = DStr ''1'', pi_frequency = Fin 1, pi_metadata = None\<rparr>)]),
       (''a::beta::word'', [(''s:2'', \<lparr>pi_doc = DStr ''2'', pi_frequency = Fin 1, pi_metadata = None\<rparr>)])],
     re_doc_ids = [(''s:1'', DStr ''1''), (''s:2'', DStr ''2'')], re_doc_metadata = [],
     re_fields = [''title'', ''a::beta''], re_vocabulary = [''beta'', ''word''], re_refs = [(''beta'', 1), (''word'', 1)], re_fuzzy = []\<rparr>"
definition colon_removed :: resource_engine where
  "colon_removed = \<lparr>re_stats = \<lparr>ds_lengths = [(DStr ''s:1'', Fin 1)], ds_total = Fin 1, ds_count = 1\<rparr>,
     re_postings = [(''title::beta'', [(''s:1'', \<lparr>pi_doc = DStr ''1'', pi_frequency = Fin 1, pi_metadata = None\<rparr>)])],
     re_doc_ids = [(''s:1'', DStr ''1'')], re_doc_metadata = [],
     re_fields = [''title'', ''a::beta''], re_vocabulary = [''word''], re_refs = [(''word'', 1)], re_fuzzy = []\<rparr>"

lemma colon_indexed: "snd (index_chunk default_options False colon_documents create_engine) = colon_engine" by code_simp
lemma colon_removal: "remove_doc_from_engine (DStr ''2'') colon_engine = colon_removed" by code_simp
definition prefix_query :: "string \<Rightarrow> bool \<Rightarrow> search_params" where
  "prefix_query query mode = (query_for query)\<lparr>sp_prefix := Some mode\<rparr>"
lemma colon_prefix_after:
  "execute_detailed_search (\<lambda>_. []) (\<lambda>_. Fin 1) default_options (prefix_query ''beta'' True) colon_removed = (Inr [], colon_removed)"
  by code_simp
lemma colon_exact_after:
  "fst (execute_detailed_search (\<lambda>_. []) (\<lambda>_. Fin 1) default_options (prefix_query ''beta'' False) colon_removed) = Inr [(DStr ''1'', Fin (3 / 2))]"
  by code_simp


lemma colon_prefix_before:
  "fst (execute_detailed_search (\<lambda>_. []) (\<lambda>_. Fin 1) default_options (prefix_query ''beta'' True) colon_engine) = Inr [(DStr ''1'', Fin (3 / 2))]"
  by code_simp

definition edge_options :: pipeline_options where
  "edge_options = default_options\<lparr>po_edge := Some True\<rparr>"

definition long_documents :: "search_document list" where
  "long_documents = [\<lparr>dc_id = DStr ''1'', dc_fields = [(''t'', ''characterization'')], dc_metadata = None\<rparr>]"

lemma long_indexed:
  "(let e = snd (index_chunk edge_options False long_documents create_engine) in (re_fields e, jmap_keys (re_doc_ids e))) = ([''t''], [''s:1''])"
  by code_simp

lemma long_search:
  assumes "re_fields e = [''t'']"
  shows "execute_detailed_search dtoa mlog edge_options (query_for ''characterization'') e = (Inr [], e)"
proof -
  have "map_sum id (filter (\<lambda>t. \<not> meta_is_prefix (tk_metadata t))) (pipeline_run edge_options ''t'' ''characterization'' None) = Inr []"
    by code_simp
  then obtain ts where "pipeline_run edge_options ''t'' ''characterization'' None = Inr ts" "filter (\<lambda>t. \<not> meta_is_prefix (tk_metadata t)) ts = []"
    by (cases "pipeline_run edge_options ''t'' ''characterization'' None") auto
  with assms show ?thesis by (simp add: execute_detailed_search_def query_for_def)
qed

definition answer_after :: "pipeline_options \<Rightarrow> adapter_op list \<Rightarrow> adapter_op \<Rightarrow> adapter_answer" where
  "answer_after opts ops op = fst (adapter_step (\<lambda>_. []) (\<lambda>_. Fin 1) op
     (adapter_run (\<lambda>_. []) (\<lambda>_. Fin 1) (Some \<lparr>ac_pipeline = Some opts, ac_defaults = None\<rparr>) ops))"

text \<open>
  Where the code departs from its intent: the removal of a document takes the second part
  of \<open>field::term\<close> for the term. Removing a document with a field named \<open>a::beta\<close> drops the
  word \<open>beta\<close> of another document from the vocabulary, so that a prefix search loses that
  document although its posting is still there and an exact search returns it.
\<close>

theorem removal_loses_other_word:
  "answer_after default_options [index_in r colon_documents] (search_in r (prefix_query ''beta'' True)) = Ids [DStr ''1''] \<and>
   answer_after default_options [index_in r colon_documents, remove_in r [DStr ''2'']] (search_in r (prefix_query ''beta'' True)) = Ids [] \<and>
   answer_after default_options [index_in r colon_documents, remove_in r [DStr ''2'']] (search_in r (prefix_query ''beta'' False)) = Ids [DStr ''1'']"
  unfolding answer_after_def run_index run_index_remove colon_indexed colon_removal search_one
  by (simp add: colon_prefix_before colon_prefix_after colon_exact_after answer_of_def)

text \<open>
  Where the code departs from its intent: with edge n-grams a word longer than the longest
  gram (15 by default) is indexed only as grams, and a query for that very word drops all its
  grams, so that the document is indexed but an exact search for its word finds nothing.
\<close>

theorem long_word_not_found:
  "answer_after edge_options [index_in r long_documents] (search_in r (query_for ''characterization'')) = Ids [] \<and>
   (\<exists>e. jmap_get (ma_resources (adapter_run dtoa mlog (Some \<lparr>ac_pipeline = Some edge_options, ac_defaults = None\<rparr>)
        [index_in r long_documents])) r = Some e \<and> jmap_keys (re_doc_ids e) = [''s:1''])"
  unfolding answer_after_def run_index search_one
  using long_indexed by (simp add: long_search one_resource_def answer_of_def Let_def)

end
