(* ===== verification/LikePattern.thy ===== *)
theory LikePattern
  imports JsConvert
begin

text \<open>
  The LIKE matcher of the query language, \<open>likeMatches\<close> in \<open>datafn/core/src/filters.ts\<close>: a
  loop over two indices that returns to the last wildcard on a mismatch. The declarative
  reading of a pattern is \<open>like_spec\<close>; the loop always ends and decides it.
\<close>

section \<open>The loop\<close>

definition char_at :: "string \<Rightarrow> nat \<Rightarrow> char option" where
  "char_at s i = (if i < length s then Some (s ! i) else None)"

text \<open>\<open>None\<close> is a loop that does not end, \<open>Some None\<close> its \<open>return false\<close>, \<open>Some (Some i)\<close> the
  pattern index when the target is consumed.\<close>

partial_function (option) like_loop ::
    "string \<Rightarrow> string \<Rightarrow> nat \<Rightarrow> nat \<Rightarrow> nat option \<Rightarrow> nat \<Rightarrow> nat option option" where
  "like_loop source target patternIndex targetIndex wildcardIndex matchIndex =
     (if length target \<le> targetIndex then Some (Some patternIndex)
      else if char_at source patternIndex = Some CHR ''%''
        then like_loop source target (patternIndex + 1) targetIndex (Some patternIndex) targetIndex
      else if char_at source patternIndex = Some CHR ''_'' \<or> char_at source patternIndex = char_at target targetIndex
        then like_loop source target (patternIndex + 1) (targetIndex + 1) wildcardIndex matchIndex
      else (case wildcardIndex of
          Some w \<Rightarrow> like_loop source target (w + 1) (matchIndex + 1) wildcardIndex (matchIndex + 1)
        | None \<Rightarrow> Some None))"

declare like_loop.simps [code]

function skip_wildcards :: "string \<Rightarrow> nat \<Rightarrow> nat" where
  "skip_wildcards source patternIndex =
     (if char_at source patternIndex = Some CHR ''%'' then skip_wildcards source (patternIndex + 1) else patternIndex)"
  by pat_completeness auto
termination
  by (relation "measure (\<lambda>(source, patternIndex). length source - patternIndex)") (auto simp: char_at_def split: if_splits)

declare skip_wildcards.simps [simp del]

definition like_matches :: "string \<Rightarrow> string \<Rightarrow> bool \<Rightarrow> bool option" where
  "like_matches pattern candidate caseInsensitive =
     (let source = (if caseInsensitive then js_lower pattern else pattern);
          target = (if caseInsensitive then js_lower candidate else candidate)
      in map_option (\<lambda>r. case r of None \<Rightarrow> False | Some i \<Rightarrow> skip_wildcards source i = length source)
           (like_loop source target 0 0 None 0))"

section \<open>The reading of a pattern\<close>

fun like_spec :: "string \<Rightarrow> string \<Rightarrow> bool" where
  "like_spec [] t = (t = [])"
| "like_spec (c # p) t =
     (if c = CHR ''%'' then \<exists>k \<le> length t. like_spec p (drop k t)
      else case t of [] \<Rightarrow> False | d # t' \<Rightarrow> (c = CHR ''_'' \<or> c = d) \<and> like_spec p t')"

definition literal :: "string \<Rightarrow> string \<Rightarrow> bool" where
  "literal seg t = (length seg \<le> length t \<and> (\<forall>i < length seg. seg ! i \<noteq> CHR ''%'' \<and> (seg ! i = CHR ''_'' \<or> seg ! i = t ! i)))"

lemma literal_Nil [simp]: "literal [] t"
  by (simp add: literal_def)

lemma literal_Cons: "literal (c # seg) t \<longleftrightarrow>
    c \<noteq> CHR ''%'' \<and> (\<exists>d t'. t = d # t' \<and> (c = CHR ''_'' \<or> c = d) \<and> literal seg t')"
  by (cases t) (auto simp: literal_def nth_Cons less_Suc_eq_0_disj)

lemma literal_snoc: "literal (seg @ [c]) t \<longleftrightarrow>
    literal seg t \<and> length seg < length t \<and> c \<noteq> CHR ''%'' \<and> (c = CHR ''_'' \<or> c = t ! length seg)"
  unfolding literal_def by (auto simp: nth_append less_Suc_eq)

text \<open>A segment without wildcards matches character by character.\<close>

lemma like_segment:
  "CHR ''%'' \<notin> set seg \<Longrightarrow> like_spec (seg @ p) t \<longleftrightarrow> literal seg t \<and> like_spec p (drop (length seg) t)"
proof (induction seg arbitrary: t)
  case (Cons c seg)
  then show ?case by (cases t) (auto simp: literal_Cons)
qed simp

lemma like_all_wild: "like_spec p [] \<longleftrightarrow> (\<forall>c \<in> set p. c = CHR ''%'')"
  by (induction p) auto

lemma like_wild_step:
  "like_spec (CHR ''%'' # p) t \<longleftrightarrow> like_spec p t \<or> (t \<noteq> [] \<and> like_spec (CHR ''%'' # p) (tl t))"
proof (cases t)
  case (Cons d t')
  have "(\<exists>k \<le> length t. like_spec p (drop k t)) \<longleftrightarrow> like_spec p t \<or> (\<exists>k \<le> length t'. like_spec p (drop k t'))"
    unfolding Cons by (metis (no_types, lifting) Suc_le_mono drop0 drop_Suc_Cons length_Cons less_eq_nat.simps(1) not0_implies_Suc)
  then show ?thesis using Cons by simp
qed (simp add: like_all_wild)

lemma like_wild_shrink: "like_spec (CHR ''%'' # p) (drop k t) \<Longrightarrow> like_spec (CHR ''%'' # p) t"
proof -
  assume "like_spec (CHR ''%'' # p) (drop k t)"
  then obtain j where "like_spec p (drop (j + k) t)" by auto
  moreover have "drop (j + k) t = drop (min (j + k) (length t)) t" by (simp add: min_def)
  ultimately show ?thesis by (auto intro!: exI [of _ "min (j + k) (length t)"])
qed

text \<open>Once a segment has matched after a wildcard, the first match decides when another wildcard follows.\<close>

lemma like_first_match:
  assumes "literal seg t" and "CHR ''%'' \<notin> set seg"
  shows "like_spec (CHR ''%'' # seg @ CHR ''%'' # p) t \<longleftrightarrow> like_spec (CHR ''%'' # p) (drop (length seg) t)"
proof
  assume "like_spec (CHR ''%'' # seg @ CHR ''%'' # p) t"
  then obtain k where "like_spec (CHR ''%'' # p) (drop (length seg) (drop k t))"
    using like_segment [OF assms(2), of "CHR ''%'' # p"] by auto
  then have "like_spec (CHR ''%'' # p) (drop k (drop (length seg) t))" by (simp add: add.commute)
  then show "like_spec (CHR ''%'' # p) (drop (length seg) t)" by (rule like_wild_shrink)
next
  assume "like_spec (CHR ''%'' # p) (drop (length seg) t)"
  then have "like_spec (seg @ CHR ''%'' # p) t" using like_segment [OF assms(2)] assms(1) by blast
  then show "like_spec (CHR ''%'' # seg @ CHR ''%'' # p) t"
    by (subst like_wild_step) simp
qed

section \<open>The loop decides it\<close>

text \<open>
  The state of the loop: without a wildcard the consumed pattern matched the consumed target;
  with one, the pattern after it matched the target from \<open>matchIndex\<close>.
\<close>

definition like_inv :: "string \<Rightarrow> string \<Rightarrow> nat \<Rightarrow> nat \<Rightarrow> nat option \<Rightarrow> nat \<Rightarrow> bool" where
  "like_inv source target px ti wild mi = (px \<le> length source \<and> ti \<le> length target \<and>
     (case wild of
        None \<Rightarrow> (like_spec source target \<longleftrightarrow> like_spec (drop px source) (drop ti target))
      | Some w \<Rightarrow> w < px \<and> source ! w = CHR ''%'' \<and> mi \<le> ti \<and> ti - mi = px - (w + 1) \<and>
          CHR ''%'' \<notin> set (take (px - (w + 1)) (drop (w + 1) source)) \<and>
          literal (take (px - (w + 1)) (drop (w + 1) source)) (drop mi target) \<and>
          (like_spec source target \<longleftrightarrow> like_spec (drop w source) (drop mi target))))"

lemma skip_wildcards_end: "px \<le> length source \<Longrightarrow> skip_wildcards source px = length source \<longleftrightarrow> (\<forall>c \<in> set (drop px source). c = CHR ''%'')"
proof (induction source px rule: skip_wildcards.induct)
  case (1 source px)
  show ?case
  proof (cases "px < length source")
    case True
    then have d: "drop px source = source ! px # drop (px + 1) source" by (simp add: Cons_nth_drop_Suc)
    show ?thesis
    proof (cases "source ! px = CHR ''%''")
      case wild: True
      then have "skip_wildcards source (px + 1) = length source \<longleftrightarrow> (\<forall>c \<in> set (drop (px + 1) source). c = CHR ''%'')"
        using 1 True by (simp add: char_at_def)
      then show ?thesis using wild True d by (subst skip_wildcards.simps) (simp add: char_at_def)
    next
      case False
      then show ?thesis using True d by (subst skip_wildcards.simps) (simp add: char_at_def)
    qed
  next
    case False
    then show ?thesis using 1(2) by (subst skip_wildcards.simps) (simp add: char_at_def)
  qed
qed

lemma drop_step: "i < length s \<Longrightarrow> drop i s = s ! i # drop (i + 1) s"
  by (simp add: Cons_nth_drop_Suc)

lemma like_parts:
  assumes "w < px" "px \<le> length source" "source ! w = CHR ''%''"
  shows "drop w source = CHR ''%'' # take (px - (w + 1)) (drop (w + 1) source) @ drop px source"
proof -
  have "drop w source = source ! w # drop (w + 1) source" using assms drop_step [of w source] by simp
  moreover have "drop (w + 1) source = take (px - (w + 1)) (drop (w + 1) source) @ drop (px - (w + 1)) (drop (w + 1) source)"
    by (rule append_take_drop_id [symmetric])
  moreover have "drop (px - (w + 1)) (drop (w + 1) source) = drop px source" using assms by simp
  ultimately show ?thesis using assms(3) by metis
qed

lemma like_done:
  assumes "like_inv source target px ti wild mi" and "length target \<le> ti"
  shows "skip_wildcards source px = length source \<longleftrightarrow> like_spec source target"
proof -
  from assms have px: "px \<le> length source" and ti: "ti = length target" by (auto simp: like_inv_def)
  have rest: "skip_wildcards source px = length source \<longleftrightarrow> like_spec (drop px source) []"
    using skip_wildcards_end [OF px] like_all_wild by blast
  show ?thesis
  proof (cases wild)
    case None
    with assms ti rest show ?thesis by (simp add: like_inv_def)
  next
    case (Some w)
    let ?seg = "take (px - (w + 1)) (drop (w + 1) source)" and ?t = "drop mi target"
    from assms(1) Some have w: "w < px" "source ! w = CHR ''%''" "CHR ''%'' \<notin> set ?seg" "literal ?seg ?t"
      "like_spec source target \<longleftrightarrow> like_spec (drop w source) ?t" "ti - mi = px - (w + 1)"
      by (auto simp: like_inv_def)
    have len: "length ?seg = length ?t" using w(1,6) px ti by simp
    have "like_spec (CHR ''%'' # ?seg @ drop px source) ?t \<longleftrightarrow> (\<exists>k \<le> length ?t. like_spec (?seg @ drop px source) (drop k ?t))"
      by simp
    also have "\<dots> \<longleftrightarrow> (\<exists>k \<le> length ?t. literal ?seg (drop k ?t) \<and> like_spec (drop px source) (drop (length ?seg) (drop k ?t)))"
      unfolding like_segment [OF w(3)] ..
    also have "\<dots> \<longleftrightarrow> like_spec (drop px source) []"
    proof
      assume "\<exists>k \<le> length ?t. literal ?seg (drop k ?t) \<and> like_spec (drop px source) (drop (length ?seg) (drop k ?t))"
      then obtain k where k: "k \<le> length ?t" "literal ?seg (drop k ?t)" "like_spec (drop px source) (drop (length ?seg) (drop k ?t))" by blast
      from k(3) len show "like_spec (drop px source) []" by simp
    next
      assume "like_spec (drop px source) []"
      then show "\<exists>k \<le> length ?t. literal ?seg (drop k ?t) \<and> like_spec (drop px source) (drop (length ?seg) (drop k ?t))"
        using w(4) len by (intro exI [of _ 0]) simp
    qed
    finally show ?thesis using rest w(5) like_parts [OF w(1) px w(2)] by simp
  qed
qed


lemma char_at_bounds: "char_at s i = Some c \<longleftrightarrow> i < length s \<and> s ! i = c" "char_at s i = None \<longleftrightarrow> length s \<le> i"
  by (auto simp: char_at_def)

text \<open>A wildcard in the pattern: what was matched so far is settled.\<close>

lemma like_wild_inv:
  assumes "like_inv source target px ti wild mi" and "px < length source" "source ! px = CHR ''%''"
  shows "like_inv source target (px + 1) ti (Some px) ti"
proof -
  from assms(1) have b: "px \<le> length source" "ti \<le> length target" by (simp_all add: like_inv_def)
  have "like_spec source target \<longleftrightarrow> like_spec (drop px source) (drop ti target)"
  proof (cases wild)
    case None
    with assms(1) show ?thesis by (simp add: like_inv_def)
  next
    case (Some w)
    let ?seg = "take (px - (w + 1)) (drop (w + 1) source)" and ?t = "drop mi target"
    from assms(1) Some have w: "w < px" "source ! w = CHR ''%''" "CHR ''%'' \<notin> set ?seg" "literal ?seg ?t"
      "like_spec source target \<longleftrightarrow> like_spec (drop w source) ?t" "ti - mi = px - (w + 1)" "mi \<le> ti"
      by (auto simp: like_inv_def)
    have d: "drop px source = CHR ''%'' # drop (px + 1) source" using assms(3) drop_step [OF assms(2)] by simp
    have "length ?seg = px - (w + 1)" using w(1) assms(2) by simp
    moreover have "(px - (w + 1)) + mi = ti" using w(6,7) by linarith
    ultimately have "drop (length ?seg) ?t = drop ti target" by simp
    then show ?thesis
      unfolding w(5) like_parts [OF w(1) b(1) w(2)] d like_first_match [OF w(4,3)] by simp
  qed
  with assms(2,3) b show ?thesis by (simp add: like_inv_def)
qed

text \<open>A character that matches: the segment grows.\<close>

lemma like_char_inv:
  assumes "like_inv source target px ti wild mi" and "px < length source" "ti < length target"
    and "source ! px \<noteq> CHR ''%''" and "source ! px = CHR ''_'' \<or> source ! px = target ! ti"
  shows "like_inv source target (px + 1) (ti + 1) wild mi"
proof (cases wild)
  case None
  have "drop px source = source ! px # drop (px + 1) source" "drop ti target = target ! ti # drop (ti + 1) target"
    using assms(2,3) by (simp_all add: Cons_nth_drop_Suc)
  with assms None show ?thesis by (auto simp: like_inv_def)
next
  case (Some w)
  let ?n = "px - (w + 1)"
  from assms(1) Some have w: "w < px" "CHR ''%'' \<notin> set (take ?n (drop (w + 1) source))"
      "literal (take ?n (drop (w + 1) source)) (drop mi target)" "ti - mi = ?n" "mi \<le> ti"
    by (auto simp: like_inv_def)
  have seg: "take (px + 1 - (w + 1)) (drop (w + 1) source) = take ?n (drop (w + 1) source) @ [source ! px]"
  proof -
    have "px + 1 - (w + 1) = Suc ?n" using w(1) by simp
    moreover have "?n < length (drop (w + 1) source)" "drop (w + 1) source ! ?n = source ! px" using w(1) assms(2) by simp_all
    ultimately show ?thesis by (simp only: take_Suc_conv_app_nth)
  qed
  have len: "length (take ?n (drop (w + 1) source)) = ?n" using w(1) assms(2) by simp
  have "mi + ?n = ti" using w(4,5) by linarith
  then have "drop mi target ! ?n = target ! ti" "?n < length (drop mi target)" using w(5) assms(3) by simp_all
  then have "literal (take ?n (drop (w + 1) source) @ [source ! px]) (drop mi target)"
    using w(3) assms(4,5) len by (simp add: literal_snoc)
  with assms Some w seg show ?thesis unfolding like_inv_def by auto
qed

text \<open>A mismatch after a wildcard: the segment does not match here, the wildcard takes one more character.\<close>

lemma like_back_inv:
  assumes "like_inv source target px ti (Some w) mi" and "ti < length target"
    and no: "\<not> (px < length source \<and> source ! px = CHR ''%'')"
      "\<not> (px < length source \<and> (source ! px = CHR ''_'' \<or> source ! px = target ! ti))"
  shows "like_inv source target (w + 1) (mi + 1) (Some w) (mi + 1)"
proof -
  let ?n = "px - (w + 1)"
  let ?seg = "take ?n (drop (w + 1) source)" and ?t = "drop mi target"
  from assms(1) have w: "w < px" "source ! w = CHR ''%''" "CHR ''%'' \<notin> set ?seg" "literal ?seg ?t"
    "like_spec source target \<longleftrightarrow> like_spec (drop w source) ?t" "ti - mi = ?n" "mi \<le> ti" "px \<le> length source"
    by (auto simp: like_inv_def)
  have t: "?t = target ! mi # drop (mi + 1) target" using w(7) assms(2) by (simp add: Cons_nth_drop_Suc)
  have "length ?seg = ?n" using w(1,8) by simp
  moreover have "?n + mi = ti" using w(6,7) by linarith
  ultimately have ti: "drop (length ?seg) ?t = target ! ti # drop (ti + 1) target"
    using drop_step [OF assms(2)] by simp
  have "\<not> like_spec (drop px source) (target ! ti # drop (ti + 1) target)"
  proof (cases "px < length source")
    case True
    then have "drop px source = source ! px # drop (px + 1) source" by (simp add: Cons_nth_drop_Suc)
    with no True show ?thesis by simp
  next
    case False
    then show ?thesis by simp
  qed
  then have "\<not> like_spec (?seg @ drop px source) ?t" unfolding like_segment [OF w(3)] ti by simp
  then have "like_spec (drop w source) ?t \<longleftrightarrow> like_spec (drop w source) (drop (mi + 1) target)"
    unfolding like_parts [OF w(1,8,2)] like_wild_step [of _ ?t] using t by simp
  with w assms(2) show ?thesis by (simp add: like_inv_def)
qed

lemma like_stuck:
  assumes "like_inv source target px ti None mi" and "ti < length target"
    and no: "\<not> (px < length source \<and> source ! px = CHR ''%'')"
      "\<not> (px < length source \<and> (source ! px = CHR ''_'' \<or> source ! px = target ! ti))"
  shows "\<not> like_spec source target"
proof (cases "px < length source")
  case True
  have "drop px source = source ! px # drop (px + 1) source" "drop ti target = target ! ti # drop (ti + 1) target"
    using True assms(2) by (simp_all add: Cons_nth_drop_Suc)
  with assms True show ?thesis by (simp add: like_inv_def)
next
  case False
  with assms show ?thesis by (simp add: like_inv_def)
qed

text \<open>
  The loop ends: the wildcard moves right, or stays while \<open>matchIndex\<close> moves right, or both
  stay while the pattern index does.
\<close>

definition like_measure :: "string \<Rightarrow> string \<Rightarrow> nat \<Rightarrow> nat option \<Rightarrow> nat \<Rightarrow> nat \<times> nat \<times> nat" where
  "like_measure source target px wild mi =
     (case wild of None \<Rightarrow> Suc (length source) | Some w \<Rightarrow> length source - w, length target - mi, length source - px)"

lemma like_loop_decides:
  "like_inv source target px ti wild mi \<Longrightarrow>
   \<exists>r. like_loop source target px ti wild mi = Some r \<and>
     (case r of None \<Rightarrow> False | Some i \<Rightarrow> skip_wildcards source i = length source) = like_spec source target"
proof (induction "like_measure source target px wild mi" arbitrary: px ti wild mi
    rule: wf_induct_rule [OF wf_lex_prod [OF wf_less_than wf_lex_prod [OF wf_less_than wf_less_than]]])
  case (1 px wild mi ti)
  note IH = 1(1) and inv = 1(2)
  have b: "px \<le> length source" "ti \<le> length target" using inv by (simp_all add: like_inv_def)
  show ?case
  proof (cases "length target \<le> ti")
    case True
    then show ?thesis using like_done [OF inv True] by (subst like_loop.simps) simp
  next
    case more: False
    then have ti: "ti < length target" "char_at target ti = Some (target ! ti)" by (simp_all add: char_at_def)
    show ?thesis
    proof (cases "char_at source px = Some CHR ''%''")
      case True
      then have px: "px < length source" "source ! px = CHR ''%''" by (simp_all add: char_at_bounds)
      have "(like_measure source target (px + 1) (Some px) ti, like_measure source target px wild mi)
          \<in> less_than <*lex*> less_than <*lex*> less_than"
        using inv px by (auto simp: like_measure_def like_inv_def split: option.splits)
      from IH [OF _ like_wild_inv [OF inv px]] this show ?thesis
        using True more by (subst like_loop.simps) simp
    next
      case nowild: False
      show ?thesis
      proof (cases "char_at source px = Some CHR ''_'' \<or> char_at source px = char_at target ti")
        case True
        then have px: "px < length source" "source ! px \<noteq> CHR ''%''" "source ! px = CHR ''_'' \<or> source ! px = target ! ti"
          using nowild ti by (auto simp: char_at_bounds)
        have "(like_measure source target (px + 1) wild mi, like_measure source target px wild mi)
            \<in> less_than <*lex*> less_than <*lex*> less_than"
          using px by (auto simp: like_measure_def)
        from IH [OF _ like_char_inv [OF inv px(1) ti(1) px(2,3)]] this show ?thesis
          using True nowild more by (subst like_loop.simps) simp
      next
        case mismatch: False
        then have no: "\<not> (px < length source \<and> source ! px = CHR ''%'')"
            "\<not> (px < length source \<and> (source ! px = CHR ''_'' \<or> source ! px = target ! ti))"
          using nowild ti by (auto simp: char_at_bounds)
        show ?thesis
        proof (cases wild)
          case None
          then show ?thesis using like_stuck [OF inv [unfolded None] ti(1) no] nowild mismatch more
            by (subst like_loop.simps) simp
        next
          case (Some w)
          have "mi < length target" using inv Some ti by (simp add: like_inv_def)
          then have "(like_measure source target (w + 1) (Some w) (mi + 1), like_measure source target px wild mi)
              \<in> less_than <*lex*> less_than <*lex*> less_than"
            using Some by (auto simp: like_measure_def)
          from IH [OF _ like_back_inv [OF inv [unfolded Some] ti(1) no]] this show ?thesis
            using Some nowild mismatch more by (subst like_loop.simps) simp
        qed
      qed
    qed
  qed
qed

lemma like_matches_decides:
  "like_matches pattern candidate ci = Some (like_spec (if ci then js_lower pattern else pattern) (if ci then js_lower candidate else candidate))"
proof -
  have "like_inv s t 0 0 None 0" for s t by (simp add: like_inv_def)
  from like_loop_decides [OF this] show ?thesis by (auto simp: like_matches_def Let_def)
qed

end
