(* ===== verification/DfqlFilters.thy ===== *)
theory DfqlFilters
  imports LikePattern
begin

text \<open>
  The filters of the query language, \<open>datafn/core/src/filters.ts\<close>: the operators on one field,
  the recursive evaluation of a filter against a record, and the normalisation of operator
  names. A thrown error is \<open>Inl\<close>. Records and filters are data: \<open>record[key]\<close> reads own
  properties only.
\<close>

section \<open>Dynamic values\<close>

datatype dfql_error = DfqlError string string | JsTypeError

text \<open>The operators \<open><\<close> and \<open>\<le>\<close> of ECMAScript: strings by code unit, anything else as numbers.\<close>

definition js_primitive :: "(rat \<Rightarrow> string) \<Rightarrow> jsval \<Rightarrow> jsval" where
  "js_primitive dtoa v = (case v of JArr _ \<Rightarrow> JStr (js_string dtoa v) | JObj _ \<Rightarrow> JStr (js_string dtoa v) | _ \<Rightarrow> v)"

definition js_lt :: "(rat \<Rightarrow> string) \<Rightarrow> jsval \<Rightarrow> jsval \<Rightarrow> bool" where
  "js_lt dtoa a b =
     (case (js_primitive dtoa a, js_primitive dtoa b) of
        (JStr s, JStr t) \<Rightarrow> s < t
      | (x, y) \<Rightarrow> js_number dtoa x < js_number dtoa y)"

definition js_le :: "(rat \<Rightarrow> string) \<Rightarrow> jsval \<Rightarrow> jsval \<Rightarrow> bool" where
  "js_le dtoa a b =
     (case (js_primitive dtoa a, js_primitive dtoa b) of
        (JStr s, JStr t) \<Rightarrow> s \<le> t
      | (x, y) \<Rightarrow> js_number dtoa x \<le> js_number dtoa y)"

definition index_entries :: "('a \<Rightarrow> jsval) \<Rightarrow> 'a list \<Rightarrow> (string \<times> jsval) list" where
  "index_entries f xs = map (\<lambda>i. (digits_of i, f (xs ! i))) [0..<length xs]"

text \<open>\<open>Object.entries\<close>: throws on null and undefined, lists the indices of strings and arrays.\<close>

definition object_entries :: "jsval \<Rightarrow> dfql_error + (string \<times> jsval) list" where
  "object_entries v =
     (case v of
        JUndef \<Rightarrow> Inl JsTypeError
      | JNull \<Rightarrow> Inl JsTypeError
      | JBool _ \<Rightarrow> Inr []
      | JNum _ \<Rightarrow> Inr []
      | JStr s \<Rightarrow> Inr (index_entries (\<lambda>c. JStr [c]) s)
      | JArr vs \<Rightarrow> Inr (index_entries id vs)
      | JObj r \<Rightarrow> Inr r)"

text \<open>The property of an object or array value.\<close>

definition js_member :: "jsval \<Rightarrow> string \<Rightarrow> jsval" where
  "js_member v part =
     (case v of
        JObj r \<Rightarrow> js_get r part
      | JArr vs \<Rightarrow>
          (if part = ''length'' then JNum (Fin (of_nat (length vs)))
           else js_get (index_entries id vs) part)
      | _ \<Rightarrow> JUndef)"

definition is_object_type :: "jsval \<Rightarrow> bool" where
  "is_object_type v = (case v of JArr _ \<Rightarrow> True | JObj _ \<Rightarrow> True | _ \<Rightarrow> False)"

section \<open>Loops with an early exit\<close>

text \<open>\<open>for (const x of xs) { if (!p(x)) return false }\<close> and \<open>some\<close>, for a test that may throw.\<close>

fun all_sum :: "('a \<Rightarrow> 'e + bool) \<Rightarrow> 'a list \<Rightarrow> 'e + bool" where
  "all_sum p [] = Inr True"
| "all_sum p (x # xs) = bind_sum (p x) (\<lambda>b. if b then all_sum p xs else Inr False)"

fun any_sum :: "('a \<Rightarrow> 'e + bool) \<Rightarrow> 'a list \<Rightarrow> 'e + bool" where
  "any_sum p [] = Inr False"
| "any_sum p (x # xs) = bind_sum (p x) (\<lambda>b. if b then Inr True else any_sum p xs)"

lemma all_sum_cong [fundef_cong]: "xs = ys \<Longrightarrow> (\<And>x. x \<in> set ys \<Longrightarrow> p x = q x) \<Longrightarrow> all_sum p xs = all_sum q ys"
  by (induction xs arbitrary: ys) (auto intro!: bind_sum_cong)

lemma any_sum_cong [fundef_cong]: "xs = ys \<Longrightarrow> (\<And>x. x \<in> set ys \<Longrightarrow> p x = q x) \<Longrightarrow> any_sum p xs = any_sum q ys"
  by (induction xs arbitrary: ys) (auto intro!: bind_sum_cong)

lemma all_sum_True: "all_sum p xs = Inr True \<longleftrightarrow> (\<forall>x \<in> set xs. p x = Inr True)"
  by (induction xs) (auto simp: bind_sum_Inr split: if_splits)

lemma any_sum_False: "any_sum p xs = Inr False \<longleftrightarrow> (\<forall>x \<in> set xs. p x = Inr False)"
  by (induction xs) (auto simp: bind_sum_Inr split: if_splits)

lemma all_sum_append: "all_sum p (xs @ ys) = bind_sum (all_sum p xs) (\<lambda>b. if b then all_sum p ys else Inr False)"
proof (induction xs)
  case (Cons x xs)
  then show ?case by (cases "p x") auto
qed simp

lemma all_sum_plain: "(\<And>x. x \<in> set xs \<Longrightarrow> p x = Inr (q x)) \<Longrightarrow> all_sum p xs = Inr (list_all q xs)"
  by (induction xs) auto

lemma any_sum_plain: "(\<And>x. x \<in> set xs \<Longrightarrow> p x = Inr (q x)) \<Longrightarrow> any_sum p xs = Inr (list_ex q xs)"
  by (induction xs) auto

section \<open>Safe keys\<close>

definition DISALLOWED_KEYS :: "string list" where
  "DISALLOWED_KEYS = [''__proto__'', ''constructor'', ''prototype'']"

definition dfql_error :: "string \<Rightarrow> string \<Rightarrow> dfql_error + 'a" where
  "dfql_error code message = Inl (DfqlError code message)"

definition assert_safe_key :: "string \<Rightarrow> string \<Rightarrow> dfql_error + unit" where
  "assert_safe_key key what =
     (if key \<in> set DISALLOWED_KEYS then dfql_error ''DFQL_INVALID'' (''Unsafe '' @ what @ '': '' @ key) else Inr ())"

section \<open>Operator names\<close>

definition OP_REMAP :: "(string, string) jmap" where
  "OP_REMAP = [
     (''eq'', ''$eq''), (''ne'', ''$ne''), (''gt'', ''$gt''), (''gte'', ''$gte''), (''lt'', ''$lt''), (''lte'', ''$lte''),
     (''in'', ''$in''), (''not_in'', ''$nin''),
     (''contains'', ''$contains''), (''startsWith'', ''$startsWith''), (''endsWith'', ''$endsWith''),
     (''like'', ''$like''), (''ilike'', ''$ilike''), (''not_like'', ''$not_like''), (''not_ilike'', ''$not_ilike''),
     (''is_null'', ''$is_null''), (''is_not_null'', ''$is_not_null''),
     (''is_empty'', ''$is_empty''), (''is_not_empty'', ''$is_not_empty''),
     (''before'', ''$before''), (''after'', ''$after''), (''between'', ''$between''), (''not_between'', ''$not_between'')]"

definition remap_op :: "string \<Rightarrow> string" where
  "remap_op oper = (case jmap_get OP_REMAP oper of Some mapped \<Rightarrow> mapped | None \<Rightarrow> oper)"

fun remap_ops :: "(string \<times> jsval) list \<Rightarrow> (string, jsval) jmap \<Rightarrow> dfql_error + (string, jsval) jmap" where
  "remap_ops [] normalized = Inr normalized"
| "remap_ops ((oper, opVal) # ops) normalized =
     (if opVal = JUndef then remap_ops ops normalized
      else bind_sum (assert_safe_key (remap_op oper) ''filter operator'') (\<lambda>_.
        remap_ops ops (jmap_set (remap_op oper) opVal normalized)))"

definition is_logical :: "string \<Rightarrow> bool" where
  "is_logical key = (key = ''$and'' \<or> key = ''$or'')"

text \<open>The nesting weight of a value: the recursion of the normalisation goes down in it.\<close>

fun weight :: "jsval \<Rightarrow> nat" where
  "weight (JArr vs) = Suc (sum_list (map weight vs))"
| "weight (JObj r) = Suc (sum_list (map (\<lambda>kv. weight (snd kv)) r))"
| "weight _ = 0"

lemma weight_elem: "v \<in> set vs \<Longrightarrow> weight v < weight (JArr vs)"
  by (simp add: member_le_sum_list less_Suc_eq_le)

lemma index_entries_value: "(k, v) \<in> set (index_entries f xs) \<Longrightarrow> v \<in> f ` set xs"
  by (auto simp: index_entries_def)

lemma weight_entry: "object_entries v = Inr es \<Longrightarrow> (k, w) \<in> set es \<Longrightarrow> weight w \<le> weight v"
proof (cases v)
  case (JObj r)
  assume "object_entries v = Inr es" "(k, w) \<in> set es"
  with JObj have "weight w \<in> set (map (\<lambda>kv. weight (snd kv)) r)" by (force simp: object_entries_def)
  with JObj show ?thesis by (simp add: member_le_sum_list le_SucI)
next
  case (JArr vs)
  assume "object_entries v = Inr es" "(k, w) \<in> set es"
  with JArr have "w \<in> set vs" by (auto simp: object_entries_def dest!: index_entries_value)
  with JArr show ?thesis using weight_elem less_imp_le by blast
qed (auto simp: object_entries_def dest!: index_entries_value)

text \<open>One entry of the filter: the property it adds to the output, if any.\<close>

function normalize_filter_ops :: "jsval \<Rightarrow> dfql_error + jsval"
  and normalize_entry :: "string \<Rightarrow> jsval \<Rightarrow> dfql_error + jsval option" where
  "normalize_filter_ops filters =
     bind_sum (object_entries filters) (\<lambda>entries.
       bind_sum (map_sum_list (\<lambda>(key, value).
           bind_sum (normalize_entry key value) (\<lambda>r. Inr (key, r))) entries)
         (\<lambda>rs. Inr (JObj (some_of (map (\<lambda>(key, r). map_option (\<lambda>v. (key, v)) r) rs)))))"
| "normalize_entry key value =
     (if value = JUndef then Inr None
      else bind_sum (assert_safe_key key ''filter key'') (\<lambda>_.
        case value of
          JArr vs \<Rightarrow> if is_logical key then bind_sum (map_sum_list normalize_filter_ops vs) (\<lambda>ws. Inr (Some (JArr ws)))
                     else Inr (Some value)
        | JObj ops \<Rightarrow> bind_sum (remap_ops ops []) (\<lambda>normalized.
            Inr (if normalized = [] then None else Some (JObj normalized)))
        | _ \<Rightarrow> Inr (Some value)))"
  by pat_completeness auto
termination
proof (relation "measure (\<lambda>x. case x of Inl v \<Rightarrow> Suc (2 * weight v) | Inr (_, v) \<Rightarrow> 2 * weight v)")
  show "wf (measure (\<lambda>x. case x of Inl v \<Rightarrow> Suc (2 * weight v) | Inr (_ :: string, v) \<Rightarrow> 2 * weight v))" by simp
next
  fix filters entries k w x xa y
  assume "object_entries filters = Inr entries" "x \<in> set entries" "(xa, y) = x"
  then have "weight y \<le> weight filters" using weight_entry by blast
  then show "(Inr (xa, y), Inl filters) \<in> measure (\<lambda>x. case x of Inl v \<Rightarrow> Suc (2 * weight v) | Inr (_ :: string, v) \<Rightarrow> 2 * weight v)"
    by simp
next
  fix key val a vs x
  assume "val = JArr vs" "x \<in> set vs"
  then have "weight x < weight val" using weight_elem by blast
  then show "(Inl x, Inr (key, val)) \<in> measure (\<lambda>x. case x of Inl v \<Rightarrow> Suc (2 * weight v) | Inr (_ :: string, v) \<Rightarrow> 2 * weight v)"
    by simp
qed

declare normalize_filter_ops.simps [simp del] normalize_entry.simps [simp del]

section \<open>Operators on one field\<close>

definition is_empty_value :: "jsval \<Rightarrow> bool" where
  "is_empty_value v = (js_nullish v \<or> v = JStr [] \<or> v = JArr [])"

definition like_test :: "string \<Rightarrow> string \<Rightarrow> bool \<Rightarrow> bool" where
  "like_test pattern candidate caseInsensitive = (like_matches pattern candidate caseInsensitive = Some True)"

text \<open>\<open>Inr True\<close>: the condition holds and the loop goes on to the next operator.\<close>

definition evaluate_operator :: "(rat \<Rightarrow> string) \<Rightarrow> jsval \<Rightarrow> string \<times> jsval \<Rightarrow> dfql_error + bool" where
  "evaluate_operator dtoa fieldValue oper_val =
     (let (oper, opVal) = oper_val
      in if oper = ''$eq'' then Inr (js_seq fieldValue opVal)
         else if oper = ''$ne'' then Inr (\<not> js_seq fieldValue opVal)
         else if oper = ''$gt'' then Inr (js_lt dtoa opVal fieldValue)
         else if oper = ''$gte'' then Inr (js_le dtoa opVal fieldValue)
         else if oper = ''$lt'' then Inr (js_lt dtoa fieldValue opVal)
         else if oper = ''$lte'' then Inr (js_le dtoa fieldValue opVal)
         else if oper = ''$in'' then
           (case opVal of JArr vs \<Rightarrow> Inr (js_array_includes vs fieldValue)
            | _ \<Rightarrow> dfql_error ''DFQL_INVALID'' ''$in requires array'')
         else if oper = ''$nin'' then
           (case opVal of JArr vs \<Rightarrow> Inr (\<not> js_array_includes vs fieldValue)
            | _ \<Rightarrow> dfql_error ''DFQL_INVALID'' ''$nin requires array'')
         else if oper = ''$contains'' then
           Inr (case fieldValue of
                  JStr s \<Rightarrow> str_includes s (js_string dtoa opVal)
                | JArr vs \<Rightarrow> js_array_includes vs opVal
                | _ \<Rightarrow> False)
         else if oper = ''$startsWith'' then
           Inr (case fieldValue of JStr s \<Rightarrow> starts_with s (js_string dtoa opVal) | _ \<Rightarrow> False)
         else if oper = ''$endsWith'' then
           Inr (case fieldValue of JStr s \<Rightarrow> ends_with s (js_string dtoa opVal) | _ \<Rightarrow> False)
         else if oper = ''$like'' then
           Inr (case (fieldValue, opVal) of (JStr s, JStr p) \<Rightarrow> like_test p s False | _ \<Rightarrow> False)
         else if oper = ''$ilike'' then
           Inr (case (fieldValue, opVal) of (JStr s, JStr p) \<Rightarrow> like_test p s True | _ \<Rightarrow> False)
         else if oper = ''$not_like'' then
           Inr (case opVal of JStr p \<Rightarrow> (case fieldValue of JStr s \<Rightarrow> \<not> like_test p s False | _ \<Rightarrow> True) | _ \<Rightarrow> False)
         else if oper = ''$not_ilike'' then
           Inr (case opVal of JStr p \<Rightarrow> (case fieldValue of JStr s \<Rightarrow> \<not> like_test p s True | _ \<Rightarrow> True) | _ \<Rightarrow> False)
         else if oper = ''$is_null'' then
           Inr (if opVal = JBool True \<and> \<not> js_nullish fieldValue then False
                else if opVal = JBool False \<and> js_nullish fieldValue then False else True)
         else if oper = ''$is_not_null'' then
           Inr (if opVal = JBool True \<and> js_nullish fieldValue then False
                else if opVal = JBool False \<and> \<not> js_nullish fieldValue then False else True)
         else if oper = ''$is_empty'' then
           Inr (if opVal = JBool True \<and> \<not> is_empty_value fieldValue then False
                else if opVal = JBool False \<and> is_empty_value fieldValue then False else True)
         else if oper = ''$is_not_empty'' then
           Inr (if opVal = JBool True \<and> is_empty_value fieldValue then False
                else if opVal = JBool False \<and> \<not> is_empty_value fieldValue then False else True)
         else if oper = ''$before'' then Inr (js_lt dtoa fieldValue opVal)
         else if oper = ''$after'' then Inr (js_lt dtoa opVal fieldValue)
         else if oper = ''$between'' then
           (case opVal of JArr [low, high] \<Rightarrow> Inr (js_le dtoa low fieldValue \<and> js_le dtoa fieldValue high)
            | _ \<Rightarrow> dfql_error ''DFQL_INVALID'' ''$between requires [low, high] array'')
         else if oper = ''$not_between'' then
           (case opVal of JArr [low, high] \<Rightarrow> Inr (js_lt dtoa fieldValue low \<or> js_lt dtoa high fieldValue)
            | _ \<Rightarrow> dfql_error ''DFQL_INVALID'' ''$not_between requires [low, high] array'')
         else dfql_error ''DFQL_UNSUPPORTED'' (''Unsupported DFQL operator: '' @ oper))"

definition evaluate_operators :: "(rat \<Rightarrow> string) \<Rightarrow> jsval \<Rightarrow> (string \<times> jsval) list \<Rightarrow> dfql_error + bool" where
  "evaluate_operators dtoa fieldValue ops = all_sum (evaluate_operator dtoa fieldValue) ops"

definition evaluate_field_value :: "(rat \<Rightarrow> string) \<Rightarrow> jsval \<Rightarrow> jsval \<Rightarrow> dfql_error + bool" where
  "evaluate_field_value dtoa fieldValue value =
     (case value of JObj ops \<Rightarrow> evaluate_operators dtoa fieldValue ops | _ \<Rightarrow> Inr (js_seq fieldValue value))"

section \<open>Filters on a record\<close>

fun resolve_path :: "jsval \<Rightarrow> string list \<Rightarrow> jsval" where
  "resolve_path current [] = current"
| "resolve_path current (part # parts) =
     (if is_object_type current then resolve_path (js_member current part) parts else JUndef)"

type_synonym relation_resolver = "string \<Rightarrow> jsval \<Rightarrow> string \<Rightarrow> jsrec list"

record filter_options =
  fo_resolve :: "relation_resolver option"
  fo_resource :: "string option"

definition MAX_FILTER_DEPTH :: nat where "MAX_FILTER_DEPTH = 10"

text \<open>A condition on one key; \<open>rec\<close> is the recursive evaluation one level down.\<close>

definition evaluate_condition ::
    "(rat \<Rightarrow> string) \<Rightarrow> filter_options option \<Rightarrow> (jsrec \<Rightarrow> jsval \<Rightarrow> dfql_error + bool) \<Rightarrow> jsrec
     \<Rightarrow> string \<times> jsval \<Rightarrow> dfql_error + bool" where
  "evaluate_condition dtoa opts evaluate r key_value =
     (let (key, value) = key_value
      in if key = ''$and'' then
           (case value of JArr subs \<Rightarrow> all_sum (evaluate r) subs
            | _ \<Rightarrow> dfql_error ''DFQL_INVALID'' ''$and must be array'')
         else if key = ''$or'' then
           (case value of JArr subs \<Rightarrow> any_sum (evaluate r) subs
            | _ \<Rightarrow> dfql_error ''DFQL_INVALID'' ''$or must be array'')
         else if str_includes key ''.'' then
           (let parts = js_split ''.'' key;
                firstSeg = hd parts
            in if \<not> js_nullish (js_get r firstSeg) then evaluate_field_value dtoa (resolve_path (JObj r) parts) value
               else case Option.bind opts fo_resolve of
                 None \<Rightarrow> Inr False
               | Some resolve \<Rightarrow>
                   (let resource = (case Option.bind opts fo_resource of Some s \<Rightarrow> s | None \<Rightarrow> []);
                        related = resolve resource (js_get r ''id'') firstSeg;
                        subPath = js_join ''.'' (tl parts)
                    in if related = [] then Inr False
                       else bind_sum (assert_safe_key subPath ''relation filter path'') (\<lambda>_.
                         any_sum (\<lambda>r'. evaluate r' (JObj [(subPath, value)])) related)))
         else evaluate_field_value dtoa (js_get r key) value)"

function evaluate_filter ::
    "(rat \<Rightarrow> string) \<Rightarrow> filter_options option \<Rightarrow> nat \<Rightarrow> jsrec \<Rightarrow> jsval \<Rightarrow> dfql_error + bool" where
  "evaluate_filter dtoa opts depth r filters =
     (if MAX_FILTER_DEPTH < depth
      then dfql_error ''DFQL_INVALID'' (''Filter nesting depth exceeds maximum of '' @ digits_of MAX_FILTER_DEPTH)
      else bind_sum (object_entries filters)
        (all_sum (evaluate_condition dtoa opts (\<lambda>r' f. evaluate_filter dtoa opts (depth + 1) r' f) r)))"
  by pat_completeness auto
termination
  by (relation "measure (\<lambda>(dtoa, opts, depth, r, f). Suc MAX_FILTER_DEPTH - depth)") auto

declare evaluate_filter.simps [simp del]

end
