(* ===== verification/FilterProperties.thy ===== *)
theory FilterProperties
  imports DfqlFilters
begin

text \<open>
  What filters mean: the connectives, the depth guard, the canonical form of operator names,
  the LIKE operators, and a departure on relation paths of two hops.
\<close>

section \<open>Facts about filters\<close>

lemma evaluate_filter_object:
  "depth \<le> MAX_FILTER_DEPTH \<Longrightarrow> evaluate_filter dtoa opts depth r (JObj kvs) =
     all_sum (evaluate_condition dtoa opts (\<lambda>r' f. evaluate_filter dtoa opts (depth + 1) r' f) r) kvs"
  by (subst evaluate_filter.simps) (simp add: object_entries_def)

lemma evaluate_filter_deep:
  "MAX_FILTER_DEPTH < depth \<Longrightarrow> \<exists>message. evaluate_filter dtoa opts depth r filters = Inl (DfqlError ''DFQL_INVALID'' message)"
  by (subst evaluate_filter.simps) (simp add: dfql_error_def)

lemma any_sum_True: "any_sum p xs = Inr True \<longleftrightarrow>
    (\<exists>us x vs. xs = us @ x # vs \<and> list_all (\<lambda>u. p u = Inr False) us \<and> p x = Inr True)"
  (is "_ \<longleftrightarrow> ?found xs")
proof (induction xs)
  case (Cons y xs)
  have "?found (y # xs)" if "any_sum p (y # xs) = Inr True"
  proof (cases "p y = Inr False")
    case True
    with that Cons obtain us x vs where "xs = us @ x # vs" "list_all (\<lambda>u. p u = Inr False) us" "p x = Inr True" by auto
    with True show ?thesis by (intro exI [of _ "y # us"] exI [of _ x] exI [of _ vs]) simp
  next
    case False
    with that have "p y = Inr True" by (auto simp: bind_sum_Inr split: if_splits)
    then show ?thesis by (intro exI [of _ "[]"] exI [of _ y] exI [of _ xs]) simp
  qed
  moreover have "any_sum p (us @ x # vs) = Inr True" if "list_all (\<lambda>u. p u = Inr False) us" "p x = Inr True" for us x vs
    using that by (induction us) auto
  ultimately show ?case by metis
qed simp

lemma all_sum_single [simp]: "all_sum p [x] = p x"
  by (cases "p x") auto

lemma condition_connective:
  "evaluate_condition dtoa opts ev r (''$and'', JArr fs) = all_sum (ev r) fs"
  "evaluate_condition dtoa opts ev r (''$or'', JArr fs) = any_sum (ev r) fs"
  by (simp_all add: evaluate_condition_def)

section \<open>Normal filters\<close>

lemma remap_idem [simp]: "remap_op (remap_op oper) = remap_op oper"
proof -
  have "list_all (\<lambda>p. jmap_get OP_REMAP (snd p) = None) OP_REMAP" by code_simp
  then have "jmap_get OP_REMAP k = Some v \<Longrightarrow> jmap_get OP_REMAP v = None" for k v
    by (auto simp: list_all_iff dest!: map_of_SomeD)
  then show ?thesis by (auto simp: remap_op_def split: option.split)
qed

definition normal_ops :: "(string \<times> jsval) list \<Rightarrow> bool" where
  "normal_ops ops = (jmap_ok ops \<and>
     list_all (\<lambda>(oper, opVal). opVal \<noteq> JUndef \<and> remap_op oper = oper \<and> oper \<notin> set DISALLOWED_KEYS) ops)"

lemma remap_ops_normal:
  "normal_ops ops \<Longrightarrow> jmap_ok (acc @ ops) \<Longrightarrow> remap_ops ops acc = Inr (acc @ ops)"
proof (induction ops arbitrary: acc)
  case (Cons kv ops)
  obtain k v where kv: "kv = (k, v)" by (cases kv)
  have "\<not> jmap_has acc k" using Cons.prems(2) kv by (auto simp: map_of_eq_None_iff)
  then have "jmap_set k v acc = acc @ [(k, v)]" by (rule jmap_set_absent)
  moreover have "normal_ops ops" using Cons.prems(1) by (auto simp: normal_ops_def)
  ultimately show ?case using Cons.prems kv Cons.IH [of "acc @ [(k, v)]"]
    by (auto simp: normal_ops_def assert_safe_key_def)
qed simp

lemma normal_ops_set:
  assumes "normal_ops m" and "v \<noteq> JUndef" and "remap_op k = k" and "k \<notin> set DISALLOWED_KEYS"
  shows "normal_ops (jmap_set k v m)"
  using assms jmap_set_set [of m k v] by (auto simp: normal_ops_def list_all_iff)

lemma remap_ops_result: "remap_ops ops acc = Inr r \<Longrightarrow> normal_ops acc \<Longrightarrow> normal_ops r"
proof (induction ops acc rule: remap_ops.induct)
  case (2 oper opVal ops acc)
  then show ?case
    by (auto simp: bind_sum_Inr assert_safe_key_def dfql_error_def normal_ops_set split: if_splits)
qed simp

text \<open>What normalisation leaves: safe keys, present values, canonical operators, nested filters normal.\<close>

function normal_filter :: "jsval \<Rightarrow> bool" and normal_entry :: "string \<Rightarrow> jsval \<Rightarrow> bool" where
  "normal_filter filters = (case filters of JObj kvs \<Rightarrow> \<forall>kv \<in> set kvs. normal_entry (fst kv) (snd kv) | _ \<Rightarrow> False)"
| "normal_entry key v =
     (v \<noteq> JUndef \<and> key \<notin> set DISALLOWED_KEYS \<and>
      (case v of
         JArr vs \<Rightarrow> is_logical key \<longrightarrow> (\<forall>f \<in> set vs. normal_filter f)
       | JObj ops \<Rightarrow> ops \<noteq> [] \<and> normal_ops ops
       | _ \<Rightarrow> True))"
  by pat_completeness auto
termination
proof (relation "measure (\<lambda>x. case x of Inl v \<Rightarrow> Suc (2 * weight v) | Inr (_, v) \<Rightarrow> 2 * weight v)")
  show "wf (measure (\<lambda>x. case x of Inl v \<Rightarrow> Suc (2 * weight v) | Inr (_ :: string, v) \<Rightarrow> 2 * weight v))" by simp
next
  fix filters :: jsval and kvs kv
  assume "filters = JObj kvs" "kv \<in> set kvs"
  then have "weight (snd kv) \<le> weight filters" using weight_entry [of filters kvs "fst kv" "snd kv"] by (simp add: object_entries_def)
  then show "(Inr (fst kv, snd kv), Inl filters) \<in> measure (\<lambda>x. case x of Inl v \<Rightarrow> Suc (2 * weight v) | Inr (_ :: string, v) \<Rightarrow> 2 * weight v)"
    by (cases kv) simp
next
  fix key v vs f
  assume "v = JArr vs" "f \<in> set vs"
  then have "weight f < weight v" using weight_elem by blast
  then show "(Inl f, Inr (key, v)) \<in> measure (\<lambda>x. case x of Inl v \<Rightarrow> Suc (2 * weight v) | Inr (_ :: string, v) \<Rightarrow> 2 * weight v)"
    by simp
qed

declare normal_filter.simps [simp del] normal_entry.simps [simp del]

lemma normalize_normal:
  "normal_filter filters \<Longrightarrow> normalize_filter_ops filters = Inr filters"
  "normal_entry key v \<Longrightarrow> normalize_entry key v = Inr (Some v)"
proof (induction filters and key v rule: normal_filter_normal_entry.induct)
  case (1 filters)
  then obtain kvs where kvs: "filters = JObj kvs" "\<forall>kv \<in> set kvs. normal_entry (fst kv) (snd kv)"
    by (cases filters) (auto simp: normal_filter.simps)
  with 1 have "normalize_entry (fst kv) (snd kv) = Inr (Some (snd kv))" if "kv \<in> set kvs" for kv using that by blast
  then have "map_sum_list (\<lambda>(key, value). bind_sum (normalize_entry key value) (\<lambda>r. Inr (key, r))) kvs
      = Inr (map (\<lambda>kv. (fst kv, Some (snd kv))) kvs)"
    by (intro map_sum_list_Inr_map) (auto split: prod.split)
  moreover have "some_of (map ((\<lambda>(key, r). map_option (\<lambda>v. (key, v)) r) \<circ> (\<lambda>kv. (fst kv, Some (snd kv)))) kvs) = kvs"
    by (induction kvs) auto
  ultimately show ?case using kvs(1) by (simp add: normalize_filter_ops.simps object_entries_def)
next
  case (2 key v)
  note n = 2(2) [unfolded normal_entry.simps [of key v]]
  have safe: "assert_safe_key key what = Inr ()" for what using n by (simp add: assert_safe_key_def)
  show ?case
  proof (cases v)
    case (JArr vs)
    show ?thesis
    proof (cases "is_logical key")
      case True
      with n JArr have "normalize_filter_ops f = Inr f" if "f \<in> set vs" for f using 2(1) [OF JArr True that] that by simp
      then have "map_sum_list normalize_filter_ops vs = Inr (map id vs)" by (intro map_sum_list_Inr_map) simp
      with JArr True safe show ?thesis by (simp add: normalize_entry.simps)
    qed (simp add: normalize_entry.simps JArr safe)
  next
    case (JObj ops)
    with n have "normal_ops ops" "ops \<noteq> []" by simp_all
    then have "remap_ops ops [] = Inr ops" using remap_ops_normal [of ops "[]"] by (simp add: normal_ops_def)
    with JObj safe \<open>ops \<noteq> []\<close> show ?thesis by (simp add: normalize_entry.simps)
  qed (use n safe in \<open>simp_all add: normalize_entry.simps\<close>)
qed

lemma map_sum_list_elem: "map_sum_list f xs = Inr ys \<Longrightarrow> y \<in> set ys \<Longrightarrow> \<exists>x \<in> set xs. f x = Inr y"
  by (induction xs arbitrary: ys) (auto simp: bind_sum_Inr)

lemma normalize_result:
  "normalize_filter_ops filters = Inr g \<Longrightarrow> normal_filter g"
  "normalize_entry key v = Inr (Some w) \<Longrightarrow> normal_entry key w"
proof (induction filters and key v arbitrary: g and w rule: normalize_filter_ops_normalize_entry.induct)
  case (1 filters)
  then obtain entries rs where e: "object_entries filters = Inr entries"
      "map_sum_list (\<lambda>(key, value). bind_sum (normalize_entry key value) (\<lambda>r. Inr (key, r))) entries = Inr rs"
      "g = JObj (some_of (map (\<lambda>(key, r). map_option (\<lambda>v. (key, v)) r) rs))"
    by (auto simp: normalize_filter_ops.simps [of filters] bind_sum_Inr)
  have "normal_entry k w" if "(k, w) \<in> set (some_of (map (\<lambda>(key, r). map_option (\<lambda>v. (key, v)) r) rs))" for k w
  proof -
    from that have "(k, Some w) \<in> set rs"
      by (auto simp: set_some_of map_option_eq_Some eq_commute [of "Some (k, w)"])
    from map_sum_list_elem [OF e(2) this] obtain v where "(k, v) \<in> set entries" "normalize_entry k v = Inr (Some w)"
      by (auto simp: bind_sum_Inr)
    with 1(1) [OF e(1)] show ?thesis by blast
  qed
  then show ?case unfolding e(3) by (auto simp: normal_filter.simps)
next
  case (2 key v)
  from 2(2) have v: "v \<noteq> JUndef" "assert_safe_key key ''filter key'' = Inr ()"
    by (auto simp: normalize_entry.simps [of key] bind_sum_Inr split: if_splits)
  then have k: "key \<notin> set DISALLOWED_KEYS" by (auto simp: assert_safe_key_def dfql_error_def split: if_splits)
  show ?case
  proof (cases v)
    case (JArr vs)
    show ?thesis
    proof (cases "is_logical key")
      case True
      with 2(2) v JArr obtain ws where ws: "map_sum_list normalize_filter_ops vs = Inr ws" "w = JArr ws"
        by (auto simp: normalize_entry.simps [of key] bind_sum_Inr)
      have "normal_filter f" if "f \<in> set ws" for f
        using map_sum_list_elem [OF ws(1) that] 2(1) [OF v(1) v(2) JArr True] by blast
      with ws(2) k show ?thesis by (simp add: normal_entry.simps)
    next
      case False
      with 2(2) v JArr k have "w = JArr vs" by (auto simp: normalize_entry.simps [of key])
      with False k show ?thesis by (simp add: normal_entry.simps)
    qed
  next
    case (JObj ops)
    with 2(2) v obtain m where m: "remap_ops ops [] = Inr m" "m \<noteq> []" "w = JObj m"
      by (auto simp: normalize_entry.simps [of key] bind_sum_Inr split: if_splits)
    moreover have "normal_ops m" using remap_ops_result [OF m(1)] by (simp add: normal_ops_def)
    ultimately show ?thesis using k by (simp add: normal_entry.simps)
  qed (use 2(2) v k in \<open>auto simp: normalize_entry.simps [of key] normal_entry.simps\<close>)
qed


section \<open>Properties\<close>

text \<open>
  C32: a filter is the conjunction of its conditions and \<open>$and\<close> and \<open>$or\<close> are conjunction and
  disjunction: up to the depth limit a record passes exactly if it passes every condition
  alone, so the order of the conditions does not matter; it passes \<open>$and\<close> exactly if it
  passes every operand, \<open>$or\<close> exactly if it passes one whose predecessors it fails, and fails
  \<open>$or\<close> exactly if it fails every operand.
\<close>

theorem filter_connectives:
  "(evaluate_filter dtoa opts depth r (JObj kvs) = Inr True) =
     (depth \<le> MAX_FILTER_DEPTH \<and> list_all (\<lambda>kv. evaluate_filter dtoa opts depth r (JObj [kv]) = Inr True) kvs) \<and>
   (evaluate_filter dtoa opts depth r (JObj [(''$and'', JArr fs)]) = Inr True) =
     (depth \<le> MAX_FILTER_DEPTH \<and> list_all (\<lambda>f. evaluate_filter dtoa opts (depth + 1) r f = Inr True) fs) \<and>
   (evaluate_filter dtoa opts depth r (JObj [(''$or'', JArr fs)]) = Inr True) =
     (depth \<le> MAX_FILTER_DEPTH \<and> (\<exists>us f vs. fs = us @ f # vs \<and>
        list_all (\<lambda>u. evaluate_filter dtoa opts (depth + 1) r u = Inr False) us \<and>
        evaluate_filter dtoa opts (depth + 1) r f = Inr True)) \<and>
   (evaluate_filter dtoa opts depth r (JObj [(''$or'', JArr fs)]) = Inr False) =
     (depth \<le> MAX_FILTER_DEPTH \<and> list_all (\<lambda>f. evaluate_filter dtoa opts (depth + 1) r f = Inr False) fs)"
proof (cases "depth \<le> MAX_FILTER_DEPTH")
  case True
  show ?thesis
    unfolding evaluate_filter_object [OF True] all_sum_single condition_connective
    by (simp add: True all_sum_True any_sum_True any_sum_False list_all_iff del: all_sum.simps any_sum.simps)
next
  case False
  then have "evaluate_filter dtoa opts depth r f \<noteq> Inr b" for f b
    using evaluate_filter_deep [of depth dtoa opts r f] by auto
  with False show ?thesis by simp
qed

definition nested_and :: "nat \<Rightarrow> jsval \<Rightarrow> jsval" where
  "nested_and n f = ((\<lambda>g. JObj [(''$and'', JArr [g])]) ^^ n) f"

text \<open>
  Evaluation always ends, and the depth guard is exact: a filter under at most ten levels
  of \<open>$and\<close> is evaluated as it stands, under more levels the evaluation is refused.
\<close>

theorem filter_depth_guard:
  "evaluate_filter dtoa opts 0 r (nested_and n f) =
     (if n \<le> MAX_FILTER_DEPTH then evaluate_filter dtoa opts n r f
      else Inl (DfqlError ''DFQL_INVALID'' ''Filter nesting depth exceeds maximum of 10''))"
proof -
  have step: "evaluate_filter dtoa opts d r (JObj [(''$and'', JArr [g])]) = evaluate_filter dtoa opts (d + 1) r g"
    if "d \<le> MAX_FILTER_DEPTH" for d g
    unfolding evaluate_filter_object [OF that] all_sum_single condition_connective ..
  have "digits_of MAX_FILTER_DEPTH = ''10''" by code_simp
  then have deep: "evaluate_filter dtoa opts d r g = Inl (DfqlError ''DFQL_INVALID'' ''Filter nesting depth exceeds maximum of 10'')"
    if "MAX_FILTER_DEPTH < d" for d g
    using that by (subst evaluate_filter.simps) (simp add: dfql_error_def)
  have shift: "nested_and (Suc m) g = JObj [(''$and'', JArr [nested_and m g])]" for m g by (simp add: nested_and_def)
  have "d \<le> Suc MAX_FILTER_DEPTH \<Longrightarrow> evaluate_filter dtoa opts d r (nested_and m f) =
      (if d + m \<le> MAX_FILTER_DEPTH then evaluate_filter dtoa opts (d + m) r f
       else Inl (DfqlError ''DFQL_INVALID'' ''Filter nesting depth exceeds maximum of 10''))" for d m
  proof (induction m arbitrary: d)
    case 0
    then show ?case using deep by (simp add: nested_and_def)
  next
    case (Suc m)
    show ?case
    proof (cases "d \<le> MAX_FILTER_DEPTH")
      case True
      then show ?thesis using Suc.IH [of "d + 1"] by (simp add: shift step)
    next
      case False
      then show ?thesis using deep by simp
    qed
  qed
  from this [of 0 n] show ?thesis by simp
qed

text \<open>
  Normalising operator names gives a canonical form: in the result every key is safe,
  every value present and every operator name canonical, at every level, and normalising
  again changes nothing.
\<close>

theorem normalize_filter_ops_canonical:
  assumes "normalize_filter_ops filters = Inr g"
  shows "normal_filter g \<and> normalize_filter_ops g = Inr g"
  using normalize_result(1) [OF assms] normalize_normal(1) by blast

theorem normalize_filter_ops_canonical_witness:
  "\<exists>g. normalize_filter_ops (JObj [(''age'', JObj [(''gte'', JNum (Fin 18)), (''lt'', JUndef)]),
      (''$or'', JArr [JObj [(''name'', JObj [(''like'', JStr ''a%'')])]])]) = Inr g \<and> normal_filter g"
proof -
  let ?f = "JObj [(''age'', JObj [(''gte'', JNum (Fin 18)), (''lt'', JUndef)]),
      (''$or'', JArr [JObj [(''name'', JObj [(''like'', JStr ''a%'')])]])]"
  let ?g = "JObj [(''age'', JObj [(''$gte'', JNum (Fin 18))]), (''$or'', JArr [JObj [(''name'', JObj [(''$like'', JStr ''a%'')])]])]"
  have "normalize_filter_ops ?f = Inr ?g" by code_simp
  with normalize_filter_ops_canonical [OF this] show ?thesis by blast
qed

text \<open>
  C10: The four LIKE operators decide the reading of their pattern (\<open>%\<close> stands for any string, \<open>_\<close> for
  any character): the backtracking loop always ends with the answer of the specification, the two
  negated operators answer the opposite, the two \<open>ilike\<close> compare in lower case, and a field that
  is not a string is like no pattern.
\<close>

theorem like_operator_decides:
  "like_matches pattern s ci =
     Some (like_spec (if ci then js_lower pattern else pattern) (if ci then js_lower s else s)) \<and>
   evaluate_operator dtoa v (''$like'', JStr pattern) = Inr (case v of JStr t \<Rightarrow> like_spec pattern t | _ \<Rightarrow> False) \<and>
   evaluate_operator dtoa v (''$ilike'', JStr pattern) = Inr (case v of JStr t \<Rightarrow> like_spec (js_lower pattern) (js_lower t) | _ \<Rightarrow> False) \<and>
   evaluate_operator dtoa v (''$not_like'', JStr pattern) = Inr (case v of JStr t \<Rightarrow> \<not> like_spec pattern t | _ \<Rightarrow> True) \<and>
   evaluate_operator dtoa v (''$not_ilike'', JStr pattern) = Inr (case v of JStr t \<Rightarrow> \<not> like_spec (js_lower pattern) (js_lower t) | _ \<Rightarrow> True)"
  by (simp add: evaluate_operator_def like_test_def like_matches_decides split: jsval.split)

definition two_hop_resolver :: relation_resolver where
  "two_hop_resolver resource i relation =
     (if resource = ''tasks'' \<and> relation = ''project'' then [[(''id'', JStr ''p1'')]]
      else if resource = ''projects'' \<and> relation = ''owner'' then [[(''id'', JStr ''u1''), (''name'', JStr ''Ann'')]]
      else [])"

definition resolving :: "string \<Rightarrow> filter_options" where
  "resolving resource = \<lparr>fo_resolve = Some two_hop_resolver, fo_resource = Some resource\<rparr>"

text \<open>
  Where the code departs from its intent: on a relation path of two hops the second
  relation is looked up under the resource of the first record, because the options are
  passed on unchanged. A resolver that answers for each resource correctly finds the owner
  of the project, yet the filter \<open>project.owner.name\<close> on the task fails.
\<close>

theorem second_hop_wrong_resource:
  "evaluate_filter dtoa (Some (resolving ''tasks'')) 0 [(''id'', JStr ''t1'')] (JObj [(''project.owner.name'', JStr ''Ann'')]) = Inr False \<and>
   two_hop_resolver ''tasks'' (JStr ''t1'') ''project'' = [[(''id'', JStr ''p1'')]] \<and>
   evaluate_filter dtoa (Some (resolving ''projects'')) 0 [(''id'', JStr ''p1'')] (JObj [(''owner.name'', JStr ''Ann'')]) = Inr True"
  by code_simp

end
