(* ===== verification/RecordOrder.thy ===== *)
theory RecordOrder
  imports DfqlFilters
begin

text \<open>
  Sorting, selection and aggregation of records: \<open>sort.ts\<close>, \<open>select.ts\<close> and \<open>aggregate.ts\<close> of
  \<open>datafn/core\<close>. \<open>localeCompare\<close> is a parameter \<open>lc\<close>.
\<close>

section \<open>Sort terms\<close>

datatype sort_direction = Asc | Desc

record sort_term =
  st_field :: string
  st_direction :: sort_direction

definition parse_direction :: "string \<Rightarrow> sort_direction option" where
  "parse_direction s = (if s = ''asc'' then Some Asc else if s = ''desc'' then Some Desc else None)"

definition index_of :: "char \<Rightarrow> string \<Rightarrow> nat option" where
  "index_of c s = (let n = length (takeWhile (\<lambda>x. x \<noteq> c) s) in if n < length s then Some n else None)"

definition quoted :: "string \<Rightarrow> string" where
  "quoted s = CHR 0x22 # s @ [CHR 0x22]"

definition parse_sort_term :: "(rat \<Rightarrow> string) \<Rightarrow> jsval \<Rightarrow> string + sort_term" where
  "parse_sort_term dtoa trm =
     (case trm of
        JObj r \<Rightarrow>
          (let direction = (if js_get r ''direction'' = JUndef then JStr ''asc'' else js_get r ''direction'')
           in case js_get r ''field'' of
                JStr field \<Rightarrow>
                  (if field = [] then Inl ''Invalid sort field''
                   else case direction of
                     JStr d \<Rightarrow>
                       (case parse_direction d of
                          Some dir \<Rightarrow> Inr \<lparr>st_field = field, st_direction = dir\<rparr>
                        | None \<Rightarrow> Inl (''Invalid sort direction '' @ quoted d @ '' for field '' @ quoted field))
                   | _ \<Rightarrow> Inl (''Invalid sort direction '' @ quoted (js_string dtoa direction) @ '' for field '' @ quoted field))
              | _ \<Rightarrow> Inl ''Invalid sort field'')
      | JStr s \<Rightarrow>
          (if s = [] then Inl ''Invalid sort term''
           else if starts_with s ''-'' then
             (if length s = 1 then Inl ''Invalid sort field'' else Inr \<lparr>st_field = drop 1 s, st_direction = Desc\<rparr>)
           else case index_of (CHR '':'') s of
             Some i \<Rightarrow>
               (let field = take i s; direction = drop (i + 1) s
                in if field = [] then Inl ''Invalid sort field''
                   else case parse_direction direction of
                     Some dir \<Rightarrow> Inr \<lparr>st_field = field, st_direction = dir\<rparr>
                   | None \<Rightarrow> Inl (''Invalid sort direction '' @ quoted direction @ '' for term '' @ quoted s))
           | None \<Rightarrow> Inr \<lparr>st_field = s, st_direction = Asc\<rparr>)
      | _ \<Rightarrow> Inl ''Invalid sort term'')"

definition parse_sort_terms :: "(rat \<Rightarrow> string) \<Rightarrow> jsval list option \<Rightarrow> string + sort_term list" where
  "parse_sort_terms dtoa terms = (case terms of None \<Rightarrow> Inr [] | Some ts \<Rightarrow> map_sum_list (parse_sort_term dtoa) ts)"

section \<open>Sorting\<close>

definition compare_values :: "(string \<Rightarrow> string \<Rightarrow> jsnum) \<Rightarrow> (rat \<Rightarrow> string) \<Rightarrow> jsval \<Rightarrow> jsval \<Rightarrow> jsnum" where
  "compare_values lc dtoa aVal bVal =
     (if js_nullish aVal then Fin 1
      else if js_nullish bVal then Fin (- 1)
      else case (aVal, bVal) of
        (JStr s, JStr t) \<Rightarrow> lc s t
      | (JNum x, JNum y) \<Rightarrow> x - y
      | _ \<Rightarrow> lc (js_string dtoa aVal) (js_string dtoa bVal))"

definition id_string :: "(rat \<Rightarrow> string) \<Rightarrow> jsrec \<Rightarrow> string" where
  "id_string dtoa r = (if js_nullish (js_get r ''id'') then [] else js_string dtoa (js_get r ''id''))"

fun compare_records ::
    "(string \<Rightarrow> string \<Rightarrow> jsnum) \<Rightarrow> (rat \<Rightarrow> string) \<Rightarrow> sort_term list \<Rightarrow> jsrec \<Rightarrow> jsrec \<Rightarrow> jsnum" where
  "compare_records lc dtoa [] a b = lc (id_string dtoa a) (id_string dtoa b)"
| "compare_records lc dtoa (t # ts) a b =
     (let aVal = js_get a (st_field t); bVal = js_get b (st_field t)
      in if js_seq aVal bVal then compare_records lc dtoa ts a b
         else
           (let cmp = compare_values lc dtoa aVal bVal
            in if cmp \<noteq> Fin 0 then (case st_direction t of Asc \<Rightarrow> cmp | Desc \<Rightarrow> - cmp)
               else compare_records lc dtoa ts a b))"

definition sort_records ::
    "(string \<Rightarrow> string \<Rightarrow> jsnum) \<Rightarrow> (rat \<Rightarrow> string) \<Rightarrow> jsrec list \<Rightarrow> sort_term list \<Rightarrow> jsrec list" where
  "sort_records lc dtoa records terms = js_sort (\<lambda>a b. num_cmp (compare_records lc dtoa terms a b)) records"

section \<open>Selection\<close>

record select_token =
  sl_path :: "string list"
  sl_base :: string
  sl_directive :: "string option"

definition parse_select_token :: "string \<Rightarrow> select_token" where
  "parse_select_token token =
     (let parts = js_split ''.'' token
      in \<lparr>sl_path = parts, sl_base = hd parts,
          sl_directive = (if 1 < length parts then Some (js_join ''.'' (drop 1 parts)) else None)\<rparr>)"

section \<open>Aggregation\<close>

definition or_zero :: "jsnum \<Rightarrow> jsnum" where
  "or_zero x = (if x = NaN \<or> x = Fin 0 then Fin 0 else x)"

definition sum_values :: "(rat \<Rightarrow> string) \<Rightarrow> jsval list \<Rightarrow> jsnum" where
  "sum_values dtoa vs = foldl (\<lambda>a b. or_zero a + or_zero (js_number dtoa b)) (Fin 0) vs"

definition least_value :: "(rat \<Rightarrow> string) \<Rightarrow> jsval list \<Rightarrow> jsval" where
  "least_value dtoa vs = foldl (\<lambda>m v. if js_lt dtoa v m then v else m) (hd vs) vs"

definition greatest_value :: "(rat \<Rightarrow> string) \<Rightarrow> jsval list \<Rightarrow> jsval" where
  "greatest_value dtoa vs = foldl (\<lambda>m v. if js_lt dtoa m v then v else m) (hd vs) vs"

definition calculate_aggregation :: "(rat \<Rightarrow> string) \<Rightarrow> string \<Rightarrow> string \<Rightarrow> jsrec list \<Rightarrow> jsval" where
  "calculate_aggregation dtoa oper field records =
     (if oper = ''count'' then JNum (Fin (of_nat (length records)))
      else
        (let vs = filter (\<lambda>v. \<not> js_nullish v) (map (\<lambda>r. js_get r field) records)
         in if vs = [] then JNull
            else if oper = ''sum'' then JNum (sum_values dtoa vs)
            else if oper = ''min'' then least_value dtoa vs
            else if oper = ''max'' then greatest_value dtoa vs
            else if oper = ''avg'' then JNum (sum_values dtoa vs / Fin (of_nat (length vs)))
            else JNull))"

section \<open>The order of records\<close>

text \<open>Two comparators, the second breaking the ties of the first.\<close>

lemma lex_comparator:
  assumes f: "js_comparator f ok" and g: "js_comparator g ok"
  shows "js_comparator (\<lambda>x y. if f x y = 0 then g x y else f x y) ok"
proof
  fix x y assume o: "ok x" "ok y"
  have ff: "f x y \<le> 0 \<longleftrightarrow> \<not> f y x < 0" "f y x \<le> 0 \<longleftrightarrow> \<not> f x y < 0" and gg: "g x y \<le> 0 \<longleftrightarrow> \<not> g y x < 0"
    using js_comparator.cmp_flip [OF f] js_comparator.cmp_flip [OF g] o by simp_all
  from ff have "f x y = 0 \<longleftrightarrow> f y x = 0" by arith
  with ff gg show "(if f x y = 0 then g x y else f x y) \<le> 0 \<longleftrightarrow> \<not> (if f y x = 0 then g y x else f y x) < 0"
    by simp
next
  fix x y z assume o: "ok x" "ok y" "ok z"
    and le: "(if f x y = 0 then g x y else f x y) \<le> 0" "(if f y z = 0 then g y z else f y z) \<le> 0"
  note flip = js_comparator.cmp_flip [OF f] and trans = js_comparator.cmp_trans [OF f]
  have fl: "f x y \<le> 0" "f y z \<le> 0" using le by (simp_all split: if_splits)
  then have xz: "f x z \<le> 0" using trans o by blast
  show "(if f x z = 0 then g x z else f x z) \<le> 0"
  proof (cases "f x z = 0")
    case True
    then have "f z x \<le> 0" using flip [OF o(3,1)] by simp
    then have "f y x \<le> 0" "f z y \<le> 0" using trans [of y z x] trans [of z x y] fl o by blast+
    then have "f x y = 0" "f y z = 0" using fl flip [OF o(1,2)] flip [OF o(2,1)] flip [OF o(2,3)] flip [OF o(3,2)] by linarith+
    with le True js_comparator.cmp_trans [OF g o] show ?thesis by simp
  qed (use xz in simp)
qed


lemma flip_comparator: "js_comparator f ok \<Longrightarrow> js_comparator (\<lambda>x y. - f x y) ok"
proof
  assume f: "js_comparator f ok"
  fix x y assume o: "ok x" "ok y"
  show "- f x y \<le> 0 \<longleftrightarrow> \<not> - f y x < 0" using js_comparator.cmp_flip [OF f o] js_comparator.cmp_flip [OF f o(2,1)] by arith
next
  assume f: "js_comparator f ok"
  fix x y z assume o: "ok x" "ok y" "ok z" and le: "- f x y \<le> 0" "- f y z \<le> 0"
  have "f y x \<le> 0" "f z y \<le> 0" using le js_comparator.cmp_flip [OF f] o by fastforce+
  then have "f z x \<le> 0" using js_comparator.cmp_trans [OF f o(3,2,1)] by blast
  then show "- f x z \<le> 0" using js_comparator.cmp_flip [OF f o(3,1)] by arith
qed

text \<open>What \<open>localeCompare\<close> promises: a finite sign, a total preorder of strings.\<close>

definition collation :: "(string \<Rightarrow> string \<Rightarrow> jsnum) \<Rightarrow> bool" where
  "collation lc = ((\<forall>s t. is_fin (lc s t)) \<and> js_comparator (\<lambda>s t. num_cmp (lc s t)) (\<lambda>_. True))"

datatype column_kind = TextColumn | NumberColumn

text \<open>A column: its values are of one kind, or absent, always in the same way (null or undefined).\<close>

record column =
  cl_kind :: column_kind
  cl_absent :: jsval

definition in_column :: "column \<Rightarrow> jsval \<Rightarrow> bool" where
  "in_column c v = (js_nullish (cl_absent c) \<and>
     (v = cl_absent c \<or> (case v of JStr _ \<Rightarrow> cl_kind c = TextColumn | JNum x \<Rightarrow> cl_kind c = NumberColumn \<and> is_fin x | _ \<Rightarrow> False)))"

definition sortable :: "(string \<Rightarrow> string \<Rightarrow> jsnum) \<Rightarrow> (string \<Rightarrow> column) \<Rightarrow> sort_term list \<Rightarrow> jsrec \<Rightarrow> bool" where
  "sortable lc columns terms r =
     (collation lc \<and> list_all (\<lambda>t. in_column (columns (st_field t)) (js_get r (st_field t))) terms)"

definition value_cmp :: "(string \<Rightarrow> string \<Rightarrow> jsnum) \<Rightarrow> (rat \<Rightarrow> string) \<Rightarrow> jsval \<Rightarrow> jsval \<Rightarrow> int" where
  "value_cmp lc dtoa v w = (if js_seq v w then 0 else num_cmp (compare_values lc dtoa v w))"

lemma collation_self: "collation lc \<Longrightarrow> lc s s = Fin 0"
proof -
  assume "collation lc"
  then have "num_cmp (lc s s) = 0" "is_fin (lc s s)"
    using js_comparator.cmp_flip [of "\<lambda>s t. num_cmp (lc s t)" "\<lambda>_. True" s s] by (auto simp: collation_def)
  then show ?thesis by (auto simp: is_fin_iff split: if_splits)
qed

lemma value_cmp_column:
  assumes "collation lc" and "in_column c v" and "in_column c w"
  shows "value_cmp lc dtoa v w =
     (if js_nullish v then (if js_nullish w then 0 else 1)
      else if js_nullish w then - 1
      else case (v, w) of (JStr s, JStr t) \<Rightarrow> num_cmp (lc s t) | (JNum (Fin x), JNum (Fin y)) \<Rightarrow> num_cmp (Fin (x - y)) | _ \<Rightarrow> 0)"
  using assms collation_self [OF assms(1)]
  by (cases v; cases w) (auto simp: value_cmp_def compare_values_def in_column_def is_fin_iff js_nullish_def split: if_splits)


lemma column_cases:
  assumes "in_column c v"
  obtains (Absent) "js_nullish v"
    | (Txt) s where "v = JStr s" "cl_kind c = TextColumn"
    | (Number) x where "v = JNum (Fin x)" "cl_kind c = NumberColumn"
  using assms by (cases v) (auto simp: in_column_def is_fin_iff js_nullish_def)

lemma value_comparator: "js_comparator (value_cmp lc dtoa) (\<lambda>v. collation lc \<and> in_column c v)"
proof
  fix v w assume "collation lc \<and> in_column c v" "collation lc \<and> in_column c w"
  then have o: "collation lc" "in_column c v" "in_column c w" by simp_all
  have flip: "num_cmp (lc s t) \<le> 0 \<longleftrightarrow> \<not> num_cmp (lc t s) < 0" for s t
    using js_comparator.cmp_flip [of "\<lambda>s t. num_cmp (lc s t)" "\<lambda>_. True"] o(1) by (simp add: collation_def)
  show "value_cmp lc dtoa v w \<le> 0 \<longleftrightarrow> \<not> value_cmp lc dtoa w v < 0"
    unfolding value_cmp_column [OF o] value_cmp_column [OF o(1,3,2)] using o(2,3)
    by (elim column_cases) (simp_all add: flip)
next
  fix u v w assume "collation lc \<and> in_column c u" "collation lc \<and> in_column c v" "collation lc \<and> in_column c w"
    and le: "value_cmp lc dtoa u v \<le> 0" "value_cmp lc dtoa v w \<le> 0"
  then have o: "collation lc" "in_column c u" "in_column c v" "in_column c w" by simp_all
  have trans: "num_cmp (lc r s) \<le> 0 \<Longrightarrow> num_cmp (lc s t) \<le> 0 \<Longrightarrow> num_cmp (lc r t) \<le> 0" for r s t
    using js_comparator.cmp_trans [of "\<lambda>s t. num_cmp (lc s t)" "\<lambda>_. True"] o(1) by (simp add: collation_def)
  show "value_cmp lc dtoa u w \<le> 0"
    using o(2-4) le unfolding value_cmp_column [OF o(1,2,3)] value_cmp_column [OF o(1,3,4)] value_cmp_column [OF o(1,2,4)]
    by (elim column_cases) (auto intro: trans split: if_splits)
qed

definition term_cmp :: "(string \<Rightarrow> string \<Rightarrow> jsnum) \<Rightarrow> (rat \<Rightarrow> string) \<Rightarrow> sort_term \<Rightarrow> jsrec \<Rightarrow> jsrec \<Rightarrow> int" where
  "term_cmp lc dtoa t a b =
     (let c = value_cmp lc dtoa (js_get a (st_field t)) (js_get b (st_field t))
      in case st_direction t of Asc \<Rightarrow> c | Desc \<Rightarrow> - c)"

lemma comparator_on: "js_comparator f ok \<Longrightarrow> (\<And>x. ok' x \<Longrightarrow> ok (g x)) \<Longrightarrow> js_comparator (\<lambda>x y. f (g x) (g y)) ok'"
proof
  assume f: "js_comparator f ok" and g: "\<And>x. ok' x \<Longrightarrow> ok (g x)"
  show "ok' x \<Longrightarrow> ok' y \<Longrightarrow> f (g x) (g y) \<le> 0 \<longleftrightarrow> \<not> f (g y) (g x) < 0" for x y
    using js_comparator.cmp_flip [OF f g g] .
  show "ok' x \<Longrightarrow> ok' y \<Longrightarrow> ok' z \<Longrightarrow> f (g x) (g y) \<le> 0 \<Longrightarrow> f (g y) (g z) \<le> 0 \<Longrightarrow> f (g x) (g z) \<le> 0" for x y z
    using js_comparator.cmp_trans [OF f g g g] .
qed

lemma comparator_eq: "js_comparator f ok \<Longrightarrow> (\<And>x y. ok x \<Longrightarrow> ok y \<Longrightarrow> f x y = g x y) \<Longrightarrow> js_comparator g ok"
proof
  assume f: "js_comparator f ok" and eq: "\<And>x y. ok x \<Longrightarrow> ok y \<Longrightarrow> f x y = g x y"
  show "ok x \<Longrightarrow> ok y \<Longrightarrow> g x y \<le> 0 \<longleftrightarrow> \<not> g y x < 0" for x y
    using js_comparator.cmp_flip [OF f, of x y] eq by simp
  show "ok x \<Longrightarrow> ok y \<Longrightarrow> ok z \<Longrightarrow> g x y \<le> 0 \<Longrightarrow> g y z \<le> 0 \<Longrightarrow> g x z \<le> 0" for x y z
    using js_comparator.cmp_trans [OF f, of x y z] eq by simp
qed

lemma term_comparator:
  "js_comparator (term_cmp lc dtoa t) (\<lambda>r. collation lc \<and> in_column c (js_get r (st_field t)))"
proof -
  have "js_comparator (\<lambda>a b. value_cmp lc dtoa (js_get a (st_field t)) (js_get b (st_field t)))
      (\<lambda>r. collation lc \<and> in_column c (js_get r (st_field t)))"
    by (rule comparator_on [OF value_comparator [of lc dtoa c]])
  then show ?thesis by (cases "st_direction t") (simp_all add: term_cmp_def [abs_def] flip_comparator)
qed

lemma num_cmp_minus: "is_fin x \<Longrightarrow> num_cmp (- x) = - num_cmp x"
  by (auto simp: is_fin_iff)

lemma compare_records_Cons:
  assumes "sortable lc columns (t # ts) a" and "sortable lc columns (t # ts) b"
  shows "num_cmp (compare_records lc dtoa (t # ts) a b) =
     (if term_cmp lc dtoa t a b = 0 then num_cmp (compare_records lc dtoa ts a b) else term_cmp lc dtoa t a b)"
proof -
  let ?v = "js_get a (st_field t)" and ?w = "js_get b (st_field t)"
  have o: "collation lc" "in_column (columns (st_field t)) ?v" "in_column (columns (st_field t)) ?w"
    using assms by (simp_all add: sortable_def)
  have fin: "is_fin (compare_values lc dtoa ?v ?w)"
    using o(2,3) o(1) by (elim column_cases) (auto simp: compare_values_def collation_def)
  then obtain x where x: "compare_values lc dtoa ?v ?w = Fin x" by (auto simp: is_fin_iff)
  show ?thesis
    by (cases "st_direction t") (auto simp: term_cmp_def value_cmp_def Let_def x)
qed

lemma records_comparator: "js_comparator (\<lambda>a b. num_cmp (compare_records lc dtoa terms a b)) (sortable lc columns terms)"
proof (induction terms)
  case Nil
  show ?case unfolding compare_records.simps
  proof
    fix a b assume "sortable lc columns [] a" "sortable lc columns [] b"
    then show "num_cmp (lc (id_string dtoa a) (id_string dtoa b)) \<le> 0 \<longleftrightarrow> \<not> num_cmp (lc (id_string dtoa b) (id_string dtoa a)) < 0"
      using js_comparator.cmp_flip [of "\<lambda>s t. num_cmp (lc s t)" "\<lambda>_. True"] by (simp add: sortable_def collation_def)
  next
    fix a b c assume "sortable lc columns [] a" "num_cmp (lc (id_string dtoa a) (id_string dtoa b)) \<le> 0"
      "num_cmp (lc (id_string dtoa b) (id_string dtoa c)) \<le> 0"
    then show "num_cmp (lc (id_string dtoa a) (id_string dtoa c)) \<le> 0"
      using js_comparator.cmp_trans [of "\<lambda>s t. num_cmp (lc s t)" "\<lambda>_. True"] by (simp add: sortable_def collation_def)
  qed
next
  case (Cons t ts)
  have ok: "sortable lc columns (t # ts) r \<Longrightarrow> sortable lc columns ts r"
    "sortable lc columns (t # ts) r \<Longrightarrow> collation lc \<and> in_column (columns (st_field t)) (js_get r (st_field t))" for r
    by (simp_all add: sortable_def)
  have "js_comparator (\<lambda>a b. if term_cmp lc dtoa t a b = 0 then num_cmp (compare_records lc dtoa ts a b) else term_cmp lc dtoa t a b)
      (sortable lc columns (t # ts))"
    by (rule lex_comparator) (rule comparator_on [OF term_comparator [of lc dtoa t "columns (st_field t)"]], erule ok,
      rule comparator_on [OF Cons], erule ok)
  then show ?case by (rule comparator_eq) (simp only: compare_records_Cons)
qed

interpretation records: js_comparator "\<lambda>a b. num_cmp (compare_records lc dtoa terms a b)" "sortable lc columns terms"
  for lc dtoa terms columns
  by (rule records_comparator)

section \<open>The order by columns\<close>

text \<open>What the terms ask for: earlier columns first, absent values last in ascending order, ties by identifier.\<close>

definition value_before :: "(string \<Rightarrow> string \<Rightarrow> jsnum) \<Rightarrow> jsval \<Rightarrow> jsval \<Rightarrow> bool" where
  "value_before lc v w =
     (case (v, w) of
        (JStr s, JStr t) \<Rightarrow> lc s t < Fin 0
      | (JNum x, JNum y) \<Rightarrow> x < y
      | _ \<Rightarrow> \<not> js_nullish v \<and> js_nullish w)"

fun record_le :: "(string \<Rightarrow> string \<Rightarrow> jsnum) \<Rightarrow> (rat \<Rightarrow> string) \<Rightarrow> sort_term list \<Rightarrow> jsrec \<Rightarrow> jsrec \<Rightarrow> bool" where
  "record_le lc dtoa [] a b = (lc (id_string dtoa a) (id_string dtoa b) \<le> Fin 0)"
| "record_le lc dtoa (t # ts) a b =
     (let v = js_get a (st_field t); w = js_get b (st_field t);
          before = (case st_direction t of Asc \<Rightarrow> value_before lc v w | Desc \<Rightarrow> value_before lc w v);
          after = (case st_direction t of Asc \<Rightarrow> value_before lc w v | Desc \<Rightarrow> value_before lc v w)
      in before \<or> (\<not> after \<and> record_le lc dtoa ts a b))"

lemma value_before_cmp:
  assumes "collation lc" and "in_column c v" and "in_column c w"
  shows "value_before lc v w \<longleftrightarrow> value_cmp lc dtoa v w < 0"
proof -
  have "is_fin (lc s t)" for s t using assms(1) by (simp add: collation_def)
  then have "num_cmp (lc s t) < 0 \<longleftrightarrow> lc s t < Fin 0" for s t by (auto simp: num_cmp_def)
  then show ?thesis unfolding value_cmp_column [OF assms] using assms(2,3)
    by (elim column_cases) (auto simp: value_before_def js_nullish_def)
qed

lemma record_le_cmp:
  "sortable lc columns terms a \<Longrightarrow> sortable lc columns terms b \<Longrightarrow>
   num_cmp (compare_records lc dtoa terms a b) \<le> 0 \<longleftrightarrow> record_le lc dtoa terms a b"
proof (induction terms)
  case Nil
  then have "is_fin (lc (id_string dtoa a) (id_string dtoa b))" by (simp add: sortable_def collation_def)
  then show ?case by (auto simp: is_fin_iff split: if_splits)
next
  case (Cons t ts)
  let ?v = "js_get a (st_field t)" and ?w = "js_get b (st_field t)"
  have o: "collation lc" "in_column (columns (st_field t)) ?v" "in_column (columns (st_field t)) ?w"
    using Cons.prems by (simp_all add: sortable_def)
  have IH: "num_cmp (compare_records lc dtoa ts a b) \<le> 0 \<longleftrightarrow> record_le lc dtoa ts a b"
    using Cons by (simp add: sortable_def)
  have flip: "value_cmp lc dtoa ?v ?w \<le> 0 \<longleftrightarrow> \<not> value_cmp lc dtoa ?w ?v < 0" "value_cmp lc dtoa ?w ?v \<le> 0 \<longleftrightarrow> \<not> value_cmp lc dtoa ?v ?w < 0"
    using js_comparator.cmp_flip [OF value_comparator [of lc dtoa "columns (st_field t)"]] o by blast+
  show ?case
    unfolding compare_records_Cons [OF Cons.prems] record_le.simps Let_def
      value_before_cmp [OF o, of dtoa] value_before_cmp [OF o(1,3,2), of dtoa]
    using flip IH by (cases "st_direction t") (auto simp: term_cmp_def)
qed


section \<open>Properties\<close>

text \<open>Comparison by code units is a collation.\<close>

definition code_unit_collation :: "string \<Rightarrow> string \<Rightarrow> jsnum" where
  "code_unit_collation s t = Fin (of_int (str_cmp s t))"

lemma code_unit_collation: "collation code_unit_collation"
proof -
  have *: "num_cmp (code_unit_collation s t) = str_cmp s t" for s t
    by (simp add: code_unit_collation_def str_cmp_def)
  have "js_comparator (\<lambda>s t. num_cmp (code_unit_collation s t)) (\<lambda>_. True)"
    unfolding * by unfold_locales (auto simp: str_cmp_def split: if_splits)
  then show ?thesis by (simp add: collation_def code_unit_collation_def)
qed

text \<open>
  C23: on records whose sort columns each hold strings or finite numbers, with absent values
  represented in one way, sorting returns a permutation in the order the terms ask for, and
  records that this order does not separate keep their places.
\<close>

theorem sort_records_correct:
  fixes dtoa :: "rat \<Rightarrow> string"
  assumes "list_all (sortable lc columns terms) rs"
  defines "sorted_rs \<equiv> sort_records lc dtoa rs terms"
  shows "mset sorted_rs = mset rs \<and> sorted_wrt (record_le lc dtoa terms) sorted_rs \<and>
    (\<forall>r. sortable lc columns terms r \<longrightarrow>
       filter (\<lambda>s. record_le lc dtoa terms r s \<and> record_le lc dtoa terms s r) sorted_rs =
       filter (\<lambda>s. record_le lc dtoa terms r s \<and> record_le lc dtoa terms s r) rs)"
proof -
  let ?cmp = "\<lambda>a b. num_cmp (compare_records lc dtoa terms a b)"
  have ok: "\<forall>r \<in> set rs. sortable lc columns terms r" using assms(1) by (simp add: list_all_iff)
  have in_ok: "r \<in> set sorted_rs \<Longrightarrow> sortable lc columns terms r" for r
    using ok by (simp add: sorted_rs_def sort_records_def)
  have "sorted_wrt (\<lambda>a b. ?cmp a b \<le> 0) sorted_rs"
    unfolding sorted_rs_def sort_records_def using records.sort_sorted [OF ok] .
  then have "sorted_wrt (record_le lc dtoa terms) sorted_rs"
    by (rule sorted_wrt_mono_rel [rotated]) (use in_ok record_le_cmp in blast)
  moreover have "filter (\<lambda>s. record_le lc dtoa terms r s \<and> record_le lc dtoa terms s r) sorted_rs =
       filter (\<lambda>s. record_le lc dtoa terms r s \<and> record_le lc dtoa terms s r) rs" if r: "sortable lc columns terms r" for r
  proof -
    have tied: "?cmp r s \<le> 0 \<and> ?cmp s r \<le> 0 \<longleftrightarrow> record_le lc dtoa terms r s \<and> record_le lc dtoa terms s r"
      if "sortable lc columns terms s" for s
      using record_le_cmp [OF r that] record_le_cmp [OF that r] by blast
    have "filter (\<lambda>s. ?cmp r s \<le> 0 \<and> ?cmp s r \<le> 0) sorted_rs = filter (\<lambda>s. ?cmp r s \<le> 0 \<and> ?cmp s r \<le> 0) rs"
      unfolding sorted_rs_def sort_records_def by (rule records.sort_stable [OF ok r])
    moreover have "filter (\<lambda>s. ?cmp r s \<le> 0 \<and> ?cmp s r \<le> 0) sorted_rs =
        filter (\<lambda>s. record_le lc dtoa terms r s \<and> record_le lc dtoa terms s r) sorted_rs"
      using tied in_ok by (intro filter_cong) auto
    moreover have "filter (\<lambda>s. ?cmp r s \<le> 0 \<and> ?cmp s r \<le> 0) rs =
        filter (\<lambda>s. record_le lc dtoa terms r s \<and> record_le lc dtoa terms s r) rs"
      using tied ok by (intro filter_cong) auto
    ultimately show ?thesis by simp
  qed
  ultimately show ?thesis by (simp add: sorted_rs_def sort_records_def)
qed

theorem sort_records_correct_witness:
  "sorted_wrt (record_le code_unit_collation (\<lambda>_. []) [\<lparr>st_field = ''n'', st_direction = Desc\<rparr>])
     (sort_records code_unit_collation (\<lambda>_. [])
       [[(''id'', JStr ''b''), (''n'', JNum (Fin 1))], [(''id'', JStr ''a''), (''n'', JNull)], [(''id'', JStr ''c''), (''n'', JNum (Fin 2))]]
       [\<lparr>st_field = ''n'', st_direction = Desc\<rparr>])"
  by (rule conjunct1 [OF conjunct2 [OF sort_records_correct [where columns = "\<lambda>_. \<lparr>cl_kind = NumberColumn, cl_absent = JNull\<rparr>"]]])
    (simp add: sortable_def code_unit_collation in_column_def js_get_def)

text \<open>
  Where the code departs from its intent: on a column that mixes numbers and strings the
  comparator is cyclic (10 before \<open>"2"\<close> before 9 before 10), and between null and undefined it
  answers that each comes after the other, instead of going on to the next term and the
  identifier; the result of sorting then depends on the order of the input.
\<close>

theorem sort_comparator_inconsistent:
  "(let term = \<lparr>st_field = ''n'', st_direction = Asc\<rparr>;
        cmp = compare_records code_unit_collation dtoa [term];
        ten = [(''n'', JNum (Fin 10))]; two = [(''n'', JStr ''2'')]; nine = [(''n'', JNum (Fin 9))];
        missing = [(''id'', JStr ''a'')]; null = [(''id'', JStr ''b''), (''n'', JNull)]
    in cmp ten two < Fin 0 \<and> cmp two nine < Fin 0 \<and> cmp nine ten < Fin 0 \<and>
       cmp missing null = Fin 1 \<and> cmp null missing = Fin 1 \<and>
       sort_records code_unit_collation dtoa [missing, null] [term] \<noteq> sort_records code_unit_collation dtoa [null, missing] [term])"
proof -
  have digits: "int_to_string 10 = ''10''" "int_to_string 9 = ''9''" by code_simp+
  have "num_to_string dtoa (Fin 10) = ''10''" "num_to_string dtoa (Fin 9) = ''9''"
    using num_to_string_int [of 10 dtoa] num_to_string_int [of 9 dtoa] digits by simp_all
  then show ?thesis
    by (simp add: Let_def js_get_def compare_values_def code_unit_collation_def str_cmp_def sort_records_def js_sort_def)
qed

definition print_direction :: "sort_direction \<Rightarrow> string" where
  "print_direction d = (case d of Asc \<Rightarrow> ''asc'' | Desc \<Rightarrow> ''desc'')"

definition print_sort_term :: "sort_term \<Rightarrow> string" where
  "print_sort_term t = st_field t @ '':'' @ print_direction (st_direction t)"


lemma index_of_first: "c \<notin> set s \<Longrightarrow> index_of c (s @ c # t) = Some (length s)"
proof -
  assume "c \<notin> set s"
  then have "takeWhile (\<lambda>x. x \<noteq> c) (s @ c # t) = s" by (induction s) auto
  then show ?thesis by (simp add: index_of_def Let_def)
qed

lemma index_of_none: "c \<notin> set s \<Longrightarrow> index_of c s = None"
proof -
  assume "c \<notin> set s"
  then have "takeWhile (\<lambda>x. x \<noteq> c) s = s" by (induction s) auto
  then show ?thesis unfolding index_of_def Let_def by (simp del: takeWhile_eq_all_conv)
qed

lemma parse_print_direction [simp]: "parse_direction (print_direction d) = Some d"
  by (cases d) (simp_all add: parse_direction_def print_direction_def)

text \<open>
  Sort terms: the text form \<open>field:asc\<close> or \<open>field:desc\<close>, the form \<open>-field\<close> and the object
  form parse to the same term, for every field name the text form can hold.
\<close>

theorem sort_term_roundtrip:
  assumes "st_field t \<noteq> []" and "CHR '':'' \<notin> set (st_field t)" and "hd (st_field t) \<noteq> CHR ''-''"
  shows "parse_sort_term dtoa (JStr (print_sort_term t)) = Inr t \<and>
    parse_sort_term dtoa (JStr (case st_direction t of Asc \<Rightarrow> st_field t | Desc \<Rightarrow> CHR ''-'' # st_field t)) = Inr t \<and>
    parse_sort_term dtoa (JObj [(''field'', JStr (st_field t)), (''direction'', JStr (print_direction (st_direction t)))]) = Inr t"
proof -
  obtain c cs where f: "st_field t = c # cs" using assms(1) by (cases "st_field t") auto
  have "index_of (CHR '':'') (print_sort_term t) = Some (length (st_field t))"
    using index_of_first [OF assms(2)] by (simp add: print_sort_term_def)
  then have 1: "parse_sort_term dtoa (JStr (print_sort_term t)) = Inr t"
    using assms(3) by (simp add: parse_sort_term_def print_sort_term_def f starts_with_def)
  have 2: "parse_sort_term dtoa (JStr (case st_direction t of Asc \<Rightarrow> st_field t | Desc \<Rightarrow> CHR ''-'' # st_field t)) = Inr t"
  proof (cases "st_direction t")
    case Asc
    then have "t = \<lparr>st_field = c # cs, st_direction = Asc\<rparr>" using f by (cases t) simp
    with assms(3) index_of_none [OF assms(2)] show ?thesis by (simp add: parse_sort_term_def starts_with_def)
  next
    case Desc
    then have "t = \<lparr>st_field = c # cs, st_direction = Desc\<rparr>" using f by (cases t) simp
    then show ?thesis by (simp add: parse_sort_term_def starts_with_def)
  qed
  show ?thesis using 1 2 by (simp add: parse_sort_term_def js_get_def f)
qed

theorem sort_term_roundtrip_witness:
  "parse_sort_term (\<lambda>_. []) (JStr ''createdAt:desc'') = Inr \<lparr>st_field = ''createdAt'', st_direction = Desc\<rparr>"
  using sort_term_roundtrip [of "\<lparr>st_field = ''createdAt'', st_direction = Desc\<rparr>" "\<lambda>_. []"]
  by (simp add: print_sort_term_def print_direction_def)

section \<open>Aggregation of numbers\<close>

definition present_values :: "string \<Rightarrow> jsrec list \<Rightarrow> jsval list" where
  "present_values field records = filter (\<lambda>v. \<not> js_nullish v) (map (\<lambda>r. js_get r field) records)"

lemma or_zero_fin [simp]: "or_zero (Fin x) = Fin x"
  by (simp add: or_zero_def)

lemma sum_values_numbers: "sum_values dtoa (map (JNum \<circ> Fin) xs) = Fin (sum_list xs)"
proof -
  have "foldl (\<lambda>a b. or_zero a + or_zero (js_number dtoa b)) (Fin s) (map (JNum \<circ> Fin) xs) = Fin (s + sum_list xs)" for s
    by (induction xs arbitrary: s) (simp_all add: js_number_def add.assoc)
  from this [of 0] show ?thesis by (simp add: sum_values_def)
qed

lemma js_lt_fin [simp]: "js_lt dtoa (JNum (Fin x)) (JNum (Fin y)) \<longleftrightarrow> x < y"
  by (simp add: js_lt_def js_primitive_def js_number_def)

lemma least_value_numbers: "xs \<noteq> [] \<Longrightarrow> least_value dtoa (map (JNum \<circ> Fin) xs) = JNum (Fin (Min (set xs)))"
proof -
  have "foldl (\<lambda>m v. if js_lt dtoa v m then v else m) (JNum (Fin m)) (map (JNum \<circ> Fin) xs) = JNum (Fin (Min (insert m (set xs))))" for m
  proof (induction xs arbitrary: m)
    case (Cons x xs)
    have "Min (insert (if x < m then x else m) (set xs)) = Min (insert m (insert x (set xs)))"
      by (cases "set xs = {}") (auto simp: min_def)
    then show ?case using Cons by (auto split: if_splits)
  qed simp
  then show "xs \<noteq> [] \<Longrightarrow> ?thesis" by (cases xs) (simp_all add: least_value_def del: foldl_Cons)
qed

lemma greatest_value_numbers: "xs \<noteq> [] \<Longrightarrow> greatest_value dtoa (map (JNum \<circ> Fin) xs) = JNum (Fin (Max (set xs)))"
proof -
  have "foldl (\<lambda>m v. if js_lt dtoa m v then v else m) (JNum (Fin m)) (map (JNum \<circ> Fin) xs) = JNum (Fin (Max (insert m (set xs))))" for m
  proof (induction xs arbitrary: m)
    case (Cons x xs)
    have "Max (insert (if m < x then x else m) (set xs)) = Max (insert m (insert x (set xs)))"
      by (cases "set xs = {}") (auto simp: max_def)
    then show ?case using Cons by (auto split: if_splits)
  qed simp
  then show "xs \<noteq> [] \<Longrightarrow> ?thesis" by (cases xs) (simp_all add: greatest_value_def del: foldl_Cons)
qed

text \<open>
  The aggregates have the semantics of SQL on a column of numbers: absent values are
  left out, over no value the result is null, otherwise it is the sum, the least, the
  greatest value and the mean, while \<open>count\<close> counts all records.
\<close>

theorem aggregation_sql:
  assumes "present_values field records = map (JNum \<circ> Fin) xs"
  shows "calculate_aggregation dtoa ''count'' field records = JNum (Fin (of_nat (length records))) \<and>
    calculate_aggregation dtoa ''sum'' field records = (if xs = [] then JNull else JNum (Fin (sum_list xs))) \<and>
    calculate_aggregation dtoa ''min'' field records = (if xs = [] then JNull else JNum (Fin (Min (set xs)))) \<and>
    calculate_aggregation dtoa ''max'' field records = (if xs = [] then JNull else JNum (Fin (Max (set xs)))) \<and>
    calculate_aggregation dtoa ''avg'' field records =
      (if xs = [] then JNull else JNum (Fin (sum_list xs / of_nat (length xs))))"
  using assms unfolding present_values_def
  by (simp add: calculate_aggregation_def Let_def sum_values_numbers least_value_numbers greatest_value_numbers)

theorem aggregation_sql_witness:
  "calculate_aggregation (\<lambda>_. []) ''avg'' ''n'' [[(''n'', JNum (Fin 1))], [(''n'', JNull)], [(''n'', JNum (Fin 4))], []] = JNum (Fin (5 / 2))"
  using aggregation_sql [of "''n''" "[[(''n'', JNum (Fin 1))], [(''n'', JNull)], [(''n'', JNum (Fin 4))], []]" "[1, 4]" "\<lambda>_. []"]
  by (simp add: present_values_def js_get_def)

end
