(* ===== verification/DfqlNormalize.thy ===== *)
theory DfqlNormalize
  imports DfqlFilters
begin

text \<open>
  Canonical query values and cache keys, \<open>datafn/core/src/normalize.ts\<close>: members sorted by key,
  undefined and unsafe members dropped, printed as JSON. The values are the JSON-like ones;
  dates and instances of classes (the branches on \<open>Date\<close> and \<open>toJSON\<close>) are outside the model.
\<close>

section \<open>Normalisation\<close>

definition kept_keys :: "jsrec \<Rightarrow> string list" where
  "kept_keys r = filter (\<lambda>key. key \<notin> set DISALLOWED_KEYS \<and> js_get r key \<noteq> JUndef) (js_sort str_cmp (map fst r))"

lemma weight_get: "weight (js_get r k) < weight (JObj r)"
proof (cases "map_of r k")
  case (Some v)
  then have "(k, v) \<in> set r" by (rule map_of_SomeD)
  then have "weight v \<in> set (map (\<lambda>kv. weight (snd kv)) r)" by force
  then show ?thesis using Some by (simp add: js_get_def member_le_sum_list less_Suc_eq_le)
qed (simp add: js_get_def)

function normalize_dfql :: "jsval \<Rightarrow> jsval" where
  "normalize_dfql v =
     (case v of
        JArr vs \<Rightarrow> JArr (map normalize_dfql vs)
      | JObj r \<Rightarrow> JObj (map (\<lambda>key. (key, normalize_dfql (js_get r key))) (kept_keys r))
      | _ \<Rightarrow> v)"
  by pat_completeness auto
termination
  by (relation "measure weight") (use weight_elem weight_get in \<open>auto simp del: weight.simps\<close>)

declare normalize_dfql.simps [simp del]

definition dfql_key :: "(rat \<Rightarrow> string) \<Rightarrow> jsval \<Rightarrow> string" where
  "dfql_key dtoa v = (case json_stringify dtoa (normalize_dfql v) of Some s \<Rightarrow> s | None \<Rightarrow> ''undefined'')"

section \<open>Equality up to the order of members\<close>

text \<open>Equal values, where undefined and unsafe members count as missing and the order of members is free.\<close>

function same_query :: "jsval \<Rightarrow> jsval \<Rightarrow> bool" where
  "same_query a b =
     (case (a, b) of
        (JArr vs, JArr ws) \<Rightarrow> length vs = length ws \<and> list_all (\<lambda>i. same_query (vs ! i) (ws ! i)) [0..<length vs]
      | (JObj r, JObj s) \<Rightarrow>
          list_all (\<lambda>key. key \<in> set DISALLOWED_KEYS \<or> same_query (js_get r key) (js_get s key)) (map fst r @ map fst s)
      | _ \<Rightarrow> a = b)"
  by pat_completeness auto
termination
  by (relation "measure (\<lambda>(a, b). weight a)") (use weight_elem weight_get in \<open>auto simp del: weight.simps\<close>)

declare same_query.simps [simp del]

lemma normalize_undef [simp]: "normalize_dfql JUndef = JUndef"
  by (simp add: normalize_dfql.simps)

lemma normalize_eq_undef [simp]: "normalize_dfql v = JUndef \<longleftrightarrow> v = JUndef"
  by (cases v) (simp_all add: normalize_dfql.simps)

lemma kept_sorted: "sorted (kept_keys r)"
proof -
  have "js_comparator str_cmp (\<lambda>_. True)" by unfold_locales (auto simp: str_cmp_def split: if_splits)
  from js_comparator.sort_sorted [OF this, of "map fst r"] have "sorted_wrt (\<le>) (js_sort str_cmp (map fst r))"
    by (simp add: str_cmp_le)
  then show ?thesis unfolding kept_keys_def by (rule sorted_wrt_filter)
qed

lemma kept_set: "set (kept_keys r) = {k. k \<notin> set DISALLOWED_KEYS \<and> js_get r k \<noteq> JUndef}"
proof -
  have "js_get r k \<noteq> JUndef \<Longrightarrow> k \<in> fst ` set r" for k
    by (auto simp: js_get_def dest: map_of_SomeD split: option.splits intro: rev_image_eqI)
  then show ?thesis by (auto simp: kept_keys_def)
qed

lemma kept_distinct: "jmap_ok r \<Longrightarrow> distinct (kept_keys r)"
  by (simp add: kept_keys_def)

lemma get_normalized:
  "js_get (map (\<lambda>key. (key, normalize_dfql (js_get r key))) (kept_keys r)) k =
     (if k \<in> set DISALLOWED_KEYS then JUndef else normalize_dfql (js_get r k))"
proof -
  have "map_of (map (\<lambda>key. (key, normalize_dfql (js_get r key))) ks) k =
      (if k \<in> set ks then Some (normalize_dfql (js_get r k)) else None)" for ks
    by (induction ks) auto
  then show ?thesis using kept_set [of r] by (auto simp: js_get_def)
qed

lemma normalized_obj_eq:
  assumes "jmap_ok r" and "jmap_ok s"
  shows "normalize_dfql (JObj r) = normalize_dfql (JObj s) \<longleftrightarrow>
    (\<forall>k. k \<notin> set DISALLOWED_KEYS \<longrightarrow> normalize_dfql (js_get r k) = normalize_dfql (js_get s k))"
proof
  assume "normalize_dfql (JObj r) = normalize_dfql (JObj s)"
  then have eq: "map (\<lambda>key. (key, normalize_dfql (js_get r key))) (kept_keys r) =
      map (\<lambda>key. (key, normalize_dfql (js_get s key))) (kept_keys s)" by (simp add: normalize_dfql.simps)
  show "\<forall>k. k \<notin> set DISALLOWED_KEYS \<longrightarrow> normalize_dfql (js_get r k) = normalize_dfql (js_get s k)"
  proof (intro allI impI)
    fix k assume k: "k \<notin> set DISALLOWED_KEYS"
    have "js_get (map (\<lambda>key. (key, normalize_dfql (js_get r key))) (kept_keys r)) k =
        js_get (map (\<lambda>key. (key, normalize_dfql (js_get s key))) (kept_keys s)) k" by (simp only: eq)
    then show "normalize_dfql (js_get r k) = normalize_dfql (js_get s k)"
      by (simp only: get_normalized if_not_P [OF k])
  qed
next
  assume eq: "\<forall>k. k \<notin> set DISALLOWED_KEYS \<longrightarrow> normalize_dfql (js_get r k) = normalize_dfql (js_get s k)"
  then have "js_get r k = JUndef \<longleftrightarrow> js_get s k = JUndef" if "k \<notin> set DISALLOWED_KEYS" for k
    using that normalize_eq_undef [of "js_get r k"] normalize_eq_undef [of "js_get s k"] by simp
  then have "set (kept_keys r) = set (kept_keys s)" unfolding kept_set by (intro Collect_cong conj_cong) simp_all
  then have keys: "kept_keys r = kept_keys s"
    using kept_sorted kept_distinct assms sorted_distinct_set_unique by blast
  show "normalize_dfql (JObj r) = normalize_dfql (JObj s)"
    using eq kept_set [of s] by (auto simp: normalize_dfql.simps keys)
qed


text \<open>The values a key is made of: integral numbers, no undefined outside objects, distinct keys.\<close>

fun cacheable :: "jsval \<Rightarrow> bool" where
  "cacheable JUndef = False"
| "cacheable JNull = True"
| "cacheable (JBool b) = True"
| "cacheable (JNum x) = json_ok (JNum x)"
| "cacheable (JStr s) = True"
| "cacheable (JArr vs) = list_all cacheable vs"
| "cacheable (JObj r) = (jmap_ok r \<and> list_all (\<lambda>(k, v). v = JUndef \<or> cacheable v) r)"

lemma cacheable_get: "cacheable (JObj r) \<Longrightarrow> js_get r k = JUndef \<or> cacheable (js_get r k)"
  by (auto simp: js_get_def list_all_iff dest!: map_of_SomeD split: option.split)

lemma normalized_json_ok: "cacheable v \<Longrightarrow> json_ok (normalize_dfql v)"
proof (induction v rule: normalize_dfql.induct)
  case (1 v)
  show ?case
  proof (cases v)
    case (JArr vs)
    with 1 show ?thesis by (auto simp: normalize_dfql.simps [of "JArr vs"] list_all_iff)
  next
    case (JObj r)
    have "json_ok (normalize_dfql (js_get r k))" if "k \<in> set (kept_keys r)" for k
      using 1(2) [OF JObj that] 1(3) JObj cacheable_get [of r k] that by (auto simp: kept_set)
    moreover have "distinct (kept_keys r)" using 1(3) JObj kept_distinct by simp
    ultimately show ?thesis using JObj by (auto simp: normalize_dfql.simps [of "JObj r"] list_all_iff comp_def)
  qed (use 1(3) in \<open>simp_all add: normalize_dfql.simps del: json_ok.simps(4)\<close>)
qed

definition valid_value :: "jsval \<Rightarrow> bool" where
  "valid_value v = (v = JUndef \<or> cacheable v)"

lemma normalize_same: "valid_value a \<Longrightarrow> valid_value b \<Longrightarrow> normalize_dfql a = normalize_dfql b \<longleftrightarrow> same_query a b"
proof (induction a b rule: same_query.induct)
  case (1 a b)
  show ?case
  proof (cases "\<exists>vs ws. a = JArr vs \<and> b = JArr ws")
    case True
    then obtain vs ws where vw: "a = JArr vs" "b = JArr ws" by blast
    have "normalize_dfql (vs ! i) = normalize_dfql (ws ! i) \<longleftrightarrow> same_query (vs ! i) (ws ! i)"
      if "length vs = length ws" "i < length vs" for i
      using 1(1) [OF refl vw, of i] that 1(3,4) vw by (simp add: valid_value_def list_all_length)
    then have "map normalize_dfql vs = map normalize_dfql ws \<longleftrightarrow>
        length vs = length ws \<and> (\<forall>i < length vs. same_query (vs ! i) (ws ! i))"
      by (simp only: list_eq_iff_nth_eq length_map) (metis nth_map)
    moreover have "normalize_dfql (JArr us) = JArr (map normalize_dfql us)" for us by (simp add: normalize_dfql.simps)
    moreover have "same_query (JArr vs) (JArr ws) \<longleftrightarrow>
        length vs = length ws \<and> (\<forall>i < length vs. same_query (vs ! i) (ws ! i))"
      by (subst same_query.simps) (auto simp: list_all_iff)
    ultimately show ?thesis unfolding vw by simp
  next
    case noarr: False
    show ?thesis
    proof (cases "\<exists>r s. a = JObj r \<and> b = JObj s")
      case True
      then obtain r s where rs: "a = JObj r" "b = JObj s" by blast
      then have c: "cacheable (JObj r)" "cacheable (JObj s)" using 1(3,4) by (simp_all add: valid_value_def)
      have get: "normalize_dfql (js_get r k) = normalize_dfql (js_get s k) \<longleftrightarrow> same_query (js_get r k) (js_get s k)"
        if "k \<in> set (map fst r @ map fst s)" "k \<notin> set DISALLOWED_KEYS" for k
        using 1(2) [OF refl rs that(1)] cacheable_get [OF c(1), of k] cacheable_get [OF c(2), of k] by (simp add: valid_value_def)
      have miss: "k \<notin> set (map fst r @ map fst s) \<Longrightarrow> js_get r k = js_get s k" for k
        by (auto simp: js_get_def map_of_eq_None_iff [symmetric])
      have "normalize_dfql a = normalize_dfql b \<longleftrightarrow>
          (\<forall>k. k \<notin> set DISALLOWED_KEYS \<longrightarrow> normalize_dfql (js_get r k) = normalize_dfql (js_get s k))"
        unfolding rs by (rule normalized_obj_eq) (use c in simp_all)
      also have "\<dots> \<longleftrightarrow> (\<forall>k \<in> set (map fst r @ map fst s). k \<in> set DISALLOWED_KEYS \<or> same_query (js_get r k) (js_get s k))"
        using get miss by metis
      finally show ?thesis unfolding rs by (simp only: same_query.simps [of "JObj r"] list_all_iff prod.case jsval.case)
    next
      case False
      with noarr show ?thesis
        by (cases a; cases b) (simp_all add: normalize_dfql.simps same_query.simps)
    qed
  qed
qed

lemma js_sort_sorted: "sorted ks \<Longrightarrow> js_sort str_cmp ks = ks"
proof -
  assume "sorted ks"
  then have "sorted_wrt (\<lambda>a b. str_cmp a b \<le> 0) ks" by (simp add: str_cmp_le)
  then show ?thesis 
  proof (induction ks)
    case (Cons k ks)
    then show ?case by (cases ks) auto
  qed simp
qed

lemma normalize_idem: "normalize_dfql (normalize_dfql v) = normalize_dfql v"
proof (induction v rule: normalize_dfql.induct)
  case (1 v)
  show ?case
  proof (cases v)
    case (JObj r)
    let ?m = "map (\<lambda>key. (key, normalize_dfql (js_get r key))) (kept_keys r)"
    have n: "normalize_dfql v = JObj ?m" by (simp add: JObj normalize_dfql.simps)
    have "map fst ?m = kept_keys r" by (simp add: comp_def)
    then have "kept_keys ?m = filter (\<lambda>key. key \<notin> set DISALLOWED_KEYS \<and> js_get ?m key \<noteq> JUndef) (kept_keys r)"
      unfolding kept_keys_def [of ?m] using js_sort_sorted [OF kept_sorted] by simp
    also have "\<dots> = kept_keys r"
      by (rule filter_True) (use get_normalized [of r] in \<open>auto simp: kept_set\<close>)
    finally have "normalize_dfql (JObj ?m) = JObj (map (\<lambda>key. (key, normalize_dfql (js_get ?m key))) (kept_keys r))"
      by (simp add: normalize_dfql.simps)
    also have "\<dots> = JObj ?m"
      using 1(2) [OF JObj] get_normalized [of r] by (auto simp: kept_set)
    finally show ?thesis unfolding n .
  qed (use 1(1) in \<open>auto simp: normalize_dfql.simps\<close>)
qed

section \<open>Properties\<close>

text \<open>
  C22: query keys are sound cache keys: two JSON-like values have the same key exactly if they
  are equal up to the order of members and up to undefined and unsafe members, and
  normalisation is idempotent.
\<close>

theorem dfql_key_canonical:
  assumes "cacheable a" and "cacheable b"
  shows "(dfql_key dtoa a = dfql_key dtoa b) = same_query a b \<and> normalize_dfql (normalize_dfql a) = normalize_dfql a"
proof
  have key: "dfql_key dtoa v = json_val dtoa (normalize_dfql v)" if "cacheable v" for v
  proof -
    have "v \<noteq> JUndef" using that by auto
    then show ?thesis by (simp only: dfql_key_def json_stringify_def normalize_eq_undef if_False option.case)
  qed
  have parse: "json_parse (dfql_key dtoa v) = Some (normalize_dfql v)" if "cacheable v" for v
    unfolding key [OF that] by (rule json_roundtrip_lib [OF normalized_json_ok [OF that]])
  have "dfql_key dtoa a = dfql_key dtoa b \<longleftrightarrow> normalize_dfql a = normalize_dfql b"
  proof
    assume "dfql_key dtoa a = dfql_key dtoa b"
    then have "Some (normalize_dfql a) = Some (normalize_dfql b)"
      unfolding parse [OF assms(1), symmetric] parse [OF assms(2), symmetric] by (rule arg_cong)
    then show "normalize_dfql a = normalize_dfql b" by (rule option.inject [THEN iffD1])
  qed (simp only: key [OF assms(1)] key [OF assms(2)])
  then show "(dfql_key dtoa a = dfql_key dtoa b) = same_query a b"
    using normalize_same assms by (simp add: valid_value_def)
  show "normalize_dfql (normalize_dfql a) = normalize_dfql a"
    using normalize_idem .
qed


theorem dfql_key_canonical_witness:
  "dfql_key (\<lambda>_. []) (JObj [(''limit'', JNum (Fin 5)), (''filters'', JObj [(''b'', JNull), (''a'', JStr ''x'')]), (''omit'', JUndef)]) =
   dfql_key (\<lambda>_. []) (JObj [(''filters'', JObj [(''a'', JStr ''x''), (''b'', JNull)]), (''limit'', JNum (Fin 5))])"
proof -
  have "same_query (JObj [(''limit'', JNum (Fin 5)), (''filters'', JObj [(''b'', JNull), (''a'', JStr ''x'')]), (''omit'', JUndef)])
      (JObj [(''filters'', JObj [(''a'', JStr ''x''), (''b'', JNull)]), (''limit'', JNum (Fin 5))])" by code_simp
  then show ?thesis
    by (intro iffD2 [OF conjunct1 [OF dfql_key_canonical]]) simp_all
qed

end
