(* ===== verification/Relations.thy ===== *)
theory Relations
  imports DfqlFilters
begin

text \<open>
  The schema and its relations, from \<open>datafn/core\<close>: the schema types (\<open>types.ts\<close>), endpoints
  (\<open>relation-endpoints.ts\<close>), foreign keys (\<open>relation-fks.ts\<close>), join store names (\<open>joins.ts\<close>),
  relation payloads (\<open>relations.ts\<close>) and the runtime-owned field of dependent resources
  (\<open>system-fields.ts\<close>). Schema members that no modelled function reads are left out of the
  records.
\<close>

section \<open>Schema types\<close>

datatype relation_type = OneMany | ManyOne | ManyMany | HTree

datatype endpoint = Single string | Several "string list"

record relation_schema =
  rl_from :: endpoint
  rl_to :: endpoint
  rl_type :: relation_type
  rl_relation :: "string option"
  rl_inverse :: "string option"
  rl_fk_field :: "string option"
  rl_foreign_key :: "string option"
  rl_fk_resource_field :: "string option"
  rl_join_table :: "string option"
  rl_inherits_inactive :: "bool option"

record field_schema =
  fs_name :: string
  fs_type :: string
  fs_required :: bool
  fs_nullable :: "bool option"
  fs_readonly :: "bool option"
  fs_default :: jsval

record index_categories =
  ix_base :: "string list option"
  ix_search :: "string list option"
  ix_vector :: "string list option"

datatype resource_indices = FlatIndices "string list" | CategoryIndices index_categories

record permissions_policy =
  pp_read :: "string list option"
  pp_write :: "string list option"

record resource_schema =
  rs_name :: string
  rs_version :: jsnum
  rs_id_prefix :: "string option"
  rs_fields :: "field_schema list"
  rs_indices :: "resource_indices option"
  rs_permissions :: "permissions_policy option"

record datafn_schema =
  sc_resources :: "resource_schema list"
  sc_relations :: "relation_schema list option"

text \<open>The operators \<open>||\<close> and \<open>??\<close> on optional strings: the empty string is falsy.\<close>

definition js_or :: "string option \<Rightarrow> string option \<Rightarrow> string option" where
  "js_or a b = (case a of Some s \<Rightarrow> if s = [] then b else a | None \<Rightarrow> b)"

definition js_coalesce :: "'a option \<Rightarrow> 'a option \<Rightarrow> 'a option" where
  "js_coalesce a b = (case a of Some _ \<Rightarrow> a | None \<Rightarrow> b)"

definition truthy_or :: "string option \<Rightarrow> string \<Rightarrow> string" where
  "truthy_or a d = (case a of Some s \<Rightarrow> if s = [] then d else s | None \<Rightarrow> d)"

definition or_else :: "'a option \<Rightarrow> 'a \<Rightarrow> 'a" where
  "or_else a d = (case a of Some x \<Rightarrow> x | None \<Rightarrow> d)"

section \<open>Endpoints\<close>

definition endpoint_list :: "endpoint \<Rightarrow> string list" where
  "endpoint_list e = (case e of Single s \<Rightarrow> [s] | Several ss \<Rightarrow> ss)"

definition endpoint_includes :: "endpoint \<Rightarrow> string \<Rightarrow> bool" where
  "endpoint_includes e resource = (resource \<in> set (endpoint_list e))"

definition first_endpoint :: "endpoint \<Rightarrow> string" where
  "first_endpoint e = (case endpoint_list e of [] \<Rightarrow> [] | s # _ \<Rightarrow> s)"

definition resource_name_from_id :: "jsval \<Rightarrow> string option" where
  "resource_name_from_id i =
     (case i of
        JStr s \<Rightarrow>
          (let n = length (takeWhile (\<lambda>c. c \<noteq> CHR '':'') s)
           in if n = length s \<or> n = 0 then None else Some (take n s))
      | _ \<Rightarrow> None)"

definition resource_prefix :: "resource_schema \<Rightarrow> string" where
  "resource_prefix r = or_else (rs_id_prefix r) (rs_name r @ '':'')"

definition longest_prefix :: "string list \<Rightarrow> string \<Rightarrow> datafn_schema \<Rightarrow> (string \<times> string) list" where
  "longest_prefix resources i schema =
     js_sort (\<lambda>left right. int (length (snd right)) - int (length (snd left)))
       (filter (\<lambda>candidate. starts_with i (snd candidate))
         (map (\<lambda>r. (rs_name r, resource_prefix r))
           (filter (\<lambda>r. rs_name r \<in> set resources) (sc_resources schema))))"

definition resolve_endpoint_resource :: "endpoint \<Rightarrow> jsval \<Rightarrow> datafn_schema option \<Rightarrow> string option" where
  "resolve_endpoint_resource e i schema =
     (let resources = endpoint_list e;
          fallback = (case resource_name_from_id i of
             Some r \<Rightarrow> if r \<noteq> [] \<and> r \<in> set resources then Some r else None
           | None \<Rightarrow> None)
      in if length resources = 1 then Some (hd resources)
         else case (i, schema) of
           (JStr s, Some sch) \<Rightarrow>
             (case longest_prefix resources s sch of
                (name, _) # _ \<Rightarrow> Some name
              | [] \<Rightarrow> fallback)
         | _ \<Rightarrow> fallback)"

datatype relation_direction = Forward | Inverse

definition relation_matches_forward :: "relation_schema \<Rightarrow> string \<Rightarrow> string \<Rightarrow> bool" where
  "relation_matches_forward rel resource name = (endpoint_includes (rl_from rel) resource \<and> rl_relation rel = Some name)"

definition relation_matches_inverse :: "relation_schema \<Rightarrow> string \<Rightarrow> string \<Rightarrow> bool" where
  "relation_matches_inverse rel resource name = (endpoint_includes (rl_to rel) resource \<and> rl_inverse rel = Some name)"

definition find_relation_match :: "datafn_schema \<Rightarrow> string \<Rightarrow> string \<Rightarrow> (relation_schema \<times> relation_direction) option" where
  "find_relation_match schema resource name =
     (case sc_relations schema of
        None \<Rightarrow> None
      | Some rels \<Rightarrow>
          (case some_of (map (\<lambda>rel.
              if relation_matches_forward rel resource name then Some (rel, Forward)
              else if relation_matches_inverse rel resource name then Some (rel, Inverse)
              else None) rels) of
             [] \<Rightarrow> None
           | m # _ \<Rightarrow> Some m))"

definition relation_source_endpoint :: "relation_schema \<Rightarrow> relation_direction \<Rightarrow> endpoint" where
  "relation_source_endpoint rel d = (case d of Forward \<Rightarrow> rl_from rel | Inverse \<Rightarrow> rl_to rel)"

definition relation_target_endpoint :: "relation_schema \<Rightarrow> relation_direction \<Rightarrow> endpoint" where
  "relation_target_endpoint rel d = (case d of Forward \<Rightarrow> rl_to rel | Inverse \<Rightarrow> rl_from rel)"

definition show_optional :: "string option \<Rightarrow> string" where
  "show_optional s = or_else s ''undefined''"

definition relation_key_for :: "string \<Rightarrow> relation_schema \<Rightarrow> string" where
  "relation_key_for from rel = from @ ''.'' @ show_optional (rl_relation rel)"

section \<open>Foreign keys\<close>

record relation_fk_field =
  fk_field :: string
  fk_resource_field :: "string option"
  fk_optional :: bool

definition htree_fk_field :: "relation_schema \<Rightarrow> string" where
  "htree_fk_field rel = truthy_or (js_or (rl_fk_field rel) (js_or (rl_foreign_key rel) (rl_inverse rel))) ''parentId''"

definition relation_fk_field_for_one_many :: "relation_schema \<Rightarrow> string" where
  "relation_fk_field_for_one_many rel =
     truthy_or (js_or (rl_fk_field rel) (js_or (rl_foreign_key rel) (rl_inverse rel))) (first_endpoint (rl_from rel) @ ''Id'')"

definition relation_fk_field_for_many_one :: "relation_schema \<Rightarrow> string" where
  "relation_fk_field_for_many_one rel =
     truthy_or (js_or (rl_fk_field rel) (rl_foreign_key rel)) (or_else (rl_relation rel) (first_endpoint (rl_to rel)) @ ''Id'')"

definition strip_id :: "string \<Rightarrow> string" where
  "strip_id s = (if ends_with s ''Id'' then take (length s - 2) s else s)"

datatype relation_side = FromSide | ToSide

definition fk_resource_field_for_relation :: "relation_schema \<Rightarrow> relation_side \<Rightarrow> string" where
  "fk_resource_field_for_relation rel side =
     truthy_or (rl_fk_resource_field rel)
       (if rl_type rel = HTree then strip_id (htree_fk_field rel) @ ''Resource''
        else
          (let base = (case side of
             ToSide \<Rightarrow> truthy_or (rl_relation rel) ''target''
           | FromSide \<Rightarrow> truthy_or (js_or (rl_inverse rel) (rl_relation rel)) ''source'')
           in strip_id base @ ''Resource''))"

definition is_optional_resource_field :: "datafn_schema \<Rightarrow> string \<Rightarrow> string \<Rightarrow> bool" where
  "is_optional_resource_field schema resource field =
     (case Option.bind (find (\<lambda>r. rs_name r = resource) (sc_resources schema)) (\<lambda>r. find (\<lambda>f. fs_name f = field) (rs_fields r)) of
        None \<Rightarrow> True
      | Some f \<Rightarrow> \<not> fs_required f \<and> fs_nullable f = Some True)"

definition add_fk ::
    "datafn_schema \<Rightarrow> string \<Rightarrow> string \<Rightarrow> string option \<Rightarrow> (string, relation_fk_field) jmap \<Rightarrow> (string, relation_fk_field) jmap" where
  "add_fk schema resource field resourceField m =
     (if jmap_has m field then m
      else jmap_set field \<lparr>fk_field = field, fk_resource_field = resourceField,
             fk_optional = is_optional_resource_field schema resource field\<rparr> m)"

definition add_relation_fk ::
    "datafn_schema \<Rightarrow> string \<Rightarrow> (string, relation_fk_field) jmap \<Rightarrow> relation_schema \<Rightarrow> (string, relation_fk_field) jmap" where
  "add_relation_fk schema resource m rel =
     (if rl_type rel = ManyOne \<and> endpoint_includes (rl_from rel) resource then
        add_fk schema resource (relation_fk_field_for_many_one rel)
          (if 1 < length (endpoint_list (rl_to rel)) then Some (fk_resource_field_for_relation rel ToSide) else None) m
      else if rl_type rel = OneMany \<and> endpoint_includes (rl_to rel) resource then
        add_fk schema resource (relation_fk_field_for_one_many rel)
          (if 1 < length (endpoint_list (rl_from rel)) then Some (fk_resource_field_for_relation rel FromSide) else None) m
      else if rl_type rel = HTree \<and> endpoint_includes (rl_to rel) resource then
        add_fk schema resource (htree_fk_field rel)
          (if 1 < length (endpoint_list (rl_from rel)) then Some (fk_resource_field_for_relation rel FromSide) else None) m
      else m)"

definition get_relation_fk_fields_for_resource :: "datafn_schema \<Rightarrow> string \<Rightarrow> relation_fk_field list" where
  "get_relation_fk_fields_for_resource schema resource =
     jmap_values (foldl (add_relation_fk schema resource) [] (or_else (sc_relations schema) []))"

definition clear_empty_fk :: "jsrec \<Rightarrow> relation_fk_field \<Rightarrow> jsrec" where
  "clear_empty_fk r f =
     (if \<not> fk_optional f \<or> \<not> jmap_has r (fk_field f) \<or> js_get r (fk_field f) \<noteq> JStr [] then r
      else
        (let r1 = jmap_set (fk_field f) JNull r
         in case fk_resource_field f of
              Some rf \<Rightarrow> if rf \<noteq> [] \<and> jmap_has r1 rf then jmap_set rf JNull r1 else r1
            | None \<Rightarrow> r1))"

definition normalize_relation_fk_record :: "datafn_schema \<Rightarrow> string \<Rightarrow> jsrec \<Rightarrow> jsrec" where
  "normalize_relation_fk_record schema resource r =
     foldl clear_empty_fk r (get_relation_fk_fields_for_resource schema resource)"

section \<open>Join stores\<close>

definition get_relation_key_name :: "relation_schema \<Rightarrow> string \<Rightarrow> string" where
  "get_relation_key_name rel to =
     or_else (js_coalesce (rl_relation rel) (js_coalesce (rl_inverse rel) (rl_join_table rel))) (''to_'' @ to)"

definition get_join_store_key :: "string \<Rightarrow> string \<Rightarrow> string \<Rightarrow> string" where
  "get_join_store_key from relation to = ''join_'' @ from @ ''_'' @ relation @ ''_'' @ to"

definition get_join_table_name :: "string \<Rightarrow> string \<Rightarrow> string option \<Rightarrow> string" where
  "get_join_table_name from relation joinTable = truthy_or joinTable (''__datafn_join_'' @ from @ ''_'' @ relation)"

definition get_relation_name :: "relation_schema \<Rightarrow> string" where
  "get_relation_name rel =
     or_else (js_coalesce (rl_relation rel) (js_coalesce (rl_inverse rel) (rl_join_table rel)))
       (''to_'' @ first_endpoint (rl_to rel))"

definition get_relation_join_table_name :: "relation_schema \<Rightarrow> string option \<Rightarrow> string" where
  "get_relation_join_table_name rel fromResource =
     truthy_or (rl_join_table rel)
       (let from = (if 1 < length (endpoint_list (rl_from rel)) then first_endpoint (rl_from rel)
                    else or_else fromResource (first_endpoint (rl_from rel)))
        in get_join_table_name from (get_relation_name rel) None)"

definition relation_pairs :: "relation_schema \<Rightarrow> (string \<times> string) list" where
  "relation_pairs rel = List.product (endpoint_list (rl_from rel)) (endpoint_list (rl_to rel))"

definition enumerate_join_store_keys :: "relation_schema list \<Rightarrow> string jset option \<Rightarrow> string list" where
  "enumerate_join_store_keys rels resourceFilter =
     concat (map (\<lambda>rel.
       if rl_type rel \<noteq> ManyMany then []
       else concat (map (\<lambda>f.
         if (case resourceFilter of Some fs \<Rightarrow> f \<notin> set fs | None \<Rightarrow> False) then []
         else map (\<lambda>t. get_join_store_key f (get_relation_key_name rel t) t) (endpoint_list (rl_to rel)))
           (endpoint_list (rl_from rel)))) rels)"

definition store_names :: "relation_schema \<Rightarrow> string \<Rightarrow> string list" where
  "store_names rel to = js_unique [get_relation_key_name rel to,
     or_else (js_coalesce (rl_relation rel) (rl_inverse rel)) (first_endpoint (rl_to rel)),
     show_optional (rl_relation rel)]"

definition add_join_resources ::
    "string \<Rightarrow> string \<Rightarrow> (string, string list) jmap \<Rightarrow> string \<Rightarrow> (string, string list) jmap" where
  "add_join_resources from to m name =
     (let key = get_join_store_key from name to
      in jmap_set key (foldl (\<lambda>s x. jset_add x s) [] (or_else (jmap_get m key) [] @ [from, to])) m)"

definition resolve_join_store_resources :: "relation_schema list \<Rightarrow> (string, string list) jmap" where
  "resolve_join_store_resources rels =
     foldl (\<lambda>m rel.
       if rl_type rel \<noteq> ManyMany then m
       else foldl (\<lambda>m (from, to). foldl (add_join_resources from to) m (store_names rel to)) m (relation_pairs rel)) [] rels"

section \<open>Relation payloads\<close>

record normalized_relation =
  nr_to :: string
  nr_metadata :: jsrec

text \<open>An object with a non-empty string \<open>$ref\<close>; its other members are the metadata.\<close>

definition ref_of :: "string \<Rightarrow> jsrec \<Rightarrow> string + normalized_relation" where
  "ref_of message r =
     (case js_get r ''$ref'' of
        JStr s \<Rightarrow> if s = [] then Inl message else Inr \<lparr>nr_to = s, nr_metadata = jmap_del ''$ref'' r\<rparr>
      | _ \<Rightarrow> Inl message)"

function normalize_relation_payload :: "jsval \<Rightarrow> string + normalized_relation list" where
  "normalize_relation_payload payload =
     (case payload of
        JStr s \<Rightarrow> Inr [\<lparr>nr_to = s, nr_metadata = []\<rparr>]
      | JArr items \<Rightarrow>
          bind_sum (map_sum_list (\<lambda>item.
              case item of
                JArr _ \<Rightarrow> normalize_relation_payload item
              | JStr s \<Rightarrow> Inr [\<lparr>nr_to = s, nr_metadata = []\<rparr>]
              | JObj r \<Rightarrow> bind_sum (ref_of ''Invalid relation payload item: missing or invalid $ref'' r) (\<lambda>n. Inr [n])
              | _ \<Rightarrow> Inl ''Invalid relation payload item type'') items)
            (\<lambda>rs. Inr (concat rs))
      | JObj r \<Rightarrow> bind_sum (ref_of ''Invalid relation payload: missing or invalid $ref'' r) (\<lambda>n. Inr [n])
      | _ \<Rightarrow> Inl ''Invalid relation payload: must be string, object with $ref, or array'')"
  by pat_completeness auto
termination
  by (relation "measure weight") (use weight_elem in \<open>auto simp del: weight.simps\<close>)

declare normalize_relation_payload.simps [simp del]

section \<open>System fields\<close>

definition ANCESTOR_INACTIVE_FIELD :: string where "ANCESTOR_INACTIVE_FIELD = ''isAncestorInactive''"

definition ANCESTOR_INACTIVE_FIELD_DEF :: field_schema where
  "ANCESTOR_INACTIVE_FIELD_DEF = \<lparr>fs_name = ANCESTOR_INACTIVE_FIELD, fs_type = ''boolean'', fs_required = True,
     fs_nullable = Some False, fs_readonly = Some True, fs_default = JBool False\<rparr>"

definition inherits_inactive_dependent_endpoint :: "relation_schema \<Rightarrow> endpoint" where
  "inherits_inactive_dependent_endpoint rel = (if rl_type rel = ManyOne then rl_from rel else rl_to rel)"

text \<open>On raw relations, before validation.\<close>

definition add_inactive_resources :: "string jset \<Rightarrow> jsval \<Rightarrow> string jset" where
  "add_inactive_resources resources rel =
     (case rel of
        JObj r \<Rightarrow>
          (if js_get r ''inheritsInactive'' \<noteq> JBool True \<or> js_get r ''type'' = JStr ''many-many'' then resources
           else
             (case (if js_get r ''type'' = JStr ''many-one'' then js_get r ''from'' else js_get r ''to'') of
                JStr name \<Rightarrow> jset_add name resources
              | JArr names \<Rightarrow>
                  foldl (\<lambda>s name. case name of JStr n \<Rightarrow> jset_add n s | _ \<Rightarrow> s) resources names
              | _ \<Rightarrow> resources))
      | _ \<Rightarrow> resources)"

definition get_ancestor_inactive_resources :: "jsval \<Rightarrow> string jset" where
  "get_ancestor_inactive_resources relations =
     (case relations of JArr rels \<Rightarrow> foldl add_inactive_resources [] rels | _ \<Rightarrow> [])"

definition resource_requires_ancestor_inactive :: "relation_schema list option \<Rightarrow> string \<Rightarrow> bool" where
  "resource_requires_ancestor_inactive relations resource =
     list_ex (\<lambda>rel. rl_inherits_inactive rel = Some True \<and> rl_type rel \<noteq> ManyMany \<and>
       resource \<in> set (endpoint_list (inherits_inactive_dependent_endpoint rel))) (or_else relations [])"

definition find_system_field_write :: "relation_schema list option \<Rightarrow> string \<Rightarrow> jsrec \<Rightarrow> string option" where
  "find_system_field_write relations resource r =
     (if \<not> jmap_has r ANCESTOR_INACTIVE_FIELD then None
      else if resource_requires_ancestor_inactive relations resource then Some ANCESTOR_INACTIVE_FIELD else None)"

end
