(* ===== verification/RelationProperties.thy ===== *)
theory RelationProperties
  imports Relations
begin

text \<open>
  What the relation utilities guarantee: foreign keys are cleaned without touching anything
  else, join store keys resolve to exactly their endpoints (and can collide), identifiers
  resolve to the endpoint with the longest prefix.
\<close>

section \<open>Foreign keys\<close>

text \<open>\<open>cleared r r'\<close>: the same keys, and every value is unchanged or null.\<close>

definition cleared :: "jsrec \<Rightarrow> jsrec \<Rightarrow> bool" where
  "cleared r r' = (map fst r' = map fst r \<and> (\<forall>k. js_get r' k = js_get r k \<or> js_get r' k = JNull))"

lemma cleared_refl: "cleared r r"
  by (simp add: cleared_def)

lemma cleared_trans: "cleared r s \<Longrightarrow> cleared s t \<Longrightarrow> cleared r t"
  unfolding cleared_def by metis

lemma cleared_set: "jmap_has r k \<Longrightarrow> cleared r (jmap_set k JNull r)"
  by (auto simp: cleared_def js_get_set update_keys map_of_eq_None_iff)

lemma clear_empty_fk_cleared: "cleared r (clear_empty_fk r f)"
proof -
  have "cleared r (jmap_set (fk_field f) JNull r)" if "jmap_has r (fk_field f)" using cleared_set [OF that] .
  moreover have "cleared s (jmap_set k JNull s)" if "jmap_has s k" for s k using cleared_set [OF that] .
  ultimately show ?thesis
    by (auto simp: clear_empty_fk_def Let_def cleared_refl split: option.split intro: cleared_trans)
qed

lemma clear_empty_fk_id: "fk_optional f \<Longrightarrow> js_get r (fk_field f) \<noteq> JStr [] \<Longrightarrow> clear_empty_fk r f = r"
  by (simp add: clear_empty_fk_def)

lemma clear_empty_fk_done: "fk_optional f \<Longrightarrow> js_get (clear_empty_fk r f) (fk_field f) \<noteq> JStr []"
  by (auto simp: clear_empty_fk_def Let_def js_get_def jmap_simps split: option.split)

lemma clear_empty_fk_change:
  "js_get (clear_empty_fk r f) k \<noteq> js_get r k \<Longrightarrow>
    fk_optional f \<and> js_get r (fk_field f) = JStr [] \<and> (k = fk_field f \<or> fk_resource_field f = Some k)"
  by (auto simp: clear_empty_fk_def Let_def js_get_set split: option.splits if_splits)

lemma cleared_empty: "cleared r r' \<Longrightarrow> js_get r' k = JStr [] \<Longrightarrow> js_get r k = JStr []"
  unfolding cleared_def by (metis jsval.distinct(1,3,5,7,9,11,13,15,17))

lemma clear_all:
  "cleared r (foldl clear_empty_fk r fs) \<and>
   (\<forall>f \<in> set fs. fk_optional f \<longrightarrow> js_get (foldl clear_empty_fk r fs) (fk_field f) \<noteq> JStr []) \<and>
   (\<forall>k. js_get (foldl clear_empty_fk r fs) k \<noteq> js_get r k \<longrightarrow>
      (\<exists>f \<in> set fs. fk_optional f \<and> js_get r (fk_field f) = JStr [] \<and> (k = fk_field f \<or> fk_resource_field f = Some k)))"
proof (induction fs rule: rev_induct)
  case (snoc f fs)
  let ?s = "foldl clear_empty_fk r fs"
  have step: "cleared ?s (clear_empty_fk ?s f)" by (rule clear_empty_fk_cleared)
  have "cleared r (clear_empty_fk ?s f)" using snoc step cleared_trans by blast
  moreover have "js_get (clear_empty_fk ?s f) (fk_field g) \<noteq> JStr []" if "g \<in> set (fs @ [f])" "fk_optional g" for g
    using that snoc cleared_empty [OF step] clear_empty_fk_done [of f ?s] by auto
  moreover have "\<exists>g \<in> set (fs @ [f]). fk_optional g \<and> js_get r (fk_field g) = JStr [] \<and> (k = fk_field g \<or> fk_resource_field g = Some k)"
    if "js_get (clear_empty_fk ?s f) k \<noteq> js_get r k" for k
  proof (cases "js_get ?s k = js_get r k")
    case True
    with that clear_empty_fk_change [of ?s f k] have "fk_optional f" "js_get ?s (fk_field f) = JStr []"
      "k = fk_field f \<or> fk_resource_field f = Some k" by auto
    moreover have "js_get r (fk_field f) = JStr []" using cleared_empty snoc calculation(2) by blast
    ultimately show ?thesis by auto
  next
    case False
    with snoc show ?thesis by auto
  qed
  ultimately show ?case by simp
qed (simp add: cleared_refl)

lemma clear_all_id:
  "(\<And>f. f \<in> set fs \<Longrightarrow> fk_optional f \<Longrightarrow> js_get r (fk_field f) \<noteq> JStr []) \<Longrightarrow> foldl clear_empty_fk r fs = r"
proof (induction fs)
  case (Cons f fs)
  have "clear_empty_fk r f = r"
    using Cons.prems [of f] clear_empty_fk_id by (cases "fk_optional f") (auto simp: clear_empty_fk_def)
  with Cons show ?case by simp
qed simp

section \<open>Join stores\<close>

definition join_names :: "relation_schema list \<Rightarrow> (string \<times> string \<times> string) list" where
  "join_names rels = concat (map (\<lambda>rel. if rl_type rel \<noteq> ManyMany then []
     else concat (map (\<lambda>(from, to). map (\<lambda>name. (from, to, name)) (store_names rel to)) (relation_pairs rel))) rels)"

lemma resolve_flat:
  "resolve_join_store_resources rels = foldl (\<lambda>m (from, to, name). add_join_resources from to m name) [] (join_names rels)"
proof -
  let ?g = "\<lambda>m (from, to, name). add_join_resources from to m name"
  have inner: "foldl (\<lambda>m (from, to). foldl (add_join_resources from to) m (store_names rel to)) m ps =
      foldl ?g m (concat (map (\<lambda>(from, to). map (\<lambda>name. (from, to, name)) (store_names rel to)) ps))" for rel m ps
    by (induction ps arbitrary: m) (auto simp: foldl_map)
  have "foldl (\<lambda>m rel. if rl_type rel \<noteq> ManyMany then m
       else foldl (\<lambda>m (from, to). foldl (add_join_resources from to) m (store_names rel to)) m (relation_pairs rel)) m rels =
     foldl ?g m (join_names rels)" for m
    unfolding join_names_def by (induction rels arbitrary: m) (auto simp: inner)
  then show ?thesis unfolding resolve_join_store_resources_def .
qed

lemma set_foldl_add: "set (foldl (\<lambda>s x. jset_add x s) s xs) = set s \<union> set xs"
  by (induction xs arbitrary: s) (auto simp: jset_simps)

lemma join_resources_fold:
  "set (or_else (jmap_get (foldl (\<lambda>m (from, to, name). add_join_resources from to m name) m ts) key) []) =
   set (or_else (jmap_get m key) []) \<union> {x. \<exists>(from, to, name) \<in> set ts. key = get_join_store_key from name to \<and> x \<in> {from, to}}"
proof (induction ts arbitrary: m)
  case (Cons p ts)
  obtain fr t name where p: "p = (fr, t, name)" by (cases p) auto
  have "set (or_else (jmap_get (add_join_resources fr t m name) key) []) =
      set (or_else (jmap_get m key) []) \<union> (if key = get_join_store_key fr name t then {fr, t} else {})"
    by (auto simp: add_join_resources_def Let_def jmap_simps jset_simps or_else_def set_foldl_add split: option.split)
  then show ?case unfolding p using Cons [of "add_join_resources fr t m name"] by auto
qed simp


lemma join_names_mem: "(f, t, name) \<in> set (join_names rels) \<longleftrightarrow>
    (\<exists>rel \<in> set rels. rl_type rel = ManyMany \<and> f \<in> set (endpoint_list (rl_from rel)) \<and> t \<in> set (endpoint_list (rl_to rel)) \<and>
       name \<in> set (store_names rel t))"
  by (auto simp: join_names_def relation_pairs_def split: if_splits)

section \<open>Properties\<close>

text \<open>
  Cleaning a record before it is stored: the keys of the record stay, the result holds no
  empty string in an optional foreign key, every change is a null in such a field or in the
  resource field beside it, and cleaning again changes nothing.
\<close>

theorem relation_fk_normalized:
  fixes schema :: datafn_schema and resource :: string and r :: jsrec
  defines "fks \<equiv> get_relation_fk_fields_for_resource schema resource"
  defines "r' \<equiv> normalize_relation_fk_record schema resource r"
  shows "map fst r' = map fst r \<and> normalize_relation_fk_record schema resource r' = r' \<and>
    list_all (\<lambda>f. js_get r' (fk_field f) \<noteq> JStr []) (filter fk_optional fks) \<and>
    (js_get r' k = js_get r k \<or> (js_get r' k = JNull \<and>
       list_ex (\<lambda>f. fk_optional f \<and> js_get r (fk_field f) = JStr [] \<and> (k = fk_field f \<or> fk_resource_field f = Some k)) fks))"
proof -
  have r': "r' = foldl clear_empty_fk r fks" by (simp add: r'_def fks_def normalize_relation_fk_record_def)
  note all = clear_all [of r fks, folded r']
  have "foldl clear_empty_fk r' fks = r'" by (rule clear_all_id) (use all in blast)
  then have "normalize_relation_fk_record schema resource r' = r'"
    by (simp add: normalize_relation_fk_record_def fks_def)
  then show ?thesis using all by (auto simp: cleared_def list_all_iff list_ex_iff)
qed

text \<open>
  C35: a join store key resolves to exactly the endpoints of the many-to-many relations that
  use it, under any of the names the clients and the server have used, and every key the
  clients enumerate is one of them.
\<close>

theorem join_store_resolved:
  "(x \<in> set (or_else (jmap_get (resolve_join_store_resources rels) key) [])) =
     (\<exists>rel f t name. rel \<in> set rels \<and> rl_type rel = ManyMany \<and> f \<in> set (endpoint_list (rl_from rel)) \<and>
        t \<in> set (endpoint_list (rl_to rel)) \<and> name \<in> set (store_names rel t) \<and>
        key = get_join_store_key f name t \<and> x \<in> {f, t}) \<and>
   (key \<in> set (enumerate_join_store_keys rels None)) =
     (\<exists>rel f t. rel \<in> set rels \<and> rl_type rel = ManyMany \<and> f \<in> set (endpoint_list (rl_from rel)) \<and>
        t \<in> set (endpoint_list (rl_to rel)) \<and> key = get_join_store_key f (get_relation_key_name rel t) t) \<and>
   get_relation_key_name rel t \<in> set (store_names rel t)"
proof (intro conjI)
  show "(x \<in> set (or_else (jmap_get (resolve_join_store_resources rels) key) [])) =
     (\<exists>rel f t name. rel \<in> set rels \<and> rl_type rel = ManyMany \<and> f \<in> set (endpoint_list (rl_from rel)) \<and>
        t \<in> set (endpoint_list (rl_to rel)) \<and> name \<in> set (store_names rel t) \<and>
        key = get_join_store_key f name t \<and> x \<in> {f, t})"
  proof -
    have "x \<in> set (or_else (jmap_get (resolve_join_store_resources rels) key) []) \<longleftrightarrow>
        (\<exists>f t name. (f, t, name) \<in> set (join_names rels) \<and> key = get_join_store_key f name t \<and> x \<in> {f, t})"
      unfolding resolve_flat join_resources_fold by (force simp: or_else_def)
    then show ?thesis unfolding join_names_mem by blast
  qed
  show "(key \<in> set (enumerate_join_store_keys rels None)) =
     (\<exists>rel f t. rel \<in> set rels \<and> rl_type rel = ManyMany \<and> f \<in> set (endpoint_list (rl_from rel)) \<and>
        t \<in> set (endpoint_list (rl_to rel)) \<and> key = get_join_store_key f (get_relation_key_name rel t) t)"
  proof -
    have "key \<in> set (enumerate_join_store_keys rels None) \<longleftrightarrow>
        (\<exists>rel \<in> set rels. rl_type rel = ManyMany \<and> (\<exists>f \<in> set (endpoint_list (rl_from rel)). \<exists>t \<in> set (endpoint_list (rl_to rel)).
          key = get_join_store_key f (get_relation_key_name rel t) t))"
      by (auto simp: enumerate_join_store_keys_def split: if_splits)
    then show ?thesis by blast
  qed
  show "get_relation_key_name rel t \<in> set (store_names rel t)" by (simp add: store_names_def)
qed

definition many_many :: "string \<Rightarrow> string \<Rightarrow> string \<Rightarrow> relation_schema" where
  "many_many from name to = \<lparr>rl_from = Single from, rl_to = Single to, rl_type = ManyMany, rl_relation = Some name,
     rl_inverse = None, rl_fk_field = None, rl_foreign_key = None, rl_fk_resource_field = None, rl_join_table = None,
     rl_inherits_inactive = None\<rparr>"

text \<open>
  Where the code departs from its intent: the parts of a join store key are joined by
  underscores, which names may contain, so two different relations can share one store and
  the key resolves to the resources of both.
\<close>

theorem join_store_keys_collide:
  "(let r1 = many_many ''a'' ''b_c'' ''d''; r2 = many_many ''a_b'' ''c'' ''d''
    in r1 \<noteq> r2 \<and> enumerate_join_store_keys [r1, r2] None = [''join_a_b_c_d'', ''join_a_b_c_d''] \<and>
       jmap_get (resolve_join_store_resources [r1, r2]) ''join_a_b_c_d'' = Some [''a'', ''d'', ''a_b''])"
proof -
  have "many_many ''a'' ''b_c'' ''d'' \<noteq> many_many ''a_b'' ''c'' ''d''" by (simp add: many_many_def)
  moreover have "enumerate_join_store_keys [many_many ''a'' ''b_c'' ''d'', many_many ''a_b'' ''c'' ''d''] None =
      [''join_a_b_c_d'', ''join_a_b_c_d'']" by code_simp
  moreover have "jmap_get (resolve_join_store_resources [many_many ''a'' ''b_c'' ''d'', many_many ''a_b'' ''c'' ''d'']) ''join_a_b_c_d'' =
      Some [''a'', ''d'', ''a_b'']" by code_simp
  ultimately show ?thesis by (simp add: Let_def)
qed

lemma longest_first:
  assumes "longest_prefix resources i schema = (name, p) # rest"
  shows "starts_with i p \<and> (\<exists>r \<in> set (sc_resources schema). rs_name r = name \<and> name \<in> set resources \<and> resource_prefix r = p) \<and>
    (\<forall>r \<in> set (sc_resources schema). rs_name r \<in> set resources \<longrightarrow> starts_with i (resource_prefix r) \<longrightarrow> length (resource_prefix r) \<le> length p)"
proof -
  let ?cmp = "\<lambda>left right. int (length (snd right)) - int (length (snd left)) :: int"
  let ?xs = "filter (\<lambda>candidate. starts_with i (snd candidate)) (map (\<lambda>r. (rs_name r, resource_prefix r))
      (filter (\<lambda>r. rs_name r \<in> set resources) (sc_resources schema)))"
  have sort: "js_sort ?cmp ?xs = (name, p) # rest" using assms by (simp only: longest_prefix_def)
  have "js_comparator ?cmp (\<lambda>_ :: string \<times> string. True)" by unfold_locales auto
  from js_comparator.sort_sorted [OF this, of ?xs] have "\<forall>x \<in> set rest. length (snd x) \<le> length p" unfolding sort by auto
  then have rest: "x \<in> insert (name, p) (set rest) \<Longrightarrow> length (snd x) \<le> length p" for x by auto
  have xs: "set ?xs = insert (name, p) (set rest)" using set_js_sort [of ?cmp ?xs] unfolding sort by simp
  have all: "length (resource_prefix r) \<le> length p"
    if "r \<in> set (sc_resources schema)" "rs_name r \<in> set resources" "starts_with i (resource_prefix r)" for r
  proof -
    have "(rs_name r, resource_prefix r) \<in> set ?xs" using that by auto
    from rest [OF this [unfolded xs]] show ?thesis by simp
  qed
  have "(name, p) \<in> set ?xs" unfolding xs by simp
  then have "starts_with i p \<and> (\<exists>r \<in> set (sc_resources schema). rs_name r = name \<and> name \<in> set resources \<and> resource_prefix r = p)"
    by auto
  then show ?thesis using all by blast
qed

text \<open>
  An identifier is resolved to an endpoint of the relation; among several endpoints, when
  the identifier carries the prefix of one, the chosen one has the longest such prefix.
\<close>

theorem endpoint_resolution:
  assumes "resolve_endpoint_resource e i schema = Some name"
  shows "name \<in> set (endpoint_list e) \<and>
    (\<forall>s sch r. i = JStr s \<and> schema = Some sch \<and> length (endpoint_list e) \<noteq> 1 \<and> r \<in> set (sc_resources sch) \<and>
       rs_name r \<in> set (endpoint_list e) \<and> starts_with s (resource_prefix r) \<longrightarrow>
       (\<exists>chosen \<in> set (sc_resources sch). rs_name chosen = name \<and> starts_with s (resource_prefix chosen) \<and>
          length (resource_prefix r) \<le> length (resource_prefix chosen)))"
proof (cases "length (endpoint_list e) = 1")
  case True
  then show ?thesis using assms by (cases "endpoint_list e") (auto simp: resolve_endpoint_resource_def)
next
  case several: False
  show ?thesis
  proof (cases "\<exists>s sch. i = JStr s \<and> schema = Some sch \<and> longest_prefix (endpoint_list e) s sch \<noteq> []")
    case True
    then obtain s sch n p rest where l: "i = JStr s" "schema = Some sch" "longest_prefix (endpoint_list e) s sch = (n, p) # rest"
      by (metis list.exhaust prod.exhaust)
    with assms several have "n = name" by (simp add: resolve_endpoint_resource_def)
    with longest_first [OF l(3)] l(1,2) show ?thesis by auto
  next
    case False
    then have "name \<in> set (endpoint_list e)"
      using assms several by (auto simp: resolve_endpoint_resource_def Let_def split: jsval.splits option.splits list.splits if_splits)
    moreover have "\<not> (r \<in> set (sc_resources sch) \<and> rs_name r \<in> set (endpoint_list e) \<and> starts_with s (resource_prefix r))"
      if "i = JStr s" "schema = Some sch" for s sch r
    proof -
      have "set (longest_prefix (endpoint_list e) s sch) = {}" using False that by auto
      then show ?thesis by (auto simp: longest_prefix_def filter_empty_conv)
    qed
    ultimately show ?thesis by blast
  qed
qed

definition prefixed :: "string \<Rightarrow> string option \<Rightarrow> resource_schema" where
  "prefixed name p = \<lparr>rs_name = name, rs_version = Fin 1, rs_id_prefix = p, rs_fields = [], rs_indices = None, rs_permissions = None\<rparr>"

theorem endpoint_resolution_witness:
  "resolve_endpoint_resource (Several [''doc'', ''docs'']) (JStr ''d:x:7'')
     (Some \<lparr>sc_resources = [prefixed ''doc'' (Some ''d:''), prefixed ''docs'' (Some ''d:x:'')], sc_relations = None\<rparr>) = Some ''docs'' \<and>
   ''docs'' \<in> set (endpoint_list (Several [''doc'', ''docs'']))"
proof -
  have r: "resolve_endpoint_resource (Several [''doc'', ''docs'']) (JStr ''d:x:7'')
     (Some \<lparr>sc_resources = [prefixed ''doc'' (Some ''d:''), prefixed ''docs'' (Some ''d:x:'')], sc_relations = None\<rparr>) = Some ''docs''"
    by code_simp
  with endpoint_resolution [OF r] show ?thesis by blast
qed

end
