(* ===== verification/SchemaViews.thy ===== *)
theory SchemaViews
  imports Relations
begin

text \<open>
  Views of the schema, from \<open>datafn/core\<close>: the lookup index (\<open>schema-index.ts\<close>), the built-in
  key-value resource (\<open>kv.ts\<close>), null normalisation on read (\<open>records.ts\<close>) and capabilities
  (\<open>capabilities.ts\<close>).
\<close>

section \<open>The schema index\<close>

record schema_index =
  si_resources :: "(string, resource_schema) jmap"
  si_fields :: "(string, (string, field_schema) jmap) jmap"
  si_relations :: "(string, relation_schema list) jmap"
  si_relations_from :: "(string, relation_schema list) jmap"

definition field_map :: "resource_schema \<Rightarrow> (string, field_schema) jmap" where
  "field_map r = foldl (\<lambda>m f. jmap_set (fs_name f) f m) [] (rs_fields r)"

text \<open>
  Relations are compared by identity in the code; here a relation under construction carries
  its position in the schema.
\<close>

type_synonym placed_relations = "(string, (nat \<times> relation_schema) list) jmap"

definition push_relation :: "nat \<times> relation_schema \<Rightarrow> placed_relations \<Rightarrow> string \<Rightarrow> placed_relations" where
  "push_relation rel m resource = jmap_set resource (or_else (jmap_get m resource) [] @ [rel]) m"

definition push_inverse :: "nat \<times> relation_schema \<Rightarrow> placed_relations \<Rightarrow> string \<Rightarrow> placed_relations" where
  "push_inverse rel m resource =
     (if rl_inverse (snd rel) = None \<or> rl_inverse (snd rel) = Some [] \<or> rel \<in> set (or_else (jmap_get m resource) []) then m
      else push_relation rel m resource)"

definition index_relation :: "placed_relations \<times> placed_relations \<Rightarrow> nat \<times> relation_schema \<Rightarrow> placed_relations \<times> placed_relations" where
  "index_relation ms rel =
     (let (all, from) = ms;
          froms = endpoint_list (rl_from (snd rel));
          all1 = foldl (push_relation rel) all froms
      in (foldl (push_inverse rel) all1 (endpoint_list (rl_to (snd rel))), foldl (push_relation rel) from froms))"

definition build_schema_index :: "datafn_schema \<Rightarrow> schema_index" where
  "build_schema_index schema =
     (let rs = sc_resources schema;
          empty = foldl (\<lambda>m r. jmap_set (rs_name r) [] m) [] rs;
          rels = or_else (sc_relations schema) [];
          (all, from) = foldl index_relation (empty, empty) (zip [0..<length rels] rels)
      in \<lparr>si_resources = foldl (\<lambda>m r. jmap_set (rs_name r) r m) [] rs,
          si_fields = foldl (\<lambda>m r. jmap_set (rs_name r) (field_map r) m) [] rs,
          si_relations = map (\<lambda>(k, placed). (k, map snd placed)) all,
          si_relations_from = map (\<lambda>(k, placed). (k, map snd placed)) from\<rparr>)"

definition get_resource :: "schema_index \<Rightarrow> string \<Rightarrow> resource_schema option" where
  "get_resource i name = jmap_get (si_resources i) name"

definition get_field :: "schema_index \<Rightarrow> string \<Rightarrow> string \<Rightarrow> field_schema option" where
  "get_field i resource field = Option.bind (jmap_get (si_fields i) resource) (\<lambda>m. jmap_get m field)"

definition get_relations_from :: "schema_index \<Rightarrow> string \<Rightarrow> relation_schema list" where
  "get_relations_from i resource = or_else (jmap_get (si_relations_from i) resource) []"

definition get_relation :: "schema_index \<Rightarrow> string \<Rightarrow> string \<Rightarrow> relation_schema option" where
  "get_relation i fromResource name =
     find (\<lambda>r. rl_relation r = Some name) (or_else (jmap_get (si_relations_from i) fromResource) [])"

definition get_relation_target :: "relation_schema \<Rightarrow> string" where
  "get_relation_target rel = first_endpoint (rl_to rel)"

definition find_relation_bidirectional :: "datafn_schema \<Rightarrow> string \<Rightarrow> string \<Rightarrow> relation_schema option" where
  "find_relation_bidirectional schema resource name =
     Option.bind (sc_relations schema) (find (\<lambda>r.
       (endpoint_includes (rl_from r) resource \<and> rl_relation r = Some name) \<or>
       (endpoint_includes (rl_to r) resource \<and> rl_inverse r = Some name)))"

section \<open>The key-value resource\<close>

definition KV_RESOURCE_NAME :: string where "KV_RESOURCE_NAME = ''kv''"

definition REQUIRED_KV_FIELDS :: "(string \<times> string \<times> bool) list" where
  "REQUIRED_KV_FIELDS = [(''id'', ''string'', True), (''value'', ''json'', False)]"

definition kv_id :: "jsval \<Rightarrow> string + string" where
  "kv_id key = (case key of JStr s \<Rightarrow> Inr (KV_RESOURCE_NAME @ '':'' @ s) | _ \<Rightarrow> Inl ''Invalid KV key: must be string'')"

definition plain_field :: "string \<Rightarrow> string \<Rightarrow> bool \<Rightarrow> field_schema" where
  "plain_field name ty required = \<lparr>fs_name = name, fs_type = ty, fs_required = required, fs_nullable = None,
     fs_readonly = None, fs_default = JUndef\<rparr>"

definition create_builtin_kv_resource :: resource_schema where
  "create_builtin_kv_resource =
     \<lparr>rs_name = KV_RESOURCE_NAME, rs_version = Fin 1, rs_id_prefix = Some KV_RESOURCE_NAME,
      rs_fields = [plain_field ''id'' ''string'' True, plain_field ''value'' ''json'' False],
      rs_indices = Some (FlatIndices [''id'']),
      rs_permissions = Some \<lparr>pp_read = Some [''id'', ''value''], pp_write = Some [''id'', ''value'']\<rparr>\<rparr>"

definition has_only_legacy_value_field :: "field_schema list \<Rightarrow> bool" where
  "has_only_legacy_value_field fields' =
     (case fields' of
        [f] \<Rightarrow> fs_name f = ''value'' \<and> \<not> fs_required f \<and> (fs_type f = ''string'' \<or> fs_type f = ''json'' \<or> fs_type f = ''object'')
      | _ \<Rightarrow> False)"

text \<open>The counts of an absent category are zero, and so are those of a flat list, which has no categories.\<close>

definition category_count :: "(index_categories \<Rightarrow> string list option) \<Rightarrow> index_categories option \<Rightarrow> nat" where
  "category_count f c = (case Option.bind c f of None \<Rightarrow> 0 | Some l \<Rightarrow> length l)"

definition has_empty_indices :: "resource_indices option \<Rightarrow> bool" where
  "has_empty_indices ix =
     (let categories = (case ix of Some (CategoryIndices c) \<Rightarrow> Some c | _ \<Rightarrow> None)
      in ix = None \<or> ix = Some (FlatIndices []) \<or>
         (category_count ix_base categories = 0 \<and> category_count ix_search categories = 0 \<and>
          category_count ix_vector categories = 0))"

definition is_builtin_kv_placeholder :: "resource_schema \<Rightarrow> bool" where
  "is_builtin_kv_placeholder r =
     (rs_version r = Fin 1 \<and> \<not> list_ex (\<lambda>f. fs_name f = ''id'') (rs_fields r) \<and>
      (rs_fields r = [] \<or> has_only_legacy_value_field (rs_fields r)) \<and>
      rs_id_prefix r = None \<and> has_empty_indices (rs_indices r) \<and> rs_permissions r = None)"

fun check_kv_fields :: "field_schema list \<Rightarrow> (string \<times> string \<times> bool) list \<Rightarrow> string + unit" where
  "check_kv_fields fields' [] = Inr ()"
| "check_kv_fields fields' ((name, ty, required) # rest) =
     (case find (\<lambda>f. fs_name f = name) fields' of
        None \<Rightarrow> Inl (''KV resource is missing required field '' @ CHR 0x22 # name @ [CHR 0x22])
      | Some f \<Rightarrow>
          if fs_type f \<noteq> ty \<or> fs_required f \<noteq> required
          then Inl (''KV resource field '' @ CHR 0x22 # name @ CHR 0x22 # '' is incompatible with the built-in KV schema'')
          else check_kv_fields fields' rest)"

definition base_indices :: "resource_schema \<Rightarrow> string list" where
  "base_indices r =
     (case rs_indices r of
        Some (FlatIndices l) \<Rightarrow> l
      | Some (CategoryIndices c) \<Rightarrow> or_else (ix_base c) []
      | None \<Rightarrow> [])"

fun check_kv_permissions :: "string list \<Rightarrow> string list \<Rightarrow> string list \<Rightarrow> string + unit" where
  "check_kv_permissions readFields writeFields [] = Inr ()"
| "check_kv_permissions readFields writeFields (name # rest) =
     (if name \<notin> set readFields \<or> name \<notin> set writeFields
      then Inl (''KV resource permissions must allow read/write access to '' @ CHR 0x22 # name @ [CHR 0x22])
      else check_kv_permissions readFields writeFields rest)"

definition validate_builtin_kv :: "(rat \<Rightarrow> string) \<Rightarrow> resource_schema \<Rightarrow> string + unit" where
  "validate_builtin_kv dtoa r =
     (if rs_version r \<noteq> Fin 1
      then Inl (''KV resource version mismatch: expected 1, got '' @ num_to_string dtoa (rs_version r))
      else bind_sum (check_kv_fields (rs_fields r) REQUIRED_KV_FIELDS) (\<lambda>_.
        if ''id'' \<notin> set (base_indices r)
        then Inl (''KV resource must include an '' @ CHR 0x22 # ''id'' @ CHR 0x22 # '' base index'')
        else check_kv_permissions
          (or_else (Option.bind (rs_permissions r) pp_read) []) (or_else (Option.bind (rs_permissions r) pp_write) [])
          [''id'', ''value'']))"

definition ensure_builtin_kv :: "(rat \<Rightarrow> string) \<Rightarrow> datafn_schema \<Rightarrow> string + datafn_schema" where
  "ensure_builtin_kv dtoa schema =
     (case find (\<lambda>r. rs_name r = KV_RESOURCE_NAME) (sc_resources schema) of
        Some existingKv \<Rightarrow>
          if is_builtin_kv_placeholder existingKv
          then Inr (schema\<lparr>sc_resources := map (\<lambda>r. if rs_name r = KV_RESOURCE_NAME then create_builtin_kv_resource else r)
                 (sc_resources schema)\<rparr>)
          else bind_sum (validate_builtin_kv dtoa existingKv) (\<lambda>_. Inr schema)
      | None \<Rightarrow> Inr (schema\<lparr>sc_resources := sc_resources schema @ [create_builtin_kv_resource]\<rparr>))"

section \<open>Nulls on read\<close>

definition get_non_nullable_field_names :: "resource_schema \<Rightarrow> string list" where
  "get_non_nullable_field_names r = map fs_name (filter (\<lambda>f. fs_nullable f \<noteq> Some True) (rs_fields r))"

text \<open>The copy is made on the first null found; without one the record itself is returned.\<close>

definition strip_field :: "jsrec \<Rightarrow> jsrec option \<Rightarrow> string \<Rightarrow> jsrec option" where
  "strip_field r copy name =
     (if js_get r name \<noteq> JNull then copy else Some (jmap_del name (or_else copy r)))"

definition strip_nulls_for_non_nullable_fields :: "jsrec \<Rightarrow> resource_schema option \<Rightarrow> jsrec" where
  "strip_nulls_for_non_nullable_fields r resource =
     (case resource of
        None \<Rightarrow> r
      | Some res \<Rightarrow> or_else (foldl (strip_field r) None (get_non_nullable_field_names res)) r)"

section \<open>Capabilities\<close>

datatype simple_capability = Timestamps | Audit | Trash | Archivable

text \<open>A shareable entry carries its configuration.\<close>

datatype capability_entry = Simple simple_capability | Shareable jsrec

datatype resource_capabilities = CapabilityList "capability_entry list" | ExcludeCapabilities "simple_capability list"

datatype capability_key = SimpleKey simple_capability | ShareableKey

definition capability_field :: "string \<Rightarrow> string \<Rightarrow> bool \<Rightarrow> bool \<Rightarrow> jsval \<Rightarrow> field_schema" where
  "capability_field name ty nullable readonly default_val =
     \<lparr>fs_name = name, fs_type = ty, fs_required = False, fs_nullable = Some nullable, fs_readonly = Some readonly, fs_default = default_val\<rparr>"

definition CAPABILITY_FIELD_DEFS :: "capability_key \<Rightarrow> field_schema list" where
  "CAPABILITY_FIELD_DEFS key =
     (case key of
        SimpleKey Timestamps \<Rightarrow>
          [capability_field ''createdAt'' ''date'' True True JNull, capability_field ''updatedAt'' ''date'' True True JNull]
      | SimpleKey Audit \<Rightarrow>
          [capability_field ''createdBy'' ''string'' True True JNull, capability_field ''updatedBy'' ''string'' True True JNull]
      | SimpleKey Trash \<Rightarrow>
          [capability_field ''trashedAt'' ''date'' True True JNull, capability_field ''trashedBy'' ''string'' True True JNull]
      | SimpleKey Archivable \<Rightarrow> [capability_field ''isArchived'' ''boolean'' False False (JBool False)]
      | ShareableKey \<Rightarrow> [capability_field ''visibility'' ''string'' True True JNull])"

definition RELATION_CAPABILITY_FIELD_DEFS :: "string \<Rightarrow> field_schema list" where
  "RELATION_CAPABILITY_FIELD_DEFS cap =
     (if cap = ''timestamps'' then
        [capability_field ''createdAt'' ''date'' True True JNull, capability_field ''updatedAt'' ''date'' True True JNull]
      else if cap = ''audit'' then
        [capability_field ''createdBy'' ''string'' True True JNull, capability_field ''updatedBy'' ''string'' True True JNull]
      else [])"

definition get_relation_capability_field_names :: "string list \<Rightarrow> string list" where
  "get_relation_capability_field_names caps =
     foldl (\<lambda>names cap. foldl (\<lambda>names f. jset_add (fs_name f) names) names (RELATION_CAPABILITY_FIELD_DEFS cap)) [] caps"

definition to_capability_key :: "capability_entry \<Rightarrow> capability_key" where
  "to_capability_key entry = (case entry of Simple c \<Rightarrow> SimpleKey c | Shareable _ \<Rightarrow> ShareableKey)"

definition dedupe_capabilities :: "capability_entry list \<Rightarrow> capability_entry list" where
  "dedupe_capabilities entries =
     snd (foldl (\<lambda>(seen, deduped) entry.
       if to_capability_key entry \<in> set seen then (seen, deduped)
       else (seen @ [to_capability_key entry], deduped @ [entry])) ([], []) entries)"

definition add_capability :: "capability_entry list \<Rightarrow> capability_entry \<Rightarrow> capability_entry list" where
  "add_capability resolved entry =
     (let key = to_capability_key entry
      in if key \<notin> set (map to_capability_key resolved) then resolved @ [entry]
         else if key = ShareableKey
           then resolved[length (takeWhile (\<lambda>c. to_capability_key c \<noteq> key) resolved) := entry]
         else resolved)"

definition resolve_capabilities :: "capability_entry list option \<Rightarrow> resource_capabilities option \<Rightarrow> capability_entry list" where
  "resolve_capabilities globalCaps resourceCaps =
     (let base = or_else globalCaps []
      in case resourceCaps of
           None \<Rightarrow> dedupe_capabilities base
         | Some (CapabilityList entries) \<Rightarrow> foldl add_capability (dedupe_capabilities base) entries
         | Some (ExcludeCapabilities excluded) \<Rightarrow>
             dedupe_capabilities (filter (\<lambda>entry. case entry of Simple c \<Rightarrow> c \<notin> set excluded | Shareable _ \<Rightarrow> True) base))"

definition add_capability_fields :: "field_schema list \<Rightarrow> capability_entry \<Rightarrow> field_schema list" where
  "add_capability_fields result entry =
     foldl (\<lambda>result f. if fs_name f \<in> set (map fs_name result) then result else result @ [f]) result
       (CAPABILITY_FIELD_DEFS (to_capability_key entry))"

definition get_capability_fields :: "capability_entry list \<Rightarrow> field_schema list" where
  "get_capability_fields resolvedCaps = foldl add_capability_fields [] (dedupe_capabilities resolvedCaps)"


section \<open>Lookups in the index\<close>

lemma foldl_set_lookup:
  "jmap_get (foldl (\<lambda>m x. jmap_set (f x) (g x) m) m xs) k =
     (case find (\<lambda>x. f x = k) (rev xs) of Some x \<Rightarrow> Some (g x) | None \<Rightarrow> jmap_get m k)"
  by (induction xs arbitrary: m rule: rev_induct) (auto simp: jmap_simps split: option.split)

definition placed_at :: "placed_relations \<Rightarrow> string \<Rightarrow> (nat \<times> relation_schema) list" where
  "placed_at m k = or_else (jmap_get m k) []"

lemma placed_push: "placed_at (push_relation rel m r) k = placed_at m k @ (if r = k then [rel] else [])"
  by (simp add: placed_at_def push_relation_def jmap_simps or_else_def)

lemma placed_push_all:
  "placed_at (foldl (push_relation rel) m rs) k = placed_at m k @ replicate (count_list rs k) rel"
proof (induction rs arbitrary: m)
  case (Cons r rs)
  have "[rel] @ replicate n rel = replicate (Suc n) rel" for n by simp
  with Cons show ?case by (auto simp: placed_push)
qed simp

lemma placed_inverse:
  "set (placed_at (foldl (push_inverse rel) m rs) k) =
     set (placed_at m k) \<union> (if k \<in> set rs \<and> rl_inverse (snd rel) \<noteq> None \<and> rl_inverse (snd rel) \<noteq> Some [] then {rel} else {})"
proof (induction rs arbitrary: m)
  case (Cons r rs)
  have "set (placed_at (push_inverse rel m r) k) =
      set (placed_at m k) \<union> (if k = r \<and> rl_inverse (snd rel) \<noteq> None \<and> rl_inverse (snd rel) \<noteq> Some [] then {rel} else {})"
    by (auto simp: push_inverse_def placed_push placed_at_def [symmetric])
  with Cons show ?case by auto
qed simp

lemma index_relations_from:
  "placed_at (snd (foldl index_relation ms rels)) k =
     placed_at (snd ms) k @ concat (map (\<lambda>rel. replicate (count_list (endpoint_list (rl_from (snd rel))) k) rel) rels)"
proof (induction rels arbitrary: ms)
  case (Cons rel rels)
  have "placed_at (snd (index_relation ms rel)) k =
      placed_at (snd ms) k @ replicate (count_list (endpoint_list (rl_from (snd rel))) k) rel"
    by (cases ms) (simp add: index_relation_def Let_def placed_push_all)
  with Cons [of "index_relation ms rel"] show ?case by simp
qed simp

lemma index_relations_all:
  "set (placed_at (fst (foldl index_relation ms rels)) k) =
     set (placed_at (fst ms) k) \<union> {rel \<in> set rels. k \<in> set (endpoint_list (rl_from (snd rel))) \<or>
       (k \<in> set (endpoint_list (rl_to (snd rel))) \<and> rl_inverse (snd rel) \<noteq> None \<and> rl_inverse (snd rel) \<noteq> Some [])}"
proof (induction rels arbitrary: ms)
  case (Cons rel rels)
  have "set (placed_at (fst (index_relation ms rel)) k) = set (placed_at (fst ms) k) \<union>
      (if k \<in> set (endpoint_list (rl_from (snd rel))) \<or>
         (k \<in> set (endpoint_list (rl_to (snd rel))) \<and> rl_inverse (snd rel) \<noteq> None \<and> rl_inverse (snd rel) \<noteq> Some []) then {rel} else {})"
    by (cases ms) (auto simp: index_relation_def Let_def placed_inverse placed_push_all count_list_0_iff)
  with Cons [of "index_relation ms rel"] show ?case by auto
qed simp

lemma get_map_snd: "jmap_get (map (\<lambda>(k, v). (k, h v)) m) k = map_option h (jmap_get m k)"
  by (induction m) auto

lemma placed_empty: "placed_at (foldl (\<lambda>m r. jmap_set (rs_name r) [] m) [] rs) k = []"
  unfolding placed_at_def foldl_set_lookup by (simp add: or_else_def split: option.split)

lemma map_or_else: "or_else (jmap_get (map (\<lambda>(k, v). (k, map h v)) m) k) [] = map h (placed_at m k)"
  by (simp add: placed_at_def get_map_snd or_else_def split: option.split)

lemma index_from_schema:
  "get_relations_from (build_schema_index schema) k =
     concat (map (\<lambda>rel. replicate (count_list (endpoint_list (rl_from rel)) k) rel) (or_else (sc_relations schema) []))"
proof -
  let ?rels = "or_else (sc_relations schema) []" and ?rs = "sc_resources schema"
  let ?empty = "foldl (\<lambda>m r. jmap_set (rs_name r) [] m) [] ?rs :: placed_relations"
  have "get_relations_from (build_schema_index schema) k =
      map snd (placed_at (snd (foldl index_relation (?empty, ?empty) (zip [0..<length ?rels] ?rels))) k)"
    unfolding get_relations_from_def build_schema_index_def Let_def
    by (cases "foldl index_relation (?empty, ?empty) (zip [0..<length ?rels] ?rels)") (simp only: prod.case schema_index.simps map_or_else snd_conv)
  also have "\<dots> = concat (map (\<lambda>rel. replicate (count_list (endpoint_list (rl_from (snd rel))) k) (snd rel)) (zip [0..<length ?rels] ?rels))"
    by (simp add: index_relations_from placed_empty map_concat comp_def)
  also have "\<dots> = concat (map (\<lambda>rel. replicate (count_list (endpoint_list (rl_from rel)) k) rel) (map snd (zip [0..<length ?rels] ?rels)))"
    by (simp only: map_map comp_def)
  also have "map snd (zip [0..<length ?rels] ?rels) = ?rels" by simp
  finally show ?thesis .
qed

lemma index_all_from_schema:
  "set (or_else (jmap_get (si_relations (build_schema_index schema)) k) []) =
     {rel \<in> set (or_else (sc_relations schema) []). k \<in> set (endpoint_list (rl_from rel)) \<or>
       (k \<in> set (endpoint_list (rl_to rel)) \<and> rl_inverse rel \<noteq> None \<and> rl_inverse rel \<noteq> Some [])}"
proof -
  let ?rels = "or_else (sc_relations schema) []" and ?rs = "sc_resources schema"
  let ?empty = "foldl (\<lambda>m r. jmap_set (rs_name r) [] m) [] ?rs :: placed_relations"
  have "or_else (jmap_get (si_relations (build_schema_index schema)) k) [] =
      map snd (placed_at (fst (foldl index_relation (?empty, ?empty) (zip [0..<length ?rels] ?rels))) k)"
    unfolding build_schema_index_def Let_def
    by (cases "foldl index_relation (?empty, ?empty) (zip [0..<length ?rels] ?rels)") (simp only: prod.case schema_index.simps map_or_else fst_conv)
  moreover have "snd ` set (zip [0..<length ?rels] ?rels) = set ?rels"
    by (metis length_map length_upt diff_zero map_snd_zip list.set_map)
  ultimately show ?thesis by (auto simp: index_relations_all placed_empty) (force simp: image_iff)+
qed

lemma find_replicated:
  "find P (concat (map (\<lambda>x. replicate (n x) x) xs)) = find (\<lambda>x. 0 < n x \<and> P x) xs"
proof (induction xs)
  case (Cons x xs)
  have "find P (replicate m x @ ys) = (if 0 < m \<and> P x then Some x else find P ys)" for m ys
    by (induction m) auto
  with Cons show ?case by simp
qed simp


section \<open>Properties\<close>

text \<open>
  C36: the index answers what a scan of the schema would: the last resource and field of a
  name, the first relation of a name from a resource, and as the relations involving a
  resource exactly those with it on the from side or, when they have an inverse, on the to
  side.
\<close>

theorem schema_index_agrees:
  fixes schema :: datafn_schema
  defines "i \<equiv> build_schema_index schema" and "rels \<equiv> or_else (sc_relations schema) []"
  shows "get_resource i name = find (\<lambda>r. rs_name r = name) (rev (sc_resources schema)) \<and>
    get_field i name field =
      Option.bind (find (\<lambda>r. rs_name r = name) (rev (sc_resources schema))) (\<lambda>r. find (\<lambda>f. fs_name f = field) (rev (rs_fields r))) \<and>
    get_relation i name rname = find (\<lambda>rel. endpoint_includes (rl_from rel) name \<and> rl_relation rel = Some rname) rels \<and>
    set (or_else (jmap_get (si_relations i) name) []) =
      {rel \<in> set rels. endpoint_includes (rl_from rel) name \<or>
         (endpoint_includes (rl_to rel) name \<and> rl_inverse rel \<noteq> None \<and> rl_inverse rel \<noteq> Some [])}"
proof (intro conjI)
  have look: "si_resources i = foldl (\<lambda>m r. jmap_set (rs_name r) r m) [] (sc_resources schema)"
    "si_fields i = foldl (\<lambda>m r. jmap_set (rs_name r) (field_map r) m) [] (sc_resources schema)"
    by (simp_all add: i_def build_schema_index_def Let_def case_prod_unfold)
  show "get_resource i name = find (\<lambda>r. rs_name r = name) (rev (sc_resources schema))"
    unfolding get_resource_def look foldl_set_lookup by (simp split: option.split)
  have "jmap_get (field_map r) field = find (\<lambda>f. fs_name f = field) (rev (rs_fields r))" for r
    unfolding field_map_def foldl_set_lookup by (simp split: option.split)
  then show "get_field i name field =
      Option.bind (find (\<lambda>r. rs_name r = name) (rev (sc_resources schema))) (\<lambda>r. find (\<lambda>f. fs_name f = field) (rev (rs_fields r)))"
    unfolding get_field_def look foldl_set_lookup by (simp split: option.split)
  have "0 < count_list (endpoint_list e) name \<longleftrightarrow> endpoint_includes e name" for e
    by (simp add: endpoint_includes_def count_list_0_iff zero_less_iff_neq_zero)
  then show "get_relation i name rname = find (\<lambda>rel. endpoint_includes (rl_from rel) name \<and> rl_relation rel = Some rname) rels"
    using index_from_schema [of schema name]
    by (simp add: get_relation_def get_relations_from_def i_def rels_def find_replicated)
  show "set (or_else (jmap_get (si_relations i) name) []) =
      {rel \<in> set rels. endpoint_includes (rl_from rel) name \<or>
         (endpoint_includes (rl_to rel) name \<and> rl_inverse rel \<noteq> None \<and> rl_inverse rel \<noteq> Some [])}"
    unfolding i_def rels_def index_all_from_schema endpoint_includes_def ..
qed

lemma builtin_valid: "validate_builtin_kv dtoa create_builtin_kv_resource = Inr ()"
  by (simp add: validate_builtin_kv_def create_builtin_kv_resource_def REQUIRED_KV_FIELDS_def plain_field_def base_indices_def or_else_def)

lemma builtin_not_placeholder: "\<not> is_builtin_kv_placeholder create_builtin_kv_resource"
  by (simp add: is_builtin_kv_placeholder_def create_builtin_kv_resource_def plain_field_def)

lemma find_builtin:
  "find (\<lambda>r. rs_name r = KV_RESOURCE_NAME) (map (\<lambda>r. if rs_name r = KV_RESOURCE_NAME then create_builtin_kv_resource else r) rs) =
     (if list_ex (\<lambda>r. rs_name r = KV_RESOURCE_NAME) rs then Some create_builtin_kv_resource else None)"
  by (induction rs) (auto simp: create_builtin_kv_resource_def)

text \<open>
  C40: whenever the key-value resource is ensured, the schema holds one that passes its own
  validation, the other resources and the relations are as before, and ensuring it again
  changes nothing.
\<close>

theorem kv_ensured:
  assumes "ensure_builtin_kv dtoa schema = Inr schema'"
  shows "(\<exists>kv. find (\<lambda>r. rs_name r = KV_RESOURCE_NAME) (sc_resources schema') = Some kv \<and> validate_builtin_kv dtoa kv = Inr ()) \<and>
    filter (\<lambda>r. rs_name r \<noteq> KV_RESOURCE_NAME) (sc_resources schema') = filter (\<lambda>r. rs_name r \<noteq> KV_RESOURCE_NAME) (sc_resources schema) \<and>
    sc_relations schema' = sc_relations schema \<and> ensure_builtin_kv dtoa schema' = Inr schema'"
proof (cases "find (\<lambda>r. rs_name r = KV_RESOURCE_NAME) (sc_resources schema)")
  case None
  have app: "find P (xs @ ys) = (case find P xs of None \<Rightarrow> find P ys | Some x \<Rightarrow> Some x)" for P and xs ys :: "resource_schema list"
    by (induction xs) auto
  have s: "schema' = schema\<lparr>sc_resources := sc_resources schema @ [create_builtin_kv_resource]\<rparr>"
    using assms None by (simp add: ensure_builtin_kv_def)
  have kv: "find (\<lambda>r. rs_name r = KV_RESOURCE_NAME) (sc_resources schema') = Some create_builtin_kv_resource"
    unfolding s using None by (simp add: app create_builtin_kv_resource_def)
  then have "ensure_builtin_kv dtoa schema' = Inr schema'"
    by (simp add: ensure_builtin_kv_def builtin_valid builtin_not_placeholder)
  moreover have "rs_name create_builtin_kv_resource = KV_RESOURCE_NAME" by (simp add: create_builtin_kv_resource_def)
  ultimately show ?thesis using kv builtin_valid by (simp add: s)
next
  case (Some kv)
  show ?thesis
  proof (cases "is_builtin_kv_placeholder kv")
    case True
    let ?f = "\<lambda>r. if rs_name r = KV_RESOURCE_NAME then create_builtin_kv_resource else r"
    have s: "schema' = schema\<lparr>sc_resources := map ?f (sc_resources schema)\<rparr>"
      using assms Some True by (simp add: ensure_builtin_kv_def)
    have "list_ex (\<lambda>r. rs_name r = KV_RESOURCE_NAME) (sc_resources schema)"
      using Some by (auto simp: find_Some_iff list_ex_iff)
    then have kv': "find (\<lambda>r. rs_name r = KV_RESOURCE_NAME) (sc_resources schema') = Some create_builtin_kv_resource"
      by (simp add: s find_builtin)
    then have "ensure_builtin_kv dtoa schema' = Inr schema'"
      by (simp add: ensure_builtin_kv_def builtin_valid builtin_not_placeholder)
    moreover have "filter (\<lambda>r. rs_name r \<noteq> KV_RESOURCE_NAME) (map ?f rs) = filter (\<lambda>r. rs_name r \<noteq> KV_RESOURCE_NAME) rs" for rs
      by (induction rs) (auto simp: create_builtin_kv_resource_def)
    ultimately show ?thesis using kv' builtin_valid by (simp add: s)
  next
    case False
    then obtain "validate_builtin_kv dtoa kv = Inr ()" "schema' = schema"
      using assms Some by (auto simp: ensure_builtin_kv_def bind_sum_Inr)
    then show ?thesis using Some False by (simp add: ensure_builtin_kv_def)
  qed
qed

theorem kv_ensured_witness:
  "\<exists>schema'. ensure_builtin_kv (\<lambda>_. []) \<lparr>sc_resources = [], sc_relations = None\<rparr> = Inr schema' \<and>
     (\<exists>kv. find (\<lambda>r. rs_name r = KV_RESOURCE_NAME) (sc_resources schema') = Some kv)"
proof -
  have e: "ensure_builtin_kv (\<lambda>_. []) \<lparr>sc_resources = [], sc_relations = None\<rparr> =
      Inr \<lparr>sc_resources = [create_builtin_kv_resource], sc_relations = None\<rparr>" by (simp add: ensure_builtin_kv_def)
  from kv_ensured [OF this] e show ?thesis by blast
qed

definition legacy_kv :: "resource_indices \<Rightarrow> datafn_schema" where
  "legacy_kv ix = \<lparr>sc_resources = [\<lparr>rs_name = ''kv'', rs_version = Fin 1, rs_id_prefix = None,
     rs_fields = [plain_field ''value'' ''json'' False], rs_indices = Some ix, rs_permissions = None\<rparr>], sc_relations = None\<rparr>"

text \<open>
  Where the code departs from its intent: the test that a legacy key-value resource has
  no indices is always true for a flat list of indices. A resource with the flat index
  \<open>["value"]\<close> is taken for an empty placeholder and replaced, so its index is lost, while the
  same index written by category is rejected.
\<close>

theorem flat_indices_ignored:
  "ensure_builtin_kv dtoa (legacy_kv (FlatIndices [''value''])) =
     Inr \<lparr>sc_resources = [create_builtin_kv_resource], sc_relations = None\<rparr> \<and>
   \<not> ''value'' \<in> set (base_indices create_builtin_kv_resource) \<and>
   (\<exists>message. ensure_builtin_kv dtoa (legacy_kv (CategoryIndices \<lparr>ix_base = Some [''value''], ix_search = None, ix_vector = None\<rparr>)) = Inl message)"
  by (simp add: ensure_builtin_kv_def legacy_kv_def KV_RESOURCE_NAME_def is_builtin_kv_placeholder_def plain_field_def
      has_only_legacy_value_field_def has_empty_indices_def category_count_def validate_builtin_kv_def REQUIRED_KV_FIELDS_def
      base_indices_def create_builtin_kv_resource_def)

lemma strip_fields:
  "or_else (foldl (strip_field r) c names) r = foldl (\<lambda>s name. if js_get r name \<noteq> JNull then s else jmap_del name s) (or_else c r) names"
  by (induction names arbitrary: c) (auto simp: strip_field_def or_else_def)

lemma strip_fields_get:
  "jmap_get (foldl (\<lambda>s name. if js_get r name \<noteq> JNull then s else jmap_del name s) s names) k =
     (if k \<in> set names \<and> js_get r k = JNull then None else jmap_get s k)"
  by (induction names arbitrary: s) (auto simp: jmap_simps)

text \<open>
  Reading a record drops exactly the nulls of declared fields that are not nullable;
  every other member is as stored.
\<close>

theorem nulls_stripped:
  "jmap_get (strip_nulls_for_non_nullable_fields r (Some res)) k =
     (if list_ex (\<lambda>f. fs_name f = k \<and> fs_nullable f \<noteq> Some True) (rs_fields res) \<and> jmap_get r k = Some JNull
      then None else jmap_get r k)"
proof -
  have "k \<in> set (get_non_nullable_field_names res) \<longleftrightarrow> list_ex (\<lambda>f. fs_name f = k \<and> fs_nullable f \<noteq> Some True) (rs_fields res)"
    by (auto simp: get_non_nullable_field_names_def list_ex_iff)
  moreover have "js_get r k = JNull \<longleftrightarrow> jmap_get r k = Some JNull" by (auto simp: js_get_def split: option.split)
  ultimately show ?thesis
    unfolding strip_nulls_for_non_nullable_fields_def option.case strip_fields strip_fields_get
    by (simp add: or_else_def)
qed


lemma dedupe_keys:
  "distinct (map to_capability_key (dedupe_capabilities es)) \<and>
   set (map to_capability_key (dedupe_capabilities es)) = set (map to_capability_key es)"
proof -
  let ?step = "\<lambda>(seen, deduped) entry. if to_capability_key entry \<in> set seen then (seen, deduped)
       else (seen @ [to_capability_key entry], deduped @ [entry])"
  have "distinct (map to_capability_key d) \<Longrightarrow>
      fst (foldl ?step (map to_capability_key d, d) es) = map to_capability_key (snd (foldl ?step (map to_capability_key d, d) es)) \<and>
      distinct (map to_capability_key (snd (foldl ?step (map to_capability_key d, d) es))) \<and>
      set (map to_capability_key (snd (foldl ?step (map to_capability_key d, d) es))) = set (map to_capability_key d) \<union> set (map to_capability_key es)" for d
  proof (induction es arbitrary: d)
    case (Cons e es)
    show ?case
    proof (cases "to_capability_key e \<in> set (map to_capability_key d)")
      case True
      with Cons.IH [OF Cons.prems] show ?thesis by auto
    next
      case False
      then have d: "distinct (map to_capability_key (d @ [e]))" using Cons.prems by simp
      show ?thesis using False Cons.IH [OF d] by auto
    qed
  qed simp
  from this [of "[]"] show ?thesis by (simp add: dedupe_capabilities_def)
qed

lemma add_capability_keys:
  assumes "distinct (map to_capability_key d)"
  shows "distinct (map to_capability_key (add_capability d e)) \<and>
    set (map to_capability_key (add_capability d e)) = insert (to_capability_key e) (set (map to_capability_key d))"
proof (cases "to_capability_key e \<in> set (map to_capability_key d)")
  case True
  let ?n = "length (takeWhile (\<lambda>c. to_capability_key c \<noteq> to_capability_key e) d)"
  from True have "?n < length d" "to_capability_key (d ! ?n) = to_capability_key e"
    by (induction d) auto
  then have "map to_capability_key (d[?n := e]) = map to_capability_key d"
    by (metis list_update_id map_update nth_map)
  then have "map to_capability_key (add_capability d e) = map to_capability_key d"
    using True by (auto simp: add_capability_def Let_def)
  then show ?thesis using True assms by (simp only: insert_absorb)
qed (use assms in \<open>auto simp: add_capability_def Let_def\<close>)

lemma add_capabilities_keys:
  "distinct (map to_capability_key d) \<Longrightarrow>
    distinct (map to_capability_key (foldl add_capability d es)) \<and>
    set (map to_capability_key (foldl add_capability d es)) = set (map to_capability_key d) \<union> set (map to_capability_key es)"
proof (induction es arbitrary: d)
  case (Cons e es)
  with add_capability_keys [OF Cons.prems, of e] show ?case by auto
qed simp

lemma capability_fields_distinct: "distinct (map fs_name d) \<Longrightarrow> distinct (map fs_name (add_capability_fields d e))"
proof -
  have "distinct (map fs_name d) \<Longrightarrow>
      distinct (map fs_name (foldl (\<lambda>result f. if fs_name f \<in> set (map fs_name result) then result else result @ [f]) d fs))" for fs
    by (induction fs arbitrary: d) auto
  then show "distinct (map fs_name d) \<Longrightarrow> ?thesis" by (simp add: add_capability_fields_def)
qed

text \<open>
  The capabilities resolved for a resource are each there once, and are those of the
  schema together with those the resource adds, or without those it excludes; the fields they
  inject have distinct names.
\<close>

theorem capabilities_resolved:
  "distinct (map to_capability_key (resolve_capabilities g r)) \<and>
   set (map to_capability_key (resolve_capabilities g r)) =
     (let base = set (map to_capability_key (or_else g []))
      in case r of
           None \<Rightarrow> base
         | Some (CapabilityList es) \<Rightarrow> base \<union> set (map to_capability_key es)
         | Some (ExcludeCapabilities ex) \<Rightarrow> base - SimpleKey ` set ex) \<and>
   distinct (map fs_name (get_capability_fields caps))"
proof -
  have ex: "to_capability_key ` {e \<in> set es. case e of Simple c \<Rightarrow> c \<notin> set ex | Shareable _ \<Rightarrow> True} =
      to_capability_key ` set es - SimpleKey ` set ex" for es ex
  proof (intro set_eqI iffI)
    fix k assume "k \<in> to_capability_key ` {e \<in> set es. case e of Simple c \<Rightarrow> c \<notin> set ex | Shareable _ \<Rightarrow> True}"
    then obtain e where e: "e \<in> set es" "k = to_capability_key e" "case e of Simple c \<Rightarrow> c \<notin> set ex | Shareable _ \<Rightarrow> True" by auto
    then have "k \<in> to_capability_key ` set es" by simp
    moreover have "k \<notin> SimpleKey ` set ex" using e(2,3) by (cases e) (auto simp: to_capability_key_def)
    ultimately show "k \<in> to_capability_key ` set es - SimpleKey ` set ex" by simp
  next
    fix k assume "k \<in> to_capability_key ` set es - SimpleKey ` set ex"
    then obtain e where "e \<in> set es" "k = to_capability_key e" "k \<notin> SimpleKey ` set ex" by auto
    then show "k \<in> to_capability_key ` {e \<in> set es. case e of Simple c \<Rightarrow> c \<notin> set ex | Shareable _ \<Rightarrow> True}"
      by (intro rev_image_eqI [of e]) (auto simp: to_capability_key_def split: capability_entry.split)
  qed
  have "distinct (map fs_name (foldl add_capability_fields [] es))" for es
    by (rule foldl_invariant [where P = "\<lambda>d. distinct (map fs_name d)"]) (simp_all add: capability_fields_distinct)
  then have fields_ok: "distinct (map fs_name (get_capability_fields caps))" by (simp only: get_capability_fields_def)
  show ?thesis
  proof (cases r)
    case None
    then show ?thesis using dedupe_keys fields_ok by (simp add: resolve_capabilities_def)
  next
    case (Some rc)
    show ?thesis
    proof (cases rc)
      case (CapabilityList es)
      with Some show ?thesis using dedupe_keys [of "or_else g []"] add_capabilities_keys fields_ok
        by (simp only: resolve_capabilities_def Let_def option.case resource_capabilities.case)
    next
      case (ExcludeCapabilities x)
      with Some show ?thesis using dedupe_keys [of "filter (\<lambda>e. case e of Simple c \<Rightarrow> c \<notin> set x | Shareable _ \<Rightarrow> True) (or_else g [])"] ex [of "or_else g []" x] fields_ok
        by (simp add: resolve_capabilities_def)
    qed
  qed
qed

end
