(* ===== verification/Validation.thy ===== *)
theory Validation
  imports Relations
begin

text \<open>
  Validation primitives of \<open>datafn/core\<close>: error codes and envelopes (\<open>errors.ts\<close>), encrypted
  values (\<open>e2ee.ts\<close>), the search for unsafe keys and the check of a value against its schema
  type (\<open>validate.ts\<close>). \<open>Date.parse\<close> is a parameter. Values are trees, so the set of visited
  objects, which guards against cycles, has nothing to do.
\<close>

section \<open>Error envelopes\<close>

definition DATAFN_ERROR_CODES :: "string list" where
  "DATAFN_ERROR_CODES = [
     ''SCHEMA_INVALID'', ''INVALID_CAPABILITY'', ''INVALID_CAPABILITY_CONFIG'', ''CAPABILITY_FIELD_COLLISION'',
     ''SYSTEM_FIELD_COLLISION'', ''CAPABILITY_DEPENDENCY'', ''DFQL_INVALID'', ''DFQL_UNKNOWN_RESOURCE'',
     ''DFQL_UNKNOWN_FIELD'', ''DFQL_UNKNOWN_RELATION'', ''DFQL_UNSUPPORTED'', ''DATAFN_UNSUPPORTED_PROTOCOL_VERSION'',
     ''DFQL_ABORTED'', ''LIMIT_EXCEEDED'', ''FORBIDDEN'', ''NOT_FOUND'', ''CONFLICT'', ''RELATION_RESTRICTED'', ''INTERNAL'',
     ''TRANSACTION_ROLLED_BACK'', ''BRIDGE_UNAVAILABLE'', ''BRIDGE_PROTOCOL_MISMATCH'', ''BRIDGE_METHOD_UNSUPPORTED'',
     ''NATIVE_BRIDGE_UNAVAILABLE'', ''NATIVE_SEARCH_UNAVAILABLE'', ''NATIVE_SYNC_CONFLICT'', ''SEARCH_INDEX_REBUILD_FAILED'',
     ''ICLOUD_UNAVAILABLE'', ''TRANSPORT_ERROR'', ''DATAFN_PLACEMENT_NOT_FOUND'', ''DATAFN_PLACEMENT_UNAVAILABLE'',
     ''DATAFN_REGION_MISMATCH'', ''DATAFN_NAMESPACE_MOVING'', ''DATAFN_CELL_UNAVAILABLE'', ''DATAFN_ROUTING_ASSERTION_INVALID'',
     ''DATAFN_ROUTING_RETRY_EXHAUSTED'', ''DATAFN_PAYLOAD_TOO_LARGE'', ''DATAFN_NAMESPACE_STORAGE_UNSUPPORTED'',
     ''DATAFN_NAMESPACE_STORAGE_VERSION_MISMATCH'', ''DATAFN_NAMESPACE_STORAGE_INCOMPLETE'',
     ''DATAFN_NAMESPACE_STORAGE_UNKNOWN'', ''DATAFN_NAMESPACE_STORAGE_INVALID'']"

definition is_datafn_error_code :: "jsval \<Rightarrow> bool" where
  "is_datafn_error_code v = (case v of JStr s \<Rightarrow> s \<in> set DATAFN_ERROR_CODES | _ \<Rightarrow> False)"

record datafn_error =
  de_code :: string
  de_message :: string
  de_details :: jsval

datatype 'a envelope = EnvelopeOk 'a | EnvelopeError datafn_error

definition envelope_ok :: "'a \<Rightarrow> 'a envelope" where
  "envelope_ok result = EnvelopeOk result"

definition envelope_err :: "string \<Rightarrow> string \<Rightarrow> jsval \<Rightarrow> 'a envelope" where
  "envelope_err code message details =
     EnvelopeError \<lparr>de_code = code, de_message = message,
       de_details = (if js_nullish details then JObj [(''path'', JStr ''$'')] else details)\<rparr>"

section \<open>Encrypted values\<close>

definition DATAFN_E2EE_ENVELOPE_MARKER :: string where "DATAFN_E2EE_ENVELOPE_MARKER = ''__datafnE2ee''"

definition nonempty_string :: "jsval \<Rightarrow> bool" where
  "nonempty_string v = (case v of JStr s \<Rightarrow> s \<noteq> [] | _ \<Rightarrow> False)"

definition is_datafn_e2ee_envelope :: "jsval \<Rightarrow> bool" where
  "is_datafn_e2ee_envelope v =
     (case v of
        JObj r \<Rightarrow>
          js_get r DATAFN_E2EE_ENVELOPE_MARKER = JNum (Fin 1) \<and> js_get r ''alg'' = JStr ''AES-GCM'' \<and>
          nonempty_string (js_get r ''keyRef'') \<and> nonempty_string (js_get r ''iv'') \<and> nonempty_string (js_get r ''data'')
      | _ \<Rightarrow> False)"

section \<open>Unsafe keys\<close>

text \<open>The loop that returns at the first result.\<close>

fun first_some :: "('a \<Rightarrow> 'b option) \<Rightarrow> 'a list \<Rightarrow> 'b option" where
  "first_some f [] = None"
| "first_some f (x # xs) = (case f x of Some y \<Rightarrow> Some y | None \<Rightarrow> first_some f xs)"

lemma first_some_cong [fundef_cong]: "xs = ys \<Longrightarrow> (\<And>x. x \<in> set ys \<Longrightarrow> f x = g x) \<Longrightarrow> first_some f xs = first_some g ys"
  by (induction xs arbitrary: ys) (auto split: option.split)

lemma first_some_None: "first_some f xs = None \<longleftrightarrow> (\<forall>x \<in> set xs. f x = None)"
  by (induction xs) (auto split: option.split)

lemma first_some_Some: "first_some f xs = Some y \<Longrightarrow> \<exists>x \<in> set xs. f x = Some y"
  by (induction xs) (auto split: option.splits)

lemma weight_member: "(k, v) \<in> set r \<Longrightarrow> weight v < weight (JObj r)"
proof -
  assume "(k, v) \<in> set r"
  then have "weight v \<in> set (map (\<lambda>kv. weight (snd kv)) r)" by force
  then show ?thesis by (simp add: member_le_sum_list less_Suc_eq_le)
qed

function check_prototype_pollution :: "jsval \<Rightarrow> string option" where
  "check_prototype_pollution v =
     (case v of
        JArr vs \<Rightarrow> first_some check_prototype_pollution vs
      | JObj r \<Rightarrow> first_some (\<lambda>(key, w). if key \<in> set DISALLOWED_KEYS then Some key else check_prototype_pollution w) r
      | _ \<Rightarrow> None)"
  by pat_completeness auto
termination
  by (relation "measure weight") (use weight_elem weight_member in \<open>auto simp del: weight.simps\<close>)

declare check_prototype_pollution.simps [simp del]

inductive occurs_key :: "string \<Rightarrow> jsval \<Rightarrow> bool" where
  here: "(k, v) \<in> set r \<Longrightarrow> occurs_key k (JObj r)"
| member: "(j, v) \<in> set r \<Longrightarrow> occurs_key k v \<Longrightarrow> occurs_key k (JObj r)"
| element: "v \<in> set vs \<Longrightarrow> occurs_key k v \<Longrightarrow> occurs_key k (JArr vs)"

inductive_cases occurs_obj: "occurs_key k (JObj r)"
inductive_cases occurs_arr: "occurs_key k (JArr vs)"
inductive_simps occurs_scalar: "occurs_key k JUndef" "occurs_key k JNull" "occurs_key k (JBool b)" "occurs_key k (JNum n)" "occurs_key k (JStr s)"

section \<open>Field values\<close>

definition eat_digits :: "nat \<Rightarrow> string \<Rightarrow> string option" where
  "eat_digits n s = (if n \<le> length s \<and> list_all is_digit (take n s) then Some (drop n s) else None)"

definition eat_char :: "char \<Rightarrow> string \<Rightarrow> string option" where
  "eat_char c s = (case s of [] \<Rightarrow> None | d # t \<Rightarrow> if d = c then Some t else None)"

definition iso_zone :: "string \<Rightarrow> bool" where
  "iso_zone s =
     (s = [] \<or> s = ''Z'' \<or>
      (case s of
         c # t \<Rightarrow> (c = CHR ''+'' \<or> c = CHR ''-'') \<and>
           Option.bind (Option.bind (eat_digits 2 t) (eat_char CHR '':'')) (eat_digits 2) = Some []
       | [] \<Rightarrow> False))"

definition iso_seconds :: "string \<Rightarrow> bool" where
  "iso_seconds s =
     (case eat_char CHR '':'' s of
        None \<Rightarrow> iso_zone s
      | Some t \<Rightarrow>
          (case eat_digits 2 t of
             None \<Rightarrow> False
           | Some u \<Rightarrow>
               (case eat_char CHR ''.'' u of
                  None \<Rightarrow> iso_zone u
                | Some w \<Rightarrow> takeWhile is_digit w \<noteq> [] \<and> iso_zone (dropWhile is_digit w))))"

text \<open>The regular expression \<open>ISO_DATE_RE\<close>; its alternatives differ in their first character.\<close>

definition iso_date_re :: "string \<Rightarrow> bool" where
  "iso_date_re s =
     (case Option.bind (Option.bind (Option.bind (Option.bind (eat_digits 4 s) (eat_char CHR ''-'')) (eat_digits 2)) (eat_char CHR ''-'')) (eat_digits 2) of
        None \<Rightarrow> False
      | Some t \<Rightarrow>
          t = [] \<or>
          (case Option.bind (Option.bind (Option.bind (eat_char CHR ''T'' t) (eat_digits 2)) (eat_char CHR '':'')) (eat_digits 2) of
             None \<Rightarrow> False
           | Some u \<Rightarrow> iso_seconds u))"

definition js_typeof :: "jsval \<Rightarrow> string" where
  "js_typeof v = (case v of JUndef \<Rightarrow> ''undefined'' | JNull \<Rightarrow> ''object'' | JBool _ \<Rightarrow> ''boolean'' | JNum _ \<Rightarrow> ''number''
     | JStr _ \<Rightarrow> ''string'' | JArr _ \<Rightarrow> ''object'' | JObj _ \<Rightarrow> ''object'')"

definition validate_field_value :: "(string \<Rightarrow> jsnum) \<Rightarrow> string \<Rightarrow> jsval \<Rightarrow> bool \<Rightarrow> string + unit" where
  "validate_field_value date_parse schemaType v nullable =
     (if is_datafn_e2ee_envelope v then Inr ()
      else if v = JNull then (if nullable then Inr () else Inl (''expected '' @ schemaType @ '', got null''))
      else if schemaType = ''string'' then
        (case v of JStr _ \<Rightarrow> Inr () | _ \<Rightarrow> Inl (''expected string, got '' @ js_typeof v))
      else if schemaType = ''number'' then
        (case v of
           JNum x \<Rightarrow> if x = NaN then Inl ''expected number, got NaN'' else Inr ()
         | _ \<Rightarrow> Inl (''expected number, got '' @ js_typeof v))
      else if schemaType = ''boolean'' then
        (case v of JBool _ \<Rightarrow> Inr () | _ \<Rightarrow> Inl (''expected boolean, got '' @ js_typeof v))
      else if schemaType = ''date'' then
        (case v of
           JStr s \<Rightarrow>
             if \<not> iso_date_re s \<or> date_parse s = NaN
             then Inl ''expected date (ISO 8601 string or epoch number), got invalid date string'' else Inr ()
         | JNum x \<Rightarrow>
             if \<not> is_fin x then Inl ''expected date (ISO 8601 string or epoch number), got invalid epoch number'' else Inr ()
         | _ \<Rightarrow> Inl (''expected date (ISO 8601 string or epoch number), got '' @ js_typeof v))
      else if schemaType = ''object'' then
        (case v of
           JObj _ \<Rightarrow> Inr ()
         | JArr _ \<Rightarrow> Inl ''expected object, got array''
         | _ \<Rightarrow> Inl (''expected object, got '' @ js_typeof v))
      else if schemaType = ''array'' then
        (case v of JArr _ \<Rightarrow> Inr () | _ \<Rightarrow> Inl (''expected array, got '' @ js_typeof v))
      else if schemaType = ''file'' then
        (case v of JStr _ \<Rightarrow> Inr () | _ \<Rightarrow> Inl (''expected file (string), got '' @ js_typeof v))
      else if schemaType = ''json'' then
        (if v = JUndef then Inl (''expected json, got '' @ js_typeof v) else Inr ())
      else Inl (''unknown schema type: '' @ schemaType))"

section \<open>Properties\<close>

lemma pollution_sound: "check_prototype_pollution v = Some k \<Longrightarrow> k \<in> set DISALLOWED_KEYS \<and> occurs_key k v"
proof (induction v arbitrary: k rule: check_prototype_pollution.induct)
  case (1 v)
  show ?case
  proof (cases v)
    case (JArr vs)
    with 1(3) obtain w where "w \<in> set vs" "check_prototype_pollution w = Some k"
      by (auto simp: check_prototype_pollution.simps [of "JArr vs"] dest: first_some_Some)
    with 1(1) [OF JArr this] show ?thesis unfolding JArr by (auto intro: occurs_key.element)
  next
    case (JObj r)
    with 1(3) obtain j w where w: "(j, w) \<in> set r" "(if j \<in> set DISALLOWED_KEYS then Some j else check_prototype_pollution w) = Some k"
      by (auto simp: check_prototype_pollution.simps [of "JObj r"] dest!: first_some_Some)
    show ?thesis
    proof (cases "j \<in> set DISALLOWED_KEYS")
      case True
      with w JObj show ?thesis by (auto intro: occurs_key.here)
    next
      case False
      with w have "check_prototype_pollution w = Some k" by simp
      from 1(2) [OF JObj w(1) refl False this] w(1) show ?thesis unfolding JObj by (auto intro: occurs_key.member)
    qed
  qed (use 1(3) in \<open>simp_all add: check_prototype_pollution.simps\<close>)
qed

lemma pollution_complete: "occurs_key k v \<Longrightarrow> k \<in> set DISALLOWED_KEYS \<Longrightarrow> check_prototype_pollution v \<noteq> None"
proof (induction k v rule: occurs_key.induct)
  case (here k v r)
  then show ?case by (auto simp: check_prototype_pollution.simps [of "JObj r"] first_some_None intro!: bexI [of _ "(k, v)"])
next
  case (member j v r k)
  then show ?case by (auto simp: check_prototype_pollution.simps [of "JObj r"] first_some_None intro!: bexI [of _ "(j, v)"])
next
  case (element v vs k)
  then show ?case by (auto simp: check_prototype_pollution.simps [of "JArr vs"] first_some_None)
qed

text \<open>
  A value passes the check exactly if no unsafe key occurs in it at any depth, and the
  key reported is an unsafe one that occurs.
\<close>

theorem prototype_pollution_detected:
  "(check_prototype_pollution v = None) = (\<not> (\<exists>k. k \<in> set DISALLOWED_KEYS \<and> occurs_key k v)) \<and>
   (case check_prototype_pollution v of None \<Rightarrow> True | Some k \<Rightarrow> k \<in> set DISALLOWED_KEYS \<and> occurs_key k v)"
proof
  show "(check_prototype_pollution v = None) = (\<not> (\<exists>k. k \<in> set DISALLOWED_KEYS \<and> occurs_key k v))"
    using pollution_sound [of v] pollution_complete [of _ v] by (cases "check_prototype_pollution v") auto
  show "case check_prototype_pollution v of None \<Rightarrow> True | Some k \<Rightarrow> k \<in> set DISALLOWED_KEYS \<and> occurs_key k v"
    using pollution_sound by (auto split: option.split)
qed

end
