(* ===== verification/KvStores.thy ===== *)
theory KvStores
  imports JsConvert
begin

text \<open>
  The key-value stores: the in-memory store of \<open>packages/middleware/src/rate-limit.ts\<close>
  (\<open>createInMemoryKVStore\<close>) and the atomic store and the indexed directory of
  \<open>packages/db/src/adapters/memory/stores.ts\<close>. A store is a \<open>Map\<close> from keys to entries that
  carry the time they expire at; \<open>Date.now\<close> is the argument \<open>now\<close>, read once per operation.
  Expired entries are removed when they are read.
\<close>

section \<open>Numbers\<close>

definition num_truthy :: "jsnum \<Rightarrow> bool" where
  "num_truthy x = (x \<noteq> Fin 0 \<and> x \<noteq> NaN)"

definition js_truthy :: "jsval \<Rightarrow> bool" where
  "js_truthy v = (case v of JUndef \<Rightarrow> False | JNull \<Rightarrow> False | JBool b \<Rightarrow> b | JNum x \<Rightarrow> num_truthy x | JStr s \<Rightarrow> s \<noteq> [] | _ \<Rightarrow> True)"

definition js_ceil :: "jsnum \<Rightarrow> jsnum" where
  "js_ceil x = (case x of Fin a \<Rightarrow> Fin (of_int \<lceil>a\<rceil>) | _ \<Rightarrow> x)"

lemma js_ceil_fin [simp]: "js_ceil (Fin a) = Fin (of_int \<lceil>a\<rceil>)"
  by (simp add: js_ceil_def)

text \<open>\<open>Array.prototype.slice\<close>: its arguments are truncated and count from the end when negative.\<close>

definition slice_index :: "jsnum \<Rightarrow> nat \<Rightarrow> nat" where
  "slice_index x n =
     (case x of
        NaN \<Rightarrow> 0
      | PInf \<Rightarrow> n
      | NInf \<Rightarrow> 0
      | Fin a \<Rightarrow> (let i = (if 0 \<le> a then \<lfloor>a\<rfloor> else \<lceil>a\<rceil>)
                 in if i < 0 then nat (max 0 (int n + i)) else min (nat i) n))"

definition js_slice :: "jsnum \<Rightarrow> jsnum \<Rightarrow> 'a list \<Rightarrow> 'a list" where
  "js_slice lo hi xs =
     (let i = slice_index lo (length xs); j = slice_index hi (length xs)
      in take (j - i) (drop i xs))"

section \<open>The store of the rate limiter\<close>

record kv_entry =
  kv_value :: string
  kv_expires :: "jsnum option"

type_synonym kv_store = "(string, kv_entry) jmap"

text \<open>\<open>createInMemoryKVStore\<close>: a zero or missing time never expires.\<close>

definition kv_expired :: "jsnum \<Rightarrow> kv_entry \<Rightarrow> bool" where
  "kv_expired now e = (case kv_expires e of None \<Rightarrow> False | Some t \<Rightarrow> num_truthy t \<and> t < now)"

definition kv_get :: "jsnum \<Rightarrow> string \<Rightarrow> kv_store \<Rightarrow> string option \<times> kv_store" where
  "kv_get now key store =
     (case jmap_get store key of
        None \<Rightarrow> (None, store)
      | Some e \<Rightarrow> if kv_expired now e then (None, jmap_del key store) else (Some (kv_value e), store))"

definition kv_set :: "jsnum \<Rightarrow> string \<Rightarrow> string \<Rightarrow> jsnum option \<Rightarrow> kv_store \<Rightarrow> kv_store" where
  "kv_set now key value ttl store =
     jmap_set key \<lparr>kv_value = value,
       kv_expires = (case ttl of None \<Rightarrow> None | Some s \<Rightarrow> if num_truthy s then Some (now + s * Fin 1000) else None)\<rparr> store"

definition kv_delete :: "string \<Rightarrow> kv_store \<Rightarrow> kv_store" where
  "kv_delete key store = jmap_del key store"

section \<open>The atomic store\<close>

text \<open>\<open>createMemoryAtomicKVStore\<close>: an entry expires at its time, not after it.\<close>

definition akv_expired :: "jsnum \<Rightarrow> kv_entry \<Rightarrow> bool" where
  "akv_expired now e = (case kv_expires e of None \<Rightarrow> False | Some t \<Rightarrow> t \<le> now)"

definition akv_read :: "jsnum \<Rightarrow> string \<Rightarrow> kv_store \<Rightarrow> string option \<times> kv_store" where
  "akv_read now key store =
     (case jmap_get store key of
        None \<Rightarrow> (None, store)
      | Some e \<Rightarrow> if akv_expired now e then (None, jmap_del key store) else (Some (kv_value e), store))"

definition akv_write :: "jsnum \<Rightarrow> string \<Rightarrow> string \<Rightarrow> jsnum option \<Rightarrow> kv_store \<Rightarrow> kv_store" where
  "akv_write now key value ttl store =
     jmap_set key \<lparr>kv_value = value,
       kv_expires = (case ttl of None \<Rightarrow> None | Some s \<Rightarrow> if Fin 0 < s then Some (now + s * Fin 1000) else None)\<rparr> store"

definition akv_set_if_absent ::
  "jsnum \<Rightarrow> string \<Rightarrow> string \<Rightarrow> jsnum option \<Rightarrow> kv_store \<Rightarrow> (bool \<times> string option) \<times> kv_store" where
  "akv_set_if_absent now key value ttl store =
     (case akv_read now key store of
        (Some existing, store1) \<Rightarrow> ((False, Some existing), store1)
      | (None, store1) \<Rightarrow> ((True, None), akv_write now key value ttl store1))"

definition akv_compare_and_set ::
  "jsnum \<Rightarrow> string \<Rightarrow> string option \<Rightarrow> string \<Rightarrow> jsnum option \<Rightarrow> kv_store \<Rightarrow> (bool \<times> string option) \<times> kv_store" where
  "akv_compare_and_set now key expected value ttl store =
     (case akv_read now key store of
        (existing, store1) \<Rightarrow>
          if existing \<noteq> expected then ((False, existing), store1)
          else ((True, None), akv_write now key value ttl store1))"

definition akv_incr ::
  "(rat \<Rightarrow> string) \<Rightarrow> jsnum \<Rightarrow> string \<Rightarrow> jsnum option \<Rightarrow> jsnum option \<Rightarrow> kv_store \<Rightarrow> jsnum \<times> kv_store" where
  "akv_incr dtoa now key by ttl store =
     (case akv_read now key store of
        (existing, store1) \<Rightarrow>
          (let current = string_to_number (case existing of None \<Rightarrow> ''0'' | Some s \<Rightarrow> s);
               v = current + (case by of None \<Rightarrow> Fin 1 | Some b \<Rightarrow> b)
           in (v, akv_write now key (num_to_string dtoa v) ttl store1)))"

section \<open>What the clients rely on\<close>

text \<open>
  The contract of \<open>KVStoreAdapter\<close>: \<open>alive s k t\<close> is the value a reader finds under \<open>k\<close> at
  time \<open>t\<close>. Reading reports it and is otherwise unobservable from then on; an entry written
  with a time to live of \<open>d\<close> seconds can be read for that long, and never has another value.
\<close>

locale kv_backend =
  fixes kget :: "jsnum \<Rightarrow> string \<Rightarrow> 's \<Rightarrow> string option \<times> 's"
    and kset :: "jsnum \<Rightarrow> string \<Rightarrow> string \<Rightarrow> jsnum option \<Rightarrow> 's \<Rightarrow> 's"
    and alive :: "'s \<Rightarrow> string \<Rightarrow> rat \<Rightarrow> string option"
  assumes get_alive: "fst (kget (Fin t) k s) = alive s k t"
    and get_keeps: "t \<le> t' \<Longrightarrow> alive (snd (kget (Fin t) k s)) j t' = alive s j t'"
    and set_other: "j \<noteq> k \<Longrightarrow> alive (kset (Fin t) k v ttl s) j t' = alive s j t'"
    and set_alive: "0 < d \<Longrightarrow> t' < t + d * 1000 \<Longrightarrow> alive (kset (Fin t) k v (Some (Fin d)) s) k t' = Some v"
    and set_value: "alive (kset (Fin t) k v ttl s) k t' = Some u \<Longrightarrow> u = v"
    and set_same: "alive (kset (Fin t) k v ttl s) k t' = alive (kset (Fin t) k v ttl s') k t'"

definition kv_alive :: "kv_store \<Rightarrow> string \<Rightarrow> rat \<Rightarrow> string option" where
  "kv_alive store k t =
     (case jmap_get store k of None \<Rightarrow> None
      | Some e \<Rightarrow> if kv_expired (Fin t) e then None else Some (kv_value e))"

definition akv_alive :: "kv_store \<Rightarrow> string \<Rightarrow> rat \<Rightarrow> string option" where
  "akv_alive store k t =
     (case jmap_get store k of None \<Rightarrow> None
      | Some e \<Rightarrow> if akv_expired (Fin t) e then None else Some (kv_value e))"

lemma kv_expired_mono: "kv_expired (Fin t) e \<Longrightarrow> t \<le> t' \<Longrightarrow> kv_expired (Fin t') e"
  by (cases "kv_expires e"; simp add: kv_expired_def; cases "the (kv_expires e)") auto

lemma akv_expired_mono: "akv_expired (Fin t) e \<Longrightarrow> t \<le> t' \<Longrightarrow> akv_expired (Fin t') e"
  by (cases "kv_expires e"; simp add: akv_expired_def; cases "the (kv_expires e)")
    (auto simp: less_eq_jsnum_def)

interpretation mem_kv: kv_backend kv_get kv_set kv_alive
proof (unfold_locales, goal_cases)
  case (2 t t' k s j)
  then show ?case
    by (auto simp: kv_get_def kv_alive_def jmap_simps dest: kv_expired_mono split: option.split)
qed (auto simp: kv_get_def kv_alive_def kv_set_def kv_expired_def num_truthy_def jmap_simps split: option.split if_splits)

interpretation atomic_kv: kv_backend akv_read akv_write akv_alive
proof (unfold_locales, goal_cases)
  case (2 t t' k s j)
  then show ?case
    by (auto simp: akv_read_def akv_alive_def jmap_simps dest: akv_expired_mono split: option.split)
qed (auto simp: akv_read_def akv_alive_def akv_write_def akv_expired_def jmap_simps split: option.split if_splits)

section \<open>The indexed directory\<close>

datatype index_value = OneValue string | ManyValues "string list" | NoValue

record dir_record =
  dr_key :: string
  dr_value :: string
  dr_indexes :: "(string, index_value) jmap option"
  dr_ttl :: "jsnum option"

type_synonym directory = "(string, dir_record \<times> jsnum option) jmap"

text \<open>\<open>normalize\<close>: a zero time to live is dropped; the expiry is stored beside the record.\<close>

definition dir_normalize :: "jsnum \<Rightarrow> dir_record \<Rightarrow> dir_record \<times> jsnum option" where
  "dir_normalize now r =
     (case dr_ttl r of
        None \<Rightarrow> (r, None)
      | Some s \<Rightarrow> if num_truthy s then (r, Some (now + s * Fin 1000)) else (r\<lparr>dr_ttl := None\<rparr>, None))"

definition strip_runtime_fields :: "dir_record \<times> jsnum option \<Rightarrow> dir_record" where
  "strip_runtime_fields p =
     (let r = fst p in r\<lparr>dr_ttl := (case dr_ttl r of None \<Rightarrow> None | Some s \<Rightarrow> if num_truthy s then Some s else None)\<rparr>)"

definition dir_read :: "jsnum \<Rightarrow> string \<Rightarrow> directory \<Rightarrow> dir_record option \<times> directory" where
  "dir_read now key records =
     (case jmap_get records key of
        None \<Rightarrow> (None, records)
      | Some (r, expires) \<Rightarrow>
          if (case expires of None \<Rightarrow> False | Some t \<Rightarrow> t \<le> now) then (None, jmap_del key records)
          else (Some (strip_runtime_fields (r, expires)), records))"

definition dir_put :: "jsnum \<Rightarrow> dir_record \<Rightarrow> directory \<Rightarrow> directory" where
  "dir_put now r records = jmap_set (dr_key r) (dir_normalize now r) records"

definition dir_put_if_absent :: "jsnum \<Rightarrow> dir_record \<Rightarrow> directory \<Rightarrow> (bool \<times> dir_record option) \<times> directory" where
  "dir_put_if_absent now r records =
     (case dir_read now (dr_key r) records of
        (Some existing, records1) \<Rightarrow> ((False, Some existing), records1)
      | (None, records1) \<Rightarrow> ((True, None), dir_put now r records1))"

definition dir_update :: "jsnum \<Rightarrow> dir_record \<Rightarrow> directory \<Rightarrow> dir_record \<times> directory" where
  "dir_update now r records =
     (let normalized = dir_normalize now r
      in (strip_runtime_fields normalized, jmap_set (dr_key r) normalized records))"

definition dir_delete :: "string \<Rightarrow> directory \<Rightarrow> directory" where
  "dir_delete key records = jmap_del key records"

definition index_matches :: "dir_record \<Rightarrow> string \<Rightarrow> string \<Rightarrow> bool" where
  "index_matches r index v =
     (case dr_indexes r of
        None \<Rightarrow> False
      | Some m \<Rightarrow>
          (case jmap_get m index of
             Some (ManyValues vs) \<Rightarrow> v \<in> set vs
           | Some (OneValue u) \<Rightarrow> u = v
           | _ \<Rightarrow> False))"

text \<open>Reading all keys in order; expired records disappear on the way.\<close>

fun dir_read_all :: "jsnum \<Rightarrow> string list \<Rightarrow> directory \<Rightarrow> dir_record option list \<times> directory" where
  "dir_read_all now [] records = ([], records)"
| "dir_read_all now (k # ks) records =
     (case dir_read now k records of
        (r, records1) \<Rightarrow>
          (case dir_read_all now ks records1 of (rs, records2) \<Rightarrow> (r # rs, records2)))"

definition dir_query ::
  "(rat \<Rightarrow> string) \<Rightarrow> jsnum \<Rightarrow> string \<Rightarrow> string \<Rightarrow> jsnum option \<Rightarrow> string option \<Rightarrow> directory \<Rightarrow>
   (dir_record list \<times> string option) \<times> directory" where
  "dir_query dtoa now index v limit cursor records =
     (case dir_read_all now (jmap_keys records) records of
        (rs, records1) \<Rightarrow>
          (let matched = filter (\<lambda>r. index_matches r index v) (some_of rs);
               total = Fin (of_nat (length matched));
               start = (case cursor of Some c \<Rightarrow> if c = [] then Fin 0 else string_to_number c | None \<Rightarrow> Fin 0);
               lim = (case limit of None \<Rightarrow> total | Some l \<Rightarrow> l);
               page = js_slice start (start + lim) matched;
               next_cursor = (if start + lim < total then Some (num_to_string dtoa (start + lim)) else None)
           in ((page, (case next_cursor of Some c \<Rightarrow> if c = [] then None else Some c | None \<Rightarrow> None)), records1)))"

end
