(* ===== verification/RateLimit.thy ===== *)
theory RateLimit
  imports KvStores
begin

text \<open>
  The rate limiter, \<open>packages/middleware/src/rate-limit.ts\<close>: three algorithms over a key-value
  store that holds each key's state as JSON, the check of one key, the check of many keys in
  two passes, and the compare-and-set loop against an atomic store; and the limiters of
  \<open>datafn/server/src/middleware/rate-limit.ts\<close>. The calls of one limiter on one key run one
  after the other (\<open>withKeyLock\<close>), so a history is a sequence of calls; within one call
  \<open>now()\<close> always reads the same time. A field of a stored state that is no number reads as
  \<open>undefined\<close>, that is as NaN in arithmetic. An instant in a result is the time in
  milliseconds its ISO string stands for.
\<close>

section \<open>Configuration and results\<close>

datatype rl_error = RateLimitError string | RlTypeError | RlRangeError

datatype rl_algorithm = SlidingWindow | FixedWindow | TokenBucket

record rl_config =
  rc_window :: jsnum
  rc_max :: jsnum
  rc_prefix :: string
  rc_algorithm :: rl_algorithm

record rl_result =
  rr_allowed :: bool
  rr_remaining :: jsnum
  rr_reset_at :: int
  rr_total :: jsnum

record rl_evaluation =
  ev_result :: rl_result
  ev_next :: "(jsval \<times> jsnum) option"

text \<open>\<open>new Date(x).toISOString()\<close>: throws outside the range of time values, truncates inside.\<close>

definition to_iso :: "jsnum \<Rightarrow> rl_error + int" where
  "to_iso x =
     (case x of
        Fin a \<Rightarrow> if \<bar>a\<bar> \<le> 8640000000000000 then Inr (if 0 \<le> a then \<lfloor>a\<rfloor> else \<lceil>a\<rceil>) else Inl RlRangeError
      | _ \<Rightarrow> Inl RlRangeError)"

section \<open>Stored states\<close>

text \<open>\<open>parseState\<close>; null stands for a missing or unreadable state.\<close>

definition parse_state :: "string option \<Rightarrow> jsval" where
  "parse_state data =
     (case data of
        None \<Rightarrow> JNull
      | Some s \<Rightarrow> if s = [] then JNull else (case json_parse s of None \<Rightarrow> JNull | Some v \<Rightarrow> v))"

definition as_num :: "jsval \<Rightarrow> jsnum" where
  "as_num v = (case v of JNum n \<Rightarrow> n | _ \<Rightarrow> NaN)"

definition state_rec :: "jsval \<Rightarrow> jsrec" where
  "state_rec v = (case v of JObj r \<Rightarrow> r | _ \<Rightarrow> [])"

definition state_num :: "jsval \<Rightarrow> string \<Rightarrow> jsnum" where
  "state_num v k = as_num (js_get (state_rec v) k)"

definition evaluation :: "bool \<Rightarrow> jsnum \<Rightarrow> jsnum \<Rightarrow> jsnum \<Rightarrow> (jsval \<times> jsnum) option \<Rightarrow> rl_error + rl_evaluation" where
  "evaluation allowed remaining reset_at limit next_state =
     bind_sum (to_iso reset_at) (\<lambda>iso.
       Inr \<lparr>ev_result = \<lparr>rr_allowed = allowed, rr_remaining = remaining, rr_reset_at = iso, rr_total = limit\<rparr>,
            ev_next = next_state\<rparr>)"

section \<open>The three algorithms\<close>

definition sliding_window :: "jsval \<Rightarrow> jsnum \<Rightarrow> jsnum \<Rightarrow> jsnum \<Rightarrow> bool \<Rightarrow> rl_error + rl_evaluation" where
  "sliding_window state now window limit commit =
     (case (if state = JNull then JArr [] else js_get (state_rec state) ''timestamps'') of
        JArr stamps \<Rightarrow>
          (let floor_time = now - window;
               kept = filter (\<lambda>t. floor_time < t) (map as_num stamps);
               allowed = Fin (of_nat (length kept)) < limit;
               timestamps = (if allowed \<and> commit then kept @ [now] else kept);
               oldest = (case timestamps of [] \<Rightarrow> now | t # _ \<Rightarrow> t);
               reset_at = oldest + window
           in evaluation allowed (js_max (Fin 0) (limit - Fin (of_nat (length timestamps)))) reset_at limit
                (if commit then Some (JObj [(''timestamps'', JArr (map JNum timestamps)), (''expiresAt'', JNum reset_at)],
                                      js_max (Fin 1) (reset_at - now))
                 else None))
      | _ \<Rightarrow> Inl RlTypeError)"

text \<open>The arithmetic of the token bucket: the tokens at \<open>now\<close>, then what a call leaves.\<close>

definition refilled :: "jsnum \<Rightarrow> jsnum \<Rightarrow> jsnum \<Rightarrow> jsnum \<Rightarrow> jsnum \<Rightarrow> jsnum" where
  "refilled tokens last_refill now limit rate =
     js_min limit (tokens + js_max (Fin 0) (now - last_refill) * rate)"

definition token_bucket :: "jsval \<Rightarrow> jsnum \<Rightarrow> jsnum \<Rightarrow> jsnum \<Rightarrow> bool \<Rightarrow> rl_error + rl_evaluation" where
  "token_bucket state now window limit commit =
     (if limit \<le> Fin 0 then evaluation False (Fin 0) (now + js_max (Fin 0) window) limit None
      else
        (let rate = limit / window;
             tokens = (if state = JNull then refilled limit now now limit rate
                       else refilled (state_num state ''tokens'') (state_num state ''lastRefill'') now limit rate);
             allowed = Fin 1 \<le> tokens;
             next_tokens = (if allowed \<and> commit then tokens - Fin 1 else tokens);
             until_next = (if Fin 1 \<le> next_tokens then Fin 0 else js_ceil ((Fin 1 - next_tokens) / rate));
             until_full = js_ceil ((limit - next_tokens) / rate)
         in evaluation allowed (js_max (Fin 0) (js_floor next_tokens)) (now + until_next) limit
              (if commit then Some (JObj [(''tokens'', JNum next_tokens), (''lastRefill'', JNum now),
                                          (''expiresAt'', JNum (now + js_max (Fin 1) until_full))],
                                    js_max (Fin 1) until_full)
               else None)))"

definition fixed_window :: "jsval \<Rightarrow> jsnum \<Rightarrow> jsnum \<Rightarrow> jsnum \<Rightarrow> bool \<Rightarrow> rl_error + rl_evaluation" where
  "fixed_window state now window limit commit =
     (let fresh = [(''count'', JNum (Fin 0)), (''windowStart'', JNum now)];
          old = (if state = JNull then JObj fresh else state);
          window_state = (if state_num old ''windowStart'' + window \<le> now then fresh else state_rec old);
          count = as_num (js_get window_state ''count'');
          allowed = count < limit;
          window_state' = (if allowed \<and> commit then jmap_set ''count'' (JNum (count + Fin 1)) window_state else window_state);
          reset_at = as_num (js_get window_state' ''windowStart'') + window
      in evaluation allowed (js_max (Fin 0) (limit - as_num (js_get window_state' ''count''))) reset_at limit
           (if commit then Some (JObj (jmap_set ''expiresAt'' (JNum reset_at) window_state'), js_max (Fin 1) (reset_at - now))
            else None))"

definition evaluate_state ::
  "rl_algorithm \<Rightarrow> string option \<Rightarrow> jsnum \<Rightarrow> jsnum \<Rightarrow> jsnum \<Rightarrow> bool \<Rightarrow> rl_error + rl_evaluation" where
  "evaluate_state algorithm raw now window limit commit =
     (if \<not> is_fin window \<or> window \<le> Fin 0 then Inl (RateLimitError ''RATE_LIMIT_WINDOW_INVALID'')
      else if \<not> is_fin limit \<or> limit < Fin 0 then Inl (RateLimitError ''RATE_LIMIT_LIMIT_INVALID'')
      else case algorithm of
             SlidingWindow \<Rightarrow> sliding_window (parse_state raw) now window limit commit
           | TokenBucket \<Rightarrow> token_bucket (parse_state raw) now window limit commit
           | FixedWindow \<Rightarrow> fixed_window (parse_state raw) now window limit commit)"

section \<open>Checking keys\<close>

text \<open>\<open>evaluateKey\<close> over the operations \<open>kget\<close> and \<open>kset\<close> of a store.\<close>

definition evaluate_key ::
  "(rat \<Rightarrow> string) \<Rightarrow> (jsnum \<Rightarrow> string \<Rightarrow> 's \<Rightarrow> string option \<times> 's) \<Rightarrow>
   (jsnum \<Rightarrow> string \<Rightarrow> string \<Rightarrow> jsnum option \<Rightarrow> 's \<Rightarrow> 's) \<Rightarrow> rl_algorithm \<Rightarrow>
   string \<Rightarrow> jsnum \<Rightarrow> jsnum \<Rightarrow> jsnum \<Rightarrow> bool \<Rightarrow> 's \<Rightarrow> (rl_error + rl_result) \<times> 's" where
  "evaluate_key dtoa kget kset algorithm key now window limit commit store =
     (case kget now key store of
        (raw, store1) \<Rightarrow>
          (case evaluate_state algorithm raw now window limit commit of
             Inl e \<Rightarrow> (Inl e, store1)
           | Inr ev \<Rightarrow>
               (case ev_next ev of
                  None \<Rightarrow> (Inr (ev_result ev), store1)
                | Some (next_state, ttl) \<Rightarrow>
                    (Inr (ev_result ev),
                     kset now key (json_val dtoa next_state) (Some (js_ceil (ttl / Fin 1000))) store1))))"

definition effective_window :: "rl_config \<Rightarrow> jsnum option \<Rightarrow> jsnum" where
  "effective_window cfg window_seconds =
     (case window_seconds of None \<Rightarrow> rc_window cfg | Some w \<Rightarrow> w * Fin 1000)"

definition effective_limit :: "rl_config \<Rightarrow> jsnum option \<Rightarrow> jsnum" where
  "effective_limit cfg limit = (case limit of None \<Rightarrow> rc_max cfg | Some l \<Rightarrow> l)"

record check_input =
  ci_key :: string
  ci_window_seconds :: "jsnum option"
  ci_limit :: "jsnum option"

text \<open>An evaluator of one key: its arguments are the key, the time, the window, the limit and the commit flag.\<close>

type_synonym 's evaluator =
  "string \<Rightarrow> jsnum \<Rightarrow> jsnum \<Rightarrow> jsnum \<Rightarrow> bool \<Rightarrow> 's \<Rightarrow> (rl_error + rl_result) \<times> 's"

definition rl_check :: "'s evaluator \<Rightarrow> rl_config \<Rightarrow> jsnum \<Rightarrow> check_input \<Rightarrow> 's \<Rightarrow> (rl_error + rl_result) \<times> 's" where
  "rl_check evaluator cfg now inp store =
     evaluator (rc_prefix cfg @ ci_key inp) now (effective_window cfg (ci_window_seconds inp))
       (effective_limit cfg (ci_limit inp)) True store"

definition rl_reset :: "(string \<Rightarrow> 's \<Rightarrow> 's) \<Rightarrow> rl_config \<Rightarrow> string \<Rightarrow> 's \<Rightarrow> 's" where
  "rl_reset kdelete cfg key store = kdelete (rc_prefix cfg @ key) store"

subsection \<open>Many keys\<close>

record many_input =
  mi_keys :: "string list"
  mi_limits :: "(string, jsnum option) jmap option"
  mi_window_seconds :: "jsnum option"
  mi_limit :: "jsnum option"

record many_result =
  mr_allowed :: bool
  mr_blocked :: "string list option"
  mr_remaining :: "(string \<times> jsnum) list"
  mr_reset_by_key :: "(string \<times> int) list"
  mr_reset_at :: int
  mr_total :: jsnum

definition key_limit :: "many_input \<Rightarrow> jsnum \<Rightarrow> string \<Rightarrow> jsnum" where
  "key_limit inp limit key =
     (case mi_limits inp of
        None \<Rightarrow> limit
      | Some m \<Rightarrow> (case jmap_get m key of Some (Some l) \<Rightarrow> l | _ \<Rightarrow> limit))"

text \<open>The first pass: every key is evaluated without commit; the first error rejects the call.\<close>

fun preflight :: "(string \<times> jsnum \<Rightarrow> 's \<Rightarrow> (rl_error + rl_result) \<times> 's) \<Rightarrow> (string \<times> jsnum) list \<Rightarrow> 's \<Rightarrow>
    (rl_error + rl_result list) \<times> 's" where
  "preflight f [] store = (Inr [], store)"
| "preflight f (k # ks) store =
     (case f k store of
        (r, store1) \<Rightarrow>
          (case preflight f ks store1 of
             (rs, store2) \<Rightarrow> (bind_sum r (\<lambda>x. bind_sum rs (\<lambda>xs. Inr (x # xs))), store2)))"

text \<open>
  The second pass commits key by key and stops at the first that is blocked after all; the
  charges made before it stay.
\<close>

fun commit_keys :: "(string \<times> jsnum \<Rightarrow> 's \<Rightarrow> (rl_error + rl_result) \<times> 's) \<Rightarrow> (string \<times> jsnum) list \<Rightarrow> 's \<Rightarrow>
    (rl_error + rl_result list) \<times> 's" where
  "commit_keys f [] store = (Inr [], store)"
| "commit_keys f (k # ks) store =
     (case f k store of
        (Inl e, store1) \<Rightarrow> (Inl e, store1)
      | (Inr r, store1) \<Rightarrow>
          if \<not> rr_allowed r then (Inr [r], store1)
          else (case commit_keys f ks store1 of
                  (rs, store2) \<Rightarrow> (bind_sum rs (\<lambda>xs. Inr (r # xs)), store2)))"

definition list_max :: "int list \<Rightarrow> int" where
  "list_max xs = foldr max (tl xs) (hd xs)"

definition list_min :: "int list \<Rightarrow> int" where
  "list_min xs = foldr min (tl xs) (hd xs)"

definition many_blocked :: "string list \<Rightarrow> rl_result list \<Rightarrow> jsnum \<Rightarrow> many_result" where
  "many_blocked keys rs limit =
     \<lparr>mr_allowed = False,
      mr_blocked = Some (map fst (filter (\<lambda>(k, r). \<not> rr_allowed r) (zip keys rs))),
      mr_remaining = zip keys (map rr_remaining rs),
      mr_reset_by_key = zip keys (map rr_reset_at rs),
      mr_reset_at = list_max (map rr_reset_at (filter (\<lambda>r. \<not> rr_allowed r) rs)),
      mr_total = limit\<rparr>"

definition many_allowed :: "string list \<Rightarrow> rl_result list \<Rightarrow> jsnum \<Rightarrow> many_result" where
  "many_allowed keys rs limit =
     \<lparr>mr_allowed = True, mr_blocked = None,
      mr_remaining = zip keys (map rr_remaining rs),
      mr_reset_by_key = zip keys (map rr_reset_at rs),
      mr_reset_at = list_min (map rr_reset_at rs),
      mr_total = limit\<rparr>"

definition rl_check_many :: "'s evaluator \<Rightarrow> rl_config \<Rightarrow> jsnum \<Rightarrow> many_input \<Rightarrow> 's \<Rightarrow> (rl_error + many_result) \<times> 's" where
  "rl_check_many evaluator cfg now inp store =
     (let keys = js_unique (mi_keys inp);
          window = effective_window cfg (mi_window_seconds inp);
          limit = effective_limit cfg (mi_limit inp);
          targets = map (\<lambda>k. (rc_prefix cfg @ k, key_limit inp limit k)) keys;
          evaluate = (\<lambda>commit (k, l). evaluator k now window l commit)
      in if keys = [] then
           (bind_sum (to_iso now) (\<lambda>iso. Inr \<lparr>mr_allowed = True, mr_blocked = None, mr_remaining = [],
              mr_reset_by_key = [], mr_reset_at = iso, mr_total = limit\<rparr>), store)
         else
           (case preflight (evaluate False) targets store of
              (Inl e, store1) \<Rightarrow> (Inl e, store1)
            | (Inr pre, store1) \<Rightarrow>
                if \<not> list_all rr_allowed pre then (Inr (many_blocked keys pre limit), store1)
                else
                  (case commit_keys (evaluate True) targets store1 of
                     (Inl e, store2) \<Rightarrow> (Inl e, store2)
                   | (Inr committed, store2) \<Rightarrow>
                       if list_all rr_allowed committed then (Inr (many_allowed keys committed limit), store2)
                       else (Inr (many_blocked keys (committed @ drop (length committed) pre) limit), store2))))"

subsection \<open>The atomic store\<close>

text \<open>
  \<open>evaluateAtomicKey\<close>: between the read and the compare-and-set of attempt \<open>i\<close> other
  processes may change the store, by \<open>env i\<close>; the time of both is the time of the call.
\<close>

fun atomic_attempts ::
  "nat \<Rightarrow> (nat \<Rightarrow> kv_store \<Rightarrow> kv_store) \<Rightarrow> (rat \<Rightarrow> string) \<Rightarrow> rl_algorithm \<Rightarrow> kv_store evaluator" where
  "atomic_attempts 0 env dtoa algorithm key now window limit commit store =
     (Inl (RateLimitError ''RATE_LIMIT_ATOMIC_CONTENTION''), store)"
| "atomic_attempts (Suc n) env dtoa algorithm key now window limit commit store =
     (case akv_read now key store of
        (expected, store1) \<Rightarrow>
          (case evaluate_state algorithm expected now window limit commit of
             Inl e \<Rightarrow> (Inl e, store1)
           | Inr ev \<Rightarrow>
               (case ev_next ev of
                  None \<Rightarrow> (Inr (ev_result ev), store1)
                | Some (next_state, ttl) \<Rightarrow>
                    (case akv_compare_and_set now key expected (json_val dtoa next_state)
                            (Some (js_ceil (ttl / Fin 1000))) (env n store1) of
                       ((updated, _), store2) \<Rightarrow>
                         if updated then (Inr (ev_result ev), store2)
                         else atomic_attempts n env dtoa algorithm key now window limit commit store2))))"

definition evaluate_atomic_key :: "(nat \<Rightarrow> kv_store \<Rightarrow> kv_store) \<Rightarrow> (rat \<Rightarrow> string) \<Rightarrow> rl_algorithm \<Rightarrow> kv_store evaluator" where
  "evaluate_atomic_key env dtoa algorithm = atomic_attempts 16 env dtoa algorithm"

section \<open>The limiters of the DataFn server\<close>

definition window_key :: "(rat \<Rightarrow> string) \<Rightarrow> string \<Rightarrow> jsnum \<Rightarrow> jsnum \<Rightarrow> string" where
  "window_key dtoa key now window_seconds =
     ''ratelimit:'' @ key @ '':'' @ num_to_string dtoa (js_floor (now / (window_seconds * Fin 1000)))"

definition atomic_limiter_check ::
  "(rat \<Rightarrow> string) \<Rightarrow> jsnum \<Rightarrow> string \<Rightarrow> jsnum \<Rightarrow> jsnum \<Rightarrow> kv_store \<Rightarrow> (bool \<times> jsnum) \<times> kv_store" where
  "atomic_limiter_check dtoa now key max_requests window_seconds store =
     (case akv_incr dtoa now (window_key dtoa key now window_seconds) (Some (Fin 1)) (Some window_seconds) store of
        (cnt, store1) \<Rightarrow> ((cnt \<le> max_requests, js_max (Fin 0) (max_requests - cnt)), store1))"

definition cache_limiter_check ::
  "(rat \<Rightarrow> string) \<Rightarrow> (jsnum \<Rightarrow> string \<Rightarrow> 's \<Rightarrow> string option \<times> 's) \<Rightarrow>
   (jsnum \<Rightarrow> string \<Rightarrow> string \<Rightarrow> jsnum option \<Rightarrow> 's \<Rightarrow> 's) \<Rightarrow>
   jsnum \<Rightarrow> string \<Rightarrow> jsnum \<Rightarrow> jsnum \<Rightarrow> 's \<Rightarrow> (bool \<times> jsnum) \<times> 's" where
  "cache_limiter_check dtoa kget kset now key max_requests window_seconds store =
     (let store_key = window_key dtoa key now window_seconds
      in case kget now store_key store of
           (raw, store1) \<Rightarrow>
             (let next_count = string_to_number (case raw of None \<Rightarrow> ''0'' | Some s \<Rightarrow> s) + Fin 1
              in ((next_count \<le> max_requests, js_max (Fin 0) (max_requests - next_count)),
                  kset now store_key (num_to_string dtoa next_count) (Some window_seconds) store1)))"

text \<open>\<open>MemoryRateLimiter\<close>: per key a count and the end of its window.\<close>

type_synonym limiter_windows = "(string, jsnum \<times> jsnum) jmap"

definition memory_limiter_check ::
  "jsnum \<Rightarrow> string \<Rightarrow> jsnum \<Rightarrow> jsnum \<Rightarrow> limiter_windows \<Rightarrow> (bool \<times> jsnum) \<times> limiter_windows" where
  "memory_limiter_check now key max_requests window_seconds windows =
     (let window_ms = window_seconds * Fin 1000
      in case jmap_get windows key of
           None \<Rightarrow> ((True, max_requests - Fin 1), jmap_set key (Fin 1, now + window_ms) windows)
         | Some (cnt, reset_at) \<Rightarrow>
             if reset_at \<le> now then ((True, max_requests - Fin 1), jmap_set key (Fin 1, now + window_ms) windows)
             else ((cnt + Fin 1 \<le> max_requests, js_max (Fin 0) (max_requests - (cnt + Fin 1))),
                   jmap_set key (cnt + Fin 1, reset_at) windows))"

definition limiter_sweep :: "jsnum \<Rightarrow> limiter_windows \<Rightarrow> limiter_windows" where
  "limiter_sweep now windows = filter (\<lambda>(k, cnt, reset_at). \<not> reset_at \<le> now) windows"

text \<open>\<open>createRateLimitMiddleware\<close>: the limits of the endpoint, and the refusal when the check fails.\<close>

record limit_spec =
  ls_max :: jsnum
  ls_window :: jsnum

record refusal =
  rf_status :: int
  rf_code :: string
  rf_retry_after :: string

definition rate_limit_middleware ::
  "(rat \<Rightarrow> string) \<Rightarrow> (string \<Rightarrow> jsnum \<Rightarrow> jsnum \<Rightarrow> 's \<Rightarrow> (bool \<times> jsnum) \<times> 's) \<Rightarrow>
   limit_spec \<Rightarrow> (string, limit_spec) jmap \<Rightarrow> string \<Rightarrow> string \<Rightarrow> 's \<Rightarrow> refusal option \<times> 's" where
  "rate_limit_middleware dtoa check default_spec endpoints endpoint client_key store =
     (let spec = (case jmap_get endpoints endpoint of None \<Rightarrow> default_spec | Some s \<Rightarrow> s)
      in case check (endpoint @ '':'' @ client_key) (ls_max spec) (ls_window spec) store of
           ((allowed, _), store1) \<Rightarrow>
             ((if allowed then None
               else Some \<lparr>rf_status = 429, rf_code = ''RATE_LIMITED'', rf_retry_after = num_to_string dtoa (ls_window spec)\<rparr>),
              store1))"

end
