(* ===== verification/WindowRefinement.thy ===== *)
theory WindowRefinement
  imports RateLimit
begin

text \<open>
  What the fixed window of the rate limiter guarantees over any store that keeps the contract
  \<open>kv_backend\<close>: it refines a counter per window, and so bounds the calls of a window.
\<close>

section \<open>Stored states\<close>

lemma parse_json_state: "json_ok v \<Longrightarrow> parse_state (Some (json_val dtoa v)) = v"
  using json_val_head [of v dtoa] by (auto simp: parse_state_def json_roundtrip_lib)

lemma parse_state_None [simp]: "parse_state None = JNull"
  by (simp add: parse_state_def)

lemma to_iso_int: "\<bar>i\<bar> \<le> 8640000000000000 \<Longrightarrow> to_iso (Fin (of_int i)) = Inr i"
proof -
  assume "\<bar>i\<bar> \<le> 8640000000000000"
  then have "\<bar>of_int i :: rat\<bar> \<le> 8640000000000000"
    by (metis of_int_abs of_int_le_iff of_int_numeral)
  then show ?thesis by (simp add: to_iso_def)
qed

lemma json_ok_int: "\<bar>i\<bar> < 10 ^ 21 \<Longrightarrow> json_ok (JNum (Fin (of_int i)))"
proof -
  assume "\<bar>i\<bar> < 10 ^ 21"
  then have "\<bar>of_int i :: rat\<bar> < 10 ^ 21" by (metis of_int_abs of_int_less_iff of_int_numeral of_int_power)
  then show ?thesis by simp
qed

section \<open>The fixed window\<close>

text \<open>The specification: per key the number of calls allowed in the current window and its start.\<close>

definition fw_window :: "int \<Rightarrow> (nat \<times> int) option \<Rightarrow> int \<Rightarrow> nat \<times> int" where
  "fw_window w st t = (case st of None \<Rightarrow> (0, t) | Some (c, s) \<Rightarrow> if s + w \<le> t then (0, t) else (c, s))"

definition fw_next :: "int \<Rightarrow> rat \<Rightarrow> (nat \<times> int) option \<Rightarrow> int \<Rightarrow> nat \<times> int" where
  "fw_next w l st t = (case fw_window w st t of (c, s) \<Rightarrow> (if of_nat c < l then Suc c else c, s))"

definition fw_result :: "int \<Rightarrow> rat \<Rightarrow> (nat \<times> int) option \<Rightarrow> int \<Rightarrow> rl_result" where
  "fw_result w l st t =
     (case (fw_window w st t, fw_next w l st t) of
        ((c, s), (c', _)) \<Rightarrow>
          \<lparr>rr_allowed = of_nat c < l, rr_remaining = Fin (max 0 (l - of_nat c')), rr_reset_at = s + w, rr_total = Fin l\<rparr>)"

fun fw_run :: "int \<Rightarrow> rat \<Rightarrow> (string \<Rightarrow> (nat \<times> int) option) \<Rightarrow> (int \<times> string) list \<Rightarrow> rl_result list" where
  "fw_run w l \<sigma> [] = []"
| "fw_run w l \<sigma> ((t, k) # calls) =
     fw_result w l (\<sigma> k) t # fw_run w l (\<sigma>(k := Some (fw_next w l (\<sigma> k) t))) calls"

text \<open>A history of calls of \<open>check\<close>, each with its time and its key.\<close>

fun rl_run :: "'s evaluator \<Rightarrow> rl_config \<Rightarrow> (int \<times> string) list \<Rightarrow> 's \<Rightarrow> (rl_error + rl_result) list" where
  "rl_run evaluator cfg [] store = []"
| "rl_run evaluator cfg ((t, k) # calls) store =
     (case rl_check evaluator cfg (Fin (of_int t)) \<lparr>ci_key = k, ci_window_seconds = None, ci_limit = None\<rparr> store of
        (r, store1) \<Rightarrow> r # rl_run evaluator cfg calls store1)"

definition fw_json :: "int \<Rightarrow> nat \<times> int \<Rightarrow> jsval" where
  "fw_json w st = JObj [(''count'', JNum (Fin (of_nat (fst st)))), (''windowStart'', JNum (Fin (of_int (snd st)))),
     (''expiresAt'', JNum (Fin (of_int (snd st + w))))]"

lemma fw_json_ok: "fst st < 10 ^ 21 \<Longrightarrow> \<bar>snd st\<bar> < 10 ^ 21 \<Longrightarrow> \<bar>snd st + w\<bar> < 10 ^ 21 \<Longrightarrow> json_ok (fw_json w st)"
proof -
  assume a: "fst st < 10 ^ 21" "\<bar>snd st\<bar> < 10 ^ 21" "\<bar>snd st + w\<bar> < 10 ^ 21"
  have "\<bar>int (fst st)\<bar> < 10 ^ 21" using a(1) by (metis abs_of_nat of_nat_less_iff of_nat_numeral of_nat_power)
  from json_ok_int [OF this] json_ok_int [OF a(2)] json_ok_int [OF a(3)] show ?thesis
    by (simp add: fw_json_def del: of_int_add)
qed

lemma fw_eval_window:
  assumes "state = JNull \<and> st = None \<or> (\<exists>p. st = Some p \<and> state = fw_json w p)" and "0 < w"
    and "fw_window w st t = (c, s)" and "\<bar>s + w\<bar> \<le> 8640000000000000"
  shows "fixed_window state (Fin (of_int t)) (Fin (of_int w)) (Fin l) commit =
    Inr \<lparr>ev_result = \<lparr>rr_allowed = of_nat c < l,
           rr_remaining = Fin (max 0 (l - of_nat (if of_nat c < l \<and> commit then Suc c else c))),
           rr_reset_at = s + w, rr_total = Fin l\<rparr>,
         ev_next = (if commit then Some (fw_json w (if of_nat c < l then Suc c else c, s), Fin (of_int (max 1 (s + w - t)))) else None)\<rparr>"
proof -
  have iso: "to_iso (Fin (of_int s + of_int w)) = Inr (s + w)"
    using to_iso_int [OF assms(4)] by simp
  have le: "(of_int u + of_int w :: rat) \<le> of_int t \<longleftrightarrow> u + w \<le> t" for u
    by (metis of_int_add of_int_le_iff)
  have mx: "max 1 (of_int s + of_int w - of_int t :: rat) = of_int (max 1 (s + w - t))" by (simp add: of_int_max)
  show ?thesis
  proof (cases st)
    case None
    with assms have "state = JNull" "c = 0" "s = t" by (auto simp: fw_window_def)
    with assms(2) iso mx show ?thesis
      by (simp add: fixed_window_def state_num_def state_rec_def js_get_def as_num_def evaluation_def Let_def fw_json_def)
  next
    case (Some p)
    obtain c0 s0 where p: "p = (c0, s0)" by (cases p)
    from Some assms(1) have st: "state = fw_json w (c0, s0)" by (simp add: p)
    show ?thesis
    proof (cases "s0 + w \<le> t")
      case True
      with Some p assms(3) have "c = 0" "s = t" by (auto simp: fw_window_def)
      with st True assms(2) iso mx le [of s0] show ?thesis
        by (simp add: fixed_window_def state_num_def state_rec_def js_get_def as_num_def evaluation_def Let_def fw_json_def)
    next
      case False
      with Some p assms(3) have "c = c0" "s = s0" by (auto simp: fw_window_def)
      with st False assms(2) iso mx le [of s0] show ?thesis
        by (simp add: fixed_window_def state_num_def state_rec_def js_get_def as_num_def evaluation_def Let_def fw_json_def add.commute)
    qed
  qed
qed

definition fw_rel :: "int \<Rightarrow> rat \<Rightarrow> (string \<Rightarrow> rat \<Rightarrow> string option) \<Rightarrow> (rat \<Rightarrow> string) \<Rightarrow> (nat \<times> int) option \<Rightarrow> int \<Rightarrow> string \<Rightarrow> bool" where
  "fw_rel w l live dtoa st now key =
     (case st of
        None \<Rightarrow> (\<forall>t \<ge> of_int now. live key t = None)
      | Some p \<Rightarrow> 0 \<le> snd p \<and> snd p \<le> now \<and> of_nat (fst p) \<le> l + 1 \<and>
          (\<forall>t \<ge> of_int now. live key t = Some (json_val dtoa (fw_json w p)) \<or>
             (of_int (snd p + w) \<le> t \<and> live key t = None)))"

lemma fw_rel_later: "fw_rel w l live dtoa st now key \<Longrightarrow> now \<le> now' \<Longrightarrow> fw_rel w l live dtoa st now' key"
  unfolding fw_rel_def by (auto split: option.splits) (meson of_int_le_iff order_trans)+

text \<open>What a reader at time \<open>t\<close> makes of the stored state, and the evaluation that follows.\<close>

definition fw_read :: "int \<Rightarrow> (nat \<times> int) option \<Rightarrow> int \<Rightarrow> jsval \<Rightarrow> bool" where
  "fw_read w st t state =
     ((state = JNull \<and> fw_window w st t = (0, t)) \<or> (\<exists>p. st = Some p \<and> state = fw_json w p))"

lemma fw_window_bounds:
  "fw_window w st t = (c, s) \<Longrightarrow> fw_rel w l live dtoa st now key \<Longrightarrow> 0 < w \<Longrightarrow> 0 \<le> l \<Longrightarrow> 0 \<le> t \<Longrightarrow> now \<le> t \<Longrightarrow>
   0 \<le> s \<and> s \<le> t \<and> t < s + w \<and> of_nat c \<le> l + 1"
  by (auto simp: fw_window_def fw_rel_def split: option.splits if_splits)

lemma fw_rel_read:
  assumes rel: "fw_rel w l live dtoa st now key" and l: "l < 10 ^ 20" and w: "0 < w"
    and t: "now \<le> t" "t + w \<le> 8640000000000000"
  shows "fw_read w st t (parse_state (live key (of_int t)))"
proof (cases st)
  case None
  with rel t(1) show ?thesis by (simp add: fw_rel_def fw_read_def fw_window_def)
next
  case (Some p)
  with rel have p: "0 \<le> snd p" "snd p \<le> now" "of_nat (fst p) \<le> l + 1"
    and live: "\<forall>t' \<ge> of_int now. live key t' = Some (json_val dtoa (fw_json w p)) \<or>
      (of_int (snd p + w) \<le> t' \<and> live key t' = None)"
    by (simp_all add: fw_rel_def)
  have "of_nat (fst p) < (10 ^ 21 :: rat)" using p(3) l by simp
  then have "fst p < 10 ^ 21" by (metis of_nat_less_iff of_nat_numeral of_nat_power)
  then have ok: "json_ok (fw_json w p)" by (rule fw_json_ok) (use p t w in auto)
  from live [rule_format, of "of_int t"] t(1)
  consider "live key (of_int t) = Some (json_val dtoa (fw_json w p))" | "snd p + w \<le> t" "live key (of_int t) = None"
    by (auto simp flip: of_int_add)
  then show ?thesis
    by cases (auto simp: fw_read_def Some parse_json_state [OF ok] fw_window_def split: prod.split)
qed

lemma fw_eval:
  assumes "fw_read w st t (parse_state raw)" and "0 < w" "0 \<le> l"
    and "fw_window w st t = (c, s)" "\<bar>s + w\<bar> \<le> 8640000000000000"
  shows "evaluate_state FixedWindow raw (Fin (of_int t)) (Fin (of_int w)) (Fin l) True =
    Inr \<lparr>ev_result = fw_result w l st t, ev_next = Some (fw_json w (fw_next w l st t), Fin (of_int (max 1 (s + w - t))))\<rparr>"
proof -
  have e: "evaluate_state FixedWindow raw (Fin (of_int t)) (Fin (of_int w)) (Fin l) True =
      fixed_window (parse_state raw) (Fin (of_int t)) (Fin (of_int w)) (Fin l) True"
    using assms by (simp add: evaluate_state_def)
  have n: "fw_next w l st t = (if of_nat c < l then Suc c else c, s)" by (simp add: fw_next_def assms(4))
  have r: "fw_result w l st t = \<lparr>rr_allowed = of_nat c < l,
      rr_remaining = Fin (max 0 (l - of_nat (if of_nat c < l then Suc c else c))), rr_reset_at = s + w, rr_total = Fin l\<rparr>"
    by (simp add: fw_result_def assms(4) n)
  from assms(1) show ?thesis
    unfolding fw_read_def
  proof
    assume a: "parse_state raw = JNull \<and> fw_window w st t = (0, t)"
    then have "fw_window w None t = (c, s)" using assms(4) by (simp add: fw_window_def)
    from fw_eval_window [OF _ assms(2) this assms(5), of "parse_state raw" l True] a show ?thesis
      unfolding e n r by simp
  next
    assume a: "\<exists>p. st = Some p \<and> parse_state raw = fw_json w p"
    from fw_eval_window [OF _ assms(2,4,5), of "parse_state raw" l True] a show ?thesis
      unfolding e n r by simp
  qed
qed

lemma seconds_reach: "(x :: rat) \<le> of_int \<lceil>x / 1000\<rceil> * 1000"
  using le_of_int_ceiling [of "x / 1000"] by linarith

context kv_backend
begin

text \<open>One check in terms of what is alive: what it answers and what it leaves.\<close>

lemma evaluate_key_alive:
  assumes "evaluate_key dtoa kget kset algorithm key (Fin t) window limit commit store = (r, store')"
  shows "r = map_sum id ev_result (evaluate_state algorithm (alive store key t) (Fin t) window limit commit)"
    and "j \<noteq> key \<Longrightarrow> t \<le> t' \<Longrightarrow> alive store' j t' = alive store j t'"
  using assms get_alive [of t key store] get_keeps [of t t' key store j]
  by (auto simp: evaluate_key_def set_other split: prod.splits sum.splits option.splits)

lemma evaluate_key_unobservable:
  assumes "evaluate_key dtoa kget kset algorithm key (Fin t) window limit commit store = (r, store')" and "t \<le> t'"
    and "evaluate_state algorithm (alive store key t) (Fin t) window limit commit = Inl e \<or>
      (\<exists>ev. evaluate_state algorithm (alive store key t) (Fin t) window limit commit = Inr ev \<and> ev_next ev = None)"
  shows "alive store' j t' = alive store j t'"
  using assms get_alive [of t key store] get_keeps [of t t' key store j]
  by (auto simp: evaluate_key_def split: prod.splits sum.splits option.splits)

lemma evaluate_key_committed:
  assumes "evaluate_key dtoa kget kset algorithm key (Fin t) window limit commit store = (r, store')"
    and "evaluate_state algorithm (alive store key t) (Fin t) window limit commit = Inr ev"
    and "ev_next ev = Some (v, Fin ttl)" and "0 < ttl"
  shows "t' < t + of_int \<lceil>ttl / 1000\<rceil> * 1000 \<Longrightarrow> alive store' key t' = Some (json_val dtoa v)"
    and "alive store' key t' = Some u \<Longrightarrow> u = json_val dtoa v"
proof -
  obtain raw store1 where g: "kget (Fin t) key store = (raw, store1)" by (cases "kget (Fin t) key store")
  with get_alive [of t key store] have raw: "raw = alive store key t" by simp
  have s': "store' = kset (Fin t) key (json_val dtoa v) (Some (Fin (of_int \<lceil>ttl / 1000\<rceil>))) store1"
    using assms(1) g raw assms(2,3) by (simp add: evaluate_key_def)
  show "t' < t + of_int \<lceil>ttl / 1000\<rceil> * 1000 \<Longrightarrow> alive store' key t' = Some (json_val dtoa v)"
    unfolding s' by (rule set_alive) (simp_all add: assms(4))
  show "alive store' key t' = Some u \<Longrightarrow> u = json_val dtoa v"
    unfolding s' by (rule set_value)
qed

lemma fw_rel_written:
  assumes evk: "evaluate_key dtoa kget kset algorithm key (Fin (of_int t)) window limit True store = (r, store')"
    and ev: "evaluate_state algorithm (alive store key (of_int t)) (Fin (of_int t)) window limit True =
      Inr \<lparr>ev_result = res, ev_next = Some (fw_json w (c, s), Fin (of_int (max 1 (s + w - t))))\<rparr>"
    and "0 \<le> s" "s \<le> t" "of_nat c \<le> l + 1"
  shows "fw_rel w l (alive store') dtoa (Some (c, s)) t key"
proof -
  let ?d = "\<lceil>of_int (max 1 (s + w - t)) / 1000 :: rat\<rceil>"
  have pos: "(0 :: rat) < of_int (max 1 (s + w - t))" by simp
  have "(of_int (s + w - t) :: rat) \<le> of_int (max 1 (s + w - t))" by (simp only: of_int_le_iff max.cobounded2)
  also have "\<dots> \<le> of_int ?d * 1000" by (rule seconds_reach)
  finally have reach: "(of_int (s + w) :: rat) \<le> of_int t + of_int ?d * 1000" by simp
  have "alive store' key t' = Some (json_val dtoa (fw_json w (c, s))) \<or> of_int (s + w) \<le> t' \<and> alive store' key t' = None" for t'
  proof (cases "t' < of_int (s + w)")
    case True
    with reach have "t' < of_int t + of_int ?d * 1000" by linarith
    then have "alive store' key t' = Some (json_val dtoa (fw_json w (c, s)))"
      by (intro evaluate_key_committed(1) [OF evk ev _ pos]) simp_all
    then show ?thesis ..
  next
    case False
    have "alive store' key t' = Some u \<Longrightarrow> u = json_val dtoa (fw_json w (c, s))" for u
      by (rule evaluate_key_committed(2) [OF evk ev _ pos]) simp_all
    with False show ?thesis by (cases "alive store' key t'") auto
  qed
  then show ?thesis using assms(3-5) by (simp add: fw_rel_def)
qed

lemma fixed_check:
  assumes rel: "\<And>k. fw_rel w l (alive store) dtoa (\<sigma> k) now (rc_prefix cfg @ k)"
    and w: "0 < w" "0 \<le> l" "l < 10 ^ 20" and t: "0 \<le> t" "now \<le> t" "t + w \<le> 8640000000000000"
    and cfg: "rc_window cfg = Fin (of_int w)" "rc_max cfg = Fin l"
    and ev: "rl_check (evaluate_key dtoa kget kset FixedWindow) cfg (Fin (of_int t))
      \<lparr>ci_key = k, ci_window_seconds = None, ci_limit = None\<rparr> store = (r, store')"
  shows "r = Inr (fw_result w l (\<sigma> k) t)"
    and "fw_rel w l (alive store') dtoa ((\<sigma>(k := Some (fw_next w l (\<sigma> k) t))) j) t (rc_prefix cfg @ j)"
proof -
  let ?key = "rc_prefix cfg @ k"
  obtain c s where cs: "fw_window w (\<sigma> k) t = (c, s)" by (cases "fw_window w (\<sigma> k) t")
  from fw_window_bounds [OF cs rel w(1,2) t(1,2)]
  have bounds: "0 \<le> s" "s \<le> t" "t < s + w" "of_nat c \<le> l + 1" by auto
  obtain c' where n: "fw_next w l (\<sigma> k) t = (c', s)" and c': "of_nat c' \<le> l + 1"
    using bounds(4) by (auto simp: fw_next_def cs)
  have win: "\<bar>s + w\<bar> \<le> 8640000000000000" using bounds t w by auto
  note eval = fw_eval [OF fw_rel_read [OF rel w(3,1) t(2,3)] w(1,2) cs win]
  have evk: "evaluate_key dtoa kget kset FixedWindow ?key (Fin (of_int t)) (Fin (of_int w)) (Fin l) True store = (r, store')"
    using ev by (simp add: rl_check_def effective_window_def effective_limit_def cfg)
  show "r = Inr (fw_result w l (\<sigma> k) t)"
    using evaluate_key_alive(1) [OF evk] eval by simp
  show "fw_rel w l (alive store') dtoa ((\<sigma>(k := Some (fw_next w l (\<sigma> k) t))) j) t (rc_prefix cfg @ j)"
  proof (cases "j = k")
    case True
    then show ?thesis using fw_rel_written [OF evk eval [unfolded n] bounds(1,2) c'] by (simp add: n)
  next
    case False
    have "alive store' (rc_prefix cfg @ j) t' = alive store (rc_prefix cfg @ j) t'" if "of_int t \<le> t'" for t'
      by (rule evaluate_key_alive(2) [OF evk]) (use that False in auto)
    then show ?thesis using False fw_rel_later [OF rel [of j] t(2)] by (auto simp: fw_rel_def split: option.splits)
  qed
qed

lemma fixed_run:
  assumes "\<And>k. fw_rel w l (alive store) dtoa (\<sigma> k) now (rc_prefix cfg @ k)"
    and "0 < w" "0 \<le> l" "l < 10 ^ 20" and "sorted (now # map fst calls)" "0 \<le> now"
    and "list_all (\<lambda>(t, k). t + w \<le> 8640000000000000) calls"
    and cfg: "rc_window cfg = Fin (of_int w)" "rc_max cfg = Fin l"
  shows "rl_run (evaluate_key dtoa kget kset FixedWindow) cfg calls store = map Inr (fw_run w l \<sigma> calls)"
  using assms(1,5-7)
proof (induction calls arbitrary: store \<sigma> now)
  case (Cons call calls)
  obtain t k where call: "call = (t, k)" by (cases call)
  obtain r store' where ev: "rl_check (evaluate_key dtoa kget kset FixedWindow) cfg (Fin (of_int t))
      \<lparr>ci_key = k, ci_window_seconds = None, ci_limit = None\<rparr> store = (r, store')" by (cases "rl_check (evaluate_key dtoa kget kset FixedWindow) cfg (Fin (of_int t))
      \<lparr>ci_key = k, ci_window_seconds = None, ci_limit = None\<rparr> store")
  have t: "0 \<le> t" "now \<le> t" "t + w \<le> 8640000000000000" using Cons.prems by (auto simp: call)
  note step = fixed_check [OF Cons.prems(1) assms(2-4) t cfg ev]
  have "rl_run (evaluate_key dtoa kget kset FixedWindow) cfg calls store' =
      map Inr (fw_run w l (\<sigma>(k := Some (fw_next w l (\<sigma> k) t))) calls)"
    by (rule Cons.IH [OF step(2)]) (use Cons.prems t in \<open>auto simp: call\<close>)
  then show ?case by (simp add: call ev step(1))
qed simp

end


section \<open>How many calls a window lets through\<close>

definition fw_left :: "int \<Rightarrow> rat \<Rightarrow> int \<Rightarrow> (nat \<times> int) option \<Rightarrow> nat" where
  "fw_left w l R st =
     (case st of None \<Rightarrow> 0 | Some (c, s) \<Rightarrow> if s + w = R then c else if R < s + w then nat \<lceil>l\<rceil> else 0)"

definition fw_count :: "string \<Rightarrow> int \<Rightarrow> (int \<times> string) list \<Rightarrow> rl_result list \<Rightarrow> nat" where
  "fw_count k R calls rs = length (filter (\<lambda>((t, k'), r). k' = k \<and> rr_allowed r \<and> rr_reset_at r = R) (zip calls rs))"

lemma fw_step_count:
  assumes "0 < w" and st: "case st of None \<Rightarrow> True | Some (c, s) \<Rightarrow> s \<le> t \<and> c \<le> nat \<lceil>l\<rceil>"
  shows "case fw_next w l st t of (c, s) \<Rightarrow> s \<le> t \<and> c \<le> nat \<lceil>l\<rceil>"
    and "n + fw_left w l R (Some (fw_next w l st t)) \<le> nat \<lceil>l\<rceil> \<Longrightarrow>
      (if rr_allowed (fw_result w l st t) \<and> rr_reset_at (fw_result w l st t) = R then 1 else 0) + n + fw_left w l R st \<le> nat \<lceil>l\<rceil>"
proof -
  have up: "of_nat c < l \<Longrightarrow> Suc c \<le> nat \<lceil>l\<rceil>" for c
  proof -
    assume "of_nat c < l"
    then have "int c < \<lceil>l\<rceil>" by (metis less_ceiling_iff of_int_of_nat_eq)
    then show "Suc c \<le> nat \<lceil>l\<rceil>" by linarith
  qed
  show "case fw_next w l st t of (c, s) \<Rightarrow> s \<le> t \<and> c \<le> nat \<lceil>l\<rceil>"
    using st up by (auto simp: fw_next_def fw_window_def split: option.splits prod.splits if_splits)
  show "n + fw_left w l R (Some (fw_next w l st t)) \<le> nat \<lceil>l\<rceil> \<Longrightarrow>
      (if rr_allowed (fw_result w l st t) \<and> rr_reset_at (fw_result w l st t) = R then 1 else 0) + n + fw_left w l R st \<le> nat \<lceil>l\<rceil>"
    using st assms(1) up
    by (auto simp: fw_left_def fw_result_def fw_next_def fw_window_def split: option.splits prod.splits if_splits)
qed

lemma fw_run_count:
  assumes "0 < w" and "sorted (map fst calls)"
    and "case \<sigma> k of None \<Rightarrow> True | Some (c, s) \<Rightarrow> list_all (\<lambda>call. s \<le> fst call) calls \<and> c \<le> nat \<lceil>l\<rceil>"
  shows "fw_count k R calls (fw_run w l \<sigma> calls) + fw_left w l R (\<sigma> k) \<le> nat \<lceil>l\<rceil>"
  using assms(2,3)
proof (induction calls arbitrary: \<sigma>)
  case Nil
  then show ?case by (auto simp: fw_count_def fw_left_def split: option.splits)
next
  case (Cons call calls)
  obtain t j where call: "call = (t, j)" by (cases call)
  let ?\<sigma> = "\<sigma>(j := Some (fw_next w l (\<sigma> j) t))"
  have later: "list_all (\<lambda>call. t \<le> fst call) calls" using Cons.prems(1) by (auto simp: call list_all_iff)
  show ?case
  proof (cases "j = k")
    case False
    have "fw_count k R calls (fw_run w l ?\<sigma> calls) + fw_left w l R (?\<sigma> k) \<le> nat \<lceil>l\<rceil>"
      by (rule Cons.IH) (use Cons.prems False in \<open>auto simp: call split: option.splits\<close>)
    with False show ?thesis by (simp add: call fw_count_def)
  next
    case True
    have st: "case \<sigma> k of None \<Rightarrow> True | Some (c, s) \<Rightarrow> s \<le> t \<and> c \<le> nat \<lceil>l\<rceil>"
      using Cons.prems(2) by (auto simp: call split: option.splits)
    obtain c' s' where n: "fw_next w l (\<sigma> k) t = (c', s')" by (cases "fw_next w l (\<sigma> k) t")
    from fw_step_count(1) [OF assms(1) st] have "s' \<le> t" "c' \<le> nat \<lceil>l\<rceil>" by (simp_all add: n)
    then have "list_all (\<lambda>call. s' \<le> fst call) calls" using later by (auto simp: list_all_iff)
    then have "fw_count k R calls (fw_run w l ?\<sigma> calls) + fw_left w l R (?\<sigma> k) \<le> nat \<lceil>l\<rceil>"
      by (intro Cons.IH) (use Cons.prems(1) \<open>c' \<le> nat \<lceil>l\<rceil>\<close> True in \<open>simp_all add: call n\<close>)
    moreover have "?\<sigma> k = Some (fw_next w l (\<sigma> k) t)" by (simp add: True)
    ultimately have "fw_count k R calls (fw_run w l ?\<sigma> calls) + fw_left w l R (Some (fw_next w l (\<sigma> k) t)) \<le> nat \<lceil>l\<rceil>"
      by (simp only:)
    from fw_step_count(2) [OF assms(1) st this] show ?thesis
      using True by (auto simp: call fw_count_def split: if_splits)
  qed
qed

section \<open>Properties\<close>

lemma fw_start:
  "fw_rel w l (kv_alive []) dtoa None 0 key" "fw_rel w l (akv_alive []) dtoa None 0 key"
  by (simp_all add: fw_rel_def kv_alive_def akv_alive_def)

text \<open>
  C7: the fixed-window limiter refines a counter: over any history of calls on any keys in order
  of time, on the in-memory store and on the atomic store, every answer is that of a counter per key that
  starts again when its window is over. That entries expire, are parsed from JSON and are
  removed when read is not observable.
\<close>

theorem fixed_window_refined:
  assumes "0 < w" "0 \<le> l" "l < 10 ^ 20" and "sorted (map fst calls)"
    and "list_all (\<lambda>(t, k). 0 \<le> t \<and> t + w \<le> 8640000000000000) calls"
    and "rc_window cfg = Fin (of_int w)" "rc_max cfg = Fin l"
  shows "rl_run (evaluate_key dtoa kv_get kv_set FixedWindow) cfg calls [] = map Inr (fw_run w l (\<lambda>_. None) calls) \<and>
    rl_run (evaluate_key dtoa akv_read akv_write FixedWindow) cfg calls [] = map Inr (fw_run w l (\<lambda>_. None) calls)"
proof -
  have s: "sorted (0 # map fst calls)" and b: "list_all (\<lambda>(t, k). t + w \<le> 8640000000000000) calls"
    using assms(4,5) by (auto simp: list_all_iff)
  show ?thesis
    using mem_kv.fixed_run [OF fw_start(1) assms(1-3) s _ b assms(6,7)]
      atomic_kv.fixed_run [OF fw_start(2) assms(1-3) s _ b assms(6,7)] by simp
qed

theorem fixed_window_refined_witness:
  "rl_run (evaluate_key (\<lambda>_. []) kv_get kv_set FixedWindow)
     \<lparr>rc_window = Fin (of_int 1000), rc_max = Fin 1, rc_prefix = ''r:'', rc_algorithm = FixedWindow\<rparr>
     [(0, ''a''), (5, ''a''), (5, ''b''), (1000, ''a'')] [] =
   map Inr (fw_run 1000 1 (\<lambda>_. None) [(0, ''a''), (5, ''a''), (5, ''b''), (1000, ''a'')])"
  by (rule fixed_window_refined [THEN conjunct1]) simp_all

text \<open>
  A fixed window never lets more than the limit through: of all calls on one key whose
  answers name the same end of the window, at most the limit (rounded up) are allowed.
\<close>

theorem fixed_window_bound:
  assumes "0 < w" "0 \<le> l" "l < 10 ^ 20" and "sorted (map fst calls)"
    and "list_all (\<lambda>(t, k). 0 \<le> t \<and> t + w \<le> 8640000000000000) calls"
    and "rc_window cfg = Fin (of_int w)" "rc_max cfg = Fin l"
  shows "length (filter (\<lambda>((t, k'), r). k' = k \<and> (case r of Inr x \<Rightarrow> rr_allowed x \<and> rr_reset_at x = R | Inl _ \<Rightarrow> False))
      (zip calls (rl_run (evaluate_key dtoa kv_get kv_set FixedWindow) cfg calls []))) \<le> nat \<lceil>l\<rceil>"
proof -
  have s: "sorted (0 # map fst calls)" and b: "list_all (\<lambda>(t, k). t + w \<le> 8640000000000000) calls"
    using assms(4,5) by (auto simp: list_all_iff)
  have run: "rl_run (evaluate_key dtoa kv_get kv_set FixedWindow) cfg calls [] = map Inr (fw_run w l (\<lambda>_. None) calls)"
    using mem_kv.fixed_run [OF fw_start(1) assms(1-3) s _ b assms(6,7)] by simp
  have "length (filter (\<lambda>((t, k'), r). k' = k \<and> (case r of Inr x \<Rightarrow> rr_allowed x \<and> rr_reset_at x = R | Inl _ \<Rightarrow> False))
      (zip calls (map Inr rs :: (rl_error + rl_result) list))) = fw_count k R calls rs" for rs
    unfolding fw_count_def zip_map2 filter_map length_map by (rule arg_cong [where f = length], rule filter_cong) auto
  then show ?thesis using fw_run_count [OF assms(1,4), where \<sigma> = "\<lambda>_. None" and k = k and l = l and R = R] by (simp add: run)
qed

theorem fixed_window_bound_witness:
  "length (filter (\<lambda>((t, k'), r). k' = ''a'' \<and> (case r of Inr x \<Rightarrow> rr_allowed x \<and> rr_reset_at x = 1000 | Inl _ \<Rightarrow> False))
      (zip [(0 :: int, ''a''), (5, ''a''), (999, ''a'')]
        (rl_run (evaluate_key (\<lambda>_. []) kv_get kv_set FixedWindow)
          \<lparr>rc_window = Fin (of_int 1000), rc_max = Fin 2, rc_prefix = ''r:'', rc_algorithm = FixedWindow\<rparr>
          [(0, ''a''), (5, ''a''), (999, ''a'')] []))) \<le> nat \<lceil>2 :: rat\<rceil>"
  by (rule fixed_window_bound [where w = 1000]) simp_all

end
