(* ===== verification/RateLimitBounds.thy ===== *)
theory RateLimitBounds
  imports RateLimit
begin

text \<open>
  What the sliding window and the token bucket let through, on states that are handed back as
  they were stored.
\<close>

section \<open>A run on states that are handed back\<close>

text \<open>A history of evaluations of one key with commit, each starting from the state the last one stored.\<close>

fun state_run :: "(jsval \<Rightarrow> rat \<Rightarrow> rl_error + rl_evaluation) \<Rightarrow> jsval \<Rightarrow> rat list \<Rightarrow> (rl_error + rl_result) list" where
  "state_run f state [] = []"
| "state_run f state (t # ts) =
     (case f state t of
        Inl e \<Rightarrow> Inl e # state_run f state ts
      | Inr ev \<Rightarrow> Inr (ev_result ev) # state_run f (case ev_next ev of None \<Rightarrow> state | Some (v, _) \<Rightarrow> v) ts)"

definition let_through :: "rl_error + rl_result \<Rightarrow> bool" where
  "let_through r = (case r of Inl _ \<Rightarrow> False | Inr x \<Rightarrow> rr_allowed x)"

lemma let_through_simps [simp]: "\<not> let_through (Inl e)" "let_through (Inr x) = rr_allowed x"
  by (simp_all add: let_through_def)

lemma evaluation_cases:
  "(\<exists>e. evaluation a b c d n = Inl e) \<or>
   (\<exists>iso. evaluation a b c d n = Inr \<lparr>ev_result = \<lparr>rr_allowed = a, rr_remaining = b, rr_reset_at = iso, rr_total = d\<rparr>, ev_next = n\<rparr>)"
  by (cases "to_iso c") (simp_all add: evaluation_def)

lemma below_limit: "of_nat c < l \<Longrightarrow> Suc c \<le> nat \<lceil>l :: rat\<rceil>"
proof -
  assume "of_nat c < l"
  then have "int c < \<lceil>l\<rceil>" by (metis less_ceiling_iff of_int_of_nat_eq)
  then show ?thesis by linarith
qed

section \<open>The sliding window\<close>

definition stamps_state :: "jsval \<Rightarrow> rat list \<Rightarrow> bool" where
  "stamps_state state S =
     ((state = JNull \<and> S = []) \<or>
      (\<exists>e. state = JObj [(''timestamps'', JArr (map (\<lambda>s. JNum (Fin s)) S)), (''expiresAt'', e)]))"

lemma sliding_step:
  assumes "stamps_state state S"
    and kept_def: "kept = filter (\<lambda>s. t - w < s) S"
  shows "(\<exists>e. sliding_window state (Fin t) (Fin w) (Fin l) True = Inl e) \<or>
    (\<exists>ev state' ttl. sliding_window state (Fin t) (Fin w) (Fin l) True = Inr ev \<and>
       rr_allowed (ev_result ev) = (of_nat (length kept) < l) \<and> ev_next ev = Some (state', ttl) \<and>
       stamps_state state' (if of_nat (length kept) < l then kept @ [t] else kept))"
proof -
  define ts where "ts = (if of_nat (length kept) < l then kept @ [t] else kept)"
  have stamps: "(if state = JNull then JArr [] else js_get (state_rec state) ''timestamps'') = JArr (map (\<lambda>s. JNum (Fin s)) S)"
    using assms(1) by (auto simp: stamps_state_def state_rec_def js_get_def)
  have k: "filter (\<lambda>t'. Fin t - Fin w < t') (map as_num (map (\<lambda>s. JNum (Fin s)) S)) = map Fin kept"
    by (simp add: kept_def filter_map comp_def as_num_def)
  have ts': "(if Fin (of_nat (length (map Fin kept))) < Fin l \<and> True then map Fin kept @ [Fin t] else map Fin kept) = map Fin ts"
    by (simp add: ts_def)
  obtain r n where n: "n = (JObj [(''timestamps'', JArr (map JNum (map Fin ts))), (''expiresAt'', JNum r)])"
    and sw: "\<exists>rem ttl. sliding_window state (Fin t) (Fin w) (Fin l) True =
      evaluation (of_nat (length kept) < l) rem r (Fin l) (Some (n, ttl))"
    unfolding sliding_window_def stamps jsval.case Let_def k ts' by auto
  have st: "stamps_state n ts" by (auto simp: n stamps_state_def comp_def)
  from sw obtain rem ttl where eq: "sliding_window state (Fin t) (Fin w) (Fin l) True =
      evaluation (of_nat (length kept) < l) rem r (Fin l) (Some (n, ttl))" by blast
  from evaluation_cases [of "of_nat (length kept) < l" rem r "Fin l" "Some (n, ttl)"] show ?thesis
    unfolding eq ts_def [symmetric] by (elim disjE exE) (simp, simp add: st)
qed

text \<open>Of the stamps in the state and the calls to come, a window holds at most the limit.\<close>

definition in_window :: "rat \<Rightarrow> rat \<Rightarrow> rat \<Rightarrow> bool" where
  "in_window a w t = (a < t \<and> t \<le> a + w)"

definition through_window :: "rat \<Rightarrow> rat \<Rightarrow> rat list \<Rightarrow> (rl_error + rl_result) list \<Rightarrow> nat" where
  "through_window a w ts rs = length (filter (\<lambda>(t, r). in_window a w t \<and> let_through r) (zip ts rs))"

lemma through_after: "(\<And>t. t \<in> set ts \<Longrightarrow> \<not> in_window a w t) \<Longrightarrow> through_window a w ts rs = 0"
  by (auto simp: through_window_def filter_empty_conv dest: set_zip_leftD)

lemma sliding_run:
  fixes S ts :: "rat list"
  assumes "stamps_state state S" and "sorted (S @ ts)" and "length S \<le> nat \<lceil>l\<rceil>"
  shows "length (filter (in_window a w) S) +
      through_window a w ts (state_run (\<lambda>v t. sliding_window v (Fin t) (Fin w) (Fin l) True) state ts) \<le> nat \<lceil>l\<rceil>"
  using assms
proof (induction ts arbitrary: state S)
  case Nil
  have "length (filter (in_window a w) S) \<le> length S" by (rule length_filter_le)
  with Nil(3) have "length (filter (in_window a w) S) \<le> nat \<lceil>l\<rceil>" by linarith
  then show ?case by (simp add: through_window_def)
next
  case (Cons t ts)
  let ?f = "\<lambda>v t. sliding_window v (Fin t) (Fin w) (Fin l) True"
  define kept where "kept = filter (\<lambda>s. t - w < s) S"
  define S' where "S' = (if of_nat (length kept) < l then kept @ [t] else kept)"
  have sorted: "sorted S" "\<forall>s \<in> set S. s \<le> t" "\<forall>u \<in> set ts. t \<le> u" "sorted ts"
    using Cons.prems(2) by (auto simp: sorted_append)
  have le: "length (filter (in_window a w) S) \<le> nat \<lceil>l\<rceil>"
    using length_filter_le [of "in_window a w" S] Cons.prems(3) by linarith
  from sliding_step [OF Cons.prems(1) kept_def, of l]
  show ?case
  proof (elim disjE exE conjE)
    fix e assume e: "?f state t = Inl e"
    have "length (filter (in_window a w) S) + through_window a w ts (state_run ?f state ts) \<le> nat \<lceil>l\<rceil>"
      by (rule Cons.IH [OF Cons.prems(1) _ Cons.prems(3)]) (use Cons.prems(2) in \<open>auto simp: sorted_append\<close>)
    then show ?thesis by (simp add: e through_window_def)
  next
    fix ev state' ttl
    assume ev: "?f state t = Inr ev" "rr_allowed (ev_result ev) = (of_nat (length kept) < l)" "ev_next ev = Some (state', ttl)"
      and st: "stamps_state state' (if of_nat (length kept) < l then kept @ [t] else kept)"
    have kept: "length kept \<le> length S" by (simp add: kept_def)
    have "length S' \<le> nat \<lceil>l\<rceil>"
      using kept Cons.prems(3) below_limit [of "length kept" l] by (simp add: S'_def)
    moreover have "sorted (S' @ ts)"
      using sorted by (auto simp: S'_def kept_def sorted_append intro: sorted_wrt_filter order_trans)
    ultimately have IH: "length (filter (in_window a w) S') + through_window a w ts (state_run ?f state' ts) \<le> nat \<lceil>l\<rceil>"
      using st by (intro Cons.IH) (simp_all add: S'_def)
    have run: "through_window a w (t # ts) (state_run ?f state (t # ts)) =
        (if in_window a w t \<and> of_nat (length kept) < l then 1 else 0) + through_window a w ts (state_run ?f state' ts)"
      by (simp add: ev through_window_def)
    consider "t \<le> a" | "in_window a w t" | "a + w < t" by (cases "t \<le> a"; cases "t \<le> a + w") (simp_all add: in_window_def not_le)
    then show ?thesis
    proof cases
      case 1
      then have "filter (in_window a w) S = []" using sorted(2) by (auto simp: filter_empty_conv in_window_def)
      moreover have "\<not> in_window a w t" using 1 by (simp add: in_window_def)
      ultimately show ?thesis using IH unfolding run by simp
    next
      case 2
      then have "filter (in_window a w) S = filter (in_window a w) kept"
        unfolding kept_def filter_filter by (intro filter_cong) (auto simp: in_window_def)
      with 2 IH show ?thesis unfolding run by (auto simp: S'_def split: if_splits)
    next
      case 3
      then have "through_window a w ts (state_run ?f state' ts) = 0"
        using sorted(3) by (intro through_after) (fastforce simp: in_window_def)
      moreover have "\<not> in_window a w t" using 3 by (simp add: in_window_def)
      ultimately show ?thesis using le unfolding run by simp
    qed
  qed
qed

section \<open>The token bucket\<close>

definition bucket_state :: "rat \<Rightarrow> jsval \<Rightarrow> rat \<Rightarrow> rat \<Rightarrow> bool" where
  "bucket_state l state x last_time =
     ((state = JNull \<and> x = l) \<or>
      (\<exists>e. state = JObj [(''tokens'', JNum (Fin x)), (''lastRefill'', JNum (Fin last_time)), (''expiresAt'', e)]))"

lemma token_step:
  assumes state: "bucket_state l state x last_time" and "0 < l" "0 < w"
    and y: "y = min l (x + max 0 (t - last_time) * (l / w))"
  shows "(\<exists>e. token_bucket state (Fin t) (Fin w) (Fin l) True = Inl e) \<or>
    (\<exists>ev state' ttl. token_bucket state (Fin t) (Fin w) (Fin l) True = Inr ev \<and>
       rr_allowed (ev_result ev) = (1 \<le> (if state = JNull then l else y)) \<and> ev_next ev = Some (state', ttl) \<and>
       bucket_state l state' ((if state = JNull then l else y) - (if 1 \<le> (if state = JNull then l else y) then 1 else 0)) t)"
proof -
  define z where "z = (if state = JNull then l else y)"
  have rate: "Fin l / Fin w = Fin (l / w)" using assms(3) by simp
  have tokens: "(if state = JNull then refilled (Fin l) (Fin t) (Fin t) (Fin l) (Fin (l / w))
      else refilled (state_num state ''tokens'') (state_num state ''lastRefill'') (Fin t) (Fin l) (Fin (l / w))) = Fin z"
    using state by (auto simp: bucket_state_def refilled_def state_num_def state_rec_def js_get_def as_num_def z_def y)
  define z' where "z' = (if 1 \<le> z then z - 1 else z)"
  have nt: "(if Fin 1 \<le> Fin z \<and> True then Fin z - Fin 1 else Fin z) = Fin z'" by (simp add: z'_def)
  have lim: "(Fin l \<le> Fin 0) = False" and ok: "(Fin 1 \<le> Fin z) = (1 \<le> z)" using assms(2) by simp_all
  define n where "n = JObj [(''tokens'', JNum (Fin z')), (''lastRefill'', JNum (Fin t)),
    (''expiresAt'', JNum (Fin t + js_max (Fin 1) (js_ceil ((Fin l - Fin z') / Fin (l / w)))))]"
  have tb: "\<exists>rem reset ttl. token_bucket state (Fin t) (Fin w) (Fin l) True = evaluation (1 \<le> z) rem reset (Fin l) (Some (n, ttl))"
    unfolding token_bucket_def rate Let_def tokens nt lim if_False if_True n_def unfolding ok
    by (intro exI) (rule refl)
  have st: "bucket_state l n (z - (if 1 \<le> z then 1 else 0)) t" by (simp add: bucket_state_def n_def z'_def)
  from tb obtain rem reset ttl where
    eq: "token_bucket state (Fin t) (Fin w) (Fin l) True = evaluation (1 \<le> z) rem reset (Fin l) (Some (n, ttl))" by blast
  from evaluation_cases [of "1 \<le> z" rem reset "Fin l" "Some (n, ttl)"] show ?thesis
    unfolding eq z_def [symmetric] by (elim disjE exE) (simp, simp add: st)
qed

text \<open>The number of calls let through is paid for by the tokens present and those refilled.\<close>

definition let_through_count :: "(rl_error + rl_result) list \<Rightarrow> nat" where
  "let_through_count rs = length (filter let_through rs)"

lemma let_through_count_simps [simp]:
  "let_through_count [] = 0" "let_through_count (r # rs) = (if let_through r then 1 else 0) + let_through_count rs"
  by (simp_all add: let_through_count_def)

lemma token_run:
  assumes "bucket_state l state x last_time" and "0 \<le> x" "x \<le> l" "0 < l" "0 < w" and rt: "rt = l / w" and "sorted (last_time # ts)" and "ts \<noteq> []"
  shows "of_nat (let_through_count (state_run (\<lambda>v t. token_bucket v (Fin t) (Fin w) (Fin l) True) state ts)) \<le>
    min l (x + (hd ts - last_time) * rt) + (last ts - hd ts) * rt"
  using assms(1-3,7,8)
proof (induction ts arbitrary: state x last_time)
  case (Cons t ts)
  let ?f = "\<lambda>v t. token_bucket v (Fin t) (Fin w) (Fin l) True"
  define y where "y = min l (x + (t - last_time) * rt)"
  have r: "0 < rt" using assms(4,5) by (simp add: rt)
  have t: "last_time \<le> t" "\<forall>u \<in> set ts. t \<le> u" "sorted ts" using Cons.prems(4) by auto
  have nn: "0 \<le> (t - last_time) * rt" using r t(1) by (intro mult_nonneg_nonneg) auto
  then have y0: "0 \<le> y" "y \<le> l" using Cons.prems(2,3) assms(4) r t(1) by (auto simp: y_def)
  have "l \<le> l + (t - last_time) * rt" using nn by linarith
  then have yl: "state = JNull \<Longrightarrow> y = l"
    using Cons.prems(1) unfolding y_def bucket_state_def by (metis jsval.distinct(21) min.absorb1)
  then have z: "(if state = JNull then l else y) = y" by simp
  have ends: "ts \<noteq> [] \<Longrightarrow> t \<le> hd ts" using t(2) by simp
  have ym: "y = min l (x + max 0 (t - last_time) * (l / w))" using t(1) by (simp add: y_def rt)
  have "of_nat (let_through_count (state_run ?f state (t # ts))) \<le> y + (last (t # ts) - t) * rt"
    using token_step [OF Cons.prems(1) assms(4,5) ym, unfolded z]
  proof (elim disjE exE conjE)
    fix e assume e: "?f state t = Inl e"
    show ?thesis
    proof (cases "ts = []")
      case False
      have "of_nat (let_through_count (state_run ?f state ts)) \<le> min l (x + (hd ts - last_time) * rt) + (last ts - hd ts) * rt"
        by (rule Cons.IH) (use Cons.prems False in auto)
      moreover have "min l (x + (hd ts - last_time) * rt) \<le> y + (hd ts - t) * rt"
      proof -
        have "0 \<le> (hd ts - t) * rt" using ends [OF False] r by (intro mult_nonneg_nonneg) auto
        moreover have "x + (hd ts - last_time) * rt = x + (t - last_time) * rt + (hd ts - t) * rt" by (simp add: algebra_simps)
        ultimately show ?thesis unfolding y_def by linarith
      qed
      ultimately show ?thesis using False by (simp add: e algebra_simps)
    qed (use y0 in \<open>simp add: e\<close>)
  next
    fix ev state' ttl
    assume ev: "?f state t = Inr ev" "rr_allowed (ev_result ev) = (1 \<le> y)" "ev_next ev = Some (state', ttl)"
      and st: "bucket_state l state' (y - (if 1 \<le> y then 1 else 0)) t"
    show ?thesis
    proof (cases "ts = []")
      case False
      have "of_nat (let_through_count (state_run ?f state' ts)) \<le>
          min l (y - (if 1 \<le> y then 1 else 0) + (hd ts - t) * rt) + (last ts - hd ts) * rt"
        by (rule Cons.IH [OF st]) (use y0 t False in auto)
      then show ?thesis using False by (auto simp: ev algebra_simps)
    qed (use y0 in \<open>simp add: ev\<close>)
  qed
  then show ?case by (simp add: y_def)
qed simp

text \<open>A run leaves a bucket whose tokens are within its bounds.\<close>

lemma state_run_append:
  "\<exists>state'. state_run f state (us @ vs) = state_run f state us @ state_run f state' vs \<and>
    (\<forall>P. P state \<longrightarrow> (\<forall>s t ev v ttl. P s \<longrightarrow> t \<in> set us \<longrightarrow> f s t = Inr ev \<longrightarrow> ev_next ev = Some (v, ttl) \<longrightarrow> P v) \<longrightarrow> P state')"
proof (induction us arbitrary: state)
  case (Cons u us)
  define s where "s = (case f state u of Inl e \<Rightarrow> state | Inr ev \<Rightarrow> (case ev_next ev of None \<Rightarrow> state | Some (v, _) \<Rightarrow> v))"
  from Cons.IH [of s] obtain s' where s': "state_run f s (us @ vs) = state_run f s us @ state_run f s' vs"
    and P: "\<And>P. P s \<Longrightarrow> (\<And>s t ev v ttl. P s \<Longrightarrow> t \<in> set us \<Longrightarrow> f s t = Inr ev \<Longrightarrow> ev_next ev = Some (v, ttl) \<Longrightarrow> P v) \<Longrightarrow> P s'"
    by blast
  have inv: "P s'" if "P state" and keep: "\<And>s t ev v ttl. P s \<Longrightarrow> t \<in> set (u # us) \<Longrightarrow> f s t = Inr ev \<Longrightarrow> ev_next ev = Some (v, ttl) \<Longrightarrow> P v" for P
  proof (rule P)
    show "P s" using that(1) keep [of state u] by (auto simp: s_def split: sum.split option.split)
  next
    fix s t ev v ttl assume "P s" "t \<in> set us" "f s t = Inr ev" "ev_next ev = Some (v, ttl)"
    then show "P v" by (intro keep [of s t ev v ttl]) simp_all
  qed
  have "state_run f state (u # xs) =
      (case f state u of Inl e \<Rightarrow> Inl e | Inr ev \<Rightarrow> Inr (ev_result ev)) # state_run f s xs" for xs
    by (simp add: s_def split: sum.split)
  then have "state_run f state ((u # us) @ vs) = state_run f state (u # us) @ state_run f s' vs"
    by (simp add: s')
  then show ?case
  proof (intro exI conjI allI impI)
    fix P assume "P state" and keep: "\<forall>s t ev v ttl. P s \<longrightarrow> t \<in> set (u # us) \<longrightarrow> f s t = Inr ev \<longrightarrow> ev_next ev = Some (v, ttl) \<longrightarrow> P v"
    show "P s'"
    proof (rule inv [of P, OF \<open>P state\<close>])
      fix s t ev v ttl assume "P s" "t \<in> set (u # us)" "f s t = Inr ev" "ev_next ev = Some (v, ttl)"
      with keep show "P v" by iprover
    qed
  qed
qed auto

section \<open>Properties of the algorithms\<close>

text \<open>
  C28: the sliding window: in a run on states that are handed back as they were stored, every
  window of the configured length, wherever it starts, holds at most the limit (rounded up) of
  allowed calls.
\<close>

theorem sliding_window_bound:
  assumes "sorted ts"
  shows "length (filter (\<lambda>(t, r). a < t \<and> t \<le> a + w \<and> let_through r)
      (zip ts (state_run (\<lambda>v t. sliding_window v (Fin t) (Fin w) (Fin l) True) JNull ts))) \<le> nat \<lceil>l\<rceil>"
proof -
  have "through_window a w ts (state_run (\<lambda>v t. sliding_window v (Fin t) (Fin w) (Fin l) True) JNull ts) \<le> nat \<lceil>l\<rceil>"
    using sliding_run [of JNull "[]" ts l a w] assms by (simp add: stamps_state_def)
  then show ?thesis by (simp add: through_window_def in_window_def conj_assoc)
qed

theorem sliding_window_bound_witness:
  "length (filter (\<lambda>(t, r). 0 < t \<and> t \<le> 0 + 10 \<and> let_through r)
      (zip [1 :: rat, 2, 12] (state_run (\<lambda>v t. sliding_window v (Fin t) (Fin 10) (Fin 1) True) JNull [1, 2, 12]))) \<le> nat \<lceil>1 :: rat\<rceil>"
  by (rule sliding_window_bound) simp

text \<open>
  C29: the token bucket: of the calls of any stretch of such a run at most the limit is allowed,
  plus what is refilled between the first and the last call of the stretch.
\<close>

theorem token_bucket_bound:
  assumes "0 < l" "0 < w" and "sorted (us @ vs)" and "vs \<noteq> []"
  shows "of_nat (let_through_count (drop (length us)
      (state_run (\<lambda>v t. token_bucket v (Fin t) (Fin w) (Fin l) True) JNull (us @ vs)))) \<le> l + (last vs - hd vs) * (l / w)"
proof -
  let ?f = "\<lambda>v t. token_bucket v (Fin t) (Fin w) (Fin l) True"
  define P where "P v = (\<exists>x tl. bucket_state l v x tl \<and> 0 \<le> x \<and> x \<le> l \<and> tl \<le> hd vs)" for v
  have len: "length (state_run f v us) = length us" for f v
    by (induction us arbitrary: v) (auto split: sum.split)
  have start: "P JNull" using assms(1) by (auto simp: P_def bucket_state_def intro: exI [of _ "hd vs"])
  have keep: "P v" if "P s" "t \<in> set us" "?f s t = Inr ev" "ev_next ev = Some (v, ttl)" for s t ev v ttl
  proof -
    from that(1) obtain x tl where s: "bucket_state l s x tl" "0 \<le> x" "x \<le> l" by (auto simp: P_def)
    define y where "y = min l (x + max 0 (t - tl) * (l / w))"
    define z where "z = (if s = JNull then l else y)"
    have "0 \<le> max 0 (t - tl) * (l / w)" using assms(1,2) by (intro mult_nonneg_nonneg) auto
    then have y: "0 \<le> y" "y \<le> l" using s assms(1) by (auto simp: y_def)
    then have z: "0 \<le> z" "z \<le> l" using assms(1) by (auto simp: z_def)
    have "bucket_state l v (z - (if 1 \<le> z then 1 else 0)) t"
      using token_step [OF s(1) assms(1,2) y_def, folded z_def] that(3,4) by auto
    moreover have "t \<le> hd vs" using assms(3,4) that(2) by (auto simp: sorted_append)
    ultimately show ?thesis using z unfolding P_def
      by (intro exI [of _ "z - (if 1 \<le> z then 1 else 0)"] exI [of _ t] conjI) auto
  qed
  from state_run_append [of ?f JNull us vs] obtain s'
    where run: "state_run ?f JNull (us @ vs) = state_run ?f JNull us @ state_run ?f s' vs"
    and inv: "\<forall>P. P JNull \<longrightarrow> (\<forall>s t ev v ttl. P s \<longrightarrow> t \<in> set us \<longrightarrow> ?f s t = Inr ev \<longrightarrow> ev_next ev = Some (v, ttl) \<longrightarrow> P v) \<longrightarrow> P s'" by blast
  have "P s'" by (rule inv [rule_format, of P, OF start]) (erule (3) keep)
  then obtain x tl where s': "bucket_state l s' x tl" "0 \<le> x" "x \<le> l" "tl \<le> hd vs" by (auto simp: P_def)
  have srt: "sorted (tl # vs)" using assms(3,4) s'(4) by (cases vs) (auto simp: sorted_append)
  show ?thesis
    using token_run [OF s'(1-3) assms(1,2) refl srt assms(4)] by (simp add: run len)
qed

theorem token_bucket_bound_witness:
  "of_nat (let_through_count (drop (length [0 :: rat])
      (state_run (\<lambda>v t. token_bucket v (Fin t) (Fin 10) (Fin 2) True) JNull ([0] @ [1, 6])))) \<le> (2 :: rat) + (last [1, 6] - hd [1, 6]) * (2 / 10)"
  by (rule token_bucket_bound) simp_all

end
