(* ===== verification/RateLimitStores.thy ===== *)
theory RateLimitStores
  imports WindowRefinement RateLimitBounds
begin

text \<open>
  The rate limiter over its stores: checking many keys charges all or none of them; a
  compare-and-set commit is the effect of one uninterrupted check at the instant of the
  commit; the sweep of the DataFn limiter cannot be observed. And two departures from the
  intent: the time to live cuts the memory of the sliding window short, and the in-memory
  DataFn limiter lets the first call of a window through whatever the limit is.
\<close>

section \<open>Preflight and commit agree\<close>

text \<open>Whether a call is allowed does not depend on the commit flag; without it nothing is stored.\<close>

lemma evaluation_Inr:
  "evaluation a b c d n = Inr ev \<Longrightarrow> rr_allowed (ev_result ev) = a \<and> ev_next ev = n"
  by (auto simp: evaluation_def bind_sum_Inr)

lemma evaluate_no_commit:
  "evaluate_state alg raw now w l False = Inr ev \<Longrightarrow> ev_next ev = None"
  by (auto simp: evaluate_state_def sliding_window_def token_bucket_def fixed_window_def Let_def
      dest: evaluation_Inr split: if_splits rl_algorithm.splits jsval.splits)

lemma evaluate_allowed_agree:
  assumes "evaluate_state alg raw now w l False = Inr ev" and "evaluate_state alg raw now w l True = Inr ev'"
  shows "rr_allowed (ev_result ev') = rr_allowed (ev_result ev)"
  using assms
  by (auto simp: evaluate_state_def sliding_window_def token_bucket_def fixed_window_def Let_def
      dest!: evaluation_Inr split: if_splits rl_algorithm.splits jsval.splits)

lemma map_sum_Inr: "map_sum id f r = Inr y \<longleftrightarrow> (\<exists>x. r = Inr x \<and> y = f x)"
  by (cases r) auto

text \<open>What one key is charged: the outcome of its evaluation on what is alive.\<close>

definition key_outcome :: "rl_algorithm \<Rightarrow> (string \<Rightarrow> rat \<Rightarrow> string option) \<Rightarrow> rat \<Rightarrow> jsnum \<Rightarrow> bool \<Rightarrow> string \<times> jsnum \<Rightarrow> rl_error + rl_result" where
  "key_outcome alg live now window commit target =
     map_sum id ev_result (evaluate_state alg (live (fst target) now) (Fin now) window (snd target) commit)"

context kv_backend
begin

text \<open>Nothing a reader can see from now on has changed, apart from the keys in \<open>ks\<close>.\<close>

definition same_except :: "string set \<Rightarrow> rat \<Rightarrow> 's \<Rightarrow> 's \<Rightarrow> bool" where
  "same_except ks now s s' = (\<forall>j t. j \<notin> ks \<longrightarrow> now \<le> t \<longrightarrow> alive s' j t = alive s j t)"

lemma same_except_trans: "same_except A now s s' \<Longrightarrow> same_except B now s' s'' \<Longrightarrow> same_except (A \<union> B) now s s''"
  by (auto simp: same_except_def)

lemma evaluate_one:
  assumes "evaluate_key dtoa kget kset alg k (Fin now) window l commit s = (r, s')"
  shows "r = key_outcome alg (alive s) now window commit (k, l)" and "same_except {k} now s s'"
    and "\<not> commit \<Longrightarrow> same_except {} now s s'"
proof -
  obtain raw s1 where g: "kget (Fin now) k s = (raw, s1)" by (cases "kget (Fin now) k s")
  have raw: "raw = alive s k now" using get_alive [of now k s] g by simp
  have s1: "alive s1 j t = alive s j t" if "now \<le> t" for j t using get_keeps [OF that, of k s j] g by simp
  show "r = key_outcome alg (alive s) now window commit (k, l)"
    using assms g raw by (auto simp: evaluate_key_def key_outcome_def split: sum.splits option.splits)
  show "same_except {k} now s s'"
    using assms g s1 by (auto simp: evaluate_key_def same_except_def set_other split: sum.splits option.splits)
  show "same_except {} now s s'" if "\<not> commit"
    using assms g s1 that
    by (auto simp: evaluate_key_def same_except_def dest: evaluate_no_commit split: sum.splits option.splits)
qed

text \<open>What an evaluation leaves at its key depends on the key alone.\<close>

lemma evaluate_leaves:
  assumes "evaluate_key dtoa kget kset alg k (Fin now) window l commit s = (r, s')"
    and "evaluate_key dtoa kget kset alg k (Fin now) window l commit u = (q, u')"
    and "\<forall>t. now \<le> t \<longrightarrow> alive s k t = alive u k t" and "now \<le> t"
  shows "alive s' k t = alive u' k t"
proof -
  obtain raw s1 where g: "kget (Fin now) k s = (raw, s1)" by (cases "kget (Fin now) k s")
  obtain raw' u1 where h: "kget (Fin now) k u = (raw', u1)" by (cases "kget (Fin now) k u")
  have "raw = alive s k now" and "raw' = alive u k now" using get_alive [of now k s] get_alive [of now k u] g h by simp_all
  then have raw: "raw' = raw" using assms(3) by simp
  have read: "alive s1 k t = alive u1 k t"
    using get_keeps [OF assms(4), of k s k] get_keeps [OF assms(4), of k u k] g h assms(3,4) by simp
  show ?thesis
  proof (cases "evaluate_state alg raw (Fin now) window l commit")
    case (Inl e)
    then show ?thesis using assms(1,2) read by (simp add: evaluate_key_def g h raw)
  next
    case (Inr ev)
    show ?thesis
    proof (cases "ev_next ev")
      case None
      then show ?thesis using assms(1,2) read by (simp add: evaluate_key_def g h raw Inr)
    next
      case (Some p)
      then show ?thesis using assms(1,2) set_same [of now k _ _ s1 t u1]
        by (cases p) (auto simp: evaluate_key_def g h raw Inr)
    qed
  qed
qed

lemma key_outcome_same:
  "same_except A now s s' \<Longrightarrow> fst target \<notin> A \<Longrightarrow>
   key_outcome alg (alive s') now window commit target = key_outcome alg (alive s) now window commit target"
  by (simp add: key_outcome_def same_except_def)

text \<open>The first pass reads and leaves no trace.\<close>

lemma preflight_reads:
  assumes "preflight (\<lambda>(k, l). evaluate_key dtoa kget kset alg k (Fin now) window l False) targets s = (r, s')"
  shows "same_except {} now s s' \<and>
    (\<forall>rs. r = Inr rs \<longrightarrow> map Inr rs = map (key_outcome alg (alive s) now window False) targets)"
  using assms
proof (induction targets arbitrary: s r s')
  case Nil
  then show ?case by (auto simp: same_except_def)
next
  case (Cons target targets)
  obtain k l where target: "target = (k, l)" by (cases target)
  obtain r1 s1 where e: "evaluate_key dtoa kget kset alg k (Fin now) window l False s = (r1, s1)"
    by (cases "evaluate_key dtoa kget kset alg k (Fin now) window l False s")
  obtain r2 s2 where p: "preflight (\<lambda>(k, l). evaluate_key dtoa kget kset alg k (Fin now) window l False) targets s1 = (r2, s2)"
    by (cases "preflight (\<lambda>(k, l). evaluate_key dtoa kget kset alg k (Fin now) window l False) targets s1")
  from Cons.prems have r: "r = bind_sum r1 (\<lambda>x. bind_sum r2 (\<lambda>xs. Inr (x # xs)))" "s' = s2"
    by (simp_all add: target e p)
  note one = evaluate_one [OF e]
  from Cons.IH [OF p] have IH: "same_except {} now s1 s2"
    "\<And>rs. r2 = Inr rs \<Longrightarrow> map Inr rs = map (key_outcome alg (alive s1) now window False) targets" by auto
  have same: "key_outcome alg (alive s1) now window False = key_outcome alg (alive s) now window False"
    by (rule ext) (rule key_outcome_same [OF one(3)], simp_all)
  show ?case
    using same_except_trans [OF one(3) IH(1)] one(1) IH(2)
    by (auto simp: r target same bind_sum_Inr)
qed

text \<open>The second pass goes through when the first found every key allowed.\<close>

lemma commit_all:
  assumes "commit_keys (\<lambda>(k, l). evaluate_key dtoa kget kset alg k (Fin now) window l True) targets s = (Inr rs, s')"
    and "distinct (map fst targets)"
    and "list_all (\<lambda>target. \<exists>x. key_outcome alg (alive s) now window False target = Inr x \<and> rr_allowed x) targets"
  shows "list_all rr_allowed rs \<and> length rs = length targets"
  using assms
proof (induction targets arbitrary: s rs)
  case (Cons target targets)
  obtain k l where target: "target = (k, l)" by (cases target)
  obtain r1 s1 where e: "evaluate_key dtoa kget kset alg k (Fin now) window l True s = (r1, s1)"
    by (cases "evaluate_key dtoa kget kset alg k (Fin now) window l True s")
  from Cons.prems(1) obtain x where x: "r1 = Inr x" by (cases r1) (simp_all add: target e)
  from Cons.prems(3) obtain y where y: "key_outcome alg (alive s) now window False (k, l) = Inr y" "rr_allowed y"
    by (auto simp: target)
  have "rr_allowed x"
    using evaluate_one(1) [OF e, symmetric] y evaluate_allowed_agree unfolding x key_outcome_def map_sum_Inr by metis
  with Cons.prems(1) obtain rs' where rest:
    "commit_keys (\<lambda>(k, l). evaluate_key dtoa kget kset alg k (Fin now) window l True) targets s1 = (Inr rs', s')"
    and rs: "rs = x # rs'"
    by (auto simp: target e x bind_sum_Inr split: prod.splits)
  have "list_all (\<lambda>target. \<exists>x. key_outcome alg (alive s1) now window False target = Inr x \<and> rr_allowed x) targets"
  proof -
    have "key_outcome alg (alive s1) now window False u = key_outcome alg (alive s) now window False u" if "u \<in> set targets" for u
      by (rule key_outcome_same [OF evaluate_one(2) [OF e]]) (use that Cons.prems(2) in \<open>force simp: target\<close>)
    then show ?thesis using Cons.prems(3) by (simp add: list_all_iff)
  qed
  from Cons.IH [OF rest _ this] Cons.prems(2) \<open>rr_allowed x\<close> show ?case by (simp add: rs)
qed simp

text \<open>A store in which each of the keys is as after a check of it alone, and nothing else has changed.\<close>

definition charged :: "(rat \<Rightarrow> string) \<Rightarrow> rl_algorithm \<Rightarrow> rat \<Rightarrow> jsnum \<Rightarrow> (string \<times> jsnum) list \<Rightarrow> 's \<Rightarrow> 's \<Rightarrow> bool" where
  "charged dtoa alg now window targets s s' \<longleftrightarrow> same_except (fst ` set targets) now s s' \<and>
     (\<forall>(k, l) \<in> set targets. \<forall>t. now \<le> t \<longrightarrow>
        alive s' k t = alive (snd (evaluate_key dtoa kget kset alg k (Fin now) window l True s)) k t)"

lemma charged_start:
  assumes "same_except {} now u s" and "charged dtoa alg now window targets s s'"
  shows "charged dtoa alg now window targets u s'"
proof -
  have "alive (snd (evaluate_key dtoa kget kset alg k (Fin now) window l True s)) k t =
      alive (snd (evaluate_key dtoa kget kset alg k (Fin now) window l True u)) k t" if "now \<le> t" for k l t
    using evaluate_leaves [OF prod.collapse [symmetric] prod.collapse [symmetric] _ that] assms(1) by (simp add: same_except_def)
  moreover have "same_except (fst ` set targets) now u s'"
    using same_except_trans [OF assms(1), of "fst ` set targets" s'] assms(2) by (simp add: charged_def)
  ultimately show ?thesis using assms(2) by (auto simp: charged_def)
qed

lemma commit_charges:
  assumes "commit_keys (\<lambda>(k, l). evaluate_key dtoa kget kset alg k (Fin now) window l True) targets s = (Inr rs, s')"
    and "distinct (map fst targets)" and "list_all rr_allowed rs" and "length rs = length targets"
  shows "charged dtoa alg now window targets s s'"
  using assms
proof (induction targets arbitrary: s rs)
  case Nil
  then show ?case by (simp add: charged_def same_except_def)
next
  case (Cons target targets)
  obtain k l where target: "target = (k, l)" by (cases target)
  obtain r1 s1 where e: "evaluate_key dtoa kget kset alg k (Fin now) window l True s = (r1, s1)"
    by (cases "evaluate_key dtoa kget kset alg k (Fin now) window l True s")
  obtain x where x: "r1 = Inr x" using Cons.prems(1) by (cases r1) (simp_all add: target e)
  have "rr_allowed x" using Cons.prems(1,3) by (auto simp: target e x bind_sum_Inr split: prod.splits if_splits)
  then obtain rs' where rest: "commit_keys (\<lambda>(k, l). evaluate_key dtoa kget kset alg k (Fin now) window l True) targets s1 = (Inr rs', s')"
    and rs: "rs = x # rs'"
    using Cons.prems(1) by (auto simp: target e x bind_sum_Inr split: prod.splits)
  have "charged dtoa alg now window targets s1 s'"
    using Cons.IH [OF rest] Cons.prems(2-4) by (simp add: rs)
  then have rest_same: "same_except (fst ` set targets) now s1 s'"
    and rest_charged: "\<And>j m t. (j, m) \<in> set targets \<Longrightarrow> now \<le> t \<Longrightarrow>
      alive s' j t = alive (snd (evaluate_key dtoa kget kset alg j (Fin now) window m True s1)) j t"
    unfolding charged_def by blast+
  note first = evaluate_one(2) [OF e]
  have k: "k \<notin> fst ` set targets" using Cons.prems(2) by (simp add: target)
  have "alive s' j t = alive (snd (evaluate_key dtoa kget kset alg j (Fin now) window m True s)) j t"
    if "(j, m) \<in> set (target # targets)" "now \<le> t" for j m t
  proof (cases "(j, m) = (k, l)")
    case True
    then show ?thesis using rest_same k that(2) by (simp add: same_except_def e)
  next
    case False
    then have j: "(j, m) \<in> set targets" using that(1) target by auto
    then have "j \<noteq> k" using k by force
    then have "\<forall>t. now \<le> t \<longrightarrow> alive s1 j t = alive s j t" using first by (simp add: same_except_def)
    then have "alive (snd (evaluate_key dtoa kget kset alg j (Fin now) window m True s1)) j t =
        alive (snd (evaluate_key dtoa kget kset alg j (Fin now) window m True s)) j t"
      by (rule evaluate_leaves [OF prod.collapse [symmetric] prod.collapse [symmetric] _ that(2)])
    then show ?thesis using rest_charged [OF j that(2)] by simp
  qed
  moreover have "same_except (fst ` set (target # targets)) now s s'"
    using same_except_trans [OF first rest_same] by (simp add: target)
  ultimately show ?case by (auto simp: charged_def)
qed

lemma check_many_all_or_none:
  assumes "rl_check_many (evaluate_key dtoa kget kset alg) cfg (Fin now) inp s = (Inr m, s')"
    and "mi_keys inp \<noteq> []"
  shows "mr_allowed m = list_all (\<lambda>k. \<exists>x. key_outcome alg (alive s) now (effective_window cfg (mi_window_seconds inp)) False
        (rc_prefix cfg @ k, key_limit inp (effective_limit cfg (mi_limit inp)) k) = Inr x \<and> rr_allowed x) (mi_keys inp)"
    and "\<not> mr_allowed m \<Longrightarrow> same_except {} now s s'"
    and "mr_allowed m \<Longrightarrow> charged dtoa alg now (effective_window cfg (mi_window_seconds inp))
      (map (\<lambda>k. (rc_prefix cfg @ k, key_limit inp (effective_limit cfg (mi_limit inp)) k)) (js_unique (mi_keys inp))) s s'"
proof -
  let ?w = "effective_window cfg (mi_window_seconds inp)" and ?l = "effective_limit cfg (mi_limit inp)"
  let ?keys = "js_unique (mi_keys inp)"
  let ?targets = "map (\<lambda>k. (rc_prefix cfg @ k, key_limit inp ?l k)) ?keys"
  let ?ok = "\<lambda>target. \<exists>x. key_outcome alg (alive s) now ?w False target = Inr x \<and> rr_allowed x"
  have ne: "?keys \<noteq> []" using assms(2) set_js_unique [of "mi_keys inp"] by (metis set_empty)
  obtain r1 s1 where pre: "preflight (\<lambda>(k, l). evaluate_key dtoa kget kset alg k (Fin now) ?w l False) ?targets s = (r1, s1)"
    by (cases "preflight (\<lambda>(k, l). evaluate_key dtoa kget kset alg k (Fin now) ?w l False) ?targets s")
  from assms(1) ne obtain rs where rs: "r1 = Inr rs"
    by (cases r1) (simp_all add: rl_check_many_def Let_def pre)
  from preflight_reads [OF pre] have same: "same_except {} now s s1"
    and outs: "map Inr rs = map (key_outcome alg (alive s) now ?w False) ?targets" by (simp_all add: rs)
  have "list_all rr_allowed rs = list_all (\<lambda>r. \<exists>x. r = Inr x \<and> rr_allowed x) (map Inr rs :: (rl_error + rl_result) list)"
    by (simp add: list_all_iff)
  then have all: "list_all rr_allowed rs = list_all ?ok ?targets" by (simp only: outs list.pred_map comp_def)
  also have "\<dots> = list_all (\<lambda>k. ?ok (rc_prefix cfg @ k, key_limit inp ?l k)) (mi_keys inp)"
    using set_js_unique [of "mi_keys inp"] by (simp add: list_all_iff)
  finally have spec: "list_all rr_allowed rs = list_all (\<lambda>k. ?ok (rc_prefix cfg @ k, key_limit inp ?l k)) (mi_keys inp)" .
  have "mr_allowed m = list_all rr_allowed rs \<and> (\<not> mr_allowed m \<longrightarrow> same_except {} now s s') \<and>
      (mr_allowed m \<longrightarrow> charged dtoa alg now ?w ?targets s s')"
  proof (cases "list_all rr_allowed rs")
    case False
    then show ?thesis using assms(1) ne same by (auto simp: rl_check_many_def Let_def pre rs many_blocked_def)
  next
    case True
    obtain r2 s2 where com: "commit_keys (\<lambda>(k, l). evaluate_key dtoa kget kset alg k (Fin now) ?w l True) ?targets s1 = (r2, s2)"
      by (cases "commit_keys (\<lambda>(k, l). evaluate_key dtoa kget kset alg k (Fin now) ?w l True) ?targets s1")
    from assms(1) ne True obtain cs where cs: "r2 = Inr cs"
      by (cases r2) (simp_all add: rl_check_many_def Let_def pre rs com)
    have "key_outcome alg (alive s1) now ?w False = key_outcome alg (alive s) now ?w False"
      by (rule ext) (rule key_outcome_same [OF same], simp)
    then have "list_all (\<lambda>target. \<exists>x. key_outcome alg (alive s1) now ?w False target = Inr x \<and> rr_allowed x) ?targets"
      using True all by simp
    moreover have "distinct (map fst ?targets)"
      using distinct_js_unique [of "mi_keys inp"] by (simp add: distinct_map comp_def inj_on_def)
    ultimately have all_done: "list_all rr_allowed cs" "distinct (map fst ?targets)" "length cs = length ?targets"
      using commit_all [OF com [unfolded cs]] by blast+
    have "charged dtoa alg now ?w ?targets s s2"
      by (rule charged_start [OF same commit_charges [OF com [unfolded cs] all_done(2,1,3)]])
    then show ?thesis using assms(1) ne True all_done(1) by (auto simp: rl_check_many_def Let_def pre rs com cs many_allowed_def)
  qed
  then show "mr_allowed m = list_all (\<lambda>k. ?ok (rc_prefix cfg @ k, key_limit inp ?l k)) (mi_keys inp)"
    and "\<not> mr_allowed m \<Longrightarrow> same_except {} now s s'" and "mr_allowed m \<Longrightarrow> charged dtoa alg now ?w ?targets s s'"
    using spec by auto
qed

end

section \<open>The compare-and-set loop\<close>

text \<open>The states of the shared store at the reads and at the commits of the attempts.\<close>

fun attempt_stores :: "nat \<Rightarrow> (nat \<Rightarrow> kv_store \<Rightarrow> kv_store) \<Rightarrow> jsnum \<Rightarrow> string \<Rightarrow> kv_store \<Rightarrow> kv_store list" where
  "attempt_stores 0 env now key store = []"
| "attempt_stores (Suc n) env now key store =
     (let at_commit = env n (snd (akv_read now key store))
      in store # at_commit # attempt_stores n env now key (snd (akv_read now key at_commit)))"

lemma akv_read_again: "akv_read now key store = (v, store1) \<Longrightarrow> akv_read now key store1 = (v, store1)"
  by (auto simp: akv_read_def jmap_simps split: option.splits if_splits)

lemma atomic_attempts_commit:
  assumes "atomic_attempts n env dtoa alg key now window limit commit store = (Inr r, store')"
  shows "\<exists>s \<in> set (attempt_stores n env now key store).
    evaluate_key dtoa akv_read akv_write alg key now window limit commit s = (Inr r, store')"
  using assms
proof (induction n arbitrary: store)
  case (Suc n)
  obtain v s1 where g: "akv_read now key store = (v, s1)" by (cases "akv_read now key store")
  from Suc.prems obtain ev where ev: "evaluate_state alg v now window limit commit = Inr ev"
    by (auto simp: g split: sum.splits)
  show ?case
  proof (cases "ev_next ev")
    case None
    with Suc.prems have "evaluate_key dtoa akv_read akv_write alg key now window limit commit store = (Inr r, store')"
      by (simp add: g ev evaluate_key_def)
    then show ?thesis by (simp add: Let_def)
  next
    case (Some p)
    obtain nxt ttl where p: "p = (nxt, ttl)" by (cases p)
    obtain u s2 where c: "akv_read now key (env n s1) = (u, s2)" by (cases "akv_read now key (env n s1)")
    show ?thesis
    proof (cases "u = v")
      case True
      with Suc.prems have "evaluate_key dtoa akv_read akv_write alg key now window limit commit (env n s1) = (Inr r, store')"
        by (simp add: g ev Some p c akv_compare_and_set_def evaluate_key_def)
      then show ?thesis by (simp add: Let_def g)
    next
      case False
      with Suc.prems have "atomic_attempts n env dtoa alg key now window limit commit s2 = (Inr r, store')"
        by (simp add: g ev Some p c akv_compare_and_set_def)
      from Suc.IH [OF this] show ?thesis by (auto simp: Let_def g c)
    qed
  qed
qed simp

section \<open>The sweep of the DataFn limiter\<close>

datatype limiter_op = CheckCall rat string | Sweep rat

fun op_time :: "limiter_op \<Rightarrow> rat" where
  "op_time (CheckCall t k) = t"
| "op_time (Sweep t) = t"

fun limiter_run :: "jsnum \<Rightarrow> jsnum \<Rightarrow> limiter_op list \<Rightarrow> limiter_windows \<Rightarrow> (bool \<times> jsnum) list" where
  "limiter_run m w [] windows = []"
| "limiter_run m w (CheckCall t k # ops) windows =
     (case memory_limiter_check (Fin t) k m w windows of (r, windows1) \<Rightarrow> r # limiter_run m w ops windows1)"
| "limiter_run m w (Sweep t # ops) windows = limiter_run m w ops (limiter_sweep (Fin t) windows)"

definition open_window :: "rat \<Rightarrow> limiter_windows \<Rightarrow> string \<Rightarrow> (jsnum \<times> jsnum) option" where
  "open_window t windows k =
     (case jmap_get windows k of None \<Rightarrow> None | Some (c, r) \<Rightarrow> if r \<le> Fin t then None else Some (c, r))"

lemma open_window_later:
  assumes "open_window t a = open_window t b" and "t \<le> t'"
  shows "open_window t' a = open_window t' b"
proof
  fix k
  have mono: "r \<le> Fin t \<Longrightarrow> r \<le> Fin t'" for r using assms(2) by (cases r) (auto simp: less_eq_jsnum_def)
  show "open_window t' a k = open_window t' b k"
    using fun_cong [OF assms(1), of k]
    by (auto simp: open_window_def dest: mono split: option.splits if_splits)
qed

lemma map_of_filter: "jmap_ok m \<Longrightarrow> map_of (filter P m) k = (case map_of m k of None \<Rightarrow> None | Some v \<Rightarrow> if P (k, v) then Some v else None)"
proof (induction m)
  case (Cons p m)
  obtain a b where p: "p = (a, b)" by (cases p)
  show ?case
  proof (cases "k = a")
    case True
    then have "map_of m k = None" using Cons.prems by (simp add: p map_of_eq_None_iff)
    with True Cons show ?thesis by (simp add: p)
  qed (use Cons in \<open>auto simp: p\<close>)
qed simp

lemma open_window_sweep: "jmap_ok m \<Longrightarrow> open_window t (limiter_sweep (Fin t) m) = open_window t m"
  by (rule ext) (auto simp: open_window_def limiter_sweep_def map_of_filter split: option.splits)

lemma limiter_sweep_ok: "jmap_ok m \<Longrightarrow> jmap_ok (limiter_sweep now m)"
  by (simp add: limiter_sweep_def distinct_map_filter)

lemma limiter_check_open:
  assumes "open_window t a = open_window t b"
    and "memory_limiter_check (Fin t) k m w a = (r, a')" and "memory_limiter_check (Fin t) k m w b = (r', b')"
  shows "r = r' \<and> open_window t a' = open_window t b'"
proof -
  have "open_window t a k = open_window t b k" using assms(1) by simp
  then have "r = r' \<and> (\<exists>v. a' = jmap_set k v a \<and> b' = jmap_set k v b)"
    using assms(2,3) by (auto simp: memory_limiter_check_def open_window_def Let_def split: option.splits if_splits) blast+
  then show ?thesis using fun_cong [OF assms(1)] by (auto simp: open_window_def jmap_simps fun_eq_iff)
qed

lemma limiter_check_ok: "jmap_ok a \<Longrightarrow> jmap_ok (snd (memory_limiter_check now k m w a))"
  by (auto simp: memory_limiter_check_def Let_def split: option.splits)

lemma limiter_run_sweeps:
  assumes "open_window t a = open_window t b" and "jmap_ok a" "jmap_ok b" and "sorted (t # map op_time ops)"
  shows "limiter_run m w ops a = limiter_run m w (filter (\<lambda>op. case op of CheckCall _ _ \<Rightarrow> True | Sweep _ \<Rightarrow> False) ops) b"
  using assms
proof (induction ops arbitrary: a b t)
  case (Cons op ops)
  show ?case
  proof (cases op)
    case (CheckCall u k)
    obtain r a' where ca: "memory_limiter_check (Fin u) k m w a = (r, a')" by (cases "memory_limiter_check (Fin u) k m w a")
    obtain r' b' where cb: "memory_limiter_check (Fin u) k m w b = (r', b')" by (cases "memory_limiter_check (Fin u) k m w b")
    have "open_window u a = open_window u b" by (rule open_window_later [OF Cons.prems(1)]) (use Cons.prems(4) CheckCall in simp)
    from limiter_check_open [OF this ca cb] have eq: "r = r'" "open_window u a' = open_window u b'" by auto
    have "limiter_run m w ops a' = limiter_run m w (filter (\<lambda>op. case op of CheckCall _ _ \<Rightarrow> True | Sweep _ \<Rightarrow> False) ops) b'"
      by (rule Cons.IH [OF eq(2)])
        (use Cons.prems CheckCall limiter_check_ok [of a "Fin u" k m w] limiter_check_ok [of b "Fin u" k m w] ca cb in auto)
    then show ?thesis by (simp add: CheckCall ca cb eq(1))
  next
    case (Sweep u)
    have later: "open_window u a = open_window u b" by (rule open_window_later [OF Cons.prems(1)]) (use Cons.prems(4) Sweep in simp)
    have "limiter_run m w ops (limiter_sweep (Fin u) a) = limiter_run m w (filter (\<lambda>op. case op of CheckCall _ _ \<Rightarrow> True | Sweep _ \<Rightarrow> False) ops) b"
      by (rule Cons.IH [of u]) (use Cons.prems Sweep later in \<open>auto simp: open_window_sweep limiter_sweep_ok\<close>)
    then show ?thesis by (simp add: Sweep)
  qed
qed simp

section \<open>Properties\<close>

text \<open>
  C15: checking many keys on the in-memory store charges all of them or none: the call is allowed
  exactly if every key is allowed on the store it found. An allowed call leaves each key as a
  check of that key alone would leave it, for every later reader, and no other key changed; a
  refused call leaves nothing that a later reader could see.
\<close>

theorem check_many_atomic:
  assumes "rl_check_many (evaluate_key dtoa kv_get kv_set alg) cfg (Fin now) inp s = (Inr m, s')" and "mi_keys inp \<noteq> []"
  shows "mr_allowed m = list_all (\<lambda>k. case key_outcome alg (kv_alive s) now (effective_window cfg (mi_window_seconds inp)) False
        (rc_prefix cfg @ k, key_limit inp (effective_limit cfg (mi_limit inp)) k) of Inr x \<Rightarrow> rr_allowed x | Inl _ \<Rightarrow> False) (mi_keys inp) \<and>
    (if mr_allowed m
     then (\<forall>k \<in> set (mi_keys inp). \<forall>t \<ge> now. kv_alive s' (rc_prefix cfg @ k) t =
            kv_alive (snd (evaluate_key dtoa kv_get kv_set alg (rc_prefix cfg @ k) (Fin now) (effective_window cfg (mi_window_seconds inp))
              (key_limit inp (effective_limit cfg (mi_limit inp)) k) True s)) (rc_prefix cfg @ k) t) \<and>
          (\<forall>j. j \<notin> (@) (rc_prefix cfg) ` set (mi_keys inp) \<longrightarrow> (\<forall>t \<ge> now. kv_alive s' j t = kv_alive s j t))
     else (\<forall>j. \<forall>t \<ge> now. kv_alive s' j t = kv_alive s j t))"
proof
  have eq: "(\<exists>x. r = Inr x \<and> rr_allowed x) = (case r of Inr x \<Rightarrow> rr_allowed x | Inl _ \<Rightarrow> False)" for r :: "rl_error + rl_result"
    by (cases r) auto
  show "mr_allowed m = list_all (\<lambda>k. case key_outcome alg (kv_alive s) now (effective_window cfg (mi_window_seconds inp)) False
        (rc_prefix cfg @ k, key_limit inp (effective_limit cfg (mi_limit inp)) k) of Inr x \<Rightarrow> rr_allowed x | Inl _ \<Rightarrow> False) (mi_keys inp)"
    using mem_kv.check_many_all_or_none(1) [OF assms] by (simp only: eq)
  show "if mr_allowed m
     then (\<forall>k \<in> set (mi_keys inp). \<forall>t \<ge> now. kv_alive s' (rc_prefix cfg @ k) t =
            kv_alive (snd (evaluate_key dtoa kv_get kv_set alg (rc_prefix cfg @ k) (Fin now) (effective_window cfg (mi_window_seconds inp))
              (key_limit inp (effective_limit cfg (mi_limit inp)) k) True s)) (rc_prefix cfg @ k) t) \<and>
          (\<forall>j. j \<notin> (@) (rc_prefix cfg) ` set (mi_keys inp) \<longrightarrow> (\<forall>t \<ge> now. kv_alive s' j t = kv_alive s j t))
     else (\<forall>j. \<forall>t \<ge> now. kv_alive s' j t = kv_alive s j t)"
  proof (cases "mr_allowed m")
    case True
    then show ?thesis using mem_kv.check_many_all_or_none(3) [OF assms]
      by (simp add: mem_kv.charged_def mem_kv.same_except_def image_image)
  next
    case False
    then show ?thesis using mem_kv.check_many_all_or_none(2) [OF assms] by (simp add: mem_kv.same_except_def)
  qed
qed

definition single_config :: rl_config where
  "single_config = \<lparr>rc_window = Fin 1000, rc_max = Fin 1, rc_prefix = ''r:'', rc_algorithm = FixedWindow\<rparr>"

definition two_keys :: many_input where
  "two_keys = \<lparr>mi_keys = [''a'', ''b''], mi_limits = None, mi_window_seconds = None, mi_limit = None\<rparr>"

theorem check_many_atomic_witness:
  "\<exists>m s'. rl_check_many (evaluate_key (\<lambda>_. []) kv_get kv_set FixedWindow) single_config (Fin 0) two_keys [] = (Inr m, s') \<and> mr_allowed m \<and>
     kv_alive s' (''r:'' @ ''b'') 500 =
       kv_alive (snd (evaluate_key (\<lambda>_. []) kv_get kv_set FixedWindow (''r:'' @ ''b'') (Fin 0) (Fin 1000) (Fin 1) True [])) (''r:'' @ ''b'') 500 \<and>
     kv_alive s' (''r:'' @ ''b'') 500 \<noteq> None"
proof -
  let ?run = "rl_check_many (evaluate_key (\<lambda>_. []) kv_get kv_set FixedWindow) single_config (Fin 0) two_keys []"
  let ?one = "evaluate_key (\<lambda>_. []) kv_get kv_set FixedWindow (''r:'' @ ''b'') (Fin 0) (Fin 1000) (Fin 1) True []"
  have "map_sum id mr_allowed (fst ?run) = Inr True" by code_simp
  then obtain m where m: "fst ?run = Inr m" "mr_allowed m" by (cases "fst ?run") auto
  obtain s' where run: "?run = (Inr m, s')" using m(1) by (cases ?run) auto
  have keys: "mi_keys two_keys \<noteq> []" and b: "''b'' \<in> set (mi_keys two_keys)" by (simp_all add: two_keys_def)
  have target: "rc_prefix single_config = ''r:''" "effective_window single_config (mi_window_seconds two_keys) = Fin 1000"
    "key_limit two_keys (effective_limit single_config (mi_limit two_keys)) ''b'' = Fin 1"
    by code_simp+
  from check_many_atomic [OF run keys, THEN conjunct2] m(2)
  have "\<forall>k \<in> set (mi_keys two_keys). \<forall>t \<ge> 0. kv_alive s' (rc_prefix single_config @ k) t =
      kv_alive (snd (evaluate_key (\<lambda>_. []) kv_get kv_set FixedWindow (rc_prefix single_config @ k) (Fin 0)
        (effective_window single_config (mi_window_seconds two_keys)) (key_limit two_keys (effective_limit single_config (mi_limit two_keys)) k) True [])) (rc_prefix single_config @ k) t"
    by simp
  from bspec [OF this b] have "kv_alive s' (''r:'' @ ''b'') 500 = kv_alive (snd ?one) (''r:'' @ ''b'') 500"
    unfolding target by (rule allE [where x = 500]) simp
  moreover have "kv_alive (snd ?one) (''r:'' @ ''b'') 500 \<noteq> None" by code_simp
  ultimately show ?thesis using run m(2) by auto
qed

text \<open>
  C19: against an atomic store that other processes write to, an answer of the limiter is that
  of one uninterrupted check on the store as it was at one instant of the call, and the store
  it leaves is what that check leaves.
\<close>

theorem atomic_commit_linearizes:
  assumes "evaluate_atomic_key env dtoa alg key now window limit commit store = (Inr r, store')"
  shows "\<exists>s \<in> set (attempt_stores 16 env now key store).
    evaluate_key dtoa akv_read akv_write alg key now window limit commit s = (Inr r, store')"
  by (rule atomic_attempts_commit) (use assms in \<open>simp add: evaluate_atomic_key_def\<close>)

theorem atomic_commit_linearizes_witness:
  "\<exists>s \<in> set (attempt_stores 16 (\<lambda>_ s. s) (Fin 0) ''k'' []).
    evaluate_key (\<lambda>_. []) akv_read akv_write TokenBucket ''k'' (Fin 0) (Fin 1000) (Fin 0) True s =
      (Inr \<lparr>rr_allowed = False, rr_remaining = Fin 0, rr_reset_at = 1000, rr_total = Fin 0\<rparr>, [])"
  by (rule atomic_commit_linearizes) code_simp

text \<open>
  Without interference the first attempt commits: the compare-and-set evaluation is the
  plain evaluation on the same store.
\<close>

theorem atomic_without_interference:
  "evaluate_atomic_key (\<lambda>_ s. s) dtoa alg key now window limit commit store =
   evaluate_key dtoa akv_read akv_write alg key now window limit commit store"
proof -
  obtain v s1 where g: "akv_read now key store = (v, s1)" by (cases "akv_read now key store")
  note again = akv_read_again [OF g]
  have "atomic_attempts (Suc n) (\<lambda>_ s. s) dtoa alg key now window limit commit store =
      evaluate_key dtoa akv_read akv_write alg key now window limit commit store" for n
    by (simp add: g again evaluate_key_def akv_compare_and_set_def split: sum.split option.split)
  from this [of 15] show ?thesis by (simp add: evaluate_atomic_key_def del: atomic_attempts.simps)
qed

text \<open>
  The periodic sweep of the in-memory DataFn limiter cannot be observed: with sweeps
  anywhere in a history of calls, the answers are those of the history without them.
\<close>

theorem sweeps_unobservable:
  assumes "sorted (map op_time ops)"
  shows "limiter_run m w ops [] = limiter_run m w (filter (\<lambda>op. case op of CheckCall _ _ \<Rightarrow> True | Sweep _ \<Rightarrow> False) ops) []"
proof (cases ops)
  case (Cons op ops')
  show ?thesis
    by (rule limiter_run_sweeps [where t = "op_time op"]) (use assms Cons in auto)
qed simp

theorem sweeps_unobservable_witness:
  "limiter_run (Fin 1) (Fin 1) [CheckCall 0 ''a'', Sweep 500, CheckCall 900 ''a'', Sweep 1000, CheckCall 1001 ''a''] [] =
   limiter_run (Fin 1) (Fin 1) [CheckCall 0 ''a'', CheckCall 900 ''a'', CheckCall 1001 ''a''] []"
  using sweeps_unobservable [of "[CheckCall 0 ''a'', Sweep 500, CheckCall 900 ''a'', Sweep 1000, CheckCall 1001 ''a'']" "Fin 1" "Fin 1"]
  by simp

text \<open>
  Where the code departs from its intent: the in-memory DataFn limiter lets the first call
  of every window through without looking at the limit, so a limit of zero refuses nothing
  there and reports minus one remaining calls; the atomic limiter refuses the same call.
\<close>

theorem memory_limiter_ignores_zero:
  "fst (memory_limiter_check now key (Fin 0) window_seconds []) = (True, Fin (- 1)) \<and>
   fst (atomic_limiter_check dtoa now key (Fin 0) window_seconds []) = (False, Fin 0)"
proof -
  have "string_to_number ''0'' = Fin 0" by code_simp
  then show ?thesis
    by (simp add: memory_limiter_check_def atomic_limiter_check_def akv_incr_def akv_read_def Let_def)
qed

text \<open>
  Where the code departs from its intent: a stored state lives until its oldest stamp
  leaves the window, so the stamps after it are forgotten with it. With two calls allowed per
  ten seconds, the calls at 9, 10.001 and 10.002 seconds are all allowed.
\<close>

theorem sliding_window_forgets:
  "map let_through (rl_run (evaluate_key dtoa kv_get kv_set SlidingWindow)
     \<lparr>rc_window = Fin 10000, rc_max = Fin 2, rc_prefix = [], rc_algorithm = SlidingWindow\<rparr>
     [(0, ''k''), (9000, ''k''), (10001, ''k''), (10002, ''k'')] []) = [True, True, True, True]"
  by (simp add: rl_check_def evaluate_key_def kv_get_def kv_set_def kv_expired_def num_truthy_def evaluate_state_def
      sliding_window_def parse_json_state state_rec_def js_get_def as_num_def Let_def evaluation_def to_iso_def
      effective_window_def effective_limit_def js_max_def del: json_val.simps)

end
