(* ===== verification/PortRegistry.thy ===== *)
theory PortRegistry
  imports JsConvert
begin

text \<open>
  The port registry, \<open>devfn/ports/src/registry.ts\<close>, and the port policy, \<open>policy.ts\<close>. The
  registry is a file that every operation reads, changes and writes back under a lock, so an
  operation is a function on the registry's content (\<open>transaction\<close>); a thrown error leaves the
  file as it was. The operating system and the libraries are the record \<open>port_env\<close>: the time,
  the random identifiers, the hash behind the starting offset of a search, whether a port can
  be bound, the ports the system hands out, and whether the owner of a port is still running;
  within one operation they answer consistently. Times are in milliseconds.
\<close>

section \<open>Data\<close>

datatype protocol = Tcp | Udp

datatype allocation_state = Planned | ActiveState | Stale | Released | ExternallyOccupied

datatype port_source = SrcExact | SrcStable | SrcPreferred | SrcRange | SrcFallback | SrcEphemeral

datatype invocation_state = Planning | Starting | Ready | Failed | Stopped

datatype port_error = PortRegistryError string string

record port_spec =
  ps_protocol :: "protocol option"
  ps_preferred :: "int option"
  ps_range :: "(int \<times> int) option"
  ps_exact :: bool
  ps_ephemeral :: bool
  ps_public :: bool
  ps_internal :: "int option"
  ps_block :: "string option"

record process_owner =
  po_pid :: int
  po_birth :: "string option"

record container_owner =
  co_id :: string
  co_name :: "string option"
  co_environment :: "(string, string) jmap option"

record allocation =
  pa_id :: string
  pa_project :: string
  pa_instance :: string
  pa_service :: string
  pa_protocol :: protocol
  pa_host :: string
  pa_port :: int
  pa_internal :: "int option"
  pa_hostname :: "string option"
  pa_invocation :: string
  pa_state :: allocation_state
  pa_source :: port_source
  pa_process :: "process_owner option"
  pa_container :: "container_owner option"
  pa_created :: int
  pa_updated :: int
  pa_released :: "int option"

record invocation =
  iv_id :: string
  iv_project :: string
  iv_instance :: string
  iv_profile :: string
  iv_state :: invocation_state
  iv_created :: int
  iv_updated :: int
  iv_error :: "string option"

record registry =
  rg_revision :: nat
  rg_allocations :: "allocation list"
  rg_invocations :: "invocation list"

record reservation_request =
  rq_name :: string
  rq_spec :: port_spec
  rq_hostname :: "string option"

record reservation_input =
  ri_project :: string
  ri_instance :: string
  ri_invocation :: string
  ri_profile :: string
  ri_requests :: "reservation_request list"
  ri_fallback :: "(int \<times> int) option"
  ri_preferred :: "(int \<times> int) option"
  ri_protected :: "int list"
  ri_excluded :: "int list"

text \<open>
  The environment of a call. The allocator is called anew for every attempt of every request:
  \<open>pe_ephemeral\<close> is its answers by service, by the number of ports taken so far, which tells the
  requests of a call apart, and by attempt.
\<close>

record port_env =
  pe_now :: int
  pe_uuid :: "nat \<Rightarrow> string"
  pe_hash :: "string \<Rightarrow> nat"
  pe_available :: "int \<Rightarrow> protocol \<Rightarrow> string \<Rightarrow> bool"
  pe_ephemeral :: "string \<Rightarrow> nat \<Rightarrow> nat \<Rightarrow> int"
  pe_process_alive :: "process_owner \<Rightarrow> bool"
  pe_container_running :: "container_owner \<Rightarrow> bool option"

definition EMPTY_REGISTRY :: registry where
  "EMPTY_REGISTRY = \<lparr>rg_revision = 0, rg_allocations = [], rg_invocations = []\<rparr>"

section \<open>Keys and candidates\<close>

definition stable_offset :: "(string \<Rightarrow> nat) \<Rightarrow> string \<Rightarrow> nat \<Rightarrow> nat" where
  "stable_offset hash v n = (if n \<le> 1 then 0 else hash v mod n)"

definition candidates :: "(string \<Rightarrow> nat) \<Rightarrow> int \<Rightarrow> int \<Rightarrow> string \<Rightarrow> int list" where
  "candidates hash lo hi seed =
     (if hi < lo then []
      else (let ports = map (\<lambda>i. lo + int i) [0..<nat (hi - lo + 1)];
                offset = stable_offset hash seed (length ports)
            in drop offset ports @ take offset ports))"

definition is_active :: "allocation \<Rightarrow> bool" where
  "is_active a = (pa_state a \<in> {Planned, ActiveState, ExternallyOccupied})"

definition protocol_name :: "protocol \<Rightarrow> string" where
  "protocol_name p = (case p of Tcp \<Rightarrow> ''tcp'' | Udp \<Rightarrow> ''udp'')"

definition occupancy_key :: "int \<Rightarrow> protocol \<Rightarrow> string" where
  "occupancy_key port p = protocol_name p @ '':'' @ int_to_string port"

definition allocation_key :: "allocation \<Rightarrow> string" where
  "allocation_key a = occupancy_key (pa_port a) (pa_protocol a)"

definition spec_protocol :: "port_spec \<Rightarrow> protocol" where
  "spec_protocol spec = (case ps_protocol spec of None \<Rightarrow> Tcp | Some p \<Rightarrow> p)"

definition spec_host :: "port_spec \<Rightarrow> string" where
  "spec_host spec = (if ps_public spec then ''0.0.0.0'' else ''127.0.0.1'')"

section \<open>Transactions\<close>

definition transaction :: "(registry \<Rightarrow> port_error + ('a \<times> registry)) \<Rightarrow> registry \<Rightarrow> (port_error + 'a) \<times> registry" where
  "transaction action state =
     (case action state of
        Inl e \<Rightarrow> (Inl e, state)
      | Inr (r, s) \<Rightarrow> (Inr r, s\<lparr>rg_revision := rg_revision s + 1\<rparr>))"

section \<open>Reserving\<close>

definition conflict :: "string \<Rightarrow> port_error + 'a" where
  "conflict message = Inl (PortRegistryError ''DEVFN_PORT_CONFLICT'' message)"

definition free_port :: "port_env \<Rightarrow> string list \<Rightarrow> port_spec \<Rightarrow> int \<Rightarrow> bool" where
  "free_port env occupied spec port =
     (occupancy_key port (spec_protocol spec) \<notin> set occupied \<and> pe_available env port (spec_protocol spec) (spec_host spec))"

definition port_pools :: "port_env \<Rightarrow> reservation_input \<Rightarrow> string \<Rightarrow> port_spec \<Rightarrow> (int list \<times> port_source) list" where
  "port_pools env inp name spec =
     (let seed = ri_instance inp @ '':'' @ name;
          fallback = (case ri_fallback inp of None \<Rightarrow> (4100, 4999) | Some r \<Rightarrow> r)
      in (case ps_preferred spec of None \<Rightarrow> [] | Some p \<Rightarrow> [([p], SrcPreferred)]) @
         (case ps_range spec of None \<Rightarrow> [] | Some (a, b) \<Rightarrow> [(candidates (pe_hash env) a b seed, SrcRange)]) @
         (case ri_preferred inp of None \<Rightarrow> [] | Some (a, b) \<Rightarrow> [(candidates (pe_hash env) a b (seed @ '':policy''), SrcPreferred)]) @
         [(candidates (pe_hash env) (fst fallback) (snd fallback) (seed @ '':fallback''), SrcFallback)])"

definition choose_from_pools ::
  "port_env \<Rightarrow> reservation_input \<Rightarrow> string list \<Rightarrow> string \<Rightarrow> port_spec \<Rightarrow> port_error + (int \<times> port_source)" where
  "choose_from_pools env inp occupied name spec =
     (case find (\<lambda>(port, _). free_port env occupied spec port)
             (concat (map (\<lambda>(ports, source). map (\<lambda>port. (port, source)) ports) (port_pools env inp name spec))) of
        Some choice \<Rightarrow> Inr choice
      | None \<Rightarrow> conflict (''No available port for '' @ name @ ''.''))"

definition choose_port ::
  "port_env \<Rightarrow> reservation_input \<Rightarrow> string list \<Rightarrow> (string, allocation) jmap \<Rightarrow> string \<Rightarrow> port_spec \<Rightarrow> port_error + (int \<times> port_source)" where
  "choose_port env inp occupied priors name spec =
     (if ps_ephemeral spec then
        (case find (\<lambda>port. occupancy_key port (spec_protocol spec) \<notin> set occupied) (map (pe_ephemeral env name (length occupied)) [0..<100]) of
           Some port \<Rightarrow> Inr (port, SrcEphemeral)
         | None \<Rightarrow> conflict (''Unable to allocate an unleased ephemeral port for '' @ name @ ''.''))
      else
        (case (if ps_exact spec then ps_preferred spec else None) of
           Some port \<Rightarrow>
             (if free_port env occupied spec port then Inr (port, SrcExact)
              else conflict (''Exact port '' @ int_to_string port @ '' for '' @ name @ '' is occupied.''))
         | None \<Rightarrow>
             (case jmap_get priors name of
                Some prior \<Rightarrow>
                  if pa_protocol prior = spec_protocol spec \<and> free_port env occupied spec (pa_port prior)
                  then Inr (pa_port prior, SrcStable)
                  else choose_from_pools env inp occupied name spec
              | None \<Rightarrow> choose_from_pools env inp occupied name spec)))"

subsection \<open>Blocks of contiguous ports\<close>

definition block_name :: "reservation_request \<Rightarrow> string option" where
  "block_name request = (case ps_block (rq_spec request) of Some b \<Rightarrow> if b = [] then None else Some b | None \<Rightarrow> None)"

definition group_request ::
  "(string, reservation_request list) jmap \<Rightarrow> reservation_request \<Rightarrow> (string, reservation_request list) jmap" where
  "group_request groups request =
     (case block_name request of
        None \<Rightarrow> groups
      | Some b \<Rightarrow> jmap_set b ((case jmap_get groups b of None \<Rightarrow> [] | Some g \<Rightarrow> g) @ [request]) groups)"

definition block_groups :: "reservation_request list \<Rightarrow> (string, reservation_request list) jmap" where
  "block_groups requests = foldl group_request [] requests"

text \<open>The candidates of a block: configured ranges, the policy's range and the fallback, each range once.\<close>

fun first_ranges :: "(int \<times> int) list \<Rightarrow> ((int \<times> int) \<times> port_source) list \<Rightarrow> ((int \<times> int) \<times> port_source) list" where
  "first_ranges seen [] = []"
| "first_ranges seen (r # rs) =
     (if fst r \<in> set seen then first_ranges seen rs else r # first_ranges (fst r # seen) rs)"

definition block_ranges :: "reservation_input \<Rightarrow> reservation_request list \<Rightarrow> ((int \<times> int) \<times> port_source) list" where
  "block_ranges inp grp =
     first_ranges []
       (map (\<lambda>r. (r, SrcRange)) (some_of (map (\<lambda>request. ps_range (rq_spec request)) grp)) @
        (case ri_preferred inp of None \<Rightarrow> [] | Some r \<Rightarrow> [(r, SrcPreferred)]) @
        [(case ri_fallback inp of None \<Rightarrow> (4100, 4999) | Some r \<Rightarrow> r, SrcFallback)])"

definition contiguous :: "int list \<Rightarrow> bool" where
  "contiguous ports =
     (let unique = js_sort (\<lambda>a b. a - b) (foldl (\<lambda>s p. jset_add p s) [] ports)
      in length unique = length ports \<and> last unique - hd unique + 1 = int (length ports))"

definition all_free :: "port_env \<Rightarrow> string list \<Rightarrow> reservation_request list \<Rightarrow> int list \<Rightarrow> bool" where
  "all_free env occupied grp ports =
     list_all (\<lambda>(request, port). free_port env occupied (rq_spec request) port) (zip grp ports)"

definition in_ranges :: "reservation_request list \<Rightarrow> int list \<Rightarrow> bool" where
  "in_ranges grp ports =
     list_all (\<lambda>(request, port). case ps_range (rq_spec request) of None \<Rightarrow> True | Some (a, b) \<Rightarrow> a \<le> port \<and> port \<le> b) (zip grp ports)"

definition block_starts :: "port_env \<Rightarrow> reservation_input \<Rightarrow> string \<Rightarrow> reservation_request list \<Rightarrow> (int \<times> port_source) list" where
  "block_starts env inp block grp =
     concat (map (\<lambda>(i, (lo, hi), source).
         map (\<lambda>start. (start, source))
           (candidates (pe_hash env) lo (hi - int (length grp) + 1)
             (ri_instance inp @ '':'' @ block @ '':'' @ int_to_string (int i))))
       (zip [0..<length (block_ranges inp grp)] (block_ranges inp grp)))"

definition ports_from :: "reservation_request list \<Rightarrow> int \<Rightarrow> int list" where
  "ports_from grp start = map (\<lambda>i. start + int i) [0..<length grp]"

definition choose_block ::
  "port_env \<Rightarrow> reservation_input \<Rightarrow> string list \<Rightarrow> string \<Rightarrow> reservation_request list \<Rightarrow> port_error + (int list \<times> port_source)" where
  "choose_block env inp occupied block grp =
     (let exact_group = filter (\<lambda>request. ps_exact (rq_spec request)) grp;
          wanted = map (\<lambda>request. ps_preferred (rq_spec request)) grp;
          ports = some_of wanted;
          none = conflict (''No contiguous port block available for '' @ block @ ''.'')
      in if exact_group \<noteq> [] \<and> length exact_group \<noteq> length grp
         then conflict (''Port block '' @ block @ '' cannot mix exact and reallocatable requirements.'')
         else if exact_group \<noteq> [] then
           (if None \<in> set wanted \<or> \<not> contiguous ports then conflict (''Exact port block '' @ block @ '' is not contiguous.'')
            else if all_free env occupied grp ports then Inr (ports, SrcExact) else none)
         else if None \<notin> set wanted \<and> contiguous ports \<and> all_free env occupied grp ports then Inr (ports, SrcPreferred)
         else (case find (\<lambda>(start, _). in_ranges grp (ports_from grp start) \<and> all_free env occupied grp (ports_from grp start))
                       (block_starts env inp block grp) of
                 Some (start, source) \<Rightarrow> Inr (ports_from grp start, source)
               | None \<Rightarrow> none))"

subsection \<open>The reservation\<close>

definition plan :: "port_env \<Rightarrow> reservation_input \<Rightarrow> nat \<Rightarrow> reservation_request \<Rightarrow> int \<Rightarrow> port_source \<Rightarrow> allocation" where
  "plan env inp n request port source =
     \<lparr>pa_id = pe_uuid env n, pa_project = ri_project inp, pa_instance = ri_instance inp, pa_service = rq_name request,
      pa_protocol = spec_protocol (rq_spec request), pa_host = spec_host (rq_spec request), pa_port = port,
      pa_internal = (case ps_internal (rq_spec request) of Some i \<Rightarrow> if i = 0 then None else Some i | None \<Rightarrow> None),
      pa_hostname = (case rq_hostname request of Some h \<Rightarrow> if h = [] then None else Some h | None \<Rightarrow> None),
      pa_invocation = ri_invocation inp, pa_state = Planned, pa_source = source, pa_process = None, pa_container = None,
      pa_created = pe_now env, pa_updated = pe_now env, pa_released = None\<rparr>"

text \<open>The state of the loops: the occupied keys and the allocations planned so far.\<close>

definition add_plan ::
  "port_env \<Rightarrow> reservation_input \<Rightarrow> port_source \<Rightarrow> string list \<times> allocation list \<Rightarrow> reservation_request \<times> int \<Rightarrow> string list \<times> allocation list" where
  "add_plan env inp source st choice =
     (let (occupied, planned) = st; (request, port) = choice
      in (jset_add (occupancy_key port (spec_protocol (rq_spec request))) occupied,
          planned @ [plan env inp (length planned) request port source]))"

fun reserve_blocks ::
  "port_env \<Rightarrow> reservation_input \<Rightarrow> (string, reservation_request list) jmap \<Rightarrow> string list \<times> allocation list \<Rightarrow>
   port_error + (string list \<times> allocation list)" where
  "reserve_blocks env inp [] st = Inr st"
| "reserve_blocks env inp ((block, grp) # groups) st =
     bind_sum (choose_block env inp (fst st) block grp) (\<lambda>(ports, source).
       reserve_blocks env inp groups (foldl (add_plan env inp source) st (zip grp ports)))"

fun reserve_singles ::
  "port_env \<Rightarrow> reservation_input \<Rightarrow> (string, allocation) jmap \<Rightarrow> string list \<Rightarrow> reservation_request list \<Rightarrow> string list \<times> allocation list \<Rightarrow>
   port_error + (string list \<times> allocation list)" where
  "reserve_singles env inp priors handled [] st = Inr st"
| "reserve_singles env inp priors handled (request # requests) st =
     (if rq_name request \<in> set handled then reserve_singles env inp priors handled requests st
      else bind_sum (choose_port env inp (fst st) priors (rq_name request) (rq_spec request)) (\<lambda>(port, source).
             reserve_singles env inp priors handled requests (add_plan env inp source st (request, port))))"

definition occupied_keys :: "reservation_input \<Rightarrow> registry \<Rightarrow> string list" where
  "occupied_keys inp state =
     foldl (\<lambda>s port. jset_add (occupancy_key port Udp) (jset_add (occupancy_key port Tcp) s))
       (foldl (\<lambda>s a. jset_add (allocation_key a) s) [] (filter is_active (rg_allocations state)))
       (ri_protected inp @ ri_excluded inp)"

definition stable_allocations :: "reservation_input \<Rightarrow> registry \<Rightarrow> (string, allocation) jmap" where
  "stable_allocations inp state =
     foldl (\<lambda>m a. jmap_set (pa_service a) a m) []
       (filter (\<lambda>a. pa_project a = ri_project inp \<and> pa_instance a = ri_instance inp \<and> pa_state a \<noteq> ExternallyOccupied)
         (rg_allocations state))"

definition reserve_action :: "port_env \<Rightarrow> reservation_input \<Rightarrow> registry \<Rightarrow> port_error + (allocation list \<times> registry)" where
  "reserve_action env inp state =
     (let groups = block_groups (ri_requests inp);
          handled = concat (map (\<lambda>(_, grp). map rq_name grp) groups)
      in bind_sum (reserve_blocks env inp groups (occupied_keys inp state, [])) (\<lambda>st.
         bind_sum (reserve_singles env inp (stable_allocations inp state) handled (ri_requests inp) st) (\<lambda>(_, planned).
           Inr (planned,
             state\<lparr>rg_allocations := rg_allocations state @ planned,
                   rg_invocations := rg_invocations state @
                     [\<lparr>iv_id = ri_invocation inp, iv_project = ri_project inp, iv_instance = ri_instance inp,
                       iv_profile = ri_profile inp, iv_state = Planning, iv_created = pe_now env, iv_updated = pe_now env,
                       iv_error = None\<rparr>]\<rparr>))))"

definition registry_reserve :: "port_env \<Rightarrow> reservation_input \<Rightarrow> registry \<Rightarrow> (port_error + allocation list) \<times> registry" where
  "registry_reserve env inp state = transaction (reserve_action env inp) state"

section \<open>The life of an allocation\<close>

definition simple_transaction :: "(registry \<Rightarrow> registry) \<Rightarrow> registry \<Rightarrow> registry" where
  "simple_transaction f state = snd (transaction (\<lambda>s. Inr ((), f s)) state)"

fun update_first :: "('a \<Rightarrow> bool) \<Rightarrow> ('a \<Rightarrow> 'a) \<Rightarrow> 'a list \<Rightarrow> 'a list" where
  "update_first p f [] = []"
| "update_first p f (x # xs) = (if p x then f x # xs else x # update_first p f xs)"

definition update_invocation ::
  "port_env \<Rightarrow> string \<Rightarrow> invocation_state option \<Rightarrow> string option \<Rightarrow> registry \<Rightarrow> registry" where
  "update_invocation env i new_state error_code = simple_transaction (\<lambda>state.
     (case find (\<lambda>iv. iv_id iv = i) (rg_invocations state) of
        None \<Rightarrow> state
      | Some iv \<Rightarrow>
          (let iv' = iv\<lparr>iv_state := (case new_state of None \<Rightarrow> iv_state iv | Some s \<Rightarrow> s),
                       iv_error := (case error_code of None \<Rightarrow> iv_error iv | Some e \<Rightarrow> Some e), iv_updated := pe_now env\<rparr>
           in state\<lparr>rg_invocations := update_first (\<lambda>iv. iv_id iv = i) (\<lambda>_. iv') (rg_invocations state),
                    rg_allocations := (if iv_state iv' \<in> {Planning, Starting}
                      then map (\<lambda>a. if pa_invocation a = i \<and> pa_state a = Planned then a\<lparr>pa_updated := pe_now env\<rparr> else a) (rg_allocations state)
                      else rg_allocations state)\<rparr>)))"

definition release_allocation :: "int \<Rightarrow> allocation \<Rightarrow> allocation" where
  "release_allocation now a = a\<lparr>pa_state := Released, pa_updated := now, pa_released := Some now\<rparr>"

definition recover_interrupted :: "port_env \<Rightarrow> string \<Rightarrow> registry \<Rightarrow> nat \<times> registry" where
  "recover_interrupted env i state0 =
     (let interrupted = foldl (\<lambda>s iv. jset_add (iv_id iv) s) []
            (filter (\<lambda>iv. iv_instance iv = i \<and> iv_state iv \<in> {Planning, Starting}) (rg_invocations state0))
      in (length interrupted, simple_transaction (\<lambda>state.
           state\<lparr>rg_allocations := map (\<lambda>a. if pa_instance a \<noteq> i \<or> pa_state a \<noteq> Planned then a else release_allocation (pe_now env) a) (rg_allocations state),
                 rg_invocations := map (\<lambda>iv. if iv_id iv \<notin> set interrupted \<or> iv_state iv \<notin> {Planning, Starting} then iv
                   else iv\<lparr>iv_state := Failed, iv_error := Some ''DEVFN_INTERRUPTED'', iv_updated := pe_now env\<rparr>) (rg_invocations state)\<rparr>) state0))"

definition mark_active ::
  "port_env \<Rightarrow> string \<Rightarrow> (string, process_owner option \<times> container_owner option) jmap \<Rightarrow> registry \<Rightarrow> registry" where
  "mark_active env i owners = simple_transaction (\<lambda>state.
     state\<lparr>rg_allocations := map (\<lambda>a. if pa_invocation a = i \<and> pa_state a = Planned
             then (let (process, container) = (case jmap_get owners (pa_service a) of None \<Rightarrow> (None, None) | Some ow \<Rightarrow> ow)
                   in a\<lparr>pa_state := ActiveState, pa_updated := pe_now env,
                        pa_process := (case process of None \<Rightarrow> pa_process a | Some p \<Rightarrow> Some p),
                        pa_container := (case container of None \<Rightarrow> pa_container a | Some c \<Rightarrow> Some c)\<rparr>)
             else a) (rg_allocations state),
           rg_invocations := update_first (\<lambda>iv. iv_id iv = i)
             (\<lambda>iv. iv\<lparr>iv_state := Ready, iv_updated := pe_now env\<rparr>) (rg_invocations state)\<rparr>)"

text \<open>An absent or empty filter matches everything.\<close>

definition filter_excludes :: "string option \<Rightarrow> string \<Rightarrow> bool" where
  "filter_excludes want have_value = (case want of None \<Rightarrow> False | Some s \<Rightarrow> s \<noteq> [] \<and> have_value \<noteq> s)"

definition registry_release :: "port_env \<Rightarrow> string option \<Rightarrow> string option \<Rightarrow> string option \<Rightarrow> registry \<Rightarrow> registry" where
  "registry_release env invocation_id instance_id error_code = simple_transaction (\<lambda>state.
     (let failure = (case error_code of None \<Rightarrow> None | Some e \<Rightarrow> if e = [] then None else Some e)
      in state\<lparr>rg_allocations := map (\<lambda>a.
             if filter_excludes invocation_id (pa_invocation a) \<or> filter_excludes instance_id (pa_instance a) \<or> \<not> is_active a
             then a else release_allocation (pe_now env) a) (rg_allocations state),
           rg_invocations := map (\<lambda>iv.
             if filter_excludes invocation_id (iv_id iv) \<or> filter_excludes instance_id (iv_instance iv) then iv
             else iv\<lparr>iv_state := (if failure \<noteq> None then Failed else Stopped), iv_updated := pe_now env,
                     iv_error := (case failure of None \<Rightarrow> iv_error iv | Some e \<Rightarrow> Some e)\<rparr>) (rg_invocations state)\<rparr>))"

definition reconciled_state :: "port_env \<Rightarrow> allocation \<Rightarrow> allocation_state" where
  "reconciled_state env a =
     (let available = pe_available env (pa_port a) (pa_protocol a) (pa_host a);
          lost = (if available then Stale else ExternallyOccupied)
      in if pa_state a = Planned \<and> pe_now env - pa_updated a > 300000 then Stale
         else if pa_state a = ActiveState \<and> (case pa_process a of None \<Rightarrow> False | Some p \<Rightarrow> \<not> pe_process_alive env p) then lost
         else if pa_state a = ActiveState \<and> (case pa_container a of None \<Rightarrow> False | Some c \<Rightarrow> pe_container_running env c = Some False) then lost
         else if pa_state a = ActiveState \<and> pa_process a = None \<and> pa_container a = None then lost
         else if pa_state a = ExternallyOccupied \<and> available then Stale
         else pa_state a)"

definition reconcile :: "port_env \<Rightarrow> registry \<Rightarrow> registry" where
  "reconcile env = simple_transaction (\<lambda>state.
     state\<lparr>rg_allocations := map (\<lambda>a.
       if is_active a \<and> reconciled_state env a \<noteq> pa_state a
       then a\<lparr>pa_state := reconciled_state env a, pa_updated := pe_now env\<rparr> else a) (rg_allocations state)\<rparr>)"

definition registry_gc :: "registry \<Rightarrow> nat \<times> registry" where
  "registry_gc state =
     (let kept = filter (\<lambda>a. pa_state a \<noteq> Stale \<and> pa_state a \<noteq> Released) (rg_allocations state)
      in (length (rg_allocations state) - length kept,
          simple_transaction (\<lambda>s. s\<lparr>rg_allocations := kept,
            rg_invocations := filter (\<lambda>iv. iv_state iv \<notin> {Failed, Stopped}) (rg_invocations s)\<rparr>) state))"

section \<open>The policy\<close>

datatype policy_kind = ProtectedPorts | ExcludedPorts | PreferredPorts

record policy_entry =
  pe_kind :: policy_kind
  pe_port :: "int option"
  pe_range :: "(int \<times> int) option"
  pe_project :: "string option"

definition expand_entry :: "policy_entry \<Rightarrow> int list" where
  "expand_entry e =
     (case pe_port e of
        Some p \<Rightarrow> [p]
      | None \<Rightarrow> (case pe_range e of None \<Rightarrow> [] | Some (a, b) \<Rightarrow> map (\<lambda>i. a + int i) [0..<nat (b - a + 1)]))"

definition applies_to :: "string \<Rightarrow> policy_entry \<Rightarrow> bool" where
  "applies_to project e = (case pe_project e of None \<Rightarrow> True | Some p \<Rightarrow> p = [] \<or> p = project)"

text \<open>The preferred range, the protected and the excluded ports of a project.\<close>

definition resolve_policy :: "policy_entry list \<Rightarrow> string \<Rightarrow> (int \<times> int) option \<times> int jset \<times> int jset" where
  "resolve_policy entries project =
     (let es = filter (applies_to project) entries;
          collect = (\<lambda>kind. foldl (\<lambda>s p. jset_add p s) [] (concat (map expand_entry (filter (\<lambda>e. pe_kind e = kind) es))));
          wanted = (\<lambda>e. case pe_range e of Some r \<Rightarrow> Some r | None \<Rightarrow> map_option (\<lambda>p. (p, p)) (pe_port e))
      in ((case some_of (map wanted (filter (\<lambda>e. pe_kind e = PreferredPorts) es)) of [] \<Rightarrow> None | r # _ \<Rightarrow> Some r),
          collect ProtectedPorts, collect ExcludedPorts))"

end
