(* ===== verification/PortProperties.thy ===== *)
theory PortProperties
  imports PortRegistry
begin

text \<open>
  The port registry never books a port twice: the invariant of its reachable states, what a
  reservation hands out, and the life cycle of an allocation.
\<close>

section \<open>Keys\<close>

lemma occupancy_key_inj: "occupancy_key p a = occupancy_key q b \<longleftrightarrow> p = q \<and> a = b"
  by (cases a; cases b) (auto simp: occupancy_key_def protocol_name_def dest: int_to_string_inj)

section \<open>What is occupied\<close>

definition active_keys :: "registry \<Rightarrow> string list" where
  "active_keys state = map allocation_key (filter is_active (rg_allocations state))"

definition registry_ok :: "registry \<Rightarrow> bool" where
  "registry_ok state = distinct (active_keys state)"

lemma set_foldl_jset_add: "set (foldl (\<lambda>s x. jset_add (f x) s) s xs) = set s \<union> f ` set xs"
  by (induction xs arbitrary: s) (auto simp: jset_simps)

lemma set_foldl_jset_add2: "set (foldl (\<lambda>s x. jset_add (g x) (jset_add (f x) s)) s xs) = set s \<union> f ` set xs \<union> g ` set xs"
  by (induction xs arbitrary: s) (auto simp: jset_simps)

lemma occupied_keys_set:
  "set (occupied_keys inp state) = set (active_keys state) \<union>
     {occupancy_key p q | p q. p \<in> set (ri_protected inp) \<union> set (ri_excluded inp)}"
proof -
  have eq: "{occupancy_key p q | p q. p \<in> P} = (\<lambda>p. occupancy_key p Tcp) ` P \<union> (\<lambda>p. occupancy_key p Udp) ` P" for P
  proof -
    have "occupancy_key p q \<in> (\<lambda>p. occupancy_key p Tcp) ` P \<union> (\<lambda>p. occupancy_key p Udp) ` P" if "p \<in> P" for p q
      using that by (cases q) auto
    then show ?thesis by blast
  qed
  show ?thesis
    unfolding occupied_keys_def set_foldl_jset_add2 set_foldl_jset_add active_keys_def eq by auto
qed

section \<open>The loop invariant of a reservation\<close>

text \<open>
  From the occupied keys \<open>base\<close>: what has been planned is free of them, free of each other, and
  marked as occupied; every planned port was found free or was handed out by the system.
\<close>

definition granted :: "port_env \<Rightarrow> reservation_input \<Rightarrow> reservation_request \<Rightarrow> allocation \<Rightarrow> bool" where
  "granted env inp request a =
     (pa_service a = rq_name request \<and> pa_protocol a = spec_protocol (rq_spec request) \<and> pa_host a = spec_host (rq_spec request) \<and>
      pa_state a = Planned \<and> pa_instance a = ri_instance inp \<and> pa_invocation a = ri_invocation inp \<and>
      (pe_available env (pa_port a) (pa_protocol a) (pa_host a) \<or> pa_source a = SrcEphemeral))"

definition plan_inv ::
  "port_env \<Rightarrow> reservation_input \<Rightarrow> string set \<Rightarrow> reservation_request list \<Rightarrow> string list \<times> allocation list \<Rightarrow> bool" where
  "plan_inv env inp base served st =
     (set (fst st) = base \<union> allocation_key ` set (snd st) \<and> distinct (map allocation_key (snd st)) \<and>
      base \<inter> allocation_key ` set (snd st) = {} \<and> list_all2 (granted env inp) served (snd st))"

lemma plan_inv_add:
  assumes "plan_inv env inp base served st"
    and "occupancy_key port (spec_protocol (rq_spec request)) \<notin> set (fst st)"
    and "pe_available env port (spec_protocol (rq_spec request)) (spec_host (rq_spec request)) \<or> source = SrcEphemeral"
  shows "plan_inv env inp base (served @ [request]) (add_plan env inp source st (request, port))"
proof -
  obtain occ planned where st: "st = (occ, planned)" by (cases st)
  show ?thesis
    using assms
    by (auto simp: plan_inv_def st add_plan_def jset_simps allocation_key_def plan_def granted_def list_all2_appendI)
qed

lemma plan_inv_block:
  assumes "plan_inv env inp base served st" and "length ports = length grp"
    and "all_free env (fst st) grp ports" and "distinct ports"
  shows "plan_inv env inp base (served @ grp) (foldl (add_plan env inp source) st (zip grp ports))"
  using assms
proof (induction grp arbitrary: served st ports)
  case (Cons request grp)
  obtain port ports' where ports: "ports = port # ports'" using Cons.prems(2) by (cases ports) auto
  let ?st = "add_plan env inp source st (request, port)"
  have free: "free_port env (fst st) (rq_spec request) port" "all_free env (fst st) grp ports'"
    using Cons.prems(3) by (auto simp: ports all_free_def)
  have inv: "plan_inv env inp base (served @ [request]) ?st"
    by (rule plan_inv_add [OF Cons.prems(1)]) (use free(1) in \<open>auto simp: free_port_def\<close>)
  have occ: "set (fst ?st) = insert (occupancy_key port (spec_protocol (rq_spec request))) (set (fst st))"
    by (cases st) (simp add: add_plan_def jset_simps)
  have "free_port env (fst ?st) (rq_spec r) p" if "(r, p) \<in> set (zip grp ports')" for r p
  proof -
    have "p \<noteq> port" using that Cons.prems(4) by (auto simp: ports dest: set_zip_rightD)
    moreover have "free_port env (fst st) (rq_spec r) p" using that free(2) by (auto simp: all_free_def list_all_iff)
    ultimately show ?thesis by (auto simp: free_port_def occ occupancy_key_inj)
  qed
  then have "all_free env (fst ?st) grp ports'" by (auto simp: all_free_def list_all_iff)
  then have "plan_inv env inp base ((served @ [request]) @ grp) (foldl (add_plan env inp source) ?st (zip grp ports'))"
    by (intro Cons.IH [OF inv]) (use Cons.prems in \<open>auto simp: ports\<close>)
  then show ?case by (simp add: ports)
qed simp

section \<open>What the searches find\<close>

lemma choose_from_pools_free:
  "choose_from_pools env inp occ name spec = Inr (port, source) \<Longrightarrow> free_port env occ spec port"
  by (auto simp: choose_from_pools_def conflict_def find_Some_iff split: option.splits)

lemma choose_port_free:
  "choose_port env inp occ priors name spec = Inr (port, source) \<Longrightarrow>
   occupancy_key port (spec_protocol spec) \<notin> set occ \<and>
   (pe_available env port (spec_protocol spec) (spec_host spec) \<or> source = SrcEphemeral)"
  by (auto simp: choose_port_def conflict_def find_Some_iff free_port_def
      dest!: choose_from_pools_free split: if_splits option.splits)

lemma length_some_of: "None \<notin> set xs \<Longrightarrow> length (some_of xs) = length xs"
  by (induction xs rule: some_of.induct) auto

lemma distinct_foldl_jset_add: "distinct s \<Longrightarrow> distinct (foldl (\<lambda>s p. jset_add p s) s xs)"
  by (rule foldl_invariant) auto

lemma length_foldl_jset_add: "length (foldl (\<lambda>s p. jset_add p s) s xs) \<le> length s + length xs"
proof (induction xs arbitrary: s)
  case (Cons x xs)
  from Cons [of "jset_add x s"] show ?case by (simp add: jset_add_def split: if_splits)
qed simp

lemma contiguous_distinct: "contiguous ports \<Longrightarrow> distinct ports"
proof -
  assume "contiguous ports"
  then have "length (foldl (\<lambda>s p. jset_add p s) [] ports) = length ports" by (simp add: contiguous_def Let_def)
  moreover have "set (foldl (\<lambda>s p. jset_add p s) [] ports) = set ports" using set_foldl_jset_add [of "\<lambda>x. x" "[]" ports] by simp
  moreover have "distinct (foldl (\<lambda>s p. jset_add p s) [] ports)" by (rule distinct_foldl_jset_add) simp
  ultimately show ?thesis by (metis card_distinct distinct_card)
qed

lemma ports_from_props: "length (ports_from grp start) = length grp" "distinct (ports_from grp start)"
  by (auto simp: ports_from_def distinct_map inj_on_def)

lemma choose_block_free:
  assumes "choose_block env inp occ block grp = Inr (ports, source)"
  shows "length ports = length grp \<and> all_free env occ grp ports \<and> distinct ports"
  using assms ports_from_props [of grp] length_some_of [of "map (\<lambda>request. ps_preferred (rq_spec request)) grp"]
  by (auto simp: choose_block_def Let_def conflict_def find_Some_iff contiguous_distinct
      split: if_splits option.splits)

section \<open>The reservation\<close>

lemma reserve_blocks_inv:
  assumes "reserve_blocks env inp groups st = Inr st'" and "plan_inv env inp base served st"
  shows "plan_inv env inp base (served @ concat (map snd groups)) st'"
  using assms
proof (induction groups arbitrary: served st)
  case (Cons g groups)
  obtain block grp where g: "g = (block, grp)" by (cases g)
  from Cons.prems(1) obtain ports source where c: "choose_block env inp (fst st) block grp = Inr (ports, source)"
    and rest: "reserve_blocks env inp groups (foldl (add_plan env inp source) st (zip grp ports)) = Inr st'"
    by (auto simp: g bind_sum_Inr)
  from choose_block_free [OF c] have "plan_inv env inp base (served @ grp) (foldl (add_plan env inp source) st (zip grp ports))"
    by (intro plan_inv_block [OF Cons.prems(2)]) auto
  from Cons.IH [OF rest this] show ?case by (simp add: g)
qed simp

lemma reserve_singles_inv:
  assumes "reserve_singles env inp priors handled requests st = Inr st'" and "plan_inv env inp base served st"
  shows "plan_inv env inp base (served @ filter (\<lambda>request. rq_name request \<notin> set handled) requests) st'"
  using assms
proof (induction requests arbitrary: served st)
  case (Cons request requests)
  show ?case
  proof (cases "rq_name request \<in> set handled")
    case False
    with Cons.prems(1) obtain port source where
      c: "choose_port env inp (fst st) priors (rq_name request) (rq_spec request) = Inr (port, source)"
      and rest: "reserve_singles env inp priors handled requests (add_plan env inp source st (request, port)) = Inr st'"
      by (auto simp: bind_sum_Inr)
    from choose_port_free [OF c] have "plan_inv env inp base (served @ [request]) (add_plan env inp source st (request, port))"
      by (intro plan_inv_add [OF Cons.prems(2)]) auto
    from Cons.IH [OF rest this] False show ?thesis by simp
  qed (use Cons in simp)
qed simp

text \<open>The requests in the order they are served: the blocks, then those whose name is in no block.\<close>

definition served_requests :: "reservation_input \<Rightarrow> reservation_request list" where
  "served_requests inp =
     (let groups = concat (map snd (block_groups (ri_requests inp)))
      in groups @ filter (\<lambda>request. rq_name request \<notin> set (map rq_name groups)) (ri_requests inp))"

lemma reserve_action_inv:
  assumes "reserve_action env inp state = Inr (planned, state')"
  shows "\<exists>occ. plan_inv env inp (set (occupied_keys inp state)) (served_requests inp) (occ, planned)"
    and "rg_allocations state' = rg_allocations state @ planned"
proof -
  let ?groups = "block_groups (ri_requests inp)"
  let ?handled = "concat (map (\<lambda>(_, grp). map rq_name grp) ?groups)"
  have handled: "set ?handled = set (map rq_name (concat (map snd ?groups)))" by force
  from assms obtain st occ where b: "reserve_blocks env inp ?groups (occupied_keys inp state, []) = Inr st"
    and s: "reserve_singles env inp (stable_allocations inp state) ?handled (ri_requests inp) st = Inr (occ, planned)"
    by (auto simp: reserve_action_def Let_def bind_sum_Inr)
  have "plan_inv env inp (set (occupied_keys inp state)) [] (occupied_keys inp state, [])" by (simp add: plan_inv_def)
  from reserve_blocks_inv [OF b this]
  have inv: "plan_inv env inp (set (occupied_keys inp state)) (concat (map snd ?groups)) st" by simp
  have "plan_inv env inp (set (occupied_keys inp state)) (served_requests inp) (occ, planned)"
    using reserve_singles_inv [OF s inv] by (simp only: served_requests_def Let_def handled)
  then show "\<exists>occ. plan_inv env inp (set (occupied_keys inp state)) (served_requests inp) (occ, planned)" ..
  show "rg_allocations state' = rg_allocations state @ planned"
    using assms by (auto simp: reserve_action_def Let_def bind_sum_Inr)
qed

lemma filter_planned_active: "list_all2 (granted env inp) requests planned \<Longrightarrow> filter is_active planned = planned"
  by (induction requests planned rule: list_all2_induct) (auto simp: granted_def is_active_def)

lemma reserve_ok:
  assumes "registry_ok state"
  shows "registry_ok (snd (registry_reserve env inp state))"
proof (cases "reserve_action env inp state")
  case (Inl e)
  with assms show ?thesis by (simp add: registry_reserve_def transaction_def)
next
  case (Inr r)
  obtain planned state' where r: "r = (planned, state')" by (cases r)
  from reserve_action_inv [OF Inr [unfolded r]] obtain occ
    where inv: "plan_inv env inp (set (occupied_keys inp state)) (served_requests inp) (occ, planned)"
      and alloc: "rg_allocations state' = rg_allocations state @ planned" by auto
  have "filter is_active planned = planned" using inv filter_planned_active by (auto simp: plan_inv_def)
  then have keys: "active_keys state' = active_keys state @ map allocation_key planned" by (simp add: active_keys_def alloc)
  have "set (active_keys state) \<subseteq> set (occupied_keys inp state)" by (simp add: occupied_keys_set)
  then have "registry_ok state'" using inv assms by (auto simp: registry_ok_def keys plan_inv_def)
  moreover have "active_keys (state'\<lparr>rg_revision := n\<rparr>) = active_keys state'" for n by (simp add: active_keys_def)
  ultimately show ?thesis by (simp add: registry_reserve_def transaction_def Inr r registry_ok_def)
qed

section \<open>The life cycle\<close>

text \<open>The states an allocation may move to; it never comes back from the inactive ones.\<close>

fun may_become :: "allocation_state \<Rightarrow> allocation_state \<Rightarrow> bool" where
  "may_become Planned x = (x \<in> {Planned, ActiveState, Stale, Released})"
| "may_become ActiveState x = (x \<in> {ActiveState, Stale, ExternallyOccupied, Released})"
| "may_become ExternallyOccupied x = (x \<in> {ExternallyOccupied, Stale, Released})"
| "may_become Stale x = (x = Stale)"
| "may_become Released x = (x = Released)"

definition evolves :: "allocation \<Rightarrow> allocation \<Rightarrow> bool" where
  "evolves a b =
     (pa_id b = pa_id a \<and> pa_instance b = pa_instance a \<and> pa_service b = pa_service a \<and> pa_protocol b = pa_protocol a \<and>
      pa_host b = pa_host a \<and> pa_port b = pa_port a \<and> pa_invocation b = pa_invocation a \<and> pa_created b = pa_created a \<and>
      may_become (pa_state a) (pa_state b))"

datatype registry_op =
    OpReserve port_env reservation_input
  | OpUpdate port_env string "invocation_state option" "string option"
  | OpRecover port_env string
  | OpMarkActive port_env string "(string, process_owner option \<times> container_owner option) jmap"
  | OpRelease port_env "string option" "string option" "string option"
  | OpReconcile port_env
  | OpGc

fun apply_op :: "registry_op \<Rightarrow> registry \<Rightarrow> registry" where
  "apply_op (OpReserve env inp) s = snd (registry_reserve env inp s)"
| "apply_op (OpUpdate env i st e) s = update_invocation env i st e s"
| "apply_op (OpRecover env i) s = snd (recover_interrupted env i s)"
| "apply_op (OpMarkActive env i owners) s = mark_active env i owners s"
| "apply_op (OpRelease env i j e) s = registry_release env i j e s"
| "apply_op (OpReconcile env) s = reconcile env s"
| "apply_op OpGc s = snd (registry_gc s)"

text \<open>The registries the operations can produce, whatever the environment answers.\<close>

inductive registry_reachable :: "registry \<Rightarrow> bool" where
  empty: "registry_reachable EMPTY_REGISTRY"
| step: "registry_reachable s \<Longrightarrow> registry_reachable (apply_op op s)"

lemma may_become_refl [simp]: "may_become x x"
  by (cases x) auto

lemma evolves_refl [simp]: "evolves a a"
  by (simp add: evolves_def)

lemma evolves_map: "(\<And>a. evolves a (f a)) \<Longrightarrow> list_all2 evolves as (map f as)"
  by (simp add: list_all2_conv_all_nth)

lemma evolves_key: "evolves a b \<Longrightarrow> allocation_key b = allocation_key a"
  by (simp add: evolves_def allocation_key_def)

lemma evolves_active: "evolves a b \<Longrightarrow> is_active b \<Longrightarrow> is_active a"
  by (cases "pa_state a") (auto simp: evolves_def is_active_def)

lemma evolves_keys:
  "list_all2 evolves as bs \<Longrightarrow> distinct (map allocation_key (filter is_active as)) \<Longrightarrow>
   distinct (map allocation_key (filter is_active bs)) \<and>
   allocation_key ` set (filter is_active bs) \<subseteq> allocation_key ` set (filter is_active as)"
proof (induction as bs rule: list_all2_induct)
  case (Cons a as b bs)
  then have "distinct (map allocation_key (filter is_active bs))"
    and sub: "allocation_key ` set (filter is_active bs) \<subseteq> allocation_key ` set (filter is_active as)"
    by (auto split: if_splits)
  moreover have "is_active b \<Longrightarrow> allocation_key b \<notin> allocation_key ` set (filter is_active bs)"
    using Cons.prems sub evolves_active [OF Cons.hyps(1)] evolves_key [OF Cons.hyps(1)] by auto
  ultimately show ?case
    using evolves_active [OF Cons.hyps(1)] evolves_key [OF Cons.hyps(1)] by auto
qed simp

lemma simple_transaction_allocations [simp]:
  "rg_allocations (simple_transaction f s) = rg_allocations (f s)"
  by (simp add: simple_transaction_def transaction_def)

lemma reconciled_becomes: "may_become (pa_state a) (reconciled_state env a)"
  by (cases "pa_state a") (auto simp: reconciled_state_def Let_def)

lemma op_evolves:
  assumes "op \<noteq> OpGc" and "\<And>env inp. op \<noteq> OpReserve env inp"
  shows "list_all2 evolves (rg_allocations s) (rg_allocations (apply_op op s))"
proof (cases op)
  case (OpUpdate env i st e)
  have "list_all2 evolves as (map (\<lambda>a. if pa_invocation a = i \<and> pa_state a = Planned then a\<lparr>pa_updated := pe_now env\<rparr> else a) as)" for as
    by (rule evolves_map) (simp add: evolves_def)
  then show ?thesis
    by (auto simp: OpUpdate update_invocation_def Let_def list.rel_refl split: option.split)
next
  case (OpRecover env i)
  show ?thesis
    unfolding OpRecover apply_op.simps recover_interrupted_def Let_def snd_conv simple_transaction_allocations
    by (simp, rule evolves_map) (auto simp: evolves_def release_allocation_def)
next
  case (OpMarkActive env i owners)
  show ?thesis
    unfolding OpMarkActive apply_op.simps mark_active_def simple_transaction_allocations
    by (simp, rule evolves_map) (auto simp: evolves_def Let_def split: option.split prod.split)
next
  case (OpRelease env i j e)
  show ?thesis
    unfolding OpRelease apply_op.simps registry_release_def simple_transaction_allocations Let_def
    by (simp, rule evolves_map) (auto simp: evolves_def release_allocation_def is_active_def)
next
  case (OpReconcile env)
  show ?thesis
    unfolding OpReconcile apply_op.simps reconcile_def simple_transaction_allocations
    by (simp, rule evolves_map) (simp add: evolves_def reconciled_becomes)
qed (use assms in auto)

lemma op_ok: "registry_ok s \<Longrightarrow> registry_ok (apply_op op s)"
proof (cases "\<exists>env inp. op = OpReserve env inp")
  case True
  assume "registry_ok s"
  with True show ?thesis by (auto intro: reserve_ok)
next
  case False
  assume ok: "registry_ok s"
  show ?thesis
  proof (cases "op = OpGc")
    case True
    let ?kept = "\<lambda>a. pa_state a \<noteq> Stale \<and> pa_state a \<noteq> Released"
    have "filter is_active (filter ?kept as) = filter ?kept (filter is_active as)" for as
      by (simp add: conj_commute)
    then have "active_keys (apply_op op s) = map allocation_key (filter ?kept (filter is_active (rg_allocations s)))"
      by (simp add: True active_keys_def registry_gc_def Let_def del: filter_filter)
    moreover from ok have "distinct (map allocation_key (filter is_active (rg_allocations s)))"
      by (simp add: registry_ok_def active_keys_def)
    ultimately show ?thesis unfolding registry_ok_def by (simp only: distinct_map_filter)
  next
    case not_gc: False
    have "list_all2 evolves (rg_allocations s) (rg_allocations (apply_op op s))"
      by (rule op_evolves) (use False not_gc in auto)
    from evolves_keys [OF this] ok show ?thesis by (simp add: registry_ok_def active_keys_def)
  qed
qed

section \<open>Every request is served once\<close>

lemma group_request_mset:
  "mset (concat (map snd (group_request groups request))) =
   mset (concat (map snd groups)) + (if block_name request = None then {#} else {#request#})"
proof -
  have "mset (concat (map snd (jmap_set b ((case jmap_get m b of None \<Rightarrow> [] | Some g \<Rightarrow> g) @ [x]) m))) =
      add_mset x (mset (concat (map snd m)))" for b and x :: reservation_request and m
    by (induction m) auto
  then show ?thesis by (cases "block_name request") (simp_all add: group_request_def)
qed

lemma group_requests_mset:
  "mset (concat (map snd (foldl group_request groups requests))) =
   mset (concat (map snd groups)) + mset (filter (\<lambda>request. block_name request \<noteq> None) requests)"
  by (induction requests arbitrary: groups) (simp_all add: group_request_mset)

lemma served_once:
  assumes "distinct (map rq_name (ri_requests inp))"
  shows "mset (served_requests inp) = mset (ri_requests inp)"
proof -
  let ?rs = "ri_requests inp" and ?groups = "concat (map snd (block_groups (ri_requests inp)))"
  have m: "mset ?groups = mset (filter (\<lambda>request. block_name request \<noteq> None) ?rs)"
    using group_requests_mset [of "[]" ?rs] by (simp add: block_groups_def)
  then have set_groups: "set ?groups = {request \<in> set ?rs. block_name request \<noteq> None}"
    by (metis set_filter set_mset_mset)
  have "rq_name request \<notin> set (map rq_name ?groups) \<longleftrightarrow> block_name request = None" if "request \<in> set ?rs" for request
    using assms that unfolding set_map set_groups by (auto simp: distinct_map inj_on_def)
  then have "filter (\<lambda>request. rq_name request \<notin> set (map rq_name ?groups)) ?rs = filter (\<lambda>request. block_name request = None) ?rs"
    by (intro filter_cong) simp_all
  then show ?thesis by (simp add: served_requests_def Let_def m)
qed

section \<open>Blocks are contiguous\<close>

interpretation ports_ascending: js_comparator "\<lambda>a b. a - b :: int" "\<lambda>_. True"
  by unfold_locales auto

lemma interval_of_card:
  assumes "set ports \<subseteq> {lo..hi :: int}" and "distinct ports" and "hi - lo + 1 = int (length ports)"
  shows "set ports = {lo..<lo + int (length ports)}"
proof -
  have "card {lo..hi} = length ports" using assms(3) by simp
  then have "set ports = {lo..hi}"
    using assms(1,2) by (metis card_subset_eq distinct_card finite_atLeastAtMost_int)
  also have "\<dots> = {lo..<lo + int (length ports)}" using assms(3) by auto
  finally show ?thesis .
qed

lemma contiguous_interval:
  assumes "contiguous ports" and "ports \<noteq> []"
  shows "\<exists>lo. set ports = {lo..<lo + int (length ports)}"
proof -
  define u where "u = js_sort (\<lambda>a b. a - b) (foldl (\<lambda>s p. jset_add p s) [] ports)"
  have set_u: "set u = set ports" using set_foldl_jset_add [of "\<lambda>x. x" "[]" ports] by (simp add: u_def)
  have "sorted_wrt (\<lambda>a b. a - b \<le> 0) u" unfolding u_def by (rule ports_ascending.sort_sorted) simp
  then have sorted: "sorted_wrt (\<le>) u" by simp
  have ne: "u \<noteq> []" using assms(2) set_u by (metis set_empty)
  have "hd u \<le> p \<and> p \<le> last u" if "p \<in> set u" for p
  proof
    show "hd u \<le> p" using sorted that by (cases u) auto
    show "p \<le> last u" using sorted_wrt_last_elem [OF sorted that] by auto
  qed
  then have "set ports \<subseteq> {hd u..last u}" by (auto simp: set_u)
  moreover have "last u - hd u + 1 = int (length ports)" using assms(1) by (simp add: contiguous_def Let_def u_def)
  ultimately show ?thesis using interval_of_card [OF _ contiguous_distinct [OF assms(1)]] by blast
qed

lemma ports_from_interval: "set (ports_from grp start) = {start..<start + int (length grp)}"
proof -
  have "(\<lambda>i. start + int i) ` {0..<length grp} = {start..<start + int (length grp)}"
  proof -
    have "x \<in> (\<lambda>i. start + int i) ` {0..<length grp}" if "start \<le> x" "x < start + int (length grp)" for x
      using that by (intro image_eqI [of _ _ "nat (x - start)"]) auto
    then show ?thesis by auto
  qed
  then show ?thesis by (simp add: ports_from_def)
qed

section \<open>Properties\<close>

text \<open>
  C6: no port is booked twice: in every registry that reservations, updates, recoveries,
  activations, releases, reconciliations and collections can produce, in any order and whatever
  the system answers, the allocations that hold a port hold different ones.
\<close>

theorem no_double_booking:
  assumes "registry_reachable s"
  shows "distinct (map (\<lambda>a. (pa_protocol a, pa_port a)) (filter is_active (rg_allocations s)))"
proof -
  have "registry_ok s"
    using assms by induction (simp_all add: registry_ok_def active_keys_def EMPTY_REGISTRY_def op_ok [unfolded registry_ok_def active_keys_def])
  moreover have "allocation_key a = allocation_key b" if "(pa_protocol a, pa_port a) = (pa_protocol b, pa_port b)" for a b
    using that by (simp add: allocation_key_def)
  ultimately show ?thesis
    unfolding registry_ok_def active_keys_def distinct_map inj_on_def by blast
qed

definition one_request :: "string \<Rightarrow> int \<Rightarrow> reservation_input" where
  "one_request name port = \<lparr>ri_project = ''p'', ri_instance = ''i'', ri_invocation = name, ri_profile = ''dev'',
     ri_requests = [\<lparr>rq_name = name, rq_spec = \<lparr>ps_protocol = None, ps_preferred = Some port, ps_range = None, ps_exact = False,
       ps_ephemeral = False, ps_public = False, ps_internal = None, ps_block = None\<rparr>, rq_hostname = None\<rparr>],
     ri_fallback = Some (5, 6), ri_preferred = None, ri_protected = [5], ri_excluded = []\<rparr>"

definition open_env :: port_env where
  "open_env = \<lparr>pe_now = 0, pe_uuid = (\<lambda>_. ''u''), pe_hash = (\<lambda>_. 0), pe_available = (\<lambda>_ _ _. True),
     pe_ephemeral = (\<lambda>_ _ n. int n), pe_process_alive = (\<lambda>_. True), pe_container_running = (\<lambda>_. None)\<rparr>"

theorem no_double_booking_witness:
  "distinct (map (\<lambda>a. (pa_protocol a, pa_port a)) (filter is_active (rg_allocations
     (apply_op (OpReserve open_env (one_request ''web'' 1)) (apply_op (OpReserve open_env (one_request ''api'' 1)) EMPTY_REGISTRY)))))"
  by (rule no_double_booking) (intro registry_reachable.intros)

text \<open>
  C21: a reservation that succeeds appends one allocation per request it serves, in order, each
  with the protocol and host its request asks for, on a port that could be bound or that the
  system handed out; none of them is held by another allocation, protected or excluded, and no
  two share a port. With distinct names every request is served exactly once.
\<close>

theorem reservation_sound:
  assumes "registry_reserve env inp s = (Inr planned, s')"
  shows "rg_allocations s' = rg_allocations s @ planned \<and> list_all2 (granted env inp) (served_requests inp) planned \<and>
    distinct (map allocation_key planned) \<and>
    list_all (\<lambda>a. allocation_key a \<notin> allocation_key ` set (filter is_active (rg_allocations s)) \<and>
      pa_port a \<notin> set (ri_protected inp) \<union> set (ri_excluded inp)) planned \<and>
    (distinct (map rq_name (ri_requests inp)) \<longrightarrow> mset (served_requests inp) = mset (ri_requests inp))"
proof -
  from assms obtain s1 where act: "reserve_action env inp s = Inr (planned, s1)" and s': "s' = s1\<lparr>rg_revision := rg_revision s1 + 1\<rparr>"
    by (auto simp: registry_reserve_def transaction_def split: sum.splits)
  from reserve_action_inv [OF act] obtain occ
    where inv: "plan_inv env inp (set (occupied_keys inp s)) (served_requests inp) (occ, planned)"
      and alloc: "rg_allocations s1 = rg_allocations s @ planned" by auto
  have fresh: "allocation_key a \<notin> set (occupied_keys inp s)" if "a \<in> set planned" for a
    using inv that by (auto simp: plan_inv_def)
  have "list_all (\<lambda>a. allocation_key a \<notin> allocation_key ` set (filter is_active (rg_allocations s)) \<and>
      pa_port a \<notin> set (ri_protected inp) \<union> set (ri_excluded inp)) planned"
    unfolding list_all_iff
  proof (intro ballI conjI)
    fix a assume "a \<in> set planned"
    from fresh [OF this] show "allocation_key a \<notin> allocation_key ` set (filter is_active (rg_allocations s))"
      and "pa_port a \<notin> set (ri_protected inp) \<union> set (ri_excluded inp)"
      unfolding occupied_keys_set active_keys_def by (auto simp: allocation_key_def)
  qed
  then show ?thesis using inv alloc served_once [of inp] by (simp add: s' plan_inv_def)
qed

theorem reservation_sound_witness:
  "map pa_port (rg_allocations (snd (registry_reserve open_env (one_request ''web'' 5) EMPTY_REGISTRY))) = [6] \<and>
   list_all (\<lambda>a. pa_port a \<notin> {5}) (rg_allocations (snd (registry_reserve open_env (one_request ''web'' 5) EMPTY_REGISTRY)))"
proof -
  have run: "fst (registry_reserve open_env (one_request ''web'' 5) EMPTY_REGISTRY) =
      Inr (rg_allocations (snd (registry_reserve open_env (one_request ''web'' 5) EMPTY_REGISTRY)))"
    and ports: "map pa_port (rg_allocations (snd (registry_reserve open_env (one_request ''web'' 5) EMPTY_REGISTRY))) = [6]"
    by code_simp+
  from run have "registry_reserve open_env (one_request ''web'' 5) EMPTY_REGISTRY =
      (Inr (rg_allocations (snd (registry_reserve open_env (one_request ''web'' 5) EMPTY_REGISTRY))),
       snd (registry_reserve open_env (one_request ''web'' 5) EMPTY_REGISTRY))"
    by (metis prod.collapse)
  from reservation_sound [OF this] ports show ?thesis by (auto simp: one_request_def list_all_iff)
qed

text \<open>
  C37: the life of an allocation: whatever operation runs, the allocations it finds keep their
  identity, port and owner and only move along the life cycle (planned, active, externally
  occupied, then stale or released for good); a reservation only appends planned ones, and a
  collection removes exactly the stale and the released.
\<close>

theorem allocation_lifecycle:
  "\<exists>kept added. rg_allocations (apply_op op s) = kept @ added \<and> list_all (\<lambda>a. pa_state a = Planned) added \<and>
    (if op = OpGc then kept = filter (\<lambda>a. pa_state a \<notin> {Stale, Released}) (rg_allocations s) \<and> added = []
     else list_all2 evolves (rg_allocations s) kept)"
proof (cases "op = OpGc")
  case True
  then show ?thesis by (simp add: registry_gc_def Let_def)
next
  case not_gc: False
  show ?thesis
  proof (cases "\<exists>env inp. op = OpReserve env inp")
    case False
    then have "list_all2 evolves (rg_allocations s) (rg_allocations (apply_op op s))" by (intro op_evolves) (use not_gc in auto)
    then show ?thesis using not_gc by (intro exI [of _ "rg_allocations (apply_op op s)"] exI [of _ "[]"]) simp
  next
    case True
    then obtain env inp where op: "op = OpReserve env inp" by blast
    have refl: "list_all2 evolves (rg_allocations s) (rg_allocations s)" by (simp add: list.rel_refl)
    show ?thesis
    proof (cases "reserve_action env inp s")
      case (Inl e)
      then show ?thesis using refl
        by (intro exI [of _ "rg_allocations s"] exI [of _ "[]"]) (simp add: op registry_reserve_def transaction_def)
    next
      case (Inr r)
      obtain planned s1 where r: "r = (planned, s1)" by (cases r)
      from reserve_action_inv [OF Inr [unfolded r]] have "rg_allocations s1 = rg_allocations s @ planned"
        and "list_all2 (granted env inp) (served_requests inp) planned" by (auto simp: plan_inv_def)
      moreover have "list_all2 (granted env inp) rs ps \<Longrightarrow> list_all (\<lambda>a. pa_state a = Planned) ps" for rs ps
        by (induction rs ps rule: list_all2_induct) (auto simp: granted_def)
      ultimately show ?thesis using refl
        by (intro exI [of _ "rg_allocations s"] exI [of _ planned]) (auto simp: op registry_reserve_def transaction_def Inr r)
    qed
  qed
qed

text \<open>
  A block of requests gets contiguous ports, one for each request, all free; when they come
  from a search, each lies in the range its own request asks for.
\<close>

theorem block_ports_contiguous:
  assumes "choose_block env inp occ block grp = Inr (ports, source)" and "grp \<noteq> []"
  shows "(\<exists>lo. set ports = {lo..<lo + int (length ports)}) \<and> length ports = length grp \<and> all_free env occ grp ports \<and>
    (in_ranges grp ports \<or> map Some ports = map (\<lambda>request. ps_preferred (rq_spec request)) grp)"
proof -
  let ?wanted = "map (\<lambda>request. ps_preferred (rq_spec request)) grp"
  note free = choose_block_free [OF assms(1)]
  then have ne: "ports \<noteq> []" using assms(2) by auto
  have some: "None \<notin> set xs \<Longrightarrow> map Some (some_of xs) = xs" for xs :: "int option list"
    by (induction xs rule: some_of.induct) auto
  consider "None \<notin> set ?wanted" "ports = some_of ?wanted" "contiguous ports"
    | start where "ports = ports_from grp start" "in_ranges grp ports"
    using assms(1) by (auto simp: choose_block_def Let_def conflict_def find_Some_iff split: if_splits option.splits)
  then show ?thesis
  proof cases
    case 1
    then show ?thesis using free contiguous_interval [OF 1(3) ne] some [OF 1(1)] by simp
  next
    case (2 start)
    then show ?thesis using free ports_from_interval [of grp start] ports_from_props(1) [of grp start] by auto
  qed
qed

definition two_in_block :: "reservation_request list" where
  "two_in_block = map (\<lambda>name. \<lparr>rq_name = name, rq_spec = \<lparr>ps_protocol = None, ps_preferred = None, ps_range = Some (1, 4), ps_exact = False,
     ps_ephemeral = False, ps_public = False, ps_internal = None, ps_block = Some ''b''\<rparr>, rq_hostname = None\<rparr>) [''web'', ''api'']"

theorem block_ports_contiguous_witness:
  "\<exists>lo. set [2, 3] = {lo..<lo + int (length [2, 3 :: int])}"
proof -
  have run: "choose_block open_env (one_request ''web'' 1) [occupancy_key 1 Tcp] ''b'' two_in_block = Inr ([2, 3], SrcRange)"
    by code_simp
  have "two_in_block \<noteq> []" by (simp add: two_in_block_def)
  from block_ports_contiguous [OF run this] show ?thesis by blast
qed

end
