(* ===== verification/DbMemory.thy ===== *)
theory DbMemory
  imports DfqlFilters KvStores
begin

text \<open>
  The in-memory database adapter, \<open>packages/db/src/adapters/memory/index.ts\<close>, with the factory
  that wraps it (\<open>adapter/factory.ts\<close>) and the naming of its tables
  (\<open>utils/namespace.ts\<close>). A database is a map from table names to tables, a table a map from
  ids to records, both in insertion order. An adapter is a function from a request and a state
  to an answer, \<open>Inl\<close> for a thrown error, and the next state. The adapter queues its calls,
  so a request is one step. A missing \<open>where\<close> is the empty list, which the code treats alike;
  the schema codecs are the identity, as they are without an adapter schema.
\<close>

section \<open>Table names\<close>

record namespace_config =
  nc_enabled :: bool
  nc_separator :: string
  nc_prefix :: "string option"
  nc_schema_support :: bool

definition ns_separator :: "namespace_config \<Rightarrow> string" where
  "ns_separator cfg = (if nc_separator cfg = [] then ''_'' else nc_separator cfg)"

definition prefix_part :: "namespace_config \<Rightarrow> string list" where
  "prefix_part cfg = (case nc_prefix cfg of None \<Rightarrow> [] | Some p \<Rightarrow> if p = [] then [] else [p])"

definition ns_apply :: "namespace_config \<Rightarrow> string \<Rightarrow> string \<Rightarrow> string" where
  "ns_apply cfg library_name table_name =
     (if \<not> nc_enabled cfg then table_name
      else js_join (ns_separator cfg) (prefix_part cfg @ [library_name, table_name]))"

definition ns_get_schema :: "namespace_config \<Rightarrow> string \<Rightarrow> string option" where
  "ns_get_schema cfg library_name =
     (if \<not> nc_schema_support cfg then None
      else Some (case prefix_part cfg of [] \<Rightarrow> library_name | p # _ \<Rightarrow> p @ ''_'' @ library_name))"

definition ns_parse :: "namespace_config \<Rightarrow> string \<Rightarrow> string \<Rightarrow> string + (string \<times> string)" where
  "ns_parse cfg namespaced_name namespace =
     (if \<not> nc_enabled cfg then Inr ([], namespaced_name)
      else
        (let expected = js_join (ns_separator cfg) (prefix_part cfg @ [namespace])
         in if \<not> starts_with namespaced_name (expected @ ns_separator cfg) then
              Inl (''Invalid namespaced table name: '' @ [CHR 0x22] @ namespaced_name @ [CHR 0x22] @
                   '' does not start with expected prefix '' @ [CHR 0x22] @ expected @ ns_separator cfg @ [CHR 0x22])
            else Inr (expected, drop (length expected + length (ns_separator cfg)) namespaced_name)))"

definition get_model_name :: "namespace_config \<Rightarrow> string \<Rightarrow> string" where
  "get_model_name cfg model = (if nc_enabled cfg then ns_apply cfg ''default'' model else model)"

section \<open>Requests\<close>

datatype where_operator = WEq | WNe | WGt | WGte | WLt | WLte | WIn | WNotIn | WContains | WStartsWith | WEndsWith | WUnknown

datatype connector = AndConnector | OrConnector

record where_clause =
  wc_field :: string
  wc_operator :: where_operator
  wc_value :: jsval
  wc_connector :: "connector option"

record order_by =
  ob_field :: string
  ob_ascending :: bool

record create_params =
  cp_model :: string
  cp_data :: jsrec
  cp_select :: "string list option"
  cp_namespace :: "string option"

record find_one_params =
  fp_model :: string
  fp_where :: "where_clause list"
  fp_select :: "string list option"
  fp_namespace :: "string option"

record find_many_params = find_one_params +
  fp_limit :: "jsnum option"
  fp_offset :: "jsnum option"
  fp_order :: "order_by list option"

record update_params =
  up_model :: string
  up_where :: "where_clause list"
  up_data :: jsrec
  up_select :: "string list option"
  up_namespace :: "string option"

record where_params =
  wp_model :: string
  wp_where :: "where_clause list"
  wp_namespace :: "string option"

record create_many_params =
  cm_model :: string
  cm_data :: "jsrec list"
  cm_select :: "string list option"
  cm_namespace :: "string option"

record update_many_params =
  um_model :: string
  um_where :: "where_clause list"
  um_data :: jsrec
  um_namespace :: "string option"

datatype conflict_target = OneField string | ManyFields "string list"

record upsert_params =
  us_model :: string
  us_where :: "where_clause list"
  us_create :: jsrec
  us_update :: jsrec
  us_select :: "string list option"
  us_namespace :: "string option"
  us_conflict :: "conflict_target option"

record internal_where =
  iw_field :: string
  iw_op :: string
  iw_value :: jsval

datatype internal_op =
    EnsureTable string
  | InternalCreate string jsrec
  | InternalCreateMany string "jsrec list"
  | InternalFindOne string "internal_where list"
  | InternalFindMany string "internal_where list" "string option" "jsnum option"
  | InternalUpdate string "internal_where list" jsrec
  | InternalDelete string "internal_where list"

datatype db_op =
    DbCreate create_params
  | DbCreateMany create_many_params
  | DbFindOne find_one_params
  | DbFindMany find_many_params
  | DbUpdate update_params
  | DbUpdateMany update_many_params
  | DbDelete where_params
  | DbDeleteMany where_params
  | DbUpsert upsert_params
  | DbCount where_params
  | DbGetVersion string
  | DbSetVersion string jsnum
  | DbInternal internal_op

datatype db_error = DbError string | NotFoundError string "where_clause list" | NamespaceRequired

datatype db_answer = Record jsrec | NoRecord | Records "jsrec list" | Counted nat | Version jsnum | Void

type_synonym table = "(jsval, jsrec) jmap"

record memory_db =
  md_store :: "(string, table) jmap"
  md_versions :: "(string, jsnum) jmap"
  md_internal :: "(string, table) jmap"
  md_ensured :: "string jset"
  md_fresh :: nat

text \<open>The environment: number formatting, the supply of random ids, and the table naming.\<close>

record db_env =
  de_dtoa :: "rat \<Rightarrow> string"
  de_uuid :: "nat \<Rightarrow> string"
  de_naming :: namespace_config

type_synonym 's adapter = "db_op \<Rightarrow> 's \<Rightarrow> (db_error + db_answer) \<times> 's"

section \<open>Where clauses and ordering\<close>

definition both_strings :: "(string \<Rightarrow> string \<Rightarrow> bool) \<Rightarrow> jsval \<Rightarrow> jsval \<Rightarrow> bool" where
  "both_strings p a b = (case (a, b) of (JStr s, JStr t) \<Rightarrow> p s t | _ \<Rightarrow> False)"

definition value_eq :: "jsval \<Rightarrow> jsval \<Rightarrow> bool" where
  "value_eq actual expected = (if expected = JNull then js_nullish actual else js_seq actual expected)"

definition matches_clause :: "(rat \<Rightarrow> string) \<Rightarrow> jsval \<Rightarrow> where_clause \<Rightarrow> bool" where
  "matches_clause dtoa v clause =
     (let w = wc_value clause
      in case wc_operator clause of
           WEq \<Rightarrow> value_eq v w
         | WNe \<Rightarrow> \<not> value_eq v w
         | WGt \<Rightarrow> js_lt dtoa w v
         | WGte \<Rightarrow> js_le dtoa w v
         | WLt \<Rightarrow> js_lt dtoa v w
         | WLte \<Rightarrow> js_le dtoa v w
         | WIn \<Rightarrow> (case w of JArr vs \<Rightarrow> js_array_includes vs v | _ \<Rightarrow> False)
         | WNotIn \<Rightarrow> (case w of JArr vs \<Rightarrow> \<not> js_array_includes vs v | _ \<Rightarrow> False)
         | WContains \<Rightarrow> both_strings str_includes v w
         | WStartsWith \<Rightarrow> both_strings starts_with v w
         | WEndsWith \<Rightarrow> both_strings ends_with v w
         | WUnknown \<Rightarrow> False)"

definition clause_holds :: "(rat \<Rightarrow> string) \<Rightarrow> jsrec \<Rightarrow> where_clause \<Rightarrow> bool" where
  "clause_holds dtoa r clause = matches_clause dtoa (js_get r (wc_field clause)) clause"

definition connect :: "(rat \<Rightarrow> string) \<Rightarrow> jsrec \<Rightarrow> bool \<Rightarrow> where_clause \<Rightarrow> bool" where
  "connect dtoa r matched clause =
     (if wc_connector clause = Some OrConnector then matched \<or> clause_holds dtoa r clause
      else matched \<and> clause_holds dtoa r clause)"

definition matches_where :: "(rat \<Rightarrow> string) \<Rightarrow> where_clause list \<Rightarrow> jsrec \<Rightarrow> bool" where
  "matches_where dtoa clauses r =
     (case clauses of [] \<Rightarrow> True | c # cs \<Rightarrow> foldl (connect dtoa r) (clause_holds dtoa r c) cs)"

fun compare_by :: "(rat \<Rightarrow> string) \<Rightarrow> order_by list \<Rightarrow> jsrec \<Rightarrow> jsrec \<Rightarrow> int" where
  "compare_by dtoa [] a b = 0"
| "compare_by dtoa (ob # obs) a b =
     (let x = js_get a (ob_field ob); y = js_get b (ob_field ob)
      in if js_lt dtoa x y then (if ob_ascending ob then - 1 else 1)
         else if js_lt dtoa y x then (if ob_ascending ob then 1 else - 1)
         else compare_by dtoa obs a b)"

definition apply_ordering :: "(rat \<Rightarrow> string) \<Rightarrow> order_by list \<Rightarrow> jsrec list \<Rightarrow> jsrec list" where
  "apply_ordering dtoa obs rs = js_sort (compare_by dtoa obs) rs"

definition select_fields :: "string list option \<Rightarrow> jsrec \<Rightarrow> jsrec" where
  "select_fields sel r =
     (case sel of None \<Rightarrow> r | Some fs \<Rightarrow> foldl (\<lambda>m f. jmap_set f (js_get r f) m) [] fs)"

section \<open>The implementation\<close>

definition table_of :: "string \<Rightarrow> memory_db \<Rightarrow> table" where
  "table_of name s = (case jmap_get (md_store s) name of None \<Rightarrow> [] | Some t \<Rightarrow> t)"

definition put_table :: "string \<Rightarrow> table \<Rightarrow> memory_db \<Rightarrow> memory_db" where
  "put_table name t s = s\<lparr>md_store := jmap_set name t (md_store s)\<rparr>"

text \<open>\<open>data.id || randomUUID()\<close>.\<close>

definition id_or_new :: "db_env \<Rightarrow> jsrec \<Rightarrow> memory_db \<Rightarrow> jsval \<times> memory_db" where
  "id_or_new env r s =
     (if js_truthy (js_get r ''id'') then (js_get r ''id'', s)
      else (JStr (de_uuid env (md_fresh s)), s\<lparr>md_fresh := Suc (md_fresh s)\<rparr>))"

definition mem_create :: "db_env \<Rightarrow> create_params \<Rightarrow> memory_db \<Rightarrow> (db_error + jsrec) \<times> memory_db" where
  "mem_create env p s =
     (let name = get_model_name (de_naming env) (cp_model p);
          s1 = (if jmap_has (md_store s) name then s else put_table name [] s);
          (id, s2) = id_or_new env (cp_data p) s1
      in if jmap_has (table_of name s2) id then
           (Inl (DbError (''UNIQUE constraint failed: record with id '' @ [CHR 0x22] @ js_string (de_dtoa env) id @ [CHR 0x22] @
              '' already exists in '' @ name)), s2)
         else
           (let r = jmap_set ''id'' id (cp_data p)
            in (Inr (select_fields (cp_select p) r), put_table name (jmap_set id r (table_of name s2)) s2)))"

fun mem_create_many ::
  "db_env \<Rightarrow> string \<Rightarrow> string list option \<Rightarrow> string option \<Rightarrow> jsrec list \<Rightarrow> memory_db \<Rightarrow> (db_error + jsrec list) \<times> memory_db" where
  "mem_create_many env model sel ns [] s = (Inr [], s)"
| "mem_create_many env model sel ns (r # rs) s =
     (case mem_create env \<lparr>cp_model = model, cp_data = r, cp_select = sel, cp_namespace = ns\<rparr> s of
        (Inl e, s1) \<Rightarrow> (Inl e, s1)
      | (Inr x, s1) \<Rightarrow> (case mem_create_many env model sel ns rs s1 of (xs, s2) \<Rightarrow> (bind_sum xs (\<lambda>ys. Inr (x # ys)), s2)))"

definition hits :: "db_env \<Rightarrow> where_clause list \<Rightarrow> jsval \<times> jsrec \<Rightarrow> bool" where
  "hits env w row = matches_where (de_dtoa env) w (snd row)"

definition model_table :: "db_env \<Rightarrow> string \<Rightarrow> memory_db \<Rightarrow> table" where
  "model_table env model s = table_of (get_model_name (de_naming env) model) s"

definition put_model :: "db_env \<Rightarrow> string \<Rightarrow> table \<Rightarrow> memory_db \<Rightarrow> memory_db" where
  "put_model env model t s =
     (if jmap_has (md_store s) (get_model_name (de_naming env) model)
      then put_table (get_model_name (de_naming env) model) t s else s)"

definition mem_find_one :: "db_env \<Rightarrow> find_one_params \<Rightarrow> memory_db \<Rightarrow> jsrec option" where
  "mem_find_one env p s =
     map_option (\<lambda>row. select_fields (fp_select p) (snd row)) (find (hits env (fp_where p)) (model_table env (fp_model p) s))"

definition page :: "jsnum option \<Rightarrow> jsnum option \<Rightarrow> 'a list \<Rightarrow> 'a list" where
  "page off lmt xs =
     (let ys = (case off of None \<Rightarrow> xs | Some n \<Rightarrow> if num_truthy n then js_slice n PInf xs else xs)
      in case lmt of None \<Rightarrow> ys | Some n \<Rightarrow> if num_truthy n then js_slice (Fin 0) n ys else ys)"

definition mem_find_many :: "db_env \<Rightarrow> find_many_params \<Rightarrow> memory_db \<Rightarrow> jsrec list" where
  "mem_find_many env p s =
     (let found = map snd (filter (hits env (fp_where p)) (model_table env (fp_model p) s));
          ordered = (case fp_order p of None \<Rightarrow> found | Some obs \<Rightarrow> apply_ordering (de_dtoa env) obs found)
      in map (select_fields (fp_select p)) (page (fp_offset p) (fp_limit p) ordered))"

definition mem_update :: "db_env \<Rightarrow> update_params \<Rightarrow> memory_db \<Rightarrow> (db_error + jsrec) \<times> memory_db" where
  "mem_update env p s =
     (if up_where p = [] then (Inl (DbError ''update requires a non-empty where clause; use updateMany to update all rows''), s)
      else
        (case find (hits env (up_where p)) (model_table env (up_model p) s) of
           None \<Rightarrow> (Inl (NotFoundError (up_model p) (up_where p)), s)
         | Some (key, r) \<Rightarrow>
             (let updated = spread r (up_data p)
              in (Inr (select_fields (up_select p) updated),
                  put_model env (up_model p) (jmap_set key updated (model_table env (up_model p) s)) s))))"

definition mem_delete :: "db_env \<Rightarrow> where_params \<Rightarrow> memory_db \<Rightarrow> (db_error + unit) \<times> memory_db" where
  "mem_delete env p s =
     (if wp_where p = [] then (Inl (DbError ''delete requires a non-empty where clause; use deleteMany to delete all rows''), s)
      else
        (case find (hits env (wp_where p)) (model_table env (wp_model p) s) of
           None \<Rightarrow> (Inr (), s)
         | Some (key, r) \<Rightarrow> (Inr (), put_model env (wp_model p) (jmap_del key (model_table env (wp_model p) s)) s)))"

definition mem_update_many :: "db_env \<Rightarrow> update_many_params \<Rightarrow> memory_db \<Rightarrow> nat \<times> memory_db" where
  "mem_update_many env p s =
     (let t = model_table env (um_model p) s
      in (length (filter (hits env (um_where p)) t),
          put_model env (um_model p)
            (map (\<lambda>row. if hits env (um_where p) row then (fst row, spread (snd row) (um_data p)) else row) t) s))"

definition mem_delete_many :: "db_env \<Rightarrow> where_params \<Rightarrow> memory_db \<Rightarrow> nat \<times> memory_db" where
  "mem_delete_many env p s =
     (let t = model_table env (wp_model p) s
      in (length (filter (hits env (wp_where p)) t),
          put_model env (wp_model p) (filter (\<lambda>row. \<not> hits env (wp_where p) row) t) s))"

definition mem_count :: "db_env \<Rightarrow> where_params \<Rightarrow> memory_db \<Rightarrow> nat" where
  "mem_count env p s = length (filter (hits env (wp_where p)) (model_table env (wp_model p) s))"

definition mem_upsert :: "db_env \<Rightarrow> upsert_params \<Rightarrow> memory_db \<Rightarrow> (db_error + jsrec) \<times> memory_db" where
  "mem_upsert env p s =
     (case mem_find_one env \<lparr>fp_model = us_model p, fp_where = us_where p, fp_select = None, fp_namespace = us_namespace p\<rparr> s of
        Some _ \<Rightarrow> mem_update env \<lparr>up_model = us_model p, up_where = us_where p, up_data = us_update p,
                    up_select = us_select p, up_namespace = us_namespace p\<rparr> s
      | None \<Rightarrow> mem_create env \<lparr>cp_model = us_model p, cp_data = us_create p, cp_select = us_select p,
                    cp_namespace = us_namespace p\<rparr> s)"

section \<open>Internal tables\<close>

definition table_name_ok :: "string \<Rightarrow> bool" where
  "table_name_ok name =
     (let rest = drop (length ''__datafn_'') name
      in starts_with name ''__datafn_'' \<and> rest \<noteq> [] \<and>
         list_all (\<lambda>c. is_digit c \<or> c = CHR ''_'' \<or> (97 \<le> (of_char c :: nat) \<and> (of_char c :: nat) \<le> 122)) rest)"

definition internal_clause :: "(rat \<Rightarrow> string) \<Rightarrow> jsrec \<Rightarrow> internal_where \<Rightarrow> db_error + bool" where
  "internal_clause dtoa r c =
     (let v = js_get r (iw_field c); w = iw_value c; op = iw_op c
      in if op = ''eq'' then Inr (value_eq v w)
         else if op = ''ne'' then Inr (\<not> value_eq v w)
         else if op = ''in'' then Inr (case w of JArr vs \<Rightarrow> js_array_includes vs v | _ \<Rightarrow> False)
         else if op = ''not_in'' then Inr (case w of JArr vs \<Rightarrow> \<not> js_array_includes vs v | _ \<Rightarrow> False)
         else if op = ''gt'' then Inr (js_lt dtoa w v)
         else if op = ''gte'' then Inr (js_le dtoa w v)
         else if op = ''lt'' then Inr (js_lt dtoa v w)
         else if op = ''lte'' then Inr (js_le dtoa v w)
         else Inl (DbError (''Unsupported internal CRUD operator: '' @ op)))"

definition internal_match :: "(rat \<Rightarrow> string) \<Rightarrow> internal_where list \<Rightarrow> jsval \<times> jsrec \<Rightarrow> db_error + bool" where
  "internal_match dtoa w row = all_sum (internal_clause dtoa (snd row)) w"

fun first_match :: "('a \<Rightarrow> 'e + bool) \<Rightarrow> 'a list \<Rightarrow> 'e + 'a option" where
  "first_match p [] = Inr None"
| "first_match p (x # xs) = bind_sum (p x) (\<lambda>b. if b then Inr (Some x) else first_match p xs)"

fun filter_sum :: "('a \<Rightarrow> 'e + bool) \<Rightarrow> 'a list \<Rightarrow> 'e + 'a list" where
  "filter_sum p [] = Inr []"
| "filter_sum p (x # xs) = bind_sum (p x) (\<lambda>b. bind_sum (filter_sum p xs) (\<lambda>ys. Inr (if b then x # ys else ys)))"

text \<open>
  The loops of update and delete: a row that matches is replaced by \<open>f\<close> or removed; an error
  ends the loop and leaves what was done before it.
\<close>

fun rewrite_rows :: "('a \<Rightarrow> 'e + bool) \<Rightarrow> ('a \<Rightarrow> 'a list) \<Rightarrow> 'a list \<Rightarrow> ('e + nat) \<times> 'a list" where
  "rewrite_rows p f [] = (Inr 0, [])"
| "rewrite_rows p f (x # xs) =
     (case p x of
        Inl e \<Rightarrow> (Inl e, x # xs)
      | Inr b \<Rightarrow>
          (case rewrite_rows p f xs of
             (n, ys) \<Rightarrow> (bind_sum n (\<lambda>k. Inr (if b then Suc k else k)), (if b then f x else [x]) @ ys)))"

definition internal_table :: "string \<Rightarrow> memory_db \<Rightarrow> table" where
  "internal_table name s = (case jmap_get (md_internal s) name of None \<Rightarrow> [] | Some t \<Rightarrow> t)"

definition put_internal :: "string \<Rightarrow> table \<Rightarrow> memory_db \<Rightarrow> memory_db" where
  "put_internal name t s = s\<lparr>md_internal := jmap_set name t (md_internal s)\<rparr>"

definition internal_create :: "db_env \<Rightarrow> string \<Rightarrow> jsrec \<Rightarrow> memory_db \<Rightarrow> jsrec \<times> memory_db" where
  "internal_create env name r s =
     (let (id, s1) = id_or_new env r s; stored = jmap_set ''id'' id r
      in (stored, put_internal name (jmap_set id stored (internal_table name s1)) s1))"

fun internal_create_many :: "db_env \<Rightarrow> string \<Rightarrow> jsrec list \<Rightarrow> memory_db \<Rightarrow> jsrec list \<times> memory_db" where
  "internal_create_many env name [] s = ([], s)"
| "internal_create_many env name (r # rs) s =
     (case internal_create env name r s of
        (x, s1) \<Rightarrow> (case internal_create_many env name rs s1 of (xs, s2) \<Rightarrow> (x # xs, s2)))"

definition internal_order :: "string option \<Rightarrow> order_by list option" where
  "internal_order ob =
     (case ob of
        None \<Rightarrow> None
      | Some f \<Rightarrow>
          if f = [] then None
          else if starts_with f ''-'' then Some [\<lparr>ob_field = tl f, ob_ascending = False\<rparr>]
          else Some [\<lparr>ob_field = f, ob_ascending = True\<rparr>])"

definition internal_rewrite ::
  "db_env \<Rightarrow> string \<Rightarrow> internal_where list \<Rightarrow> (jsval \<times> jsrec \<Rightarrow> (jsval \<times> jsrec) list) \<Rightarrow> memory_db \<Rightarrow> (db_error + nat) \<times> memory_db" where
  "internal_rewrite env name w f s =
     (case jmap_get (md_internal s) name of
        None \<Rightarrow> (Inr 0, s)
      | Some t \<Rightarrow> (case rewrite_rows (internal_match (de_dtoa env) w) f t of (n, t') \<Rightarrow> (n, put_internal name t' s)))"

fun internal_crud :: "db_env \<Rightarrow> internal_op \<Rightarrow> memory_db \<Rightarrow> (db_error + db_answer) \<times> memory_db" where
  "internal_crud env (EnsureTable name) s =
     (if \<not> table_name_ok name then
        (Inl (DbError (''ensureTable: table name must start with '' @ [CHR 0x22] @ ''__datafn_'' @ [CHR 0x22] @ '': '' @
           [CHR 0x22] @ name @ [CHR 0x22])), s)
      else if name \<in> set (md_ensured s) then (Inr Void, s)
      else (Inr Void, (if jmap_has (md_internal s) name then s else put_internal name [] s)\<lparr>md_ensured := jset_add name (md_ensured s)\<rparr>))"
| "internal_crud env (InternalCreate name r) s = (case internal_create env name r s of (x, s') \<Rightarrow> (Inr (Record x), s'))"
| "internal_crud env (InternalCreateMany name rs) s =
     (case internal_create_many env name rs (if jmap_has (md_internal s) name then s else put_internal name [] s) of
        (xs, s') \<Rightarrow> (Inr (Records xs), s'))"
| "internal_crud env (InternalFindOne name w) s =
     (bind_sum (first_match (internal_match (de_dtoa env) w) (internal_table name s))
        (\<lambda>found. Inr (case found of None \<Rightarrow> NoRecord | Some row \<Rightarrow> Record (snd row))), s)"
| "internal_crud env (InternalFindMany name w ob lmt) s =
     (bind_sum (filter_sum (internal_match (de_dtoa env) w) (internal_table name s))
        (\<lambda>found.
           let rs = map snd found;
               ordered = (case internal_order ob of None \<Rightarrow> rs | Some obs \<Rightarrow> apply_ordering (de_dtoa env) obs rs)
           in Inr (Records (case lmt of None \<Rightarrow> ordered | Some n \<Rightarrow> js_slice (Fin 0) n ordered))), s)"
| "internal_crud env (InternalUpdate name w r) s =
     (case internal_rewrite env name w (\<lambda>row. [(fst row, spread (snd row) r)]) s of (n, s') \<Rightarrow> (map_sum id Counted n, s'))"
| "internal_crud env (InternalDelete name w) s =
     (case internal_rewrite env name w (\<lambda>row. []) s of (n, s') \<Rightarrow> (map_sum id Counted n, s'))"

section \<open>The adapter the factory returns\<close>

text \<open>\<open>transformInput\<close> of a record to create: a random id unless it has one.\<close>

definition with_id :: "db_env \<Rightarrow> jsrec \<Rightarrow> memory_db \<Rightarrow> jsrec \<times> memory_db" where
  "with_id env r s =
     (if js_truthy (js_get r ''id'') then (r, s)
      else (jmap_set ''id'' (JStr (de_uuid env (md_fresh s))) r, s\<lparr>md_fresh := Suc (md_fresh s)\<rparr>))"

fun with_ids :: "db_env \<Rightarrow> jsrec list \<Rightarrow> memory_db \<Rightarrow> jsrec list \<times> memory_db" where
  "with_ids env [] s = ([], s)"
| "with_ids env (r # rs) s =
     (case with_id env r s of (x, s1) \<Rightarrow> (case with_ids env rs s1 of (xs, s2) \<Rightarrow> (x # xs, s2)))"

abbreviation answered :: "('a \<Rightarrow> db_answer) \<Rightarrow> (db_error + 'a) \<times> memory_db \<Rightarrow> (db_error + db_answer) \<times> memory_db" where
  "answered f \<equiv> apfst (map_sum id f)"

fun memory_db_adapter :: "db_env \<Rightarrow> memory_db adapter" where
  "memory_db_adapter env (DbCreate p) s =
     (case with_id env (cp_data p) s of (r, s1) \<Rightarrow> answered Record (mem_create env (p\<lparr>cp_data := r\<rparr>) s1))"
| "memory_db_adapter env (DbCreateMany p) s =
     (case with_ids env (cm_data p) s of
        (rs, s1) \<Rightarrow> answered Records (mem_create_many env (cm_model p) (cm_select p) (cm_namespace p) rs s1))"
| "memory_db_adapter env (DbFindOne p) s =
     (Inr (case mem_find_one env p s of None \<Rightarrow> NoRecord | Some r \<Rightarrow> Record r), s)"
| "memory_db_adapter env (DbFindMany p) s = (Inr (Records (mem_find_many env p s)), s)"
| "memory_db_adapter env (DbUpdate p) s = answered Record (mem_update env p s)"
| "memory_db_adapter env (DbUpdateMany p) s = apfst (\<lambda>n. Inr (Counted n)) (mem_update_many env p s)"
| "memory_db_adapter env (DbDelete p) s = answered (\<lambda>_. Void) (mem_delete env p s)"
| "memory_db_adapter env (DbDeleteMany p) s = apfst (\<lambda>n. Inr (Counted n)) (mem_delete_many env p s)"
| "memory_db_adapter env (DbUpsert p) s =
     (case with_id env (us_create p) s of (r, s1) \<Rightarrow> answered Record (mem_upsert env (p\<lparr>us_create := r\<rparr>) s1))"
| "memory_db_adapter env (DbCount p) s = (Inr (Counted (mem_count env p s)), s)"
| "memory_db_adapter env (DbGetVersion ns) s =
     (Inr (Version (case jmap_get (md_versions s) ns of None \<Rightarrow> Fin 0 | Some v \<Rightarrow> v)), s)"
| "memory_db_adapter env (DbSetVersion ns v) s = (Inr Void, s\<lparr>md_versions := jmap_set ns v (md_versions s)\<rparr>)"
| "memory_db_adapter env (DbInternal c) s = internal_crud env c s"

definition empty_db :: memory_db where
  "empty_db = \<lparr>md_store = [], md_versions = [], md_internal = [], md_ensured = [], md_fresh = 0\<rparr>"

definition db_close :: "memory_db \<Rightarrow> memory_db" where
  "db_close s = s\<lparr>md_store := [], md_versions := []\<rparr>"

section \<open>Transactions\<close>

text \<open>
  A transaction's callback is a program over the adapter it is given: it calls operations, sees
  their answers, errors included, may call \<open>commit\<close> and \<open>rollback\<close>, and returns or throws.
\<close>

datatype 'r tx_body =
    TxReturn 'r
  | TxThrow db_error
  | TxCall db_op "db_error + db_answer \<Rightarrow> 'r tx_body"
  | TxCommit "'r tx_body"
  | TxRollback "'r tx_body"

text \<open>\<open>restoreStore\<close> and the internal \<open>restore\<close>; ids that were drawn stay drawn.\<close>

definition restore :: "memory_db \<Rightarrow> memory_db \<Rightarrow> memory_db" where
  "restore snap s = snap\<lparr>md_fresh := md_fresh s\<rparr>"

primrec run_tx :: "memory_db adapter \<Rightarrow> memory_db \<Rightarrow> 'r tx_body \<Rightarrow> bool \<Rightarrow> memory_db \<Rightarrow> (db_error + 'r) \<times> bool \<times> memory_db" where
  "run_tx ad snap (TxReturn r) = (\<lambda>rolled_back s. (Inr r, rolled_back, s))"
| "run_tx ad snap (TxThrow e) = (\<lambda>rolled_back s. (Inl e, rolled_back, s))"
| "run_tx ad snap (TxCall op k) = (\<lambda>rolled_back s. run_tx ad snap (k (fst (ad op s))) rolled_back (snd (ad op s)))"
| "run_tx ad snap (TxCommit body) = (\<lambda>rolled_back s. run_tx ad snap body rolled_back s)"
| "run_tx ad snap (TxRollback body) = (\<lambda>rolled_back s. run_tx ad snap body True (restore snap s))"

definition db_transaction :: "memory_db adapter \<Rightarrow> string option \<Rightarrow> 'r tx_body \<Rightarrow> memory_db \<Rightarrow> (db_error + 'r) \<times> memory_db" where
  "db_transaction ad isolation body s =
     (case isolation of
        Some level \<Rightarrow> (Inl (DbError (''Requested transaction isolation is unsupported: '' @ level)), s)
      | None \<Rightarrow>
          (case run_tx ad s body False s of
             (Inr r, rolled_back, s') \<Rightarrow> (Inr r, s')
           | (Inl e, rolled_back, s') \<Rightarrow> (Inl e, if rolled_back then s' else restore s s')))"

end
