(* ===== verification/DbInvariant.thy ===== *)
theory DbInvariant
  imports DbMemory
begin

text \<open>
  The state invariant of the in-memory database, the tables after each operation, and the
  uniqueness of keys: no operation, no sequence and no transaction gives a table two records
  under one key.
\<close>

section \<open>Tables\<close>

lemma js_join_snoc: "xs \<noteq> [] \<Longrightarrow> js_join sep (xs @ [x]) = js_join sep xs @ sep @ x"
proof (induction xs)
  case (Cons y ys)
  then show ?case by (cases ys) auto
qed simp

lemma ns_apply_enabled: "nc_enabled cfg \<Longrightarrow> ns_apply cfg l t = js_join (ns_separator cfg) (prefix_part cfg @ [l]) @ ns_separator cfg @ t"
  using js_join_snoc [of "prefix_part cfg @ [l]" "ns_separator cfg" t] by (simp add: ns_apply_def)

lemma get_model_name_inj [simp]: "get_model_name cfg m = get_model_name cfg n \<longleftrightarrow> m = n"
  by (auto simp: get_model_name_def ns_apply_enabled)

lemma table_of_put [simp]: "table_of n (put_table m t s) = (if n = m then t else table_of n s)"
  by (simp add: table_of_def put_table_def jmap_simps)

lemma has_put [simp]: "jmap_has (md_store (put_table m t s)) n \<longleftrightarrow> n = m \<or> jmap_has (md_store s) n"
  by (auto simp: put_table_def jmap_simps)

lemma table_of_absent: "\<not> jmap_has (md_store s) n \<Longrightarrow> table_of n s = []"
  by (simp add: table_of_def)

lemma table_of_fresh [simp]: "table_of n (s\<lparr>md_fresh := k\<rparr>) = table_of n s"
  by (simp add: table_of_def)

lemma model_table_put:
  "t = [] \<or> model_table env m s \<noteq> [] \<Longrightarrow>
   model_table env n (put_model env m t s) = (if n = m then t else model_table env n s)"
  by (auto simp: model_table_def put_model_def table_of_absent)

lemma jmap_set_same: "jmap_get m k = Some v \<Longrightarrow> jmap_set k v m = m"
  by (induction m) (auto split: if_splits)

lemma jmap_set_row: "jmap_ok t \<Longrightarrow> (k, r) \<in> set t \<Longrightarrow>
  jmap_set k v t = concat (map (\<lambda>row. if row = (k, r) then [(k, v)] else [row]) t)"
proof (induction t)
  case (Cons p t)
  have same: "concat (map (\<lambda>row. if row = (k, r) then [(k, v)] else [row]) t) = t" if "k \<notin> fst ` set t"
    using that by (induction t) auto
  show ?case using Cons same by (cases p) (auto simp: rev_image_eqI)
qed simp

lemma jmap_del_row: "jmap_ok t \<Longrightarrow> (k, r) \<in> set t \<Longrightarrow>
  jmap_del k t = concat (map (\<lambda>row. if row = (k, r) then [] else [row]) t)"
proof (induction t)
  case (Cons p t)
  have same: "concat (map (\<lambda>row. if row = (k, r) then [] else [row]) t) = t" "jmap_del k t = t" if "k \<notin> fst ` set t"
    using that by (induction t) (auto simp: delete_idem)
  show ?case using Cons same by (cases p) (auto simp: rev_image_eqI)
qed simp

lemma find_filter: "find p xs = (case filter p xs of [] \<Rightarrow> None | x # _ \<Rightarrow> Some x)"
  by (induction xs) auto

section \<open>The invariant\<close>

definition tables_ok :: "(string, table) jmap \<Rightarrow> bool" where
  "tables_ok store = list_all (\<lambda>(name, t). jmap_ok t) store"

definition db_ok :: "memory_db \<Rightarrow> bool" where
  "db_ok s = (tables_ok (md_store s) \<and> tables_ok (md_internal s))"

lemma tables_ok_get: "tables_ok store \<Longrightarrow> jmap_get store n = Some t \<Longrightarrow> jmap_ok t"
  by (auto simp: tables_ok_def list_all_iff dest: map_of_SomeD)

lemma tables_ok_set [simp]: "tables_ok store \<Longrightarrow> jmap_ok t \<Longrightarrow> tables_ok (jmap_set n t store)"
  by (induction store) (auto simp: tables_ok_def)

lemma table_ok: "db_ok s \<Longrightarrow> jmap_ok (table_of n s)"
  by (auto simp: db_ok_def table_of_def dest: tables_ok_get split: option.split)

lemma model_table_ok: "db_ok s \<Longrightarrow> jmap_ok (model_table env m s)"
  by (simp add: model_table_def table_ok)

lemma internal_table_ok: "db_ok s \<Longrightarrow> jmap_ok (internal_table n s)"
  by (auto simp: db_ok_def internal_table_def dest: tables_ok_get split: option.split)

lemma put_table_ok [simp]: "db_ok s \<Longrightarrow> jmap_ok t \<Longrightarrow> db_ok (put_table n t s)"
  by (simp add: db_ok_def put_table_def)

lemma put_model_ok [simp]: "db_ok s \<Longrightarrow> jmap_ok t \<Longrightarrow> db_ok (put_model env n t s)"
  by (simp add: put_model_def)

lemma put_internal_ok [simp]: "db_ok s \<Longrightarrow> jmap_ok t \<Longrightarrow> db_ok (put_internal n t s)"
  by (simp add: db_ok_def put_internal_def)

lemma fresh_ok [simp]: "db_ok (s\<lparr>md_fresh := k\<rparr>) = db_ok s"
  by (simp add: db_ok_def)

lemma id_or_new_ok: "id_or_new env r s = (i, s') \<Longrightarrow> db_ok s \<Longrightarrow> db_ok s'"
  by (auto simp: id_or_new_def split: if_splits)

lemma mem_create_ok: "db_ok s \<Longrightarrow> db_ok (snd (mem_create env p s))"
  by (auto simp: mem_create_def Let_def table_ok dest: id_or_new_ok split: prod.split)

lemma mem_create_many_ok: "db_ok s \<Longrightarrow> db_ok (snd (mem_create_many env m sel ns rs s))"
proof (induction rs arbitrary: s)
  case (Cons r rs)
  obtain x s1 where 1: "mem_create env \<lparr>cp_model = m, cp_data = r, cp_select = sel, cp_namespace = ns\<rparr> s = (x, s1)" by fastforce
  obtain xs s2 where 2: "mem_create_many env m sel ns rs s1 = (xs, s2)" by fastforce
  have ok1: "db_ok s1" using mem_create_ok [OF Cons.prems, of env] 1 by (metis snd_conv)
  from Cons.IH [OF ok1] ok1 show ?case by (cases x) (simp_all add: 1 2)
qed simp

lemma mem_update_ok: "db_ok s \<Longrightarrow> db_ok (snd (mem_update env p s))"
  by (auto simp: mem_update_def Let_def model_table_ok split: option.split)

lemma filter_map_keys: "jmap_ok t \<Longrightarrow> jmap_ok (filter p t)"
  by (simp add: distinct_map_filter)

lemma mem_update_many_ok: "db_ok s \<Longrightarrow> db_ok (snd (mem_update_many env p s))"
proof -
  assume ok: "db_ok s"
  have "map fst (map (\<lambda>row. if hits env (um_where p) row then (fst row, spread (snd row) (um_data p)) else row) t) = map fst t" for t
    by (induction t) auto
  then show ?thesis using ok model_table_ok [OF ok, of env "um_model p"]
    unfolding mem_update_many_def Let_def snd_conv by (intro put_model_ok) (simp_all only:)
qed

lemma rewrite_rows_keys: "snd (rewrite_rows p f xs) = ys \<Longrightarrow> (\<And>x y. y \<in> set (f x) \<Longrightarrow> fst y = fst x) \<Longrightarrow>
  (\<And>x. length (f x) \<le> 1) \<Longrightarrow> subseq (map fst ys) (map fst xs)"
proof (induction xs arbitrary: ys)
  case (Cons x xs)
  have f: "f x = [] \<or> (\<exists>y. f x = [y] \<and> fst y = fst x)"
    using Cons.prems(2) [of _ x] Cons.prems(3) [of x] by (cases "f x") auto
  have "subseq (map fst (snd (rewrite_rows p f xs))) (map fst xs)" by (rule Cons.IH) (use Cons.prems in auto)
  then show ?case using Cons.prems(1) f by (auto split: sum.splits prod.splits if_splits)
qed simp

lemma internal_rewrite_ok:
  assumes "db_ok s" and "\<And>x y. y \<in> set (f x) \<Longrightarrow> fst y = fst x" and "\<And>x. length (f x) \<le> 1"
  shows "db_ok (snd (internal_rewrite env n w f s))"
proof (cases "jmap_get (md_internal s) n")
  case (Some t)
  then have "jmap_ok t" using assms(1) by (auto simp: db_ok_def dest: tables_ok_get)
  moreover have "subseq (map fst (snd (rewrite_rows (internal_match (de_dtoa env) w) f t))) (map fst t)"
    by (rule rewrite_rows_keys [OF refl]) (use assms in auto)
  ultimately have "jmap_ok (snd (rewrite_rows (internal_match (de_dtoa env) w) f t))"
    by (metis in_set_subseqs subseqs_distinctD)
  then show ?thesis using assms(1) Some by (simp add: internal_rewrite_def case_prod_beta)
qed (simp add: internal_rewrite_def assms)

lemma internal_create_ok: "db_ok s \<Longrightarrow> db_ok (snd (internal_create env n r s))"
  by (auto simp: internal_create_def Let_def internal_table_ok dest: id_or_new_ok split: prod.split)

lemma internal_create_many_ok: "db_ok s \<Longrightarrow> db_ok (snd (internal_create_many env n rs s))"
proof (induction rs arbitrary: s)
  case (Cons r rs)
  obtain x s1 where 1: "internal_create env n r s = (x, s1)" by fastforce
  obtain xs s2 where 2: "internal_create_many env n rs s1 = (xs, s2)" by fastforce
  have "db_ok s1" using internal_create_ok [OF Cons.prems, of env n r] 1 by simp
  from Cons.IH [OF this] show ?case by (simp add: 1 2)
qed simp

lemma internal_crud_ok: "db_ok s \<Longrightarrow> db_ok (snd (internal_crud env c s))"
proof (cases c)
  case (EnsureTable n)
  have ensured: "db_ok (t\<lparr>md_ensured := x\<rparr>) = db_ok t" for t x by (simp add: db_ok_def)
  assume "db_ok s"
  then show ?thesis by (simp add: EnsureTable ensured)
next
  case (InternalCreate n r)
  assume "db_ok s"
  from internal_create_ok [OF this, of env n r] show ?thesis by (simp add: InternalCreate case_prod_beta)
next
  case (InternalCreateMany n rs)
  assume "db_ok s"
  then have "db_ok (if jmap_has (md_internal s) n then s else put_internal n [] s)" by simp
  from internal_create_many_ok [OF this, of env n rs] show ?thesis
    by (simp only: InternalCreateMany internal_crud.simps case_prod_beta snd_conv)
next
  case (InternalUpdate n w r)
  assume "db_ok s"
  from internal_rewrite_ok [OF this, of "\<lambda>row. [(fst row, spread (snd row) r)]" env n w] show ?thesis
    by (simp add: InternalUpdate case_prod_beta)
next
  case (InternalDelete n w)
  assume "db_ok s"
  from internal_rewrite_ok [OF this, of "\<lambda>row. []" env n w] show ?thesis by (simp add: InternalDelete case_prod_beta)
qed auto

lemma with_id_ok: "with_id env r s = (r', s') \<Longrightarrow> db_ok s \<Longrightarrow> db_ok s'"
  by (auto simp: with_id_def split: if_splits)

lemma with_ids_ok: "with_ids env rs s = (rs', s') \<Longrightarrow> db_ok s \<Longrightarrow> db_ok s'"
  by (induction rs arbitrary: s rs') (auto split: prod.splits dest: with_id_ok)

lemma mem_upsert_ok: "db_ok s \<Longrightarrow> db_ok (snd (mem_upsert env p s))"
  by (auto simp: mem_upsert_def mem_update_ok mem_create_ok split: option.split)

lemma memory_adapter_ok: "db_ok s \<Longrightarrow> db_ok (snd (memory_db_adapter env op s))"
proof (cases op)
  case (DbCreate p)
  assume "db_ok s"
  then show ?thesis using with_id_ok [of env "cp_data p" s] by (auto simp: DbCreate mem_create_ok split: prod.split)
next
  case (DbCreateMany p)
  assume "db_ok s"
  then show ?thesis using with_ids_ok [of env "cm_data p" s] by (auto simp: DbCreateMany mem_create_many_ok split: prod.split)
next
  case (DbUpsert p)
  assume "db_ok s"
  then show ?thesis using with_id_ok [of env "us_create p" s] by (auto simp: DbUpsert mem_upsert_ok split: prod.split)
next
  case (DbDelete p)
  assume "db_ok s"
  then show ?thesis by (auto simp: DbDelete mem_delete_def model_table_ok split: option.split)
next
  case (DbSetVersion ns v)
  assume "db_ok s"
  then show ?thesis by (simp add: DbSetVersion db_ok_def)
qed (auto simp: mem_update_ok mem_update_many_ok internal_crud_ok mem_delete_many_def Let_def filter_map_keys model_table_ok)

lemma restore_ok: "db_ok snap \<Longrightarrow> db_ok (restore snap s)"
  by (simp add: restore_def)

lemma run_tx_ok:
  assumes "\<And>op s. db_ok s \<Longrightarrow> db_ok (snd (ad op s))" and "db_ok snap"
  shows "db_ok s \<Longrightarrow> db_ok (snd (snd (run_tx ad snap body rb s)))"
  by (induction body arbitrary: rb s) (auto simp: assms restore_ok)

lemma transaction_ok:
  assumes "\<And>op s. db_ok s \<Longrightarrow> db_ok (snd (ad op s))" and "db_ok s"
  shows "db_ok (snd (db_transaction ad level body s))"
proof -
  have "db_ok (snd (snd (run_tx ad s body False s)))" by (rule run_tx_ok) (use assms in auto)
  then show ?thesis using assms(2) by (auto simp: db_transaction_def restore_ok split: option.split prod.split sum.split)
qed

section \<open>Creating records with given ids\<close>

text \<open>Inserting records one after the other until an id is taken.\<close>

fun insert_rows :: "jsrec list \<Rightarrow> table \<Rightarrow> jsval option \<times> table" where
  "insert_rows [] t = (None, t)"
| "insert_rows (r # rs) t =
     (if jmap_has t (js_get r ''id'') then (Some (js_get r ''id''), t)
      else insert_rows rs (t @ [(js_get r ''id'', r)]))"

lemma with_id_given [simp]: "js_truthy (js_get r ''id'') \<Longrightarrow> with_id env r s = (r, s)"
  by (simp add: with_id_def)

lemma with_ids_given [simp]: "\<forall>r \<in> set rs. js_truthy (js_get r ''id'') \<Longrightarrow> with_ids env rs s = (rs, s)"
  by (induction rs) auto

definition unique_error :: "db_env \<Rightarrow> string \<Rightarrow> jsval \<Rightarrow> db_error" where
  "unique_error env model x =
     DbError (''UNIQUE constraint failed: record with id '' @ [CHR 0x22] @ js_string (de_dtoa env) x @ [CHR 0x22] @
       '' already exists in '' @ get_model_name (de_naming env) model)"

lemma get_truthy: "js_truthy (js_get r k) \<Longrightarrow> jmap_set k (js_get r k) r = r"
  by (rule jmap_set_same) (auto simp: js_get_def js_truthy_def split: option.splits)

lemma mem_create_cases:
  assumes "js_truthy (js_get (cp_data p) ''id'')"
  shows "fst (mem_create env p s) = (if jmap_has (model_table env (cp_model p) s) (js_get (cp_data p) ''id'')
      then Inl (unique_error env (cp_model p) (js_get (cp_data p) ''id'')) else Inr (select_fields (cp_select p) (cp_data p)))"
    and "model_table env m (snd (mem_create env p s)) = (if m = cp_model p \<and> \<not> jmap_has (model_table env m s) (js_get (cp_data p) ''id'')
      then model_table env m s @ [(js_get (cp_data p) ''id'', cp_data p)] else model_table env m s)"
proof -
  have none: "jmap_get (md_store s) n = None \<Longrightarrow> table_of n s = []" for n by (simp add: table_of_def)
  then have t: "table_of n (if jmap_has (md_store s) name then s else put_table name [] s) = table_of n s" for n name
    by simp
  show "fst (mem_create env p s) = (if jmap_has (model_table env (cp_model p) s) (js_get (cp_data p) ''id'')
      then Inl (unique_error env (cp_model p) (js_get (cp_data p) ''id'')) else Inr (select_fields (cp_select p) (cp_data p)))"
    using assms unfolding mem_create_def Let_def id_or_new_def model_table_def by (simp add: t none get_truthy unique_error_def)
  show "model_table env m (snd (mem_create env p s)) = (if m = cp_model p \<and> \<not> jmap_has (model_table env m s) (js_get (cp_data p) ''id'')
      then model_table env m s @ [(js_get (cp_data p) ''id'', cp_data p)] else model_table env m s)"
    using assms unfolding mem_create_def Let_def id_or_new_def model_table_def by (auto simp add: t none get_truthy jmap_set_absent)
qed

lemma mem_create_many_cases:
  assumes "\<forall>r \<in> set rs. js_truthy (js_get r ''id'')"
  shows "fst (mem_create_many env m sel ns rs s) = (case fst (insert_rows rs (model_table env m s)) of
      None \<Rightarrow> Inr (map (select_fields sel) rs) | Some x \<Rightarrow> Inl (unique_error env m x)) \<and>
    model_table env m' (snd (mem_create_many env m sel ns rs s)) =
      (if m' = m then snd (insert_rows rs (model_table env m s)) else model_table env m' s)"
  using assms
proof (induction rs arbitrary: s)
  case (Cons r rs)
  let ?p = "\<lparr>cp_model = m, cp_data = r, cp_select = sel, cp_namespace = ns\<rparr>"
  obtain x s1 where 1: "mem_create env ?p s = (x, s1)" by fastforce
  obtain xs s2 where 2: "mem_create_many env m sel ns rs s1 = (xs, s2)" by fastforce
  have truthy: "js_truthy (js_get (cp_data ?p) ''id'')" using Cons.prems by simp
  note c = mem_create_cases [OF truthy, where env = env and s = s, unfolded 1]
  have ih: "fst (mem_create_many env m sel ns rs s1) = (case fst (insert_rows rs (model_table env m s1)) of
      None \<Rightarrow> Inr (map (select_fields sel) rs) | Some x \<Rightarrow> Inl (unique_error env m x)) \<and>
    model_table env m' (snd (mem_create_many env m sel ns rs s1)) =
      (if m' = m then snd (insert_rows rs (model_table env m s1)) else model_table env m' s1)"
    using Cons by simp
  show ?case
  proof (cases "jmap_has (model_table env m s) (js_get r ''id'')")
    case True
    then show ?thesis using c by (auto simp: 1)
  next
    case False
    then show ?thesis using c ih by (auto simp: 1 2 split: option.splits)
  qed
qed simp

lemma found_row: "find p t = Some row \<Longrightarrow> row \<in> set t \<and> p row"
  by (metis find_Some_iff nth_mem)

lemma same_find: "filter p t = filter p u \<Longrightarrow> find p t = find p u"
  by (simp add: find_filter)

end
