(* ===== verification/DbProperties.thy ===== *)
theory DbProperties
  imports DbInvariant
begin

text \<open>
  What the in-memory database adapter guarantees: transactions are all or nothing, ids are
  unique, a created record is found again, a failing batch keeps its prefix, queries return the
  ordered page they are asked for; and the naming of tables. Where the code departs from its
  intent the statement says what it does.
\<close>

section \<open>Transactions\<close>

text \<open>The callback run on the adapter directly, outside any transaction.\<close>

primrec run_direct :: "memory_db adapter \<Rightarrow> 'r tx_body \<Rightarrow> memory_db \<Rightarrow> (db_error + 'r) \<times> memory_db" where
  "run_direct ad (TxReturn r) = (\<lambda>s. (Inr r, s))"
| "run_direct ad (TxThrow e) = (\<lambda>s. (Inl e, s))"
| "run_direct ad (TxCall op k) = (\<lambda>s. run_direct ad (k (fst (ad op s))) (snd (ad op s)))"
| "run_direct ad (TxCommit body) = (\<lambda>s. run_direct ad body s)"
| "run_direct ad (TxRollback body) = (\<lambda>s. run_direct ad body s)"

primrec no_rollback :: "'r tx_body \<Rightarrow> bool" where
  "no_rollback (TxReturn r) = True"
| "no_rollback (TxThrow e) = True"
| "no_rollback (TxCall op k) = (\<forall>x. no_rollback (k x))"
| "no_rollback (TxCommit body) = no_rollback body"
| "no_rollback (TxRollback body) = False"

lemma run_tx_direct: "no_rollback body \<Longrightarrow> run_tx ad snap body rb s =
  (fst (run_direct ad body s), rb, snd (run_direct ad body s))"
  by (induction body arbitrary: s) auto

section \<open>Unique ids\<close>

definition ids_match :: "memory_db \<Rightarrow> bool" where
  "ids_match s = list_all (\<lambda>(name, t). list_all (\<lambda>(k, r). js_get r ''id'' = k) t) (md_store s)"

fun keeps_ids :: "db_op \<Rightarrow> bool" where
  "keeps_ids (DbUpdate p) = (''id'' \<notin> set (jmap_keys (up_data p)))"
| "keeps_ids (DbUpdateMany p) = (''id'' \<notin> set (jmap_keys (um_data p)))"
| "keeps_ids (DbUpsert p) = (''id'' \<notin> set (jmap_keys (us_update p)))"
| "keeps_ids _ = True"

primrec body_keeps_ids :: "'r tx_body \<Rightarrow> bool" where
  "body_keeps_ids (TxReturn r) = True"
| "body_keeps_ids (TxThrow e) = True"
| "body_keeps_ids (TxCall op k) = (keeps_ids op \<and> (\<forall>x. body_keeps_ids (k x)))"
| "body_keeps_ids (TxCommit body) = body_keeps_ids body"
| "body_keeps_ids (TxRollback body) = body_keeps_ids body"

inductive db_reachable :: "db_env \<Rightarrow> memory_db \<Rightarrow> bool" for env where
  start: "db_reachable env empty_db"
| call: "db_reachable env s \<Longrightarrow> keeps_ids op \<Longrightarrow> db_reachable env (snd (memory_db_adapter env op s))"
| transact: "db_reachable env s \<Longrightarrow> body_keeps_ids body \<Longrightarrow>
    db_reachable env (snd (db_transaction (memory_db_adapter env) level (body :: db_answer tx_body) s))"
| close: "db_reachable env s \<Longrightarrow> db_reachable env (db_close s)"

lemma ids_match_table: "ids_match s \<Longrightarrow> (k, r) \<in> set (table_of n s) \<Longrightarrow> js_get r ''id'' = k"
proof (cases "jmap_get (md_store s) n")
  case (Some t)
  then have "(n, t) \<in> set (md_store s)" by (rule map_of_SomeD)
  then show "ids_match s \<Longrightarrow> (k, r) \<in> set (table_of n s) \<Longrightarrow> js_get r ''id'' = k"
    using Some by (auto simp: ids_match_def table_of_def list_all_iff)
qed (simp add: table_of_def)

lemma ids_match_put: "ids_match s \<Longrightarrow> \<forall>(k, r) \<in> set t. js_get r ''id'' = k \<Longrightarrow> ids_match (put_table n t s)"
proof -
  assume s: "ids_match s" and t: "\<forall>(k, r) \<in> set t. js_get r ''id'' = k"
  have "list_all (\<lambda>(name, t). list_all (\<lambda>(k, r). js_get r ''id'' = k) t) (jmap_set n t store)"
    if "list_all (\<lambda>(name, t). list_all (\<lambda>(k, r). js_get r ''id'' = k) t) store" for store
    using that t by (induction store) (auto simp: list_all_iff)
  then show ?thesis using s by (simp add: ids_match_def put_table_def)
qed

lemma ids_match_put_model: "ids_match s \<Longrightarrow> \<forall>(k, r) \<in> set t. js_get r ''id'' = k \<Longrightarrow> ids_match (put_model env m t s)"
  by (simp add: put_model_def ids_match_put)

lemma ids_match_model: "ids_match s \<Longrightarrow> (k, r) \<in> set (model_table env m s) \<Longrightarrow> js_get r ''id'' = k"
  by (simp add: model_table_def ids_match_table)

lemma ids_match_same_store: "md_store s' = md_store s \<Longrightarrow> ids_match s' = ids_match s"
  by (simp add: ids_match_def)

lemma ids_match_updated:
  "\<forall>(k, r) \<in> set t. js_get r ''id'' = k \<Longrightarrow> js_get r' ''id'' = k' \<Longrightarrow> \<forall>(k, r) \<in> set (jmap_set k' r' t). js_get r ''id'' = k"
  by (induction t) auto

lemma id_or_new_store: "id_or_new env r s = (i, s') \<Longrightarrow> md_store s' = md_store s"
  by (auto simp: id_or_new_def split: if_splits)

lemma mem_create_ids: "ids_match s \<Longrightarrow> ids_match (snd (mem_create env p s))"
proof -
  assume s: "ids_match s"
  let ?n = "get_model_name (de_naming env) (cp_model p)"
  let ?s1 = "if jmap_has (md_store s) ?n then s else put_table ?n [] s"
  obtain x s2 where new: "id_or_new env (cp_data p) ?s1 = (x, s2)" by fastforce
  have s2: "ids_match s2" using s ids_match_same_store [OF id_or_new_store [OF new]] by (simp add: ids_match_put)
  then have "ids_match (put_table ?n (jmap_set x (jmap_set ''id'' x (cp_data p)) (table_of ?n s2)) s2)"
    by (intro ids_match_put ids_match_updated) (auto simp: jmap_simps dest: ids_match_table)
  then show ?thesis using s2 unfolding mem_create_def Let_def new by simp
qed

lemma mem_create_many_ids: "ids_match s \<Longrightarrow> ids_match (snd (mem_create_many env m sel ns rs s))"
proof (induction rs arbitrary: s)
  case (Cons r rs)
  obtain x s1 where 1: "mem_create env \<lparr>cp_model = m, cp_data = r, cp_select = sel, cp_namespace = ns\<rparr> s = (x, s1)" by fastforce
  obtain xs s2 where 2: "mem_create_many env m sel ns rs s1 = (xs, s2)" by fastforce
  have ok1: "ids_match s1" using mem_create_ids [OF Cons.prems, of env] 1 by (metis snd_conv)
  from Cons.IH [OF ok1] ok1 show ?case by (cases x) (simp_all add: 1 2)
qed simp

lemma mem_update_ids:
  assumes "ids_match s" and "''id'' \<notin> set (jmap_keys (up_data p))"
  shows "ids_match (snd (mem_update env p s))"
proof (cases "find (hits env (up_where p)) (model_table env (up_model p) s)")
  case (Some row)
  obtain k r where kr: "row = (k, r)" by (cases row)
  have "js_get r ''id'' = k" using found_row [OF Some] kr ids_match_model [OF assms(1)] by auto
  then have "ids_match (put_model env (up_model p) (jmap_set k (spread r (up_data p)) (model_table env (up_model p) s)) s)"
    by (intro ids_match_put_model ids_match_updated)
      (auto simp: assms(1) js_get_spread [OF assms(2)] dest: ids_match_model [OF assms(1)])
  then show ?thesis using assms(1) Some kr by (simp add: mem_update_def Let_def)
qed (simp add: mem_update_def assms)

lemma internal_store: "md_store (snd (internal_crud env c s)) = md_store s"
proof -
  have create: "md_store (snd (internal_create env n r s)) = md_store s" for n r s
    by (simp add: internal_create_def case_prod_beta Let_def put_internal_def id_or_new_def)
  have many: "md_store (snd (internal_create_many env n rs s)) = md_store s" for n rs s
    by (induction rs arbitrary: s) (simp_all add: case_prod_beta create)
  show ?thesis
    by (cases c) (auto simp: put_internal_def create many case_prod_beta internal_rewrite_def split: option.split)
qed

lemma with_id_store: "md_store (snd (with_id env r s)) = md_store s"
  by (simp add: with_id_def)

lemma with_ids_store: "md_store (snd (with_ids env rs s)) = md_store s"
  by (induction rs arbitrary: s) (simp_all add: case_prod_beta with_id_store)

lemma adapter_ids: "ids_match s \<Longrightarrow> keeps_ids op \<Longrightarrow> ids_match (snd (memory_db_adapter env op s))"
proof (cases op)
  case (DbCreate p)
  assume "ids_match s"
  then show ?thesis
    using ids_match_same_store [OF with_id_store, of env "cp_data p" s] by (simp add: DbCreate case_prod_beta mem_create_ids)
next
  case (DbCreateMany p)
  assume "ids_match s"
  then show ?thesis
    using ids_match_same_store [OF with_ids_store, of env "cm_data p" s] by (simp add: DbCreateMany case_prod_beta mem_create_many_ids)
next
  case (DbUpsert p)
  assume "ids_match s" "keeps_ids op"
  then show ?thesis
    using ids_match_same_store [OF with_id_store, of env "us_create p" s]
    by (simp add: DbUpsert case_prod_beta mem_upsert_def mem_create_ids mem_update_ids split: option.split)
next
  case (DbUpdateMany p)
  assume s: "ids_match s" and k: "keeps_ids op"
  then have "''id'' \<notin> set (jmap_keys (um_data p))" by (simp add: DbUpdateMany)
  note same = js_get_spread [OF this]
  have row: "js_get r ''id'' = k" if "(k, r) \<in> set (model_table env (um_model p) s)" for k r
    by (rule ids_match_model [OF s that])
  show ?thesis
    by (auto simp: DbUpdateMany mem_update_many_def Let_def same row intro!: ids_match_put_model s)
next
  case (DbDelete p)
  assume s: "ids_match s"
  have "set (jmap_del k t) \<subseteq> set t" for k and t :: table by (induction t) auto
  then show ?thesis
    by (auto simp: DbDelete mem_delete_def intro!: ids_match_put_model s dest!: subsetD ids_match_model [OF s] split: option.split)
next
  case (DbDeleteMany p)
  assume s: "ids_match s"
  then show ?thesis
    by (auto simp: DbDeleteMany mem_delete_many_def Let_def intro!: ids_match_put_model dest: ids_match_model)
next
  case (DbInternal c)
  assume "ids_match s"
  then show ?thesis using ids_match_same_store [OF internal_store] by (simp add: DbInternal)
next
  case (DbSetVersion ns v)
  assume "ids_match s"
  then show ?thesis by (simp add: DbSetVersion ids_match_def)
qed (auto simp: mem_update_ids)

lemma restore_ids: "ids_match (restore snap s) = ids_match snap"
  by (simp add: restore_def ids_match_def)

lemma run_tx_ids:
  "body_keeps_ids body \<Longrightarrow> ids_match snap \<Longrightarrow> ids_match s \<Longrightarrow> ids_match (snd (snd (run_tx (memory_db_adapter env) snap body rb s)))"
  by (induction body arbitrary: rb s) (auto simp: adapter_ids restore_ids)

lemma reachable_invariant: "db_reachable env s \<Longrightarrow> db_ok s \<and> ids_match s"
proof (induction rule: db_reachable.induct)
  case start
  show ?case by (simp add: empty_db_def db_ok_def tables_ok_def ids_match_def)
next
  case (call s op)
  then show ?case by (simp add: memory_adapter_ok adapter_ids)
next
  case (transact s body level)
  have "ids_match (snd (snd (run_tx (memory_db_adapter env) s body False s)))"
    using transact by (intro run_tx_ids) auto
  moreover have "db_ok (snd (db_transaction (memory_db_adapter env) level body s))"
    using transact by (intro transaction_ok memory_adapter_ok) auto
  ultimately show ?case using transact
    by (auto simp: db_transaction_def restore_ids split: option.split prod.split sum.split)
next
  case (close s)
  then show ?case by (simp add: db_close_def db_ok_def tables_ok_def ids_match_def)
qed

section \<open>Ordering and pages\<close>

text \<open>Comparing by one key and, on a tie, by the next gives a comparator again.\<close>

lemma lex_flip:
  "(a \<le> 0 \<longleftrightarrow> \<not> b < 0) \<Longrightarrow> (b \<le> 0 \<longleftrightarrow> \<not> a < 0) \<Longrightarrow> (c \<le> 0 \<longleftrightarrow> \<not> d < 0) \<Longrightarrow>
   (if a \<noteq> 0 then a else c) \<le> 0 \<longleftrightarrow> \<not> (if b \<noteq> 0 then b else d) < 0" for a b c d :: int
  by auto

lemma js_comparator_lex:
  assumes "js_comparator c1 ok" and "js_comparator c2 ok"
  shows "js_comparator (\<lambda>a b. if c1 a b \<noteq> 0 then c1 a b else c2 a b) ok"
proof
  note flip1 = js_comparator.cmp_flip [OF assms(1)] and flip2 = js_comparator.cmp_flip [OF assms(2)]
  note trans1 = js_comparator.cmp_trans [OF assms(1)] and trans2 = js_comparator.cmp_trans [OF assms(2)]
  show "(if c1 x y \<noteq> 0 then c1 x y else c2 x y) \<le> 0 \<longleftrightarrow> \<not> (if c1 y x \<noteq> 0 then c1 y x else c2 y x) < 0"
    if "ok x" "ok y" for x y
    by (rule lex_flip) (intro flip1 flip2 that)+
  show "(if c1 x z \<noteq> 0 then c1 x z else c2 x z) \<le> 0"
    if ok: "ok x" "ok y" "ok z" and xy: "(if c1 x y \<noteq> 0 then c1 x y else c2 x y) \<le> 0"
      and yz: "(if c1 y z \<noteq> 0 then c1 y z else c2 y z) \<le> 0" for x y z
  proof -
    from xy yz have le: "c1 x y \<le> 0" "c1 y z \<le> 0" by (auto split: if_splits)
    then have xz: "c1 x z \<le> 0" by (rule trans1 [OF ok])
    show ?thesis
    proof (cases "c1 x z = 0")
      case True
      then have zx: "c1 z x \<le> 0" using flip1 [OF ok(3) ok(1)] by simp
      from trans1 [OF ok(3) ok(1) ok(2) zx le(1)] flip1 [OF ok(3) ok(2)] le(2) have yz0: "c1 y z = 0" by simp
      from trans1 [OF ok(2) ok(3) ok(1) le(2) zx] flip1 [OF ok(2) ok(1)] le(1) have xy0: "c1 x y = 0" by simp
      have "c2 x y \<le> 0" "c2 y z \<le> 0" using xy yz xy0 yz0 by simp_all
      from trans2 [OF ok this] show ?thesis using True by simp
    qed (use xz in simp)
  qed
qed

text \<open>Rows whose ordering fields hold strings, or finite numbers, throughout.\<close>

definition typed_field :: "(string \<Rightarrow> bool) \<Rightarrow> jsrec \<Rightarrow> string \<Rightarrow> bool" where
  "typed_field is_text r f = (case js_get r f of JStr _ \<Rightarrow> is_text f | JNum x \<Rightarrow> \<not> is_text f \<and> is_fin x | _ \<Rightarrow> False)"

definition orderable :: "(string \<Rightarrow> bool) \<Rightarrow> order_by list \<Rightarrow> jsrec \<Rightarrow> bool" where
  "orderable is_text obs r = list_all (\<lambda>ob. typed_field is_text r (ob_field ob)) obs"

definition compare_one :: "(rat \<Rightarrow> string) \<Rightarrow> order_by \<Rightarrow> jsrec \<Rightarrow> jsrec \<Rightarrow> int" where
  "compare_one dtoa ob a b =
     (let x = js_get a (ob_field ob); y = js_get b (ob_field ob)
      in if js_lt dtoa x y then (if ob_ascending ob then - 1 else 1)
         else if js_lt dtoa y x then (if ob_ascending ob then 1 else - 1) else 0)"

lemma compare_by_Cons:
  "compare_by dtoa (ob # obs) = (\<lambda>a b. if compare_one dtoa ob a b \<noteq> 0 then compare_one dtoa ob a b else compare_by dtoa obs a b)"
  by (intro ext) (simp add: compare_one_def Let_def)

lemma typed_values:
  assumes "typed_field t a f" and "typed_field t b f"
  obtains s u where "js_get a f = JStr s" "js_get b f = JStr u"
    | p q where "js_get a f = JNum (Fin p)" "js_get b f = JNum (Fin q)"
  using assms unfolding typed_field_def is_fin_iff by (auto split: jsval.splits)

lemma js_lt_typed [simp]:
  "js_lt dtoa (JStr s) (JStr u) = (s < u)"
  "js_lt dtoa (JNum (Fin p)) (JNum (Fin q)) = (p < q)"
  by (simp_all add: js_lt_def js_primitive_def js_number_def)

lemma compare_one_le:
  assumes "typed_field t a (ob_field ob)" and "typed_field t b (ob_field ob)"
  shows "compare_one dtoa ob a b \<le> 0 \<longleftrightarrow>
    (if ob_ascending ob then \<not> js_lt dtoa (js_get b (ob_field ob)) (js_get a (ob_field ob))
     else \<not> js_lt dtoa (js_get a (ob_field ob)) (js_get b (ob_field ob)))"
    and "compare_one dtoa ob a b < 0 \<longleftrightarrow>
    (if ob_ascending ob then js_lt dtoa (js_get a (ob_field ob)) (js_get b (ob_field ob))
     else js_lt dtoa (js_get b (ob_field ob)) (js_get a (ob_field ob)))"
  by (rule typed_values [OF assms]; auto simp: compare_one_def Let_def)+

lemma typed_trans:
  assumes "typed_field t a f" and "typed_field t b f" and "typed_field t c f"
  shows "\<not> js_lt dtoa (js_get b f) (js_get a f) \<Longrightarrow> \<not> js_lt dtoa (js_get c f) (js_get b f) \<Longrightarrow> \<not> js_lt dtoa (js_get c f) (js_get a f)"
  by (rule typed_values [OF assms(1,2)]; rule typed_values [OF assms(2,3)]; auto)

lemma compare_one_comparator: "js_comparator (compare_one dtoa ob) (\<lambda>r. typed_field t r (ob_field ob))"
proof
  fix x y z
  assume x: "typed_field t x (ob_field ob)" and y: "typed_field t y (ob_field ob)"
  show "compare_one dtoa ob x y \<le> 0 \<longleftrightarrow> \<not> compare_one dtoa ob y x < 0"
    by (simp add: compare_one_le [OF x y] compare_one_le [OF y x])
  assume z: "typed_field t z (ob_field ob)" and xy: "compare_one dtoa ob x y \<le> 0" and yz: "compare_one dtoa ob y z \<le> 0"
  show "compare_one dtoa ob x z \<le> 0"
    using xy yz typed_trans [OF x y z, of dtoa] typed_trans [OF z y x, of dtoa]
    by (auto simp: compare_one_le [OF x y] compare_one_le [OF y z] compare_one_le [OF x z] split: if_splits)
qed

lemma js_comparator_mono: "js_comparator c p \<Longrightarrow> (\<And>x. q x \<Longrightarrow> p x) \<Longrightarrow> js_comparator c q"
  unfolding js_comparator_def by blast

lemma compare_by_comparator: "js_comparator (compare_by dtoa obs) (orderable t obs)"
proof (induction obs)
  case Nil
  show ?case by unfold_locales simp_all
next
  case (Cons ob obs)
  show ?case unfolding compare_by_Cons
    by (rule js_comparator_lex)
      (auto intro: js_comparator_mono [OF compare_one_comparator] js_comparator_mono [OF Cons] simp: orderable_def)
qed

interpretation ordered_rows: js_comparator "compare_by dtoa obs" "orderable t obs"
  by (rule compare_by_comparator)

lemma slice_nat: "js_slice (Fin (of_nat a)) PInf xs = drop a xs" "js_slice (Fin 0) (Fin (of_nat n)) xs = take n xs"
  by (auto simp: js_slice_def slice_index_def Let_def min_def)

lemma page_nat: "0 < n \<Longrightarrow> page (Some (Fin (of_nat a))) (Some (Fin (of_nat n))) xs = take n (drop a xs)"
  by (simp add: page_def num_truthy_def slice_nat)

lemma concat_pages: "concat (map (\<lambda>i. take n (drop (i * n) xs)) [0..<k]) = take (k * n) xs"
proof (induction k)
  case (Suc k)
  have "take (k * n) xs @ take n (drop (k * n) xs) = take (k * n + n) xs" by (simp add: take_add)
  then show ?case by (simp add: Suc add.commute)
qed simp

section \<open>Batches\<close>


section \<open>Properties\<close>

text \<open>
  C12: a transaction is all or nothing: a callback that does not roll back itself has the
  effect of running directly if it returns, and if it throws the database is what it was
  before, the tables, the internal tables and the schema versions alike.
\<close>

theorem transaction_all_or_nothing:
  assumes "no_rollback body"
  shows "db_transaction ad None body s =
    (case run_direct ad body s of
       (Inr r, s') \<Rightarrow> (Inr r, s')
     | (Inl e, s') \<Rightarrow> (Inl e, s\<lparr>md_fresh := md_fresh s'\<rparr>))"
  by (simp add: db_transaction_def run_tx_direct [OF assms] restore_def split: prod.split sum.split)

definition plain_env :: db_env where
  "plain_env = \<lparr>de_dtoa = (\<lambda>_. []), de_uuid = (\<lambda>_. ''u''),
     de_naming = \<lparr>nc_enabled = False, nc_separator = [], nc_prefix = None, nc_schema_support = False\<rparr>\<rparr>"

definition create_op :: "string \<Rightarrow> db_op" where
  "create_op key = DbCreate \<lparr>cp_model = ''m'', cp_data = [(''id'', JStr key)], cp_select = None, cp_namespace = None\<rparr>"

definition count_op :: db_op where
  "count_op = DbCount \<lparr>wp_model = ''m'', wp_where = [], wp_namespace = None\<rparr>"

text \<open>A callback that creates a record twice and passes on the error of the second creation.\<close>

definition create_twice :: "db_answer tx_body" where
  "create_twice = TxCall (create_op ''x'') (\<lambda>_. TxCall (create_op ''x'')
     (\<lambda>r. case r of Inl e \<Rightarrow> TxThrow e | Inr x \<Rightarrow> TxReturn x))"

theorem transaction_all_or_nothing_witness:
  "snd (db_transaction (memory_db_adapter plain_env) None create_twice empty_db) = empty_db"
proof -
  let ?run = "run_direct (memory_db_adapter plain_env) create_twice empty_db"
  have "no_rollback create_twice" by (simp add: create_twice_def split: sum.split)
  note run = transaction_all_or_nothing [OF this, of "memory_db_adapter plain_env" empty_db]
  have "fst ?run = Inl (unique_error plain_env ''m'' (JStr ''x''))" "md_fresh (snd ?run) = 0" by code_simp+
  then show ?thesis unfolding run by (cases ?run) (simp add: empty_db_def)
qed

text \<open>
  Where the code departs from its intent: after an explicit rollback the transaction no
  longer undoes anything, so a write that follows it stays although the callback throws.
\<close>

theorem writes_after_rollback_stay:
  "fst (memory_db_adapter plain_env count_op
     (snd (db_transaction (memory_db_adapter plain_env) None
        (TxRollback (TxCall (create_op ''x'') (\<lambda>_. TxThrow NamespaceRequired)) :: db_answer tx_body) empty_db))) =
   Inr (Counted 1)"
  by code_simp

text \<open>
  C27: ids are unique: in every database that operations, transactions and closing can produce,
  as long as no update writes the id, the records of a table have different ids.
\<close>

theorem ids_unique:
  assumes "db_reachable env s"
  shows "distinct (map (\<lambda>r. js_get r ''id'') (jmap_values (model_table env m s)))"
proof -
  from reachable_invariant [OF assms] have ok: "db_ok s" and ids: "ids_match s" by auto
  have keys: "map (\<lambda>r. js_get r ''id'') (jmap_values (model_table env m s)) = jmap_keys (model_table env m s)"
    using ids_match_model [OF ids, of _ _ env m] by auto
  show ?thesis unfolding keys by (rule model_table_ok [OF ok])
qed

theorem ids_unique_witness:
  "distinct (map (\<lambda>r. js_get r ''id'') (jmap_values (model_table plain_env ''m''
     (snd (memory_db_adapter plain_env (create_op ''y'') (snd (memory_db_adapter plain_env (create_op ''x'') empty_db)))))))"
  by (rule ids_unique) (intro db_reachable.call db_reachable.start; simp add: create_op_def)

text \<open>
  Where the code departs from its intent: an update may write the id, the record stays
  under its old key, and a table can hold two records with one id, which \<open>create\<close> refuses.
\<close>

theorem update_duplicates_id:
  "map (\<lambda>r. js_get r ''id'') (jmap_values (model_table plain_env ''m''
     (snd (memory_db_adapter plain_env
        (DbUpdateMany \<lparr>um_model = ''m'', um_where = [], um_data = [(''id'', JStr ''x'')], um_namespace = None\<rparr>)
        (snd (memory_db_adapter plain_env (create_op ''y'') (snd (memory_db_adapter plain_env (create_op ''x'') empty_db)))))))) =
   [JStr ''x'', JStr ''x'']"
  by code_simp

text \<open>
  What is created is found: a record that \<open>create\<close> accepts was not there before, and
  searching for its id afterwards returns exactly it.
\<close>

theorem created_record_found:
  assumes "db_reachable env s" and "js_truthy (js_get (cp_data p) ''id'')" and "js_scalar (js_get (cp_data p) ''id'')"
    and "cp_select p = None" and "memory_db_adapter env (DbCreate p) s = (Inr (Record r), s')"
  shows "r = cp_data p \<and>
    fst (memory_db_adapter env (DbFindOne \<lparr>fp_model = cp_model p, fp_where = [\<lparr>wc_field = ''id'', wc_operator = WEq,
      wc_value = js_get r ''id'', wc_connector = None\<rparr>], fp_select = None, fp_namespace = None\<rparr>) s) = Inr NoRecord \<and>
    fst (memory_db_adapter env (DbFindOne \<lparr>fp_model = cp_model p, fp_where = [\<lparr>wc_field = ''id'', wc_operator = WEq,
      wc_value = js_get r ''id'', wc_connector = None\<rparr>], fp_select = None, fp_namespace = None\<rparr>) s') = Inr (Record r)"
proof -
  let ?w = "[\<lparr>wc_field = ''id'', wc_operator = WEq, wc_value = js_get (cp_data p) ''id'', wc_connector = None\<rparr>]"
  let ?t = "model_table env (cp_model p) s"
  have ids: "ids_match s" using reachable_invariant [OF assms(1)] by simp
  have created: "answered Record (mem_create env p s) = (Inr (Record r), s')" using assms(2,5) by simp
  obtain x where m: "mem_create env p s = (x, s')" and "map_sum id Record x = Inr (Record r)"
    using created by (cases "mem_create env p s") auto
  then have x: "x = Inr r" by (cases x) auto
  have s': "s' = snd (mem_create env p s)" by (simp add: m)
  have "Inr r = (if jmap_has ?t (js_get (cp_data p) ''id'') then Inl (unique_error env (cp_model p) (js_get (cp_data p) ''id''))
      else Inr (cp_data p))"
    using mem_create_cases(1) [OF assms(2), where env = env and s = s] by (simp add: m x assms(4) select_fields_def)
  then have fresh: "\<not> jmap_has ?t (js_get (cp_data p) ''id'')" and r: "r = cp_data p" by (simp_all split: if_splits)
  have nn: "js_get (cp_data p) ''id'' \<noteq> JNull" using assms(2) by (auto simp: js_truthy_def)
  have seq: "js_seq v (js_get (cp_data p) ''id'') = (v = js_get (cp_data p) ''id'')" for v
    using js_seq_scalar [OF assms(3), of v] js_seq_sym [of v "js_get (cp_data p) ''id''"] by auto
  have hit: "hits env ?w (k, x) \<longleftrightarrow> js_get x ''id'' = js_get (cp_data p) ''id''" for k x
    by (simp add: hits_def matches_where_def clause_holds_def matches_clause_def value_eq_def nn seq)
  have none: "filter (hits env ?w) ?t = []"
    unfolding filter_empty_conv
  proof
    fix row assume row: "row \<in> set ?t"
    then have "js_get (snd row) ''id'' = fst row" using ids_match_model [OF ids, of "fst row" "snd row" env "cp_model p"] by simp
    moreover have "fst row \<noteq> js_get (cp_data p) ''id''" using row fresh unfolding jmap_has_keys by (metis image_eqI list.set_map)
    ultimately show "\<not> hits env ?w row" using hit [of "fst row" "snd row"] by simp
  qed
  have "model_table env (cp_model p) s' = ?t @ [(js_get (cp_data p) ''id'', cp_data p)]"
    using mem_create_cases(2) [OF assms(2), of env "cp_model p" s] fresh by (simp add: s')
  then show ?thesis
    using none hit by (simp add: r mem_find_one_def find_filter select_fields_def)
qed

theorem created_record_found_witness:
  "fst (memory_db_adapter plain_env (DbFindOne \<lparr>fp_model = ''m'', fp_where = [\<lparr>wc_field = ''id'', wc_operator = WEq,
      wc_value = js_get [(''id'', JStr ''x'')] ''id'', wc_connector = None\<rparr>], fp_select = None, fp_namespace = None\<rparr>)
      (snd (memory_db_adapter plain_env (create_op ''x'') empty_db))) = Inr (Record [(''id'', JStr ''x'')])"
proof -
  let ?p = "\<lparr>cp_model = ''m'', cp_data = [(''id'', JStr ''x'')], cp_select = None, cp_namespace = None\<rparr>"
  have run: "fst (memory_db_adapter plain_env (DbCreate ?p) empty_db) = Inr (Record [(''id'', JStr ''x'')])" by code_simp
  have "memory_db_adapter plain_env (DbCreate ?p) empty_db =
      (Inr (Record [(''id'', JStr ''x'')]), snd (memory_db_adapter plain_env (DbCreate ?p) empty_db))"
    by (rule prod_eqI) (simp_all only: run fst_conv snd_conv)
  from created_record_found [OF db_reachable.start _ _ _ this] show ?thesis
    by (simp add: create_op_def js_truthy_def js_get_def js_scalar_def)
qed



text \<open>
  An ordered query returns every record that matches, once, in the order asked for: each
  field decides the ties of those before it, descending ones reversed, and records that tie in
  all of them stay in the order of the table. The ordering fields hold strings or numbers.
\<close>

theorem query_ordered:
  assumes "list_all (\<lambda>row. orderable is_text obs (snd row)) (filter (hits env w) (model_table env m s))"
    and "memory_db_adapter env (DbFindMany \<lparr>fp_model = m, fp_where = w, fp_select = None, fp_namespace = None,
      fp_limit = None, fp_offset = None, fp_order = Some obs\<rparr>) s = (Inr (Records rs), s')"
  shows "sorted_wrt (\<lambda>a b. compare_by (de_dtoa env) obs a b \<le> 0) rs \<and>
    mset rs = mset (jmap_values (filter (hits env w) (model_table env m s))) \<and>
    (\<forall>a. orderable is_text obs a \<longrightarrow>
      filter (\<lambda>r. compare_by (de_dtoa env) obs a r \<le> 0 \<and> compare_by (de_dtoa env) obs r a \<le> 0) rs =
      filter (\<lambda>r. compare_by (de_dtoa env) obs a r \<le> 0 \<and> compare_by (de_dtoa env) obs r a \<le> 0)
        (jmap_values (filter (hits env w) (model_table env m s))))"
proof -
  let ?found = "jmap_values (filter (hits env w) (model_table env m s))"
  have all: "select_fields None = (\<lambda>r. r)" by (intro ext) (simp add: select_fields_def)
  have rs: "rs = js_sort (compare_by (de_dtoa env) obs) ?found"
    using assms(2) by (auto simp: mem_find_many_def Let_def page_def apply_ordering_def all)
  have ok: "\<forall>r \<in> set ?found. orderable is_text obs r" using assms(1) by (simp add: list_all_iff)
  show ?thesis unfolding rs
    using ordered_rows.sort_sorted [OF ok, of "de_dtoa env"] ordered_rows.sort_stable [OF ok, of _ "de_dtoa env"] by simp
qed

definition three_rows :: memory_db where
  "three_rows = empty_db\<lparr>md_store := [(''m'', [(JStr ''x'', [(''n'', JNum (Fin 2))]), (JStr ''y'', [(''n'', JNum (Fin 1))]),
     (JStr ''z'', [(''n'', JNum (Fin 2))])])]\<rparr>"

theorem query_ordered_witness:
  "sorted_wrt (\<lambda>a b. compare_by (\<lambda>_. []) [\<lparr>ob_field = ''n'', ob_ascending = True\<rparr>] a b \<le> 0)
     [[(''n'', JNum (Fin 1))], [(''n'', JNum (Fin 2))], [(''n'', JNum (Fin 2))]]"
proof -
  let ?obs = "[\<lparr>ob_field = ''n'', ob_ascending = True\<rparr>]"
  have typed: "list_all (\<lambda>row. orderable (\<lambda>_. False) ?obs (snd row)) (filter (hits plain_env []) (model_table plain_env ''m'' three_rows))"
    by code_simp
  have run: "memory_db_adapter plain_env (DbFindMany \<lparr>fp_model = ''m'', fp_where = [], fp_select = None, fp_namespace = None,
      fp_limit = None, fp_offset = None, fp_order = Some ?obs\<rparr>) three_rows =
      (Inr (Records [[(''n'', JNum (Fin 1))], [(''n'', JNum (Fin 2))], [(''n'', JNum (Fin 2))]]), three_rows)"
    by code_simp
  from query_ordered [OF typed run, THEN conjunct1] show ?thesis by (simp only: plain_env_def db_env.select_convs)
qed

text \<open>
  C38: the pages of a query partition its result: the pages of a positive size, read one after
  the other, are the result of the query without paging, each record on exactly one page.
\<close>

theorem pages_partition:
  assumes "0 < n"
  shows "concat (map (\<lambda>i. mem_find_many env (p\<lparr>fp_offset := Some (Fin (of_nat (i * n))), fp_limit := Some (Fin (of_nat n))\<rparr>) s) [0..<k]) =
    take (k * n) (mem_find_many env (p\<lparr>fp_offset := None, fp_limit := None\<rparr>) s)"
proof -
  define rows where "rows = (let found = jmap_values (filter (hits env (fp_where p)) (model_table env (fp_model p) s))
    in case fp_order p of None \<Rightarrow> found | Some obs \<Rightarrow> apply_ordering (de_dtoa env) obs found)"
  have paged: "mem_find_many env (p\<lparr>fp_offset := Some (Fin (of_nat a)), fp_limit := Some (Fin (of_nat n))\<rparr>) s =
      take n (drop a (map (select_fields (fp_select p)) rows))" for a
    using page_nat [OF assms, of a rows] by (simp add: mem_find_many_def rows_def Let_def hits_def [abs_def] take_map drop_map)
  have whole: "mem_find_many env (p\<lparr>fp_offset := None, fp_limit := None\<rparr>) s = map (select_fields (fp_select p)) rows"
    by (simp add: mem_find_many_def rows_def Let_def hits_def [abs_def] page_def)
  show ?thesis unfolding paged whole by (rule concat_pages)
qed

theorem pages_partition_witness:
  "concat (map (\<lambda>i. mem_find_many plain_env (\<lparr>fp_model = ''m'', fp_where = [], fp_select = None, fp_namespace = None,
      fp_limit = None, fp_offset = None, fp_order = None\<rparr>\<lparr>fp_offset := Some (Fin (of_nat (i * 2))), fp_limit := Some (Fin (of_nat 2))\<rparr>)
      three_rows) [0..<2]) = [[(''n'', JNum (Fin 2))], [(''n'', JNum (Fin 1))], [(''n'', JNum (Fin 2))]]"
proof -
  have "take (2 * 2) (mem_find_many plain_env (\<lparr>fp_model = ''m'', fp_where = [], fp_select = None, fp_namespace = None,
      fp_limit = None, fp_offset = None, fp_order = None\<rparr>\<lparr>fp_offset := None, fp_limit := None\<rparr>) three_rows) =
      [[(''n'', JNum (Fin 2))], [(''n'', JNum (Fin 1))], [(''n'', JNum (Fin 2))]]" by code_simp
  moreover have "0 < (2 :: nat)" by simp
  ultimately show ?thesis using pages_partition by metis
qed

text \<open>
  Where the code departs from its intent: a limit of zero is taken for no limit, so a
  query for no records returns all of them; the internal tables honour it.
\<close>

theorem limit_zero_returns_all:
  "mem_find_many env (p\<lparr>fp_limit := Some (Fin 0)\<rparr>) s = mem_find_many env (p\<lparr>fp_limit := None\<rparr>) s \<and>
   fst (internal_crud env (InternalFindMany t [] None (Some (Fin 0))) s) = Inr (Records [])"
proof -
  have "filter_sum (internal_match dtoa []) rows = Inr rows" for dtoa rows
    by (induction rows) (simp_all add: internal_match_def)
  then show ?thesis
    by (simp add: mem_find_many_def page_def num_truthy_def hits_def [abs_def] internal_order_def js_slice_def slice_index_def Let_def)
qed

text \<open>
  The name of a table determines it: parsing a name that \<open>apply\<close> made for a library gives
  the table back, so two tables of one library never share a name.
\<close>

theorem table_names_parse:
  "ns_parse cfg (ns_apply cfg library_name t) library_name =
     Inr (if nc_enabled cfg then js_join (ns_separator cfg) (prefix_part cfg @ [library_name]) else [], t) \<and>
   (ns_apply cfg library_name t = ns_apply cfg library_name u \<longleftrightarrow> t = u)"
proof (cases "nc_enabled cfg")
  case True
  then show ?thesis by (simp add: ns_parse_def ns_apply_enabled starts_with_prefix Let_def)
qed (simp add: ns_parse_def ns_apply_def)

text \<open>
  Where the code departs from its intent: two libraries can share a table, since the
  separator may occur in names.
\<close>

theorem library_tables_collide:
  "ns_apply \<lparr>nc_enabled = True, nc_separator = ''_'', nc_prefix = None, nc_schema_support = False\<rparr> ''a'' ''b_c'' =
   ns_apply \<lparr>nc_enabled = True, nc_separator = ''_'', nc_prefix = None, nc_schema_support = False\<rparr> ''a_b'' ''c''"
  by code_simp

end
