(* ===== verification/RowNamespace.thy ===== *)
theory RowNamespace
  imports DbMemory
begin

text \<open>
  Row-level isolation of namespaces, \<open>packages/db/src/adapter/row-level-namespace.ts\<close>: a wrapper
  around an adapter that stamps the namespace into created records, adds it to every where
  clause and strips it from the answers; and the runs of operations that callers of different
  namespaces make on one adapter.
\<close>

section \<open>The wrapper\<close>

record row_namespace_config =
  rn_enabled :: bool
  rn_column :: "string option"
  rn_mandatory :: "bool option"

definition resolve_config :: "row_namespace_config \<Rightarrow> db_error + (string \<times> bool)" where
  "resolve_config cfg =
     (let column = (case rn_column cfg of None \<Rightarrow> ''__ns'' | Some c \<Rightarrow> js_trim c)
      in if column = [] then Inl (DbError ''row-level namespace columnName cannot be blank'')
         else Inr (column, case rn_mandatory cfg of None \<Rightarrow> True | Some b \<Rightarrow> b))"

definition resolve_namespace :: "string option \<Rightarrow> bool \<Rightarrow> db_error + string option" where
  "resolve_namespace ns mandatory =
     (if mandatory \<and> (ns = None \<or> ns = Some []) then Inl NamespaceRequired else Inr ns)"

definition namespace_clause :: "string \<Rightarrow> string \<Rightarrow> where_clause" where
  "namespace_clause col ns = \<lparr>wc_field = col, wc_operator = WEq, wc_value = JStr ns, wc_connector = None\<rparr>"

definition with_namespace_where :: "string \<Rightarrow> string option \<Rightarrow> where_clause list \<Rightarrow> where_clause list" where
  "with_namespace_where col ns w =
     (case ns of None \<Rightarrow> w | Some n \<Rightarrow> if n = [] then w else w @ [namespace_clause col n])"

definition remove_namespace_where :: "string \<Rightarrow> where_clause list \<Rightarrow> where_clause list" where
  "remove_namespace_where col w = filter (\<lambda>c. wc_field c \<noteq> col) w"

definition build_scoped_where :: "string \<Rightarrow> string option \<Rightarrow> where_clause list \<Rightarrow> where_clause list" where
  "build_scoped_where col ns w = with_namespace_where col ns (remove_namespace_where col w)"

definition sanitize_conflict_target :: "string \<Rightarrow> string option \<Rightarrow> conflict_target option \<Rightarrow> conflict_target option" where
  "sanitize_conflict_target col ns target =
     (let named = (case ns of None \<Rightarrow> False | Some n \<Rightarrow> n \<noteq> []);
          visible = (\<lambda>fs. filter (\<lambda>f. f \<noteq> col) fs);
          deduped = (\<lambda>fs. js_unique (if named then fs @ [col] else fs))
      in case target of
           None \<Rightarrow> None
         | Some (OneField f) \<Rightarrow>
             (if f = [] \<or> visible [f] = [] then None
              else case deduped (visible [f]) of
                     [g] \<Rightarrow> Some (if named then ManyFields [g] else OneField g)
                   | gs \<Rightarrow> Some (ManyFields gs))
         | Some (ManyFields fs) \<Rightarrow>
             (if visible fs = [] then None else Some (ManyFields (deduped (visible fs)))))"

definition stamp_data :: "string \<Rightarrow> string option \<Rightarrow> jsrec \<Rightarrow> jsrec" where
  "stamp_data col ns r = (case ns of None \<Rightarrow> r | Some n \<Rightarrow> if n = [] then r else jmap_set col (JStr n) r)"

fun strip_column :: "string \<Rightarrow> db_answer \<Rightarrow> db_answer" where
  "strip_column col (Record r) = Record (jmap_del col r)"
| "strip_column col (Records rs) = Records (map (jmap_del col) rs)"
| "strip_column col NoRecord = NoRecord"
| "strip_column col (Counted n) = Counted n"
| "strip_column col (Version v) = Version v"
| "strip_column col Void = Void"

text \<open>The request the wrapper makes of the adapter it wraps, or the error it throws instead.\<close>

fun namespace_request :: "string \<Rightarrow> bool \<Rightarrow> db_op \<Rightarrow> db_error + db_op" where
  "namespace_request col mandatory (DbCreate p) =
     bind_sum (resolve_namespace (cp_namespace p) mandatory) (\<lambda>ns.
       Inr (DbCreate (p\<lparr>cp_data := stamp_data col ns (jmap_del col (cp_data p))\<rparr>)))"
| "namespace_request col mandatory (DbCreateMany p) =
     bind_sum (resolve_namespace (cm_namespace p) mandatory) (\<lambda>ns.
       Inr (DbCreateMany (p\<lparr>cm_data := map (\<lambda>r. stamp_data col ns (jmap_del col r)) (cm_data p)\<rparr>)))"
| "namespace_request col mandatory (DbFindOne p) =
     bind_sum (resolve_namespace (fp_namespace p) mandatory) (\<lambda>ns.
       Inr (DbFindOne (p\<lparr>fp_where := build_scoped_where col ns (fp_where p)\<rparr>)))"
| "namespace_request col mandatory (DbFindMany p) =
     bind_sum (resolve_namespace (fp_namespace p) mandatory) (\<lambda>ns.
       Inr (DbFindMany (p\<lparr>fp_where := build_scoped_where col ns (fp_where p)\<rparr>)))"
| "namespace_request col mandatory (DbUpdate p) =
     bind_sum (resolve_namespace (up_namespace p) mandatory) (\<lambda>ns.
       if remove_namespace_where col (up_where p) = []
       then Inl (DbError ''update requires a non-empty where clause; use updateMany to update all rows'')
       else Inr (DbUpdate (p\<lparr>up_where := build_scoped_where col ns (up_where p), up_data := jmap_del col (up_data p)\<rparr>)))"
| "namespace_request col mandatory (DbUpdateMany p) =
     bind_sum (resolve_namespace (um_namespace p) mandatory) (\<lambda>ns.
       Inr (DbUpdateMany (p\<lparr>um_where := build_scoped_where col ns (um_where p), um_data := jmap_del col (um_data p)\<rparr>)))"
| "namespace_request col mandatory (DbDelete p) =
     bind_sum (resolve_namespace (wp_namespace p) mandatory) (\<lambda>ns.
       if remove_namespace_where col (wp_where p) = []
       then Inl (DbError ''delete requires a non-empty where clause; use deleteMany to delete all rows'')
       else Inr (DbDelete (p\<lparr>wp_where := build_scoped_where col ns (wp_where p)\<rparr>)))"
| "namespace_request col mandatory (DbDeleteMany p) =
     bind_sum (resolve_namespace (wp_namespace p) mandatory) (\<lambda>ns.
       Inr (DbDeleteMany (p\<lparr>wp_where := build_scoped_where col ns (wp_where p)\<rparr>)))"
| "namespace_request col mandatory (DbUpsert p) =
     bind_sum (resolve_namespace (us_namespace p) mandatory) (\<lambda>ns.
       Inr (DbUpsert (p\<lparr>us_where := build_scoped_where col ns (us_where p),
         us_create := stamp_data col ns (jmap_del col (us_create p)), us_update := jmap_del col (us_update p),
         us_conflict := sanitize_conflict_target col ns (us_conflict p)\<rparr>)))"
| "namespace_request col mandatory (DbCount p) =
     bind_sum (resolve_namespace (wp_namespace p) mandatory) (\<lambda>ns.
       Inr (DbCount (p\<lparr>wp_where := build_scoped_where col ns (wp_where p)\<rparr>)))"
| "namespace_request col mandatory (DbGetVersion ns) = Inr (DbGetVersion ns)"
| "namespace_request col mandatory (DbSetVersion ns v) = Inr (DbSetVersion ns v)"
| "namespace_request col mandatory (DbInternal c) = Inr (DbInternal c)"

definition passed_through :: "db_op \<Rightarrow> bool" where
  "passed_through op = (case op of DbGetVersion _ \<Rightarrow> True | DbSetVersion _ _ \<Rightarrow> True | DbInternal _ \<Rightarrow> True | _ \<Rightarrow> False)"

definition namespace_adapter :: "string \<Rightarrow> bool \<Rightarrow> 's adapter \<Rightarrow> 's adapter" where
  "namespace_adapter col mandatory ad op s =
     (case namespace_request col mandatory op of
        Inl e \<Rightarrow> (Inl e, s)
      | Inr op' \<Rightarrow> if passed_through op then ad op' s else apfst (map_sum id (strip_column col)) (ad op' s))"

definition wrap_with_row_level_namespace :: "row_namespace_config \<Rightarrow> 's adapter \<Rightarrow> db_error + 's adapter" where
  "wrap_with_row_level_namespace cfg ad =
     (if \<not> rn_enabled cfg then Inr ad
      else bind_sum (resolve_config cfg) (\<lambda>(col, mandatory). Inr (namespace_adapter col mandatory ad)))"

text \<open>A transaction of the wrapped adapter runs its callback on the wrapped transaction.\<close>

definition namespace_transaction ::
  "string \<Rightarrow> bool \<Rightarrow> memory_db adapter \<Rightarrow> string option \<Rightarrow> 'r tx_body \<Rightarrow> memory_db \<Rightarrow> (db_error + 'r) \<times> memory_db" where
  "namespace_transaction col mandatory ad isolation body s =
     db_transaction (namespace_adapter col mandatory ad) isolation body s"

fun op_namespace :: "db_op \<Rightarrow> string option" where
  "op_namespace (DbCreate p) = cp_namespace p"
| "op_namespace (DbCreateMany p) = cm_namespace p"
| "op_namespace (DbFindOne p) = fp_namespace p"
| "op_namespace (DbFindMany p) = fp_namespace p"
| "op_namespace (DbUpdate p) = up_namespace p"
| "op_namespace (DbUpdateMany p) = um_namespace p"
| "op_namespace (DbDelete p) = wp_namespace p"
| "op_namespace (DbDeleteMany p) = wp_namespace p"
| "op_namespace (DbUpsert p) = us_namespace p"
| "op_namespace (DbCount p) = wp_namespace p"
| "op_namespace (DbGetVersion ns) = None"
| "op_namespace (DbSetVersion ns v) = None"
| "op_namespace (DbInternal c) = None"

fun created_rows :: "db_op \<Rightarrow> jsrec list" where
  "created_rows (DbCreate p) = [cp_data p]"
| "created_rows (DbCreateMany p) = cm_data p"
| "created_rows (DbUpsert p) = [us_create p]"
| "created_rows _ = []"

definition created_ids :: "db_op \<Rightarrow> jsval list" where
  "created_ids op = map (\<lambda>r. js_get r ''id'') (created_rows op)"

fun run_ops :: "'s adapter \<Rightarrow> db_op list \<Rightarrow> 's \<Rightarrow> (db_error + db_answer) list" where
  "run_ops ad [] s = []"
| "run_ops ad (op # ops) s = fst (ad op s) # run_ops ad ops (snd (ad op s))"

end
