(* ===== verification/NamespaceIsolation.thy ===== *)
theory NamespaceIsolation
  imports RowNamespace DbInvariant
begin

text \<open>
  Isolation between namespaces: the interface \<open>row_store\<close> of an adapter that keeps rows, what
  the namespace wrapper gives over any such adapter, and the in-memory adapter as its provider.
\<close>

section \<open>What the wrapper relies on\<close>

text \<open>The operations that touch the rows a where clause selects, and the fields they write.\<close>

fun op_target :: "db_op \<Rightarrow> (string \<times> where_clause list) option" where
  "op_target (DbFindOne p) = Some (fp_model p, fp_where p)"
| "op_target (DbFindMany p) = Some (fp_model p, fp_where p)"
| "op_target (DbUpdate p) = Some (up_model p, up_where p)"
| "op_target (DbUpdateMany p) = Some (um_model p, um_where p)"
| "op_target (DbDelete p) = Some (wp_model p, wp_where p)"
| "op_target (DbDeleteMany p) = Some (wp_model p, wp_where p)"
| "op_target (DbCount p) = Some (wp_model p, wp_where p)"
| "op_target _ = None"

fun op_data :: "db_op \<Rightarrow> jsrec" where
  "op_data (DbUpdate p) = up_data p"
| "op_data (DbUpdateMany p) = um_data p"
| "op_data _ = []"

fun creation :: "db_op \<Rightarrow> (string \<times> jsrec list) option" where
  "creation (DbCreate p) = Some (cp_model p, [cp_data p])"
| "creation (DbCreateMany p) = Some (cm_model p, cm_data p)"
| "creation _ = None"

text \<open>A rewriting of rows that keeps what \<open>h\<close> does not select, and deletes or updates the rest.\<close>

definition row_rewrite :: "(jsrec \<Rightarrow> bool) \<Rightarrow> jsrec \<Rightarrow> (jsval \<times> jsrec \<Rightarrow> table) \<Rightarrow> bool" where
  "row_rewrite h d g = (\<forall>row. g row = [row] \<or> (h (snd row) \<and> (g row = [] \<or> g row = [(fst row, spread (snd row) d)])))"

lemma row_rewriteD: "row_rewrite h d g \<Longrightarrow> g x = [x] \<or> (h (snd x) \<and> (g x = [] \<or> g x = [(fst x, spread (snd x) d)]))"
  unfolding row_rewrite_def by (rule spec)

definition selected :: "(jsrec \<Rightarrow> bool) \<Rightarrow> table \<Rightarrow> table" where
  "selected h t = filter (\<lambda>row. h (snd row)) t"

definition owned :: "string \<Rightarrow> string \<Rightarrow> jsrec \<Rightarrow> bool" where
  "owned col ns r = (js_get r col = JStr ns)"

text \<open>A request that the wrapper makes for namespace \<open>ns\<close>, other than an upsert.\<close>

definition scoped_request :: "string \<Rightarrow> string \<Rightarrow> db_op \<Rightarrow> bool" where
  "scoped_request col ns op =
     ((\<exists>m w. op_target op = Some (m, w @ [namespace_clause col ns]) \<and> col \<notin> set (jmap_keys (op_data op))) \<or>
      (\<exists>m rs. creation op = Some (m, rs) \<and> (\<forall>r \<in> set rs. owned col ns r)))"

lemma creation_ids: "creation op = Some (m, rs) \<Longrightarrow> created_ids op = map (\<lambda>r. js_get r ''id'') rs"
  by (cases op) (auto simp: created_ids_def)

definition scoped_upsert :: "string \<Rightarrow> string \<Rightarrow> upsert_params \<Rightarrow> bool" where
  "scoped_upsert col ns p =
     ((\<exists>w. us_where p = w @ [namespace_clause col ns]) \<and> owned col ns (us_create p) \<and> col \<notin> set (jmap_keys (us_update p)))"

lemma scoped_where: "ns \<noteq> [] \<Longrightarrow> build_scoped_where col (Some ns) w = remove_namespace_where col w @ [namespace_clause col ns]"
  by (simp add: build_scoped_where_def with_namespace_where_def)

lemma stamped: "ns \<noteq> [] \<Longrightarrow> owned col ns (stamp_data col (Some ns) r)"
  by (simp add: stamp_data_def owned_def jmap_simps)

lemma stamped_id: "col \<noteq> ''id'' \<Longrightarrow> js_get (stamp_data col ns (jmap_del col r)) ''id'' = js_get r ''id''"
  by (simp add: stamp_data_def jmap_simps split: option.split)

lemma deleted_pair: "(k, v) \<notin> set (jmap_del k m)"
  by (induction m) auto

text \<open>What the wrapper passes on: an error, or a request confined to the namespace of the call.\<close>

lemma request_cases:
  assumes "col \<noteq> ''id''" and "\<not> passed_through op" and "namespace_request col True op = Inr op'"
  obtains ns where "op_namespace op = Some ns" "created_ids op' = created_ids op"
    "scoped_request col ns op' \<or> (\<exists>p. op' = DbUpsert p \<and> scoped_upsert col ns p)"
proof -
  from assms(2,3) obtain ns where ns: "op_namespace op = Some ns" "ns \<noteq> []"
    by (cases op; cases "op_namespace op") (auto simp: passed_through_def resolve_namespace_def split: if_splits)
  have "created_ids op' = created_ids op \<and> (scoped_request col ns op' \<or> (\<exists>p. op' = DbUpsert p \<and> scoped_upsert col ns p))"
    using assms(2,3) ns
    by (cases op) (auto simp: passed_through_def resolve_namespace_def created_ids_def stamped_id [OF assms(1)] stamped
        scoped_request_def scoped_upsert_def scoped_where comp_def deleted_pair split: if_splits)
  with ns(1) that show ?thesis by blast
qed

locale row_store =
  fixes ad :: "'s adapter" and rows :: "'s \<Rightarrow> string \<Rightarrow> table"
    and ok :: "'s \<Rightarrow> bool" and hit :: "where_clause list \<Rightarrow> jsrec \<Rightarrow> bool"
  assumes hit_scoped: "hit (w @ [namespace_clause col ns]) r \<longleftrightarrow> hit w r \<and> owned col ns r"
    and ok_step: "ok s \<Longrightarrow> ok (snd (ad op s))"
    and same_answer: "ok s \<Longrightarrow> ok t \<Longrightarrow> op_target op = Some (m, w) \<Longrightarrow>
      selected (hit w) (rows s m) = selected (hit w) (rows t m) \<Longrightarrow> fst (ad op s) = fst (ad op t)"
    and same_effect: "ok s \<Longrightarrow> ok t \<Longrightarrow> op_target op = Some (m, w) \<Longrightarrow>
      selected (hit w) (rows s m) = selected (hit w) (rows t m) \<Longrightarrow>
      \<exists>g. row_rewrite (hit w) (op_data op) g \<and> rows (snd (ad op s)) m = concat (map g (rows s m)) \<and>
        rows (snd (ad op t)) m = concat (map g (rows t m))"
    and other_tables: "ok s \<Longrightarrow> op_target op = Some (m, w) \<or> creation op = Some (m, rs) \<Longrightarrow> m' \<noteq> m \<Longrightarrow>
      rows (snd (ad op s)) m' = rows s m'"
    and create_effect: "ok s \<Longrightarrow> creation op = Some (m, rs) \<Longrightarrow> list_all js_truthy (created_ids op) \<Longrightarrow>
      rows (snd (ad op s)) m = snd (insert_rows rs (rows s m))"
    and create_answer: "ok s \<Longrightarrow> ok t \<Longrightarrow> creation op = Some (m, rs) \<Longrightarrow> list_all js_truthy (created_ids op) \<Longrightarrow>
      fst (insert_rows rs (rows s m)) = fst (insert_rows rs (rows t m)) \<Longrightarrow> fst (ad op s) = fst (ad op t)"
    and upsert: "ok s \<Longrightarrow> us_where p \<noteq> [] \<Longrightarrow> js_truthy (js_get (us_create p) ''id'') \<Longrightarrow>
      ad (DbUpsert p) s =
        (if selected (hit (us_where p)) (rows s (us_model p)) = []
         then ad (DbCreate \<lparr>cp_model = us_model p, cp_data = us_create p, cp_select = us_select p, cp_namespace = us_namespace p\<rparr>) s
         else ad (DbUpdate \<lparr>up_model = us_model p, up_where = us_where p, up_data = us_update p, up_select = us_select p,
                up_namespace = us_namespace p\<rparr>) s)"
    and unscoped: "passed_through op \<Longrightarrow> rows (snd (ad op s)) m = rows s m"
begin

text \<open>
  Two states are alike for namespace \<open>ns\<close> if the second holds exactly the rows of \<open>ns\<close> of the
  first, and the other rows of the first have keys from \<open>F\<close>.
\<close>

definition alike :: "string \<Rightarrow> string \<Rightarrow> jsval set \<Rightarrow> 's \<Rightarrow> 's \<Rightarrow> bool" where
  "alike col ns F s t =
     (ok s \<and> ok t \<and> (\<forall>m. rows t m = selected (owned col ns) (rows s m) \<and>
       (\<forall>row \<in> set (rows s m). owned col ns (snd row) \<or> fst row \<in> F)))"

lemma alike_owned: "alike col ns F s t \<Longrightarrow> row \<in> set (rows t m) \<Longrightarrow> owned col ns (snd row)"
  by (auto simp: alike_def selected_def)

lemma alike_selected:
  assumes "alike col ns F s t" and "\<And>r. h r \<Longrightarrow> owned col ns r"
  shows "selected h (rows s m) = selected h (rows t m)"
proof -
  have "rows t m = selected (owned col ns) (rows s m)" using assms(1) by (simp add: alike_def)
  then show ?thesis using assms(2) by (auto simp: selected_def intro!: filter_cong)
qed

text \<open>A rewriting by the namespace itself commutes with the selection of its rows.\<close>

lemma rewrite_own:
  assumes "row_rewrite h d g" and "\<And>r. h r \<Longrightarrow> owned col ns r" and "col \<notin> set (jmap_keys d)"
  shows "selected (owned col ns) (concat (map g xs)) = concat (map g (selected (owned col ns) xs))"
proof (induction xs)
  case (Cons x xs)
  have "g x = [x] \<or> (h (snd x) \<and> (g x = [] \<or> g x = [(fst x, spread (snd x) d)]))"
    by (rule row_rewriteD [OF assms(1)])
  then show ?case using Cons assms(2) [of "snd x"]
    by (auto simp: selected_def owned_def js_get_spread [OF assms(3)])
qed (simp add: selected_def)

lemma rewrite_foreign:
  assumes "row_rewrite h d g" and "\<And>r. h r \<Longrightarrow> \<not> owned col ns r" and "col \<notin> set (jmap_keys d)"
  shows "selected (owned col ns) (concat (map g xs)) = selected (owned col ns) xs"
proof (induction xs)
  case (Cons x xs)
  have "g x = [x] \<or> (h (snd x) \<and> (g x = [] \<or> g x = [(fst x, spread (snd x) d)]))"
    by (rule row_rewriteD [OF assms(1)])
  then show ?case using Cons assms(2) [of "snd x"]
    by (auto simp: selected_def owned_def js_get_spread [OF assms(3)])
qed (simp add: selected_def)

lemma rewrite_keys:
  assumes "row_rewrite h d g" and "col \<notin> set (jmap_keys d)" and "\<forall>row \<in> set xs. owned col ns (snd row) \<or> fst row \<in> F"
  shows "\<forall>row \<in> set (concat (map g xs)). owned col ns (snd row) \<or> fst row \<in> F"
proof
  fix row assume "row \<in> set (concat (map g xs))"
  then obtain x where x: "x \<in> set xs" "row \<in> set (g x)" by auto
  have "g x = [x] \<or> (h (snd x) \<and> (g x = [] \<or> g x = [(fst x, spread (snd x) d)]))"
    by (rule row_rewriteD [OF assms(1)])
  then show "owned col ns (snd row) \<or> fst row \<in> F"
    using x assms(3) by (auto simp: owned_def js_get_spread [OF assms(2)])
qed

text \<open>Insertions by the namespace itself and by another one.\<close>

lemma insert_own:
  assumes "\<forall>r \<in> set rs. owned col ns r \<and> js_get r ''id'' \<notin> F" and "\<forall>row \<in> set xs. owned col ns (snd row) \<or> fst row \<in> F"
  shows "fst (insert_rows rs xs) = fst (insert_rows rs (selected (owned col ns) xs)) \<and>
    snd (insert_rows rs (selected (owned col ns) xs)) = selected (owned col ns) (snd (insert_rows rs xs)) \<and>
    (\<forall>row \<in> set (snd (insert_rows rs xs)). owned col ns (snd row) \<or> fst row \<in> F)"
  using assms
proof (induction rs arbitrary: xs)
  case (Cons r rs)
  have has: "jmap_has xs (js_get r ''id'') = jmap_has (selected (owned col ns) xs) (js_get r ''id'')"
    unfolding jmap_has_keys using Cons.prems by (auto simp: selected_def)
  show ?case
  proof (cases "jmap_has xs (js_get r ''id'')")
    case True
    then show ?thesis using has Cons.prems(2) by simp
  next
    case False
    have ih: "fst (insert_rows rs (xs @ [(js_get r ''id'', r)])) = fst (insert_rows rs (selected (owned col ns) (xs @ [(js_get r ''id'', r)]))) \<and>
      snd (insert_rows rs (selected (owned col ns) (xs @ [(js_get r ''id'', r)]))) = selected (owned col ns) (snd (insert_rows rs (xs @ [(js_get r ''id'', r)]))) \<and>
      (\<forall>row \<in> set (snd (insert_rows rs (xs @ [(js_get r ''id'', r)]))). owned col ns (snd row) \<or> fst row \<in> F)"
      by (rule Cons.IH) (use Cons.prems in auto)
    have "selected (owned col ns) (xs @ [(js_get r ''id'', r)]) = selected (owned col ns) xs @ [(js_get r ''id'', r)]"
      using Cons.prems(1) by (simp add: selected_def)
    then show ?thesis using ih has False by simp
  qed
qed simp

lemma insert_foreign:
  assumes "\<forall>r \<in> set rs. \<not> owned col ns r \<and> js_get r ''id'' \<in> F" and "\<forall>row \<in> set xs. owned col ns (snd row) \<or> fst row \<in> F"
  shows "selected (owned col ns) (snd (insert_rows rs xs)) = selected (owned col ns) xs \<and>
    (\<forall>row \<in> set (snd (insert_rows rs xs)). owned col ns (snd row) \<or> fst row \<in> F)"
  using assms
proof (induction rs arbitrary: xs)
  case (Cons r rs)
  have "selected (owned col ns) (xs @ [(js_get r ''id'', r)]) = selected (owned col ns) xs"
    using Cons.prems(1) by (simp add: selected_def)
  then show ?case using Cons.IH [of "xs @ [(js_get r ''id'', r)]"] Cons.prems by auto
qed simp

lemma own_step:
  assumes sim: "alike col ns F s t" and req: "scoped_request col ns op"
    and ids: "\<forall>x \<in> set (created_ids op). js_truthy x \<and> x \<notin> F"
  shows "fst (ad op s) = fst (ad op t) \<and> alike col ns F (snd (ad op s)) (snd (ad op t))"
proof -
  have ok: "ok s" "ok t" and rt: "\<And>m. rows t m = selected (owned col ns) (rows s m)"
    and keys: "\<And>m. \<forall>row \<in> set (rows s m). owned col ns (snd row) \<or> fst row \<in> F"
    using sim by (auto simp: alike_def)
  note ok' = ok [THEN ok_step, of op]
  from req consider m w where "op_target op = Some (m, w @ [namespace_clause col ns])" "col \<notin> set (jmap_keys (op_data op))"
    | m rs where "creation op = Some (m, rs)" "\<forall>r \<in> set rs. owned col ns r"
    unfolding scoped_request_def by blast
  then show ?thesis
  proof cases
    case (1 m w)
    let ?h = "hit (w @ [namespace_clause col ns])"
    have own: "\<And>r. ?h r \<Longrightarrow> owned col ns r" by (simp add: hit_scoped)
    have sel: "selected ?h (rows s m) = selected ?h (rows t m)" by (rule alike_selected [OF sim own])
    obtain g where g: "row_rewrite ?h (op_data op) g" and s': "rows (snd (ad op s)) m = concat (map g (rows s m))"
      and t': "rows (snd (ad op t)) m = concat (map g (rows t m))"
      using same_effect [OF ok 1(1) sel] by blast
    have "rows (snd (ad op t)) m' = selected (owned col ns) (rows (snd (ad op s)) m') \<and>
        (\<forall>row \<in> set (rows (snd (ad op s)) m'). owned col ns (snd row) \<or> fst row \<in> F)" for m'
    proof (cases "m' = m")
      case True
      then show ?thesis
        using rewrite_own [OF g own 1(2), of "rows s m"] rewrite_keys [OF g 1(2) keys] by (simp add: s' t' rt)
    next
      case False
      then show ?thesis using other_tables [OF ok(1) disjI1 [OF 1(1)] False] other_tables [OF ok(2) disjI1 [OF 1(1)] False] rt keys by simp
    qed
    then show ?thesis using same_answer [OF ok 1(1) sel] ok' by (simp add: alike_def)
  next
    case (2 m rs)
    have truthy: "list_all js_truthy (created_ids op)" using ids by (simp add: list_all_iff)
    have rs: "\<forall>r \<in> set rs. owned col ns r \<and> js_get r ''id'' \<notin> F" using 2(2) ids creation_ids [OF 2(1)] by simp
    note ins = insert_own [OF rs keys [of m], folded rt]
    have "rows (snd (ad op t)) m' = selected (owned col ns) (rows (snd (ad op s)) m') \<and>
        (\<forall>row \<in> set (rows (snd (ad op s)) m'). owned col ns (snd row) \<or> fst row \<in> F)" for m'
    proof (cases "m' = m")
      case True
      then show ?thesis
        using ins create_effect [OF ok(1) 2(1) truthy] create_effect [OF ok(2) 2(1) truthy] by simp
    next
      case False
      then show ?thesis using other_tables [OF ok(1) disjI2 [OF 2(1)] False] other_tables [OF ok(2) disjI2 [OF 2(1)] False] rt keys by simp
    qed
    then show ?thesis using create_answer [OF ok 2(1) truthy] ins ok' by (simp add: alike_def)
  qed
qed

lemma foreign_step:
  assumes sim: "alike col ns F s t" and req: "scoped_request col ns' op" and ne: "ns' \<noteq> ns"
    and ids: "\<forall>x \<in> set (created_ids op). js_truthy x \<and> x \<in> F"
  shows "alike col ns F (snd (ad op s)) t"
proof -
  have ok: "ok s" "ok t" and rt: "\<And>m. rows t m = selected (owned col ns) (rows s m)"
    and keys: "\<And>m. \<forall>row \<in> set (rows s m). owned col ns (snd row) \<or> fst row \<in> F"
    using sim by (auto simp: alike_def)
  have other: "\<not> owned col ns r" if "owned col ns' r" for r using that ne by (simp add: owned_def)
  from req consider m w where "op_target op = Some (m, w @ [namespace_clause col ns'])" "col \<notin> set (jmap_keys (op_data op))"
    | m rs where "creation op = Some (m, rs)" "\<forall>r \<in> set rs. owned col ns' r"
    unfolding scoped_request_def by blast
  then have "rows t m' = selected (owned col ns) (rows (snd (ad op s)) m') \<and>
      (\<forall>row \<in> set (rows (snd (ad op s)) m'). owned col ns (snd row) \<or> fst row \<in> F)" for m'
  proof cases
    case (1 m w)
    have foreign: "\<And>r. hit (w @ [namespace_clause col ns']) r \<Longrightarrow> \<not> owned col ns r" by (simp add: hit_scoped other)
    show ?thesis
    proof (cases "m' = m")
      case True
      from same_effect [OF ok(1) ok(1) 1(1) refl] obtain g where g: "row_rewrite (hit (w @ [namespace_clause col ns'])) (op_data op) g"
        and s': "rows (snd (ad op s)) m = concat (map g (rows s m))" by blast
      show ?thesis using rewrite_foreign [OF g foreign 1(2), of "rows s m"] rewrite_keys [OF g 1(2) keys] True by (simp add: s' rt)
    next
      case False
      then show ?thesis using other_tables [OF ok(1) disjI1 [OF 1(1)] False] rt keys by simp
    qed
  next
    case (2 m rs)
    have truthy: "list_all js_truthy (created_ids op)" using ids by (simp add: list_all_iff)
    have rs: "\<forall>r \<in> set rs. \<not> owned col ns r \<and> js_get r ''id'' \<in> F" using 2(2) ids creation_ids [OF 2(1)] other by simp
    show ?thesis
    proof (cases "m' = m")
      case True
      then show ?thesis using insert_foreign [OF rs keys [of m]] create_effect [OF ok(1) 2(1) truthy] by (simp add: rt)
    next
      case False
      then show ?thesis using other_tables [OF ok(1) disjI2 [OF 2(1)] False] rt keys by simp
    qed
  qed
  then show ?thesis using ok ok_step [OF ok(1), of op] by (simp add: alike_def)
qed

lemma own_upsert:
  assumes sim: "alike col ns F s t" and req: "scoped_upsert col ns p"
    and ids: "js_truthy (js_get (us_create p) ''id'') \<and> js_get (us_create p) ''id'' \<notin> F"
  shows "fst (ad (DbUpsert p) s) = fst (ad (DbUpsert p) t) \<and> alike col ns F (snd (ad (DbUpsert p) s)) (snd (ad (DbUpsert p) t))"
proof -
  from req obtain w where w: "us_where p = w @ [namespace_clause col ns]" and own: "owned col ns (us_create p)"
    and upd: "col \<notin> set (jmap_keys (us_update p))" by (auto simp: scoped_upsert_def)
  have ne: "us_where p \<noteq> []" by (simp add: w)
  have sel: "selected (hit (us_where p)) (rows s (us_model p)) = selected (hit (us_where p)) (rows t (us_model p))"
    by (rule alike_selected [OF sim]) (simp add: w hit_scoped)
  let ?c = "DbCreate \<lparr>cp_model = us_model p, cp_data = us_create p, cp_select = us_select p, cp_namespace = us_namespace p\<rparr>"
  let ?u = "DbUpdate \<lparr>up_model = us_model p, up_where = us_where p, up_data = us_update p, up_select = us_select p, up_namespace = us_namespace p\<rparr>"
  have c: "scoped_request col ns ?c" and u: "scoped_request col ns ?u"
    using own upd by (simp_all add: scoped_request_def w)
  have "\<forall>x \<in> set (created_ids ?c). js_truthy x \<and> x \<notin> F" "\<forall>x \<in> set (created_ids ?u). js_truthy x \<and> x \<notin> F"
    using ids by (simp_all add: created_ids_def)
  note steps = own_step [OF sim c this(1)] own_step [OF sim u this(2)]
  have "ok s" "ok t" using sim by (simp_all add: alike_def)
  note this [THEN upsert [OF _ ne conjunct1 [OF ids]]]
  then show ?thesis using steps by (simp only: sel split: if_split) blast
qed

lemma foreign_upsert:
  assumes sim: "alike col ns F s t" and req: "scoped_upsert col ns' p" and ne': "ns' \<noteq> ns"
    and ids: "js_truthy (js_get (us_create p) ''id'') \<and> js_get (us_create p) ''id'' \<in> F"
  shows "alike col ns F (snd (ad (DbUpsert p) s)) t"
proof -
  from req obtain w where w: "us_where p = w @ [namespace_clause col ns']" and own: "owned col ns' (us_create p)"
    and upd: "col \<notin> set (jmap_keys (us_update p))" by (auto simp: scoped_upsert_def)
  have ne: "us_where p \<noteq> []" by (simp add: w)
  let ?c = "DbCreate \<lparr>cp_model = us_model p, cp_data = us_create p, cp_select = us_select p, cp_namespace = us_namespace p\<rparr>"
  let ?u = "DbUpdate \<lparr>up_model = us_model p, up_where = us_where p, up_data = us_update p, up_select = us_select p, up_namespace = us_namespace p\<rparr>"
  have c: "scoped_request col ns' ?c" and u: "scoped_request col ns' ?u"
    using own upd by (simp_all add: scoped_request_def w)
  have "\<forall>x \<in> set (created_ids ?c). js_truthy x \<and> x \<in> F" "\<forall>x \<in> set (created_ids ?u). js_truthy x \<and> x \<in> F"
    using ids by (simp_all add: created_ids_def)
  note steps = foreign_step [OF sim c ne' this(1)] foreign_step [OF sim u ne' this(2)]
  have "ok s" using sim by (simp add: alike_def)
  note upsert [OF this ne conjunct1 [OF ids]]
  then show ?thesis using steps by simp
qed

text \<open>One call of the wrapped adapter, by the namespace itself and by anyone else.\<close>

lemma own_call:
  assumes col: "col \<noteq> ''id''" and sim: "alike col ns F s t" and by_ns: "op_namespace op = Some ns"
    and ids: "\<forall>x \<in> set (created_ids op). js_truthy x \<and> x \<notin> F"
  shows "fst (namespace_adapter col True ad op s) = fst (namespace_adapter col True ad op t) \<and>
    alike col ns F (snd (namespace_adapter col True ad op s)) (snd (namespace_adapter col True ad op t))"
proof (cases "namespace_request col True op")
  case (Inl e)
  then show ?thesis using sim by (simp add: namespace_adapter_def)
next
  case (Inr op')
  have np: "\<not> passed_through op" using by_ns by (cases op) (auto simp: passed_through_def)
  from request_cases [OF col np Inr] by_ns
  have ids': "created_ids op' = created_ids op" and req: "scoped_request col ns op' \<or> (\<exists>p. op' = DbUpsert p \<and> scoped_upsert col ns p)"
    by (metis option.inject)+
  have "fst (ad op' s) = fst (ad op' t) \<and> alike col ns F (snd (ad op' s)) (snd (ad op' t))"
    using req
  proof (elim disjE exE conjE)
    assume "scoped_request col ns op'"
    then show ?thesis by (rule own_step [OF sim]) (simp add: ids' ids)
  next
    fix p assume p: "op' = DbUpsert p" "scoped_upsert col ns p"
    have "js_get (us_create p) ''id'' \<in> set (created_ids op)" unfolding ids' [symmetric] p(1) by (simp add: created_ids_def)
    then have "js_truthy (js_get (us_create p) ''id'') \<and> js_get (us_create p) ''id'' \<notin> F" using ids by blast
    then show ?thesis unfolding p(1) by (rule own_upsert [OF sim p(2)])
  qed
  then show ?thesis using np by (simp add: namespace_adapter_def Inr)
qed

lemma foreign_call:
  assumes col: "col \<noteq> ''id''" and sim: "alike col ns F s t" and not_ns: "op_namespace op \<noteq> Some ns"
    and ids: "\<forall>x \<in> set (created_ids op). js_truthy x \<and> x \<in> F"
  shows "alike col ns F (snd (namespace_adapter col True ad op s)) t"
proof (cases "namespace_request col True op")
  case (Inl e)
  then show ?thesis using sim by (simp add: namespace_adapter_def)
next
  case (Inr op')
  show ?thesis
  proof (cases "passed_through op")
    case True
    then have "op' = op" using Inr by (cases op) (auto simp: passed_through_def)
    moreover have "alike col ns F (snd (ad op s)) t"
      using sim unscoped [OF True] ok_step [of s op] by (simp add: alike_def)
    ultimately show ?thesis using True by (simp add: namespace_adapter_def Inr)
  next
    case np: False
    from request_cases [OF col np Inr] obtain ns' where ns': "op_namespace op = Some ns'" and ids': "created_ids op' = created_ids op"
      and req: "scoped_request col ns' op' \<or> (\<exists>p. op' = DbUpsert p \<and> scoped_upsert col ns' p)" by metis
    have ne: "ns' \<noteq> ns" using not_ns ns' by simp
    have "alike col ns F (snd (ad op' s)) t"
      using req
    proof (elim disjE exE conjE)
      assume "scoped_request col ns' op'"
      then show ?thesis by (rule foreign_step [OF sim _ ne]) (simp add: ids' ids)
    next
      fix p assume p: "op' = DbUpsert p" "scoped_upsert col ns' p"
      have "js_get (us_create p) ''id'' \<in> set (created_ids op)" unfolding ids' [symmetric] p(1) by (simp add: created_ids_def)
      then have "js_truthy (js_get (us_create p) ''id'') \<and> js_get (us_create p) ''id'' \<in> F" using ids by blast
      then show ?thesis unfolding p(1) by (rule foreign_upsert [OF sim p(2) ne])
    qed
    then show ?thesis using np by (simp add: namespace_adapter_def Inr)
  qed
qed

lemma noninterference:
  assumes col: "col \<noteq> ''id''" and "alike col ns F s t"
    and "\<forall>op \<in> set ops. (\<forall>x \<in> set (created_ids op). js_truthy x \<and> (x \<in> F \<longleftrightarrow> op_namespace op \<noteq> Some ns))"
  shows "map snd (filter (\<lambda>(op, _). op_namespace op = Some ns) (zip ops (run_ops (namespace_adapter col True ad) ops s))) =
    run_ops (namespace_adapter col True ad) (filter (\<lambda>op. op_namespace op = Some ns) ops) t"
  using assms(2,3)
proof (induction ops arbitrary: s t)
  case (Cons op ops)
  show ?case
  proof (cases "op_namespace op = Some ns")
    case True
    from own_call [OF col Cons.prems(1) True] Cons.prems(2) True
    have eq: "fst (namespace_adapter col True ad op s) = fst (namespace_adapter col True ad op t)"
      and next_sim: "alike col ns F (snd (namespace_adapter col True ad op s)) (snd (namespace_adapter col True ad op t))" by auto
    show ?thesis using Cons.IH [OF next_sim] Cons.prems(2) True eq by simp
  next
    case False
    have "alike col ns F (snd (namespace_adapter col True ad op s)) t"
      by (rule foreign_call [OF col Cons.prems(1) False]) (use Cons.prems(2) False in auto)
    from Cons.IH [OF this] Cons.prems(2) False show ?thesis by simp
  qed
qed simp

end

section \<open>The in-memory adapter as a row store\<close>

lemma hits_selected: "selected (matches_where (de_dtoa env) w) t = filter (hits env w) t"
  by (simp add: selected_def hits_def [abs_def])

lemma matches_where_snoc:
  "matches_where dtoa (w @ [namespace_clause col ns]) r \<longleftrightarrow> matches_where dtoa w r \<and> owned col ns r"
proof -
  have "clause_holds dtoa r (namespace_clause col ns) = owned col ns r"
    by (cases "js_get r col") (auto simp: clause_holds_def matches_clause_def namespace_clause_def value_eq_def owned_def)
  then show ?thesis
    by (cases w) (auto simp: matches_where_def connect_def namespace_clause_def)
qed

text \<open>The two kinds of write: to the first selected row, and to all of them.\<close>

lemma rewrite_first:
  assumes "db_ok s" and "find (hits env w) (model_table env m s) = Some (k, r)"
  shows "model_table env m (put_model env m (jmap_set k (spread r d) (model_table env m s)) s) =
      concat (map (\<lambda>row. if row = (k, r) then [(k, spread r d)] else [row]) (model_table env m s))"
    and "model_table env m (put_model env m (jmap_del k (model_table env m s)) s) =
      concat (map (\<lambda>row. if row = (k, r) then [] else [row]) (model_table env m s))"
proof -
  have row: "(k, r) \<in> set (model_table env m s)" using found_row [OF assms(2)] by simp
  then have ne: "model_table env m s \<noteq> []" by auto
  note keys = model_table_ok [OF assms(1), of env m]
  show "model_table env m (put_model env m (jmap_set k (spread r d) (model_table env m s)) s) =
      concat (map (\<lambda>row. if row = (k, r) then [(k, spread r d)] else [row]) (model_table env m s))"
    by (simp only: jmap_set_row [OF keys row]) (simp add: model_table_put ne)
  show "model_table env m (put_model env m (jmap_del k (model_table env m s)) s) =
      concat (map (\<lambda>row. if row = (k, r) then [] else [row]) (model_table env m s))"
    by (simp only: jmap_del_row [OF keys row]) (simp add: model_table_put ne)
qed

lemma row_rewrite_first:
  "matches_where (de_dtoa env) w r \<Longrightarrow>
     row_rewrite (matches_where (de_dtoa env) w) d (\<lambda>row. if row = (k, r) then [(k, spread r d)] else [row])"
  "matches_where (de_dtoa env) w r \<Longrightarrow> row_rewrite (matches_where (de_dtoa env) w) d (\<lambda>row. if row = (k, r) then [] else [row])"
  "row_rewrite h d (\<lambda>row. [row])"
  by (auto simp: row_rewrite_def)

lemma put_model_other [simp]: "n \<noteq> m \<Longrightarrow> model_table env n (put_model env m t s) = model_table env n s"
  by (simp add: model_table_def put_model_def)

lemma unchanged_rows: "concat (map (\<lambda>row. [row]) t) = t"
  by (induction t) auto

lemma update_many_rows:
  "model_table env m (put_model env m (map (\<lambda>row. if hits env w row then (fst row, spread (snd row) d) else row) (model_table env m s)) s) =
    concat (map (\<lambda>row. if hits env w row then [(fst row, spread (snd row) d)] else [row]) (model_table env m s))"
proof -
  have "map (\<lambda>row. if hits env w row then (fst row, spread (snd row) d) else row) t =
      concat (map (\<lambda>row. if hits env w row then [(fst row, spread (snd row) d)] else [row]) t)" for t
    by (induction t) auto
  then show ?thesis by (cases "model_table env m s = []") (simp_all add: model_table_put)
qed

lemma delete_many_rows:
  "model_table env m (put_model env m (filter (\<lambda>row. \<not> hits env w row) (model_table env m s)) s) =
    concat (map (\<lambda>row. if hits env w row then [] else [row]) (model_table env m s))"
proof -
  have "filter (\<lambda>row. \<not> hits env w row) t = concat (map (\<lambda>row. if hits env w row then [] else [row]) t)" for t
    by (induction t) auto
  then show ?thesis by (cases "model_table env m s = []") (simp_all add: model_table_put)
qed

lemma row_rewrite_all:
  "row_rewrite (matches_where (de_dtoa env) w) d (\<lambda>row. if hits env w row then [(fst row, spread (snd row) d)] else [row])"
  "row_rewrite (matches_where (de_dtoa env) w) d (\<lambda>row. if hits env w row then [] else [row])"
  by (auto simp: row_rewrite_def hits_def)

lemma adapter_same_answer:
  assumes "op_target op = Some (m, w)" and "filter (hits env w) (model_table env m s) = filter (hits env w) (model_table env m t)"
  shows "fst (memory_db_adapter env op s) = fst (memory_db_adapter env op t)"
  using assms same_find [OF assms(2)]
  by (cases op) (auto simp: mem_find_one_def mem_find_many_def mem_update_def mem_update_many_def mem_delete_def
      mem_delete_many_def mem_count_def Let_def split: option.split)

lemma adapter_same_effect:
  assumes ok: "db_ok s" "db_ok t" and op: "op_target op = Some (m, w)"
    and same: "filter (hits env w) (model_table env m s) = filter (hits env w) (model_table env m t)"
  shows "\<exists>g. row_rewrite (matches_where (de_dtoa env) w) (op_data op) g \<and>
    model_table env m (snd (memory_db_adapter env op s)) = concat (map g (model_table env m s)) \<and>
    model_table env m (snd (memory_db_adapter env op t)) = concat (map g (model_table env m t))"
proof -
  note found = same_find [OF same]
  have untouched: ?thesis if "snd (memory_db_adapter env op s) = s" "snd (memory_db_adapter env op t) = t"
    using that row_rewrite_first(3) by (intro exI [of _ "\<lambda>row. [row]"]) (simp add: unchanged_rows)
  show ?thesis
  proof (cases op)
    case (DbUpdate p)
    then have p: "up_model p = m" "up_where p = w" using op by auto
    show ?thesis
    proof (cases "w = [] \<or> find (hits env w) (model_table env m s) = None")
      case True
      then show ?thesis using found by (intro untouched) (auto simp: DbUpdate mem_update_def p)
    next
      case False
      then obtain k r where kr: "find (hits env w) (model_table env m s) = Some (k, r)" by auto
      then have hit: "matches_where (de_dtoa env) w r" by (auto dest!: found_row simp: hits_def)
      show ?thesis
        using row_rewrite_first(1) [OF hit, of "up_data p" k] False kr found
          rewrite_first(1) [OF ok(1) kr] rewrite_first(1) [OF ok(2), of env w m k r]
        by (intro exI [of _ "\<lambda>row. if row = (k, r) then [(k, spread r (up_data p))] else [row]"])
          (simp add: DbUpdate mem_update_def p Let_def)
    qed
  next
    case (DbDelete p)
    then have p: "wp_model p = m" "wp_where p = w" using op by auto
    show ?thesis
    proof (cases "w = [] \<or> find (hits env w) (model_table env m s) = None")
      case True
      then show ?thesis using found by (intro untouched) (auto simp: DbDelete mem_delete_def p)
    next
      case False
      then obtain k r where kr: "find (hits env w) (model_table env m s) = Some (k, r)" by auto
      then have hit: "matches_where (de_dtoa env) w r" by (auto dest!: found_row simp: hits_def)
      show ?thesis
        using row_rewrite_first(2) [OF hit, of "[]" k] False kr found
          rewrite_first(2) [OF ok(1) kr] rewrite_first(2) [OF ok(2), of env w m k r]
        by (intro exI [of _ "\<lambda>row. if row = (k, r) then [] else [row]"]) (simp add: DbDelete mem_delete_def p Let_def)
    qed
  next
    case (DbUpdateMany p)
    then have p: "um_model p = m" "um_where p = w" using op by auto
    show ?thesis
      using row_rewrite_all(1) [of env w "um_data p"]
      by (intro exI [of _ "\<lambda>row. if hits env w row then [(fst row, spread (snd row) (um_data p))] else [row]"])
        (simp add: DbUpdateMany mem_update_many_def p Let_def update_many_rows)
  next
    case (DbDeleteMany p)
    then have p: "wp_model p = m" "wp_where p = w" using op by auto
    show ?thesis
      using row_rewrite_all(2) [of env w "[]"]
      by (intro exI [of _ "\<lambda>row. if hits env w row then [] else [row]"])
        (simp add: DbDeleteMany mem_delete_many_def p Let_def delete_many_rows)
  qed ((rule untouched; use op in simp)+)
qed

lemma adapter_other_tables:
  assumes "op_target op = Some (m, w) \<or> creation op = Some (m, rs)" and "m' \<noteq> m"
  shows "model_table env m' (snd (memory_db_adapter env op s)) = model_table env m' s"
proof -
  have fresh: "model_table env n (s\<lparr>md_fresh := k\<rparr>) = model_table env n s" for n s k by (simp add: model_table_def)
  have id: "model_table env n (snd (with_id env r s)) = model_table env n s" for n r s by (simp add: with_id_def fresh)
  have ids: "model_table env n (snd (with_ids env rs s)) = model_table env n s" for n rs s
    by (induction rs arbitrary: s) (simp_all add: case_prod_beta id)
  have create: "model_table env m' (snd (mem_create env p s)) = model_table env m' s" if "cp_model p \<noteq> m'" for p s
    using that by (simp add: mem_create_def Let_def case_prod_beta id_or_new_def model_table_def table_of_absent)
  have many: "model_table env m' (snd (mem_create_many env m sel ns rs s)) = model_table env m' s" for sel ns rs s
  proof (induction rs arbitrary: s)
    case (Cons r rs)
    then show ?case using assms(2) create [of "\<lparr>cp_model = m, cp_data = r, cp_select = sel, cp_namespace = ns\<rparr>"]
      by (auto simp: case_prod_beta split: sum.split)
  qed simp
  show ?thesis
    using assms by (cases op) (auto simp: case_prod_beta create many id ids mem_update_def mem_update_many_def mem_delete_def
        mem_delete_many_def Let_def split: option.split)
qed

lemma adapter_create_effect:
  assumes "creation op = Some (m, rs)" and "list_all js_truthy (created_ids op)"
  shows "model_table env m (snd (memory_db_adapter env op s)) = snd (insert_rows rs (model_table env m s))"
proof (cases op)
  case (DbCreate p)
  then have t: "js_truthy (js_get (cp_data p) ''id'')" using assms by (auto simp: created_ids_def)
  from mem_create_cases(2) [OF t] show ?thesis using assms(1) t by (auto simp: DbCreate)
next
  case (DbCreateMany p)
  then have t: "\<forall>r \<in> set (cm_data p). js_truthy (js_get r ''id'')" using assms by (simp add: created_ids_def list_all_iff)
  from mem_create_many_cases [OF t] show ?thesis using assms(1) t by (simp add: DbCreateMany)
qed (use assms in auto)

lemma adapter_create_answer:
  assumes "creation op = Some (m, rs)" and "list_all js_truthy (created_ids op)"
    and "fst (insert_rows rs (model_table env m s)) = fst (insert_rows rs (model_table env m t))"
  shows "fst (memory_db_adapter env op s) = fst (memory_db_adapter env op t)"
proof (cases op)
  case (DbCreate p)
  then have t: "js_truthy (js_get (cp_data p) ''id'')" using assms by (auto simp: created_ids_def)
  from mem_create_cases(1) [OF t] show ?thesis using assms(1,3) t by (auto simp: DbCreate split: if_splits)
next
  case (DbCreateMany p)
  then have t: "\<forall>r \<in> set (cm_data p). js_truthy (js_get r ''id'')" using assms by (simp add: created_ids_def list_all_iff)
  from mem_create_many_cases [OF t] show ?thesis using assms(1,3) t by (simp add: DbCreateMany)
qed (use assms in auto)

lemma adapter_upsert:
  assumes "us_where p \<noteq> []" and t: "js_truthy (js_get (us_create p) ''id'')"
  shows "memory_db_adapter env (DbUpsert p) s =
    (if filter (hits env (us_where p)) (model_table env (us_model p) s) = []
     then memory_db_adapter env (DbCreate \<lparr>cp_model = us_model p, cp_data = us_create p, cp_select = us_select p, cp_namespace = us_namespace p\<rparr>) s
     else memory_db_adapter env (DbUpdate \<lparr>up_model = us_model p, up_where = us_where p, up_data = us_update p, up_select = us_select p,
            up_namespace = us_namespace p\<rparr>) s)"
  using t by (simp add: mem_upsert_def mem_find_one_def find_filter split: list.split)

lemma internal_rows: "model_table env m (snd (internal_crud env c s)) = model_table env m s"
proof -
  have put: "model_table env m (put_internal n t s) = model_table env m s" for n t s
    by (simp add: model_table_def table_of_def put_internal_def)
  have ens: "model_table env m (s\<lparr>md_ensured := x\<rparr>) = model_table env m s" for x s
    by (simp add: model_table_def table_of_def)
  have new: "model_table env m (snd (id_or_new env r s)) = model_table env m s" for r s
    by (simp add: id_or_new_def model_table_def)
  have create: "model_table env m (snd (internal_create env n r s)) = model_table env m s" for n r s
    by (simp add: internal_create_def case_prod_beta Let_def put new)
  have many: "model_table env m (snd (internal_create_many env n rs s)) = model_table env m s" for n rs s
    by (induction rs arbitrary: s) (simp_all add: case_prod_beta create)
  show ?thesis
    by (cases c) (auto simp: put ens create many case_prod_beta internal_rewrite_def split: option.split)
qed

lemma adapter_unscoped: "passed_through op \<Longrightarrow> model_table env m (snd (memory_db_adapter env op s)) = model_table env m s"
proof -
  have "model_table env m (s\<lparr>md_versions := x\<rparr>) = model_table env m s" for x by (simp add: model_table_def table_of_def)
  then show "passed_through op \<Longrightarrow> ?thesis" by (cases op) (simp_all add: passed_through_def internal_rows)
qed

interpretation memory_rows: row_store "memory_db_adapter env" "\<lambda>s m. model_table env m s" db_ok "matches_where (de_dtoa env)"
proof (unfold_locales, goal_cases)
  case (1 w col ns r) show ?case by (rule matches_where_snoc)
next
  case (2 s op) then show ?case by (rule memory_adapter_ok)
next
  case (3 s t op m w) then show ?case by (intro adapter_same_answer) (auto simp: hits_selected)
next
  case (4 s t op m w) then show ?case by (intro adapter_same_effect) (auto simp: hits_selected)
next
  case (5 s op m w rs m') then show ?case by (intro adapter_other_tables) auto
next
  case (6 s op m rs) then show ?case by (intro adapter_create_effect) auto
next
  case (7 s t op m rs) then show ?case by (intro adapter_create_answer) auto
next
  case (8 s p) then show ?case unfolding hits_selected by (intro adapter_upsert) auto
next
  case (9 op s m) then show ?case by (rule adapter_unscoped)
qed

section \<open>Properties\<close>

definition foreign_ids :: "string \<Rightarrow> db_op list \<Rightarrow> jsval set" where
  "foreign_ids ns ops = set (concat (map created_ids (filter (\<lambda>op. op_namespace op \<noteq> Some ns) ops)))"

text \<open>
  C2: isolation of namespaces: through the wrapper, the answers one namespace gets in any
  history of operations by any callers on the in-memory database, from empty, are those of the same
  history without the operations of the others. Reads, writes, upserts and failing calls are covered.
  Every created record is given an id, a truthy one, and no id is created both in the namespace and
  in another: ids are unique in a table, whatever the namespace, and would collide
  (\<open>namespaces_share_ids\<close>).
\<close>

theorem namespace_noninterference:
  assumes "col \<noteq> ''id''"
    and "list_all (\<lambda>op. list_all js_truthy (created_ids op)) ops"
    and "list_all (\<lambda>op. op_namespace op = Some ns \<longrightarrow> list_all (\<lambda>x. x \<notin> foreign_ids ns ops) (created_ids op)) ops"
  shows "map snd (filter (\<lambda>(op, _). op_namespace op = Some ns)
      (zip ops (run_ops (namespace_adapter col True (memory_db_adapter env)) ops empty_db))) =
    run_ops (namespace_adapter col True (memory_db_adapter env)) (filter (\<lambda>op. op_namespace op = Some ns) ops) empty_db"
proof (rule memory_rows.noninterference [OF assms(1), where F = "foreign_ids ns ops"])
  have empty: "model_table env m empty_db = []" "db_ok empty_db" for m
    by (simp_all add: model_table_def table_of_def empty_db_def db_ok_def tables_ok_def)
  show "memory_rows.alike env col ns (foreign_ids ns ops) empty_db empty_db"
    by (simp add: memory_rows.alike_def selected_def empty)
  have "x \<in> foreign_ids ns ops" if "op \<in> set ops" "x \<in> set (created_ids op)" "op_namespace op \<noteq> Some ns" for op x
    using that by (auto simp: foreign_ids_def)
  then show "\<forall>op \<in> set ops. \<forall>x \<in> set (created_ids op). js_truthy x \<and> (x \<in> foreign_ids ns ops \<longleftrightarrow> op_namespace op \<noteq> Some ns)"
    using assms(2,3) unfolding list_all_iff by blast
qed

definition tenant_env :: db_env where
  "tenant_env = \<lparr>de_dtoa = (\<lambda>_. []), de_uuid = (\<lambda>_. ''u''),
     de_naming = \<lparr>nc_enabled = False, nc_separator = [], nc_prefix = None, nc_schema_support = False\<rparr>\<rparr>"

definition create_in :: "string \<Rightarrow> string \<Rightarrow> db_op" where
  "create_in ns key = DbCreate \<lparr>cp_model = ''m'', cp_data = [(''id'', JStr key)], cp_select = None, cp_namespace = Some ns\<rparr>"

definition count_in :: "string \<Rightarrow> db_op" where
  "count_in ns = DbCount \<lparr>wp_model = ''m'', wp_where = [], wp_namespace = Some ns\<rparr>"

definition delete_in :: "string \<Rightarrow> db_op" where
  "delete_in ns = DbDeleteMany \<lparr>wp_model = ''m'', wp_where = [], wp_namespace = Some ns\<rparr>"

lemmas tenant_simps = create_in_def count_in_def delete_in_def created_ids_def js_truthy_def js_get_def foreign_ids_def

theorem namespace_noninterference_witness:
  "map snd (filter (\<lambda>(op, _). op_namespace op = Some ''a'')
      (zip [create_in ''a'' ''x'', create_in ''b'' ''y'', delete_in ''b'', count_in ''a'']
        (run_ops (namespace_adapter ''n'' True (memory_db_adapter tenant_env))
          [create_in ''a'' ''x'', create_in ''b'' ''y'', delete_in ''b'', count_in ''a''] empty_db))) =
    [Inr (Record [(''id'', JStr ''x'')]), Inr (Counted 1)]"
proof -
  let ?ops = "[create_in ''a'' ''x'', create_in ''b'' ''y'', delete_in ''b'', count_in ''a'']"
  have "filter (\<lambda>op. op_namespace op = Some ''a'') ?ops = [create_in ''a'' ''x'', count_in ''a'']"
    by (simp add: tenant_simps)
  moreover have "run_ops (namespace_adapter ''n'' True (memory_db_adapter tenant_env)) [create_in ''a'' ''x'', count_in ''a''] empty_db =
      [Inr (Record [(''id'', JStr ''x'')]), Inr (Counted 1)]" by code_simp
  ultimately show ?thesis
    using namespace_noninterference [of "''n''" ?ops "''a''" tenant_env] by (simp add: tenant_simps del: run_ops.simps zip_Cons_Cons)
qed

text \<open>
  Where the code departs from its intent: the ids of all namespaces share one table, so a
  record that one namespace created makes the creation of another namespace fail, although that
  namespace sees no record at all.
\<close>

theorem namespaces_share_ids:
  "run_ops (namespace_adapter ''n'' True (memory_db_adapter tenant_env)) [create_in ''a'' ''x'', count_in ''b'', create_in ''b'' ''x''] empty_db =
    [Inr (Record [(''id'', JStr ''x'')]), Inr (Counted 0), Inl (unique_error tenant_env ''m'' (JStr ''x''))]"
  by code_simp

end
