(* ===== verification/AccessControl.thy ===== *)
theory AccessControl
  imports DfqlFilters JsConvert
begin

text \<open>
  Who may act as whom, \<open>datafn/server/src/execution/auth\<close>: the effective level of an actor on a
  record (\<open>access-resolver.ts\<close>), the walk through the hierarchy of principals
  (\<open>principal-resolver.ts\<close>) and its cache (\<open>cache.ts\<close>). The store of memberships and
  hierarchy edges is an argument, read at one instant during a resolution; its failures are
  values. \<open>localeCompare\<close> is the argument \<open>lc\<close>. The depth bound is an integer.
\<close>

section \<open>Principals\<close>

definition normalize_principal :: "jsval \<Rightarrow> string option" where
  "normalize_principal v =
     (case v of JStr s \<Rightarrow> if js_trim s = [] then None else Some (js_trim s) | _ \<Rightarrow> None)"

definition canonicalize_principal_from_user_id :: "string \<Rightarrow> string" where
  "canonicalize_principal_from_user_id userId =
     (if str_includes userId '':'' then userId else ''user:'' @ userId)"

definition canonicalize_actor_principal :: "string \<Rightarrow> string" where
  "canonicalize_actor_principal actorId =
     (case normalize_principal (JStr actorId) of
        None \<Rightarrow> ''user:''
      | Some p \<Rightarrow> if str_includes p '':'' then p else ''user:'' @ p)"

datatype principal_source = FromPrincipalId | FromUserId

datatype auth_failure = AuthFailure string string string

definition canonicalize_principal_input :: "jsval \<Rightarrow> jsval \<Rightarrow> auth_failure + string \<times> principal_source" where
  "canonicalize_principal_input principalId userId =
     (case normalize_principal principalId of
        Some p \<Rightarrow> Inr (p, FromPrincipalId)
      | None \<Rightarrow>
          (case normalize_principal userId of
             Some u \<Rightarrow> Inr (canonicalize_principal_from_user_id u, FromUserId)
           | None \<Rightarrow> Inl (AuthFailure ''DFQL_PRINCIPAL_INVALID'' ''principalId must be non-empty string''
               ''shareWith.principalId'')))"

section \<open>Levels and grants\<close>

datatype access_level = Viewer | Editor | Owner

datatype access_mode = ReadMode | WriteMode

datatype grant_kind = RecordGrant | ScopeGrant | RelationInherited

record access_grant =
  ag_principal :: string
  ag_level :: string
  ag_kind :: grant_kind
  ag_resource :: "string option"
  ag_source :: "string option"

definition level_weight :: "access_level \<Rightarrow> nat" where
  "level_weight l = (case l of Viewer \<Rightarrow> 1 | Editor \<Rightarrow> 2 | Owner \<Rightarrow> 3)"

definition level_name :: "access_level \<Rightarrow> string" where
  "level_name l = (case l of Viewer \<Rightarrow> ''viewer'' | Editor \<Rightarrow> ''editor'' | Owner \<Rightarrow> ''owner'')"

definition normalize_level :: "jsval \<Rightarrow> access_level option" where
  "normalize_level v =
     (if v = JStr ''viewer'' then Some Viewer else if v = JStr ''editor'' then Some Editor
      else if v = JStr ''owner'' then Some Owner else None)"

text \<open>The body of the loop over the grants: the grant as it is pushed, or \<open>None\<close> for \<open>continue\<close>.\<close>

definition match_grant :: "string jset \<Rightarrow> string \<Rightarrow> access_grant \<Rightarrow> (access_grant \<times> access_level) option" where
  "match_grant principals resourceId grant =
     (case (normalize_principal (JStr (ag_principal grant)), normalize_level (JStr (ag_level grant))) of
        (Some p, Some l) \<Rightarrow>
          if p \<notin> set principals then None
          else if ag_kind grant = ScopeGrant then
            (if ag_resource grant \<noteq> None then None else Some (grant\<lparr>ag_principal := p, ag_level := level_name l\<rparr>, l))
          else if ag_resource grant \<noteq> Some resourceId then None
          else Some (grant\<lparr>ag_principal := p, ag_level := level_name l\<rparr>, l)
      | _ \<Rightarrow> None)"

definition raise_level :: "access_level option \<Rightarrow> access_level \<Rightarrow> access_level option" where
  "raise_level current l =
     (case current of None \<Rightarrow> Some l | Some c \<Rightarrow> if level_weight c < level_weight l then Some l else current)"

fun take_grants ::
  "string jset \<Rightarrow> string \<Rightarrow> access_grant list \<Rightarrow> access_level option \<times> access_grant list \<Rightarrow> access_level option \<times> access_grant list" where
  "take_grants principals resourceId [] acc = acc"
| "take_grants principals resourceId (g # gs) acc =
     take_grants principals resourceId gs
       (case match_grant principals resourceId g of
          None \<Rightarrow> acc
        | Some (g', l) \<Rightarrow> (raise_level (fst acc) l, snd acc @ [g']))"

definition resolve_effective_level ::
  "string \<Rightarrow> string list \<Rightarrow> access_grant list \<Rightarrow> access_level option \<times> access_grant list" where
  "resolve_effective_level resourceId effectivePrincipals grants =
     take_grants (js_unique (some_of (map (\<lambda>p. normalize_principal (JStr p)) effectivePrincipals))) resourceId grants (None, [])"

section \<open>The owner field\<close>

definition owner_matches_actor :: "string \<Rightarrow> string \<Rightarrow> bool" where
  "owner_matches_actor ownerValue actorId =
     (let actorPrincipal = canonicalize_actor_principal actorId
      in ownerValue = actorId \<or> ownerValue = actorPrincipal \<or>
         canonicalize_principal_from_user_id ownerValue = actorPrincipal)"

definition denied :: "access_mode \<Rightarrow> auth_failure" where
  "denied mode = AuthFailure ''FORBIDDEN'' ''Authorization denied''
     (case mode of ReadMode \<Rightarrow> ''resource'' | WriteMode \<Rightarrow> ''operation'')"

definition owner_field_error :: "string \<Rightarrow> string \<Rightarrow> string \<Rightarrow> auth_failure" where
  "owner_field_error f problem path =
     AuthFailure ''DFQL_INVALID'' (''ownerField '' @ [CHR 0x22] @ f @ [CHR 0x22] @ problem) path"

text \<open>
  The result is whether the check was enforced, which is also whether the owner matched. The
  record is \<open>JUndef\<close> or \<open>JNull\<close> when there is none.
\<close>

definition enforce_owner_field_access :: "jsval \<Rightarrow> jsval \<Rightarrow> string option \<Rightarrow> access_mode \<Rightarrow> auth_failure + bool" where
  "enforce_owner_field_access ownerField r actorId mode =
     (if ownerField = JUndef then Inr False
      else
        (case normalize_principal ownerField of
           None \<Rightarrow> Inl (AuthFailure ''DFQL_INVALID'' ''ownerField must be a non-empty string'' ''permissions.ownerField'')
         | Some f \<Rightarrow>
             (case r of
                JObj kvs \<Rightarrow>
                  if \<not> jmap_has kvs f then
                    Inl (owner_field_error f '' is not present on record'' (''record.'' @ f))
                  else
                    (case normalize_principal (js_get kvs f) of
                       None \<Rightarrow> Inl (owner_field_error f '' must contain a non-empty string'' (''record.'' @ f))
                     | Some ownerValue \<Rightarrow>
                         (case actorId of
                            None \<Rightarrow> Inl (denied mode)
                          | Some actor \<Rightarrow>
                              if actor = [] \<or> \<not> owner_matches_actor ownerValue actor then Inl (denied mode)
                              else Inr True))
              | _ \<Rightarrow> Inl (owner_field_error f '' requires a record object'' ''record''))))"

record effective_access =
  ea_level :: "access_level option"
  ea_grants :: "access_grant list"
  ea_owner :: bool

definition resolve_effective_access ::
  "access_mode \<Rightarrow> string option \<Rightarrow> jsval \<Rightarrow> jsval \<Rightarrow> string \<Rightarrow> string list \<Rightarrow> access_grant list \<Rightarrow> auth_failure + effective_access" where
  "resolve_effective_access mode actorId ownerField r resourceId effectivePrincipals grants =
     bind_sum (enforce_owner_field_access ownerField r actorId mode) (\<lambda>ownerMatched.
       case resolve_effective_level resourceId effectivePrincipals grants of
         (level, matched) \<Rightarrow>
           Inr \<lparr>ea_level =
                  (if ownerMatched \<and>
                      (case level of None \<Rightarrow> True | Some l \<Rightarrow> level_weight l \<le> level_weight Owner)
                   then Some Owner else level),
                ea_grants = matched, ea_owner = ownerMatched\<rparr>)"

section \<open>The cache\<close>

record cached_resolution =
  cr_actor :: string
  cr_max_depth :: int
  cr_hierarchy :: nat
  cr_membership :: nat
  cr_actor_membership :: nat
  cr_principals :: "string list"

record namespace_cache =
  nk_hierarchy :: nat
  nk_membership :: nat
  nk_actor_membership :: "(string, nat) jmap"
  nk_parents :: "(string, string list) jmap"
  nk_resolved :: "(string, cached_resolution) jmap"

type_synonym auth_cache = "(string, namespace_cache) jmap"

definition create_namespace_state :: namespace_cache where
  "create_namespace_state =
     \<lparr>nk_hierarchy = 0, nk_membership = 0, nk_actor_membership = [], nk_parents = [], nk_resolved = []\<rparr>"

text \<open>\<open>getState\<close> adds a missing namespace; the state it returns is updated in place.\<close>

definition get_state :: "string \<Rightarrow> auth_cache \<Rightarrow> namespace_cache \<times> auth_cache" where
  "get_state ns c =
     (case jmap_get c ns of
        Some st \<Rightarrow> (st, c)
      | None \<Rightarrow> (create_namespace_state, jmap_set ns create_namespace_state c))"

definition change_state :: "string \<Rightarrow> (namespace_cache \<Rightarrow> namespace_cache) \<Rightarrow> auth_cache \<Rightarrow> auth_cache" where
  "change_state ns f c = (case get_state ns c of (st, c') \<Rightarrow> jmap_set ns (f st) c')"

definition cache_get_parents :: "string \<Rightarrow> string \<Rightarrow> auth_cache \<Rightarrow> string list option \<times> auth_cache" where
  "cache_get_parents ns p c = (case get_state ns c of (st, c') \<Rightarrow> (jmap_get (nk_parents st) p, c'))"

definition cache_set_parents :: "string \<Rightarrow> string \<Rightarrow> string list \<Rightarrow> auth_cache \<Rightarrow> auth_cache" where
  "cache_set_parents ns p parents = change_state ns (\<lambda>st. st\<lparr>nk_parents := jmap_set p parents (nk_parents st)\<rparr>)"

definition actor_revision :: "string \<Rightarrow> namespace_cache \<Rightarrow> nat" where
  "actor_revision actor st = (case jmap_get (nk_actor_membership st) actor of None \<Rightarrow> 0 | Some n \<Rightarrow> n)"

definition cache_get_resolved :: "string \<Rightarrow> string \<Rightarrow> int \<Rightarrow> auth_cache \<Rightarrow> string list option \<times> auth_cache" where
  "cache_get_resolved ns actor maxDepth c =
     (case get_state ns c of (st, c') \<Rightarrow>
        (case jmap_get (nk_resolved st) actor of
           None \<Rightarrow> None
         | Some cr \<Rightarrow>
             if cr_max_depth cr = maxDepth \<and> cr_hierarchy cr = nk_hierarchy st \<and>
                cr_membership cr = nk_membership st \<and> cr_actor_membership cr = actor_revision actor st
             then Some (cr_principals cr) else None, c'))"

definition cache_set_resolved :: "string \<Rightarrow> string \<Rightarrow> int \<Rightarrow> string list \<Rightarrow> auth_cache \<Rightarrow> auth_cache" where
  "cache_set_resolved ns actor maxDepth principals =
     change_state ns (\<lambda>st. st\<lparr>nk_resolved := jmap_set actor
       \<lparr>cr_actor = actor, cr_max_depth = maxDepth, cr_hierarchy = nk_hierarchy st, cr_membership = nk_membership st,
        cr_actor_membership = actor_revision actor st, cr_principals = principals\<rparr> (nk_resolved st)\<rparr>)"

definition invalidate_hierarchy :: "string \<Rightarrow> auth_cache \<Rightarrow> auth_cache" where
  "invalidate_hierarchy ns =
     change_state ns (\<lambda>st. st\<lparr>nk_hierarchy := nk_hierarchy st + 1, nk_parents := [], nk_resolved := []\<rparr>)"

definition invalidate_membership :: "string \<Rightarrow> string option \<Rightarrow> auth_cache \<Rightarrow> auth_cache" where
  "invalidate_membership ns actorId =
     change_state ns (\<lambda>st.
       case actorId of
         Some (c # cs) \<Rightarrow>
           st\<lparr>nk_actor_membership := jmap_set (c # cs) (actor_revision (c # cs) st + 1) (nk_actor_membership st),
              nk_resolved := jmap_del (c # cs) (nk_resolved st)\<rparr>
       | _ \<Rightarrow> st\<lparr>nk_membership := nk_membership st + 1, nk_actor_membership := [], nk_resolved := []\<rparr>)"

section \<open>The hierarchy\<close>

record hierarchy_edge =
  he_principal :: string
  he_parent :: string

record 'e principal_store =
  pst_memberships :: "string \<Rightarrow> string \<Rightarrow> 'e + string list"
  pst_parents :: "string \<Rightarrow> string list \<Rightarrow> 'e + hierarchy_edge list"

datatype 'e resolve_error = ExecutionError string string string jsval | StoreFailure 'e

definition unique_sorted :: "(string \<Rightarrow> string \<Rightarrow> int) \<Rightarrow> string list \<Rightarrow> string list" where
  "unique_sorted lc xs = js_sort lc (js_unique xs)"

definition take_cached ::
  "string \<Rightarrow> (string, string list) jmap \<times> string list \<times> auth_cache option \<Rightarrow> string \<Rightarrow>
   (string, string list) jmap \<times> string list \<times> auth_cache option" where
  "take_cached ns acc p =
     (case acc of (out, uncached, cache) \<Rightarrow>
        (case cache of
           None \<Rightarrow> (out, uncached @ [p], None)
         | Some c \<Rightarrow>
             (case cache_get_parents ns p c of
                (Some parents, c') \<Rightarrow> (jmap_set p parents out, uncached, Some c')
              | (None, c') \<Rightarrow> (out, uncached @ [p], Some c'))))"

definition group_edge :: "string list \<Rightarrow> (string, string jset) jmap \<Rightarrow> hierarchy_edge \<Rightarrow> (string, string jset) jmap" where
  "group_edge uncached grouped edge =
     (case (normalize_principal (JStr (he_principal edge)), normalize_principal (JStr (he_parent edge))) of
        (Some p, Some q) \<Rightarrow>
          if p \<notin> set uncached then grouped
          else jmap_set p (jset_add q (case jmap_get grouped p of None \<Rightarrow> [] | Some s \<Rightarrow> s)) grouped
      | _ \<Rightarrow> grouped)"

definition put_parents ::
  "(string \<Rightarrow> string \<Rightarrow> int) \<Rightarrow> string \<Rightarrow> (string, string jset) jmap \<Rightarrow> (string, string list) jmap \<times> auth_cache option \<Rightarrow> string \<Rightarrow>
   (string, string list) jmap \<times> auth_cache option" where
  "put_parents lc ns grouped acc p =
     (let parents = unique_sorted lc (case jmap_get grouped p of None \<Rightarrow> [] | Some s \<Rightarrow> s)
      in (jmap_set p parents (fst acc), map_option (cache_set_parents ns p parents) (snd acc)))"

definition load_parents ::
  "(string \<Rightarrow> string \<Rightarrow> int) \<Rightarrow> 'e principal_store \<Rightarrow> string \<Rightarrow> string list \<Rightarrow> auth_cache option \<Rightarrow>
   ('e resolve_error + (string, string list) jmap) \<times> auth_cache option" where
  "load_parents lc store ns principalIds cache =
     (case foldl (take_cached ns) ([], [], cache) principalIds of
        (out, uncached, cache1) \<Rightarrow>
          if uncached = [] then (Inr out, cache1)
          else
            (case pst_parents store ns uncached of
               Inl e \<Rightarrow> (Inl (StoreFailure e), cache1)
             | Inr edges \<Rightarrow>
                 (case foldl (put_parents lc ns (foldl (group_edge uncached) [] edges)) (out, cache1) uncached of
                    (out', cache2) \<Rightarrow> (Inr out', cache2))))"

text \<open>\<open>for (const x of xs) await f(x)\<close>: the first error ends the loop; the state stays changed.\<close>

fun run_each :: "('a \<Rightarrow> 's \<Rightarrow> ('e + unit) \<times> 's) \<Rightarrow> 'a list \<Rightarrow> 's \<Rightarrow> ('e + unit) \<times> 's" where
  "run_each f [] s = (Inr (), s)"
| "run_each f (x # xs) s = (case f x s of (Inl e, s') \<Rightarrow> (Inl e, s') | (Inr _, s') \<Rightarrow> run_each f xs s')"

record walk_state =
  ws_set :: "string jset"
  ws_list :: "string list"
  ws_expanded :: "string jset"
  ws_expanding :: "string jset"
  ws_cache :: "auth_cache option"

definition HIERARCHY :: string where "HIERARCHY = ''__datafn_principal_hierarchy''"

definition cycle_error :: "'e resolve_error" where
  "cycle_error = ExecutionError ''DFQL_INVALID'' ''Principal hierarchy cycle detected'' HIERARCHY JUndef"

definition depth_error :: "int \<Rightarrow> string \<Rightarrow> 'e resolve_error" where
  "depth_error maxDepth p = ExecutionError ''DFQL_INVALID'' ''Principal hierarchy maxDepth exceeded'' HIERARCHY
     (JObj [(''maxDepth'', JNum (Fin (of_int maxDepth))), (''principalId'', JStr p)])"

definition add_principal :: "string \<Rightarrow> walk_state \<Rightarrow> walk_state" where
  "add_principal p s =
     (if p \<in> set (ws_set s) then s else s\<lparr>ws_set := jset_add p (ws_set s), ws_list := ws_list s @ [p]\<rparr>)"

function walk ::
  "(string \<Rightarrow> string \<Rightarrow> int) \<Rightarrow> 'e principal_store \<Rightarrow> string \<Rightarrow> int \<Rightarrow> int \<Rightarrow> string \<Rightarrow> walk_state \<Rightarrow>
   ('e resolve_error + unit) \<times> walk_state" where
  "walk lc store ns maxDepth depth p s =
     (if maxDepth < depth then (Inl (depth_error maxDepth p), s)
      else if p \<in> set (ws_expanded s) then (Inr (), s)
      else if p \<in> set (ws_expanding s) then (Inl cycle_error, s)
      else
        (case load_parents lc store ns [p] (ws_cache s) of
           (Inl e, cache) \<Rightarrow> (Inl e, s\<lparr>ws_expanding := jset_add p (ws_expanding s), ws_cache := cache\<rparr>)
         | (Inr parentMap, cache) \<Rightarrow>
             (case run_each
                (\<lambda>q s'. if q \<in> set (ws_expanding s') then (Inl cycle_error, s')
                        else walk lc store ns maxDepth (depth + 1) q (add_principal q s'))
                (case jmap_get parentMap p of None \<Rightarrow> [] | Some parents \<Rightarrow> parents)
                (s\<lparr>ws_expanding := jset_add p (ws_expanding s), ws_cache := cache\<rparr>) of
                (Inl e, s2) \<Rightarrow> (Inl e, s2)
              | (Inr _, s2) \<Rightarrow>
                  (Inr (), s2\<lparr>ws_expanding := jset_del p (ws_expanding s2), ws_expanded := jset_add p (ws_expanded s2)\<rparr>))))"
  by pat_completeness auto
termination
  by (relation "measure (\<lambda>(lc, store, ns, maxDepth, depth, p, s). nat (maxDepth + 1 - depth))") auto

declare walk.simps [simp del]

definition DEFAULT_MAX_DEPTH :: int where "DEFAULT_MAX_DEPTH = 16"

definition compute_principals ::
  "(string \<Rightarrow> string \<Rightarrow> int) \<Rightarrow> 'e principal_store \<Rightarrow> string \<Rightarrow> string \<Rightarrow> int \<Rightarrow> auth_cache option \<Rightarrow>
   ('e resolve_error + string list) \<times> auth_cache option" where
  "compute_principals lc store ns actorId maxDepth cache =
     (case pst_memberships store ns actorId of
        Inl e \<Rightarrow> (Inl (StoreFailure e), cache)
      | Inr raw \<Rightarrow>
          (let direct = unique_sorted lc (some_of (map (\<lambda>p. normalize_principal (JStr p)) raw))
           in case run_each (walk lc store ns maxDepth 1) direct
                \<lparr>ws_set = js_unique direct, ws_list = direct, ws_expanded = [], ws_expanding = [], ws_cache = cache\<rparr> of
                (Inl e, s) \<Rightarrow> (Inl e, ws_cache s)
              | (Inr _, s) \<Rightarrow>
                  (let actor = canonicalize_actor_principal actorId
                   in (Inr (if actor \<in> set (ws_set s) then ws_list s else ws_list s @ [actor]), ws_cache s))))"

definition resolve_effective_principals ::
  "(string \<Rightarrow> string \<Rightarrow> int) \<Rightarrow> 'e principal_store \<Rightarrow> string \<Rightarrow> string \<Rightarrow> int option \<Rightarrow> auth_cache option \<Rightarrow>
   ('e resolve_error + string list) \<times> auth_cache option" where
  "resolve_effective_principals lc store ns actorId max_depth cache =
     (let maxDepth = (case max_depth of None \<Rightarrow> DEFAULT_MAX_DEPTH | Some d \<Rightarrow> d)
      in if maxDepth < 1 then
           (Inl (ExecutionError ''DFQL_INVALID'' ''maxDepth must be a positive integer'' ''maxDepth'' JUndef), cache)
         else
           (case (case cache of None \<Rightarrow> (None, None) | Some c \<Rightarrow> apsnd Some (cache_get_resolved ns actorId maxDepth c)) of
              (Some principals, cache1) \<Rightarrow> (Inr principals, cache1)
            | (None, cache1) \<Rightarrow>
                (case compute_principals lc store ns actorId maxDepth cache1 of
                   (Inl e, cache2) \<Rightarrow> (Inl e, cache2)
                 | (Inr principals, cache2) \<Rightarrow>
                     (Inr principals, map_option (cache_set_resolved ns actorId maxDepth principals) cache2))))"

end
