(* ===== verification/AccessCache.thy ===== *)
theory AccessCache
  imports AccessControl
begin

text \<open>
  The cache of resolved principals: whatever a resolution finds in it is what the store would
  have said, so a history of questions and of changes, each followed by its invalidation hook,
  gets the same answers with a cache as without one.
\<close>

section \<open>The cache\<close>

definition state_of :: "string \<Rightarrow> auth_cache \<Rightarrow> namespace_cache" where
  "state_of ns c = (case jmap_get c ns of Some st \<Rightarrow> st | None \<Rightarrow> create_namespace_state)"

definition fresh_resolution :: "string \<Rightarrow> int \<Rightarrow> namespace_cache \<Rightarrow> string list option" where
  "fresh_resolution actor maxDepth st =
     (case jmap_get (nk_resolved st) actor of
        None \<Rightarrow> None
      | Some cr \<Rightarrow>
          if cr_max_depth cr = maxDepth \<and> cr_hierarchy cr = nk_hierarchy st \<and>
             cr_membership cr = nk_membership st \<and> cr_actor_membership cr = actor_revision actor st
          then Some (cr_principals cr) else None)"

named_theorems cache_simps "what a cache holds after an operation"

lemma fst_get_state [cache_simps]: "fst (get_state ns c) = state_of ns c"
  by (simp add: get_state_def state_of_def split: option.split)

lemma state_of_snd_get_state [cache_simps]: "state_of ns' (snd (get_state ns c)) = state_of ns' c"
  by (simp add: get_state_def state_of_def jmap_simps split: option.split)

lemma state_of_change [cache_simps]:
  "state_of ns' (change_state ns f c) = (if ns' = ns then f (state_of ns c) else state_of ns' c)"
  by (simp add: change_state_def case_prod_beta cache_simps)
    (simp add: state_of_def get_state_def jmap_simps split: option.split)

lemma cache_get_parents_eq [cache_simps]:
  "cache_get_parents ns p c = (jmap_get (nk_parents (state_of ns c)) p, snd (get_state ns c))"
  by (simp add: cache_get_parents_def case_prod_beta cache_simps)

lemma cache_get_resolved_eq [cache_simps]:
  "cache_get_resolved ns actor maxDepth c = (fresh_resolution actor maxDepth (state_of ns c), snd (get_state ns c))"
  by (simp add: cache_get_resolved_def fresh_resolution_def case_prod_beta cache_simps cong: option.case_cong)

lemma fresh_resolution_set_parents [cache_simps]:
  "fresh_resolution actor maxDepth (st\<lparr>nk_parents := ps\<rparr>) = fresh_resolution actor maxDepth st"
  by (simp add: fresh_resolution_def actor_revision_def cong: option.case_cong)

lemma fresh_resolution_set [cache_simps]:
  "fresh_resolution a d (st\<lparr>nk_resolved := jmap_set actor
       \<lparr>cr_actor = actor, cr_max_depth = maxDepth, cr_hierarchy = nk_hierarchy st, cr_membership = nk_membership st,
        cr_actor_membership = actor_revision actor st, cr_principals = principals\<rparr> (nk_resolved st)\<rparr>) =
   (if a = actor then (if d = maxDepth then Some principals else None) else fresh_resolution a d st)"
  by (simp add: fresh_resolution_def actor_revision_def jmap_simps cong: option.case_cong)

section \<open>Parents\<close>

definition parents_of :: "(string \<Rightarrow> string \<Rightarrow> int) \<Rightarrow> hierarchy_edge list \<Rightarrow> string \<Rightarrow> string list" where
  "parents_of lc edges p =
     unique_sorted lc (case jmap_get (foldl (group_edge [p]) [] edges) p of None \<Rightarrow> [] | Some s \<Rightarrow> s)"

definition parents_at :: "(string \<Rightarrow> string \<Rightarrow> int) \<Rightarrow> 'e principal_store \<Rightarrow> string \<Rightarrow> string \<Rightarrow> 'e + string list" where
  "parents_at lc store ns p = map_sum id (\<lambda>edges. parents_of lc edges p) (pst_parents store ns [p])"

lemma unique_sorted_simps [simp]: "set (unique_sorted lc xs) = set xs" "distinct (unique_sorted lc xs)"
  by (simp_all add: unique_sorted_def)

definition edge_parents :: "hierarchy_edge \<Rightarrow> string \<Rightarrow> string set" where
  "edge_parents e p =
     {q. normalize_principal (JStr (he_principal e)) = Some p \<and> normalize_principal (JStr (he_parent e)) = Some q}"

definition grouped_at :: "(string, string jset) jmap \<Rightarrow> string \<Rightarrow> string jset" where
  "grouped_at grouped p = (case jmap_get grouped p of None \<Rightarrow> [] | Some s \<Rightarrow> s)"

lemma edge_grouped: "set (grouped_at (group_edge [p] m e) p) = set (grouped_at m p) \<union> edge_parents e p"
  by (auto simp: grouped_at_def group_edge_def edge_parents_def jmap_simps jset_simps split: option.splits)

lemma edges_grouped: "set (grouped_at (foldl (group_edge [p]) m edges) p) = set (grouped_at m p) \<union> (\<Union>e \<in> set edges. edge_parents e p)"
  by (induction edges arbitrary: m) (auto simp: edge_grouped)

lemma set_parents_of:
  "set (parents_of lc edges p) =
     {q. \<exists>e \<in> set edges. normalize_principal (JStr (he_principal e)) = Some p \<and> normalize_principal (JStr (he_parent e)) = Some q}"
  using edges_grouped [of p "[]" edges] by (simp add: parents_of_def) (auto simp: grouped_at_def edge_parents_def)

lemma load_parents_none:
  "load_parents lc store ns [p] None = (map_sum StoreFailure (\<lambda>ps. [(p, ps)]) (parents_at lc store ns p), None)"
  by (cases "pst_parents store ns [p]")
    (simp_all add: load_parents_def take_cached_def put_parents_def parents_at_def parents_of_def)

text \<open>The cache is sound for a store when whatever it returns is what the store would give.\<close>

definition parents_sound :: "(string \<Rightarrow> string \<Rightarrow> int) \<Rightarrow> 'e principal_store \<Rightarrow> auth_cache \<Rightarrow> bool" where
  "parents_sound lc store c =
     (\<forall>ns p ps. jmap_get (nk_parents (state_of ns c)) p = Some ps \<longrightarrow> parents_at lc store ns p = Inr ps)"

definition resolved_sound :: "(string \<Rightarrow> string \<Rightarrow> int) \<Rightarrow> 'e principal_store \<Rightarrow> auth_cache \<Rightarrow> bool" where
  "resolved_sound lc store c =
     (\<forall>ns a d ps. fresh_resolution a d (state_of ns c) = Some ps \<longrightarrow> fst (compute_principals lc store ns a d None) = Inr ps)"

definition same_resolved :: "auth_cache \<Rightarrow> auth_cache \<Rightarrow> bool" where
  "same_resolved c c' = (\<forall>ns a d. fresh_resolution a d (state_of ns c') = fresh_resolution a d (state_of ns c))"

text \<open>\<open>cache_step\<close>: what a resolution may do to the cache before it stores its own result.\<close>

definition cache_step :: "(string \<Rightarrow> string \<Rightarrow> int) \<Rightarrow> 'e principal_store \<Rightarrow> auth_cache option \<Rightarrow> auth_cache option \<Rightarrow> bool" where
  "cache_step lc store cache cache' =
     (case (cache, cache') of
        (None, None) \<Rightarrow> True
      | (Some c, Some c') \<Rightarrow> (parents_sound lc store c \<longrightarrow> parents_sound lc store c') \<and> same_resolved c c'
      | _ \<Rightarrow> False)"

lemma cache_step_refl [simp]: "cache_step lc store c c"
  by (simp add: cache_step_def same_resolved_def split: option.split)

lemma cache_step_trans: "cache_step lc store a b \<Longrightarrow> cache_step lc store b c \<Longrightarrow> cache_step lc store a c"
  by (auto simp: cache_step_def same_resolved_def split: option.splits)

abbreviation sound_parents :: "(string \<Rightarrow> string \<Rightarrow> int) \<Rightarrow> 'e principal_store \<Rightarrow> auth_cache option \<Rightarrow> bool" where
  "sound_parents lc store cache \<equiv> (\<forall>c. cache = Some c \<longrightarrow> parents_sound lc store c)"

lemma load_parents_cached:
  assumes "sound_parents lc store cache"
  shows "fst (load_parents lc store ns [p] cache) = fst (load_parents lc store ns [p] None) \<and>
         cache_step lc store cache (snd (load_parents lc store ns [p] cache))"
proof (cases cache)
  case (Some c)
  let ?c = "snd (get_state ns c)"
  have same: "cache_step lc store (Some c) (Some ?c)"
    by (simp add: cache_step_def parents_sound_def same_resolved_def cache_simps)
  show ?thesis
  proof (cases "jmap_get (nk_parents (state_of ns c)) p")
    case (Some ps)
    with assms \<open>cache = Some c\<close> have at: "parents_at lc store ns p = Inr ps" by (auto simp: parents_sound_def)
    show ?thesis
      unfolding load_parents_none using Some \<open>cache = Some c\<close> same
      by (simp add: load_parents_def take_cached_def cache_simps at)
  next
    case None
    have put: "cache_step lc store (Some c) (Some (cache_set_parents ns p (parents_of lc edges p) ?c))"
      if "pst_parents store ns [p] = Inr edges" for edges
    proof -
      have "parents_at lc store ns p = Inr (parents_of lc edges p)" by (simp add: parents_at_def that)
      then show ?thesis
        by (auto simp: cache_step_def parents_sound_def same_resolved_def cache_set_parents_def cache_simps jmap_simps)
    qed
    show ?thesis
      unfolding load_parents_none using None \<open>cache = Some c\<close> same
      by (cases "pst_parents store ns [p]")
        (simp_all add: load_parents_def take_cached_def cache_simps put_parents_def parents_at_def put Let_def flip: parents_of_def)
  qed
qed (simp add: load_parents_none)

section \<open>A cache does not change answers\<close>

lemma run_each_sim:
  assumes "\<And>x s. x \<in> set xs \<Longrightarrow> P s \<Longrightarrow> fst (f x s) = fst (f' x (h s)) \<and> h (snd (f x s)) = snd (f' x (h s)) \<and> P (snd (f x s)) \<and> R s (snd (f x s))"
    and "P s" and "\<And>s. R s s" and "\<And>a b c. R a b \<Longrightarrow> R b c \<Longrightarrow> R a c"
  shows "fst (run_each f xs s) = fst (run_each f' xs (h s)) \<and> h (snd (run_each f xs s)) = snd (run_each f' xs (h s)) \<and>
         P (snd (run_each f xs s)) \<and> R s (snd (run_each f xs s))"
  using assms(1,2)
proof (induction xs arbitrary: s)
  case Nil
  then show ?case using assms(3) by simp
next
  case (Cons x xs)
  obtain r s1 where f: "f x s = (r, s1)" by (cases "f x s")
  with Cons.prems have step: "f' x (h s) = (r, h s1)" "P s1" "R s s1"
    by (metis fst_conv list.set_intros(1) prod.collapse snd_conv)+
  show ?case
  proof (cases r)
    case (Inr u)
    have "fst (run_each f xs s1) = fst (run_each f' xs (h s1)) \<and> h (snd (run_each f xs s1)) = snd (run_each f' xs (h s1)) \<and>
         P (snd (run_each f xs s1)) \<and> R s1 (snd (run_each f xs s1))"
      using Cons.prems(1) step(2) by (intro Cons.IH) auto
    with Inr f step show ?thesis by (auto intro: assms(4))
  qed (use f step in simp)
qed

definition uncached :: "walk_state \<Rightarrow> walk_state" where
  "uncached s = s\<lparr>ws_cache := None\<rparr>"

lemma uncached_simps [simp]:
  "ws_set (uncached s) = ws_set s" "ws_list (uncached s) = ws_list s" "ws_expanded (uncached s) = ws_expanded s"
  "ws_expanding (uncached s) = ws_expanding s" "ws_cache (uncached s) = None"
  by (simp_all add: uncached_def)

lemma uncached_add [simp]: "uncached (add_principal p s) = add_principal p (uncached s)" "ws_cache (add_principal p s) = ws_cache s"
  by (simp_all add: add_principal_def uncached_def)

definition walk_sim :: "(string \<Rightarrow> string \<Rightarrow> int) \<Rightarrow> 'e principal_store \<Rightarrow> ('r \<times> walk_state) \<Rightarrow> ('r \<times> walk_state) \<Rightarrow> walk_state \<Rightarrow> bool" where
  "walk_sim lc store a b s =
     (fst a = fst b \<and> uncached (snd a) = snd b \<and> sound_parents lc store (ws_cache (snd a)) \<and>
      cache_step lc store (ws_cache s) (ws_cache (snd a)))"

lemma sound_step: "sound_parents lc store a \<Longrightarrow> cache_step lc store a b \<Longrightarrow> sound_parents lc store b"
  by (auto simp: cache_step_def split: option.splits)

lemma walk_cached:
  "sound_parents lc store (ws_cache s) \<Longrightarrow>
     walk_sim lc store (walk lc store ns maxDepth depth p s) (walk lc store ns maxDepth depth p (uncached s)) s"
proof (induction lc store ns maxDepth depth p s rule: walk.induct)
  case (1 lc store ns maxDepth depth p s)
  show ?case
  proof (cases "maxDepth < depth \<or> p \<in> set (ws_expanded s) \<or> p \<in> set (ws_expanding s)")
    case True
    then show ?thesis using "1.prems"
      by (subst (1 2) walk.simps) (auto simp: walk_sim_def)
  next
    case False
    define s1 where "s1 = s\<lparr>ws_expanding := jset_add p (ws_expanding s), ws_cache := snd (load_parents lc store ns [p] (ws_cache s))\<rparr>"
    have load: "fst (load_parents lc store ns [p] (ws_cache s)) = fst (load_parents lc store ns [p] None)"
      and step1: "cache_step lc store (ws_cache s) (snd (load_parents lc store ns [p] (ws_cache s)))"
      using load_parents_cached [OF "1.prems", of ns p] by auto
    have sound1: "sound_parents lc store (ws_cache s1)"
      using sound_step [OF "1.prems" step1] by (simp add: s1_def)
    let ?f = "\<lambda>q s'. if q \<in> set (ws_expanding s') then (Inl cycle_error, s')
                        else walk lc store ns maxDepth (depth + 1) q (add_principal q s')"
    have uncached_s1: "(uncached s)\<lparr>ws_expanding := jset_add p (ws_expanding s), ws_cache := None\<rparr> = uncached s1"
      by (simp add: s1_def uncached_def)
    have s1_eq: "s\<lparr>ws_expanding := jset_add p (ws_expanding s), ws_cache := cache\<rparr> = s1"
      if "snd (load_parents lc store ns [p] (ws_cache s)) = cache" for cache
      using that by (simp add: s1_def)
    show ?thesis
    proof (cases "parents_at lc store ns p")
      case (Inl e)
      then have "load_parents lc store ns [p] (ws_cache s) = (Inl (StoreFailure e), ws_cache s1)"
        using load by (simp add: load_parents_none s1_def prod_eq_iff)
      then show ?thesis using False sound1 step1 Inl
        by (subst (1 2) walk.simps) (auto simp: walk_sim_def load_parents_none uncached_def)
    next
      case (Inr ps)
      then have loaded: "load_parents lc store ns [p] (ws_cache s) = (Inr [(p, ps)], ws_cache s1)"
        using load by (simp add: load_parents_none s1_def prod_eq_iff)
      have each: "fst (run_each ?f ps s1) = fst (run_each ?f ps (uncached s1)) \<and>
          uncached (snd (run_each ?f ps s1)) = snd (run_each ?f ps (uncached s1)) \<and>
          sound_parents lc store (ws_cache (snd (run_each ?f ps s1))) \<and>
          cache_step lc store (ws_cache s1) (ws_cache (snd (run_each ?f ps s1)))"
      proof (rule run_each_sim [where R = "\<lambda>a b. cache_step lc store (ws_cache a) (ws_cache b)"
            and P = "\<lambda>s. sound_parents lc store (ws_cache s)"])
        fix q and s' :: walk_state assume "q \<in> set ps" "sound_parents lc store (ws_cache s')"
        then show "fst (?f q s') = fst (?f q (uncached s')) \<and> uncached (snd (?f q s')) = snd (?f q (uncached s')) \<and>
          sound_parents lc store (ws_cache (snd (?f q s'))) \<and> cache_step lc store (ws_cache s') (ws_cache (snd (?f q s')))"
          using "1.IH" [of "Inr [(p, ps)]" "ws_cache s1" "[(p, ps)]" q s'] False loaded
          by (auto simp: walk_sim_def)
      qed (use sound1 in \<open>auto intro: cache_step_trans\<close>)
      obtain r s2 where run: "run_each ?f ps s1 = (r, s2)" by (cases "run_each ?f ps s1")
      with each have run': "run_each ?f ps (uncached s1) = (r, uncached s2)" by (simp add: prod_eq_iff)
      have step2: "cache_step lc store (ws_cache s) (ws_cache s2)"
        using each run step1 by (auto simp: s1_def intro: cache_step_trans)
      have "walk lc store ns maxDepth depth p s =
          (case r of Inl e \<Rightarrow> (Inl e, s2)
           | Inr _ \<Rightarrow> (Inr (), s2\<lparr>ws_expanding := jset_del p (ws_expanding s2), ws_expanded := jset_add p (ws_expanded s2)\<rparr>))"
        using False run s1_eq by (subst walk.simps) (simp add: loaded split: sum.split)
      moreover have "walk lc store ns maxDepth depth p (uncached s) =
          (case r of Inl e \<Rightarrow> (Inl e, uncached s2)
           | Inr _ \<Rightarrow> (Inr (), (uncached s2)\<lparr>ws_expanding := jset_del p (ws_expanding s2), ws_expanded := jset_add p (ws_expanded s2)\<rparr>))"
        using False run' uncached_s1 by (subst walk.simps) (simp add: load_parents_none Inr split: sum.split)
      moreover have "sound_parents lc store (ws_cache s2)" using each run by simp
      ultimately show ?thesis
        using step2 by (auto simp: walk_sim_def uncached_def split: sum.split)
    qed
  qed
qed


lemma walks_cached:
  assumes "sound_parents lc store (ws_cache s)"
  shows "walk_sim lc store (run_each (walk lc store ns maxDepth depth) ps s) (run_each (walk lc store ns maxDepth depth) ps (uncached s)) s"
  unfolding walk_sim_def
proof (rule run_each_sim)
  fix p and s' :: walk_state assume "sound_parents lc store (ws_cache s')"
  from walk_cached [OF this, of ns maxDepth depth p]
  show "fst (walk lc store ns maxDepth depth p s') = fst (walk lc store ns maxDepth depth p (uncached s')) \<and>
        uncached (snd (walk lc store ns maxDepth depth p s')) = snd (walk lc store ns maxDepth depth p (uncached s')) \<and>
        sound_parents lc store (ws_cache (snd (walk lc store ns maxDepth depth p s'))) \<and>
        cache_step lc store (ws_cache s') (ws_cache (snd (walk lc store ns maxDepth depth p s')))"
    by (simp add: walk_sim_def)
qed (use assms in \<open>auto intro: cache_step_trans\<close>)

lemma compute_cached:
  assumes "sound_parents lc store cache"
  shows "fst (compute_principals lc store ns actor maxDepth cache) = fst (compute_principals lc store ns actor maxDepth None) \<and>
         cache_step lc store cache (snd (compute_principals lc store ns actor maxDepth cache))"
proof (cases "pst_memberships store ns actor")
  case (Inr raw)
  define direct where "direct = unique_sorted lc (some_of (map (\<lambda>p. normalize_principal (JStr p)) raw))"
  define s0 where "s0 = \<lparr>ws_set = js_unique direct, ws_list = direct, ws_expanded = [], ws_expanding = [], ws_cache = cache\<rparr>"
  have s0': "\<lparr>ws_set = js_unique direct, ws_list = direct, ws_expanded = [], ws_expanding = [], ws_cache = None\<rparr> = uncached s0"
    by (simp add: s0_def uncached_def)
  have "walk_sim lc store (run_each (walk lc store ns maxDepth 1) direct s0) (run_each (walk lc store ns maxDepth 1) direct (uncached s0)) s0"
    using assms by (intro walks_cached) (simp add: s0_def)
  moreover obtain r s1 where "run_each (walk lc store ns maxDepth 1) direct s0 = (r, s1)" by fastforce
  ultimately have run: "run_each (walk lc store ns maxDepth 1) direct s0 = (r, s1)"
    "run_each (walk lc store ns maxDepth 1) direct (uncached s0) = (r, uncached s1)"
    and step: "cache_step lc store cache (ws_cache s1)"
    by (auto simp: walk_sim_def prod_eq_iff s0_def)
  show ?thesis
    unfolding compute_principals_def Inr sum.case Let_def direct_def [symmetric] s0_def [symmetric] s0' run
    using step by (simp add: split: sum.split)
qed (simp add: compute_principals_def)

definition cache_sound :: "(string \<Rightarrow> string \<Rightarrow> int) \<Rightarrow> 'e principal_store \<Rightarrow> auth_cache \<Rightarrow> bool" where
  "cache_sound lc store c = (parents_sound lc store c \<and> resolved_sound lc store c)"

lemma resolve_cached:
  assumes "cache_sound lc store c"
  shows "fst (resolve_effective_principals lc store ns actor max_depth (Some c)) =
           fst (resolve_effective_principals lc store ns actor max_depth None) \<and>
         (\<exists>c'. snd (resolve_effective_principals lc store ns actor max_depth (Some c)) = Some c' \<and> cache_sound lc store c')"
proof -
  define d where "d = (case max_depth of None \<Rightarrow> DEFAULT_MAX_DEPTH | Some d \<Rightarrow> d)"
  let ?c = "snd (get_state ns c)"
  have parents: "parents_sound lc store c" and resolved: "resolved_sound lc store c" using assms by (auto simp: cache_sound_def)
  have parents1: "parents_sound lc store ?c" and resolved1: "resolved_sound lc store ?c"
    using parents resolved by (simp_all add: parents_sound_def resolved_sound_def cache_simps)
  show ?thesis
  proof (cases "d < 1")
    case True
    then show ?thesis using assms by (simp add: resolve_effective_principals_def flip: d_def)
  next
    case False
    have none: "fst (resolve_effective_principals lc store ns actor max_depth None) = fst (compute_principals lc store ns actor d None)"
      using False by (simp add: resolve_effective_principals_def case_prod_beta flip: d_def split: sum.split)
    show ?thesis
    proof (cases "fresh_resolution actor d (state_of ns c)")
      case (Some ps)
      then have "fst (compute_principals lc store ns actor d None) = Inr ps" using resolved by (auto simp: resolved_sound_def)
      then show ?thesis unfolding none using Some False parents1 resolved1
        by (simp add: resolve_effective_principals_def cache_simps cache_sound_def flip: d_def)
    next
      case None
      obtain r cache2 where compute: "compute_principals lc store ns actor d (Some ?c) = (r, cache2)" by fastforce
      have r: "r = fst (compute_principals lc store ns actor d None)" and "cache_step lc store (Some ?c) cache2"
        using compute_cached [of "Some ?c" lc store ns actor d] parents1 compute by auto
      then obtain c2 where c2: "cache2 = Some c2" "parents_sound lc store c2" "same_resolved ?c c2"
        using parents1 by (auto simp: cache_step_def split: option.splits)
      have resolved2: "resolved_sound lc store c2" using resolved1 c2(3) by (simp add: resolved_sound_def same_resolved_def)
      have "cache_sound lc store (cache_set_resolved ns actor d ps c2)" if "r = Inr ps" for ps
        using that r c2 resolved2
        by (auto simp: cache_sound_def parents_sound_def resolved_sound_def cache_set_resolved_def cache_simps split: if_splits)
      moreover have "resolve_effective_principals lc store ns actor max_depth (Some c) =
          (r, case r of Inl _ \<Rightarrow> cache2 | Inr ps \<Rightarrow> map_option (cache_set_resolved ns actor d ps) cache2)"
        using None False by (simp add: resolve_effective_principals_def cache_simps compute flip: d_def split: sum.split)
      ultimately show ?thesis unfolding none using r c2 resolved2 by (auto simp: cache_sound_def split: sum.split)
    qed
  qed
qed

section \<open>Histories\<close>

text \<open>The mutation hooks, and the events between them: questions and changes of the store.\<close>

datatype 'e auth_event =
    Ask string string "int option"
  | HierarchyChange string "string list \<Rightarrow> 'e + hierarchy_edge list"
  | MembershipChange string string "'e + string list"
  | MembershipsChange string "string \<Rightarrow> 'e + string list"

fun run_events ::
  "(string \<Rightarrow> string \<Rightarrow> int) \<Rightarrow> 'e auth_event list \<Rightarrow> 'e principal_store \<Rightarrow> auth_cache option \<Rightarrow>
   ('e resolve_error + string list) list" where
  "run_events lc [] store cache = []"
| "run_events lc (Ask ns actor max_depth # evs) store cache =
     (case resolve_effective_principals lc store ns actor max_depth cache of
        (answer, cache') \<Rightarrow> answer # run_events lc evs store cache')"
| "run_events lc (HierarchyChange ns parents # evs) store cache =
     run_events lc evs (store\<lparr>pst_parents := (pst_parents store)(ns := parents)\<rparr>) (map_option (invalidate_hierarchy ns) cache)"
| "run_events lc (MembershipChange ns actor ms # evs) store cache =
     run_events lc evs
       (store\<lparr>pst_memberships := (pst_memberships store)(ns := (pst_memberships store ns)(actor := ms))\<rparr>)
       (map_option (invalidate_membership ns (Some actor)) cache)"
| "run_events lc (MembershipsChange ns ms # evs) store cache =
     run_events lc evs (store\<lparr>pst_memberships := (pst_memberships store)(ns := ms)\<rparr>)
       (map_option (invalidate_membership ns None) cache)"

lemma run_each_cong [fundef_cong]:
  "xs = ys \<Longrightarrow> s = t \<Longrightarrow> (\<And>x s. x \<in> set ys \<Longrightarrow> f x s = g x s) \<Longrightarrow> run_each f xs s = run_each g ys t"
proof (induction xs arbitrary: ys s t)
  case (Cons x xs)
  then have "run_each f xs s' = run_each g xs s'" for s' by (intro Cons.IH) auto
  with Cons.prems show ?case by (auto split: prod.split sum.split)
qed auto

lemma load_parents_store:
  "pst_parents store ns = pst_parents store' ns \<Longrightarrow> load_parents lc store ns ps cache = load_parents lc store' ns ps cache"
  by (simp only: load_parents_def)

lemma walk_store:
  "pst_parents store ns = pst_parents store' ns \<Longrightarrow>
     walk lc store ns maxDepth depth p s = walk lc store' ns maxDepth depth p s"
proof (induction lc store ns maxDepth depth p s rule: walk.induct)
  case (1 lc store ns maxDepth depth p s)
  show ?case
  proof (cases "maxDepth < depth \<or> p \<in> set (ws_expanded s) \<or> p \<in> set (ws_expanding s)")
    case True
    then show ?thesis by (subst (1 2) walk.simps) auto
  next
    case False
    let ?f = "\<lambda>store q s'. if q \<in> set (ws_expanding s') then (Inl cycle_error, s')
                        else walk lc store ns maxDepth (depth + 1) q (add_principal q s')"
    have "run_each (?f store) ps s1 = run_each (?f store') ps s1"
      if "load_parents lc store ns [p] (ws_cache s) = (Inr m, c)" for ps and s1 :: walk_state and m c
      using that False "1.IH" [of "Inr m" c m] "1.prems" by (intro run_each_cong) auto
    then show ?thesis using False load_parents_store [OF "1.prems", of lc "[p]" "ws_cache s"]
      by (subst (1 2) walk.simps) (auto split: prod.split sum.split)
  qed
qed

lemma compute_store:
  assumes "pst_parents store ns = pst_parents store' ns" and "pst_memberships store ns actor = pst_memberships store' ns actor"
  shows "compute_principals lc store ns actor maxDepth cache = compute_principals lc store' ns actor maxDepth cache"
proof -
  have "walk lc store ns maxDepth 1 = walk lc store' ns maxDepth 1"
    using walk_store [OF assms(1)] by (intro ext)
  then show ?thesis by (simp add: compute_principals_def assms(2) cong: sum.case_cong)
qed

lemma sound_hierarchy_change:
  assumes "cache_sound lc store c"
  shows "cache_sound lc (store\<lparr>pst_parents := (pst_parents store)(ns := parents)\<rparr>) (invalidate_hierarchy ns c)"
proof -
  let ?store = "store\<lparr>pst_parents := (pst_parents store)(ns := parents)\<rparr>"
  have "parents_at lc ?store ns' p = parents_at lc store ns' p" if "ns' \<noteq> ns" for ns' p
    using that by (simp add: parents_at_def)
  moreover have "compute_principals lc ?store ns' a d None = compute_principals lc store ns' a d None" if "ns' \<noteq> ns" for ns' a d
    using that by (intro compute_store) simp_all
  ultimately show ?thesis
    using assms by (auto simp: cache_sound_def parents_sound_def resolved_sound_def invalidate_hierarchy_def cache_simps)
      (auto simp: fresh_resolution_def)
qed

lemma fresh_after_invalidation:
  "fresh_resolution a d (state_of ns' (invalidate_membership ns actor c)) = Some ps \<Longrightarrow>
     fresh_resolution a d (state_of ns' c) = Some ps \<and> (ns' = ns \<longrightarrow> actor \<noteq> None \<and> actor \<noteq> Some a)"
  by (cases actor; cases "the actor")
    (auto simp: invalidate_membership_def cache_simps fresh_resolution_def actor_revision_def jmap_simps split: if_splits option.splits)

lemma parents_after_invalidation:
  "nk_parents (state_of ns' (invalidate_membership ns actor c)) = nk_parents (state_of ns' c)"
  by (cases actor; cases "the actor") (auto simp: invalidate_membership_def cache_simps)

lemma sound_membership_change:
  assumes "cache_sound lc store c"
    and "\<And>ns' a. ns' \<noteq> ns \<or> actor \<noteq> None \<and> actor \<noteq> Some a \<Longrightarrow> ms ns' a = pst_memberships store ns' a"
  shows "cache_sound lc (store\<lparr>pst_memberships := ms\<rparr>) (invalidate_membership ns actor c)"
proof -
  let ?store = "store\<lparr>pst_memberships := ms\<rparr>"
  have "compute_principals lc ?store ns' a d None = compute_principals lc store ns' a d None"
    if "ns' \<noteq> ns \<or> actor \<noteq> None \<and> actor \<noteq> Some a" for ns' a d
    using assms(2) [OF that] by (intro compute_store) simp_all
  then have "resolved_sound lc ?store (invalidate_membership ns actor c)"
    using assms(1) fresh_after_invalidation [of _ _ _ ns actor c]
    unfolding cache_sound_def resolved_sound_def by metis
  moreover have "parents_sound lc ?store (invalidate_membership ns actor c)"
    using assms(1) by (simp add: cache_sound_def parents_sound_def parents_after_invalidation parents_at_def)
  ultimately show ?thesis by (simp add: cache_sound_def)
qed

lemma run_events_cached:
  "cache_sound lc store c \<Longrightarrow> run_events lc evs store (Some c) = run_events lc evs store None"
proof (induction lc evs store "Some c" arbitrary: c rule: run_events.induct)
  case (2 lc ns actor max_depth evs store)
  obtain r c' where run: "resolve_effective_principals lc store ns actor max_depth (Some c) = (r, Some c')"
    and r: "r = fst (resolve_effective_principals lc store ns actor max_depth None)" and sound: "cache_sound lc store c'"
    using resolve_cached [OF "2.prems", of ns actor max_depth] by (metis prod.collapse)
  have none: "snd (resolve_effective_principals lc store ns actor max_depth None) = None"
  proof -
    have "snd (compute_principals lc store ns actor d None) = None" for d
      using compute_cached [of None lc store ns actor d] by (simp add: cache_step_def split: option.splits)
    then show ?thesis
      by (simp add: resolve_effective_principals_def Let_def case_prod_beta split: sum.split)
  qed
  show ?case using "2.hyps" [OF run [symmetric]] sound r none by (simp add: run case_prod_beta)
next
  case (3 lc ns parents evs store)
  then show ?case by (simp add: sound_hierarchy_change)
next
  case (4 lc ns actor ms evs store)
  have "cache_sound lc (store\<lparr>pst_memberships := (pst_memberships store)(ns := (pst_memberships store ns)(actor := ms))\<rparr>)
      (invalidate_membership ns (Some actor) c)"
    by (rule sound_membership_change [OF "4.prems"]) auto
  then show ?case using "4.hyps" by simp
next
  case (5 lc ns ms evs store)
  have "cache_sound lc (store\<lparr>pst_memberships := (pst_memberships store)(ns := ms)\<rparr>) (invalidate_membership ns None c)"
    by (rule sound_membership_change [OF "5.prems"]) auto
  then show ?case using "5.hyps" by simp
qed simp

lemma cache_sound_empty: "cache_sound lc store []"
  by (simp add: cache_sound_def parents_sound_def resolved_sound_def state_of_def create_namespace_state_def fresh_resolution_def)

text \<open>
  C9: With the cache, every question in any history of questions and changes of memberships and
  hierarchies is answered as without it, when every change is followed by its invalidation hook.
\<close>

theorem cached_answers_current: "run_events lc evs store (Some []) = run_events lc evs store None"
  by (rule run_events_cached [OF cache_sound_empty])

end
