(* ===== verification/AccessProperties.thy ===== *)
theory AccessProperties
  imports AccessCache
begin

text \<open>
  What the resolution of access decides: the principals of an actor are the ancestors of its
  memberships, cycles are rejected, bounded hierarchies are resolved, and the effective level is
  the highest level that applies.
\<close>

section \<open>The walk through the hierarchy\<close>

definition parent_rel :: "'e principal_store \<Rightarrow> string \<Rightarrow> string rel" where
  "parent_rel store ns =
     {(p, q). \<exists>edges. pst_parents store ns [p] = Inr edges \<and> (\<exists>e \<in> set edges. q \<in> edge_parents e p)}"

definition direct_principals :: "'e principal_store \<Rightarrow> string \<Rightarrow> string \<Rightarrow> string set" where
  "direct_principals store ns actor =
     {p. \<exists>raw. pst_memberships store ns actor = Inr raw \<and> (\<exists>m \<in> set raw. normalize_principal (JStr m) = Some p)}"

lemma parents_at_rel: "parents_at lc store ns p = Inr ps \<Longrightarrow> set ps = parent_rel store ns `` {p}"
  by (cases "pst_parents store ns [p]") (auto simp: parents_at_def parent_rel_def set_parents_of edge_parents_def)

text \<open>The order in which nodes are finished: every node after all its parents.\<close>

fun topo :: "'a rel \<Rightarrow> 'a list \<Rightarrow> bool" where
  "topo R [] = True"
| "topo R (x # xs) = (R `` {x} \<subseteq> set xs \<and> x \<notin> set xs \<and> topo R xs)"

lemma topo_step: "topo R xs \<Longrightarrow> x \<in> set xs \<Longrightarrow> (x, y) \<in> R \<Longrightarrow> y \<in> set xs"
  by (induction xs) auto

lemma topo_closed: "topo R xs \<Longrightarrow> (x, y) \<in> R\<^sup>* \<Longrightarrow> x \<in> set xs \<Longrightarrow> y \<in> set xs"
  by (rotate_tac 1, induction rule: rtrancl_induct) (auto dest: topo_step)

lemma topo_acyclic: "topo R xs \<Longrightarrow> x \<in> set xs \<Longrightarrow> (x, x) \<notin> R\<^sup>+"
proof (induction xs)
  case (Cons y ys)
  show ?case
  proof (cases "x \<in> set ys")
    case False
    show ?thesis
    proof
      assume "(x, x) \<in> R\<^sup>+"
      then obtain z where "(x, z) \<in> R" "(z, x) \<in> R\<^sup>*" by (meson tranclD)
      with Cons.prems False show False using topo_closed [of R ys z x] by auto
    qed
  qed (use Cons in auto)
qed simp

definition walk_ok :: "string rel \<Rightarrow> walk_state \<Rightarrow> bool" where
  "walk_ok R s =
     (ws_cache s = None \<and> distinct (ws_list s) \<and> set (ws_set s) = set (ws_list s) \<and>
      set (ws_expanded s) \<subseteq> set (ws_set s) \<and> topo R (rev (ws_expanded s)) \<and> set (ws_expanded s) \<inter> set (ws_expanding s) = {})"

text \<open>What a walk from \<open>p\<close> that succeeds has done to the state.\<close>

definition walked :: "string rel \<Rightarrow> string \<Rightarrow> walk_state \<Rightarrow> walk_state \<Rightarrow> bool" where
  "walked R p s s' =
     (walk_ok R s' \<and> set (ws_expanding s') = set (ws_expanding s) \<and> insert p (set (ws_expanded s)) \<subseteq> set (ws_expanded s') \<and>
      set (ws_set s) \<subseteq> set (ws_set s') \<and> set (ws_set s') \<subseteq> set (ws_set s) \<union> R\<^sup>* `` {p})"

lemma run_each_success:
  assumes "run_each f xs s = (Inr u, s')" and "I s"
    and "\<And>x s v s'. x \<in> set xs \<Longrightarrow> I s \<Longrightarrow> f x s = (Inr v, s') \<Longrightarrow> I s' \<and> x \<in> g s' \<and> g s \<subseteq> g s'"
  shows "I s' \<and> set xs \<subseteq> g s' \<and> g s \<subseteq> g s'"
  using assms
proof (induction xs arbitrary: s)
  case (Cons x xs)
  obtain v s1 where step: "f x s = (Inr v, s1)" and rest: "run_each f xs s1 = (Inr u, s')"
    using Cons.prems(1) by (auto split: prod.splits sum.splits)
  have s1: "I s1" "x \<in> g s1" "g s \<subseteq> g s1" using Cons.prems(2,3) step by (metis list.set_intros(1))+
  have "I s' \<and> set xs \<subseteq> g s' \<and> g s1 \<subseteq> g s'"
    using rest s1(1)
  proof (rule Cons.IH)
    show "I s' \<and> y \<in> g s' \<and> g s \<subseteq> g s'" if "y \<in> set xs" "I s" "f y s = (Inr v, s')" for y s v s'
      using Cons.prems(3) [of y s v s'] that by simp
  qed
  with s1 show ?case by auto
qed simp

lemma walk_ok_add: "walk_ok R s \<Longrightarrow> walk_ok R (add_principal q s)"
  by (auto simp: walk_ok_def add_principal_def jset_simps)

lemma add_principal_simps [simp]:
  "set (ws_set (add_principal q s)) = insert q (set (ws_set s))" "ws_expanded (add_principal q s) = ws_expanded s"
  "ws_expanding (add_principal q s) = ws_expanding s"
  by (auto simp: add_principal_def jset_simps)

abbreviation visit ::
  "(string \<Rightarrow> string \<Rightarrow> int) \<Rightarrow> 'e principal_store \<Rightarrow> string \<Rightarrow> int \<Rightarrow> int \<Rightarrow> string \<Rightarrow> walk_state \<Rightarrow>
   ('e resolve_error + unit) \<times> walk_state" where
  "visit lc store ns maxDepth depth q s \<equiv>
     (if q \<in> set (ws_expanding s) then (Inl cycle_error, s)
      else walk lc store ns maxDepth (depth + 1) q (add_principal q s))"

lemma walk_uncached:
  assumes "\<not> maxDepth < depth" and "p \<notin> set (ws_expanded s)" and "p \<notin> set (ws_expanding s)" and "ws_cache s = None"
  shows "walk lc store ns maxDepth depth p s =
     (case parents_at lc store ns p of
        Inl e \<Rightarrow> (Inl (StoreFailure e), s\<lparr>ws_expanding := jset_add p (ws_expanding s), ws_cache := None\<rparr>)
      | Inr ps \<Rightarrow>
          (case run_each (visit lc store ns maxDepth depth) ps
             (s\<lparr>ws_expanding := jset_add p (ws_expanding s), ws_cache := None\<rparr>) of
             (Inl e, s2) \<Rightarrow> (Inl e, s2)
           | (Inr _, s2) \<Rightarrow>
               (Inr (), s2\<lparr>ws_expanding := jset_del p (ws_expanding s2), ws_expanded := jset_add p (ws_expanded s2)\<rparr>)))"
  using assms by (subst walk.simps) (simp add: load_parents_none split: sum.split)

lemma walk_walked:
  assumes "walk lc store ns maxDepth depth p s = (Inr u, s')" and "walk_ok (parent_rel store ns) s" and "p \<in> set (ws_set s)"
  shows "walked (parent_rel store ns) p s s'"
  using assms
proof (induction lc store ns maxDepth depth p s arbitrary: u s' rule: walk.induct)
  case (1 lc store ns maxDepth depth p s)
  let ?R = "parent_rel store ns"
  have depth: "\<not> maxDepth < depth" using "1.prems"(1) by (subst (asm) walk.simps) (auto split: if_splits)
  show ?case
  proof (cases "p \<in> set (ws_expanded s)")
    case True
    then show ?thesis using "1.prems" depth by (subst (asm) walk.simps) (auto simp: walked_def)
  next
    case False
    then have new: "p \<notin> set (ws_expanding s)" using "1.prems"(1) depth by (subst (asm) walk.simps) (auto split: if_splits)
    have cache: "ws_cache s = None" using "1.prems"(2) by (simp add: walk_ok_def)
    let ?f = "visit lc store ns maxDepth depth"
    define s1 where "s1 = s\<lparr>ws_expanding := jset_add p (ws_expanding s), ws_cache := None\<rparr>"
    obtain ps s2 v where ps: "parents_at lc store ns p = Inr ps" and run: "run_each ?f ps s1 = (Inr v, s2)"
      and s': "s' = s2\<lparr>ws_expanding := jset_del p (ws_expanding s2), ws_expanded := jset_add p (ws_expanded s2)\<rparr>"
      using "1.prems"(1) unfolding walk_uncached [OF depth False new cache] s1_def
      by (auto split: sum.splits prod.splits)
    have parents: "set ps = ?R `` {p}" using parents_at_rel [OF ps] .
    have load: "load_parents lc store ns [p] (ws_cache s) = (Inr [(p, ps)], None)"
      by (simp add: cache load_parents_none ps)
    define I where "I = (\<lambda>a. walk_ok ?R a \<and> set (ws_expanding a) = insert p (set (ws_expanding s)) \<and>
        set (ws_set s) \<subseteq> set (ws_set a) \<and> set (ws_set a) \<subseteq> set (ws_set s) \<union> ?R\<^sup>* `` {p})"
    have I1: "I s1" using "1.prems"(2) False by (auto simp: I_def s1_def walk_ok_def jset_simps)
    have loop: "I s2 \<and> set ps \<subseteq> set (ws_expanded s2) \<and> set (ws_expanded s1) \<subseteq> set (ws_expanded s2)"
      using run I1
    proof (rule run_each_success [where g = "\<lambda>a. set (ws_expanded a)"])
      fix q a w b assume q: "q \<in> set ps" and a: "I a" and b: "?f q a = (Inr w, b)"
      have "walked ?R q (add_principal q a) b"
        using "1.IH" [of "Inr [(p, ps)]" None "[(p, ps)]" q a w b] depth False new load a b
        by (auto simp: I_def walk_ok_add split: if_splits)
      moreover have "?R\<^sup>* `` {q} \<subseteq> ?R\<^sup>* `` {p}"
        using q parents by (auto intro: converse_rtrancl_into_rtrancl)
      moreover have "q \<in> ?R\<^sup>* `` {p}" using q parents by auto
      ultimately show "I b \<and> q \<in> set (ws_expanded b) \<and> set (ws_expanded a) \<subseteq> set (ws_expanded b)"
        using a unfolding walked_def I_def by auto
    qed
    have fresh: "p \<notin> set (ws_expanded s2)" using loop by (auto simp: I_def walk_ok_def)
    have "walk_ok ?R s'"
      using loop fresh parents "1.prems"(3) by (auto simp: s' I_def walk_ok_def jset_simps jset_add_def)
    then show ?thesis using loop new unfolding walked_def
      by (auto simp: s' I_def jset_simps s1_def)
  qed
qed

lemma walks_walked:
  assumes "run_each (walk lc store ns maxDepth 1) ps s = (Inr u, s')" and "walk_ok (parent_rel store ns) s"
    and "set ps \<subseteq> set (ws_set s)" and "ws_expanding s = []"
  shows "walk_ok (parent_rel store ns) s' \<and> set ps \<subseteq> set (ws_expanded s') \<and> set (ws_set s) \<subseteq> set (ws_set s') \<and>
         set (ws_set s') \<subseteq> set (ws_set s) \<union> (parent_rel store ns)\<^sup>* `` set ps"
proof -
  let ?R = "parent_rel store ns"
  let ?I = "\<lambda>a. walk_ok ?R a \<and> set (ws_set s) \<subseteq> set (ws_set a) \<and>
      set (ws_set a) \<subseteq> set (ws_set s) \<union> ?R\<^sup>* `` set ps"
  have "?I s' \<and> set ps \<subseteq> set (ws_expanded s') \<and> set (ws_expanded s) \<subseteq> set (ws_expanded s')"
    using assms(1)
  proof (rule run_each_success [where g = "\<lambda>a. set (ws_expanded a)"])
    fix p a v b assume p: "p \<in> set ps" and a: "?I a" and b: "walk lc store ns maxDepth 1 p a = (Inr v, b)"
    have "walked ?R p a b"
      using b a p assms(3) by (intro walk_walked) auto
    with a p show "?I b \<and> p \<in> set (ws_expanded b) \<and> set (ws_expanded a) \<subseteq> set (ws_expanded b)"
      unfolding walked_def by auto
  qed (use assms in auto)
  then show ?thesis by simp
qed

lemma set_direct: "set (unique_sorted lc (some_of (map (\<lambda>p. normalize_principal (JStr p)) raw))) =
    {p. \<exists>m \<in> set raw. normalize_principal (JStr m) = Some p}"
  by (auto simp: set_some_of image_iff) metis+

lemma compute_principals_ok:
  assumes "fst (compute_principals lc store ns actor maxDepth None) = Inr ps"
  defines "reached \<equiv> (parent_rel store ns)\<^sup>* `` direct_principals store ns actor"
  shows "distinct ps \<and> set ps = insert (canonicalize_actor_principal actor) reached \<and> (\<forall>p \<in> reached. (p, p) \<notin> (parent_rel store ns)\<^sup>+)"
proof -
  let ?R = "parent_rel store ns"
  obtain raw where raw: "pst_memberships store ns actor = Inr raw"
    using assms(1) by (cases "pst_memberships store ns actor") (auto simp: compute_principals_def)
  define direct where "direct = unique_sorted lc (some_of (map (\<lambda>p. normalize_principal (JStr p)) raw))"
  have direct: "set direct = direct_principals store ns actor"
    unfolding direct_def set_direct by (simp add: direct_principals_def raw)
  define s0 where "s0 = \<lparr>ws_set = js_unique direct, ws_list = direct, ws_expanded = [], ws_expanding = [], ws_cache = None\<rparr>"
  obtain v s where run: "run_each (walk lc store ns maxDepth 1) direct s0 = (Inr v, s)"
    and ps: "ps = (if canonicalize_actor_principal actor \<in> set (ws_set s) then ws_list s else ws_list s @ [canonicalize_actor_principal actor])"
    using assms(1) unfolding compute_principals_def raw sum.case Let_def direct_def [symmetric] s0_def [symmetric]
    by (auto split: prod.splits sum.splits)
  have ok: "walk_ok ?R s" "set direct \<subseteq> set (ws_expanded s)" "set direct \<subseteq> set (ws_set s)" "set (ws_set s) \<subseteq> set direct \<union> ?R\<^sup>* `` set direct"
    using walks_walked [OF run] by (auto simp: s0_def walk_ok_def direct_def)
  have order: "topo ?R (rev (ws_expanded s))" using ok(1) by (simp add: walk_ok_def)
  have "reached \<subseteq> set (ws_expanded s)"
    using topo_closed [OF order] ok(2) by (auto simp: reached_def simp flip: direct)
  moreover have "set (ws_expanded s) \<subseteq> set (ws_set s)" using ok(1) unfolding walk_ok_def by blast
  moreover have "set (ws_set s) \<subseteq> reached" using ok(4) by (auto simp: reached_def simp flip: direct)
  ultimately have reached: "set (ws_set s) = reached" "reached \<subseteq> set (ws_expanded s)" by auto
  have "distinct ps \<and> set ps = insert (canonicalize_actor_principal actor) reached"
    using ok(1) reached(1) by (auto simp: ps walk_ok_def)
  moreover have "(p, p) \<notin> ?R\<^sup>+" if "p \<in> reached" for p
    using topo_acyclic [OF order, of p] reached(2) that by auto
  ultimately show ?thesis by blast
qed

lemma resolve_uncached:
  "fst (resolve_effective_principals lc store ns actor max_depth None) =
     (let d = case max_depth of None \<Rightarrow> DEFAULT_MAX_DEPTH | Some d \<Rightarrow> d
      in if d < 1 then Inl (ExecutionError ''DFQL_INVALID'' ''maxDepth must be a positive integer'' ''maxDepth'' JUndef)
         else fst (compute_principals lc store ns actor d None))"
  by (simp add: resolve_effective_principals_def Let_def case_prod_beta split: sum.split)

text \<open>
  C13: When a resolution returns, it returns without repetition the actor itself and the
  principals reachable in the hierarchy from the actor's memberships, and none of them lies on a
  cycle.
\<close>

theorem principals_are_ancestors:
  assumes "fst (resolve_effective_principals lc store ns actor max_depth None) = Inr ps"
  shows "distinct ps \<and>
         set ps = insert (canonicalize_actor_principal actor) ((parent_rel store ns)\<^sup>* `` direct_principals store ns actor) \<and>
         (\<forall>p \<in> (parent_rel store ns)\<^sup>* `` direct_principals store ns actor. (p, p) \<notin> (parent_rel store ns)\<^sup>+)"
  using assms compute_principals_ok [of lc store ns actor _ ps]
  by (simp add: resolve_uncached Let_def split: if_splits)

section \<open>Resolution succeeds on bounded hierarchies\<close>

lemma run_each_total:
  assumes "\<And>x s. x \<in> set xs \<Longrightarrow> I s \<Longrightarrow> \<exists>s'. f x s = (Inr (), s') \<and> I s'" and "I s"
  shows "\<exists>s'. run_each f xs s = (Inr (), s') \<and> I s'"
  using assms
proof (induction xs arbitrary: s)
  case (Cons x xs)
  obtain s1 where "f x s = (Inr (), s1)" "I s1" using Cons.prems by force
  then show ?case using Cons.IH [of s1] Cons.prems(1) by force
qed simp

lemma walk_succeeds:
  assumes "p \<in> D" and "\<And>x. x \<in> D \<Longrightarrow> \<exists>edges. pst_parents store ns [x] = Inr edges"
    and "\<And>x y. x \<in> D \<Longrightarrow> (x, y) \<in> parent_rel store ns \<Longrightarrow> y \<in> D \<and> rank y < (rank x :: nat)"
    and "int (rank p) + depth \<le> maxDepth" and "\<forall>x \<in> set (ws_expanding s). rank p < rank x" and "ws_cache s = None"
  shows "\<exists>s'. walk lc store ns maxDepth depth p s = (Inr (), s') \<and> set (ws_expanding s') = set (ws_expanding s) \<and> ws_cache s' = None"
  using assms(1,4,5,6)
proof (induction "rank p" arbitrary: p depth s rule: less_induct)
  case less
  have depth: "\<not> maxDepth < depth" using less.prems(2) by linarith
  have new: "p \<notin> set (ws_expanding s)" using less.prems(3) by auto
  show ?case
  proof (cases "p \<in> set (ws_expanded s)")
    case True
    then show ?thesis using depth less.prems(4) by (subst walk.simps) simp
  next
    case False
    obtain edges where edges: "pst_parents store ns [p] = Inr edges" using assms(2) less.prems(1) by blast
    then obtain ps where ps: "parents_at lc store ns p = Inr ps" by (simp add: parents_at_def)
    define s1 where "s1 = s\<lparr>ws_expanding := jset_add p (ws_expanding s), ws_cache := None\<rparr>"
    let ?I = "\<lambda>a :: walk_state. set (ws_expanding a) = insert p (set (ws_expanding s)) \<and> ws_cache a = None"
    have "\<exists>s2. run_each (visit lc store ns maxDepth depth) ps s1 = (Inr (), s2) \<and> ?I s2"
    proof (rule run_each_total)
      fix q and a :: walk_state assume q: "q \<in> set ps" and a: "?I a"
      have lower: "q \<in> D" "rank q < rank p"
        using assms(3) [OF less.prems(1), of q] q parents_at_rel [OF ps] by auto
      then have fresh: "q \<notin> set (ws_expanding a)" using a less.prems(3) by auto
      have "\<exists>b. walk lc store ns maxDepth (depth + 1) q (add_principal q a) = (Inr (), b) \<and>
          set (ws_expanding b) = set (ws_expanding (add_principal q a)) \<and> ws_cache b = None"
        using lower a less.prems(2,3) by (intro less.hyps) auto
      with a fresh show "\<exists>b. visit lc store ns maxDepth depth q a = (Inr (), b) \<and> ?I b" by auto
    qed (simp add: s1_def jset_simps)
    then show ?thesis
      unfolding walk_uncached [OF depth False new less.prems(4)] ps s1_def [symmetric]
      using new by (auto simp: jset_simps)
  qed
qed

text \<open>
  C25: A resolution with the default depth returns, rather than throwing, when the store
  answers and the hierarchy above the memberships has chains of at most 16 principals.
\<close>

theorem hierarchy_resolved:
  fixes rank :: "string \<Rightarrow> nat"
  assumes "pst_memberships store ns actor = Inr raw"
    and "\<And>p. p \<in> (parent_rel store ns)\<^sup>* `` direct_principals store ns actor \<Longrightarrow> \<exists>edges. pst_parents store ns [p] = Inr edges"
    and "\<And>p q. (p, q) \<in> parent_rel store ns \<Longrightarrow> rank q < rank p"
    and "\<And>p. p \<in> direct_principals store ns actor \<Longrightarrow> rank p < 16"
  shows "\<exists>ps. fst (resolve_effective_principals lc store ns actor None None) = Inr ps"
proof -
  let ?D = "(parent_rel store ns)\<^sup>* `` direct_principals store ns actor"
  define direct where "direct = unique_sorted lc (some_of (map (\<lambda>p. normalize_principal (JStr p)) raw))"
  have direct: "set direct = direct_principals store ns actor"
    unfolding direct_def set_direct by (simp add: direct_principals_def assms(1))
  define s0 where "s0 = \<lparr>ws_set = js_unique direct, ws_list = direct, ws_expanded = [], ws_expanding = [], ws_cache = None\<rparr>"
  have "\<exists>s. run_each (walk lc store ns DEFAULT_MAX_DEPTH 1) direct s0 = (Inr (), s) \<and> (ws_expanding s = [] \<and> ws_cache s = None)"
  proof (rule run_each_total)
    fix p and a :: walk_state assume p: "p \<in> set direct" and a: "ws_expanding a = [] \<and> ws_cache a = None"
    have "int (rank p) + 1 \<le> DEFAULT_MAX_DEPTH" using assms(4) [of p] p direct by (simp add: DEFAULT_MAX_DEPTH_def)
    then have "\<exists>b. walk lc store ns DEFAULT_MAX_DEPTH 1 p a = (Inr (), b) \<and> set (ws_expanding b) = set (ws_expanding a) \<and> ws_cache b = None"
      using p a assms(2,3) direct
      by (intro walk_succeeds [where D = ?D and rank = rank]) (auto intro: rtrancl_into_rtrancl)
    with a show "\<exists>b. walk lc store ns DEFAULT_MAX_DEPTH 1 p a = (Inr (), b) \<and> (ws_expanding b = [] \<and> ws_cache b = None)"
      by simp
  qed (simp add: s0_def)
  then obtain s where "run_each (walk lc store ns DEFAULT_MAX_DEPTH 1) direct s0 = (Inr (), s)" by blast
  then have "\<exists>ps. fst (compute_principals lc store ns actor DEFAULT_MAX_DEPTH None) = Inr ps"
    unfolding compute_principals_def assms(1) sum.case Let_def direct_def [symmetric] s0_def [symmetric] by simp
  then show ?thesis by (simp add: resolve_uncached Let_def) (simp add: DEFAULT_MAX_DEPTH_def)
qed

section \<open>Effective levels\<close>

definition grant_applies :: "string \<Rightarrow> string list \<Rightarrow> access_grant \<Rightarrow> access_level \<Rightarrow> bool" where
  "grant_applies resourceId principals g l =
     (normalize_level (JStr (ag_level g)) = Some l \<and>
      (\<exists>p \<in> set principals. normalize_principal (JStr p) \<noteq> None \<and> normalize_principal (JStr p) = normalize_principal (JStr (ag_principal g))) \<and>
      ag_resource g = (if ag_kind g = ScopeGrant then None else Some resourceId))"

definition highest :: "access_level set \<Rightarrow> access_level option \<Rightarrow> bool" where
  "highest L level =
     (case level of None \<Rightarrow> L = {} | Some l \<Rightarrow> l \<in> L \<and> (\<forall>l' \<in> L. level_weight l' \<le> level_weight l))"

lemma normalize_level_name [simp]: "normalize_level (JStr (level_name l)) = Some l"
  by (cases l) (simp_all add: normalize_level_def level_name_def)

lemma highest_raise: "highest L level \<Longrightarrow> highest (insert l L) (raise_level level l)"
  by (cases level) (auto simp: highest_def raise_level_def)

lemma match_grant_applies:
  "match_grant (js_unique (some_of (map (\<lambda>p. normalize_principal (JStr p)) ps))) rid g =
     (case normalize_level (JStr (ag_level g)) of
        None \<Rightarrow> None
      | Some l \<Rightarrow>
          if grant_applies rid ps g l
          then Some (g\<lparr>ag_principal := the (normalize_principal (JStr (ag_principal g))), ag_level := level_name l\<rparr>, l) else None)"
  by (auto simp: match_grant_def grant_applies_def set_some_of image_iff split: option.splits; metis)

lemma applies_level: "grant_applies rid ps g l \<Longrightarrow> normalize_level (JStr (ag_level g)) = Some l"
  by (simp add: grant_applies_def)

lemma match_grant_none:
  "match_grant (js_unique (some_of (map (\<lambda>p. normalize_principal (JStr p)) ps))) rid g = None \<Longrightarrow> \<not> grant_applies rid ps g l"
  using applies_level [of rid ps g l] by (auto simp: match_grant_applies split: option.splits if_splits)

lemma match_grant_some:
  "match_grant (js_unique (some_of (map (\<lambda>p. normalize_principal (JStr p)) ps))) rid g = Some (g', l) \<Longrightarrow>
     grant_applies rid ps g l' \<longleftrightarrow> l' = l"
  using applies_level [of rid ps g l'] by (auto simp: match_grant_applies split: option.splits if_splits)

lemma take_grants_highest:
  assumes "highest L (fst acc)"
  shows "highest (L \<union> {l. \<exists>g \<in> set gs. grant_applies rid ps g l})
    (fst (take_grants (js_unique (some_of (map (\<lambda>p. normalize_principal (JStr p)) ps))) rid gs acc))"
  using assms
proof (induction gs arbitrary: L acc)
  case (Cons g gs)
  let ?matched = "match_grant (js_unique (some_of (map (\<lambda>p. normalize_principal (JStr p)) ps))) rid g"
  show ?case
  proof (cases ?matched)
    case None
    then have "{l. \<exists>x \<in> set (g # gs). grant_applies rid ps x l} = {l. \<exists>x \<in> set gs. grant_applies rid ps x l}"
      using match_grant_none by auto
    with None Cons show ?thesis by simp
  next
    case (Some m)
    then obtain g' l where m: "?matched = Some (g', l)" by (cases m) auto
    have "{l. \<exists>x \<in> set (g # gs). grant_applies rid ps x l} = insert l {l. \<exists>x \<in> set gs. grant_applies rid ps x l}"
      using match_grant_some [OF m] by auto
    then have "L \<union> {l. \<exists>x \<in> set (g # gs). grant_applies rid ps x l} = insert l L \<union> {l. \<exists>x \<in> set gs. grant_applies rid ps x l}"
      by simp
    with m Cons.IH [of "insert l L" "(raise_level (fst acc) l, snd acc @ [g'])"] Cons.prems show ?thesis
      by (simp add: highest_raise)
  qed
qed simp

lemma effective_level_highest:
  "highest {l. \<exists>g \<in> set gs. grant_applies rid ps g l} (fst (resolve_effective_level rid ps gs))"
  using take_grants_highest [of "{}" "(None, [])" gs rid ps] by (simp add: resolve_effective_level_def highest_def)

lemma weight_le_owner [simp]: "level_weight l \<le> level_weight Owner"
  by (cases l) (simp_all add: level_weight_def)

text \<open>
  C24: The effective level is the highest among the levels of the grants that apply to
  the record and the principals, in any order of the grants, and of the owner level when the
  owner field names the actor.
\<close>

theorem access_level_decided:
  assumes "resolve_effective_access mode actorId ownerField r rid ps gs = Inr ea"
  shows "highest ({l. \<exists>g \<in> set gs. grant_applies rid ps g l} \<union> (if ea_owner ea then {Owner} else {})) (ea_level ea) \<and>
         enforce_owner_field_access ownerField r actorId mode = Inr (ea_owner ea)"
proof -
  obtain level matched where level: "resolve_effective_level rid ps gs = (level, matched)" by fastforce
  obtain owner where owner: "enforce_owner_field_access ownerField r actorId mode = Inr owner"
    using assms by (auto simp: resolve_effective_access_def bind_sum_Inr)
  then have ea: "ea = \<lparr>ea_level = (if owner then Some Owner else level), ea_grants = matched, ea_owner = owner\<rparr>"
    using assms by (auto simp: resolve_effective_access_def level split: option.splits)
  have "highest {l. \<exists>g \<in> set gs. grant_applies rid ps g l} level" using effective_level_highest [of gs rid ps] level by simp
  then show ?thesis using owner by (cases owner) (auto simp: ea highest_def)
qed

section \<open>Witnesses\<close>

text \<open>
  A small organisation: alice is in the team \<open>team:a\<close>, which belongs to \<open>org:x\<close>; strings are
  compared by code unit.
\<close>

definition small_store :: "unit principal_store" where
  "small_store =
     \<lparr>pst_memberships = (\<lambda>ns actor. Inr (if actor = ''alice'' then ['' team:a''] else [])),
      pst_parents = (\<lambda>ns ps. Inr (if ''team:a'' \<in> set ps then [\<lparr>he_principal = ''team:a'', he_parent = ''org:x''\<rparr>] else []))\<rparr>"

lemmas walk_eval = walk.simps resolve_effective_principals_def compute_principals_def small_store_def unique_sorted_def
  js_unique_def jset_add_def jset_del_def normalize_principal_def js_trim_def is_js_ws_def load_parents_def take_cached_def
  group_edge_def put_parents_def add_principal_def canonicalize_actor_principal_def DEFAULT_MAX_DEPTH_def Let_def

lemma small_store_resolved:
  "fst (resolve_effective_principals str_cmp small_store ''n'' ''alice'' None None) = Inr [''team:a'', ''org:x'', ''user:alice'']"
  by (simp add: walk_eval)

lemma small_store_direct: "direct_principals small_store ''n'' ''alice'' = {''team:a''}"
  by (auto simp: direct_principals_def small_store_def normalize_principal_def js_trim_def is_js_ws_def)

lemma small_store_parents: "parent_rel small_store ns = {(''team:a'', ''org:x'')}"
  by (auto simp: parent_rel_def edge_parents_def small_store_def normalize_principal_def js_trim_def is_js_ws_def split: if_splits)

theorem principals_are_ancestors_witness:
  "set [''team:a'', ''org:x'', ''user:alice''] =
     insert (canonicalize_actor_principal ''alice'') ((parent_rel small_store ''n'')\<^sup>* `` direct_principals small_store ''n'' ''alice'')"
  using principals_are_ancestors [OF small_store_resolved] by blast

theorem hierarchy_resolved_witness:
  "\<exists>ps. fst (resolve_effective_principals str_cmp small_store ''n'' ''alice'' None None) = Inr ps"
  by (rule hierarchy_resolved [where raw = "['' team:a'']" and rank = "\<lambda>p. if p = ''team:a'' then 1 else 0"])
    (simp_all add: small_store_parents small_store_direct, simp_all add: small_store_def)

definition team_grant :: access_grant where
  "team_grant = \<lparr>ag_principal = ''team:a'', ag_level = ''editor'', ag_kind = ScopeGrant, ag_resource = None, ag_source = None\<rparr>"

lemma small_access:
  "resolve_effective_access WriteMode (Some ''alice'') (JStr ''owner'') (JObj [(''owner'', JStr ''alice'')]) ''r1''
     [''team:a''] [team_grant] =
   Inr \<lparr>ea_level = Some Owner, ea_grants = [team_grant], ea_owner = True\<rparr>"
  by (simp add: resolve_effective_access_def enforce_owner_field_access_def normalize_principal_def js_trim_def is_js_ws_def
      owner_matches_actor_def resolve_effective_level_def match_grant_def normalize_level_def js_unique_def jset_add_def
      raise_level_def level_name_def team_grant_def js_get_def)

theorem access_level_decided_witness:
  "highest ({l. \<exists>g \<in> set [team_grant]. grant_applies ''r1'' [''team:a''] g l} \<union> {Owner}) (Some Owner)"
  using access_level_decided [OF small_access] by simp

end
