(* ===== verification/FieldPolicy.thy ===== *)
theory FieldPolicy
  imports AccessControl KvStores SchemaViews RecordOrder Validation
begin

text \<open>
  Which fields an actor may read and write, the first half of
  \<open>datafn/server/src/validation/authz.ts\<close>: the policy of a resource, explicit or by default, and
  the checks of a query and of a mutation against it.
\<close>

section \<open>Policies\<close>

text \<open>The schema with the members the checks read besides those of \<open>resource_schema\<close>.\<close>

record policy_resource = resource_schema +
  po_capabilities :: "resource_capabilities option"
  po_no_defaults :: bool

record field_defaults =
  fd_read :: bool
  fd_write :: bool
  fd_relation_writes :: bool

datatype default_permissions = AllResourceFields | FieldDefaults field_defaults

record policy_schema =
  ps_resources :: "policy_resource list"
  ps_relations :: "relation_schema list option"
  ps_capabilities :: "capability_entry list option"
  ps_defaults :: "default_permissions option"

definition capability_fields_of :: "policy_schema \<Rightarrow> policy_resource \<Rightarrow> field_schema list" where
  "capability_fields_of schema resource =
     get_capability_fields (resolve_capabilities (ps_capabilities schema) (po_capabilities resource))"

text \<open>\<open>getCapabilityFieldSets\<close>: all managed fields, and the readonly ones.\<close>

definition get_capability_field_sets :: "policy_schema \<Rightarrow> policy_resource \<Rightarrow> string jset \<times> string jset" where
  "get_capability_field_sets schema resource =
     (let defs = capability_fields_of schema resource
      in (js_unique (map fs_name defs), js_unique (map fs_name (filter (\<lambda>f. fs_readonly f = Some True) defs))))"

definition get_read_fields :: "permissions_policy option \<Rightarrow> string list" where
  "get_read_fields policy = (case policy of None \<Rightarrow> [] | Some p \<Rightarrow> or_else (pp_read p) [])"

definition resource_field_names :: "policy_resource \<Rightarrow> string list" where
  "resource_field_names resource = js_unique (''id'' # map fs_name (rs_fields resource))"

definition truthy_name :: "string option \<Rightarrow> string list" where
  "truthy_name n = (case n of None \<Rightarrow> [] | Some s \<Rightarrow> if s = [] then [] else [s])"

definition relation_write_fields :: "policy_schema \<Rightarrow> string \<Rightarrow> string list" where
  "relation_write_fields schema name =
     js_unique (concat (map (\<lambda>rel.
       (if endpoint_includes (rl_from rel) name then truthy_name (rl_relation rel) else []) @
       (if endpoint_includes (rl_to rel) name then truthy_name (rl_inverse rel) else [])) (or_else (ps_relations schema) [])))"

definition resolve_default_permissions :: "policy_schema \<Rightarrow> policy_resource \<Rightarrow> permissions_policy option" where
  "resolve_default_permissions schema resource =
     (if po_no_defaults resource then None
      else
        (case ps_defaults schema of
           None \<Rightarrow> None
         | Some defaults \<Rightarrow>
             (let names = resource_field_names resource;
                  reading = (case defaults of AllResourceFields \<Rightarrow> True | FieldDefaults d \<Rightarrow> fd_read d);
                  writing = (case defaults of AllResourceFields \<Rightarrow> True | FieldDefaults d \<Rightarrow> fd_write d);
                  relations = (case defaults of AllResourceFields \<Rightarrow> False | FieldDefaults d \<Rightarrow> fd_relation_writes d)
              in if \<not> reading \<and> \<not> writing then None
                 else Some \<lparr>pp_read = (if reading then Some names else None),
                            pp_write = (if writing
                              then Some (names @ (if relations then relation_write_fields schema (rs_name resource) else []))
                              else None)\<rparr>)))"

definition resolve_permissions :: "policy_schema \<Rightarrow> policy_resource \<Rightarrow> permissions_policy option" where
  "resolve_permissions schema resource = js_coalesce (rs_permissions resource) (resolve_default_permissions schema resource)"

definition get_resource_schema :: "policy_schema \<Rightarrow> string \<Rightarrow> policy_resource option" where
  "get_resource_schema schema name = find (\<lambda>resource. rs_name resource = name) (ps_resources schema)"

definition can_read_field :: "policy_schema \<Rightarrow> policy_resource \<Rightarrow> string \<Rightarrow> bool" where
  "can_read_field schema resource field =
     (field = ''id'' \<or> field \<in> set (fst (get_capability_field_sets schema resource)) \<or>
      field \<in> set (get_read_fields (resolve_permissions schema resource)))"

definition plain_schema :: "policy_schema \<Rightarrow> datafn_schema" where
  "plain_schema schema =
     \<lparr>sc_resources = map resource_schema.truncate (ps_resources schema), sc_relations = ps_relations schema\<rparr>"

definition resolve_relation_target_resources :: "policy_schema \<Rightarrow> string \<Rightarrow> string \<Rightarrow> string list" where
  "resolve_relation_target_resources schema source name =
     (case find_relation_match (plain_schema schema) source name of
        None \<Rightarrow> []
      | Some (rel, direction) \<Rightarrow> endpoint_list (relation_target_endpoint rel direction))"

section \<open>Queries\<close>

record authz_options =
  ao_allow_unknown :: bool
  ao_debug :: bool

abbreviation forbidden :: "string \<Rightarrow> string \<Rightarrow> auth_failure" where
  "forbidden message path \<equiv> AuthFailure ''FORBIDDEN'' message path"

definition no_policy_error :: "authz_options \<Rightarrow> string \<Rightarrow> auth_failure" where
  "no_policy_error opts name =
     forbidden
       (if \<not> ao_debug opts then ''Authorization denied''
        else ''No authorization policy found for resource '' @ [CHR 0x27] @ name @ [CHR 0x27] @
          ''. Define a policy or use allowUnknownResources: true to allow.'') ''resource''"

definition array_of :: "jsval \<Rightarrow> jsval list" where
  "array_of v = (case v of JArr vs \<Rightarrow> vs | _ \<Rightarrow> [])"

definition member_of :: "jsval \<Rightarrow> string \<Rightarrow> jsval" where
  "member_of v k = (case v of JObj r \<Rightarrow> js_get r k | _ \<Rightarrow> JUndef)"

text \<open>The loops that return at the first element that is refused.\<close>

fun first_refused :: "nat \<Rightarrow> ('a \<Rightarrow> bool) \<Rightarrow> 'a list \<Rightarrow> nat option" where
  "first_refused i ok [] = None"
| "first_refused i ok (x # xs) = (if ok x then first_refused (Suc i) ok xs else Some i)"

definition at_index :: "string \<Rightarrow> nat \<Rightarrow> string" where
  "at_index name i = name @ ''['' @ int_to_string (int i) @ '']''"

definition check_all :: "string \<Rightarrow> string \<Rightarrow> ('a \<Rightarrow> bool) \<Rightarrow> 'a list \<Rightarrow> auth_failure + unit" where
  "check_all message name ok xs =
     (case first_refused 0 ok xs of None \<Rightarrow> Inr () | Some i \<Rightarrow> Inl (forbidden message (at_index name i)))"

text \<open>The walk along the segments of a select token.\<close>

fun path_readable :: "policy_schema \<Rightarrow> string list \<Rightarrow> string list \<Rightarrow> bool" where
  "path_readable schema current [] = True"
| "path_readable schema current (segment # rest) =
     (if segment \<in> {''*'', ''#'', ''*#''} \<and> rest = [] then True
      else
        (let targets = js_unique (concat (map (\<lambda>c. resolve_relation_target_resources schema c segment) current))
         in if targets \<noteq> [] then path_readable schema targets rest
            else list_all (\<lambda>c. case get_resource_schema schema c of
                             Some resource \<Rightarrow> can_read_field schema resource segment | None \<Rightarrow> True) current))"

definition token_readable :: "policy_schema \<Rightarrow> policy_resource \<Rightarrow> jsval \<Rightarrow> bool" where
  "token_readable schema resource token =
     (case token of
        JStr t \<Rightarrow> t = ''*'' \<or> path_readable schema [rs_name resource] (js_split ''.'' t)
      | _ \<Rightarrow> True)"

definition has_field :: "policy_resource \<Rightarrow> string \<Rightarrow> bool" where
  "has_field resource field = list_ex (\<lambda>f. fs_name f = field) (rs_fields resource)"

text \<open>The entries of a filter, an object or an array; an index is no field.\<close>

definition filter_entries :: "jsval \<Rightarrow> (string \<times> jsval) list" where
  "filter_entries v =
     (case v of
        JObj r \<Rightarrow> r
      | JArr vs \<Rightarrow> index_entries id vs
      | _ \<Rightarrow> [])"

lemma weight_filter_entry: "(k, w) \<in> set (filter_entries v) \<Longrightarrow> weight w < weight v"
  by (cases v) (auto simp: filter_entries_def intro: weight_member weight_elem simp del: weight.simps dest!: index_entries_value)

lemma weight_array: "w \<in> set (array_of v) \<Longrightarrow> weight w < weight v"
  by (cases v) (auto simp: array_of_def intro: weight_elem simp del: weight.simps)

definition field_refused :: "policy_resource \<Rightarrow> string list \<Rightarrow> string jset \<Rightarrow> string \<Rightarrow> bool" where
  "field_refused resource readFields capabilityFields key =
     (let base = hd (js_split ''.'' key)
      in base \<noteq> ''id'' \<and> base \<notin> set capabilityFields \<and> has_field resource base \<and> base \<notin> set readFields)"

function extract_fields_from_filter :: "policy_resource \<Rightarrow> string list \<Rightarrow> string jset \<Rightarrow> jsval \<Rightarrow> auth_failure option" where
  "extract_fields_from_filter resource readFields capabilityFields v =
     first_some (\<lambda>(key, value).
       if key = ''$and'' \<or> key = ''$or'' then
         first_some (\<lambda>sub. extract_fields_from_filter resource readFields capabilityFields sub) (array_of value)
       else if field_refused resource readFields capabilityFields key
         then Some (forbidden ''Authorization denied'' (''filters.'' @ key)) else None) (filter_entries v)"
  by pat_completeness auto
termination
  by (relation "measure (\<lambda>(resource, rs, cs, v). weight v)")
    (auto simp del: weight.simps dest!: weight_array weight_filter_entry)

declare extract_fields_from_filter.simps [simp del]

definition field_allowed :: "string list \<Rightarrow> string jset \<Rightarrow> string \<Rightarrow> bool" where
  "field_allowed readFields capabilityFields field =
     (field = ''id'' \<or> field \<in> set capabilityFields \<or> field \<in> set readFields)"

definition string_allowed :: "string list \<Rightarrow> string jset \<Rightarrow> jsval \<Rightarrow> bool" where
  "string_allowed readFields capabilityFields v =
     (case v of JStr field \<Rightarrow> field_allowed readFields capabilityFields field | _ \<Rightarrow> True)"

text \<open>From \<open>datafn/core/src/temporal.ts\<close>: the clauses of a query and the aliases of its groups.\<close>

definition is_temporal_clause :: "jsval \<Rightarrow> bool" where
  "is_temporal_clause v = (case v of JObj r \<Rightarrow> (case js_get r ''field'' of JStr _ \<Rightarrow> True | _ \<Rightarrow> False) | _ \<Rightarrow> False)"

definition get_temporal_clauses :: "jsrec \<Rightarrow> jsval list" where
  "get_temporal_clauses query =
     (let t = js_get query ''temporal''
      in case t of
           JArr vs \<Rightarrow> filter is_temporal_clause vs
         | _ \<Rightarrow> if js_truthy t \<and> is_temporal_clause t then [t] else [])"

definition clause_field :: "jsval \<Rightarrow> string" where
  "clause_field clause = (case member_of clause ''field'' of JStr f \<Rightarrow> f | _ \<Rightarrow> [])"

definition get_temporal_group_aliases :: "(rat \<Rightarrow> string) \<Rightarrow> jsrec \<Rightarrow> jsval list" where
  "get_temporal_group_aliases dtoa query =
     map (\<lambda>clause.
        let g = member_of clause ''groupBy''
        in if js_nullish (member_of g ''alias'')
           then JStr (clause_field clause @ ''_'' @ js_string dtoa (member_of g ''scale'')) else member_of g ''alias'')
      (filter (\<lambda>clause. js_truthy (member_of clause ''groupBy'')) (get_temporal_clauses query))"

definition is_object :: "jsval \<Rightarrow> bool" where
  "is_object v = (case v of JObj _ \<Rightarrow> True | _ \<Rightarrow> False)"

definition is_container :: "jsval \<Rightarrow> bool" where
  "is_container v = (case v of JObj _ \<Rightarrow> True | JArr _ \<Rightarrow> True | _ \<Rightarrow> False)"

text \<open>\<open>path.replace(/^filters\./, "")\<close>.\<close>

definition without_filters :: "string \<Rightarrow> string" where
  "without_filters path = (if starts_with path ''filters.'' then drop 8 path else path)"

definition check_filter :: "policy_resource \<Rightarrow> string list \<Rightarrow> string jset \<Rightarrow> jsval \<Rightarrow> auth_failure + unit" where
  "check_filter resource readFields capabilityFields v =
     (if is_container v
      then (case extract_fields_from_filter resource readFields capabilityFields v of None \<Rightarrow> Inr () | Some e \<Rightarrow> Inl e)
      else Inr ())"

definition check_temporal :: "string list \<Rightarrow> string jset \<Rightarrow> jsrec \<Rightarrow> auth_failure + unit" where
  "check_temporal readFields capabilityFields query =
     (if list_all (\<lambda>clause. field_allowed readFields capabilityFields (clause_field clause)) (get_temporal_clauses query)
      then Inr () else Inl (forbidden ''Authorization denied'' ''temporal.field''))"

definition check_aggregations :: "string list \<Rightarrow> string jset \<Rightarrow> jsval \<Rightarrow> auth_failure + unit" where
  "check_aggregations readFields capabilityFields v =
     (case v of
        JObj aggs \<Rightarrow>
          (case first_some (\<lambda>(alias, d).
              case member_of d ''field'' of
                JStr f \<Rightarrow> if f = ''*'' \<or> field_allowed readFields capabilityFields f then None
                          else Some (forbidden ''Authorization denied'' (''aggregations.'' @ alias @ ''.field''))
              | _ \<Rightarrow> None) aggs of
             None \<Rightarrow> Inr () | Some e \<Rightarrow> Inl e)
      | _ \<Rightarrow> Inr ())"

definition check_having :: "policy_resource \<Rightarrow> string list \<Rightarrow> string jset \<Rightarrow> jsval \<Rightarrow> auth_failure + unit" where
  "check_having resource readFields capabilityFields v =
     (if is_object v
      then (case extract_fields_from_filter resource readFields capabilityFields v of
              None \<Rightarrow> Inr ()
            | Some (AuthFailure code message path) \<Rightarrow> Inl (AuthFailure code message (''having.'' @ without_filters path)))
      else Inr ())"

text \<open>\<open>field in query.aggregations\<close>, for an object or an array.\<close>

definition is_aggregation :: "jsrec \<Rightarrow> string \<Rightarrow> bool" where
  "is_aggregation query field =
     (let aggs = js_get query ''aggregations''
      in is_container aggs \<and> field \<in> set (map fst (filter_entries aggs)))"

definition sort_term_allowed ::
  "(rat \<Rightarrow> string) \<Rightarrow> policy_resource \<Rightarrow> string list \<Rightarrow> string jset \<Rightarrow> jsrec \<Rightarrow> jsval \<Rightarrow> bool" where
  "sort_term_allowed dtoa resource readFields capabilityFields query item =
     (case parse_sort_term dtoa item of
        Inl _ \<Rightarrow> False
      | Inr trm \<Rightarrow>
          (let field = st_field trm
           in field = ''id'' \<or> field \<in> set capabilityFields \<or> is_aggregation query field \<or>
              JStr field \<in> set (get_temporal_group_aliases dtoa query) \<or> \<not> has_field resource field \<or> field \<in> set readFields))"

definition validate_query_authz :: "(rat \<Rightarrow> string) \<Rightarrow> jsrec \<Rightarrow> policy_schema \<Rightarrow> authz_options \<Rightarrow> auth_failure + unit" where
  "validate_query_authz dtoa query schema opts =
     (case find (\<lambda>resource. JStr (rs_name resource) = js_get query ''resource'') (ps_resources schema) of
        None \<Rightarrow> Inr ()
      | Some resource \<Rightarrow>
          (case resolve_permissions schema resource of
             None \<Rightarrow> if ao_allow_unknown opts then Inr () else Inl (no_policy_error opts (rs_name resource))
           | Some policy \<Rightarrow>
               (let capabilityFields = fst (get_capability_field_sets schema resource);
                    readFields = or_else (pp_read policy) []
                in bind_sum (check_all ''Read access denied'' ''select'' (token_readable schema resource) (array_of (js_get query ''select''))) (\<lambda>_.
                   bind_sum (check_filter resource readFields capabilityFields (js_get query ''filters'')) (\<lambda>_.
                   bind_sum (check_temporal readFields capabilityFields query) (\<lambda>_.
                   bind_sum (check_aggregations readFields capabilityFields (js_get query ''aggregations'')) (\<lambda>_.
                   bind_sum (check_all ''Authorization denied'' ''groupBy'' (string_allowed readFields capabilityFields)
                     (array_of (js_get query ''groupBy''))) (\<lambda>_.
                   bind_sum (check_having resource readFields capabilityFields (js_get query ''having'')) (\<lambda>_.
                   bind_sum (check_all ''Authorization denied'' ''sort'' (sort_term_allowed dtoa resource readFields capabilityFields query)
                     (array_of (js_get query ''sort''))) (\<lambda>_.
                   check_all ''Authorization denied'' ''search.fields'' (string_allowed readFields capabilityFields)
                     (array_of (member_of (js_get query ''search'') ''fields''))))))))))))"

section \<open>Mutations\<close>

definition validate_relation_authz :: "jsrec \<Rightarrow> string list \<Rightarrow> auth_failure + unit" where
  "validate_relation_authz mutation writeFields =
     (let relation = js_get mutation ''relation''
      in if \<not> js_truthy relation then Inr ()
         else if relation \<in> JStr ` set writeFields then Inr ()
         else Inl (forbidden ''Authorization denied'' ''relation''))"

definition validate_mutation_authz :: "jsrec \<Rightarrow> policy_schema \<Rightarrow> authz_options \<Rightarrow> auth_failure + unit" where
  "validate_mutation_authz mutation schema opts =
     (case find (\<lambda>resource. JStr (rs_name resource) = js_get mutation ''resource'') (ps_resources schema) of
        None \<Rightarrow> Inr ()
      | Some resource \<Rightarrow>
          (case resolve_permissions schema resource of
             None \<Rightarrow> if ao_allow_unknown opts then Inr () else Inl (no_policy_error opts (rs_name resource))
           | Some policy \<Rightarrow>
               (let readonly = snd (get_capability_field_sets schema resource);
                    writeFields = or_else (pp_write policy) [];
                    ok = (\<lambda>(name, _). name = ''id'' \<or> name \<in> set readonly \<or> name \<in> set writeFields)
                in bind_sum
                     (case find (\<lambda>e. \<not> ok e) (filter_entries (js_get mutation ''record'')) of
                        None \<Rightarrow> Inr ()
                      | Some (name, _) \<Rightarrow> Inl (forbidden ''Authorization denied'' (''record.'' @ name)))
                     (\<lambda>_. if js_get mutation ''operation'' \<in> {JStr ''relate'', JStr ''modifyRelation'', JStr ''unrelate''}
                           then validate_relation_authz mutation writeFields else Inr ()))))"

end
