(* ===== verification/PolicyProperties.thy ===== *)
theory PolicyProperties
  imports FieldPolicy
begin

text \<open>
  What the field policies enforce, and where a filter gets around them.
\<close>

section \<open>What a query reads\<close>

text \<open>The keys of a filter, under any nesting of the connectives.\<close>

inductive filter_mentions :: "jsval \<Rightarrow> string \<Rightarrow> bool" where
  key: "(k, v) \<in> set (filter_entries f) \<Longrightarrow> k \<noteq> ''$and'' \<Longrightarrow> k \<noteq> ''$or'' \<Longrightarrow> filter_mentions f k"
| nested: "(c, v) \<in> set (filter_entries f) \<Longrightarrow> c = ''$and'' \<or> c = ''$or'' \<Longrightarrow> sub \<in> set (array_of v) \<Longrightarrow>
    filter_mentions sub k \<Longrightarrow> filter_mentions f k"


lemma extract_None:
  "extract_fields_from_filter resource rs cs f = None \<longleftrightarrow> (\<forall>k. filter_mentions f k \<longrightarrow> \<not> field_refused resource rs cs k)"
proof (induction resource rs cs f rule: extract_fields_from_filter.induct)
  case (1 resource rs cs f)
  let ?ext = "extract_fields_from_filter resource rs cs"
  have entries: "?ext f = None \<longleftrightarrow>
      (\<forall>(k, v) \<in> set (filter_entries f).
         if k = ''$and'' \<or> k = ''$or'' then \<forall>sub \<in> set (array_of v). ?ext sub = None else \<not> field_refused resource rs cs k)"
    unfolding extract_fields_from_filter.simps [of resource rs cs f] first_some_None case_prod_beta
    by (intro ball_cong refl) (auto simp: first_some_None)
  have sub_None: "?ext sub = None \<longleftrightarrow> (\<forall>k. filter_mentions sub k \<longrightarrow> \<not> field_refused resource rs cs k)"
    if "(c, v) \<in> set (filter_entries f)" "c = ''$and'' \<or> c = ''$or''" "sub \<in> set (array_of v)" for c v sub
    using "1.IH" [OF that(1) refl that(2,3)] .
  show ?case
  proof
    assume none: "?ext f = None"
    show "\<forall>k. filter_mentions f k \<longrightarrow> \<not> field_refused resource rs cs k"
    proof (intro allI impI)
      fix k assume "filter_mentions f k"
      then show "\<not> field_refused resource rs cs k"
      proof (cases rule: filter_mentions.cases)
        case (key v)
        with none show ?thesis unfolding entries by fastforce
      next
        case (nested c v sub)
        with none have "?ext sub = None" unfolding entries by fastforce
        with sub_None [OF nested(1-3)] nested(4) show ?thesis by blast
      qed
    qed
  next
    assume all: "\<forall>k. filter_mentions f k \<longrightarrow> \<not> field_refused resource rs cs k"
    then have "?ext sub = None" if "(c, v) \<in> set (filter_entries f)" "c = ''$and'' \<or> c = ''$or''" "sub \<in> set (array_of v)" for c v sub
      unfolding sub_None [OF that] using filter_mentions.nested [OF that] by blast
    moreover have "\<not> field_refused resource rs cs k" if "(k, v) \<in> set (filter_entries f)" "k \<noteq> ''$and''" "k \<noteq> ''$or''" for k v
      using all filter_mentions.key [OF that] by blast
    ultimately show "?ext f = None" unfolding entries by auto
  qed
qed

text \<open>The resource and the field a select path ends in.\<close>

inductive path_reads :: "policy_schema \<Rightarrow> string list \<Rightarrow> string list \<Rightarrow> string \<Rightarrow> string \<Rightarrow> bool" for schema where
  step: "js_unique (concat (map (\<lambda>c. resolve_relation_target_resources schema c segment) current)) = targets \<Longrightarrow> targets \<noteq> [] \<Longrightarrow>
    \<not> (segment \<in> {''*'', ''#'', ''*#''} \<and> rest = []) \<Longrightarrow> path_reads schema targets rest resource field \<Longrightarrow>
    path_reads schema current (segment # rest) resource field"
| leaf: "js_unique (concat (map (\<lambda>c. resolve_relation_target_resources schema c segment) current)) = [] \<Longrightarrow>
    \<not> (segment \<in> {''*'', ''#'', ''*#''} \<and> rest = []) \<Longrightarrow> resource \<in> set current \<Longrightarrow>
    path_reads schema current (segment # rest) resource segment"

lemma path_readable_reads:
  "path_reads schema current segments resource field \<Longrightarrow> path_readable schema current segments \<Longrightarrow>
     get_resource_schema schema resource = Some r \<Longrightarrow> can_read_field schema r field"
proof (induction rule: path_reads.induct)
  case (step segment current targets rest resource field)
  then show ?case by (simp add: Let_def split: if_splits)
next
  case (leaf segment current rest resource)
  then show ?case by (auto simp: Let_def list_all_iff split: if_splits)
qed

lemma first_refused_None: "first_refused i ok xs = None \<longleftrightarrow> list_all ok xs"
  by (induction xs arbitrary: i) auto

lemma check_all_ok: "check_all message name ok xs = Inr () \<longleftrightarrow> list_all ok xs"
  by (simp add: check_all_def first_refused_None split: option.split)
    (metis first_refused_None option.distinct(1))

text \<open>What an accepted query may read of its own resource: \<open>uses query f\<close> for the fields it works on.\<close>

inductive query_uses :: "jsrec \<Rightarrow> string \<Rightarrow> bool" for query where
  filters: "filter_mentions (js_get query ''filters'') k \<Longrightarrow> query_uses query (hd (js_split ''.'' k))"
| having: "is_object (js_get query ''having'') \<Longrightarrow> filter_mentions (js_get query ''having'') k \<Longrightarrow> query_uses query (hd (js_split ''.'' k))"
| temporal: "clause \<in> set (get_temporal_clauses query) \<Longrightarrow> query_uses query (clause_field clause)"
| aggregation: "js_get query ''aggregations'' = JObj aggs \<Longrightarrow> (a, d) \<in> set aggs \<Longrightarrow> member_of d ''field'' = JStr f \<Longrightarrow> f \<noteq> ''*'' \<Longrightarrow>
    query_uses query f"
| grouping: "JStr f \<in> set (array_of (js_get query ''groupBy'')) \<Longrightarrow> query_uses query f"
| searching: "JStr f \<in> set (array_of (member_of (js_get query ''search'') ''fields'')) \<Longrightarrow> query_uses query f"

lemma field_allowed_can_read:
  "resolve_permissions schema resource = Some policy \<Longrightarrow>
     field_allowed (or_else (pp_read policy) []) (fst (get_capability_field_sets schema resource)) f = can_read_field schema resource f"
  by (simp add: field_allowed_def can_read_field_def get_read_fields_def)

lemma find_policy:
  "js_get query ''resource'' = JStr name \<Longrightarrow>
     find (\<lambda>resource. JStr (rs_name resource) = js_get query ''resource'') (ps_resources schema) = get_resource_schema schema name"
  by (simp add: get_resource_schema_def)

text \<open>
  C17: An accepted query works on readable fields only: in filters and having clauses under any
  nesting, in temporal clauses, aggregations, groupings and searches, a field of the resource is
  one its policy lets read; and a select path ends in a field that the policy of the resource it
  leads to lets read. A key counts as the field of the resource that its first segment names: what a
  filter reads of related resources the code does not check (\<open>filter_reads_forbidden_field\<close>), and
  the select token \<open>*\<close> names no field.
\<close>

theorem query_fields_authorized:
  assumes "validate_query_authz dtoa query schema opts = Inr ()" and "js_get query ''resource'' = JStr name"
    and "get_resource_schema schema name = Some resource" and "resolve_permissions schema resource = Some policy"
  shows "(\<forall>f. query_uses query f \<longrightarrow> has_field resource f \<longrightarrow> can_read_field schema resource f) \<and>
         (\<forall>t r f target. JStr t \<in> set (array_of (js_get query ''select'')) \<longrightarrow> t \<noteq> ''*'' \<longrightarrow>
            path_reads schema [rs_name resource] (js_split ''.'' t) r f \<longrightarrow> get_resource_schema schema r = Some target \<longrightarrow>
            can_read_field schema target f)"
proof -
  let ?caps = "fst (get_capability_field_sets schema resource)" and ?rs = "or_else (pp_read policy) []"
  note allowed = field_allowed_can_read [OF assms(4)]
  from assms(1) have checks:
    "list_all (token_readable schema resource) (array_of (js_get query ''select''))"
    "check_filter resource ?rs ?caps (js_get query ''filters'') = Inr ()"
    "check_temporal ?rs ?caps query = Inr ()"
    "check_aggregations ?rs ?caps (js_get query ''aggregations'') = Inr ()"
    "list_all (string_allowed ?rs ?caps) (array_of (js_get query ''groupBy''))"
    "check_having resource ?rs ?caps (js_get query ''having'') = Inr ()"
    "list_all (string_allowed ?rs ?caps) (array_of (member_of (js_get query ''search'') ''fields''))"
    unfolding validate_query_authz_def find_policy [OF assms(2)] assms(3,4) option.case Let_def
    by (auto simp: bind_sum_Inr check_all_ok)
  have mentioned: "can_read_field schema resource (hd (js_split ''.'' k))"
    if "extract_fields_from_filter resource ?rs ?caps f = None" "filter_mentions f k" "has_field resource (hd (js_split ''.'' k))" for f k
    using that unfolding extract_None allowed [symmetric] field_allowed_def field_refused_def Let_def by blast
  have containers: "is_container f" if "filter_mentions f k" for f k
    using that by (cases rule: filter_mentions.cases) (auto simp: filter_entries_def is_container_def split: jsval.splits)
  have "can_read_field schema resource f" if "query_uses query f" "has_field resource f" for f
    using that
  proof (cases rule: query_uses.cases)
    case (filters k)
    then show ?thesis using checks(2) containers mentioned that(2) by (auto simp: check_filter_def split: option.splits)
  next
    case (having k)
    then show ?thesis using checks(6) mentioned that(2)
      by (auto simp: check_having_def split: option.splits auth_failure.splits)
  next
    case (temporal clause)
    then show ?thesis using checks(3) by (auto simp: check_temporal_def list_all_iff allowed split: if_splits)
  next
    case (aggregation aggs a d)
    have "\<forall>x \<in> set aggs. (case x of (name, d) \<Rightarrow>
        case member_of d ''field'' of
          JStr f \<Rightarrow> if f = ''*'' \<or> field_allowed ?rs ?caps f then None
                    else Some (forbidden ''Authorization denied'' (''aggregations.'' @ name @ ''.field''))
        | _ \<Rightarrow> None) = None"
      using checks(4) aggregation(1) by (simp add: check_aggregations_def first_some_None split: option.splits)
    from bspec [OF this aggregation(2)] aggregation(3,4) show ?thesis by (simp add: allowed split: if_splits)
  next
    case grouping
    then show ?thesis using checks(5) by (auto simp: list_all_iff string_allowed_def allowed)
  next
    case searching
    then show ?thesis using checks(7) by (auto simp: list_all_iff string_allowed_def allowed)
  qed
  moreover have "can_read_field schema target f"
    if "JStr t \<in> set (array_of (js_get query ''select''))" "t \<noteq> ''*''" "path_reads schema [rs_name resource] (js_split ''.'' t) r f"
      "get_resource_schema schema r = Some target" for t r f target
    using path_readable_reads [OF that(3) _ that(4)] checks(1) that(1,2) by (auto simp: list_all_iff token_readable_def)
  ultimately show ?thesis by blast
qed

section \<open>What a mutation writes\<close>

definition writable :: "policy_schema \<Rightarrow> policy_resource \<Rightarrow> permissions_policy \<Rightarrow> string \<Rightarrow> bool" where
  "writable schema resource policy f =
     (f = ''id'' \<or> f \<in> set (snd (get_capability_field_sets schema resource)) \<or> f \<in> set (or_else (pp_write policy) []))"

text \<open>
  C18: A mutation of a known resource is accepted exactly when the resource has a policy
  (none means denial), every field it writes is the id, a readonly capability field or in the
  write policy, and a relation it changes is in the write policy.
\<close>

theorem mutation_fields_authorized:
  assumes "js_get mutation ''resource'' = JStr name" and "get_resource_schema schema name = Some resource"
    and "\<not> ao_allow_unknown opts"
  shows "validate_mutation_authz mutation schema opts = Inr () \<longleftrightarrow>
    (\<exists>policy. resolve_permissions schema resource = Some policy \<and>
       (\<forall>(f, v) \<in> set (filter_entries (js_get mutation ''record'')). writable schema resource policy f) \<and>
       (js_get mutation ''operation'' \<in> {JStr ''relate'', JStr ''modifyRelation'', JStr ''unrelate''} \<longrightarrow>
          js_truthy (js_get mutation ''relation'') \<longrightarrow>
          js_get mutation ''relation'' \<in> JStr ` set (or_else (pp_write policy) [])))"
proof (cases "resolve_permissions schema resource")
  case None
  then show ?thesis
    using assms(3) by (simp add: validate_mutation_authz_def find_policy [OF assms(1)] assms(2))
next
  case (Some policy)
  let ?ok = "\<lambda>(n, _ :: jsval). n = ''id'' \<or> n \<in> set (snd (get_capability_field_sets schema resource)) \<or> n \<in> set (or_else (pp_write policy) [])"
  have entries: "find (\<lambda>e. \<not> ?ok e) (filter_entries (js_get mutation ''record'')) = None \<longleftrightarrow>
      (\<forall>(f, v) \<in> set (filter_entries (js_get mutation ''record'')). writable schema resource policy f)"
    by (auto simp: find_None_iff writable_def)
  have relation: "validate_relation_authz mutation (or_else (pp_write policy) []) = Inr () \<longleftrightarrow>
      (js_truthy (js_get mutation ''relation'') \<longrightarrow> js_get mutation ''relation'' \<in> JStr ` set (or_else (pp_write policy) []))"
    by (simp add: validate_relation_authz_def Let_def)
  show ?thesis
    unfolding validate_mutation_authz_def find_policy [OF assms(1)] assms(2) option.case Some Let_def
    by (cases "find (\<lambda>e. \<not> ?ok e) (filter_entries (js_get mutation ''record''))")
      (auto simp: relation simp flip: entries)
qed

section \<open>A filter on a related field\<close>

definition note_schema :: policy_schema where
  "note_schema =
     (let field = (\<lambda>n. plain_field n ''string'' False);
          resource = (\<lambda>n fs rd. \<lparr>rs_name = n, rs_version = Fin 1, rs_id_prefix = None, rs_fields = map field fs, rs_indices = None,
            rs_permissions = Some \<lparr>pp_read = Some rd, pp_write = Some rd\<rparr>, po_capabilities = None, po_no_defaults = False\<rparr>)
      in \<lparr>ps_resources = [resource ''note'' [''title''] [''title''], resource ''user'' [''name'', ''salary''] [''name'']],
          ps_relations = Some [\<lparr>rl_from = Single ''note'', rl_to = Single ''user'', rl_type = ManyOne, rl_relation = Some ''author'',
            rl_inverse = None, rl_fk_field = None, rl_foreign_key = None, rl_fk_resource_field = None, rl_join_table = None,
            rl_inherits_inactive = None\<rparr>],
          ps_capabilities = None, ps_defaults = None\<rparr>)"

definition strict :: authz_options where
  "strict = \<lparr>ao_allow_unknown = False, ao_debug = True\<rparr>"

lemmas policy_eval = note_schema_def strict_def resolve_permissions_def js_coalesce_def get_capability_field_sets_def
  capability_fields_of_def get_capability_fields_def resolve_capabilities_def dedupe_capabilities_def or_else_def js_get_def
  array_of_def check_all_def check_filter_def check_temporal_def get_temporal_clauses_def check_aggregations_def check_having_def
  is_container_def is_object_def member_of_def filter_entries_def js_unique_def jset_add_def validate_query_authz_def
  token_readable_def js_split_def at_index_def int_to_string_def field_refused_def has_field_def plain_field_def
  resolve_relation_target_resources_def find_relation_match_def plain_schema_def relation_matches_forward_def
  relation_matches_inverse_def endpoint_includes_def endpoint_list_def relation_target_endpoint_def get_resource_schema_def
  can_read_field_def get_read_fields_def split_go.simps Let_def is_temporal_clause_def js_truthy_def string_allowed_def field_allowed_def

definition salary_condition :: jsval where
  "salary_condition = JObj [(''author.salary'', JObj [(''$gt'', JNum (Fin 100))])]"

lemma title_query:
  "validate_query_authz dtoa [(''resource'', JStr ''note''), (''select'', JArr [JStr ''title'']), (''filters'', JObj [(''title'', JStr ''x'')])]
     note_schema strict = Inr ()"
  by (simp add: policy_eval extract_fields_from_filter.simps starts_with_def)

definition title_query_rec :: jsrec where
  "title_query_rec = [(''resource'', JStr ''note''), (''select'', JArr [JStr ''title'']), (''filters'', JObj [(''title'', JStr ''x'')])]"

lemma title_mentioned: "query_uses title_query_rec ''title''"
proof -
  have "filter_mentions (js_get title_query_rec ''filters'') ''title''"
    by (rule filter_mentions.key [where v = "JStr ''x''"]) (simp_all add: title_query_rec_def js_get_def filter_entries_def)
  from query_uses.filters [OF this] show ?thesis
    by (simp add: js_split_def split_go.simps starts_with_def)
qed

theorem query_fields_authorized_witness:
  "can_read_field note_schema (hd (ps_resources note_schema)) ''title''"
proof -
  have "(\<forall>f. query_uses title_query_rec f \<longrightarrow> has_field (hd (ps_resources note_schema)) f \<longrightarrow>
      can_read_field note_schema (hd (ps_resources note_schema)) f) \<and>
    (\<forall>t r f target. JStr t \<in> set (array_of (js_get title_query_rec ''select'')) \<longrightarrow> t \<noteq> ''*'' \<longrightarrow>
      path_reads note_schema [rs_name (hd (ps_resources note_schema))] (js_split ''.'' t) r f \<longrightarrow>
      get_resource_schema note_schema r = Some target \<longrightarrow> can_read_field note_schema target f)"
    using title_query [of dtoa]
    by (intro query_fields_authorized [where name = "''note''" and opts = strict and dtoa = dtoa])
      (simp_all add: title_query_rec_def, simp_all add: js_get_def get_resource_schema_def resolve_permissions_def note_schema_def Let_def js_coalesce_def)
  with title_mentioned show ?thesis by (simp add: note_schema_def has_field_def plain_field_def Let_def)
qed

theorem mutation_fields_authorized_witness:
  "validate_mutation_authz [(''resource'', JStr ''user''), (''operation'', JStr ''merge''), (''record'', JObj [(''salary'', JNum (Fin 1))])]
     note_schema strict \<noteq> Inr ()"
  by (subst mutation_fields_authorized [where name = "''user''" and resource = "ps_resources note_schema ! 1"])
    (simp_all add: policy_eval writable_def)

text \<open>
  A filter may compare a field of a related resource that the policy of that resource does not
  let anyone read; selecting the same path is refused.
\<close>

theorem filter_reads_forbidden_field:
  "validate_query_authz dtoa [(''resource'', JStr ''note''), (''filters'', salary_condition)] note_schema strict = Inr () \<and>
   validate_query_authz dtoa [(''resource'', JStr ''note''), (''select'', JArr [JStr ''author.salary''])] note_schema strict =
     Inl (forbidden ''Read access denied'' ''select[0]'')"
proof
  show "validate_query_authz dtoa [(''resource'', JStr ''note''), (''filters'', salary_condition)] note_schema strict = Inr ()"
    by (simp add: policy_eval salary_condition_def extract_fields_from_filter.simps starts_with_def)
  show "validate_query_authz dtoa [(''resource'', JStr ''note''), (''select'', JArr [JStr ''author.salary''])] note_schema strict =
     Inl (forbidden ''Read access denied'' ''select[0]'')"
    by (simp add: policy_eval starts_with_def digits_of.simps) (simp add: char_of_def bit_0)
qed

end
