(* ===== verification/GrantStore.thy ===== *)
theory GrantStore
  imports FieldPolicy DbMemory
begin

text \<open>
  Grants in the database, the second half of \<open>datafn/server/src/validation/authz.ts\<close>, the
  migration of grants in \<open>execution/migration/spv2.ts\<close> and the discovery of accessible records
  in \<open>routes/query.ts\<close>. The database is an \<open>adapter\<close>; a check only reads, so it is a function
  of one state of the database, and the migration passes the state along. The configuration the
  module keeps in a variable is the argument \<open>cfg\<close>.
\<close>

section \<open>Configuration\<close>

datatype read_mode = ReadV1 | ReadV2 | ReadDual

datatype write_mode = WriteV2 | WriteDual

record migration_config =
  mc_read :: read_mode
  mc_write :: write_mode
  mc_warn :: bool

definition DEFAULT_RUNTIME_CONFIG :: migration_config where
  "DEFAULT_RUNTIME_CONFIG = \<lparr>mc_read = ReadV2, mc_write = WriteV2, mc_warn = True\<rparr>"

definition read_mode_of :: "jsval \<Rightarrow> read_mode option" where
  "read_mode_of v =
     (if v = JStr ''v1'' then Some ReadV1 else if v = JStr ''v2'' then Some ReadV2
      else if v = JStr ''dual'' then Some ReadDual else None)"

definition write_mode_of :: "jsval \<Rightarrow> write_mode option" where
  "write_mode_of v = (if v = JStr ''v2'' then Some WriteV2 else if v = JStr ''dual'' then Some WriteDual else None)"

definition set_migration_config :: "jsval \<Rightarrow> migration_config" where
  "set_migration_config config =
     \<lparr>mc_read = or_else (read_mode_of (member_of config ''readMode'')) (mc_read DEFAULT_RUNTIME_CONFIG),
      mc_write = or_else (write_mode_of (member_of config ''writeMode'')) (mc_write DEFAULT_RUNTIME_CONFIG),
      mc_warn = (case member_of config ''warnOnLegacyApi'' of JBool b \<Rightarrow> b | _ \<Rightarrow> mc_warn DEFAULT_RUNTIME_CONFIG)\<rparr>"

section \<open>Reading the database\<close>

definition GLOBAL_PERMISSIONS_TABLE :: string where "GLOBAL_PERMISSIONS_TABLE = ''__datafn_permissions_global''"
definition PRINCIPAL_MEMBERSHIPS_TABLE :: string where "PRINCIPAL_MEMBERSHIPS_TABLE = ''__datafn_principal_memberships''"
definition PRINCIPAL_HIERARCHY_TABLE :: string where "PRINCIPAL_HIERARCHY_TABLE = ''__datafn_principal_hierarchy''"

definition where_eq :: "string \<Rightarrow> string \<Rightarrow> where_clause" where
  "where_eq f v = \<lparr>wc_field = f, wc_operator = WEq, wc_value = JStr v, wc_connector = None\<rparr>"

definition find_request :: "string \<Rightarrow> where_clause list \<Rightarrow> string \<Rightarrow> db_op" where
  "find_request model w ns =
     DbFindMany \<lparr>fp_model = model, fp_where = w, fp_select = None, fp_namespace = Some ns, fp_limit = None, fp_offset = None, fp_order = None\<rparr>"

definition find_one_request :: "string \<Rightarrow> where_clause list \<Rightarrow> string \<Rightarrow> db_op" where
  "find_one_request model w ns = DbFindOne \<lparr>fp_model = model, fp_where = w, fp_select = None, fp_namespace = Some ns\<rparr>"

text \<open>By its type an adapter answers a search with records, and a search for one with a record or null.\<close>

definition rows_of :: "db_answer \<Rightarrow> jsrec list" where
  "rows_of answer = (case answer of Records rs \<Rightarrow> rs | _ \<Rightarrow> [])"

definition row_of :: "db_answer \<Rightarrow> jsrec option" where
  "row_of answer = (case answer of Record r \<Rightarrow> Some r | _ \<Rightarrow> None)"

definition read_many :: "'s adapter \<Rightarrow> 's \<Rightarrow> string \<Rightarrow> where_clause list \<Rightarrow> string \<Rightarrow> db_error + jsrec list" where
  "read_many ad s model w ns = map_sum id rows_of (fst (ad (find_request model w ns) s))"

definition read_one :: "'s adapter \<Rightarrow> 's \<Rightarrow> string \<Rightarrow> where_clause list \<Rightarrow> string \<Rightarrow> db_error + jsrec option" where
  "read_one ad s model w ns = map_sum id row_of (fst (ad (find_one_request model w ns) s))"

definition is_grant_active :: "jsrec \<Rightarrow> bool" where
  "is_grant_active row = js_nullish (js_get row ''revokedAt'')"

definition string_member :: "jsrec \<Rightarrow> string \<Rightarrow> string option" where
  "string_member row k = (case js_get row k of JStr s \<Rightarrow> Some s | _ \<Rightarrow> None)"

section \<open>Principals from the database\<close>

definition member_principals :: "'s adapter \<Rightarrow> 's \<Rightarrow> string \<Rightarrow> string \<Rightarrow> db_error + string list" where
  "member_principals ad s ns actor =
     map_sum id (\<lambda>rows. filter (\<lambda>p. p \<noteq> []) (map (\<lambda>row. or_else (string_member row ''principalId'') []) (filter is_grant_active rows)))
       (read_many ad s PRINCIPAL_MEMBERSHIPS_TABLE [where_eq ''actorId'' actor] ns)"

definition edge_of_row :: "jsrec \<Rightarrow> hierarchy_edge option" where
  "edge_of_row row =
     (if \<not> is_grant_active row then None
      else
        (case (string_member row ''principalId'', string_member row ''parentPrincipalId'') of
           (Some p, Some q) \<Rightarrow> Some \<lparr>he_principal = p, he_parent = q\<rparr>
         | _ \<Rightarrow> None))"

definition hierarchy_edges :: "'s adapter \<Rightarrow> 's \<Rightarrow> string \<Rightarrow> string list \<Rightarrow> db_error + hierarchy_edge list" where
  "hierarchy_edges ad s ns principalIds =
     map_sum id concat
       (map_sum_list (\<lambda>p. map_sum id (\<lambda>rows. some_of (map edge_of_row rows))
          (read_many ad s PRINCIPAL_HIERARCHY_TABLE [where_eq ''principalId'' p] ns)) principalIds)"

definition db_principal_store :: "'s adapter \<Rightarrow> 's \<Rightarrow> db_error principal_store" where
  "db_principal_store ad s = \<lparr>pst_memberships = member_principals ad s, pst_parents = hierarchy_edges ad s\<rparr>"

section \<open>Levels from the grants\<close>

definition grant_kind_of :: "jsrec \<Rightarrow> grant_kind" where
  "grant_kind_of row =
     (if js_get row ''grantKind'' = JStr ''scope'' \<or> js_get row ''resourceId'' = JNull then ScopeGrant
      else if js_get row ''grantKind'' = JStr ''relation_inherited'' then RelationInherited else RecordGrant)"

definition grant_of_row :: "string \<Rightarrow> jsrec \<Rightarrow> access_grant option" where
  "grant_of_row principalId row =
     (if \<not> is_grant_active row then None
      else
        (case normalize_level (js_get row ''level'') of
           None \<Rightarrow> None
         | Some l \<Rightarrow>
             Some \<lparr>ag_principal = principalId, ag_level = level_name l, ag_kind = grant_kind_of row,
                   ag_resource = string_member row ''resourceId'', ag_source = string_member row ''sourceRef''\<rparr>))"

definition grant_where :: "string \<Rightarrow> string \<Rightarrow> string \<Rightarrow> where_clause list" where
  "grant_where resource ns principalId =
     [where_eq ''resourceType'' resource, where_eq ''resourceNs'' ns, where_eq ''principalId'' principalId]"

abbreviation stored :: "db_error + 'a \<Rightarrow> db_error resolve_error + 'a" where
  "stored \<equiv> map_sum StoreFailure id"

definition principal_grants :: "'s adapter \<Rightarrow> 's \<Rightarrow> string \<Rightarrow> string \<Rightarrow> string \<Rightarrow> db_error resolve_error + access_grant list" where
  "principal_grants ad s resource ns principalId =
     map_sum StoreFailure (\<lambda>rows. some_of (map (grant_of_row principalId) rows))
       (read_many ad s GLOBAL_PERMISSIONS_TABLE (grant_where resource ns principalId) ns)"

definition resolve_access_level_from_v2 ::
  "(string \<Rightarrow> string \<Rightarrow> int) \<Rightarrow> 's adapter \<Rightarrow> 's \<Rightarrow> string \<Rightarrow> string \<Rightarrow> string \<Rightarrow> string \<Rightarrow>
   db_error resolve_error + access_level option" where
  "resolve_access_level_from_v2 lc ad s resource recordId actorId ns =
     bind_sum (fst (resolve_effective_principals lc (db_principal_store ad s) ns actorId None None)) (\<lambda>ps.
     bind_sum (map_sum_list (principal_grants ad s resource ns) ps) (\<lambda>grants.
     Inr (fst (resolve_effective_level recordId ps (concat grants)))))"

definition scope_owner_row :: "jsrec \<Rightarrow> bool" where
  "scope_owner_row row =
     (is_grant_active row \<and> (js_get row ''grantKind'' = JStr ''scope'' \<or> js_get row ''resourceId'' = JNull))"

definition present :: "string option \<Rightarrow> string option" where
  "present s = (case s of Some x \<Rightarrow> if x = [] then None else Some x | None \<Rightarrow> None)"

definition has_resource_scope_owner_access ::
  "(string \<Rightarrow> string \<Rightarrow> int) \<Rightarrow> 's adapter \<Rightarrow> 's \<Rightarrow> string \<Rightarrow> string option \<Rightarrow> string \<Rightarrow> db_error resolve_error + bool" where
  "has_resource_scope_owner_access lc ad s resource actorId ns =
     (case present actorId of
        None \<Rightarrow> Inr False
      | Some actor \<Rightarrow>
          bind_sum (fst (resolve_effective_principals lc (db_principal_store ad s) ns actor None None)) (\<lambda>ps.
            if ns \<in> set ps then Inr True
            else any_sum (\<lambda>p. map_sum StoreFailure (\<lambda>rows. list_ex scope_owner_row rows)
                   (read_many ad s GLOBAL_PERMISSIONS_TABLE (grant_where resource ns p @ [where_eq ''level'' ''owner'']) ns)) ps))"

section \<open>Grants of the first version\<close>

definition get_legacy_permissions_table :: "string \<Rightarrow> string" where
  "get_legacy_permissions_table resource = ''__datafn_permissions_'' @ resource"

definition select_higher_level :: "access_level option \<Rightarrow> access_level option \<Rightarrow> access_level option" where
  "select_higher_level l r =
     (case (l, r) of
        (None, _) \<Rightarrow> r
      | (_, None) \<Rightarrow> l
      | (Some a, Some b) \<Rightarrow> if level_weight a < level_weight b then r else l)"

definition legacy_resource :: "jsrec \<Rightarrow> string option" where
  "legacy_resource row =
     (let v = js_get row ''resourceId'' in if js_nullish v then None else normalize_principal v)"

definition legacy_row_level :: "string list \<Rightarrow> string \<Rightarrow> jsrec \<Rightarrow> access_level option" where
  "legacy_row_level candidates recordId row =
     (if \<not> is_grant_active row then None
      else
        (case normalize_principal (js_get row ''userId'') of
           None \<Rightarrow> None
         | Some u \<Rightarrow>
             if u \<notin> set candidates then None
             else if legacy_resource row \<noteq> None \<and> legacy_resource row \<noteq> Some recordId then None
             else normalize_level (js_get row ''level'')))"

definition legacy_level :: "string \<Rightarrow> string \<Rightarrow> jsrec list \<Rightarrow> access_level option" where
  "legacy_level actor recordId rows =
     foldl (\<lambda>level row. case legacy_row_level [actor, canonicalize_principal_from_user_id actor] recordId row of
                          None \<Rightarrow> level | Some l \<Rightarrow> select_higher_level level (Some l)) None rows"

text \<open>A failing read counts as no grant.\<close>

definition resolve_access_level_from_legacy_v1 ::
  "'s adapter \<Rightarrow> 's \<Rightarrow> string \<Rightarrow> string \<Rightarrow> string \<Rightarrow> string option \<Rightarrow> access_level option" where
  "resolve_access_level_from_legacy_v1 ad s ns resource recordId actorId =
     (case present actorId of
        None \<Rightarrow> None
      | Some actor \<Rightarrow>
          (case read_many ad s (get_legacy_permissions_table resource) [] ns of
             Inl _ \<Rightarrow> None
           | Inr rows \<Rightarrow> legacy_level actor recordId rows))"

record dual_read_decision =
  dd_level :: "access_level option"
  dd_equivalent :: bool
  dd_v1 :: "access_level option"
  dd_v2 :: "access_level option"

definition resolve_dual_read_access_decision :: "access_level option \<Rightarrow> access_level option \<Rightarrow> dual_read_decision" where
  "resolve_dual_read_access_decision v1Level v2Level =
     \<lparr>dd_level = select_higher_level v1Level v2Level, dd_equivalent = ((v1Level \<noteq> None) = (v2Level \<noteq> None)),
      dd_v1 = v1Level, dd_v2 = v2Level\<rparr>"

section \<open>Checks\<close>

definition get_shareable_capability :: "policy_schema \<Rightarrow> policy_resource \<Rightarrow> jsrec option" where
  "get_shareable_capability schema resource =
     first_some (\<lambda>entry. case entry of Shareable c \<Rightarrow> Some c | Simple _ \<Rightarrow> None)
       (resolve_capabilities (ps_capabilities schema) (po_capabilities resource))"

definition is_private :: "jsrec \<Rightarrow> bool" where
  "is_private c = (js_get c ''default'' = JStr ''private'')"

definition is_private_shareable_resource :: "policy_schema \<Rightarrow> string \<Rightarrow> bool" where
  "is_private_shareable_resource schema name =
     (case get_resource_schema schema name of
        None \<Rightarrow> False
      | Some resource \<Rightarrow> (case get_shareable_capability schema resource of None \<Rightarrow> False | Some c \<Rightarrow> is_private c))"

text \<open>Whoever the namespace belongs to, and whoever created the record, owns it.\<close>

definition owns_record :: "string \<Rightarrow> string \<Rightarrow> jsrec \<Rightarrow> bool" where
  "owns_record actor ns r =
     (let actorPrincipal = canonicalize_actor_principal actor
      in normalize_principal (JStr ns) = Some actorPrincipal \<or>
         (case normalize_principal (js_get r ''createdBy'') of
            None \<Rightarrow> False
          | Some c \<Rightarrow> c = actor \<or> canonicalize_principal_from_user_id c = actorPrincipal))"

definition resolve_access_level ::
  "migration_config \<Rightarrow> (string \<Rightarrow> string \<Rightarrow> int) \<Rightarrow> 's adapter \<Rightarrow> 's \<Rightarrow> policy_schema \<Rightarrow> string \<Rightarrow> string \<Rightarrow> string option \<Rightarrow> string \<Rightarrow>
   db_error resolve_error + access_level option" where
  "resolve_access_level cfg lc ad s schema resource recordId actorId ns =
     (case (present actorId, get_resource_schema schema resource) of
        (Some actor, Some resourceSchema) \<Rightarrow>
          if get_shareable_capability schema resourceSchema = None then Inr None
          else
            bind_sum (stored (read_one ad s resource [where_eq ''id'' recordId] ns)) (\<lambda>found.
              case found of
                None \<Rightarrow> Inr None
              | Some r \<Rightarrow>
                  if owns_record actor ns r then Inr (Some Owner)
                  else
                    (let v1 = resolve_access_level_from_legacy_v1 ad s ns resource recordId (Some actor)
                     in if mc_read cfg = ReadV1 then Inr v1
                        else
                          bind_sum (resolve_access_level_from_v2 lc ad s resource recordId actor ns) (\<lambda>v2.
                            if mc_read cfg = ReadV2 then Inr v2
                            else Inr (dd_level (resolve_dual_read_access_decision v1 v2)))))
      | _ \<Rightarrow> Inr None)"

record operation_check =
  oc_resource :: string
  oc_operation :: string
  oc_id :: "string option"
  oc_actor :: "string option"
  oc_namespace :: string
  oc_require_actor :: bool

definition operation_denied :: "db_error resolve_error + (auth_failure + unit)" where
  "operation_denied = Inr (Inl (forbidden ''Authorization denied'' ''operation''))"

definition level_allows :: "access_level option \<Rightarrow> string \<Rightarrow> bool" where
  "level_allows level operation =
     (case level of
        Some Owner \<Rightarrow> True
      | Some Editor \<Rightarrow> operation \<noteq> ''delete'' \<and> operation \<noteq> ''share'' \<and> operation \<noteq> ''unshare''
      | _ \<Rightarrow> False)"

definition validate_shareable_operation_access ::
  "migration_config \<Rightarrow> (string \<Rightarrow> string \<Rightarrow> int) \<Rightarrow> 's adapter \<Rightarrow> 's \<Rightarrow> policy_schema \<Rightarrow> operation_check \<Rightarrow>
   db_error resolve_error + (auth_failure + unit)" where
  "validate_shareable_operation_access cfg lc ad s schema inp =
     (case get_resource_schema schema (oc_resource inp) of
        None \<Rightarrow> Inr (Inr ())
      | Some resourceSchema \<Rightarrow>
          (case get_shareable_capability schema resourceSchema of
             None \<Rightarrow> Inr (Inr ())
           | Some c \<Rightarrow>
               if oc_require_actor inp \<and> present (oc_actor inp) = None \<and> is_private c \<and> oc_operation inp \<noteq> ''insert'' then
                 Inr (Inl (forbidden ''Actor required for private shareable operation'' ''operation''))
               else if oc_operation inp = ''insert'' then Inr (Inr ())
               else
                 (case present (oc_id inp) of
                    None \<Rightarrow>
                      if oc_operation inp = ''share'' \<or> oc_operation inp = ''unshare'' then
                        bind_sum (has_resource_scope_owner_access lc ad s (oc_resource inp) (oc_actor inp) (oc_namespace inp))
                          (\<lambda>b. if b then Inr (Inr ()) else operation_denied)
                      else operation_denied
                  | Some recordId \<Rightarrow>
                      bind_sum
                        (if oc_operation inp \<in> {''merge'', ''replace'', ''delete''}
                         then stored (map_sum id (\<lambda>found. found = None)
                           (read_one ad s (oc_resource inp) [where_eq ''id'' recordId] (oc_namespace inp)))
                         else Inr False)
                        (\<lambda>missing.
                           if missing then Inr (Inr ())
                           else
                             bind_sum (resolve_access_level cfg lc ad s schema (oc_resource inp) recordId (oc_actor inp) (oc_namespace inp))
                               (\<lambda>level. if level_allows level (oc_operation inp) then Inr (Inr ()) else operation_denied)))))"

section \<open>The records a query may see\<close>

text \<open>\<open>resolveActorPrincipals\<close> keeps its results in the cache of the route.\<close>

definition resolve_actor_principals ::
  "(string \<Rightarrow> string \<Rightarrow> int) \<Rightarrow> 's adapter \<Rightarrow> 's \<Rightarrow> string \<Rightarrow> string \<Rightarrow> auth_cache \<Rightarrow>
   (db_error resolve_error + string list) \<times> auth_cache" where
  "resolve_actor_principals lc ad s ns actor cache =
     (case resolve_effective_principals lc (db_principal_store ad s) ns actor None (Some cache) of
        (r, cache') \<Rightarrow> (r, or_else cache' cache))"

definition row_ids :: "string \<Rightarrow> jsrec list \<Rightarrow> string list" where
  "row_ids k rows = some_of (map (\<lambda>row. string_member row k) rows)"

definition scope_row :: "jsrec \<Rightarrow> bool" where
  "scope_row row = (js_get row ''resourceId'' = JNull \<or> js_get row ''grantKind'' = JStr ''scope'')"

definition legacy_ids :: "'s adapter \<Rightarrow> 's \<Rightarrow> string \<Rightarrow> string \<Rightarrow> string \<Rightarrow> string list" where
  "legacy_ids ad s resource ns actor =
     concat (map (\<lambda>subject.
       case read_many ad s (get_legacy_permissions_table resource) [where_eq ''userId'' subject] ns of
         Inl _ \<Rightarrow> [] | Inr rows \<Rightarrow> row_ids ''resourceId'' rows)
       (js_unique [actor, canonicalize_principal_from_user_id actor]))"

text \<open>The ids, and whether a scope grant applies.\<close>

definition granted_rows :: "'s adapter \<Rightarrow> 's \<Rightarrow> string \<Rightarrow> string \<Rightarrow> string list \<Rightarrow> db_error + jsrec list" where
  "granted_rows ad s resource ns ps =
     map_sum id (\<lambda>rss. filter is_grant_active (concat rss))
       (map_sum_list (\<lambda>p. read_many ad s GLOBAL_PERMISSIONS_TABLE (grant_where resource ns p) ns) ps)"

definition resolve_shareable_access_ids ::
  "migration_config \<Rightarrow> (string \<Rightarrow> string \<Rightarrow> int) \<Rightarrow> 's adapter \<Rightarrow> 's \<Rightarrow> policy_schema \<Rightarrow> string \<Rightarrow> string \<Rightarrow> string option \<Rightarrow> auth_cache \<Rightarrow>
   (db_error resolve_error + (string list \<times> bool) option) \<times> auth_cache" where
  "resolve_shareable_access_ids cfg lc ad s schema resource ns actorId cache =
     (if \<not> is_private_shareable_resource schema resource then (Inr None, cache)
      else
        (case present actorId of
           None \<Rightarrow> (Inr (Some ([], False)), cache)
         | Some actor \<Rightarrow>
             (case read_many ad s resource [where_eq ''createdBy'' actor] ns of
                Inl e \<Rightarrow> (Inl (StoreFailure e), cache)
              | Inr owned \<Rightarrow>
                  (let ids = row_ids ''id'' owned @ (if mc_read cfg \<noteq> ReadV2 then legacy_ids ad s resource ns actor else []);
                       answer = (\<lambda>more. js_sort lc (js_unique (ids @ more)))
                   in if mc_read cfg = ReadV1 then (Inr (Some (answer [], False)), cache)
                      else
                        (case resolve_actor_principals lc ad s ns actor cache of
                           (Inl e, cache') \<Rightarrow> (Inl e, cache')
                         | (Inr ps, cache') \<Rightarrow>
                             (case granted_rows ad s resource ns ps of
                                Inl e \<Rightarrow> (Inl (StoreFailure e), cache')
                              | Inr rows \<Rightarrow>
                                  (Inr (Some (answer (row_ids ''resourceId'' (filter (\<lambda>row. \<not> scope_row row) rows)),
                                     list_ex scope_row rows)), cache')))))))"

end
