(* ===== verification/GrantMigration.thy ===== *)
theory GrantMigration
  imports GrantStore
begin

text \<open>
  The migration of grants, \<open>datafn/server/src/execution/migration/spv2.ts\<close>: the rows of the first
  version become canonical grants, one per resource and principal, which are upserted; in dual
  mode grants are mirrored back.
\<close>

section \<open>Canonical grants\<close>

record canonical_grant =
  cg_id :: string
  cg_type :: string
  cg_namespace :: string
  cg_resource :: "string option"
  cg_principal :: string
  cg_level :: access_level
  cg_granted_by :: string
  cg_granted_at :: jsnum

definition build_global_grant_id :: "string \<Rightarrow> string \<Rightarrow> string option \<Rightarrow> string \<Rightarrow> string" where
  "build_global_grant_id resourceType ns resourceId principalId =
     resourceType @ '':'' @ ns @ '':'' @ or_else resourceId ''*'' @ '':'' @ principalId"

definition row_belongs_to_namespace :: "jsrec \<Rightarrow> string \<Rightarrow> bool" where
  "row_belongs_to_namespace row ns = (js_get row ''__ns'' = JUndef \<or> js_get row ''__ns'' = JStr ns)"

definition granted_at :: "jsrec \<Rightarrow> jsnum" where
  "granted_at row = (case js_get row ''grantedAt'' of JNum (Fin a) \<Rightarrow> Fin a | _ \<Rightarrow> Fin 0)"

definition candidate_of_row :: "string \<Rightarrow> string \<Rightarrow> jsrec \<Rightarrow> canonical_grant option" where
  "candidate_of_row resource ns row =
     (if \<not> is_grant_active row then None
      else
        (case (normalize_principal (js_get row ''userId''), normalize_level (js_get row ''level'')) of
           (Some u, Some l) \<Rightarrow>
             (let p = canonicalize_principal_from_user_id u
              in Some \<lparr>cg_id = build_global_grant_id resource ns (legacy_resource row) p, cg_type = resource, cg_namespace = ns,
                    cg_resource = legacy_resource row, cg_principal = p, cg_level = l,
                    cg_granted_by = or_else (normalize_principal (js_get row ''grantedBy'')) ''migration:spv2'',
                    cg_granted_at = granted_at row\<rparr>)
         | _ \<Rightarrow> None))"

definition conflict_error :: "db_error resolve_error" where
  "conflict_error = ExecutionError ''CONFLICT'' ''Conflicting duplicate grants'' ''migration.v1Rows'' JUndef"

fun collect_grants ::
  "canonical_grant list \<Rightarrow> (string, canonical_grant) jmap \<Rightarrow> db_error resolve_error + (string, canonical_grant) jmap" where
  "collect_grants [] m = Inr m"
| "collect_grants (g # gs) m =
     (case jmap_get m (cg_id g) of
        None \<Rightarrow> collect_grants gs (jmap_set (cg_id g) g m)
      | Some existing \<Rightarrow>
          if cg_level existing \<noteq> cg_level g then Inl conflict_error
          else collect_grants gs (if cg_granted_at existing \<le> cg_granted_at g then jmap_set (cg_id g) g m else m))"

definition by_id :: "(string \<Rightarrow> string \<Rightarrow> int) \<Rightarrow> canonical_grant \<Rightarrow> canonical_grant \<Rightarrow> int" where
  "by_id lc a b = lc (cg_id a) (cg_id b)"

definition canonicalize_legacy_rows ::
  "(string \<Rightarrow> string \<Rightarrow> int) \<Rightarrow> string \<Rightarrow> string \<Rightarrow> jsrec list \<Rightarrow> db_error resolve_error + canonical_grant list" where
  "canonicalize_legacy_rows lc resource ns rows =
     map_sum id (\<lambda>m. js_sort (by_id lc) (jmap_values m)) (collect_grants (some_of (map (candidate_of_row resource ns) rows)) [])"

section \<open>Writing the grants\<close>

definition kind_name :: "canonical_grant \<Rightarrow> string" where
  "kind_name g = (if cg_resource g = None then ''scope'' else ''record'')"

definition resource_value :: "canonical_grant \<Rightarrow> jsval" where
  "resource_value g = (case cg_resource g of None \<Rightarrow> JNull | Some r \<Rightarrow> JStr r)"

definition grants_equal :: "jsrec option \<Rightarrow> canonical_grant \<Rightarrow> bool" where
  "grants_equal l g =
     (case l of
        None \<Rightarrow> False
      | Some row \<Rightarrow>
          js_get row ''resourceType'' = JStr (cg_type g) \<and> js_get row ''resourceNs'' = JStr (cg_namespace g) \<and>
          js_get row ''resourceId'' = resource_value g \<and> js_get row ''principalId'' = JStr (cg_principal g) \<and>
          js_get row ''level'' = JStr (level_name (cg_level g)) \<and> js_get row ''grantKind'' = JStr (kind_name g) \<and>
          js_get row ''revokedAt'' = JNull)"

definition grant_update :: "canonical_grant \<Rightarrow> jsrec" where
  "grant_update g =
     [(''resourceType'', JStr (cg_type g)), (''resourceNs'', JStr (cg_namespace g)), (''resourceId'', resource_value g),
      (''principalId'', JStr (cg_principal g)), (''level'', JStr (level_name (cg_level g))), (''grantKind'', JStr (kind_name g)),
      (''sourceRef'', JNull), (''grantedBy'', JStr (cg_granted_by g)), (''grantedAt'', JNum (cg_granted_at g)), (''revokedAt'', JNull)]"

definition grant_upsert :: "string \<Rightarrow> canonical_grant \<Rightarrow> db_op" where
  "grant_upsert ns g =
     DbUpsert \<lparr>us_model = GLOBAL_PERMISSIONS_TABLE, us_where = [where_eq ''id'' (cg_id g)],
       us_create = (''id'', JStr (cg_id g)) # grant_update g @ [(''__ns'', JStr ns)],
       us_update = grant_update g @ [(''__ns'', JStr ns)], us_select = None, us_namespace = Some ns,
       us_conflict = Some (OneField ''id'')\<rparr>"

record backfill_result =
  bf_scanned :: nat
  bf_canonicalized :: nat
  bf_migrated :: nat
  bf_skipped :: nat
  bf_rows :: "canonical_grant list"

text \<open>One grant: skipped when an equal one is stored. The flag is whether it was written.\<close>

definition write_grant :: "'s adapter \<Rightarrow> string \<Rightarrow> canonical_grant \<Rightarrow> 's \<Rightarrow> (db_error resolve_error + bool) \<times> 's" where
  "write_grant ad ns g s =
     (case ad (find_one_request GLOBAL_PERMISSIONS_TABLE [where_eq ''id'' (cg_id g)] ns) s of
        (Inl e, s1) \<Rightarrow> (Inl (StoreFailure e), s1)
      | (Inr answer, s1) \<Rightarrow>
          if grants_equal (row_of answer) g then (Inr False, s1)
          else
            (case ad (grant_upsert ns g) s1 of
               (Inl e, s2) \<Rightarrow> (Inl (StoreFailure e), s2)
             | (Inr _, s2) \<Rightarrow> (Inr True, s2)))"

fun write_grants ::
  "'s adapter \<Rightarrow> string \<Rightarrow> canonical_grant list \<Rightarrow> backfill_result \<Rightarrow> 's \<Rightarrow> (db_error resolve_error + backfill_result) \<times> 's" where
  "write_grants ad ns [] acc s = (Inr acc, s)"
| "write_grants ad ns (g # gs) acc s =
     (case write_grant ad ns g s of
        (Inl e, s1) \<Rightarrow> (Inl e, s1)
      | (Inr True, s1) \<Rightarrow> write_grants ad ns gs (acc\<lparr>bf_migrated := bf_migrated acc + 1\<rparr>) s1
      | (Inr False, s1) \<Rightarrow> write_grants ad ns gs (acc\<lparr>bf_skipped := bf_skipped acc + 1\<rparr>) s1)"

fun backfill_resources ::
  "(string \<Rightarrow> string \<Rightarrow> int) \<Rightarrow> 's adapter \<Rightarrow> string \<Rightarrow> bool \<Rightarrow> string list \<Rightarrow> backfill_result \<Rightarrow> 's \<Rightarrow>
   (db_error resolve_error + backfill_result) \<times> 's" where
  "backfill_resources lc ad ns dryRun [] acc s = (Inr acc, s)"
| "backfill_resources lc ad ns dryRun (resource # rest) acc s =
     (case ad (find_request (get_legacy_permissions_table resource) [] ns) s of
        (Inl _, s1) \<Rightarrow> backfill_resources lc ad ns dryRun rest acc s1
      | (Inr answer, s1) \<Rightarrow>
          (let rows = filter (\<lambda>row. row_belongs_to_namespace row ns) (rows_of answer)
           in case canonicalize_legacy_rows lc resource ns rows of
                Inl e \<Rightarrow> (Inl e, s1)
              | Inr grants \<Rightarrow>
                  (let acc1 = acc\<lparr>bf_scanned := bf_scanned acc + length rows,
                         bf_canonicalized := bf_canonicalized acc + length grants, bf_rows := bf_rows acc @ grants\<rparr>
                   in if dryRun then backfill_resources lc ad ns dryRun rest acc1 s1
                      else
                        (case write_grants ad ns grants acc1 s1 of
                           (Inl e, s2) \<Rightarrow> (Inl e, s2)
                         | (Inr acc2, s2) \<Rightarrow> backfill_resources lc ad ns dryRun rest acc2 s2))))"

definition backfill_legacy_permissions ::
  "(string \<Rightarrow> string \<Rightarrow> int) \<Rightarrow> 's adapter \<Rightarrow> string \<Rightarrow> string list \<Rightarrow> bool \<Rightarrow> 's \<Rightarrow> (db_error resolve_error + backfill_result) \<times> 's" where
  "backfill_legacy_permissions lc ad ns resources dryRun s =
     (let names = js_sort lc (js_unique (filter (\<lambda>r. r \<noteq> []) (map js_trim resources)))
      in apfst (map_sum id (\<lambda>acc. acc\<lparr>bf_rows := js_sort (by_id lc) (bf_rows acc)\<rparr>))
           (backfill_resources lc ad ns dryRun names
              \<lparr>bf_scanned = 0, bf_canonicalized = 0, bf_migrated = 0, bf_skipped = 0, bf_rows = []\<rparr> s))"

section \<open>Mirroring in dual mode\<close>

definition legacy_grant_id :: "string \<Rightarrow> string option \<Rightarrow> string \<Rightarrow> string" where
  "legacy_grant_id resource resourceId principalId = resource @ '':'' @ or_else resourceId ''*'' @ '':'' @ principalId"

definition mirror_grant_to_legacy ::
  "migration_config \<Rightarrow> 's adapter \<Rightarrow> string \<Rightarrow> string \<Rightarrow> string option \<Rightarrow> string \<Rightarrow> access_level \<Rightarrow> string \<Rightarrow> jsnum \<Rightarrow> 's \<Rightarrow>
   (db_error + unit) \<times> 's" where
  "mirror_grant_to_legacy cfg ad ns resource resourceId principalId level grantedBy grantedAt s =
     (if mc_write cfg \<noteq> WriteDual then (Inr (), s)
      else
        (let legacyId = legacy_grant_id resource resourceId principalId;
             update = [(''level'', JStr (level_name level)), (''grantedBy'', JStr grantedBy), (''grantedAt'', JNum grantedAt), (''revokedAt'', JNull)]
         in apfst (map_sum id (\<lambda>_. ()))
              (ad (DbUpsert \<lparr>us_model = get_legacy_permissions_table resource, us_where = [where_eq ''id'' legacyId],
                 us_create = [(''id'', JStr legacyId), (''resourceId'', case resourceId of None \<Rightarrow> JNull | Some r \<Rightarrow> JStr r),
                   (''userId'', JStr principalId)] @ update,
                 us_update = update, us_select = None, us_namespace = Some ns, us_conflict = Some (OneField ''id'')\<rparr>) s)))"

definition remove_legacy_grant ::
  "migration_config \<Rightarrow> 's adapter \<Rightarrow> string \<Rightarrow> string \<Rightarrow> string option \<Rightarrow> string \<Rightarrow> 's \<Rightarrow> (db_error + unit) \<times> 's" where
  "remove_legacy_grant cfg ad ns resource resourceId principalId s =
     (if mc_write cfg \<noteq> WriteDual then (Inr (), s)
      else apfst (map_sum id (\<lambda>_. ()))
        (ad (DbDelete \<lparr>wp_model = get_legacy_permissions_table resource,
           wp_where = [where_eq ''id'' (legacy_grant_id resource resourceId principalId)], wp_namespace = Some ns\<rparr>) s))"

definition emit_legacy_share_deprecation_warning :: "migration_config \<Rightarrow> (string \<times> string) option" where
  "emit_legacy_share_deprecation_warning cfg =
     (if \<not> mc_warn cfg then None
      else Some (''DFQL_LEGACY_API_DEPRECATED'',
        ''Deprecated shareWith.userId is accepted for compatibility; use shareWith.principalId''))"

end
