(* ===== verification/BackfillProperties.thy ===== *)
theory BackfillProperties
  imports GrantMigration AccessProperties
begin

text \<open>
  The migration of grants keeps everybody's access, up to ids that collide.
\<close>

section \<open>Trimmed strings\<close>

lemma js_trim_fixed: "s \<noteq> [] \<Longrightarrow> \<not> is_js_ws (hd s) \<Longrightarrow> \<not> is_js_ws (last s) \<Longrightarrow> js_trim s = s"
proof -
  assume "s \<noteq> []" "\<not> is_js_ws (hd s)" "\<not> is_js_ws (last s)"
  moreover from this have "dropWhile is_js_ws s = s" by (cases s) auto
  moreover have "dropWhile is_js_ws (rev s) = rev s" using calculation by (cases s rule: rev_cases) auto
  ultimately show ?thesis by (simp add: js_trim_def)
qed

lemma js_trim_ends:
  assumes "js_trim s \<noteq> []"
  shows "\<not> is_js_ws (hd (js_trim s)) \<and> \<not> is_js_ws (last (js_trim s))"
proof -
  let ?d = "dropWhile is_js_ws s"
  let ?e = "dropWhile is_js_ws (rev ?d)"
  have e: "?e \<noteq> []" using assms by (simp add: js_trim_def)
  then have d: "?d \<noteq> []" by (intro notI) simp
  have "last ?e = last (rev ?d)"
  proof -
    obtain xs where "rev ?d = xs @ ?e" using takeWhile_dropWhile_id [of is_js_ws "rev ?d"] by metis
    with e show ?thesis by (metis last_appendR)
  qed
  then have "last ?e = hd ?d" using d by (simp add: last_rev)
  moreover have "\<not> is_js_ws (hd ?d)" using d by (rule hd_dropWhile)
  moreover have "\<not> is_js_ws (hd ?e)" using e by (rule hd_dropWhile)
  ultimately show ?thesis using e by (simp add: js_trim_def hd_rev last_rev)
qed

lemma normalize_principal_Some:
  "normalize_principal v = Some p \<Longrightarrow> p \<noteq> [] \<and> \<not> is_js_ws (hd p) \<and> \<not> is_js_ws (last p)"
  using js_trim_ends by (auto simp: normalize_principal_def split: jsval.splits if_splits)

lemma normalize_canonical:
  assumes "normalize_principal v = Some u"
  shows "normalize_principal (JStr (canonicalize_principal_from_user_id u)) = Some (canonicalize_principal_from_user_id u)"
proof -
  have "js_trim (canonicalize_principal_from_user_id u) = canonicalize_principal_from_user_id u"
    using normalize_principal_Some [OF assms]
    by (intro js_trim_fixed) (auto simp: canonicalize_principal_from_user_id_def is_js_ws_def)
  then show ?thesis
    using normalize_principal_Some [OF assms] by (simp add: normalize_principal_def canonicalize_principal_from_user_id_def)
qed

section \<open>Grants keep their level\<close>

lemma str_includes_char: "str_includes s [c] \<longleftrightarrow> c \<in> set s"
  by (induction s) (auto simp: starts_with_def)

lemma canonical_user:
  "str_includes a '':'' = False \<Longrightarrow>
     canonicalize_principal_from_user_id u = ''user:'' @ a \<longleftrightarrow> u = a \<or> u = ''user:'' @ a"
  by (auto simp: canonicalize_principal_from_user_id_def str_includes_char)

text \<open>
  The id of a grant determines its resource and its principal when the resource ids have no colon,
  or when the principals have one only, as those of users do.
\<close>

definition one_colon :: "string \<Rightarrow> bool" where
  "one_colon p \<longleftrightarrow> (\<exists>x y. p = x @ CHR '':'' # y \<and> CHR '':'' \<notin> set x \<and> CHR '':'' \<notin> set y)"

definition plain_user :: "string \<Rightarrow> bool" where
  "plain_user u \<longleftrightarrow> CHR '':'' \<notin> set u \<or> one_colon u"

lemma canonical_one_colon: "plain_user u \<Longrightarrow> one_colon (canonicalize_principal_from_user_id u)"
proof -
  assume u: "plain_user u"
  show ?thesis
  proof (cases "CHR '':'' \<in> set u")
    case True
    then show ?thesis using u by (simp add: plain_user_def canonicalize_principal_from_user_id_def str_includes_char)
  next
    case False
    then have "canonicalize_principal_from_user_id u = ''user'' @ CHR '':'' # u"
      by (simp add: canonicalize_principal_from_user_id_def str_includes_char)
    then show ?thesis using False unfolding one_colon_def by (intro exI [of _ "''user''"] exI [of _ u]) simp
  qed
qed

lemma append_last_sep_inj:
  assumes "c \<notin> set ps" and "c \<notin> set qs" and "xs @ c # ps = ys @ c # qs"
  shows "xs = ys \<and> ps = qs"
proof -
  have "rev ps @ c # rev xs = rev qs @ c # rev ys" using arg_cong [OF assms(3), of rev] by simp
  from append_sep_inj [OF _ _ this] assms(1,2) show ?thesis by simp
qed

lemma one_colon_inj:
  assumes "one_colon p" and "one_colon q" and "a @ CHR '':'' # p = b @ CHR '':'' # q"
  shows "a = b \<and> p = q"
proof -
  obtain x y where p: "p = x @ CHR '':'' # y" "CHR '':'' \<notin> set x" "CHR '':'' \<notin> set y" using assms(1) by (auto simp: one_colon_def)
  obtain v w where q: "q = v @ CHR '':'' # w" "CHR '':'' \<notin> set v" "CHR '':'' \<notin> set w" using assms(2) by (auto simp: one_colon_def)
  have "(a @ CHR '':'' # x) @ CHR '':'' # y = (b @ CHR '':'' # v) @ CHR '':'' # w" using assms(3) p(1) q(1) by simp
  from append_last_sep_inj [OF p(3) q(3) this] have y: "y = w" and rest: "a @ CHR '':'' # x = b @ CHR '':'' # v" by simp_all
  from append_last_sep_inj [OF p(2) q(2) rest] show ?thesis using y p(1) q(1) by simp
qed

lemma grant_id_inj:
  assumes "a \<noteq> Some ''*''" and "b \<noteq> Some ''*''"
    and "(\<forall>r. a = Some r \<or> b = Some r \<longrightarrow> CHR '':'' \<notin> set r) \<or> one_colon p \<and> one_colon q"
    and "build_global_grant_id t n a p = build_global_grant_id t n b q"
  shows "a = b \<and> p = q"
proof -
  have eq: "or_else a ''*'' @ CHR '':'' # p = or_else b ''*'' @ CHR '':'' # q"
    using assms(4) by (simp add: build_global_grant_id_def)
  have "or_else a ''*'' = or_else b ''*'' \<and> p = q"
    using assms(3)
  proof
    assume "\<forall>r. a = Some r \<or> b = Some r \<longrightarrow> CHR '':'' \<notin> set r"
    then have "CHR '':'' \<notin> set (or_else a ''*'')" "CHR '':'' \<notin> set (or_else b ''*'')"
      by (auto simp: or_else_def split: option.splits)
    from append_sep_inj [OF this eq] show ?thesis .
  next
    assume "one_colon p \<and> one_colon q"
    then show ?thesis using one_colon_inj eq by blast
  qed
  then show ?thesis using assms(1,2) by (auto simp: or_else_def split: option.splits)
qed

text \<open>Every grant is represented by one of its id and level, and nothing is made up.\<close>

lemma collect_grants_ok:
  assumes "collect_grants gs m = Inr m'" and "jmap_ok m" and "\<forall>(k, g) \<in> set m. cg_id g = k"
  shows "jmap_ok m' \<and> (\<forall>(k, g) \<in> set m'. cg_id g = k) \<and> set (jmap_values m') \<subseteq> set gs \<union> set (jmap_values m) \<and>
    (\<forall>g \<in> set gs \<union> set (jmap_values m). \<exists>g' \<in> set (jmap_values m'). cg_id g' = cg_id g \<and> cg_level g' = cg_level g)"
  using assms
proof (induction gs m rule: collect_grants.induct)
  case (1 m)
  then show ?case by auto
next
  case (2 g gs m)
  have kept: "jmap_ok (jmap_set (cg_id g) g m)" "\<forall>(k, g') \<in> set (jmap_set (cg_id g) g m). cg_id g' = k"
    "set (jmap_values (jmap_set (cg_id g) g m)) = insert g (snd ` {e \<in> set m. fst e \<noteq> cg_id g})"
    using "2.prems"(2,3) by (auto simp: jmap_set_set)
  show ?case
  proof (cases "jmap_get m (cg_id g)")
    case None
    then have same: "snd ` {e \<in> set m. fst e \<noteq> cg_id g} = set (jmap_values m)"
      by (force simp: map_of_eq_None_iff image_iff)
    have "collect_grants gs (jmap_set (cg_id g) g m) = Inr m'" using "2.prems"(1) None by simp
    from "2.IH"(1) [OF None this kept(1,2)] show ?thesis unfolding kept(3) same by auto
  next
    case (Some old)
    then have old: "(cg_id g, old) \<in> set m" by (rule map_of_SomeD)
    have level: "cg_level old = cg_level g" using "2.prems"(1) Some by (auto split: if_splits)
    have old_id: "cg_id old = cg_id g" using "2.prems"(3) old by auto
    show ?thesis
    proof (cases "cg_granted_at old \<le> cg_granted_at g")
      case True
      have rest: "collect_grants gs (jmap_set (cg_id g) g m) = Inr m'" using "2.prems"(1) Some level True by simp
      have IH: "jmap_ok m' \<and> (\<forall>(k, g) \<in> set m'. cg_id g = k) \<and> set (jmap_values m') \<subseteq> set gs \<union> set (jmap_values (jmap_set (cg_id g) g m)) \<and>
        (\<forall>x \<in> set gs \<union> set (jmap_values (jmap_set (cg_id g) g m)). \<exists>g' \<in> set (jmap_values m'). cg_id g' = cg_id x \<and> cg_level g' = cg_level x)"
        using "2.IH"(2) [OF Some] level True rest kept by simp
      have "\<exists>g' \<in> set (jmap_values m'). cg_id g' = cg_id x \<and> cg_level g' = cg_level x"
        if "x \<in> set (g # gs) \<union> set (jmap_values m)" for x
      proof (cases "x \<in> set gs \<or> x = g \<or> cg_id x \<noteq> cg_id g")
        case True
        then have "x \<in> set gs \<union> set (jmap_values (jmap_set (cg_id g) g m))"
          using that "2.prems"(3) unfolding kept(3) by force
        with IH show ?thesis by blast
      next
        case False
        then have "(cg_id g, x) \<in> set m" using that "2.prems"(3) by force
        then have "x = old" using old "2.prems"(2) by (metis eq_key_imp_eq_value)
        moreover have "\<exists>g' \<in> set (jmap_values m'). cg_id g' = cg_id g \<and> cg_level g' = cg_level g"
          using IH unfolding kept(3) by blast
        ultimately show ?thesis using level old_id by simp
      qed
      moreover have "set (jmap_values m') \<subseteq> set (g # gs) \<union> set (jmap_values m)" using IH unfolding kept(3) by auto
      ultimately show ?thesis using IH by blast
    next
      case False
      have rest: "collect_grants gs m = Inr m'" using "2.prems"(1) Some level False by simp
      have IH: "jmap_ok m' \<and> (\<forall>(k, g) \<in> set m'. cg_id g = k) \<and> set (jmap_values m') \<subseteq> set gs \<union> set (jmap_values m) \<and>
        (\<forall>x \<in> set gs \<union> set (jmap_values m). \<exists>g' \<in> set (jmap_values m'). cg_id g' = cg_id x \<and> cg_level g' = cg_level x)"
        using "2.IH"(2) [OF Some] level False rest "2.prems"(2,3) by simp
      have stays: "\<exists>g' \<in> set (jmap_values m'). cg_id g' = cg_id x \<and> cg_level g' = cg_level x"
        if "x \<in> set gs \<union> set (jmap_values m)" for x
        using IH that by blast
      have "old \<in> set gs \<union> set (jmap_values m)" using old by force
      from stays [OF this] have own: "\<exists>g' \<in> set (jmap_values m'). cg_id g' = cg_id g \<and> cg_level g' = cg_level g"
        unfolding level old_id .
      have "\<exists>g' \<in> set (jmap_values m'). cg_id g' = cg_id x \<and> cg_level g' = cg_level x"
        if "x \<in> set (g # gs) \<union> set (jmap_values m)" for x
      proof (cases "x = g")
        case False
        with that stays [of x] show ?thesis by simp
      qed (use own in simp)
      moreover have "set (jmap_values m') \<subseteq> set (g # gs) \<union> set (jmap_values m)" using IH by auto
      ultimately show ?thesis using IH by blast
    qed
  qed
qed

lemma level_weight_inj: "level_weight a = level_weight b \<Longrightarrow> a = b"
  by (cases a; cases b) (simp_all add: level_weight_def)

lemma highest_unique:
  assumes "highest L a" and "highest L b"
  shows "a = b"
proof (cases a; cases b)
  fix x y assume "a = Some x" "b = Some y"
  with assms have "level_weight x = level_weight y" by (auto simp: highest_def intro!: antisym)
  with \<open>a = Some x\<close> \<open>b = Some y\<close> show ?thesis by (simp add: level_weight_inj)
qed (use assms in \<open>auto simp: highest_def\<close>)

lemma select_raise: "select_higher_level level (Some l) = raise_level level l"
  by (cases level) (simp_all add: select_higher_level_def raise_level_def)

lemma legacy_level_highest:
  "highest {l. \<exists>row \<in> set rows. legacy_row_level [actor, canonicalize_principal_from_user_id actor] rid row = Some l}
     (legacy_level actor rid rows)"
proof -
  let ?lvl = "legacy_row_level [actor, canonicalize_principal_from_user_id actor] rid"
  have "highest L level \<Longrightarrow> highest (L \<union> {l. \<exists>row \<in> set rows. ?lvl row = Some l})
      (foldl (\<lambda>level row. case ?lvl row of None \<Rightarrow> level | Some l \<Rightarrow> select_higher_level level (Some l)) level rows)" for L level
  proof (induction rows arbitrary: L level)
    case (Cons row rows)
    show ?case
    proof (cases "?lvl row")
      case None
      then have "{l. \<exists>x \<in> set (row # rows). ?lvl x = Some l} = {l. \<exists>x \<in> set rows. ?lvl x = Some l}" by auto
      with None Cons show ?thesis by simp
    next
      case (Some l)
      then have "L \<union> {k. \<exists>x \<in> set (row # rows). ?lvl x = Some k} = insert l L \<union> {k. \<exists>x \<in> set rows. ?lvl x = Some k}" by auto
      with Some Cons.IH [of "insert l L" "raise_level level l"] Cons.prems show ?thesis
        by (simp add: select_raise highest_raise)
    qed
  qed simp
  from this [of "{}" None] show ?thesis by (simp add: legacy_level_def highest_def)
qed

definition grant_view :: "canonical_grant \<Rightarrow> access_grant" where
  "grant_view g =
     \<lparr>ag_principal = cg_principal g, ag_level = level_name (cg_level g),
      ag_kind = (if cg_resource g = None then ScopeGrant else RecordGrant), ag_resource = cg_resource g, ag_source = None\<rparr>"

lemma grant_read_back: "grant_of_row (cg_principal g) (grant_update g) = Some (grant_view g)"
  by (cases "cg_resource g")
    (simp_all add: grant_of_row_def grant_update_def grant_view_def is_grant_active_def js_get_def js_nullish_def grant_kind_of_def
      string_member_def resource_value_def kind_name_def)

text \<open>What a candidate says: for every actor without a colon, the level of its row.\<close>

lemma candidate_level:
  assumes "candidate_of_row resource ns row = Some g" and "normalize_principal (JStr actor) = Some actor" and "CHR '':'' \<notin> set actor"
  shows "grant_applies rid [''user:'' @ actor] (grant_view g) l \<longleftrightarrow>
    legacy_row_level [actor, canonicalize_principal_from_user_id actor] rid row = Some l"
proof -
  obtain u k where u: "normalize_principal (js_get row ''userId'') = Some u" and k: "normalize_level (js_get row ''level'') = Some k"
    and active: "is_grant_active row"
    and g: "cg_principal g = canonicalize_principal_from_user_id u" "cg_level g = k" "cg_resource g = legacy_resource row"
    using assms(1) by (auto simp: candidate_of_row_def Let_def split: option.splits if_splits)
  define A where "A = ''user:'' @ actor"
  have actor: "canonicalize_principal_from_user_id actor = A"
    using assms(3) by (simp add: A_def canonicalize_principal_from_user_id_def str_includes_char)
  have principal: "normalize_principal (JStr A) = Some A"
    using normalize_canonical [OF assms(2)] by (simp add: actor)
  have same: "canonicalize_principal_from_user_id u = A \<longleftrightarrow> u = actor \<or> u = A"
    unfolding A_def using assms(3) by (intro canonical_user) (simp add: str_includes_char)
  have "grant_applies rid [A] (grant_view g) l \<longleftrightarrow>
      k = l \<and> canonicalize_principal_from_user_id u = A \<and> (legacy_resource row = None \<or> legacy_resource row = Some rid)"
    by (auto simp: grant_applies_def grant_view_def g principal normalize_canonical [OF u])
  also have "\<dots> \<longleftrightarrow> legacy_row_level [actor, canonicalize_principal_from_user_id actor] rid row = Some l"
    unfolding same by (auto simp: legacy_row_level_def active u k actor)
  finally show ?thesis by (simp only: A_def)
qed

lemma no_candidate: "candidate_of_row resource ns row = None \<Longrightarrow> legacy_row_level candidates rid row = None"
  by (auto simp: candidate_of_row_def legacy_row_level_def Let_def split: option.splits if_splits)

lemma candidate_principal:
  assumes "candidate_of_row resource ns row = Some g"
  shows "(\<forall>u. normalize_principal (js_get row ''userId'') = Some u \<longrightarrow> plain_user u) \<Longrightarrow> one_colon (cg_principal g)"
  using assms canonical_one_colon by (auto simp: candidate_of_row_def Let_def split: option.splits if_splits)

lemma candidate_id:
  assumes "candidate_of_row resource ns row = Some g" and "candidate_of_row resource ns row' = Some g'" and "cg_id g = cg_id g'"
    and "legacy_resource row \<noteq> Some ''*''" and "legacy_resource row' \<noteq> Some ''*''"
    and "(\<forall>r. legacy_resource row = Some r \<or> legacy_resource row' = Some r \<longrightarrow> CHR '':'' \<notin> set r) \<or>
      one_colon (cg_principal g) \<and> one_colon (cg_principal g')"
  shows "cg_resource g = cg_resource g' \<and> cg_principal g = cg_principal g'"
proof -
  have g: "cg_id g = build_global_grant_id resource ns (legacy_resource row) (cg_principal g)" "cg_resource g = legacy_resource row"
    using assms(1) by (auto simp: candidate_of_row_def Let_def split: option.splits if_splits)
  have g': "cg_id g' = build_global_grant_id resource ns (legacy_resource row') (cg_principal g')" "cg_resource g' = legacy_resource row'"
    using assms(2) by (auto simp: candidate_of_row_def Let_def split: option.splits if_splits)
  have "build_global_grant_id resource ns (legacy_resource row) (cg_principal g) =
      build_global_grant_id resource ns (legacy_resource row') (cg_principal g')"
    using assms(3) g(1) g'(1) by simp
  from grant_id_inj [OF assms(4-6) this] show ?thesis using g(2) g'(2) by simp
qed

text \<open>
  C14: The grants that the migration makes of the rows of the first version give an actor whose id
  has no colon, on every record, the level those rows gave, when no row is for a resource with the
  id \<open>*\<close> and either no resource id has a colon or every user id of the rows has one at most, as
  plain ids and principals like \<open>team:a\<close> have; \<open>colliding_grants\<close> is what happens otherwise.
\<close>

theorem backfill_preserves_access:
  assumes "canonicalize_legacy_rows lc resource ns rows = Inr grants"
    and "\<forall>row \<in> set rows. legacy_resource row \<noteq> Some ''*''"
    and "(\<forall>row \<in> set rows. \<forall>r. legacy_resource row = Some r \<longrightarrow> CHR '':'' \<notin> set r) \<or>
      (\<forall>row \<in> set rows. \<forall>u. normalize_principal (js_get row ''userId'') = Some u \<longrightarrow> plain_user u)"
    and "normalize_principal (JStr actor) = Some actor" and "CHR '':'' \<notin> set actor"
  shows "fst (resolve_effective_level rid [canonicalize_actor_principal actor]
           (some_of (map (\<lambda>g. grant_of_row (cg_principal g) (grant_update g)) grants))) = legacy_level actor rid rows"
proof -
  let ?cs = "some_of (map (candidate_of_row resource ns) rows)"
  obtain m where m: "collect_grants ?cs [] = Inr m" and grants: "set grants = set (jmap_values m)"
    using assms(1) by (cases "collect_grants ?cs []") (auto simp: canonicalize_legacy_rows_def)
  have sub: "set grants \<subseteq> set ?cs" and sup: "\<And>g. g \<in> set ?cs \<Longrightarrow> \<exists>g' \<in> set grants. cg_id g' = cg_id g \<and> cg_level g' = cg_level g"
    using collect_grants_ok [OF m] unfolding grants by auto
  have row_of: "\<exists>row \<in> set rows. candidate_of_row resource ns row = Some g" if "g \<in> set ?cs" for g
    using that by (auto simp: set_some_of image_iff)
  have actor: "canonicalize_actor_principal actor = ''user:'' @ actor"
    using assms(4,5) by (simp add: canonicalize_actor_principal_def str_includes_char)
  have views: "some_of (map (\<lambda>g. grant_of_row (cg_principal g) (grant_update g)) grants) = map grant_view grants"
    by (rule some_of_map) (rule grant_read_back)
  have "{l. \<exists>g \<in> set (map grant_view grants). grant_applies rid [''user:'' @ actor] g l} =
      {l. \<exists>row \<in> set rows. legacy_row_level [actor, canonicalize_principal_from_user_id actor] rid row = Some l}" (is "?A = ?B")
  proof (intro set_eqI iffI)
    fix l assume "l \<in> ?A"
    then obtain g where g: "g \<in> set grants" "grant_applies rid [''user:'' @ actor] (grant_view g) l" by auto
    from row_of [of g] sub g(1) obtain row where "row \<in> set rows" "candidate_of_row resource ns row = Some g" by blast
    with candidate_level [OF this(2) assms(4,5)] g(2) show "l \<in> ?B" by blast
  next
    fix l assume "l \<in> ?B"
    then obtain row where row: "row \<in> set rows"
      and level: "legacy_row_level [actor, canonicalize_principal_from_user_id actor] rid row = Some l" by blast
    obtain g where g: "candidate_of_row resource ns row = Some g"
      using no_candidate [of resource ns row] level by (cases "candidate_of_row resource ns row") fastforce+
    then have "g \<in> set ?cs" using row by (force simp: set_some_of)
    from sup [OF this] obtain g' where g': "g' \<in> set grants" "cg_id g' = cg_id g" "cg_level g' = cg_level g" by blast
    from row_of [of g'] sub g'(1) obtain row' where row': "row' \<in> set rows" "candidate_of_row resource ns row' = Some g'" by blast
    have "(\<forall>r. legacy_resource row' = Some r \<or> legacy_resource row = Some r \<longrightarrow> CHR '':'' \<notin> set r) \<or>
        one_colon (cg_principal g') \<and> one_colon (cg_principal g)"
      using assms(3) row row'(1) candidate_principal [OF row'(2)] candidate_principal [OF g] by blast
    from candidate_id [OF row'(2) g g'(2) bspec [OF assms(2) row'(1)] bspec [OF assms(2) row] this]
    have "cg_resource g' = cg_resource g \<and> cg_principal g' = cg_principal g" .
    then have "grant_view g' = grant_view g" using g'(3) by (simp add: grant_view_def)
    moreover have "grant_applies rid [''user:'' @ actor] (grant_view g) l" using candidate_level [OF g assms(4,5)] level by blast
    ultimately have "grant_applies rid [''user:'' @ actor] (grant_view g') l" by (simp only:)
    with g'(1) show "l \<in> ?A" unfolding set_map mem_Collect_eq by blast
  qed
  then have "highest ?B (fst (resolve_effective_level rid [''user:'' @ actor] (map grant_view grants)))"
    using effective_level_highest [of "map grant_view grants" rid "[''user:'' @ actor]"] by simp
  from highest_unique [OF this legacy_level_highest] show ?thesis by (simp add: actor views)
qed

section \<open>Examples\<close>

lemma legacy_rows_example:
  "canonicalize_legacy_rows str_cmp ''note'' ''org'' [[(''userId'', JStr ''bob''), (''level'', JStr ''editor''), (''resourceId'', JStr ''note:1'')]] =
     Inr [\<lparr>cg_id = ''note:org:note:1:user:bob'', cg_type = ''note'', cg_namespace = ''org'', cg_resource = Some ''note:1'', cg_principal = ''user:bob'',
       cg_level = Editor, cg_granted_by = ''migration:spv2'', cg_granted_at = Fin 0\<rparr>]"
  by (simp add: canonicalize_legacy_rows_def candidate_of_row_def is_grant_active_def js_get_def js_nullish_def normalize_principal_def
      js_trim_def is_js_ws_def normalize_level_def legacy_resource_def Let_def build_global_grant_id_def or_else_def granted_at_def
      canonicalize_principal_from_user_id_def)

theorem backfill_preserves_access_witness:
  "legacy_level ''bob'' ''note:1'' [[(''userId'', JStr ''bob''), (''level'', JStr ''editor''), (''resourceId'', JStr ''note:1'')]] = Some Editor"
proof -
  let ?g = "\<lparr>cg_id = ''note:org:note:1:user:bob'', cg_type = ''note'', cg_namespace = ''org'', cg_resource = Some ''note:1'', cg_principal = ''user:bob'',
       cg_level = Editor, cg_granted_by = ''migration:spv2'', cg_granted_at = Fin 0\<rparr>"
  have safe: "\<forall>row \<in> set [[(''userId'', JStr ''bob''), (''level'', JStr ''editor''), (''resourceId'', JStr ''note:1'')]]. legacy_resource row \<noteq> Some ''*''"
    by (simp add: legacy_resource_def js_get_def js_nullish_def Let_def normalize_principal_def js_trim_def is_js_ws_def)
  have users: "\<forall>row \<in> set [[(''userId'', JStr ''bob''), (''level'', JStr ''editor''), (''resourceId'', JStr ''note:1'')]].
      \<forall>u. normalize_principal (js_get row ''userId'') = Some u \<longrightarrow> plain_user u"
    by (simp add: js_get_def normalize_principal_def js_trim_def is_js_ws_def plain_user_def)
  have bob: "normalize_principal (JStr ''bob'') = Some ''bob''" "CHR '':'' \<notin> set ''bob''"
    by (simp_all add: normalize_principal_def js_trim_def is_js_ws_def)
  have "fst (resolve_effective_level ''note:1'' [canonicalize_actor_principal ''bob'']
      (some_of (map (\<lambda>g. grant_of_row (cg_principal g) (grant_update g)) [?g]))) =
      legacy_level ''bob'' ''note:1'' [[(''userId'', JStr ''bob''), (''level'', JStr ''editor''), (''resourceId'', JStr ''note:1'')]]"
    by (rule backfill_preserves_access [OF legacy_rows_example safe disjI2 [OF users] bob])
  then have "fst (resolve_effective_level ''note:1'' [canonicalize_actor_principal ''bob''] [grant_view ?g]) =
      legacy_level ''bob'' ''note:1'' [[(''userId'', JStr ''bob''), (''level'', JStr ''editor''), (''resourceId'', JStr ''note:1'')]]"
    unfolding list.map grant_read_back some_of.simps .
  moreover have "fst (resolve_effective_level ''note:1'' [canonicalize_actor_principal ''bob''] [grant_view ?g]) = Some Editor"
    by (simp add: grant_view_def resolve_effective_level_def match_grant_def normalize_principal_def js_trim_def is_js_ws_def js_unique_def
        jset_add_def raise_level_def canonicalize_actor_principal_def)
  ultimately show ?thesis by simp
qed

text \<open>
  The ids of canonical grants collide: of a grant to \<open>a:b\<close> on the record \<open>x:user\<close> and one to
  \<open>user:a:b\<close> on the record \<open>x\<close>, only the second is kept.
\<close>

theorem colliding_grants:
  "map_sum id (map cg_resource) (canonicalize_legacy_rows str_cmp ''note'' ''org''
     [[(''userId'', JStr ''a:b''), (''level'', JStr ''editor''), (''resourceId'', JStr ''x:user'')],
      [(''userId'', JStr ''user:a:b''), (''level'', JStr ''editor''), (''resourceId'', JStr ''x'')]]) = Inr [Some ''x'']"
  by (simp add: canonicalize_legacy_rows_def candidate_of_row_def is_grant_active_def js_get_def js_nullish_def normalize_principal_def
      js_trim_def is_js_ws_def normalize_level_def legacy_resource_def Let_def build_global_grant_id_def or_else_def granted_at_def
      canonicalize_principal_from_user_id_def)

end
