(* ===== verification/GrantProperties.thy ===== *)
theory GrantProperties
  imports GrantStore AccessProperties
begin

text \<open>
  Checks against the in-memory database: an accepted operation rests on ownership or on a stored
  grant; and the principals that the query route remembers.
\<close>

section \<open>Reading the in-memory database\<close>

lemma value_eq_str [simp]: "value_eq v (JStr x) \<longleftrightarrow> v = JStr x"
  by (cases v) (auto simp: value_eq_def)

lemma where_eqs: "matches_where dtoa (map (\<lambda>(f, v). where_eq f v) fvs) r \<longleftrightarrow> (\<forall>(f, v) \<in> set fvs. js_get r f = JStr v)"
proof -
  have clause: "clause_holds dtoa r (where_eq f v) \<longleftrightarrow> js_get r f = JStr v" for f v
    by (simp add: clause_holds_def matches_clause_def where_eq_def)
  have "foldl (connect dtoa r) b (map (\<lambda>(f, v). where_eq f v) fvs) \<longleftrightarrow> b \<and> (\<forall>(f, v) \<in> set fvs. js_get r f = JStr v)" for b fvs
  proof (induction fvs arbitrary: b)
    case (Cons fv fvs)
    have "connect dtoa r b (where_eq (fst fv) (snd fv)) \<longleftrightarrow> b \<and> js_get r (fst fv) = JStr (snd fv)"
      by (simp add: connect_def clause) (simp add: where_eq_def)
    then show ?case by (cases fv) (auto simp: Cons.IH)
  qed simp
  from this [of "clause_holds dtoa r (where_eq (fst (hd fvs)) (snd (hd fvs)))" "tl fvs"] show ?thesis
    by (cases fvs) (auto simp: matches_where_def clause)
qed

lemma hits_eqs: "hits env (map (\<lambda>(f, v). where_eq f v) fvs) = (\<lambda>row. \<forall>(f, v) \<in> set fvs. js_get (snd row) f = JStr v)"
  by (intro ext) (simp only: hits_def where_eqs)

definition rows_where :: "db_env \<Rightarrow> memory_db \<Rightarrow> string \<Rightarrow> (string \<times> string) list \<Rightarrow> jsrec list" where
  "rows_where env s model fvs =
     filter (\<lambda>r. \<forall>(f, v) \<in> set fvs. js_get r f = JStr v) (map snd (model_table env model s))"

lemma read_many_memory:
  "read_many (memory_db_adapter env) s model (map (\<lambda>(f, v). where_eq f v) fvs) ns = Inr (rows_where env s model fvs)"
  unfolding read_many_def find_request_def
  by (simp add: rows_of_def mem_find_many_def page_def select_fields_def rows_where_def hits_eqs filter_map comp_def)

lemma read_one_memory:
  "read_one (memory_db_adapter env) s model (map (\<lambda>(f, v). where_eq f v) fvs) ns =
     Inr (case rows_where env s model fvs of [] \<Rightarrow> None | r # _ \<Rightarrow> Some r)"
proof -
  have "find (\<lambda>row. \<forall>(f, v) \<in> set fvs. js_get (snd row) f = JStr v) t =
      (case filter (\<lambda>row. \<forall>(f, v) \<in> set fvs. js_get (snd row) f = JStr v) t of [] \<Rightarrow> None | row # _ \<Rightarrow> Some row)"
    for t :: table
    by (induction t) auto
  then show ?thesis
    unfolding read_one_def find_one_request_def
    by (simp add: row_of_def mem_find_one_def select_fields_def rows_where_def hits_eqs filter_map comp_def split: list.split)
qed

lemmas read_memory =
  read_many_memory [where fvs = "[(f, v)]" for f v, simplified]
  read_many_memory [where fvs = "[(f, v), (f', v'), (f'', v'')]" for f v f' v' f'' v'', simplified]
  read_one_memory [where fvs = "[(f, v)]" for f v, simplified]

section \<open>Levels come from grants\<close>

lemma normalize_level_Some: "normalize_level v = Some l \<Longrightarrow> v = JStr (level_name l)"
  by (auto simp: normalize_level_def level_name_def split: if_splits)

lemma level_name_inj: "level_name a = level_name b \<longleftrightarrow> a = b"
  by (cases a; cases b) (simp_all add: level_name_def)

definition permits :: "memory_db adapter \<Rightarrow> memory_db \<Rightarrow> string \<Rightarrow> string \<Rightarrow> string \<Rightarrow> string \<Rightarrow> access_level \<Rightarrow> jsrec \<Rightarrow> bool" where
  "permits ad s resource ns recordId actor l row =
     (is_grant_active row \<and> js_get row ''resourceType'' = JStr resource \<and> js_get row ''resourceNs'' = JStr ns \<and>
      js_get row ''level'' = JStr (level_name l) \<and>
      string_member row ''resourceId'' = (if grant_kind_of row = ScopeGrant then None else Some recordId) \<and>
      (\<exists>p. js_get row ''principalId'' = JStr p \<and>
         p \<in> insert (canonicalize_actor_principal actor)
           ((parent_rel (db_principal_store ad s) ns)\<^sup>* `` direct_principals (db_principal_store ad s) ns actor)))"

lemma map_sum_list_Inr: "map_sum_list f xs = Inr ys \<Longrightarrow> y \<in> set ys \<Longrightarrow> \<exists>x \<in> set xs. f x = Inr y"
  by (induction xs arbitrary: ys) (auto simp: bind_sum_Inr)

lemma v2_level_permitted:
  fixes env
  defines "ad \<equiv> memory_db_adapter env"
  assumes "resolve_access_level_from_v2 lc ad s resource recordId actor ns = Inr (Some l)"
  shows "\<exists>row \<in> snd ` set (model_table env GLOBAL_PERMISSIONS_TABLE s). permits ad s resource ns recordId actor l row"
proof -
  obtain ps gss where ps: "fst (resolve_effective_principals lc (db_principal_store ad s) ns actor None None) = Inr ps"
    and gss: "map_sum_list (principal_grants ad s resource ns) ps = Inr gss"
    and level: "fst (resolve_effective_level recordId ps (concat gss)) = Some l"
    using assms(2) by (auto simp: resolve_access_level_from_v2_def bind_sum_Inr)
  have reach: "set ps = insert (canonicalize_actor_principal actor)
      ((parent_rel (db_principal_store ad s) ns)\<^sup>* `` direct_principals (db_principal_store ad s) ns actor)"
    using ps compute_principals_ok [of lc "db_principal_store ad s" ns actor _ ps] by (simp add: resolve_uncached Let_def split: if_splits)
  obtain g where g: "g \<in> set (concat gss)" "grant_applies recordId ps g l"
    using effective_level_highest [of "concat gss" recordId ps] level by (auto simp: highest_def)
  then obtain gs where gs: "gs \<in> set gss" "g \<in> set gs" by auto
  obtain p where p: "p \<in> set ps" and grants: "principal_grants ad s resource ns p = Inr gs"
    using map_sum_list_Inr [OF gss gs(1)] by blast
  let ?rows = "rows_where env s GLOBAL_PERMISSIONS_TABLE [(''resourceType'', resource), (''resourceNs'', ns), (''principalId'', p)]"
  have "gs = some_of (map (grant_of_row p) ?rows)"
    using grants unfolding principal_grants_def grant_where_def ad_def read_memory by simp
  with gs(2) obtain row where row: "row \<in> set ?rows" and from_row: "grant_of_row p row = Some g"
    by (auto simp: set_some_of image_iff)
  have facts: "row \<in> snd ` set (model_table env GLOBAL_PERMISSIONS_TABLE s)" "js_get row ''resourceType'' = JStr resource"
    "js_get row ''resourceNs'' = JStr ns" "js_get row ''principalId'' = JStr p"
    using row by (auto simp: rows_where_def)
  obtain k where k: "is_grant_active row" "normalize_level (js_get row ''level'') = Some k" "ag_level g = level_name k"
    "ag_kind g = grant_kind_of row" "ag_resource g = string_member row ''resourceId''"
    using from_row by (auto simp: grant_of_row_def split: if_splits option.splits)
  have "k = l" using applies_level [OF g(2)] k(3) by simp
  moreover have "string_member row ''resourceId'' = (if grant_kind_of row = ScopeGrant then None else Some recordId)"
    using g(2) k(4,5) by (simp add: grant_applies_def)
  ultimately have "permits ad s resource ns recordId actor l row"
    using facts(2-4) k(1) normalize_level_Some [OF k(2)] p reach by (simp add: permits_def)
  with facts(1) show ?thesis by blast
qed

text \<open>
  C3: On the in-memory database, an operation on an existing record of a shareable
  resource is accepted only if the actor owns the record or holds, itself or through its
  memberships and the hierarchy that are not revoked, a stored grant that is not revoked, is for
  the record or for the whole resource and has a level that allows the operation.
\<close>

theorem accepted_operation_authorized:
  fixes env
  defines "ad \<equiv> memory_db_adapter env"
  assumes "validate_shareable_operation_access cfg lc ad s schema inp = Inr (Inr ())"
    and "get_resource_schema schema (oc_resource inp) = Some resource" and "get_shareable_capability schema resource \<noteq> None"
    and "mc_read cfg = ReadV2" and "oc_operation inp \<noteq> ''insert''" and "oc_id inp = Some recordId" and "recordId \<noteq> []"
    and "rows_where env s (oc_resource inp) [(''id'', recordId)] \<noteq> []"
  shows "\<exists>actor l. oc_actor inp = Some actor \<and> level_allows (Some l) (oc_operation inp) \<and>
    (l = Owner \<and> owns_record actor (oc_namespace inp) (hd (rows_where env s (oc_resource inp) [(''id'', recordId)])) \<or>
     (\<exists>row \<in> snd ` set (model_table env GLOBAL_PERMISSIONS_TABLE s).
        permits ad s (oc_resource inp) (oc_namespace inp) recordId actor l row))"
proof -
  obtain c where c: "get_shareable_capability schema resource = Some c" using assms(4) by blast
  obtain r rs where found: "rows_where env s (oc_resource inp) [(''id'', recordId)] = r # rs"
    using assms(9) by (cases "rows_where env s (oc_resource inp) [(''id'', recordId)]") auto
  have recordId: "present (oc_id inp) = Some recordId" using assms(7,8) by (simp add: present_def)
  have one: "read_one ad s (oc_resource inp) [where_eq ''id'' recordId] (oc_namespace inp) = Inr (Some r)"
    unfolding ad_def read_memory found by simp
  obtain level where level: "resolve_access_level cfg lc ad s schema (oc_resource inp) recordId (oc_actor inp) (oc_namespace inp) = Inr level"
    and allowed: "level_allows level (oc_operation inp)"
    using assms(2) unfolding validate_shareable_operation_access_def assms(3) option.case c recordId one
    by (auto simp: assms(6) bind_sum_Inr operation_denied_def split: if_splits)
  obtain l where l: "level = Some l" using allowed by (auto simp: level_allows_def split: option.splits)
  obtain actor where actor: "oc_actor inp = Some actor" "present (oc_actor inp) = Some actor"
  proof (cases "present (oc_actor inp)")
    case None
    then show ?thesis using level l by (simp add: resolve_access_level_def)
  next
    case (Some a)
    then show ?thesis using that [of a] by (auto simp: present_def split: option.splits if_splits)
  qed
  have "l = Owner \<and> owns_record actor (oc_namespace inp) r \<or>
      resolve_access_level_from_v2 lc ad s (oc_resource inp) recordId actor (oc_namespace inp) = Inr (Some l)"
    using level unfolding l resolve_access_level_def actor(2) assms(3) one
    by (auto simp: c assms(5) bind_sum_Inr Let_def split: if_splits)
  then show ?thesis
    using actor(1) allowed v2_level_permitted [of lc env s "oc_resource inp" recordId actor "oc_namespace inp" l]
    unfolding l found ad_def by auto
qed

section \<open>The cache of the query route\<close>

lemma run_each_keeps:
  "(\<And>x s. x \<in> set xs \<Longrightarrow> P s \<Longrightarrow> P (snd (f x s))) \<Longrightarrow> P s \<Longrightarrow> P (snd (run_each f xs s))"
proof (induction xs arbitrary: s)
  case (Cons x xs)
  have "P (snd (f x s))" using Cons.prems by simp
  then show ?case using Cons.IH [of "snd (f x s)"] Cons.prems(1) by (auto split: prod.split sum.split)
qed simp

lemma load_parents_some: "\<exists>c'. snd (load_parents lc store ns [p] (Some c)) = Some c'"
  by (auto simp: load_parents_def take_cached_def put_parents_def Let_def split: prod.split option.split sum.split)

lemma walk_some: "ws_cache s \<noteq> None \<Longrightarrow> ws_cache (snd (walk lc store ns maxDepth depth p s)) \<noteq> None"
proof (induction lc store ns maxDepth depth p s rule: walk.induct)
  case (1 lc store ns maxDepth depth p s)
  show ?case
  proof (cases "maxDepth < depth \<or> p \<in> set (ws_expanded s) \<or> p \<in> set (ws_expanding s)")
    case True
    then show ?thesis using "1.prems" by (subst walk.simps) auto
  next
    case False
    obtain c where "ws_cache s = Some c" using "1.prems" by auto
    then obtain r c' where load: "load_parents lc store ns [p] (ws_cache s) = (r, Some c')"
      using load_parents_some [of lc store ns p c] by (metis prod.collapse)
    have each: "ws_cache (snd (run_each (visit lc store ns maxDepth depth) ps s1)) \<noteq> None"
      if "r = Inr m" "ws_cache s1 \<noteq> None" for m ps and s1 :: walk_state
      using that(2)
    proof (rule run_each_keeps [where P = "\<lambda>s. ws_cache s \<noteq> None", rotated])
      fix q and a :: walk_state assume "ws_cache a \<noteq> None"
      with "1.IH" [of r "Some c'" m q a] False load that(1)
      show "ws_cache (snd (visit lc store ns maxDepth depth q a)) \<noteq> None" by auto
    qed
    show ?thesis
    proof (cases r)
      case (Inl e)
      with False load show ?thesis by (subst walk.simps) simp
    next
      case (Inr m)
      let ?s1 = "s\<lparr>ws_expanding := jset_add p (ws_expanding s), ws_cache := Some c'\<rparr>"
      have "ws_cache (snd (run_each (visit lc store ns maxDepth depth)
          (case jmap_get m p of None \<Rightarrow> [] | Some parents \<Rightarrow> parents) ?s1)) \<noteq> None"
        by (rule each [OF Inr]) simp
      with False load Inr show ?thesis
        by (subst walk.simps) (auto split: prod.split sum.split)
    qed
  qed
qed

lemma compute_some: "snd (compute_principals lc store ns actor maxDepth (Some c)) \<noteq> None"
proof (cases "pst_memberships store ns actor")
  case (Inr raw)
  define direct where "direct = unique_sorted lc (some_of (map (\<lambda>p. normalize_principal (JStr p)) raw))"
  define s0 where "s0 = \<lparr>ws_set = js_unique direct, ws_list = direct, ws_expanded = [], ws_expanding = [], ws_cache = Some c\<rparr>"
  have "ws_cache (snd (run_each (walk lc store ns maxDepth 1) direct s0)) \<noteq> None"
    by (rule run_each_keeps [where P = "\<lambda>s. ws_cache s \<noteq> None"], rule walk_some) (simp_all add: s0_def)
  then show ?thesis
    unfolding compute_principals_def Inr sum.case Let_def direct_def [symmetric] s0_def [symmetric]
    by (auto split: prod.split sum.split)
qed (simp add: compute_principals_def)

text \<open>
  C26: Once the query route has resolved the principals of an actor, it uses the same
  principals whatever becomes of the database, as nothing invalidates its cache: a member that
  has left a team still reads what the team may read.
\<close>

theorem principals_never_refreshed:
  assumes "resolve_actor_principals lc ad s ns actor cache = (Inr ps, cache')"
  shows "fst (resolve_actor_principals lc ad' s' ns actor cache') = Inr ps"
proof -
  obtain r c1 where run: "resolve_effective_principals lc (db_principal_store ad s) ns actor None (Some cache) = (r, c1)" by fastforce
  then have r: "r = Inr ps" "cache' = or_else c1 cache" using assms by (auto simp: resolve_actor_principals_def)
  have "fresh_resolution actor DEFAULT_MAX_DEPTH (state_of ns cache') = Some ps"
  proof (cases "fresh_resolution actor DEFAULT_MAX_DEPTH (state_of ns cache)")
    case (Some qs)
    then show ?thesis using run r
      by (auto simp: resolve_effective_principals_def cache_simps or_else_def DEFAULT_MAX_DEPTH_def)
  next
    case None
    let ?compute = "compute_principals lc (db_principal_store ad s) ns actor DEFAULT_MAX_DEPTH (Some (snd (get_state ns cache)))"
    obtain x c2 where compute: "?compute = (x, Some c2)"
      using compute_some [of lc "db_principal_store ad s" ns actor DEFAULT_MAX_DEPTH "snd (get_state ns cache)"]
      by (metis option.exhaust prod.collapse)
    have "\<not> DEFAULT_MAX_DEPTH < 1" by (simp add: DEFAULT_MAX_DEPTH_def)
    then have "x = Inr ps" "c1 = Some (cache_set_resolved ns actor DEFAULT_MAX_DEPTH ps c2)"
      using run r(1) None compute by (auto simp: resolve_effective_principals_def cache_simps split: sum.splits)
    then show ?thesis by (simp add: r(2) or_else_def cache_set_resolved_def cache_simps)
  qed
  then show ?thesis
    by (simp add: resolve_actor_principals_def resolve_effective_principals_def cache_simps)
      (simp add: DEFAULT_MAX_DEPTH_def)
qed


section \<open>Witnesses\<close>

text \<open>
  A note that alice created and that bob may edit; bob's grant, and a membership of bob that has
  ended.
\<close>

definition note_env :: db_env where
  "note_env = \<lparr>de_dtoa = (\<lambda>_. []), de_uuid = (\<lambda>_. ''u''),
     de_naming = \<lparr>nc_enabled = False, nc_separator = ''_'', nc_prefix = None, nc_schema_support = False\<rparr>\<rparr>"

definition bob_grant :: jsrec where
  "bob_grant = [(''id'', JStr ''g1''), (''resourceType'', JStr ''note''), (''resourceNs'', JStr ''org''), (''resourceId'', JStr ''n1''),
     (''principalId'', JStr ''user:bob''), (''level'', JStr ''editor''), (''grantKind'', JStr ''record''), (''revokedAt'', JNull)]"

definition note_db :: memory_db where
  "note_db = empty_db\<lparr>md_store := [
     (''note'', [(JStr ''n1'', [(''id'', JStr ''n1''), (''createdBy'', JStr ''alice'')])]),
     (GLOBAL_PERMISSIONS_TABLE, [(JStr ''g1'', bob_grant)])]\<rparr>"

definition shared_schema :: policy_schema where
  "shared_schema =
     \<lparr>ps_resources = [\<lparr>rs_name = ''note'', rs_version = Fin 1, rs_id_prefix = None, rs_fields = [], rs_indices = None,
        rs_permissions = None, po_capabilities = Some (CapabilityList [Shareable [(''default'', JStr ''private'')]]), po_no_defaults = False\<rparr>],
      ps_relations = None, ps_capabilities = None, ps_defaults = None\<rparr>"

definition bob_merge :: operation_check where
  "bob_merge = \<lparr>oc_resource = ''note'', oc_operation = ''merge'', oc_id = Some ''n1'', oc_actor = Some ''bob'', oc_namespace = ''org'',
     oc_require_actor = True\<rparr>"

lemmas note_eval = rows_where_def model_table_def table_of_def get_model_name_def note_env_def note_db_def empty_db_def js_get_def
  GLOBAL_PERMISSIONS_TABLE_def PRINCIPAL_MEMBERSHIPS_TABLE_def PRINCIPAL_HIERARCHY_TABLE_def bob_grant_def

lemma note_rows:
  "rows_where note_env note_db ''note'' [(''id'', ''n1'')] = [[(''id'', JStr ''n1''), (''createdBy'', JStr ''alice'')]]"
  by (simp add: note_eval)

lemma bob_rows:
  "rows_where note_env note_db GLOBAL_PERMISSIONS_TABLE [(''resourceType'', ''note''), (''resourceNs'', ''org''), (''principalId'', ''user:bob'')] =
     [bob_grant]"
  by (simp add: note_eval)

lemma no_memberships: "rows_where note_env note_db PRINCIPAL_MEMBERSHIPS_TABLE [(''actorId'', ''bob'')] = []"
  by (simp add: note_eval)

lemma bob_principals:
  "fst (resolve_effective_principals str_cmp (db_principal_store (memory_db_adapter note_env) note_db) ''org'' ''bob'' None None) =
     Inr [''user:bob'']"
proof -
  have "member_principals (memory_db_adapter note_env) note_db ''org'' ''bob'' = Inr []"
    unfolding member_principals_def read_memory no_memberships by simp
  then show ?thesis
    by (simp add: resolve_uncached Let_def compute_principals_def db_principal_store_def unique_sorted_def js_unique_def
        canonicalize_actor_principal_def normalize_principal_def js_trim_def is_js_ws_def DEFAULT_MAX_DEPTH_def)
qed

lemma bob_level:
  "resolve_access_level_from_v2 str_cmp (memory_db_adapter note_env) note_db ''note'' ''n1'' ''bob'' ''org'' = Inr (Some Editor)"
proof -
  have "principal_grants (memory_db_adapter note_env) note_db ''note'' ''org'' ''user:bob'' =
      Inr [\<lparr>ag_principal = ''user:bob'', ag_level = ''editor'', ag_kind = RecordGrant, ag_resource = Some ''n1'', ag_source = None\<rparr>]"
    unfolding principal_grants_def grant_where_def read_memory bob_rows
    by (simp add: grant_of_row_def is_grant_active_def js_get_def js_nullish_def bob_grant_def normalize_level_def grant_kind_of_def
        string_member_def level_name_def)
  then show ?thesis
    unfolding resolve_access_level_from_v2_def bob_principals
    by (simp add: resolve_effective_level_def match_grant_def normalize_principal_def js_trim_def is_js_ws_def js_unique_def
        jset_add_def normalize_level_def raise_level_def)
qed

lemma shared_resource:
  "get_resource_schema shared_schema ''note'' = Some (hd (ps_resources shared_schema))"
  "get_shareable_capability shared_schema (hd (ps_resources shared_schema)) = Some [(''default'', JStr ''private'')]"
  by (simp_all add: shared_schema_def get_resource_schema_def get_shareable_capability_def resolve_capabilities_def or_else_def
      dedupe_capabilities_def add_capability_def to_capability_key_def)

lemma bob_merge_accepted:
  "validate_shareable_operation_access DEFAULT_RUNTIME_CONFIG str_cmp (memory_db_adapter note_env) note_db shared_schema bob_merge = Inr (Inr ())"
proof -
  have "read_one (memory_db_adapter note_env) note_db ''note'' [where_eq ''id'' ''n1''] ''org'' =
      Inr (Some [(''id'', JStr ''n1''), (''createdBy'', JStr ''alice'')])"
    unfolding read_memory note_rows by simp
  moreover have "\<not> owns_record ''bob'' ''org'' [(''id'', JStr ''n1''), (''createdBy'', JStr ''alice'')]"
    by (simp add: owns_record_def Let_def canonicalize_actor_principal_def normalize_principal_def js_trim_def is_js_ws_def js_get_def
        canonicalize_principal_from_user_id_def)
  ultimately have "resolve_access_level DEFAULT_RUNTIME_CONFIG str_cmp (memory_db_adapter note_env) note_db shared_schema ''note'' ''n1''
      (Some ''bob'') ''org'' = Inr (Some Editor)"
    by (simp add: resolve_access_level_def present_def shared_resource bob_level DEFAULT_RUNTIME_CONFIG_def Let_def)
  then show ?thesis
    by (simp add: validate_shareable_operation_access_def bob_merge_def shared_resource present_def read_memory note_rows level_allows_def)
qed

theorem accepted_operation_authorized_witness:
  "\<exists>actor l. oc_actor bob_merge = Some actor \<and> level_allows (Some l) ''merge''"
  using accepted_operation_authorized [OF bob_merge_accepted, of "hd (ps_resources shared_schema)" "''n1''"]
  by (auto simp: bob_merge_def shared_resource DEFAULT_RUNTIME_CONFIG_def note_rows)

definition team_db :: "jsval \<Rightarrow> memory_db" where
  "team_db revokedAt = empty_db\<lparr>md_store := [
     (PRINCIPAL_MEMBERSHIPS_TABLE, [(JStr ''m1'', [(''id'', JStr ''m1''), (''actorId'', JStr ''bob''), (''principalId'', JStr ''team:a''),
        (''revokedAt'', revokedAt)])])]\<rparr>"

lemma team_members:
  "member_principals (memory_db_adapter note_env) (team_db v) ''org'' ''bob'' = Inr (if js_nullish v then [''team:a''] else [])"
proof -
  have "rows_where note_env (team_db v) PRINCIPAL_MEMBERSHIPS_TABLE [(''actorId'', ''bob'')] =
      [[(''id'', JStr ''m1''), (''actorId'', JStr ''bob''), (''principalId'', JStr ''team:a''), (''revokedAt'', v)]]"
    by (simp add: note_eval team_db_def)
  then show ?thesis
    unfolding member_principals_def read_memory by (simp add: is_grant_active_def js_get_def string_member_def or_else_def)
qed

lemma team_edges: "hierarchy_edges (memory_db_adapter note_env) (team_db v) ''org'' [''team:a''] = Inr []"
proof -
  have "rows_where note_env (team_db v) PRINCIPAL_HIERARCHY_TABLE [(''principalId'', ''team:a'')] = []"
    by (simp add: note_eval team_db_def)
  then show ?thesis
    by (simp add: hierarchy_edges_def read_memory)
qed

lemma team_principals:
  "fst (resolve_effective_principals str_cmp (db_principal_store (memory_db_adapter note_env) (team_db v)) ''org'' ''bob'' None None) =
     Inr (if js_nullish v then [''team:a'', ''user:bob''] else [''user:bob''])"
  by (simp add: resolve_uncached compute_principals_def db_principal_store_def team_members team_edges walk.simps unique_sorted_def
      js_unique_def jset_add_def jset_del_def normalize_principal_def js_trim_def is_js_ws_def load_parents_def take_cached_def
      put_parents_def canonicalize_actor_principal_def DEFAULT_MAX_DEPTH_def Let_def)

text \<open>Bob leaves the team and the route still counts him in; a check of a mutation does not.\<close>

theorem principals_never_refreshed_witness:
  "fst (resolve_actor_principals str_cmp (memory_db_adapter note_env) (team_db (JNum (Fin 5))) ''org'' ''bob''
     (snd (resolve_actor_principals str_cmp (memory_db_adapter note_env) (team_db JNull) ''org'' ''bob'' []))) =
     Inr [''team:a'', ''user:bob''] \<and>
   fst (resolve_effective_principals str_cmp (db_principal_store (memory_db_adapter note_env) (team_db (JNum (Fin 5)))) ''org'' ''bob'' None None) =
     Inr [''user:bob'']"
proof
  let ?first = "resolve_actor_principals str_cmp (memory_db_adapter note_env) (team_db JNull) ''org'' ''bob'' []"
  have "fst ?first = Inr [''team:a'', ''user:bob'']"
    using resolve_cached [OF cache_sound_empty, of str_cmp "db_principal_store (memory_db_adapter note_env) (team_db JNull)" "''org''" "''bob''" None]
    by (simp add: resolve_actor_principals_def case_prod_beta team_principals js_nullish_def)
  then have "?first = (Inr [''team:a'', ''user:bob''], snd ?first)" by (metis prod.collapse)
  from principals_never_refreshed [OF this]
  show "fst (resolve_actor_principals str_cmp (memory_db_adapter note_env) (team_db (JNum (Fin 5))) ''org'' ''bob'' (snd ?first)) =
      Inr [''team:a'', ''user:bob'']" .
  show "fst (resolve_effective_principals str_cmp (db_principal_store (memory_db_adapter note_env) (team_db (JNum (Fin 5)))) ''org'' ''bob'' None None) =
     Inr [''user:bob'']"
    by (simp add: team_principals js_nullish_def)
qed

end
