(* ===== verification/ServerSequence.thy ===== *)
theory ServerSequence
  imports DbInvariant
begin

text \<open>
  The sequence numbers of the server, \<open>datafn/server/src/execution/sync/sequence-store.ts\<close>: the
  atomic store, the database store with its compare-and-set loop, the chain that prefers the
  atomic store and falls back to the database, and the choice between them. The database is any
  adapter, the atomic store any counter; both may fail at any call. A call that the
  namespace lock serializes is one step. The column \<open>next_server_seq\<close> is declared an integer, so it
  is read as a number.
\<close>

section \<open>Counting\<close>

definition valid_count :: "jsnum \<Rightarrow> bool" where
  "valid_count n = (js_is_integer n \<and> \<not> n < Fin 1 \<and> \<not> Fin 1000 < n)"

definition count_error :: db_error where
  "count_error = DbError ''count must be a positive integer between 1 and 1000''"

definition seq_range :: "jsnum \<Rightarrow> jsnum \<Rightarrow> jsnum list" where
  "seq_range start n = (case n of Fin a \<Rightarrow> map (\<lambda>i. start + Fin (of_nat i)) [0..<nat \<lfloor>a\<rfloor>] | _ \<Rightarrow> [])"

section \<open>The atomic store\<close>

record 'k counter =
  ct_get :: "string \<Rightarrow> 'k \<Rightarrow> (db_error + string option) \<times> 'k"
  ct_incr :: "string \<Rightarrow> jsnum \<Rightarrow> 'k \<Rightarrow> (db_error + jsnum) \<times> 'k"
  ct_healthy :: "'k \<Rightarrow> (db_error + bool) \<times> 'k"

definition seq_key :: "string \<Rightarrow> string" where "seq_key ns = ''serverSeq:'' @ ns"

definition atomic_get_next_n :: "'k counter \<Rightarrow> string \<Rightarrow> jsnum \<Rightarrow> 'k \<Rightarrow> (db_error + jsnum list) \<times> 'k" where
  "atomic_get_next_n ct ns n k =
     (if \<not> valid_count n then (Inl count_error, k)
      else apfst (map_sum id (\<lambda>v. seq_range (v - n + Fin 1) n)) (ct_incr ct (seq_key ns) n k))"

definition atomic_get_current :: "'k counter \<Rightarrow> string \<Rightarrow> 'k \<Rightarrow> (db_error + jsnum) \<times> 'k" where
  "atomic_get_current ct ns k =
     apfst (map_sum id (\<lambda>v. case v of None \<Rightarrow> Fin 0 | Some t \<Rightarrow> if t = [] then Fin 0 else js_parse_int t))
       (ct_get ct (seq_key ns) k)"

text \<open>The loop of \<open>ensureMinSeq\<close> ends only if the counter counts.\<close>

partial_function (option) atomic_raise ::
  "'k counter \<Rightarrow> string \<Rightarrow> jsnum \<Rightarrow> jsnum \<Rightarrow> 'k \<Rightarrow> ((db_error + unit) \<times> 'k) option" where
  "atomic_raise ct key minSeq current k =
     (if \<not> current < minSeq then Some (Inr (), k)
      else
        (case ct_incr ct key (js_min (minSeq - current) (Fin 1000)) k of
           (Inl e, k') \<Rightarrow> Some (Inl e, k')
         | (Inr v, k') \<Rightarrow> atomic_raise ct key minSeq v k'))"

declare atomic_raise.simps [code]

definition atomic_ensure_min ::
  "'k counter \<Rightarrow> string \<Rightarrow> jsnum \<Rightarrow> 'k \<Rightarrow> ((db_error + unit) \<times> 'k) option" where
  "atomic_ensure_min ct ns minSeq k =
     (case atomic_get_current ct ns k of
        (Inl e, k') \<Rightarrow> Some (Inl e, k')
      | (Inr current, k') \<Rightarrow> atomic_raise ct (seq_key ns) minSeq current k')"

section \<open>The database store\<close>

definition META :: string where "META = ''__datafn_meta''"

definition internal_eq :: "string \<Rightarrow> jsval \<Rightarrow> internal_where" where
  "internal_eq f v = \<lparr>iw_field = f, iw_op = ''eq'', iw_value = v\<rparr>"

definition found_row :: "db_answer \<Rightarrow> jsrec option" where
  "found_row a = (case a of Record r \<Rightarrow> Some r | _ \<Rightarrow> None)"

definition affected_rows :: "db_answer \<Rightarrow> nat" where
  "affected_rows a = (case a of Counted n \<Rightarrow> n | _ \<Rightarrow> 0)"

definition ensure_meta :: "'s adapter \<Rightarrow> 's \<Rightarrow> (db_error + unit) \<times> 's" where
  "ensure_meta ad s = apfst (map_sum id (\<lambda>_. ())) (ad (DbInternal (EnsureTable META)) s)"

definition find_meta :: "'s adapter \<Rightarrow> string \<Rightarrow> 's \<Rightarrow> (db_error + jsrec option) \<times> 's" where
  "find_meta ad ns s =
     apfst (map_sum id found_row) (ad (DbInternal (InternalFindOne META [internal_eq ''namespace'' (JStr ns)])) s)"

definition create_meta :: "'s adapter \<Rightarrow> string \<Rightarrow> jsnum \<Rightarrow> 's \<Rightarrow> (db_error + unit) \<times> 's" where
  "create_meta ad ns next s =
     apfst (map_sum id (\<lambda>_. ())) (ad (DbInternal (InternalCreate META
       [(''id'', JStr (''meta:'' @ ns)), (''namespace'', JStr ns), (''next_server_seq'', JNum next)])) s)"

definition update_meta :: "'s adapter \<Rightarrow> string \<Rightarrow> jsnum \<Rightarrow> jsnum \<Rightarrow> 's \<Rightarrow> (db_error + nat) \<times> 's" where
  "update_meta ad ns current next s =
     apfst (map_sum id affected_rows) (ad (DbInternal (InternalUpdate META
       [internal_eq ''namespace'' (JStr ns), internal_eq ''next_server_seq'' (JNum current)]
       [(''next_server_seq'', JNum next)])) s)"

definition next_of :: "jsrec \<Rightarrow> jsnum" where
  "next_of row = (case js_get row ''next_server_seq'' of JNum n \<Rightarrow> if num_truthy n then n else Fin 1 | _ \<Rightarrow> Fin 1)"

definition db_ensure_ready :: "'s adapter \<Rightarrow> 's \<times> bool \<Rightarrow> (db_error + unit) \<times> 's \<times> bool" where
  "db_ensure_ready ad t =
     (case t of (s, ensured) \<Rightarrow>
        if ensured then (Inr (), t)
        else (case ensure_meta ad s of (Inl e, s') \<Rightarrow> (Inl e, s', False) | (Inr _, s') \<Rightarrow> (Inr (), s', True)))"

definition exhausted :: db_error where
  "exhausted = DbError ''INTERNAL: Failed to allocate serverSeq after maximum retries''"

fun db_allocate :: "'s adapter \<Rightarrow> string \<Rightarrow> jsnum \<Rightarrow> nat \<Rightarrow> 's \<Rightarrow> (db_error + jsnum list) \<times> 's" where
  "db_allocate ad ns n 0 s = (Inl exhausted, s)"
| "db_allocate ad ns n (Suc attempts) s =
     (case find_meta ad ns s of
        (Inl e, s1) \<Rightarrow> db_allocate ad ns n attempts s1
      | (Inr None, s1) \<Rightarrow>
          (case create_meta ad ns (Fin 1 + n) s1 of
             (Inl e, s2) \<Rightarrow> db_allocate ad ns n attempts s2
           | (Inr _, s2) \<Rightarrow> (Inr (seq_range (Fin 1) n), s2))
      | (Inr (Some row), s1) \<Rightarrow>
          (case update_meta ad ns (next_of row) (next_of row + n) s1 of
             (Inl e, s2) \<Rightarrow> db_allocate ad ns n attempts s2
           | (Inr affected, s2) \<Rightarrow>
               if affected = 0 then db_allocate ad ns n attempts s2 else (Inr (seq_range (next_of row) n), s2)))"

definition MAX_RETRIES :: nat where "MAX_RETRIES = 10"

definition db_get_next_n :: "'s adapter \<Rightarrow> string \<Rightarrow> jsnum \<Rightarrow> 's \<times> bool \<Rightarrow> (db_error + jsnum list) \<times> 's \<times> bool" where
  "db_get_next_n ad ns n t =
     (if \<not> valid_count n then (Inl count_error, t)
      else
        (case db_ensure_ready ad t of
           (Inl e, t') \<Rightarrow> (Inl e, t')
         | (Inr _, s, ensured) \<Rightarrow> (case db_allocate ad ns n MAX_RETRIES s of (r, s') \<Rightarrow> (r, s', ensured))))"

definition db_get_current :: "'s adapter \<Rightarrow> string \<Rightarrow> 's \<times> bool \<Rightarrow> (db_error + jsnum) \<times> 's \<times> bool" where
  "db_get_current ad ns t =
     (case db_ensure_ready ad t of
        (Inl e, t') \<Rightarrow> (Inl e, t')
      | (Inr _, s, ensured) \<Rightarrow>
          (case find_meta ad ns s of
             (r, s') \<Rightarrow> (map_sum id (\<lambda>row. case row of None \<Rightarrow> Fin 0 | Some row \<Rightarrow> next_of row - Fin 1) r, s', ensured)))"

text \<open>
  \<open>raise_meta\<close> is the update shared by the two branches of \<open>ensureMinSeq\<close>: how many rows it
  changed is not looked at.
\<close>

definition raise_meta :: "'s adapter \<Rightarrow> string \<Rightarrow> jsnum \<Rightarrow> jsnum \<Rightarrow> 's \<Rightarrow> (db_error + unit) \<times> 's" where
  "raise_meta ad ns current needed s =
     (if current < needed then apfst (map_sum id (\<lambda>_. ())) (update_meta ad ns current needed s) else (Inr (), s))"

definition db_ensure_min :: "'s adapter \<Rightarrow> string \<Rightarrow> jsnum \<Rightarrow> 's \<times> bool \<Rightarrow> (db_error + unit) \<times> 's \<times> bool" where
  "db_ensure_min ad ns minSeq t =
     (case db_ensure_ready ad t of
        (Inl e, t') \<Rightarrow> (Inl e, t')
      | (Inr _, s, ensured) \<Rightarrow>
          apsnd (\<lambda>s'. (s', ensured))
            (case find_meta ad ns s of
               (Inl e, s1) \<Rightarrow> (Inl e, s1)
             | (Inr None, s1) \<Rightarrow>
                 (case create_meta ad ns (minSeq + Fin 1) s1 of
                    (Inr _, s2) \<Rightarrow> (Inr (), s2)
                  | (Inl _, s2) \<Rightarrow>
                      (case find_meta ad ns s2 of
                         (Inl e, s3) \<Rightarrow> (Inl e, s3)
                       | (Inr row, s3) \<Rightarrow>
                           raise_meta ad ns (case row of None \<Rightarrow> Fin 1 | Some row \<Rightarrow> next_of row) (minSeq + Fin 1) s3))
             | (Inr (Some row), s1) \<Rightarrow> raise_meta ad ns (next_of row) (minSeq + Fin 1) s1))"

section \<open>The chain\<close>

record ('s, 'k) seq_state =
  sq_db :: "'s \<times> bool"
  sq_atomic :: 'k
  sq_known :: "(string, jsnum) jmap"

type_synonym ('s, 'k, 'a) seq_run = "((db_error + 'a) \<times> ('s, 'k) seq_state) option"

definition seq_then :: "('s, 'k, 'a) seq_run \<Rightarrow> ('a \<Rightarrow> ('s, 'k) seq_state \<Rightarrow> ('s, 'k, 'b) seq_run) \<Rightarrow> ('s, 'k, 'b) seq_run" where
  "seq_then m f = (case m of None \<Rightarrow> None | Some (Inl e, w) \<Rightarrow> Some (Inl e, w) | Some (Inr x, w) \<Rightarrow> f x w)"

definition seq_catch :: "('s, 'k, 'a) seq_run \<Rightarrow> (('s, 'k) seq_state \<Rightarrow> ('s, 'k, 'a) seq_run) \<Rightarrow> ('s, 'k, 'a) seq_run" where
  "seq_catch m h = (case m of None \<Rightarrow> None | Some (Inl e, w) \<Rightarrow> h w | Some (Inr x, w) \<Rightarrow> Some (Inr x, w))"

definition on_db :: "('s \<times> bool \<Rightarrow> (db_error + 'a) \<times> 's \<times> bool) \<Rightarrow> ('s, 'k) seq_state \<Rightarrow> ('s, 'k, 'a) seq_run" where
  "on_db f w = (case f (sq_db w) of (r, t) \<Rightarrow> Some (r, w\<lparr>sq_db := t\<rparr>))"

definition on_atomic :: "('k \<Rightarrow> (db_error + 'a) \<times> 'k) \<Rightarrow> ('s, 'k) seq_state \<Rightarrow> ('s, 'k, 'a) seq_run" where
  "on_atomic f w = (case f (sq_atomic w) of (r, k) \<Rightarrow> Some (r, w\<lparr>sq_atomic := k\<rparr>))"

definition sync_secondary_on_failover :: "'s adapter \<Rightarrow> string \<Rightarrow> ('s, 'k) seq_state \<Rightarrow> ('s, 'k, unit) seq_run" where
  "sync_secondary_on_failover ad ns w =
     (case jmap_get (sq_known w) ns of
        Some n \<Rightarrow> if Fin 0 < n then on_db (db_ensure_min ad ns n) w else Some (Inr (), w)
      | None \<Rightarrow> Some (Inr (), w))"

text \<open>Both numbers are asked for before either answer is looked at.\<close>

definition sync_primary_if_behind ::
  "'s adapter \<Rightarrow> 'k counter \<Rightarrow> string \<Rightarrow> ('s, 'k) seq_state \<Rightarrow> ('s, 'k, bool) seq_run" where
  "sync_primary_if_behind ad ct ns w =
     (case atomic_get_current ct ns (sq_atomic w) of
        (primary, k) \<Rightarrow>
          (case db_get_current ad ns (sq_db w) of
             (secondary, t) \<Rightarrow>
               (let w1 = w\<lparr>sq_db := t, sq_atomic := k\<rparr>
                in case (primary, secondary) of
                     (Inr p, Inr s) \<Rightarrow>
                       if s \<le> p then Some (Inr False, w1)
                       else
                         (case atomic_ensure_min ct ns s k of
                            None \<Rightarrow> None
                          | Some (r, k') \<Rightarrow> Some (map_sum id (\<lambda>_. False) r, w1\<lparr>sq_atomic := k'\<rparr>))
                   | (Inl e, _) \<Rightarrow> Some (Inl e, w1)
                   | (_, Inl e) \<Rightarrow> Some (Inl e, w1))))"

definition chained_fallback :: "'s adapter \<Rightarrow> string \<Rightarrow> jsnum \<Rightarrow> ('s, 'k) seq_state \<Rightarrow> ('s, 'k, jsnum list) seq_run" where
  "chained_fallback ad ns n w =
     seq_then (sync_secondary_on_failover ad ns w) (\<lambda>_. on_db (db_get_next_n ad ns n))"

definition chained_get_next_n ::
  "'s adapter \<Rightarrow> 'k counter \<Rightarrow> string \<Rightarrow> jsnum \<Rightarrow> ('s, 'k) seq_state \<Rightarrow> ('s, 'k, jsnum list) seq_run" where
  "chained_get_next_n ad ct ns n w =
     seq_catch
       (seq_then (on_atomic (ct_healthy ct) w) (\<lambda>healthy w1.
          if \<not> healthy then chained_fallback ad ns n w1
          else
            seq_then (sync_primary_if_behind ad ct ns w1) (\<lambda>behind w2.
              if behind then on_db (db_get_next_n ad ns n) w2
              else
                seq_then (on_atomic (atomic_get_next_n ct ns n) w2) (\<lambda>seqs w3.
                  seq_then (on_db (db_ensure_min ad ns (last seqs)) (w3\<lparr>sq_known := jmap_set ns (last seqs) (sq_known w3)\<rparr>))
                    (\<lambda>_ w4. Some (Inr seqs, w4))))))
       (chained_fallback ad ns n)"

definition chained_get_current ::
  "'s adapter \<Rightarrow> 'k counter \<Rightarrow> string \<Rightarrow> ('s, 'k) seq_state \<Rightarrow> ('s, 'k, jsnum) seq_run" where
  "chained_get_current ad ct ns w =
     seq_catch
       (seq_then (on_atomic (ct_healthy ct) w) (\<lambda>healthy w1.
          if healthy then on_atomic (atomic_get_current ct ns) w1 else on_db (db_get_current ad ns) w1))
       (on_db (db_get_current ad ns))"

datatype store_choice = NoSequenceStore | DatabaseSequence | ChainedSequence | AtomicStoreRequired

definition create_sequence_store :: "bool \<Rightarrow> bool \<Rightarrow> string option \<Rightarrow> store_choice" where
  "create_sequence_store db atomicKv policyMode =
     (if \<not> db then NoSequenceStore
      else if (case policyMode of None \<Rightarrow> if atomicKv then ''strict'' else ''db'' | Some m \<Rightarrow> m) = ''strict''
        then (if atomicKv then ChainedSequence else AtomicStoreRequired)
      else DatabaseSequence)"

end
