(* ===== verification/SequenceLaws.thy ===== *)
theory SequenceLaws
  imports ServerSequence
begin

text \<open>
  The contracts under the sequence numbers: \<open>sequence_rows\<close>, a table whose rows hold the next
  number of a namespace, \<open>counting\<close>, an atomic counter, and \<open>failover\<close>, both together, in which
  the chain of \<open>ServerSequence\<close> is shown to give out fresh numbers only.
\<close>

definition seqnum :: "int \<Rightarrow> jsnum" where "seqnum n = Fin (of_int n)"

lemma seqnum_simps [simp]:
  "seqnum a + Fin 1 = seqnum (a + 1)" "Fin 1 + seqnum a = seqnum (a + 1)"
  "seqnum a + seqnum b = seqnum (a + b)" "seqnum a - seqnum b = seqnum (a - b)"
  "seqnum a - Fin 1 = seqnum (a - 1)" "seqnum a < seqnum b \<longleftrightarrow> a < b" "seqnum a \<le> seqnum b \<longleftrightarrow> a \<le> b"
  "Fin 0 < seqnum a \<longleftrightarrow> 0 < a" "seqnum a = seqnum b \<longleftrightarrow> a = b"
  "js_min (seqnum a) (Fin 1000) = seqnum (min a 1000)"
  by (auto simp: seqnum_def js_min_def min_def)

lemma seqnum_one: "Fin 1 = seqnum 1" and seqnum_zero: "Fin 0 = seqnum 0"
  by (simp_all add: seqnum_def)

section \<open>What the chain relies on\<close>

text \<open>
  A table of sequences: \<open>issued s ns\<close> is the highest number the row of the namespace has given
  out, 0 without a row. Calls may fail, with or without their effect; while it is \<open>calm\<close> a row that is
  to be created is created, though the answer may be lost.
\<close>

locale sequence_rows =
  fixes ad :: "'s adapter"
    and rows_ok :: "'s \<Rightarrow> bool"
    and row_there :: "'s \<Rightarrow> string \<Rightarrow> bool"
    and issued :: "'s \<Rightarrow> string \<Rightarrow> int"
    and calm :: "'s \<Rightarrow> bool"
  assumes issued_nonneg: "rows_ok s \<Longrightarrow> 0 \<le> issued s ns"
    and issued_absent: "rows_ok s \<Longrightarrow> \<not> row_there s ns \<Longrightarrow> issued s ns = 0"
    and ensure_law: "rows_ok s \<Longrightarrow> ensure_meta ad s = (q, s') \<Longrightarrow>
      rows_ok s' \<and> issued s' = issued s \<and> row_there s' = row_there s \<and> (calm s \<longrightarrow> calm s')"
    and find_law: "rows_ok s \<Longrightarrow> find_meta ad ns s = (f, s') \<Longrightarrow>
      rows_ok s' \<and> issued s' = issued s \<and> row_there s' = row_there s \<and> (calm s \<longrightarrow> calm s') \<and>
      (\<forall>x. f = Inr x \<longrightarrow> (if row_there s ns then \<exists>row. x = Some row \<and> next_of row = seqnum (issued s ns + 1) else x = None))"
    and create_law: "rows_ok s \<Longrightarrow> \<not> row_there s ns \<Longrightarrow> 0 \<le> n \<Longrightarrow> create_meta ad ns (seqnum (n + 1)) s = (c, s') \<Longrightarrow>
      rows_ok s' \<and> (\<forall>m. m \<noteq> ns \<longrightarrow> issued s' m = issued s m) \<and> row_there s \<le> row_there s' \<and> (calm s \<longrightarrow> calm s') \<and>
      (issued s' ns = n \<and> row_there s' ns \<or> issued s' ns = 0 \<and> \<not> row_there s' ns \<and> \<not> calm s \<and> (\<exists>e. c = Inl e))"
    and update_law: "rows_ok s \<Longrightarrow> row_there s ns \<Longrightarrow> issued s ns \<le> n \<Longrightarrow>
      update_meta ad ns (seqnum (issued s ns + 1)) (seqnum (n + 1)) s = (u, s') \<Longrightarrow>
      rows_ok s' \<and> (\<forall>m. m \<noteq> ns \<longrightarrow> issued s' m = issued s m) \<and> row_there s \<le> row_there s' \<and> (calm s \<longrightarrow> calm s') \<and>
      (issued s' ns = n \<and> u \<noteq> Inr 0 \<or> issued s' ns = issued s ns \<and> (\<exists>e. u = Inl e))"

definition range_of :: "int \<Rightarrow> int \<Rightarrow> jsnum list" where
  "range_of a b = map seqnum [a..b]"

lemma upto_nat: "[a..b] = map (\<lambda>i. a + int i) [0..<nat (b - a + 1)]"
proof -
  have "map (\<lambda>i. a + int i) [0..<k] = [a..a + int k - 1]" for k
  proof (induction k)
    case (Suc k)
    have "[a..a + int (Suc k) - 1] = [a..a + int k - 1] @ [a + int k]"
      using upto_rec2 [of a "a + int k"] by (simp add: add.commute)
    then show ?case using Suc by simp
  qed simp
  from this [of "nat (b - a + 1)"] show ?thesis by (cases "a \<le> b") auto
qed

lemma seq_range_upto: "seq_range (seqnum a) (seqnum k) = range_of a (a + k - 1)"
  by (simp add: seq_range_def range_of_def upto_nat comp_def seqnum_def)

lemma valid_countE:
  assumes "valid_count n"
  obtains k where "n = seqnum k" and "1 \<le> k" and "k \<le> 1000"
proof -
  obtain a where a: "n = Fin a" "a = of_int \<lfloor>a\<rfloor>"
    using assms by (cases n) (auto simp: valid_count_def js_is_integer_def)
  then obtain k where k: "a = of_int k" by blast
  have "\<not> (of_int k :: rat) < 1" and "\<not> (1000 :: rat) < of_int k" using assms by (auto simp: valid_count_def a(1) k)
  then have "1 \<le> k" and "k \<le> 1000" by linarith+
  then show ?thesis using that [of k] by (simp add: a(1) k seqnum_def)
qed

context sequence_rows
begin

definition grown :: "string \<Rightarrow> 's \<Rightarrow> 's \<Rightarrow> bool" where
  "grown ns s s' \<longleftrightarrow> rows_ok s' \<and> (\<forall>m. m \<noteq> ns \<longrightarrow> issued s' m = issued s m) \<and> issued s ns \<le> issued s' ns \<and>
    row_there s \<le> row_there s' \<and> (calm s \<longrightarrow> calm s')"

text \<open>The marks of a namespace are kept once it has its row, and before that while it is calm.\<close>

definition marked :: "'s \<Rightarrow> string \<Rightarrow> bool" where
  "marked s ns \<longleftrightarrow> row_there s ns \<or> calm s"

lemma grown_refl: "rows_ok s \<Longrightarrow> grown ns s s"
  by (simp add: grown_def)

lemma grown_trans: "grown ns s s1 \<Longrightarrow> grown ns s1 s2 \<Longrightarrow> grown ns s s2"
  by (auto simp: grown_def)

lemma grown_marked: "grown ns s s' \<Longrightarrow> marked s m \<Longrightarrow> marked s' m"
  by (auto simp: grown_def marked_def)

lemma find_cases:
  assumes "rows_ok s" and "find_meta ad ns s = (r, s1)"
  shows "grown ns s s1" and "issued s1 = issued s" and "row_there s1 = row_there s" and "rows_ok s1"
    and "r = Inr None \<Longrightarrow> \<not> row_there s ns"
    and "r = Inr (Some row) \<Longrightarrow> row_there s ns \<and> next_of row = seqnum (issued s ns + 1)"
  using find_law [OF assms] by (auto simp: grown_def split: if_splits)

lemma create_grown:
  assumes "rows_ok s" and "\<not> row_there s ns" and "0 \<le> n" and "create_meta ad ns (seqnum (n + 1)) s = (r, s')"
  shows "grown ns s s'" and "r = Inr u \<Longrightarrow> issued s' ns = n" and "rows_ok s'"
  using create_law [OF assms] issued_absent [OF assms(1,2)] assms(3) by (auto simp: grown_def)

lemma update_grown:
  assumes "rows_ok s" and "row_there s ns" and "issued s ns \<le> n"
    and "update_meta ad ns (seqnum (issued s ns + 1)) (seqnum (n + 1)) s = (r, s')"
  shows "grown ns s s'" and "r = Inr k \<Longrightarrow> issued s' ns = n \<and> k \<noteq> 0" and "rows_ok s'"
  using update_law [OF assms] assms(3) by (auto simp: grown_def)

lemma ready_grown:
  assumes "rows_ok s" and "db_ensure_ready ad (s, b) = (r, s', b')"
  shows "grown ns s s'" and "issued s' = issued s" and "rows_ok s'"
  using assms(2) ensure_law [OF assms(1)] assms(1) by (auto simp: db_ensure_ready_def grown_def split: if_splits prod.splits sum.splits)

lemma allocate:
  assumes "rows_ok s" and "1 \<le> k" and "db_allocate ad ns (seqnum k) m s = (r, s')"
  shows "grown ns s s' \<and> (\<forall>xs. r = Inr xs \<longrightarrow> (\<exists>a \<ge> issued s ns. xs = range_of (a + 1) (a + k) \<and> issued s' ns = a + k))"
  using assms(1,3)
proof (induction m arbitrary: s)
  case 0
  then show ?case by (auto simp: grown_refl)
next
  case (Suc m)
  obtain f s1 where f: "find_meta ad ns s = (f, s1)" by fastforce
  note found = find_cases [OF Suc.prems(1) f]
  have step: ?case if "db_allocate ad ns (seqnum k) m t = (r, s')" and "grown ns s t" for t
    using Suc.IH [of t] that grown_trans by (fastforce simp: grown_def)
  consider (failed) e where "f = Inl e" | (absent) "f = Inr None" | (there) row where "f = Inr (Some row)"
    by (metis old.sum.exhaust option.exhaust)
  then show ?case
  proof cases
    case failed
    then show ?thesis using step [OF _ found(1)] Suc.prems(2) by (simp add: f)
  next
    case absent
    obtain c s2 where c: "create_meta ad ns (seqnum (k + 1)) s1 = (c, s2)" by fastforce
    have none: "\<not> row_there s1 ns" using found(3,5) absent by simp
    note created = create_grown [OF found(4) none _ c]
    have s2: "grown ns s s2" using grown_trans [OF found(1) created(1)] assms(2) by simp
    have zero: "issued s ns = 0" using issued_absent [OF found(4) none] found(2) by simp
    show ?thesis
    proof (cases c)
      case (Inl e)
      then show ?thesis using step [OF _ s2] Suc.prems(2) by (simp add: f absent c)
    next
      case (Inr u)
      then have out: "r = Inr (range_of 1 k)" "s' = s2"
        using Suc.prems(2) seq_range_upto [of 1 k, folded seqnum_one] by (simp_all add: f absent c)
      then show ?thesis using s2 created(2) [OF _ Inr] assms(2) zero by (auto intro!: exI [of _ "0 :: int"])
    qed
  next
    case there
    have row: "row_there s1 ns" "next_of row = seqnum (issued s1 ns + 1)" using found(2,3,6) there by simp_all
    obtain u s2 where u: "update_meta ad ns (seqnum (issued s1 ns + 1)) (seqnum (issued s1 ns + 1 + k)) s1 = (u, s2)" by fastforce
    have swap: "issued s1 ns + 1 + k = issued s1 ns + k + 1" by simp
    note updated = update_grown [OF found(4) row(1) _ u [unfolded swap]]
    have s2: "grown ns s s2" using grown_trans [OF found(1) updated(1)] assms(2) by simp
    show ?thesis
    proof (cases u)
      case (Inl e)
      then show ?thesis using step [OF _ s2] Suc.prems(2) by (simp add: f there row(2) u)
    next
      case (Inr n)
      have n: "n \<noteq> 0" "issued s2 ns = issued s1 ns + k" using updated(2) [OF _ Inr] assms(2) by auto
      have out: "r = Inr (range_of (issued s1 ns + 1) (issued s1 ns + 1 + k - 1))" "s' = s2"
        using Suc.prems(2) n(1) by (auto simp: f there row(2) u Inr seq_range_upto)
      then show ?thesis using s2 n(2) found(2) by (auto intro!: exI [of _ "issued s ns"])
    qed
  qed
qed

lemma get_next_n:
  assumes "rows_ok s" and "db_get_next_n ad ns n (s, b) = (r, s', b')"
  shows "grown ns s s' \<and> (\<forall>xs. r = Inr xs \<longrightarrow>
    (\<exists>a k. issued s ns \<le> a \<and> n = seqnum k \<and> xs = range_of (a + 1) (a + k) \<and> issued s' ns = a + k))"
proof (cases "valid_count n")
  case True
  then obtain k where k: "n = seqnum k" "1 \<le> k" using valid_countE by metis
  obtain q s1 b1 where q: "db_ensure_ready ad (s, b) = (q, s1, b1)" using prod_cases3 by blast
  note ready = ready_grown [OF assms(1) q]
  obtain x t where x: "db_allocate ad ns (seqnum k) MAX_RETRIES s1 = (x, t)" by fastforce
  note alloc = allocate [OF ready(3) k(2) x]
  show ?thesis
    using assms(2) True alloc grown_trans [OF ready(1)] ready(1,2)
    by (auto simp: db_get_next_n_def q k(1) x split: sum.splits)
qed (use assms grown_refl in \<open>auto simp: db_get_next_n_def\<close>)

lemma get_current:
  assumes "rows_ok s" and "db_get_current ad ns (s, b) = (r, s', b')"
  shows "grown ns s s'" and "issued s' = issued s" and "r = Inr c \<Longrightarrow> c = seqnum (issued s ns)"
proof -
  obtain q s1 b1 where q: "db_ensure_ready ad (s, b) = (q, s1, b1)" using prod_cases3 by blast
  note ready = ready_grown [OF assms(1) q]
  obtain f s2 where f: "find_meta ad ns s1 = (f, s2)" by fastforce
  note found = find_cases [OF ready(3) f]
  show "grown ns s s'" using assms(2) ready(1) grown_trans [OF ready(1) found(1)]
    by (auto simp: db_get_current_def q f split: sum.splits)
  show "issued s' = issued s" using assms(2) ready(2) found(2) by (auto simp: db_get_current_def q f split: sum.splits)
  show "c = seqnum (issued s ns)" if "r = Inr c"
  proof (cases q)
    case (Inr u)
    then have "map_sum id (\<lambda>row. case row of None \<Rightarrow> Fin 0 | Some row \<Rightarrow> next_of row - Fin 1) f = Inr c"
      using that assms(2) by (simp add: db_get_current_def q f)
    then obtain row where row: "f = Inr row" and c: "c = (case row of None \<Rightarrow> Fin 0 | Some row \<Rightarrow> next_of row - Fin 1)"
      by (cases f) auto
    show ?thesis
    proof (cases row)
      case None
      then show ?thesis using c row found(5) issued_absent [OF ready(3)] ready(2) by (simp add: seqnum_zero)
    next
      case (Some x)
      then show ?thesis using c row found(6) ready(2) by simp
    qed
  qed (use that assms(2) in \<open>simp add: db_get_current_def q\<close>)
qed

lemma raise_row:
  assumes "rows_ok s" and "row_there s ns" and "raise_meta ad ns (seqnum (issued s ns + 1)) (seqnum (n + 1)) s = (r, s')"
  shows "grown ns s s'" and "r = Inr u \<Longrightarrow> n \<le> issued s' ns" and "issued s' ns \<le> max (issued s ns) n"
proof -
  have "grown ns s s' \<and> (r = Inr u \<longrightarrow> n \<le> issued s' ns) \<and> issued s' ns \<le> max (issued s ns) n"
  proof (cases "issued s ns < n")
    case True
    then obtain v where v: "update_meta ad ns (seqnum (issued s ns + 1)) (seqnum (n + 1)) s = (v, s')" and r: "r = map_sum id (\<lambda>_. ()) v"
      using assms(3) by (cases "update_meta ad ns (seqnum (issued s ns + 1)) (seqnum (n + 1)) s") (auto simp: raise_meta_def)
    show ?thesis using update_law [OF assms(1,2) _ v] True r by (cases v) (auto simp: grown_def)
  qed (use assms in \<open>auto simp: raise_meta_def grown_refl\<close>)
  then show "grown ns s s'" and "r = Inr u \<Longrightarrow> n \<le> issued s' ns" and "issued s' ns \<le> max (issued s ns) n" by auto
qed

lemma ensure_min:
  assumes "rows_ok s" and "marked s ns" and "0 \<le> n" and "db_ensure_min ad ns (seqnum n) (s, b) = (r, s', b')"
  shows "grown ns s s' \<and> (\<forall>u. r = Inr u \<longrightarrow> n \<le> issued s' ns) \<and> issued s' ns \<le> max (issued s ns) n"
proof -
  obtain q s1 b1 where q: "db_ensure_ready ad (s, b) = (q, s1, b1)" using prod_cases3 by blast
  note ready = ready_grown [OF assms(1) q]
  obtain f s2 where f: "find_meta ad ns s1 = (f, s2)" by fastforce
  note found = find_cases [OF ready(3) f]
  have s2: "grown ns s s2" "issued s2 ns = issued s ns" using grown_trans [OF ready(1) found(1)] ready(2) found(2) by simp_all
  consider (not_ready) e where "q = Inl e" | (failed) e where "q = Inr ()" "f = Inl e"
    | (row) row where "q = Inr ()" "f = Inr (Some row)" | (absent) "q = Inr ()" "f = Inr None"
    by (metis old.sum.exhaust option.exhaust old.unit.exhaust)
  then show ?thesis
  proof cases
    case not_ready
    then show ?thesis using assms(4) ready(1,2) by (auto simp: db_ensure_min_def q)
  next
    case failed
    then show ?thesis using assms(4) s2 by (auto simp: db_ensure_min_def q f)
  next
    case row
    have there: "row_there s2 ns" and x: "next_of row = seqnum (issued s2 ns + 1)" using found(2,3,6) row by simp_all
    obtain v s3 where v: "raise_meta ad ns (seqnum (issued s2 ns + 1)) (seqnum (n + 1)) s2 = (v, s3)" by fastforce
    note raised = raise_row [OF found(4) there v]
    have out: "r = v" "s' = s3" using assms(4) by (simp_all add: db_ensure_min_def q f row x v [unfolded s2(2)] s2(2))
    show ?thesis unfolding out using s2(2) raised grown_trans [OF s2(1) raised(1)] by auto
  next
    case absent
    have none: "\<not> row_there s2 ns" using found(3,5) absent by simp
    have calm: "calm s2" using grown_marked [OF s2(1) assms(2)] none by (simp add: marked_def)
    obtain c s3 where c: "create_meta ad ns (seqnum (n + 1)) s2 = (c, s3)" by fastforce
    have new: "issued s3 ns = n" "row_there s3 ns" using create_law [OF found(4) none assms(3) c] calm by auto
    note created = create_grown [OF found(4) none assms(3) c]
    have s3: "grown ns s s3" by (rule grown_trans [OF s2(1) created(1)])
    show ?thesis
    proof (cases c)
      case (Inr u)
      then have "r = Inr ()" "s' = s3" using assms(4) by (simp_all add: db_ensure_min_def q f absent c)
      then show ?thesis using s3 new(1) by simp
    next
      case (Inl e)
      obtain g s4 where g: "find_meta ad ns s3 = (g, s4)" by fastforce
      note again = find_cases [OF created(3) g]
      have s4: "grown ns s s4" "issued s4 ns = n" using grown_trans [OF s3 again(1)] again(2) new(1) by simp_all
      consider (unread) e' where "g = Inl e'" | (read) row where "g = Inr (Some row)"
        using again(5) new(2) by (metis old.sum.exhaust option.exhaust)
      then show ?thesis
      proof cases
        case unread
        then show ?thesis using assms(4) s4 by (auto simp: db_ensure_min_def q f absent c Inl g)
      next
        case read
        then have "next_of row = seqnum (n + 1)" using again(6) new(1) by simp
        then show ?thesis using assms(4) s4 by (auto simp: db_ensure_min_def q f absent c Inl g read raise_meta_def)
      qed
    qed
  qed
qed

end

text \<open>A counter: \<open>counted k key\<close> is the value of a key, 0 if it has none.\<close>

definition PRINTED :: int where "PRINTED = 10 ^ 21"

locale counting =
  fixes ct :: "'k counter"
    and counter_ok :: "'k \<Rightarrow> bool"
    and counted :: "'k \<Rightarrow> string \<Rightarrow> int"
  assumes healthy_law: "counter_ok k \<Longrightarrow> ct_healthy ct k = (h, k') \<Longrightarrow> counter_ok k' \<and> counted k' = counted k"
    and get_law: "counter_ok k \<Longrightarrow> ct_get ct (seq_key ns) k = (g, k') \<Longrightarrow> counter_ok k' \<and> counted k' = counted k \<and>
      (\<forall>v. g = Inr v \<longrightarrow> (case v of None \<Rightarrow> counted k (seq_key ns) = 0
         | Some t \<Rightarrow> t \<noteq> [] \<and> js_parse_int t = seqnum (counted k (seq_key ns))))"
    and incr_law: "counter_ok k \<Longrightarrow> 1 \<le> m \<Longrightarrow> counted k (seq_key ns) + m < PRINTED \<Longrightarrow> ct_incr ct (seq_key ns) (seqnum m) k = (i, k') \<Longrightarrow>
      counter_ok k' \<and>
      (counted k' (seq_key ns) = counted k (seq_key ns) + m \<and> (\<forall>v. i = Inr v \<longrightarrow> v = seqnum (counted k (seq_key ns) + m)) \<or>
       counted k' (seq_key ns) = counted k (seq_key ns) \<and> (\<exists>e. i = Inl e))"

context counting
begin

lemma current_counted:
  assumes "counter_ok k" and "atomic_get_current ct ns k = (r, k')"
  shows "counter_ok k'" and "counted k' = counted k" and "r = Inr c \<Longrightarrow> c = seqnum (counted k (seq_key ns))"
proof -
  obtain g where g: "ct_get ct (seq_key ns) k = (g, k')" and r: "r = map_sum id (\<lambda>v. case v of None \<Rightarrow> Fin 0 | Some t \<Rightarrow> if t = [] then Fin 0 else js_parse_int t) g"
    using assms(2) by (cases "ct_get ct (seq_key ns) k") (auto simp: atomic_get_current_def)
  show "counter_ok k'" and "counted k' = counted k" using get_law [OF assms(1) g] by auto
  show "c = seqnum (counted k (seq_key ns))" if "r = Inr c"
    using get_law [OF assms(1) g] that r by (cases g) (auto simp: seqnum_zero split: option.splits)
qed

lemma raised:
  assumes "counter_ok k" and "m < PRINTED" and "c = counted k (seq_key ns)"
  shows "\<exists>r k'. atomic_raise ct (seq_key ns) (seqnum m) (seqnum c) k = Some (r, k') \<and> counter_ok k' \<and>
    counted k' (seq_key ns) \<le> max c m \<and> (\<forall>u. r = Inr u \<longrightarrow> m \<le> counted k' (seq_key ns))"
  using assms
proof (induction "nat (m - c)" arbitrary: c k rule: less_induct)
  case less
  show ?case
  proof (cases "c < m")
    case True
    let ?step = "min (m - c) 1000"
    obtain i k1 where i: "ct_incr ct (seq_key ns) (seqnum ?step) k = (i, k1)" by fastforce
    have pos: "1 \<le> ?step" and room: "counted k (seq_key ns) + ?step < PRINTED" using True less.prems(2,3) by auto
    note law = incr_law [OF less.prems(1) pos room i]
    show ?thesis
    proof (cases i)
      case (Inl e)
      then have "atomic_raise ct (seq_key ns) (seqnum m) (seqnum c) k = Some (Inl e, k1)"
        using True by (subst atomic_raise.simps) (simp add: i)
      then show ?thesis using law True less.prems(3) by auto
    next
      case (Inr v)
      then have v: "v = seqnum (c + ?step)" and k1: "counter_ok k1" "c + ?step = counted k1 (seq_key ns)"
        using law less.prems(3) by auto
      have "nat (m - (c + ?step)) < nat (m - c)" using pos True by linarith
      note rest = less.hyps [OF this k1(1) less.prems(2) k1(2)]
      have "atomic_raise ct (seq_key ns) (seqnum m) (seqnum c) k = atomic_raise ct (seq_key ns) (seqnum m) (seqnum (c + ?step)) k1"
        using True by (subst atomic_raise.simps) (simp add: i Inr v)
      then show ?thesis using rest True by auto
    qed
  next
    case False
    then show ?thesis using less.prems by (subst atomic_raise.simps) auto
  qed
qed

end

section \<open>The chain over a table and a counter\<close>

locale failover =
  sequence_rows ad rows_ok row_there issued calm + counting ct counter_ok counted
  for ad :: "'s adapter" and rows_ok :: "'s \<Rightarrow> bool" and row_there :: "'s \<Rightarrow> string \<Rightarrow> bool" and issued :: "'s \<Rightarrow> string \<Rightarrow> int" and calm :: "'s \<Rightarrow> bool"
    and ct :: "'k counter" and counter_ok :: "'k \<Rightarrow> bool" and counted :: "'k \<Rightarrow> string \<Rightarrow> int"

context failover
begin

definition known_ok :: "('s, 'k) seq_state \<Rightarrow> bool" where
  "known_ok w \<longleftrightarrow> (\<forall>m n. jmap_get (sq_known w) m = Some n \<longrightarrow> n \<in> range seqnum)"

definition chain_ok :: "('s, 'k) seq_state \<Rightarrow> bool" where
  "chain_ok w \<longleftrightarrow> rows_ok (fst (sq_db w)) \<and> counter_ok (sq_atomic w) \<and> known_ok w"

definition highest_issued :: "string \<Rightarrow> ('s, 'k) seq_state \<Rightarrow> int" where
  "highest_issued ns w = issued (fst (sq_db w)) ns"

definition moved :: "string \<Rightarrow> ('s, 'k) seq_state \<Rightarrow> ('s, 'k) seq_state \<Rightarrow> bool" where
  "moved ns w w' \<longleftrightarrow> chain_ok w' \<and> grown ns (fst (sq_db w)) (fst (sq_db w'))"

definition advances :: "string \<Rightarrow> ('s, 'k) seq_state \<Rightarrow> ('s, 'k, 'a) seq_run \<Rightarrow> ('a \<Rightarrow> ('s, 'k) seq_state \<Rightarrow> bool) \<Rightarrow> bool" where
  "advances ns w m P \<longleftrightarrow> (\<exists>r w'. m = Some (r, w') \<and> moved ns w w' \<and> (\<forall>x. r = Inr x \<longrightarrow> P x w'))"

lemma moved_refl: "chain_ok w \<Longrightarrow> moved ns w w"
  by (simp add: moved_def chain_ok_def grown_refl)

lemma moved_trans: "moved ns w w1 \<Longrightarrow> moved ns w1 w2 \<Longrightarrow> moved ns w w2"
  using grown_trans by (auto simp: moved_def)

lemma moved_ok: "moved ns w w' \<Longrightarrow> chain_ok w'"
  by (simp add: moved_def)

lemma moved_marked: "moved ns w w' \<Longrightarrow> marked (fst (sq_db w)) m \<Longrightarrow> marked (fst (sq_db w')) m"
  using grown_marked by (auto simp: moved_def)

lemma moved_highest: "moved ns w w' \<Longrightarrow> highest_issued m w \<le> highest_issued m w'"
  by (cases "m = ns") (auto simp: moved_def grown_def highest_issued_def)

lemma advances_some: "chain_ok w \<Longrightarrow> (\<And>x. r = Inr x \<Longrightarrow> P x w) \<Longrightarrow> advances ns w (Some (r, w)) P"
  by (auto simp: advances_def moved_refl)

lemma advances_then:
  assumes "advances ns w m P" and "\<And>x w'. moved ns w w' \<Longrightarrow> P x w' \<Longrightarrow> advances ns w' (f x w') Q"
  shows "advances ns w (seq_then m f) Q"
proof -
  obtain r w' where m: "m = Some (r, w')" and w': "moved ns w w'" and P: "\<forall>x. r = Inr x \<longrightarrow> P x w'"
    using assms(1) by (auto simp: advances_def)
  show ?thesis
  proof (cases r)
    case (Inr x)
    then have "advances ns w' (f x w') Q" using assms(2) w' P by simp
    then show ?thesis using moved_trans [OF w'] unfolding advances_def seq_then_def m Inr by (simp; blast)
  qed (simp add: advances_def seq_then_def m w')
qed

lemma advances_catch:
  assumes "advances ns w m Q" and "\<And>w'. moved ns w w' \<Longrightarrow> advances ns w' (h w') Q"
  shows "advances ns w (seq_catch m h) Q"
proof -
  obtain r w' where m: "m = Some (r, w')" and w': "moved ns w w'" and Q: "\<forall>x. r = Inr x \<longrightarrow> Q x w'"
    using assms(1) by (auto simp: advances_def)
  show ?thesis
  proof (cases r)
    case (Inl e)
    have "advances ns w' (h w') Q" using assms(2) w' by simp
    then show ?thesis using moved_trans [OF w'] unfolding advances_def seq_catch_def m Inl by (simp; blast)
  qed (use Q in \<open>simp add: advances_def seq_catch_def m w'\<close>)
qed

lemma on_db_advances:
  assumes "chain_ok w" and "\<And>r s' b'. f (sq_db w) = (r, s', b') \<Longrightarrow>
    grown ns (fst (sq_db w)) s' \<and> (\<forall>x. r = Inr x \<longrightarrow> P x (w\<lparr>sq_db := (s', b')\<rparr>))"
  shows "advances ns w (on_db f w) P"
proof -
  obtain r s' b' where f: "f (sq_db w) = (r, s', b')" using prod_cases3 by blast
  show ?thesis using assms(2) [OF f] assms(1) by (auto simp: advances_def on_db_def f moved_def chain_ok_def known_ok_def grown_def)
qed

lemma on_atomic_advances:
  assumes "chain_ok w" and "\<And>r k. f (sq_atomic w) = (r, k) \<Longrightarrow>
    counter_ok k \<and> (\<forall>x. r = Inr x \<longrightarrow> P x (w\<lparr>sq_atomic := k\<rparr>))"
  shows "advances ns w (on_atomic f w) P"
proof -
  obtain r k where f: "f (sq_atomic w) = (r, k)" by fastforce
  show ?thesis using assms(2) [OF f] assms(1)
    by (auto simp: advances_def on_atomic_def f moved_def chain_ok_def known_ok_def intro: grown_refl)
qed

text \<open>The numbers a request gives out lie above all that were issued before it.\<close>

definition fresh_range :: "int \<Rightarrow> string \<Rightarrow> jsnum \<Rightarrow> jsnum list \<Rightarrow> ('s, 'k) seq_state \<Rightarrow> bool" where
  "fresh_range i ns n xs w \<longleftrightarrow> (\<exists>a k. i \<le> a \<and> n = seqnum k \<and> xs = range_of (a + 1) (a + k) \<and> a + k \<le> highest_issued ns w)"

lemma fresh_rangeI:
  "i \<le> a \<Longrightarrow> n = seqnum k \<Longrightarrow> xs = range_of (a + 1) (a + k) \<Longrightarrow> a + k \<le> highest_issued ns w \<Longrightarrow> fresh_range i ns n xs w"
  unfolding fresh_range_def by blast

lemma database_advances:
  assumes "chain_ok w" and "i \<le> highest_issued ns w"
  shows "advances ns w (on_db (db_get_next_n ad ns n) w) (fresh_range i ns n)"
proof (rule on_db_advances [OF assms(1)], goal_cases)
  case (1 r s' b')
  obtain s b where w: "sq_db w = (s, b)" by fastforce
  then have "rows_ok s" using assms(1) by (simp add: chain_ok_def)
  note numbers = get_next_n [OF this 1 [unfolded w]]
  have "fresh_range i ns n xs (w\<lparr>sq_db := (s', b')\<rparr>)" if xs: "r = Inr xs" for xs
  proof -
    obtain a k where "issued s ns \<le> a" "n = seqnum k" "xs = range_of (a + 1) (a + k)" "issued s' ns = a + k"
      using numbers xs by blast
    then show ?thesis using assms(2) by (intro fresh_rangeI [of i a n k]) (auto simp: w highest_issued_def)
  qed
  then show ?case using numbers by (simp add: w)
qed

lemma ensure_advances:
  assumes "chain_ok w" and "marked (fst (sq_db w)) ns" and "0 \<le> n"
  shows "advances ns w (on_db (db_ensure_min ad ns (seqnum n)) w) (\<lambda>_ w'. n \<le> highest_issued ns w')"
proof (rule on_db_advances [OF assms(1)], goal_cases)
  case (1 r s' b')
  obtain s b where w: "sq_db w = (s, b)" by fastforce
  then have "rows_ok s" using assms(1) by (simp add: chain_ok_def)
  from ensure_min [OF this _ assms(3) 1 [unfolded w]] assms(2) show ?case by (auto simp: w highest_issued_def)
qed

lemma fallback_advances:
  assumes "chain_ok w" and "marked (fst (sq_db w)) ns" and "i \<le> highest_issued ns w"
  shows "advances ns w (chained_fallback ad ns n w) (fresh_range i ns n)"
  unfolding chained_fallback_def
proof (rule advances_then)
  show "advances ns w (sync_secondary_on_failover ad ns w) (\<lambda>_ _. True)"
  proof (cases "jmap_get (sq_known w) ns")
    case (Some v)
    then obtain m where v: "v = seqnum m" using assms(1) by (auto simp: chain_ok_def known_ok_def)
    have "advances ns w (on_db (db_ensure_min ad ns (seqnum m)) w) (\<lambda>_ _. True)" if "0 < m"
      using ensure_advances [OF assms(1,2), of m] that by (auto simp: advances_def)
    then show ?thesis by (simp add: sync_secondary_on_failover_def Some v advances_some assms(1))
  qed (simp add: sync_secondary_on_failover_def advances_some assms(1))
next
  fix x w'
  assume "moved ns w w'"
  then show "advances ns w' (on_db (db_get_next_n ad ns n) w') (fresh_range i ns n)"
    using database_advances [OF moved_ok] moved_highest assms(3) order_trans by blast
qed

definition number_count :: "string \<Rightarrow> ('s, 'k) seq_state \<Rightarrow> int" where
  "number_count ns w = counted (sq_atomic w) (seq_key ns)"

lemma sync_advances:
  assumes "chain_ok w" and "highest_issued ns w < PRINTED"
  shows "advances ns w (sync_primary_if_behind ad ct ns w) (\<lambda>behind w'.
    \<not> behind \<and> highest_issued ns w' = highest_issued ns w \<and> highest_issued ns w \<le> number_count ns w' \<and> number_count ns w' \<le> max (number_count ns w) (highest_issued ns w))"
proof -
  obtain p k where p: "atomic_get_current ct ns (sq_atomic w) = (p, k)" by fastforce
  obtain s b where w: "sq_db w = (s, b)" by fastforce
  obtain c s' b' where c: "db_get_current ad ns (s, b) = (c, s', b')" using prod_cases3 by blast
  have ok: "counter_ok (sq_atomic w)" "rows_ok s" using assms(1) by (auto simp: chain_ok_def w)
  note primary = current_counted [OF ok(1) p] and secondary = get_current [OF ok(2) c]
  define w1 where "w1 = w\<lparr>sq_db := (s', b'), sq_atomic := k\<rparr>"
  have same: "highest_issued ns (w1\<lparr>sq_atomic := k'\<rparr>) = highest_issued ns w" "highest_issued ns w1 = highest_issued ns w" for k'
    using secondary(2) by (simp_all add: highest_issued_def w1_def w)
  have w1: "moved ns w w1"
    using assms(1) primary(1) secondary(1) by (auto simp: w1_def moved_def chain_ok_def known_ok_def w grown_def)
  have raised_state: "moved ns w (w1\<lparr>sq_atomic := k'\<rparr>)" if "counter_ok k'" for k'
    using that w1 by (auto simp: moved_def chain_ok_def known_ok_def)
  show ?thesis
  proof (cases p)
    case (Inl e)
    then show ?thesis using w1 by (simp add: advances_def sync_primary_if_behind_def p w c w1_def Let_def)
  next
    case pv: (Inr pv)
    then have pn: "pv = seqnum (number_count ns w)" using primary(3) by (simp add: number_count_def)
    show ?thesis
    proof (cases c)
      case (Inl e)
      then show ?thesis using w1 by (simp add: advances_def sync_primary_if_behind_def p w c w1_def Let_def pv)
    next
      case cv: (Inr cv)
      then have cn: "cv = seqnum (highest_issued ns w)" using secondary(3) by (simp add: highest_issued_def w)
      show ?thesis
      proof (cases "highest_issued ns w \<le> number_count ns w")
        case True
        then show ?thesis using w1 primary(2) same(2) [unfolded w1_def]
          by (simp add: advances_def sync_primary_if_behind_def p w c w1_def Let_def pv cv pn cn number_count_def)
      next
        case False
        obtain q k1 where q: "atomic_get_current ct ns k = (q, k1)" by fastforce
        note again = current_counted [OF primary(1) q]
        show ?thesis
        proof (cases q)
          case (Inl e)
          then show ?thesis using False raised_state [OF again(1)]
            by (simp add: advances_def sync_primary_if_behind_def p w c w1_def Let_def pv cv pn cn atomic_ensure_min_def q)
        next
          case (Inr x)
          have x: "x = seqnum (counted k1 (seq_key ns))" using again(2,3) Inr by simp
          obtain r k2 where r: "atomic_raise ct (seq_key ns) (seqnum (highest_issued ns w)) x k1 = Some (r, k2)" "counter_ok k2"
            and bound: "counted k2 (seq_key ns) \<le> max (counted k1 (seq_key ns)) (highest_issued ns w)"
            and reached: "\<forall>u. r = Inr u \<longrightarrow> highest_issued ns w \<le> counted k2 (seq_key ns)"
            using raised [OF again(1) assms(2) refl, of ns] unfolding x by blast
          have run: "sync_primary_if_behind ad ct ns w = Some (map_sum id (\<lambda>_. False) r, w1\<lparr>sq_atomic := k2\<rparr>)"
            using False by (simp add: sync_primary_if_behind_def p w c w1_def Let_def pv cv pn cn atomic_ensure_min_def q Inr r)
          show ?thesis unfolding run advances_def using raised_state [OF r(2)] bound reached again(2) primary(2) same(1)
            by (cases r) (auto simp: number_count_def)
        qed
      qed
    qed
  qed
qed

lemma range_last: "1 \<le> k \<Longrightarrow> last (range_of (a + 1) (a + k)) = seqnum (a + k)"
  using upto_rec2 [of "a + 1" "a + k"] by (simp add: range_of_def)

lemma primary_advances:
  assumes "chain_ok w" and "marked (fst (sq_db w)) ns" and "highest_issued ns w \<le> number_count ns w"
    and "number_count ns w + 1000 < PRINTED" and "i \<le> highest_issued ns w"
  shows "advances ns w
    (seq_then (on_atomic (atomic_get_next_n ct ns n) w) (\<lambda>seqs w3.
       seq_then (on_db (db_ensure_min ad ns (last seqs)) (w3\<lparr>sq_known := jmap_set ns (last seqs) (sq_known w3)\<rparr>))
         (\<lambda>_ w4. Some (Inr seqs, w4)))) (fresh_range i ns n)"
proof (cases "valid_count n")
  case False
  then show ?thesis using assms(1)
    by (auto simp: on_atomic_def atomic_get_next_n_def seq_then_def advances_def moved_refl)
next
  case True
  then obtain k where k: "n = seqnum k" "1 \<le> k" "k \<le> 1000" using valid_countE by metis
  let ?c = "number_count ns w"
  have seqs: "advances ns w (on_atomic (atomic_get_next_n ct ns n) w)
    (\<lambda>seqs w3. seqs = range_of (?c + 1) (?c + k) \<and> sq_db w3 = sq_db w)"
  proof (rule on_atomic_advances [OF assms(1)], goal_cases)
    case (1 r k')
    obtain j where j: "ct_incr ct (seq_key ns) (seqnum k) (sq_atomic w) = (j, k')"
      and r: "r = map_sum id (\<lambda>v. seq_range (v - n + Fin 1) n) j"
      using 1 True by (cases "ct_incr ct (seq_key ns) (seqnum k) (sq_atomic w)") (auto simp: atomic_get_next_n_def k(1))
    have "counter_ok (sq_atomic w)" using assms(1) by (simp add: chain_ok_def)
    from incr_law [OF this k(2) _ j] have "counter_ok k'" and "\<forall>v. j = Inr v \<longrightarrow> v = seqnum (?c + k)"
      using assms(4) k(3) by (auto simp: number_count_def)
    then show ?case using seq_range_upto [of "?c + 1" k] by (cases j) (auto simp: r k(1))
  qed
  show ?thesis
  proof (rule advances_then [OF seqs], elim conjE)
    fix xs w3
    assume w3: "moved ns w w3" and xs: "xs = range_of (?c + 1) (?c + k)" and db: "sq_db w3 = sq_db w"
    define w3' where "w3' = w3\<lparr>sq_known := jmap_set ns (last xs) (sq_known w3)\<rparr>"
    have last: "last xs = seqnum (?c + k)" using range_last [OF k(2)] xs by simp
    have ok: "chain_ok w3'" using moved_ok [OF w3] by (auto simp: w3'_def chain_ok_def known_ok_def last jmap_simps)
    have there: "marked (fst (sq_db w3')) ns" using assms(2) db by (simp add: w3'_def)
    have reached: "0 \<le> ?c + k"
      using issued_nonneg [of "fst (sq_db w)" ns] assms(1,3) k(2) by (simp add: chain_ok_def highest_issued_def)
    have "advances ns w3' (seq_then (on_db (db_ensure_min ad ns (last xs)) w3') (\<lambda>_ w4. Some (Inr xs, w4))) (fresh_range i ns n)"
      unfolding last
    proof (rule advances_then [OF ensure_advances [OF ok there reached]])
      fix u w4
      assume w4: "moved ns w3' w4" and "?c + k \<le> highest_issued ns w4"
      then have fresh: "fresh_range i ns n xs w4" using assms(3,5) by (intro fresh_rangeI [OF _ k(1) xs]) auto
      show "advances ns w4 (Some (Inr xs, w4)) (fresh_range i ns n)"
        by (rule advances_some [OF moved_ok [OF w4]]) (use fresh in simp)
    qed
    then show "advances ns w3 (seq_then (on_db (db_ensure_min ad ns (last xs)) (w3\<lparr>sq_known := jmap_set ns (last xs) (sq_known w3)\<rparr>))
        (\<lambda>_ w4. Some (Inr xs, w4))) (fresh_range i ns n)"
      by (simp add: advances_def moved_def w3'_def)
  qed
qed

lemma request_advances:
  assumes "chain_ok w" and "marked (fst (sq_db w)) ns" and "highest_issued ns w + 1000 < PRINTED"
    and "number_count ns w + 1000 < PRINTED"
  shows "advances ns w (chained_get_next_n ad ct ns n w) (fresh_range (highest_issued ns w) ns n)"
  unfolding chained_get_next_n_def
proof (rule advances_catch)
  fix w' assume w': "moved ns w w'"
  show "advances ns w' (chained_fallback ad ns n w') (fresh_range (highest_issued ns w) ns n)"
    by (rule fallback_advances [OF moved_ok [OF w'] moved_marked [OF w' assms(2)] moved_highest [OF w']])
next
  let ?i = "highest_issued ns w"
  have healthy: "advances ns w (on_atomic (ct_healthy ct) w) (\<lambda>_ w1. sq_db w1 = sq_db w \<and> number_count ns w1 = number_count ns w)"
    by (rule on_atomic_advances [OF assms(1)]) (use assms(1) healthy_law in \<open>fastforce simp: chain_ok_def number_count_def\<close>)
  show "advances ns w (seq_then (on_atomic (ct_healthy ct) w) (\<lambda>healthy w1.
          if \<not> healthy then chained_fallback ad ns n w1
          else
            seq_then (sync_primary_if_behind ad ct ns w1) (\<lambda>behind w2.
              if behind then on_db (db_get_next_n ad ns n) w2
              else
                seq_then (on_atomic (atomic_get_next_n ct ns n) w2) (\<lambda>seqs w3.
                  seq_then (on_db (db_ensure_min ad ns (last seqs)) (w3\<lparr>sq_known := jmap_set ns (last seqs) (sq_known w3)\<rparr>))
                    (\<lambda>_ w4. Some (Inr seqs, w4)))))) (fresh_range ?i ns n)"
  proof (rule advances_then [OF healthy], elim conjE)
    fix h w1
    assume w1: "moved ns w w1" and db: "sq_db w1 = sq_db w" and count: "number_count ns w1 = number_count ns w"
    have same: "highest_issued ns w1 = ?i" using db by (simp add: highest_issued_def)
    have fallback: "advances ns w1 (chained_fallback ad ns n w1) (fresh_range ?i ns n)"
      by (rule fallback_advances [OF moved_ok [OF w1] moved_marked [OF w1 assms(2)]]) (simp add: same)
    have sync: "advances ns w1 (sync_primary_if_behind ad ct ns w1) (\<lambda>behind w'.
        \<not> behind \<and> highest_issued ns w' = ?i \<and> ?i \<le> number_count ns w' \<and> number_count ns w' \<le> max (number_count ns w) ?i)"
      using sync_advances [OF moved_ok [OF w1], of ns] assms(3) by (simp add: same count)
    have primary: "advances ns w1 (seq_then (sync_primary_if_behind ad ct ns w1) (\<lambda>behind w2.
        if behind then on_db (db_get_next_n ad ns n) w2
        else
          seq_then (on_atomic (atomic_get_next_n ct ns n) w2) (\<lambda>seqs w3.
            seq_then (on_db (db_ensure_min ad ns (last seqs)) (w3\<lparr>sq_known := jmap_set ns (last seqs) (sq_known w3)\<rparr>))
              (\<lambda>_ w4. Some (Inr seqs, w4))))) (fresh_range ?i ns n)"
    proof (rule advances_then [OF sync], elim conjE)
      fix behind w2
      assume w2: "moved ns w1 w2" and ahead: "\<not> behind" and same2: "highest_issued ns w2 = ?i"
        and count2: "?i \<le> number_count ns w2" "number_count ns w2 \<le> max (number_count ns w) ?i"
      have there: "marked (fst (sq_db w2)) ns" by (rule moved_marked [OF w2 moved_marked [OF w1 assms(2)]])
      have "number_count ns w2 + 1000 < PRINTED" using count2(2) assms(3,4) by simp
      from primary_advances [OF moved_ok [OF w2] there _ this, of ?i n]
      show "advances ns w2 (if behind then on_db (db_get_next_n ad ns n) w2
        else
          seq_then (on_atomic (atomic_get_next_n ct ns n) w2) (\<lambda>seqs w3.
            seq_then (on_db (db_ensure_min ad ns (last seqs)) (w3\<lparr>sq_known := jmap_set ns (last seqs) (sq_known w3)\<rparr>))
              (\<lambda>_ w4. Some (Inr seqs, w4)))) (fresh_range ?i ns n)"
        using ahead same2 count2(1) by simp
    qed
    show "advances ns w1 (if \<not> h then chained_fallback ad ns n w1 else
            seq_then (sync_primary_if_behind ad ct ns w1) (\<lambda>behind w2.
              if behind then on_db (db_get_next_n ad ns n) w2
              else
                seq_then (on_atomic (atomic_get_next_n ct ns n) w2) (\<lambda>seqs w3.
                  seq_then (on_db (db_ensure_min ad ns (last seqs)) (w3\<lparr>sq_known := jmap_set ns (last seqs) (sq_known w3)\<rparr>))
                    (\<lambda>_ w4. Some (Inr seqs, w4))))) (fresh_range ?i ns n)"
      using fallback primary by simp
  qed
qed

end

end
