(* ===== verification/SequenceStores.thy ===== *)
theory SequenceStores
  imports SequenceLaws
begin

text \<open>
  The contracts of \<open>SequenceLaws\<close> hold of the in-memory database adapter and of the counters of
  the in-memory atomic store, also when any of their calls fail.
\<close>

section \<open>Calls that may fail\<close>

datatype outage = Fine | Refused | Lost

definition unavailable :: db_error where "unavailable = DbError ''unavailable''"

text \<open>The next call is answered, refused, or carried out with the answer lost.\<close>

definition flaky :: "('c \<Rightarrow> 's \<Rightarrow> (db_error + 'b) \<times> 's) \<Rightarrow> 'c \<Rightarrow> 's \<times> outage list \<Rightarrow> (db_error + 'b) \<times> 's \<times> outage list" where
  "flaky f c t =
     (case t of (s, fs) \<Rightarrow>
        (case fs of
           [] \<Rightarrow> (case f c s of (r, s') \<Rightarrow> (r, s', []))
         | Fine # fs' \<Rightarrow> (case f c s of (r, s') \<Rightarrow> (r, s', fs'))
         | Refused # fs' \<Rightarrow> (Inl unavailable, s, fs')
         | Lost # fs' \<Rightarrow> (case f c s of (r, s') \<Rightarrow> (Inl unavailable, s', fs'))))"

text \<open>No call to come is refused.\<close>

definition calm_calls :: "'s \<times> outage list \<Rightarrow> bool" where
  "calm_calls t \<longleftrightarrow> Refused \<notin> set (snd t)"

lemma flaky_calm: "flaky f c t = (r, t') \<Longrightarrow> calm_calls t \<Longrightarrow> calm_calls t'"
  by (auto simp: flaky_def calm_calls_def split: prod.splits list.splits outage.splits)

lemma flaky_plain:
  assumes "flaky f c t = (r, t')"
  obtains (answered) "f c (fst t) = (r, fst t')" | (refused) e where "r = Inl e" "fst t' = fst t" "\<not> calm_calls t"
    | (lost) e r0 where "r = Inl e" "f c (fst t) = (r0, fst t')"
proof -
  obtain s fs where t: "t = (s, fs)" by fastforce
  obtain q s' where q: "f c s = (q, s')" by fastforce
  consider "fs = []" | (fine) gs where "fs = Fine # gs" | (refuse) gs where "fs = Refused # gs" | (lose) gs where "fs = Lost # gs"
    by (metis list.exhaust outage.exhaust)
  then show thesis using assms that by cases (auto simp: flaky_def t q calm_calls_def)
qed

lemma flaky_call:
  assumes "apfst (map_sum id g) (flaky f c t) = (r, t')"
  obtains (answered) "apfst (map_sum id g) (f c (fst t)) = (r, fst t')" | (refused) e where "r = Inl e" "fst t' = fst t" "\<not> calm_calls t"
    | (lost) e r0 where "r = Inl e" "apfst (map_sum id g) (f c (fst t)) = (r0, fst t')"
proof -
  obtain q where q: "flaky f c t = (q, t')" and r: "r = map_sum id g q" using assms by (cases "flaky f c t") auto
  from q show thesis
  proof (cases rule: flaky_plain)
    case answered
    then show ?thesis using that(1) r by simp
  next
    case (refused e)
    then show ?thesis using that(2) r by simp
  next
    case (lost e r0)
    then show ?thesis using that(3) r by simp
  qed
qed

lemma flaky_call_calm: "apfst g (flaky f c t) = (r, t') \<Longrightarrow> calm_calls t \<Longrightarrow> calm_calls t'"
  using flaky_calm by (cases "flaky f c t") fastforce

section \<open>The rows of the in-memory adapter\<close>

definition meta_id :: "string \<Rightarrow> jsval" where "meta_id ns = JStr (''meta:'' @ ns)"

lemma meta_id_inj [simp]: "meta_id m = meta_id n \<longleftrightarrow> m = n"
  by (simp add: meta_id_def)

definition is_meta_row :: "jsval \<Rightarrow> jsrec \<Rightarrow> string \<Rightarrow> int \<Rightarrow> bool" where
  "is_meta_row key row ns n \<longleftrightarrow> key = meta_id ns \<and> js_get row ''namespace'' = JStr ns \<and>
     js_get row ''next_server_seq'' = JNum (seqnum n) \<and> 1 \<le> n"

definition meta_ok :: "memory_db \<Rightarrow> bool" where
  "meta_ok s \<longleftrightarrow> jmap_ok (internal_table META s) \<and> (\<forall>(key, row) \<in> set (internal_table META s). \<exists>ns n. is_meta_row key row ns n)"

definition meta_there :: "memory_db \<Rightarrow> string \<Rightarrow> bool" where
  "meta_there s ns \<longleftrightarrow> jmap_has (internal_table META s) (meta_id ns)"

definition row_number :: "jsrec \<Rightarrow> int" where
  "row_number row = (case next_of row of Fin a \<Rightarrow> \<lfloor>a\<rfloor> | _ \<Rightarrow> 1)"

definition meta_issued :: "memory_db \<Rightarrow> string \<Rightarrow> int" where
  "meta_issued s ns = (case jmap_get (internal_table META s) (meta_id ns) of None \<Rightarrow> 0 | Some row \<Rightarrow> row_number row - 1)"

lemma seqnum_truthy: "1 \<le> n \<Longrightarrow> num_truthy (seqnum n)"
  by (simp add: num_truthy_def seqnum_def)

lemma meta_row_next: "is_meta_row key row ns n \<Longrightarrow> next_of row = seqnum n \<and> row_number row = n"
  using seqnum_truthy [of n] by (auto simp: is_meta_row_def next_of_def row_number_def) (simp add: seqnum_def)

lemma meta_get:
  assumes "meta_ok s" and "jmap_get (internal_table META s) (meta_id ns) = Some row"
  obtains n where "is_meta_row (meta_id ns) row ns n" and "meta_issued s ns = n - 1"
proof -
  have "(meta_id ns, row) \<in> set (internal_table META s)"
    using assms by (simp add: meta_ok_def jmap_get_in_set)
  then obtain m n where "is_meta_row (meta_id ns) row m n" using assms(1) by (auto simp: meta_ok_def)
  then have "is_meta_row (meta_id ns) row ns n" by (auto simp: is_meta_row_def)
  then show ?thesis using that assms(2) meta_row_next by (simp add: meta_issued_def)
qed

lemma meta_there_get: "meta_there s ns \<longleftrightarrow> (\<exists>row. jmap_get (internal_table META s) (meta_id ns) = Some row)"
  by (auto simp: meta_there_def)

lemma first_match_find: "(\<And>x. x \<in> set xs \<Longrightarrow> p x = Inr (b x)) \<Longrightarrow> first_match p xs = Inr (find b xs)"
  by (induction xs) auto

lemma rewrite_rows_map:
  "(\<And>x. x \<in> set xs \<Longrightarrow> p x = Inr (b x)) \<Longrightarrow>
   rewrite_rows p f xs = (Inr (length (filter b xs)), concat (map (\<lambda>x. if b x then f x else [x]) xs))"
  by (induction xs) auto

lemma namespace_matches:
  assumes "is_meta_row key row m n"
  shows "internal_match dtoa [internal_eq ''namespace'' (JStr ns)] (key, row) = Inr (key = meta_id ns)"
  using assms by (auto simp: internal_match_def internal_eq_def internal_clause_def value_eq_def is_meta_row_def)

lemma number_matches:
  assumes "is_meta_row key row m n" and "m = ns \<Longrightarrow> n = k"
  shows "internal_match dtoa [internal_eq ''namespace'' (JStr ns), internal_eq ''next_server_seq'' (JNum (seqnum k))] (key, row) =
    Inr (key = meta_id ns)"
  using assms by (auto simp: internal_match_def internal_eq_def internal_clause_def value_eq_def is_meta_row_def) (simp add: seqnum_def)

lemma find_key: "find (\<lambda>x. fst x = k) t = map_option (Pair k) (jmap_get t k)"
  by (induction t) auto

lemma get_map: "jmap_get (map (\<lambda>x. if fst x = k then (fst x, g (snd x)) else x) t) j =
    (if j = k then map_option g (jmap_get t k) else jmap_get t j)"
  by (induction t) auto

lemma memory_ensure:
  assumes "ensure_meta (memory_db_adapter env) s = (r, s')"
  shows "internal_table META s' = internal_table META s"
  using assms by (auto simp: ensure_meta_def internal_table_def put_internal_def jmap_simps split: if_splits option.splits)

lemma memory_find:
  assumes "meta_ok s"
  shows "find_meta (memory_db_adapter env) ns s = (Inr (jmap_get (internal_table META s) (meta_id ns)), s)"
proof -
  have "first_match (internal_match (de_dtoa env) [internal_eq ''namespace'' (JStr ns)]) (internal_table META s) =
      Inr (find (\<lambda>x. fst x = meta_id ns) (internal_table META s))"
    using assms namespace_matches by (intro first_match_find) (fastforce simp: meta_ok_def)
  then show ?thesis by (cases "jmap_get (internal_table META s) (meta_id ns)") (simp_all add: find_meta_def find_key found_row_def)
qed

lemma put_table: "internal_table n (put_internal n t s) = t"
  by (simp add: internal_table_def put_internal_def jmap_simps)

definition meta_record :: "string \<Rightarrow> jsnum \<Rightarrow> jsrec" where
  "meta_record ns n = [(''id'', meta_id ns), (''namespace'', JStr ns), (''next_server_seq'', JNum n)]"

lemma meta_record_ok: "1 \<le> n \<Longrightarrow> is_meta_row (meta_id ns) (meta_record ns (seqnum n)) ns n"
  by (simp add: is_meta_row_def meta_record_def js_get_def)

lemma memory_create:
  "create_meta (memory_db_adapter env) ns n s =
     (Inr (), put_internal META (jmap_set (meta_id ns) (meta_record ns n) (internal_table META s)) s)"
proof -
  have "js_truthy (meta_id ns)" by (simp add: meta_id_def js_truthy_def)
  moreover have "js_get (meta_record ns n) ''id'' = meta_id ns" "jmap_set ''id'' (meta_id ns) (meta_record ns n) = meta_record ns n"
    by (simp_all add: meta_record_def js_get_def)
  moreover have "[(''id'', JStr (''meta:'' @ ns)), (''namespace'', JStr ns), (''next_server_seq'', JNum n)] = meta_record ns n"
    by (simp only: meta_record_def meta_id_def)
  ultimately show ?thesis by (simp add: create_meta_def internal_create_def id_or_new_def Let_def)
qed

lemma set_row_ok:
  assumes "meta_ok s" and "is_meta_row (meta_id ns) row ns n"
    and "s' = put_internal META (jmap_set (meta_id ns) row (internal_table META s)) s"
  shows "meta_ok s'" and "meta_issued s' ns = n - 1" and "m \<noteq> ns \<Longrightarrow> meta_issued s' m = meta_issued s m"
    and "meta_there s' ns" and "meta_there s \<le> meta_there s'"
proof -
  have table: "internal_table META s' = jmap_set (meta_id ns) row (internal_table META s)"
    by (simp add: assms(3) put_table)
  have ok: "jmap_ok (internal_table META s')" using assms(1) by (simp add: table meta_ok_def)
  have rows: "\<exists>m k. is_meta_row key x m k" if x: "(key, x) \<in> set (internal_table META s')" for key x
  proof -
    have get: "jmap_get (internal_table META s') key = Some x" using x ok by (simp add: jmap_get_in_set)
    show ?thesis
    proof (cases "key = meta_id ns")
      case False
      then have "(key, x) \<in> set (internal_table META s)"
        using get assms(1) by (simp add: table jmap_simps meta_ok_def jmap_get_in_set)
      then show ?thesis using assms(1) by (auto simp: meta_ok_def)
    qed (use get assms(2) in \<open>auto simp: table jmap_simps\<close>)
  qed
  show "meta_ok s'" using ok rows by (auto simp: meta_ok_def)
  show "meta_issued s' ns = n - 1" using meta_row_next [OF assms(2)] by (simp add: meta_issued_def table jmap_simps)
  show "m \<noteq> ns \<Longrightarrow> meta_issued s' m = meta_issued s m" by (simp add: meta_issued_def table jmap_simps)
  show "meta_there s' ns" and "meta_there s \<le> meta_there s'" by (auto simp: meta_there_get table jmap_simps)
qed

lemma memory_update:
  assumes "meta_ok s" and "jmap_get (internal_table META s) (meta_id ns) = Some row" and "meta_issued s ns = k - 1"
  shows "\<exists>c. update_meta (memory_db_adapter env) ns (seqnum k) n s =
    (Inr (Suc c), put_internal META (jmap_set (meta_id ns) (jmap_set ''next_server_seq'' (JNum n) row) (internal_table META s)) s)"
proof -
  let ?t = "internal_table META s" and ?b = "\<lambda>x :: jsval \<times> jsrec. fst x = meta_id ns"
  let ?w = "[internal_eq ''namespace'' (JStr ns), internal_eq ''next_server_seq'' (JNum (seqnum k))]"
  let ?f = "\<lambda>x :: jsval \<times> jsrec. [(fst x, spread (snd x) [(''next_server_seq'', JNum n)])]"
  obtain j where "is_meta_row (meta_id ns) row ns j" and "meta_issued s ns = j - 1" using meta_get [OF assms(1,2)] by blast
  then have r: "is_meta_row (meta_id ns) row ns k" using assms(3) by simp
  have ok: "jmap_ok ?t" using assms(1) by (simp add: meta_ok_def)
  have here: "(meta_id ns, row) \<in> set ?t" using assms(2) by (simp add: jmap_get_in_set [OF ok])
  have only: "fst x = meta_id ns \<longleftrightarrow> x = (meta_id ns, row)" if "x \<in> set ?t" for x
  proof
    assume "fst x = meta_id ns"
    then have "(meta_id ns, snd x) \<in> set ?t" using that by (metis prod.collapse)
    then have "snd x = row" using assms(2) by (simp add: jmap_get_in_set [OF ok, symmetric])
    then show "x = (meta_id ns, row)" using \<open>fst x = meta_id ns\<close> by (metis prod.collapse)
  qed simp
  have match: "internal_match (de_dtoa env) ?w x = Inr (?b x)" if x: "x \<in> set ?t" for x
  proof -
    have "\<exists>m j. is_meta_row (fst x) (snd x) m j" using assms(1) x by (cases x) (auto simp: meta_ok_def)
    then obtain m j where m: "is_meta_row (fst x) (snd x) m j" by blast
    have "j = k" if "m = ns"
    proof -
      have "fst x = meta_id ns" using m that by (simp add: is_meta_row_def)
      then have "snd x = row" using only [OF x] by simp
      then show ?thesis using m r by (simp add: is_meta_row_def)
    qed
    from number_matches [OF m this, where dtoa = "de_dtoa env"] show ?thesis by simp
  qed
  have "filter ?b ?t \<noteq> []" using here by (auto simp: filter_empty_conv intro!: bexI [of _ "(meta_id ns, row)"])
  then obtain c where c: "length (filter ?b ?t) = Suc c" by (cases "filter ?b ?t") auto
  have rows: "concat (map (\<lambda>x. if ?b x then ?f x else [x]) ?t) = jmap_set (meta_id ns) (jmap_set ''next_server_seq'' (JNum n) row) ?t"
    unfolding jmap_set_row [OF ok here] using only by (intro arg_cong [where f = concat] map_cong) (auto simp: spread_def)
  obtain t where t: "jmap_get (md_internal s) META = Some t" and same: "?t = t"
    using here by (cases "jmap_get (md_internal s) META") (auto simp: internal_table_def)
  have "internal_rewrite env META ?w ?f s =
      (Inr (Suc c), put_internal META (jmap_set (meta_id ns) (jmap_set ''next_server_seq'' (JNum n) row) ?t) s)"
    using rewrite_rows_map [where p = "internal_match (de_dtoa env) ?w" and b = ?b and f = ?f, OF match] c rows
    by (simp add: internal_rewrite_def t same)
  then show ?thesis by (simp add: update_meta_def affected_rows_def)
qed

interpretation meta_rows: sequence_rows "flaky (memory_db_adapter env)" "\<lambda>t. meta_ok (fst t)" "\<lambda>t. meta_there (fst t)" "\<lambda>t. meta_issued (fst t)"
    calm_calls for env
proof (unfold_locales, goal_cases)
  case (1 t ns)
  show ?case
  proof (cases "jmap_get (internal_table META (fst t)) (meta_id ns)")
    case (Some row)
    obtain n where "is_meta_row (meta_id ns) row ns n" "meta_issued (fst t) ns = n - 1" using meta_get [OF 1 Some] by blast
    then show ?thesis by (simp add: is_meta_row_def)
  qed (simp add: meta_issued_def)
next
  case (2 t ns)
  then show ?case by (auto simp: meta_there_get meta_issued_def)
next
  case (3 t q t')
  note calm = flaky_call_calm [OF 3(2) [unfolded ensure_meta_def]]
  from 3(2) show ?case unfolding ensure_meta_def
  proof (cases rule: flaky_call)
    case answered
    then have "internal_table META (fst t') = internal_table META (fst t)"
      using memory_ensure [of env "fst t" q "fst t'"] by (simp add: ensure_meta_def)
    then show ?thesis using 3(1) calm by (auto simp: meta_ok_def meta_issued_def meta_there_def)
  next
    case (refused e)
    then show ?thesis using 3(1) calm by simp
  next
    case (lost e r0)
    then have "internal_table META (fst t') = internal_table META (fst t)"
      using memory_ensure [of env "fst t" r0 "fst t'"] by (simp add: ensure_meta_def)
    then show ?thesis using 3(1) calm by (auto simp: meta_ok_def meta_issued_def meta_there_def)
  qed
next
  case (4 t ns f t')
  note found = memory_find [OF 4(1), of env ns]
  note calm = flaky_call_calm [OF 4(2) [unfolded find_meta_def]]
  from 4(2) show ?case unfolding find_meta_def
  proof (cases rule: flaky_call)
    case answered
    then have "find_meta (memory_db_adapter env) ns (fst t) = (f, fst t')" unfolding find_meta_def .
    then have f: "f = Inr (jmap_get (internal_table META (fst t)) (meta_id ns))" and same: "fst t' = fst t"
      using found by auto
    show ?thesis
    proof (cases "jmap_get (internal_table META (fst t)) (meta_id ns)")
      case None
      then show ?thesis using calm 4(1) by (simp add: f same meta_there_get)
    next
      case (Some row)
      obtain n where n: "is_meta_row (meta_id ns) row ns n" "meta_issued (fst t) ns = n - 1" using meta_get [OF 4(1) Some] by blast
      have "next_of row = seqnum (meta_issued (fst t) ns + 1)" using meta_row_next [OF n(1)] n(2) by simp
      then show ?thesis using calm 4(1) by (simp add: f same meta_there_get Some)
    qed
  next
    case (refused e)
    then show ?thesis using calm 4(1) by simp
  next
    case (lost e r0)
    from lost(2) have "find_meta (memory_db_adapter env) ns (fst t) = (r0, fst t')" unfolding find_meta_def .
    then have "fst t' = fst t" using found by simp
    then show ?thesis using calm 4(1) lost by simp
  qed
next
  case (5 t ns n c t')
  have row: "is_meta_row (meta_id ns) (meta_record ns (seqnum (n + 1))) ns (n + 1)" using 5(3) by (intro meta_record_ok) simp
  note stored = set_row_ok [OF 5(1) row refl]
  have none: "meta_issued (fst t) ns = 0" using 5(2) by (simp add: meta_there_get meta_issued_def)
  note created = memory_create [of env ns "seqnum (n + 1)" "fst t"]
  note calm = flaky_call_calm [OF 5(4) [unfolded create_meta_def]]
  from 5(4) show ?case unfolding create_meta_def
  proof (cases rule: flaky_call)
    case answered
    from answered [folded create_meta_def] show ?thesis using calm created stored by simp
  next
    case (refused e)
    then show ?thesis using calm 5(1,2) none by simp
  next
    case (lost e r0)
    from lost(2) [folded create_meta_def] show ?thesis using calm created stored lost(1) by simp
  qed
next
  case (6 t ns n u t')
  obtain row where get: "jmap_get (internal_table META (fst t)) (meta_id ns) = Some row" using 6(2) by (auto simp: meta_there_get)
  obtain k where k: "is_meta_row (meta_id ns) row ns k" "meta_issued (fst t) ns = k - 1" using meta_get [OF 6(1) get] by blast
  have row: "is_meta_row (meta_id ns) (jmap_set ''next_server_seq'' (JNum (seqnum (n + 1))) row) ns (n + 1)"
    using k 6(3) by (auto simp: is_meta_row_def jmap_simps)
  note stored = set_row_ok [OF 6(1) row refl]
  have number: "meta_issued (fst t) ns + 1 = k" using k(2) by simp
  obtain c where updated: "update_meta (memory_db_adapter env) ns (seqnum (meta_issued (fst t) ns + 1)) (seqnum (n + 1)) (fst t) =
      (Inr (Suc c), put_internal META (jmap_set (meta_id ns) (jmap_set ''next_server_seq'' (JNum (seqnum (n + 1))) row)
        (internal_table META (fst t))) (fst t))"
    unfolding number using memory_update [OF 6(1) get k(2)] by blast
  note calm = flaky_call_calm [OF 6(4) [unfolded update_meta_def]]
  from 6(4) show ?case unfolding update_meta_def
  proof (cases rule: flaky_call)
    case answered
    from answered [folded update_meta_def] show ?thesis using calm updated stored by auto
  next
    case (refused e)
    then show ?thesis using calm 6(1) by simp
  next
    case (lost e r0)
    from lost(2) [folded update_meta_def] show ?thesis using calm updated stored lost(1) by simp
  qed
qed

section \<open>The counters of the in-memory atomic store\<close>

definition kv_counter :: "(rat \<Rightarrow> string) \<Rightarrow> jsnum \<Rightarrow> (kv_store \<times> outage list) counter" where
  "kv_counter dtoa now = \<lparr>
     ct_get = flaky (\<lambda>key k. case akv_read now key k of (v, k') \<Rightarrow> (Inr v, k')),
     ct_incr = (\<lambda>key n. flaky (\<lambda>key k. case akv_incr dtoa now key (Some n) None k of (v, k') \<Rightarrow> (Inr v, k')) key),
     ct_healthy = (\<lambda>t. case t of
        (k, Refused # fs) \<Rightarrow> (Inr False, k, fs)
      | _ \<Rightarrow> flaky (\<lambda>_ k. (Inr True, k)) () t)\<rparr>"

definition kv_counters :: "kv_store \<Rightarrow> bool" where
  "kv_counters k \<longleftrightarrow> (\<forall>ns e. jmap_get k (seq_key ns) = Some e \<longrightarrow>
     kv_expires e = None \<and> (\<exists>n. 0 \<le> n \<and> n < PRINTED \<and> kv_value e = int_to_string n))"

definition kv_counted :: "kv_store \<Rightarrow> string \<Rightarrow> int" where
  "kv_counted k key = (case jmap_get k key of None \<Rightarrow> 0
     | Some e \<Rightarrow> (case js_parse_int (kv_value e) of Fin a \<Rightarrow> \<lfloor>a\<rfloor> | _ \<Rightarrow> 0))"

lemma digit_not_ws: "is_digit c \<Longrightarrow> \<not> is_js_ws c"
  by (auto simp: is_digit_def is_js_ws_def)

lemma takeWhile_all: "list_all P xs \<Longrightarrow> takeWhile P xs = xs" "list_all P xs \<Longrightarrow> dropWhile P xs = []"
  by (induction xs) auto

lemma dropWhile_none: "list_all (\<lambda>x. \<not> P x) xs \<Longrightarrow> dropWhile P xs = xs"
  by (cases xs) auto

lemma digits_ws: "list_all (\<lambda>c. \<not> is_js_ws c) (digits_of n)"
  using digits_of_is_digit [of n] digit_not_ws by (auto simp: list_all_iff)

lemma starts_with_digits: "\<not> is_digit c \<Longrightarrow> \<not> starts_with (digits_of n) (c # cs)"
proof
  assume "\<not> is_digit c" and "starts_with (digits_of n) (c # cs)"
  then have "c \<in> set (digits_of n)" by (cases "digits_of n") (auto simp: starts_with_def)
  then show False using \<open>\<not> is_digit c\<close> digits_of_is_digit [of n] by (auto simp: list_all_iff)
qed

lemma parse_int_print: "0 \<le> n \<Longrightarrow> js_parse_int (int_to_string n) = seqnum n"
proof -
  assume "0 \<le> n"
  then have n: "int_to_string n = digits_of (nat n)" by (simp add: int_to_string_def)
  have sign: "\<not> starts_with (digits_of (nat n)) ''-''" "\<not> starts_with (digits_of (nat n)) ''+''"
    by (rule starts_with_digits; simp add: is_digit_def)+
  have digits: "takeWhile is_digit (digits_of (nat n)) = digits_of (nat n)" by (rule takeWhile_all [OF digits_of_is_digit])
  show ?thesis using \<open>0 \<le> n\<close>
    by (simp add: js_parse_int_def n dropWhile_none [OF digits_ws] sign digits digits_of_nonempty digits_value_digits_of seqnum_def Let_def)
qed

lemma radix_prefix: "\<not> is_digit c \<Longrightarrow> \<not> starts_with (digits_of n) [CHR ''0'', c]"
proof
  assume "\<not> is_digit c" and s: "starts_with (digits_of n) [CHR ''0'', c]"
  then have "c \<in> set (digits_of n)"
    by (cases "digits_of n"; cases "tl (digits_of n)") (auto simp: starts_with_def)
  then show False using \<open>\<not> is_digit c\<close> digits_of_is_digit [of n] by (auto simp: list_all_iff)
qed

lemma trim_digits: "js_trim (digits_of n) = digits_of n"
proof -
  have "list_all (\<lambda>c. \<not> is_js_ws c) (rev (digits_of n))" using digits_ws [of n] by (simp add: list_all_iff)
  then show ?thesis by (simp add: js_trim_def dropWhile_none [OF digits_ws] dropWhile_none)
qed

lemma digits_decimal: "decimal_value (digits_of n) = Fin (of_nat n)"
proof -
  have "digits_of n \<noteq> ''Infinity''" using digits_of_is_digit [of n] by (auto simp: list_all_iff is_digit_def)
  then show ?thesis
    by (simp add: decimal_value_def takeWhile_all [OF digits_of_is_digit] Let_def digits_value_digits_of digits_of_nonempty starts_with_def parse_exp_part_def)
qed

lemma number_print: "0 \<le> n \<Longrightarrow> string_to_number (int_to_string n) = seqnum n"
proof -
  assume "0 \<le> n"
  then have n: "int_to_string n = digits_of (nat n)" by (simp add: int_to_string_def)
  have prefix: "\<not> starts_with (digits_of (nat n)) ''0x''" "\<not> starts_with (digits_of (nat n)) ''0X''"
    "\<not> starts_with (digits_of (nat n)) ''0o''" "\<not> starts_with (digits_of (nat n)) ''0O''"
    "\<not> starts_with (digits_of (nat n)) ''0b''" "\<not> starts_with (digits_of (nat n)) ''0B''"
    by (rule radix_prefix; simp add: is_digit_def)+
  have sign: "\<not> starts_with (digits_of (nat n)) ''-''" "\<not> starts_with (digits_of (nat n)) ''+''"
    by (rule starts_with_digits; simp add: is_digit_def)+
  show ?thesis using \<open>0 \<le> n\<close>
    by (simp add: string_to_number_def n trim_digits prefix sign digits_of_nonempty digits_decimal seqnum_def Let_def)
qed

lemma kv_cases:
  assumes "kv_counters k"
  obtains (absent) "jmap_get k (seq_key ns) = None" "kv_counted k (seq_key ns) = 0"
  | (there) e where "jmap_get k (seq_key ns) = Some e" "kv_expires e = None" "0 \<le> kv_counted k (seq_key ns)"
      "kv_value e = int_to_string (kv_counted k (seq_key ns))"
proof (cases "jmap_get k (seq_key ns)")
  case (Some e)
  then obtain n where n: "0 \<le> n" "kv_expires e = None" "kv_value e = int_to_string n" using assms by (auto simp: kv_counters_def)
  then have "kv_counted k (seq_key ns) = n" using Some parse_int_print [OF n(1)] by (simp add: kv_counted_def) (simp add: seqnum_def)
  then show thesis using that(2) Some n by simp
qed (use that(1) in \<open>simp add: kv_counted_def\<close>)

lemma kv_read:
  assumes "kv_counters k"
  shows "akv_read now (seq_key ns) k = (map_option kv_value (jmap_get k (seq_key ns)), k)"
  using kv_cases [OF assms, of ns] by cases (simp_all add: akv_read_def akv_expired_def)

lemma kv_nonneg: "kv_counters k \<Longrightarrow> 0 \<le> kv_counted k (seq_key ns)"
  by (rule kv_cases [of k ns]) simp_all

lemma seq_key_inj [simp]: "seq_key m = seq_key n \<longleftrightarrow> m = n"
  by (simp add: seq_key_def)

lemma int_to_string_nonempty: "0 \<le> n \<Longrightarrow> int_to_string n \<noteq> []"
  by (simp add: int_to_string_def digits_of_nonempty)

lemma kv_incr:
  assumes "kv_counters k" and "1 \<le> m" and "kv_counted k (seq_key ns) + m < PRINTED"
  shows "\<exists>k'. akv_incr dtoa now (seq_key ns) (Some (seqnum m)) None k = (seqnum (kv_counted k (seq_key ns) + m), k') \<and>
    kv_counters k' \<and> kv_counted k' (seq_key ns) = kv_counted k (seq_key ns) + m"
proof -
  let ?n = "kv_counted k (seq_key ns)"
  let ?e = "\<lparr>kv_value = int_to_string (?n + m), kv_expires = None\<rparr>"
  have n: "0 \<le> ?n" by (rule kv_nonneg [OF assms(1)])
  have zero: "int_to_string 0 = ''0''" by (simp add: int_to_string_def digits_of.simps) (simp add: char_of_def bit_0)
  have current: "string_to_number (case map_option kv_value (jmap_get k (seq_key ns)) of None \<Rightarrow> ''0'' | Some s \<Rightarrow> s) = seqnum ?n"
    using kv_cases [OF assms(1), of ns] number_print [OF n] number_print [of 0] by cases (simp_all add: zero)
  have print: "num_to_string dtoa (seqnum (?n + m)) = int_to_string (?n + m)"
    unfolding seqnum_def using n assms(2,3) by (intro num_to_string_int) (simp add: PRINTED_def)
  have run: "akv_incr dtoa now (seq_key ns) (Some (seqnum m)) None k = (seqnum (?n + m), jmap_set (seq_key ns) ?e k)"
    unfolding akv_incr_def kv_read [OF assms(1)] prod.case Let_def current option.case by (simp add: print akv_write_def)
  have ok: "kv_counters (jmap_set (seq_key ns) ?e k)"
    using assms n by (auto simp: kv_counters_def jmap_simps intro!: exI [of _ "?n + m"])
  have "kv_counted (jmap_set (seq_key ns) ?e k) (seq_key ns) = ?n + m"
    using parse_int_print [of "?n + m"] n assms(2) by (simp add: kv_counted_def jmap_simps) (simp add: seqnum_def)
  then show ?thesis using run ok by blast
qed

interpretation kv_counting: counting "kv_counter dtoa now" "\<lambda>t. kv_counters (fst t)" "\<lambda>t. kv_counted (fst t)" for dtoa now
proof (unfold_locales, goal_cases)
  case (1 t h t')
  then show ?case by (cases t; cases "snd t"; cases "hd (snd t)") (auto simp: kv_counter_def flaky_def)
next
  case (2 t ns g t')
  have get: "flaky (\<lambda>key k. case akv_read now key k of (v, k') \<Rightarrow> (Inr v, k')) (seq_key ns) t = (g, t')"
    using 2(2) by (simp add: kv_counter_def)
  have read: "(case akv_read now (seq_key ns) (fst t) of (v, k') \<Rightarrow> (Inr v, k')) =
      (Inr (map_option kv_value (jmap_get (fst t) (seq_key ns))) :: db_error + string option, fst t)"
    by (simp add: kv_read [OF 2(1)])
  from get show ?case
  proof (cases rule: flaky_plain)
    case answered
    then have g: "g = Inr (map_option kv_value (jmap_get (fst t) (seq_key ns)))" and same: "fst t' = fst t" using read by auto
    from kv_cases [OF 2(1), of ns] show ?thesis
      by cases (use 2(1) same in \<open>simp_all add: g parse_int_print int_to_string_nonempty\<close>)
  next
    case (refused e)
    then show ?thesis using 2(1) by simp
  next
    case (lost e r0)
    then have "fst t' = fst t" using read by simp
    then show ?thesis using 2(1) lost by simp
  qed
next
  case (3 t m ns i t')
  obtain k' where k': "akv_incr dtoa now (seq_key ns) (Some (seqnum m)) None (fst t) = (seqnum (kv_counted (fst t) (seq_key ns) + m), k')"
    "kv_counters k'" "kv_counted k' (seq_key ns) = kv_counted (fst t) (seq_key ns) + m"
    using kv_incr [OF 3(1-3)] by blast
  let ?f = "\<lambda>key k. case akv_incr dtoa now key (Some (seqnum m)) None k of (v, k') \<Rightarrow> (Inr v, k')"
  have "flaky ?f (seq_key ns) t = (i, t')" using 3(4) by (simp add: kv_counter_def)
  then show ?case
  proof (cases rule: flaky_plain)
    case answered
    then show ?thesis using k' by auto
  next
    case (refused e)
    then show ?thesis using 3(1) by simp
  next
    case (lost e r0)
    then show ?thesis using k' by auto
  qed
qed

interpretation server_sequence: failover "flaky (memory_db_adapter env)" "\<lambda>t. meta_ok (fst t)" "\<lambda>t. meta_there (fst t)" "\<lambda>t. meta_issued (fst t)"
    calm_calls "kv_counter dtoa now" "\<lambda>t. kv_counters (fst t)" "\<lambda>t. kv_counted (fst t)" for env dtoa now
  by unfold_locales

end
