(* ===== verification/SequenceProperties.thy ===== *)
theory SequenceProperties
  imports SequenceStores
begin

text \<open>
  What the sequence numbers of a server promise over all histories of requests, failures, lost
  counters and restarts, and the failure of a first write that breaks the promise.
\<close>

section \<open>Histories of a server\<close>

text \<open>
  The server over the in-memory stores: requests, answered or failed, with any calls of the two
  stores failing; between requests the failures to come are set, the counters are replaced by
  others, lost or moved on by another process, and the server is restarted. Requests are made while
  the numbers print as decimals, and for a namespace that has no row yet only while no database call
  to come is refused (answers may still be lost): \<open>high_water_lost\<close> shows why.
\<close>

type_synonym server = "(memory_db \<times> outage list, kv_store \<times> outage list) seq_state"

definition server_number :: "db_env \<Rightarrow> jsnum \<Rightarrow> string \<Rightarrow> jsnum \<Rightarrow> server \<Rightarrow> ((db_error + jsnum list) \<times> server) option" where
  "server_number env now = chained_get_next_n (flaky (memory_db_adapter env)) (kv_counter (de_dtoa env) now)"

definition ready_for :: "string \<Rightarrow> server \<Rightarrow> bool" where
  "ready_for ns w \<longleftrightarrow> (meta_there (fst (fst (sq_db w))) ns \<or> calm_calls (fst (sq_db w))) \<and> meta_issued (fst (fst (sq_db w))) ns + 1000 < PRINTED \<and>
     kv_counted (fst (sq_atomic w)) (seq_key ns) + 1000 < PRINTED"

inductive seq_history :: "db_env \<Rightarrow> server \<Rightarrow> (string \<times> jsnum list) list \<Rightarrow> server \<Rightarrow> bool" for env w0 where
  start: "seq_history env w0 [] w0"
| answered: "seq_history env w0 tr w \<Longrightarrow> ready_for ns w \<Longrightarrow> server_number env now ns n w = Some (Inr xs, w') \<Longrightarrow>
    seq_history env w0 (tr @ [(ns, xs)]) w'"
| failed: "seq_history env w0 tr w \<Longrightarrow> ready_for ns w \<Longrightarrow> server_number env now ns n w = Some (Inl e, w') \<Longrightarrow>
    seq_history env w0 tr w'"
| outages: "seq_history env w0 tr w \<Longrightarrow>
    seq_history env w0 tr (w\<lparr>sq_db := ((fst (fst (sq_db w)), fs), snd (sq_db w)), sq_atomic := (fst (sq_atomic w), gs)\<rparr>)"
| replaced: "seq_history env w0 tr w \<Longrightarrow> kv_counters k \<Longrightarrow> seq_history env w0 tr (w\<lparr>sq_atomic := (k, [])\<rparr>)"
| restarted: "seq_history env w0 tr w \<Longrightarrow> seq_history env w0 tr (w\<lparr>sq_db := (fst (sq_db w), False), sq_known := []\<rparr>)"

definition server_start :: "memory_db \<Rightarrow> kv_store \<Rightarrow> server" where
  "server_start db k = \<lparr>sq_db = ((db, []), False), sq_atomic = (k, []), sq_known = []\<rparr>"

definition numbers_of :: "string \<Rightarrow> (string \<times> jsnum list) list \<Rightarrow> jsnum list" where
  "numbers_of ns tr = concat (map snd (filter (\<lambda>(m, _). m = ns) tr))"

abbreviation server_ok :: "server \<Rightarrow> bool" where
  "server_ok \<equiv> server_sequence.chain_ok"

abbreviation server_issued :: "string \<Rightarrow> server \<Rightarrow> int" where
  "server_issued ns w \<equiv> meta_issued (fst (fst (sq_db w))) ns"

lemma server_ok_iff: "server_ok w \<longleftrightarrow> meta_ok (fst (fst (sq_db w))) \<and> kv_counters (fst (sq_atomic w)) \<and> server_sequence.known_ok w"
  by (simp add: server_sequence.chain_ok_def)

lemma request:
  assumes "server_ok w" and "ready_for ns w"
  obtains r w' where "server_number env now ns n w = Some (r, w')" and "server_ok w'"
    and "\<And>m. server_issued m w \<le> server_issued m w'" and "\<And>m. m \<noteq> ns \<Longrightarrow> server_issued m w' = server_issued m w"
    and "\<And>xs. r = Inr xs \<Longrightarrow> \<exists>a k. server_issued ns w \<le> a \<and> n = seqnum k \<and> xs = range_of (a + 1) (a + k) \<and> a + k \<le> server_issued ns w'"
proof -
  note bounds = assms(2) [unfolded ready_for_def]
  have "server_sequence.advances ns w (server_number env now ns n w)
      (server_sequence.fresh_range (server_issued ns w) ns n)"
    using server_sequence.request_advances [OF assms(1), of ns env "de_dtoa env" now n] bounds
    unfolding server_number_def server_sequence.highest_issued_def server_sequence.number_count_def meta_rows.marked_def by simp
  then obtain r w' where run: "server_number env now ns n w = Some (r, w')" and moved: "server_sequence.moved ns w w'"
    and fresh: "\<forall>xs. r = Inr xs \<longrightarrow> server_sequence.fresh_range (server_issued ns w) ns n xs w'"
    unfolding server_sequence.advances_def by blast
  show thesis
  proof (rule that [OF run])
    show "server_ok w'" using moved by (simp add: server_sequence.moved_def)
    show "server_issued m w \<le> server_issued m w'" for m
      using server_sequence.moved_highest [OF moved] by (simp add: server_sequence.highest_issued_def)
    show "server_issued m w' = server_issued m w" if "m \<noteq> ns" for m
      using moved that by (simp add: server_sequence.moved_def meta_rows.grown_def)
    show "\<exists>a k. server_issued ns w \<le> a \<and> n = seqnum k \<and> xs = range_of (a + 1) (a + k) \<and> a + k \<le> server_issued ns w'" if "r = Inr xs" for xs
      using fresh that by (simp add: server_sequence.fresh_range_def server_sequence.highest_issued_def)
  qed
qed

lemma history_increases:
  assumes "seq_history env (server_start db k) tr w" and "meta_ok db" and "kv_counters k"
  shows "server_ok w \<and> (\<forall>ns. \<exists>is. numbers_of ns tr = map seqnum is \<and> sorted_wrt (<) is \<and> (\<forall>i \<in> set is. i \<le> server_issued ns w))"
  using assms
proof (induction rule: seq_history.induct)
  case start
  then show ?case by (simp add: server_ok_iff server_start_def server_sequence.known_ok_def numbers_of_def)
next
  case (answered tr w ns now n xs w')
  then have w: "server_ok w" by blast
  obtain a j where w': "server_ok w'" and mono: "\<And>m. server_issued m w \<le> server_issued m w'"
    and fresh: "server_issued ns w \<le> a" "xs = range_of (a + 1) (a + j)" "a + j \<le> server_issued ns w'"
    using request [OF w answered.hyps(2), of env now n] answered.hyps(3) by (metis option.inject prod.inject)
  have "\<exists>is. numbers_of m (tr @ [(ns, xs)]) = map seqnum is \<and> sorted_wrt (<) is \<and> (\<forall>i \<in> set is. i \<le> server_issued m w')" for m
  proof -
    obtain js where js: "numbers_of m tr = map seqnum js" "sorted_wrt (<) js" "\<forall>i \<in> set js. i \<le> server_issued m w"
      using answered.IH answered.prems by blast
    show ?thesis
    proof (cases "m = ns")
      case True
      have "sorted_wrt (<) (js @ [a + 1..a + j])" using js(2,3) fresh(1) True by (auto simp: sorted_wrt_append)
      moreover have "\<forall>i \<in> set (js @ [a + 1..a + j]). i \<le> server_issued m w'"
        using js(3) mono [of m] fresh(3) True by fastforce
      ultimately show ?thesis using js(1) fresh(2) True
        by (intro exI [of _ "js @ [a + 1..a + j]"]) (simp add: numbers_of_def range_of_def)
    next
      case False
      then show ?thesis using js mono [of m] by (intro exI [of _ js]) (auto simp: numbers_of_def)
    qed
  qed
  then show ?case using w' by blast
next
  case (failed tr w ns now n e w')
  then have w: "server_ok w" by blast
  have "server_ok w' \<and> (\<forall>m. server_issued m w \<le> server_issued m w')"
    using request [OF w failed.hyps(2), of env now n] failed.hyps(3) by (metis option.inject prod.inject)
  then show ?case using failed.IH failed.prems by (meson order_trans)
next
  case (outages tr w fs gs)
  then show ?case by (simp add: server_ok_iff server_sequence.known_ok_def)
next
  case (replaced tr w k')
  then show ?case by (simp add: server_ok_iff server_sequence.known_ok_def)
next
  case (restarted tr w)
  then show ?case by (simp add: server_ok_iff server_sequence.known_ok_def)
qed

text \<open>
  C4: No namespace gets a sequence number twice: in every history of requests, refused calls and
  lost answers of either store, lost or foreign counters and restarts, in which a namespace makes
  its first requests, until it has its row, while no database call is refused, and the numbers stay
  below \<open>10 ^ 21 - 1000\<close>, the numbers given out increase; and every such request returns.
\<close>

theorem sequence_numbers_never_repeat:
  assumes "seq_history env (server_start db k) tr w" and "meta_ok db" and "kv_counters k"
  shows "(\<exists>is. numbers_of ns tr = map seqnum is \<and> sorted_wrt (<) is) \<and>
    (ready_for ns w \<longrightarrow> server_number env now ns n w \<noteq> None)"
proof -
  note history = history_increases [OF assms]
  show ?thesis using history request [of w ns env now n] by (metis option.discI)
qed

definition seq_env :: db_env where
  "seq_env = \<lparr>de_dtoa = (\<lambda>_. []), de_uuid = (\<lambda>_. ''u''),
     de_naming = \<lparr>nc_enabled = False, nc_separator = [], nc_prefix = None, nc_schema_support = False\<rparr>\<rparr>"

definition first_state :: server where
  "first_state = (server_start empty_db [])\<lparr>sq_db := ((empty_db, []), False), sq_atomic := ([], [Refused])\<rparr>"

definition second_state :: server where
  "second_state = snd (the (server_number seq_env (Fin 0) ''a'' (Fin 2) first_state))"

lemma first_request: "server_number seq_env (Fin 0) ''a'' (Fin 2) first_state = Some (Inr (range_of 1 2), second_state)"
proof -
  have "map_option fst (server_number seq_env (Fin 0) ''a'' (Fin 2) first_state) = Some (Inr (range_of 1 2))" by code_simp
  then show ?thesis by (auto simp: second_state_def)
qed

definition third_state :: server where
  "third_state = snd (the (server_number seq_env (Fin 0) ''a'' (Fin 1) second_state))"

lemma second_request: "server_number seq_env (Fin 0) ''a'' (Fin 1) second_state = Some (Inr (range_of 3 3), third_state)"
proof -
  have "map_option fst (server_number seq_env (Fin 0) ''a'' (Fin 1) second_state) = Some (Inr (range_of 3 3))" by code_simp
  then show ?thesis by (auto simp: third_state_def)
qed

lemma ready_states: "ready_for ''a'' first_state" "ready_for ''a'' second_state"
  by code_simp+

theorem sequence_numbers_never_repeat_witness:
  "\<exists>is. numbers_of ''a'' [(''a'', range_of 1 2), (''a'', range_of 3 3)] = map seqnum is \<and> sorted_wrt (<) is"
proof -
  have one: "seq_history seq_env (server_start empty_db []) [] first_state"
    using seq_history.outages [OF seq_history.start, of seq_env "server_start empty_db []" "[Refused]" "[]"]
    by (simp add: first_state_def server_start_def)
  have two: "seq_history seq_env (server_start empty_db []) ([] @ [(''a'', range_of 1 2)]) second_state"
    by (rule seq_history.answered [OF one ready_states(1) first_request])
  have three: "seq_history seq_env (server_start empty_db []) (([] @ [(''a'', range_of 1 2)]) @ [(''a'', range_of 3 3)]) third_state"
    by (rule seq_history.answered [OF two ready_states(2) second_request])
  have db: "meta_ok empty_db" and kv: "kv_counters []"
    by (auto simp: meta_ok_def empty_db_def internal_table_def kv_counters_def intro!: exI meta_record_ok)
  show ?thesis using sequence_numbers_never_repeat [OF three db kv, of "''a''"] by simp
qed

text \<open>
  Where the code departs from its intent: when the first row of a namespace cannot be created,
  \<open>ensureMinSeq\<close> takes the missing row for one that holds 1, updates no row and does not look at the
  count. The atomic store's first number is given out without a trace in the database, and after
  a restart with the atomic store down the database gives it out again.
\<close>

definition created_refused :: server where
  "created_refused = \<lparr>sq_db = ((empty_db, [Fine, Fine, Fine, Refused]), False), sq_atomic = ([], []), sq_known = []\<rparr>"

definition restarted_without :: "server \<Rightarrow> server" where
  "restarted_without w = w\<lparr>sq_db := (fst (sq_db w), False), sq_known := [], sq_atomic := (fst (sq_atomic w), [Refused])\<rparr>"

theorem high_water_lost:
  "map_option (\<lambda>(r, w). (r, map_option fst (server_number seq_env (Fin 0) ''a'' (Fin 1) (restarted_without w))))
     (server_number seq_env (Fin 0) ''a'' (Fin 1) created_refused) = Some (Inr [Fin 1], Some (Inr [Fin 1]))"
  by code_simp

end
