(* ===== verification/ClientStorage.thy ===== *)
theory ClientStorage
  imports DbMemory
begin

text \<open>
  The client's in-memory storage, \<open>datafn/client/src/adapters/memoryStorage.ts\<close> with the validation
  of \<open>adapters/shared.ts\<close>: records and join rows per table, cursors, hydration states and the
  changelog of local mutations. A thrown error is its message. A JavaScript \<open>Map\<close> of records is
  keyed by whatever the record's id is.
\<close>

section \<open>State\<close>

datatype hydration = NotStarted | Hydrating | Ready

definition hydration_name :: "hydration \<Rightarrow> string" where
  "hydration_name h = (case h of NotStarted \<Rightarrow> ''notStarted'' | Hydrating \<Rightarrow> ''hydrating'' | Ready \<Rightarrow> ''ready'')"

record client_storage =
  cs_records :: "(string, table) jmap"
  cs_joins :: "(string, (string, jsrec) jmap) jmap"
  cs_cursors :: "(string, string) jmap"
  cs_hydration :: "(string, hydration) jmap"
  cs_changelog :: "(nat \<times> jsrec) list"
  cs_next :: nat
  cs_index :: "(string, nat \<times> jsrec) jmap"
  cs_valid :: "string jset option"

definition KV_RESOURCE :: string where "KV_RESOURCE = ''kv''"
definition TIMEZONE_RESOURCE :: string where "TIMEZONE_RESOURCE = ''datafnTimezoneChange''"

definition new_storage :: "string list option \<Rightarrow> client_storage" where
  "new_storage resources =
     \<lparr>cs_records = [(''kv'', []), (TIMEZONE_RESOURCE, [])], cs_joins = [], cs_cursors = [], cs_hydration = [],
      cs_changelog = [], cs_next = 1, cs_index = [],
      cs_valid = map_option (\<lambda>rs. jset_add TIMEZONE_RESOURCE (jset_add KV_RESOURCE (js_unique rs))) resources\<rparr>"

definition invalid_table :: "string \<Rightarrow> client_storage \<Rightarrow> bool" where
  "invalid_table name s = (case cs_valid s of None \<Rightarrow> False | Some names \<Rightarrow> name \<notin> set names)"

definition unknown_table :: "string \<Rightarrow> string" where "unknown_table name = ''Unknown table: '' @ name"

definition on_table :: "string \<Rightarrow> client_storage \<Rightarrow> (string + 'a) \<times> client_storage \<Rightarrow> (string + 'a) \<times> client_storage" where
  "on_table name s result = (if invalid_table name s then (Inl (unknown_table name), s) else result)"

definition records_of :: "string \<Rightarrow> client_storage \<Rightarrow> table" where
  "records_of name s = (case jmap_get (cs_records s) name of None \<Rightarrow> [] | Some t \<Rightarrow> t)"

definition put_records :: "string \<Rightarrow> table \<Rightarrow> client_storage \<Rightarrow> client_storage" where
  "put_records name t s = s\<lparr>cs_records := jmap_set name t (cs_records s)\<rparr>"

definition ensure_records :: "string \<Rightarrow> client_storage \<Rightarrow> client_storage" where
  "ensure_records name s = (if jmap_has (cs_records s) name then s else put_records name [] s)"

section \<open>Records\<close>

definition by_text :: "(rat \<Rightarrow> string) \<Rightarrow> ('a \<Rightarrow> jsval) \<Rightarrow> 'a \<Rightarrow> 'a \<Rightarrow> int" where
  "by_text dtoa f a b = (if js_lt dtoa (f a) (f b) then - 1 else if js_lt dtoa (f b) (f a) then 1 else 0)"

definition text_member :: "string \<Rightarrow> jsrec \<Rightarrow> jsval" where
  "text_member k r = (if js_truthy (js_get r k) then js_get r k else JStr [])"

definition get_record :: "string \<Rightarrow> jsval \<Rightarrow> client_storage \<Rightarrow> (string + jsrec option) \<times> client_storage" where
  "get_record name i s = on_table name s (Inr (jmap_get (records_of name s) i), s)"

definition list_records :: "(rat \<Rightarrow> string) \<Rightarrow> string \<Rightarrow> client_storage \<Rightarrow> (string + jsrec list) \<times> client_storage" where
  "list_records dtoa name s =
     on_table name s (Inr (js_sort (by_text dtoa (text_member ''id'')) (jmap_values (records_of name s))), s)"

definition find_records ::
  "(rat \<Rightarrow> string) \<Rightarrow> string \<Rightarrow> string \<Rightarrow> jsval \<Rightarrow> client_storage \<Rightarrow> (string + jsrec list) \<times> client_storage" where
  "find_records dtoa name f v s =
     on_table name s (Inr (js_sort (by_text dtoa (text_member ''id''))
       (filter (\<lambda>r. js_seq (js_get r f) v) (jmap_values (records_of name s)))), s)"

definition missing_id :: string where "missing_id = ''Record missing id''"

definition upsert_record :: "string \<Rightarrow> jsrec \<Rightarrow> client_storage \<Rightarrow> (string + unit) \<times> client_storage" where
  "upsert_record name r s =
     on_table name s
       (let s1 = ensure_records name s;
            i = js_get r ''id''
        in if \<not> js_truthy i then (Inl missing_id, s1)
           else (Inr (), put_records name (jmap_set i r (records_of name s1)) s1))"

definition delete_record :: "string \<Rightarrow> jsval \<Rightarrow> client_storage \<Rightarrow> (string + unit) \<times> client_storage" where
  "delete_record name i s =
     on_table name s
       (Inr (), case jmap_get (cs_records s) name of None \<Rightarrow> s | Some t \<Rightarrow> put_records name (jmap_del i t) s)"

definition merge_value :: "jsval \<Rightarrow> jsval \<Rightarrow> jsval" where
  "merge_value tv sv = (case (tv, sv) of (JObj t, JObj r) \<Rightarrow> JObj (spread t r) | _ \<Rightarrow> sv)"

definition deep_merge :: "jsrec \<Rightarrow> jsrec \<Rightarrow> jsrec" where
  "deep_merge target source =
     foldl (\<lambda>acc k. jmap_set k (merge_value (js_get target k) (js_get source k)) acc) target (jmap_keys source)"

definition merge_record ::
  "string \<Rightarrow> jsval \<Rightarrow> jsrec \<Rightarrow> jsrec option \<Rightarrow> client_storage \<Rightarrow> (string + jsrec) \<times> client_storage" where
  "merge_record name i partial ifMissing s =
     on_table name s
       (if \<not> js_truthy i then (Inl missing_id, s)
        else
          (let s1 = ensure_records name s;
               merged = jmap_set ''id'' i
                 (case jmap_get (records_of name s1) i of
                    Some existing \<Rightarrow> deep_merge existing partial
                  | None \<Rightarrow> spread [] (case ifMissing of Some r \<Rightarrow> r | None \<Rightarrow> partial))
           in (Inr merged, put_records name (jmap_set i merged (records_of name s1)) s1)))"

definition count_records :: "string \<Rightarrow> client_storage \<Rightarrow> (string + nat) \<times> client_storage" where
  "count_records name s = on_table name s (Inr (length (records_of name s)), s)"

section \<open>Join rows\<close>

definition joins_of :: "string \<Rightarrow> client_storage \<Rightarrow> (string, jsrec) jmap" where
  "joins_of name s = (case jmap_get (cs_joins s) name of None \<Rightarrow> [] | Some t \<Rightarrow> t)"

definition put_joins :: "string \<Rightarrow> (string, jsrec) jmap \<Rightarrow> client_storage \<Rightarrow> client_storage" where
  "put_joins name t s = s\<lparr>cs_joins := jmap_set name t (cs_joins s)\<rparr>"

definition join_key :: "(rat \<Rightarrow> string) \<Rightarrow> jsrec \<Rightarrow> string" where
  "join_key dtoa row = js_string dtoa (js_get row ''from'') @ '':'' @ js_string dtoa (js_get row ''to'')"

definition list_join_rows :: "(rat \<Rightarrow> string) \<Rightarrow> string \<Rightarrow> client_storage \<Rightarrow> jsrec list" where
  "list_join_rows dtoa name s = js_sort (by_text dtoa (\<lambda>row. JStr (join_key dtoa row))) (jmap_values (joins_of name s))"

definition get_join_rows :: "(rat \<Rightarrow> string) \<Rightarrow> string \<Rightarrow> string \<Rightarrow> client_storage \<Rightarrow> jsrec list" where
  "get_join_rows dtoa name from_id s =
     js_sort (by_text dtoa (text_member ''to'')) (filter (\<lambda>row. js_get row ''from'' = JStr from_id) (jmap_values (joins_of name s)))"

definition get_join_rows_inverse :: "(rat \<Rightarrow> string) \<Rightarrow> string \<Rightarrow> string \<Rightarrow> client_storage \<Rightarrow> jsrec list" where
  "get_join_rows_inverse dtoa name to_id s =
     js_sort (by_text dtoa (text_member ''from'')) (filter (\<lambda>row. js_get row ''to'' = JStr to_id) (jmap_values (joins_of name s)))"

definition set_join_rows :: "(rat \<Rightarrow> string) \<Rightarrow> string \<Rightarrow> jsrec list \<Rightarrow> client_storage \<Rightarrow> client_storage" where
  "set_join_rows dtoa name rows s =
     put_joins name (foldl (\<lambda>t row. jmap_set (join_key dtoa row) row t) (joins_of name s) rows) s"

definition upsert_join_row :: "(rat \<Rightarrow> string) \<Rightarrow> string \<Rightarrow> jsrec \<Rightarrow> client_storage \<Rightarrow> client_storage" where
  "upsert_join_row dtoa name row s = put_joins name (jmap_set (join_key dtoa row) row (joins_of name s)) s"

definition delete_join_row :: "string \<Rightarrow> string \<Rightarrow> string \<Rightarrow> client_storage \<Rightarrow> client_storage" where
  "delete_join_row name from_id to_id s =
     (case jmap_get (cs_joins s) name of
        None \<Rightarrow> s
      | Some t \<Rightarrow> put_joins name (jmap_del (from_id @ '':'' @ to_id) t) s)"

definition count_join_rows :: "string \<Rightarrow> client_storage \<Rightarrow> nat" where
  "count_join_rows name s = length (joins_of name s)"

section \<open>Cursors and hydration\<close>

definition is_internal_cursor_key :: "string \<Rightarrow> bool" where
  "is_internal_cursor_key name = (name = ''__global_cursor__'' \<or> name = ''__datafn_actor_feed__'')"

definition cursor_table :: "string \<Rightarrow> client_storage \<Rightarrow> (string + 'a) \<times> client_storage \<Rightarrow> (string + 'a) \<times> client_storage" where
  "cursor_table name s result = (if is_internal_cursor_key name then result else on_table name s result)"

definition get_cursor :: "string \<Rightarrow> client_storage \<Rightarrow> (string + string option) \<times> client_storage" where
  "get_cursor name s =
     cursor_table name s (Inr (case jmap_get (cs_cursors s) name of Some c \<Rightarrow> if c = [] then None else Some c | None \<Rightarrow> None), s)"

definition set_cursor :: "string \<Rightarrow> string option \<Rightarrow> client_storage \<Rightarrow> (string + unit) \<times> client_storage" where
  "set_cursor name cursor s =
     cursor_table name s
       (Inr (), s\<lparr>cs_cursors := (case cursor of None \<Rightarrow> jmap_del name (cs_cursors s) | Some c \<Rightarrow> jmap_set name c (cs_cursors s))\<rparr>)"

definition hydration_of :: "string \<Rightarrow> client_storage \<Rightarrow> hydration" where
  "hydration_of name s = (case jmap_get (cs_hydration s) name of None \<Rightarrow> NotStarted | Some h \<Rightarrow> h)"

definition get_hydration_state :: "string \<Rightarrow> client_storage \<Rightarrow> (string + hydration) \<times> client_storage" where
  "get_hydration_state name s = on_table name s (Inr (hydration_of name s), s)"

definition transition_ok :: "hydration \<Rightarrow> hydration \<Rightarrow> bool" where
  "transition_ok a b = (a = b \<or> (a, b) \<in> {(NotStarted, Hydrating), (Hydrating, Ready), (Ready, Hydrating)})"

definition validate_hydration_state :: "string \<Rightarrow> string + hydration" where
  "validate_hydration_state t =
     (if t = ''notStarted'' then Inr NotStarted else if t = ''hydrating'' then Inr Hydrating
      else if t = ''ready'' then Inr Ready else Inl (''Invalid hydration state: '' @ t))"

definition set_hydration_state :: "string \<Rightarrow> string \<Rightarrow> client_storage \<Rightarrow> (string + unit) \<times> client_storage" where
  "set_hydration_state name t s =
     on_table name s
       (case validate_hydration_state t of
          Inl e \<Rightarrow> (Inl e, s)
        | Inr h \<Rightarrow>
            (let current = hydration_of name s
             in if \<not> transition_ok current h
                then (Inl (''Invalid hydration state transition: '' @ hydration_name current @ '' -> '' @ t), s)
                else (Inr (), s\<lparr>cs_hydration := jmap_set name h (cs_hydration s)\<rparr>)))"

section \<open>The changelog\<close>

definition dedupe_key :: "(rat \<Rightarrow> string) \<Rightarrow> jsrec \<Rightarrow> string" where
  "dedupe_key dtoa e = js_string dtoa (js_get e ''clientId'') @ '':'' @ js_string dtoa (js_get e ''mutationId'')"

definition changelog_append :: "(rat \<Rightarrow> string) \<Rightarrow> jsrec \<Rightarrow> client_storage \<Rightarrow> (string + nat \<times> jsrec) \<times> client_storage" where
  "changelog_append dtoa e s =
     (if \<not> js_truthy (js_get e ''clientId'') then (Inl ''Missing clientId in mutation'', s)
      else if \<not> js_truthy (js_get e ''mutationId'') then (Inl ''Missing mutationId in mutation'', s)
      else
        (case jmap_get (cs_index s) (dedupe_key dtoa e) of
           Some existing \<Rightarrow> (Inr existing, s)
         | None \<Rightarrow>
             (let entry = (cs_next s, e)
              in (Inr entry, s\<lparr>cs_next := Suc (cs_next s), cs_changelog := cs_changelog s @ [entry],
                   cs_index := jmap_set (dedupe_key dtoa e) entry (cs_index s)\<rparr>))))"

definition changelog_list :: "nat option \<Rightarrow> client_storage \<Rightarrow> (nat \<times> jsrec) list" where
  "changelog_list lmt s = take (case lmt of Some (Suc n) \<Rightarrow> Suc n | _ \<Rightarrow> 100) (cs_changelog s)"

definition changelog_ack :: "(rat \<Rightarrow> string) \<Rightarrow> nat \<Rightarrow> client_storage \<Rightarrow> client_storage" where
  "changelog_ack dtoa through s =
     s\<lparr>cs_index := foldl (\<lambda>m e. jmap_del (dedupe_key dtoa (snd e)) m) (cs_index s) (filter (\<lambda>e. fst e \<le> through) (cs_changelog s)),
       cs_changelog := filter (\<lambda>e. through < fst e) (cs_changelog s)\<rparr>"

definition clear_all :: "client_storage \<Rightarrow> client_storage" where
  "clear_all s = s\<lparr>cs_records := [(''kv'', [])], cs_joins := [], cs_cursors := [], cs_hydration := [],
     cs_changelog := [], cs_next := 1, cs_index := []\<rparr>"

end
