(* ===== verification/SyncApply.thy ===== *)
theory SyncApply
  imports ClientStorage AccessControl
begin

text \<open>
  Applying clone and pull results to the client's storage, \<open>datafn/client/src/sync/apply.ts\<close>. A
  result is what the server's JSON parses to; its objects are association lists in the order in
  which \<open>Object.entries\<close> gives them. A thrown error leaves what was written before it.
\<close>

datatype apply_error = StorageFailed string | CursorConflict string

type_synonym apply_step = "client_storage \<Rightarrow> (apply_error + unit) \<times> client_storage"

definition to_step :: "(string + 'a) \<times> client_storage \<Rightarrow> (apply_error + unit) \<times> client_storage" where
  "to_step = apfst (map_sum StorageFailed (\<lambda>_. ()))"

definition and_then :: "apply_step \<Rightarrow> apply_step \<Rightarrow> apply_step" where
  "and_then f g s = (case f s of (Inl e, s') \<Rightarrow> (Inl e, s') | (Inr _, s') \<Rightarrow> g s')"

definition GLOBAL_CURSOR_KEY :: string where "GLOBAL_CURSOR_KEY = ''__global_cursor__''"

section \<open>Cursors\<close>

definition set_cursor_monotonically :: "string \<Rightarrow> string \<Rightarrow> apply_step" where
  "set_cursor_monotonically resource cursor s =
     (case get_cursor resource s of
        (Inl e, s') \<Rightarrow> (Inl (StorageFailed e), s')
      | (Inr None, s') \<Rightarrow> to_step (set_cursor resource (Some cursor) s')
      | (Inr (Some existing), s') \<Rightarrow>
          if js_parse_int existing < js_parse_int cursor then to_step (set_cursor resource (Some cursor) s') else (Inr (), s'))"

definition assert_cursor_non_regressing :: "string \<Rightarrow> string \<Rightarrow> string \<Rightarrow> apply_step" where
  "assert_cursor_non_regressing resource cursor path s =
     (case get_cursor resource s of
        (Inl e, s') \<Rightarrow> (Inl (StorageFailed e), s')
      | (Inr None, s') \<Rightarrow> (Inr (), s')
      | (Inr (Some existing), s') \<Rightarrow>
          if js_parse_int cursor < js_parse_int existing then (Inl (CursorConflict path), s') else (Inr (), s'))"

text \<open>\<open>maxSeq\<close>: the greatest of the cursors that parse, at least 0.\<close>

definition max_seq :: "string list \<Rightarrow> jsnum" where
  "max_seq cursors = foldl (\<lambda>m c. if m < js_parse_int c then js_parse_int c else m) (Fin 0) cursors"

section \<open>Clones\<close>

record clone_result =
  cl_ok :: bool
  cl_data :: "(string, jsrec list) jmap"
  cl_cursors :: "(string, string) jmap"
  cl_joins :: "(string, jsrec list) jmap option"

definition clone_table :: "(string, string) jmap \<Rightarrow> string \<times> jsrec list \<Rightarrow> apply_step" where
  "clone_table cursors = (\<lambda>(resource, records).
     and_then (\<lambda>s. to_step (set_hydration_state resource ''hydrating'' s))
       (and_then (run_each (\<lambda>r s. to_step (upsert_record resource r s)) records)
         (and_then (\<lambda>s. case jmap_get cursors resource of None \<Rightarrow> (Inr (), s) | Some c \<Rightarrow> to_step (set_cursor resource (Some c) s))
           (\<lambda>s. to_step (set_hydration_state resource ''ready'' s)))))"

definition put_join_rows :: "(rat \<Rightarrow> string) \<Rightarrow> string \<Rightarrow> jsrec list \<Rightarrow> apply_step" where
  "put_join_rows dtoa key rows s = (Inr (), foldl (\<lambda>s row. upsert_join_row dtoa key row s) s rows)"

definition apply_clone_result :: "(rat \<Rightarrow> string) \<Rightarrow> clone_result \<Rightarrow> apply_step" where
  "apply_clone_result dtoa c =
     (if \<not> cl_ok c then (\<lambda>s. (Inr (), s))
      else
        and_then (run_each (clone_table (cl_cursors c)) (cl_data c))
          (and_then (run_each (\<lambda>(key, rows). put_join_rows dtoa key rows) (case cl_joins c of None \<Rightarrow> [] | Some js \<Rightarrow> js))
            (set_cursor_monotonically GLOBAL_CURSOR_KEY (num_to_string dtoa (max_seq (jmap_values (cl_cursors c)))))))"

section \<open>Pulls with one cursor\<close>

record pull_change =
  pc_resource :: string
  pc_id :: string
  pc_op :: string
  pc_record :: "jsrec option"

definition apply_change :: "pull_change \<Rightarrow> apply_step" where
  "apply_change c s =
     (if pc_op c = ''delete'' then to_step (delete_record (pc_resource c) (JStr (pc_id c)) s)
      else (case pc_record c of None \<Rightarrow> (Inr (), s) | Some r \<Rightarrow> to_step (upsert_record (pc_resource c) r s)))"

definition apply_pull_global :: "pull_change list \<Rightarrow> string option \<Rightarrow> apply_step" where
  "apply_pull_global changes nextCursor =
     and_then (case nextCursor of None \<Rightarrow> (\<lambda>s. (Inr (), s)) | Some c \<Rightarrow> assert_cursor_non_regressing GLOBAL_CURSOR_KEY c ''nextCursor'')
       (and_then (run_each apply_change changes)
         (case nextCursor of None \<Rightarrow> (\<lambda>s. (Inr (), s)) | Some c \<Rightarrow> set_cursor_monotonically GLOBAL_CURSOR_KEY c))"

section \<open>Pulls with a cursor per table\<close>

record join_delta =
  jd_upsert :: "jsrec list"
  jd_delete :: "(string \<times> string) list"

record canonical_pull =
  kp_records :: "(string, jsrec list) jmap"
  kp_merged :: "(string, jsrec list) jmap option"
  kp_deleted :: "(string, string list) jmap"
  kp_joins :: "(string, join_delta) jmap option"
  kp_cursors :: "(string, string) jmap"
  kp_more :: bool

definition upsert_all :: "(string, jsrec list) jmap \<Rightarrow> apply_step" where
  "upsert_all = run_each (\<lambda>(resource, rs). run_each (\<lambda>r s. to_step (upsert_record resource r s)) rs)"

definition merge_all :: "(string, jsrec list) jmap \<Rightarrow> apply_step" where
  "merge_all = run_each (\<lambda>(resource, rs). run_each (\<lambda>r s. to_step (merge_record resource (js_get r ''id'') r None s)) rs)"

definition delete_all :: "(string, string list) jmap \<Rightarrow> apply_step" where
  "delete_all = run_each (\<lambda>(resource, ids). run_each (\<lambda>i s. to_step (delete_record resource (JStr i) s)) ids)"

definition apply_join_delta :: "(rat \<Rightarrow> string) \<Rightarrow> string \<times> join_delta \<Rightarrow> apply_step" where
  "apply_join_delta dtoa = (\<lambda>(key, d) s.
     (Inr (), foldl (\<lambda>s (from_id, to_id). delete_join_row key from_id to_id s)
        (foldl (\<lambda>s row. upsert_join_row dtoa key row s) s (jd_upsert d)) (jd_delete d)))"

definition apply_pull_canonical :: "(rat \<Rightarrow> string) \<Rightarrow> canonical_pull \<Rightarrow> apply_step" where
  "apply_pull_canonical dtoa p =
     and_then (run_each (\<lambda>(resource, c). assert_cursor_non_regressing resource c (''cursors.'' @ resource)) (kp_cursors p))
       (and_then (upsert_all (kp_records p))
         (and_then (merge_all (case kp_merged p of None \<Rightarrow> [] | Some m \<Rightarrow> m))
           (and_then (delete_all (kp_deleted p))
             (and_then (run_each (apply_join_delta dtoa) (case kp_joins p of None \<Rightarrow> [] | Some js \<Rightarrow> js))
               (and_then (run_each (\<lambda>(resource, c). set_cursor_monotonically resource c) (kp_cursors p))
                 (\<lambda>s. if Fin 0 < max_seq (jmap_values (kp_cursors p))
                      then set_cursor_monotonically GLOBAL_CURSOR_KEY (num_to_string dtoa (max_seq (jmap_values (kp_cursors p)))) s
                      else (Inr (), s)))))))"

datatype pull_result =
    PullNotOk
  | GlobalCursorPull "pull_change list" "string option"
  | CanonicalPull canonical_pull

definition apply_pull_result :: "(rat \<Rightarrow> string) \<Rightarrow> pull_result \<Rightarrow> apply_step" where
  "apply_pull_result dtoa r =
     (case r of
        PullNotOk \<Rightarrow> (\<lambda>s. (Inr (), s))
      | GlobalCursorPull changes nextCursor \<Rightarrow> apply_pull_global changes nextCursor
      | CanonicalPull p \<Rightarrow> apply_pull_canonical dtoa p)"

end
