(* ===== verification/ChangeLog.thy ===== *)
theory ChangeLog
  imports GrantStore
begin

text \<open>
  The change log of the server, \<open>datafn/server/src/execution/sync/change-tracking.ts\<close>, in an
  internal table of any adapter: recording the effects of mutations and reading them back after
  a sequence number. The notifications, the retries and the logging are left out; the columns hold
  what their declared types say.
\<close>

definition CHANGES :: string where "CHANGES = ''__datafn_changes''"

record change_entry =
  ch_seq :: jsnum
  ch_resource :: string
  ch_id :: string
  ch_op :: string
  ch_record :: "jsrec option"

definition change_row :: "(rat \<Rightarrow> string) \<Rightarrow> string \<Rightarrow> string \<Rightarrow> change_entry \<Rightarrow> jsrec" where
  "change_row dtoa ns now c =
     [(''id'', JStr (''change:'' @ ns @ '':'' @ num_to_string dtoa (ch_seq c) @ '':'' @ ch_resource c @ '':'' @ ch_id c)),
      (''namespace'', JStr ns), (''server_seq'', JNum (ch_seq c)), (''resource'', JStr (ch_resource c)),
      (''record_id'', JStr (ch_id c)), (''op'', JStr (ch_op c)),
      (''record'', case ch_record c of None \<Rightarrow> JNull | Some r \<Rightarrow> JStr (json_val dtoa (JObj r))),
      (''created_at'', JStr now)]"

fun create_each :: "'s adapter \<Rightarrow> jsrec list \<Rightarrow> 's \<Rightarrow> (db_error + unit) \<times> 's" where
  "create_each ad [] s = (Inr (), s)"
| "create_each ad (r # rs) s =
     (case ad (DbInternal (InternalCreate CHANGES r)) s of
        (Inl e, s') \<Rightarrow> (Inl e, s')
      | (Inr _, s') \<Rightarrow> create_each ad rs s')"

text \<open>The batch is one call where the adapter has \<open>createMany\<close>, else the rows are created in turn.\<close>

definition record_changes ::
  "(rat \<Rightarrow> string) \<Rightarrow> 's adapter \<Rightarrow> bool \<Rightarrow> string \<Rightarrow> string \<Rightarrow> change_entry list \<Rightarrow> 's \<times> bool \<Rightarrow> (db_error + unit) \<times> 's \<times> bool" where
  "record_changes dtoa ad batched ns now entries t =
     (if entries = [] then (Inr (), t)
      else
        (case (if snd t then (Inr Void, fst t) else ad (DbInternal (EnsureTable CHANGES)) (fst t)) of
           (Inl e, s) \<Rightarrow> (Inl e, s, snd t)
         | (Inr _, s) \<Rightarrow>
             (let rows = map (change_row dtoa ns now) entries
              in if batched
                 then (case ad (DbInternal (InternalCreateMany CHANGES rows)) s of (r, s') \<Rightarrow> (map_sum id (\<lambda>_. ()) r, s', True))
                 else (case create_each ad rows s of (r, s') \<Rightarrow> (r, s', True)))))"

section \<open>Reading\<close>

definition string_column :: "string \<Rightarrow> jsrec \<Rightarrow> string" where
  "string_column k row = (case js_get row k of JStr t \<Rightarrow> t | _ \<Rightarrow> [])"

definition number_column :: "string \<Rightarrow> jsrec \<Rightarrow> jsnum" where
  "number_column k row = (case js_get row k of JNum n \<Rightarrow> n | _ \<Rightarrow> NaN)"

definition change_of_row :: "jsrec \<Rightarrow> db_error + change_entry" where
  "change_of_row row =
     (let text = string_column ''record'' row;
          entry = (\<lambda>r. \<lparr>ch_seq = number_column ''server_seq'' row, ch_resource = string_column ''resource'' row,
            ch_id = string_column ''record_id'' row, ch_op = string_column ''op'' row, ch_record = r\<rparr>)
      in if text = [] then Inr (entry None)
         else
           (case json_parse text of
              None \<Rightarrow> Inl (DbError ''SyntaxError'')
            | Some (JObj r) \<Rightarrow> Inr (entry (Some r))
            | Some _ \<Rightarrow> Inr (entry None)))"

definition internal_clause_of :: "string \<Rightarrow> string \<Rightarrow> jsval \<Rightarrow> internal_where" where
  "internal_clause_of f operator v = \<lparr>iw_field = f, iw_op = operator, iw_value = v\<rparr>"

definition positive_limit :: "jsnum option \<Rightarrow> jsnum option" where
  "positive_limit lmt = (case lmt of Some n \<Rightarrow> if Fin 0 < n then Some n else None | None \<Rightarrow> None)"

definition read_change_rows ::
  "'s adapter \<Rightarrow> 's \<Rightarrow> internal_where list \<Rightarrow> string \<Rightarrow> jsnum option \<Rightarrow> db_error + jsrec list" where
  "read_change_rows ad s w ob lmt =
     (case ad (DbInternal (EnsureTable CHANGES)) s of
        (Inl e, _) \<Rightarrow> Inl e
      | (Inr _, s1) \<Rightarrow> map_sum id rows_of (fst (ad (DbInternal (InternalFindMany CHANGES w (Some ob) lmt)) s1)))"

definition read_changes ::
  "'s adapter \<Rightarrow> 's \<Rightarrow> internal_where list \<Rightarrow> string \<Rightarrow> jsnum option \<Rightarrow> db_error + change_entry list" where
  "read_changes ad s w ob lmt = bind_sum (read_change_rows ad s w ob lmt) (map_sum_list change_of_row)"

definition get_global_changes :: "'s adapter \<Rightarrow> 's \<Rightarrow> string \<Rightarrow> jsnum \<Rightarrow> jsnum \<Rightarrow> db_error + change_entry list" where
  "get_global_changes ad s ns sinceSeq lmt =
     read_changes ad s [internal_clause_of ''namespace'' ''eq'' (JStr ns), internal_clause_of ''server_seq'' ''gt'' (JNum sinceSeq)]
       ''server_seq'' (Some lmt)"

definition get_changes_since ::
  "'s adapter \<Rightarrow> 's \<Rightarrow> string \<Rightarrow> string \<Rightarrow> jsnum \<Rightarrow> jsnum option \<Rightarrow> db_error + change_entry list" where
  "get_changes_since ad s ns resource sinceSeq lmt =
     read_changes ad s [internal_clause_of ''namespace'' ''eq'' (JStr ns), internal_clause_of ''resource'' ''eq'' (JStr resource),
       internal_clause_of ''server_seq'' ''gt'' (JNum sinceSeq)] ''server_seq'' (positive_limit lmt)"

definition get_changes_for_resources_since ::
  "'s adapter \<Rightarrow> 's \<Rightarrow> string \<Rightarrow> string list \<Rightarrow> jsnum \<Rightarrow> jsnum option \<Rightarrow> db_error + change_entry list" where
  "get_changes_for_resources_since ad s ns resources sinceSeq lmt =
     (if resources = [] then Inr []
      else
        read_changes ad s [internal_clause_of ''namespace'' ''eq'' (JStr ns), internal_clause_of ''server_seq'' ''gt'' (JNum sinceSeq),
          internal_clause_of ''resource'' ''in'' (JArr (map JStr resources))] ''server_seq'' (positive_limit lmt))"

definition get_latest_change_for_record ::
  "'s adapter \<Rightarrow> 's \<Rightarrow> string \<Rightarrow> string \<Rightarrow> string \<Rightarrow> jsnum option \<Rightarrow> db_error + change_entry option" where
  "get_latest_change_for_record ad s ns resource i atOrBefore =
     map_sum id (\<lambda>cs. case cs of [] \<Rightarrow> None | c # _ \<Rightarrow> Some c)
       (read_changes ad s ([internal_clause_of ''namespace'' ''eq'' (JStr ns), internal_clause_of ''resource'' ''eq'' (JStr resource),
          internal_clause_of ''record_id'' ''eq'' (JStr i)] @
          (case atOrBefore of None \<Rightarrow> [] | Some n \<Rightarrow> [internal_clause_of ''server_seq'' ''lte'' (JNum n)])) ''-server_seq'' (Some (Fin 1)))"

definition get_latest_server_seq :: "'s adapter \<Rightarrow> 's \<Rightarrow> string \<Rightarrow> string \<Rightarrow> db_error + jsnum" where
  "get_latest_server_seq ad s ns resource =
     map_sum id (\<lambda>rows. case rows of [] \<Rightarrow> Fin 0 | row # _ \<Rightarrow> (case js_get row ''server_seq'' of JNum n \<Rightarrow> n | _ \<Rightarrow> Fin 0))
       (read_change_rows ad s [internal_clause_of ''namespace'' ''eq'' (JStr ns), internal_clause_of ''resource'' ''eq'' (JStr resource)]
          ''-server_seq'' (Some (Fin 1)))"

text \<open>\<open>pruneChanges\<close>; the cutoff is the ISO text of a date.\<close>

definition prune_changes :: "'s adapter \<Rightarrow> string \<Rightarrow> string \<Rightarrow> 's \<Rightarrow> (db_error + nat) \<times> 's" where
  "prune_changes ad ns cutoff s =
     (case ad (DbInternal (EnsureTable CHANGES)) s of
        (Inl e, s1) \<Rightarrow> (Inl e, s1)
      | (Inr _, s1) \<Rightarrow>
          apfst (map_sum id (\<lambda>a. case a of Counted n \<Rightarrow> n | _ \<Rightarrow> 0))
            (ad (DbInternal (InternalDelete CHANGES [internal_clause_of ''namespace'' ''eq'' (JStr ns),
               internal_clause_of ''created_at'' ''lt'' (JStr cutoff)])) s1))"

end
