(* ===== verification/SyncPull.thy ===== *)
theory SyncPull
  imports ChangeLog SyncApply
begin

text \<open>
  Pulling changes, \<open>datafn/server/src/execution/sync/pull.ts\<close>: the changes after one cursor or
  after a cursor per table, filtered by what the actor may see, with the effects of grants,
  memberships and hierarchy edges that changed. A pull reads one state of the database. A request is
  a JavaScript object; \<open>lc\<close> is \<open>localeCompare\<close>. The result with a cursor per table is the record
  that the client applies.
\<close>

definition ACTOR_FEED_CURSOR_KEY :: string where "ACTOR_FEED_CURSOR_KEY = ''__datafn_actor_feed__''"

definition ACTOR_FEED_RESOURCES :: "string list" where
  "ACTOR_FEED_RESOURCES = [GLOBAL_PERMISSIONS_TABLE, PRINCIPAL_MEMBERSHIPS_TABLE, PRINCIPAL_HIERARCHY_TABLE]"

record feed_entry =
  fe_seq :: jsnum
  fe_type :: string
  fe_principal :: string
  fe_resource_type :: "string option"
  fe_resource_id :: jsval

record permission_grant =
  pg_type :: string
  pg_namespace :: string
  pg_resource :: "string option"
  pg_principal :: string
  pg_level :: string
  pg_revoked :: "jsnum option"

record visibility_change =
  vc_seq :: jsnum
  vc_resource :: string
  vc_id :: string
  vc_delete :: bool
  vc_record :: "jsrec option"
  vc_reason :: "string option"

section \<open>Reading values\<close>

definition non_empty_string :: "jsval \<Rightarrow> string option" where
  "non_empty_string v = (case v of JStr t \<Rightarrow> if js_trim t = [] then None else Some (js_trim t) | _ \<Rightarrow> None)"

definition is_feed_resource :: "string \<Rightarrow> bool" where
  "is_feed_resource resource = (resource \<in> set ACTOR_FEED_RESOURCES)"

definition is_data_resource_key :: "string \<Rightarrow> bool" where
  "is_data_resource_key resource = (\<not> starts_with resource ''join_'' \<and> \<not> starts_with resource ''__datafn_'')"

definition validate_cursor :: "string \<Rightarrow> bool" where
  "validate_cursor c = (c \<noteq> [] \<and> list_all is_digit c)"

definition number_or_none :: "jsval \<Rightarrow> jsnum option" where
  "number_or_none v = (case v of JNum n \<Rightarrow> Some n | _ \<Rightarrow> None)"

definition parse_permission_grant :: "jsrec \<Rightarrow> permission_grant option" where
  "parse_permission_grant row =
     (case (non_empty_string (js_get row ''resourceType''), non_empty_string (js_get row ''resourceNs''),
            non_empty_string (js_get row ''principalId''), non_empty_string (js_get row ''level'')) of
        (Some t, Some ns, Some p, Some l) \<Rightarrow>
          (let rid = (if js_get row ''resourceId'' = JNull then None else non_empty_string (js_get row ''resourceId''))
           in if js_get row ''resourceId'' \<noteq> JNull \<and> rid = None then None
              else Some \<lparr>pg_type = t, pg_namespace = ns, pg_resource = rid, pg_principal = p, pg_level = l,
                pg_revoked = number_or_none (js_get row ''revokedAt'')\<rparr>)
      | _ \<Rightarrow> None)"

definition parse_membership :: "jsrec \<Rightarrow> (string \<times> string) option" where
  "parse_membership row =
     (case (non_empty_string (js_get row ''actorId''), non_empty_string (js_get row ''principalId'')) of
        (Some a, Some p) \<Rightarrow> Some (a, p)
      | _ \<Rightarrow> None)"

section \<open>Who sees what\<close>

definition pull_memberships :: "'s adapter \<Rightarrow> 's \<Rightarrow> string \<Rightarrow> string \<Rightarrow> db_error + string list" where
  "pull_memberships ad s ns actor =
     map_sum id (\<lambda>rows. some_of (map (\<lambda>row. non_empty_string (js_get row ''principalId'')) (filter is_grant_active rows)))
       (read_many ad s PRINCIPAL_MEMBERSHIPS_TABLE [where_eq ''actorId'' actor] ns)"

definition pull_edge :: "jsrec \<Rightarrow> hierarchy_edge option" where
  "pull_edge row =
     (if \<not> is_grant_active row then None
      else
        (case (non_empty_string (js_get row ''principalId''), non_empty_string (js_get row ''parentPrincipalId'')) of
           (Some p, Some q) \<Rightarrow> Some \<lparr>he_principal = p, he_parent = q\<rparr>
         | _ \<Rightarrow> None))"

definition pull_edges :: "'s adapter \<Rightarrow> 's \<Rightarrow> string \<Rightarrow> string list \<Rightarrow> db_error + hierarchy_edge list" where
  "pull_edges ad s ns principalIds =
     map_sum id concat
       (map_sum_list (\<lambda>p. map_sum id (\<lambda>rows. some_of (map pull_edge rows))
          (read_many ad s PRINCIPAL_HIERARCHY_TABLE [where_eq ''principalId'' p] ns)) principalIds)"

definition pull_actor_principals ::
  "(string \<Rightarrow> string \<Rightarrow> int) \<Rightarrow> 's adapter \<Rightarrow> 's \<Rightarrow> string \<Rightarrow> string \<Rightarrow> db_error resolve_error + string list" where
  "pull_actor_principals lc ad s ns actor =
     fst (resolve_effective_principals lc \<lparr>pst_memberships = pull_memberships ad s, pst_parents = pull_edges ad s\<rparr> ns actor None None)"

definition has_actor_record_access ::
  "migration_config \<Rightarrow> (string \<Rightarrow> string \<Rightarrow> int) \<Rightarrow> 's adapter \<Rightarrow> 's \<Rightarrow> policy_schema \<Rightarrow> string \<Rightarrow> string \<Rightarrow> string option \<Rightarrow> string \<Rightarrow>
   db_error resolve_error + bool" where
  "has_actor_record_access cfg lc ad s schema resource recordId actor ns =
     (if \<not> is_private_shareable_resource schema resource then Inr True
      else
        (case actor of
           None \<Rightarrow> Inr False
         | Some a \<Rightarrow> map_sum id (\<lambda>l. l \<noteq> None) (resolve_access_level cfg lc ad s schema resource recordId (Some a) ns)))"

definition all_rows_by_id :: "'s adapter \<Rightarrow> 's \<Rightarrow> string \<Rightarrow> string \<Rightarrow> db_error resolve_error + jsrec list" where
  "all_rows_by_id ad s model ns =
     map_sum StoreFailure rows_of (fst (ad (DbFindMany \<lparr>fp_model = model, fp_where = [], fp_select = None, fp_namespace = Some ns,
        fp_limit = None, fp_offset = None, fp_order = Some [\<lparr>ob_field = ''id'', ob_ascending = True\<rparr>]\<rparr>) s))"

fun fold_sum :: "('a \<Rightarrow> 'b \<Rightarrow> 'e + 'b) \<Rightarrow> 'a list \<Rightarrow> 'b \<Rightarrow> 'e + 'b" where
  "fold_sum f [] acc = Inr acc"
| "fold_sum f (x # xs) acc = bind_sum (f x acc) (fold_sum f xs)"

definition not_requested :: "string list option \<Rightarrow> permission_grant \<Rightarrow> bool" where
  "not_requested requested g = (case requested of None \<Rightarrow> False | Some rs \<Rightarrow> pg_type g \<notin> set rs)"

definition backfill_change :: "permission_grant \<Rightarrow> jsnum \<Rightarrow> string \<Rightarrow> jsrec \<Rightarrow> visibility_change" where
  "backfill_change g serverSeq i r =
     \<lparr>vc_seq = serverSeq, vc_resource = pg_type g, vc_id = i, vc_delete = False, vc_record = Some r, vc_reason = Some ''grant_backfill''\<rparr>"

definition revoked_change :: "permission_grant \<Rightarrow> jsnum \<Rightarrow> string \<Rightarrow> visibility_change" where
  "revoked_change g serverSeq i =
     \<lparr>vc_seq = serverSeq, vc_resource = pg_type g, vc_id = i, vc_delete = True, vc_record = None, vc_reason = Some ''revoked''\<rparr>"

text \<open>The rows of a scope grant whose id is a string, each with whether the actor sees it.\<close>

definition seen_rows ::
  "migration_config \<Rightarrow> (string \<Rightarrow> string \<Rightarrow> int) \<Rightarrow> 's adapter \<Rightarrow> 's \<Rightarrow> policy_schema \<Rightarrow> string \<Rightarrow> permission_grant \<Rightarrow>
   db_error resolve_error + (string \<times> jsrec \<times> bool) list" where
  "seen_rows cfg lc ad s schema actor g =
     bind_sum (all_rows_by_id ad s (pg_type g) (pg_namespace g)) (\<lambda>rows.
       map_sum_list (\<lambda>(i, row). map_sum id (\<lambda>seen. (i, row, seen))
           (has_actor_record_access cfg lc ad s schema (pg_type g) i (Some actor) (pg_namespace g)))
         (some_of (map (\<lambda>row. map_option (\<lambda>i. (i, row)) (non_empty_string (js_get row ''id''))) rows)))"

definition materialize_grant_backfill ::
  "migration_config \<Rightarrow> (string \<Rightarrow> string \<Rightarrow> int) \<Rightarrow> 's adapter \<Rightarrow> 's \<Rightarrow> policy_schema \<Rightarrow> string \<Rightarrow> permission_grant \<Rightarrow>
   string list option \<Rightarrow> jsnum \<Rightarrow> db_error resolve_error + visibility_change list" where
  "materialize_grant_backfill cfg lc ad s schema actor g requested serverSeq =
     (if not_requested requested g then Inr []
      else
        (case pg_resource g of
           Some i \<Rightarrow>
             bind_sum (map_sum StoreFailure id (read_one ad s (pg_type g) [where_eq ''id'' i] (pg_namespace g))) (\<lambda>found.
               case found of
                 None \<Rightarrow> Inr []
               | Some r \<Rightarrow>
                   map_sum id (\<lambda>seen. if seen then [backfill_change g serverSeq i r] else [])
                     (has_actor_record_access cfg lc ad s schema (pg_type g) i (Some actor) (pg_namespace g)))
         | None \<Rightarrow>
             map_sum id (\<lambda>rows. map (\<lambda>(i, row, _). backfill_change g serverSeq i row) (filter (\<lambda>(_, _, seen). seen) rows))
               (seen_rows cfg lc ad s schema actor g)))"

definition materialize_revoke_tombstones ::
  "migration_config \<Rightarrow> (string \<Rightarrow> string \<Rightarrow> int) \<Rightarrow> 's adapter \<Rightarrow> 's \<Rightarrow> policy_schema \<Rightarrow> string \<Rightarrow> permission_grant \<Rightarrow>
   string list option \<Rightarrow> jsnum \<Rightarrow> db_error resolve_error + visibility_change list" where
  "materialize_revoke_tombstones cfg lc ad s schema actor g requested serverSeq =
     (if not_requested requested g then Inr []
      else
        (case pg_resource g of
           Some i \<Rightarrow>
             map_sum id (\<lambda>seen. if seen then [] else [revoked_change g serverSeq i])
               (has_actor_record_access cfg lc ad s schema (pg_type g) i (Some actor) (pg_namespace g))
         | None \<Rightarrow>
             map_sum id (\<lambda>rows. map (\<lambda>(i, row, _). revoked_change g serverSeq i) (filter (\<lambda>(_, _, seen). \<not> seen) rows))
               (seen_rows cfg lc ad s schema actor g)))"

section \<open>The feed of an actor\<close>

text \<open>What a deleted permission or membership said is read from the change before it.\<close>

definition prior_record :: "'s adapter \<Rightarrow> 's \<Rightarrow> string \<Rightarrow> string \<Rightarrow> change_entry \<Rightarrow> db_error resolve_error + jsrec option" where
  "prior_record ad s ns resource c =
     (case ch_record c of
        Some r \<Rightarrow> Inr (Some r)
      | None \<Rightarrow>
          map_sum StoreFailure (\<lambda>prior. case prior of None \<Rightarrow> None | Some p \<Rightarrow> ch_record p)
            (get_latest_change_for_record ad s ns resource (ch_id c) (Some (ch_seq c - Fin 1))))"

definition list_active_principal_grants :: "'s adapter \<Rightarrow> 's \<Rightarrow> string \<Rightarrow> string \<Rightarrow> db_error resolve_error + permission_grant list" where
  "list_active_principal_grants ad s ns principalId =
     map_sum StoreFailure (\<lambda>rows. filter (\<lambda>g. pg_revoked g = None) (some_of (map parse_permission_grant rows)))
       (read_many ad s GLOBAL_PERMISSIONS_TABLE [where_eq ''principalId'' principalId] ns)"

definition cmp_chain :: "int list \<Rightarrow> int" where
  "cmp_chain cs = (case dropWhile (\<lambda>c. c = 0) cs of [] \<Rightarrow> 0 | c # _ \<Rightarrow> c)"

definition by_place :: "(string \<Rightarrow> string \<Rightarrow> int) \<Rightarrow> visibility_change \<Rightarrow> visibility_change \<Rightarrow> int" where
  "by_place lc a b = cmp_chain [num_cmp (vc_seq a - vc_seq b), lc (vc_resource a) (vc_resource b), lc (vc_id a) (vc_id b)]"

definition by_place_and_op :: "(string \<Rightarrow> string \<Rightarrow> int) \<Rightarrow> visibility_change \<Rightarrow> visibility_change \<Rightarrow> int" where
  "by_place_and_op lc a b =
     cmp_chain [by_place lc a b, if vc_delete a = vc_delete b then 0 else if vc_delete a then 1 else - 1]"

definition finalize_visibility_changes :: "(string \<Rightarrow> string \<Rightarrow> int) \<Rightarrow> visibility_change list \<Rightarrow> visibility_change list" where
  "finalize_visibility_changes lc changes =
     js_sort (by_place lc) (jmap_values
       (foldl (\<lambda>m c. jmap_set (vc_resource c @ '':'' @ vc_id c) c m) [] (js_sort (by_place_and_op lc) changes)))"

record feed_state =
  fs_feed :: "feed_entry list"
  fs_visible :: "visibility_change list"
  fs_members :: "string jset"

record feed_context =
  fc_principals :: "string list"
  fc_actor :: string
  fc_namespace :: string
  fc_requested :: "string list option"

definition granted_effects ::
  "migration_config \<Rightarrow> (string \<Rightarrow> string \<Rightarrow> int) \<Rightarrow> 's adapter \<Rightarrow> 's \<Rightarrow> policy_schema \<Rightarrow> feed_context \<Rightarrow> change_entry \<Rightarrow> permission_grant \<Rightarrow>
   db_error resolve_error + visibility_change list" where
  "granted_effects cfg lc ad s schema ctx c g =
     (if ch_op c = ''delete''
      then materialize_revoke_tombstones cfg lc ad s schema (fc_actor ctx) g (fc_requested ctx) (ch_seq c)
      else materialize_grant_backfill cfg lc ad s schema (fc_actor ctx) g (fc_requested ctx) (ch_seq c))"

definition feed_change ::
  "migration_config \<Rightarrow> (string \<Rightarrow> string \<Rightarrow> int) \<Rightarrow> 's adapter \<Rightarrow> 's \<Rightarrow> policy_schema \<Rightarrow> feed_context \<Rightarrow> change_entry \<Rightarrow> feed_state \<Rightarrow>
   db_error resolve_error + feed_state" where
  "feed_change cfg lc ad s schema ctx c st =
     (if ch_resource c = GLOBAL_PERMISSIONS_TABLE then
        bind_sum (prior_record ad s (fc_namespace ctx) GLOBAL_PERMISSIONS_TABLE c) (\<lambda>row.
          case Option.bind row parse_permission_grant of
            None \<Rightarrow> Inr st
          | Some g \<Rightarrow>
              if pg_principal g \<noteq> canonicalize_actor_principal (fc_actor ctx) \<and> pg_principal g \<notin> set (fc_principals ctx) \<and>
                 pg_principal g \<notin> set (fs_members st) then Inr st
              else
                bind_sum (granted_effects cfg lc ad s schema ctx c g) (\<lambda>effects.
                  Inr (st\<lparr>fs_feed := fs_feed st @ [\<lparr>fe_seq = ch_seq c,
                          fe_type = (if ch_op c = ''delete'' then ''permission_revoked'' else ''permission_granted''),
                          fe_principal = pg_principal g, fe_resource_type = Some (pg_type g),
                          fe_resource_id = (case pg_resource g of None \<Rightarrow> JNull | Some i \<Rightarrow> JStr i)\<rparr>],
                        fs_visible := fs_visible st @ effects\<rparr>)))
      else if ch_resource c = PRINCIPAL_MEMBERSHIPS_TABLE then
        bind_sum (prior_record ad s (fc_namespace ctx) PRINCIPAL_MEMBERSHIPS_TABLE c) (\<lambda>row.
          case Option.bind row parse_membership of
            None \<Rightarrow> Inr st
          | Some (actor, group_id) \<Rightarrow>
              if actor \<noteq> fc_actor ctx then Inr st
              else
                bind_sum (list_active_principal_grants ad s (fc_namespace ctx) group_id) (\<lambda>grants.
                bind_sum (map_sum_list (granted_effects cfg lc ad s schema ctx c) grants) (\<lambda>effects.
                  Inr (st\<lparr>fs_members := jset_add group_id (fs_members st),
                        fs_feed := fs_feed st @ [\<lparr>fe_seq = ch_seq c,
                          fe_type = (if ch_op c = ''delete'' then ''membership_removed'' else ''membership_added''),
                          fe_principal = group_id, fe_resource_type = None, fe_resource_id = JUndef\<rparr>],
                        fs_visible := fs_visible st @ concat effects\<rparr>))))
      else if ch_resource c = PRINCIPAL_HIERARCHY_TABLE then
        (let row = or_else (ch_record c) []
         in case (non_empty_string (js_get row ''principalId''), non_empty_string (js_get row ''parentPrincipalId'')) of
              (Some p, Some q) \<Rightarrow>
                if p \<notin> set (fc_principals ctx) \<and> q \<notin> set (fc_principals ctx) then Inr st
                else Inr (st\<lparr>fs_feed := fs_feed st @ [\<lparr>fe_seq = ch_seq c, fe_type = ''hierarchy_changed'', fe_principal = p,
                       fe_resource_type = None, fe_resource_id = JUndef\<rparr>]\<rparr>)
            | _ \<Rightarrow> Inr st)
      else Inr st)"

definition build_actor_feed_effects ::
  "migration_config \<Rightarrow> (string \<Rightarrow> string \<Rightarrow> int) \<Rightarrow> 's adapter \<Rightarrow> 's \<Rightarrow> policy_schema \<Rightarrow> string \<Rightarrow> string \<Rightarrow> change_entry list \<Rightarrow>
   string list option \<Rightarrow> db_error resolve_error + feed_entry list \<times> visibility_change list \<times> jsnum" where
  "build_actor_feed_effects cfg lc ad s schema ns actor feedChanges requested =
     bind_sum (pull_actor_principals lc ad s ns actor) (\<lambda>ps.
       (let ctx = \<lparr>fc_principals = jset_add (canonicalize_actor_principal actor) (js_unique ps), fc_actor = actor,
              fc_namespace = ns, fc_requested = requested\<rparr>;
            ordered = js_sort (\<lambda>a b. num_cmp (ch_seq a - ch_seq b)) feedChanges
        in bind_sum (fold_sum (feed_change cfg lc ad s schema ctx) ordered \<lparr>fs_feed = [], fs_visible = [], fs_members = []\<rparr>) (\<lambda>st.
             Inr (fs_feed st, finalize_visibility_changes lc (fs_visible st),
               foldl (\<lambda>m c. js_max m (ch_seq c)) (Fin 0) ordered))))"

section \<open>Merging the streams of the tables\<close>

record change_stream =
  cst_resource :: string
  cst_changes :: "change_entry list"

definition compare_canonical :: "(string \<Rightarrow> string \<Rightarrow> int) \<Rightarrow> string \<times> change_entry \<Rightarrow> string \<times> change_entry \<Rightarrow> int" where
  "compare_canonical lc a b =
     cmp_chain [num_cmp (ch_seq (snd a) - ch_seq (snd b)), lc (fst a) (fst b), lc (ch_id (snd a)) (ch_id (snd b))]"

definition head_of :: "change_stream \<Rightarrow> string \<times> change_entry" where
  "head_of h = (cst_resource h, hd (cst_changes h))"

definition best_head :: "(string \<Rightarrow> string \<Rightarrow> int) \<Rightarrow> change_stream list \<Rightarrow> nat" where
  "best_head lc heads =
     foldl (\<lambda>best idx. if compare_canonical lc (head_of (heads ! idx)) (head_of (heads ! best)) < 0 then idx else best)
       0 [1..<length heads]"

definition advance_head :: "nat \<Rightarrow> change_stream list \<Rightarrow> change_stream list" where
  "advance_head i heads =
     (case tl (cst_changes (heads ! i)) of
        [] \<Rightarrow> take i heads @ drop (Suc i) heads
      | cs \<Rightarrow> heads[i := (heads ! i)\<lparr>cst_changes := cs\<rparr>])"

definition heads_size :: "change_stream list \<Rightarrow> nat" where
  "heads_size heads = sum_list (map (\<lambda>h. length (cst_changes h)) heads)"

lemma advance_head_size:
  assumes "i < length heads" and "cst_changes (heads ! i) \<noteq> []"
  shows "heads_size (advance_head i heads) < heads_size heads"
proof -
  have split: "heads = take i heads @ heads ! i # drop (Suc i) heads" using assms(1) by (rule id_take_nth_drop)
  have size: "heads_size heads = heads_size (take i heads) + length (cst_changes (heads ! i)) + heads_size (drop (Suc i) heads)"
    by (subst split) (simp add: heads_size_def)
  obtain x cs where head: "cst_changes (heads ! i) = x # cs" using assms(2) by (cases "cst_changes (heads ! i)") auto
  show ?thesis
  proof (cases cs)
    case Nil
    then show ?thesis using size head by (simp add: advance_head_def heads_size_def)
  next
    case (Cons y ys)
    have "heads_size (heads[i := (heads ! i)\<lparr>cst_changes := cs\<rparr>]) = heads_size (take i heads) + length cs + heads_size (drop (Suc i) heads)"
      using assms(1) by (simp add: upd_conv_take_nth_drop heads_size_def)
    then show ?thesis using size head Cons by (simp add: advance_head_def)
  qed
qed

lemma best_head_less: "heads \<noteq> [] \<Longrightarrow> best_head lc heads < length heads"
proof -
  assume "heads \<noteq> []"
  have "foldl (\<lambda>best idx. if P idx best then idx else best) b is < n" if "b < n" and "\<forall>i \<in> set is. i < n" for P :: "nat \<Rightarrow> nat \<Rightarrow> bool" and b n "is"
    using that by (induction "is" arbitrary: b) auto
  from this [of 0 "length heads" "[1..<length heads]"] show ?thesis using \<open>heads \<noteq> []\<close> by (simp add: best_head_def)
qed

text \<open>The window the merge looks at is not reported here; streams without changes are dropped before.\<close>

function merge_streams ::
  "(string \<Rightarrow> string \<Rightarrow> int) \<Rightarrow> jsnum \<Rightarrow> change_stream list \<Rightarrow> (string \<times> change_entry) list \<Rightarrow> (string \<times> change_entry) list \<times> change_stream list" where
  "merge_streams lc lmt heads merged =
     (if heads = [] \<or> \<not> Fin (of_nat (length merged)) < lmt \<or> list_ex (\<lambda>h. cst_changes h = []) heads then (merged, heads)
      else
        (let i = best_head lc heads
         in merge_streams lc lmt (advance_head i heads) (merged @ [head_of (heads ! i)])))"
  by pat_completeness auto
termination
  by (relation "measure (\<lambda>(lc, lmt, heads, merged). heads_size heads)")
    (auto intro!: advance_head_size simp: best_head_less list_ex_iff)

declare merge_streams.simps [simp del]

definition latest_cursors :: "(string \<times> change_entry) list \<Rightarrow> (string, jsnum) jmap" where
  "latest_cursors merged =
     foldl (\<lambda>m (resource, c). jmap_set resource
       (js_max (case jmap_get m resource of None \<Rightarrow> Fin 0 | Some n \<Rightarrow> if num_truthy n then n else Fin 0) (ch_seq c)) m) [] merged"

definition merge_canonical_change_streams ::
  "(string \<Rightarrow> string \<Rightarrow> int) \<Rightarrow> change_stream list \<Rightarrow> jsnum \<Rightarrow> (string \<times> change_entry) list \<times> (string, jsnum) jmap \<times> bool" where
  "merge_canonical_change_streams lc streams lmt =
     (case merge_streams lc lmt (filter (\<lambda>st. cst_changes st \<noteq> []) streams) [] of
        (merged, heads) \<Rightarrow> (merged, latest_cursors merged, heads \<noteq> []))"

section \<open>Pulling with one cursor\<close>

datatype pull_reply =
    PullRefused string string
  | PulledGlobal "visibility_change list" "string option" "feed_entry list"
  | PulledCanonical canonical_pull "feed_entry list"

definition valid_limit :: "jsnum \<Rightarrow> bool" where
  "valid_limit n = (js_is_integer n \<and> \<not> n \<le> Fin 0)"

definition number_of :: "jsval \<Rightarrow> jsnum" where
  "number_of v = (case v of JNum n \<Rightarrow> n | _ \<Rightarrow> NaN)"

definition limit_of :: "jsrec \<Rightarrow> jsnum \<Rightarrow> jsnum" where
  "limit_of request d = (if js_nullish (js_get request ''limit'') then d else number_of (js_get request ''limit''))"

definition plain_change :: "change_entry \<Rightarrow> visibility_change" where
  "plain_change c =
     \<lparr>vc_seq = ch_seq c, vc_resource = ch_resource c, vc_id = ch_id c, vc_delete = (ch_op c = ''delete''),
      vc_record = (if ch_op c = ''delete'' then None else ch_record c), vc_reason = None\<rparr>"

definition visible_change ::
  "migration_config \<Rightarrow> (string \<Rightarrow> string \<Rightarrow> int) \<Rightarrow> 's adapter \<Rightarrow> 's \<Rightarrow> policy_schema \<Rightarrow> string \<Rightarrow> string option \<Rightarrow> change_entry \<Rightarrow>
   db_error resolve_error + visibility_change option" where
  "visible_change cfg lc ad s schema ns actor c =
     (if is_data_resource_key (ch_resource c) \<and> is_private_shareable_resource schema (ch_resource c) then
        (if actor = None then Inr None
         else if ch_op c = ''delete'' then Inr (Some (plain_change c))
         else map_sum id (\<lambda>seen. if seen then Some (plain_change c) else None)
           (has_actor_record_access cfg lc ad s schema (ch_resource c) (ch_id c) actor ns))
      else Inr (Some (plain_change c)))"

definition execute_pull_global ::
  "migration_config \<Rightarrow> (string \<Rightarrow> string \<Rightarrow> int) \<Rightarrow> (rat \<Rightarrow> string) \<Rightarrow> 's adapter \<Rightarrow> 's \<Rightarrow> policy_schema \<Rightarrow> string \<Rightarrow> jsrec \<Rightarrow>
   db_error resolve_error + pull_reply" where
  "execute_pull_global cfg lc dtoa ad s schema ns request =
     (case js_get request ''cursor'' of
        JStr cursor \<Rightarrow>
          (let lmt = limit_of request (Fin 100); actor = non_empty_string (js_get request ''actorId'')
           in if \<not> validate_cursor cursor then Inr (PullRefused ''Invalid DFQL: cursor must be an integer string'' ''cursor'')
              else if \<not> valid_limit lmt then Inr (PullRefused ''Invalid DFQL: limit must be a positive integer'' ''limit'')
              else
                bind_sum (map_sum StoreFailure id (get_global_changes ad s ns (js_parse_int cursor) lmt)) (\<lambda>raw.
                bind_sum (map_sum_list (visible_change cfg lc ad s schema ns actor) (filter (\<lambda>c. \<not> is_feed_resource (ch_resource c)) raw)) (\<lambda>seen.
                bind_sum (case actor of None \<Rightarrow> Inr ([], [], Fin 0)
                    | Some a \<Rightarrow> build_actor_feed_effects cfg lc ad s schema ns a (filter (\<lambda>c. is_feed_resource (ch_resource c)) raw) None)
                  (\<lambda>(feed, effects, _).
                     Inr (PulledGlobal (js_sort (by_place lc) (some_of seen @ effects))
                       (if raw = [] then None else Some (num_to_string dtoa (ch_seq (last raw)))) feed)))))
      | _ \<Rightarrow> Inr (PullRefused ''Invalid DFQL: cursor must be an integer string'' ''cursor''))"

section \<open>Pulling with a cursor per table\<close>

record page_state =
  pa_records :: "(string, jsrec list) jmap"
  pa_merged :: "(string, jsrec list) jmap"
  pa_deleted :: "(string, string list) jmap"
  pa_joins :: "(string, join_delta) jmap"

definition push_value :: "string \<Rightarrow> 'a \<Rightarrow> (string, 'a list) jmap \<Rightarrow> (string, 'a list) jmap" where
  "push_value k v m = jmap_set k ((case jmap_get m k of None \<Rightarrow> [] | Some vs \<Rightarrow> vs) @ [v]) m"

definition id_part :: "string \<Rightarrow> nat \<Rightarrow> string" where
  "id_part i n = (let parts = js_split '':'' i in if n < length parts then parts ! n else ''undefined'')"

definition page_join :: "string \<Rightarrow> change_entry \<Rightarrow> page_state \<Rightarrow> page_state" where
  "page_join resource c pa =
     (let d = (case jmap_get (pa_joins pa) resource of None \<Rightarrow> \<lparr>jd_upsert = [], jd_delete = []\<rparr> | Some d \<Rightarrow> d);
          row = or_else (ch_record c) [];
          d' = (if ch_op c \<in> {''upsert'', ''insert'', ''replace''} \<and> ch_record c \<noteq> None then d\<lparr>jd_upsert := jd_upsert d @ [row]\<rparr>
                else if ch_op c = ''delete''
                then d\<lparr>jd_delete := jd_delete d @ [(or_else (non_empty_string (js_get row ''from'')) (id_part (ch_id c) 0),
                       or_else (non_empty_string (js_get row ''to'')) (id_part (ch_id c) 1))]\<rparr>
                else d)
      in pa\<lparr>pa_joins := jmap_set resource d' (pa_joins pa)\<rparr>)"

definition page_change ::
  "migration_config \<Rightarrow> (string \<Rightarrow> string \<Rightarrow> int) \<Rightarrow> 's adapter \<Rightarrow> 's \<Rightarrow> policy_schema \<Rightarrow> string \<Rightarrow> string option \<Rightarrow> string \<times> change_entry \<Rightarrow>
   page_state \<Rightarrow> db_error resolve_error + page_state" where
  "page_change cfg lc ad s schema ns actor = (\<lambda>(resource, c) pa.
     let private = is_private_shareable_resource schema resource;
         if_seen = (\<lambda>pa'. if \<not> private then Inr pa'
           else map_sum id (\<lambda>seen. if seen then pa' else pa) (has_actor_record_access cfg lc ad s schema resource (ch_id c) actor ns))
     in if starts_with resource ''join_'' then Inr (page_join resource c pa)
        else if \<not> is_data_resource_key resource then Inr pa
        else if private \<and> actor = None then Inr pa
        else
          (case ch_record c of
             Some r \<Rightarrow>
               if ch_op c = ''merge'' then if_seen (pa\<lparr>pa_merged := push_value resource r (pa_merged pa)\<rparr>)
               else if ch_op c \<in> {''insert'', ''replace'', ''upsert''} then if_seen (pa\<lparr>pa_records := push_value resource r (pa_records pa)\<rparr>)
               else if ch_op c = ''delete'' then Inr (pa\<lparr>pa_deleted := push_value resource (ch_id c) (pa_deleted pa)\<rparr>) else Inr pa
           | None \<Rightarrow>
               if ch_op c = ''delete'' then Inr (pa\<lparr>pa_deleted := push_value resource (ch_id c) (pa_deleted pa)\<rparr>) else Inr pa))"

definition page_effect :: "visibility_change \<Rightarrow> page_state \<Rightarrow> page_state" where
  "page_effect v pa =
     (let present_list = (\<lambda>m. if jmap_has m (vc_resource v) then m else jmap_set (vc_resource v) [] m);
          pa1 = pa\<lparr>pa_records := present_list (pa_records pa),
            pa_deleted := (if jmap_has (pa_deleted pa) (vc_resource v) then pa_deleted pa else jmap_set (vc_resource v) [] (pa_deleted pa))\<rparr>
      in if vc_delete v then pa1\<lparr>pa_deleted := push_value (vc_resource v) (vc_id v) (pa_deleted pa1)\<rparr>
         else (case vc_record v of None \<Rightarrow> pa1 | Some r \<Rightarrow> pa1\<lparr>pa_records := push_value (vc_resource v) r (pa_records pa1)\<rparr>))"

definition with_string_id :: "string \<Rightarrow> jsrec \<Rightarrow> jsrec" where
  "with_string_id i r = jmap_set ''id'' (JStr i) r"

definition dedupe_records :: "(string \<Rightarrow> string \<Rightarrow> int) \<Rightarrow> jsrec list \<Rightarrow> jsrec list" where
  "dedupe_records lc rs =
     map snd (js_sort (\<lambda>a b. lc (fst a) (fst b))
       (foldl (\<lambda>m r. case non_empty_string (js_get r ''id'') of None \<Rightarrow> m | Some i \<Rightarrow> jmap_set i (with_string_id i (spread [] r)) m) [] rs))"

definition dedupe_merged :: "(string \<Rightarrow> string \<Rightarrow> int) \<Rightarrow> jsrec list \<Rightarrow> jsrec list" where
  "dedupe_merged lc rs =
     map snd (js_sort (\<lambda>a b. lc (fst a) (fst b))
       (foldl (\<lambda>m r. case non_empty_string (js_get r ''id'') of
          None \<Rightarrow> m
        | Some i \<Rightarrow> jmap_set i (with_string_id i (spread (or_else (jmap_get m i) [(''id'', JStr i)]) r)) m) [] rs))"

definition join_row_key :: "(rat \<Rightarrow> string) \<Rightarrow> jsrec \<Rightarrow> string" where
  "join_row_key dtoa row = (if js_nullish (js_get row ''id'') then join_key dtoa row else js_string dtoa (js_get row ''id''))"

definition sort_join_delta :: "(string \<Rightarrow> string \<Rightarrow> int) \<Rightarrow> (rat \<Rightarrow> string) \<Rightarrow> join_delta \<Rightarrow> join_delta" where
  "sort_join_delta lc dtoa d =
     \<lparr>jd_upsert = js_sort (\<lambda>a b. lc (join_row_key dtoa a) (join_row_key dtoa b)) (jd_upsert d),
      jd_delete = js_sort (\<lambda>a b. lc (fst a @ '':'' @ snd a) (fst b @ '':'' @ snd b)) (jd_delete d)\<rparr>"

abbreviation map_values :: "('v \<Rightarrow> 'w) \<Rightarrow> ('k, 'v) jmap \<Rightarrow> ('k, 'w) jmap" where
  "map_values f \<equiv> map (\<lambda>(k, v). (k, f v))"

definition feed_cursor :: "(string, string) jmap \<Rightarrow> string" where
  "feed_cursor cursors =
     (case jmap_get cursors ACTOR_FEED_CURSOR_KEY of
        Some c \<Rightarrow> c
      | None \<Rightarrow>
          (case js_sort (\<lambda>a b. num_cmp (string_to_number a - string_to_number b)) (jmap_values cursors) of
             [] \<Rightarrow> ''0''
           | c # _ \<Rightarrow> c))"

fun cursor_entries :: "(string \<times> jsval) list \<Rightarrow> string + (string, string) jmap" where
  "cursor_entries [] = Inr []"
| "cursor_entries ((k, v) # kvs) =
     (case v of
        JStr c \<Rightarrow> if validate_cursor c then bind_sum (cursor_entries kvs) (\<lambda>cs. Inr ((k, c) # cs)) else Inl k
      | _ \<Rightarrow> Inl k)"

definition canonical_page ::
  "migration_config \<Rightarrow> (string \<Rightarrow> string \<Rightarrow> int) \<Rightarrow> (rat \<Rightarrow> string) \<Rightarrow> 's adapter \<Rightarrow> 's \<Rightarrow> policy_schema \<Rightarrow> string \<Rightarrow> (string, string) jmap \<Rightarrow>
   jsnum \<Rightarrow> string option \<Rightarrow> bool \<Rightarrow> db_error resolve_error + pull_reply" where
  "canonical_page cfg lc dtoa ad s schema ns cursors lmt actor includeJoins =
     (let requested = filter (\<lambda>r. r \<noteq> ACTOR_FEED_CURSOR_KEY) (jmap_keys cursors);
          data = filter is_data_resource_key requested;
          start = \<lparr>pa_records = map (\<lambda>r. (r, [])) data, pa_merged = [], pa_deleted = map (\<lambda>r. (r, [])) data, pa_joins = []\<rparr>
      in bind_sum (map_sum_list (\<lambda>r. map_sum StoreFailure (\<lambda>cs. \<lparr>cst_resource = r, cst_changes = cs\<rparr>)
             (get_changes_since ad s ns r (js_parse_int (the (jmap_get cursors r))) (Some (lmt + Fin 1)))) requested) (\<lambda>streams.
         case merge_canonical_change_streams lc streams lmt of
           (limited, latest, baseMore) \<Rightarrow>
             bind_sum (fold_sum (page_change cfg lc ad s schema ns actor) limited start) (\<lambda>pa.
             bind_sum
               (case actor of
                  None \<Rightarrow> Inr ([], [], Fin 0, False)
                | Some a \<Rightarrow>
                    bind_sum (map_sum StoreFailure id (get_changes_for_resources_since ad s ns ACTOR_FEED_RESOURCES
                        (js_parse_int (feed_cursor cursors)) (Some (lmt + Fin 1)))) (\<lambda>feedChanges.
                    bind_sum (build_actor_feed_effects cfg lc ad s schema ns a (js_slice (Fin 0) lmt feedChanges) (Some data))
                      (\<lambda>(feed, effects, latestFeed). Inr (feed, effects, latestFeed, lmt < Fin (of_nat (length feedChanges))))))
               (\<lambda>(feed, effects, latestFeed, feedMore).
                  let pa' = foldl (\<lambda>pa v. page_effect v pa) pa effects;
                      cursors1 = (if Fin 0 < latestFeed then jmap_set ACTOR_FEED_CURSOR_KEY (num_to_string dtoa latestFeed) cursors else cursors);
                      cursors2 = foldl (\<lambda>m (r, n). jmap_set r (num_to_string dtoa n) m) cursors1 latest;
                      merged = map_values (dedupe_merged lc) (pa_merged pa');
                      joins = map_values (sort_join_delta lc dtoa) (pa_joins pa')
                  in Inr (PulledCanonical
                       \<lparr>kp_records = map_values (dedupe_records lc) (pa_records pa'),
                        kp_merged = (if merged = [] then None else Some merged),
                        kp_deleted = map_values (\<lambda>is. js_sort lc (js_unique is)) (pa_deleted pa'),
                        kp_joins = (if includeJoins \<and> joins \<noteq> [] then Some joins else None),
                        kp_cursors = cursors2, kp_more = (baseMore \<or> feedMore)\<rparr> feed)))))"

definition execute_pull_canonical ::
  "migration_config \<Rightarrow> (string \<Rightarrow> string \<Rightarrow> int) \<Rightarrow> (rat \<Rightarrow> string) \<Rightarrow> 's adapter \<Rightarrow> 's \<Rightarrow> policy_schema \<Rightarrow> string \<Rightarrow> jsnum option \<Rightarrow> jsrec \<Rightarrow>
   db_error resolve_error + pull_reply" where
  "execute_pull_canonical cfg lc dtoa ad s schema ns maxPullLimit request =
     (case js_get request ''cursors'' of
        JObj entries \<Rightarrow>
          (case cursor_entries entries of
             Inl k \<Rightarrow> Inr (PullRefused ''Invalid DFQL: cursor must be an integer string'' (''cursors.'' @ k))
           | Inr cursors \<Rightarrow>
               (let lmt = limit_of request (Fin 200);
                    most = (case maxPullLimit of Some n \<Rightarrow> if Fin 0 < n then n else Fin 1000 | None \<Rightarrow> Fin 1000)
                in if \<not> valid_limit lmt then Inr (PullRefused ''Invalid DFQL: limit must be a positive integer'' ''limit'')
                   else canonical_page cfg lc dtoa ad s schema ns cursors (js_min lmt most)
                     (non_empty_string (js_get request ''actorId'')) (js_truthy (js_get request ''includeJoins''))))
      | _ \<Rightarrow> Inr (PullRefused ''Invalid DFQL: cursors must be an object'' ''cursors''))"

definition execute_pull ::
  "migration_config \<Rightarrow> (string \<Rightarrow> string \<Rightarrow> int) \<Rightarrow> (rat \<Rightarrow> string) \<Rightarrow> 's adapter \<Rightarrow> 's \<Rightarrow> policy_schema \<Rightarrow> string \<Rightarrow> jsnum option \<Rightarrow> jsrec \<Rightarrow>
   db_error resolve_error + pull_reply" where
  "execute_pull cfg lc dtoa ad s schema ns maxPullLimit request =
     (case js_get request ''clientId'' of
        JStr (c # cs) \<Rightarrow>
          (case js_get request ''cursor'' of
             JStr _ \<Rightarrow> execute_pull_global cfg lc dtoa ad s schema ns request
           | _ \<Rightarrow> execute_pull_canonical cfg lc dtoa ad s schema ns maxPullLimit request)
      | _ \<Rightarrow> Inr (PullRefused ''Invalid DFQL: clientId must be string'' ''clientId''))"

end
