(* ===== verification/SyncEngine.thy ===== *)
theory SyncEngine
  imports SyncPull
begin

text \<open>
  The pull of the client, \<open>datafn/client/src/sync/engine.ts\<close>: the cursors it sends and the loop that
  catches up page by page, at most \<open>maxPullIterations\<close> times. The server is a function of the cursors.
  Plugins, encryption, the search index, events and the flag that keeps two pulls apart are left out.
\<close>

datatype sync_error = CursorUnavailable string | PullRejected string | ApplyFailed apply_error

definition build_pull_cursors :: "string list \<Rightarrow> string list \<Rightarrow> client_storage \<Rightarrow> string + (string, string) jmap" where
  "build_pull_cursors resources joinStores t =
     fold_sum (\<lambda>n m. bind_sum (fst (get_cursor n t)) (\<lambda>c. Inr (jmap_set n (or_else c ''0'') m)))
       (resources @ joinStores @ [ACTOR_FEED_CURSOR_KEY]) []"

fun catch_up ::
  "(rat \<Rightarrow> string) \<Rightarrow> ((string, string) jmap \<Rightarrow> string + canonical_pull) \<Rightarrow> nat \<Rightarrow> (string, string) jmap \<Rightarrow>
   canonical_pull option \<Rightarrow> client_storage \<Rightarrow> (sync_error + canonical_pull option) \<times> client_storage" where
  "catch_up dtoa remote 0 cursors lastResult t = (Inr lastResult, t)"
| "catch_up dtoa remote (Suc iterations) cursors lastResult t =
     (case remote cursors of
        Inl e \<Rightarrow> (Inl (PullRejected e), t)
      | Inr p \<Rightarrow>
          (case apply_pull_result dtoa (CanonicalPull p) t of
             (Inl e, t') \<Rightarrow> (Inl (ApplyFailed e), t')
           | (Inr _, t') \<Rightarrow>
               if kp_more p then catch_up dtoa remote iterations (foldl (\<lambda>m (n, c). jmap_set n c m) cursors (kp_cursors p)) (Some p) t'
               else (Inr (Some p), t')))"

definition pull_now ::
  "(rat \<Rightarrow> string) \<Rightarrow> ((string, string) jmap \<Rightarrow> string + canonical_pull) \<Rightarrow> string list \<Rightarrow> string list \<Rightarrow> nat option \<Rightarrow>
   client_storage \<Rightarrow> (sync_error + canonical_pull option) \<times> client_storage" where
  "pull_now dtoa remote resources joinStores maxPullIterations t =
     (case build_pull_cursors resources joinStores t of
        Inl e \<Rightarrow> (Inl (CursorUnavailable e), t)
      | Inr cursors \<Rightarrow> if cursors = [] then (Inr None, t) else catch_up dtoa remote (or_else maxPullIterations 50) cursors None t)"

definition pull_request :: "string \<Rightarrow> jsnum option \<Rightarrow> (string, string) jmap \<Rightarrow> jsrec" where
  "pull_request clientId pullBatchSize cursors =
     [(''clientId'', JStr clientId), (''cursors'', JObj (map (\<lambda>(n, c). (n, JStr c)) cursors)),
      (''limit'', JNum (or_else pullBatchSize (Fin 200))), (''includeJoins'', JBool True)]"

end
