(* ===== verification/Replica.thy ===== *)
theory Replica
  imports SyncPull
begin

text \<open>
  A replica of a table: the fields of every record, by id. Replaying a change log on a replica is
  what pulling is for; the operations of the client's storage are shown to be updates of the
  replica that the storage holds.
\<close>

section \<open>Replicas\<close>

type_synonym fields = "string \<Rightarrow> jsval option"
type_synonym replica = "string \<Rightarrow> fields option"

definition merge_fields :: "fields \<Rightarrow> jsrec \<Rightarrow> fields" where
  "merge_fields old r = (\<lambda>k. case jmap_get r k of None \<Rightarrow> old k
     | Some sv \<Rightarrow> Some (merge_value (case old k of None \<Rightarrow> JUndef | Some tv \<Rightarrow> tv) sv))"

definition merged_into :: "jsrec \<Rightarrow> fields option \<Rightarrow> fields option" where
  "merged_into r v = Some (case v of None \<Rightarrow> jmap_get r | Some old \<Rightarrow> merge_fields old r)"

definition SETS :: "string list" where "SETS = [''insert'', ''replace'', ''upsert'']"

definition replay_change :: "change_entry \<Rightarrow> replica \<Rightarrow> replica" where
  "replay_change c v =
     (if ch_op c = ''delete'' then v(ch_id c := None)
      else
        (case ch_record c of
           None \<Rightarrow> v
         | Some r \<Rightarrow>
             if ch_op c = ''merge'' then v(ch_id c := merged_into r (v (ch_id c)))
             else if ch_op c \<in> set SETS then v(ch_id c := Some (jmap_get r)) else v))"

definition replay :: "change_entry list \<Rightarrow> replica \<Rightarrow> replica" where
  "replay cs v = foldl (\<lambda>v c. replay_change c v) v cs"

definition replica_of :: "client_storage \<Rightarrow> string \<Rightarrow> replica" where
  "replica_of t name i = map_option jmap_get (jmap_get (records_of name t) (JStr i))"

definition same_but_records :: "client_storage \<Rightarrow> client_storage \<Rightarrow> bool" where
  "same_but_records t u \<longleftrightarrow> cs_valid u = cs_valid t \<and> cs_cursors u = cs_cursors t"

definition set_at :: "string \<Rightarrow> string \<Rightarrow> fields option \<Rightarrow> (string \<Rightarrow> replica) \<Rightarrow> string \<Rightarrow> replica" where
  "set_at name i x W = W(name := (W name)(i := x))"

section \<open>The storage as replicas\<close>

lemma records_of_put [simp]: "records_of m (put_records n t s) = (if m = n then t else records_of m s)"
  by (simp add: records_of_def put_records_def jmap_simps)

lemma put_records_same [simp]: "cs_valid (put_records n t s) = cs_valid s" "cs_cursors (put_records n t s) = cs_cursors s"
  by (simp_all add: put_records_def)

lemma ensure_records_of [simp]: "records_of m (ensure_records n s) = records_of m s"
  by (auto simp: ensure_records_def records_of_def put_records_def jmap_simps)

lemma ensure_same [simp]: "cs_valid (ensure_records n s) = cs_valid s" "cs_cursors (ensure_records n s) = cs_cursors s"
  by (simp_all add: ensure_records_def)

lemma replica_put: "replica_of (put_records n (jmap_set (JStr i) r (records_of n s)) s) = set_at n i (Some (jmap_get r)) (replica_of s)"
  by (rule ext)+ (simp add: replica_of_def set_at_def jmap_simps)

lemma replica_ensure [simp]: "replica_of (ensure_records n s) = replica_of s"
  by (rule ext)+ (simp add: replica_of_def)

lemma js_truthy_id: "i \<noteq> [] \<Longrightarrow> js_truthy (JStr i)"
  by (simp add: js_truthy_def)

definition good_id :: "string \<Rightarrow> bool" where "good_id i \<longleftrightarrow> non_empty_string (JStr i) = Some i"

lemma good_id_nonempty: "good_id i \<Longrightarrow> i \<noteq> []"
  by (auto simp: good_id_def non_empty_string_def split: if_splits)

definition good_record :: "string \<Rightarrow> jsrec \<Rightarrow> bool" where
  "good_record i r \<longleftrightarrow> js_get r ''id'' = JStr i \<and> good_id i \<and> jmap_ok r"

lemma good_record_get: "good_record i r \<Longrightarrow> jmap_get r ''id'' = Some (JStr i)"
  by (auto simp: good_record_def js_get_def split: option.splits)

lemma upsert_replica:
  assumes "\<not> invalid_table n t" and "good_record i r"
  shows "\<exists>u. upsert_record n r t = (Inr (), u) \<and> same_but_records t u \<and> replica_of u = set_at n i (Some (jmap_get r)) (replica_of t)"
proof -
  let ?s = "ensure_records n t"
  have i: "js_get r ''id'' = JStr i" "js_truthy (JStr i)"
    using assms(2) good_id_nonempty js_truthy_id by (auto simp: good_record_def)
  have "upsert_record n r t = (Inr (), put_records n (jmap_set (JStr i) r (records_of n ?s)) ?s)"
    using assms(1) i by (simp add: upsert_record_def on_table_def Let_def)
  then show ?thesis using replica_put [of n i r ?s] by (simp add: same_but_records_def)
qed

lemma delete_replica:
  assumes "\<not> invalid_table n t"
  shows "\<exists>u. delete_record n (JStr i) t = (Inr (), u) \<and> same_but_records t u \<and> replica_of u = set_at n i None (replica_of t)"
proof (cases "jmap_get (cs_records t) n")
  case None
  then have "replica_of t = set_at n i None (replica_of t)"
    by (intro ext) (simp add: replica_of_def set_at_def records_of_def)
  then show ?thesis using assms None by (simp add: delete_record_def on_table_def same_but_records_def)
next
  case (Some rows)
  have "replica_of (put_records n (jmap_del (JStr i) rows) t) = set_at n i None (replica_of t)"
    using Some by (intro ext) (simp add: replica_of_def set_at_def jmap_simps records_of_def put_records_def)
  then show ?thesis using assms Some by (simp add: delete_record_def on_table_def same_but_records_def)
qed

lemma spread_get: "jmap_ok r \<Longrightarrow> jmap_get (spread b r) k = (case jmap_get r k of None \<Rightarrow> jmap_get b k | Some v \<Rightarrow> Some v)"
proof (induction r arbitrary: b)
  case (Cons p r)
  obtain j v where p: "p = (j, v)" by fastforce
  have step: "spread b ((j, v) # r) = spread (jmap_set j v b) r" by (simp add: spread_def)
  have "jmap_get r j = None" using Cons.prems p by (simp add: map_of_eq_None_iff)
  then show ?case unfolding p step using Cons p by (simp add: jmap_simps split: option.split)
qed (simp add: spread_def)

lemma spread_ok: "jmap_ok b \<Longrightarrow> jmap_ok (spread b r)"
  by (induction r arbitrary: b) (auto simp: spread_def)

lemma deep_merge_get: "jmap_get (deep_merge old r) = merge_fields (jmap_get old) r"
proof
  fix k
  have "jmap_get (foldl (\<lambda>acc k. jmap_set k (f k) acc) acc ks) k = (if k \<in> set ks then Some (f k) else jmap_get acc k)" for f ks and acc :: jsrec
    by (induction ks arbitrary: acc) (auto simp: jmap_simps)
  note fold = this
  show "jmap_get (deep_merge old r) k = merge_fields (jmap_get old) r k"
  proof (cases "jmap_get r k")
    case None
    then have "k \<notin> set (jmap_keys r)" by (simp add: map_of_eq_None_iff)
    then show ?thesis by (simp add: deep_merge_def fold merge_fields_def None)
  next
    case (Some v)
    then have "k \<in> set (jmap_keys r)" by (metis jmap_has_keys option.distinct(1))
    then show ?thesis by (simp add: deep_merge_def fold merge_fields_def Some js_get_def)
  qed
qed

lemma set_same_field: "jmap_get r k = Some v \<Longrightarrow> jmap_get (jmap_set k v r) = jmap_get r"
  by (rule ext) (simp add: jmap_simps)

lemma merge_replica:
  assumes "\<not> invalid_table n t" and "good_record i r"
  shows "\<exists>m u. merge_record n (JStr i) r None t = (Inr m, u) \<and> same_but_records t u \<and>
    replica_of u = set_at n i (merged_into r (replica_of t n i)) (replica_of t)"
proof -
  let ?s = "ensure_records n t"
  let ?m = "jmap_set ''id'' (JStr i) (case jmap_get (records_of n t) (JStr i) of Some existing \<Rightarrow> deep_merge existing r | None \<Rightarrow> spread [] r)"
  have i: "js_truthy (JStr i)" using assms(2) good_id_nonempty js_truthy_id by (auto simp: good_record_def)
  have get: "jmap_get r ''id'' = Some (JStr i)" by (rule good_record_get [OF assms(2)])
  have run: "merge_record n (JStr i) r None t = (Inr ?m, put_records n (jmap_set (JStr i) ?m (records_of n ?s)) ?s)"
    using assms(1) i by (simp add: merge_record_def on_table_def Let_def cong: option.case_cong)
  have fields: "Some (jmap_get ?m) = merged_into r (replica_of t n i)"
  proof (cases "jmap_get (records_of n t) (JStr i)")
    case None
    have "jmap_get (spread [] r) = jmap_get r"
      using assms(2) by (intro ext) (simp add: spread_get good_record_def split: option.split)
    then show ?thesis using None get by (simp add: merged_into_def replica_of_def set_same_field)
  next
    case (Some old)
    have "jmap_get (deep_merge old r) ''id'' = Some (JStr i)"
      unfolding deep_merge_get by (simp add: merge_fields_def get merge_value_def split: jsval.split)
    then have "jmap_get (jmap_set ''id'' (JStr i) (deep_merge old r)) = merge_fields (jmap_get old) r"
      using set_same_field deep_merge_get by metis
    then show ?thesis using Some by (simp add: merged_into_def replica_of_def)
  qed
  have "replica_of (put_records n (jmap_set (JStr i) ?m (records_of n ?s)) ?s) = set_at n i (merged_into r (replica_of t n i)) (replica_of t)"
    unfolding replica_put fields replica_ensure ..
  then show ?thesis unfolding run by (auto simp: same_but_records_def)
qed

end
