(* ===== verification/PageMeaning.thy ===== *)
theory PageMeaning
  imports Replica
begin

text \<open>
  What a page does to replicas. Applying its records, merges and deletions is a fold over the rows of
  each table; deduplication does not change it; and a log in which every record is set, then merged,
  then deleted is replayed by its sets, its merges and its deletions.
\<close>

section \<open>Applying a page\<close>

definition rid :: "jsrec \<Rightarrow> string" where
  "rid r = (case js_get r ''id'' of JStr i \<Rightarrow> i | _ \<Rightarrow> [])"

lemma good_rid: "good_record i r \<Longrightarrow> rid r = i"
  by (simp add: good_record_def rid_def)

text \<open>A loop whose steps cannot fail is a fold over what the storage means.\<close>

lemma run_each_fold:
  assumes "\<And>x t. x \<in> set xs \<Longrightarrow> I t \<Longrightarrow> \<exists>u. f x t = (Inr (), u) \<and> I u \<and> W u = g x (W t)" and "I t"
  shows "\<exists>u. run_each f xs t = (Inr (), u) \<and> I u \<and> W u = foldl (\<lambda>w x. g x w) (W t) xs"
  using assms
proof (induction xs arbitrary: t)
  case (Cons x xs)
  obtain u where u: "f x t = (Inr (), u)" "I u" "W u = g x (W t)" using Cons.prems(1) [of x t] Cons.prems(2) by auto
  have "\<exists>v. run_each f xs u = (Inr (), v) \<and> I v \<and> W v = foldl (\<lambda>w x. g x w) (W u) xs"
    using Cons.prems(1) u(2) by (intro Cons.IH) auto
  then show ?case using u by auto
qed simp

definition same_tables :: "client_storage \<Rightarrow> client_storage \<Rightarrow> bool" where
  "same_tables t u \<longleftrightarrow> cs_valid u = cs_valid t \<and> cs_cursors u = cs_cursors t"

lemma same_valid: "cs_valid u = cs_valid t \<Longrightarrow> invalid_table n u = invalid_table n t"
  by (simp add: invalid_table_def)

definition fold_rows :: "('x \<Rightarrow> string) \<Rightarrow> ('x \<Rightarrow> fields option \<Rightarrow> fields option) \<Rightarrow> string \<Rightarrow> 'x list \<Rightarrow> (string \<Rightarrow> replica) \<Rightarrow> string \<Rightarrow> replica" where
  "fold_rows key val n xs W = foldl (\<lambda>W x. set_at n (key x) (val x (W n (key x))) W) W xs"

lemma fold_rows_at: "fold_rows key val n xs W m i =
    (if m = n then foldl (\<lambda>v x. if key x = i then val x v else v) (W n i) xs else W m i)"
  by (induction xs arbitrary: W) (auto simp: fold_rows_def set_at_def)

lemma fold_tables_at:
  assumes "jmap_ok ts"
  shows "foldl (\<lambda>W (n, xs). fold_rows key val n xs W) W ts m i =
    foldl (\<lambda>v x. if key x = i then val x v else v) (W m i) (case jmap_get ts m of None \<Rightarrow> [] | Some xs \<Rightarrow> xs)"
  using assms
proof (induction ts arbitrary: W)
  case (Cons p ts)
  obtain n xs where p: "p = (n, xs)" by fastforce
  let ?rest = "case jmap_get ts m of None \<Rightarrow> [] | Some xs \<Rightarrow> xs"
  have ok: "jmap_ok ts" and fresh: "n \<notin> fst ` set ts" using Cons.prems p by auto
  have step: "foldl (\<lambda>W (n, xs). fold_rows key val n xs W) W (p # ts) m i =
      foldl (\<lambda>v x. if key x = i then val x v else v) (fold_rows key val n xs W m i) ?rest"
    using Cons.IH [OF ok, of "fold_rows key val n xs W"] by (simp only: foldl_Cons p prod.case)
  have at: "fold_rows key val n xs W m i = (if m = n then foldl (\<lambda>v x. if key x = i then val x v else v) (W n i) xs else W m i)"
    by (rule fold_rows_at)
  note step = step [unfolded at]
  have none: "jmap_get ts n = None" using fresh by (simp only: map_of_eq_None_iff not_False_eq_True)
  have get: "jmap_get (p # ts) m = (if m = n then Some xs else jmap_get ts m)" by (simp add: p)
  show ?case unfolding get by (rule step [THEN trans]) (simp add: none)
qed simp

definition usable :: "client_storage \<Rightarrow> (string, 'x list) jmap \<Rightarrow> ('x \<Rightarrow> bool) \<Rightarrow> bool" where
  "usable t ts good \<longleftrightarrow> (\<forall>(n, xs) \<in> set ts. \<not> invalid_table n t \<and> (\<forall>x \<in> set xs. good x))"

lemma tables_fold:
  assumes step: "\<And>n x u. \<not> invalid_table n u \<Longrightarrow> good x \<Longrightarrow>
      \<exists>v. f n x u = (Inr (), v) \<and> same_but_records u v \<and> replica_of v = set_at n (key x) (val x (replica_of u n (key x))) (replica_of u)"
    and usable: "usable t ts good"
  shows "\<exists>u. run_each (\<lambda>(n, xs). run_each (f n) xs) ts t = (Inr (), u) \<and> same_but_records t u \<and>
    replica_of u = foldl (\<lambda>W (n, xs). fold_rows key val n xs W) (replica_of t) ts"
proof -
  have inner: "\<exists>v. run_each (f n) xs u = (Inr (), v) \<and> same_but_records t v \<and> replica_of v = fold_rows key val n xs (replica_of u)"
    if tab: "(n, xs) \<in> set ts" and u: "same_but_records t u" for n xs u
  proof -
    have "\<exists>v. run_each (f n) xs u = (Inr (), v) \<and> same_but_records t v \<and>
        replica_of v = foldl (\<lambda>W x. set_at n (key x) (val x (W n (key x))) W) (replica_of u) xs"
    proof (rule run_each_fold [where I = "same_but_records t"])
      fix x w assume x: "x \<in> set xs" and w: "same_but_records t w"
      have "\<not> invalid_table n t \<and> (\<forall>x \<in> set xs. good x)" using usable [unfolded usable_def] tab by blast
      moreover have "invalid_table n w = invalid_table n t" by (rule same_valid) (use w in \<open>simp add: same_but_records_def\<close>)
      ultimately have "\<not> invalid_table n w" and "good x" using x by simp_all
      from step [OF this] obtain v where "f n x w = (Inr (), v)" "same_but_records w v"
        "replica_of v = set_at n (key x) (val x (replica_of w n (key x))) (replica_of w)" by blast
      then show "\<exists>v. f n x w = (Inr (), v) \<and> same_but_records t v \<and> replica_of v = set_at n (key x) (val x (replica_of w n (key x))) (replica_of w)"
        using w by (auto simp: same_but_records_def)
    qed (rule u)
    then show ?thesis by (simp add: fold_rows_def)
  qed
  have "\<exists>u. run_each (\<lambda>(n, xs). run_each (f n) xs) ts t = (Inr (), u) \<and> same_but_records t u \<and>
      replica_of u = foldl (\<lambda>W p. (\<lambda>(n, xs). fold_rows key val n xs) p W) (replica_of t) ts"
  proof (rule run_each_fold [where I = "same_but_records t"])
    fix p u assume p: "p \<in> set ts" and u: "same_but_records t u"
    then show "\<exists>v. (\<lambda>(n, xs). run_each (f n) xs) p u = (Inr (), v) \<and> same_but_records t v \<and>
        replica_of v = (\<lambda>(n, xs). fold_rows key val n xs) p (replica_of u)"
      using inner [of "fst p" "snd p" u] p u by (simp add: case_prod_beta)
  qed (simp add: same_but_records_def)
  moreover have "(\<lambda>W p. (\<lambda>(n, xs). fold_rows key val n xs) p W) = (\<lambda>W (n, xs). fold_rows key val n xs W)"
    by (rule ext)+ (simp add: split_beta)
  ultimately show ?thesis by simp
qed

definition well_identified :: "jsrec \<Rightarrow> bool" where "well_identified r \<longleftrightarrow> good_record (rid r) r"

lemma upsert_all_fold:
  assumes "usable t ts well_identified"
  shows "\<exists>u. upsert_all ts t = (Inr (), u) \<and> same_but_records t u \<and>
    replica_of u = foldl (\<lambda>W (n, xs). fold_rows rid (\<lambda>r _. Some (jmap_get r)) n xs W) (replica_of t) ts"
  unfolding upsert_all_def
proof (rule tables_fold [OF _ assms])
  fix n r u assume "\<not> invalid_table n u" and "well_identified r"
  from upsert_replica [OF this(1) this(2) [unfolded well_identified_def]]
  show "\<exists>v. to_step (upsert_record n r u) = (Inr (), v) \<and> same_but_records u v \<and> replica_of v = set_at n (rid r) (Some (jmap_get r)) (replica_of u)"
    by (auto simp: to_step_def)
qed

lemma merge_all_fold:
  assumes "usable t ts well_identified"
  shows "\<exists>u. merge_all ts t = (Inr (), u) \<and> same_but_records t u \<and>
    replica_of u = foldl (\<lambda>W (n, xs). fold_rows rid merged_into n xs W) (replica_of t) ts"
  unfolding merge_all_def
proof (rule tables_fold [OF _ assms])
  fix n r u assume n: "\<not> invalid_table n u" and r: "well_identified r"
  have "js_get r ''id'' = JStr (rid r)" using r by (simp add: well_identified_def good_record_def)
  with merge_replica [OF n r [unfolded well_identified_def]]
  show "\<exists>v. to_step (merge_record n (js_get r ''id'') r None u) = (Inr (), v) \<and> same_but_records u v \<and>
      replica_of v = set_at n (rid r) (merged_into r (replica_of u n (rid r))) (replica_of u)"
    by (auto simp: to_step_def)
qed

lemma delete_all_fold:
  assumes "usable t ts (\<lambda>_. True)"
  shows "\<exists>u. delete_all ts t = (Inr (), u) \<and> same_but_records t u \<and>
    replica_of u = foldl (\<lambda>W (n, is). fold_rows (\<lambda>i. i) (\<lambda>_ _. None) n is W) (replica_of t) ts"
  unfolding delete_all_def
proof (rule tables_fold [OF _ assms])
  fix n i u assume "\<not> invalid_table n u"
  from delete_replica [OF this, of i]
  show "\<exists>v. to_step (delete_record n (JStr i) u) = (Inr (), v) \<and> same_but_records u v \<and> replica_of v = set_at n i None (replica_of u)"
    by (auto simp: to_step_def)
qed

section \<open>Deduplicated pages\<close>

lemma fold_distinct:
  assumes "distinct (map key xs)"
  shows "foldl (\<lambda>v x. if key x = i then val x v else v) old xs = (case find (\<lambda>x. key x = i) xs of None \<Rightarrow> old | Some x \<Rightarrow> val x old)"
  using assms
proof (induction xs arbitrary: old)
  case (Cons x xs)
  have rest: "foldl (\<lambda>v x. if key x = i then val x v else v) w xs = w" if "i \<notin> key ` set xs" for w
    using that by (induction xs arbitrary: w) auto
  show ?case using Cons rest by auto
qed simp

lemma sorted_values_find:
  assumes "jmap_ok m" and "\<forall>(k, r) \<in> set m. key r = k"
  shows "find (\<lambda>r. key r = i) (map snd (js_sort cmp m)) = jmap_get m i" and "distinct (map key (map snd (js_sort cmp m)))"
proof -
  let ?s = "js_sort cmp m"
  have keys: "map key (map snd ?s) = map fst ?s" using assms(2) by (auto simp: list.map_comp intro!: map_cong)
  have "mset (map fst ?s) = mset (map fst m)" by simp
  then have ok: "jmap_ok ?s" using assms(1) by (metis mset_eq_imp_distinct_iff)
  then show "distinct (map key (map snd ?s))" unfolding keys .
  have "find (\<lambda>r. key r = i) (map snd xs) = jmap_get xs i" if "\<forall>(k, r) \<in> set xs. key r = k" for xs
    using that by (induction xs) auto
  from this [of ?s] have "find (\<lambda>r. key r = i) (map snd ?s) = jmap_get ?s i" using assms(2) by simp
  also have "\<dots> = jmap_get m i"
    using jmap_get_in_set [OF ok] jmap_get_in_set [OF assms(1)] by (metis option.exhaust set_js_sort)
  finally show "find (\<lambda>r. key r = i) (map snd ?s) = jmap_get m i" .
qed

lemma good_id_of: "good_record i r \<Longrightarrow> non_empty_string (js_get r ''id'') = Some i"
  by (simp add: good_record_def good_id_def)

lemma with_id_fields: "jmap_get r ''id'' = Some (JStr i) \<Longrightarrow> jmap_get (with_string_id i r) = jmap_get r"
  by (simp add: with_string_id_def set_same_field)

lemma with_id_good: "good_id i \<Longrightarrow> jmap_ok r \<Longrightarrow> good_record i (with_string_id i r)"
  by (simp add: good_record_def with_string_id_def jmap_simps)

definition dedupe_map :: "(string \<Rightarrow> jsrec option \<Rightarrow> jsrec \<Rightarrow> jsrec) \<Rightarrow> jsrec list \<Rightarrow> (string, jsrec) jmap" where
  "dedupe_map f rs = foldl (\<lambda>m r. case non_empty_string (js_get r ''id'') of None \<Rightarrow> m | Some i \<Rightarrow> jmap_set i (f i (jmap_get m i) r) m) [] rs"

lemma dedupe_map_get:
  assumes "\<forall>r \<in> set rs. well_identified r"
  shows "jmap_get (dedupe_map f rs) i = foldl (\<lambda>v r. if rid r = i then Some (f i v r) else v) None rs"
  using assms
proof (induction rs rule: rev_induct)
  case (snoc r rs)
  then have "non_empty_string (js_get r ''id'') = Some (rid r)" using good_id_of by (simp add: well_identified_def)
  then show ?case using snoc by (auto simp: dedupe_map_def jmap_simps)
qed (simp add: dedupe_map_def)

lemma dedupe_map_ok: "jmap_ok (dedupe_map f rs)"
  by (induction rs rule: rev_induct) (auto simp: dedupe_map_def split: option.splits)

lemma dedupe_map_rows:
  assumes "\<forall>r \<in> set rs. well_identified r" and "\<And>i v r. good_record i r \<Longrightarrow> (\<forall>b. v = Some b \<longrightarrow> good_record i b) \<Longrightarrow> good_record i (f i v r)"
  shows "\<forall>(i, r) \<in> set (dedupe_map f rs). good_record i r"
  using assms(1)
proof (induction rs rule: rev_induct)
  case (snoc r rs)
  let ?m = "dedupe_map f rs"
  have r: "good_record (rid r) r" using snoc.prems by (simp add: well_identified_def)
  have step: "dedupe_map f (rs @ [r]) = jmap_set (rid r) (f (rid r) (jmap_get ?m (rid r)) r) ?m"
    using good_id_of [OF r] by (simp add: dedupe_map_def)
  have IH: "\<forall>(i, r) \<in> set ?m. good_record i r" using snoc by simp
  have "good_record (rid r) b" if "jmap_get ?m (rid r) = Some b" for b using map_of_SomeD [OF that] IH by auto
  then have "good_record (rid r) (f (rid r) (jmap_get ?m (rid r)) r)" using assms(2) r by blast
  then show ?case using IH unfolding step by (auto simp: jmap_set_set [OF dedupe_map_ok])
qed (simp add: dedupe_map_def)

section \<open>Changes of one record\<close>

definition flat_record :: "jsrec \<Rightarrow> bool" where
  "flat_record r \<longleftrightarrow> (\<forall>k v. jmap_get r k = Some v \<longrightarrow> (\<forall>kvs. v \<noteq> JObj kvs))"

definition good_change :: "change_entry \<Rightarrow> bool" where
  "good_change c \<longleftrightarrow> ch_op c = ''delete'' \<or>
     (\<exists>r. ch_record c = Some r \<and> good_record (ch_id c) r \<and> (ch_op c \<in> set SETS \<or> ch_op c = ''merge'' \<and> flat_record r))"

definition rank :: "change_entry \<Rightarrow> nat" where
  "rank c = (if ch_op c = ''delete'' then 2 else if ch_op c = ''merge'' then 1 else 0)"

definition change_step :: "fields option \<Rightarrow> change_entry \<Rightarrow> fields option" where
  "change_step x c = (if rank c = 2 then None else if rank c = 1 then merged_into (the (ch_record c)) x
     else Some (jmap_get (the (ch_record c))))"

lemma replay_change_at:
  assumes "good_change c"
  shows "replay_change c v i = (if ch_id c = i then change_step (v i) c else v i)"
  using assms by (auto simp: good_change_def replay_change_def change_step_def rank_def SETS_def)

lemma replay_at:
  assumes "\<forall>c \<in> set cs. good_change c"
  shows "replay cs v i = foldl change_step (v i) (filter (\<lambda>c. ch_id c = i) cs)"
  using assms
proof (induction cs arbitrary: v)
  case (Cons c cs)
  then have "replay (c # cs) v i = foldl change_step (replay_change c v i) (filter (\<lambda>c. ch_id c = i) cs)"
    by (simp add: replay_def)
  then show ?case using replay_change_at [of c v i] Cons.prems by simp
qed (simp add: replay_def)

lemma sorted_ranks:
  assumes "sorted (map f xs)" and "\<forall>x \<in> set xs. f x \<le> (2 :: nat)"
  shows "xs = filter (\<lambda>x. f x = 0) xs @ filter (\<lambda>x. f x = 1) xs @ filter (\<lambda>x. f x = 2) xs"
  using assms
proof (induction xs)
  case (Cons x xs)
  then have IH: "xs = filter (\<lambda>x. f x = 0) xs @ filter (\<lambda>x. f x = 1) xs @ filter (\<lambda>x. f x = 2) xs" by simp
  have low: "\<forall>y \<in> set xs. f x \<le> f y" and "f x \<le> 2" using Cons.prems by auto
  then consider "f x = 0" | "f x = 1" | "f x = 2" by linarith
  then show ?case
  proof cases
    case 1
    then show ?thesis using IH by simp
  next
    case 2
    then have "filter (\<lambda>x. f x = 0) xs = []" using low by (auto simp: filter_empty_conv)
    then show ?thesis using 2 IH by simp
  next
    case 3
    then have "filter (\<lambda>x. f x = 0) xs = []" "filter (\<lambda>x. f x = 1) xs = []" using low by (fastforce simp: filter_empty_conv)+
    then show ?thesis using 3 IH by simp
  qed
qed simp

text \<open>A page in which every record is set, then merged, then deleted.\<close>

definition orderly :: "change_entry list \<Rightarrow> bool" where
  "orderly cs \<longleftrightarrow> (\<forall>c \<in> set cs. good_change c) \<and> (\<forall>i. sorted (map rank (filter (\<lambda>c. ch_id c = i) cs)))"

definition sets_of :: "change_entry list \<Rightarrow> jsrec list" where
  "sets_of cs = map (\<lambda>c. the (ch_record c)) (filter (\<lambda>c. rank c = 0) cs)"

definition merges_of :: "change_entry list \<Rightarrow> jsrec list" where
  "merges_of cs = map (\<lambda>c. the (ch_record c)) (filter (\<lambda>c. rank c = 1) cs)"

definition deletes_of :: "change_entry list \<Rightarrow> string list" where
  "deletes_of cs = map ch_id (filter (\<lambda>c. rank c = 2) cs)"

abbreviation at_id :: "('x \<Rightarrow> string) \<Rightarrow> ('x \<Rightarrow> fields option \<Rightarrow> fields option) \<Rightarrow> string \<Rightarrow> 'x list \<Rightarrow> fields option \<Rightarrow> fields option" where
  "at_id key val i xs v \<equiv> foldl (\<lambda>v x. if key x = i then val x v else v) v xs"

lemma rank_good:
  assumes "good_change c" and "rank c < 2"
  obtains r where "ch_record c = Some r" and "good_record (ch_id c) r" and "rank c = 1 \<Longrightarrow> flat_record r"
  using assms by (auto simp: good_change_def rank_def SETS_def split: if_splits)

lemma sets_at:
  assumes "\<forall>c \<in> set cs. good_change c"
  shows "at_id rid (\<lambda>r _. Some (jmap_get r)) i (sets_of cs) v = foldl change_step v (filter (\<lambda>c. rank c = 0) (filter (\<lambda>c. ch_id c = i) cs))"
  using assms
proof (induction cs arbitrary: v)
  case (Cons c cs)
  show ?case
  proof (cases "rank c = 0")
    case True
    then have "rid (the (ch_record c)) = ch_id c" using Cons.prems by (auto elim!: rank_good [of c] simp: good_rid)
    then show ?thesis using Cons True by (simp add: sets_of_def change_step_def)
  qed (use Cons in \<open>simp add: sets_of_def\<close>)
qed (simp add: sets_of_def)

lemma merges_at:
  assumes "\<forall>c \<in> set cs. good_change c"
  shows "at_id rid merged_into i (merges_of cs) v = foldl change_step v (filter (\<lambda>c. rank c = 1) (filter (\<lambda>c. ch_id c = i) cs))"
  using assms
proof (induction cs arbitrary: v)
  case (Cons c cs)
  show ?case
  proof (cases "rank c = 1")
    case True
    then have "rid (the (ch_record c)) = ch_id c" using Cons.prems by (auto elim!: rank_good [of c] simp: good_rid)
    then show ?thesis using Cons True by (simp add: merges_of_def change_step_def)
  qed (use Cons in \<open>simp add: merges_of_def\<close>)
qed (simp add: merges_of_def)

lemma deletes_at:
  "at_id (\<lambda>i. i) (\<lambda>_ _. None) i (deletes_of cs) v = foldl change_step v (filter (\<lambda>c. rank c = 2) (filter (\<lambda>c. ch_id c = i) cs))"
  by (induction cs arbitrary: v) (auto simp: deletes_of_def change_step_def)

lemma replay_orderly:
  assumes "orderly cs"
  shows "replay cs v i = at_id (\<lambda>i. i) (\<lambda>_ _. None) i (deletes_of cs)
    (at_id rid merged_into i (merges_of cs) (at_id rid (\<lambda>r _. Some (jmap_get r)) i (sets_of cs) (v i)))"
proof -
  let ?cs = "filter (\<lambda>c. ch_id c = i) cs"
  have good: "\<forall>c \<in> set cs. good_change c" and sorted: "sorted (map rank ?cs)" using assms by (simp_all add: orderly_def)
  have "\<forall>c \<in> set ?cs. rank c \<le> 2" by (simp add: rank_def)
  from arg_cong [OF sorted_ranks [OF sorted this], of "foldl change_step (v i)"]
  have "foldl change_step (v i) ?cs = foldl change_step (foldl change_step (foldl change_step (v i)
      (filter (\<lambda>c. rank c = 0) ?cs)) (filter (\<lambda>c. rank c = 1) ?cs)) (filter (\<lambda>c. rank c = 2) ?cs)"
    by (simp only: foldl_append)
  then show ?thesis unfolding replay_at [OF good] sets_at [OF good] merges_at [OF good] deletes_at .
qed

section \<open>Deduplication keeps what a page does\<close>

lemma dedupe_records_map: "dedupe_records lc rs =
    map snd (js_sort (\<lambda>a b. lc (fst a) (fst b)) (dedupe_map (\<lambda>i _ r. with_string_id i (spread [] r)) rs))"
  by (simp add: dedupe_records_def dedupe_map_def)

lemma dedupe_merged_map: "dedupe_merged lc rs =
    map snd (js_sort (\<lambda>a b. lc (fst a) (fst b)) (dedupe_map (\<lambda>i b r. with_string_id i (spread (or_else b [(''id'', JStr i)]) r)) rs))"
  by (simp add: dedupe_merged_def dedupe_map_def)

lemma with_id_spread_good: "good_record i r \<Longrightarrow> jmap_ok b \<Longrightarrow> good_record i (with_string_id i (spread b r))"
  by (intro with_id_good spread_ok) (simp_all add: good_record_def)

lemma with_id_spread_fields:
  assumes "good_record i r"
  shows "jmap_get (with_string_id i (spread b r)) k = (case jmap_get r k of None \<Rightarrow> jmap_get b k | Some v \<Rightarrow> Some v)"
proof -
  have ok: "jmap_ok r" using assms by (simp add: good_record_def)
  have "jmap_get (spread b r) ''id'' = Some (JStr i)" using good_record_get [OF assms] by (simp add: spread_get [OF ok])
  then show ?thesis by (simp add: with_id_fields spread_get [OF ok])
qed

lemma dedupe_at:
  assumes "\<forall>r \<in> set rs. well_identified r"
    and f: "\<And>i v r. good_record i r \<Longrightarrow> (\<forall>b. v = Some b \<longrightarrow> good_record i b) \<Longrightarrow> good_record i (f i v r)"
  shows "at_id rid val i (map snd (js_sort cmp (dedupe_map f rs))) old = (case jmap_get (dedupe_map f rs) i of None \<Rightarrow> old | Some r \<Rightarrow> val r old)"
    and "\<forall>r \<in> set (map snd (js_sort cmp (dedupe_map f rs))). well_identified r"
proof -
  let ?m = "dedupe_map f rs"
  have good: "\<forall>(i, r) \<in> set ?m. good_record i r" by (rule dedupe_map_rows [OF assms(1)]) (rule f)
  then have keys: "\<forall>(k, r) \<in> set ?m. rid r = k" using good_rid by fast
  show "at_id rid val i (map snd (js_sort cmp ?m)) old = (case jmap_get ?m i of None \<Rightarrow> old | Some r \<Rightarrow> val r old)"
    unfolding fold_distinct [OF sorted_values_find(2) [OF dedupe_map_ok keys]] sorted_values_find(1) [OF dedupe_map_ok keys] ..
  show "\<forall>r \<in> set (map snd (js_sort cmp ?m)). well_identified r" using good good_rid by (auto simp: well_identified_def)
qed

lemma dedupe_records_at:
  assumes "\<forall>r \<in> set rs. well_identified r"
  shows "at_id rid (\<lambda>r _. Some (jmap_get r)) i (dedupe_records lc rs) old = at_id rid (\<lambda>r _. Some (jmap_get r)) i rs old"
    and "\<forall>r \<in> set (dedupe_records lc rs). well_identified r"
proof -
  let ?f = "\<lambda>i (_ :: jsrec option) r. with_string_id i (spread [] r)"
  have f: "good_record i (?f i v r)" if "good_record i r" "\<forall>b. v = Some b \<longrightarrow> good_record i b" for i v r
    using with_id_spread_good [OF that(1)] by simp
  have "(case jmap_get (dedupe_map ?f rs) i of None \<Rightarrow> old | Some r \<Rightarrow> Some (jmap_get r)) = at_id rid (\<lambda>r _. Some (jmap_get r)) i rs old"
    unfolding dedupe_map_get [OF assms] using assms
  proof (induction rs rule: rev_induct)
    case (snoc r rs)
    then have "good_record (rid r) r" by (simp add: well_identified_def)
    then have "jmap_get (?f (rid r) None r) = jmap_get r"
      by (intro ext) (simp add: with_id_spread_fields split: option.split)
    then show ?case using snoc by auto
  qed simp
  note same = this
  have "at_id rid (\<lambda>r _. Some (jmap_get r)) i (dedupe_records lc rs) old =
      (case jmap_get (dedupe_map ?f rs) i of None \<Rightarrow> old | Some r \<Rightarrow> Some (jmap_get r))"
    unfolding dedupe_records_map by (rule dedupe_at(1) [OF assms]) (rule f)
  then show "at_id rid (\<lambda>r _. Some (jmap_get r)) i (dedupe_records lc rs) old = at_id rid (\<lambda>r _. Some (jmap_get r)) i rs old"
    using same by (rule trans)
  show "\<forall>r \<in> set (dedupe_records lc rs). well_identified r"
    unfolding dedupe_records_map by (rule dedupe_at(2) [OF assms]) (rule f)
qed

lemma merged_into_twice:
  assumes "\<And>k. jmap_get b' k = (case jmap_get r k of None \<Rightarrow> jmap_get b k | Some v \<Rightarrow> Some v)" and "flat_record r"
  shows "merged_into b' x = merged_into r (merged_into b x)"
proof -
  have flat: "merge_value tv sv = sv" if "jmap_get r k = Some sv" for k tv sv
    using assms(2) that by (auto simp: flat_record_def merge_value_def split: jsval.split)
  show ?thesis
  proof (cases x)
    case None
    then show ?thesis using assms(1) flat by (auto simp: merged_into_def merge_fields_def fun_eq_iff split: option.split)
  next
    case (Some old)
    then show ?thesis using assms(1) flat by (auto simp: merged_into_def merge_fields_def fun_eq_iff split: option.split)
  qed
qed

lemma dedupe_merged_at:
  assumes "\<forall>r \<in> set rs. well_identified r \<and> flat_record r"
  shows "at_id rid merged_into i (dedupe_merged lc rs) old = at_id rid merged_into i rs old"
    and "\<forall>r \<in> set (dedupe_merged lc rs). well_identified r"
proof -
  let ?f = "\<lambda>i b r. with_string_id i (spread (or_else b [(''id'', JStr i)]) r)"
  have ids: "\<forall>r \<in> set rs. well_identified r" using assms by simp
  have f: "good_record i (?f i v r)" if "good_record i r" "\<forall>b. v = Some b \<longrightarrow> good_record i b" for i v r
    using with_id_spread_good [OF that(1), of "or_else v [(''id'', JStr i)]"] that(2)
    by (cases v) (simp_all add: or_else_def good_record_def)
  have "(case jmap_get (dedupe_map ?f rs) i of None \<Rightarrow> old | Some r \<Rightarrow> merged_into r old) = at_id rid merged_into i rs old"
    unfolding dedupe_map_get [OF ids] using assms
  proof (induction rs rule: rev_induct)
    case (snoc r rs)
    have r: "good_record (rid r) r" "flat_record r" using snoc.prems by (simp_all add: well_identified_def)
    let ?prev = "foldl (\<lambda>v r. if rid r = i then Some (?f i v r) else v) None rs"
    have IH: "(case ?prev of None \<Rightarrow> old | Some r \<Rightarrow> merged_into r old) = at_id rid merged_into i rs old" using snoc by simp
    show ?case
    proof (cases "rid r = i")
      case True
      have get: "jmap_get (?f i v r) k = (case jmap_get r k of None \<Rightarrow> jmap_get (or_else v [(''id'', JStr i)]) k | Some x \<Rightarrow> Some x)" for v k
        using with_id_spread_fields r(1) True by metis
      show ?thesis
      proof (cases ?prev)
        case None
        have "jmap_get (?f i None r) = jmap_get r"
          using get [of None] good_record_get [OF r(1)] True by (intro ext) (auto simp: or_else_def split: option.split)
        then have "merged_into (?f i None r) old = merged_into r old"
          by (cases old) (simp_all add: merged_into_def merge_fields_def)
        then show ?thesis using None IH True by simp
      next
        case (Some b)
        have "merged_into (?f i (Some b) r) old = merged_into r (merged_into b old)"
          using get [of "Some b"] unfolding or_else_def option.case by (intro merged_into_twice [OF _ r(2)])
        then show ?thesis using Some IH True by simp
      qed
    qed (use IH in simp)
  qed simp
  note same = this
  have "at_id rid merged_into i (dedupe_merged lc rs) old =
      (case jmap_get (dedupe_map ?f rs) i of None \<Rightarrow> old | Some r \<Rightarrow> merged_into r old)"
    unfolding dedupe_merged_map by (rule dedupe_at(1) [OF ids]) (rule f)
  then show "at_id rid merged_into i (dedupe_merged lc rs) old = at_id rid merged_into i rs old"
    using same by (rule trans)
  show "\<forall>r \<in> set (dedupe_merged lc rs). well_identified r"
    unfolding dedupe_merged_map by (rule dedupe_at(2) [OF ids]) (rule f)
qed

lemma deletes_unordered:
  "at_id (\<lambda>i. i) (\<lambda>_ _. None) i is v = (if i \<in> set is then None else v)"
  by (induction "is" arbitrary: v) auto

end
