(* ===== verification/PageApply.thy ===== *)
theory PageApply
  imports PageMeaning SequenceStores
begin

text \<open>
  Applying a page to the client's storage: what happens to the cursors, and that the replica of every
  table takes up the page's records, then its merges, then its deletions.
\<close>

section \<open>Cursors of the client\<close>

definition cursor_of :: "string \<Rightarrow> client_storage \<Rightarrow> string option" where
  "cursor_of n t = jmap_get (cs_cursors t) n"

definition cursor_ok :: "client_storage \<Rightarrow> string \<Rightarrow> string \<Rightarrow> bool" where
  "cursor_ok t n c \<longleftrightarrow> (is_internal_cursor_key n \<or> \<not> invalid_table n t) \<and>
     (\<exists>a. 0 \<le> a \<and> c = int_to_string a \<and>
        (\<forall>e. cursor_of n t = Some e \<longrightarrow> (\<exists>b. 0 \<le> b \<and> b \<le> a \<and> e = int_to_string b)))"

definition same_rows :: "client_storage \<Rightarrow> client_storage \<Rightarrow> bool" where
  "same_rows t u \<longleftrightarrow> replica_of u = replica_of t \<and> cs_valid u = cs_valid t"

lemma same_rows_refl [simp]: "same_rows t t"
  by (simp add: same_rows_def)

lemma same_rows_trans: "same_rows s t \<Longrightarrow> same_rows t u \<Longrightarrow> same_rows s u"
  by (simp add: same_rows_def)

lemma int_text_nonempty: "int_to_string n \<noteq> []"
  by (simp add: int_to_string_def digits_of_nonempty)

lemma cursor_table_ok: "is_internal_cursor_key n \<or> \<not> invalid_table n t \<Longrightarrow> cursor_table n t r = r"
  by (auto simp: cursor_table_def on_table_def)

lemma get_cursor_ok:
  assumes "cursor_ok t n c"
  shows "get_cursor n t = (Inr (cursor_of n t), t)"
proof -
  have "e \<noteq> []" if "cursor_of n t = Some e" for e using assms that int_text_nonempty by (auto simp: cursor_ok_def)
  moreover have "is_internal_cursor_key n \<or> \<not> invalid_table n t" using assms by (simp add: cursor_ok_def)
  ultimately show ?thesis by (cases "cursor_of n t") (auto simp: get_cursor_def cursor_table_ok cursor_of_def)
qed

lemma set_cursor_run:
  assumes "is_internal_cursor_key n \<or> \<not> invalid_table n t"
  obtains u where "set_cursor n (Some c) t = (Inr (), u)" and "same_rows t u"
    and "\<And>m. cursor_of m u = (if m = n then Some c else cursor_of m t)"
proof (rule that [of "t\<lparr>cs_cursors := jmap_set n c (cs_cursors t)\<rparr>"])
  show "set_cursor n (Some c) t = (Inr (), t\<lparr>cs_cursors := jmap_set n c (cs_cursors t)\<rparr>)"
    using assms by (simp add: set_cursor_def cursor_table_ok)
  show "same_rows t (t\<lparr>cs_cursors := jmap_set n c (cs_cursors t)\<rparr>)"
    by (simp add: same_rows_def replica_of_def records_of_def fun_eq_iff)
qed (simp add: cursor_of_def jmap_simps)

lemma set_monotonically:
  assumes "cursor_ok t n c"
  obtains u where "set_cursor_monotonically n c t = (Inr (), u)" and "same_rows t u"
    and "\<And>m. cursor_of m u = (if m = n then Some c else cursor_of m t)"
proof -
  obtain a where ok: "is_internal_cursor_key n \<or> \<not> invalid_table n t" and a: "0 \<le> a" "c = int_to_string a"
    and old: "\<And>e. cursor_of n t = Some e \<Longrightarrow> \<exists>b. 0 \<le> b \<and> b \<le> a \<and> e = int_to_string b"
    using assms unfolding cursor_ok_def by blast
  obtain u where u: "set_cursor n (Some c) t = (Inr (), u)" "same_rows t u" "\<And>m. cursor_of m u = (if m = n then Some c else cursor_of m t)"
    using set_cursor_run [OF ok] by blast
  show thesis
  proof (cases "cursor_of n t")
    case None
    then show ?thesis using that [OF _ u(2,3)] u(1) by (simp add: set_cursor_monotonically_def get_cursor_ok [OF assms] to_step_def)
  next
    case (Some e)
    then obtain b where b: "0 \<le> b" "b \<le> a" "e = int_to_string b" using old by blast
    show ?thesis
    proof (cases "b < a")
      case True
      then have "set_cursor_monotonically n c t = (Inr (), u)"
        using u(1) a b by (simp add: set_cursor_monotonically_def get_cursor_ok [OF assms] to_step_def Some parse_int_print)
      then show ?thesis using that u by blast
    next
      case False
      then have "b = a" using b by simp
      then have "set_cursor_monotonically n c t = (Inr (), t)"
        using a b by (simp add: set_cursor_monotonically_def get_cursor_ok [OF assms] Some parse_int_print)
      then show ?thesis using that [of t] Some a b \<open>b = a\<close> by auto
    qed
  qed
qed

lemma cursor_ok_keep:
  assumes "cursor_ok t n c" and "cs_valid u = cs_valid t" and "cursor_of n u = cursor_of n t"
  shows "cursor_ok u n c"
  using assms same_valid [OF assms(2)] by (simp add: cursor_ok_def)

lemma assert_cursors:
  assumes "\<forall>(n, c) \<in> set cs. cursor_ok t n c"
  shows "run_each (\<lambda>(n, c). assert_cursor_non_regressing n c (f n)) cs t = (Inr (), t)"
  using assms
proof (induction cs)
  case (Cons p cs)
  obtain n c where p: "p = (n, c)" by fastforce
  have ok: "cursor_ok t n c" using Cons.prems p by simp
  have "assert_cursor_non_regressing n c (f n) t = (Inr (), t)"
    unfolding assert_cursor_non_regressing_def get_cursor_ok [OF ok]
    using ok by (cases "cursor_of n t") (auto simp: cursor_ok_def parse_int_print)
  then show ?case using Cons p by simp
qed simp

lemma set_cursors:
  assumes "\<forall>(n, c) \<in> set cs. cursor_ok t n c" and "jmap_ok cs"
  shows "\<exists>u. run_each (\<lambda>(n, c). set_cursor_monotonically n c) cs t = (Inr (), u) \<and> same_rows t u \<and>
    (\<forall>m. cursor_of m u = (case jmap_get cs m of None \<Rightarrow> cursor_of m t | Some c \<Rightarrow> Some c))"
  using assms
proof (induction cs arbitrary: t)
  case (Cons p cs)
  obtain n c where p: "p = (n, c)" by fastforce
  have ok: "cursor_ok t n c" using Cons.prems(1) p by simp
  obtain u where u: "set_cursor_monotonically n c t = (Inr (), u)" "same_rows t u" "\<And>m. cursor_of m u = (if m = n then Some c else cursor_of m t)"
    using set_monotonically [OF ok] by blast
  have fresh: "n \<notin> fst ` set cs" and ok': "jmap_ok cs" using Cons.prems(2) p by simp_all
  have "cursor_ok u m d" if "(m, d) \<in> set cs" for m d
  proof (rule cursor_ok_keep)
    show "cursor_ok t m d" using Cons.prems(1) that by auto
    show "cs_valid u = cs_valid t" using u(2) by (simp add: same_rows_def)
    have "m \<noteq> n" using fresh that by force
    then show "cursor_of m u = cursor_of m t" using u(3) by simp
  qed
  then have "\<forall>(m, d) \<in> set cs. cursor_ok u m d" by blast
  from Cons.IH [OF this ok'] obtain v where v: "run_each (\<lambda>(n, c). set_cursor_monotonically n c) cs u = (Inr (), v)" "same_rows u v"
    "\<And>m. cursor_of m v = (case jmap_get cs m of None \<Rightarrow> cursor_of m u | Some c \<Rightarrow> Some c)" by blast
  have none: "jmap_get cs n = None" using fresh by (simp only: map_of_eq_None_iff not_False_eq_True)
  have "cursor_of m v = (case jmap_get (p # cs) m of None \<Rightarrow> cursor_of m t | Some c \<Rightarrow> Some c)" for m
    unfolding v(3) u(3) using none by (simp add: p split: option.split)
  then show ?case using u(1) v(1) same_rows_trans [OF u(2) v(2)] p by auto
qed simp

lemma set_global_cursor:
  obtains u where "set_cursor_monotonically GLOBAL_CURSOR_KEY c t = (Inr (), u)" and "same_rows t u"
    and "\<And>m. m \<noteq> GLOBAL_CURSOR_KEY \<Longrightarrow> cursor_of m u = cursor_of m t"
proof -
  have ok: "is_internal_cursor_key GLOBAL_CURSOR_KEY \<or> \<not> invalid_table GLOBAL_CURSOR_KEY t"
    by (simp add: is_internal_cursor_key_def GLOBAL_CURSOR_KEY_def)
  obtain u where u: "set_cursor GLOBAL_CURSOR_KEY (Some c) t = (Inr (), u)" "same_rows t u"
    "\<And>m. cursor_of m u = (if m = GLOBAL_CURSOR_KEY then Some c else cursor_of m t)" using set_cursor_run [OF ok] by blast
  obtain x where x: "get_cursor GLOBAL_CURSOR_KEY t = (Inr x, t)" by (simp add: get_cursor_def cursor_table_ok [OF ok])
  show thesis
  proof (cases "x = None \<or> (\<exists>e. x = Some e \<and> js_parse_int e < js_parse_int c)")
    case True
    then have "set_cursor_monotonically GLOBAL_CURSOR_KEY c t = (Inr (), u)"
      using u(1) by (auto simp: set_cursor_monotonically_def x to_step_def)
    then show ?thesis using that u by simp
  next
    case False
    then have "set_cursor_monotonically GLOBAL_CURSOR_KEY c t = (Inr (), t)"
      by (auto simp: set_cursor_monotonically_def x)
    then show ?thesis using that by simp
  qed
qed

section \<open>Applying a page\<close>

lemma replica_put_joins [simp]: "replica_of (put_joins n js t) = replica_of t" "cs_valid (put_joins n js t) = cs_valid t"
  "cs_cursors (put_joins n js t) = cs_cursors t"
  by (rule ext)+ (simp_all add: replica_of_def records_of_def put_joins_def)

definition same_all :: "client_storage \<Rightarrow> client_storage \<Rightarrow> bool" where
  "same_all t u \<longleftrightarrow> same_rows t u \<and> cs_cursors u = cs_cursors t"

lemma fold_same: "(\<And>x u. same_all t u \<Longrightarrow> same_all t (f u x)) \<Longrightarrow> same_all t u \<Longrightarrow> same_all t (foldl f u xs)"
  by (induction xs arbitrary: u) auto

lemma joins_same: "\<exists>u. run_each (apply_join_delta dtoa) js t = (Inr (), u) \<and> same_all t u"
proof -
  have step: "same_all t (snd (apply_join_delta dtoa x w))" "fst (apply_join_delta dtoa x w) = Inr ()" if "same_all t w" for x w
  proof -
    have up: "same_all t (upsert_join_row dtoa k row s)" if "same_all t s" for k row s
      using that by (simp add: upsert_join_row_def same_all_def same_rows_def)
    have down: "same_all t (delete_join_row k a b s)" if "same_all t s" for k a b s
      using that by (simp add: delete_join_row_def same_all_def same_rows_def split: option.split)
    show "same_all t (snd (apply_join_delta dtoa x w))"
      unfolding apply_join_delta_def split_beta snd_conv
      by (intro fold_same) (simp_all add: up down that)
    show "fst (apply_join_delta dtoa x w) = Inr ()" by (simp add: apply_join_delta_def split_beta)
  qed
  have "\<exists>u. run_each (apply_join_delta dtoa) js w = (Inr (), u) \<and> same_all t u" if "same_all t w" for w
    using that
  proof (induction js arbitrary: w)
    case (Cons x js)
    obtain v where v: "apply_join_delta dtoa x w = (Inr (), v)" "same_all t v" using step [OF Cons.prems, of x] by (metis prod.collapse)
    then show ?case using Cons.IH by simp
  qed simp
  then show ?thesis by (simp add: same_all_def)
qed

abbreviation rows_at :: "(string, 'x list) jmap \<Rightarrow> string \<Rightarrow> 'x list" where
  "rows_at m n \<equiv> (case jmap_get m n of None \<Rightarrow> [] | Some xs \<Rightarrow> xs)"

definition merged_rows :: "canonical_pull \<Rightarrow> (string, jsrec list) jmap" where
  "merged_rows p = (case kp_merged p of None \<Rightarrow> [] | Some m \<Rightarrow> m)"

definition applicable :: "canonical_pull \<Rightarrow> client_storage \<Rightarrow> bool" where
  "applicable p t \<longleftrightarrow> usable t (kp_records p) well_identified \<and> usable t (merged_rows p) well_identified \<and>
     usable t (kp_deleted p) (\<lambda>_. True) \<and> jmap_ok (kp_records p) \<and> jmap_ok (merged_rows p) \<and> jmap_ok (kp_deleted p) \<and>
     (\<forall>(n, c) \<in> set (kp_cursors p). cursor_ok t n c) \<and> jmap_ok (kp_cursors p)"

lemma usable_same: "usable t ts P \<Longrightarrow> cs_valid u = cs_valid t \<Longrightarrow> usable u ts P"
  using same_valid [of u t] by (simp add: usable_def)

lemma apply_page:
  assumes "applicable p t"
  obtains u where "apply_pull_canonical dtoa p t = (Inr (), u)" and "cs_valid u = cs_valid t"
    and "\<And>n i. replica_of u n i = at_id (\<lambda>i. i) (\<lambda>_ _. None) i (rows_at (kp_deleted p) n)
      (at_id rid merged_into i (rows_at (merged_rows p) n)
        (at_id rid (\<lambda>r _. Some (jmap_get r)) i (rows_at (kp_records p) n) (replica_of t n i)))"
    and "\<And>m. m \<noteq> GLOBAL_CURSOR_KEY \<Longrightarrow> cursor_of m u = (case jmap_get (kp_cursors p) m of None \<Rightarrow> cursor_of m t | Some c \<Rightarrow> Some c)"
proof -
  note app = assms [unfolded applicable_def]
  have t0: "run_each (\<lambda>(n, c). assert_cursor_non_regressing n c (''cursors.'' @ n)) (kp_cursors p) t = (Inr (), t)"
    by (rule assert_cursors) (use app in blast)
  obtain t1 where t1: "upsert_all (kp_records p) t = (Inr (), t1)" "same_but_records t t1"
    "replica_of t1 = foldl (\<lambda>W (n, xs). fold_rows rid (\<lambda>r _. Some (jmap_get r)) n xs W) (replica_of t) (kp_records p)"
    using upsert_all_fold app by blast
  have v1: "cs_valid t1 = cs_valid t" using t1(2) by (simp add: same_but_records_def)
  have "usable t1 (merged_rows p) well_identified" using usable_same [OF _ v1] app by blast
  then obtain t2 where t2: "merge_all (merged_rows p) t1 = (Inr (), t2)" "same_but_records t1 t2"
    "replica_of t2 = foldl (\<lambda>W (n, xs). fold_rows rid merged_into n xs W) (replica_of t1) (merged_rows p)"
    using merge_all_fold by blast
  have v2: "cs_valid t2 = cs_valid t" using t2(2) v1 by (simp add: same_but_records_def)
  have "usable t2 (kp_deleted p) (\<lambda>_. True)" using usable_same [OF _ v2] app by blast
  then obtain t3 where t3: "delete_all (kp_deleted p) t2 = (Inr (), t3)" "same_but_records t2 t3"
    "replica_of t3 = foldl (\<lambda>W (n, is). fold_rows (\<lambda>i. i) (\<lambda>_ _. None) n is W) (replica_of t2) (kp_deleted p)"
    using delete_all_fold by blast
  have c3: "cs_valid t3 = cs_valid t" "cs_cursors t3 = cs_cursors t"
    using t1(2) t2(2) t3(2) by (simp_all add: same_but_records_def)
  obtain t4 where t4: "run_each (apply_join_delta dtoa) (case kp_joins p of None \<Rightarrow> [] | Some js \<Rightarrow> js) t3 = (Inr (), t4)" "same_all t3 t4"
    using joins_same by blast
  have c4: "cs_valid t4 = cs_valid t" "cs_cursors t4 = cs_cursors t" "replica_of t4 = replica_of t3"
    using t4(2) c3 by (simp_all add: same_all_def same_rows_def)
  have ok4: "\<forall>(n, c) \<in> set (kp_cursors p). cursor_ok t4 n c"
    using app cursor_ok_keep [OF _ c4(1)] by (fastforce simp: cursor_of_def c4(2))
  obtain t5 where t5: "run_each (\<lambda>(n, c). set_cursor_monotonically n c) (kp_cursors p) t4 = (Inr (), t5)" "same_rows t4 t5"
    "\<And>m. cursor_of m t5 = (case jmap_get (kp_cursors p) m of None \<Rightarrow> cursor_of m t4 | Some c \<Rightarrow> Some c)"
    using set_cursors [OF ok4] app by blast
  obtain t6 where t6: "(if Fin 0 < max_seq (jmap_values (kp_cursors p))
      then set_cursor_monotonically GLOBAL_CURSOR_KEY (num_to_string dtoa (max_seq (jmap_values (kp_cursors p)))) t5
      else (Inr (), t5)) = (Inr (), t6)" "same_rows t5 t6" "\<And>m. m \<noteq> GLOBAL_CURSOR_KEY \<Longrightarrow> cursor_of m t6 = cursor_of m t5"
    using set_global_cursor [of "num_to_string dtoa (max_seq (jmap_values (kp_cursors p)))" t5] same_rows_refl by (metis (full_types))
  have run: "apply_pull_canonical dtoa p t = (Inr (), t6)"
    unfolding apply_pull_canonical_def and_then_def
    by (simp only: t0 t1(1) t2(1) [unfolded merged_rows_def] t3(1) t4(1) t5(1) t6(1) prod.case sum.case)
  have W: "replica_of t6 = replica_of t3" and V: "cs_valid t6 = cs_valid t"
    using t5(2) t6(2) c4 by (simp_all add: same_rows_def)
  have ok: "jmap_ok (kp_records p)" "jmap_ok (merged_rows p)" "jmap_ok (kp_deleted p)" using app by blast+
  show thesis
  proof (rule that [OF run V])
    show "replica_of t6 n i = at_id (\<lambda>i. i) (\<lambda>_ _. None) i (rows_at (kp_deleted p) n)
      (at_id rid merged_into i (rows_at (merged_rows p) n)
        (at_id rid (\<lambda>r _. Some (jmap_get r)) i (rows_at (kp_records p) n) (replica_of t n i)))" for n i
      unfolding W t3(3) t2(3) t1(3) fold_tables_at [OF ok(3)] fold_tables_at [OF ok(2)] fold_tables_at [OF ok(1)] ..
    show "cursor_of m t6 = (case jmap_get (kp_cursors p) m of None \<Rightarrow> cursor_of m t | Some c \<Rightarrow> Some c)" if "m \<noteq> GLOBAL_CURSOR_KEY" for m
      unfolding t6(3) [OF that] t5(3) unfolding cursor_of_def c4(2) ..
  qed
qed

end
