(* ===== verification/PullMerge.thy ===== *)
theory PullMerge
  imports PageMeaning
begin

text \<open>
  The merge of the change streams of the tables: what it takes from each stream is a prefix, it stops
  only at the limit, and the cursors it reports are the last of what it took.
\<close>

definition changes_at :: "string \<Rightarrow> (string \<times> change_entry) list \<Rightarrow> change_entry list" where
  "changes_at n xs = map snd (filter (\<lambda>x. fst x = n) xs)"

definition stream_at :: "string \<Rightarrow> change_stream list \<Rightarrow> change_entry list" where
  "stream_at n hs = concat (map cst_changes (filter (\<lambda>h. cst_resource h = n) hs))"

lemma changes_at_simps [simp]:
  "changes_at n [] = []" "changes_at n (xs @ ys) = changes_at n xs @ changes_at n ys"
  "changes_at n [(m, c)] = (if m = n then [c] else [])"
  by (simp_all add: changes_at_def)

lemma stream_at_append: "stream_at n (xs @ ys) = stream_at n xs @ stream_at n ys"
  by (simp add: stream_at_def)

lemma stream_at_Cons: "stream_at n (h # hs) = (if cst_resource h = n then cst_changes h else []) @ stream_at n hs"
  by (simp add: stream_at_def)

lemma stream_at_none: "n \<notin> cst_resource ` set hs \<Longrightarrow> stream_at n hs = []"
  by (auto simp: stream_at_def)

lemma distinct_at_most: "distinct (a @ x # b) \<Longrightarrow> l = [] \<or> l = [x] \<Longrightarrow> distinct (a @ l @ b)"
  by auto

text \<open>Taking the head of a stream.\<close>

lemma advance:
  assumes "i < length hs" and "cst_changes (hs ! i) \<noteq> []" and "distinct (map cst_resource hs)"
  shows "changes_at n [head_of (hs ! i)] @ stream_at n (advance_head i hs) = stream_at n hs"
    and "distinct (map cst_resource (advance_head i hs))"
    and "\<not> list_ex (\<lambda>h. cst_changes h = []) hs \<Longrightarrow> \<not> list_ex (\<lambda>h. cst_changes h = []) (advance_head i hs)"
    and "heads_size hs = Suc (heads_size (advance_head i hs))"
proof -
  let ?a = "take i hs" and ?h = "hs ! i" and ?b = "drop (Suc i) hs"
  have split: "hs = ?a @ ?h # ?b" using assms(1) by (rule id_take_nth_drop)
  obtain c cs where h: "cst_changes ?h = c # cs" using assms(2) by (cases "cst_changes (hs ! i)") auto
  define ys where "ys = (case cs of [] \<Rightarrow> [] | _ \<Rightarrow> [?h\<lparr>cst_changes := cs\<rparr>])"
  have adv: "advance_head i hs = ?a @ ys @ ?b"
    using assms(1) h by (cases cs) (simp_all add: advance_head_def ys_def upd_conv_take_nth_drop)
  have ys: "stream_at n ys = (if cst_resource ?h = n then cs else [])" by (cases cs) (simp_all add: ys_def stream_at_def)
  have names: "distinct (map cst_resource (?a @ ?h # ?b))" using assms(3) split by metis
  have "cst_resource ?h = n \<Longrightarrow> stream_at n ?a = []" using names by (intro stream_at_none) auto
  then have "changes_at n [head_of ?h] @ stream_at n (?a @ ys @ ?b) = stream_at n (?a @ ?h # ?b)"
    by (simp add: stream_at_append stream_at_Cons ys h head_of_def)
  then show "changes_at n [head_of ?h] @ stream_at n (advance_head i hs) = stream_at n hs"
    unfolding adv using split by metis
  have "map cst_resource ys = [] \<or> map cst_resource ys = [cst_resource ?h]" by (cases cs) (simp_all add: ys_def)
  then show "distinct (map cst_resource (advance_head i hs))"
    unfolding adv map_append by (intro distinct_at_most [OF names [unfolded map_append list.map]])
  have "\<not> list_ex (\<lambda>h. cst_changes h = []) ys" by (cases cs) (simp_all add: ys_def)
  then have "\<not> list_ex (\<lambda>h. cst_changes h = []) (?a @ ?h # ?b) \<Longrightarrow> \<not> list_ex (\<lambda>h. cst_changes h = []) (?a @ ys @ ?b)" by simp
  then show "\<not> list_ex (\<lambda>h. cst_changes h = []) hs \<Longrightarrow> \<not> list_ex (\<lambda>h. cst_changes h = []) (advance_head i hs)"
    unfolding adv using split by metis
  have "heads_size ys = length cs" by (cases cs) (simp_all add: ys_def heads_size_def)
  then have "heads_size (?a @ ?h # ?b) = Suc (heads_size (?a @ ys @ ?b))" by (simp add: heads_size_def h)
  then show "heads_size hs = Suc (heads_size (advance_head i hs))" unfolding adv using split by metis
qed

definition merge_fine :: "change_stream list \<Rightarrow> bool" where
  "merge_fine hs \<longleftrightarrow> distinct (map cst_resource hs) \<and> \<not> list_ex (\<lambda>h. cst_changes h = []) hs"

lemma merge_prefixes:
  assumes "merge_streams lc (Fin (of_nat k)) hs ms = (ms', rest)" and "merge_fine hs"
  shows "(\<forall>n. changes_at n ms' @ stream_at n rest = changes_at n ms @ stream_at n hs) \<and>
    length ms' + heads_size rest = length ms + heads_size hs \<and> (length ms \<le> k \<longrightarrow> length ms' \<le> k) \<and>
    (rest \<noteq> [] \<longrightarrow> k \<le> length ms' \<and> 0 < heads_size rest)"
  using assms
proof (induction lc "Fin (of_nat k)" hs ms rule: merge_streams.induct)
  case (1 lc hs ms)
  show ?case
  proof (cases "hs = [] \<or> \<not> Fin (of_nat (length ms)) < Fin (of_nat k)")
    case True
    then have "ms' = ms" "rest = hs" using "1.prems"(1) by (auto simp: merge_streams.simps)
    moreover have "0 < heads_size hs" if "hs \<noteq> []" using that "1.prems"(2) by (cases hs) (auto simp: merge_fine_def heads_size_def)
    ultimately show ?thesis using True by auto
  next
    case False
    let ?i = "best_head lc hs"
    have i: "?i < length hs" using False best_head_less by blast
    have ne: "\<not> list_ex (\<lambda>h. cst_changes h = []) hs" and names: "distinct (map cst_resource hs)"
      using "1.prems"(2) by (simp_all add: merge_fine_def)
    have h: "cst_changes (hs ! ?i) \<noteq> []" using ne i by (auto simp: list_ex_iff)
    note adv = advance [OF i h names]
    have cont: "\<not> (hs = [] \<or> \<not> Fin (of_nat (length ms)) < Fin (of_nat k) \<or> list_ex (\<lambda>h. cst_changes h = []) hs)" using False ne by blast
    have run: "merge_streams lc (Fin (of_nat k)) (advance_head ?i hs) (ms @ [head_of (hs ! ?i)]) = (ms', rest)"
      using "1.prems"(1) cont by (subst (asm) merge_streams.simps) (simp add: Let_def)
    have fine: "merge_fine (advance_head ?i hs)" using adv(2) adv(3) [OF ne] by (simp add: merge_fine_def)
    note IH = "1.hyps" [OF cont refl run fine]
    have "changes_at n ms' @ stream_at n rest = changes_at n ms @ stream_at n hs" for n
      using IH adv(1) [of n] by (simp flip: append_assoc) (metis append_assoc)
    then show ?thesis using IH adv(4) False by auto
  qed
qed

lemma merge_names:
  assumes "merge_streams lc lmt hs ms = (ms', rest)"
  shows "fst ` set ms' \<subseteq> fst ` set ms \<union> cst_resource ` set hs"
  using assms
proof (induction lc lmt hs ms rule: merge_streams.induct)
  case (1 lc lmt hs ms)
  show ?case
  proof (cases "hs = [] \<or> \<not> Fin (of_nat (length ms)) < lmt \<or> list_ex (\<lambda>h. cst_changes h = []) hs")
    case True
    then have "ms' = ms" using "1.prems" by (subst (asm) merge_streams.simps) simp
    then show ?thesis by simp
  next
    case False
    let ?i = "best_head lc hs"
    have i: "?i < length hs" using False best_head_less by blast
    have run: "merge_streams lc lmt (advance_head ?i hs) (ms @ [head_of (hs ! ?i)]) = (ms', rest)"
      using "1.prems" False by (subst (asm) merge_streams.simps) (simp add: Let_def)
    have "cst_resource ` set (advance_head ?i hs) \<subseteq> cst_resource ` set hs"
    proof (cases "tl (cst_changes (hs ! ?i))")
      case Nil
      then show ?thesis by (auto simp: advance_head_def dest: in_set_takeD in_set_dropD)
    next
      case (Cons c cs)
      have "set (hs[?i := (hs ! ?i)\<lparr>cst_changes := c # cs\<rparr>]) \<subseteq> insert ((hs ! ?i)\<lparr>cst_changes := c # cs\<rparr>) (set hs)"
        by (rule set_update_subset_insert)
      then show ?thesis using Cons i by (auto simp: advance_head_def)
    qed
    moreover have "fst (head_of (hs ! ?i)) \<in> cst_resource ` set hs" using i by (simp add: head_of_def)
    moreover have "fst ` set (ms @ [head_of (hs ! ?i)]) = insert (fst (head_of (hs ! ?i))) (fst ` set ms)" by simp
    moreover have "fst ` set ms' \<subseteq> fst ` set (ms @ [head_of (hs ! ?i)]) \<union> cst_resource ` set (advance_head ?i hs)"
      by (rule "1.IH" [OF False refl run])
    ultimately show ?thesis by (simp only: insert_subset Un_insert_left) (meson Un_least Un_upper1 Un_upper2 insert_subset order_trans sup.coboundedI2)
  qed
qed

section \<open>The cursors that are reported\<close>

definition seq_int :: "change_entry \<Rightarrow> int" where
  "seq_int c = (case ch_seq c of Fin q \<Rightarrow> \<lfloor>q\<rfloor> | _ \<Rightarrow> 0)"

definition numbered :: "change_entry \<Rightarrow> bool" where
  "numbered c \<longleftrightarrow> 0 < seq_int c \<and> ch_seq c = Fin (of_int (seq_int c))"

lemma latest_at:
  assumes "\<forall>x \<in> set ms. numbered (snd x)" and "\<And>n. sorted_wrt (\<lambda>a b. seq_int a < seq_int b) (changes_at n ms)"
  shows "jmap_get (latest_cursors ms) n = (if changes_at n ms = [] then None else Some (ch_seq (last (changes_at n ms))))"
  using assms
proof (induction ms rule: rev_induct)
  case (snoc x ms)
  obtain m c where x: "x = (m, c)" by fastforce
  have sorted: "sorted_wrt (\<lambda>a b. seq_int a < seq_int b) (changes_at n ms)" for n
    using snoc.prems(2) [of n] by (auto simp: sorted_wrt_append)
  have IH: "jmap_get (latest_cursors ms) n = (if changes_at n ms = [] then None else Some (ch_seq (last (changes_at n ms))))"
    using snoc.IH snoc.prems(1) sorted by simp
  have step: "latest_cursors (ms @ [x]) = jmap_set m
      (js_max (case jmap_get (latest_cursors ms) m of None \<Rightarrow> Fin 0 | Some n \<Rightarrow> if num_truthy n then n else Fin 0) (ch_seq c)) (latest_cursors ms)"
    by (simp add: latest_cursors_def x)
  have c: "numbered c" using snoc.prems(1) x by simp
  show ?case
  proof (cases "m = n")
    case False
    then show ?thesis using IH unfolding step by (simp add: x jmap_simps)
  next
    case True
    have "js_max (case jmap_get (latest_cursors ms) n of None \<Rightarrow> Fin 0 | Some n \<Rightarrow> if num_truthy n then n else Fin 0) (ch_seq c) = ch_seq c"
    proof (cases "changes_at n ms")
      case Nil
      then show ?thesis using IH c by (simp add: numbered_def js_max_def)
    next
      case (Cons a as)
      let ?l = "last (changes_at n ms)"
      have l: "?l \<in> set (changes_at n ms)" using Cons by simp
      then have "numbered ?l" using snoc.prems(1) by (auto simp: changes_at_def)
      moreover have "seq_int ?l < seq_int c" using snoc.prems(2) [of n] l by (simp add: x True sorted_wrt_append)
      moreover have "jmap_get (latest_cursors ms) n = Some (ch_seq ?l)" using IH Cons by simp
      moreover have "num_truthy (ch_seq ?l)" using \<open>numbered ?l\<close> by (auto simp: numbered_def num_truthy_def)
      ultimately show ?thesis using c by (simp add: numbered_def js_max_def)
    qed
    then show ?thesis using True unfolding step by (simp add: x jmap_simps)
  qed
qed (simp add: latest_cursors_def)

end
