(* ===== verification/PullPages.thy ===== *)
theory PullPages
  imports PageApply PullMerge
begin

text \<open>
  The page of a pull for an anonymous actor: which rows of which tables it holds, and its cursors, in
  terms of what the merge took from the log.
\<close>

section \<open>Rows of a page\<close>

definition public_table :: "policy_schema \<Rightarrow> string \<Rightarrow> bool" where
  "public_table schema n \<longleftrightarrow> is_data_resource_key n \<and> \<not> is_private_shareable_resource schema n"

definition is_join :: "string \<Rightarrow> bool" where "is_join n \<longleftrightarrow> starts_with n ''join_''"

definition put_change :: "string \<Rightarrow> change_entry \<Rightarrow> page_state \<Rightarrow> page_state" where
  "put_change n c pa =
     (if rank c = 2 then pa\<lparr>pa_deleted := push_value n (ch_id c) (pa_deleted pa)\<rparr>
      else if rank c = 1 then pa\<lparr>pa_merged := push_value n (the (ch_record c)) (pa_merged pa)\<rparr>
      else pa\<lparr>pa_records := push_value n (the (ch_record c)) (pa_records pa)\<rparr>)"

definition page_step :: "page_state \<Rightarrow> string \<times> change_entry \<Rightarrow> page_state" where
  "page_step pa x = (if is_join (fst x) then page_join (fst x) (snd x) pa else put_change (fst x) (snd x) pa)"

definition pageable :: "policy_schema \<Rightarrow> string \<times> change_entry \<Rightarrow> bool" where
  "pageable schema x \<longleftrightarrow> is_join (fst x) \<or> public_table schema (fst x) \<and> good_change (snd x)"

lemma page_change_step:
  assumes "pageable schema x"
  shows "page_change cfg lc ad s schema ns actor x pa = Inr (page_step pa x)"
proof (cases "is_join (fst x)")
  case True
  then show ?thesis by (simp add: page_change_def page_step_def is_join_def split_beta)
next
  case False
  then have pub: "\<not> starts_with (fst x) ''join_''" "is_data_resource_key (fst x)" "\<not> is_private_shareable_resource schema (fst x)"
    and good: "good_change (snd x)" using assms by (simp_all add: pageable_def public_table_def is_join_def)
  show ?thesis
  proof (cases "ch_op (snd x) = ''delete''")
    case True
    then show ?thesis using pub by (cases "ch_record (snd x)") (simp_all add: page_change_def page_step_def is_join_def put_change_def rank_def split_beta)
  next
    case False
    then show ?thesis using good pub
      by (auto simp: good_change_def page_change_def page_step_def is_join_def put_change_def rank_def SETS_def split_beta)
  qed
qed

lemma page_fold:
  assumes "\<forall>x \<in> set xs. pageable schema x"
  shows "fold_sum (page_change cfg lc ad s schema ns actor) xs pa = Inr (foldl page_step pa xs)"
  using assms by (induction xs arbitrary: pa) (simp_all add: page_change_step)

lemma rows_at_push: "rows_at (push_value k v m) n = rows_at m n @ (if n = k then [v] else [])"
  by (auto simp: push_value_def jmap_simps split: option.split)

lemma push_value_keys: "jmap_ok m \<Longrightarrow> jmap_ok (push_value k v m)" "fst ` set (push_value k v m) = insert k (fst ` set m)"
proof -
  show "jmap_ok m \<Longrightarrow> jmap_ok (push_value k v m)" by (simp add: push_value_def)
  have "k \<in> fst ` set (jmap_set k x m) \<and> fst ` set (jmap_set k x m) = insert k (fst ` set m)" for x
    by (induction m) auto
  then show "fst ` set (push_value k v m) = insert k (fst ` set m)" by (simp add: push_value_def)
qed

definition page_ok :: "page_state \<Rightarrow> string set \<Rightarrow> bool" where
  "page_ok pa N \<longleftrightarrow> jmap_ok (pa_records pa) \<and> jmap_ok (pa_merged pa) \<and> jmap_ok (pa_deleted pa) \<and>
     fst ` set (pa_records pa) \<subseteq> N \<and> fst ` set (pa_merged pa) \<subseteq> N \<and> fst ` set (pa_deleted pa) \<subseteq> N"

lemma page_join_rows [simp]: "pa_records (page_join n c pa) = pa_records pa" "pa_merged (page_join n c pa) = pa_merged pa"
  "pa_deleted (page_join n c pa) = pa_deleted pa"
  by (simp_all add: page_join_def Let_def)

lemma page_step_ok: "page_ok pa N \<Longrightarrow> \<not> is_join (fst x) \<longrightarrow> fst x \<in> N \<Longrightarrow> page_ok (page_step pa x) N"
  by (auto simp: page_ok_def page_step_def put_change_def push_value_keys)

lemma page_rows:
  assumes "\<not> is_join n"
  shows "rows_at (pa_records (foldl page_step pa xs)) n = rows_at (pa_records pa) n @ sets_of (changes_at n xs)"
    and "rows_at (pa_merged (foldl page_step pa xs)) n = rows_at (pa_merged pa) n @ merges_of (changes_at n xs)"
    and "rows_at (pa_deleted (foldl page_step pa xs)) n = rows_at (pa_deleted pa) n @ deletes_of (changes_at n xs)"
proof (induction xs rule: rev_induct)
  case (snoc x xs)
  have r: "rank (snd x) = 0 \<or> rank (snd x) = 1 \<or> rank (snd x) = 2" by (simp add: rank_def)
  note defs = page_step_def put_change_def rows_at_push sets_of_def merges_of_def deletes_of_def changes_at_def
  { case 1 show ?case using snoc.IH(1) r assms by (auto simp: defs) }
  { case 2 show ?case using snoc.IH(2) r assms by (auto simp: defs) }
  { case 3 show ?case using snoc.IH(3) r assms by (auto simp: defs) }
qed (simp_all add: sets_of_def merges_of_def deletes_of_def)

lemma page_names:
  assumes "page_ok pa N" and "\<forall>x \<in> set xs. \<not> is_join (fst x) \<longrightarrow> fst x \<in> N"
  shows "page_ok (foldl page_step pa xs) N"
  using assms by (induction xs rule: rev_induct) (auto intro: page_step_ok)

lemma map_values_get: "jmap_get (map_values f m) n = map_option f (jmap_get m n)"
  by (induction m) auto

lemma map_values_rows: "f [] = [] \<Longrightarrow> rows_at (map_values f m) n = f (rows_at m n)"
  by (simp add: map_values_get split: option.split)

lemma map_values_fst: "map fst (map_values f m) = map fst m"
  by (induction m) auto

lemma foldl_set_get:
  assumes "jmap_ok xs"
  shows "jmap_get (foldl (\<lambda>m (r, n). jmap_set r (f n) m) m xs) k = (case jmap_get xs k of None \<Rightarrow> jmap_get m k | Some n \<Rightarrow> Some (f n))"
    and "jmap_ok m \<Longrightarrow> jmap_ok (foldl (\<lambda>m (r, n). jmap_set r (f n) m) m xs)"
  using assms
proof (induction xs arbitrary: m)
  case (Cons p xs)
  obtain r n where p: "p = (r, n)" by fastforce
  { case 1
    then have none: "jmap_get xs r = None" and ok: "jmap_ok xs" by (auto simp: p map_of_eq_None_iff)
    show ?case using Cons.IH(1) [OF ok, of "jmap_set r (f n) m"] none by (simp add: p jmap_simps split: option.split) }
  { case 2
    then show ?case using Cons.IH(2) [of "jmap_set r (f n) m"] by (simp add: p) }
qed simp_all

lemma latest_ok: "jmap_ok (latest_cursors ms)"
  by (induction ms rule: rev_induct) (auto simp: latest_cursors_def)

lemma dedupe_Nil [simp]: "dedupe_records lc [] = []" "dedupe_merged lc [] = []"
  by (simp_all add: dedupe_records_def dedupe_merged_def)

section \<open>The page\<close>

definition streams_of :: "(string \<Rightarrow> change_entry list) \<Rightarrow> string list \<Rightarrow> change_stream list" where
  "streams_of st names = filter (\<lambda>h. cst_changes h \<noteq> []) (map (\<lambda>r. \<lparr>cst_resource = r, cst_changes = st r\<rparr>) names)"

definition data_names :: "(string, string) jmap \<Rightarrow> string list" where
  "data_names cursors = filter (\<lambda>r. r \<noteq> ACTOR_FEED_CURSOR_KEY) (jmap_keys cursors)"

definition page_holds :: "(string \<Rightarrow> string \<Rightarrow> int) \<Rightarrow> (string \<times> change_entry) list \<Rightarrow> canonical_pull \<Rightarrow> bool" where
  "page_holds lc ms p \<longleftrightarrow> jmap_ok (kp_records p) \<and> jmap_ok (merged_rows p) \<and> jmap_ok (kp_deleted p) \<and>
     (\<forall>n. \<not> is_join n \<longrightarrow> rows_at (kp_records p) n = dedupe_records lc (sets_of (changes_at n ms)) \<and>
        rows_at (merged_rows p) n = dedupe_merged lc (merges_of (changes_at n ms)) \<and>
        rows_at (kp_deleted p) n = js_sort lc (js_unique (deletes_of (changes_at n ms))))"

definition page_tables :: "canonical_pull \<Rightarrow> string set" where
  "page_tables p = fst ` set (kp_records p) \<union> fst ` set (merged_rows p) \<union> fst ` set (kp_deleted p)"

lemma streams_at:
  "distinct names \<Longrightarrow> stream_at n (streams_of st names) = (if n \<in> set names then st n else [])"
  by (induction names) (auto simp: streams_of_def stream_at_def)

lemma streams_fine: "distinct names \<Longrightarrow> merge_fine (streams_of st names)"
  by (induction names) (auto simp: merge_fine_def streams_of_def list_ex_iff)

lemma streams_size: "heads_size (streams_of st names) = sum_list (map (\<lambda>n. length (st n)) names)"
  by (induction names) (simp_all add: streams_of_def heads_size_def)

lemma finish_page:
  assumes pa: "page_ok pa N" and joins: "\<forall>n \<in> N. \<not> is_join n"
    and p: "kp_records p = map_values (dedupe_records lc) (pa_records pa)" "merged_rows p = map_values (dedupe_merged lc) (pa_merged pa)"
      "kp_deleted p = map_values (\<lambda>is. js_sort lc (js_unique is)) (pa_deleted pa)"
    and rows: "\<And>n. \<not> is_join n \<Longrightarrow> rows_at (pa_records pa) n = sets_of (changes_at n ms) \<and>
      rows_at (pa_merged pa) n = merges_of (changes_at n ms) \<and> rows_at (pa_deleted pa) n = deletes_of (changes_at n ms)"
  shows "page_holds lc ms p" and "page_tables p \<subseteq> N"
proof -
  have names: "fst ` set (map_values f m) = fst ` set m" for f :: "'x \<Rightarrow> 'y" and m :: "(string, 'x) jmap"
    by (metis map_values_fst set_map)
  have unique: "js_sort lc (js_unique []) = []" by (simp add: js_unique_def)
  show "page_tables p \<subseteq> N" using pa unfolding page_tables_def p page_ok_def by (auto simp: names)
  have "jmap_ok (kp_records p)" "jmap_ok (merged_rows p)" "jmap_ok (kp_deleted p)"
    using pa unfolding p page_ok_def map_values_fst by blast+
  moreover have "rows_at (kp_records p) n = dedupe_records lc (rows_at (pa_records pa) n)" for n
    unfolding p(1) by (rule map_values_rows) simp
  moreover have "rows_at (merged_rows p) n = dedupe_merged lc (rows_at (pa_merged pa) n)" for n
    unfolding p(2) by (rule map_values_rows) simp
  moreover have "rows_at (kp_deleted p) n = js_sort lc (js_unique (rows_at (pa_deleted pa) n))" for n
    unfolding p(3) by (rule map_values_rows) (rule unique)
  ultimately show "page_holds lc ms p" using rows unfolding page_holds_def by metis
qed

lemma canonical_page_anonymous:
  assumes streams: "\<And>r. r \<in> set (data_names cursors) \<Longrightarrow>
      get_changes_since ad s ns r (js_parse_int (the (jmap_get cursors r))) (Some (lmt + Fin 1)) = Inr (st r)"
    and run: "merge_streams lc lmt (streams_of st (data_names cursors)) [] = (ms, rest)"
    and pageable: "\<forall>x \<in> set ms. pageable schema x" and ok: "jmap_ok cursors"
    and names: "\<forall>r \<in> set (data_names cursors). is_join r \<or> is_data_resource_key r"
  obtains p where "canonical_page cfg lc dtoa ad s schema ns cursors lmt None j = Inr (PulledCanonical p [])"
    and "page_holds lc ms p" and "page_tables p \<subseteq> {r \<in> set (data_names cursors). \<not> is_join r}"
    and "kp_cursors p = foldl (\<lambda>m (r, n). jmap_set r (num_to_string dtoa n) m) cursors (latest_cursors ms)"
    and "kp_more p \<longleftrightarrow> rest \<noteq> []"
proof -
  let ?names = "data_names cursors"
  let ?data = "filter is_data_resource_key ?names"
  let ?start = "\<lparr>pa_records = map (\<lambda>r. (r, [])) ?data, pa_merged = [], pa_deleted = map (\<lambda>r. (r, [])) ?data, pa_joins = []\<rparr>"
  let ?pa = "foldl page_step ?start ms"
  let ?N = "{r \<in> set ?names. \<not> is_join r}"
  let ?merged = "map_values (dedupe_merged lc) (pa_merged ?pa)"
  let ?joins = "map_values (sort_join_delta lc dtoa) (pa_joins ?pa)"
  define p where "p = \<lparr>kp_records = map_values (dedupe_records lc) (pa_records ?pa), kp_merged = (if ?merged = [] then None else Some ?merged),
    kp_deleted = map_values (\<lambda>is. js_sort lc (js_unique is)) (pa_deleted ?pa), kp_joins = (if j \<and> ?joins \<noteq> [] then Some ?joins else None),
    kp_cursors = foldl (\<lambda>m (r, n). jmap_set r (num_to_string dtoa n) m) cursors (latest_cursors ms), kp_more = (rest \<noteq> [])\<rparr>"
  have read: "map_sum_list (\<lambda>r. map_sum StoreFailure (\<lambda>cs. \<lparr>cst_resource = r, cst_changes = cs\<rparr>)
      (get_changes_since ad s ns r (js_parse_int (the (jmap_get cursors r))) (Some (lmt + Fin 1)))) ?names =
      Inr (map (\<lambda>r. \<lparr>cst_resource = r, cst_changes = st r\<rparr>) ?names)"
    by (rule map_sum_list_Inr_map) (simp add: streams)
  have merge: "merge_canonical_change_streams lc (map (\<lambda>r. \<lparr>cst_resource = r, cst_changes = st r\<rparr>) ?names) lmt = (ms, latest_cursors ms, rest \<noteq> [])"
    unfolding merge_canonical_change_streams_def streams_of_def [symmetric] run by simp
  have reply: "canonical_page cfg lc dtoa ad s schema ns cursors lmt None j = Inr (PulledCanonical p [])"
    unfolding canonical_page_def Let_def data_names_def [symmetric] read bind_sum_simps merge prod.case page_fold [OF pageable] option.case
    by (simp add: p_def)
  have "distinct ?names" using ok by (simp add: data_names_def)
  have joins: "\<not> is_join r" if "is_data_resource_key r" for r using that by (simp add: is_join_def is_data_resource_key_def)
  have start: "page_ok ?start ?N"
    using \<open>distinct ?names\<close> joins by (auto simp: page_ok_def comp_def)
  have "fst ` set ms \<subseteq> set ?names"
    using merge_names [OF run] by (auto simp: streams_of_def)
  then have "\<forall>x \<in> set ms. \<not> is_join (fst x) \<longrightarrow> fst x \<in> ?N" by auto
  from page_names [OF start this] have fine: "page_ok ?pa ?N" .
  have nil: "rows_at (map (\<lambda>r. (r, [])) xs) n = ([] :: 'x list)" for xs :: "string list" and n by (induction xs) auto
  have rows: "rows_at (pa_records ?pa) n = sets_of (changes_at n ms) \<and>
      rows_at (pa_merged ?pa) n = merges_of (changes_at n ms) \<and> rows_at (pa_deleted ?pa) n = deletes_of (changes_at n ms)" if "\<not> is_join n" for n
    unfolding page_rows [OF that] by (simp only: page_state.select_convs nil append_Nil map_of.simps option.case)
  have fields: "kp_records p = map_values (dedupe_records lc) (pa_records ?pa)" "merged_rows p = ?merged"
    "kp_deleted p = map_values (\<lambda>is. js_sort lc (js_unique is)) (pa_deleted ?pa)"
    by (simp_all add: p_def merged_rows_def)
  have none: "\<forall>n \<in> ?N. \<not> is_join n" by simp
  show thesis
  proof (rule that [OF reply finish_page [OF fine none fields rows]])
    show "kp_cursors p = foldl (\<lambda>m (r, n). jmap_set r (num_to_string dtoa n) m) cursors (latest_cursors ms)" by (simp add: p_def)
    show "kp_more p \<longleftrightarrow> rest \<noteq> []" by (simp add: p_def)
  qed
qed

end
