(* ===== verification/ChangeFeed.thy ===== *)
theory ChangeFeed
  imports PullPages
begin

text \<open>
  The interface between the log of changes and the pull: a store that answers, for every table, the
  changes after a sequence number in order and up to a limit. One page extends what the client has
  of every log by the changes that the page holds.
\<close>

section \<open>Logs and cursors\<close>

definition upto_seq :: "int \<Rightarrow> change_entry list \<Rightarrow> change_entry list" where
  "upto_seq a cs = filter (\<lambda>c. seq_int c \<le> a) cs"

definition after_seq :: "int \<Rightarrow> change_entry list \<Rightarrow> change_entry list" where
  "after_seq a cs = filter (\<lambda>c. a < seq_int c) cs"

abbreviation in_order :: "change_entry list \<Rightarrow> bool" where
  "in_order \<equiv> sorted_wrt (\<lambda>c d. seq_int c < seq_int d)"

lemma split_at_seq: "in_order cs \<Longrightarrow> cs = upto_seq a cs @ after_seq a cs"
proof (induction cs)
  case (Cons c cs)
  show ?case
  proof (cases "seq_int c \<le> a")
    case False
    then have "upto_seq a cs = []" using Cons.prems by (auto simp: upto_seq_def filter_empty_conv)
    then show ?thesis using False Cons by (simp add: upto_seq_def after_seq_def)
  qed (use Cons in \<open>simp add: upto_seq_def after_seq_def\<close>)
qed (simp add: upto_seq_def after_seq_def)

lemma next_seq:
  assumes cs: "in_order cs" and split: "after_seq a cs = ps @ qs" and b: "b = (if ps = [] then a else seq_int (last ps))"
  shows "upto_seq b cs = upto_seq a cs @ ps" and "after_seq b cs = qs" and "a \<le> b"
proof -
  have all: "cs = upto_seq a cs @ ps @ qs" using split_at_seq [OF cs, of a] split by simp
  then have order: "in_order (upto_seq a cs @ ps @ qs)" using cs by metis
  have after: "\<forall>c \<in> set (ps @ qs). a < seq_int c" using split [symmetric] by (simp add: after_seq_def)
  show ab: "a \<le> b"
  proof (cases "ps = []")
    case False
    then have "a < seq_int (last ps)" using after last_in_set by simp
    then show ?thesis using b False by simp
  qed (simp add: b)
  have low: "\<forall>c \<in> set ps. seq_int c \<le> b"
  proof (cases ps rule: rev_cases)
    case (snoc rs r)
    then show ?thesis using order b by (auto simp: sorted_wrt_append)
  qed simp
  have high: "\<forall>c \<in> set qs. b < seq_int c"
    using order after b by (auto simp: sorted_wrt_append)
  have old: "\<forall>c \<in> set (upto_seq a cs). seq_int c \<le> b" using ab by (auto simp: upto_seq_def)
  have up: "upto_seq b xs = xs" if "\<forall>c \<in> set xs. seq_int c \<le> b" for xs using that by (simp add: upto_seq_def)
  have "upto_seq b (upto_seq a cs @ ps @ qs) = upto_seq b (upto_seq a cs) @ upto_seq b ps @ upto_seq b qs" by (simp add: upto_seq_def)
  moreover have "upto_seq b qs = []" using high by (auto simp: upto_seq_def filter_empty_conv)
  moreover have "upto_seq b ps = ps" "upto_seq b (upto_seq a cs) = upto_seq a cs"
    using up [OF low] up [OF old] by simp_all
  ultimately show "upto_seq b cs = upto_seq a cs @ ps" using all by (metis append_Nil2)
  have "after_seq b (upto_seq a cs @ ps @ qs) = after_seq b (upto_seq a cs) @ after_seq b ps @ after_seq b qs" by (simp add: after_seq_def)
  moreover have "after_seq b (upto_seq a cs) = []" "after_seq b ps = []"
    using low old by (auto simp: after_seq_def filter_empty_conv)
  moreover have "after_seq b qs = qs" using high by (auto simp: after_seq_def filter_id_conv)
  ultimately show "after_seq b cs = qs" using all by (metis append_Nil)
qed

definition cursors_at :: "(string, string) jmap \<Rightarrow> (string \<Rightarrow> int) \<Rightarrow> bool" where
  "cursors_at cursors a \<longleftrightarrow> jmap_ok cursors \<and> (\<forall>n c. jmap_get cursors n = Some c \<longrightarrow> 0 \<le> a n \<and> c = int_to_string (a n))"

lemma sum_indicator: "distinct names \<Longrightarrow> sum_list (map (\<lambda>n. if n = m then 1 else 0) names) = (if m \<in> set names then 1 else 0 :: nat)"
  by (induction names) auto

lemma streams_names: "cst_resource ` set (streams_of st names) \<subseteq> set names"
  by (auto simp: streams_of_def)

lemma changes_total:
  assumes "distinct names" and "fst ` set ms \<subseteq> set names"
  shows "sum_list (map (\<lambda>n. length (changes_at n ms)) names) = length ms"
  using assms(2)
proof (induction ms)
  case (Cons x ms)
  have "sum_list (map (\<lambda>n. length (changes_at n (x # ms))) names) =
      sum_list (map (\<lambda>n. (if n = fst x then 1 else 0) + length (changes_at n ms)) names)"
    by (rule arg_cong [where f = sum_list], rule map_cong) (auto simp: changes_at_def)
  also have "\<dots> = sum_list (map (\<lambda>n. if n = fst x then 1 else 0) names) + length ms"
    using Cons by (simp add: sum_list_addf)
  also have "sum_list (map (\<lambda>n. if n = fst x then 1 else 0) names) = (1 :: nat)"
    using sum_indicator [OF assms(1), of "fst x"] Cons.prems by simp
  finally show ?case by simp
qed (simp add: changes_at_def)

section \<open>The interface\<close>

locale change_feed =
  fixes feed :: "'s adapter" and feed_ok :: "'s \<Rightarrow> string \<Rightarrow> bool" and feed_log :: "'s \<Rightarrow> string \<Rightarrow> string \<Rightarrow> change_entry list"
  assumes log_order: "feed_ok s ns \<Longrightarrow> in_order (feed_log s ns n)"
    and log_numbers: "feed_ok s ns \<Longrightarrow> c \<in> set (feed_log s ns n) \<Longrightarrow> numbered c \<and> seq_int c < PRINTED"
    and read_law: "feed_ok s ns \<Longrightarrow> 0 < k \<Longrightarrow>
      get_changes_since feed s ns n (seqnum a) (Some (seqnum (int k))) = Inr (take k (after_seq a (feed_log s ns n)))"
begin

definition waiting :: "'s \<Rightarrow> string \<Rightarrow> string list \<Rightarrow> (string \<Rightarrow> int) \<Rightarrow> nat" where
  "waiting s ns names a = sum_list (map (\<lambda>n. length (after_seq (a n) (feed_log s ns n))) names)"

lemma pull_page:
  assumes ok: "feed_ok s ns" and at: "cursors_at cursors a" and k: "0 < k"
    and tables: "\<forall>n \<in> set (data_names cursors). is_join n \<or> public_table schema n \<and> (\<forall>c \<in> set (feed_log s ns n). good_change c)"
  obtains p ms b where "canonical_page cfg lc dtoa feed s schema ns cursors (Fin (of_nat k)) None j = Inr (PulledCanonical p [])"
    and "page_holds lc ms p" and "page_tables p \<subseteq> {r \<in> set (data_names cursors). \<not> is_join r}"
    and "cursors_at (kp_cursors p) b" and "\<And>n. jmap_get (kp_cursors p) n = None \<longleftrightarrow> jmap_get cursors n = None"
    and "\<And>n. a n \<le> b n" and "\<And>n. b n \<in> insert (a n) (seq_int ` set (feed_log s ns n))"
    and "\<And>n. n \<in> set (data_names cursors) \<Longrightarrow> upto_seq (b n) (feed_log s ns n) = upto_seq (a n) (feed_log s ns n) @ changes_at n ms"
    and "\<And>n. n \<notin> set (data_names cursors) \<Longrightarrow> changes_at n ms = []"
    and "length ms \<le> k"
    and "kp_more p \<Longrightarrow> waiting s ns (data_names cursors) b + k \<le> waiting s ns (data_names cursors) a \<and> k < waiting s ns (data_names cursors) a"
    and "\<And>n. \<not> kp_more p \<Longrightarrow> n \<in> set (data_names cursors) \<Longrightarrow> after_seq (b n) (feed_log s ns n) = []"
proof -
  let ?names = "data_names cursors" and ?log = "feed_log s ns"
  let ?st = "\<lambda>n. take (Suc k) (after_seq (a n) (?log n))"
  have dist: "distinct ?names" using at by (simp add: cursors_at_def data_names_def)
  obtain ms rest where run: "merge_streams lc (Fin (of_nat k)) (streams_of ?st ?names) [] = (ms, rest)" by fastforce
  from merge_prefixes [OF run streams_fine [OF dist]]
  have prefix: "changes_at n ms @ stream_at n rest = stream_at n (streams_of ?st ?names)" for n by simp
  from merge_prefixes [OF run streams_fine [OF dist]]
  have sizes: "length ms + heads_size rest = heads_size (streams_of ?st ?names)" "length ms \<le> k"
    "rest \<noteq> [] \<Longrightarrow> k \<le> length ms \<and> 0 < heads_size rest" by simp_all
  have "fst ` set ms \<subseteq> cst_resource ` set (streams_of ?st ?names)"
    using merge_names [OF run] by (simp only: list.set image_empty Un_empty_left)
  then have in_names: "fst ` set ms \<subseteq> set ?names" using streams_names by (rule order_trans)
  have named: "fst x \<in> set ?names" if "x \<in> set ms" for x by (rule subsetD [OF in_names imageI [OF that]])
  have outside: "changes_at n ms = []" if "n \<notin> set ?names" for n
    unfolding changes_at_def using named that by (metis (mono_tags, lifting) filter_False list.simps(8))
  define qs where "qs n = stream_at n rest @ drop (Suc k) (after_seq (a n) (?log n))" for n
  have split: "after_seq (a n) (?log n) = changes_at n ms @ qs n" if "n \<in> set ?names" for n
  proof -
    have "changes_at n ms @ stream_at n rest = ?st n" using prefix [of n] that by (simp add: streams_at [OF dist])
    then show ?thesis by (simp only: qs_def append_assoc [symmetric] append_take_drop_id)
  qed
  have from_log: "set (changes_at n ms) \<subseteq> set (?log n)" for n
  proof (cases "n \<in> set ?names")
    case True
    then have "set (changes_at n ms) \<subseteq> set (after_seq (a n) (?log n))" using split by simp
    then show ?thesis by (auto simp: after_seq_def)
  qed (simp add: outside)
  have entry: "snd x \<in> set (?log (fst x)) \<and> fst x \<in> set ?names" if "x \<in> set ms" for x
  proof -
    have "snd x \<in> set (changes_at (fst x) ms)" using that by (simp add: changes_at_def)
    then show ?thesis using from_log named [OF that] by blast
  qed
  have nums: "\<forall>x \<in> set ms. numbered (snd x)" using entry log_numbers [OF ok] by blast
  have order: "in_order (changes_at n ms)" for n
  proof (cases "n \<in> set ?names")
    case True
    have "in_order (after_seq (a n) (?log n))" using log_order [OF ok, of n] by (simp add: after_seq_def sorted_wrt_filter)
    then show ?thesis unfolding split [OF True] sorted_wrt_append by blast
  qed (simp add: outside)
  define b where "b n = (if changes_at n ms = [] then a n else seq_int (last (changes_at n ms)))" for n
  note latest = latest_at [OF nums order]
  have pageable: "\<forall>x \<in> set ms. pageable schema x" using entry tables by (auto simp: pageable_def)
  have key: "\<forall>r \<in> set ?names. is_join r \<or> is_data_resource_key r" using tables by (auto simp: public_table_def)
  have read: "get_changes_since feed s ns r (js_parse_int (the (jmap_get cursors r))) (Some (Fin (of_nat k) + Fin 1)) = Inr (?st r)"
    if r: "r \<in> set ?names" for r
  proof -
    have "r \<in> fst ` set cursors" using r by (auto simp: data_names_def)
    then obtain c where c: "jmap_get cursors r = Some c" by (metis jmap_has_keys option.exhaust set_map)
    have "0 \<le> a r \<and> c = int_to_string (a r)" using at c unfolding cursors_at_def by blast
    then have "js_parse_int (the (jmap_get cursors r)) = seqnum (a r)" unfolding c option.sel using parse_int_print by metis
    moreover have "Fin (of_nat k) + Fin 1 = seqnum (int (Suc k))" by (simp add: seqnum_def)
    ultimately show ?thesis using read_law [OF ok, of "Suc k"] by simp
  qed
  have "jmap_ok cursors" using at by (simp add: cursors_at_def)
  then obtain p where p: "canonical_page cfg lc dtoa feed s schema ns cursors (Fin (of_nat k)) None j = Inr (PulledCanonical p [])"
    "page_holds lc ms p" "page_tables p \<subseteq> {r \<in> set ?names. \<not> is_join r}"
    "kp_cursors p = foldl (\<lambda>m (r, n). jmap_set r (num_to_string dtoa n) m) cursors (latest_cursors ms)" "kp_more p \<longleftrightarrow> rest \<noteq> []"
    using canonical_page_anonymous [OF read run pageable _ key] by blast
  have get: "jmap_get (kp_cursors p) n = (if changes_at n ms = [] then jmap_get cursors n else Some (int_to_string (b n)))" for n
  proof (cases "changes_at n ms = []")
    case False
    then have "last (changes_at n ms) \<in> set (?log n)" using from_log [of n] last_in_set by blast
    then have "numbered (last (changes_at n ms))" "seq_int (last (changes_at n ms)) < PRINTED" using log_numbers [OF ok] by blast+
    then have "num_to_string dtoa (ch_seq (last (changes_at n ms))) = int_to_string (b n)"
      using num_to_string_int [of "b n" dtoa] False by (simp add: numbered_def PRINTED_def b_def)
    then show ?thesis using False unfolding p(4) foldl_set_get(1) [OF latest_ok] latest by simp
  qed (simp add: p(4) foldl_set_get(1) [OF latest_ok] latest)
  have ab: "a n \<le> b n" for n
  proof (cases "n \<in> set ?names")
    case True
    show ?thesis by (rule next_seq(3) [OF log_order [OF ok] split [OF True]]) (simp add: b_def)
  qed (simp add: b_def outside)
  have seen: "b n \<in> insert (a n) (seq_int ` set (?log n))" for n
  proof (cases "changes_at n ms = []")
    case False
    then have "last (changes_at n ms) \<in> set (?log n)" using from_log [of n] last_in_set by blast
    then show ?thesis using False by (simp add: b_def)
  qed (simp add: b_def)
  have cursors_b: "cursors_at (kp_cursors p) b"
  proof -
    have "jmap_ok (kp_cursors p)" unfolding p(4) using foldl_set_get(2) [OF latest_ok \<open>jmap_ok cursors\<close>] .
    moreover have "0 \<le> b n \<and> c = int_to_string (b n)" if c: "jmap_get (kp_cursors p) n = Some c" for n c
    proof (cases "changes_at n ms = []")
      case True
      then show ?thesis using c get [of n] at by (simp add: cursors_at_def b_def)
    next
      case False
      then have "last (changes_at n ms) \<in> set (?log n)" using from_log [of n] last_in_set by blast
      then have "0 < seq_int (last (changes_at n ms))" using log_numbers [OF ok] by (auto simp: numbered_def)
      then show ?thesis using c get [of n] False by (simp add: b_def)
    qed
    ultimately show ?thesis by (simp add: cursors_at_def)
  qed
  have same_keys: "jmap_get (kp_cursors p) n = None \<longleftrightarrow> jmap_get cursors n = None" for n
  proof (cases "changes_at n ms = []")
    case False
    then have "n \<in> fst ` set cursors" using outside by (auto simp: data_names_def)
    then show ?thesis using get [of n] False by (metis jmap_has_keys option.distinct(1) set_map)
  qed (simp add: get)
  have step: "upto_seq (b n) (?log n) = upto_seq (a n) (?log n) @ changes_at n ms" "after_seq (b n) (?log n) = qs n" if "n \<in> set ?names" for n
    using next_seq [OF log_order [OF ok] split [OF that], of "b n"] by (simp_all add: b_def)
  have total: "waiting s ns ?names a = length ms + waiting s ns ?names b"
  proof -
    have "waiting s ns ?names a = sum_list (map (\<lambda>n. length (changes_at n ms) + length (after_seq (b n) (?log n))) ?names)"
      unfolding waiting_def using split step(2) by (intro arg_cong [where f = sum_list] map_cong) simp_all
    then show ?thesis using changes_total [OF dist in_names] by (simp add: sum_list_addf waiting_def)
  qed
  have some: "length ms + heads_size rest \<le> waiting s ns ?names a"
    unfolding sizes(1) streams_size waiting_def by (rule sum_list_mono) simp
  have rest_empty: "after_seq (b n) (?log n) = []" if "rest = []" "n \<in> set ?names" for n
  proof -
    have "length (changes_at n ms) \<le> k" using sizes(2) order_trans [OF length_filter_le] by (fastforce simp: changes_at_def)
    moreover have "changes_at n ms = ?st n" using prefix [of n] that by (simp add: streams_at [OF dist] stream_at_none)
    ultimately have "length (after_seq (a n) (?log n)) \<le> k" by simp
    then show ?thesis using step(2) [OF that(2)] that(1) by (simp add: qs_def stream_at_none)
  qed
  show thesis
  proof (rule that [OF p(1-3) cursors_b same_keys ab seen step(1) outside sizes(2)])
    assume "kp_more p"
    then have "k \<le> length ms \<and> 0 < heads_size rest" using sizes(3) p(5) by blast
    then show "waiting s ns ?names b + k \<le> waiting s ns ?names a \<and> k < waiting s ns ?names a" using total some by linarith
  qed (use rest_empty p(5) in blast)+
qed

end

end
