(* ===== verification/SyncConverge.thy ===== *)
theory SyncConverge
  imports ChangeFeed SyncEngine
begin

text \<open>
  Pulling until nothing is left replays the log: over any \<open>change_feed\<close>, a client that holds the
  replay of the log up to its cursors holds it up to the new cursors after every page, and up to the
  end of the log when the server has no more.
\<close>

section \<open>What a client holds\<close>

definition holds_log :: "(string \<Rightarrow> change_entry list) \<Rightarrow> string set \<Rightarrow> (string \<Rightarrow> int) \<Rightarrow> client_storage \<Rightarrow> bool" where
  "holds_log L N a t \<longleftrightarrow> (\<forall>n \<in> N. \<not> is_join n \<longrightarrow> replica_of t n = replay (upto_seq (a n) (L n)) (\<lambda>_. None))"

definition holds_cursors :: "string set \<Rightarrow> (string \<Rightarrow> int) \<Rightarrow> client_storage \<Rightarrow> bool" where
  "holds_cursors K a t \<longleftrightarrow> (\<forall>n \<in> K. n \<noteq> GLOBAL_CURSOR_KEY \<and> (is_internal_cursor_key n \<or> \<not> invalid_table n t) \<and>
     (\<forall>e. cursor_of n t = Some e \<longrightarrow> (\<exists>b. 0 \<le> b \<and> b \<le> a n \<and> e = int_to_string b)))"

definition has_tables :: "string set \<Rightarrow> client_storage \<Rightarrow> bool" where
  "has_tables N t \<longleftrightarrow> (\<forall>n \<in> N. \<not> is_join n \<longrightarrow> \<not> invalid_table n t)"

lemma holds_cursors_mono:
  assumes "holds_cursors K a t" and "\<And>n. a n \<le> b n"
  shows "holds_cursors K b t"
  unfolding holds_cursors_def
proof (intro ballI)
  fix n assume "n \<in> K"
  then have n: "n \<noteq> GLOBAL_CURSOR_KEY \<and> (is_internal_cursor_key n \<or> \<not> invalid_table n t) \<and>
      (\<forall>e. cursor_of n t = Some e \<longrightarrow> (\<exists>b. 0 \<le> b \<and> b \<le> a n \<and> e = int_to_string b))"
    using assms(1) unfolding holds_cursors_def by blast
  then show "n \<noteq> GLOBAL_CURSOR_KEY \<and> (is_internal_cursor_key n \<or> \<not> invalid_table n t) \<and>
      (\<forall>e. cursor_of n t = Some e \<longrightarrow> (\<exists>d. 0 \<le> d \<and> d \<le> b n \<and> e = int_to_string d))"
    using order_trans [OF _ assms(2) [of n]] by blast
qed

lemma key_get: "n \<in> fst ` set m \<longleftrightarrow> (\<exists>c. jmap_get m n = Some c)"
  using map_of_eq_None_iff [of m n] by (cases "jmap_get m n") auto

lemma replay_append: "replay (xs @ ys) v = replay ys (replay xs v)"
  by (simp add: replay_def)

lemma orderly_part: "orderly (xs @ ys) \<Longrightarrow> orderly xs \<and> orderly ys"
  by (simp add: orderly_def sorted_append)

text \<open>No record is written again in a page that holds a merge or a deletion of it: pages hold at most \<open>k\<close> changes.\<close>

definition orderly_within :: "nat \<Rightarrow> change_entry list \<Rightarrow> bool" where
  "orderly_within k cs \<longleftrightarrow> (\<forall>xs ys zs. cs = xs @ ys @ zs \<longrightarrow> length ys \<le> k \<longrightarrow> orderly ys)"

lemma orderly_page: "orderly_within k (ys @ zs) \<Longrightarrow> length ys \<le> k \<Longrightarrow> orderly ys"
  unfolding orderly_within_def by (metis append_Nil)

lemma orderly_later: "orderly_within k (ys @ zs) \<Longrightarrow> orderly_within k zs"
  unfolding orderly_within_def by (metis append_assoc)

lemma orderly_within_all: "orderly cs \<Longrightarrow> orderly_within k cs"
  unfolding orderly_within_def using orderly_part by blast

lemma orderly_singly: "\<forall>c \<in> set cs. good_change c \<Longrightarrow> orderly_within 1 cs"
proof -
  assume good: "\<forall>c \<in> set cs. good_change c"
  have "orderly ys" if "cs = xs @ ys @ zs" "length ys \<le> 1" for xs ys zs
    using that good by (cases ys) (auto simp: orderly_def)
  then show ?thesis unfolding orderly_within_def by blast
qed

section \<open>One page\<close>

lemma page_rows_identified:
  assumes "orderly cs"
  shows "\<forall>r \<in> set (dedupe_records lc (sets_of cs)). well_identified r" and "\<forall>r \<in> set (dedupe_merged lc (merges_of cs)). well_identified r"
    and "at_id rid (\<lambda>r _. Some (jmap_get r)) i (dedupe_records lc (sets_of cs)) v = at_id rid (\<lambda>r _. Some (jmap_get r)) i (sets_of cs) v"
    and "at_id rid merged_into i (dedupe_merged lc (merges_of cs)) v = at_id rid merged_into i (merges_of cs) v"
proof -
  have good: "good_change c" if "c \<in> set cs" for c using assms that by (simp add: orderly_def)
  have "well_identified (the (ch_record c)) \<and> (rank c = 1 \<longrightarrow> flat_record (the (ch_record c)))" if "c \<in> set cs" "rank c < 2" for c
    using rank_good [OF good [OF that(1)] that(2)] good_rid by (metis option.sel well_identified_def)
  then have sets: "\<forall>r \<in> set (sets_of cs). well_identified r" and merges: "\<forall>r \<in> set (merges_of cs). well_identified r \<and> flat_record r"
    by (auto simp: sets_of_def merges_of_def)
  show "\<forall>r \<in> set (dedupe_records lc (sets_of cs)). well_identified r" by (rule dedupe_records_at(2) [OF sets])
  show "\<forall>r \<in> set (dedupe_merged lc (merges_of cs)). well_identified r" by (rule dedupe_merged_at(2) [OF merges])
  show "at_id rid (\<lambda>r _. Some (jmap_get r)) i (dedupe_records lc (sets_of cs)) v = at_id rid (\<lambda>r _. Some (jmap_get r)) i (sets_of cs) v"
    by (rule dedupe_records_at(1) [OF sets])
  show "at_id rid merged_into i (dedupe_merged lc (merges_of cs)) v = at_id rid merged_into i (merges_of cs) v"
    by (rule dedupe_merged_at(1) [OF merges])
qed

lemma usable_page:
  assumes "jmap_ok ts" and "\<And>n. n \<in> fst ` set ts \<Longrightarrow> \<not> invalid_table n t \<and> (\<forall>x \<in> set (rows_at ts n). good x)"
  shows "usable t ts good"
  unfolding usable_def
proof (intro ballI, clarify)
  fix n xs assume m: "(n, xs) \<in> set ts"
  then have "jmap_get ts n = Some xs" using assms(1) by (simp add: jmap_get_in_set)
  then show "\<not> invalid_table n t \<and> (\<forall>x \<in> set xs. good x)" using assms(2) [of n] m by force
qed

lemma apply_held_page:
  assumes page: "page_holds lc ms p" and tables: "page_tables p \<subseteq> {n \<in> N. \<not> is_join n}" and has: "has_tables N t"
    and orderly: "\<And>n. \<not> is_join n \<Longrightarrow> orderly (changes_at n ms)"
    and cursors: "cursors_at (kp_cursors p) b" and held: "holds_cursors (fst ` set (kp_cursors p)) b t"
  obtains u where "apply_pull_canonical dtoa p t = (Inr (), u)" and "cs_valid u = cs_valid t"
    and "\<And>n. \<not> is_join n \<Longrightarrow> replica_of u n = replay (changes_at n ms) (replica_of t n)"
    and "\<And>n. n \<noteq> GLOBAL_CURSOR_KEY \<Longrightarrow> cursor_of n u = (case jmap_get (kp_cursors p) n of None \<Rightarrow> cursor_of n t | Some c \<Rightarrow> Some c)"
proof -
  note maps = page [unfolded page_holds_def]
  have table: "\<not> is_join n \<and> \<not> invalid_table n t" if "n \<in> page_tables p" for n
    using that tables has by (auto simp: has_tables_def)
  have records: "rows_at (kp_records p) n = dedupe_records lc (sets_of (changes_at n ms))"
    and merged: "rows_at (merged_rows p) n = dedupe_merged lc (merges_of (changes_at n ms))"
    and deleted: "rows_at (kp_deleted p) n = js_sort lc (js_unique (deletes_of (changes_at n ms)))" if "\<not> is_join n" for n
    using maps that by blast+
  have "usable t (kp_records p) well_identified"
  proof (rule usable_page)
    show "jmap_ok (kp_records p)" using maps by blast
    fix n assume "n \<in> fst ` set (kp_records p)"
    then have n: "n \<in> page_tables p" unfolding page_tables_def by blast
    show "\<not> invalid_table n t \<and> (\<forall>x \<in> set (rows_at (kp_records p) n). well_identified x)"
      using table [OF n] records page_rows_identified(1) [OF orderly] by metis
  qed
  moreover have "usable t (merged_rows p) well_identified"
  proof (rule usable_page)
    show "jmap_ok (merged_rows p)" using maps by blast
    fix n assume "n \<in> fst ` set (merged_rows p)"
    then have n: "n \<in> page_tables p" unfolding page_tables_def by blast
    show "\<not> invalid_table n t \<and> (\<forall>x \<in> set (rows_at (merged_rows p) n). well_identified x)"
      using table [OF n] merged page_rows_identified(2) [OF orderly] by metis
  qed
  moreover have "usable t (kp_deleted p) (\<lambda>_. True)"
  proof (rule usable_page)
    show "jmap_ok (kp_deleted p)" using maps by blast
    fix n assume "n \<in> fst ` set (kp_deleted p)"
    then have n: "n \<in> page_tables p" unfolding page_tables_def by blast
    show "\<not> invalid_table n t \<and> (\<forall>x \<in> set (rows_at (kp_deleted p) n). True)" using table [OF n] by simp
  qed
  moreover have "jmap_ok (kp_cursors p)" using cursors by (simp add: cursors_at_def)
  moreover have "cursor_ok t n c" if "(n, c) \<in> set (kp_cursors p)" for n c
  proof -
    have "jmap_get (kp_cursors p) n = Some c" using that cursors by (simp add: cursors_at_def jmap_get_in_set)
    then have "0 \<le> b n \<and> c = int_to_string (b n)" using cursors unfolding cursors_at_def by blast
    moreover have "n \<in> fst ` set (kp_cursors p)" using that by force
    ultimately show ?thesis using held unfolding holds_cursors_def cursor_ok_def by blast
  qed
  ultimately have "applicable p t" using maps unfolding applicable_def by blast
  then obtain u where u: "apply_pull_canonical dtoa p t = (Inr (), u)" "cs_valid u = cs_valid t"
    "\<And>n i. replica_of u n i = at_id (\<lambda>i. i) (\<lambda>_ _. None) i (rows_at (kp_deleted p) n)
      (at_id rid merged_into i (rows_at (merged_rows p) n)
        (at_id rid (\<lambda>r _. Some (jmap_get r)) i (rows_at (kp_records p) n) (replica_of t n i)))"
    "\<And>m. m \<noteq> GLOBAL_CURSOR_KEY \<Longrightarrow> cursor_of m u = (case jmap_get (kp_cursors p) m of None \<Rightarrow> cursor_of m t | Some c \<Rightarrow> Some c)"
    using apply_page by blast
  show thesis
  proof (rule that [OF u(1,2) _ u(4)])
    fix n assume n: "\<not> is_join n"
    show "replica_of u n = replay (changes_at n ms) (replica_of t n)"
    proof
      fix i
      have "set (js_sort lc (js_unique (deletes_of (changes_at n ms)))) = set (deletes_of (changes_at n ms))" by simp
      then have del: "at_id (\<lambda>i. i) (\<lambda>_ _. None) i (js_sort lc (js_unique (deletes_of (changes_at n ms)))) v =
          at_id (\<lambda>i. i) (\<lambda>_ _. None) i (deletes_of (changes_at n ms)) v" for v
        unfolding deletes_unordered by simp
      show "replica_of u n i = replay (changes_at n ms) (replica_of t n) i"
        unfolding u(3) records [OF n] merged [OF n] deleted [OF n] page_rows_identified(3,4) [OF orderly [OF n]] del
          replay_orderly [OF orderly [OF n]] ..
    qed
  qed
qed

section \<open>Catching up\<close>

definition page_of :: "db_error resolve_error + pull_reply \<Rightarrow> string + canonical_pull" where
  "page_of r = (case r of Inr (PulledCanonical p _) \<Rightarrow> Inr p | _ \<Rightarrow> Inl ''Pull rejected by server'')"

context change_feed begin

lemma waiting_set:
  assumes "distinct xs" and "distinct ys" and "set xs = set ys"
  shows "waiting s ns xs a = waiting s ns ys a"
  unfolding waiting_def using assms by (simp add: sum_list_distinct_conv_sum_set)

definition readable :: "'s \<Rightarrow> string \<Rightarrow> policy_schema \<Rightarrow> string set \<Rightarrow> bool" where
  "readable s ns schema N \<longleftrightarrow> (\<forall>n \<in> N. is_join n \<or> public_table schema n \<and> (\<forall>c \<in> set (feed_log s ns n). good_change c))"

definition caught :: "nat \<Rightarrow> 's \<Rightarrow> string \<Rightarrow> string set \<Rightarrow> string set \<Rightarrow> (string \<Rightarrow> int) \<Rightarrow> client_storage \<Rightarrow> bool" where
  "caught k s ns N K a t \<longleftrightarrow> holds_log (feed_log s ns) N a t \<and> holds_cursors K a t \<and> has_tables N t \<and>
     (\<forall>n \<in> N. \<not> is_join n \<longrightarrow> orderly_within k (after_seq (a n) (feed_log s ns n)))"

lemma catch_up_page:
  assumes ok: "feed_ok s ns" and at: "cursors_at cursors a" and k: "0 < k" and readable: "readable s ns schema (set (data_names cursors))"
    and t: "caught k s ns (set (data_names cursors)) (fst ` set cursors) a t"
  obtains p b u where "canonical_page cfg lc dtoa feed s schema ns cursors (Fin (of_nat k)) None j = Inr (PulledCanonical p [])"
    and "apply_pull_result dtoa (CanonicalPull p) t = (Inr (), u)"
    and "cursors_at (kp_cursors p) b" and "\<And>n. jmap_get (kp_cursors p) n = None \<longleftrightarrow> jmap_get cursors n = None" and "\<And>n. a n \<le> b n"
    and "\<And>n. b n \<in> insert (a n) (seq_int ` set (feed_log s ns n))"
    and "caught k s ns (set (data_names cursors)) (fst ` set cursors) b u"
    and "\<And>n. n \<in> fst ` set cursors \<Longrightarrow> cursor_of n u = Some (int_to_string (b n))"
    and "kp_more p \<Longrightarrow> waiting s ns (data_names cursors) b + k \<le> waiting s ns (data_names cursors) a \<and> k < waiting s ns (data_names cursors) a"
    and "\<And>n. \<not> kp_more p \<Longrightarrow> n \<in> set (data_names cursors) \<Longrightarrow> after_seq (b n) (feed_log s ns n) = []"
proof -
  let ?N = "set (data_names cursors)" and ?K = "fst ` set cursors" and ?log = "feed_log s ns"
  note caught = t [unfolded caught_def]
  obtain p ms b where p: "canonical_page cfg lc dtoa feed s schema ns cursors (Fin (of_nat k)) None j = Inr (PulledCanonical p [])"
    "page_holds lc ms p" "page_tables p \<subseteq> {r \<in> ?N. \<not> is_join r}" "cursors_at (kp_cursors p) b"
    and keys: "\<And>n. jmap_get (kp_cursors p) n = None \<longleftrightarrow> jmap_get cursors n = None"
    and ab: "\<And>n. a n \<le> b n" and seen: "\<And>n. b n \<in> insert (a n) (seq_int ` set (feed_log s ns n))"
    and step: "\<And>n. n \<in> ?N \<Longrightarrow> upto_seq (b n) (?log n) = upto_seq (a n) (?log n) @ changes_at n ms"
    and out: "\<And>n. n \<notin> ?N \<Longrightarrow> changes_at n ms = []"
    and size: "length ms \<le> k"
    and more: "kp_more p \<Longrightarrow> waiting s ns (data_names cursors) b + k \<le> waiting s ns (data_names cursors) a \<and> k < waiting s ns (data_names cursors) a"
    and none: "\<And>n. \<not> kp_more p \<Longrightarrow> n \<in> ?N \<Longrightarrow> after_seq (b n) (?log n) = []"
    by (rule pull_page [OF ok at k readable [unfolded readable_def]]) (rule that)
  have rest: "after_seq (a n) (?log n) = changes_at n ms @ after_seq (b n) (?log n)" if "n \<in> ?N" for n
  proof -
    have "upto_seq (a n) (?log n) @ after_seq (a n) (?log n) = upto_seq (b n) (?log n) @ after_seq (b n) (?log n)"
      using split_at_seq [OF log_order [OF ok]] by metis
    then show ?thesis using step [OF that] by simp
  qed
  have orderly: "orderly (changes_at n ms)" if "\<not> is_join n" for n
  proof (cases "n \<in> ?N")
    case True
    then have "orderly_within k (after_seq (a n) (?log n))" using caught that by blast
    moreover have "length (changes_at n ms) \<le> k" using size le_trans [OF length_filter_le] by (simp add: changes_at_def)
    ultimately show ?thesis unfolding rest [OF True] by (rule orderly_page)
  qed (simp add: out orderly_def)
  have same: "n \<in> fst ` set (kp_cursors p) \<longleftrightarrow> n \<in> ?K" for n
    unfolding key_get using keys [of n] by (cases "jmap_get cursors n"; cases "jmap_get (kp_cursors p) n") simp_all
  have K: "fst ` set (kp_cursors p) = ?K" using same by blast
  have cursors_t: "holds_cursors (fst ` set (kp_cursors p)) b t"
    unfolding K by (rule holds_cursors_mono [OF _ ab]) (use caught in blast)
  have has: "has_tables ?N t" using caught by blast
  obtain u where u: "apply_pull_canonical dtoa p t = (Inr (), u)" "cs_valid u = cs_valid t"
    "\<And>n. \<not> is_join n \<Longrightarrow> replica_of u n = replay (changes_at n ms) (replica_of t n)"
    "\<And>n. n \<noteq> GLOBAL_CURSOR_KEY \<Longrightarrow> cursor_of n u = (case jmap_get (kp_cursors p) n of None \<Rightarrow> cursor_of n t | Some c \<Rightarrow> Some c)"
    by (rule apply_held_page [OF p(2,3) has _ p(4) cursors_t], rule orderly, assumption) (rule that)
  have stored: "cursor_of n u = Some (int_to_string (b n)) \<and> 0 \<le> b n" if n: "n \<in> ?K" for n
  proof -
    obtain c where c: "jmap_get (kp_cursors p) n = Some c" using same [of n] n unfolding key_get by blast
    then have "0 \<le> b n \<and> c = int_to_string (b n)" using p(4) unfolding cursors_at_def by blast
    moreover have "n \<noteq> GLOBAL_CURSOR_KEY" using caught n unfolding holds_cursors_def by blast
    ultimately show ?thesis using u(4) c by simp
  qed
  have valid: "invalid_table n u = invalid_table n t" for n by (rule same_valid [OF u(2)])
  have "holds_log ?log ?N b u"
    unfolding holds_log_def
  proof (intro ballI impI)
    fix n assume n: "n \<in> ?N" "\<not> is_join n"
    then have "replica_of t n = replay (upto_seq (a n) (?log n)) (\<lambda>_. None)" using caught unfolding holds_log_def by blast
    then show "replica_of u n = replay (upto_seq (b n) (?log n)) (\<lambda>_. None)"
      unfolding u(3) [OF n(2)] step [OF n(1)] replay_append by simp
  qed
  moreover have "holds_cursors ?K b u"
    unfolding holds_cursors_def valid
  proof (intro ballI)
    fix n assume n: "n \<in> ?K"
    have "n \<noteq> GLOBAL_CURSOR_KEY \<and> (is_internal_cursor_key n \<or> \<not> invalid_table n t)"
      using caught n unfolding holds_cursors_def by blast
    then show "n \<noteq> GLOBAL_CURSOR_KEY \<and> (is_internal_cursor_key n \<or> \<not> invalid_table n t) \<and>
        (\<forall>e. cursor_of n u = Some e \<longrightarrow> (\<exists>d. 0 \<le> d \<and> d \<le> b n \<and> e = int_to_string d))"
      using stored [OF n] by auto
  qed
  moreover have "has_tables ?N u" using caught by (simp add: has_tables_def valid)
  moreover have "orderly_within k (after_seq (b n) (?log n))" if "n \<in> ?N" "\<not> is_join n" for n
  proof -
    have "orderly_within k (after_seq (a n) (?log n))" using caught that by blast
    then show ?thesis unfolding rest [OF that(1)] by (rule orderly_later)
  qed
  ultimately have held: "caught k s ns ?N ?K b u" unfolding caught_def by blast
  show thesis
    by (rule that [OF p(1) _ p(4) keys ab seen held _ more none]) (use u(1) stored in \<open>simp_all add: apply_pull_result_def\<close>)
qed

lemma catch_up_replays:
  assumes ok: "feed_ok s ns" and k: "0 < k"
    and remote: "\<forall>cs. (\<exists>b. cursors_at cs b) \<longrightarrow> remote cs = page_of (canonical_page cfg lc dtoa feed s schema ns cs (Fin (of_nat k)) None j)"
    and "cursors_at cursors a" and "readable s ns schema (set (data_names cursors))"
    and "caught k s ns (set (data_names cursors)) (fst ` set cursors) a t"
  shows "\<exists>r u b. catch_up dtoa remote m cursors lst t = (Inr r, u) \<and> (\<forall>n. a n \<le> b n \<and> b n \<in> insert (a n) (seq_int ` set (feed_log s ns n))) \<and>
    caught k s ns (set (data_names cursors)) (fst ` set cursors) b u \<and>
    (0 < m \<longrightarrow> (\<forall>n \<in> fst ` set cursors. cursor_of n u = Some (int_to_string (b n))) \<and>
      (\<exists>p. r = Some p \<and> (waiting s ns (data_names cursors) a \<le> k * m \<longrightarrow> \<not> kp_more p) \<and>
        (\<not> kp_more p \<longrightarrow> (\<forall>n \<in> set (data_names cursors). after_seq (b n) (feed_log s ns n) = []))))"
  using assms(4-)
proof (induction m arbitrary: cursors a t lst)
  case 0
  then show ?case by (intro exI [of _ lst] exI [of _ t] exI [of _ a]) simp
next
  case (Suc m)
  let ?N = "set (data_names cursors)" and ?K = "fst ` set cursors"
  obtain p b u where p: "canonical_page cfg lc dtoa feed s schema ns cursors (Fin (of_nat k)) None j = Inr (PulledCanonical p [])"
    "apply_pull_result dtoa (CanonicalPull p) t = (Inr (), u)" "cursors_at (kp_cursors p) b"
    and keys: "\<And>n. jmap_get (kp_cursors p) n = None \<longleftrightarrow> jmap_get cursors n = None" and ab: "\<And>n. a n \<le> b n"
    and seen: "\<And>n. b n \<in> insert (a n) (seq_int ` set (feed_log s ns n))"
    and held: "caught k s ns ?N ?K b u" and stored: "\<And>n. n \<in> ?K \<Longrightarrow> cursor_of n u = Some (int_to_string (b n))"
    and more: "kp_more p \<Longrightarrow> waiting s ns (data_names cursors) b + k \<le> waiting s ns (data_names cursors) a \<and> k < waiting s ns (data_names cursors) a"
    and none: "\<And>n. \<not> kp_more p \<Longrightarrow> n \<in> ?N \<Longrightarrow> after_seq (b n) (feed_log s ns n) = []"
    by (rule catch_up_page [OF ok Suc.prems(1) k Suc.prems(2,3)]) (rule that)
  have reply: "remote cursors = Inr p" using remote Suc.prems(1) p(1) by (auto simp: page_of_def)
  show ?case
  proof (cases "kp_more p")
    case False
    then have "catch_up dtoa remote (Suc m) cursors lst t = (Inr (Some p), u)" using reply p(2) by simp
    then show ?thesis using ab seen held stored none False by blast
  next
    case True
    define cs where "cs = foldl (\<lambda>m (n, c). jmap_set n c m) cursors (kp_cursors p)"
    have run: "catch_up dtoa remote (Suc m) cursors lst t = catch_up dtoa remote m cs (Some p) u"
      using reply p(2) True by (simp add: cs_def)
    have oks: "jmap_ok (kp_cursors p)" "jmap_ok cursors" using p(3) Suc.prems(1) by (simp_all add: cursors_at_def)
    have get: "jmap_get cs n = jmap_get (kp_cursors p) n" for n
      using foldl_set_get(1) [OF oks(1), of "\<lambda>x. x" cursors n] keys [of n] unfolding cs_def by (simp split: option.splits)
    have "jmap_ok cs" using foldl_set_get(2) [OF oks(1) oks(2), of "\<lambda>x. x"] unfolding cs_def .
    then have at: "cursors_at cs b" using p(3) by (simp add: cursors_at_def get)
    have "n \<in> fst ` set cs \<longleftrightarrow> n \<in> ?K" for n
      unfolding key_get get using keys [of n] by (cases "jmap_get cursors n"; cases "jmap_get (kp_cursors p) n") simp_all
    then have K: "fst ` set cs = ?K" by blast
    then have N: "set (data_names cs) = ?N" by (simp add: data_names_def)
    have dist: "distinct (data_names cs)" "distinct (data_names cursors)" using \<open>jmap_ok cs\<close> oks(2) by (simp_all add: data_names_def)
    have wait: "waiting s ns (data_names cs) b = waiting s ns (data_names cursors) b" by (rule waiting_set [OF dist N])
    obtain r v c where IH: "catch_up dtoa remote m cs (Some p) u = (Inr r, v)" "\<And>n. b n \<le> c n \<and> c n \<in> insert (b n) (seq_int ` set (feed_log s ns n))" "caught k s ns ?N ?K c v"
      "0 < m \<longrightarrow> (\<forall>n \<in> ?K. cursor_of n v = Some (int_to_string (c n))) \<and>
        (\<exists>p. r = Some p \<and> (waiting s ns (data_names cursors) b \<le> k * m \<longrightarrow> \<not> kp_more p) \<and>
          (\<not> kp_more p \<longrightarrow> (\<forall>n \<in> ?N. after_seq (c n) (feed_log s ns n) = [])))"
      using Suc.IH [OF at] Suc.prems(2) held unfolding N K wait by metis
    have ac: "a n \<le> c n \<and> c n \<in> insert (a n) (seq_int ` set (feed_log s ns n))" for n
      using ab [of n] seen [of n] IH(2) [of n] by auto
    show ?thesis
    proof (cases m)
      case 0
      have "v = u" "r = Some p" using IH(1) 0 by simp_all
      moreover have "\<not> waiting s ns (data_names cursors) a \<le> k * Suc m" using more [OF True] 0 by simp
      ultimately show ?thesis unfolding run IH(1) using ab seen held stored True
        by (intro exI [of _ "Some p"] exI [of _ u] exI [of _ b]) simp
    next
      case (Suc l)
      have "waiting s ns (data_names cursors) a \<le> k * Suc m \<Longrightarrow> waiting s ns (data_names cursors) b \<le> k * m"
        using more [OF True] by simp
      then show ?thesis unfolding run IH(1) using ac IH(3,4) Suc by blast
    qed
  qed
qed

end

end
