(* ===== verification/MemoryFeed.thy ===== *)
theory MemoryFeed
  imports SyncConverge
begin

text \<open>
  The in-memory database as a \<open>change_feed\<close>: the log of a table is what its rows of changes parse to,
  by sequence number.
\<close>

definition change_rows :: "memory_db \<Rightarrow> jsrec list" where
  "change_rows db = jmap_values (internal_table CHANGES db)"

definition row_change :: "jsrec \<Rightarrow> change_entry" where
  "row_change row = projr (change_of_row row)"

definition row_for :: "string \<Rightarrow> string \<Rightarrow> jsrec \<Rightarrow> bool" where
  "row_for ns n row \<longleftrightarrow> js_get row ''namespace'' = JStr ns \<and> js_get row ''resource'' = JStr n"

definition change_row_ok :: "jsrec \<Rightarrow> bool" where
  "change_row_ok row \<longleftrightarrow> (\<exists>ns n k c. js_get row ''namespace'' = JStr ns \<and> js_get row ''resource'' = JStr n \<and>
     js_get row ''server_seq'' = JNum (seqnum k) \<and> 0 < k \<and> k < PRINTED \<and> change_of_row row = Inr c)"

definition table_changes :: "memory_db \<Rightarrow> string \<Rightarrow> string \<Rightarrow> change_entry list" where
  "table_changes db ns n = map row_change (filter (row_for ns n) (change_rows db))"

definition memory_log :: "memory_db \<Rightarrow> string \<Rightarrow> string \<Rightarrow> change_entry list" where
  "memory_log db ns n = sort_key seq_int (table_changes db ns n)"

definition memory_log_ok :: "memory_db \<Rightarrow> string \<Rightarrow> bool" where
  "memory_log_ok db ns \<longleftrightarrow> (\<forall>row \<in> set (change_rows db). change_row_ok row) \<and> (\<forall>n. distinct (map seq_int (table_changes db ns n)))"

lemma row_change_seq:
  assumes "change_row_ok row"
  shows "js_get row ''server_seq'' = JNum (seqnum (seq_int (row_change row)))" and "numbered (row_change row)" and "seq_int (row_change row) < PRINTED"
    and "change_of_row row = Inr (row_change row)"
proof -
  obtain k c where row: "js_get row ''server_seq'' = JNum (seqnum k)" "0 < k" "k < PRINTED" "change_of_row row = Inr c"
    using assms unfolding change_row_ok_def by blast
  have "ch_seq c = number_column ''server_seq'' row"
    using row(4) unfolding change_of_row_def Let_def by (auto split: if_splits option.splits jsval.splits)
  then have "ch_seq c = seqnum k" using row(1) by (simp add: number_column_def)
  then have "seq_int c = k" "numbered c" using row(2) by (simp_all add: seq_int_def numbered_def seqnum_def)
  then show "js_get row ''server_seq'' = JNum (seqnum (seq_int (row_change row)))" "numbered (row_change row)"
    "seq_int (row_change row) < PRINTED" "change_of_row row = Inr (row_change row)"
    using row by (simp_all add: row_change_def)
qed

section \<open>Sorting\<close>

lemma js_insert_key: "\<forall>y \<in> set ys. cmp x y \<le> 0 \<longleftrightarrow> f x \<le> f y \<Longrightarrow> js_insert cmp x ys = insort_key f x ys"
  by (induction ys) auto

lemma js_sort_key: "\<forall>x \<in> set xs. \<forall>y \<in> set xs. cmp x y \<le> 0 \<longleftrightarrow> f x \<le> f y \<Longrightarrow> js_sort cmp xs = sort_key f xs"
proof (induction xs)
  case (Cons x xs)
  then have "js_sort cmp xs = sort_key f xs" by simp
  moreover have "js_insert cmp x (sort_key f xs) = insort_key f x (sort_key f xs)" by (rule js_insert_key) (use Cons.prems in simp)
  ultimately show ?case by simp
qed simp

lemma map_insort: "map g (insort_key (\<lambda>x. f (g x)) x xs) = insort_key f (g x) (map g xs)"
  by (induction xs) auto

lemma map_sort: "map g (sort_key (\<lambda>x. f (g x)) xs) = sort_key f (map g xs)"
  by (induction xs) (simp_all add: map_insort)

lemma sort_key_strict: "distinct (map f xs) \<Longrightarrow> sorted_wrt (\<lambda>x y. f x < f y) (sort_key f xs)"
proof -
  assume d: "distinct (map f xs)"
  have "sorted (map f (sort_key f xs))" by simp
  moreover have "distinct (map f (sort_key f xs))" using d by (metis mset_map mset_sort mset_eq_imp_distinct_iff)
  ultimately have "sorted_wrt (<) (map f (sort_key f xs))" by (simp add: strict_sorted_iff)
  then show ?thesis by (simp add: sorted_wrt_map)
qed

section \<open>Reading\<close>

lemma filter_sum_pure: "(\<And>x. x \<in> set xs \<Longrightarrow> p x = Inr (b x)) \<Longrightarrow> filter_sum p xs = Inr (filter b xs)"
  by (induction xs) auto

lemma js_slice_take: "js_slice (Fin 0) (seqnum (int k)) xs = take k xs"
  by (auto simp: js_slice_def slice_index_def Let_def seqnum_def min_def)

lemma js_lt_num: "js_lt dtoa (JNum x) (JNum y) \<longleftrightarrow> x < y"
  by (simp add: js_lt_def js_primitive_def js_number_def)

definition since_clauses :: "string \<Rightarrow> string \<Rightarrow> int \<Rightarrow> internal_where list" where
  "since_clauses ns n a = [internal_clause_of ''namespace'' ''eq'' (JStr ns), internal_clause_of ''resource'' ''eq'' (JStr n),
     internal_clause_of ''server_seq'' ''gt'' (JNum (seqnum a))]"

lemma since_matches:
  assumes "change_row_ok (snd row)"
  shows "internal_match dtoa (since_clauses ns n a) row = Inr (row_for ns n (snd row) \<and> a < seq_int (row_change (snd row)))"
proof -
  obtain m r where "js_get (snd row) ''namespace'' = JStr m" "js_get (snd row) ''resource'' = JStr r"
    using assms unfolding change_row_ok_def by blast
  then show ?thesis using row_change_seq(1) [OF assms]
    by (auto simp: internal_match_def since_clauses_def internal_clause_of_def internal_clause_def value_eq_def row_for_def js_lt_num Let_def)
qed

lemma memory_ensure_changes:
  obtains s where "memory_db_adapter env (DbInternal (EnsureTable CHANGES)) db = (Inr Void, s)" and "internal_table CHANGES s = internal_table CHANGES db"
proof -
  have name: "table_name_ok CHANGES" by code_simp
  let ?s = "snd (memory_db_adapter env (DbInternal (EnsureTable CHANGES)) db)"
  have "memory_db_adapter env (DbInternal (EnsureTable CHANGES)) db = (Inr Void, ?s)" using name by simp
  moreover have "internal_table CHANGES ?s = internal_table CHANGES db"
    using name by (simp add: internal_table_def put_internal_def jmap_simps split: option.split)
  ultimately show thesis by (rule that)
qed

lemma memory_read:
  assumes "memory_log_ok db ns" and "0 < k"
  shows "get_changes_since (memory_db_adapter env) db ns n (seqnum a) (Some (seqnum (int k))) = Inr (take k (after_seq a (memory_log db ns n)))"
proof -
  let ?wanted = "\<lambda>row. row_for ns n row \<and> a < seq_int (row_change row)"
  let ?by = "compare_by (de_dtoa env) [\<lparr>ob_field = ''server_seq'', ob_ascending = True\<rparr>]"
  have ok: "\<And>row. row \<in> set (change_rows db) \<Longrightarrow> change_row_ok row" using assms(1) by (simp add: memory_log_ok_def)
  obtain s where s: "memory_db_adapter env (DbInternal (EnsureTable CHANGES)) db = (Inr Void, s)" "internal_table CHANGES s = internal_table CHANGES db"
    by (rule memory_ensure_changes)
  have "filter_sum (internal_match (de_dtoa env) (since_clauses ns n a)) (internal_table CHANGES s) =
      Inr (filter (\<lambda>row. ?wanted (snd row)) (internal_table CHANGES s))"
    by (rule filter_sum_pure, rule since_matches) (use ok in \<open>simp add: s(2) change_rows_def\<close>)
  moreover have "map snd (filter (\<lambda>row. ?wanted (snd row)) t) = filter ?wanted (map snd t)" for t :: table
    by (induction t) auto
  ultimately have found: "bind_sum (filter_sum (internal_match (de_dtoa env) (since_clauses ns n a)) (internal_table CHANGES s)) f =
      f (filter (\<lambda>row. ?wanted (snd row)) (internal_table CHANGES s))"
    and rows: "map snd (filter (\<lambda>row. ?wanted (snd row)) (internal_table CHANGES s)) = filter ?wanted (change_rows db)"
    for f :: "_ \<Rightarrow> db_error + db_answer" by (simp_all add: s(2) change_rows_def)
  have sort: "js_sort ?by (filter ?wanted (change_rows db)) = sort_key (\<lambda>row. seq_int (row_change row)) (filter ?wanted (change_rows db))"
  proof (rule js_sort_key, intro ballI)
    fix x y assume "x \<in> set (filter ?wanted (change_rows db))" and "y \<in> set (filter ?wanted (change_rows db))"
    then have "change_row_ok x" and "change_row_ok y" using ok by simp_all
    note this [THEN row_change_seq(1)]
    then show "?by x y \<le> 0 \<longleftrightarrow> seq_int (row_change x) \<le> seq_int (row_change y)" by (simp add: js_lt_num Let_def)
  qed
  let ?rows = "take k (sort_key (\<lambda>row. seq_int (row_change row)) (filter ?wanted (change_rows db)))"
  have read: "read_change_rows (memory_db_adapter env) db (since_clauses ns n a) ''server_seq'' (Some (seqnum (int k))) = Inr ?rows"
    unfolding read_change_rows_def s(1) prod.case sum.case unfolding memory_db_adapter.simps internal_crud.simps found
    by (simp add: rows internal_order_def apply_ordering_def sort js_slice_take starts_with_def rows_of_def)
  have parse: "map_sum_list change_of_row ?rows = Inr (map row_change ?rows)"
    by (rule map_sum_list_Inr_map, rule row_change_seq(4), rule ok) (auto dest: in_set_takeD)
  have "map row_change ?rows = take k (sort_key seq_int (map row_change (filter ?wanted (change_rows db))))"
    by (simp only: take_map [symmetric] map_sort)
  also have "map row_change (filter ?wanted (change_rows db)) = filter (\<lambda>c. a < seq_int c) (table_changes db ns n)"
    by (simp add: table_changes_def filter_map comp_def conj_commute)
  also have "sort_key seq_int (filter (\<lambda>c. a < seq_int c) (table_changes db ns n)) = after_seq a (memory_log db ns n)"
    by (simp add: after_seq_def memory_log_def filter_sort)
  finally have changes: "map row_change ?rows = take k (after_seq a (memory_log db ns n))" .
  have lmt: "positive_limit (Some (seqnum (int k))) = Some (seqnum (int k))" using assms(2) by (simp add: positive_limit_def)
  show ?thesis
    unfolding get_changes_since_def since_clauses_def [symmetric] read_changes_def lmt read bind_sum_simps parse changes ..
qed

interpretation memory_feed: change_feed "memory_db_adapter env" memory_log_ok memory_log for env
proof
  show "in_order (memory_log s ns n)" if "memory_log_ok s ns" for s ns n
    using that by (simp add: memory_log_def memory_log_ok_def sort_key_strict)
  show "numbered c \<and> seq_int c < PRINTED" if "memory_log_ok s ns" "c \<in> set (memory_log s ns n)" for s ns n c
    using that row_change_seq(2,3) by (auto simp: memory_log_def memory_log_ok_def table_changes_def)
  show "get_changes_since (memory_db_adapter env) s ns n (seqnum a) (Some (seqnum (int k))) = Inr (take k (after_seq a (memory_log s ns n)))"
    if "memory_log_ok s ns" "0 < k" for s ns k n a
    by (rule memory_read [OF that])
qed

end
