(* ===== verification/RecordedChanges.thy ===== *)
theory RecordedChanges
  imports MemoryFeed
begin

text \<open>
  Recording changes in the in-memory database: every row parses back to the change it was made from,
  and the log of each table grows by its changes.
\<close>

section \<open>A row\<close>

definition recordable :: "change_entry \<Rightarrow> bool" where
  "recordable c \<longleftrightarrow> numbered c \<and> seq_int c < PRINTED \<and> (\<forall>r. ch_record c = Some r \<longrightarrow> json_ok (JObj r))"

definition change_id :: "string \<Rightarrow> change_entry \<Rightarrow> string" where
  "change_id ns c = ''change:'' @ ns @ '':'' @ int_to_string (seq_int c) @ '':'' @ ch_resource c @ '':'' @ ch_id c"

lemma recordable_id: "recordable c \<Longrightarrow> js_get (change_row dtoa ns now c) ''id'' = JStr (change_id ns c)"
proof -
  assume c: "recordable c"
  then have "\<bar>seq_int c\<bar> < 10 ^ 21" by (simp add: recordable_def numbered_def PRINTED_def)
  then have "num_to_string dtoa (ch_seq c) = int_to_string (seq_int c)" using c num_to_string_int [of "seq_int c" dtoa] by (simp add: recordable_def numbered_def)
  then show ?thesis by (simp add: change_row_def js_get_def change_id_def)
qed

lemma change_row_parses: "recordable c \<Longrightarrow> change_of_row (change_row dtoa ns now c) = Inr c"
proof -
  assume c: "recordable c"
  let ?row = "change_row dtoa ns now c"
  have get: "js_get ?row ''server_seq'' = JNum (ch_seq c)" "js_get ?row ''resource'' = JStr (ch_resource c)"
    "js_get ?row ''record_id'' = JStr (ch_id c)" "js_get ?row ''op'' = JStr (ch_op c)"
    "js_get ?row ''record'' = (case ch_record c of None \<Rightarrow> JNull | Some r \<Rightarrow> JStr (json_val dtoa (JObj r)))"
    by (simp_all add: change_row_def js_get_def)
  show ?thesis
  proof (cases "ch_record c")
    case None
    then show ?thesis by (simp add: change_of_row_def string_column_def number_column_def get)
  next
    case (Some r)
    have parse: "json_parse (json_val dtoa (JObj r)) = Some (JObj r)"
      by (rule json_roundtrip_lib) (use c Some in \<open>simp add: recordable_def\<close>)
    moreover have "json_parse [] = None" by code_simp
    ultimately have "json_val dtoa (JObj r) \<noteq> []" by auto
    then show ?thesis using Some parse by (simp add: change_of_row_def string_column_def number_column_def get Let_def)
  qed
qed

lemma change_row_fine:
  assumes "recordable c"
  shows "change_row_ok (change_row dtoa ns now c)" and "row_change (change_row dtoa ns now c) = c"
    and "row_for m n (change_row dtoa ns now c) \<longleftrightarrow> m = ns \<and> ch_resource c = n"
proof -
  let ?row = "change_row dtoa ns now c"
  have "js_get ?row ''namespace'' = JStr ns" "js_get ?row ''resource'' = JStr (ch_resource c)" "js_get ?row ''server_seq'' = JNum (seqnum (seq_int c))"
    using assms by (simp_all add: change_row_def js_get_def recordable_def numbered_def seqnum_def)
  then show "change_row_ok ?row" and "row_for m n ?row \<longleftrightarrow> m = ns \<and> ch_resource c = n"
    using assms change_row_parses [OF assms] unfolding change_row_ok_def row_for_def recordable_def numbered_def by auto
  show "row_change ?row = c" using change_row_parses [OF assms] by (simp add: row_change_def)
qed

section \<open>Many rows\<close>

definition addable :: "jsrec \<Rightarrow> bool" where
  "addable r \<longleftrightarrow> js_truthy (js_get r ''id'') \<and> jmap_set ''id'' (js_get r ''id'') r = r"

lemma addable_row: "addable (change_row dtoa ns now c)"
  by (simp add: addable_def change_row_def js_get_def js_truthy_def)

lemma jmap_set_fresh: "k \<notin> fst ` set m \<Longrightarrow> jmap_set k v m = m @ [(k, v)]"
  by (induction m) auto

lemma create_row:
  assumes "addable r" and "js_get r ''id'' \<notin> fst ` set (internal_table n s)"
  shows "internal_create env n r s = (r, put_internal n (internal_table n s @ [(js_get r ''id'', r)]) s)"
  using assms by (simp add: internal_create_def id_or_new_def addable_def jmap_set_fresh)

lemma internal_table_put [simp]: "internal_table n (put_internal n t s) = t"
  by (simp add: internal_table_def put_internal_def jmap_simps)

lemma put_internal_twice: "put_internal n t (put_internal n u s) = put_internal n t s"
proof -
  have "jmap_set n t (jmap_set n u m) = jmap_set n t m" for m :: "(string, table) jmap" by (induction m) auto
  then show ?thesis by (simp add: put_internal_def)
qed

abbreviation keyed :: "jsrec list \<Rightarrow> table" where
  "keyed rs \<equiv> map (\<lambda>r. (js_get r ''id'', r)) rs"

lemma create_rows:
  assumes "\<forall>r \<in> set rs. addable r" and "distinct (map (\<lambda>r. js_get r ''id'') rs)"
    and "\<forall>r \<in> set rs. js_get r ''id'' \<notin> fst ` set (internal_table n s)"
  shows "internal_table n (snd (internal_create_many env n rs s)) = internal_table n s @ keyed rs"
  using assms
proof (induction rs arbitrary: s)
  case (Cons r rs)
  let ?s = "put_internal n (internal_table n s @ [(js_get r ''id'', r)]) s"
  have step: "internal_create env n r s = (r, ?s)" using Cons.prems by (intro create_row) simp_all
  have other: "\<forall>x \<in> set rs. js_get x ''id'' \<noteq> js_get r ''id''" using Cons.prems(2) by (auto simp: image_iff)
  have "internal_table n (snd (internal_create_many env n rs ?s)) = internal_table n ?s @ keyed rs"
    using Cons.prems other by (intro Cons.IH) auto
  then show ?case by (simp add: step split_beta)
qed simp

lemma create_each_rows:
  assumes "\<forall>r \<in> set rs. addable r" and "distinct (map (\<lambda>r. js_get r ''id'') rs)"
    and "\<forall>r \<in> set rs. js_get r ''id'' \<notin> fst ` set (internal_table CHANGES s)"
  shows "\<exists>s'. create_each (memory_db_adapter env) rs s = (Inr (), s') \<and> internal_table CHANGES s' = internal_table CHANGES s @ keyed rs"
  using assms
proof (induction rs arbitrary: s)
  case (Cons r rs)
  let ?s = "put_internal CHANGES (internal_table CHANGES s @ [(js_get r ''id'', r)]) s"
  have step: "internal_create env CHANGES r s = (r, ?s)" using Cons.prems by (intro create_row) simp_all
  have other: "\<forall>x \<in> set rs. js_get x ''id'' \<noteq> js_get r ''id''" using Cons.prems(2) by (auto simp: image_iff)
  have "\<exists>s'. create_each (memory_db_adapter env) rs ?s = (Inr (), s') \<and> internal_table CHANGES s' = internal_table CHANGES ?s @ keyed rs"
    using Cons.prems other by (intro Cons.IH) auto
  then show ?case by (simp add: step)
qed simp

text \<open>With or without \<open>createMany\<close>, the rows are added to the table of changes.\<close>

lemma record_changes_rows:
  assumes "entries \<noteq> []" and "\<forall>c \<in> set entries. recordable c" and "distinct (map (change_id ns) entries)"
    and "\<forall>c \<in> set entries. JStr (change_id ns c) \<notin> fst ` set (internal_table CHANGES db)"
  obtains db' where "record_changes (de_dtoa env) (memory_db_adapter env) batched ns now entries (db, e) = (Inr (), db', True)"
    and "change_rows db' = change_rows db @ map (change_row (de_dtoa env) ns now) entries"
proof -
  let ?rows = "map (change_row (de_dtoa env) ns now) entries"
  obtain s where ens: "memory_db_adapter env (DbInternal (EnsureTable CHANGES)) db = (Inr Void, s)" "internal_table CHANGES s = internal_table CHANGES db"
    by (rule memory_ensure_changes)
  define s1 where "s1 = (if e then db else s)"
  have s1: "(if e then (Inr Void, db) else memory_db_adapter env (DbInternal (EnsureTable CHANGES)) db) = (Inr Void, s1)"
    and tab: "internal_table CHANGES s1 = internal_table CHANGES db" using ens by (simp_all add: s1_def)
  have ids: "map (\<lambda>r. js_get r ''id'') ?rows = map (\<lambda>c. JStr (change_id ns c)) entries"
    using assms(2) recordable_id by simp
  have dist: "distinct (map (\<lambda>r. js_get r ''id'') ?rows)" unfolding ids using assms(3) by (simp add: distinct_map inj_on_def)
  have fresh: "\<forall>r \<in> set ?rows. js_get r ''id'' \<notin> fst ` set (internal_table CHANGES s1)"
    using assms(2,4) recordable_id tab by auto
  have add: "\<forall>r \<in> set ?rows. addable r" using addable_row by auto
  let ?ad = "memory_db_adapter env"
  have start: "record_changes (de_dtoa env) ?ad batched ns now entries (db, e) =
      (if batched then (case ?ad (DbInternal (InternalCreateMany CHANGES ?rows)) s1 of (r, s') \<Rightarrow> (map_sum id (\<lambda>_. ()) r, s', True))
       else (case create_each ?ad ?rows s1 of (r, s') \<Rightarrow> (r, s', True)))"
    using assms(1) by (simp only: record_changes_def if_False snd_conv fst_conv s1 prod.case sum.case Let_def)
  show thesis
  proof (cases batched)
    case True
    let ?s2 = "if jmap_has (md_internal s1) CHANGES then s1 else put_internal CHANGES [] s1"
    have tab2: "internal_table CHANGES ?s2 = internal_table CHANGES s1"
      by (auto simp: internal_table_def put_internal_def jmap_simps split: option.split)
    have "internal_table CHANGES (snd (internal_create_many env CHANGES ?rows ?s2)) = internal_table CHANGES ?s2 @ keyed ?rows"
      by (rule create_rows [OF add dist]) (use fresh tab2 in simp)
    then have "change_rows (snd (internal_create_many env CHANGES ?rows ?s2)) = change_rows db @ ?rows"
      unfolding change_rows_def tab2 tab by (simp add: comp_def)
    moreover have "record_changes (de_dtoa env) (memory_db_adapter env) batched ns now entries (db, e) =
        (Inr (), snd (internal_create_many env CHANGES ?rows ?s2), True)"
      unfolding start using True by (simp add: split_beta)
    ultimately show ?thesis using that by blast
  next
    case False
    obtain s' where s': "create_each (memory_db_adapter env) ?rows s1 = (Inr (), s')" "internal_table CHANGES s' = internal_table CHANGES s1 @ keyed ?rows"
      using create_each_rows [OF add dist fresh] by blast
    have "change_rows s' = change_rows db @ ?rows" unfolding change_rows_def s'(2) tab by (simp add: comp_def)
    moreover have "record_changes (de_dtoa env) (memory_db_adapter env) batched ns now entries (db, e) = (Inr (), s', True)"
      unfolding start using False s'(1) by simp
    ultimately show ?thesis using that by blast
  qed
qed

section \<open>The logs\<close>

lemma insort_append: "\<forall>y \<in> set ys. f x \<le> f y \<Longrightarrow> insort_key f x (zs @ ys) = insort_key f x zs @ ys"
  by (induction zs) (cases ys; auto)+

lemma sort_sorted_id: "sorted (map f ys) \<Longrightarrow> sort_key f ys = ys"
  by (induction ys) (simp_all add: insort_is_Cons)

lemma sort_append: "\<forall>x \<in> set xs. \<forall>y \<in> set ys. f x \<le> f y \<Longrightarrow> sorted (map f ys) \<Longrightarrow> sort_key f (xs @ ys) = sort_key f xs @ ys"
  by (induction xs) (auto simp: insort_append sort_sorted_id)

text \<open>New changes come in order and after every change of the namespace.\<close>

definition later_changes :: "memory_db \<Rightarrow> string \<Rightarrow> change_entry list \<Rightarrow> bool" where
  "later_changes db ns entries \<longleftrightarrow> (\<forall>c \<in> set entries. recordable c \<and> JStr (change_id ns c) \<notin> fst ` set (internal_table CHANGES db)) \<and>
     sorted_wrt (\<lambda>c d. seq_int c < seq_int d) entries \<and>
     (\<forall>n. \<forall>c \<in> set (memory_log db ns n). \<forall>d \<in> set entries. seq_int c < seq_int d)"

lemma ids_differ:
  assumes "0 \<le> seq_int c" and "0 \<le> seq_int d" and "change_id ns c = change_id ns d"
  shows "seq_int c = seq_int d"
proof -
  have digits: "CHR '':'' \<notin> set (int_to_string n)" if "0 \<le> n" for n
    using that digits_of_is_digit [of "nat n"] by (auto simp: int_to_string_def list_all_iff is_digit_def)
  have "int_to_string (seq_int c) = int_to_string (seq_int d)"
    using append_sep_inj [OF digits [OF assms(1)] digits [OF assms(2)]] assms(3) by (simp add: change_id_def)
  then have "js_parse_int (int_to_string (seq_int c)) = js_parse_int (int_to_string (seq_int d))" by simp
  then show ?thesis using assms(1,2) by (simp add: parse_int_print)
qed

lemma log_grows:
  assumes ok: "memory_log_ok db ns" and new: "later_changes db ns entries" and "entries \<noteq> []"
  obtains db' where "record_changes (de_dtoa env) (memory_db_adapter env) batched ns now entries (db, e) = (Inr (), db', True)"
    and "memory_log_ok db' ns" and "\<And>n. memory_log db' ns n = memory_log db ns n @ filter (\<lambda>c. ch_resource c = n) entries"
proof -
  have rec: "\<forall>c \<in> set entries. recordable c" and fresh: "\<forall>c \<in> set entries. JStr (change_id ns c) \<notin> fst ` set (internal_table CHANGES db)"
    and order: "sorted_wrt (\<lambda>c d. seq_int c < seq_int d) entries"
    and after: "\<And>n c d. c \<in> set (memory_log db ns n) \<Longrightarrow> d \<in> set entries \<Longrightarrow> seq_int c < seq_int d"
    using new unfolding later_changes_def by blast+
  have pos: "\<forall>c \<in> set entries. 0 \<le> seq_int c" using rec by (auto simp: recordable_def numbered_def)
  have seqs: "distinct (map seq_int entries)" using order by (simp add: strict_sorted_iff sorted_wrt_map [symmetric])
  then have "inj_on (change_id ns) (set entries)" using ids_differ pos by (intro inj_onI) (metis distinct_map inj_onD)
  then have ids: "distinct (map (change_id ns) entries)" using seqs by (simp add: distinct_map)
  obtain db' where db': "record_changes (de_dtoa env) (memory_db_adapter env) batched ns now entries (db, e) = (Inr (), db', True)"
    "change_rows db' = change_rows db @ map (change_row (de_dtoa env) ns now) entries"
    by (rule record_changes_rows [OF assms(3) rec ids fresh])
  have tab: "table_changes db' ns n = table_changes db ns n @ filter (\<lambda>c. ch_resource c = n) entries" for n
  proof -
    have "map row_change (filter (row_for ns n) (map (change_row (de_dtoa env) ns now) cs)) = filter (\<lambda>c. ch_resource c = n) cs"
      if "\<forall>c \<in> set cs. recordable c" for cs
      using that by (induction cs) (auto simp: change_row_fine)
    then show ?thesis using rec by (simp add: table_changes_def db'(2))
  qed
  have low: "seq_int c < seq_int d" if "c \<in> set (table_changes db ns n)" "d \<in> set entries" for c d n
    using after [of c n d] that by (simp add: memory_log_def)
  have logs: "memory_log db' ns n = memory_log db ns n @ filter (\<lambda>c. ch_resource c = n) entries" for n
    unfolding memory_log_def tab
  proof (rule sort_append)
    show "\<forall>x \<in> set (table_changes db ns n). \<forall>y \<in> set (filter (\<lambda>c. ch_resource c = n) entries). seq_int x \<le> seq_int y"
      using low by (auto intro: less_imp_le)
    have "sorted_wrt (\<lambda>c d. seq_int c \<le> seq_int d) (filter (\<lambda>c. ch_resource c = n) entries)"
      using order by (intro sorted_wrt_filter) (auto elim: sorted_wrt_mono_rel [rotated])
    then show "sorted (map seq_int (filter (\<lambda>c. ch_resource c = n) entries))" by (simp add: sorted_wrt_map)
  qed
  have "memory_log_ok db' ns"
    unfolding memory_log_ok_def
  proof (intro conjI allI ballI)
    fix row assume "row \<in> set (change_rows db')"
    then show "change_row_ok row" using ok rec change_row_fine(1) by (auto simp: db'(2) memory_log_ok_def)
  next
    fix n
    have "distinct (map seq_int (filter (\<lambda>c. ch_resource c = n) entries))" using seqs by (simp add: distinct_map_filter)
    moreover have "distinct (map seq_int (table_changes db ns n))" using ok by (simp add: memory_log_ok_def)
    ultimately show "distinct (map seq_int (table_changes db' ns n))" unfolding tab using low by fastforce
  qed
  then show thesis using that [OF db'(1) _ logs] by blast
qed

end
