(* ===== verification/SyncProperties.thy ===== *)
theory SyncProperties
  imports MemoryFeed
begin

text \<open>
  The client's pull against the server's over the in-memory database: what the client's replicas of
  the tables are afterwards.
\<close>

section \<open>Client and server\<close>

definition sync_server ::
  "migration_config \<Rightarrow> (string \<Rightarrow> string \<Rightarrow> int) \<Rightarrow> db_env \<Rightarrow> policy_schema \<Rightarrow> string \<Rightarrow> string \<Rightarrow> jsnum \<Rightarrow> memory_db \<Rightarrow>
   (string, string) jmap \<Rightarrow> string + canonical_pull" where
  "sync_server cfg lc env schema ns clientId batch db cursors =
     page_of (execute_pull cfg lc (de_dtoa env) (memory_db_adapter env) db schema ns None (pull_request clientId (Some batch) cursors))"

definition position :: "client_storage \<Rightarrow> string \<Rightarrow> int" where
  "position t n = (case cursor_of n t of None \<Rightarrow> 0 | Some c \<Rightarrow> (case js_parse_int c of Fin q \<Rightarrow> \<lfloor>q\<rfloor> | _ \<Rightarrow> 0))"

text \<open>
  The tables of the client are public tables of the server whose changes are well formed; the
  client's replica of each is the replay of the server's log up to the client's cursor.
\<close>

definition pullable_tables :: "memory_db \<Rightarrow> string \<Rightarrow> policy_schema \<Rightarrow> string list \<Rightarrow> string list \<Rightarrow> client_storage \<Rightarrow> bool" where
  "pullable_tables db ns schema resources joinStores t \<longleftrightarrow> memory_log_ok db ns \<and>
     (\<forall>n \<in> set resources. \<not> is_join n \<and> public_table schema n \<and> (\<forall>c \<in> set (memory_log db ns n). good_change c)) \<and>
     (\<forall>n \<in> set joinStores. is_join n) \<and>
     (\<forall>n \<in> set (resources @ joinStores). n \<noteq> GLOBAL_CURSOR_KEY \<and> n \<noteq> ACTOR_FEED_CURSOR_KEY \<and> \<not> invalid_table n t) \<and>
     (\<forall>n \<in> set (resources @ joinStores @ [ACTOR_FEED_CURSOR_KEY]). \<forall>c. cursor_of n t = Some c \<longrightarrow> (\<exists>b. 0 \<le> b \<and> c = int_to_string b))"

definition synced :: "memory_db \<Rightarrow> string \<Rightarrow> string list \<Rightarrow> client_storage \<Rightarrow> bool" where
  "synced db ns resources t \<longleftrightarrow>
     (\<forall>n \<in> set resources. replica_of t n = replay (upto_seq (position t n) (memory_log db ns n)) (\<lambda>_. None))"

definition pending_orderly :: "nat \<Rightarrow> memory_db \<Rightarrow> string \<Rightarrow> string list \<Rightarrow> client_storage \<Rightarrow> bool" where
  "pending_orderly k db ns resources t \<longleftrightarrow> (\<forall>n \<in> set resources. orderly_within k (after_seq (position t n) (memory_log db ns n)))"

definition pending :: "memory_db \<Rightarrow> string \<Rightarrow> string list \<Rightarrow> client_storage \<Rightarrow> nat" where
  "pending db ns names t = (\<Sum>n \<in> set names. length (after_seq (position t n) (memory_log db ns n)))"

section \<open>The cursors that are sent\<close>

lemma validate_text: "0 \<le> a \<Longrightarrow> validate_cursor (int_to_string a)"
  using digits_of_is_digit digits_of_nonempty by (simp add: validate_cursor_def int_to_string_def)

lemma cursor_entries_texts:
  assumes "\<forall>(n, c) \<in> set cs. validate_cursor c"
  shows "cursor_entries (map (\<lambda>(n, c). (n, JStr c)) cs) = Inr cs"
  using assms by (induction cs) auto

lemma server_page:
  assumes "cursors_at cs b" and "clientId \<noteq> []" and "0 < k" and "k \<le> 1000"
  shows "sync_server cfg lc env schema ns clientId (Fin (of_nat k)) db cs =
    page_of (canonical_page cfg lc (de_dtoa env) (memory_db_adapter env) db schema ns cs (Fin (of_nat k)) None True)"
proof -
  obtain x xs where id: "clientId = x # xs" using assms(2) by (cases clientId) auto
  have "validate_cursor c" if "(n, c) \<in> set cs" for n c
  proof -
    have "jmap_get cs n = Some c" using assms(1) that by (simp add: cursors_at_def jmap_get_in_set)
    then have "0 \<le> b n \<and> c = int_to_string (b n)" using assms(1) unfolding cursors_at_def by blast
    then show ?thesis using validate_text by blast
  qed
  then have entries: "cursor_entries (map (\<lambda>(n, c). (n, JStr c)) cs) = Inr cs" by (intro cursor_entries_texts) blast
  let ?r = "pull_request clientId (Some (Fin (of_nat k))) cs"
  have get: "js_get ?r ''clientId'' = JStr (x # xs)" "js_get ?r ''cursor'' = JUndef"
    "js_get ?r ''cursors'' = JObj (map (\<lambda>(n, c). (n, JStr c)) cs)" "js_get ?r ''limit'' = JNum (Fin (of_nat k))"
    "js_get ?r ''actorId'' = JUndef" "js_get ?r ''includeJoins'' = JBool True"
    by (simp_all add: pull_request_def js_get_def id or_else_def)
  have lmt: "limit_of ?r (Fin 200) = Fin (of_nat k)" "valid_limit (Fin (of_nat k))" "js_min (Fin (of_nat k)) (Fin 1000) = Fin (of_nat k)"
    using assms(3,4) get(4) by (simp_all add: limit_of_def js_nullish_def number_of_def valid_limit_def js_is_integer_def js_min_def)
  show ?thesis
    unfolding sync_server_def execute_pull_def get jsval.case list.case execute_pull_canonical_def entries sum.case option.case lmt Let_def
    by (simp add: lmt non_empty_string_def js_truthy_def)
qed

lemma sent_cursors:
  assumes "\<forall>n \<in> set names. is_internal_cursor_key n \<or> \<not> invalid_table n t"
    and "\<forall>n \<in> set names. \<forall>c. cursor_of n t = Some c \<longrightarrow> (\<exists>b. 0 \<le> b \<and> c = int_to_string b)"
    and "cursors_at cs (position t)"
  shows "\<exists>cs'. fold_sum (\<lambda>n m. bind_sum (fst (get_cursor n t)) (\<lambda>c. Inr (jmap_set n (or_else c ''0'') m))) names cs = Inr cs' \<and>
    cursors_at cs' (position t) \<and> fst ` set cs' = fst ` set cs \<union> set names"
  using assms
proof (induction names arbitrary: cs)
  case (Cons n names)
  have key: "is_internal_cursor_key n \<or> \<not> invalid_table n t" using Cons.prems(1) by simp
  have sent: "0 \<le> position t n \<and> or_else (cursor_of n t) ''0'' = int_to_string (position t n)"
  proof (cases "cursor_of n t")
    case None
    have "int_to_string 0 = ''0''" by code_simp
    then show ?thesis using None by (simp add: position_def or_else_def)
  next
    case (Some c)
    then obtain b where b: "0 \<le> b" "c = int_to_string b" using Cons.prems(2) by auto
    then have "js_parse_int c = seqnum b" using parse_int_print by blast
    then show ?thesis using Some b by (simp add: position_def or_else_def seqnum_def)
  qed
  have "e \<noteq> []" if "cursor_of n t = Some e" for e using Cons.prems(2) that int_text_nonempty by auto
  then have get: "fst (get_cursor n t) = Inr (cursor_of n t)"
    using key by (cases "cursor_of n t") (auto simp: get_cursor_def cursor_table_ok cursor_of_def)
  let ?cs = "jmap_set n (or_else (cursor_of n t) ''0'') cs"
  have "cursors_at ?cs (position t)" using Cons.prems(3) sent by (auto simp: cursors_at_def jmap_simps)
  moreover have "fst ` set ?cs = insert n (fst ` set cs)" by (induction cs) auto
  ultimately show ?case using Cons.IH [of ?cs] Cons.prems(1,2) by (auto simp: get)
qed simp

section \<open>Pulling\<close>

lemma pull_result:
  assumes tables: "pullable_tables db ns schema resources joinStores t" and synced: "synced db ns resources t"
    and orderly: "pending_orderly k db ns resources t" and id: "clientId \<noteq> []" and k: "0 < k" "k \<le> 1000"
    and m: "0 < or_else iterations 50"
  obtains p u where
    "pull_now (de_dtoa env) (sync_server cfg lc env schema ns clientId (Fin (of_nat k)) db) resources joinStores iterations t = (Inr (Some p), u)"
    and "pullable_tables db ns schema resources joinStores u" and "synced db ns resources u" and "pending_orderly k db ns resources u"
    and "\<And>n. n \<in> set (resources @ joinStores) \<Longrightarrow> position t n \<le> position u n \<and>
      position u n \<in> insert (position t n) (seq_int ` set (memory_log db ns n))"
    and "pending db ns (resources @ joinStores) t \<le> k * or_else iterations 50 \<Longrightarrow> \<not> kp_more p"
    and "\<And>n. \<not> kp_more p \<Longrightarrow> n \<in> set (resources @ joinStores) \<Longrightarrow> after_seq (position u n) (memory_log db ns n) = []"
proof -
  let ?names = "resources @ joinStores @ [ACTOR_FEED_CURSOR_KEY]" and ?server = "sync_server cfg lc env schema ns clientId (Fin (of_nat k)) db"
  have log_ok: "memory_log_ok db ns" using tables unfolding pullable_tables_def by blast
  have names: "n \<noteq> GLOBAL_CURSOR_KEY \<and> (is_internal_cursor_key n \<or> \<not> invalid_table n t) \<and>
      (\<forall>c. cursor_of n t = Some c \<longrightarrow> (\<exists>b. 0 \<le> b \<and> c = int_to_string b))" if "n \<in> set ?names" for n
  proof (cases "n = ACTOR_FEED_CURSOR_KEY")
    case True
    then show ?thesis using tables that
      unfolding pullable_tables_def by (auto simp: ACTOR_FEED_CURSOR_KEY_def GLOBAL_CURSOR_KEY_def is_internal_cursor_key_def)
  next
    case False
    then have "n \<in> set (resources @ joinStores)" using that by auto
    then show ?thesis using tables that unfolding pullable_tables_def by blast
  qed
  obtain cs where cs: "build_pull_cursors resources joinStores t = Inr cs" "cursors_at cs (position t)" "fst ` set cs = set ?names"
    using sent_cursors [of ?names t "[]"] names by (auto simp: build_pull_cursors_def cursors_at_def)
  have data: "set (data_names cs) = set (resources @ joinStores)"
  proof -
    have "set (data_names cs) = set ?names - {ACTOR_FEED_CURSOR_KEY}" using cs(3) by (auto simp: data_names_def)
    also have "\<dots> = set (resources @ joinStores)" using tables unfolding pullable_tables_def by auto
    finally show ?thesis .
  qed
  have public: "n \<in> set resources" if "n \<in> set (resources @ joinStores)" "\<not> is_join n" for n
    using tables that unfolding pullable_tables_def by auto
  have readable: "memory_feed.readable db ns schema (set (data_names cs))"
    unfolding memory_feed.readable_def data using tables unfolding pullable_tables_def by auto
  have position_at: "0 \<le> position t n \<and> (\<forall>e. cursor_of n t = Some e \<longrightarrow> e = int_to_string (position t n))" if "n \<in> set ?names" for n
    using names [OF that] parse_int_print by (cases "cursor_of n t") (auto simp: position_def seqnum_def)
  have caught: "memory_feed.caught k db ns (set (data_names cs)) (fst ` set cs) (position t) t"
    unfolding memory_feed.caught_def data cs(3)
  proof (intro conjI)
    show "holds_log (memory_log db ns) (set (resources @ joinStores)) (position t) t"
      using synced public unfolding holds_log_def synced_def by blast
    show "holds_cursors (set ?names) (position t) t"
      unfolding holds_cursors_def using names position_at by blast
    show "has_tables (set (resources @ joinStores)) t"
      using tables unfolding has_tables_def pullable_tables_def by blast
    show "\<forall>n \<in> set (resources @ joinStores). \<not> is_join n \<longrightarrow> orderly_within k (after_seq (position t n) (memory_log db ns n))"
      using orderly public unfolding pending_orderly_def by blast
  qed
  have server: "\<forall>c. (\<exists>b. cursors_at c b) \<longrightarrow>
      ?server c = page_of (canonical_page cfg lc (de_dtoa env) (memory_db_adapter env) db schema ns c (Fin (of_nat k)) None True)"
    using server_page [OF _ id k] by blast
  obtain p u b where run: "catch_up (de_dtoa env) ?server (or_else iterations 50) cs None t = (Inr (Some p), u)"
    and ab: "\<forall>n. position t n \<le> b n \<and> b n \<in> insert (position t n) (seq_int ` set (memory_log db ns n))" and held: "memory_feed.caught k db ns (set (data_names cs)) (fst ` set cs) b u"
    and stored: "\<forall>n \<in> fst ` set cs. cursor_of n u = Some (int_to_string (b n))"
    and enough: "memory_feed.waiting db ns (data_names cs) (position t) \<le> k * or_else iterations 50 \<longrightarrow> \<not> kp_more p"
    and ended: "\<not> kp_more p \<longrightarrow> (\<forall>n \<in> set (data_names cs). after_seq (b n) (memory_log db ns n) = [])"
    using memory_feed.catch_up_replays [OF log_ok k(1) server cs(2) readable caught, where m = "or_else iterations 50" and lst = None] m by auto
  have "cs \<noteq> []" using cs(3) by auto
  then have pull: "pull_now (de_dtoa env) ?server resources joinStores iterations t = (Inr (Some p), u)"
    using cs(1) run by (simp add: pull_now_def)
  have b: "position u n = b n \<and> 0 \<le> b n \<and> cursor_of n u = Some (int_to_string (b n))" if "n \<in> set ?names" for n
  proof -
    have "0 \<le> b n" using position_at [OF that] ab order_trans by blast
    moreover have "cursor_of n u = Some (int_to_string (b n))" using stored that cs(3) by blast
    ultimately show ?thesis by (simp add: position_def parse_int_print) (simp add: seqnum_def)
  qed
  note held = held [unfolded memory_feed.caught_def data cs(3)]
  have member: "n \<in> set ?names" if "n \<in> set (resources @ joinStores)" for n using that by auto
  have valid: "\<not> invalid_table n u" if "n \<in> set (resources @ joinStores)" for n
  proof -
    have "n \<noteq> GLOBAL_CURSOR_KEY \<and> n \<noteq> ACTOR_FEED_CURSOR_KEY" using tables that unfolding pullable_tables_def by blast
    then have "\<not> is_internal_cursor_key n" by (simp add: is_internal_cursor_key_def GLOBAL_CURSOR_KEY_def ACTOR_FEED_CURSOR_KEY_def)
    then show ?thesis using held member [OF that] unfolding holds_cursors_def by blast
  qed
  show thesis
  proof (rule that [OF pull])
    show "pullable_tables db ns schema resources joinStores u"
      unfolding pullable_tables_def
    proof (intro conjI)
      show "\<forall>n \<in> set (resources @ joinStores). n \<noteq> GLOBAL_CURSOR_KEY \<and> n \<noteq> ACTOR_FEED_CURSOR_KEY \<and> \<not> invalid_table n u"
        using tables valid unfolding pullable_tables_def by blast
      show "\<forall>n \<in> set ?names. \<forall>c. cursor_of n u = Some c \<longrightarrow> (\<exists>b. 0 \<le> b \<and> c = int_to_string b)"
      proof (intro ballI allI impI)
        fix n c assume "n \<in> set ?names" and "cursor_of n u = Some c"
        then show "\<exists>b. 0 \<le> b \<and> c = int_to_string b" using b [of n] by auto
      qed
    qed (use tables in \<open>simp_all add: pullable_tables_def\<close>)
    show "synced db ns resources u"
      unfolding synced_def
    proof
      fix n assume n: "n \<in> set resources"
      then have "\<not> is_join n" using tables unfolding pullable_tables_def by blast
      then have "replica_of u n = replay (upto_seq (b n) (memory_log db ns n)) (\<lambda>_. None)"
        using held n unfolding holds_log_def by auto
      then show "replica_of u n = replay (upto_seq (position u n) (memory_log db ns n)) (\<lambda>_. None)" using b n by auto
    qed
    show "pending_orderly k db ns resources u"
      unfolding pending_orderly_def
    proof
      fix n assume n: "n \<in> set resources"
      then have "\<not> is_join n" using tables unfolding pullable_tables_def by blast
      then show "orderly_within k (after_seq (position u n) (memory_log db ns n))" using held n b by auto
    qed
    show "position t n \<le> position u n \<and> position u n \<in> insert (position t n) (seq_int ` set (memory_log db ns n))" if "n \<in> set (resources @ joinStores)" for n using ab b member [OF that] by metis
    have "distinct (data_names cs)" using cs(2) by (simp add: data_names_def cursors_at_def)
    then have "memory_feed.waiting db ns (data_names cs) (position t) = pending db ns (resources @ joinStores) t"
      by (simp only: memory_feed.waiting_def pending_def sum_list_distinct_conv_sum_set data)
    then show "\<not> kp_more p" if "pending db ns (resources @ joinStores) t \<le> k * or_else iterations 50" using enough that by simp
    show "after_seq (position u n) (memory_log db ns n) = []" if "\<not> kp_more p" "n \<in> set (resources @ joinStores)" for n
      using ended that b member [OF that(2)] unfolding data by auto
  qed
qed

end
