(* ===== verification/SyncHistory.thy ===== *)
theory SyncHistory
  imports SyncProperties RecordedChanges
begin

text \<open>
  A client and a server that share a database of changes: changes are recorded and the client pulls,
  in any order; the client's replicas are always replays of what the server has recorded.
\<close>

section \<open>Histories\<close>

definition shared_tables :: "policy_schema \<Rightarrow> string list \<Rightarrow> string list \<Rightarrow> bool" where
  "shared_tables schema resources joinStores \<longleftrightarrow>
     (\<forall>n \<in> set resources. \<not> is_join n \<and> public_table schema n \<and> n \<noteq> GLOBAL_CURSOR_KEY \<and> n \<noteq> ACTOR_FEED_CURSOR_KEY) \<and>
     (\<forall>n \<in> set joinStores. is_join n)"

text \<open>
  The client starts with an empty storage and the server without changes. Changes are recorded with
  later sequence numbers; other writes leave the table of changes as it is; and a pull asks for
  pages of any allowed size, any number of times.
\<close>

inductive sync_history ::
  "migration_config \<Rightarrow> (string \<Rightarrow> string \<Rightarrow> int) \<Rightarrow> db_env \<Rightarrow> policy_schema \<Rightarrow> string \<Rightarrow> string list \<Rightarrow> string list \<Rightarrow>
   memory_db \<Rightarrow> client_storage \<Rightarrow> bool" for cfg lc env schema ns resources joinStores where
  sync_start: "sync_history cfg lc env schema ns resources joinStores db (new_storage (Some (resources @ joinStores)))"
    if "change_rows db = []"
| sync_recorded: "sync_history cfg lc env schema ns resources joinStores db' t"
    if "sync_history cfg lc env schema ns resources joinStores db t"
      and "later_changes db ns entries" and "\<forall>c \<in> set entries. ch_resource c \<in> set resources \<longrightarrow> good_change c"
      and "record_changes (de_dtoa env) (memory_db_adapter env) batched ns now entries (db, ensured) = (r, db', ensured')"
| sync_written: "sync_history cfg lc env schema ns resources joinStores db' t"
    if "sync_history cfg lc env schema ns resources joinStores db t" and "change_rows db' = change_rows db"
| sync_pulled: "sync_history cfg lc env schema ns resources joinStores db u"
    if "sync_history cfg lc env schema ns resources joinStores db t" and "pending_orderly k db ns resources t"
      and "clientId \<noteq> []" and "0 < k" and "k \<le> 1000" and "0 < or_else iterations 50"
      and "pull_now (de_dtoa env) (sync_server cfg lc env schema ns clientId (Fin (of_nat k)) db) resources joinStores iterations t = (r, u)"

section \<open>What every history keeps\<close>

definition positions_logged :: "memory_db \<Rightarrow> string \<Rightarrow> string list \<Rightarrow> client_storage \<Rightarrow> bool" where
  "positions_logged db ns names t \<longleftrightarrow> (\<forall>n \<in> set names. position t n \<in> insert 0 (seq_int ` set (memory_log db ns n)))"

lemma no_changes_log: "change_rows db = [] \<Longrightarrow> memory_log db ns n = []"
  by (simp add: memory_log_def table_changes_def)

lemma same_changes_log: "change_rows db' = change_rows db \<Longrightarrow> memory_log db' ns n = memory_log db ns n \<and> memory_log_ok db' ns = memory_log_ok db ns"
  by (simp add: memory_log_def memory_log_ok_def table_changes_def)

lemma upto_seq_append: "upto_seq a (xs @ ys) = upto_seq a xs @ upto_seq a ys"
  by (simp add: upto_seq_def)

lemma join_store_name: "is_join n \<Longrightarrow> n \<noteq> GLOBAL_CURSOR_KEY \<and> n \<noteq> ACTOR_FEED_CURSOR_KEY"
  by (auto simp: is_join_def starts_with_def GLOBAL_CURSOR_KEY_def ACTOR_FEED_CURSOR_KEY_def)

lemma start_holds:
  assumes "shared_tables schema resources joinStores" and "change_rows db = []"
  defines "t \<equiv> new_storage (Some (resources @ joinStores))"
  shows "pullable_tables db ns schema resources joinStores t" and "synced db ns resources t" and "positions_logged db ns (resources @ joinStores) t"
proof -
  have valid: "\<not> invalid_table n t" if "n \<in> set (resources @ joinStores)" for n
    using that by (auto simp: t_def invalid_table_def new_storage_def jset_simps)
  have no_cursor: "cursor_of n t = None" for n by (simp add: t_def cursor_of_def new_storage_def)
  have ok: "memory_log_ok db ns" using assms(2) by (simp add: memory_log_ok_def table_changes_def)
  have keys: "n \<noteq> GLOBAL_CURSOR_KEY \<and> n \<noteq> ACTOR_FEED_CURSOR_KEY" if "n \<in> set (resources @ joinStores)" for n
    using that assms(1) join_store_name unfolding shared_tables_def by auto
  show "pullable_tables db ns schema resources joinStores t"
    unfolding pullable_tables_def no_changes_log [OF assms(2)] no_cursor
    using assms(1) ok valid keys by (simp add: shared_tables_def)
  have "position t n = 0" for n by (simp add: position_def no_cursor)
  then show "positions_logged db ns (resources @ joinStores) t" by (simp add: positions_logged_def)
  have "records_of n t = []" for n by (simp add: t_def records_of_def new_storage_def or_else_def split: option.split)
  then have "replica_of t n = (\<lambda>_. None)" for n by (intro ext) (simp add: replica_of_def)
  then show "synced db ns resources t" by (simp add: synced_def no_changes_log [OF assms(2)] upto_seq_def replay_def)
qed

lemma recorded_holds:
  assumes tables: "pullable_tables db ns schema resources joinStores t" and held: "synced db ns resources t"
    and at: "positions_logged db ns (resources @ joinStores) t"
    and new: "later_changes db ns entries" and good: "\<forall>c \<in> set entries. ch_resource c \<in> set resources \<longrightarrow> good_change c"
    and ok: "memory_log_ok db' ns" and grown: "\<And>n. memory_log db' ns n = memory_log db ns n @ filter (\<lambda>c. ch_resource c = n) entries"
  shows "pullable_tables db' ns schema resources joinStores t" and "synced db' ns resources t" and "positions_logged db' ns (resources @ joinStores) t"
proof -
  show "pullable_tables db' ns schema resources joinStores t"
    using tables good ok unfolding pullable_tables_def grown by auto
  show "positions_logged db' ns (resources @ joinStores) t" using at unfolding positions_logged_def grown by auto
  show "synced db' ns resources t"
    unfolding synced_def
  proof
    fix n assume n: "n \<in> set resources"
    have "position t n < seq_int c" if "c \<in> set entries" for c
    proof -
      have "0 < seq_int c" using new that unfolding later_changes_def recordable_def numbered_def by blast
      moreover have "\<forall>d \<in> set (memory_log db ns n). seq_int d < seq_int c" using new that unfolding later_changes_def by blast
      moreover have "position t n \<in> insert 0 (seq_int ` set (memory_log db ns n))" using at n unfolding positions_logged_def by simp
      ultimately show ?thesis by auto
    qed
    then have "upto_seq (position t n) (filter (\<lambda>c. ch_resource c = n) entries) = []"
      by (auto simp: upto_seq_def filter_empty_conv not_le)
    then show "replica_of t n = replay (upto_seq (position t n) (memory_log db' ns n)) (\<lambda>_. None)"
      using held n unfolding synced_def grown upto_seq_append by simp
  qed
qed

lemma history_holds:
  assumes "sync_history cfg lc env schema ns resources joinStores db t" and "shared_tables schema resources joinStores"
  shows "pullable_tables db ns schema resources joinStores t \<and> synced db ns resources t \<and> positions_logged db ns (resources @ joinStores) t"
  using assms
proof (induction rule: sync_history.induct)
  case (sync_start db)
  then show ?case using start_holds by blast
next
  case (sync_recorded db t entries batched now ensured r db' ensured')
  note held = sync_recorded.IH [OF sync_recorded.prems]
  show ?case
  proof (cases "entries = []")
    case True
    then have "db' = db" using sync_recorded.hyps(4) by (simp add: record_changes_def)
    then show ?thesis using held by simp
  next
    case False
    have ok: "memory_log_ok db ns" using held by (simp add: pullable_tables_def)
    obtain db2 where run: "record_changes (de_dtoa env) (memory_db_adapter env) batched ns now entries (db, ensured) = (Inr (), db2, True)"
      and log: "memory_log_ok db2 ns" "\<And>n. memory_log db2 ns n = memory_log db ns n @ filter (\<lambda>c. ch_resource c = n) entries"
      by (rule log_grows [OF ok sync_recorded.hyps(2) False]) (rule that)
    have "db2 = db'" using run sync_recorded.hyps(4) by simp
    then show ?thesis using recorded_holds [of db ns schema resources joinStores t entries db'] held sync_recorded.hyps(2,3) log by blast
  qed
next
  case (sync_written db t db')
  note held = sync_written.IH [OF sync_written.prems]
  show ?case using held same_changes_log [OF sync_written.hyps(2)]
    by (simp add: pullable_tables_def synced_def positions_logged_def)
next
  case (sync_pulled db t k clientId iterations r u)
  have held: "pullable_tables db ns schema resources joinStores t" "synced db ns resources t" "positions_logged db ns (resources @ joinStores) t"
    using sync_pulled.IH [OF sync_pulled.prems] by blast+
  obtain p u2 where run: "pull_now (de_dtoa env) (sync_server cfg lc env schema ns clientId (Fin (of_nat k)) db) resources joinStores iterations t = (Inr (Some p), u2)"
    and after: "pullable_tables db ns schema resources joinStores u2" "synced db ns resources u2"
    and moved: "\<And>n. n \<in> set (resources @ joinStores) \<Longrightarrow> position t n \<le> position u2 n \<and>
      position u2 n \<in> insert (position t n) (seq_int ` set (memory_log db ns n))"
    by (rule pull_result [OF held(1,2) sync_pulled.hyps(2-6)]) (rule that)
  have "u2 = u" using run sync_pulled.hyps(7) by simp
  moreover have "positions_logged db ns (resources @ joinStores) u2"
    unfolding positions_logged_def
  proof
    fix n assume n: "n \<in> set (resources @ joinStores)"
    then show "position u2 n \<in> insert 0 (seq_int ` set (memory_log db ns n))"
      using moved [OF n] held(3) unfolding positions_logged_def by (metis insert_iff)
  qed
  ultimately show ?case using after by simp
qed

section \<open>A small history\<close>

text \<open>One note is written, deleted and written again; the client reads one change at a time.\<close>

definition sync_env :: db_env where
  "sync_env = \<lparr>de_dtoa = (\<lambda>_. []), de_uuid = (\<lambda>_. ''u''),
     de_naming = \<lparr>nc_enabled = False, nc_separator = [], nc_prefix = None, nc_schema_support = False\<rparr>\<rparr>"

definition note_change :: "int \<Rightarrow> string \<Rightarrow> string \<Rightarrow> change_entry" where
  "note_change k op title = \<lparr>ch_seq = seqnum k, ch_resource = ''notes'', ch_id = ''a'', ch_op = op,
     ch_record = (if op = ''delete'' then None else Some [(''id'', JStr ''a''), (''t'', JStr title)])\<rparr>"

definition open_schema :: policy_schema where
  "open_schema = \<lparr>ps_resources = [], ps_relations = None, ps_capabilities = None, ps_defaults = None\<rparr>"

definition noted :: "change_entry list" where
  "noted = [note_change 1 ''insert'' ''x'', note_change 2 ''delete'' [], note_change 3 ''insert'' ''y'']"

definition notes_db :: "change_entry list \<Rightarrow> memory_db" where
  "notes_db cs = fst (snd (record_changes (de_dtoa sync_env) (memory_db_adapter sync_env) False [] [] cs (empty_db, False)))"

definition notes_client :: client_storage where "notes_client = new_storage (Some [''notes''])"

definition notes_pull :: "nat \<Rightarrow> change_entry list \<Rightarrow> client_storage \<Rightarrow> (sync_error + canonical_pull option) \<times> client_storage" where
  "notes_pull k cs t =
     pull_now (de_dtoa sync_env) (sync_server DEFAULT_RUNTIME_CONFIG str_cmp sync_env open_schema [] ''c'' (Fin (of_nat k)) (notes_db cs)) [''notes''] [] (Some 3) t"

lemma note_good: "op \<in> {''insert'', ''merge'', ''delete''} \<Longrightarrow> good_change (note_change k op v)"
proof -
  assume op: "op \<in> {''insert'', ''merge'', ''delete''}"
  have "good_id ''a''" by code_simp
  then have "good_record ''a'' [(''id'', JStr ''a''), (''t'', JStr v)]" by (simp add: good_record_def js_get_def)
  then show ?thesis using op by (auto simp: good_change_def note_change_def SETS_def flat_record_def)
qed

lemma note_recordable: "0 < k \<Longrightarrow> k < 10 \<Longrightarrow> recordable (note_change k op v)"
  by (simp add: recordable_def numbered_def note_change_def seq_int_def seqnum_def PRINTED_def)

lemma no_notes: "change_rows empty_db = []" and no_note_rows: "internal_table CHANGES empty_db = []"
  by code_simp+

lemma noted_later: "later_changes empty_db [] noted"
  using note_recordable no_notes
  by (simp add: later_changes_def noted_def no_note_rows no_changes_log) (simp add: note_change_def seq_int_def seqnum_def)

lemma notes_log: "memory_log (notes_db noted) [] ''notes'' = noted"
  by code_simp

lemma notes_shared: "shared_tables open_schema [''notes''] []"
  by code_simp

lemma notes_history: "sync_history DEFAULT_RUNTIME_CONFIG str_cmp sync_env open_schema [] [''notes''] [] (notes_db noted) notes_client"
proof -
  let ?run = "record_changes (de_dtoa sync_env) (memory_db_adapter sync_env) False [] [] noted (empty_db, False)"
  have "?run = (fst ?run, notes_db noted, snd (snd ?run))" by (simp add: notes_db_def)
  moreover have "\<forall>c \<in> set noted. ch_resource c \<in> set [''notes''] \<longrightarrow> good_change c" using note_good by (simp add: noted_def)
  moreover have "sync_history DEFAULT_RUNTIME_CONFIG str_cmp sync_env open_schema [] [''notes''] [] empty_db notes_client"
    using sync_start [OF no_notes, where resources = "[''notes'']" and joinStores = "[]"] by (simp add: notes_client_def)
  ultimately show ?thesis using sync_recorded noted_later by blast
qed

lemma notes_orderly: "pending_orderly 1 (notes_db noted) [] [''notes''] notes_client"
proof -
  have "position notes_client ''notes'' = 0" by code_simp
  moreover have "after_seq 0 noted = noted" by (simp add: after_seq_def noted_def note_change_def seq_int_def seqnum_def)
  moreover have "\<forall>c \<in> set noted. good_change c" using note_good by (simp add: noted_def)
  then have "orderly_within 1 noted" by (rule orderly_singly)
  ultimately show ?thesis by (simp add: pending_orderly_def notes_log)
qed

lemma notes_pulled:
  "sync_history DEFAULT_RUNTIME_CONFIG str_cmp sync_env open_schema [] [''notes''] [] (notes_db noted) (snd (notes_pull 1 noted notes_client))"
  by (rule sync_pulled [OF notes_history notes_orderly, where clientId = "''c''" and iterations = "Some 3"
      and r = "fst (notes_pull 1 noted notes_client)"]) (simp_all add: notes_pull_def or_else_def)

section \<open>A record that is lost\<close>

text \<open>
  A record that is deleted and inserted again is deleted on a client that reads both changes in one
  page: the page lists deletions apart from records, and the client applies them last.
\<close>

lemma reinserted_record_lost:
  "replica_of (snd (notes_pull 9 [note_change 1 ''delete'' [], note_change 2 ''insert'' ''x''] notes_client)) ''notes'' ''a'' = None"
  "replay [note_change 1 ''delete'' [], note_change 2 ''insert'' ''x''] (\<lambda>_. None) ''a'' \<noteq> None"
  by code_simp+

section \<open>Properties\<close>

text \<open>
  C5: In every history of recording and pulling, the client's replica of each table is the replay of
  the server's log of that table up to the client's cursor: no change up to the cursor is lost,
  applied twice or applied in another order, whatever the page size and wherever the pulls stopped.
  A pull with pages of \<open>k\<close> changes starts only where no record is written as a whole after a merge
  or a deletion of it, or merged into after its deletion, within \<open>k\<close> waiting changes of its table
  (\<open>pending_orderly\<close>, which pages of one change always satisfy); \<open>reinserted_record_lost\<close> and
  \<open>stale_merge_wins\<close> are what happens otherwise. Merged records are flat.
\<close>

theorem replicas_replay_log:
  assumes "sync_history cfg lc env schema ns resources joinStores db t" and "shared_tables schema resources joinStores"
    and "n \<in> set resources"
  shows "replica_of t n = replay (upto_seq (position t n) (memory_log db ns n)) (\<lambda>_. None)"
  using history_holds [OF assms(1,2)] assms(3) by (simp add: synced_def)

theorem replicas_replay_log_witness:
  "replica_of (snd (notes_pull 1 noted notes_client)) ''notes'' =
   replay (upto_seq (position (snd (notes_pull 1 noted notes_client)) ''notes'') noted) (\<lambda>_. None)"
  using replicas_replay_log [OF notes_pulled notes_shared, of "''notes''"] by (simp add: notes_log)

text \<open>
  C33: In every such history a pull with pages of \<open>k\<close> changes, 1 to 1000, that starts with its waiting
  changes orderly within \<open>k\<close> succeeds, moves no cursor back, and, when its pages have room for every
  change that is waiting, ends with the server having no more and each replica equal to the replay of
  the whole log.
\<close>

theorem pull_catches_up:
  assumes "sync_history cfg lc env schema ns resources joinStores db t" and "shared_tables schema resources joinStores"
    and "pending_orderly k db ns resources t" and "clientId \<noteq> []" and "0 < k" and "k \<le> 1000" and "0 < or_else iterations 50"
  shows "\<exists>p u. pull_now (de_dtoa env) (sync_server cfg lc env schema ns clientId (Fin (of_nat k)) db) resources joinStores iterations t = (Inr (Some p), u) \<and>
    (\<forall>n \<in> set (resources @ joinStores). position t n \<le> position u n) \<and>
    (pending db ns (resources @ joinStores) t \<le> k * or_else iterations 50 \<longrightarrow>
       \<not> kp_more p \<and> (\<forall>n \<in> set resources. replica_of u n = replay (memory_log db ns n) (\<lambda>_. None)))"
proof -
  have held: "pullable_tables db ns schema resources joinStores t" "synced db ns resources t" using history_holds [OF assms(1,2)] by blast+
  obtain p u where run: "pull_now (de_dtoa env) (sync_server cfg lc env schema ns clientId (Fin (of_nat k)) db) resources joinStores iterations t = (Inr (Some p), u)"
    and after: "pullable_tables db ns schema resources joinStores u" "synced db ns resources u"
    and moved: "\<And>n. n \<in> set (resources @ joinStores) \<Longrightarrow> position t n \<le> position u n \<and>
      position u n \<in> insert (position t n) (seq_int ` set (memory_log db ns n))"
    and room: "pending db ns (resources @ joinStores) t \<le> k * or_else iterations 50 \<Longrightarrow> \<not> kp_more p"
    and ended: "\<And>n. \<not> kp_more p \<Longrightarrow> n \<in> set (resources @ joinStores) \<Longrightarrow> after_seq (position u n) (memory_log db ns n) = []"
    by (rule pull_result [OF held assms(3-7)]) (rule that)
  have whole: "replica_of u n = replay (memory_log db ns n) (\<lambda>_. None)" if "\<not> kp_more p" "n \<in> set resources" for n
  proof -
    have "upto_seq (position u n) (memory_log db ns n) = memory_log db ns n"
      using ended [OF that(1)] that(2) by (auto simp: upto_seq_def after_seq_def filter_empty_conv filter_id_conv not_less)
    then show ?thesis using after(2) that(2) by (simp add: synced_def)
  qed
  show ?thesis
    by (rule exI [of _ p], rule exI [of _ u]) (use run moved room whole in blast)
qed

theorem pull_catches_up_witness:
  "\<exists>p u. notes_pull 1 noted notes_client = (Inr (Some p), u) \<and> \<not> kp_more p \<and> replica_of u ''notes'' = replay noted (\<lambda>_. None)"
proof -
  have "pending (notes_db noted) [] ([''notes''] @ []) notes_client \<le> 1 * or_else (Some 3) 50" by code_simp
  then show ?thesis
    using pull_catches_up [OF notes_history notes_shared notes_orderly, of "''c''" "Some 3"]
    by (auto simp: notes_pull_def notes_log or_else_def)
qed

text \<open>
  C34: Changes that are recorded with later sequence numbers, one by one or in a batch, are read back
  as they were recorded: the log of every table becomes what it was, followed by its changes in order.
\<close>

theorem recorded_changes_join_log:
  assumes "memory_log_ok db ns" and "later_changes db ns entries" and "entries \<noteq> []"
  shows "\<exists>db'. record_changes (de_dtoa env) (memory_db_adapter env) batched ns now entries (db, ensured) = (Inr (), db', True) \<and>
    memory_log_ok db' ns \<and>
    (\<forall>n a k. 0 < k \<longrightarrow> get_changes_since (memory_db_adapter env) db' ns n (seqnum a) (Some (seqnum (int k))) =
       Inr (take k (after_seq a (memory_log db ns n @ filter (\<lambda>c. ch_resource c = n) entries))))"
proof -
  obtain db' where db': "record_changes (de_dtoa env) (memory_db_adapter env) batched ns now entries (db, ensured) = (Inr (), db', True)"
    and ok: "memory_log_ok db' ns" and logs: "\<And>n. memory_log db' ns n = memory_log db ns n @ filter (\<lambda>c. ch_resource c = n) entries"
    by (rule log_grows [OF assms]) (rule that)
  then show ?thesis using memory_read [OF ok] by auto
qed

theorem recorded_changes_join_log_witness:
  "\<exists>db. record_changes (de_dtoa sync_env) (memory_db_adapter sync_env) True [] [] noted (empty_db, False) = (Inr (), db, True) \<and>
     get_changes_since (memory_db_adapter sync_env) db [] ''notes'' (seqnum 1) (Some (seqnum (int 5))) = Inr [note_change 2 ''delete'' [], note_change 3 ''insert'' ''y'']"
proof -
  have ok: "memory_log_ok empty_db []" by (simp add: memory_log_ok_def no_notes table_changes_def)
  have "noted \<noteq> []" by (simp add: noted_def)
  from recorded_changes_join_log [OF ok noted_later this, of sync_env True "[]" False]
  obtain db where db: "record_changes (de_dtoa sync_env) (memory_db_adapter sync_env) True [] [] noted (empty_db, False) = (Inr (), db, True)"
    and read: "get_changes_since (memory_db_adapter sync_env) db [] ''notes'' (seqnum 1) (Some (seqnum (int 5))) =
      Inr (take 5 (after_seq 1 (memory_log empty_db [] ''notes'' @ filter (\<lambda>c. ch_resource c = ''notes'') noted)))"
    by (metis zero_less_numeral)
  have "take 5 (after_seq 1 (memory_log empty_db [] ''notes'' @ filter (\<lambda>c. ch_resource c = ''notes'') noted)) = [note_change 2 ''delete'' [], note_change 3 ''insert'' ''y'']"
    by code_simp
  then show ?thesis using db read by auto
qed

end
