(* ===== verification/SyncDepartures.thy ===== *)
theory SyncDepartures
  imports SyncHistory
begin

text \<open>
  Where a client that has pulled everything holds something else than the replay of the log, on
  small logs: beside \<open>reinserted_record_lost\<close>, a merge that comes before a replacement of the
  record, and merges over the global cursor.
\<close>

section \<open>Merges in a page\<close>

text \<open>A page lists merges apart from whole records, and the client applies them after those.\<close>

definition overwritten :: "change_entry list" where
  "overwritten = [note_change 1 ''insert'' ''x'', note_change 2 ''merge'' ''y'', note_change 3 ''replace'' ''z'']"

lemma stale_merge_wins:
  "map_option (\<lambda>f. f ''t'') (replica_of (snd (notes_pull 9 overwritten notes_client)) ''notes'' ''a'') = Some (Some (JStr ''y''))"
  "map_option (\<lambda>f. f ''t'') (replay overwritten (\<lambda>_. None) ''a'') = Some (Some (JStr ''z''))"
  by code_simp+

section \<open>Merges over the global cursor\<close>

text \<open>
  With the global cursor a merge is sent as an \<open>upsert\<close> of the fields that changed, and the client
  replaces the record by them.
\<close>

definition notes_global :: "change_entry list \<Rightarrow> client_storage \<Rightarrow> client_storage" where
  "notes_global cs t =
     (case execute_pull DEFAULT_RUNTIME_CONFIG str_cmp (de_dtoa sync_env) (memory_db_adapter sync_env) (notes_db cs) open_schema [] None
         [(''clientId'', JStr ''c''), (''cursor'', JStr ''0'')] of
        Inr (PulledGlobal vs c _) \<Rightarrow>
          snd (apply_pull_global (map (\<lambda>v. \<lparr>pc_resource = vc_resource v, pc_id = vc_id v,
            pc_op = (if vc_delete v then ''delete'' else ''upsert''), pc_record = vc_record v\<rparr>) vs) c t)
      | _ \<Rightarrow> t)"

definition second_field :: "change_entry list" where
  "second_field = [note_change 1 ''insert'' ''x'', (note_change 2 ''merge'' [])\<lparr>ch_record := Some [(''id'', JStr ''a''), (''u'', JStr ''y'')]\<rparr>]"

lemma global_pull_truncates:
  "map_option (\<lambda>f. f ''t'') (replica_of (notes_global second_field notes_client) ''notes'' ''a'') = Some None"
  "map_option (\<lambda>f. f ''t'') (replay second_field (\<lambda>_. None) ''a'') = Some (Some (JStr ''x''))"
  by code_simp+

end
