(* ===== verification/Spec2Isabelle.thy ===== *)
theory Spec2Isabelle
  imports Prelude JsValue Json JsConvert LruCache Levenshtein ChunkSerializer StopWords Pipeline
    Indexing Scoring QueryEngine MemoryEngine MemoryInvariant MemorySearch MemoryAdapter AdapterRefinement AdapterProperties
    LikePattern DfqlFilters FilterProperties RecordOrder DfqlNormalize Relations RelationProperties
    SchemaViews Validation
    KvStores RateLimit WindowRefinement RateLimitBounds RateLimitStores PortRegistry PortProperties
    DbMemory DbInvariant DbProperties RowNamespace NamespaceIsolation
    AccessControl AccessCache AccessProperties FieldPolicy PolicyProperties
    GrantStore GrantMigration BackfillProperties GrantProperties
    ServerSequence SequenceLaws SequenceStores SequenceProperties
    ClientStorage SyncApply ChangeLog SyncPull SyncEngine
    Replica PageMeaning PageApply PullMerge PullPages ChangeFeed SyncConverge MemoryFeed
    RecordedChanges SyncProperties SyncHistory SyncDepartures
begin

text \<open>
  A model of core parts of the super-functions monorepo, with the theorems that make them
  correct. The repository is a collection of TypeScript libraries; modelled are the search
  engine (\<open>searchfn\<close>), the query language, the schemas and the authorization of the data layer
  (\<open>datafn\<close>), the shared rate limiter and in-memory database (\<open>packages\<close>) and the registry of
  ports of the development tool (\<open>devfn\<close>).

  \<^bold>\<open>Conventions.\<close> A class or an object with state is a record, and a method a function that
  returns its answer and the next state. A thrown error is \<open>Inl\<close> of a sum. A JavaScript \<open>Map\<close>
  is an association list in insertion order (\<open>jmap\<close>), a \<open>Set\<close> a list without repetition
  (\<open>jset\<close>), a value of type \<open>unknown\<close> a \<open>jsval\<close>. A number is a rational, NaN or an infinity
  (\<open>jsnum\<close>), so comparisons and the special values are those of IEEE 754 and rounding is not
  modelled; the integers of the binary codec are 32-bit words. A string is a list of code units
  up to U+00FF. What ECMAScript leaves open or what is outside the sources is an argument: \<open>dtoa\<close>
  prints a number that is no integer, \<open>mlog\<close> is \<open>Math.log\<close>, \<open>lc\<close> is \<open>localeCompare\<close>,
  \<open>date_parse\<close> is \<open>Date.parse\<close>, and the time is passed in. The sort is stable.

  \<^bold>\<open>Ground.\<close> \<open>Prelude\<close>: maps, sets, the sort with the interface \<open>js_comparator\<close>, sums, lists.
  \<open>JsValue\<close>, \<open>Json\<close>, \<open>JsConvert\<close>: values, UTF-8, \<open>JSON.stringify\<close> and \<open>JSON.parse\<close> (with
  their round trip), \<open>String(v)\<close> and \<open>Number(v)\<close>.

  \<^bold>\<open>Search\<close> (\<open>searchfn/core/src\<close>, \<open>searchfn/adapter-memory/src\<close>). \<open>LruCache\<close>
  (\<open>cache/lru-cache.ts\<close>) is a heap of linked nodes, shown to refine a list; \<open>Levenshtein\<close>
  (\<open>utils/levenshtein.ts\<close>) computes the least number of edits; \<open>ChunkSerializer\<close>
  (\<open>storage/chunk-serializer.ts\<close>) round-trips posting lists; \<open>StopWords\<close> and \<open>Pipeline\<close>
  (\<open>pipeline\<close>) turn text into tokens; \<open>Indexing\<close> (\<open>indexing\<close>, \<open>query/document-stats.ts\<close>) feeds
  them to the index; \<open>Scoring\<close> (\<open>query/scoring.ts\<close>) is BM25; \<open>QueryEngine\<close>
  (\<open>query/query-engine.ts\<close>, \<open>engine/ts-search-core-engine.ts\<close>) loads chunks through the cache,
  which cannot be observed by terms without a colon. \<open>MemoryEngine\<close>, \<open>MemorySearch\<close> and \<open>MemoryAdapter\<close> are the in-memory
  adapter; \<open>MemoryInvariant\<close> relates index, statistics and documents, \<open>AdapterRefinement\<close> and
  \<open>AdapterProperties\<close> show that it refines a library of documents per resource.

  \<^bold>\<open>Queries and schemas\<close> (\<open>datafn/core/src\<close>). \<open>LikePattern\<close> and \<open>DfqlFilters\<close> (\<open>filters.ts\<close>)
  evaluate filters, \<open>FilterProperties\<close> says what they mean; \<open>RecordOrder\<close> (\<open>sort.ts\<close>,
  \<open>select.ts\<close>, \<open>aggregate.ts\<close>) sorts and aggregates; \<open>DfqlNormalize\<close> (\<open>normalize.ts\<close>) makes cache
  keys; \<open>Relations\<close> and \<open>RelationProperties\<close> are relations, foreign keys and join stores;
  \<open>SchemaViews\<close> the index of a schema, the key-value resource and capabilities; \<open>Validation\<close>
  error envelopes and the checks of values.

  \<^bold>\<open>Stores and limits\<close> (\<open>packages/middleware/src/rate-limit.ts\<close>,
  \<open>packages/db/src/adapters/memory/stores.ts\<close>, \<open>datafn/server/src/middleware/rate-limit.ts\<close>).
  \<open>KvStores\<close> are the key-value stores, with the contract \<open>kv_backend\<close>; \<open>RateLimit\<close> the three
  algorithms and the limiters. \<open>WindowRefinement\<close> shows over any \<open>kv_backend\<close> that the fixed
  window refines a counter per window; \<open>RateLimitBounds\<close> bounds the sliding window and the token
  bucket; \<open>RateLimitStores\<close> shows that checking many keys charges all or none and that a commit by
  compare-and-set is one uninterrupted check.

  \<^bold>\<open>Database\<close> (\<open>packages/db/src\<close>). \<open>DbMemory\<close> is the in-memory adapter behind the factory,
  with transactions as programs over the adapter; \<open>DbInvariant\<close> and \<open>DbProperties\<close> its invariant,
  transactions, pages and table names. \<open>RowNamespace\<close> wraps any adapter;
  \<open>NamespaceIsolation\<close> proves over the interface \<open>row_store\<close> that what other namespaces do cannot be
  observed, and interprets it on the in-memory adapter.

  \<^bold>\<open>Authorization\<close> (\<open>datafn/server/src\<close>). \<open>AccessControl\<close> (\<open>execution/auth\<close>) resolves
  principals and levels; \<open>AccessCache\<close> shows its cache transparent and \<open>AccessProperties\<close> what is
  decided. \<open>FieldPolicy\<close> (\<open>validation/authz.ts\<close>) checks the fields of queries and mutations, with
  \<open>PolicyProperties\<close>. \<open>GrantStore\<close> (\<open>validation/authz.ts\<close>, \<open>routes/query.ts\<close>) reads memberships,
  hierarchy and grants from an adapter; \<open>GrantProperties\<close> composes it with the in-memory database.
  \<open>GrantMigration\<close> (\<open>execution/migration/spv2.ts\<close>) and \<open>BackfillProperties\<close> are the migration of
  grants.

  \<^bold>\<open>Synchronisation\<close> (\<open>datafn/server/src/execution/sync\<close>, \<open>datafn/client/src\<close>). \<open>ServerSequence\<close>
  (\<open>sequence-store.ts\<close>) gives out sequence numbers, from an atomic store with the database behind it;
  \<open>SequenceLaws\<close>, \<open>SequenceStores\<close> and \<open>SequenceProperties\<close> show that outages and restarts
  repeat none, if no database call is refused while a namespace has no row.
  \<open>ChangeLog\<close> (\<open>change-tracking.ts\<close>) records changes, \<open>SyncPull\<close> (\<open>pull.ts\<close>) answers pulls;
  \<open>ClientStorage\<close> (\<open>adapters/memoryStorage.ts\<close>) is the client's storage, \<open>SyncApply\<close>
  (\<open>sync/apply.ts\<close>) applies pages to it and \<open>SyncEngine\<close> (\<open>sync/engine.ts\<close>) pulls page by page.
  \<open>Replica\<close>, \<open>PageMeaning\<close> and \<open>PageApply\<close> say what a page does to a table, \<open>PullMerge\<close> and
  \<open>PullPages\<close> what a page holds, \<open>ChangeFeed\<close> and \<open>SyncConverge\<close> prove over the interface \<open>change_feed\<close>
  that pulling replays the log, and \<open>MemoryFeed\<close> interprets it on the in-memory database.
  \<open>RecordedChanges\<close> shows that what is recorded joins the log, \<open>SyncProperties\<close> what one pull does
  against this server, and \<open>SyncHistory\<close> that in every history of both, with no record
  written again in the page of its merge or deletion, the client's replicas are replays of the log up
  to its cursors. The log stands still during the pages of one pull.

  \<^bold>\<open>Ports\<close> (\<open>devfn/ports/src\<close>). \<open>PortRegistry\<close> is the registry's content and every operation on
  it; \<open>PortProperties\<close> shows that reachable registries never book a port twice.

  \<^bold>\<open>Interfaces.\<close> The locales \<open>js_comparator\<close> (sort and its clients), \<open>cache\<close> (the LRU cache
  and the query engine), \<open>kv_backend\<close> (rate limiter and key-value stores), \<open>document_store\<close> (the search
  contract and the in-memory adapter), \<open>token_pipeline\<close> (text pipeline and indexer),
  \<open>row_store\<close> (namespaces and database), \<open>sequence_rows\<close>, \<open>counting\<close> and \<open>failover\<close> (the two sequence
  stores and their chain) and \<open>change_feed\<close> (change log and pull) are interpreted on the model's own definitions.

  \<^bold>\<open>Bounds.\<close> The bounds are the code's: 16 attempts of a compare-and-set commit and 10 of an allocation, 50 pages of a pull, 100 ephemeral
  ports, a nesting of filters of \<open>MAX_FILTER_DEPTH\<close>, a hierarchy of 16 principals. No function
  needs further fuel: recursions end on their data or on such a bound, and the LIKE loop and
  the loop that raises a counter, partial functions, are proved to end. Sequence numbers are below
  \<open>10 ^ 21\<close>, where numbers are printed as digits.

  \<^bold>\<open>Where the code departs from its intent\<close> a theorem says what it does; among them are
  \<open>principals_never_refreshed\<close> and \<open>filter_reads_forbidden_field\<close> of the authorization,
  \<open>colliding_grants\<close> of the migration, \<open>high_water_lost\<close> of the sequence numbers,
  \<open>reinserted_record_lost\<close>, \<open>stale_merge_wins\<close> and \<open>global_pull_truncates\<close> of synchronisation, \<open>limit_zero_returns_all\<close>, \<open>update_duplicates_id\<close> and
  \<open>library_tables_collide\<close> of the database.

  \<^bold>\<open>Not modelled.\<close> Properties inherited from prototypes, \<open>Date\<close> and class values and the schema
  codecs that produce them; characters above U+00FF; rounding; integer-like keys, which
  ECMAScript iterates first; interleavings of asynchronous calls, except the environment of the
  compare-and-set loop (calls that the code queues or locks are sequences, and a check of access
  reads one state of the database); the identity of record objects; logging and metrics;
  the rate limiter's persistence in an \<open>Adapter\<close>; the registry's file and its lock. The other
  libraries of the repository are network services, user interfaces, generated catalogues and
  bindings, whose behaviour lies in what they call.
\<close>

end
